(* ===== verification/Prelude.thy ===== *)
theory Prelude
  imports Main "HOL-Library.Word" "HOL-Library.Sublist" "HOL-Library.Monad_Syntax"
begin

text \<open>
  The vocabulary the components share: machine integers and byte strings, the conversion
  between the bytes of a \<open>std::vector<uint8_t>\<close> and the characters of a \<open>std::string\<close>,
  integers in network byte order, writes into a bounded buffer, and the fact collections that
  carry the component proofs.
\<close>

named_theorems byte_simps \<open>round trips of byte, character and word conversions\<close>
named_theorems wire_simps \<open>layout facts of framed messages\<close>
named_theorems inv_intros \<open>an operation keeps its component's invariant\<close>

section \<open>Types\<close>

type_synonym u8 = "8 word"
type_synonym u16 = "16 word"
type_synonym u32 = "32 word"
type_synonym u64 = "64 word"
type_synonym bytes = "8 word list"

text \<open>The operating system the code is built for: the \<open>#ifdef\<close>s of the source.\<close>

datatype platform = Windows | Linux | Apple

section \<open>Strings and bytes\<close>

text \<open>A C++ \<open>char\<close> and a \<open>uint8_t\<close> are the same eight bits.\<close>

definition u8_of_char :: "char \<Rightarrow> u8" where
  "u8_of_char c = word_of_nat (of_char c)"

definition char_of_u8 :: "u8 \<Rightarrow> char" where
  "char_of_u8 b = char_of (unat b)"

definition bytes_of :: "string \<Rightarrow> bytes" where
  "bytes_of s = map u8_of_char s"

definition string_of :: "bytes \<Rightarrow> string" where
  "string_of bs = map char_of_u8 bs"

lemma char_of_u8_of_char [simp, byte_simps]: "char_of_u8 (u8_of_char c) = c"
proof -
  have "of_char c < (256 :: nat)" by simp
  then show ?thesis
    by (simp add: char_of_u8_def u8_of_char_def unat_of_nat)
qed

lemma u8_of_char_of_u8 [simp, byte_simps]: "u8_of_char (char_of_u8 b) = b"
proof -
  have "unat b < 256" using unsigned_less [of b] by simp
  then show ?thesis by (simp add: char_of_u8_def u8_of_char_def)
qed

lemma string_of_bytes_of [simp, byte_simps]: "string_of (bytes_of s) = s"
  by (simp add: string_of_def bytes_of_def comp_def)

lemma bytes_of_string_of [simp, byte_simps]: "bytes_of (string_of b) = b"
  by (simp add: string_of_def bytes_of_def comp_def)

lemma length_bytes_of [simp]: "length (bytes_of s) = length s"
  by (simp add: bytes_of_def)

lemma length_string_of [simp]: "length (string_of b) = length b"
  by (simp add: string_of_def)

lemma bytes_of_eq_Nil [simp]: "bytes_of s = [] \<longleftrightarrow> s = []"
  by (simp add: bytes_of_def)

lemma bytes_of_inject [simp]: "bytes_of s = bytes_of t \<longleftrightarrow> s = t"
  by (metis string_of_bytes_of)

section \<open>Big-endian integers\<close>

definition be16 :: "u16 \<Rightarrow> bytes" where
  "be16 w = [ucast (drop_bit 8 w), ucast w]"

fun un_be16 :: "bytes \<Rightarrow> u16" where
  "un_be16 [a, b] = push_bit 8 (ucast a) + ucast b"
| "un_be16 _ = 0"

definition be64 :: "u64 \<Rightarrow> bytes" where
  "be64 w = [ucast (drop_bit 56 w), ucast (drop_bit 48 w), ucast (drop_bit 40 w),
             ucast (drop_bit 32 w), ucast (drop_bit 24 w), ucast (drop_bit 16 w),
             ucast (drop_bit 8 w), ucast w]"

definition un_be64 :: "bytes \<Rightarrow> u64" where
  "un_be64 bs = foldl (\<lambda>acc b. push_bit 8 acc + ucast b) 0 bs"

lemma length_be16 [simp]: "length (be16 w) = 2"
  by (simp add: be16_def)

lemma length_be64 [simp]: "length (be64 w) = 8"
  by (simp add: be64_def)

lemma push_add_ucast_split:
  fixes w :: "'a::len word"
  assumes "8 < LENGTH('a)"
  shows "push_bit 8 (drop_bit (8 + n) w) + ucast (ucast (drop_bit n w) :: u8) = drop_bit n w"
proof -
  have "ucast (ucast (drop_bit n w) :: u8) = take_bit 8 (drop_bit n w)"
    by (rule bit_word_eqI) (use assms in \<open>auto simp: bit_simps\<close>)
  moreover have "drop_bit (8 + n) w = drop_bit 8 (drop_bit n w)"
    by (simp add: drop_bit_drop_bit add.commute)
  moreover have "push_bit 8 (drop_bit 8 x) + take_bit 8 x = x" for x :: "'a word"
    by (rule bits_ident)
  ultimately show ?thesis by metis
qed

lemma un_be16_be16 [simp, byte_simps]: "un_be16 (be16 w) = w"
proof -
  have "ucast (ucast (drop_bit 8 w) :: u8) = drop_bit 8 w"
    by (rule bit_word_eqI) (auto simp: bit_simps dest: bit_imp_le_length)
  then show ?thesis
    using push_add_ucast_split [of 0 w] by (simp add: be16_def)
qed

lemma un_be64_be64 [simp, byte_simps]: "un_be64 (be64 w) = w"
proof -
  have top: "ucast (ucast (drop_bit 56 w) :: u8) = drop_bit 56 w"
    by (rule bit_word_eqI) (auto simp: bit_simps dest: bit_imp_le_length)
  have step: "push_bit 8 (drop_bit (8 + n) w) + ucast (ucast (drop_bit n w) :: u8) = drop_bit n w" for n
    by (rule push_add_ucast_split) simp
  show ?thesis
    using step [of 48] step [of 40] step [of 32] step [of 24] step [of 16] step [of 8] step [of 0]
    by (simp add: un_be64_def be64_def top)
qed

lemma be16_exhaust:
  assumes "length bs = 2"
  shows "be16 (un_be16 bs) = bs"
proof -
  obtain a b where bs: "bs = [a, b]"
    using assms by (auto simp: numeral_2_eq_2 length_Suc_conv)
  have sum: "push_bit 8 (ucast a) + ucast b = (or (push_bit 8 (ucast a)) (ucast b) :: u16)"
    by (rule disjunctive_add) (auto simp: bit_simps dest: bit_imp_le_length)
  have "ucast (drop_bit 8 (or (push_bit 8 (ucast a)) (ucast b) :: u16)) = a"
    by (rule bit_word_eqI) (auto simp: bit_simps dest: bit_imp_le_length)
  moreover have "ucast (or (push_bit 8 (ucast a)) (ucast b) :: u16) = b"
    by (rule bit_word_eqI) (auto simp: bit_simps)
  ultimately show ?thesis by (simp add: bs be16_def sum)
qed

section \<open>Writes into a buffer of fixed size\<close>

text \<open>
  \<open>memcpy(dst + off, src, n)\<close> with the buffer as a list. A write past the end of the buffer
  is undefined behaviour in C++; here it is \<open>None\<close>, so that memory safety is the statement
  that an operation yields \<open>Some\<close>.
\<close>

definition mem_write :: "bytes \<Rightarrow> nat \<Rightarrow> bytes \<Rightarrow> bytes option" where
  "mem_write dst off src =
     (if off + length src \<le> length dst
      then Some (take off dst @ src @ drop (off + length src) dst) else None)"

definition mem_read :: "bytes \<Rightarrow> nat \<Rightarrow> nat \<Rightarrow> bytes option" where
  "mem_read src off n = (if off + n \<le> length src then Some (take n (drop off src)) else None)"

lemma mem_write_length: "mem_write dst off src = Some d \<Longrightarrow> length d = length dst"
  by (auto simp: mem_write_def split: if_splits)

lemma mem_writeE:
  assumes "off + length src \<le> length dst"
  obtains d where "mem_write dst off src = Some d" and "length d = length dst"
    and "take off d = take off dst" and "take (length src) (drop off d) = src"
  using assms by (auto simp: mem_write_def)

lemma mem_write_Some_iff: "(\<exists>d. mem_write dst off src = Some d) \<longleftrightarrow> off + length src \<le> length dst"
  by (simp add: mem_write_def)

lemma mem_write_prefix:
  assumes "mem_write dst (length p) src = Some d" and "prefix p dst"
  shows "prefix (p @ src) d"
  using assms by (auto simp: mem_write_def prefix_def split: if_splits)

section \<open>Options\<close>

text \<open>A computation that throws at its first failing element.\<close>

fun map_opt :: "('a \<Rightarrow> 'b option) \<Rightarrow> 'a list \<Rightarrow> 'b list option" where
  "map_opt f [] = Some []"
| "map_opt f (x # xs) = (case f x of None \<Rightarrow> None
     | Some y \<Rightarrow> (case map_opt f xs of None \<Rightarrow> None | Some ys \<Rightarrow> Some (y # ys)))"

lemma map_opt_Some: "map_opt (\<lambda>x. Some (f x)) xs = Some (map f xs)"
  by (induction xs) simp_all

lemma map_opt_eq_Some: "map_opt f xs = Some ys \<longleftrightarrow> list_all2 (\<lambda>x y. f x = Some y) xs ys"
proof (induction xs arbitrary: ys)
  case (Cons x xs)
  show ?case
    by (cases ys; cases "f x"; cases "map_opt f xs") (auto simp: Cons.IH [symmetric])
qed auto

lemma map_opt_length: "map_opt f xs = Some ys \<Longrightarrow> length ys = length xs"
  by (simp add: map_opt_eq_Some list_all2_lengthD)

end
