(* ===== verification/StringUtils.thy ===== *)
theory StringUtils
  imports Prelude
begin

text \<open>
  The string helpers of \<open>common/src/utils/StringUtils.cpp\<close>. A \<open>std::string\<close> is a
  \<open>string\<close> (a list of 8-bit characters), positions are \<open>nat\<close>, \<open>std::string::npos\<close> is
  \<open>None\<close>. \<open>Replace\<close> and \<open>Split\<close> keep the loops of the source over a position;
  \<open>subst_all\<close> and \<open>split_list\<close> are the structural reference functions they are proved
  equal to. \<open>Split\<close> with an empty delimiter never ends, so it is a
  \<open>partial_function (option)\<close>.
  Boost's \<open>hex\<close>, \<open>unhex\<close> and \<open>join\<close> and OpenSSL's \<open>RAND_bytes\<close> are arguments.
\<close>

section \<open>Searching\<close>

fun find_in :: "string \<Rightarrow> string \<Rightarrow> nat option" where
  "find_in pat [] = (if pat = [] then Some 0 else None)"
| "find_in pat (c # cs) =
     (if take (length pat) (c # cs) = pat then Some 0 else map_option Suc (find_in pat cs))"

definition str_find :: "string \<Rightarrow> string \<Rightarrow> nat \<Rightarrow> nat option" where
  "str_find s pat pos =
     (if pos \<le> length s then map_option (\<lambda>i. pos + i) (find_in pat (drop pos s)) else None)"

definition str_contains :: "string \<Rightarrow> string \<Rightarrow> bool" where
  "str_contains s pat \<longleftrightarrow> str_find s pat 0 \<noteq> None"

definition starts_with :: "string \<Rightarrow> string \<Rightarrow> bool" where
  "starts_with s p \<longleftrightarrow> take (length p) s = p"

lemma find_in_Some_bound: "find_in pat s = Some i \<Longrightarrow> i + length pat \<le> length s"
proof (induction pat s arbitrary: i rule: find_in.induct)
  case (1 pat)
  then show ?case by (auto split: if_splits)
next
  case (2 pat c cs)
  show ?case
  proof (cases "take (length pat) (c # cs) = pat")
    case True
    then have "length pat \<le> length (c # cs)"
      by (metis length_take min.cobounded1)
    with True 2 show ?thesis by simp
  next
    case False
    with 2 show ?thesis by auto
  qed
qed

lemma find_in_Some_match: "find_in pat s = Some i \<Longrightarrow> take (length pat) (drop i s) = pat"
  by (induction pat s arbitrary: i rule: find_in.induct) (auto split: if_splits)

lemma find_in_Some_split:
  "find_in pat s = Some i \<Longrightarrow> s = take i s @ pat @ drop (i + length pat) s"
  using find_in_Some_match [of pat s i]
  by (metis append_take_drop_id drop_drop add.commute)

lemma find_in_least:
  "find_in pat s = Some i \<Longrightarrow> j < i \<Longrightarrow> take (length pat) (drop j s) \<noteq> pat"
proof (induction pat s arbitrary: i j rule: find_in.induct)
  case (1 pat)
  then show ?case by (auto split: if_splits)
next
  case (2 pat c cs)
  then show ?case by (cases j) (auto split: if_splits)
qed

lemma find_in_None:
  "find_in pat s = None \<longleftrightarrow> (\<forall>j \<le> length s. take (length pat) (drop j s) \<noteq> pat)"
proof (induction pat s rule: find_in.induct)
  case (1 pat)
  then show ?case by auto
next
  case (2 pat c cs)
  have "(\<forall>j \<le> length (c # cs). take (length pat) (drop j (c # cs)) \<noteq> pat) \<longleftrightarrow>
        take (length pat) (c # cs) \<noteq> pat \<and> (\<forall>j \<le> length cs. take (length pat) (drop j cs) \<noteq> pat)"
    by (metis (no_types, lifting) Suc_le_mono drop0 drop_Suc_Cons length_Cons not0_implies_Suc zero_le)
  with 2 show ?case by simp
qed

lemma str_contains_infix: "str_contains s pat \<longleftrightarrow> (\<exists>a b. s = a @ pat @ b)"
proof
  assume "str_contains s pat"
  then obtain i where "find_in pat s = Some i"
    by (auto simp: str_contains_def str_find_def)
  then show "\<exists>a b. s = a @ pat @ b" using find_in_Some_split by blast
next
  assume "\<exists>a b. s = a @ pat @ b"
  then obtain a b where s: "s = a @ pat @ b" by blast
  then have "take (length pat) (drop (length a) s) = pat" by simp
  moreover have "length a \<le> length s" using s by simp
  ultimately have "find_in pat s \<noteq> None"
    using find_in_None by blast
  then show "str_contains s pat" by (simp add: str_contains_def str_find_def)
qed

lemma starts_with_prefix: "starts_with s p \<longleftrightarrow> prefix p s"
  by (metis append_eq_conv_conj prefix_def starts_with_def)

section \<open>Replace\<close>

lemma str_find_bounds:
  "str_find s pat st = Some p \<Longrightarrow> st \<le> p \<and> p + length pat \<le> length s"
  using find_in_Some_bound [of pat "drop st s"]
  by (fastforce simp: str_find_def split: if_splits)

lemma replace_progress:
  assumes "frm \<noteq> []" and "str_find r frm st = Some p"
  shows "Suc (length (take p r @ to @ drop (p + length frm) r)) - (p + (if to = [] then 1 else length to))
         < Suc (length r) - st"
proof -
  have b: "st \<le> p" "p + length frm \<le> length r" and f: "0 < length frm"
    using assms str_find_bounds [of r frm st p] by auto
  have "length (take p r @ to @ drop (p + length frm) r) = p + length to + (length r - (p + length frm))"
    using b by simp
  moreover have "length to < (if to = [] then 1 else length to) + 1" by simp
  ultimately show ?thesis using b f by (cases "to = []") (simp_all del: length_greater_0_conv)
qed

text \<open>
  The loop of \<open>StringUtils::Replace\<close>: the position moves past the inserted text, by at least
  one character. The test on \<open>from.empty()\<close>, which the source makes once before the loop, is
  part of each round, where it is constant.
\<close>

function replace_from :: "string \<Rightarrow> string \<Rightarrow> string \<Rightarrow> nat \<Rightarrow> string" where
  "replace_from frm to result startPos =
     (if frm = [] then result
      else case str_find result frm startPos of
        None \<Rightarrow> result
      | Some p \<Rightarrow>
          replace_from frm to (take p result @ to @ drop (p + length frm) result)
            (p + (if to = [] then 1 else length to)))"
  by pat_completeness auto
termination
  by (relation "measure (\<lambda>(frm, to, result, startPos). Suc (length result) - startPos)")
     (simp, simp only: in_measure prod.case, erule (1) replace_progress)

declare replace_from.simps [simp del]

definition Replace :: "string \<Rightarrow> string \<Rightarrow> string \<Rightarrow> string" where
  "Replace str frm to = (if frm = [] then str else replace_from frm to str 0)"

text \<open>Reference: substitute the non-overlapping occurrences from left to right.\<close>

function subst_all :: "string \<Rightarrow> string \<Rightarrow> string \<Rightarrow> string" where
  "subst_all frm to s =
     (if frm = [] then s
      else case find_in frm s of
        None \<Rightarrow> s
      | Some p \<Rightarrow> take p s @ to @ subst_all frm to (drop (p + length frm) s))"
  by pat_completeness auto
termination
proof (relation "measure (\<lambda>(frm, to, s). length s)", simp, clarsimp)
  fix frm s p
  assume "frm \<noteq> []" "find_in frm s = Some p"
  then show "length s - (p + length frm) < length s"
    using find_in_Some_bound [of frm s p] by (cases frm) auto
qed

declare subst_all.simps [simp del]

lemma replace_from_subst:
  assumes "to \<noteq> []"
  shows "replace_from frm to (done @ rest) (length done) = done @ subst_all frm to rest"
  using assms
proof (induction frm to rest arbitrary: "done" rule: subst_all.induct)
  case (1 frm to rest)
  show ?case
  proof (cases "frm = []")
    case True
    then show ?thesis by (simp add: replace_from.simps subst_all.simps)
  next
    case False
    show ?thesis
    proof (cases "find_in frm rest")
      case None
      with False show ?thesis
        by (simp add: replace_from.simps [of frm to "done @ rest"] subst_all.simps [of frm to rest] str_find_def)
    next
      case (Some p)
      let ?d = "done @ take p rest @ to"
      have p: "p \<le> length rest" using find_in_Some_bound [OF Some] by simp
      have "replace_from frm to (?d @ drop (p + length frm) rest) (length ?d) =
            ?d @ subst_all frm to (drop (p + length frm) rest)"
        using "1.IH" [OF False Some "1.prems", of ?d] .
      moreover have "length ?d = length done + p + length to" using p by simp
      ultimately show ?thesis
        using False Some p "1.prems"
        by (simp add: replace_from.simps [of frm to "done @ rest"] subst_all.simps [of frm to rest]
              str_find_def add.assoc)
    qed
  qed
qed

lemma Replace_subst: "to \<noteq> [] \<Longrightarrow> Replace s frm to = subst_all frm to s"
  using replace_from_subst [of to frm "[]" s]
  by (auto simp: Replace_def subst_all.simps [of frm to s])

lemma subst_all_absent: "\<not> str_contains s frm \<Longrightarrow> subst_all frm to s = s"
  by (auto simp: subst_all.simps [of frm to s] str_contains_def str_find_def)

section \<open>Split\<close>

text \<open>
  The loop of \<open>StringUtils::Split\<close>. With an empty delimiter \<open>find\<close> always succeeds at the
  current position and the loop does not end: \<open>None\<close>.
\<close>

partial_function (option) split_loop :: "string \<Rightarrow> string \<Rightarrow> nat \<Rightarrow> string list \<Rightarrow> string list option" where
  "split_loop str delim pos_start res =
     (case str_find str delim pos_start of
        None \<Rightarrow> Some (res @ [drop pos_start str])
      | Some pos_end \<Rightarrow>
          split_loop str delim (pos_end + length delim)
            (res @ [take (pos_end - pos_start) (drop pos_start str)]))"

declare split_loop.simps [code]

definition Split :: "string \<Rightarrow> string \<Rightarrow> string list option" where
  "Split str delim = split_loop str delim 0 []"

function split_list :: "string \<Rightarrow> string \<Rightarrow> string list" where
  "split_list d s =
     (if d = [] then [s]
      else case find_in d s of
        None \<Rightarrow> [s]
      | Some i \<Rightarrow> take i s # split_list d (drop (i + length d) s))"
  by pat_completeness auto
termination
proof (relation "measure (\<lambda>(d, s). length s)", simp, clarsimp)
  fix d s i
  assume "d \<noteq> []" "find_in d s = Some i"
  then show "length s - (i + length d) < length s"
    using find_in_Some_bound [of d s i] by (cases d) auto
qed

declare split_list.simps [simp del]

lemma split_loop_eq:
  assumes "delim \<noteq> []" and "pos \<le> length str"
  shows "split_loop str delim pos res = Some (res @ split_list delim (drop pos str))"
  using assms(2)
proof (induction "length str - pos" arbitrary: pos res rule: less_induct)
  case less
  show ?case
  proof (cases "find_in delim (drop pos str)")
    case None
    with less.prems assms(1) show ?thesis
      by (simp add: split_loop.simps [of str delim pos] split_list.simps [of delim "drop pos str"] str_find_def)
  next
    case (Some i)
    have b: "i + length delim \<le> length str - pos" using find_in_Some_bound [OF Some] by simp
    have "0 < length delim" using assms(1) by simp
    with b less.prems have "length str - (pos + i + length delim) < length str - pos"
      and "pos + i + length delim \<le> length str" by linarith+
    note IH = less.hyps [OF this]
    have "drop (i + length delim) (drop pos str) = drop (pos + i + length delim) str"
      by (simp add: ac_simps)
    with Some less.prems assms(1) IH show ?thesis
      by (simp add: split_loop.simps [of str delim pos] split_list.simps [of delim "drop pos str"] str_find_def)
  qed
qed

lemma Split_eq: "d \<noteq> [] \<Longrightarrow> Split s d = Some (split_list d s)"
  using split_loop_eq [of d 0 s "[]"] by (simp add: Split_def)

text \<open>Every call in the source passes a literal, non-empty delimiter; \<open>splitBy\<close> is that call.\<close>

definition splitBy :: "string \<Rightarrow> string \<Rightarrow> string list" where
  "splitBy d s = (case Split s d of Some r \<Rightarrow> r | None \<Rightarrow> [])"

lemma splitBy_eq: "d \<noteq> [] \<Longrightarrow> splitBy d s = split_list d s"
  by (simp add: splitBy_def Split_eq)

fun intercalate :: "string \<Rightarrow> string list \<Rightarrow> string" where
  "intercalate sep [] = []"
| "intercalate sep [x] = x"
| "intercalate sep (x # y # ys) = x @ sep @ intercalate sep (y # ys)"

lemma split_list_not_Nil [simp]: "split_list d s \<noteq> []"
  by (subst split_list.simps) (auto split: option.splits)

lemma intercalate_Cons: "xs \<noteq> [] \<Longrightarrow> intercalate sep (x # xs) = x @ sep @ intercalate sep xs"
  by (cases xs) auto

lemma intercalate_split_list: "intercalate d (split_list d s) = s"
proof (induction d s rule: split_list.induct)
  case (1 d s)
  show ?case
  proof (cases "d = [] \<or> find_in d s = None")
    case True
    then show ?thesis by (auto simp: split_list.simps [of d s])
  next
    case False
    then obtain i where d: "d \<noteq> []" and i: "find_in d s = Some i" by auto
    from "1.IH" [OF d i] d i show ?thesis
      by (simp add: split_list.simps [of d s] intercalate_Cons find_in_Some_split [OF i, symmetric])
  qed
qed

lemma split_list_parts:
  assumes "d \<noteq> []"
  shows "\<forall>p \<in> set (split_list d s). \<not> str_contains p d"
  using assms
proof (induction d s rule: split_list.induct)
  case (1 d s)
  show ?case
  proof (cases "find_in d s")
    case None
    with "1.prems" show ?thesis
      by (simp add: split_list.simps [of d s] str_contains_def str_find_def)
  next
    case (Some i)
    have "find_in d (take i s) = None"
      unfolding find_in_None
    proof (intro allI impI notI)
      fix j assume j: "j \<le> length (take i s)" and m: "take (length d) (drop j (take i s)) = d"
      have "length d \<le> length (drop j (take i s))"
        by (metis m length_take min.cobounded1)
      then have "j < i" using "1.prems" by (cases d) auto
      moreover have "take (length d) (drop j s) = d"
      proof -
        have "drop j (take i s) = take (i - j) (drop j s)" by (simp add: drop_take)
        with m have "take (min (length d) (i - j)) (drop j s) = d" by simp
        then show ?thesis
          by (metis length_take min.absorb_iff1 min.cobounded1 min_def nle_le take_all)
      qed
      ultimately show False using find_in_least [OF Some] by blast
    qed
    then have "\<not> str_contains (take i s) d"
      by (simp add: str_contains_def str_find_def)
    with "1.IH" [OF "1.prems" Some "1.prems"] Some "1.prems" show ?thesis
      by (simp add: split_list.simps [of d s])
  qed
qed

lemma split_list_single: "d \<noteq> [] \<Longrightarrow> \<not> str_contains s d \<Longrightarrow> split_list d s = [s]"
  by (simp add: split_list.simps [of d s] str_contains_def str_find_def)

section \<open>Trimming, case, truncation\<close>

definition isspace :: "char \<Rightarrow> bool" where
  "isspace c \<longleftrightarrow> c = CHR '' '' \<or> (9 \<le> (of_char c :: nat) \<and> (of_char c :: nat) \<le> 13)"

definition LTrim :: "string \<Rightarrow> string" where
  "LTrim s = dropWhile isspace s"

definition RTrim :: "string \<Rightarrow> string" where
  "RTrim s = rev (dropWhile isspace (rev s))"

definition Trim :: "string \<Rightarrow> string" where
  "Trim s = LTrim (RTrim s)"

definition tolower :: "char \<Rightarrow> char" where
  "tolower c = (let n = (of_char c :: nat) in if 65 \<le> n \<and> n \<le> 90 then char_of (n + 32) else c)"

definition ToLower :: "string \<Rightarrow> string" where
  "ToLower s = map tolower s"

definition Truncate :: "string \<Rightarrow> nat \<Rightarrow> string \<Rightarrow> string" where
  "Truncate str maxLen ellipsis =
     (if length str > maxLen then
        (if maxLen > length ellipsis then take (maxLen - length ellipsis) str @ ellipsis
         else take maxLen str)
      else str)"

lemma Trim_ends:
  "Trim s = [] \<or> (\<not> isspace (hd (Trim s)) \<and> \<not> isspace (last (Trim s)))"
proof (cases "Trim s = []")
  case False
  then have h: "\<not> isspace (hd (Trim s))"
    by (simp add: Trim_def LTrim_def hd_dropWhile)
  have "RTrim s \<noteq> []" using False by (auto simp: Trim_def LTrim_def)
  then have "\<not> isspace (last (RTrim s))"
    by (simp add: RTrim_def last_rev hd_dropWhile)
  moreover have "last (Trim s) = last (RTrim s)"
  proof -
    have "RTrim s = takeWhile isspace (RTrim s) @ Trim s"
      by (simp add: Trim_def LTrim_def)
    with False show ?thesis by (metis last_appendR)
  qed
  ultimately show ?thesis using h by simp
qed simp

lemma dropWhile_hd_id: "xs = [] \<or> \<not> P (hd xs) \<Longrightarrow> dropWhile P xs = xs"
  by (cases xs) auto

lemma Trim_idem: "Trim (Trim s) = Trim s"
proof (cases "Trim s = []")
  case True
  have "Trim [] = []" by (simp add: Trim_def LTrim_def RTrim_def)
  with True show ?thesis by simp
next
  case False
  with Trim_ends [of s] obtain "\<not> isspace (hd (Trim s))" "\<not> isspace (last (Trim s))" by blast
  with False have "RTrim (Trim s) = Trim s" "LTrim (Trim s) = Trim s"
    by (simp_all add: RTrim_def LTrim_def dropWhile_hd_id hd_rev)
  then show ?thesis by (simp add: Trim_def [of "Trim s"])
qed

lemma tolower_idem: "tolower (tolower c) = tolower c"
  by (auto simp: tolower_def Let_def)

lemma ToLower_idem: "ToLower (ToLower s) = ToLower s"
  by (simp add: ToLower_def tolower_idem)

lemma length_ToLower [simp]: "length (ToLower s) = length s"
  by (simp add: ToLower_def)

lemma length_Truncate: "length (Truncate s n e) = (if length s > n then n else length s)"
  by (simp add: Truncate_def)

section \<open>Random strings and grouping\<close>

definition charset :: string where
  "charset = ''abcdefghijklmnopqrstuvwxyz'' @ ''ABCDEFGHIJKLMNOPQRSTUVWXYZ'' @ ''0123456789''
             @ ''!@#$%^&*()-_=+[]{}|;:,.<>?''"

text \<open>
  \<open>RAND_bytes\<close> returns a code and fills the buffer; the code is tested with \<open>!\<close>, so every
  code but 0 counts as success.
\<close>

definition RandomString :: "int \<Rightarrow> bytes \<Rightarrow> string" where
  "RandomString rand_code buffer =
     (if rand_code = 0 then []
      else map (\<lambda>b. charset ! (unat b mod length charset)) buffer)"

lemma length_charset: "length charset = 88"
  by (simp add: charset_def)

lemma RandomString_chars:
  "set (RandomString rc buf) \<subseteq> set charset"
proof -
  have "charset ! (unat b mod length charset) \<in> set charset" for b :: u8
    using length_charset by (intro nth_mem) simp
  then show ?thesis by (auto simp: RandomString_def)
qed

lemma RandomString_length: "rc \<noteq> 0 \<Longrightarrow> length (RandomString rc buf) = length buf"
  by (simp add: RandomString_def)

function chunks :: "nat \<Rightarrow> 'a list \<Rightarrow> 'a list list" where
  "chunks n xs = (if xs = [] \<or> n = 0 then [] else take n xs # chunks n (drop n xs))"
  by pat_completeness auto
termination by (relation "measure (\<lambda>(n, xs). length xs)") auto

declare chunks.simps [simp del]

text \<open>
  \<open>WithSeperators\<close>: the loop over \<open>i += groupSize\<close>. A group size of 0 never ends in the source;
  its only caller passes 5.
\<close>

definition WithSeperators ::
  "(string list \<Rightarrow> string \<Rightarrow> string) \<Rightarrow> string \<Rightarrow> string \<Rightarrow> nat \<Rightarrow> string" where
  "WithSeperators join str seperator groupSize = join (chunks groupSize str) seperator"

lemma concat_chunks: "0 < n \<Longrightarrow> concat (chunks n xs) = xs"
  by (induction n xs rule: chunks.induct) (subst chunks.simps, auto)

lemma chunks_length: "c \<in> set (chunks n xs) \<Longrightarrow> 0 < length c \<and> length c \<le> n"
proof (induction n xs rule: chunks.induct)
  case (1 n xs)
  then show ?case by (subst (asm) chunks.simps) (auto split: if_splits)
qed

section \<open>Hexadecimal\<close>

definition FromHexString :: "(string \<Rightarrow> bytes option) \<Rightarrow> string \<Rightarrow> bytes" where
  "FromHexString unhex h = (case unhex h of Some r \<Rightarrow> r | None \<Rightarrow> [])"

definition ToHexString :: "(bytes \<Rightarrow> string) \<Rightarrow> bytes \<Rightarrow> string" where
  "ToHexString hex data = hex data"

end
