(* ===== verification/Base32.thy ===== *)
theory Base32
  imports Prelude
begin

unbundle bit_operations_syntax

text \<open>
  The Base32 encoder of \<open>common/src/utils/StringUtils.cpp\<close>, with its 32-bit shift register,
  and its specification: the bits of the string in groups of five, most significant first.
\<close>

section \<open>The encoder\<close>

definition base32_alphabet :: string where
  "base32_alphabet = ''ABCDEFGHIJKLMNOPQRSTUVWXYZ234567''"

text \<open>The inner \<open>while(bitsLeft >= 5)\<close> and the loop over the bytes, on a 32-bit \<open>buffer\<close>.\<close>

fun b32_emit :: "u32 \<Rightarrow> nat \<Rightarrow> string \<Rightarrow> string \<times> nat" where
  "b32_emit buffer bitsLeft enc =
     (if 5 \<le> bitsLeft then
        b32_emit buffer (bitsLeft - 5)
          (enc @ [base32_alphabet ! unat (drop_bit (bitsLeft - 5) buffer AND 0x1F)])
      else (enc, bitsLeft))"

declare b32_emit.simps [simp del]

fun b32_bytes :: "u32 \<Rightarrow> nat \<Rightarrow> string \<Rightarrow> bytes \<Rightarrow> u32 \<times> nat \<times> string" where
  "b32_bytes buffer bitsLeft enc [] = (buffer, bitsLeft, enc)"
| "b32_bytes buffer bitsLeft enc (c # cs) =
     (let buffer' = push_bit 8 buffer OR ucast c;
          (enc', bitsLeft') = b32_emit buffer' (bitsLeft + 8) enc
      in b32_bytes buffer' bitsLeft' enc' cs)"

definition ToBase32String :: "string \<Rightarrow> string" where
  "ToBase32String str =
     (let (buffer, bitsLeft, enc) = b32_bytes 0 0 [] (bytes_of str) in
      if 0 < bitsLeft
      then enc @ [base32_alphabet ! unat (push_bit (5 - bitsLeft) buffer AND 0x1F)]
      else enc)"

text \<open>Reference: the bits of the string, most significant first, in groups of five.\<close>

definition low_bits :: "'a::len word \<Rightarrow> nat \<Rightarrow> bool list" where
  "low_bits w n = map (bit w) (rev [0..<n])"

definition byte_bits :: "u8 \<Rightarrow> bool list" where
  "byte_bits b = low_bits b 8"

definition bits_val :: "bool list \<Rightarrow> nat" where
  "bits_val bs = foldl (\<lambda>a b. 2 * a + of_bool b) 0 bs"

fun group5 :: "bool list \<Rightarrow> bool list list" where
  "group5 (a # b # c # d # e # r) = [a, b, c, d, e] # group5 r"
| "group5 [] = []"
| "group5 bs = [bs @ replicate (5 - length bs) False]"

definition base32_spec :: "string \<Rightarrow> string" where
  "base32_spec s =
     map (\<lambda>g. base32_alphabet ! bits_val g) (group5 (concat (map byte_bits (bytes_of s))))"

lemma low_bits_Suc: "low_bits w (Suc n) = bit w n # low_bits w n"
  by (simp add: low_bits_def)

lemma length_low_bits [simp]: "length (low_bits w n) = n"
  by (simp add: low_bits_def)

lemma length_byte_bits [simp]: "length (byte_bits b) = 8"
  by (simp add: byte_bits_def)

lemma bits_val_append: "bits_val (xs @ ys) = bits_val xs * 2 ^ length ys + bits_val ys"
proof (induction ys rule: rev_induct)
  case (snoc y ys)
  have "bits_val (xs @ ys @ [y]) = 2 * bits_val (xs @ ys) + of_bool y"
    "bits_val (ys @ [y]) = 2 * bits_val ys + of_bool y"
    by (simp_all add: bits_val_def)
  with snoc show ?case by (simp add: algebra_simps)
qed (simp add: bits_val_def)

lemma bits_val_low_bits:
  fixes w :: "'a::len word"
  shows "n \<le> LENGTH('a) \<Longrightarrow> bits_val (low_bits w n) = unat (take_bit n w)"
proof (induction n)
  case 0
  then show ?case by (simp add: low_bits_def bits_val_def)
next
  case (Suc n)
  have "bits_val (low_bits w (Suc n)) = of_bool (bit w n) * 2 ^ n + bits_val (low_bits w n)"
    using bits_val_append [of "[bit w n]" "low_bits w n"]
    by (simp add: low_bits_Suc bits_val_def)
  also have "\<dots> = of_bool (bit (unat w) n) * 2 ^ n + take_bit n (unat w)"
    using Suc by (simp add: unsigned_take_bit_eq bit_unsigned_iff)
  also have "\<dots> = take_bit (Suc n) (unat w)"
    by (simp add: take_bit_Suc_from_most)
  finally show ?case by (simp add: unsigned_take_bit_eq)
qed

lemma low_bits_take:
  assumes "5 \<le> n"
  shows "take 5 (low_bits w n) = low_bits (drop_bit (n - 5) w) 5"
    and "drop 5 (low_bits w n) = low_bits w (n - 5)"
proof -
  obtain m where n: "n = m + 5" using assms by (metis le_add_diff_inverse2)
  have "[0..<n] = [0..<n - 5] @ map (\<lambda>i. i + (n - 5)) [0..<5]"
    using upt_add_eq_append [of 0 m 5] by (simp only: n map_add_upt) (simp add: add.commute)
  then have "low_bits w n = low_bits (drop_bit (n - 5) w) 5 @ low_bits w (n - 5)"
    by (simp add: low_bits_def rev_map comp_def bit_drop_bit_eq add.commute)
  then show "take 5 (low_bits w n) = low_bits (drop_bit (n - 5) w) 5"
    and "drop 5 (low_bits w n) = low_bits w (n - 5)" by simp_all
qed

lemma low_bits_push:
  fixes buffer :: u32
  assumes "n + 8 \<le> 32"
  shows "low_bits (push_bit 8 buffer OR ucast c) (n + 8) = low_bits buffer n @ byte_bits c"
proof -
  have "[0..<n + 8] = [0..<8] @ map (\<lambda>i. i + 8) [0..<n]"
    using upt_add_eq_append [of 0 8 n] by (simp add: map_add_upt add.commute)
  moreover have "map (bit (push_bit 8 buffer OR ucast c)) (rev [0..<8]) = byte_bits c"
    by (simp add: byte_bits_def low_bits_def bit_simps)
  moreover have "bit (push_bit 8 buffer OR ucast c) (i + 8) = bit buffer i" if "i < n" for i
    using that assms by (auto simp: bit_simps dest: bit_imp_le_length)
  ultimately show ?thesis
    by (simp add: low_bits_def rev_map)
qed

lemma base32_digit:
  fixes w :: u32
  shows "unat (w AND 0x1F) = bits_val (low_bits w 5)"
proof -
  have "w AND 0x1F = take_bit 5 w"
    by (simp add: take_bit_eq_mask mask_eq_exp_minus_1)
  then show ?thesis by (simp add: bits_val_low_bits)
qed

text \<open>One run of the inner loop emits the complete groups of the pending bits.\<close>

lemma group5_step:
  "5 \<le> length bs \<Longrightarrow> group5 bs = take 5 bs # group5 (drop 5 bs)"
  by (cases bs rule: group5.cases) auto

fun full5 :: "bool list \<Rightarrow> bool list list" where
  "full5 (a # b # c # d # e # r) = [a, b, c, d, e] # full5 r"
| "full5 bs = []"

lemma full5_step: "5 \<le> length bs \<Longrightarrow> full5 bs = take 5 bs # full5 (drop 5 bs)"
  by (cases bs rule: full5.cases) auto

lemma full5_short: "length bs < 5 \<Longrightarrow> full5 bs = []"
  by (cases bs rule: full5.cases) auto

definition b32_digit :: "bool list \<Rightarrow> char" where
  "b32_digit g = base32_alphabet ! bits_val g"

lemma div5: "((a :: nat) + k) div 5 = a div 5 + (a mod 5 + k) div 5"
  by presburger

lemma div5_Suc: "((5 :: nat) + k) div 5 = Suc (k div 5)" "((k :: nat) + 5) div 5 = Suc (k div 5)"
  by simp_all

lemma drop_div5:
  "drop (5 * (length (a # b # c # d # e # r) div 5)) (a # b # c # d # e # r) =
   drop (5 * (length r div 5)) r"
proof -
  have "length (a # b # c # d # e # r) = length r + 5" by simp
  then have "5 * (length (a # b # c # d # e # r) div 5) = 5 * (length r div 5) + 5"
    by (simp only: div5_Suc mult_Suc_right add.commute)
  moreover have "drop (k + 5) (a # b # c # d # e # r) = drop k r" for k
    by (simp add: numeral_eq_Suc)
  ultimately show ?thesis by (simp only:)
qed

lemma b32_emit_full5:
  "n \<le> 32 \<Longrightarrow>
   b32_emit buffer n enc = (enc @ map b32_digit (full5 (low_bits buffer n)), n mod 5) \<and>
   drop (5 * (n div 5)) (low_bits buffer n) = low_bits buffer (n mod 5)"
proof (induction buffer n enc rule: b32_emit.induct)
  case (1 buffer n enc)
  show ?case
  proof (cases "5 \<le> n")
    case True
    let ?d = "base32_alphabet ! unat (drop_bit (n - 5) buffer AND 0x1F)"
    have IH: "b32_emit buffer (n - 5) (enc @ [?d]) =
        ((enc @ [?d]) @ map b32_digit (full5 (low_bits buffer (n - 5))), (n - 5) mod 5)"
      "drop (5 * ((n - 5) div 5)) (low_bits buffer (n - 5)) = low_bits buffer ((n - 5) mod 5)"
      using "1.IH" [OF True] "1.prems" by auto
    have d: "?d = b32_digit (take 5 (low_bits buffer n))"
      by (simp add: b32_digit_def base32_digit low_bits_take(1) True)
    obtain m where n: "n = m + 5" using True by (metis le_add_diff_inverse2)
    have "drop (5 * (n div 5)) (low_bits buffer n) =
          drop (5 * (m div 5)) (drop 5 (low_bits buffer n))"
      by (simp add: n div5_Suc add.commute)
    also have "\<dots> = low_bits buffer (n mod 5)"
      using IH(2) by (simp add: low_bits_take(2) n)
    finally have tail: "drop (5 * (n div 5)) (low_bits buffer n) = low_bits buffer (n mod 5)" .
    have "(n - 5) mod 5 = n mod 5" by (simp add: n)
    then show ?thesis
      using True IH(1) d tail b32_emit.simps [of buffer n enc] full5_step [of "low_bits buffer n"]
      by (simp add: low_bits_take(2))
  next
    case False
    then show ?thesis
      by (simp add: b32_emit.simps [of buffer n enc] full5_short)
  qed
qed

lemma full5_append:
  "full5 (xs @ ys) = full5 xs @ full5 (drop (5 * (length xs div 5)) xs @ ys)"
proof (induction xs rule: full5.induct)
  case (1 a b c d e r)
  show ?case using 1 by (simp only: append_Cons full5.simps drop_div5)
qed simp_all

text \<open>The loop over the bytes: what has been emitted, and the pending bits in the register.\<close>

lemma b32_bytes_inv:
  assumes "b32_bytes buffer n enc cs = (buffer', n', enc')" and "n < 5"
  shows "n' < 5 \<and>
    enc' = enc @ map b32_digit (full5 (low_bits buffer n @ concat (map byte_bits cs))) \<and>
    low_bits buffer' n' =
      drop (5 * ((n + 8 * length cs) div 5)) (low_bits buffer n @ concat (map byte_bits cs))"
  using assms
proof (induction buffer n enc cs rule: b32_bytes.induct)
  case (1 buffer n enc)
  then show ?case by (simp add: full5_short)
next
  case (2 buffer n enc c cs)
  let ?b = "push_bit 8 buffer OR ucast c :: u32"
  let ?p = "low_bits buffer n @ byte_bits c"
  have lb: "low_bits ?b (n + 8) = ?p" by (rule low_bits_push) (use "2.prems" in simp)
  have e: "b32_emit ?b (n + 8) enc = (enc @ map b32_digit (full5 ?p), (n + 8) mod 5)"
    and dr: "drop (5 * ((n + 8) div 5)) ?p = low_bits ?b ((n + 8) mod 5)"
    using b32_emit_full5 [of "n + 8" ?b enc] "2.prems"(2) lb by simp_all
  have run: "b32_bytes ?b ((n + 8) mod 5) (enc @ map b32_digit (full5 ?p)) cs = (buffer', n', enc')"
    using "2.prems"(1) e by (simp add: Let_def)
  have len: "length ?p = n + 8" by simp
  let ?rest = "concat (map byte_bits cs)"
  have IH: "n' < 5 \<and>
    enc' = (enc @ map b32_digit (full5 ?p)) @ map b32_digit (full5 (drop (5 * ((n + 8) div 5)) ?p @ ?rest)) \<and>
    low_bits buffer' n' = drop (5 * (((n + 8) mod 5 + 8 * length cs) div 5)) (drop (5 * ((n + 8) div 5)) ?p @ ?rest)"
    using "2.IH" [OF refl e [symmetric] refl] run dr by simp
  have "full5 (?p @ ?rest) = full5 ?p @ full5 (drop (5 * ((n + 8) div 5)) ?p @ ?rest)"
    using full5_append [of ?p ?rest] len by simp
  moreover have "drop (5 * ((n + 8) div 5)) ?p @ ?rest = drop (5 * ((n + 8) div 5)) (?p @ ?rest)"
    using len by simp
  moreover have "5 * (((n + 8) mod 5 + 8 * length cs) div 5) + 5 * ((n + 8) div 5) =
      5 * ((n + 8 * length (c # cs)) div 5)"
    using div5 [of "n + 8" "8 * length cs"] by (simp add: ac_simps)
  moreover have "drop k (drop m (?p @ ?rest)) = drop (k + m) (?p @ ?rest)" for k m
    by (simp only: drop_drop)
  moreover have "low_bits buffer n @ concat (map byte_bits (c # cs)) = ?p @ ?rest" by simp
  ultimately show ?case using IH by (simp only: append_assoc map_append)
qed

lemma group5_full5:
  "group5 bs = full5 bs @ (let r = drop (5 * (length bs div 5)) bs in
     if r = [] then [] else [r @ replicate (5 - length r) False])"
proof (induction bs rule: group5.induct)
  case (1 a b c d e r)
  show ?case using 1 by (simp only: group5.simps full5.simps append_Cons drop_div5)
qed (simp_all add: Let_def)

lemma b32_last_digit:
  fixes buffer :: u32
  assumes "0 < n" and "n < 5"
  shows "base32_alphabet ! unat (push_bit (5 - n) buffer AND 0x1F) =
         b32_digit (low_bits buffer n @ replicate (5 - n) False)"
proof -
  have "low_bits (push_bit (5 - n) buffer) 5 = low_bits buffer n @ replicate (5 - n) False"
  proof (rule nth_equalityI)
    show "length (low_bits (push_bit (5 - n) buffer) 5) = length (low_bits buffer n @ replicate (5 - n) False)"
      using assms by simp
    fix i assume "i < length (low_bits (push_bit (5 - n) buffer) 5)"
    then have "i < 5" by simp
    then show "low_bits (push_bit (5 - n) buffer) 5 ! i = (low_bits buffer n @ replicate (5 - n) False) ! i"
      using assms by (auto simp: low_bits_def nth_append rev_nth bit_simps)
  qed
  then show ?thesis by (simp add: b32_digit_def base32_digit)
qed

lemma length_bits: "length (concat (map byte_bits bs)) = 8 * length bs"
  by (induction bs) simp_all

lemma ToBase32String_spec: "ToBase32String s = base32_spec s"
proof -
  obtain buffer n enc where run: "b32_bytes 0 0 [] (bytes_of s) = (buffer, n, enc)"
    by (metis prod_cases3)
  let ?bits = "concat (map byte_bits (bytes_of s))"
  have inv: "n < 5" "enc = map b32_digit (full5 ?bits)"
    and rest: "drop (5 * (length ?bits div 5)) ?bits = low_bits buffer n"
    using b32_bytes_inv [OF run] by (simp_all add: length_bits) (simp_all add: low_bits_def)
  have "low_bits buffer n = [] \<longleftrightarrow> n = 0" by (metis length_0_conv length_low_bits)
  moreover have "group5 ?bits = full5 ?bits @ (if low_bits buffer n = [] then []
      else [low_bits buffer n @ replicate (5 - n) False])"
    using group5_full5 [of ?bits] by (simp only: rest Let_def length_low_bits)
  ultimately show ?thesis
    using inv run b32_last_digit [of n buffer]
    by (simp add: ToBase32String_def base32_spec_def b32_digit_def [abs_def])
qed

section \<open>Decoding\<close>

text \<open>
  The program has no decoder: the text is read by the phone. What is needed of the encoding is
  that the phone can recover the bytes, so the specification has a decoder.
\<close>

fun index_of :: "'a \<Rightarrow> 'a list \<Rightarrow> nat" where
  "index_of x [] = 0"
| "index_of x (y # ys) = (if x = y then 0 else Suc (index_of x ys))"

fun group8 :: "bool list \<Rightarrow> bool list list" where
  "group8 (a # b # c # d # e # f # g # h # r) = [a, b, c, d, e, f, g, h] # group8 r"
| "group8 bs = []"

definition digit_bits :: "char \<Rightarrow> bool list" where
  "digit_bits c = low_bits (word_of_nat (index_of c base32_alphabet) :: u8) 5"

definition FromBase32_spec :: "string \<Rightarrow> string" where
  "FromBase32_spec s = string_of (map (word_of_nat \<circ> bits_val) (group8 (concat (map digit_bits s))))"

lemma index_of_nth: "distinct xs \<Longrightarrow> n < length xs \<Longrightarrow> index_of (xs ! n) xs = n"
  by (induction xs arbitrary: n) (auto simp: nth_Cons split: nat.splits)

lemma bits_val_horner: "bits_val g = horner_sum of_bool 2 (rev g)"
  by (induction g rule: rev_induct) (simp_all add: bits_val_def)

lemma low_bits_of_val:
  assumes "length g \<le> LENGTH('a::len)"
  shows "low_bits (word_of_nat (bits_val g) :: 'a word) (length g) = g"
proof (rule nth_equalityI)
  fix i assume "i < length (low_bits (word_of_nat (bits_val g) :: 'a word) (length g))"
  then have i: "i < length g" by simp
  then have "bit (word_of_nat (bits_val g) :: 'a word) (length g - Suc i) = g ! i"
    using assms i by (auto simp: bit_of_nat_iff bits_val_horner bit_horner_sum_bit_iff rev_nth)
  then show "low_bits (word_of_nat (bits_val g) :: 'a word) (length g) ! i = g ! i"
    using i by (simp add: low_bits_def rev_nth)
qed simp

lemma bits_val_less: "bits_val g < 2 ^ length g"
  by (simp add: bits_val_horner) (metis horner_sum_of_bool_2_less length_rev)

lemma digit_bits_b32_digit: "length g = 5 \<Longrightarrow> digit_bits (b32_digit g) = g"
proof -
  assume g: "length g = 5"
  have "bits_val g < 32" using bits_val_less [of g] g by simp
  moreover have "distinct base32_alphabet" "length base32_alphabet = 32"
    by (simp_all add: base32_alphabet_def)
  ultimately have "index_of (b32_digit g) base32_alphabet = bits_val g"
    by (simp add: b32_digit_def index_of_nth)
  then show ?thesis using g low_bits_of_val [of g, where 'a = 8] by (simp add: digit_bits_def)
qed

lemma group5_lengths: "g \<in> set (group5 bs) \<Longrightarrow> length g = 5"
  by (induction bs rule: group5.induct) auto

lemma group5_concat: "\<exists>k < 5. concat (group5 bs) = bs @ replicate k False"
proof (induction bs rule: group5.induct)
  case (1 a b c d e r)
  then show ?case by simp
qed (auto intro: exI [of _ 0] exI [of _ 1] exI [of _ 2] exI [of _ 3] exI [of _ 4] simp: eval_nat_numeral)

lemma group8_short: "length bs < 8 \<Longrightarrow> group8 bs = []"
  by (cases bs rule: group8.cases) auto

lemma group8_bytes:
  "length r < 8 \<Longrightarrow> group8 (concat (map byte_bits bs) @ r) = map byte_bits bs"
proof (induction bs)
  case Nil
  then show ?case by (simp add: group8_short)
next
  case (Cons b bs)
  obtain x1 x2 x3 x4 x5 x6 x7 x8 where "byte_bits b = [x1, x2, x3, x4, x5, x6, x7, x8]"
    by (simp add: byte_bits_def low_bits_def eval_nat_numeral)
  with Cons show ?case by simp
qed

lemma word_of_byte_bits: "word_of_nat (bits_val (byte_bits b)) = b"
proof -
  have "unat (take_bit 8 b) = unat b" for b :: u8
    using unsigned_less [of b, where ?'a = nat] by (simp add: unsigned_take_bit_eq take_bit_nat_eq_self)
  then show ?thesis by (simp add: byte_bits_def bits_val_low_bits)
qed

lemma FromBase32_ToBase32: "FromBase32_spec (ToBase32String s) = s"
proof -
  let ?bits = "concat (map byte_bits (bytes_of s))"
  obtain k where k: "k < 5" "concat (group5 ?bits) = ?bits @ replicate k False"
    using group5_concat by blast
  have "concat (map digit_bits (map b32_digit (group5 ?bits))) = concat (group5 ?bits)"
    using group5_lengths [of _ ?bits]
    by (simp add: comp_def digit_bits_b32_digit cong: map_cong)
  then have "group8 (concat (map digit_bits (ToBase32String s))) = map byte_bits (bytes_of s)"
    using k group8_bytes [of "replicate k False" "bytes_of s"]
    by (simp add: ToBase32String_spec base32_spec_def b32_digit_def [abs_def, symmetric])
  then show ?thesis
    by (simp add: FromBase32_spec_def comp_def word_of_byte_bits)
qed

end
