(* ===== verification/AppInfo.thy ===== *)
theory AppInfo
  imports StringUtils
begin

text \<open>
  \<open>common/src/utils/AppInfo.cpp\<close>: version strings and their comparison. \<open>std::stoi\<close> is
  modelled with its exceptions as \<open>None\<close> (no digits, or a value outside \<open>int\<close>);
  \<open>CompareVersion\<close> swallows them and answers 0.
\<close>

section \<open>Constants\<close>

definition GetVersion :: "bool \<Rightarrow> string \<Rightarrow> string \<Rightarrow> string" where
  "GetVersion pcbu_debug branch commit =
     ''3.3.4'' @ (if pcbu_debug then ''-'' @ branch @ ''-'' @ commit else [])"

definition GetPairingProtocolVersion :: string where
  "GetPairingProtocolVersion = ''4.0.0''"

definition GetUnlockProtocolVersion :: string where
  "GetUnlockProtocolVersion = ''3.0.0''"

fun GetOperatingSystem :: "platform \<Rightarrow> string" where
  "GetOperatingSystem Windows = ''Windows''"
| "GetOperatingSystem Linux = ''Linux''"
| "GetOperatingSystem Apple = ''macOS''"

section \<open>std::stoi\<close>

definition is_digit :: "char \<Rightarrow> bool" where
  "is_digit c \<longleftrightarrow> 48 \<le> (of_char c :: nat) \<and> (of_char c :: nat) \<le> 57"

definition digits_val :: "string \<Rightarrow> int" where
  "digits_val ds = foldl (\<lambda>n c. 10 * n + (int (of_char c) - 48)) 0 ds"

definition INT_MIN :: int where "INT_MIN = - (2 ^ 31)"
definition INT_MAX :: int where "INT_MAX = 2 ^ 31 - 1"

definition stoi :: "string \<Rightarrow> int option" where
  "stoi s =
     (let t = dropWhile isspace s;
          neg = (t \<noteq> [] \<and> hd t = CHR ''-'');
          u = (if t \<noteq> [] \<and> (hd t = CHR ''-'' \<or> hd t = CHR ''+'') then tl t else t);
          ds = takeWhile is_digit u;
          v = (if neg then - digits_val ds else digits_val ds)
      in if ds = [] then None
         else if INT_MIN \<le> v \<and> v \<le> INT_MAX then Some v else None)"

section \<open>CompareVersion\<close>

text \<open>The text up to the first dash, split at the dots; an exception is \<open>None\<close>.\<close>

definition parse_version :: "string \<Rightarrow> int list option" where
  "parse_version v = map_opt stoi (splitBy ''.'' (splitBy ''-'' v ! 0))"

definition part_at :: "int list \<Rightarrow> nat \<Rightarrow> int" where
  "part_at xs i = (if i < length xs then xs ! i else 0)"

fun compare_loop :: "int list \<Rightarrow> int list \<Rightarrow> nat list \<Rightarrow> int" where
  "compare_loop xs ys [] = 0"
| "compare_loop xs ys (i # is) =
     (let thisNum = part_at xs i; otherNum = part_at ys i in
      if thisNum < otherNum then 1
      else if otherNum < thisNum then - 1
      else compare_loop xs ys is)"

definition CompareVersion :: "string \<Rightarrow> string \<Rightarrow> int" where
  "CompareVersion thisVersion otherVersion =
     (case (parse_version thisVersion, parse_version otherVersion) of
        (Some xs, Some ys) \<Rightarrow> compare_loop xs ys [0..<max (length xs) (length ys)]
      | _ \<Rightarrow> 0)"

text \<open>Reference order: the first component that differs decides, missing components are 0.\<close>

definition older :: "int list \<Rightarrow> int list \<Rightarrow> bool" where
  "older xs ys \<longleftrightarrow> (\<exists>i. part_at xs i < part_at ys i \<and> (\<forall>j < i. part_at xs j = part_at ys j))"

definition same_version :: "int list \<Rightarrow> int list \<Rightarrow> bool" where
  "same_version xs ys \<longleftrightarrow> (\<forall>i. part_at xs i = part_at ys i)"

lemma part_at_beyond: "length xs \<le> i \<Longrightarrow> part_at xs i = 0"
  by (simp add: part_at_def)

lemma compare_loop_0: "compare_loop xs ys is = 0 \<longleftrightarrow> (\<forall>k \<in> set is. part_at xs k = part_at ys k)"
  by (induction "is") (auto simp: Let_def)

lemma compare_loop_swap: "compare_loop ys xs is = - compare_loop xs ys is"
  by (induction "is") (auto simp: Let_def)

lemma compare_loop_values: "compare_loop xs ys is \<in> {1, - 1, 0}"
  by (induction "is") (auto simp: Let_def)

lemma compare_loop_1:
  "compare_loop xs ys [m..<n] = 1 \<Longrightarrow>
   \<exists>i. m \<le> i \<and> part_at xs i < part_at ys i \<and> (\<forall>j. m \<le> j \<and> j < i \<longrightarrow> part_at xs j = part_at ys j)"
proof (induction "n - m" arbitrary: m)
  case (Suc k)
  then have "[m..<n] = m # [Suc m..<n]" by (intro upt_conv_Cons) simp
  with Suc.prems have run: "compare_loop xs ys (m # [Suc m..<n]) = 1" by simp
  show ?case
  proof (cases "part_at xs m < part_at ys m")
    case True
    then show ?thesis by (intro exI [of _ m]) simp
  next
    case False
    with run have e: "part_at xs m = part_at ys m" and "compare_loop xs ys [Suc m..<n] = 1"
      by (auto simp: Let_def split: if_splits)
    with Suc.hyps obtain i where "Suc m \<le> i" "part_at xs i < part_at ys i"
      "\<forall>j. Suc m \<le> j \<and> j < i \<longrightarrow> part_at xs j = part_at ys j"
      by (metis Suc_diff_Suc diff_Suc_1 zero_less_Suc zero_less_diff)
    with e show ?thesis by (intro exI [of _ i]) (metis Suc_leD Suc_leI le_neq_implies_less)
  qed
qed simp

lemma older_irrefl: "older xs ys \<Longrightarrow> older ys xs \<Longrightarrow> False"
  unfolding older_def by (metis linorder_neqE_nat not_less_iff_gr_or_eq)

lemma same_not_older: "same_version xs ys \<Longrightarrow> \<not> older xs ys \<and> \<not> older ys xs"
  by (auto simp: same_version_def older_def)

lemma older_trans: "older xs ys \<Longrightarrow> older ys zs \<Longrightarrow> older xs zs"
proof -
  assume "older xs ys" "older ys zs"
  then obtain i k where i: "part_at xs i < part_at ys i" "\<forall>j < i. part_at xs j = part_at ys j"
    and k: "part_at ys k < part_at zs k" "\<forall>j < k. part_at ys j = part_at zs j"
    by (auto simp: older_def)
  show ?thesis
    unfolding older_def
  proof (intro exI conjI allI impI)
    show "part_at xs (min i k) < part_at zs (min i k)"
      using i k by (cases "i < k"; cases "i = k") (auto simp: min_def)
    show "\<And>j. j < min i k \<Longrightarrow> part_at xs j = part_at zs j" using i k by simp
  qed
qed

lemma CompareVersion_parsed:
  assumes "parse_version a = Some xs" and "parse_version b = Some ys"
  shows "CompareVersion a b = 1 \<and> older xs ys \<or> CompareVersion a b = - 1 \<and> older ys xs \<or>
         CompareVersion a b = 0 \<and> same_version xs ys"
proof -
  let ?is = "[0..<max (length xs) (length ys)]"
  have c: "CompareVersion a b = compare_loop xs ys ?is"
    using assms by (simp add: CompareVersion_def)
  have "compare_loop xs ys ?is = 1 \<Longrightarrow> older xs ys" "compare_loop ys xs ?is = 1 \<Longrightarrow> older ys xs"
    unfolding older_def using compare_loop_1 by blast+
  moreover have "compare_loop xs ys ?is = 0 \<Longrightarrow> same_version xs ys"
    unfolding compare_loop_0 same_version_def
    by (metis atLeastLessThan_iff atLeast_upt less_max_iff_disj linorder_not_less lessThan_iff part_at_beyond)
  ultimately show ?thesis
    using compare_loop_values [of xs ys ?is] compare_loop_swap [of ys xs ?is] unfolding c by auto
qed

text \<open>
  On version strings that parse, \<open>CompareVersion\<close> decides the order of versions: 1 when the
  first differing component (missing components count as 0) makes the first argument the older,
  -1 when it makes it the newer one, and 0 exactly when no component differs.
\<close>

theorem CompareVersion_decides_order:
  assumes "parse_version a = Some xs" and "parse_version b = Some ys"
  shows "(CompareVersion a b = 1 \<longleftrightarrow> older xs ys) \<and> (CompareVersion a b = - 1 \<longleftrightarrow> older ys xs) \<and>
         (CompareVersion a b = 0 \<longleftrightarrow> same_version xs ys)"
  using CompareVersion_parsed [OF assms] older_irrefl [of xs ys] same_not_older [of xs ys] by auto


lemma CompareVersion_decides_order_witness:
  "CompareVersion ''3.2.10'' ''3.3-dev'' = 1 \<and> older [3, 2, 10] [3, 3]"
proof -
  have "parse_version ''3.2.10'' = Some [3, 2, 10]" "parse_version ''3.3-dev'' = Some [3, 3]"
    by code_simp+
  from CompareVersion_decides_order [OF this] show ?thesis
    unfolding older_def part_at_def by (auto intro!: exI [of _ 1])
qed

text \<open>
  \<open>CompareVersion\<close> fails open: when either string does not parse (no digits in a component,
  or a component too big for \<open>int\<close>), the versions count as equal.
\<close>

theorem CompareVersion_unparsable:
  "parse_version a = None \<or> parse_version b = None \<Longrightarrow> CompareVersion a b = 0"
  by (auto simp: CompareVersion_def split: option.splits)

lemma CompareVersion_unparsable_witness: "CompareVersion ''garbage'' ''4.0.0'' = 0"
proof (rule CompareVersion_unparsable)
  have "parse_version ''garbage'' = None" by code_simp
  then show "parse_version ''garbage'' = None \<or> parse_version ''4.0.0'' = None" by blast
qed

end
