(* ===== verification/ExternalLibs.thy ===== *)
theory ExternalLibs
  imports Prelude
begin

text \<open>
  The third-party code the program calls, as records of functions: OpenSSL and Boost's hex
  routines (\<open>crypt_lib\<close>) and nlohmann's JSON values (\<open>json_lib\<close>). The predicates \<open>crypt_laws\<close>
  and \<open>json_laws\<close> state the documented behaviour that the properties rely on. What differs from
  call to call (random bytes, return codes, the clock, allocation) is not in these records: it is
  the argument \<open>crypt_env\<close> of the operations.
\<close>

section \<open>Cryptography\<close>

record crypt_lib =
  cl_pbkdf2 :: "string \<Rightarrow> bytes \<Rightarrow> bytes"            \<comment> \<open>PKCS5_PBKDF2_HMAC: password, salt\<close>
  cl_encrypt :: "bytes \<Rightarrow> bytes \<Rightarrow> bytes \<Rightarrow> bytes"     \<comment> \<open>AES-256-GCM: key, iv, plain text\<close>
  cl_decrypt :: "bytes \<Rightarrow> bytes \<Rightarrow> bytes \<Rightarrow> bytes"     \<comment> \<open>key, iv, cipher text\<close>
  cl_tag :: "bytes \<Rightarrow> bytes \<Rightarrow> bytes \<Rightarrow> bytes"         \<comment> \<open>key, iv, cipher text\<close>
  cl_sha3 :: "bytes \<Rightarrow> bytes"
  cl_hex :: "bytes \<Rightarrow> string"
  cl_unhex :: "string \<Rightarrow> bytes option"               \<comment> \<open>None: hex_decode_error\<close>

definition crypt_laws :: "crypt_lib \<Rightarrow> bool" where
  "crypt_laws L \<longleftrightarrow>
     (\<forall>k iv p. cl_decrypt L k iv (cl_encrypt L k iv p) = p) \<and>
     (\<forall>k iv p. length (cl_encrypt L k iv p) = length p) \<and>
     (\<forall>k iv c. length (cl_decrypt L k iv c) = length c) \<and>
     (\<forall>k iv c. length (cl_tag L k iv c) = 16) \<and>
     (\<forall>b. cl_unhex L (cl_hex L b) = Some b) \<and>
     (\<forall>b. length (cl_hex L b) = 2 * length b) \<and>
     (\<forall>s b. cl_unhex L s = Some b \<longrightarrow> length s = 2 * length b)"

lemma crypt_lawsD:
  assumes "crypt_laws L"
  shows "cl_decrypt L k iv (cl_encrypt L k iv p) = p"
    and "length (cl_encrypt L k iv p) = length p"
    and "length (cl_decrypt L k iv c) = length c"
    and "length (cl_tag L k iv c) = 16"
    and "cl_unhex L (cl_hex L b) = Some b"
    and "length (cl_hex L b) = 2 * length b"
    and "cl_unhex L s = Some b \<Longrightarrow> length s = 2 * length b"
  using assms by (simp_all add: crypt_laws_def)

section \<open>JSON\<close>

text \<open>
  \<open>j_field\<close> is \<open>operator[]\<close> on a value that is not const (a missing key yields null, a value that
  is no object throws), \<open>j_value\<close> the lookup of \<open>value(key, default)\<close> (throws unless the value is an
  object; \<open>Some None\<close> when the key is missing), \<open>j_items\<close> a range-based for, \<open>j_push\<close> is
  \<open>emplace_back\<close>; the getters are the implicit conversions. \<open>None\<close> is an exception.
\<close>

record 'j json_lib =
  j_parse :: "string \<Rightarrow> 'j option"
  j_dump :: "'j \<Rightarrow> string option"
  j_null :: 'j
  j_object :: "(string \<times> 'j) list \<Rightarrow> 'j"
  j_push :: "'j \<Rightarrow> 'j \<Rightarrow> 'j"
  j_string :: "string \<Rightarrow> 'j"
  j_uint :: "nat \<Rightarrow> 'j"
  j_bool :: "bool \<Rightarrow> 'j"
  j_strings :: "string list \<Rightarrow> 'j"
  j_field :: "'j \<Rightarrow> string \<Rightarrow> 'j option"
  j_value :: "'j \<Rightarrow> string \<Rightarrow> 'j option option"
  j_items :: "'j \<Rightarrow> 'j list"
  j_get_string :: "'j \<Rightarrow> string option"
  j_get_u16 :: "'j \<Rightarrow> u16 option"
  j_get_u32 :: "'j \<Rightarrow> u32 option"
  j_get_int :: "'j \<Rightarrow> int option"
  j_get_bool :: "'j \<Rightarrow> bool option"

text \<open>The values the program builds; only for them the text is required to parse back.\<close>

inductive built :: "'j json_lib \<Rightarrow> 'j \<Rightarrow> bool" for J where
  "built J (j_null J)"
| "built J (j_string J s)"
| "built J (j_uint J n)"
| "built J (j_bool J b)"
| "built J (j_strings J ss)"
| "\<forall>v \<in> snd ` set kvs. built J v \<Longrightarrow> built J (j_object J kvs)"
| "\<forall>v \<in> set vs. built J v \<Longrightarrow> built J (foldl (j_push J) (j_null J) vs)"

declare built.intros [intro]

definition json_laws :: "'j json_lib \<Rightarrow> bool" where
  "json_laws J \<longleftrightarrow>
     (\<forall>v s. built J v \<longrightarrow> j_dump J v = Some s \<longrightarrow> j_parse J s = Some v) \<and>
     (\<forall>kvs k. distinct (map fst kvs) \<longrightarrow>
        j_field J (j_object J kvs) k = Some (case map_of kvs k of None \<Rightarrow> j_null J | Some v \<Rightarrow> v)) \<and>
     (\<forall>kvs k. distinct (map fst kvs) \<longrightarrow> j_value J (j_object J kvs) k = Some (map_of kvs k)) \<and>
     (\<forall>vs. j_items J (foldl (j_push J) (j_null J) vs) = vs) \<and>
     (\<forall>s. j_get_string J (j_string J s) = Some s) \<and>
     j_get_string J (j_null J) = None \<and>
     (\<forall>w. j_get_u16 J (j_uint J (unat (w :: u16))) = Some w) \<and>
     (\<forall>w. j_get_u32 J (j_uint J (unat (w :: u32))) = Some w) \<and>
     (\<forall>n. n < 2 ^ 31 \<longrightarrow> j_get_int J (j_uint J n) = Some (int n)) \<and>
     (\<forall>b. j_get_bool J (j_bool J b) = Some b)"

lemma json_parse_dump:
  "json_laws J \<Longrightarrow> built J v \<Longrightarrow> j_dump J v = Some s \<Longrightarrow> j_parse J s = Some v"
  by (simp add: json_laws_def)

lemma json_lawsD:
  assumes "json_laws J"
  shows "distinct (map fst kvs) \<Longrightarrow>
      j_field J (j_object J kvs) k = Some (case map_of kvs k of None \<Rightarrow> j_null J | Some v \<Rightarrow> v)"
    and "distinct (map fst kvs) \<Longrightarrow> j_value J (j_object J kvs) k = Some (map_of kvs k)"
    and "j_items J (foldl (j_push J) (j_null J) vs) = vs"
    and "j_get_string J (j_string J s) = Some s"
    and "j_get_string J (j_null J) = None"
    and "j_get_u16 J (j_uint J (unat (w :: u16))) = Some w"
    and "j_get_u32 J (j_uint J (unat (w2 :: u32))) = Some w2"
    and "n < 2 ^ 31 \<Longrightarrow> j_get_int J (j_uint J n) = Some (int n)"
    and "j_get_bool J (j_bool J b) = Some b"
  using assms by (simp_all add: json_laws_def)

text \<open>The conversions the code writes as one expression: \<open>json["key"]\<close> assigned to a typed field.\<close>

definition get_string :: "'j json_lib \<Rightarrow> 'j \<Rightarrow> string \<Rightarrow> string option" where
  "get_string J v k = Option.bind (j_field J v k) (j_get_string J)"

definition get_u16 :: "'j json_lib \<Rightarrow> 'j \<Rightarrow> string \<Rightarrow> u16 option" where
  "get_u16 J v k = Option.bind (j_field J v k) (j_get_u16 J)"

definition get_u32 :: "'j json_lib \<Rightarrow> 'j \<Rightarrow> string \<Rightarrow> u32 option" where
  "get_u32 J v k = Option.bind (j_field J v k) (j_get_u32 J)"

definition get_bool :: "'j json_lib \<Rightarrow> 'j \<Rightarrow> string \<Rightarrow> bool option" where
  "get_bool J v k = Option.bind (j_field J v k) (j_get_bool J)"

definition value_or :: "'j json_lib \<Rightarrow> ('j \<Rightarrow> 'a option) \<Rightarrow> 'j \<Rightarrow> string \<Rightarrow> 'a \<Rightarrow> 'a option" where
  "value_or J get v k dflt =
     (case j_value J v k of None \<Rightarrow> None | Some None \<Rightarrow> Some dflt | Some (Some x) \<Rightarrow> get x)"

lemmas json_get_defs = get_string_def get_u16_def get_u32_def get_bool_def value_or_def

lemma json_get_object:
  assumes "json_laws J" and "distinct (map fst kvs)"
  shows "map_of kvs k = Some (j_string J s) \<Longrightarrow> get_string J (j_object J kvs) k = Some s"
    and "map_of kvs k = Some (j_uint J (unat w)) \<Longrightarrow> get_u16 J (j_object J kvs) k = Some w"
    and "map_of kvs k = Some (j_uint J (unat w2)) \<Longrightarrow> get_u32 J (j_object J kvs) k = Some w2"
    and "map_of kvs k = Some (j_bool J b) \<Longrightarrow> get_bool J (j_object J kvs) k = Some b"
    and "map_of kvs k = Some v \<Longrightarrow> value_or J get (j_object J kvs) k dflt = get v"
    and "map_of kvs k = None \<Longrightarrow> value_or J get (j_object J kvs) k dflt = Some dflt"
    and "map_of kvs k = None \<Longrightarrow> get_string J (j_object J kvs) k = None"
  using json_lawsD [OF assms(1)] assms(2) by (simp_all add: json_get_defs)

end
