(* ===== verification/WitnessLibs.thy ===== *)
theory WitnessLibs
  imports ExternalLibs
begin

unbundle bit_operations_syntax

text \<open>
  Concrete libraries that satisfy \<open>crypt_laws\<close> and \<open>json_laws\<close>. They show that the laws can hold
  and serve the witnesses; no property depends on them. The cipher adds the first key byte to every
  byte; the JSON text is a tagged form that parses back.
\<close>

section \<open>A cipher\<close>

definition hex_digits :: string where
  "hex_digits = ''0123456789ABCDEF''"

definition hex_char :: "nat \<Rightarrow> char" where
  "hex_char n = (if n < 10 then char_of (48 + n) else char_of (55 + n))"

definition hex_val :: "char \<Rightarrow> nat" where
  "hex_val c = (let n = of_char c in if n < 58 then n - 48 else n - 55)"

definition toy_hex :: "bytes \<Rightarrow> string" where
  "toy_hex bs = concat (map (\<lambda>b. [hex_char (unat b div 16), hex_char (unat b mod 16)]) bs)"

fun toy_unhex :: "string \<Rightarrow> bytes option" where
  "toy_unhex [] = Some []"
| "toy_unhex [c] = None"
| "toy_unhex (a # b # r) = map_option ((#) (word_of_nat (16 * hex_val a + hex_val b))) (toy_unhex r)"

definition toy_crypt :: crypt_lib where
  "toy_crypt = \<lparr>cl_pbkdf2 = (\<lambda>pwd salt. [of_nat (length pwd) + sum_list salt]),
     cl_encrypt = (\<lambda>k iv p. map (\<lambda>b. b + hd k) p), cl_decrypt = (\<lambda>k iv c. map (\<lambda>b. b - hd k) c),
     cl_tag = (\<lambda>k iv c. replicate 16 (sum_list c + hd k)), cl_sha3 = (\<lambda>b. [sum_list b]),
     cl_hex = toy_hex, cl_unhex = toy_unhex\<rparr>"

lemma hex_val_char: "n < 16 \<Longrightarrow> hex_val (hex_char n) = n"
proof -
  assume n: "n < 16"
  have "(of_char (char_of (48 + n) :: char) :: nat) = 48 + n" "(of_char (char_of (55 + n) :: char) :: nat) = 55 + n"
    using n by simp_all
  with n show ?thesis by (simp only: hex_val_def hex_char_def Let_def split: if_split) auto
qed

lemma toy_unhex_hex: "toy_unhex (toy_hex bs) = Some bs"
proof (induction bs)
  case (Cons b bs)
  have "unat b < 256" using unsigned_less [of b, where 'a = nat] by simp
  then have "unat b div 16 < 16" "unat b mod 16 < 16" by simp_all
  then have "hex_val (hex_char (unat b div 16)) = unat b div 16" "hex_val (hex_char (unat b mod 16)) = unat b mod 16"
    by (simp_all add: hex_val_char)
  moreover have "word_of_nat (16 * (unat b div 16) + unat b mod 16) = b" by simp
  ultimately show ?case using Cons by (simp add: toy_hex_def)
qed (simp add: toy_hex_def)

lemma toy_crypt_laws: "crypt_laws toy_crypt"
proof -
  have "length (toy_hex bs) = 2 * length bs" for bs
    by (induction bs) (simp_all add: toy_hex_def)
  moreover have "toy_unhex s = Some b \<Longrightarrow> length s = 2 * length b" for s b
    by (induction s arbitrary: b rule: toy_unhex.induct) auto
  ultimately show ?thesis by (simp add: crypt_laws_def toy_crypt_def toy_unhex_hex comp_def)
qed

section \<open>A JSON library\<close>

datatype jval = JNull | JBool bool | JNum nat | JStr string | JArr "jval list" | JObj "(string \<times> jval) list"

fun put_str :: "string \<Rightarrow> string" where
  "put_str [] = ''.''"
| "put_str (c # cs) = CHR ''c'' # c # put_str cs"

fun get_str :: "string \<Rightarrow> (string \<times> string) option" where
  "get_str (CHR ''.'' # r) = Some ([], r)"
| "get_str (CHR ''c'' # c # r) = map_option (\<lambda>(s, r'). (c # s, r')) (get_str r)"
| "get_str _ = None"

fun put_val :: "jval \<Rightarrow> string" and put_vals :: "jval list \<Rightarrow> string"
  and put_pairs :: "(string \<times> jval) list \<Rightarrow> string" where
  "put_val JNull = ''n''"
| "put_val (JBool b) = (if b then ''t'' else ''f'')"
| "put_val (JNum n) = CHR ''i'' # put_str (replicate n CHR ''1'')"
| "put_val (JStr s) = CHR ''s'' # put_str s"
| "put_val (JArr vs) = CHR ''a'' # put_vals vs"
| "put_val (JObj kvs) = CHR ''o'' # put_pairs kvs"
| "put_vals [] = '']''"
| "put_vals (v # vs) = CHR '','' # put_val v @ put_vals vs"
| "put_pairs [] = ''}''"
| "put_pairs (kv # kvs) = CHR '','' # put_str (fst kv) @ put_val (snd kv) @ put_pairs kvs"

text \<open>The parser has fuel for its depth; a text of length \<open>n\<close> needs at most \<open>n\<close>.\<close>

fun get_val :: "nat \<Rightarrow> string \<Rightarrow> (jval \<times> string) option"
  and get_vals :: "nat \<Rightarrow> string \<Rightarrow> (jval list \<times> string) option"
  and get_pairs :: "nat \<Rightarrow> string \<Rightarrow> ((string \<times> jval) list \<times> string) option" where
  "get_val 0 s = None"
| "get_val (Suc f) s = (case s of [] \<Rightarrow> None | t # r \<Rightarrow>
     (if t = CHR ''n'' then Some (JNull, r)
      else if t = CHR ''t'' then Some (JBool True, r)
      else if t = CHR ''f'' then Some (JBool False, r)
      else if t = CHR ''i'' then map_option (\<lambda>(u, r'). (JNum (length u), r')) (get_str r)
      else if t = CHR ''s'' then map_option (\<lambda>(u, r'). (JStr u, r')) (get_str r)
      else if t = CHR ''a'' then map_option (\<lambda>(vs, r'). (JArr vs, r')) (get_vals f r)
      else if t = CHR ''o'' then map_option (\<lambda>(kvs, r'). (JObj kvs, r')) (get_pairs f r)
      else None))"
| "get_vals 0 s = None"
| "get_vals (Suc f) s = (case s of [] \<Rightarrow> None | t # r \<Rightarrow>
     (if t = CHR '']'' then Some ([], r)
      else do { (v, r1) \<leftarrow> get_val f r; (vs, r2) \<leftarrow> get_vals f r1; Some (v # vs, r2) }))"
| "get_pairs 0 s = None"
| "get_pairs (Suc f) s = (case s of [] \<Rightarrow> None | t # r \<Rightarrow>
     (if t = CHR ''}'' then Some ([], r)
      else do { (k, r0) \<leftarrow> get_str r; (v, r1) \<leftarrow> get_val f r0; (kvs, r2) \<leftarrow> get_pairs f r1; Some ((k, v) # kvs, r2) }))"

lemma get_put_str: "get_str (put_str s @ r) = Some (s, r)"
  by (induction s) simp_all

lemma length_put_str: "length (put_str s) = 2 * length s + 1"
  by (induction s) simp_all

lemma put_nonempty: "0 < length (put_val v)" "0 < length (put_str s)"
  by (cases v; simp) (cases s; simp)

lemma get_put:
  "length (put_val v) \<le> f \<Longrightarrow> get_val f (put_val v @ r) = Some (v, r)"
  "length (put_vals vs) \<le> f \<Longrightarrow> get_vals f (put_vals vs @ r) = Some (vs, r)"
  "length (put_pairs kvs) \<le> f \<Longrightarrow> get_pairs f (put_pairs kvs @ r) = Some (kvs, r)"
proof (induction v and vs and kvs arbitrary: f r and f r and f r
    rule: put_val_put_vals_put_pairs.induct)
  case (3 n)
  then show ?case by (cases f) (simp_all add: get_put_str)
next
  case (4 s)
  then show ?case by (cases f) (simp_all add: get_put_str)
next
  case (5 vs)
  then obtain g where "f = Suc g" "length (put_vals vs) \<le> g" by (cases f) auto
  with 5 show ?case by simp
next
  case (6 kvs)
  then obtain g where "f = Suc g" "length (put_pairs kvs) \<le> g" by (cases f) auto
  with 6 show ?case by simp
next
  case (8 v vs)
  then obtain g where g: "f = Suc g" "length (put_val v) \<le> g" "length (put_vals vs) \<le> g"
    by (cases f) auto
  with 8 show ?case by simp
next
  case (10 kv kvs)
  then obtain g where g: "f = Suc g" "length (put_val (snd kv)) \<le> g" "length (put_pairs kvs) \<le> g"
    by (cases f) auto
  with 10 show ?case by (simp add: get_put_str)
next
  case 1
  then show ?case by (cases f) simp_all
next
  case (2 b)
  then show ?case by (cases f; cases b) simp_all
next
  case 7
  then show ?case by (cases f) simp_all
next
  case 9
  then show ?case by (cases f) simp_all
qed

definition jv_items :: "jval \<Rightarrow> jval list" where
  "jv_items v = (case v of JNull \<Rightarrow> [] | JArr vs \<Rightarrow> vs | JObj kvs \<Rightarrow> map snd kvs | _ \<Rightarrow> [v])"

definition jv_push :: "jval \<Rightarrow> jval \<Rightarrow> jval" where
  "jv_push v x = (case v of JArr vs \<Rightarrow> JArr (vs @ [x]) | _ \<Rightarrow> JArr [x])"

definition jv_num :: "jval \<Rightarrow> nat option" where
  "jv_num v = (case v of JNum n \<Rightarrow> Some n | _ \<Rightarrow> None)"

definition toy_json :: "jval json_lib" where
  "toy_json = \<lparr>
     j_parse = (\<lambda>s. case get_val (length s) s of Some (v, []) \<Rightarrow> Some v | _ \<Rightarrow> None),
     j_dump = (\<lambda>v. Some (put_val v)), j_null = JNull, j_object = JObj, j_push = jv_push,
     j_string = JStr, j_uint = JNum, j_bool = JBool, j_strings = (\<lambda>ss. JArr (map JStr ss)),
     j_field = (\<lambda>v k. case v of JObj kvs \<Rightarrow> Some (case map_of kvs k of None \<Rightarrow> JNull | Some x \<Rightarrow> x)
        | JNull \<Rightarrow> Some JNull | _ \<Rightarrow> None),
     j_value = (\<lambda>v k. case v of JObj kvs \<Rightarrow> Some (map_of kvs k) | _ \<Rightarrow> None),
     j_items = jv_items,
     j_get_string = (\<lambda>v. case v of JStr s \<Rightarrow> Some s | _ \<Rightarrow> None),
     j_get_u16 = (\<lambda>v. map_option word_of_nat (jv_num v)),
     j_get_u32 = (\<lambda>v. map_option word_of_nat (jv_num v)),
     j_get_int = (\<lambda>v. map_option int (jv_num v)),
     j_get_bool = (\<lambda>v. case v of JBool b \<Rightarrow> Some b | _ \<Rightarrow> None)\<rparr>"

lemma foldl_jv_push: "vs \<noteq> [] \<Longrightarrow> foldl jv_push JNull vs = JArr vs"
proof (induction vs rule: rev_induct)
  case (snoc v vs)
  then show ?case by (cases "vs = []") (simp_all add: jv_push_def)
qed simp

lemma jv_items_push: "jv_items (foldl jv_push JNull vs) = vs"
  by (cases "vs = []") (simp_all add: foldl_jv_push jv_items_def)

lemma toy_json_laws: "json_laws toy_json"
  using get_put(1) [of _ _ "[]"]
  by (simp add: json_laws_def toy_json_def jv_items_push jv_num_def cong: option.case_cong)

lemma demo_dump: "j_dump toy_json v = Some (put_val v)"
  by (simp add: toy_json_def)

end
