(* ===== verification/CryptUtils.thy ===== *)
theory CryptUtils
  imports WitnessLibs StringUtils
begin

unbundle bit_operations_syntax

text \<open>
  \<open>common/src/utils/CryptUtils.cpp\<close>: authenticated encryption of packets and of stored
  passwords. Buffers are lists of the size the code allocates and every access goes through
  \<open>mem_write\<close> and \<open>mem_read\<close>, so \<open>None\<close> is an access outside a buffer. A \<open>crypt_env\<close> holds what one
  call meets: allocation results, the return codes of OpenSSL, the random bytes and the clock.
  The pointers the source tests with \<open>!src\<close> and \<open>!dst\<close> are those of its four callers; they are
  null at most for an empty input, which the size tests refuse as well.
\<close>

section \<open>Byte order\<close>

text \<open>
  The macro \<open>htonll\<close>: \<open>be\<close> tells whether the host is big-endian. \<open>mem64\<close> is the memory image of
  an integer on the host; the image of \<open>htonll x\<close> is \<open>be64 x\<close> on both kinds of host.
\<close>

definition bswap32 :: "u32 \<Rightarrow> u32" where
  "bswap32 x = push_bit 24 (x AND 0xFF) OR push_bit 8 (x AND 0xFF00) OR
               (drop_bit 8 x AND 0xFF00) OR (drop_bit 24 x AND 0xFF)"

definition htonl :: "bool \<Rightarrow> u32 \<Rightarrow> u32" where
  "htonl be x = (if be then x else bswap32 x)"

definition htonll :: "bool \<Rightarrow> u64 \<Rightarrow> u64" where
  "htonll be x =
     (if 1 = htonl be 1 then x
      else push_bit 32 (ucast (htonl be (ucast (x AND 0xFFFFFFFF)))) OR
           ucast (htonl be (ucast (drop_bit 32 x))))"

definition mem64 :: "bool \<Rightarrow> u64 \<Rightarrow> bytes" where
  "mem64 be x = (if be then be64 x else rev (be64 x))"

lemma byte_mask_bits:
  "bit (0xFF :: 'a::len word) i \<longleftrightarrow> i < 8 \<and> i < LENGTH('a)"
  "bit (0xFF00 :: 'a word) i \<longleftrightarrow> 8 \<le> i \<and> i < 16 \<and> i < LENGTH('a)"
  "bit (0xFFFFFFFF :: 'a word) i \<longleftrightarrow> i < 32 \<and> i < LENGTH('a)"
proof -
  have "(0xFF :: 'a word) = mask 8" "(0xFF00 :: 'a word) = push_bit 8 (mask 8)"
    "(0xFFFFFFFF :: 'a word) = mask 32"
    by (simp_all add: mask_eq_exp_minus_1 push_bit_eq_mult)
  then show "bit (0xFF :: 'a::len word) i \<longleftrightarrow> i < 8 \<and> i < LENGTH('a)"
    "bit (0xFF00 :: 'a word) i \<longleftrightarrow> 8 \<le> i \<and> i < 16 \<and> i < LENGTH('a)"
    "bit (0xFFFFFFFF :: 'a word) i \<longleftrightarrow> i < 32 \<and> i < LENGTH('a)"
    by (auto simp only: bit_simps) auto
qed

lemma bswap32_bit:
  "bit (bswap32 x) i \<longleftrightarrow>
     (if i < 8 then bit x (i + 24) else if i < 16 then bit x (i + 8)
      else if i < 24 then bit x (i - 8) else i < 32 \<and> bit x (i - 24))"
proof -
  have "bit (push_bit 24 (x AND m) OR push_bit 8 (x AND n) OR (drop_bit 8 x AND n) OR (drop_bit 24 x AND m)) i
    \<longleftrightarrow> (24 \<le> i \<and> i < 32 \<and> bit x (i - 24) \<and> bit m (i - 24)) \<or> (8 \<le> i \<and> i < 32 \<and> bit x (i - 8) \<and> bit n (i - 8)) \<or>
      (bit x (8 + i) \<and> bit n i) \<or> (bit x (24 + i) \<and> bit m i)" for m n :: u32
    by (auto simp: bit_simps)
  note general = this [of 255 65280]
  have "bit x k \<Longrightarrow> k < 32" for k using bit_imp_le_length [of x k] by simp
  then show ?thesis
    unfolding bswap32_def general byte_mask_bits
    by (auto simp: add.commute split: if_splits)
qed

lemma bswap32_byte:
  assumes "i < 8"
  shows "bit (bswap32 w) i = bit w (i + 24)" "bit (bswap32 w) (i + 8) = bit w (i + 16)"
    "bit (bswap32 w) (i + 16) = bit w (i + 8)" "bit (bswap32 w) (i + 24) = bit w i"
  using assms by (simp_all add: bswap32_bit add.commute)

lemma htonll_image: "mem64 be (htonll be x) = be64 x"
proof (cases be)
  case True
  then show ?thesis by (simp add: mem64_def htonll_def htonl_def)
next
  case False
  have ne: "bswap32 1 \<noteq> 1" by (simp add: bswap32_def)
  define lo :: u32 where "lo = ucast (x AND 0xFFFFFFFF)"
  define hi :: u32 where "hi = ucast (drop_bit 32 x)"
  define y :: u64 where "y = push_bit 32 (ucast (bswap32 lo)) OR ucast (bswap32 hi)"
  have y: "htonll be x = y"
    using False ne by (simp add: htonll_def htonl_def y_def lo_def hi_def)
  have lo: "bit lo i \<longleftrightarrow> bit x i" if "i < 32" for i
    using that unfolding lo_def bit_unsigned_iff bit_and_iff byte_mask_bits by auto
  have hi: "bit hi i \<longleftrightarrow> bit x (i + 32)" if "i < 32" for i
    using that by (auto simp: hi_def bit_simps add.commute)
  have yb: "bit y i \<longleftrightarrow> bit (bswap32 hi) i" "bit y (i + 32) \<longleftrightarrow> bit (bswap32 lo) i" if "i < 32" for i
    using that by (auto simp: y_def bit_simps dest: bit_imp_le_length)
  have b: "i < 8 \<Longrightarrow> bit y (i + n) = bit x (i + (56 - n))"
    if "n \<in> {0, 8, 16, 24, 32, 40, 48, 56}" for i n
    using that bswap32_byte [of i lo] bswap32_byte [of i hi]
      yb [of i] yb [of "i + 8"] yb [of "i + 16"] yb [of "i + 24"]
      lo [of i] lo [of "i + 8"] lo [of "i + 16"] lo [of "i + 24"]
      hi [of i] hi [of "i + 8"] hi [of "i + 16"] hi [of "i + 24"]
    by (elim insertE emptyE) (simp_all add: add.assoc)
  have byte: "(ucast (drop_bit n y) :: u8) = ucast (drop_bit (56 - n) x)"
    if "n \<in> {0, 8, 16, 24, 32, 40, 48, 56}" for n
    by (rule bit_word_eqI) (use b [OF that] in \<open>auto simp: bit_simps add.commute\<close>)
  have "ucast y = (ucast (drop_bit 56 x) :: u8)" "(ucast (drop_bit 56 y) :: u8) = ucast x"
    using byte [of 0] byte [of 56] by simp_all
  with byte [of 8] byte [of 16] byte [of 24] byte [of 32] byte [of 40] byte [of 48] False
  show ?thesis unfolding y by (simp add: mem64_def be64_def)
qed

section \<open>Outcomes of one call\<close>

definition IV_SIZE :: nat where "IV_SIZE = 16"
definition SALT_SIZE :: nat where "SALT_SIZE = 16"
definition GCM_TAG_SIZE :: nat where "GCM_TAG_SIZE = 16"
definition CRYPT_BUFFER_SIZE :: nat where "CRYPT_BUFFER_SIZE = 2048"
definition CRYPT_PACKET_TIMEOUT :: int where "CRYPT_PACKET_TIMEOUT = 60000 * 2"
definition SIZEOF_INT64 :: nat where "SIZEOF_INT64 = 8"

lemmas crypt_sizes =
  IV_SIZE_def SALT_SIZE_def GCM_TAG_SIZE_def CRYPT_BUFFER_SIZE_def SIZEOF_INT64_def

record crypt_env =
  ce_now :: int                \<comment> \<open>\<open>Utils::GetCurrentTimeMs()\<close>\<close>
  ce_malloc_data :: bool
  ce_malloc_buf :: bool
  ce_heap :: u8                \<comment> \<open>what fresh memory holds\<close>
  ce_iv_rc :: int
  ce_iv :: bytes
  ce_salt_rc :: int
  ce_salt :: bytes
  ce_malloc_key :: bool
  ce_kdf_rc :: int
  ce_ctx :: bool               \<comment> \<open>\<open>EVP_CIPHER_CTX_new\<close> yields a context\<close>
  ce_init :: int
  ce_ivlen :: int
  ce_padding :: int
  ce_key_iv :: int
  ce_update :: int
  ce_final :: int
  ce_tag :: int

text \<open>\<open>RAND_bytes\<close> fills exactly the buffer it is given.\<close>

definition env_ok :: "crypt_env \<Rightarrow> bool" where
  "env_ok e \<longleftrightarrow> length (ce_iv e) = IV_SIZE \<and> length (ce_salt e) = SALT_SIZE"

text \<open>Every allocation and every call into OpenSSL succeeds.\<close>

definition all_succeed :: "crypt_env \<Rightarrow> bool" where
  "all_succeed e \<longleftrightarrow> env_ok e \<and> ce_malloc_data e \<and> ce_malloc_buf e \<and> ce_iv_rc e = 1 \<and>
     ce_salt_rc e = 1 \<and> ce_malloc_key e \<and> ce_kdf_rc e = 1 \<and> ce_ctx e \<and> ce_init e \<noteq> 0 \<and>
     ce_ivlen e \<noteq> 0 \<and> ce_padding e \<noteq> 0 \<and> ce_key_iv e \<noteq> 0 \<and> ce_update e \<noteq> 0 \<and>
     ce_final e \<noteq> 0 \<and> ce_tag e \<noteq> 0"

section \<open>The buffer routines\<close>

text \<open>\<open>pwd.c_str()\<close> and \<open>strlen\<close>: the password up to its first NUL.\<close>

definition c_str :: "string \<Rightarrow> string" where
  "c_str s = takeWhile (\<lambda>c. c \<noteq> CHR 0x00) s"

definition GenerateKey :: "crypt_lib \<Rightarrow> crypt_env \<Rightarrow> string \<Rightarrow> bytes \<Rightarrow> bytes option" where
  "GenerateKey L e pwd salt =
     (if \<not> ce_malloc_key e then None
      else if ce_kdf_rc e \<noteq> 1 then None
      else Some (cl_pbkdf2 L pwd salt))"

text \<open>\<open>CryptUtils::EncryptAES\<close> on buffers: the number of bytes written (0: failure) and \<open>dst\<close>.\<close>

definition EncryptAES_buf ::
  "crypt_lib \<Rightarrow> crypt_env \<Rightarrow> bytes \<Rightarrow> bytes \<Rightarrow> string \<Rightarrow> (nat \<times> bytes) option" where
  "EncryptAES_buf L e src dst pwd =
     (if length dst < length src + SALT_SIZE + IV_SIZE + GCM_TAG_SIZE then Some (0, dst)
      else if ce_iv_rc e \<noteq> 1 then Some (0, dst)
      else do {
        dst \<leftarrow> mem_write dst 0 (ce_iv e);
        if ce_salt_rc e \<noteq> 1 then Some (0, dst)
        else do {
          dst \<leftarrow> mem_write dst IV_SIZE (ce_salt e);
          case GenerateKey L e pwd (ce_salt e) of
            None \<Rightarrow> Some (0, dst)
          | Some key \<Rightarrow>
              if \<not> ce_ctx e then Some (0, dst)
              else if ce_init e = 0 then Some (0, dst)
              else if ce_ivlen e = 0 then Some (0, dst)
              else if ce_padding e = 0 then Some (0, dst)
              else if ce_key_iv e = 0 then Some (0, dst)
              else if ce_update e = 0 then Some (0, dst)
              else do {
                let ct = cl_encrypt L key (ce_iv e) src;
                dst \<leftarrow> mem_write dst (IV_SIZE + SALT_SIZE) ct;
                let encryptedLen = length ct;
                if ce_final e = 0 then Some (0, dst)
                else if ce_tag e = 0 then Some (0, dst)
                else do {
                  dst \<leftarrow> mem_write dst (IV_SIZE + SALT_SIZE + encryptedLen) (cl_tag L key (ce_iv e) ct);
                  Some (IV_SIZE + SALT_SIZE + encryptedLen + GCM_TAG_SIZE, dst)
                }
              }
        }
      })"

definition DecryptAES_buf ::
  "crypt_lib \<Rightarrow> crypt_env \<Rightarrow> bytes \<Rightarrow> bytes \<Rightarrow> string \<Rightarrow> (nat \<times> bytes) option" where
  "DecryptAES_buf L e src dst pwd =
     (let srcLen = length src; dstLen = length dst in
      if srcLen < IV_SIZE + SALT_SIZE + GCM_TAG_SIZE \<or>
         dstLen < srcLen - IV_SIZE - SALT_SIZE - GCM_TAG_SIZE then Some (0, dst)
      else do {
        iv \<leftarrow> mem_read src 0 IV_SIZE;
        salt \<leftarrow> mem_read src IV_SIZE SALT_SIZE;
        case GenerateKey L e pwd salt of
          None \<Rightarrow> Some (0, dst)
        | Some key \<Rightarrow>
            if \<not> ce_ctx e then Some (0, dst)
            else if ce_init e = 0 then Some (0, dst)
            else if ce_ivlen e = 0 then Some (0, dst)
            else if ce_padding e = 0 then Some (0, dst)
            else if ce_key_iv e = 0 then Some (0, dst)
            else if ce_update e = 0 then Some (0, dst)
            else do {
              ct \<leftarrow> mem_read src (IV_SIZE + SALT_SIZE) (srcLen - IV_SIZE - SALT_SIZE - GCM_TAG_SIZE);
              dst \<leftarrow> mem_write dst 0 (cl_decrypt L key iv ct);
              let decryptedLen = length (cl_decrypt L key iv ct);
              tag \<leftarrow> mem_read src (srcLen - GCM_TAG_SIZE) GCM_TAG_SIZE;
              if ce_tag e = 0 then Some (0, dst)
              else if ce_final e = 0 \<or> tag \<noteq> cl_tag L key iv ct then Some (0, dst)
              else Some (decryptedLen, dst)
            }
      })"

text \<open>The sealed form of a plain text: iv, salt, cipher text, tag.\<close>

definition seal :: "crypt_lib \<Rightarrow> bytes \<Rightarrow> bytes \<Rightarrow> string \<Rightarrow> bytes \<Rightarrow> bytes" where
  "seal L iv salt pwd p =
     (let key = cl_pbkdf2 L pwd salt; ct = cl_encrypt L key iv p in iv @ salt @ ct @ cl_tag L key iv ct)"

text \<open>What a sealed text opens to; \<open>None\<close> when it is too short or its tag is wrong.\<close>

definition unseal :: "crypt_lib \<Rightarrow> string \<Rightarrow> bytes \<Rightarrow> bytes option" where
  "unseal L pwd src =
     (if length src < 48 then None
      else let iv = take 16 src; key = cl_pbkdf2 L pwd (take 16 (drop 16 src));
               ct = take (length src - 48) (drop 32 src)
           in if drop (length src - 16) src = cl_tag L key iv ct then Some (cl_decrypt L key iv ct) else None)"

lemma length_seal:
  "crypt_laws L \<Longrightarrow> length iv = 16 \<Longrightarrow> length salt = 16 \<Longrightarrow> length (seal L iv salt pwd p) = 48 + length p"
  by (simp add: seal_def Let_def crypt_lawsD)

lemma unseal_seal:
  "crypt_laws L \<Longrightarrow> length iv = 16 \<Longrightarrow> length salt = 16 \<Longrightarrow> unseal L pwd (seal L iv salt pwd p) = Some p"
  by (simp add: unseal_def seal_def Let_def crypt_lawsD)

lemma unseal_length: "crypt_laws L \<Longrightarrow> unseal L pwd src = Some p \<Longrightarrow> length p = length src - 48 \<and> 48 \<le> length src"
  by (auto simp: unseal_def Let_def crypt_lawsD split: if_splits)

text \<open>The four writes into the output buffer.\<close>

lemma seal_writes:
  assumes "length iv = 16" and "length salt = 16" and "length tag = 16"
    and "48 + length ct \<le> length dst"
  obtains d1 d2 d3 d4 where "mem_write dst 0 iv = Some d1" "mem_write d1 IV_SIZE salt = Some d2"
    "mem_write d2 (IV_SIZE + SALT_SIZE) ct = Some d3"
    "mem_write d3 (IV_SIZE + SALT_SIZE + length ct) tag = Some d4"
    "length d1 = length dst" "length d2 = length dst" "length d3 = length dst" "length d4 = length dst"
    "take (48 + length ct) d4 = iv @ salt @ ct @ tag"
proof -
  define r1 where "r1 = drop 16 dst"
  have "mem_write dst 0 iv = Some (iv @ r1)" using assms by (simp add: mem_write_def r1_def)
  moreover have "mem_write (iv @ r1) IV_SIZE salt = Some (iv @ salt @ drop 16 r1)"
    using assms by (simp add: mem_write_def r1_def crypt_sizes)
  moreover have "mem_write (iv @ salt @ drop 16 r1) (IV_SIZE + SALT_SIZE) ct =
      Some (iv @ salt @ ct @ drop (16 + length ct) r1)"
    using assms by (simp add: mem_write_def r1_def crypt_sizes add.commute)
  moreover have "mem_write (iv @ salt @ ct @ drop (16 + length ct) r1) (IV_SIZE + SALT_SIZE + length ct) tag =
      Some (iv @ salt @ ct @ tag @ drop (32 + length ct) r1)"
    using assms by (simp add: mem_write_def r1_def crypt_sizes add.commute)
  ultimately show thesis
    by (rule that) (use assms in \<open>simp_all add: r1_def\<close>)
qed

text \<open>Return codes under which the buffer routines run to their end.\<close>

definition codes_ok :: "crypt_env \<Rightarrow> bool" where
  "codes_ok e \<longleftrightarrow> ce_iv_rc e = 1 \<and> ce_salt_rc e = 1 \<and> ce_malloc_key e \<and> ce_kdf_rc e = 1 \<and> ce_ctx e \<and>
     ce_init e \<noteq> 0 \<and> ce_ivlen e \<noteq> 0 \<and> ce_padding e \<noteq> 0 \<and> ce_key_iv e \<noteq> 0 \<and> ce_update e \<noteq> 0 \<and>
     ce_final e \<noteq> 0 \<and> ce_tag e \<noteq> 0"

lemma all_succeed_codes: "all_succeed e \<Longrightarrow> codes_ok e \<and> env_ok e"
  by (simp add: all_succeed_def codes_ok_def)

lemma EncryptAES_buf_result:
  assumes "crypt_laws L" and "env_ok e"
  shows "\<exists>n d. EncryptAES_buf L e src dst pwd = Some (n, d) \<and> length d = length dst \<and>
           (if codes_ok e \<and> 48 + length src \<le> length dst
            then n = 48 + length src \<and> take n d = seal L (ce_iv e) (ce_salt e) pwd src
            else n = 0)"
proof (cases "48 + length src \<le> length dst")
  case True
  define key where "key = cl_pbkdf2 L pwd (ce_salt e)"
  define ct where "ct = cl_encrypt L key (ce_iv e) src"
  define tag where "tag = cl_tag L key (ce_iv e) ct"
  have len: "length ct = length src" "length tag = 16"
    by (simp_all add: ct_def tag_def crypt_lawsD [OF assms(1)])
  obtain d1 d2 d3 d4 where w: "mem_write dst 0 (ce_iv e) = Some d1" "mem_write d1 IV_SIZE (ce_salt e) = Some d2"
    "mem_write d2 (IV_SIZE + SALT_SIZE) ct = Some d3"
    "mem_write d3 (IV_SIZE + SALT_SIZE + length ct) tag = Some d4"
    and l: "length d1 = length dst" "length d2 = length dst" "length d3 = length dst" "length d4 = length dst"
    and t: "take (48 + length ct) d4 = ce_iv e @ ce_salt e @ ct @ tag"
  proof -
    have "length (ce_iv e) = 16" "length (ce_salt e) = 16" "48 + length ct \<le> length dst"
      using assms(2) True len by (simp_all add: env_ok_def crypt_sizes)
    note w = seal_writes [OF this(1,2) len(2) this(3)]
    show thesis using w that by metis
  qed
  have seal: "seal L (ce_iv e) (ce_salt e) pwd src = ce_iv e @ ce_salt e @ ct @ tag"
    by (simp add: seal_def Let_def key_def ct_def tag_def)
  have fits: "\<not> length dst < length src + SALT_SIZE + IV_SIZE + GCM_TAG_SIZE"
    using True by (simp add: crypt_sizes)
  show ?thesis
    using w l t True len fits
    by (simp add: EncryptAES_buf_def GenerateKey_def codes_ok_def seal Let_def crypt_sizes
        flip: key_def ct_def tag_def)
next
  case False
  then show ?thesis by (simp add: EncryptAES_buf_def crypt_sizes)
qed

lemma EncryptAES_buf_too_long:
  "length dst < 48 + length src \<Longrightarrow> EncryptAES_buf L e src dst pwd = Some (0, dst)"
  by (simp add: EncryptAES_buf_def crypt_sizes)

lemma DecryptAES_buf_result:
  assumes "crypt_laws L" and "length src \<le> length dst"
  shows "\<exists>n d. DecryptAES_buf L e src dst pwd = Some (n, d) \<and> length d = length dst \<and>
           (if codes_ok e \<and> unseal L pwd src \<noteq> None then Some (take n d) = unseal L pwd src \<and> n \<le> length dst
            else n = 0 \<or> unseal L pwd src = Some (take n d) \<and> n \<le> length dst)"
proof (cases "48 \<le> length src")
  case True
  define iv where "iv = take 16 src"
  define salt where "salt = take 16 (drop 16 src)"
  define key where "key = cl_pbkdf2 L pwd salt"
  define ct where "ct = take (length src - 48) (drop 32 src)"
  define tag where "tag = drop (length src - 16) src"
  define p where "p = cl_decrypt L key iv ct"
  have lp: "length p = length src - 48"
    using True by (simp add: p_def ct_def crypt_lawsD [OF assms(1)])
  have r: "mem_read src 0 IV_SIZE = Some iv" "mem_read src IV_SIZE SALT_SIZE = Some salt"
    "mem_read src (IV_SIZE + SALT_SIZE) (length src - IV_SIZE - SALT_SIZE - GCM_TAG_SIZE) = Some ct"
    "mem_read src (length src - GCM_TAG_SIZE) GCM_TAG_SIZE = Some tag"
    using True by (simp_all add: mem_read_def crypt_sizes iv_def salt_def ct_def tag_def)
  obtain d where w: "mem_write dst 0 p = Some d" "length d = length dst" "take (length p) d = p"
    by (rule mem_writeE [of 0 p dst]) (use lp assms(2) in auto)
  have u: "unseal L pwd src = (if tag = cl_tag L key iv ct then Some p else None)"
    using True by (simp add: unseal_def Let_def iv_def key_def salt_def ct_def tag_def p_def)
  have guard: "\<not> (length src < IV_SIZE + SALT_SIZE + GCM_TAG_SIZE \<or>
      length dst < length src - IV_SIZE - SALT_SIZE - GCM_TAG_SIZE)"
    using True assms(2) by (simp add: crypt_sizes)
  have "length p \<le> length dst" using lp assms(2) by simp
  then show ?thesis
    using r w u guard
    by (simp add: DecryptAES_buf_def GenerateKey_def codes_ok_def Let_def flip: key_def p_def)
next
  case False
  then show ?thesis by (simp add: DecryptAES_buf_def unseal_def crypt_sizes)
qed

section \<open>Packets\<close>

datatype PacketCryptResult = OK | INVALID_TIMESTAMP | OTHER_ERROR

record CryptPacket =
  cp_result :: PacketCryptResult
  cp_data :: bytes

definition crypt_error :: "PacketCryptResult \<Rightarrow> CryptPacket" where
  "crypt_error r = \<lparr>cp_result = r, cp_data = []\<rparr>"

definition EncryptAESPacket :: "crypt_lib \<Rightarrow> crypt_env \<Rightarrow> bytes \<Rightarrow> string \<Rightarrow> CryptPacket option" where
  "EncryptAESPacket L e data pwd =
     (if length data > CRYPT_BUFFER_SIZE then Some (crypt_error OTHER_ERROR)
      else if \<not> ce_malloc_data e then Some (crypt_error OTHER_ERROR)
      else do {
        let dataBuf = replicate (length data + SIZEOF_INT64) (ce_heap e);
        let timeMs = be64 (word_of_int (ce_now e));
        dataBuf \<leftarrow> mem_write dataBuf 0 timeMs;
        dataBuf \<leftarrow> mem_write dataBuf SIZEOF_INT64 data;
        if \<not> ce_malloc_buf e then Some (crypt_error OTHER_ERROR)
        else do {
          let encBuffer = replicate CRYPT_BUFFER_SIZE (ce_heap e);
          (encLen, encBuffer) \<leftarrow> EncryptAES_buf L e dataBuf encBuffer (c_str pwd);
          if encLen \<le> SIZEOF_INT64 then Some (crypt_error OTHER_ERROR)
          else do {
            resultVec \<leftarrow> mem_read encBuffer 0 encLen;
            Some \<lparr>cp_result = OK, cp_data = resultVec\<rparr>
          }
        }
      })"

text \<open>\<open>int64_t\<close> differences wrap (a signed overflow is undefined in C++; compilers wrap).\<close>

definition wrap64 :: "int \<Rightarrow> int" where
  "wrap64 x = sint (word_of_int x :: u64)"

definition DecryptAESPacket :: "crypt_lib \<Rightarrow> crypt_env \<Rightarrow> bytes \<Rightarrow> string \<Rightarrow> CryptPacket option" where
  "DecryptAESPacket L e data pwd =
     (if length data > CRYPT_BUFFER_SIZE then Some (crypt_error OTHER_ERROR)
      else if \<not> ce_malloc_buf e then Some (crypt_error OTHER_ERROR)
      else do {
        let decBuffer = replicate CRYPT_BUFFER_SIZE (ce_heap e);
        (decLen, decBuffer) \<leftarrow> DecryptAES_buf L e data decBuffer (c_str pwd);
        if decLen \<le> SIZEOF_INT64 then Some (crypt_error OTHER_ERROR)
        else do {
          let decLen = decLen - SIZEOF_INT64;
          stamp \<leftarrow> mem_read decBuffer 0 SIZEOF_INT64;
          let timestamp = sint (un_be64 stamp);
          let timeDiff = wrap64 (ce_now e - timestamp);
          if timeDiff < - CRYPT_PACKET_TIMEOUT \<or> timeDiff > CRYPT_PACKET_TIMEOUT
          then Some (crypt_error INVALID_TIMESTAMP)
          else do {
            resultVec \<leftarrow> mem_read decBuffer SIZEOF_INT64 decLen;
            Some \<lparr>cp_result = OK, cp_data = resultVec\<rparr>
          }
        }
      })"

section \<open>Stored passwords\<close>

definition EncryptAES :: "crypt_lib \<Rightarrow> crypt_env \<Rightarrow> string \<Rightarrow> string \<Rightarrow> string option option" where
  "EncryptAES L e data pwd =
     (if length data > CRYPT_BUFFER_SIZE then Some None
      else if \<not> ce_malloc_buf e then Some None
      else do {
        (encLen, encBuffer) \<leftarrow>
          EncryptAES_buf L e (bytes_of data) (replicate CRYPT_BUFFER_SIZE (ce_heap e)) (c_str pwd);
        if encLen = 0 then Some None
        else do {
          resultVec \<leftarrow> mem_read encBuffer 0 encLen;
          Some (Some (ToHexString (cl_hex L) resultVec))
        }
      })"

definition DecryptAES :: "crypt_lib \<Rightarrow> crypt_env \<Rightarrow> string \<Rightarrow> string \<Rightarrow> string option option" where
  "DecryptAES L e data pwd =
     (if length data > CRYPT_BUFFER_SIZE then Some None
      else let decVec = FromHexString (cl_unhex L) data in
        if decVec = [] then Some None
        else if \<not> ce_malloc_buf e then Some None
        else do {
          (decLen, decBuffer) \<leftarrow>
            DecryptAES_buf L e decVec (replicate CRYPT_BUFFER_SIZE (ce_heap e)) (c_str pwd);
          if decLen = 0 then Some None
          else do {
            result \<leftarrow> mem_read decBuffer 0 decLen;
            Some (Some (string_of result))
          }
        })"

definition Sha256 :: "crypt_lib \<Rightarrow> bool \<Rightarrow> int \<Rightarrow> int \<Rightarrow> int \<Rightarrow> string \<Rightarrow> string" where
  "Sha256 L context init update final text =
     (if \<not> context then []
      else if init = 0 then []
      else if update = 0 then []
      else if final = 0 then []
      else ToHexString (cl_hex L) (cl_sha3 L (bytes_of text)))"

section \<open>Specification of the packet operations\<close>

lemma stamped_buffer:
  "Option.bind (mem_write (replicate (length data + SIZEOF_INT64) h) 0 (be64 t)) (\<lambda>b.
     mem_write b SIZEOF_INT64 data) = Some (be64 t @ data)"
  by (simp add: mem_write_def crypt_sizes)

lemma bind_assoc_stamped:
  "Option.bind (mem_write (replicate (length data + SIZEOF_INT64) h) 0 (be64 t)) (\<lambda>b.
     Option.bind (mem_write b SIZEOF_INT64 data) f) = f (be64 t @ data)"
  by (simp add: mem_write_def crypt_sizes)

lemma EncryptAESPacket_result:
  assumes "crypt_laws L" and "env_ok e"
  shows "EncryptAESPacket L e data pwd = Some
    (if ce_malloc_data e \<and> ce_malloc_buf e \<and> codes_ok e \<and> length data \<le> 1992
     then \<lparr>cp_result = OK, cp_data = seal L (ce_iv e) (ce_salt e) (c_str pwd) (be64 (word_of_int (ce_now e)) @ data)\<rparr>
     else crypt_error OTHER_ERROR)"
proof -
  let ?src = "be64 (word_of_int (ce_now e)) @ data"
  let ?dst = "replicate CRYPT_BUFFER_SIZE (ce_heap e)"
  have l: "length ?dst = 2048" "48 + length ?src = 56 + length data" by (simp_all add: crypt_sizes)
  obtain n d where nd: "EncryptAES_buf L e ?src ?dst (c_str pwd) = Some (n, d)" "length d = 2048"
    "if codes_ok e \<and> 48 + length ?src \<le> length ?dst
     then n = 48 + length ?src \<and> take n d = seal L (ce_iv e) (ce_salt e) (c_str pwd) ?src else n = 0"
    using EncryptAES_buf_result [OF assms, of ?src ?dst "c_str pwd"] l(1) by metis
  note step = EncryptAESPacket_def [of L e data pwd] bind_assoc_stamped Let_def mem_read_def
  show ?thesis
  proof (cases "codes_ok e \<and> length data \<le> 1992")
    case True
    then have "codes_ok e \<and> 48 + length ?src \<le> length ?dst" using l by simp
    with nd(3) have "n = 48 + length ?src" "take n d = seal L (ce_iv e) (ce_salt e) (c_str pwd) ?src"
      by metis+
    with nd(1,2) True show ?thesis by (simp add: step CRYPT_BUFFER_SIZE_def) (simp add: SIZEOF_INT64_def)
  next
    case False
    with nd(3) l have "n = 0" by auto
    with nd(1) False show ?thesis by (auto simp: step CRYPT_BUFFER_SIZE_def)
  qed
qed

definition in_window :: "int \<Rightarrow> int \<Rightarrow> bool" where
  "in_window now ts \<longleftrightarrow> - CRYPT_PACKET_TIMEOUT \<le> wrap64 (now - ts) \<and> wrap64 (now - ts) \<le> CRYPT_PACKET_TIMEOUT"

text \<open>What a plain text with a time stamp in front is worth at time \<open>now\<close>.\<close>

definition open_stamped :: "int \<Rightarrow> bytes \<Rightarrow> CryptPacket" where
  "open_stamped now p =
     (if length p \<le> 8 then crypt_error OTHER_ERROR
      else if in_window now (sint (un_be64 (take 8 p))) then \<lparr>cp_result = OK, cp_data = drop 8 p\<rparr>
      else crypt_error INVALID_TIMESTAMP)"

lemma DecryptAESPacket_result:
  assumes "crypt_laws L"
  shows "\<exists>r. DecryptAESPacket L e data pwd = Some r \<and>
     (r = crypt_error OTHER_ERROR \<or>
      length data \<le> 2048 \<and> (\<exists>p. unseal L (c_str pwd) data = Some p \<and> r = open_stamped (ce_now e) p)) \<and>
     (length data \<le> 2048 \<and> ce_malloc_buf e \<and> codes_ok e \<longrightarrow>
      (\<forall>p. unseal L (c_str pwd) data = Some p \<longrightarrow> r = open_stamped (ce_now e) p))"
proof (cases "length data \<le> 2048 \<and> ce_malloc_buf e")
  case False
  then show ?thesis by (auto simp: DecryptAESPacket_def CRYPT_BUFFER_SIZE_def)
next
  case True
  let ?dst = "replicate CRYPT_BUFFER_SIZE (ce_heap e)"
  have l: "length data \<le> length ?dst" using True by (simp add: CRYPT_BUFFER_SIZE_def)
  obtain n d where nd: "DecryptAES_buf L e data ?dst (c_str pwd) = Some (n, d)" "length d = length ?dst"
    and u: "if codes_ok e \<and> unseal L (c_str pwd) data \<noteq> None
            then Some (take n d) = unseal L (c_str pwd) data \<and> n \<le> length ?dst
            else n = 0 \<or> unseal L (c_str pwd) data = Some (take n d) \<and> n \<le> length ?dst"
    using DecryptAES_buf_result [OF assms l, of e "c_str pwd"] by blast
  define r where "r = (if n \<le> 8 then crypt_error OTHER_ERROR else open_stamped (ce_now e) (take n d))"
  have run: "DecryptAESPacket L e data pwd = Some r" if "n \<le> length d"
    using nd True that
    by (auto simp: DecryptAESPacket_def Let_def mem_read_def r_def open_stamped_def in_window_def
        CRYPT_BUFFER_SIZE_def SIZEOF_INT64_def drop_take not_le)
  have "n \<le> length d" using u nd(2) by (auto split: if_splits)
  moreover have "open_stamped (ce_now e) (take n d) = r"
    using \<open>n \<le> length d\<close> by (simp add: r_def open_stamped_def)
  moreover have "n = 0 \<Longrightarrow> r = crypt_error OTHER_ERROR" by (simp add: r_def)
  ultimately show ?thesis
    using run u True by (intro exI [of _ r]) (auto split: if_splits)
qed

lemma wrap64_id: "- (2 ^ 63) \<le> x \<Longrightarrow> x < 2 ^ 63 \<Longrightarrow> wrap64 x = x"
  by (simp add: wrap64_def signed_of_int signed_take_bit_int_eq_self)

lemma wrap64_periodic: "wrap64 (x - 2 ^ 64) = wrap64 x"
proof -
  have "(x - 2 ^ 64) mod 2 ^ 64 = x mod 2 ^ 64" by (rule minus_mod_self2)
  then have "word_of_int (x - 2 ^ 64) = (word_of_int x :: u64)"
    by (simp only: word_of_int_eq_iff take_bit_eq_mod) simp
  then show ?thesis by (simp only: wrap64_def)
qed

lemma sint_u64_range: "- (2 ^ 63) \<le> sint (w :: u64)" "sint (w :: u64) < 2 ^ 63"
  using sint_greater_eq [of w] sint_less [of w] by simp_all

lemma stamp_back: "- (2 ^ 63) \<le> t \<Longrightarrow> t < 2 ^ 63 \<Longrightarrow> sint (un_be64 (be64 (word_of_int t))) = t"
  using wrap64_id [of t] by (simp add: wrap64_def)

text \<open>For clocks of this age the wrap-around of the difference never lets a stamp through.\<close>

lemma in_window_sane:
  assumes "0 \<le> now" and "now < 2 ^ 62"
  shows "in_window now (sint (w :: u64)) \<longleftrightarrow> \<bar>now - sint w\<bar> \<le> CRYPT_PACKET_TIMEOUT"
proof (cases "now - sint w < 2 ^ 63")
  case True
  then have "wrap64 (now - sint w) = now - sint w"
    using assms sint_u64_range [of w] by (intro wrap64_id) simp_all
  then show ?thesis by (auto simp: in_window_def)
next
  case False
  then have big: "now - sint w \<ge> 2 ^ 63" by simp
  have "wrap64 (now - sint w) = wrap64 (now - sint w - 2 ^ 64)" by (simp only: wrap64_periodic)
  also have "\<dots> = now - sint w - 2 ^ 64"
    using assms sint_u64_range [of w] big by (intro wrap64_id) simp_all
  finally show ?thesis
    using assms sint_u64_range [of w] big by (simp add: in_window_def CRYPT_PACKET_TIMEOUT_def)
qed

lemma unseal_sealed_packet:
  assumes "crypt_laws L" and "all_succeed e"
  shows "unseal L pwd (seal L (ce_iv e) (ce_salt e) pwd p) = Some p"
    and "length (seal L (ce_iv e) (ce_salt e) pwd p) = 48 + length p"
  using assms by (auto simp: unseal_seal length_seal all_succeed_def env_ok_def crypt_sizes)

lemma decrypt_of_encrypt:
  assumes "crypt_laws L" and "all_succeed e1" and "all_succeed e2" and "c_str pwd1 = c_str pwd2"
    and "length data \<le> 1992"
  shows "\<exists>s. EncryptAESPacket L e1 data pwd1 = Some \<lparr>cp_result = OK, cp_data = s\<rparr> \<and>
           DecryptAESPacket L e2 s pwd2 =
             Some (open_stamped (ce_now e2) (be64 (word_of_int (ce_now e1)) @ data))"
proof -
  let ?p = "be64 (word_of_int (ce_now e1)) @ data"
  let ?s = "seal L (ce_iv e1) (ce_salt e1) (c_str pwd1) ?p"
  have "EncryptAESPacket L e1 data pwd1 = Some \<lparr>cp_result = OK, cp_data = ?s\<rparr>"
    using EncryptAESPacket_result [OF assms(1), of e1 data pwd1] assms(2,5) all_succeed_codes [OF assms(2)]
    by (simp add: all_succeed_def)
  moreover have "DecryptAESPacket L e2 ?s pwd2 = Some (open_stamped (ce_now e2) ?p)"
    using DecryptAESPacket_result [OF assms(1), of e2 ?s pwd2] unseal_sealed_packet [OF assms(1,2)]
      all_succeed_codes [OF assms(3)] assms(3,4,5)
    by (auto simp: all_succeed_def)
  ultimately show ?thesis by blast
qed

lemma open_stamped_cases:
  "(cp_result (open_stamped now p) = OK \<longleftrightarrow> 8 < length p \<and> in_window now (sint (un_be64 (take 8 p)))) \<and>
   cp_data (open_stamped now p) = (if cp_result (open_stamped now p) = OK then drop 8 p else [])"
  by (simp add: open_stamped_def crypt_error_def)

definition int64_time :: "int \<Rightarrow> bool" where
  "int64_time t \<longleftrightarrow> 0 \<le> t \<and> t < 2 ^ 62"

lemma open_stamped_sealed:
  assumes "int64_time t" and "int64_time now" and "data \<noteq> []"
  shows "open_stamped now (be64 (word_of_int t) @ data) =
     (if \<bar>now - t\<bar> \<le> CRYPT_PACKET_TIMEOUT then \<lparr>cp_result = OK, cp_data = data\<rparr>
      else crypt_error INVALID_TIMESTAMP)"
proof -
  have t: "sint (word_of_int t :: u64) = t"
    using wrap64_id [of t] assms(1) by (simp add: wrap64_def int64_time_def)
  have "in_window now (sint (word_of_int t :: u64)) \<longleftrightarrow> \<bar>now - t\<bar> \<le> CRYPT_PACKET_TIMEOUT"
    using in_window_sane [of now "word_of_int t"] assms(2) unfolding t int64_time_def by simp
  moreover have "0 < length data" using assms(3) by simp
  ultimately show ?thesis by (simp add: open_stamped_def)
qed

text \<open>
  C4: A packet that \<open>EncryptAESPacket\<close> sealed is opened by \<open>DecryptAESPacket\<close> with the same password
  (up to its first NUL) to the same data, when it has at least one byte, at most 1992 of them, and
  the two clocks differ by at most two minutes either way.
\<close>

theorem packet_seal_open:
  assumes "crypt_laws L" and "all_succeed e1" and "all_succeed e2" and "c_str pwd1 = c_str pwd2"
    and "data \<noteq> []" and "length data \<le> 1992"
    and "int64_time (ce_now e1)" and "int64_time (ce_now e2)"
    and "\<bar>ce_now e2 - ce_now e1\<bar> \<le> CRYPT_PACKET_TIMEOUT"
  shows "\<exists>s. EncryptAESPacket L e1 data pwd1 = Some \<lparr>cp_result = OK, cp_data = s\<rparr> \<and>
           DecryptAESPacket L e2 s pwd2 = Some \<lparr>cp_result = OK, cp_data = data\<rparr>"
  using decrypt_of_encrypt [OF assms(1,2,3,4,6)]
  by (simp only: open_stamped_sealed [OF assms(7,8,5)] assms(9) if_True)

text \<open>
  A replayed packet is refused: under the same conditions but with clocks more than two minutes
  apart, \<open>DecryptAESPacket\<close> answers \<open>INVALID_TIMESTAMP\<close> and hands out no data.
\<close>

theorem packet_replay_refused:
  assumes "crypt_laws L" and "all_succeed e1" and "all_succeed e2" and "c_str pwd1 = c_str pwd2"
    and "data \<noteq> []" and "length data \<le> 1992"
    and "int64_time (ce_now e1)" and "int64_time (ce_now e2)"
    and "\<bar>ce_now e2 - ce_now e1\<bar> > CRYPT_PACKET_TIMEOUT"
  shows "\<exists>s. EncryptAESPacket L e1 data pwd1 = Some \<lparr>cp_result = OK, cp_data = s\<rparr> \<and>
           DecryptAESPacket L e2 s pwd2 = Some \<lparr>cp_result = INVALID_TIMESTAMP, cp_data = []\<rparr>"
  using decrypt_of_encrypt [OF assms(1,2,3,4,6)]
  by (simp only: open_stamped_sealed [OF assms(7,8,5)] assms(9) [folded not_le] if_False crypt_error_def)

text \<open>
  C5: Whatever bytes arrive and whatever the library calls return, \<open>DecryptAESPacket\<close> stays inside
  its buffers, and it answers \<open>OK\<close> only when the authentication tag matches under the key derived
  from the password, the stamp is in the window, and the data is what follows the stamp in the
  authenticated plain text.
\<close>

theorem packet_authentic:
  assumes "crypt_laws L"
  shows "\<exists>r. DecryptAESPacket L e data pwd = Some r \<and>
           (cp_result r = OK \<longrightarrow>
             (\<exists>p. unseal L (c_str pwd) data = Some p \<and> 8 < length p \<and> cp_data r = drop 8 p \<and>
                  in_window (ce_now e) (sint (un_be64 (take 8 p))))) \<and>
           (cp_result r \<noteq> OK \<longrightarrow> cp_data r = [])"
proof -
  obtain r where r: "DecryptAESPacket L e data pwd = Some r"
    "r = crypt_error OTHER_ERROR \<or> (\<exists>p. unseal L (c_str pwd) data = Some p \<and> r = open_stamped (ce_now e) p)"
    using DecryptAESPacket_result [OF assms, of e data pwd] by metis
  from r(2) show ?thesis
  proof (elim disjE exE conjE)
    assume "r = crypt_error OTHER_ERROR"
    with r(1) show ?thesis by (simp add: crypt_error_def)
  next
    fix p assume "unseal L (c_str pwd) data = Some p" and "r = open_stamped (ce_now e) p"
    with r(1) show ?thesis by (simp add: open_stamped_cases)
  qed
qed

text \<open>
  \<open>EncryptAESPacket\<close> never writes outside its buffers. With working library calls it seals
  exactly the inputs of at most 1992 bytes (although its own guard admits 2048), and the result is
  the input plus 56 bytes, which fits the 2048 bytes that \<open>DecryptAESPacket\<close> accepts.
\<close>

theorem packet_size_bounds:
  assumes "crypt_laws L" and "env_ok e"
  shows "\<exists>r. EncryptAESPacket L e data pwd = Some r \<and>
           (cp_result r = OK \<longrightarrow> length data \<le> 1992 \<and> length (cp_data r) = length data + 56) \<and>
           (all_succeed e \<longrightarrow> (cp_result r = OK \<longleftrightarrow> length data \<le> 1992))"
  using EncryptAESPacket_result [OF assms, of data pwd] assms all_succeed_codes [of e]
    length_seal [OF assms(1), of "ce_iv e" "ce_salt e" "c_str pwd" "be64 (word_of_int (ce_now e)) @ data"]
  by (auto simp: crypt_error_def env_ok_def crypt_sizes all_succeed_def)

section \<open>Properties of stored passwords\<close>

lemma EncryptAES_result:
  assumes "crypt_laws L" and "env_ok e"
  shows "EncryptAES L e data pwd = Some
    (if ce_malloc_buf e \<and> codes_ok e \<and> length data \<le> 2000
     then Some (cl_hex L (seal L (ce_iv e) (ce_salt e) (c_str pwd) (bytes_of data))) else None)"
proof -
  let ?dst = "replicate CRYPT_BUFFER_SIZE (ce_heap e)"
  have l: "length ?dst = 2048" "48 + length (bytes_of data) = 48 + length data" by (simp_all add: crypt_sizes)
  obtain n d where nd: "EncryptAES_buf L e (bytes_of data) ?dst (c_str pwd) = Some (n, d)" "length d = 2048"
    "if codes_ok e \<and> 48 + length (bytes_of data) \<le> length ?dst
     then n = 48 + length (bytes_of data) \<and> take n d = seal L (ce_iv e) (ce_salt e) (c_str pwd) (bytes_of data)
     else n = 0"
    using EncryptAES_buf_result [OF assms, of "bytes_of data" ?dst "c_str pwd"] l(1) by metis
  note step = EncryptAES_def [of L e data pwd] Let_def mem_read_def ToHexString_def CRYPT_BUFFER_SIZE_def
  show ?thesis
  proof (cases "codes_ok e \<and> length data \<le> 2000")
    case True
    then have "codes_ok e \<and> 48 + length (bytes_of data) \<le> length ?dst" using l by simp
    with nd(3) have n: "n = 48 + length (bytes_of data)"
      and "take n d = seal L (ce_iv e) (ce_salt e) (c_str pwd) (bytes_of data)" by metis+
    with nd(1,2) True show ?thesis by (simp add: step)
  next
    case False
    then have "\<not> (codes_ok e \<and> 48 + length (bytes_of data) \<le> length ?dst)" using l by auto
    with nd(3) have "n = 0" by metis
    with nd(1) False show ?thesis by (auto simp: step)
  qed
qed

text \<open>No input makes \<open>DecryptAES\<close> leave its buffer: at most 2048 digits are at most 1024 bytes.\<close>

lemma DecryptAES_total:
  assumes "crypt_laws L"
  shows "DecryptAES L e h pwd \<noteq> None"
proof (cases "length h > CRYPT_BUFFER_SIZE \<or> FromHexString (cl_unhex L) h = []")
  case True
  then show ?thesis by (auto simp: DecryptAES_def Let_def)
next
  case False
  let ?v = "FromHexString (cl_unhex L) h" and ?dst = "replicate CRYPT_BUFFER_SIZE (ce_heap e)"
  have "length ?v \<le> length ?dst"
    using False crypt_lawsD(7) [OF assms, of h] by (auto simp: FromHexString_def split: option.splits)
  from DecryptAES_buf_result [OF assms this, of e "c_str pwd"] obtain n d where
    d: "DecryptAES_buf L e ?v ?dst (c_str pwd) = Some (n, d)" "length d = length ?dst" "n = 0 \<or> n \<le> length ?dst"
    by (auto split: if_splits)
  then have "n \<noteq> 0 \<Longrightarrow> mem_read d 0 n \<noteq> None" by (simp add: mem_read_def)
  with d(1) False show ?thesis by (auto simp: DecryptAES_def Let_def)
qed

lemma DecryptAES_result:
  assumes "crypt_laws L" and "all_succeed e" and "length h \<le> 2048" and "cl_unhex L h = Some v"
    and "unseal L (c_str pwd) v = Some p" and "length v \<le> 2048"
  shows "DecryptAES L e h pwd = Some (if p = [] then None else Some (string_of p))"
proof -
  let ?dst = "replicate CRYPT_BUFFER_SIZE (ce_heap e)"
  have l: "length v \<le> length ?dst" using assms(6) by (simp add: crypt_sizes)
  have ok: "codes_ok e \<and> unseal L (c_str pwd) v \<noteq> None"
    using all_succeed_codes [OF assms(2)] assms(5) by simp
  obtain n d where nd: "DecryptAES_buf L e v ?dst (c_str pwd) = Some (n, d)" "length d = length ?dst"
    "take n d = p" "n \<le> length ?dst"
    using DecryptAES_buf_result [OF assms(1) l, of e "c_str pwd"] ok assms(5) by auto
  have "v \<noteq> []" "n = 0 \<longleftrightarrow> p = []"
    using unseal_length [OF assms(1,5)] nd by (auto simp: crypt_sizes)
  then show ?thesis
    using assms nd
    by (simp add: DecryptAES_def FromHexString_def Let_def mem_read_def all_succeed_def CRYPT_BUFFER_SIZE_def)
qed

lemma password_back:
  assumes "crypt_laws L" and "all_succeed e1" and "all_succeed e2" and "c_str pwd1 = c_str pwd2"
    and "length password \<le> 2000"
  shows "\<exists>h. EncryptAES L e1 password pwd1 = Some (Some h) \<and> length h = 2 * length password + 96 \<and>
           DecryptAES L e2 h pwd2 =
             Some (if 1 \<le> length password \<and> length password \<le> 976 then Some password else None)"
proof -
  let ?v = "seal L (ce_iv e1) (ce_salt e1) (c_str pwd1) (bytes_of password)"
  let ?h = "cl_hex L ?v"
  have h: "EncryptAES L e1 password pwd1 = Some (Some ?h)"
    using EncryptAES_result [OF assms(1), of e1 password pwd1] all_succeed_codes [OF assms(2)] assms(2,5)
    by (simp add: all_succeed_def)
  note sealed = unseal_sealed_packet [OF assms(1,2), of "c_str pwd1" "bytes_of password"]
  have len: "length ?h = 2 * length password + 96"
    using sealed(2) by (simp add: crypt_lawsD [OF assms(1)])
  have "DecryptAES L e2 ?h pwd2 =
      Some (if 1 \<le> length password \<and> length password \<le> 976 then Some password else None)"
  proof (cases "length ?h \<le> 2048")
    case True
    have "DecryptAES L e2 ?h pwd2 =
        Some (if bytes_of password = [] then None else Some (string_of (bytes_of password)))"
      using sealed assms(4) True len
      by (intro DecryptAES_result [OF assms(1,3) True, of ?v]) (simp_all add: crypt_lawsD [OF assms(1)])
    then show ?thesis using True len by (auto simp: Suc_le_eq)
  next
    case False
    with len show ?thesis by (simp add: DecryptAES_def CRYPT_BUFFER_SIZE_def)
  qed
  with h len show ?thesis by blast
qed

text \<open>
  C6: A stored password comes back exactly when it has 1 to 976 characters. Up to 2000 characters
  \<open>EncryptAES\<close> accepts and yields a hexadecimal text, but \<open>DecryptAES\<close> refuses the texts of more than
  976 characters (their hexadecimal form exceeds its limit of 2048) and the empty password.
\<close>

theorem password_roundtrip:
  assumes "crypt_laws L" and "all_succeed e1" and "all_succeed e2" and "c_str pwd1 = c_str pwd2"
    and "length password \<le> 2000"
  shows "\<exists>h. EncryptAES L e1 password pwd1 = Some (Some h) \<and> length h = 2 * length password + 96 \<and>
           DecryptAES L e2 h pwd2 =
             Some (if 1 \<le> length password \<and> length password \<le> 976 then Some password else None)"
  by (rule password_back [OF assms])

section \<open>Witnesses\<close>

definition demo_env :: "int \<Rightarrow> crypt_env" where
  "demo_env t = \<lparr>ce_now = t, ce_malloc_data = True, ce_malloc_buf = True, ce_heap = 0xCD,
     ce_iv_rc = 1, ce_iv = replicate 16 7, ce_salt_rc = 1, ce_salt = replicate 16 9, ce_malloc_key = True,
     ce_kdf_rc = 1, ce_ctx = True, ce_init = 1, ce_ivlen = 1, ce_padding = 1, ce_key_iv = 1,
     ce_update = 1, ce_final = 1, ce_tag = 1\<rparr>"

lemma demo_env_ok [simp]: "all_succeed (demo_env t)" "env_ok (demo_env t)" "ce_now (demo_env t) = t"
  by (simp_all add: demo_env_def all_succeed_def env_ok_def crypt_sizes)

lemma demo_env_fields [simp]:
  "ce_malloc_data (demo_env t)" "ce_malloc_buf (demo_env t)" "codes_ok (demo_env t)"
  "ce_iv (demo_env t) = replicate 16 7" "ce_salt (demo_env t) = replicate 16 9"
  by (simp_all add: demo_env_def codes_ok_def)

lemma packet_seal_open_witness:
  "\<exists>s. EncryptAESPacket toy_crypt (demo_env 1000) [1, 2, 3] ''pw'' = Some \<lparr>cp_result = OK, cp_data = s\<rparr> \<and>
     DecryptAESPacket toy_crypt (demo_env 500) s ''pw'' = Some \<lparr>cp_result = OK, cp_data = [1, 2, 3]\<rparr>"
  by (rule packet_seal_open)
    (simp_all add: toy_crypt_laws int64_time_def CRYPT_PACKET_TIMEOUT_def)

lemma packet_replay_refused_witness:
  "\<exists>s. EncryptAESPacket toy_crypt (demo_env 1000) [1, 2, 3] ''pw'' = Some \<lparr>cp_result = OK, cp_data = s\<rparr> \<and>
     DecryptAESPacket toy_crypt (demo_env 121001) s ''pw'' =
       Some \<lparr>cp_result = INVALID_TIMESTAMP, cp_data = []\<rparr>"
  by (rule packet_replay_refused)
    (simp_all add: toy_crypt_laws int64_time_def CRYPT_PACKET_TIMEOUT_def)

lemma packet_authentic_witness:
  "\<exists>r. DecryptAESPacket toy_crypt (demo_env 0) [1, 2, 3] ''pw'' = Some r \<and>
     (cp_result r = OK \<longrightarrow>
       (\<exists>p. unseal toy_crypt (c_str ''pw'') [1, 2, 3] = Some p \<and> 8 < length p \<and> cp_data r = drop 8 p \<and>
            in_window (ce_now (demo_env 0)) (sint (un_be64 (take 8 p))))) \<and>
     (cp_result r \<noteq> OK \<longrightarrow> cp_data r = [])"
  by (rule packet_authentic) (rule toy_crypt_laws)

lemma packet_size_bounds_witness:
  "\<exists>r. EncryptAESPacket toy_crypt (demo_env 0) (replicate 1993 0) ''pw'' = Some r \<and> cp_result r \<noteq> OK"
  using packet_size_bounds [OF toy_crypt_laws demo_env_ok(2) [of 0], of "replicate 1993 0" "''pw''"]
  by auto

lemma password_roundtrip_witness:
  "\<exists>h. EncryptAES toy_crypt (demo_env 0) ''secret'' ''key'' = Some (Some h) \<and>
     DecryptAES toy_crypt (demo_env 7) h ''key'' = Some (Some ''secret'')"
  using password_roundtrip [OF toy_crypt_laws demo_env_ok(1) [of 0] demo_env_ok(1) [of 7] refl,
      of "''secret''" "''key''"] by auto

end
