(* ===== verification/Sockets.thy ===== *)
theory Sockets
  imports Prelude
begin

text \<open>
  A socket as the code sees it. What arrives is a script of events: \<open>RxData\<close> a run of bytes (a
  \<open>read\<close> takes as much of it as it asks for), \<open>RxErr\<close> a failed \<open>read\<close> with its error code,
  \<open>RxEof\<close> the peer has closed. What may be written is a script as well: \<open>TxRoom n\<close> a \<open>write\<close> that
  accepts up to \<open>n\<close> bytes, \<open>TxErr\<close> a failed one, \<open>TxZero\<close> a \<open>write\<close> that returns 0. An operation
  on an exhausted script is \<open>None\<close>: the call does not return.
\<close>

datatype sock_errno = ETryAgain | EInProgress | EWouldBlock | ETimedOut | EConnRefused
  | EConnAborted | EConnReset | EHostUnreach | ENetUnreach | EPipe | EShutdown | ENotSock | EOtherErr

datatype rx_event = RxData bytes | RxErr sock_errno | RxEof

datatype tx_event = TxRoom nat | TxErr sock_errno | TxZero

record sock =
  sk_rx :: "rx_event list"
  sk_tx :: "tx_event list"
  sk_out :: bytes

text \<open>The result of \<open>read\<close>: the bytes, or a return value that is not positive, with \<open>errno\<close>.\<close>

fun sock_read :: "nat \<Rightarrow> rx_event list \<Rightarrow> (((int \<times> sock_errno) + bytes) \<times> rx_event list) option" where
  "sock_read n [] = None"
| "sock_read n (RxErr e # r) = Some (Inl (- 1, e), r)"
| "sock_read n (RxEof # r) = Some (Inl (0, EOtherErr), r)"
| "sock_read n (RxData bs # r) =
     (if bs = [] then sock_read n r
      else Some (Inr (take n bs), if length bs \<le> n then r else RxData (drop n bs) # r))"

fun sock_write :: "bytes \<Rightarrow> tx_event list \<Rightarrow> (((int \<times> sock_errno) + nat) \<times> tx_event list) option" where
  "sock_write bs [] = None"
| "sock_write bs (TxErr e # r) = Some (Inl (- 1, e), r)"
| "sock_write bs (TxZero # r) = Some (Inl (0, EOtherErr), r)"
| "sock_write bs (TxRoom n # r) =
     (if n = 0 then Some (Inl (0, EOtherErr), r) else Some (Inr (min n (length bs)), r))"

fun rx_weight :: "rx_event list \<Rightarrow> nat" where
  "rx_weight [] = 0"
| "rx_weight (RxData bs # r) = Suc (length bs) + rx_weight r"
| "rx_weight (e # r) = Suc (rx_weight r)"

lemma sock_read_weight:
  "0 < n \<Longrightarrow> sock_read n rx = Some (res, rx') \<Longrightarrow> rx_weight rx' < rx_weight rx"
  by (induction n rx arbitrary: res rx' rule: sock_read.induct) (auto split: if_splits)

lemma sock_write_shorter: "sock_write bs tx = Some (res, tx') \<Longrightarrow> length tx' < length tx"
  by (cases "(bs, tx)" rule: sock_write.cases) (auto split: if_splits)

section \<open>Streams without a fatal event\<close>

definition retryable :: "sock_errno \<Rightarrow> bool" where
  "retryable e \<longleftrightarrow> e \<in> {ETryAgain, EInProgress, EWouldBlock}"

fun quiet :: "rx_event list \<Rightarrow> bool" where
  "quiet [] \<longleftrightarrow> True"
| "quiet (RxData bs # r) \<longleftrightarrow> quiet r"
| "quiet (RxErr e # r) \<longleftrightarrow> retryable e \<and> quiet r"
| "quiet (RxEof # r) \<longleftrightarrow> False"

fun rx_bytes :: "rx_event list \<Rightarrow> bytes" where
  "rx_bytes [] = []"
| "rx_bytes (RxData bs # r) = bs @ rx_bytes r"
| "rx_bytes (e # r) = rx_bytes r"

lemma quiet_read:
  assumes "quiet rx" and "rx_bytes rx \<noteq> []" and "0 < n"
  shows "(\<exists>e rx'. sock_read n rx = Some (Inl (- 1, e), rx') \<and> retryable e \<and> quiet rx' \<and> rx_bytes rx' = rx_bytes rx) \<or>
         (\<exists>bs rx'. sock_read n rx = Some (Inr bs, rx') \<and> bs \<noteq> [] \<and> length bs \<le> n \<and> quiet rx' \<and>
            rx_bytes rx = bs @ rx_bytes rx')"
  using assms by (induction n rx rule: sock_read.induct) (auto simp: neq_Nil_conv take_Cons')

end
