(* ===== verification/BaseConnection.thy ===== *)
theory BaseConnection
  imports Sockets
begin

text \<open>
  \<open>common/src/connection/BaseConnection.cpp\<close>: framed packets over a stream socket. A frame is the
  64-bit header, the packet id and the length in network byte order, then the data; the reader
  searches the header byte by byte. \<open>be64\<close> and \<open>be16\<close> are the memory images of \<open>htonll\<close> and \<open>htons\<close>
  (see \<open>htonll_image\<close> in CryptUtils for the macro). The debug messages and the five millisecond
  sleeps are left out.
\<close>

section \<open>Packets and errors\<close>

datatype PacketError = PE_UNKNOWN | PE_NONE | PE_CLOSED_CONNECTION | PE_TIMEOUT

record Packet =
  pk_error :: PacketError
  pk_id :: u16
  pk_data :: bytes

definition packet_error :: "PacketError \<Rightarrow> Packet" where
  "packet_error e = \<lparr>pk_error = e, pk_id = 0, pk_data = []\<rparr>"

definition PACKET_HEADER :: u64 where "PACKET_HEADER = 0xDB065AC7AFDFA4CC"

definition GetPacketError :: "platform \<Rightarrow> int \<Rightarrow> sock_errno \<Rightarrow> PacketError" where
  "GetPacketError pf result error =
     (if result = 0 then PE_CLOSED_CONNECTION
      else if error = EWouldBlock \<or> error = EInProgress \<or> error = ETryAgain then PE_NONE
      else if error = EConnRefused \<or> error = EHostUnreach \<or> error = EConnAborted \<or>
              error = EConnReset \<or> error = ENetUnreach then PE_CLOSED_CONNECTION
      else if error = ETimedOut then PE_TIMEOUT
      else if pf = Windows \<and> (error = EShutdown \<or> error = ENotSock) then PE_CLOSED_CONNECTION
      else if pf \<noteq> Windows \<and> error = EPipe then PE_CLOSED_CONNECTION
      else PE_UNKNOWN)"

lemma GetPacketError_retry: "result < 0 \<Longrightarrow> GetPacketError pf result e = PE_NONE \<longleftrightarrow> retryable e"
  by (auto simp: GetPacketError_def retryable_def)

section \<open>Reading and writing a number of bytes\<close>

text \<open>The loop of \<open>ReadData\<close>: \<open>buf\<close> holds the \<open>bytesRead\<close> bytes read so far.\<close>

function read_loop :: "platform \<Rightarrow> nat \<Rightarrow> bytes \<Rightarrow> rx_event list \<Rightarrow>
    ((PacketError \<times> bytes) \<times> rx_event list) option" where
  "read_loop pf sz buf rx =
     (if length buf < sz then
        (case sock_read (sz - length buf) rx of
           None \<Rightarrow> None
         | Some (Inl (result, errno), rx') \<Rightarrow>
             (let error = GetPacketError pf result errno in
              if error \<noteq> PE_NONE then Some ((error, []), rx') else read_loop pf sz buf rx')
         | Some (Inr bs, rx') \<Rightarrow> read_loop pf sz (buf @ bs) rx')
      else Some ((PE_NONE, buf), rx))"
  by pat_completeness auto
termination
  by (relation "measure (\<lambda>(pf, sz, buf, rx). rx_weight rx)") (auto dest!: sock_read_weight [rotated])

declare read_loop.simps [simp del]

definition ReadData :: "platform \<Rightarrow> nat \<Rightarrow> rx_event list \<Rightarrow> ((PacketError \<times> bytes) \<times> rx_event list) option" where
  "ReadData pf sz rx = read_loop pf sz [] rx"

text \<open>The loop of \<open>WriteData\<close>: \<open>rest\<close> is \<open>data + bytesWritten\<close>.\<close>

function write_loop :: "platform \<Rightarrow> bytes \<Rightarrow> tx_event list \<Rightarrow> bytes \<Rightarrow>
    (PacketError \<times> tx_event list \<times> bytes) option" where
  "write_loop pf rest tx out =
     (if rest \<noteq> [] then
        (case sock_write rest tx of
           None \<Rightarrow> None
         | Some (Inl (result, errno), tx') \<Rightarrow>
             (let error = GetPacketError pf result errno in
              if error \<noteq> PE_NONE then Some (error, tx', out) else write_loop pf rest tx' out)
         | Some (Inr n, tx') \<Rightarrow> write_loop pf (drop n rest) tx' (out @ take n rest))
      else Some (PE_NONE, tx, out))"
  by pat_completeness auto
termination
  by (relation "measure (\<lambda>(pf, rest, tx, out). length tx)") (auto dest!: sock_write_shorter)

declare write_loop.simps [simp del]

text \<open>The size is a \<open>uint32_t\<close>, so that only the rest modulo \<open>2 ^ 32\<close> of larger data is written.\<close>

definition sized :: "bytes \<Rightarrow> bytes" where
  "sized data = take (length data mod 2 ^ 32) data"

lemma sized_id: "length data < 2 ^ 32 \<Longrightarrow> sized data = data"
  by (simp add: sized_def)

lemma sized_prefix: "prefix (sized data) data" "length (sized data) \<le> length data"
  by (simp_all add: sized_def take_is_prefix)

definition WriteData :: "platform \<Rightarrow> bytes \<Rightarrow> sock \<Rightarrow> (PacketError \<times> sock) option" where
  "WriteData pf data s =
     (case write_loop pf (sized data) (sk_tx s) (sk_out s) of
        None \<Rightarrow> None
      | Some (error, tx, out) \<Rightarrow> Some (error, s\<lparr>sk_tx := tx, sk_out := out\<rparr>))"

section \<open>ReadPacket and WritePacket\<close>

text \<open>The header search; \<open>k\<close> is \<open>correctHeaderBytes\<close>.\<close>

function header_loop :: "platform \<Rightarrow> nat \<Rightarrow> rx_event list \<Rightarrow> (PacketError \<times> rx_event list) option" where
  "header_loop pf k rx =
     (if k < 8 then
        (case sock_read 1 rx of
           None \<Rightarrow> None
         | Some (Inl (result, errno), rx') \<Rightarrow>
             (let error = GetPacketError pf result errno in
              if error \<noteq> PE_NONE then Some (error, rx') else header_loop pf k rx')
         | Some (Inr bs, rx') \<Rightarrow>
             (if hd bs = be64 PACKET_HEADER ! k then header_loop pf (Suc k) rx'
              else header_loop pf 0 rx'))
      else Some (PE_NONE, rx))"
  by pat_completeness auto
termination
  by (relation "measure (\<lambda>(pf, k, rx). rx_weight rx)") (auto dest!: sock_read_weight [rotated])

declare header_loop.simps [simp del]

definition ReadPacket_rx :: "platform \<Rightarrow> rx_event list \<Rightarrow> (Packet \<times> rx_event list) option" where
  "ReadPacket_rx pf rx = do {
     (error, rx) \<leftarrow> header_loop pf 0 rx;
     if error \<noteq> PE_NONE then Some (packet_error error, rx)
     else do {
       ((e1, d1), rx) \<leftarrow> ReadData pf 2 rx;
       if e1 \<noteq> PE_NONE \<or> length d1 \<noteq> 2 then Some (packet_error e1, rx)
       else do {
         let packetId = un_be16 d1;
         ((e2, d2), rx) \<leftarrow> ReadData pf 2 rx;
         if e2 \<noteq> PE_NONE \<or> length d2 \<noteq> 2 then Some (packet_error e2, rx)
         else do {
           let packetLength = un_be16 d2;
           if packetLength = 0 then Some (packet_error PE_UNKNOWN, rx)
           else do {
             ((e3, d3), rx) \<leftarrow> ReadData pf (unat packetLength) rx;
             if e3 \<noteq> PE_NONE \<or> length d3 \<noteq> unat packetLength then Some (packet_error e3, rx)
             else Some (\<lparr>pk_error = PE_NONE, pk_id = packetId, pk_data = d3\<rparr>, rx)
           }
         }
       }
     }
   }"

definition ReadPacket :: "platform \<Rightarrow> sock \<Rightarrow> (Packet \<times> sock) option" where
  "ReadPacket pf s =
     (case ReadPacket_rx pf (sk_rx s) of None \<Rightarrow> None | Some (p, rx) \<Rightarrow> Some (p, s\<lparr>sk_rx := rx\<rparr>))"

definition WritePacket :: "platform \<Rightarrow> u16 \<Rightarrow> bytes \<Rightarrow> sock \<Rightarrow> (PacketError \<times> sock) option" where
  "WritePacket pf packetId data s = do {
     (error, s) \<leftarrow> WriteData pf (be64 PACKET_HEADER) s;
     if error \<noteq> PE_NONE then Some (error, s)
     else do {
       (error, s) \<leftarrow> WriteData pf (be16 packetId) s;
       if error \<noteq> PE_NONE then Some (error, s)
       else do {
         (error, s) \<leftarrow> WriteData pf (be16 (word_of_nat (length data))) s;
         if error \<noteq> PE_NONE then Some (error, s)
         else do {
           (error, s) \<leftarrow> WriteData pf data s;
           if error \<noteq> PE_NONE then Some (error, s) else Some (PE_NONE, s)
         }
       }
     }
   }"

text \<open>What a frame looks like on the wire.\<close>

definition frame :: "u16 \<Rightarrow> bytes \<Rightarrow> bytes" where
  "frame packetId data = be64 PACKET_HEADER @ be16 packetId @ be16 (word_of_nat (length data)) @ sized data"

lemma sized_fixed [simp]: "sized (be64 x) = be64 x" "sized (be16 y) = be16 y" "sized [] = []"
  by (simp_all add: sized_def)

section \<open>Reading from a stream without a fatal event\<close>

lemma read_loop_quiet:
  assumes "quiet rx" and "length buf \<le> n" and "n - length buf \<le> length (rx_bytes rx)"
  shows "\<exists>rx'. read_loop pf n buf rx = Some ((PE_NONE, buf @ take (n - length buf) (rx_bytes rx)), rx') \<and>
           quiet rx' \<and> rx_bytes rx' = drop (n - length buf) (rx_bytes rx)"
  using assms
proof (induction pf n buf rx rule: read_loop.induct)
  case (1 pf n buf rx)
  note unf = read_loop.simps [of pf n buf rx]
  show ?case
  proof (cases "length buf < n")
    case False
    with "1.prems" show ?thesis by (simp add: unf)
  next
    case True
    then have pos: "0 < n - length buf" and ne: "rx_bytes rx \<noteq> []" using "1.prems" by auto
    from quiet_read [OF "1.prems"(1) ne pos] show ?thesis
    proof (elim disjE exE conjE)
      fix e rx' assume r: "sock_read (n - length buf) rx = Some (Inl (- 1, e), rx')" "retryable e"
        "quiet rx'" "rx_bytes rx' = rx_bytes rx"
      then have e: "GetPacketError pf (- 1) e = PE_NONE" by (simp add: GetPacketError_retry)
      with "1.IH"(1) [OF True r(1) refl refl refl refl] r "1.prems" True show ?thesis by (simp add: unf)
    next
      fix bs rx' assume r: "sock_read (n - length buf) rx = Some (Inr bs, rx')" "bs \<noteq> []"
        "length bs \<le> n - length buf" "quiet rx'" "rx_bytes rx = bs @ rx_bytes rx'"
      have "n - length (buf @ bs) \<le> length (rx_bytes rx')" "length (buf @ bs) \<le> n"
        using r "1.prems" True by auto
      with "1.IH"(2) [OF True r(1) refl refl] r True show ?thesis
        by (auto simp: unf)
    qed
  qed
qed

lemma ReadData_quiet:
  assumes "quiet rx" and "rx_bytes rx = d @ rest"
  shows "\<exists>rx'. ReadData pf (length d) rx = Some ((PE_NONE, d), rx') \<and> quiet rx' \<and> rx_bytes rx' = rest"
  using read_loop_quiet [of rx "[]" "length d" pf] assms by (auto simp: ReadData_def)

text \<open>The header search as a function of the bytes that arrive: what follows the header, if found.\<close>

fun header_scan :: "nat \<Rightarrow> bytes \<Rightarrow> bytes option" where
  "header_scan k [] = (if k < 8 then None else Some [])"
| "header_scan k (b # bs) =
     (if k < 8 then header_scan (if b = be64 PACKET_HEADER ! k then Suc k else 0) bs else Some (b # bs))"

lemma header_loop_quiet:
  assumes "quiet rx"
  shows "(case header_scan k (rx_bytes rx) of
      None \<Rightarrow> header_loop pf k rx = None
    | Some rest \<Rightarrow> \<exists>rx'. header_loop pf k rx = Some (PE_NONE, rx') \<and> quiet rx' \<and> rx_bytes rx' = rest)"
  using assms
proof (induction pf k rx rule: header_loop.induct)
  case (1 pf k rx)
  note unf = header_loop.simps [of pf k rx]
  consider (found) "\<not> k < 8" | (stuck) "k < 8" "rx_bytes rx = []" | (go) "k < 8" "rx_bytes rx \<noteq> []" by blast
  then show ?case
  proof cases
    case found
    with "1.prems" show ?thesis by (cases "rx_bytes rx") (simp_all add: unf)
  next
    case stuck
    have "quiet rx \<Longrightarrow> rx_bytes rx = [] \<Longrightarrow> header_loop pf k rx = None" if "k < 8" for rx
      using that
    proof (induction rx)
      case Nil
      then show ?case by (simp add: header_loop.simps)
    next
      case (Cons e rx)
      then show ?case
        by (cases e) (simp_all add: header_loop.simps [of pf k "_ # _"] GetPacketError_retry
            header_loop.simps [of pf k rx])
    qed
    with stuck "1.prems" show ?thesis by simp
  next
    case go
    from quiet_read [OF "1.prems" go(2) zero_less_one] show ?thesis
    proof (elim disjE exE conjE)
      fix e rx' assume r: "sock_read 1 rx = Some (Inl (- 1, e), rx')" "retryable e"
        "quiet rx'" "rx_bytes rx' = rx_bytes rx"
      then have e: "GetPacketError pf (- 1) e = PE_NONE" by (simp add: GetPacketError_retry)
      with "1.IH"(1) [OF go(1) r(1) refl refl refl refl] r go show ?thesis
        by (simp add: unf split: option.splits)
    next
      fix bs rx' assume r: "sock_read 1 rx = Some (Inr bs, rx')" "bs \<noteq> []" "length bs \<le> 1"
        "quiet rx'" "rx_bytes rx = bs @ rx_bytes rx'"
      then obtain b where b: "bs = [b]" by (cases bs) auto
      with r "1.IH"(2,3) [OF go(1) r(1) refl refl] go show ?thesis
        by (cases "b = be64 PACKET_HEADER ! k") (simp_all add: unf split: option.splits)
    qed
  qed
qed

lemma header_bytes: "be64 PACKET_HEADER = [0xDB, 0x06, 0x5A, 0xC7, 0xAF, 0xDF, 0xA4, 0xCC]"
  by (simp add: be64_def PACKET_HEADER_def)

lemma header_scan_header: "header_scan 0 (be64 PACKET_HEADER @ rest) = Some rest"
  by (cases rest) (simp_all add: header_bytes nth_Cons')

lemma header_scan_garbage: "0xDB \<notin> set g \<Longrightarrow> header_scan 0 (g @ r) = header_scan 0 r"
  by (induction g) (auto simp: header_bytes)

lemma header_scan_stray: "header_scan 0 (0xDB # be64 PACKET_HEADER @ rest) = header_scan 0 rest"
  by (simp add: header_bytes nth_Cons')

text \<open>One packet from a stream: what follows the header decides.\<close>

lemma ReadPacket_quiet:
  assumes "quiet rx" and "header_scan 0 (rx_bytes rx) = Some (be16 packetId @ be16 len @ d @ rest)"
    and "length d = unat len"
  shows "\<exists>rx'. ReadPacket_rx pf rx = Some
      (if len = 0 then packet_error PE_UNKNOWN
       else \<lparr>pk_error = PE_NONE, pk_id = packetId, pk_data = d\<rparr>, rx') \<and>
    quiet rx' \<and> rx_bytes rx' = rest"
proof -
  obtain r1 where h: "header_loop pf 0 rx = Some (PE_NONE, r1)" "quiet r1"
    "rx_bytes r1 = be16 packetId @ be16 len @ d @ rest"
    using header_loop_quiet [OF assms(1), of pf 0] assms(2) by auto
  obtain r2 where i: "ReadData pf 2 r1 = Some ((PE_NONE, be16 packetId), r2)" "quiet r2"
    "rx_bytes r2 = be16 len @ d @ rest"
    using ReadData_quiet [OF h(2,3), of pf] by auto
  obtain r3 where l: "ReadData pf 2 r2 = Some ((PE_NONE, be16 len), r3)" "quiet r3"
    "rx_bytes r3 = d @ rest"
    using ReadData_quiet [OF i(2,3), of pf] by auto
  obtain r4 where d: "ReadData pf (unat len) r3 = Some ((PE_NONE, d), r4)" "quiet r4" "rx_bytes r4 = rest"
    using ReadData_quiet [OF l(2,3), of pf] assms(3) by auto
  show ?thesis
  proof (cases "len = 0")
    case True
    with assms(3) h i l show ?thesis by (simp add: ReadPacket_rx_def)
  next
    case False
    with assms(3) h i l d show ?thesis by (simp add: ReadPacket_rx_def)
  qed
qed

lemma word16_of_length: "unat (word_of_nat n :: u16) = n mod 65536"
  by (simp add: unat_of_nat)

lemma ReadPacket_frame':
  assumes "quiet rx" and "rx_bytes rx = frame packetId data @ rest" and "data \<noteq> []" and "length data < 65536"
  shows "\<exists>rx'. ReadPacket_rx pf rx = Some (\<lparr>pk_error = PE_NONE, pk_id = packetId, pk_data = data\<rparr>, rx') \<and>
           quiet rx' \<and> rx_bytes rx' = rest"
proof -
  let ?len = "word_of_nat (length data) :: u16"
  have u: "unat ?len = length data" using assms(4) by (simp add: word16_of_length)
  then have "?len \<noteq> 0" using assms(3) by (metis length_0_conv unat_eq_zero)
  moreover have "header_scan 0 (rx_bytes rx) = Some (be16 packetId @ be16 ?len @ data @ rest)"
    using assms(2,4) by (simp add: frame_def header_scan_header sized_id)
  ultimately show ?thesis using ReadPacket_quiet [OF assms(1), of packetId ?len data rest pf] u by simp
qed

text \<open>
  However the network cuts the stream into pieces, and after any garbage that does not contain the
  first header byte, \<open>ReadPacket\<close> yields the id and the data of a frame of 1 to 65535 bytes and leaves
  the stream just behind it.
\<close>

theorem ReadPacket_frame:
  assumes "quiet rx" and "rx_bytes rx = garbage @ frame packetId data @ rest"
    and "0xDB \<notin> set garbage" and "data \<noteq> []" and "length data < 65536"
  shows "\<exists>rx'. ReadPacket_rx pf rx = Some (\<lparr>pk_error = PE_NONE, pk_id = packetId, pk_data = data\<rparr>, rx') \<and>
           quiet rx' \<and> rx_bytes rx' = rest"
proof -
  let ?len = "word_of_nat (length data) :: u16"
  have u: "unat ?len = length data" using assms(5) by (simp add: word16_of_length)
  then have "?len \<noteq> 0" using assms(4) by (metis length_0_conv unat_eq_zero)
  moreover have "header_scan 0 (rx_bytes rx) = Some (be16 packetId @ be16 ?len @ data @ rest)"
    using assms(2,3,5) by (simp add: header_scan_garbage frame_def header_scan_header sized_id)
  ultimately show ?thesis using ReadPacket_quiet [OF assms(1), of packetId ?len data rest pf] u by simp
qed

lemma ReadPacket_frame_witness:
  "\<exists>rx'. ReadPacket_rx Linux [RxData [1, 2], RxErr ETryAgain, RxData (frame 0xB1 [7, 8])] =
     Some (\<lparr>pk_error = PE_NONE, pk_id = 0xB1, pk_data = [7, 8]\<rparr>, rx') \<and> quiet rx' \<and> rx_bytes rx' = []"
  by (rule ReadPacket_frame [where garbage = "[1, 2]"]) (simp_all add: retryable_def)

text \<open>
  The header search does not re-examine the byte that breaks a partial match: a single byte 0xDB in
  front of a frame (with no such byte in its own id, length and data) makes the frame invisible; the
  reader keeps waiting.
\<close>

theorem ReadPacket_stray_byte:
  assumes "quiet rx" and "rx_bytes rx = 0xDB # frame packetId data"
    and "0xDB \<notin> set (drop 8 (frame packetId data))"
  shows "ReadPacket_rx pf rx = None"
proof -
  let ?r = "be16 packetId @ be16 (word_of_nat (length data)) @ sized data"
  have "header_scan 0 (rx_bytes rx) = header_scan 0 (?r @ [])"
    using assms(2) by (simp only: frame_def header_scan_stray append_Nil2)
  also have "\<dots> = None"
    using assms(3) by (subst header_scan_garbage) (simp_all add: frame_def)
  finally have "header_loop pf 0 rx = None"
    using header_loop_quiet [OF assms(1), of pf 0] by simp
  then show ?thesis by (simp add: ReadPacket_rx_def)
qed

lemma ReadPacket_stray_byte_witness:
  "ReadPacket_rx Linux [RxData (0xDB # frame 0xB1 [7, 8])] = None"
  by (rule ReadPacket_stray_byte [of _ "0xB1" "[7, 8]"]) (simp_all add: frame_def be16_def sized_def)

text \<open>
  A receive timeout that the kernel reports as \<open>EAGAIN\<close> (as Linux does for \<open>SO_RCVTIMEO\<close>) never
  ends \<open>ReadPacket\<close>, however often it strikes; reported as \<open>ETIMEDOUT\<close> it ends the call at once with
  \<open>TIMEOUT\<close>.
\<close>

theorem ReadPacket_timeouts:
  "ReadPacket_rx pf (replicate n (RxErr ETryAgain)) = None \<and>
   ReadPacket_rx pf (RxErr ETimedOut # rx) = Some (packet_error PE_TIMEOUT, rx)"
proof -
  have "quiet (replicate n (RxErr ETryAgain))" "rx_bytes (replicate n (RxErr ETryAgain)) = []"
    by (induction n) (simp_all add: retryable_def)
  then have "header_loop pf 0 (replicate n (RxErr ETryAgain)) = None"
    using header_loop_quiet [of "replicate n (RxErr ETryAgain)" pf 0] by simp
  then show ?thesis
    by (simp add: ReadPacket_rx_def header_loop.simps [of pf 0 "_ # _"] GetPacketError_def)
qed

section \<open>Writing\<close>

lemma GetPacketError_fail_none: "GetPacketError pf 0 e \<noteq> PE_NONE"
  by (simp add: GetPacketError_def)

lemma write_loop_prefix:
  assumes "write_loop pf rest tx out = Some (e, tx', out')"
  shows "\<exists>m. m \<le> length rest \<and> out' = out @ take m rest \<and> (e = PE_NONE \<longleftrightarrow> m = length rest)"
  using assms
proof (induction pf rest tx out rule: write_loop.induct)
  case (1 pf rest tx out)
  note unf = write_loop.simps [of pf rest tx out]
  show ?case
  proof (cases "rest = []")
    case True
    with "1.prems" show ?thesis by (simp add: write_loop.simps [of pf "[]" tx out])
  next
    case False
    then obtain res tx1 where w: "sock_write rest tx = Some (res, tx1)"
      using "1.prems" by (auto simp: unf split: option.splits)
    show ?thesis
    proof (cases res)
      case (Inl f)
      obtain result errno where f: "f = (result, errno)" by fastforce
      show ?thesis
      proof (cases "GetPacketError pf result errno = PE_NONE")
        case True
        then show ?thesis
          using "1.IH"(1) [OF False w refl Inl f [symmetric] refl] "1.prems" False w Inl f by (simp add: unf)
      next
        case e: False
        then have "out' = out" "e \<noteq> PE_NONE" using "1.prems" False w Inl f by (auto simp: unf Let_def)
        then show ?thesis using False by (intro exI [of _ 0]) simp
      qed
    next
      case (Inr n)
      then obtain m where m: "m \<le> length (drop n rest)" "out' = (out @ take n rest) @ take m (drop n rest)"
        "e = PE_NONE \<longleftrightarrow> m = length (drop n rest)"
        using "1.IH"(2) [OF False w refl Inr] "1.prems" False w by (auto simp: unf)
      have "n \<le> length rest"
        using w Inr by (cases "(rest, tx)" rule: sock_write.cases) (auto split: if_splits)
      with m show ?thesis by (intro exI [of _ "n + m"]) (auto simp: take_add)
    qed
  qed
qed

lemma WriteData_prefix:
  assumes "WriteData pf d s = Some (e, s')"
  shows "\<exists>w. sk_out s' = sk_out s @ w \<and> prefix w (sized d) \<and> (e = PE_NONE \<longleftrightarrow> w = sized d) \<and> sk_rx s' = sk_rx s"
proof -
  obtain tx out where w: "write_loop pf (sized d) (sk_tx s) (sk_out s) = Some (e, tx, out)"
    and s': "s' = s\<lparr>sk_tx := tx, sk_out := out\<rparr>"
    using assms by (auto simp: WriteData_def split: option.splits)
  obtain m where "m \<le> length (sized d)" "out = sk_out s @ take m (sized d)" "e = PE_NONE \<longleftrightarrow> m = length (sized d)"
    using write_loop_prefix [OF w] by blast
  then show ?thesis
    using s' by (intro exI [of _ "take m (sized d)"]) (auto simp: take_is_prefix)
qed

text \<open>The four writes of \<open>WritePacket\<close> as a list.\<close>

fun write_seq :: "platform \<Rightarrow> bytes list \<Rightarrow> sock \<Rightarrow> (PacketError \<times> sock) option" where
  "write_seq pf [] s = Some (PE_NONE, s)"
| "write_seq pf (d # ds) s = do {
     (e, s) \<leftarrow> WriteData pf d s;
     if e \<noteq> PE_NONE then Some (e, s) else write_seq pf ds s }"

lemma WritePacket_seq:
  "WritePacket pf packetId data s =
     write_seq pf [be64 PACKET_HEADER, be16 packetId, be16 (word_of_nat (length data)), data] s"
  by (simp add: WritePacket_def split_def cong: if_cong)

lemma write_seq_prefix:
  assumes "write_seq pf ds s = Some (e, s')"
  shows "\<exists>w. sk_out s' = sk_out s @ w \<and> prefix w (concat (map sized ds)) \<and> (e = PE_NONE \<longleftrightarrow> w = concat (map sized ds)) \<and>
    sk_rx s' = sk_rx s"
  using assms
proof (induction ds arbitrary: s)
  case (Cons d ds)
  then obtain e1 s1 where 1: "WriteData pf d s = Some (e1, s1)" by (auto simp: bind_eq_Some_conv)
  obtain w1 where w1: "sk_out s1 = sk_out s @ w1" "prefix w1 (sized d)" "e1 = PE_NONE \<longleftrightarrow> w1 = sized d" "sk_rx s1 = sk_rx s"
    using WriteData_prefix [OF 1] by blast
  show ?case
  proof (cases "e1 = PE_NONE")
    case False
    with Cons.prems 1 have "e = e1" "s' = s1" by auto
    with w1 False show ?thesis by (intro exI [of _ w1]) (auto simp: prefix_def)
  next
    case True
    with Cons.prems 1 Cons.IH [of s1] w1 show ?thesis by (auto simp: prefix_def)
  qed
qed simp

lemma WritePacket_prefix':
  "WritePacket pf packetId data s = Some (PE_NONE, s') \<Longrightarrow> sk_out s' = sk_out s @ frame packetId data"
  unfolding WritePacket_seq by (drule write_seq_prefix) (auto simp: frame_def)

text \<open>
  \<open>WritePacket\<close> appends a prefix of the packet's frame to what was sent and changes nothing else;
  it reports \<open>NONE\<close> exactly when that prefix is the whole frame.
\<close>

theorem WritePacket_prefix:
  assumes "WritePacket pf packetId data s = Some (e, s')"
  shows "\<exists>w. sk_out s' = sk_out s @ w \<and> prefix w (frame packetId data) \<and>
           (e = PE_NONE \<longleftrightarrow> w = frame packetId data) \<and> sk_rx s' = sk_rx s"
  using write_seq_prefix [OF assms [unfolded WritePacket_seq]] by (simp add: frame_def)

lemma WritePacket_prefix_witness:
  "\<exists>w. sk_out \<lparr>sk_rx = [], sk_tx = [], sk_out = [0xDB, 0x06, 0x5A]\<rparr> = [] @ w \<and> prefix w (frame 0xB1 [7])"
proof -
  let ?s = "\<lparr>sk_rx = [], sk_tx = [TxRoom 2, TxErr ETryAgain, TxRoom 1, TxErr EPipe], sk_out = []\<rparr> :: sock"
  have "WritePacket Linux 0xB1 [7] ?s = Some (PE_CLOSED_CONNECTION, \<lparr>sk_rx = [], sk_tx = [], sk_out = [0xDB, 0x06, 0x5A]\<rparr>)"
    by (simp add: WritePacket_def WriteData_def write_loop.simps header_bytes sized_def GetPacketError_def)
  from WritePacket_prefix [OF this] show ?thesis by auto
qed

section \<open>Writing makes progress\<close>

text \<open>A send side that only ever refuses for the moment, and has room \<open>n\<close> times.\<close>

fun rooms :: "tx_event list \<Rightarrow> nat" where
  "rooms [] = 0"
| "rooms (TxRoom n # r) = (if n = 0 then 0 else Suc (rooms r))"
| "rooms (TxErr e # r) = (if retryable e then rooms r else 0)"
| "rooms (TxZero # r) = 0"

lemma write_loop_live:
  assumes "length rest \<le> rooms tx"
  shows "\<exists>tx'. write_loop pf rest tx out = Some (PE_NONE, tx', out @ rest) \<and> rooms tx \<le> rooms tx' + length rest"
  using assms
proof (induction pf rest tx out rule: write_loop.induct)
  case (1 pf rest tx out)
  note unf = write_loop.simps [of pf rest tx out]
  show ?case
  proof (cases "rest = []")
    case True
    then show ?thesis by (simp add: write_loop.simps [of pf "[]" tx out])
  next
    case False
    then have pos: "0 < length rest" by simp
    show ?thesis
    proof (cases tx)
      case Nil
      with "1.prems" pos show ?thesis by simp
    next
      case (Cons t tx1)
      show ?thesis
      proof (cases t)
        case (TxRoom n)
        with Cons "1.prems" pos have n: "0 < n" "sock_write rest tx = Some (Inr (min n (length rest)), tx1)"
          by (auto split: if_splits)
        have "length (drop (min n (length rest)) rest) \<le> rooms tx1"
          using "1.prems" Cons TxRoom n pos by auto
        from "1.IH"(2) [OF False n(2) refl refl this] obtain tx' where w:
          "write_loop pf (drop (min n (length rest)) rest) tx1 (out @ take (min n (length rest)) rest) = Some (PE_NONE, tx', out @ rest)"
          "rooms tx1 \<le> rooms tx' + length (drop (min n (length rest)) rest)"
          by auto
        have "write_loop pf rest tx out = Some (PE_NONE, tx', out @ rest)"
          using n(2) False w(1) by (simp add: unf)
        moreover have "rooms tx \<le> rooms tx' + length rest"
        proof -
          have "length (drop (min n (length rest)) rest) < length rest" using n(1) pos by simp
          moreover have "rooms tx = Suc (rooms tx1)" using n(1) Cons TxRoom by simp
          ultimately show ?thesis using w(2) by linarith
        qed
        ultimately show ?thesis by blast
      next
        case (TxErr e)
        with Cons "1.prems" pos have e: "retryable e" "sock_write rest tx = Some (Inl (- 1, e), tx1)"
          by (auto split: if_splits)
        then have g: "GetPacketError pf (- 1) e = PE_NONE" by (simp add: GetPacketError_retry)
        have "rooms tx = rooms tx1" using e(1) Cons TxErr by simp
        moreover have "write_loop pf rest tx out = write_loop pf rest tx1 out"
          using e(2) g False by (simp add: unf)
        ultimately show ?thesis using "1.IH"(1) [OF False e(2) refl refl refl refl] g "1.prems" by simp
      next
        case TxZero
        with Cons "1.prems" pos show ?thesis by simp
      qed
    qed
  qed
qed

lemma WriteData_live:
  "length d \<le> rooms (sk_tx s) \<Longrightarrow>
   \<exists>s'. WriteData pf d s = Some (PE_NONE, s') \<and> sk_out s' = sk_out s @ sized d \<and> sk_rx s' = sk_rx s \<and>
     rooms (sk_tx s) \<le> rooms (sk_tx s') + length d"
  using write_loop_live [of "sized d" "sk_tx s" pf "sk_out s"] sized_prefix(2) [of d] by (fastforce simp: WriteData_def)

lemma write_seq_live:
  "length (concat ds) \<le> rooms (sk_tx s) \<Longrightarrow>
   \<exists>s'. write_seq pf ds s = Some (PE_NONE, s') \<and> sk_out s' = sk_out s @ concat (map sized ds) \<and> sk_rx s' = sk_rx s \<and>
     rooms (sk_tx s) \<le> rooms (sk_tx s') + length (concat ds)"
proof (induction ds arbitrary: s)
  case (Cons d ds)
  then obtain s1 where 1: "WriteData pf d s = Some (PE_NONE, s1)" "sk_out s1 = sk_out s @ sized d" "sk_rx s1 = sk_rx s"
    "rooms (sk_tx s) \<le> rooms (sk_tx s1) + length d"
    using WriteData_live [of d s pf] by auto
  with Cons.prems Cons.IH [of s1] show ?case by fastforce
qed simp

lemma WritePacket_live:
  "12 + length data \<le> rooms (sk_tx s) \<Longrightarrow>
   \<exists>s'. WritePacket pf packetId data s = Some (PE_NONE, s') \<and> sk_out s' = sk_out s @ frame packetId data \<and>
     sk_rx s' = sk_rx s \<and> rooms (sk_tx s) \<le> rooms (sk_tx s') + (12 + length data)"
  using write_seq_live [of "[be64 PACKET_HEADER, be16 packetId, be16 (word_of_nat (length data)), data]" s pf]
  by (simp add: WritePacket_seq frame_def)

text \<open>
  C8: The length field holds the data size modulo 65536 while all the data is written: when \<open>WritePacket\<close> has written
  more data without an error, a reader of exactly these bytes takes only that many of them (none at all: an error) and
  the remainder stays in the stream, where it is searched for the next header.
\<close>

theorem ReadPacket_oversized_frame:
  assumes "WritePacket pf packetId data s = Some (PE_NONE, s')" and "65536 \<le> length data" and "length data < 2 ^ 32"
    and "quiet rx" and "sk_out s @ rx_bytes rx = sk_out s' @ rest"
  shows "\<exists>rx' n. n = length data mod 65536 \<and> ReadPacket_rx pf' rx = Some
           (if n = 0 then packet_error PE_UNKNOWN
            else \<lparr>pk_error = PE_NONE, pk_id = packetId, pk_data = take n data\<rparr>, rx') \<and>
           quiet rx' \<and> rx_bytes rx' = drop n data @ rest"
proof -
  let ?n = "length data mod 65536"
  let ?len = "word_of_nat (length data) :: u16"
  have u: "unat ?len = ?n" by (simp add: word16_of_length)
  then have z: "?len = 0 \<longleftrightarrow> ?n = 0" by (metis unat_eq_zero)
  have "rx_bytes rx = frame packetId data @ rest" using WritePacket_prefix' [OF assms(1)] assms(5) by simp
  then have "header_scan 0 (rx_bytes rx) = Some (be16 packetId @ be16 ?len @ take ?n data @ drop ?n data @ rest)"
    using assms(3) by (simp add: frame_def header_scan_header sized_id)
  moreover have "length (take ?n data) = unat ?len"
    using u mod_less_eq_dividend [of "length data" 65536] by simp
  ultimately show ?thesis
    using ReadPacket_quiet [OF assms(4), of packetId ?len "take ?n data" "drop ?n data @ rest" pf'] z by auto
qed

text \<open>A payload of 65538 bytes, of which the reader gets two.\<close>

lemma ReadPacket_oversized_frame_witness:
  "\<exists>s s' rx'. WritePacket Linux 0xB1 (replicate 65538 7) s = Some (PE_NONE, s') \<and>
     ReadPacket_rx Linux [RxData (sk_out s')] = Some (\<lparr>pk_error = PE_NONE, pk_id = 0xB1, pk_data = [7, 7]\<rparr>, rx')"
proof -
  let ?s = "\<lparr>sk_rx = [], sk_tx = replicate 65550 (TxRoom 1), sk_out = []\<rparr> :: sock"
  have "rooms (replicate n (TxRoom 1)) = n" for n by (induction n) simp_all
  then obtain s' where s': "WritePacket Linux 0xB1 (replicate 65538 7) ?s = Some (PE_NONE, s')"
    using WritePacket_live [of "replicate 65538 7" ?s Linux "0xB1"] by (auto simp del: replicate.simps)
  have "take 2 (replicate 65538 7) = [7, 7 :: u8]" by (simp add: numeral_2_eq_2)
  moreover have "\<exists>rx' n. n = length (replicate 65538 (7 :: u8)) mod 65536 \<and> ReadPacket_rx Linux [RxData (sk_out s')] = Some
      (if n = 0 then packet_error PE_UNKNOWN else \<lparr>pk_error = PE_NONE, pk_id = 0xB1, pk_data = take n (replicate 65538 7)\<rparr>, rx') \<and>
      quiet rx' \<and> rx_bytes rx' = drop n (replicate 65538 7) @ []"
    by (rule ReadPacket_oversized_frame [OF s']) (simp_all del: replicate.simps)
  ultimately show ?thesis using s' by (auto simp del: replicate.simps take_replicate)
qed

section \<open>Later input does not matter\<close>

lemma sock_read_append: "sock_read n rx = Some (r, rx') \<Longrightarrow> sock_read n (rx @ t) = Some (r, rx' @ t)"
  by (induction n rx rule: sock_read.induct) (auto split: if_splits)

lemma read_loop_append:
  "read_loop pf n buf rx = Some (r, rx') \<Longrightarrow> read_loop pf n buf (rx @ t) = Some (r, rx' @ t)"
proof (induction pf n buf rx rule: read_loop.induct)
  case (1 pf n buf rx)
  note unf = read_loop.simps [of pf n buf rx] read_loop.simps [of pf n buf "rx @ t"]
  show ?case
  proof (cases "length buf < n")
    case False
    with "1.prems" show ?thesis by (simp add: read_loop.simps [of pf n buf])
  next
    case True
    then obtain res rx1 where r: "sock_read (n - length buf) rx = Some (res, rx1)"
      using "1.prems" by (auto simp: unf split: option.splits)
    show ?thesis
    proof (cases res)
      case (Inl f)
      obtain a b where f: "f = (a, b)" by fastforce
      show ?thesis
        using "1.IH"(1) [OF True r refl Inl f [symmetric] refl] "1.prems" True r Inl f sock_read_append [OF r, of t]
        by (auto simp: unf Let_def split: if_splits)
    next
      case (Inr bs)
      show ?thesis
        using "1.IH"(2) [OF True r refl Inr] "1.prems" True r Inr sock_read_append [OF r, of t]
        by (auto simp: unf)
    qed
  qed
qed

lemma header_loop_append:
  "header_loop pf k rx = Some (e, rx') \<Longrightarrow> header_loop pf k (rx @ t) = Some (e, rx' @ t)"
proof (induction pf k rx rule: header_loop.induct)
  case (1 pf k rx)
  note unf = header_loop.simps [of pf k rx] header_loop.simps [of pf k "rx @ t"]
  show ?case
  proof (cases "k < 8")
    case False
    with "1.prems" show ?thesis by (simp add: header_loop.simps [of pf k])
  next
    case True
    then obtain res rx1 where r: "sock_read 1 rx = Some (res, rx1)"
      using "1.prems" by (auto simp: unf split: option.splits)
    show ?thesis
    proof (cases res)
      case (Inl f)
      obtain a b where f: "f = (a, b)" by fastforce
      show ?thesis
        using "1.IH"(1) [OF True r refl Inl f [symmetric] refl] "1.prems" True r Inl f sock_read_append [OF r, of t]
        by (auto simp: unf Let_def split: if_splits)
    next
      case (Inr bs)
      show ?thesis
        using "1.IH"(2,3) [OF True r refl Inr] "1.prems" True r Inr sock_read_append [OF r, of t]
        by (auto simp: unf split: if_splits)
    qed
  qed
qed

lemma ReadData_append: "ReadData pf n rx = Some (r, rx') \<Longrightarrow> ReadData pf n (rx @ t) = Some (r, rx' @ t)"
  by (simp add: ReadData_def read_loop_append)

lemma ReadPacket_rx_append:
  "ReadPacket_rx pf rx = Some (p, rx') \<Longrightarrow> ReadPacket_rx pf (rx @ t) = Some (p, rx' @ t)"
proof -
  assume run: "ReadPacket_rx pf rx = Some (p, rx')"
  then obtain e r1 where 1: "header_loop pf 0 rx = Some (e, r1)"
    by (auto simp: ReadPacket_rx_def bind_eq_Some_conv)
  note a1 = header_loop_append [OF 1, of t]
  show ?thesis
  proof (cases "e = PE_NONE")
    case False
    with run 1 a1 show ?thesis by (simp add: ReadPacket_rx_def)
  next
    case ok1: True
    then obtain e2 d2 r2 where 2: "ReadData pf 2 r1 = Some ((e2, d2), r2)"
      using run 1 by (auto simp: ReadPacket_rx_def bind_eq_Some_conv)
    note a2 = ReadData_append [OF 2, of t]
    show ?thesis
    proof (cases "e2 \<noteq> PE_NONE \<or> length d2 \<noteq> 2")
      case True
      with run ok1 1 2 a1 a2 show ?thesis by (simp add: ReadPacket_rx_def)
    next
      case ok2: False
      then obtain e3 d3 r3 where 3: "ReadData pf 2 r2 = Some ((e3, d3), r3)"
        using run ok1 1 2 by (auto simp: ReadPacket_rx_def bind_eq_Some_conv)
      note a3 = ReadData_append [OF 3, of t]
      show ?thesis
      proof (cases "e3 \<noteq> PE_NONE \<or> length d3 \<noteq> 2 \<or> un_be16 d3 = 0")
        case True
        with run ok1 ok2 1 2 3 a1 a2 a3 show ?thesis by (auto simp: ReadPacket_rx_def)
      next
        case ok3: False
        then obtain e4 d4 r4 where 4: "ReadData pf (unat (un_be16 d3)) r3 = Some ((e4, d4), r4)"
          using run ok1 ok2 1 2 3 by (auto simp: ReadPacket_rx_def bind_eq_Some_conv Let_def)
        note a4 = ReadData_append [OF 4, of t]
        from run ok1 ok2 ok3 1 2 3 4 a1 a2 a3 a4 show ?thesis
          by (auto simp: ReadPacket_rx_def split: if_splits)
      qed
    qed
  qed
qed

lemma header_loop_eof:
  "quiet rx \<Longrightarrow> rx_bytes rx = [] \<Longrightarrow> header_loop pf 0 (rx @ RxEof # t) = Some (PE_CLOSED_CONNECTION, t)"
proof (induction rx)
  case Nil
  then show ?case by (simp add: header_loop.simps GetPacketError_def)
next
  case (Cons e rx)
  then show ?case
    by (cases e) (simp_all add: header_loop.simps [of pf 0 "_ # _"] GetPacketError_retry
        header_loop.simps [of pf 0 "rx @ _"])
qed

section \<open>Connections that end\<close>

text \<open>How often the send side fails for good. One such failure ends at most one call of \<open>WritePacket\<close>.\<close>

fun tx_ends :: "tx_event list \<Rightarrow> nat" where
  "tx_ends [] = 0"
| "tx_ends (TxRoom n # r) = (if n = 0 then Suc (tx_ends r) else tx_ends r)"
| "tx_ends (TxErr e # r) = (if retryable e then tx_ends r else Suc (tx_ends r))"
| "tx_ends (TxZero # r) = Suc (tx_ends r)"

lemma write_loop_returns:
  "0 < tx_ends tx \<Longrightarrow> \<exists>e tx' out'. write_loop pf rest tx out = Some (e, tx', out') \<and>
     tx_ends tx \<le> tx_ends tx' + (if e = PE_NONE then 0 else 1)"
proof (induction pf rest tx out rule: write_loop.induct)
  case (1 pf rest tx out)
  note unf = write_loop.simps [of pf rest tx out]
  show ?case
  proof (cases "rest = []")
    case True
    then show ?thesis by (simp add: write_loop.simps [of pf "[]" tx out])
  next
    case False
    consider (room) n tx1 where "tx = TxRoom n # tx1" "0 < n" | (retry) e tx1 where "tx = TxErr e # tx1" "retryable e"
      | (fatal) r e tx1 where "sock_write rest tx = Some (Inl (r, e), tx1)" "GetPacketError pf r e \<noteq> PE_NONE" "tx_ends tx = Suc (tx_ends tx1)"
      using "1.prems" GetPacketError_retry [of "- 1" pf]
      by (cases "(rest, tx)" rule: sock_write.cases) (auto simp: GetPacketError_fail_none split: if_splits)
    then show ?thesis
    proof cases
      case room
      then have w: "sock_write rest tx = Some (Inr (min n (length rest)), tx1)" by simp
      then have "write_loop pf rest tx out = write_loop pf (drop (min n (length rest)) rest) tx1 (out @ take (min n (length rest)) rest)"
        using False by (simp add: unf)
      moreover have "tx_ends tx = tx_ends tx1" using room by simp
      ultimately show ?thesis using "1.IH"(2) [OF False w refl refl] "1.prems" by simp
    next
      case retry
      then have w: "sock_write rest tx = Some (Inl (- 1, e), tx1)" "GetPacketError pf (- 1) e = PE_NONE"
        by (simp_all add: GetPacketError_retry)
      then have "write_loop pf rest tx out = write_loop pf rest tx1 out" using False by (simp add: unf)
      moreover have "tx_ends tx = tx_ends tx1" using retry by simp
      ultimately show ?thesis using "1.IH"(1) [OF False w(1) refl refl refl refl] w(2) "1.prems" by simp
    next
      case fatal
      with False show ?thesis by (simp add: unf Let_def)
    qed
  qed
qed

lemma write_seq_returns:
  "0 < tx_ends (sk_tx s) \<Longrightarrow> \<exists>e s'. write_seq pf ds s = Some (e, s') \<and>
     tx_ends (sk_tx s) \<le> tx_ends (sk_tx s') + (if e = PE_NONE then 0 else 1)"
proof (induction ds arbitrary: s)
  case (Cons d ds)
  obtain e tx out where w: "write_loop pf (sized d) (sk_tx s) (sk_out s) = Some (e, tx, out)"
    "tx_ends (sk_tx s) \<le> tx_ends tx + (if e = PE_NONE then 0 else 1)"
    using write_loop_returns [OF Cons.prems, of pf "sized d" "sk_out s"] by blast
  let ?s = "s\<lparr>sk_tx := tx, sk_out := out\<rparr>"
  have d: "WriteData pf d s = Some (e, ?s)" using w(1) by (simp add: WriteData_def)
  show ?case
  proof (cases "e = PE_NONE")
    case False
    with d w(2) show ?thesis by simp
  next
    case True
    then have "0 < tx_ends (sk_tx ?s)" using w(2) Cons.prems by simp
    from Cons.IH [OF this] obtain e' s' where "write_seq pf ds ?s = Some (e', s')"
      "tx_ends (sk_tx ?s) \<le> tx_ends (sk_tx s') + (if e' = PE_NONE then 0 else 1)" by blast
    with d True w(2) show ?thesis by (cases "e' = PE_NONE") auto
  qed
qed simp

lemma WritePacket_returns:
  assumes "0 < tx_ends (sk_tx s)"
  shows "\<exists>e s'. WritePacket pf packetId data s = Some (e, s') \<and> tx_ends (sk_tx s) \<le> tx_ends (sk_tx s') + 1"
proof -
  obtain e s' where "WritePacket pf packetId data s = Some (e, s')"
    "tx_ends (sk_tx s) \<le> tx_ends (sk_tx s') + (if e = PE_NONE then 0 else 1)"
    using write_seq_returns [OF assms] unfolding WritePacket_seq by blast
  then show ?thesis by (cases "e = PE_NONE") auto
qed

text \<open>A receive side that fails for good, or is closed: a reader returns, and if not with the failure, it is still to come.\<close>

lemma sock_read_returns:
  "\<not> quiet rx \<Longrightarrow> 0 < n \<Longrightarrow> \<exists>r rx'. sock_read n rx = Some (r, rx') \<and>
     (case r of Inl (k, e) \<Rightarrow> (k = 0 \<or> k < 0 \<and> \<not> retryable e) \<or> \<not> quiet rx' \<and> k < 0 \<and> retryable e | Inr _ \<Rightarrow> \<not> quiet rx')"
  by (induction rx rule: quiet.induct) auto

lemma sock_read_fatal:
  assumes "\<not> quiet rx" and "0 < n" and "sock_read n rx = Some (Inl (k, e), rx')"
  shows "GetPacketError pf k e \<noteq> PE_NONE \<or> \<not> quiet rx'"
  using sock_read_returns [OF assms(1,2)] assms(3) GetPacketError_fail_none by (auto simp: GetPacketError_retry)

lemma read_loop_returns:
  "\<not> quiet rx \<Longrightarrow> \<exists>e d rx'. read_loop pf n buf rx = Some ((e, d), rx') \<and> (e = PE_NONE \<longrightarrow> \<not> quiet rx')"
proof (induction pf n buf rx rule: read_loop.induct)
  case (1 pf n buf rx)
  note unf = read_loop.simps [of pf n buf rx]
  show ?case
  proof (cases "length buf < n")
    case False
    with "1.prems" show ?thesis by (simp add: unf)
  next
    case True
    then have pos: "0 < n - length buf" by simp
    obtain res rx1 where r: "sock_read (n - length buf) rx = Some (res, rx1)" "case res of Inl _ \<Rightarrow> True | Inr _ \<Rightarrow> \<not> quiet rx1"
      using sock_read_returns [OF "1.prems" pos] by (fastforce split: sum.splits)
    show ?thesis
    proof (cases res)
      case (Inl f)
      obtain k e where f: "f = (k, e)" by fastforce
      note g = sock_read_fatal [OF "1.prems" pos r(1) [unfolded Inl f], of pf]
      show ?thesis
      proof (cases "GetPacketError pf k e = PE_NONE")
        case True
        with "1.IH"(1) [OF \<open>length buf < n\<close> r(1) refl Inl f [symmetric] refl] g r(1) Inl f \<open>length buf < n\<close> show ?thesis
          by (simp add: unf)
      qed (use True r(1) Inl f in \<open>simp add: unf Let_def\<close>)
    next
      case (Inr bs)
      with "1.IH"(2) [OF True r(1) refl Inr] r True show ?thesis by (simp add: unf)
    qed
  qed
qed

lemma header_loop_returns:
  "\<not> quiet rx \<Longrightarrow> \<exists>e rx'. header_loop pf k rx = Some (e, rx') \<and> (e = PE_NONE \<longrightarrow> \<not> quiet rx')"
proof (induction pf k rx rule: header_loop.induct)
  case (1 pf k rx)
  note unf = header_loop.simps [of pf k rx]
  show ?case
  proof (cases "k < 8")
    case False
    with "1.prems" show ?thesis by (simp add: unf)
  next
    case True
    obtain res rx1 where r: "sock_read 1 rx = Some (res, rx1)" "case res of Inl _ \<Rightarrow> True | Inr _ \<Rightarrow> \<not> quiet rx1"
      using sock_read_returns [OF "1.prems", of 1] by (fastforce split: sum.splits)
    show ?thesis
    proof (cases res)
      case (Inl f)
      obtain j e where f: "f = (j, e)" by fastforce
      note g = sock_read_fatal [OF "1.prems" _ r(1) [unfolded Inl f], of pf]
      show ?thesis
      proof (cases "GetPacketError pf j e = PE_NONE")
        case True
        with "1.IH"(1) [OF \<open>k < 8\<close> r(1) refl Inl f [symmetric] refl] g r(1) Inl f \<open>k < 8\<close> show ?thesis by (simp add: unf)
      qed (use True r(1) Inl f in \<open>simp add: unf Let_def\<close>)
    next
      case (Inr bs)
      with "1.IH"(2,3) [OF True r(1) refl Inr] r True show ?thesis by (cases "hd bs = be64 PACKET_HEADER ! k") (simp_all add: unf)
    qed
  qed
qed

lemma ReadPacket_rx_returns:
  assumes "\<not> quiet rx"
  shows "\<exists>p rx'. ReadPacket_rx pf rx = Some (p, rx') \<and> (pk_error p = PE_NONE \<longrightarrow> \<not> quiet rx')"
proof -
  obtain e r1 where 1: "header_loop pf 0 rx = Some (e, r1)" "e = PE_NONE \<longrightarrow> \<not> quiet r1" using header_loop_returns [OF assms] by blast
  show ?thesis
  proof (cases "e = PE_NONE")
    case False
    with 1 show ?thesis by (simp add: ReadPacket_rx_def packet_error_def)
  next
    case ok1: True
    then obtain e2 d2 r2 where 2: "ReadData pf 2 r1 = Some ((e2, d2), r2)" "e2 = PE_NONE \<longrightarrow> \<not> quiet r2"
      using read_loop_returns 1(2) unfolding ReadData_def by blast
    show ?thesis
    proof (cases "e2 \<noteq> PE_NONE \<or> length d2 \<noteq> 2")
      case True
      with 1 2 ok1 show ?thesis by (auto simp: ReadPacket_rx_def packet_error_def)
    next
      case ok2: False
      then obtain e3 d3 r3 where 3: "ReadData pf 2 r2 = Some ((e3, d3), r3)" "e3 = PE_NONE \<longrightarrow> \<not> quiet r3"
        using read_loop_returns 2(2) unfolding ReadData_def by blast
      show ?thesis
      proof (cases "e3 \<noteq> PE_NONE \<or> length d3 \<noteq> 2 \<or> un_be16 d3 = 0")
        case True
        with 1 2 3 ok1 ok2 show ?thesis by (auto simp: ReadPacket_rx_def packet_error_def)
      next
        case ok3: False
        then obtain e4 d4 r4 where "ReadData pf (unat (un_be16 d3)) r3 = Some ((e4, d4), r4)" "e4 = PE_NONE \<longrightarrow> \<not> quiet r4"
          using read_loop_returns 3(2) unfolding ReadData_def by blast
        with 1 2 3 ok1 ok2 ok3 show ?thesis by (auto simp: ReadPacket_rx_def packet_error_def)
      qed
    qed
  qed
qed

section \<open>The channel as an interface\<close>

text \<open>
  What a component that talks in packets needs of the transport: a packet that was sent is received
  whole, in any state of the stream whose pending bytes begin with its frame.
\<close>

locale packet_channel =
  fixes recv :: "'s \<Rightarrow> ('p \<times> 's) option"
    and pending :: "'s \<Rightarrow> bytes"
    and alive :: "'s \<Rightarrow> bool"
    and wire :: "'p \<Rightarrow> bytes"
    and sendable :: "'p \<Rightarrow> bool"
  assumes recv_wire:
    "alive s \<Longrightarrow> sendable p \<Longrightarrow> pending s = wire p @ rest \<Longrightarrow>
     \<exists>s'. recv s = Some (p, s') \<and> alive s' \<and> pending s' = rest"

fun receive_all :: "('s \<Rightarrow> ('p \<times> 's) option) \<Rightarrow> nat \<Rightarrow> 's \<Rightarrow> ('p list \<times> 's) option" where
  "receive_all rcv 0 s = Some ([], s)"
| "receive_all rcv (Suc n) s = do { (p, s) \<leftarrow> rcv s; (ps, s) \<leftarrow> receive_all rcv n s; Some (p # ps, s) }"

context packet_channel
begin

lemma receive_in_order:
  "alive s \<Longrightarrow> \<forall>p \<in> set ps. sendable p \<Longrightarrow> pending s = concat (map wire ps) @ rest \<Longrightarrow>
   \<exists>s'. receive_all recv (length ps) s = Some (ps, s') \<and> alive s' \<and> pending s' = rest"
proof (induction ps arbitrary: s)
  case (Cons p ps)
  then obtain s1 where "recv s = Some (p, s1)" "alive s1" "pending s1 = concat (map wire ps) @ rest"
    using recv_wire [of s p "concat (map wire ps) @ rest"] by auto
  with Cons.IH [of s1] Cons.prems show ?case by auto
qed simp

end

definition data_packet :: "u16 \<Rightarrow> bytes \<Rightarrow> Packet" where
  "data_packet i d = \<lparr>pk_error = PE_NONE, pk_id = i, pk_data = d\<rparr>"

definition packet_ok :: "Packet \<Rightarrow> bool" where
  "packet_ok p \<longleftrightarrow> pk_error p = PE_NONE \<and> pk_data p \<noteq> [] \<and> length (pk_data p) < 65536"

interpretation pc: packet_channel "ReadPacket pf" "rx_bytes \<circ> sk_rx" "quiet \<circ> sk_rx"
  "\<lambda>p. frame (pk_id p) (pk_data p)" packet_ok
proof
  fix s :: sock and p rest
  assume "(quiet \<circ> sk_rx) s" "packet_ok p" "(rx_bytes \<circ> sk_rx) s = frame (pk_id p) (pk_data p) @ rest"
  then show "\<exists>s'. ReadPacket pf s = Some (p, s') \<and> (quiet \<circ> sk_rx) s' \<and> (rx_bytes \<circ> sk_rx) s' = rest"
    using ReadPacket_frame' [of "sk_rx s" "pk_id p" "pk_data p" rest pf]
    by (auto simp: ReadPacket_def packet_ok_def)
qed

fun write_packets :: "platform \<Rightarrow> (u16 \<times> bytes) list \<Rightarrow> sock \<Rightarrow> (PacketError \<times> sock) option" where
  "write_packets pf [] s = Some (PE_NONE, s)"
| "write_packets pf ((i, d) # ps) s = do {
     (e, s) \<leftarrow> WritePacket pf i d s;
     if e \<noteq> PE_NONE then Some (e, s) else write_packets pf ps s }"

lemma write_packets_out:
  "write_packets pf ps s = Some (PE_NONE, s') \<Longrightarrow>
   sk_out s' = sk_out s @ concat (map (\<lambda>(i, d). frame i d) ps)"
proof (induction ps arbitrary: s)
  case (Cons q ps)
  obtain i d where q: "q = (i, d)" by fastforce
  with Cons.prems obtain e s1 where 1: "WritePacket pf i d s = Some (e, s1)" "e = PE_NONE"
    "write_packets pf ps s1 = Some (PE_NONE, s')"
    by (auto simp: bind_eq_Some_conv split: if_splits)
  with Cons.IH [OF 1(3)] WritePacket_prefix' [of pf i d s s1] q show ?case by auto
qed simp

text \<open>
  C7: End to end: when one side has written a list of packets of 1 to 65535 bytes without an error, a
  peer that receives those bytes, cut into pieces in any way and interleaved with any number of
  retryable errors, reads back exactly these packets, in order.
\<close>

theorem packets_in_order:
  assumes "write_packets pf1 ps s = Some (PE_NONE, s1)" and "sk_out s = []"
    and "\<forall>(i, d) \<in> set ps. d \<noteq> [] \<and> length d < 65536"
    and "quiet (sk_rx t)" and "rx_bytes (sk_rx t) = sk_out s1"
  shows "\<exists>t'. receive_all (ReadPacket pf2) (length ps) t = Some (map (\<lambda>(i, d). data_packet i d) ps, t') \<and>
           rx_bytes (sk_rx t') = []"
proof -
  let ?qs = "map (\<lambda>(i, d). data_packet i d) ps"
  have "rx_bytes (sk_rx t) = concat (map (\<lambda>p. frame (pk_id p) (pk_data p)) ?qs)"
    using write_packets_out [OF assms(1)] assms(2,5)
    by (simp add: comp_def split_def data_packet_def)
  then have "\<exists>t'. receive_all (ReadPacket pf2) (length ?qs) t = Some (?qs, t') \<and> (quiet \<circ> sk_rx) t' \<and>
      (rx_bytes \<circ> sk_rx) t' = []"
    using assms(3,4) by (intro pc.receive_in_order) (auto simp: packet_ok_def data_packet_def)
  then show ?thesis by auto
qed

lemma packets_in_order_witness:
  "\<exists>s1 t'. write_packets Linux [(0xB0, [1]), (0xB1, [2, 3])] \<lparr>sk_rx = [], sk_tx = replicate 40 (TxRoom 3), sk_out = []\<rparr>
      = Some (PE_NONE, s1) \<and>
    receive_all (ReadPacket Windows) 2 \<lparr>sk_rx = [RxErr EWouldBlock, RxData (sk_out s1)], sk_tx = [], sk_out = []\<rparr> =
      Some ([data_packet 0xB0 [1], data_packet 0xB1 [2, 3]], t')"
proof -
  let ?s = "\<lparr>sk_rx = [], sk_tx = replicate 40 (TxRoom 3), sk_out = []\<rparr> :: sock"
  have r: "rooms (replicate 40 (TxRoom 3)) = 40" by code_simp
  obtain s0 where 0: "WritePacket Linux 0xB0 [1] ?s = Some (PE_NONE, s0)" "40 \<le> rooms (sk_tx s0) + 13"
    using WritePacket_live [of "[1]" ?s Linux "0xB0"] r by auto
  obtain s1 where 1: "WritePacket Linux 0xB1 [2, 3] s0 = Some (PE_NONE, s1)"
    using WritePacket_live [of "[2, 3]" s0 Linux "0xB1"] 0(2) by auto
  let ?t = "\<lparr>sk_rx = [RxErr EWouldBlock, RxData (sk_out s1)], sk_tx = [], sk_out = []\<rparr> :: sock"
  have w: "write_packets Linux [(0xB0, [1]), (0xB1, [2, 3])] ?s = Some (PE_NONE, s1)"
    using 0 1 by simp
  have "\<exists>t'. receive_all (ReadPacket Windows) (length [(0xB0 :: u16, [1]), (0xB1, [2, 3 :: u8])])
      ?t = Some (map (\<lambda>(i, d). data_packet i d) [(0xB0, [1]), (0xB1, [2, 3])], t') \<and> rx_bytes (sk_rx t') = []"
    by (rule packets_in_order [OF w]) (simp_all add: retryable_def)
  moreover have "length [(0xB0 :: u16, [1]), (0xB1, [2, 3 :: u8])] = 2" by simp
  ultimately show ?thesis using w by (simp only: list.map prod.case) blast
qed

end
