(* ===== verification/PairingMethods.thy ===== *)
theory PairingMethods
  imports Prelude "HOL-Library.List_Lexorder"
begin

text \<open>
  \<open>common/src/storage/PairingMethod.h\<close>: the pairing methods, their names and their integer values.
  The enumeration is ordered by its integer values, as in C++.
\<close>

datatype PairingMethod = TCP | BLUETOOTH | CLOUD_TCP | CLOUD_BT | UDP | MANUAL_UDP

fun method_int :: "PairingMethod \<Rightarrow> int" where
  "method_int TCP = 0"
| "method_int BLUETOOTH = 1"
| "method_int CLOUD_TCP = 2"
| "method_int CLOUD_BT = 3"
| "method_int UDP = 4"
| "method_int MANUAL_UDP = 5"

lemma method_int_inject: "method_int a = method_int b \<Longrightarrow> a = b"
  by (cases a; cases b) simp_all

instantiation PairingMethod :: linorder
begin

definition less_eq_PairingMethod :: "PairingMethod \<Rightarrow> PairingMethod \<Rightarrow> bool" where
  "less_eq_PairingMethod a b \<longleftrightarrow> method_int a \<le> method_int b"

definition less_PairingMethod :: "PairingMethod \<Rightarrow> PairingMethod \<Rightarrow> bool" where
  "less_PairingMethod a b \<longleftrightarrow> method_int a < method_int b"

instance
  by standard (auto simp: less_eq_PairingMethod_def less_PairingMethod_def intro: method_int_inject)

end

fun method_ToString :: "PairingMethod \<Rightarrow> string" where
  "method_ToString TCP = ''TCP''"
| "method_ToString BLUETOOTH = ''BLUETOOTH''"
| "method_ToString CLOUD_TCP = ''CLOUD_TCP''"
| "method_ToString CLOUD_BT = ''CLOUD_BT''"
| "method_ToString UDP = ''UDP''"
| "method_ToString MANUAL_UDP = ''MANUAL_UDP''"

text \<open>An unknown name is TCP.\<close>

definition method_FromString :: "string \<Rightarrow> PairingMethod" where
  "method_FromString s =
     (if s = ''TCP'' then TCP
      else if s = ''BLUETOOTH'' then BLUETOOTH
      else if s = ''CLOUD_TCP'' then CLOUD_TCP
      else if s = ''CLOUD_BT'' then CLOUD_BT
      else if s = ''UDP'' then UDP
      else if s = ''MANUAL_UDP'' then MANUAL_UDP
      else TCP)"

lemma method_roundtrip [simp]: "method_FromString (method_ToString m) = m"
  by (cases m) (simp_all add: method_FromString_def)

lemma method_ToString_FromString:
  "method_ToString (method_FromString s) = s \<or> method_FromString s = TCP"
  by (simp add: method_FromString_def)

end
