(* ===== verification/Packets.thy ===== *)
theory Packets
  imports ExternalLibs PairingMethods AppInfo
begin

text \<open>
  \<open>common/src/connection/Packets.h\<close> and \<open>connection/pairing/PairingStructs.h\<close>: the messages, as
  records, with their JSON form (\<open>ToJson\<close>) and their parsers (\<open>FromJson\<close>, where every exception is
  caught). The packets that only the phone writes have no \<open>ToJson\<close> in the source; for them the form the
  parser expects is a specification, named \<open>phone_\<dots>\<close>.
\<close>

definition PACKET_ID_PAIR_INIT :: u16 where "PACKET_ID_PAIR_INIT = 0x50"
definition PACKET_ID_PAIR_RESPONSE :: u16 where "PACKET_ID_PAIR_RESPONSE = 0x51"
definition PACKET_ID_DEVICE_ID :: u16 where "PACKET_ID_DEVICE_ID = 0xB0"
definition PACKET_ID_UNLOCK_REQUEST :: u16 where "PACKET_ID_UNLOCK_REQUEST = 0xB1"
definition PACKET_ID_UNLOCK_RESPONSE :: u16 where "PACKET_ID_UNLOCK_RESPONSE = 0xB2"

lemmas packet_ids = PACKET_ID_PAIR_INIT_def PACKET_ID_PAIR_RESPONSE_def PACKET_ID_DEVICE_ID_def
  PACKET_ID_UNLOCK_REQUEST_def PACKET_ID_UNLOCK_RESPONSE_def

section \<open>Pairing\<close>

record PacketPairInit =
  pi_protoVersion :: string
  pi_deviceUUID :: string
  pi_deviceName :: string
  pi_ipAddress :: string
  pi_tcpPort :: u16
  pi_udpPort :: u16
  pi_udpManualPort :: u16
  pi_cloudToken :: string

definition empty_PairInit :: PacketPairInit where
  "empty_PairInit = \<lparr>pi_protoVersion = [], pi_deviceUUID = [], pi_deviceName = [], pi_ipAddress = [],
     pi_tcpPort = 0, pi_udpPort = 0, pi_udpManualPort = 0, pi_cloudToken = []\<rparr>"

text \<open>The inner \<open>try\<close> block: the assignments before the first exception stay.\<close>

definition PairInit_fields :: "'j json_lib \<Rightarrow> 'j \<Rightarrow> PacketPairInit \<Rightarrow> PacketPairInit" where
  "PairInit_fields J v p =
     (case get_string J v ''deviceUUID'' of None \<Rightarrow> p | Some x \<Rightarrow> let p = p\<lparr>pi_deviceUUID := x\<rparr> in
      case get_string J v ''deviceName'' of None \<Rightarrow> p | Some x \<Rightarrow> let p = p\<lparr>pi_deviceName := x\<rparr> in
      case get_string J v ''ipAddress'' of None \<Rightarrow> p | Some x \<Rightarrow> let p = p\<lparr>pi_ipAddress := x\<rparr> in
      case get_u16 J v ''tcpPort'' of None \<Rightarrow> p | Some x \<Rightarrow> let p = p\<lparr>pi_tcpPort := x\<rparr> in
      case get_u16 J v ''udpPort'' of None \<Rightarrow> p | Some x \<Rightarrow> let p = p\<lparr>pi_udpPort := x\<rparr> in
      case get_u16 J v ''udpManualPort'' of None \<Rightarrow> p | Some x \<Rightarrow> let p = p\<lparr>pi_udpManualPort := x\<rparr> in
      case get_string J v ''cloudToken'' of None \<Rightarrow> p | Some x \<Rightarrow> p\<lparr>pi_cloudToken := x\<rparr>)"

definition PairInit_FromJson :: "'j json_lib \<Rightarrow> string \<Rightarrow> PacketPairInit option" where
  "PairInit_FromJson J s = do {
     v \<leftarrow> j_parse J s;
     pv \<leftarrow> get_string J v ''protoVersion'';
     Some (PairInit_fields J v (empty_PairInit\<lparr>pi_protoVersion := pv\<rparr>))
   }"

record PacketPairResponseData =
  pr_pairingMethod :: PairingMethod
  pr_deviceId :: string
  pr_deviceName :: string
  pr_deviceOS :: string
  pr_unlockServerPort :: u16
  pr_macAddresses :: "string list"
  pr_userName :: string
  pr_passwordKey :: string

definition empty_PairResponseData :: PacketPairResponseData where
  "empty_PairResponseData = \<lparr>pr_pairingMethod = TCP, pr_deviceId = [], pr_deviceName = [], pr_deviceOS = [],
     pr_unlockServerPort = 0, pr_macAddresses = [], pr_userName = [], pr_passwordKey = []\<rparr>"

definition PairResponseData_ToJson :: "'j json_lib \<Rightarrow> PacketPairResponseData \<Rightarrow> 'j" where
  "PairResponseData_ToJson J d = j_object J
     [(''pairingMethod'', j_string J (method_ToString (pr_pairingMethod d))),
      (''deviceId'', j_string J (pr_deviceId d)),
      (''deviceName'', j_string J (pr_deviceName d)),
      (''deviceOS'', j_string J (pr_deviceOS d)),
      (''unlockServerPort'', j_uint J (unat (pr_unlockServerPort d))),
      (''macAddresses'', j_strings J (pr_macAddresses d)),
      (''userName'', j_string J (pr_userName d)),
      (''passwordKey'', j_string J (pr_passwordKey d))]"

record PacketPairResponse =
  pr_errMsg :: string
  pr_data :: PacketPairResponseData

definition PairResponse_ToJson :: "'j json_lib \<Rightarrow> PacketPairResponse \<Rightarrow> 'j" where
  "PairResponse_ToJson J r = j_object J
     [(''errMsg'', j_string J (pr_errMsg r)), (''data'', PairResponseData_ToJson J (pr_data r))]"

section \<open>Unlocking\<close>

record PacketUnlockRequest =
  uq_protoVersion :: string
  uq_deviceId :: string
  uq_encData :: string

definition UnlockRequest_ToJson :: "'j json_lib \<Rightarrow> PacketUnlockRequest \<Rightarrow> 'j" where
  "UnlockRequest_ToJson J r = j_object J
     [(''protoVersion'', j_string J (uq_protoVersion r)), (''deviceId'', j_string J (uq_deviceId r)),
      (''encData'', j_string J (uq_encData r))]"

record PacketUnlockRequestData =
  ud_user :: string
  ud_program :: string
  ud_unlockToken :: string

definition UnlockRequestData_ToJson :: "'j json_lib \<Rightarrow> PacketUnlockRequestData \<Rightarrow> 'j" where
  "UnlockRequestData_ToJson J d = j_object J
     [(''user'', j_string J (ud_user d)), (''program'', j_string J (ud_program d)),
      (''unlockToken'', j_string J (ud_unlockToken d))]"

record PacketUnlockResponse =
  ur_error :: string
  ur_encData :: string

definition UnlockResponse_FromJson :: "'j json_lib \<Rightarrow> string \<Rightarrow> PacketUnlockResponse option" where
  "UnlockResponse_FromJson J s = do {
     v \<leftarrow> j_parse J s;
     e \<leftarrow> get_string J v ''error'';
     d \<leftarrow> get_string J v ''encData'';
     Some \<lparr>ur_error = e, ur_encData = d\<rparr>
   }"

record PacketUnlockResponseData =
  rd_unlockToken :: string
  rd_passwordKey :: string

definition empty_ResponseData :: PacketUnlockResponseData where
  "empty_ResponseData = \<lparr>rd_unlockToken = [], rd_passwordKey = []\<rparr>"

definition UnlockResponseData_FromJson :: "'j json_lib \<Rightarrow> string \<Rightarrow> PacketUnlockResponseData option" where
  "UnlockResponseData_FromJson J s = do {
     v \<leftarrow> j_parse J s;
     t \<leftarrow> get_string J v ''unlockToken'';
     k \<leftarrow> get_string J v ''passwordKey'';
     Some \<lparr>rd_unlockToken = t, rd_passwordKey = k\<rparr>
   }"

section \<open>Broadcasts and QR codes\<close>

record PacketUDPBroadcast =
  ub_deviceId :: string
  ub_pcbuIP :: string
  ub_pcbuPort :: u16
  ub_isManual :: bool

definition UDPBroadcast_ToJson :: "'j json_lib \<Rightarrow> PacketUDPBroadcast \<Rightarrow> 'j" where
  "UDPBroadcast_ToJson J b = j_object J
     [(''deviceId'', j_string J (ub_deviceId b)), (''pcbuIP'', j_string J (ub_pcbuIP b)),
      (''pcbuPort'', j_uint J (unat (ub_pcbuPort b))), (''isManual'', j_bool J (ub_isManual b))]"

record PacketUDPPairBeacon =
  bc_serverId :: string
  bc_ip :: string
  bc_port :: u16

definition UDPPairBeacon_ToJson :: "'j json_lib \<Rightarrow> PacketUDPPairBeacon \<Rightarrow> 'j" where
  "UDPPairBeacon_ToJson J b = j_object J
     [(''serverId'', j_string J (bc_serverId b)), (''ip'', j_string J (bc_ip b)),
      (''port'', j_uint J (unat (bc_port b)))]"

record PairingQRData =
  qr_serverId :: string
  qr_port :: u16
  qr_method :: string
  qr_encKey :: string

definition new_PairingQRData :: "string \<Rightarrow> u16 \<Rightarrow> PairingMethod \<Rightarrow> string \<Rightarrow> PairingQRData" where
  "new_PairingQRData serverId port m encKey =
     \<lparr>qr_serverId = serverId, qr_port = port, qr_method = method_ToString m, qr_encKey = encKey\<rparr>"

definition PairingQRData_ToJson :: "'j json_lib \<Rightarrow> PairingQRData \<Rightarrow> 'j" where
  "PairingQRData_ToJson J q = j_object J
     [(''serverId'', j_string J (qr_serverId q)), (''port'', j_uint J (unat (qr_port q))),
      (''method'', j_string J (qr_method q)), (''encKey'', j_string J (qr_encKey q))]"

record LegacyPairingQRData =
  lq_ip :: string
  lq_port :: u16
  lq_method :: string
  lq_encKey :: string

definition new_LegacyPairingQRData :: "string \<Rightarrow> u16 \<Rightarrow> PairingMethod \<Rightarrow> string \<Rightarrow> LegacyPairingQRData" where
  "new_LegacyPairingQRData ip port m encKey =
     \<lparr>lq_ip = ip, lq_port = port, lq_method = method_ToString m, lq_encKey = encKey\<rparr>"

definition LegacyPairingQRData_ToJson :: "'j json_lib \<Rightarrow> LegacyPairingQRData \<Rightarrow> 'j" where
  "LegacyPairingQRData_ToJson J q = j_object J
     [(''ip'', j_string J (lq_ip q)), (''port'', j_uint J (unat (lq_port q))),
      (''method'', j_string J (lq_method q)), (''encKey'', j_string J (lq_encKey q))]"

record PairingUIData =
  ui_userName :: string
  ui_password :: string
  ui_encKey :: string
  ui_method :: PairingMethod
  ui_macAddress :: string
  ui_btAddress :: string
  ui_useLegacy :: bool

section \<open>What the phone writes\<close>

definition phone_response_json :: "'j json_lib \<Rightarrow> PacketUnlockResponse \<Rightarrow> 'j" where
  "phone_response_json J r = j_object J
     [(''error'', j_string J (ur_error r)), (''encData'', j_string J (ur_encData r))]"

definition phone_response_data_json :: "'j json_lib \<Rightarrow> PacketUnlockResponseData \<Rightarrow> 'j" where
  "phone_response_data_json J d = j_object J
     [(''unlockToken'', j_string J (rd_unlockToken d)), (''passwordKey'', j_string J (rd_passwordKey d))]"

definition phone_pair_init_json :: "'j json_lib \<Rightarrow> PacketPairInit \<Rightarrow> 'j" where
  "phone_pair_init_json J p = j_object J
     [(''protoVersion'', j_string J (pi_protoVersion p)), (''deviceUUID'', j_string J (pi_deviceUUID p)),
      (''deviceName'', j_string J (pi_deviceName p)), (''ipAddress'', j_string J (pi_ipAddress p)),
      (''tcpPort'', j_uint J (unat (pi_tcpPort p))), (''udpPort'', j_uint J (unat (pi_udpPort p))),
      (''udpManualPort'', j_uint J (unat (pi_udpManualPort p))), (''cloudToken'', j_string J (pi_cloudToken p))]"

lemma built_packets [intro, simp]:
  "built J (PairResponseData_ToJson J d)" "built J (PairResponse_ToJson J r)"
  "built J (UnlockRequest_ToJson J q)" "built J (UnlockRequestData_ToJson J u)"
  "built J (phone_response_json J pr)" "built J (phone_response_data_json J pd)"
  "built J (phone_pair_init_json J p)" "built J (UDPBroadcast_ToJson J b)"
  "built J (UDPPairBeacon_ToJson J bc)" "built J (PairingQRData_ToJson J qr)"
  "built J (LegacyPairingQRData_ToJson J lq)"
proof -
  show *: "built J (PairResponseData_ToJson J d)" for d
    unfolding PairResponseData_ToJson_def by (rule built.intros(6)) auto
  show "built J (PairResponse_ToJson J r)"
    unfolding PairResponse_ToJson_def by (rule built.intros(6)) (auto simp: *)
qed (unfold UnlockRequest_ToJson_def UnlockRequestData_ToJson_def phone_response_json_def
    phone_response_data_json_def phone_pair_init_json_def UDPBroadcast_ToJson_def
    UDPPairBeacon_ToJson_def PairingQRData_ToJson_def LegacyPairingQRData_ToJson_def, (rule built.intros(6), auto)+)

lemma UnlockResponse_parse:
  assumes "json_laws J" and "j_dump J (phone_response_json J r) = Some s"
  shows "UnlockResponse_FromJson J s = Some r"
  using json_parse_dump [OF assms(1) built_packets(5) assms(2)]
  by (simp add: UnlockResponse_FromJson_def phone_response_json_def json_get_object(1) assms(1))

lemma UnlockResponseData_parse:
  assumes "json_laws J" and "j_dump J (phone_response_data_json J d) = Some s"
  shows "UnlockResponseData_FromJson J s = Some d"
  using json_parse_dump [OF assms(1) built_packets(6) assms(2)]
  by (simp add: UnlockResponseData_FromJson_def phone_response_data_json_def json_get_object(1) assms(1))

lemma PairInit_parse:
  assumes "json_laws J" and "j_dump J (phone_pair_init_json J p) = Some s"
  shows "PairInit_FromJson J s = Some p"
  using json_parse_dump [OF assms(1) built_packets(7) assms(2)]
  by (simp add: PairInit_FromJson_def PairInit_fields_def phone_pair_init_json_def empty_PairInit_def
      json_get_object assms(1))

end
