(* ===== verification/Shell.thy ===== *)
theory Shell
  imports Prelude
begin

text \<open>
  \<open>common/src/shell/Shell.cpp\<close>: files and commands. The file system is a record: the contents of the
  files, what exists as a directory, which files can be opened for reading, and how many bytes a file can
  take (\<open>None\<close>: it cannot be opened for writing). A process is the outcome of running it.
\<close>

record fs =
  fs_files :: "string \<Rightarrow> bytes option"
  fs_dirs :: "string \<Rightarrow> bool"
  fs_readable :: "string \<Rightarrow> bool"
  fs_capacity :: "string \<Rightarrow> nat option"
  fs_mkdir :: bool
  fs_remove :: "string \<Rightarrow> bool"

definition path_join :: "string \<Rightarrow> string \<Rightarrow> string" where
  "path_join dir file = dir @ ''/'' @ file"

definition exists_path :: "fs \<Rightarrow> string \<Rightarrow> bool" where
  "exists_path f p \<longleftrightarrow> fs_dirs f p \<or> fs_files f p \<noteq> None"

definition ReadBytes :: "fs \<Rightarrow> string \<Rightarrow> bytes" where
  "ReadBytes f p = (if \<not> fs_readable f p then [] else case fs_files f p of None \<Rightarrow> [] | Some b \<Rightarrow> b)"

text \<open>Opening for output truncates the file; a full disk keeps what fits and fails the stream.\<close>

definition WriteBytes :: "fs \<Rightarrow> string \<Rightarrow> bytes \<Rightarrow> bool \<times> fs" where
  "WriteBytes f p data =
     (case fs_capacity f p of
        None \<Rightarrow> (False, f)
      | Some n \<Rightarrow> (length data \<le> n, f\<lparr>fs_files := (fs_files f)(p := Some (take n data))\<rparr>))"

definition CreateDir :: "fs \<Rightarrow> string \<Rightarrow> bool \<times> fs" where
  "CreateDir f p =
     (if fs_mkdir f then (True, f\<lparr>fs_dirs := (fs_dirs f)(p := True)\<rparr>) else (False, f))"

definition RemoveDir :: "fs \<Rightarrow> string \<Rightarrow> bool \<times> fs" where
  "RemoveDir f p =
     (if fs_remove f p then (True, f\<lparr>fs_dirs := (fs_dirs f)(p := False)\<rparr>) else (False, f))"

definition CreateFile :: "fs \<Rightarrow> string \<Rightarrow> bool \<times> fs" where
  "CreateFile f p =
     (case fs_capacity f p of
        None \<Rightarrow> (False, f) | Some n \<Rightarrow> (True, f\<lparr>fs_files := (fs_files f)(p := Some [])\<rparr>))"

definition RemoveFile :: "fs \<Rightarrow> string \<Rightarrow> bool \<times> fs" where
  "RemoveFile f p =
     (if fs_remove f p then (True, f\<lparr>fs_files := (fs_files f)(p := None)\<rparr>) else (False, f))"

section \<open>Commands\<close>

record process =
  pr_exit :: int
  pr_stdout :: "string list"   \<comment> \<open>the lines\<close>
  pr_stderr :: "string list"
  pr_output :: string          \<comment> \<open>both streams, as the pipe yields them\<close>

record ShellCmdResult =
  sr_exitCode :: int
  sr_output :: string

definition append_lines :: "string list \<Rightarrow> string" where
  "append_lines ls = concat (map (\<lambda>l. l @ [CHR 0x0A]) (takeWhile (\<lambda>l. l \<noteq> []) ls))"

text \<open>On Windows the two streams are read line by line, each up to its first empty line.\<close>

definition RunUserCommand :: "platform \<Rightarrow> process \<Rightarrow> ShellCmdResult" where
  "RunUserCommand pf proc =
     \<lparr>sr_exitCode = pr_exit proc,
      sr_output = (if pf = Windows then append_lines (pr_stdout proc) @ append_lines (pr_stderr proc)
                   else pr_output proc)\<rparr>"

definition RunCommand :: "platform \<Rightarrow> process \<Rightarrow> ShellCmdResult" where
  "RunCommand pf proc = RunUserCommand pf proc"

section \<open>Facts\<close>

lemma ReadBytes_WriteBytes:
  "fs_capacity f p = Some n \<Longrightarrow> length data \<le> n \<Longrightarrow> fs_readable f p \<Longrightarrow>
   ReadBytes (snd (WriteBytes f p data)) p = data"
  by (simp add: WriteBytes_def ReadBytes_def)

lemma WriteBytes_frame [simp]:
  "fs_dirs (snd (WriteBytes f p d)) = fs_dirs f" "fs_readable (snd (WriteBytes f p d)) = fs_readable f"
  "fs_capacity (snd (WriteBytes f p d)) = fs_capacity f" "fs_mkdir (snd (WriteBytes f p d)) = fs_mkdir f"
  "fs_remove (snd (WriteBytes f p d)) = fs_remove f"
  "q \<noteq> p \<Longrightarrow> fs_files (snd (WriteBytes f p d)) q = fs_files f q"
  by (auto simp: WriteBytes_def split: option.splits)

lemma CreateDir_frame [simp]:
  "fs_files (snd (CreateDir f p)) = fs_files f" "fs_readable (snd (CreateDir f p)) = fs_readable f"
  "fs_capacity (snd (CreateDir f p)) = fs_capacity f" "fs_mkdir (snd (CreateDir f p)) = fs_mkdir f"
  "fs_remove (snd (CreateDir f p)) = fs_remove f"
  by (simp_all add: CreateDir_def)

text \<open>The last write wins, and a write that reports success is read back.\<close>

lemma WriteBytes_reported:
  "fst (WriteBytes f p data) \<Longrightarrow> fs_readable f p \<Longrightarrow> ReadBytes (snd (WriteBytes f p data)) p = data"
  by (auto simp: WriteBytes_def ReadBytes_def split: option.splits)

section \<open>Stores\<close>

text \<open>
  The interface of a component that keeps one value on disk: what was saved is what is loaded, as long
  as the value can be stored in that state.
\<close>

locale persistent_store =
  fixes save :: "'a \<Rightarrow> 's \<Rightarrow> 's option"
    and load :: "'s \<Rightarrow> ('a \<times> 's) option"
    and storable :: "'a \<Rightarrow> 's \<Rightarrow> bool"
  assumes save_load:
    "storable a s \<Longrightarrow> \<exists>s' s''. save a s = Some s' \<and> load s' = Some (a, s'')"
    and save_storable: "storable a s \<Longrightarrow> save a s = Some s' \<Longrightarrow> storable b s \<Longrightarrow> storable b s'"

fun save_all :: "('a \<Rightarrow> 's \<Rightarrow> 's option) \<Rightarrow> 'a list \<Rightarrow> 's \<Rightarrow> 's option" where
  "save_all sv [] s = Some s"
| "save_all sv (a # as) s = do { s \<leftarrow> sv a s; save_all sv as s }"

context persistent_store
begin

lemma last_save_wins:
  "\<forall>b \<in> set (as @ [a]). storable b s \<Longrightarrow> \<exists>s' s''. save_all save (as @ [a]) s = Some s' \<and> load s' = Some (a, s'')"
proof (induction as arbitrary: s)
  case Nil
  then show ?case using save_load [of a s] by auto
next
  case (Cons b as)
  then obtain s1 where "save b s = Some s1" using save_load [of b s] by auto
  moreover have "\<forall>c \<in> set (as @ [a]). storable c s1"
    using Cons.prems save_storable [of b s s1] \<open>save b s = Some s1\<close> by auto
  ultimately show ?case using Cons.IH [of s1] by simp
qed

end

end
