(* ===== verification/AppSettings.thy ===== *)
theory AppSettings
  imports ExternalLibs WitnessLibs AppInfo Shell
begin

text \<open>
  \<open>common/src/storage/AppSettings.cpp\<close>: the settings file, its cache and its mutex. The mutex is part
  of the state: locking it twice, and unlocking it when it is free, is \<open>None\<close>. The two random machine
  ids that \<open>Load\<close> may draw are arguments.
\<close>

section \<open>State\<close>

record PCBUAppStorage =
  as_machineID :: string
  as_installedVersion :: string
  as_language :: string
  as_serverIP :: string
  as_serverMAC :: string
  as_pairingDiscoveryPort :: u16
  as_pairingServerPort :: u16
  as_unlockServerPort :: u16
  as_clientSocketTimeout :: u32
  as_clientConnectTimeout :: u32
  as_clientConnectRetries :: u32
  as_cloudRelayUrl :: string
  as_winUnlockBehavior :: string
  as_winHidePasswordField :: bool
  as_winForceDefaultCredProv :: bool
  as_unixSetPasswordPAM :: bool

definition empty_storage :: PCBUAppStorage where
  "empty_storage = \<lparr>as_machineID = [], as_installedVersion = [], as_language = [], as_serverIP = [],
     as_serverMAC = [], as_pairingDiscoveryPort = 0, as_pairingServerPort = 0, as_unlockServerPort = 0,
     as_clientSocketTimeout = 0, as_clientConnectTimeout = 0, as_clientConnectRetries = 0,
     as_cloudRelayUrl = [], as_winUnlockBehavior = [], as_winHidePasswordField = False,
     as_winForceDefaultCredProv = False, as_unixSetPasswordPAM = False\<rparr>"

record app_state =
  st_fs :: fs
  st_cache :: PCBUAppStorage
  st_locked :: bool

definition lock_mutex :: "app_state \<Rightarrow> app_state option" where
  "lock_mutex st = (if st_locked st then None else Some (st\<lparr>st_locked := True\<rparr>))"

definition unlock_mutex :: "app_state \<Rightarrow> app_state option" where
  "unlock_mutex st = (if st_locked st then Some (st\<lparr>st_locked := False\<rparr>) else None)"

text \<open>\<open>folder\<close>: what \<open>SHGetFolderPathW\<close> yields on Windows, if it succeeds.\<close>

definition GetBaseDir :: "platform \<Rightarrow> string option \<Rightarrow> string" where
  "GetBaseDir pf folder =
     (if pf = Windows then
        (case folder of Some d \<Rightarrow> d @ [CHR 0x5C] @ ''PCBioUnlock''
         | None \<Rightarrow> ''C:'' @ [CHR 0x5C] @ ''ProgramData'' @ [CHR 0x5C] @ ''PCBioUnlock'')
      else ''/etc/pc-bio-unlock'')"

definition SETTINGS_FILE_NAME :: string where "SETTINGS_FILE_NAME = ''app_settings.json''"

definition settings_path :: "string \<Rightarrow> string" where
  "settings_path dir = path_join dir SETTINGS_FILE_NAME"

section \<open>Saving\<close>

definition settings_json :: "'j json_lib \<Rightarrow> PCBUAppStorage \<Rightarrow> 'j" where
  "settings_json J s = j_object J
     [(''machineID'', j_string J (as_machineID s)),
      (''installedVersion'', j_string J (as_installedVersion s)),
      (''language'', j_string J (as_language s)),
      (''serverIP'', j_string J (as_serverIP s)),
      (''serverMAC'', j_string J (as_serverMAC s)),
      (''pairingDiscoveryPort'', j_uint J (unat (as_pairingDiscoveryPort s))),
      (''pairingServerPort'', j_uint J (unat (as_pairingServerPort s))),
      (''unlockServerPort'', j_uint J (unat (as_unlockServerPort s))),
      (''clientSocketTimeout'', j_uint J (unat (as_clientSocketTimeout s))),
      (''clientConnectTimeout'', j_uint J (unat (as_clientConnectTimeout s))),
      (''clientConnectRetries'', j_uint J (unat (as_clientConnectRetries s))),
      (''cloudRelayUrl'', j_string J (as_cloudRelayUrl s)),
      (''winUnlockBehavior'', j_string J (as_winUnlockBehavior s)),
      (''winHidePasswordField'', j_bool J (as_winHidePasswordField s)),
      (''winForceDefaultCredProv'', j_bool J (as_winForceDefaultCredProv s)),
      (''unixSetPasswordPAM'', j_bool J (as_unixSetPasswordPAM s))]"

text \<open>An exception of \<open>dump\<close> is caught; the result of \<open>WriteBytes\<close> is not looked at.\<close>

definition Save :: "'j json_lib \<Rightarrow> string \<Rightarrow> PCBUAppStorage \<Rightarrow> app_state \<Rightarrow> app_state option" where
  "Save J dir storage st = do {
     st \<leftarrow> lock_mutex st;
     let json = settings_json J storage;
     let f = (if exists_path (st_fs st) dir then st_fs st else snd (CreateDir (st_fs st) dir));
     let st = st\<lparr>st_fs := f\<rparr>;
     let st = (case j_dump J json of
         None \<Rightarrow> st
       | Some jsonStr \<Rightarrow>
           st\<lparr>st_fs := snd (WriteBytes f (settings_path dir) (bytes_of jsonStr)), st_cache := storage\<rparr>);
     unlock_mutex st
   }"

section \<open>Loading\<close>

definition default_relay :: string where
  "default_relay = ''https://pcbu-relay.advsolar.workers.dev''"

text \<open>The assignments after the machine id; any exception makes the whole read fail.\<close>

definition read_settings :: "'j json_lib \<Rightarrow> 'j \<Rightarrow> string \<Rightarrow> PCBUAppStorage option" where
  "read_settings J v machineID = do {
     installedVersion \<leftarrow> get_string J v ''installedVersion'';
     language \<leftarrow> get_string J v ''language'';
     serverIP \<leftarrow> get_string J v ''serverIP'';
     serverMAC \<leftarrow> get_string J v ''serverMAC'';
     discovery \<leftarrow> value_or J (j_get_int J) v ''pairingDiscoveryPort'' 43297;
     pairing \<leftarrow> get_u16 J v ''pairingServerPort'';
     unlock \<leftarrow> get_u16 J v ''unlockServerPort'';
     sockTimeout \<leftarrow> get_u32 J v ''clientSocketTimeout'';
     connTimeout \<leftarrow> get_u32 J v ''clientConnectTimeout'';
     retries \<leftarrow> get_u32 J v ''clientConnectRetries'';
     relay \<leftarrow> value_or J (j_get_string J) v ''cloudRelayUrl'' default_relay;
     behavior \<leftarrow> value_or J (j_get_string J) v ''winUnlockBehavior'' ''key_press_lock_only'';
     hidePw \<leftarrow> get_bool J v ''winHidePasswordField'';
     forceProv \<leftarrow> value_or J (j_get_bool J) v ''winForceDefaultCredProv'' True;
     setPw \<leftarrow> get_bool J v ''unixSetPasswordPAM'';
     Some \<lparr>as_machineID = machineID, as_installedVersion = installedVersion, as_language = language,
       as_serverIP = serverIP, as_serverMAC = serverMAC, as_pairingDiscoveryPort = word_of_int discovery,
       as_pairingServerPort = pairing, as_unlockServerPort = unlock, as_clientSocketTimeout = sockTimeout,
       as_clientConnectTimeout = connTimeout, as_clientConnectRetries = retries, as_cloudRelayUrl = relay,
       as_winUnlockBehavior = behavior, as_winHidePasswordField = hidePw,
       as_winForceDefaultCredProv = forceProv, as_unixSetPasswordPAM = setPw\<rparr>
   }"

definition default_settings :: "string \<Rightarrow> PCBUAppStorage" where
  "default_settings machineID = empty_storage\<lparr>as_machineID := machineID, as_language := ''auto'',
     as_serverIP := ''auto'', as_pairingDiscoveryPort := 43297, as_pairingServerPort := 43295,
     as_unlockServerPort := 43296, as_clientSocketTimeout := 120, as_clientConnectTimeout := 5,
     as_clientConnectRetries := 2, as_cloudRelayUrl := default_relay,
     as_winUnlockBehavior := ''key_press_lock_only'', as_winHidePasswordField := False,
     as_winForceDefaultCredProv := True, as_unixSetPasswordPAM := False\<rparr>"

text \<open>\<open>g_Mutex.unlock(); Save(\<dots>); g_Mutex.lock();\<close>\<close>

definition save_unlocked :: "'j json_lib \<Rightarrow> string \<Rightarrow> PCBUAppStorage \<Rightarrow> app_state \<Rightarrow> app_state option" where
  "save_unlocked J dir s st = do {
     st \<leftarrow> unlock_mutex st;
     st \<leftarrow> Save J dir s st;
     lock_mutex st
   }"

definition Load :: "'j json_lib \<Rightarrow> string \<Rightarrow> string \<Rightarrow> string \<Rightarrow> app_state \<Rightarrow>
    (PCBUAppStorage \<times> app_state) option" where
  "Load J dir rand1 rand2 st =
     (let jsonData = ReadBytes (st_fs st) (settings_path dir);
          reset = (\<lambda>machineID. do {
            let def = default_settings (if machineID = [] then rand2 else machineID);
            st \<leftarrow> save_unlocked J dir def st;
            Some (def, st) })
      in case j_parse J (string_of jsonData) of
           None \<Rightarrow> reset []
         | Some v \<Rightarrow>
             (let stored = get_string J v ''machineID'';
                  machineID = (case stored of Some m \<Rightarrow> m | None \<Rightarrow> rand1)
              in case read_settings J v machineID of
                   None \<Rightarrow> reset machineID
                 | Some settings \<Rightarrow>
                     if stored = None then do { st \<leftarrow> save_unlocked J dir settings st; Some (settings, st) }
                     else Some (settings, st)))"

definition Get :: "'j json_lib \<Rightarrow> string \<Rightarrow> string \<Rightarrow> string \<Rightarrow> app_state \<Rightarrow>
    (PCBUAppStorage \<times> app_state) option" where
  "Get J dir rand1 rand2 st = do {
     st \<leftarrow> lock_mutex st;
     if as_machineID (st_cache st) \<noteq> [] then do {
       st' \<leftarrow> unlock_mutex st; Some (st_cache st, st') }
     else do {
       (s, st) \<leftarrow> Load J dir rand1 rand2 st;
       let st = st\<lparr>st_cache := s\<rparr>;
       st \<leftarrow> unlock_mutex st;
       Some (s, st)
     }
   }"

definition InvalidateCache :: "app_state \<Rightarrow> app_state option" where
  "InvalidateCache st = do { st \<leftarrow> lock_mutex st; unlock_mutex (st\<lparr>st_cache := empty_storage\<rparr>) }"

definition SetInstalledVersion :: "'j json_lib \<Rightarrow> string \<Rightarrow> string \<Rightarrow> string \<Rightarrow> string \<Rightarrow> bool \<Rightarrow>
    app_state \<Rightarrow> app_state option" where
  "SetInstalledVersion J dir rand1 rand2 version isInstalled st = do {
     (settings, st) \<leftarrow> Get J dir rand1 rand2 st;
     st \<leftarrow> Save J dir (settings\<lparr>as_installedVersion := if isInstalled then version else []\<rparr>) st;
     InvalidateCache st
   }"

section \<open>The mutex\<close>

lemma Save_unlocked:
  "\<not> st_locked st \<Longrightarrow> \<exists>st'. Save J dir s st = Some st' \<and> \<not> st_locked st'"
  by (simp add: Save_def lock_mutex_def unlock_mutex_def Let_def split: option.splits)

lemma save_unlocked_locked:
  "st_locked st \<Longrightarrow> \<exists>st'. save_unlocked J dir s st = Some st' \<and> st_locked st'"
  using Save_unlocked [of "st\<lparr>st_locked := False\<rparr>" J dir s]
  by (auto simp: save_unlocked_def unlock_mutex_def lock_mutex_def)

lemma Load_locked:
  assumes "st_locked st"
  shows "\<exists>s st'. Load J dir r1 r2 st = Some (s, st') \<and> st_locked st'"
proof -
  have "\<exists>s' st'. do { st \<leftarrow> save_unlocked J dir s st; Some (s, st) } = Some (s', st') \<and> st_locked st'" for s
    using save_unlocked_locked [OF assms, of J dir s] by auto
  then show ?thesis
    using assms by (auto simp: Load_def Let_def split: option.splits)
qed

text \<open>
  No operation of the settings store deadlocks or leaves the mutex taken: from a free mutex each one
  returns, with the mutex free again, although \<open>Load\<close> gives it up in the middle to save.
\<close>

theorem settings_mutex_free:
  assumes "\<not> st_locked st"
  shows "(\<exists>s st'. Get J dir r1 r2 st = Some (s, st') \<and> \<not> st_locked st') \<and>
         (\<exists>st'. Save J dir x st = Some st' \<and> \<not> st_locked st') \<and>
         (\<exists>st'. InvalidateCache st = Some st' \<and> \<not> st_locked st') \<and>
         (\<exists>st'. SetInstalledVersion J dir r1 r2 v b st = Some st' \<and> \<not> st_locked st')"
proof -
  have G: "\<exists>s st'. Get J dir r1 r2 st = Some (s, st') \<and> \<not> st_locked st'"
    using assms Load_locked [of "st\<lparr>st_locked := True\<rparr>" J dir r1 r2]
    by (auto simp: Get_def lock_mutex_def unlock_mutex_def Let_def)
  have I: "\<exists>st'. InvalidateCache t = Some st' \<and> \<not> st_locked st'" if "\<not> st_locked t" for t
    using that by (simp add: InvalidateCache_def lock_mutex_def unlock_mutex_def)
  obtain s t where t: "Get J dir r1 r2 st = Some (s, t)" "\<not> st_locked t" using G by blast
  obtain t2 where "Save J dir (s\<lparr>as_installedVersion := if b then v else []\<rparr>) t = Some t2" "\<not> st_locked t2"
    using Save_unlocked [OF t(2)] by blast
  with t I [of t2] have "\<exists>st'. SetInstalledVersion J dir r1 r2 v b st = Some st' \<and> \<not> st_locked st'"
    by (simp add: SetInstalledVersion_def)
  with G I [OF assms] Save_unlocked [OF assms] show ?thesis by blast
qed

section \<open>Saving and loading\<close>

lemma built_settings: "built J (settings_json J s)"
  unfolding settings_json_def by (rule built.intros(6)) auto

definition settings_storable :: "'j json_lib \<Rightarrow> string \<Rightarrow> PCBUAppStorage \<Rightarrow> app_state \<Rightarrow> bool" where
  "settings_storable J dir s st \<longleftrightarrow> json_laws J \<and> \<not> st_locked st \<and> fs_readable (st_fs st) (settings_path dir) \<and>
     (\<exists>txt n. j_dump J (settings_json J s) = Some txt \<and> fs_capacity (st_fs st) (settings_path dir) = Some n \<and>
        length txt \<le> n)"

lemma read_settings_json:
  assumes "json_laws J"
  shows "read_settings J (settings_json J s) (as_machineID s) = Some s"
    and "get_string J (settings_json J s) ''machineID'' = Some (as_machineID s)"
proof -
  have port: "j_get_int J (j_uint J (unat w)) = Some (int (unat w))" for w :: u16
    using unsigned_less [of w, where 'a = nat] by (intro json_lawsD(8) [OF assms]) simp
  note obj = json_get_object [OF assms] json_lawsD(4,9) [OF assms] port
  show "get_string J (settings_json J s) ''machineID'' = Some (as_machineID s)"
    unfolding settings_json_def by (simp add: obj)
  show "read_settings J (settings_json J s) (as_machineID s) = Some s"
    unfolding settings_json_def read_settings_def by (simp add: obj)
qed

lemma Save_storable:
  assumes "settings_storable J dir s st"
  shows "\<exists>st'. Save J dir s st = Some st' \<and> \<not> st_locked st' \<and> st_cache st' = s \<and>
     j_parse J (string_of (ReadBytes (st_fs st') (settings_path dir))) = Some (settings_json J s) \<and>
     fs_capacity (st_fs st') = fs_capacity (st_fs st) \<and> fs_readable (st_fs st') = fs_readable (st_fs st)"
proof -
  obtain doc n where t: "json_laws J" "\<not> st_locked st" "fs_readable (st_fs st) (settings_path dir)"
    "j_dump J (settings_json J s) = Some doc" "fs_capacity (st_fs st) (settings_path dir) = Some n" "length doc \<le> n"
    using assms by (auto simp: settings_storable_def)
  define f where "f = (if exists_path (st_fs st) dir then st_fs st else snd (CreateDir (st_fs st) dir))"
  have f: "fs_capacity f = fs_capacity (st_fs st)" "fs_readable f = fs_readable (st_fs st)"
    by (simp_all add: f_def)
  let ?f' = "snd (WriteBytes f (settings_path dir) (bytes_of doc))"
  have "Save J dir s st = Some (st\<lparr>st_fs := ?f', st_cache := s, st_locked := False\<rparr>)"
    using t(2,4) by (simp add: Save_def lock_mutex_def unlock_mutex_def Let_def f_def)
  moreover have "ReadBytes ?f' (settings_path dir) = bytes_of doc"
    using t f by (intro ReadBytes_WriteBytes [where n = n]) simp_all
  ultimately show ?thesis
    using json_parse_dump [OF t(1) built_settings t(4)] f by simp
qed

lemma Get_parsed:
  assumes "json_laws J" and "\<not> st_locked st" and "as_machineID (st_cache st) = []"
    and "j_parse J (string_of (ReadBytes (st_fs st) (settings_path dir))) = Some (settings_json J s)"
  shows "Get J dir r1 r2 st = Some (s, st\<lparr>st_cache := s\<rparr>)"
  using assms read_settings_json [OF assms(1), of s]
  by (simp add: Get_def Load_def lock_mutex_def unlock_mutex_def Let_def)

definition save_fresh :: "'j json_lib \<Rightarrow> string \<Rightarrow> PCBUAppStorage \<Rightarrow> app_state \<Rightarrow> app_state option" where
  "save_fresh J dir s st = do { st \<leftarrow> Save J dir s st; InvalidateCache st }"

lemma save_fresh_storable:
  assumes "settings_storable J dir s st"
  shows "\<exists>st'. save_fresh J dir s st = Some st' \<and> Get J dir r1 r2 st' = Some (s, st'\<lparr>st_cache := s\<rparr>) \<and>
    (settings_storable J dir s2 st \<longrightarrow> settings_storable J dir s2 st')"
proof -
  obtain st1 where 1: "Save J dir s st = Some st1" "\<not> st_locked st1"
    "j_parse J (string_of (ReadBytes (st_fs st1) (settings_path dir))) = Some (settings_json J s)"
    "fs_capacity (st_fs st1) = fs_capacity (st_fs st)" "fs_readable (st_fs st1) = fs_readable (st_fs st)"
    using Save_storable [OF assms] by auto
  let ?st' = "st1\<lparr>st_locked := False, st_cache := empty_storage\<rparr>"
  have sf: "save_fresh J dir s st = Some ?st'"
    using 1 by (simp add: save_fresh_def InvalidateCache_def lock_mutex_def unlock_mutex_def)
  moreover have "Get J dir r1 r2 ?st' = Some (s, ?st'\<lparr>st_cache := s\<rparr>)"
    using 1 assms by (intro Get_parsed) (simp_all add: settings_storable_def empty_storage_def)
  moreover have "settings_storable J dir s2 st \<Longrightarrow> settings_storable J dir s2 ?st'"
    using 1 by (auto simp: settings_storable_def)
  ultimately show ?thesis by blast
qed

interpretation ss: persistent_store "save_fresh J dir" "Get J dir r1 r2" "settings_storable J dir"
proof
  fix a b and s s' :: app_state
  show "settings_storable J dir a s \<Longrightarrow>
      \<exists>s' s''. save_fresh J dir a s = Some s' \<and> Get J dir r1 r2 s' = Some (a, s'')"
    using save_fresh_storable [of J dir a s r1 r2] by blast
  show "settings_storable J dir a s \<Longrightarrow> save_fresh J dir a s = Some s' \<Longrightarrow>
      settings_storable J dir b s \<Longrightarrow> settings_storable J dir b s'"
    using save_fresh_storable [of J dir a s undefined undefined b] by auto
qed

text \<open>Saves that empty the cache each time, as the settings page does: the last one wins.\<close>

lemma saves_fresh:
  assumes "\<forall>b \<in> set (ss @ [s]). settings_storable J dir b st"
  shows "\<exists>st' st''. save_all (save_fresh J dir) (ss @ [s]) st = Some st' \<and> Get J dir r1 r2 st' = Some (s, st'')"
  using assms by (rule ss.last_save_wins)

text \<open>Several saves without emptying the cache.\<close>

lemma saves_then_get:
  assumes "\<forall>b \<in> set (ss @ [s]). settings_storable J dir b st" and "as_machineID s \<noteq> []"
  shows "\<exists>st' st''. save_all (Save J dir) (ss @ [s]) st = Some st' \<and> Get J dir r1 r2 st' = Some (s, st') \<and>
    InvalidateCache st' = Some st'' \<and> st_cache st'' = empty_storage \<and>
    Get J dir r3 r4 st'' = Some (s, st''\<lparr>st_cache := s\<rparr>)"
  using assms(1)
proof (induction ss arbitrary: st)
  case Nil
  then obtain st1 where 1: "Save J dir s st = Some st1" "\<not> st_locked st1" "st_cache st1 = s"
    "j_parse J (string_of (ReadBytes (st_fs st1) (settings_path dir))) = Some (settings_json J s)"
    using Save_storable [of J dir s st] by auto
  let ?st2 = "st1\<lparr>st_locked := False, st_cache := empty_storage\<rparr>"
  have "Get J dir r1 r2 st1 = Some (s, st1)"
    using 1(2,3) assms(2) by (simp add: Get_def lock_mutex_def unlock_mutex_def)
  moreover have "InvalidateCache st1 = Some ?st2" using 1(2) by (simp add: InvalidateCache_def lock_mutex_def unlock_mutex_def)
  moreover have "Get J dir r3 r4 ?st2 = Some (s, ?st2\<lparr>st_cache := s\<rparr>)"
    using 1(4) Nil by (intro Get_parsed) (simp_all add: settings_storable_def empty_storage_def)
  ultimately show ?case using 1(1) by (intro exI [of _ st1] exI [of _ ?st2]) simp
next
  case (Cons b ss)
  then obtain st1 where 1: "Save J dir b st = Some st1" "\<not> st_locked st1"
    "fs_capacity (st_fs st1) = fs_capacity (st_fs st)" "fs_readable (st_fs st1) = fs_readable (st_fs st)"
    using Save_storable [of J dir b st] by auto
  then have "\<forall>c \<in> set (ss @ [s]). settings_storable J dir c st1" using Cons.prems by (auto simp: settings_storable_def)
  from Cons.IH [OF this] 1(1) show ?case by simp
qed

text \<open>
  C14: Of several saves the last one wins: whatever the cache and the file held before, \<open>Get\<close> then hands out these settings
  from the cache, in which it changes nothing, and after \<open>InvalidateCache\<close> has emptied it the same settings from the file, whatever
  the ids of a reset would have been. (The settings name a machine, as those of \<open>Load\<close> do, and their text can be written.)
\<close>

theorem settings_last_save_wins:
  assumes "\<forall>b \<in> set (ss @ [s]). settings_storable J dir b st" and "as_machineID s \<noteq> []"
  shows "\<exists>st' st''. save_all (Save J dir) (ss @ [s]) st = Some st' \<and> Get J dir r1 r2 st' = Some (s, st') \<and>
    InvalidateCache st' = Some st'' \<and> st_cache st'' = empty_storage \<and>
    Get J dir r3 r4 st'' = Some (s, st''\<lparr>st_cache := s\<rparr>)"
  by (rule saves_then_get [OF assms])

text \<open>
  A settings file that names the machine but lacks or misspells another field is replaced by the
  defaults under the same machine id: all other settings are lost, the machine's identity is not.
\<close>

theorem settings_reset_keeps_machine:
  assumes "\<not> st_locked st" and "as_machineID (st_cache st) = []"
    and "j_parse J (string_of (ReadBytes (st_fs st) (settings_path dir))) = Some v"
    and "get_string J v ''machineID'' = Some m" and "m \<noteq> []"
    and "read_settings J v m = None"
  shows "\<exists>st'. Get J dir r1 r2 st = Some (default_settings m, st') \<and> st_cache st' = default_settings m"
proof -
  obtain st1 where "save_unlocked J dir (default_settings m) (st\<lparr>st_locked := True\<rparr>) = Some st1" "st_locked st1"
    using save_unlocked_locked [of "st\<lparr>st_locked := True\<rparr>" J dir "default_settings m"] by auto
  with assms show ?thesis
    by (simp add: Get_def Load_def lock_mutex_def unlock_mutex_def Let_def)
qed

text \<open>
  \<open>Save\<close> does not notice a failed write: when the settings file cannot be opened for writing, the file
  keeps its contents, yet the next \<open>Get\<close> hands out the settings that were not saved.
\<close>

theorem failed_save_unnoticed:
  assumes "\<not> st_locked st" and "fs_capacity (st_fs st) (settings_path dir) = None"
    and "j_dump J (settings_json J s) = Some txt" and "as_machineID s \<noteq> []"
  shows "\<exists>st'. Save J dir s st = Some st' \<and> fs_files (st_fs st') = fs_files (st_fs st) \<and>
           Get J dir r1 r2 st' = Some (s, st')"
  using assms by (auto simp: Save_def Get_def lock_mutex_def unlock_mutex_def Let_def WriteBytes_def)

section \<open>Witnesses\<close>

definition demo_fs :: fs where
  "demo_fs = \<lparr>fs_files = Map.empty, fs_dirs = (\<lambda>_. False), fs_readable = (\<lambda>_. True),
     fs_capacity = (\<lambda>_. Some 100000), fs_mkdir = True, fs_remove = (\<lambda>_. True)\<rparr>"

definition demo_app :: app_state where
  "demo_app = \<lparr>st_fs = demo_fs, st_cache = empty_storage, st_locked = False\<rparr>"

lemma settings_mutex_free_witness:
  "\<exists>s st'. Get toy_json ''d'' ''a'' ''b'' demo_app = Some (s, st') \<and> \<not> st_locked st'"
  using settings_mutex_free [of demo_app toy_json "''d''" "''a''" "''b''" empty_storage "[]" True]
  by (simp add: demo_app_def)

definition tiny_settings :: "string \<Rightarrow> PCBUAppStorage" where
  "tiny_settings m = empty_storage\<lparr>as_machineID := m\<rparr>"

lemma toy_tiny_dump:
  "j_dump toy_json (settings_json toy_json (tiny_settings ''m1'')) =
     Some (put_val (settings_json toy_json (tiny_settings ''m1'')))"
  by (simp add: toy_json_def)

lemma tiny_text_length: "length (put_val (settings_json toy_json (tiny_settings ''m1''))) \<le> 100000"
  by (simp add: settings_json_def toy_json_def tiny_settings_def empty_storage_def)

lemma settings_last_save_wins_witness:
  "\<exists>st' st''. save_all (Save toy_json ''d'') ([tiny_settings ''m0''] @ [tiny_settings ''m1'']) demo_app = Some st' \<and>
     Get toy_json ''d'' ''x'' ''y'' st' = Some (tiny_settings ''m1'', st') \<and>
     InvalidateCache st' = Some st'' \<and> st_cache st'' = empty_storage \<and>
     Get toy_json ''d'' ''z'' ''w'' st'' = Some (tiny_settings ''m1'', st''\<lparr>st_cache := tiny_settings ''m1''\<rparr>)"
proof (rule settings_last_save_wins)
  have "j_dump toy_json v = Some (put_val v)" for v by (simp add: toy_json_def)
  moreover have "length (put_val (settings_json toy_json (tiny_settings ''m0''))) \<le> 100000"
    by (simp add: settings_json_def toy_json_def tiny_settings_def empty_storage_def)
  ultimately show "\<forall>b \<in> set ([tiny_settings ''m0''] @ [tiny_settings ''m1'']). settings_storable toy_json ''d'' b demo_app"
    using tiny_text_length toy_json_laws by (simp add: settings_storable_def demo_app_def demo_fs_def)
qed (simp add: tiny_settings_def)

lemma settings_reset_keeps_machine_witness:
  "\<exists>st'. Get toy_json ''d'' ''x'' ''y''
      (demo_app\<lparr>st_fs := demo_fs\<lparr>fs_files := [settings_path ''d'' \<mapsto>
         bytes_of (put_val (JObj [(''machineID'', JStr ''m1'')]))]\<rparr>\<rparr>) = Some (default_settings ''m1'', st') \<and>
     st_cache st' = default_settings ''m1''"
proof (rule settings_reset_keeps_machine)
  let ?v = "JObj [(''machineID'', JStr ''m1'')]"
  show "j_parse toy_json (string_of (ReadBytes (st_fs (demo_app\<lparr>st_fs := demo_fs\<lparr>fs_files :=
      [settings_path ''d'' \<mapsto> bytes_of (put_val ?v)]\<rparr>\<rparr>)) (settings_path ''d''))) = Some ?v"
    using get_put(1) [of ?v _ "[]"] by (simp add: ReadBytes_def demo_fs_def toy_json_def del: put_val.simps)
  show "get_string toy_json ?v ''machineID'' = Some ''m1''" by (simp add: get_string_def toy_json_def)
  show "read_settings toy_json ?v ''m1'' = None"
    by (simp add: read_settings_def get_string_def toy_json_def)
qed (simp_all add: demo_app_def empty_storage_def)

lemma failed_save_unnoticed_witness:
  "\<exists>st'. Save toy_json ''d'' (tiny_settings ''m1'') (demo_app\<lparr>st_fs := demo_fs\<lparr>fs_capacity := (\<lambda>_. None)\<rparr>\<rparr>) = Some st' \<and>
     fs_files (st_fs st') = fs_files demo_fs \<and>
     Get toy_json ''d'' ''x'' ''y'' st' = Some (tiny_settings ''m1'', st')"
  using failed_save_unnoticed [of "demo_app\<lparr>st_fs := demo_fs\<lparr>fs_capacity := (\<lambda>_. None)\<rparr>\<rparr>" "''d''" toy_json
      "tiny_settings ''m1''" _ "''x''" "''y''"] toy_tiny_dump
  by (simp add: demo_app_def tiny_settings_def)

end
