(* ===== verification/PairedDevicesStorage.thy ===== *)
theory PairedDevicesStorage
  imports AppSettings PairingMethods
begin

text \<open>
  \<open>common/src/storage/PairedDevicesStorage.cpp\<close>: the paired devices on disk. Every operation reads the
  whole file and writes it back. What the operating system answers when the file's access rights are
  changed is in \<open>prot_env\<close>. The store is also looked at as a map from device ids to devices.
\<close>

section \<open>Devices\<close>

record PairedDevice =
  pd_id :: string
  pd_pairingMethod :: PairingMethod
  pd_deviceName :: string
  pd_userName :: string
  pd_passwordEnc :: string
  pd_encryptionKey :: string
  pd_ipAddress :: string
  pd_tcpPort :: u16
  pd_udpPort :: u16
  pd_udpManualPort :: u16
  pd_bluetoothAddress :: string
  pd_cloudToken :: string

definition empty_device :: PairedDevice where
  "empty_device = \<lparr>pd_id = [], pd_pairingMethod = TCP, pd_deviceName = [], pd_userName = [],
     pd_passwordEnc = [], pd_encryptionKey = [], pd_ipAddress = [], pd_tcpPort = 0, pd_udpPort = 0,
     pd_udpManualPort = 0, pd_bluetoothAddress = [], pd_cloudToken = []\<rparr>"

definition DEVICES_FILE_NAME :: string where "DEVICES_FILE_NAME = ''paired_devices.json''"

definition devices_path :: "string \<Rightarrow> string" where
  "devices_path dir = path_join dir DEVICES_FILE_NAME"

section \<open>Access rights\<close>

record prot_env =
  pe_modify :: bool        \<comment> \<open>Windows: \<open>ModifyFileAccess\<close> succeeds\<close>
  pe_is_system :: bool     \<comment> \<open>Windows: the process runs as SYSTEM\<close>
  pe_chown :: int          \<comment> \<open>exit code of chown and chmod\<close>

text \<open>\<open>True\<close>: returns; \<open>False\<close>: throws.\<close>

definition ProtectFile :: "platform \<Rightarrow> prot_env \<Rightarrow> fs \<Rightarrow> string \<Rightarrow> bool \<Rightarrow> bool" where
  "ProtectFile pf env f path protect =
     (if \<not> exists_path f path then True
      else if pf = Windows then
        (if \<not> pe_modify env then pe_is_system env else True)
      else if protect then pe_chown env = 0 else True)"

text \<open>
  \<open>ModifyFileAccess\<close> on an access control list: the first explicit allow or deny entry of the SID is
  rewritten in place; if there is none, \<open>SetEntriesInAclW\<close> (the argument \<open>set_entries\<close>) adds one. The
  other arguments are the outcomes of the calls that fetch and store the list.
\<close>

datatype ace_type = ALLOWED | DENIED | OTHER_ACE

record ace =
  ac_type :: ace_type
  ac_inherited :: bool
  ac_sid :: string
  ac_all :: bool       \<comment> \<open>the mask is \<open>GENERIC_ALL\<close>\<close>

definition ace_matches :: "string \<Rightarrow> ace \<Rightarrow> bool" where
  "ace_matches sid a \<longleftrightarrow> \<not> ac_inherited a \<and> (ac_type a = ALLOWED \<or> ac_type a = DENIED) \<and> ac_sid a = sid"

fun rewrite_ace :: "string \<Rightarrow> bool \<Rightarrow> ace list \<Rightarrow> ace list \<times> bool" where
  "rewrite_ace sid deny [] = ([], False)"
| "rewrite_ace sid deny (a # as) =
     (if ace_matches sid a
      then (a\<lparr>ac_all := True, ac_type := if deny then DENIED else ALLOWED\<rparr> # as, True)
      else let (as', found) = rewrite_ace sid deny as in (a # as', found))"

definition ModifyFileAccess :: "bool \<Rightarrow> ace list option \<Rightarrow> (string \<Rightarrow> bool \<Rightarrow> ace list \<Rightarrow> ace list option) \<Rightarrow> bool \<Rightarrow>
    string \<Rightarrow> bool \<Rightarrow> ace list option" where
  "ModifyFileAccess sid_ok dacl set_entries store_ok sid deny =
     (if \<not> sid_ok then None
      else case dacl of
        None \<Rightarrow> None
      | Some old \<Rightarrow>
          (let (new, aceExists) = rewrite_ace sid deny old in
           case (if aceExists then Some new else set_entries sid deny old) of
             None \<Rightarrow> None
           | Some acl \<Rightarrow> if store_ok then Some acl else None))"

lemma rewrite_ace_first:
  "rewrite_ace sid deny acl = (acl', True) \<Longrightarrow>
   \<exists>xs a ys. acl = xs @ a # ys \<and> ace_matches sid a \<and> (\<forall>x \<in> set xs. \<not> ace_matches sid x) \<and>
     acl' = xs @ a\<lparr>ac_all := True, ac_type := if deny then DENIED else ALLOWED\<rparr> # ys"
proof (induction acl arbitrary: acl')
  case (Cons b acl)
  show ?case
  proof (cases "ace_matches sid b")
    case True
    with Cons.prems show ?thesis by (intro exI [of _ "[]"]) auto
  next
    case False
    then obtain r where r: "rewrite_ace sid deny acl = (r, True)" "acl' = b # r"
      using Cons.prems by (auto simp: Let_def split: prod.splits)
    from Cons.IH [OF r(1)] obtain xs a ys where "acl = xs @ a # ys" "ace_matches sid a"
      "\<forall>x \<in> set xs. \<not> ace_matches sid x" "r = xs @ a\<lparr>ac_all := True, ac_type := if deny then DENIED else ALLOWED\<rparr> # ys"
      by blast
    with r False show ?thesis by (intro exI [of _ "b # xs"]) auto
  qed
qed simp

section \<open>Saving\<close>

definition device_json :: "'j json_lib \<Rightarrow> PairedDevice \<Rightarrow> 'j" where
  "device_json J d = j_object J
     [(''id'', j_string J (pd_id d)),
      (''pairingMethod'', j_string J (method_ToString (pd_pairingMethod d))),
      (''deviceName'', j_string J (pd_deviceName d)),
      (''userName'', j_string J (pd_userName d)),
      (''passwordEnc'', j_string J (pd_passwordEnc d)),
      (''encryptionKey'', j_string J (pd_encryptionKey d)),
      (''ipAddress'', j_string J (pd_ipAddress d)),
      (''tcpPort'', j_uint J (unat (pd_tcpPort d))),
      (''udpPort'', j_uint J (unat (pd_udpPort d))),
      (''udpManualPort'', j_uint J (unat (pd_udpManualPort d))),
      (''bluetoothAddress'', j_string J (pd_bluetoothAddress d)),
      (''cloudToken'', j_string J (pd_cloudToken d))]"

definition devices_json :: "'j json_lib \<Rightarrow> PairedDevice list \<Rightarrow> 'j" where
  "devices_json J ds = foldl (j_push J) (j_null J) (map (device_json J) ds)"

text \<open>The directory may be created; a throwing \<open>ProtectFile\<close> or \<open>dump\<close> ends the operation.\<close>

definition SaveDevices :: "'j json_lib \<Rightarrow> platform \<Rightarrow> prot_env \<Rightarrow> string \<Rightarrow> PairedDevice list \<Rightarrow> fs \<Rightarrow> fs" where
  "SaveDevices J pf env dir ds f =
     (let devicesJson = devices_json J ds;
          f = (if exists_path f dir then f else snd (CreateDir f dir));
          filePath = devices_path dir
      in if \<not> ProtectFile pf env f filePath False then f
         else case j_dump J devicesJson of
           None \<Rightarrow> f
         | Some jsonStr \<Rightarrow>
             (let f = snd (WriteBytes f filePath (bytes_of jsonStr)) in
              \<comment> \<open>the last call may throw, which is caught\<close>
              if ProtectFile pf env f filePath True then f else f))"

section \<open>Loading\<close>

definition read_device :: "'j json_lib \<Rightarrow> 'j \<Rightarrow> PairedDevice option" where
  "read_device J e = do {
     i \<leftarrow> get_string J e ''id'';
     m \<leftarrow> get_string J e ''pairingMethod'';
     dn \<leftarrow> get_string J e ''deviceName'';
     un \<leftarrow> get_string J e ''userName'';
     pe \<leftarrow> get_string J e ''passwordEnc'';
     ek \<leftarrow> get_string J e ''encryptionKey'';
     ip \<leftarrow> get_string J e ''ipAddress'';
     bt \<leftarrow> get_string J e ''bluetoothAddress'';
     ct \<leftarrow> get_string J e ''cloudToken'';
     tp \<leftarrow> get_u16 J e ''tcpPort'';
     up \<leftarrow> get_u16 J e ''udpPort'';
     mp \<leftarrow> get_u16 J e ''udpManualPort'';
     Some \<lparr>pd_id = i, pd_pairingMethod = method_FromString m, pd_deviceName = dn, pd_userName = un,
       pd_passwordEnc = pe, pd_encryptionKey = ek, pd_ipAddress = ip, pd_tcpPort = tp, pd_udpPort = up,
       pd_udpManualPort = mp, pd_bluetoothAddress = bt, pd_cloudToken = ct\<rparr>
   }"

text \<open>The loop over the entries: what was read before an exception, and whether there was one.\<close>

fun read_entries :: "'j json_lib \<Rightarrow> 'j list \<Rightarrow> PairedDevice list \<times> bool" where
  "read_entries J [] = ([], True)"
| "read_entries J (e # es) =
     (case read_device J e of
        None \<Rightarrow> ([], False)
      | Some d \<Rightarrow> let (ds, ok) = read_entries J es in (d # ds, ok))"

definition GetDevices :: "'j json_lib \<Rightarrow> platform \<Rightarrow> prot_env \<Rightarrow> string \<Rightarrow> fs \<Rightarrow> PairedDevice list \<times> fs" where
  "GetDevices J pf env dir f =
     (let filePath = devices_path dir;
          recover = (\<lambda>ds. (ds, SaveDevices J pf env dir [] f))
      in if pf = Windows \<and> \<not> ProtectFile pf env f filePath False then recover []
         else let jsonData = ReadBytes f filePath
           in if pf = Windows \<and> \<not> ProtectFile pf env f filePath True then recover []
              else case j_parse J (string_of jsonData) of
                None \<Rightarrow> recover []
              | Some v \<Rightarrow>
                  (let (ds, ok) = read_entries J (j_items J v) in if ok then (ds, f) else recover ds))"

section \<open>Operations\<close>

fun find_device :: "string \<Rightarrow> PairedDevice list \<Rightarrow> PairedDevice option" where
  "find_device i [] = None"
| "find_device i (d # ds) = (if pd_id d = i then Some d else find_device i ds)"

definition GetDeviceByID :: "'j json_lib \<Rightarrow> platform \<Rightarrow> prot_env \<Rightarrow> string \<Rightarrow> string \<Rightarrow> fs \<Rightarrow>
    PairedDevice option \<times> fs" where
  "GetDeviceByID J pf env dir i f =
     (let (ds, f) = GetDevices J pf env dir f in (find_device i ds, f))"

text \<open>The name filter; on Windows names compare without case, and a principal name after the backslash counts.\<close>

definition principal_name :: "string \<Rightarrow> string" where
  "principal_name userName =
     (let userSplit = splitBy [CHR 0x5C] userName in
      if length userSplit = 2 \<and> str_contains (userSplit ! 1) ''@'' then ToLower (userSplit ! 1) else [])"

definition for_user :: "platform \<Rightarrow> string \<Rightarrow> PairedDevice \<Rightarrow> bool" where
  "for_user pf userName d =
     (if pf = Windows then
        ToLower (pd_userName d) = ToLower userName \<or>
        (principal_name userName \<noteq> [] \<and> ToLower (pd_userName d) = principal_name userName)
      else pd_userName d = userName)"

definition GetDevicesForUser :: "'j json_lib \<Rightarrow> platform \<Rightarrow> prot_env \<Rightarrow> string \<Rightarrow> string \<Rightarrow> fs \<Rightarrow>
    PairedDevice list \<times> fs" where
  "GetDevicesForUser J pf env dir userName f =
     (let (ds, f) = GetDevices J pf env dir f in (filter (for_user pf userName) ds, f))"

definition AddDevice :: "'j json_lib \<Rightarrow> platform \<Rightarrow> prot_env \<Rightarrow> string \<Rightarrow> PairedDevice \<Rightarrow> fs \<Rightarrow> fs" where
  "AddDevice J pf env dir device f =
     (let (devices, f) = GetDevices J pf env dir f;
          devices = filter (\<lambda>d. pd_id d \<noteq> pd_id device) devices @ [device]
      in SaveDevices J pf env dir devices f)"

definition RemoveDevice :: "'j json_lib \<Rightarrow> platform \<Rightarrow> prot_env \<Rightarrow> string \<Rightarrow> string \<Rightarrow> fs \<Rightarrow> fs" where
  "RemoveDevice J pf env dir i f =
     (let (devices, f) = GetDevices J pf env dir f
      in SaveDevices J pf env dir (filter (\<lambda>d. pd_id d \<noteq> i) devices) f)"

section \<open>The store as a list of devices\<close>

definition stored :: "'j json_lib \<Rightarrow> string \<Rightarrow> fs \<Rightarrow> PairedDevice list \<Rightarrow> bool" where
  "stored J dir f ds \<longleftrightarrow>
     (\<exists>v. j_parse J (string_of (ReadBytes f (devices_path dir))) = Some v \<and> j_items J v = map (device_json J) ds)"

definition prot_ok :: "platform \<Rightarrow> prot_env \<Rightarrow> bool" where
  "prot_ok pf env \<longleftrightarrow> (if pf = Windows then pe_modify env \<or> pe_is_system env else pe_chown env = 0)"

definition room :: "'j json_lib \<Rightarrow> string \<Rightarrow> PairedDevice list \<Rightarrow> fs \<Rightarrow> bool" where
  "room J dir ds f \<longleftrightarrow> fs_readable f (devices_path dir) \<and>
     (\<exists>doc n. j_dump J (devices_json J ds) = Some doc \<and> fs_capacity f (devices_path dir) = Some n \<and> length doc \<le> n)"

lemma prot_ok_ProtectFile: "prot_ok pf env \<Longrightarrow> ProtectFile pf env f p b"
  by (auto simp: prot_ok_def ProtectFile_def split: if_splits)

lemma built_device: "built J (device_json J d)"
  unfolding device_json_def by (rule built.intros(6)) auto

lemma built_devices: "built J (devices_json J ds)"
  unfolding devices_json_def by (rule built.intros(7)) (auto simp: built_device)

lemma read_device_json: "json_laws J \<Longrightarrow> read_device J (device_json J d) = Some d"
  unfolding read_device_def device_json_def by (simp add: json_get_object)

lemma read_entries_json: "json_laws J \<Longrightarrow> read_entries J (map (device_json J) ds @ es) =
    (let (r, ok) = read_entries J es in (ds @ r, ok))"
  by (induction ds) (simp_all add: read_device_json split_def Let_def)

lemma GetDevices_stored:
  "json_laws J \<Longrightarrow> prot_ok pf env \<Longrightarrow> stored J dir f ds \<Longrightarrow> GetDevices J pf env dir f = (ds, f)"
  using read_entries_json [of J ds "[]"]
  by (auto simp: GetDevices_def Let_def prot_ok_ProtectFile stored_def)

lemma SaveDevices_frame:
  "fs_readable (SaveDevices J pf env dir ds f) = fs_readable f"
  "fs_capacity (SaveDevices J pf env dir ds f) = fs_capacity f"
  by (simp_all add: SaveDevices_def Let_def split: option.split)

lemma SaveDevices_stored:
  assumes "json_laws J" and "prot_ok pf env" and "room J dir ds f"
  shows "stored J dir (SaveDevices J pf env dir ds f) ds"
proof -
  obtain doc n where d: "j_dump J (devices_json J ds) = Some doc" "fs_capacity f (devices_path dir) = Some n"
    "length doc \<le> n" "fs_readable f (devices_path dir)"
    using assms(3) by (auto simp: room_def)
  define g where "g = (if exists_path f dir then f else snd (CreateDir f dir))"
  have "SaveDevices J pf env dir ds f = snd (WriteBytes g (devices_path dir) (bytes_of doc))"
    using d(1) prot_ok_ProtectFile [OF assms(2)] by (simp add: SaveDevices_def Let_def g_def)
  moreover have "ReadBytes (snd (WriteBytes g (devices_path dir) (bytes_of doc))) (devices_path dir) = bytes_of doc"
    using d by (intro ReadBytes_WriteBytes [where n = n]) (simp_all add: g_def)
  ultimately show ?thesis
    using json_parse_dump [OF assms(1) built_devices d(1)] json_lawsD(3) [OF assms(1)]
    by (simp add: stored_def devices_json_def)
qed

lemma room_SaveDevices [simp]: "room J dir ds (SaveDevices J pf env dir es f) = room J dir ds f"
  by (simp add: room_def SaveDevices_frame)

section \<open>The device store as an interface\<close>

definition add_device :: "PairedDevice \<Rightarrow> PairedDevice list \<Rightarrow> PairedDevice list" where
  "add_device d ds = filter (\<lambda>x. pd_id x \<noteq> pd_id d) ds @ [d]"

definition remove_device :: "string \<Rightarrow> PairedDevice list \<Rightarrow> PairedDevice list" where
  "remove_device i ds = filter (\<lambda>x. pd_id x \<noteq> i) ds"

datatype store_op = Add PairedDevice | Remove string

fun list_op :: "store_op \<Rightarrow> PairedDevice list \<Rightarrow> PairedDevice list" where
  "list_op (Add d) = add_device d"
| "list_op (Remove i) = remove_device i"

fun list_ops :: "store_op list \<Rightarrow> PairedDevice list \<Rightarrow> PairedDevice list" where
  "list_ops [] ds = ds"
| "list_ops (x # xs) ds = list_ops xs (list_op x ds)"

fun map_op :: "store_op \<Rightarrow> (string \<Rightarrow> PairedDevice option) \<Rightarrow> (string \<Rightarrow> PairedDevice option)" where
  "map_op (Add d) m = m(pd_id d := Some d)"
| "map_op (Remove i) m = m(i := None)"

lemma find_filter: "find_device i (filter (\<lambda>x. pd_id x \<noteq> j) ds) = (if i = j then None else find_device i ds)"
  by (induction ds) auto

lemma find_append: "find_device i (xs @ ys) = (case find_device i xs of None \<Rightarrow> find_device i ys | Some d \<Rightarrow> Some d)"
  by (induction xs) auto

lemma find_list_op: "(\<lambda>i. find_device i (list_op x ds)) = map_op x (\<lambda>i. find_device i ds)"
  by (cases x) (auto simp: add_device_def remove_device_def find_filter find_append fun_eq_iff split: option.split)

lemma find_list_ops: "(\<lambda>i. find_device i (list_ops xs ds)) = fold map_op xs (\<lambda>i. find_device i ds)"
  by (induction xs arbitrary: ds) (simp_all add: find_list_op)

lemma distinct_list_op: "distinct (map pd_id ds) \<Longrightarrow> distinct (map pd_id (list_op x ds))"
  by (cases x) (auto simp: add_device_def remove_device_def distinct_map_filter)

locale device_store =
  fixes holds :: "'s \<Rightarrow> PairedDevice list \<Rightarrow> bool"
    and perform :: "store_op \<Rightarrow> 's \<Rightarrow> 's"
    and fits :: "PairedDevice list \<Rightarrow> 's \<Rightarrow> bool"
  assumes perform_holds: "holds s ds \<Longrightarrow> fits (list_op x ds) s \<Longrightarrow> holds (perform x s) (list_op x ds)"
    and perform_fits: "fits es s \<Longrightarrow> fits es (perform x s)"
begin

lemma perform_all:
  "holds s ds \<Longrightarrow> \<forall>k \<le> length xs. fits (list_ops (take k xs) ds) s \<Longrightarrow>
   holds (fold perform xs s) (list_ops xs ds)"
proof (induction xs arbitrary: s ds)
  case (Cons x xs)
  have "fits (list_op x ds) s" using Cons.prems(2) by (auto dest: spec [of _ 1])
  with Cons.prems(1) have "holds (perform x s) (list_op x ds)" by (rule perform_holds)
  moreover have "\<forall>k \<le> length xs. fits (list_ops (take k xs) (list_op x ds)) (perform x s)"
    using Cons.prems(2) by (auto intro!: perform_fits dest: spec [of _ "Suc _"])
  ultimately show ?case using Cons.IH by simp
qed simp

end

fun store_perform :: "'j json_lib \<Rightarrow> platform \<Rightarrow> prot_env \<Rightarrow> string \<Rightarrow> store_op \<Rightarrow> fs \<Rightarrow> fs" where
  "store_perform J pf env dir (Add d) f = AddDevice J pf env dir d f"
| "store_perform J pf env dir (Remove i) f = RemoveDevice J pf env dir i f"

definition store_holds :: "'j json_lib \<Rightarrow> platform \<Rightarrow> prot_env \<Rightarrow> string \<Rightarrow> fs \<Rightarrow> PairedDevice list \<Rightarrow> bool" where
  "store_holds J pf env dir f ds \<longleftrightarrow> json_laws J \<and> prot_ok pf env \<and> stored J dir f ds"

lemma GetDevices_capacity:
  "room J dir es (snd (GetDevices J pf env dir f)) = room J dir es f"
  by (auto simp: GetDevices_def Let_def split: option.split prod.split)

interpretation ds: device_store "store_holds J pf env dir" "store_perform J pf env dir" "room J dir"
proof
  fix s ds x es
  show "room J dir (list_op x ds) s \<Longrightarrow> store_holds J pf env dir (store_perform J pf env dir x s) (list_op x ds)"
    if "store_holds J pf env dir s ds"
    using that SaveDevices_stored [of J pf env dir "list_op x ds" s] GetDevices_stored [of J pf env dir s ds]
    by (cases x) (auto simp: store_holds_def AddDevice_def RemoveDevice_def add_device_def remove_device_def)
  show "room J dir es s \<Longrightarrow> room J dir es (store_perform J pf env dir x s)"
    using GetDevices_capacity [of J dir es pf env s]
    by (cases x) (auto simp: AddDevice_def RemoveDevice_def split_def Let_def)
qed

text \<open>
  C12: The device store is a map from ids to devices: after any sequence of \<open>AddDevice\<close> and \<open>RemoveDevice\<close>
  (with room for the file and working access rights), \<open>GetDeviceByID\<close> answers what the same updates of
  the map of the initial contents answer.
\<close>

theorem device_store_is_map:
  assumes "json_laws J" and "prot_ok pf env" and "stored J dir f ds"
    and "\<forall>k \<le> length ops. room J dir (list_ops (take k ops) ds) f"
  shows "fst (GetDeviceByID J pf env dir i (fold (store_perform J pf env dir) ops f)) =
         fold map_op ops (\<lambda>i. find_device i ds) i"
proof -
  have "store_holds J pf env dir f ds" using assms by (simp add: store_holds_def)
  from ds.perform_all [OF this assms(4)]
  have "stored J dir (fold (store_perform J pf env dir) ops f) (list_ops ops ds)"
    by (simp add: store_holds_def)
  from GetDevices_stored [OF assms(1,2) this] show ?thesis
    using fun_cong [OF find_list_ops [of ops ds], of i] by (simp add: GetDeviceByID_def)
qed

text \<open>
  C13: One unreadable entry (a missing or mistyped field, as in a file written before the field existed)
  makes \<open>GetDevices\<close> erase the store: it answers the devices in front of the bad entry, but the file holds
  no device afterwards.
\<close>

theorem bad_entry_wipes_store:
  assumes "json_laws J" and "prot_ok pf env" and "room J dir [] f"
    and "j_parse J (string_of (ReadBytes f (devices_path dir))) = Some v"
    and "j_items J v = map (device_json J) ds @ bad # es" and "read_device J bad = None"
  shows "\<exists>f'. GetDevices J pf env dir f = (ds, f') \<and> GetDevices J pf env dir f' = ([], f')"
proof -
  let ?f' = "SaveDevices J pf env dir [] f"
  have "read_entries J (map (device_json J) ds @ bad # es) = (ds, False)"
    using read_entries_json [OF assms(1), of ds "bad # es"] assms(6) by simp
  then have "GetDevices J pf env dir f = (ds, ?f')"
    using assms(4,5) prot_ok_ProtectFile [OF assms(2)] by (simp add: GetDevices_def Let_def)
  moreover have "GetDevices J pf env dir ?f' = ([], ?f')"
    using assms by (intro GetDevices_stored SaveDevices_stored) simp_all
  ultimately show ?thesis by blast
qed

text \<open>
  On Windows a process that may not change the access rights of the store and is not SYSTEM reads no
  devices, and neither reading nor saving changes the existing file.
\<close>

theorem no_rights_no_change:
  assumes "\<not> pe_modify env" and "\<not> pe_is_system env" and "fs_files f (devices_path dir) = Some b"
  shows "\<exists>f'. GetDevices J Windows env dir f = ([], f') \<and> fs_files f' = fs_files f \<and>
           fs_files (SaveDevices J Windows env dir ds f) = fs_files f"
proof -
  have no: "\<not> ProtectFile Windows env g (devices_path dir) p" if "fs_files g = fs_files f" for g p
    using assms that by (simp add: ProtectFile_def exists_path_def)
  then have "fs_files (SaveDevices J Windows env dir es f) = fs_files f" for es
    by (simp add: SaveDevices_def Let_def)
  with no [of f] show ?thesis by (simp add: GetDevices_def Let_def)
qed

section \<open>Witnesses\<close>

definition demo_prot :: prot_env where
  "demo_prot = \<lparr>pe_modify = True, pe_is_system = False, pe_chown = 0\<rparr>"

definition demo_device :: "string \<Rightarrow> PairedDevice" where
  "demo_device i = empty_device\<lparr>pd_id := i\<rparr>"

definition null_store :: fs where
  "null_store = demo_fs\<lparr>fs_files := [devices_path ''d'' \<mapsto> bytes_of (put_val JNull)]\<rparr>"

lemma null_store_text: "string_of (ReadBytes null_store (devices_path ''d'')) = ''n''"
  by (simp add: null_store_def ReadBytes_def demo_fs_def)

lemma demo_room:
  "room toy_json ''d'' [] null_store" "room toy_json ''d'' [demo_device ''1''] null_store"
  by (simp_all add: room_def null_store_def demo_fs_def toy_json_def devices_json_def device_json_def
      demo_device_def empty_device_def jv_push_def)

lemma device_store_is_map_witness:
  "fst (GetDeviceByID toy_json Linux demo_prot ''d'' ''1''
     (fold (store_perform toy_json Linux demo_prot ''d'') [Add (demo_device ''1'')] null_store)) = Some (demo_device ''1'')"
proof -
  have "stored toy_json ''d'' null_store []"
    unfolding stored_def null_store_text by (simp add: toy_json_def jv_items_def)
  moreover have "room toy_json ''d'' (list_ops (take k [Add (demo_device ''1'')]) []) null_store" if "k \<le> 1" for k
    using that demo_room by (cases k) (simp_all add: add_device_def)
  moreover have "prot_ok Linux demo_prot" by (simp add: prot_ok_def demo_prot_def)
  ultimately show ?thesis
    using device_store_is_map [of toy_json Linux demo_prot "''d''" null_store "[]" "[Add (demo_device ''1'')]" "''1''"]
      toy_json_laws by (simp add: demo_device_def)
qed

lemma bad_entry_wipes_store_witness:
  "\<exists>f'. GetDevices toy_json Linux demo_prot ''d''
      (null_store\<lparr>fs_files := [devices_path ''d'' \<mapsto> bytes_of (put_val (JArr [JNum 7]))]\<rparr>) = ([], f') \<and>
     GetDevices toy_json Linux demo_prot ''d'' f' = ([], f')"
proof (rule bad_entry_wipes_store)
  show "j_parse toy_json (string_of (ReadBytes (null_store\<lparr>fs_files := [devices_path ''d'' \<mapsto>
      bytes_of (put_val (JArr [JNum 7]))]\<rparr>) (devices_path ''d''))) = Some (JArr [JNum 7])"
    using get_put(1) [of "JArr [JNum 7]" _ "[]"]
    by (simp add: ReadBytes_def null_store_def demo_fs_def toy_json_def del: put_val.simps)
  show "j_items toy_json (JArr [JNum 7]) = map (device_json toy_json) [] @ JNum 7 # []"
    by (simp add: toy_json_def jv_items_def)
  show "read_device toy_json (JNum 7) = None"
    by (simp add: read_device_def get_string_def toy_json_def)
  show "room toy_json ''d'' [] (null_store\<lparr>fs_files := [devices_path ''d'' \<mapsto> bytes_of (put_val (JArr [JNum 7]))]\<rparr>)"
    using demo_room(1) by (simp add: room_def)
qed (simp_all add: toy_json_laws prot_ok_def demo_prot_def)

lemma no_rights_no_change_witness:
  "\<exists>f'. GetDevices toy_json Windows \<lparr>pe_modify = False, pe_is_system = False, pe_chown = 0\<rparr> ''d'' null_store = ([], f') \<and>
     fs_files f' = fs_files null_store \<and>
     fs_files (SaveDevices toy_json Windows \<lparr>pe_modify = False, pe_is_system = False, pe_chown = 0\<rparr> ''d''
       [demo_device ''1''] null_store) = fs_files null_store"
  by (rule no_rights_no_change) (simp_all add: null_store_def)

end
