(* ===== verification/UnlockStates.thy ===== *)
theory UnlockStates
  imports Prelude
begin

text \<open>
  \<open>common/src/handler/UnlockState.h\<close>: the states of an unlock attempt, their integer values, and the
  message of each (\<open>tr\<close> is \<open>I18n::Get\<close>).
\<close>

datatype UnlockState = US_UNKNOWN | US_SUCCESS | US_CANCELED | US_TIMEOUT | US_CONNECT_ERROR | US_TIME_ERROR
  | US_DATA_ERROR | US_NOT_PAIRED_ERROR | US_APP_ERROR | US_START_ERROR | US_PORT_ERROR
  | US_PROTOCOL_ERROR | US_UNK_ERROR

fun state_int :: "UnlockState \<Rightarrow> int" where
  "state_int US_UNKNOWN = 0"
| "state_int US_SUCCESS = 1"
| "state_int US_CANCELED = 2"
| "state_int US_TIMEOUT = 3"
| "state_int US_CONNECT_ERROR = 4"
| "state_int US_TIME_ERROR = 5"
| "state_int US_DATA_ERROR = 6"
| "state_int US_NOT_PAIRED_ERROR = 7"
| "state_int US_APP_ERROR = 8"
| "state_int US_START_ERROR = 9"
| "state_int US_PORT_ERROR = 10"
| "state_int US_PROTOCOL_ERROR = 11"
| "state_int US_UNK_ERROR = 12"

definition state_key :: "UnlockState \<Rightarrow> string" where
  "state_key s =
     (case s of
        US_SUCCESS \<Rightarrow> ''unlock_success''
      | US_CANCELED \<Rightarrow> ''unlock_canceled''
      | US_TIMEOUT \<Rightarrow> ''unlock_timeout''
      | US_CONNECT_ERROR \<Rightarrow> ''unlock_error_connect''
      | US_TIME_ERROR \<Rightarrow> ''unlock_error_time''
      | US_DATA_ERROR \<Rightarrow> ''unlock_error_data''
      | US_NOT_PAIRED_ERROR \<Rightarrow> ''unlock_error_not_paired''
      | US_APP_ERROR \<Rightarrow> ''unlock_error_app''
      | US_START_ERROR \<Rightarrow> ''error_start_handler''
      | US_PORT_ERROR \<Rightarrow> ''error_unlock_server_init''
      | US_PROTOCOL_ERROR \<Rightarrow> ''error_protocol_mismatch''
      | US_UNK_ERROR \<Rightarrow> ''unlock_error_unknown''
      | US_UNKNOWN \<Rightarrow> ''error_unknown'')"

definition state_ToString :: "(string \<Rightarrow> string) \<Rightarrow> UnlockState \<Rightarrow> string" where
  "state_ToString tr s = tr (state_key s)"

lemma state_key_inj: "state_key s = state_key t \<Longrightarrow> s = t"
  by (cases s; cases t) (simp_all add: state_key_def)

end
