(* ===== verification/BaseUnlockConnection.thy ===== *)
theory BaseUnlockConnection
  imports BaseConnection CryptUtils Packets PairedDevicesStorage UnlockStates
begin

text \<open>
  \<open>common/src/connection/unlock/BaseUnlockConnection.cpp\<close>: the unlock conversation. The PC sends a
  sealed request with a random token; the phone answers with the token and the password key, sealed under
  the key agreed at pairing. An operation is \<open>None\<close> when it does not return: the peer is silent, or
  \<open>dump\<close> throws in the thread. Each message is handled with a \<open>crypt_env\<close> of its own.
\<close>

section \<open>State\<close>

datatype UnlockConnectionState = CS_NONE | CS_HAS_DEVICE_ID | CS_HAS_UNLOCK_REQUEST | CS_HAS_UNLOCK_RESPONSE

record unlock_conn =
  uc_IsRunning :: bool
  uc_HasConnection :: bool
  uc_UnlockState :: UnlockState
  uc_PairedDevice :: PairedDevice
  uc_ResponseData :: PacketUnlockResponseData
  uc_ConnectionStates :: "int \<Rightarrow> UnlockConnectionState"   \<comment> \<open>\<open>operator[]\<close>: \<open>NONE\<close> when missing\<close>
  uc_AuthUser :: string
  uc_AuthProgram :: string
  uc_UnlockToken :: string

record 'j libs =
  lb_json :: "'j json_lib"
  lb_crypt :: crypt_lib
  lb_platform :: platform

text \<open>The constructor; the token is \<open>RandomString(64)\<close>.\<close>

definition new_unlock_conn :: "string \<Rightarrow> PairedDevice \<Rightarrow> unlock_conn" where
  "new_unlock_conn token device = \<lparr>uc_IsRunning = False, uc_HasConnection = False,
     uc_UnlockState = US_UNKNOWN, uc_PairedDevice = device, uc_ResponseData = empty_ResponseData,
     uc_ConnectionStates = (\<lambda>_. CS_NONE), uc_AuthUser = [], uc_AuthProgram = [], uc_UnlockToken = token\<rparr>"

definition SetUnlockInfo :: "string \<Rightarrow> string \<Rightarrow> unlock_conn \<Rightarrow> unlock_conn" where
  "SetUnlockInfo user program c = c\<lparr>uc_AuthUser := user, uc_AuthProgram := program\<rparr>"

definition set_state :: "UnlockState \<Rightarrow> unlock_conn \<Rightarrow> unlock_conn" where
  "set_state s c = c\<lparr>uc_UnlockState := s\<rparr>"

definition set_conn_state :: "int \<Rightarrow> UnlockConnectionState \<Rightarrow> unlock_conn \<Rightarrow> unlock_conn" where
  "set_conn_state k s c = c\<lparr>uc_ConnectionStates := (uc_ConnectionStates c)(k := s)\<rparr>"

lemma set_state_simps [simp]:
  "uc_UnlockState (set_state s c) = s" "uc_PairedDevice (set_state s c) = uc_PairedDevice c"
  "uc_ResponseData (set_state s c) = uc_ResponseData c" "uc_UnlockToken (set_state s c) = uc_UnlockToken c"
  "uc_ConnectionStates (set_state s c) = uc_ConnectionStates c" "uc_AuthUser (set_state s c) = uc_AuthUser c"
  "uc_AuthProgram (set_state s c) = uc_AuthProgram c" "uc_IsRunning (set_state s c) = uc_IsRunning c"
  "uc_HasConnection (set_state s c) = uc_HasConnection c"
  by (simp_all add: set_state_def)

lemma set_conn_state_simps [simp]:
  "uc_UnlockState (set_conn_state k s c) = uc_UnlockState c"
  "uc_PairedDevice (set_conn_state k s c) = uc_PairedDevice c"
  "uc_ResponseData (set_conn_state k s c) = uc_ResponseData c"
  "uc_UnlockToken (set_conn_state k s c) = uc_UnlockToken c"
  "uc_ConnectionStates (set_conn_state k s c) = (uc_ConnectionStates c)(k := s)"
  "uc_AuthUser (set_conn_state k s c) = uc_AuthUser c" "uc_AuthProgram (set_conn_state k s c) = uc_AuthProgram c"
  by (simp_all add: set_conn_state_def)

section \<open>The request\<close>

text \<open>The text of the request, or no text and an error state.\<close>

definition BuildUnlockRequestJson :: "'j libs \<Rightarrow> crypt_env \<Rightarrow> unlock_conn \<Rightarrow> (string option \<times> unlock_conn) option" where
  "BuildUnlockRequestJson lib e c = do {
     let encData = \<lparr>ud_user = uc_AuthUser c, ud_program = uc_AuthProgram c, ud_unlockToken = uc_UnlockToken c\<rparr>;
     encDataStr \<leftarrow> j_dump (lb_json lib) (UnlockRequestData_ToJson (lb_json lib) encData);
     cryptResult \<leftarrow> EncryptAESPacket (lb_crypt lib) e (bytes_of encDataStr) (pd_encryptionKey (uc_PairedDevice c));
     if cp_result cryptResult \<noteq> OK then Some (None, set_state US_UNK_ERROR c)
     else do {
       let requestPacket = \<lparr>uq_protoVersion = GetUnlockProtocolVersion, uq_deviceId = pd_id (uc_PairedDevice c),
         uq_encData = ToHexString (cl_hex (lb_crypt lib)) (cp_data cryptResult)\<rparr>;
       request \<leftarrow> j_dump (lb_json lib) (UnlockRequest_ToJson (lb_json lib) requestPacket);
       Some (Some request, c)
     }
   }"

definition write_error_state :: "PacketError \<Rightarrow> UnlockState" where
  "write_error_state e = (case e of PE_CLOSED_CONNECTION \<Rightarrow> US_CONNECT_ERROR | PE_TIMEOUT \<Rightarrow> US_TIMEOUT
     | _ \<Rightarrow> US_UNK_ERROR)"

definition SendUnlockRequest :: "'j libs \<Rightarrow> crypt_env \<Rightarrow> unlock_conn \<Rightarrow> sock \<Rightarrow> (bool \<times> unlock_conn \<times> sock) option" where
  "SendUnlockRequest lib e c s = do {
     (request, c) \<leftarrow> BuildUnlockRequestJson lib e c;
     case request of
       None \<Rightarrow> Some (False, c, s)
     | Some r \<Rightarrow> do {
         (writeResult, s) \<leftarrow> WritePacket (lb_platform lib) PACKET_ID_UNLOCK_REQUEST (bytes_of r) s;
         if writeResult \<noteq> PE_NONE then Some (False, set_state (write_error_state writeResult) c, s)
         else Some (True, c, s)
       }
   }"

section \<open>The response\<close>

definition error_state :: "string \<Rightarrow> UnlockState" where
  "error_state error =
     (if error = ''CANCEL'' then US_CANCELED
      else if error = ''NOT_PAIRED'' then US_NOT_PAIRED_ERROR
      else if error = ''APP_ERROR'' then US_APP_ERROR
      else if error = ''TIME_ERROR'' then US_TIME_ERROR
      else if error = ''DATA_ERROR'' then US_DATA_ERROR
      else if error = ''PROTOCOL_ERROR'' then US_PROTOCOL_ERROR
      else US_UNK_ERROR)"

definition ProcessUnlockResponseJson :: "'j libs \<Rightarrow> crypt_env \<Rightarrow> string \<Rightarrow> unlock_conn \<Rightarrow> unlock_conn option" where
  "ProcessUnlockResponseJson lib e respStr c =
     (case UnlockResponse_FromJson (lb_json lib) respStr of
        None \<Rightarrow> Some (set_state US_DATA_ERROR c)
      | Some responsePacket \<Rightarrow>
          if ur_error responsePacket \<noteq> [] then Some (set_state (error_state (ur_error responsePacket)) c)
          else do {
            let cryptData = FromHexString (cl_unhex (lb_crypt lib)) (ur_encData responsePacket);
            cryptResult \<leftarrow> DecryptAESPacket (lb_crypt lib) e cryptData (pd_encryptionKey (uc_PairedDevice c));
            if cp_result cryptResult \<noteq> OK then
              Some (set_state (if cp_result cryptResult = INVALID_TIMESTAMP then US_TIME_ERROR else US_DATA_ERROR) c)
            else case UnlockResponseData_FromJson (lb_json lib) (string_of (cp_data cryptResult)) of
              None \<Rightarrow> Some (set_state US_DATA_ERROR c)
            | Some dataPacket \<Rightarrow>
                (let c = c\<lparr>uc_ResponseData := dataPacket\<rparr> in
                 if rd_unlockToken dataPacket = uc_UnlockToken c then Some (set_state US_SUCCESS c)
                 else Some (set_state US_UNK_ERROR c))
          })"

definition OnResponseReceived :: "'j libs \<Rightarrow> crypt_env \<Rightarrow> Packet \<Rightarrow> unlock_conn \<Rightarrow> unlock_conn option" where
  "OnResponseReceived lib e packet c = ProcessUnlockResponseJson lib e (string_of (pk_data packet)) c"

section \<open>Packets\<close>

text \<open>\<open>lookup\<close> is \<open>PairedDevicesStorage::GetDeviceByID\<close>, \<open>k\<close> the socket.\<close>

definition OnPacketReceived :: "'j libs \<Rightarrow> crypt_env \<Rightarrow> (string \<Rightarrow> PairedDevice option) \<Rightarrow> int \<Rightarrow> Packet \<Rightarrow>
    unlock_conn \<Rightarrow> sock \<Rightarrow> (unlock_conn \<times> sock) option" where
  "OnPacketReceived lib e lookup k packet c s =
     (let connectionState = uc_ConnectionStates c k in
      if pk_id packet = PACKET_ID_DEVICE_ID \<and> connectionState \<noteq> CS_NONE then Some (c, s)
      else if pk_id packet = PACKET_ID_UNLOCK_RESPONSE \<and> connectionState \<noteq> CS_HAS_UNLOCK_REQUEST then Some (c, s)
      else if pk_id packet = PACKET_ID_DEVICE_ID then
        (case lookup (string_of (pk_data packet)) of
           None \<Rightarrow> Some (set_state US_DATA_ERROR c, s)
         | Some device \<Rightarrow> do {
             (sent, c, s) \<leftarrow> SendUnlockRequest lib e (c\<lparr>uc_PairedDevice := device\<rparr>) s;
             Some (if sent then set_conn_state k CS_HAS_UNLOCK_REQUEST c else c, s)
           })
      else if pk_id packet = PACKET_ID_UNLOCK_RESPONSE then do {
        c \<leftarrow> OnResponseReceived lib e packet c; Some (c, s) }
      else Some (c, s))"

text \<open>The loop of \<open>PerformAuthFlow\<close> ends because every packet read consumes input.\<close>

lemma header_loop_weight: "header_loop pf k rx = Some (e, rx') \<Longrightarrow> rx_weight rx' \<le> rx_weight rx \<and> (k < 8 \<longrightarrow> rx_weight rx' < rx_weight rx)"
proof (induction pf k rx rule: header_loop.induct)
  case (1 pf k rx)
  note unf = header_loop.simps [of pf k rx]
  show ?case
  proof (cases "k < 8")
    case False
    with "1.prems" show ?thesis by (simp add: unf)
  next
    case True
    then obtain res rx1 where r: "sock_read 1 rx = Some (res, rx1)"
      using "1.prems" by (auto simp: unf split: option.splits)
    have w: "rx_weight rx1 < rx_weight rx" using sock_read_weight [OF _ r] by simp
    show ?thesis
    proof (cases res)
      case (Inl f)
      obtain a b where f: "f = (a, b)" by fastforce
      show ?thesis
        using "1.IH"(1) [OF True r refl Inl f [symmetric] refl] "1.prems" True r Inl f w
        by (auto simp: unf Let_def split: if_splits)
    next
      case (Inr bs)
      show ?thesis
        using "1.IH"(2,3) [OF True r refl Inr] "1.prems" True r Inr w
        by (auto simp: unf split: if_splits)
    qed
  qed
qed

lemma read_loop_weight: "read_loop pf n buf rx = Some (r, rx') \<Longrightarrow> rx_weight rx' \<le> rx_weight rx"
proof (induction pf n buf rx rule: read_loop.induct)
  case (1 pf n buf rx)
  note unf = read_loop.simps [of pf n buf rx]
  show ?case
  proof (cases "length buf < n")
    case False
    with "1.prems" show ?thesis by (simp add: unf)
  next
    case True
    then obtain res rx1 where r: "sock_read (n - length buf) rx = Some (res, rx1)"
      using "1.prems" by (auto simp: unf split: option.splits)
    have w: "rx_weight rx1 < rx_weight rx" using sock_read_weight [OF _ r] True by simp
    show ?thesis
    proof (cases res)
      case (Inl f)
      obtain a b where f: "f = (a, b)" by fastforce
      show ?thesis
        using "1.IH"(1) [OF True r refl Inl f [symmetric] refl] "1.prems" True r Inl f w
        by (auto simp: unf Let_def split: if_splits)
    next
      case (Inr bs)
      show ?thesis
        using "1.IH"(2) [OF True r refl Inr] "1.prems" True r Inr w by (auto simp: unf)
    qed
  qed
qed

lemma ReadPacket_weight:
  assumes "ReadPacket pf s = Some (p, s')"
  shows "rx_weight (sk_rx s') < rx_weight (sk_rx s)" and "sk_out s' = sk_out s" and "sk_tx s' = sk_tx s"
proof -
  obtain rx where r: "ReadPacket_rx pf (sk_rx s) = Some (p, rx)" "s' = s\<lparr>sk_rx := rx\<rparr>"
    using assms by (auto simp: ReadPacket_def split: option.splits)
  then show "sk_out s' = sk_out s" "sk_tx s' = sk_tx s" by simp_all
  show "rx_weight (sk_rx s') < rx_weight (sk_rx s)"
    using r by (fastforce simp: ReadPacket_rx_def ReadData_def bind_eq_Some_conv Let_def
        split: if_splits dest!: header_loop_weight read_loop_weight)
qed

lemma ReadPacket_rx_weight: "ReadPacket_rx pf rx = Some (p, rx') \<Longrightarrow> rx_weight rx' < rx_weight rx"
  using ReadPacket_weight(1) [of pf "\<lparr>sk_rx = rx, sk_tx = [], sk_out = []\<rparr>"] by (simp add: ReadPacket_def)

section \<open>What is received\<close>

text \<open>The packets a reader takes from a stream, up to its first error.\<close>

function packets_of :: "platform \<Rightarrow> rx_event list \<Rightarrow> Packet list" where
  "packets_of pf rx =
     (case ReadPacket_rx pf rx of
        None \<Rightarrow> []
      | Some (p, rx') \<Rightarrow> if pk_error p \<noteq> PE_NONE then [] else p # packets_of pf rx')"
  by pat_completeness auto
termination
  by (relation "measure (\<lambda>(pf, rx). rx_weight rx)") (auto dest: ReadPacket_rx_weight)

declare packets_of.simps [simp del]

lemma packets_of_step:
  "ReadPacket pf s = Some (p, s') \<Longrightarrow> pk_error p = PE_NONE \<Longrightarrow> packets_of pf (sk_rx s) = p # packets_of pf (sk_rx s')"
  by (subst packets_of.simps) (auto simp: ReadPacket_def split: option.splits)

text \<open>The responses among them, with the number under which \<open>auth_loop\<close> handles the packet.\<close>

fun responses_from :: "nat \<Rightarrow> Packet list \<Rightarrow> (nat \<times> string) list" where
  "responses_from n [] = []"
| "responses_from n (p # ps) =
     (if pk_id p = PACKET_ID_UNLOCK_RESPONSE then [(n, string_of (pk_data p))] else []) @ responses_from (Suc n) ps"

definition responses :: "platform \<Rightarrow> rx_event list \<Rightarrow> (nat \<times> string) list" where
  "responses pf rx = responses_from 1 (packets_of pf rx)"

text \<open>The data of every packet has arrived on the stream, in one piece.\<close>

lemma sock_read_bytes:
  "sock_read n rx = Some (r, rx') \<Longrightarrow> (case r of Inl _ \<Rightarrow> rx_bytes rx' = rx_bytes rx | Inr bs \<Rightarrow> rx_bytes rx = bs @ rx_bytes rx')"
proof (induction n rx rule: sock_read.induct)
  case (4 n bs r)
  then show ?case by (cases "bs = []") (auto split: sum.splits)
qed auto

lemma read_loop_bytes:
  "read_loop pf n buf rx = Some ((e, d), rx') \<Longrightarrow> \<exists>c. rx_bytes rx = c @ rx_bytes rx' \<and> (e = PE_NONE \<longrightarrow> d = buf @ c)"
proof (induction pf n buf rx rule: read_loop.induct)
  case (1 pf n buf rx)
  note unf = read_loop.simps [of pf n buf rx]
  show ?case
  proof (cases "length buf < n")
    case False
    with "1.prems" show ?thesis by (simp add: unf)
  next
    case True
    then obtain res rx1 where r: "sock_read (n - length buf) rx = Some (res, rx1)"
      using "1.prems" by (auto simp: unf split: option.splits)
    note b = sock_read_bytes [OF r]
    show ?thesis
    proof (cases res)
      case (Inl f)
      obtain x y where f: "f = (x, y)" by fastforce
      show ?thesis
        using "1.IH"(1) [OF True r refl Inl f [symmetric] refl] "1.prems" True r Inl f b
        by (auto simp: unf Let_def split: if_splits)
    next
      case (Inr bs)
      then obtain c where "rx_bytes rx1 = c @ rx_bytes rx'" "e = PE_NONE \<longrightarrow> d = (buf @ bs) @ c"
        using "1.IH"(2) [OF True r refl Inr] "1.prems" True r by (auto simp: unf)
      then show ?thesis using b Inr by (intro exI [of _ "bs @ c"]) simp
    qed
  qed
qed

lemma header_loop_bytes: "header_loop pf k rx = Some (e, rx') \<Longrightarrow> \<exists>c. rx_bytes rx = c @ rx_bytes rx'"
proof (induction pf k rx rule: header_loop.induct)
  case (1 pf k rx)
  note unf = header_loop.simps [of pf k rx]
  show ?case
  proof (cases "k < 8")
    case False
    with "1.prems" show ?thesis by (simp add: unf)
  next
    case True
    then obtain res rx1 where r: "sock_read 1 rx = Some (res, rx1)"
      using "1.prems" by (auto simp: unf split: option.splits)
    note b = sock_read_bytes [OF r]
    show ?thesis
    proof (cases res)
      case (Inl f)
      obtain x y where f: "f = (x, y)" by fastforce
      show ?thesis
        using "1.IH"(1) [OF True r refl Inl f [symmetric] refl] "1.prems" True r Inl f b
        by (auto simp: unf Let_def split: if_splits)
    next
      case (Inr bs)
      then obtain c where "rx_bytes rx1 = c @ rx_bytes rx'"
        using "1.IH"(2,3) [OF True r refl Inr] "1.prems" True r by (auto simp: unf split: if_splits)
      then show ?thesis using b Inr by (intro exI [of _ "bs @ c"]) simp
    qed
  qed
qed

lemma ReadPacket_rx_bytes:
  assumes "ReadPacket_rx pf rx = Some (p, rx')"
  shows "\<exists>c. rx_bytes rx = c @ pk_data p @ rx_bytes rx'"
proof -
  obtain e r1 where 1: "header_loop pf 0 rx = Some (e, r1)"
    using assms by (auto simp: ReadPacket_rx_def bind_eq_Some_conv)
  obtain c1 where c1: "rx_bytes rx = c1 @ rx_bytes r1" using header_loop_bytes [OF 1] by blast
  show ?thesis
  proof (cases "e = PE_NONE")
    case False
    with assms 1 c1 show ?thesis by (auto simp: ReadPacket_rx_def packet_error_def)
  next
    case ok1: True
    then obtain e2 d2 r2 where 2: "ReadData pf 2 r1 = Some ((e2, d2), r2)"
      using assms 1 by (auto simp: ReadPacket_rx_def bind_eq_Some_conv)
    obtain c2 where c2: "rx_bytes r1 = c2 @ rx_bytes r2" using read_loop_bytes [OF 2 [unfolded ReadData_def]] by blast
    show ?thesis
    proof (cases "e2 \<noteq> PE_NONE \<or> length d2 \<noteq> 2")
      case True
      with assms ok1 1 2 c1 c2 show ?thesis by (auto simp: ReadPacket_rx_def packet_error_def)
    next
      case ok2: False
      then obtain e3 d3 r3 where 3: "ReadData pf 2 r2 = Some ((e3, d3), r3)"
        using assms ok1 1 2 by (auto simp: ReadPacket_rx_def bind_eq_Some_conv)
      obtain c3 where c3: "rx_bytes r2 = c3 @ rx_bytes r3" using read_loop_bytes [OF 3 [unfolded ReadData_def]] by blast
      show ?thesis
      proof (cases "e3 \<noteq> PE_NONE \<or> length d3 \<noteq> 2 \<or> un_be16 d3 = 0")
        case True
        with assms ok1 ok2 1 2 3 have "rx' = r3 \<and> pk_data p = []"
          by (auto simp: ReadPacket_rx_def packet_error_def split: if_splits)
        with c1 c2 c3 show ?thesis by simp
      next
        case ok3: False
        then obtain e4 d4 r4 where 4: "ReadData pf (unat (un_be16 d3)) r3 = Some ((e4, d4), r4)"
          using assms ok1 ok2 1 2 3 by (auto simp: ReadPacket_rx_def bind_eq_Some_conv Let_def)
        obtain c4 where c4: "rx_bytes r3 = c4 @ rx_bytes r4" "e4 = PE_NONE \<longrightarrow> d4 = c4"
          using read_loop_bytes [OF 4 [unfolded ReadData_def]] by auto
        from assms ok1 ok2 ok3 1 2 3 4 have "rx' = r4 \<and> (pk_data p = [] \<or> pk_data p = d4 \<and> e4 = PE_NONE)"
          by (auto simp: ReadPacket_rx_def packet_error_def split: if_splits)
        with c1 c2 c3 c4 show ?thesis by auto
      qed
    qed
  qed
qed

lemma packet_arrived: "p \<in> set (packets_of pf rx) \<Longrightarrow> sublist (pk_data p) (rx_bytes rx)"
proof (induction pf rx rule: packets_of.induct)
  case (1 pf rx)
  have "\<exists>q rx'. ReadPacket_rx pf rx = Some (q, rx') \<and> pk_error q = PE_NONE \<and> (p = q \<or> p \<in> set (packets_of pf rx'))"
    using "1.prems" by (cases "ReadPacket_rx pf rx") (auto simp: packets_of.simps [of pf rx] split: if_splits)
  then obtain q rx' where q: "ReadPacket_rx pf rx = Some (q, rx')" "pk_error q = PE_NONE" "p = q \<or> p \<in> set (packets_of pf rx')"
    by blast
  obtain c where c: "rx_bytes rx = c @ pk_data q @ rx_bytes rx'" using ReadPacket_rx_bytes [OF q(1)] by blast
  have "sublist (pk_data p) (rx_bytes rx')" if "p \<in> set (packets_of pf rx')" using "1.IH" q(1,2) that by blast
  then show ?case using q(3) c unfolding sublist_def by (metis append.assoc)
qed

lemma response_arrived: "(n, t) \<in> set (responses pf rx) \<Longrightarrow> sublist (bytes_of t) (rx_bytes rx)"
proof -
  have "\<exists>p \<in> set ps. t = string_of (pk_data p)" if "(n, t) \<in> set (responses_from m ps)" for m ps
    using that by (induction ps arbitrary: m) (auto split: if_splits)
  then show "(n, t) \<in> set (responses pf rx) \<Longrightarrow> ?thesis" using packet_arrived by (fastforce simp: responses_def)
qed

section \<open>The loop over the packets\<close>

text \<open>What sending a request does: on success the whole frame of one request has been written.\<close>

lemma BuildUnlockRequestJson_cases:
  "BuildUnlockRequestJson lib e c = Some (r, c') \<Longrightarrow>
   (\<exists>t. r = Some t \<and> c' = c) \<or> (r = None \<and> c' = set_state US_UNK_ERROR c)"
  by (auto simp: BuildUnlockRequestJson_def bind_eq_Some_conv Let_def split: if_splits)

lemma SendUnlockRequest_cases:
  assumes "SendUnlockRequest lib e c s = Some (b, c', s')"
  shows "sk_rx s' = sk_rx s \<and>
    (b \<and> c' = c \<and> (\<exists>req. sk_out s' = sk_out s @ frame PACKET_ID_UNLOCK_REQUEST req) \<or>
     \<not> b \<and> (\<exists>st. st \<noteq> US_SUCCESS \<and> st \<noteq> US_UNKNOWN \<and> c' = set_state st c) \<and> (\<exists>w. sk_out s' = sk_out s @ w))"
proof -
  obtain r c1 where 1: "BuildUnlockRequestJson lib e c = Some (r, c1)"
    using assms by (auto simp: SendUnlockRequest_def bind_eq_Some_conv)
  show ?thesis
  proof (cases r)
    case None
    with 1 assms BuildUnlockRequestJson_cases [OF 1] show ?thesis
      by (auto simp: SendUnlockRequest_def)
  next
    case (Some req)
    with BuildUnlockRequestJson_cases [OF 1] have c1: "c1 = c" by simp
    obtain we s1 where 2: "WritePacket (lb_platform lib) PACKET_ID_UNLOCK_REQUEST (bytes_of req) s = Some (we, s1)"
      using assms 1 Some by (auto simp: SendUnlockRequest_def bind_eq_Some_conv)
    have b: "b \<longleftrightarrow> we = PE_NONE" "c' = (if b then c else set_state (write_error_state we) c)" "s' = s1"
      using assms 1 2 Some c1 by (auto simp: SendUnlockRequest_def split: if_splits)
    obtain w where "sk_out s1 = sk_out s @ w" "sk_rx s1 = sk_rx s"
      using write_seq_prefix [OF 2 [unfolded WritePacket_seq]] by blast
    moreover have "we \<noteq> PE_NONE \<Longrightarrow> write_error_state we \<noteq> US_SUCCESS \<and> write_error_state we \<noteq> US_UNKNOWN"
      by (simp add: write_error_state_def split: PacketError.split)
    moreover have "we = PE_NONE \<Longrightarrow> sk_out s1 = sk_out s @ frame PACKET_ID_UNLOCK_REQUEST (bytes_of req)"
      using WritePacket_prefix' 2 by blast
    ultimately show ?thesis using b by auto
  qed
qed

lemma OnPacketReceived_rx:
  assumes "OnPacketReceived lib e lookup k p c s = Some (c', s')"
  shows "sk_rx s' = sk_rx s"
proof -
  have "sk_rx s1 = sk_rx s" if "SendUnlockRequest lib e d s = Some (b, c1, s1)" for d b c1 s1
    using SendUnlockRequest_cases [OF that] by blast
  with assms show ?thesis
    by (auto simp: OnPacketReceived_def Let_def bind_eq_Some_conv split: option.splits if_splits)
qed

text \<open>The \<open>n\<close>-th packet is handled with \<open>envs n\<close>. The result is the error that ended the loop.\<close>

function auth_loop :: "'j libs \<Rightarrow> (nat \<Rightarrow> crypt_env) \<Rightarrow> (string \<Rightarrow> PairedDevice option) \<Rightarrow> int \<Rightarrow> nat \<Rightarrow>
    unlock_conn \<Rightarrow> sock \<Rightarrow> (PacketError \<times> unlock_conn \<times> sock) option" where
  "auth_loop lib envs lookup k n c s =
     (case ReadPacket (lb_platform lib) s of
        None \<Rightarrow> None
      | Some (packet, s1) \<Rightarrow>
          if pk_error packet \<noteq> PE_NONE then Some (pk_error packet, c, s1)
          else (case OnPacketReceived lib (envs n) lookup k packet c s1 of
                  None \<Rightarrow> None
                | Some (c, s2) \<Rightarrow> auth_loop lib envs lookup k (Suc n) c s2))"
  by pat_completeness auto
termination
  by (relation "measure (\<lambda>(lib, envs, lookup, k, n, c, s). rx_weight (sk_rx s))")
    (auto dest!: ReadPacket_weight(1) OnPacketReceived_rx)

declare auth_loop.simps [simp del]

definition read_error_state :: "PacketError \<Rightarrow> UnlockState" where
  "read_error_state e = (case e of PE_CLOSED_CONNECTION \<Rightarrow> US_CONNECT_ERROR | PE_TIMEOUT \<Rightarrow> US_TIMEOUT
     | _ \<Rightarrow> US_DATA_ERROR)"

text \<open>Environment 0 is for the request that a client sends first.\<close>

definition PerformAuthFlow :: "'j libs \<Rightarrow> (nat \<Rightarrow> crypt_env) \<Rightarrow> (string \<Rightarrow> PairedDevice option) \<Rightarrow> int \<Rightarrow> bool \<Rightarrow>
    unlock_conn \<Rightarrow> sock \<Rightarrow> (unlock_conn \<times> sock) option" where
  "PerformAuthFlow lib envs lookup k needsDeviceID c s = do {
     let c = set_conn_state k (if needsDeviceID then CS_NONE else CS_HAS_DEVICE_ID) c;
     (sent, c, s) \<leftarrow> (if needsDeviceID then Some (True, c, s)
       else do {
         (sent, c, s) \<leftarrow> SendUnlockRequest lib (envs 0) c s;
         Some (sent, if sent then set_conn_state k CS_HAS_UNLOCK_REQUEST c else c, s) });
     if \<not> sent then Some (c, s)
     else do {
       (error, c, s) \<leftarrow> auth_loop lib envs lookup k 1 c s;
       Some (if uc_UnlockState c = US_UNKNOWN then set_state (read_error_state error) c else c, s)
     }
   }"

section \<open>What a response can do\<close>

text \<open>
  The specification of an accepted response: an authentic message under the device's key, with a stamp in
  the window, that carries the token of this attempt.
\<close>

definition good_response :: "'j libs \<Rightarrow> crypt_env \<Rightarrow> PairedDevice \<Rightarrow> string \<Rightarrow> string \<Rightarrow>
    PacketUnlockResponseData \<Rightarrow> bool" where
  "good_response lib e device token respStr d \<longleftrightarrow>
     (\<exists>r plain. UnlockResponse_FromJson (lb_json lib) respStr = Some r \<and> ur_error r = [] \<and>
        unseal (lb_crypt lib) (c_str (pd_encryptionKey device))
          (FromHexString (cl_unhex (lb_crypt lib)) (ur_encData r)) = Some plain \<and>
        8 < length plain \<and> in_window (ce_now e) (sint (un_be64 (take 8 plain))) \<and>
        UnlockResponseData_FromJson (lb_json lib) (string_of (drop 8 plain)) = Some d \<and>
        rd_unlockToken d = token)"

lemma error_state_not_success: "error_state x \<noteq> US_SUCCESS" "error_state x \<noteq> US_UNKNOWN"
  by (simp_all add: error_state_def)

lemma DecryptAESPacket_OK:
  assumes "crypt_laws L" and "DecryptAESPacket L e data pwd = Some r" and "cp_result r = OK"
  shows "\<exists>p. unseal L (c_str pwd) data = Some p \<and> 8 < length p \<and> cp_data r = drop 8 p \<and>
           in_window (ce_now e) (sint (un_be64 (take 8 p)))"
proof -
  obtain r' where r': "DecryptAESPacket L e data pwd = Some r'"
    "r' = crypt_error OTHER_ERROR \<or> (\<exists>p. unseal L (c_str pwd) data = Some p \<and> r' = open_stamped (ce_now e) p)"
    using DecryptAESPacket_result [OF assms(1), of e data pwd] by metis
  then have "r' = r" using assms(2) by simp
  with r'(2) assms(3) show ?thesis
    by (elim disjE exE conjE) (simp add: crypt_error_def, auto simp: open_stamped_cases)
qed

text \<open>The fields that handling a response leaves alone.\<close>

definition same_session :: "unlock_conn \<Rightarrow> unlock_conn \<Rightarrow> bool" where
  "same_session c c' \<longleftrightarrow> uc_PairedDevice c' = uc_PairedDevice c \<and> uc_UnlockToken c' = uc_UnlockToken c \<and>
     uc_ConnectionStates c' = uc_ConnectionStates c"

lemma ProcessUnlockResponseJson_cases:
  assumes "crypt_laws (lb_crypt lib)" and "ProcessUnlockResponseJson lib e respStr c = Some c'"
  shows "same_session c c' \<and> uc_UnlockState c' \<noteq> US_UNKNOWN \<and>
    (uc_UnlockState c' = US_SUCCESS \<longrightarrow>
       good_response lib e (uc_PairedDevice c) (uc_UnlockToken c) respStr (uc_ResponseData c'))"
proof (cases "UnlockResponse_FromJson (lb_json lib) respStr")
  case None
  with assms(2) show ?thesis by (auto simp: ProcessUnlockResponseJson_def same_session_def)
next
  case (Some r)
  show ?thesis
  proof (cases "ur_error r = []")
    case False
    with assms(2) Some show ?thesis
      by (auto simp: ProcessUnlockResponseJson_def same_session_def error_state_not_success)
  next
    case True
    let ?data = "FromHexString (cl_unhex (lb_crypt lib)) (ur_encData r)"
    obtain cr where cr: "DecryptAESPacket (lb_crypt lib) e ?data (pd_encryptionKey (uc_PairedDevice c)) = Some cr"
      using assms(2) Some True by (auto simp: ProcessUnlockResponseJson_def Let_def bind_eq_Some_conv)
    show ?thesis
    proof (cases "cp_result cr = OK")
      case False
      with assms(2) Some True cr show ?thesis
        by (auto simp: ProcessUnlockResponseJson_def same_session_def split: if_splits)
    next
      case ok: True
      note p = DecryptAESPacket_OK [OF assms(1) cr ok]
      show ?thesis
        using assms(2) Some True cr ok p
        by (auto simp: ProcessUnlockResponseJson_def same_session_def good_response_def Let_def split: option.splits if_splits)
    qed
  qed
qed

lemma ProcessUnlockResponseJson_returns:
  assumes "crypt_laws (lb_crypt lib)"
  shows "\<exists>c'. ProcessUnlockResponseJson lib e respStr c = Some c'"
proof -
  have d: "\<exists>r. DecryptAESPacket (lb_crypt lib) e d k = Some r" for d k
    using DecryptAESPacket_result [OF assms, of e d k] by blast
  show ?thesis
  proof (cases "UnlockResponse_FromJson (lb_json lib) respStr")
    case (Some r)
    obtain cr where "DecryptAESPacket (lb_crypt lib) e (FromHexString (cl_unhex (lb_crypt lib)) (ur_encData r))
      (pd_encryptionKey (uc_PairedDevice c)) = Some cr" using d by blast
    with Some show ?thesis by (simp add: ProcessUnlockResponseJson_def Let_def split: option.split)
  qed (simp add: ProcessUnlockResponseJson_def)
qed

section \<open>The invariant of a conversation\<close>

text \<open>
  \<open>sent0\<close> is what had been sent before, \<open>H\<close> the responses that the stream holds. The token never changes; a response counts only after a whole
  request frame; and \<open>SUCCESS\<close> means that an authentic response with the token was the last to set it.
\<close>

definition flow_inv :: "'j libs \<Rightarrow> (nat \<Rightarrow> crypt_env) \<Rightarrow> int \<Rightarrow> string \<Rightarrow> bytes \<Rightarrow> (nat \<times> string) set \<Rightarrow> unlock_conn \<Rightarrow> sock \<Rightarrow> bool" where
  "flow_inv lib envs k token sent0 H c s \<longleftrightarrow>
     uc_UnlockToken c = token \<and> (\<exists>w. sk_out s = sent0 @ w) \<and>
     (uc_ConnectionStates c k = CS_HAS_UNLOCK_REQUEST \<longrightarrow>
        (\<exists>pre req post. sk_out s = sent0 @ pre @ frame PACKET_ID_UNLOCK_REQUEST req @ post)) \<and>
     (uc_UnlockState c = US_SUCCESS \<longrightarrow>
        uc_ConnectionStates c k = CS_HAS_UNLOCK_REQUEST \<and>
        (\<exists>(n, respStr) \<in> H. good_response lib (envs n) (uc_PairedDevice c) token respStr (uc_ResponseData c)))"

lemma flow_inv_out:
  "flow_inv lib envs k token sent0 H c s \<Longrightarrow> sk_out s' = sk_out s @ w \<Longrightarrow> flow_inv lib envs k token sent0 H c s'"
  unfolding flow_inv_def by (metis append.assoc)

lemma flow_inv_error:
  "flow_inv lib envs k token sent0 H c s \<Longrightarrow> st \<noteq> US_SUCCESS \<Longrightarrow> flow_inv lib envs k token sent0 H (set_state st c) s"
  by (simp add: flow_inv_def)

lemma flow_inv_sent:
  assumes "flow_inv lib envs k token sent0 H c s" and "uc_UnlockState c \<noteq> US_SUCCESS"
    and "SendUnlockRequest lib e (c\<lparr>uc_PairedDevice := d\<rparr>) s = Some (b, c', s')"
  shows "flow_inv lib envs k token sent0 H (if b then set_conn_state k CS_HAS_UNLOCK_REQUEST c' else c') s'"
proof -
  let ?c = "c\<lparr>uc_PairedDevice := d\<rparr>"
  have inv: "flow_inv lib envs k token sent0 H ?c s" using assms(1,2) by (simp add: flow_inv_def)
  from SendUnlockRequest_cases [OF assms(3)] show ?thesis
  proof (elim conjE disjE exE)
    fix req assume b: "b" "c' = ?c" and o: "sk_out s' = sk_out s @ frame PACKET_ID_UNLOCK_REQUEST req"
    obtain w where "sk_out s = sent0 @ w" using inv by (auto simp: flow_inv_def)
    then have "sk_out s' = sent0 @ w @ frame PACKET_ID_UNLOCK_REQUEST req @ []" using o by simp
    with b assms(1,2) show ?thesis by (simp add: flow_inv_def) blast
  next
    fix st w assume b: "\<not> b" "st \<noteq> US_SUCCESS" "c' = set_state st ?c" "sk_out s' = sk_out s @ w"
    with flow_inv_out [OF flow_inv_error [OF inv b(2)] b(4)] show ?thesis by simp
  qed
qed

lemma flow_inv_packet:
  assumes laws: "crypt_laws (lb_crypt lib)" and inv: "flow_inv lib envs k token sent0 H c s"
    and run: "OnPacketReceived lib (envs n) lookup k p c s = Some (c', s')"
    and heard: "pk_id p = PACKET_ID_UNLOCK_RESPONSE \<Longrightarrow> (n, string_of (pk_data p)) \<in> H"
  shows "flow_inv lib envs k token sent0 H c' s'"
proof -
  let ?st = "uc_ConnectionStates c k"
  consider (ignored) "c' = c" "s' = s"
    | (device) "pk_id p = PACKET_ID_DEVICE_ID" "?st = CS_NONE"
    | (response) "pk_id p = PACKET_ID_UNLOCK_RESPONSE" "?st = CS_HAS_UNLOCK_REQUEST"
    using run by (auto simp: OnPacketReceived_def Let_def split: if_splits)
  then show ?thesis
  proof cases
    case ignored
    with inv show ?thesis by simp
  next
    case device
    then have ns: "uc_UnlockState c \<noteq> US_SUCCESS" using inv by (auto simp: flow_inv_def)
    show ?thesis
    proof (cases "lookup (string_of (pk_data p))")
      case None
      with device run inv show ?thesis
        by (auto simp: OnPacketReceived_def Let_def packet_ids intro: flow_inv_error)
    next
      case (Some d)
      then obtain b c1 s1 where "SendUnlockRequest lib (envs n) (c\<lparr>uc_PairedDevice := d\<rparr>) s = Some (b, c1, s1)"
        "c' = (if b then set_conn_state k CS_HAS_UNLOCK_REQUEST c1 else c1)" "s' = s1"
        using device run by (auto simp: OnPacketReceived_def Let_def packet_ids bind_eq_Some_conv)
      with flow_inv_sent [OF inv ns] show ?thesis by blast
    qed
  next
    case response
    then have r: "ProcessUnlockResponseJson lib (envs n) (string_of (pk_data p)) c = Some c'" "s' = s"
      using run by (auto simp: OnPacketReceived_def OnResponseReceived_def Let_def packet_ids bind_eq_Some_conv)
    with ProcessUnlockResponseJson_cases [OF laws r(1)] inv response heard show ?thesis
      by (auto simp: flow_inv_def same_session_def)
  qed
qed

lemma flow_inv_loop:
  "crypt_laws (lb_crypt lib) \<Longrightarrow> flow_inv lib envs k token sent0 H c s \<Longrightarrow> auth_loop lib envs lookup k n c s = Some (e, c', s') \<Longrightarrow>
    set (responses_from n (packets_of (lb_platform lib) (sk_rx s))) \<subseteq> H \<Longrightarrow> flow_inv lib envs k token sent0 H c' s'"
proof (induction lib envs lookup k n c s rule: auth_loop.induct)
  case (1 lib envs lookup k n c s)
  note unf = auth_loop.simps [of lib envs lookup k n c s]
  obtain p s1 where r: "ReadPacket (lb_platform lib) s = Some (p, s1)"
    using "1.prems"(3) by (auto simp: unf split: option.splits)
  have inv1: "flow_inv lib envs k token sent0 H c s1"
    using "1.prems"(2) ReadPacket_weight(2) [OF r] by (simp add: flow_inv_def)
  show ?case
  proof (cases "pk_error p = PE_NONE")
    case False
    with "1.prems"(3) r inv1 show ?thesis by (simp add: unf)
  next
    case True
    then obtain c2 s2 where o: "OnPacketReceived lib (envs n) lookup k p c s1 = Some (c2, s2)"
      using "1.prems"(3) r by (auto simp: unf split: option.splits)
    have heard: "(pk_id p = PACKET_ID_UNLOCK_RESPONSE \<longrightarrow> (n, string_of (pk_data p)) \<in> H) \<and>
        set (responses_from (Suc n) (packets_of (lb_platform lib) (sk_rx s2))) \<subseteq> H"
      using "1.prems"(4) packets_of_step [OF r True] OnPacketReceived_rx [OF o] by auto
    then have "flow_inv lib envs k token sent0 H c2 s2" using flow_inv_packet [OF "1.prems"(1) inv1 o] by blast
    moreover have "auth_loop lib envs lookup k (Suc n) c2 s2 = Some (e, c', s')"
      using "1.prems"(3) r True o by (simp add: unf)
    ultimately show ?thesis using "1.IH" [OF r refl _ o refl "1.prems"(1)] True heard by simp
  qed
qed

lemma read_error_state_not [simp]: "read_error_state e \<noteq> US_SUCCESS" "read_error_state e \<noteq> US_UNKNOWN"
  by (simp_all add: read_error_state_def split: PacketError.split)

text \<open>The two phases of \<open>PerformAuthFlow\<close>: the request of a client, then the packets.\<close>

lemma PerformAuthFlow_cases:
  assumes "PerformAuthFlow lib envs lookup k needsDeviceID c s = Some (c', s')"
  obtains b c1 s1 where
    "needsDeviceID \<and> b \<and> c1 = set_conn_state k CS_NONE c \<and> s1 = s \<or>
     \<not> needsDeviceID \<and> (\<exists>c0. SendUnlockRequest lib (envs 0) (set_conn_state k CS_HAS_DEVICE_ID c) s = Some (b, c0, s1) \<and>
        c1 = (if b then set_conn_state k CS_HAS_UNLOCK_REQUEST c0 else c0))"
    and "\<not> b \<and> c' = c1 \<and> s' = s1 \<or>
     b \<and> (\<exists>e c2. auth_loop lib envs lookup k 1 c1 s1 = Some (e, c2, s') \<and>
        c' = (if uc_UnlockState c2 = US_UNKNOWN then set_state (read_error_state e) c2 else c2))"
  using assms
  by (cases needsDeviceID) (auto simp: PerformAuthFlow_def Let_def bind_eq_Some_conv split: if_splits)

section \<open>Properties of the conversation\<close>

lemma PerformAuthFlow_authentic:
  assumes "crypt_laws (lb_crypt lib)" and "uc_UnlockState c \<noteq> US_SUCCESS"
    and "PerformAuthFlow lib envs lookup k needsDeviceID c s = Some (c', s')"
    and "uc_UnlockState c' = US_SUCCESS"
  shows "(\<exists>pre req post. sk_out s' = sk_out s @ pre @ frame PACKET_ID_UNLOCK_REQUEST req @ post) \<and>
         (\<exists>(n, respStr) \<in> set (responses (lb_platform lib) (sk_rx s)). sublist (bytes_of respStr) (rx_bytes (sk_rx s)) \<and>
            good_response lib (envs n) (uc_PairedDevice c') (uc_UnlockToken c) respStr (uc_ResponseData c'))"
proof -
  let ?inv = "flow_inv lib envs k (uc_UnlockToken c) (sk_out s) (set (responses (lb_platform lib) (sk_rx s)))"
  have inv: "?inv (set_conn_state k st c) s" if "st \<noteq> CS_HAS_UNLOCK_REQUEST" for st using assms(2) that by (simp add: flow_inv_def)
  from assms(3) have "?inv c' s'"
  proof (rule PerformAuthFlow_cases)
    fix b c1 s1
    assume start: "needsDeviceID \<and> b \<and> c1 = set_conn_state k CS_NONE c \<and> s1 = s \<or>
       \<not> needsDeviceID \<and> (\<exists>c0. SendUnlockRequest lib (envs 0) (set_conn_state k CS_HAS_DEVICE_ID c) s = Some (b, c0, s1) \<and>
          c1 = (if b then set_conn_state k CS_HAS_UNLOCK_REQUEST c0 else c0))"
      and rest: "\<not> b \<and> c' = c1 \<and> s' = s1 \<or>
       b \<and> (\<exists>e c2. auth_loop lib envs lookup k 1 c1 s1 = Some (e, c2, s') \<and>
          c' = (if uc_UnlockState c2 = US_UNKNOWN then set_state (read_error_state e) c2 else c2))"
    have same: "set_conn_state k st c\<lparr>uc_PairedDevice := uc_PairedDevice c\<rparr> = set_conn_state k st c" for st
      by (simp add: set_conn_state_def)
    have "?inv c1 s1"
      using start inv [of CS_NONE] flow_inv_sent [OF inv, of CS_HAS_DEVICE_ID "envs 0" "uc_PairedDevice c" b _ s1] assms(2)
      by (auto simp: same)
    moreover have "sk_rx s1 = sk_rx s" using start SendUnlockRequest_cases by blast
    ultimately have "?inv c2 s'" if "auth_loop lib envs lookup k 1 c1 s1 = Some (e, c2, s')" for e c2
      using flow_inv_loop [OF assms(1) _ that] by (simp add: responses_def)
    with rest \<open>?inv c1 s1\<close> show "?inv c' s'" by (auto intro!: flow_inv_error)
  qed
  with assms(4) show ?thesis using response_arrived by (fastforce simp: flow_inv_def)
qed

text \<open>
  C9: An unlock attempt that was not successful before ends in \<open>SUCCESS\<close> only if a whole unlock request was
  written to the phone and one of the packets read from the connection's stream was an authentic response: sealed under the
  paired device's key, stamped inside the two-minute window of the clock when this packet was handled, and carrying this
  attempt's token. Its bytes arrived on the stream, and the response data is what it contained.
\<close>

theorem unlock_success_authentic:
  assumes "crypt_laws (lb_crypt lib)" and "uc_UnlockState c \<noteq> US_SUCCESS"
    and "PerformAuthFlow lib envs lookup k needsDeviceID c s = Some (c', s')"
    and "uc_UnlockState c' = US_SUCCESS"
  shows "(\<exists>pre req post. sk_out s' = sk_out s @ pre @ frame PACKET_ID_UNLOCK_REQUEST req @ post) \<and>
         (\<exists>(n, respStr) \<in> set (responses (lb_platform lib) (sk_rx s)). sublist (bytes_of respStr) (rx_bytes (sk_rx s)) \<and>
            good_response lib (envs n) (uc_PairedDevice c') (uc_UnlockToken c) respStr (uc_ResponseData c'))"
  by (rule PerformAuthFlow_authentic [OF assms])

lemma PerformAuthFlow_decides:
  assumes "PerformAuthFlow lib envs lookup k needsDeviceID c s = Some (c', s')"
  shows "uc_UnlockState c' \<noteq> US_UNKNOWN"
  using assms
proof (rule PerformAuthFlow_cases)
  fix b c1 s1
  assume start: "needsDeviceID \<and> b \<and> c1 = set_conn_state k CS_NONE c \<and> s1 = s \<or>
     \<not> needsDeviceID \<and> (\<exists>c0. SendUnlockRequest lib (envs 0) (set_conn_state k CS_HAS_DEVICE_ID c) s = Some (b, c0, s1) \<and>
        c1 = (if b then set_conn_state k CS_HAS_UNLOCK_REQUEST c0 else c0))"
    and rest: "\<not> b \<and> c' = c1 \<and> s' = s1 \<or>
     b \<and> (\<exists>e c2. auth_loop lib envs lookup k 1 c1 s1 = Some (e, c2, s') \<and>
        c' = (if uc_UnlockState c2 = US_UNKNOWN then set_state (read_error_state e) c2 else c2))"
  from start have "\<not> b \<Longrightarrow> uc_UnlockState c1 \<noteq> US_UNKNOWN"
    by (auto dest!: SendUnlockRequest_cases)
  moreover have "uc_UnlockState (if uc_UnlockState c2 = US_UNKNOWN then set_state (read_error_state e) c2 else c2)
      \<noteq> US_UNKNOWN" for e c2 by simp
  ultimately show ?thesis using rest by metis
qed

text \<open>When both directions of a connection come to an end and \<open>dump\<close> does not throw, the conversation comes to an end.\<close>

definition dumps_all :: "'j libs \<Rightarrow> bool" where
  "dumps_all lib \<longleftrightarrow> (\<forall>v. \<exists>t. j_dump (lb_json lib) v = Some t)"

lemma SendUnlockRequest_returns:
  assumes "crypt_laws (lb_crypt lib)" and "env_ok e" and "dumps_all lib" and "0 < tx_ends (sk_tx s)"
  shows "\<exists>b c' s'. SendUnlockRequest lib e c s = Some (b, c', s') \<and> tx_ends (sk_tx s) \<le> tx_ends (sk_tx s') + 1"
proof -
  have d: "\<exists>t. j_dump (lb_json lib) v = Some t" for v using assms(3) by (simp add: dumps_all_def)
  obtain t where t: "j_dump (lb_json lib) (UnlockRequestData_ToJson (lb_json lib)
      \<lparr>ud_user = uc_AuthUser c, ud_program = uc_AuthProgram c, ud_unlockToken = uc_UnlockToken c\<rparr>) = Some t" using d by blast
  obtain r where r: "EncryptAESPacket (lb_crypt lib) e (bytes_of t) (pd_encryptionKey (uc_PairedDevice c)) = Some r"
    using EncryptAESPacket_result [OF assms(1,2)] by blast
  obtain q where q: "j_dump (lb_json lib) (UnlockRequest_ToJson (lb_json lib) \<lparr>uq_protoVersion = GetUnlockProtocolVersion,
      uq_deviceId = pd_id (uc_PairedDevice c), uq_encData = ToHexString (cl_hex (lb_crypt lib)) (cp_data r)\<rparr>) = Some q" using d by blast
  obtain we s' where w: "WritePacket (lb_platform lib) PACKET_ID_UNLOCK_REQUEST (bytes_of q) s = Some (we, s')"
    "tx_ends (sk_tx s) \<le> tx_ends (sk_tx s') + 1" using WritePacket_returns [OF assms(4)] by blast
  show ?thesis
    using t r q w by (cases "cp_result r = OK"; cases "we = PE_NONE") (auto simp: SendUnlockRequest_def BuildUnlockRequestJson_def Let_def)
qed

lemma OnPacketReceived_returns:
  assumes "crypt_laws (lb_crypt lib)" and "env_ok e" and "dumps_all lib" and "0 < tx_ends (sk_tx s)"
  shows "\<exists>c' s'. OnPacketReceived lib e lookup k p c s = Some (c', s') \<and> tx_ends (sk_tx s) \<le> tx_ends (sk_tx s') + 1"
proof -
  have send: "\<exists>b d' s'. SendUnlockRequest lib e d s = Some (b, d', s') \<and> tx_ends (sk_tx s) \<le> tx_ends (sk_tx s') + 1" for d
    using SendUnlockRequest_returns [OF assms] .
  have reply: "\<exists>c'. OnResponseReceived lib e p c = Some c'"
    using ProcessUnlockResponseJson_returns [OF assms(1)] by (simp add: OnResponseReceived_def)
  show ?thesis
  proof (cases "lookup (string_of (pk_data p))")
    case None
    with reply show ?thesis by (auto simp: OnPacketReceived_def Let_def packet_ids)
  next
    case (Some d)
    obtain b d' s' where "SendUnlockRequest lib e (c\<lparr>uc_PairedDevice := d\<rparr>) s = Some (b, d', s')"
      "tx_ends (sk_tx s) \<le> tx_ends (sk_tx s') + 1" using send by blast
    with Some reply show ?thesis by (auto simp: OnPacketReceived_def Let_def packet_ids)
  qed
qed

lemma auth_loop_returns:
  "crypt_laws (lb_crypt lib) \<Longrightarrow> \<forall>n. env_ok (envs n) \<Longrightarrow> dumps_all lib \<Longrightarrow> \<not> quiet (sk_rx s) \<Longrightarrow>
   length (packets_of (lb_platform lib) (sk_rx s)) \<le> tx_ends (sk_tx s) \<Longrightarrow> \<exists>r. auth_loop lib envs lookup k n c s = Some r"
proof (induction lib envs lookup k n c s rule: auth_loop.induct)
  case (1 lib envs lookup k n c s)
  note unf = auth_loop.simps [of lib envs lookup k n c s]
  obtain p rx where "ReadPacket_rx (lb_platform lib) (sk_rx s) = Some (p, rx)" "pk_error p = PE_NONE \<longrightarrow> \<not> quiet rx"
    using ReadPacket_rx_returns [OF "1.prems"(4)] by blast
  then obtain s1 where r: "ReadPacket (lb_platform lib) s = Some (p, s1)" "pk_error p = PE_NONE \<longrightarrow> \<not> quiet (sk_rx s1)"
    by (simp add: ReadPacket_def)
  show ?case
  proof (cases "pk_error p = PE_NONE")
    case False
    with r show ?thesis by (simp add: unf)
  next
    case True
    have tx: "sk_tx s1 = sk_tx s" by (rule ReadPacket_weight(3) [OF r(1)])
    have n: "Suc (length (packets_of (lb_platform lib) (sk_rx s1))) \<le> tx_ends (sk_tx s1)"
      using "1.prems"(5) packets_of_step [OF r(1) True] tx by simp
    then have pos: "0 < tx_ends (sk_tx s1)" by simp
    have env: "env_ok (envs n)" using "1.prems"(2) by simp
    obtain c2 s2 where o: "OnPacketReceived lib (envs n) lookup k p c s1 = Some (c2, s2)" "tx_ends (sk_tx s1) \<le> tx_ends (sk_tx s2) + 1"
      using OnPacketReceived_returns [OF "1.prems"(1) env "1.prems"(3) pos] by blast
    have "sk_rx s2 = sk_rx s1" by (rule OnPacketReceived_rx [OF o(1)])
    then have "\<exists>r. auth_loop lib envs lookup k (Suc n) c2 s2 = Some r"
      using "1.IH" [OF r(1) refl _ o(1) refl "1.prems"(1-3)] True r(2) n o(2) by simp
    then show ?thesis using r(1) True o(1) by (simp add: unf)
  qed
qed


text \<open>
  Error replies are not authenticated: on a connection that has sent its request, any message that
  parses to an error decides the state by that error alone, even after a success, and no key is involved.
\<close>

theorem error_reply_unauthenticated:
  assumes "uc_ConnectionStates c k = CS_HAS_UNLOCK_REQUEST" and "pk_id p = PACKET_ID_UNLOCK_RESPONSE"
    and "UnlockResponse_FromJson (lb_json lib) (string_of (pk_data p)) = Some r" and "ur_error r \<noteq> []"
  shows "OnPacketReceived lib e lookup k p c s = Some (set_state (error_state (ur_error r)) c, s)"
  using assms by (simp add: OnPacketReceived_def OnResponseReceived_def ProcessUnlockResponseJson_def packet_ids)

section \<open>An honest phone\<close>

lemma SendUnlockRequest_succeeds:
  assumes "crypt_laws (lb_crypt lib)" and "all_succeed e"
    and "j_dump (lb_json lib) (UnlockRequestData_ToJson (lb_json lib)
          \<lparr>ud_user = uc_AuthUser c, ud_program = uc_AuthProgram c, ud_unlockToken = uc_UnlockToken c\<rparr>) = Some d"
    and "length d \<le> 1992"
    and "\<forall>h. length h \<le> 4096 \<longrightarrow> (\<exists>req. j_dump (lb_json lib) (UnlockRequest_ToJson (lb_json lib)
          \<lparr>uq_protoVersion = GetUnlockProtocolVersion, uq_deviceId = pd_id (uc_PairedDevice c), uq_encData = h\<rparr>) = Some req \<and>
          12 + length req \<le> rooms (sk_tx s))"
  shows "\<exists>s'. SendUnlockRequest lib e c s = Some (True, c, s') \<and> sk_rx s' = sk_rx s"
proof -
  obtain sealed where seal: "EncryptAESPacket (lb_crypt lib) e (bytes_of d) (pd_encryptionKey (uc_PairedDevice c)) =
      Some \<lparr>cp_result = OK, cp_data = sealed\<rparr>"
    using decrypt_of_encrypt [OF assms(1,2,2) refl, of "bytes_of d"] assms(4) by auto
  have "length sealed = length d + 56"
    using EncryptAESPacket_result [OF assms(1) all_succeed_codes [OF assms(2), THEN conjunct2],
        of "bytes_of d" "pd_encryptionKey (uc_PairedDevice c)"] seal
      unseal_sealed_packet(2) [OF assms(1,2)]
    by (auto simp: crypt_error_def split: if_splits)
  then have "length (ToHexString (cl_hex (lb_crypt lib)) sealed) \<le> 4096"
    using assms(4) by (simp add: ToHexString_def crypt_lawsD [OF assms(1)])
  then obtain req where req: "j_dump (lb_json lib) (UnlockRequest_ToJson (lb_json lib)
      \<lparr>uq_protoVersion = GetUnlockProtocolVersion, uq_deviceId = pd_id (uc_PairedDevice c),
       uq_encData = ToHexString (cl_hex (lb_crypt lib)) sealed\<rparr>) = Some req" "12 + length req \<le> rooms (sk_tx s)"
    using assms(5) by blast
  obtain s' where "WritePacket (lb_platform lib) PACKET_ID_UNLOCK_REQUEST (bytes_of req) s = Some (PE_NONE, s')"
    "sk_rx s' = sk_rx s"
    using WritePacket_live [of "bytes_of req" s "lb_platform lib"] req(2) by auto
  with seal req(1) assms(3) show ?thesis
    by (simp add: SendUnlockRequest_def BuildUnlockRequestJson_def Let_def)
qed

lemma good_reply_succeeds:
  assumes "crypt_laws (lb_crypt lib)" and "json_laws (lb_json lib)" and "all_succeed e" and "all_succeed ep"
    and "int64_time (ce_now ep)" and "int64_time (ce_now e)" and "\<bar>ce_now e - ce_now ep\<bar> \<le> CRYPT_PACKET_TIMEOUT"
    and "j_dump (lb_json lib) (phone_response_data_json (lb_json lib) d) = Some dtext"
    and "dtext \<noteq> []" and "length dtext \<le> 1992"
    and "EncryptAESPacket (lb_crypt lib) ep (bytes_of dtext) (pd_encryptionKey (uc_PairedDevice c)) =
          Some \<lparr>cp_result = OK, cp_data = sealed\<rparr>"
    and "j_dump (lb_json lib) (phone_response_json (lb_json lib)
          \<lparr>ur_error = [], ur_encData = cl_hex (lb_crypt lib) sealed\<rparr>) = Some reply"
    and "rd_unlockToken d = uc_UnlockToken c"
  shows "ProcessUnlockResponseJson lib e reply c = Some (set_state US_SUCCESS (c\<lparr>uc_ResponseData := d\<rparr>))"
proof -
  have parse: "UnlockResponse_FromJson (lb_json lib) reply =
      Some \<lparr>ur_error = [], ur_encData = cl_hex (lb_crypt lib) sealed\<rparr>"
    by (rule UnlockResponse_parse [OF assms(2,12)])
  have hex: "FromHexString (cl_unhex (lb_crypt lib)) (cl_hex (lb_crypt lib) sealed) = sealed"
    by (simp add: FromHexString_def crypt_lawsD [OF assms(1)])
  have "bytes_of dtext \<noteq> []" "length (bytes_of dtext) \<le> 1992" using assms(9,10) by simp_all
  then have dec: "DecryptAESPacket (lb_crypt lib) e sealed (pd_encryptionKey (uc_PairedDevice c)) =
      Some \<lparr>cp_result = OK, cp_data = bytes_of dtext\<rparr>"
    using decrypt_of_encrypt [OF assms(1,4,3) refl, of "bytes_of dtext" "pd_encryptionKey (uc_PairedDevice c)"]
      assms(7,11) open_stamped_sealed [OF assms(5,6), of "bytes_of dtext"] by simp
  show ?thesis
    using parse hex dec UnlockResponseData_parse [OF assms(2,8)] assms(13)
    by (simp add: ProcessUnlockResponseJson_def Let_def)
qed

lemma rx_then_eof:
  assumes "ReadPacket_rx pf rx = Some (p, rx')" and "quiet rx'" and "rx_bytes rx' = []"
  shows "ReadPacket pf (s\<lparr>sk_rx := rx @ [RxEof]\<rparr>) = Some (p, s\<lparr>sk_rx := rx' @ [RxEof]\<rparr>)"
    and "ReadPacket pf (s\<lparr>sk_rx := rx' @ [RxEof]\<rparr>) = Some (packet_error PE_CLOSED_CONNECTION, s\<lparr>sk_rx := []\<rparr>)"
  using ReadPacket_rx_append [OF assms(1), of "[RxEof]"] header_loop_eof [OF assms(2,3), of pf "[]"]
  by (simp_all add: ReadPacket_def ReadPacket_rx_def)

lemma honest_phone_flow:
  assumes "crypt_laws (lb_crypt lib)" and "json_laws (lb_json lib)" and "\<forall>n. all_succeed (envs n)"
    and "uc_UnlockState c = US_UNKNOWN"
    \<comment> \<open>the request can be built and sent\<close>
    and "j_dump (lb_json lib) (UnlockRequestData_ToJson (lb_json lib)
          \<lparr>ud_user = uc_AuthUser c, ud_program = uc_AuthProgram c, ud_unlockToken = uc_UnlockToken c\<rparr>) = Some rq"
    and "length rq \<le> 1992"
    and "\<forall>h. length h \<le> 4096 \<longrightarrow> (\<exists>req. j_dump (lb_json lib) (UnlockRequest_ToJson (lb_json lib)
          \<lparr>uq_protoVersion = GetUnlockProtocolVersion, uq_deviceId = pd_id (uc_PairedDevice c), uq_encData = h\<rparr>) = Some req \<and>
          12 + length req \<le> rooms (sk_tx s))"
    \<comment> \<open>the phone's answer\<close>
    and "all_succeed ep" and "int64_time (ce_now ep)" and "int64_time (ce_now (envs 1))"
    and "\<bar>ce_now (envs 1) - ce_now ep\<bar> \<le> CRYPT_PACKET_TIMEOUT"
    and "rd_unlockToken d = uc_UnlockToken c"
    and "j_dump (lb_json lib) (phone_response_data_json (lb_json lib) d) = Some dtext"
    and "dtext \<noteq> []" and "length dtext \<le> 1992"
    and "EncryptAESPacket (lb_crypt lib) ep (bytes_of dtext) (pd_encryptionKey (uc_PairedDevice c)) =
          Some \<lparr>cp_result = OK, cp_data = sealed\<rparr>"
    and "j_dump (lb_json lib) (phone_response_json (lb_json lib)
          \<lparr>ur_error = [], ur_encData = cl_hex (lb_crypt lib) sealed\<rparr>) = Some reply"
    and "reply \<noteq> []" and "length reply < 65536"
    \<comment> \<open>what arrives\<close>
    and "sk_rx s = rx @ [RxEof]" and "quiet rx"
    and "rx_bytes rx = frame PACKET_ID_UNLOCK_RESPONSE (bytes_of reply)"
  shows "\<exists>c' s'. PerformAuthFlow lib envs lookup k False c s = Some (c', s') \<and>
           uc_UnlockState c' = US_SUCCESS \<and> uc_ResponseData c' = d"
proof -
  let ?c0 = "set_conn_state k CS_HAS_DEVICE_ID c"
  obtain s1 where send: "SendUnlockRequest lib (envs 0) ?c0 s = Some (True, ?c0, s1)" "sk_rx s1 = sk_rx s"
    using SendUnlockRequest_succeeds [of lib "envs 0" ?c0 rq s] assms by auto
  let ?c1 = "set_conn_state k CS_HAS_UNLOCK_REQUEST ?c0"
  let ?p = "\<lparr>pk_error = PE_NONE, pk_id = PACKET_ID_UNLOCK_RESPONSE, pk_data = bytes_of reply\<rparr>"
  have "bytes_of reply \<noteq> []" "length (bytes_of reply) < 65536" using assms by simp_all
  then obtain rx' where rx': "ReadPacket_rx (lb_platform lib) rx = Some (?p, rx')" "quiet rx'" "rx_bytes rx' = []"
    using ReadPacket_frame' [of rx PACKET_ID_UNLOCK_RESPONSE "bytes_of reply" "[]" "lb_platform lib"] assms by auto
  have "s1 = s1\<lparr>sk_rx := rx @ [RxEof]\<rparr>" using send(2) assms(20) by simp
  then have r1: "ReadPacket (lb_platform lib) s1 = Some (?p, s1\<lparr>sk_rx := rx' @ [RxEof]\<rparr>)"
    and r2: "ReadPacket (lb_platform lib) (s1\<lparr>sk_rx := rx' @ [RxEof]\<rparr>) =
        Some (packet_error PE_CLOSED_CONNECTION, s1\<lparr>sk_rx := []\<rparr>)"
    using rx_then_eof [OF rx', of s1] by simp_all
  let ?c2 = "set_state US_SUCCESS (?c1\<lparr>uc_ResponseData := d\<rparr>)"
  have "ProcessUnlockResponseJson lib (envs 1) reply ?c1 = Some ?c2"
    using good_reply_succeeds [OF assms(1,2) spec [OF assms(3)] assms(8,9,10,11,13,14,15), of ?c1 sealed reply]
      assms(12,16,17) by simp
  then have o: "OnPacketReceived lib (envs 1) lookup k ?p ?c1 (s1\<lparr>sk_rx := rx' @ [RxEof]\<rparr>) =
      Some (?c2, s1\<lparr>sk_rx := rx' @ [RxEof]\<rparr>)"
    by (simp add: OnPacketReceived_def OnResponseReceived_def packet_ids)
  have "auth_loop lib envs lookup k 1 ?c1 s1 = Some (PE_CLOSED_CONNECTION, ?c2, s1\<lparr>sk_rx := []\<rparr>)"
    using r1 r2 o by (simp add: auth_loop.simps [of lib envs lookup k _ _ s1]
        auth_loop.simps [of lib envs lookup k _ _ "s1\<lparr>sk_rx := rx' @ [RxEof]\<rparr>"] packet_error_def)
  then show ?thesis using send(1) by (simp add: PerformAuthFlow_def Let_def)
qed

text \<open>
  C10: An honest phone unlocks the PC: when it answers the request with the token and the password key,
  sealed under the paired key with a clock at most two minutes off, and its answer arrives in any pieces
  before it closes the connection, the attempt ends in \<open>SUCCESS\<close> with exactly that response data.
\<close>

theorem honest_phone_unlocks:
  assumes "crypt_laws (lb_crypt lib)" and "json_laws (lb_json lib)" and "\<forall>n. all_succeed (envs n)"
    and "uc_UnlockState c = US_UNKNOWN"
    \<comment> \<open>the request can be built and sent\<close>
    and "j_dump (lb_json lib) (UnlockRequestData_ToJson (lb_json lib)
          \<lparr>ud_user = uc_AuthUser c, ud_program = uc_AuthProgram c, ud_unlockToken = uc_UnlockToken c\<rparr>) = Some rq"
    and "length rq \<le> 1992"
    and "\<forall>h. length h \<le> 4096 \<longrightarrow> (\<exists>req. j_dump (lb_json lib) (UnlockRequest_ToJson (lb_json lib)
          \<lparr>uq_protoVersion = GetUnlockProtocolVersion, uq_deviceId = pd_id (uc_PairedDevice c), uq_encData = h\<rparr>) = Some req \<and>
          12 + length req \<le> rooms (sk_tx s))"
    \<comment> \<open>the phone's answer\<close>
    and "all_succeed ep" and "int64_time (ce_now ep)" and "int64_time (ce_now (envs 1))"
    and "\<bar>ce_now (envs 1) - ce_now ep\<bar> \<le> CRYPT_PACKET_TIMEOUT"
    and "rd_unlockToken d = uc_UnlockToken c"
    and "j_dump (lb_json lib) (phone_response_data_json (lb_json lib) d) = Some dtext"
    and "dtext \<noteq> []" and "length dtext \<le> 1992"
    and "EncryptAESPacket (lb_crypt lib) ep (bytes_of dtext) (pd_encryptionKey (uc_PairedDevice c)) =
          Some \<lparr>cp_result = OK, cp_data = sealed\<rparr>"
    and "j_dump (lb_json lib) (phone_response_json (lb_json lib)
          \<lparr>ur_error = [], ur_encData = cl_hex (lb_crypt lib) sealed\<rparr>) = Some reply"
    and "reply \<noteq> []" and "length reply < 65536"
    \<comment> \<open>what arrives\<close>
    and "sk_rx s = rx @ [RxEof]" and "quiet rx"
    and "rx_bytes rx = frame PACKET_ID_UNLOCK_RESPONSE (bytes_of reply)"
  shows "\<exists>c' s'. PerformAuthFlow lib envs lookup k False c s = Some (c', s') \<and>
           uc_UnlockState c' = US_SUCCESS \<and> uc_ResponseData c' = d"
  using assms by (rule honest_phone_flow)

section \<open>Witnesses\<close>

definition demo_libs :: "jval libs" where
  "demo_libs = \<lparr>lb_json = toy_json, lb_crypt = toy_crypt, lb_platform = Linux\<rparr>"

definition demo_conn :: unlock_conn where
  "demo_conn = new_unlock_conn ''tok'' (demo_device ''1'')"

definition demo_data :: PacketUnlockResponseData where
  "demo_data = \<lparr>rd_unlockToken = ''tok'', rd_passwordKey = ''k''\<rparr>"

definition demo_sealed :: bytes where
  "demo_sealed = seal toy_crypt (replicate 16 7) (replicate 16 9) []
     (be64 0 @ bytes_of (put_val (phone_response_data_json toy_json demo_data)))"

definition demo_reply :: string where
  "demo_reply = put_val (phone_response_json toy_json \<lparr>ur_error = [], ur_encData = toy_hex demo_sealed\<rparr>)"

lemma length_toy_hex: "length (toy_hex b) = 2 * length b"
  using crypt_lawsD(6) [OF toy_crypt_laws, of b] by (simp add: toy_crypt_def)

lemma demo_data_text: "length (put_val (phone_response_data_json toy_json demo_data)) \<le> 1000"
  by (simp add: phone_response_data_json_def toy_json_def demo_data_def length_put_str)

lemma demo_sealed_packet:
  "EncryptAESPacket toy_crypt (demo_env 0) (bytes_of (put_val (phone_response_data_json toy_json demo_data))) [] =
     Some \<lparr>cp_result = OK, cp_data = demo_sealed\<rparr>"
  using EncryptAESPacket_result [OF toy_crypt_laws, of "demo_env 0"
      "bytes_of (put_val (phone_response_data_json toy_json demo_data))" "[]"] demo_data_text
    all_succeed_codes [of "demo_env 0"]
  by (simp add: demo_sealed_def c_str_def)

lemma demo_sealed_length: "length demo_sealed \<le> 1100"
  using demo_data_text length_seal [OF toy_crypt_laws, of "replicate 16 7" "replicate 16 9" "[]"]
  by (simp add: demo_sealed_def)

lemma demo_reply_length: "demo_reply \<noteq> []" "length demo_reply < 65536"
  using demo_sealed_length
  by (simp_all add: demo_reply_def phone_response_json_def toy_json_def length_put_str length_toy_hex)

definition demo_sock :: "rx_event list \<Rightarrow> sock" where
  "demo_sock rx = \<lparr>sk_rx = rx, sk_tx = [], sk_out = []\<rparr>"

lemma error_reply_unauthenticated_witness:
  "OnPacketReceived demo_libs (demo_env 0) (\<lambda>_. None) 5
     \<lparr>pk_error = PE_NONE, pk_id = PACKET_ID_UNLOCK_RESPONSE,
      pk_data = bytes_of (put_val (phone_response_json toy_json \<lparr>ur_error = ''CANCEL'', ur_encData = []\<rparr>))\<rparr>
     (set_state US_SUCCESS (set_conn_state 5 CS_HAS_UNLOCK_REQUEST demo_conn)) (demo_sock []) =
   Some (set_state US_CANCELED (set_state US_SUCCESS (set_conn_state 5 CS_HAS_UNLOCK_REQUEST demo_conn)), demo_sock [])"
  using error_reply_unauthenticated [of "set_state US_SUCCESS (set_conn_state 5 CS_HAS_UNLOCK_REQUEST demo_conn)" 5
      "\<lparr>pk_error = PE_NONE, pk_id = PACKET_ID_UNLOCK_RESPONSE,
        pk_data = bytes_of (put_val (phone_response_json toy_json \<lparr>ur_error = ''CANCEL'', ur_encData = []\<rparr>))\<rparr>"
      demo_libs "\<lparr>ur_error = ''CANCEL'', ur_encData = []\<rparr>" "demo_env 0" "\<lambda>_. None" "demo_sock []"]
    UnlockResponse_parse [OF toy_json_laws demo_dump, of "\<lparr>ur_error = ''CANCEL'', ur_encData = []\<rparr>"]
  by (simp add: demo_libs_def error_state_def)

lemma rooms_replicate: "rooms (replicate n (TxRoom (Suc 0))) = n"
  by (induction n) simp_all

definition demo_phone_sock :: sock where
  "demo_phone_sock = \<lparr>sk_rx = [RxData (frame PACKET_ID_UNLOCK_RESPONSE (bytes_of demo_reply))] @ [RxEof],
     sk_tx = replicate 20000 (TxRoom 1), sk_out = []\<rparr>"

lemma demo_conn_fields:
  "uc_UnlockState demo_conn = US_UNKNOWN" "uc_AuthUser demo_conn = []" "uc_AuthProgram demo_conn = []"
  "uc_UnlockToken demo_conn = ''tok''" "pd_encryptionKey (uc_PairedDevice demo_conn) = []"
  "pd_id (uc_PairedDevice demo_conn) = ''1''"
  by (simp_all add: demo_conn_def new_unlock_conn_def demo_device_def empty_device_def)

lemma demo_phone:
  shows "crypt_laws (lb_crypt demo_libs)" and "json_laws (lb_json demo_libs)" and "\<forall>n. all_succeed (demo_env 0)"
    and "uc_UnlockState demo_conn = US_UNKNOWN"
    and "j_dump (lb_json demo_libs) (UnlockRequestData_ToJson (lb_json demo_libs)
      \<lparr>ud_user = uc_AuthUser demo_conn, ud_program = uc_AuthProgram demo_conn, ud_unlockToken = uc_UnlockToken demo_conn\<rparr>) =
      Some (put_val (UnlockRequestData_ToJson toy_json \<lparr>ud_user = [], ud_program = [], ud_unlockToken = ''tok''\<rparr>))"
    and "length (put_val (UnlockRequestData_ToJson toy_json \<lparr>ud_user = [], ud_program = [], ud_unlockToken = ''tok''\<rparr>)) \<le> 1992"
    and "\<forall>h. length h \<le> 4096 \<longrightarrow> (\<exists>req. j_dump (lb_json demo_libs) (UnlockRequest_ToJson (lb_json demo_libs)
      \<lparr>uq_protoVersion = GetUnlockProtocolVersion, uq_deviceId = pd_id (uc_PairedDevice demo_conn), uq_encData = h\<rparr>) = Some req \<and>
      12 + length req \<le> rooms (sk_tx demo_phone_sock))"
    and "all_succeed (demo_env 0)" and "int64_time (ce_now (demo_env 0))" and "int64_time (ce_now (demo_env 0))"
    and "\<bar>ce_now (demo_env 0) - ce_now (demo_env 0)\<bar> \<le> CRYPT_PACKET_TIMEOUT"
    and "rd_unlockToken demo_data = uc_UnlockToken demo_conn"
    and "j_dump (lb_json demo_libs) (phone_response_data_json (lb_json demo_libs) demo_data) =
      Some (put_val (phone_response_data_json toy_json demo_data))"
    and "put_val (phone_response_data_json toy_json demo_data) \<noteq> []"
    and "length (put_val (phone_response_data_json toy_json demo_data)) \<le> 1992"
    and "EncryptAESPacket (lb_crypt demo_libs) (demo_env 0)
      (bytes_of (put_val (phone_response_data_json toy_json demo_data))) (pd_encryptionKey (uc_PairedDevice demo_conn)) =
      Some \<lparr>cp_result = OK, cp_data = demo_sealed\<rparr>"
    and "j_dump (lb_json demo_libs) (phone_response_json (lb_json demo_libs)
      \<lparr>ur_error = [], ur_encData = cl_hex (lb_crypt demo_libs) demo_sealed\<rparr>) = Some demo_reply"
    and "demo_reply \<noteq> []" and "length demo_reply < 65536"
    and "sk_rx demo_phone_sock = [RxData (frame PACKET_ID_UNLOCK_RESPONSE (bytes_of demo_reply))] @ [RxEof]"
    and "quiet [RxData (frame PACKET_ID_UNLOCK_RESPONSE (bytes_of demo_reply))]"
    and "rx_bytes [RxData (frame PACKET_ID_UNLOCK_RESPONSE (bytes_of demo_reply))] =
      frame PACKET_ID_UNLOCK_RESPONSE (bytes_of demo_reply)"
proof -
  show "\<forall>h. length h \<le> 4096 \<longrightarrow> (\<exists>req. j_dump (lb_json demo_libs) (UnlockRequest_ToJson (lb_json demo_libs)
      \<lparr>uq_protoVersion = GetUnlockProtocolVersion, uq_deviceId = pd_id (uc_PairedDevice demo_conn), uq_encData = h\<rparr>) = Some req \<and>
      12 + length req \<le> rooms (sk_tx demo_phone_sock))"
    by (simp add: demo_libs_def toy_json_def UnlockRequest_ToJson_def demo_conn_fields length_put_str
        GetUnlockProtocolVersion_def demo_phone_sock_def rooms_replicate)
  show "j_dump (lb_json demo_libs) (phone_response_json (lb_json demo_libs)
      \<lparr>ur_error = [], ur_encData = cl_hex (lb_crypt demo_libs) demo_sealed\<rparr>) = Some demo_reply"
    by (simp add: demo_libs_def demo_dump demo_reply_def) (simp add: toy_crypt_def)
  show "EncryptAESPacket (lb_crypt demo_libs) (demo_env 0)
      (bytes_of (put_val (phone_response_data_json toy_json demo_data))) (pd_encryptionKey (uc_PairedDevice demo_conn)) =
      Some \<lparr>cp_result = OK, cp_data = demo_sealed\<rparr>"
    using demo_sealed_packet by (simp add: demo_libs_def demo_conn_fields)
  show "length (put_val (UnlockRequestData_ToJson toy_json \<lparr>ud_user = [], ud_program = [], ud_unlockToken = ''tok''\<rparr>)) \<le> 1992"
    by (simp add: UnlockRequestData_ToJson_def toy_json_def)
  show "put_val (phone_response_data_json toy_json demo_data) \<noteq> []"
    using put_nonempty(1) by fastforce
  show "length (put_val (phone_response_data_json toy_json demo_data)) \<le> 1992" using demo_data_text by simp
qed (simp_all add: demo_conn_fields demo_reply_length demo_phone_sock_def int64_time_def CRYPT_PACKET_TIMEOUT_def
    demo_data_def demo_libs_def demo_dump toy_crypt_laws toy_json_laws)

lemma honest_phone_unlocks_witness:
  "\<exists>c' s'. PerformAuthFlow demo_libs (\<lambda>_. demo_env 0) (\<lambda>_. None) 5 False demo_conn demo_phone_sock = Some (c', s') \<and>
     uc_UnlockState c' = US_SUCCESS \<and> uc_ResponseData c' = demo_data"
  by (rule honest_phone_unlocks [OF demo_phone])

lemma demo_unlock:
  "\<exists>c' s'. PerformAuthFlow demo_libs (\<lambda>_. demo_env 0) (\<lambda>_. None) 5 False demo_conn demo_phone_sock = Some (c', s') \<and>
     uc_UnlockState c' = US_SUCCESS \<and> uc_ResponseData c' = demo_data"
  by (rule honest_phone_flow [OF demo_phone])

text \<open>A peer that sends half a header and closes.\<close>

definition demo_closed_sock :: sock where
  "demo_closed_sock = \<lparr>sk_rx = [RxData [0xDB, 0x06], RxErr ETryAgain, RxEof], sk_tx = [TxRoom 3, TxZero], sk_out = []\<rparr>"


lemma unlock_success_authentic_witness:
  "\<exists>c' s'. PerformAuthFlow demo_libs (\<lambda>_. demo_env 0) (\<lambda>_. None) 5 False demo_conn demo_phone_sock = Some (c', s') \<and>
     (\<exists>(n, respStr) \<in> set (responses Linux (sk_rx demo_phone_sock)). sublist (bytes_of respStr) (rx_bytes (sk_rx demo_phone_sock)) \<and>
        good_response demo_libs (demo_env 0) (uc_PairedDevice c') ''tok'' respStr (uc_ResponseData c'))"
proof -
  have ex: "\<exists>c' s'. PerformAuthFlow demo_libs (\<lambda>_. demo_env 0) (\<lambda>_. None) 5 False demo_conn demo_phone_sock = Some (c', s') \<and>
     uc_UnlockState c' = US_SUCCESS"
    using demo_unlock by blast
  then obtain c' s' where run: "PerformAuthFlow demo_libs (\<lambda>_. demo_env 0) (\<lambda>_. None) 5 False demo_conn demo_phone_sock = Some (c', s')"
    "uc_UnlockState c' = US_SUCCESS" by blast
  have "crypt_laws (lb_crypt demo_libs)" by (simp add: demo_libs_def toy_crypt_laws)
  moreover have "lb_platform demo_libs = Linux" by (simp add: demo_libs_def)
  ultimately show ?thesis using unlock_success_authentic [OF _ _ run] run by (fastforce simp: demo_conn_fields)
qed

end
