(* ===== verification/Streams.thy ===== *)
theory Streams
  imports StringUtils
begin

text \<open>
  What the code uses of the C++ input streams: \<open>std::getline\<close> on a stream whose unread text is given,
  and the loop that reads a text line by line.
\<close>

section \<open>getline\<close>

text \<open>A \<open>getline\<close> that meets the end of the stream at once sets the fail bit: \<open>None\<close>.\<close>

definition getline :: "char \<Rightarrow> string \<Rightarrow> (string \<times> string) option" where
  "getline d s = (if s = [] then None
     else Some (takeWhile (\<lambda>c. c \<noteq> d) s, drop 1 (dropWhile (\<lambda>c. c \<noteq> d) s)))"

lemma getline_shorter: "getline d s = Some (l, r) \<Longrightarrow> length r < length s"
proof -
  have "s \<noteq> [] \<Longrightarrow> length (drop 1 (dropWhile (\<lambda>c. c \<noteq> d) s)) < length s"
    using length_dropWhile_le [of "\<lambda>c. c \<noteq> d" s] by (cases s) (auto simp: less_Suc_eq_le)
  then show "getline d s = Some (l, r) \<Longrightarrow> length r < length s" by (auto simp: getline_def split: if_splits)
qed

lemma getline_no_delim: "getline d s = Some (l, r) \<Longrightarrow> d \<notin> set l"
  by (auto simp: getline_def split: if_splits dest: set_takeWhileD)

function file_lines :: "string \<Rightarrow> string list" where
  "file_lines s = (case getline (CHR 0x0A) s of None \<Rightarrow> [] | Some (l, r) \<Rightarrow> l # file_lines r)"
  by pat_completeness auto
termination by (relation "measure length") (auto dest: getline_shorter)

declare file_lines.simps [simp del]

text \<open>Writing lines, each with its line feed.\<close>

definition unlines :: "string list \<Rightarrow> string" where
  "unlines ls = concat (map (\<lambda>l. l @ [CHR 0x0A]) ls)"

definition no_newline :: "string \<Rightarrow> bool" where
  "no_newline l \<longleftrightarrow> CHR 0x0A \<notin> set l"

lemma unlines_simps [simp]:
  "unlines [] = []" "unlines (l # ls) = l @ CHR 0x0A # unlines ls"
  "unlines (ls @ ms) = unlines ls @ unlines ms"
  by (simp_all add: unlines_def)

lemma takeWhile_stop: "d \<notin> set l \<Longrightarrow> takeWhile (\<lambda>c. c \<noteq> d) (l @ d # r) = l"
  by (induction l) auto

lemma dropWhile_stop: "d \<notin> set l \<Longrightarrow> dropWhile (\<lambda>c. c \<noteq> d) (l @ d # r) = d # r"
  by (induction l) auto

lemma getline_line: "d \<notin> set l \<Longrightarrow> getline d (l @ d # r) = Some (l, r)"
  by (simp add: getline_def takeWhile_stop dropWhile_stop)

lemma getline_last: "d \<notin> set l \<Longrightarrow> l \<noteq> [] \<Longrightarrow> getline d l = Some (l, [])"
proof -
  assume d: "d \<notin> set l" and "l \<noteq> []"
  have "takeWhile (\<lambda>c. c \<noteq> d) l = l" "dropWhile (\<lambda>c. c \<noteq> d) l = []"
    using d by (auto simp: takeWhile_eq_all_conv dropWhile_eq_Nil_conv)
  with \<open>l \<noteq> []\<close> show ?thesis unfolding getline_def by (metis drop_Nil)
qed

lemma file_lines_Nil [simp]: "file_lines [] = []"
  by (simp add: file_lines.simps getline_def)

lemma file_lines_line: "no_newline l \<Longrightarrow> file_lines (l @ CHR 0x0A # r) = l # file_lines r"
  by (simp add: file_lines.simps [of "l @ _"] getline_line no_newline_def)

lemma file_lines_unlines: "\<forall>l \<in> set ls. no_newline l \<Longrightarrow> file_lines (unlines ls) = ls"
  by (induction ls) (simp_all add: file_lines_line)

lemma file_lines_no_newline: "l \<in> set (file_lines s) \<Longrightarrow> no_newline l"
proof (induction s rule: file_lines.induct)
  case (1 s)
  show ?case
  proof (cases "getline (CHR 0x0A) s")
    case None
    with "1.prems" show ?thesis by (simp add: file_lines.simps [of s])
  next
    case (Some p)
    obtain k r where "p = (k, r)" by (cases p)
    with Some have g: "getline (CHR 0x0A) s = Some (k, r)" by simp
    have "l = k \<or> l \<in> set (file_lines r)"
      using "1.prems" g by (simp add: file_lines.simps [of s])
    then show ?thesis
      using getline_no_delim [OF g] "1.IH" [OF g refl] by (auto simp: no_newline_def)
  qed
qed

text \<open>Reading back lines: a text that ends with a line feed is the lines it has.\<close>

lemma unlines_file_lines:
  "s = [] \<or> last s = CHR 0x0A \<Longrightarrow> unlines (file_lines s) = s"
proof (induction s rule: file_lines.induct)
  case (1 s)
  show ?case
  proof (cases "s = []")
    case False
    define l where "l = takeWhile (\<lambda>c. c \<noteq> CHR 0x0A) s"
    define d where "d = dropWhile (\<lambda>c. c \<noteq> CHR 0x0A) s"
    have s: "s = l @ d" by (simp add: l_def d_def)
    have "CHR 0x0A \<in> set s" using "1.prems" False last_in_set [of s] by simp
    then have "d \<noteq> []" by (auto simp: d_def dropWhile_eq_Nil_conv)
    then have "hd d = CHR 0x0A" unfolding d_def using hd_dropWhile [of "\<lambda>c. c \<noteq> CHR 0x0A" s] by blast
    with \<open>d \<noteq> []\<close> obtain r where r: "d = CHR 0x0A # r" by (cases d) auto
    have g: "getline (CHR 0x0A) s = Some (l, r)" using False r by (simp add: getline_def l_def d_def)
    have "r = [] \<or> last r = last s" by (metis last_ConsR last_appendR \<open>d \<noteq> []\<close> r s)
    then have "unlines (file_lines r) = r" using "1.IH" [OF g refl] "1.prems" False by metis
    moreover have "file_lines s = l # file_lines r" using g by (simp add: file_lines.simps [of s])
    ultimately show ?thesis by (metis r s unlines_simps(2))
  qed simp
qed

end
