(* ===== verification/Localization.thy ===== *)
theory Localization
  imports Streams AppSettings
begin

text \<open>
  \<open>common/src/utils/LocaleHelper.cpp\<close> and \<open>common/src/utils/I18n.cpp\<close>: the language of the user and the
  texts in it. The translation tables are generated from \<open>common/res\<close> and are the parameter \<open>table\<close>; the
  language setting, the answers of the operating system and the contents of \<open>/etc/locale.conf\<close> are a record.
\<close>

section \<open>The user's locale\<close>

datatype Locale = ENGLISH | GERMAN | CHINESE_SIMPLIFIED | PORTUGUESE_PT | PORTUGUESE_BR

record locale_env =
  le_language :: string             \<comment> \<open>\<open>AppSettings::Get().language\<close>\<close>
  le_win_locale :: "string option"  \<comment> \<open>\<open>GetUserDefaultLocaleName\<close>\<close>
  le_conf :: "string option"        \<comment> \<open>\<open>/etc/locale.conf\<close>\<close>
  le_setlocale :: "string option"   \<comment> \<open>\<open>std::setlocale(LC_ALL, "")\<close>\<close>
  le_getenv :: "string \<Rightarrow> string option"

definition settings_locale :: "string \<Rightarrow> Locale" where
  "settings_locale settingsLang =
     (if settingsLang = ''zh_CN'' then CHINESE_SIMPLIFIED
      else if settingsLang = ''de'' then GERMAN
      else if settingsLang = ''pt_PT'' then PORTUGUESE_PT
      else if settingsLang = ''pt_BR'' then PORTUGUESE_BR
      else ENGLISH)"

text \<open>The loop over the lines: the value of the first line \<open>LANG=\<dots>\<close> that has one.\<close>

fun conf_lang :: "string list \<Rightarrow> string" where
  "conf_lang [] = []"
| "conf_lang (line # rest) =
     (case getline (CHR ''='') line of
        None \<Rightarrow> conf_lang rest
      | Some (key, is_line) \<Rightarrow>
          (case getline (CHR 0x0A) is_line of
             None \<Rightarrow> conf_lang rest
           | Some (value, _) \<Rightarrow> if key = ''LANG'' then value else conf_lang rest))"

text \<open>\<open>if(auto v = \<dots>; v && *v) locale = v;\<close>\<close>

definition override :: "string option \<Rightarrow> string \<Rightarrow> string" where
  "override v loc = (case v of Some s \<Rightarrow> if s \<noteq> [] then s else loc | None \<Rightarrow> loc)"

definition unix_locale :: "locale_env \<Rightarrow> string" where
  "unix_locale env =
     (let loc = (case le_conf env of Some s \<Rightarrow> conf_lang (file_lines s) | None \<Rightarrow> []) in
      if loc = [] then
        (let loc = override (le_setlocale env) loc;
             loc = override (le_getenv env ''LC_ALL'') loc;
             loc = override (le_getenv env ''LC_CTYPE'') loc
         in override (le_getenv env ''LANG'') loc)
      else loc)"

definition system_locale :: "string \<Rightarrow> Locale" where
  "system_locale loc =
     (let loc = Replace (ToLower loc) ''-'' ''_'' in
      if starts_with loc ''zh_cn'' then CHINESE_SIMPLIFIED
      else if starts_with loc ''de'' then GERMAN
      else if starts_with loc ''pt_pt'' then PORTUGUESE_PT
      else if starts_with loc ''pt_br'' then PORTUGUESE_BR
      else ENGLISH)"

definition GetUserLocale :: "platform \<Rightarrow> locale_env \<Rightarrow> Locale" where
  "GetUserLocale pf env =
     (if le_language env \<noteq> ''auto'' then settings_locale (le_language env)
      else if pf = Windows then
        (case le_win_locale env of None \<Rightarrow> ENGLISH | Some loc \<Rightarrow> system_locale loc)
      else system_locale (unix_locale env))"

fun locale_ToString :: "Locale \<Rightarrow> string" where
  "locale_ToString ENGLISH = ''English''"
| "locale_ToString GERMAN = ''German''"
| "locale_ToString CHINESE_SIMPLIFIED = ''Chinese (Simplified)''"
| "locale_ToString PORTUGUESE_PT = ''Portuguese''"
| "locale_ToString PORTUGUESE_BR = ''Portuguese (Brazil)''"

section \<open>Texts\<close>

definition I18n_Get :: "(Locale \<Rightarrow> string \<Rightarrow> string option) \<Rightarrow> Locale \<Rightarrow> string \<Rightarrow> string" where
  "I18n_Get table lang key =
     (case table lang key of
        Some s \<Rightarrow> s
      | None \<Rightarrow>
          if lang \<noteq> ENGLISH then (case table ENGLISH key of Some s \<Rightarrow> s | None \<Rightarrow> key)
          else key)"

text \<open>The variant with arguments runs \<open>fmt::format\<close>, the parameter \<open>fmt\<close>, on the text.\<close>

definition I18n_Format :: "(string \<Rightarrow> string list \<Rightarrow> string option) \<Rightarrow> (Locale \<Rightarrow> string \<Rightarrow> string option) \<Rightarrow> Locale \<Rightarrow>
    string \<Rightarrow> string list \<Rightarrow> string option" where
  "I18n_Format fmt table lang key args = fmt (I18n_Get table lang key) args"

section \<open>Facts\<close>

lemma conf_lang_last_wins:
  assumes "no_newline v" and "v \<noteq> []"
  shows "conf_lang ((''LANG='' @ v) # ls) = v"
proof -
  have "getline (CHR ''='') (''LANG='' @ v) = Some (''LANG'', v)"
    using getline_line [of "CHR ''=''" "''LANG''" v] by simp
  then show ?thesis using assms getline_last [of "CHR 0x0A" v] by (simp add: no_newline_def)
qed

lemma conf_lang_other:
  assumes "CHR ''='' \<notin> set k" and "k \<noteq> ''LANG''"
  shows "conf_lang ((k @ CHR ''='' # v) # ls) = conf_lang ls"
  using assms by (auto simp: getline_line split: option.splits)

lemma I18n_Get_total:
  "table lang key = None \<Longrightarrow> table ENGLISH key = Some s \<Longrightarrow> I18n_Get table lang key = s"
  by (auto simp: I18n_Get_def)

text \<open>Neither the case of the system's locale name nor the separator matters.\<close>

lemma system_locale_case: "system_locale (ToLower l) = system_locale l"
  by (simp add: system_locale_def ToLower_idem)

end
