(* ===== verification/Workers.thy ===== *)
theory Workers
  imports Prelude
begin

text \<open>
  The connections and servers of the program run in a thread of their own: \<open>Start\<close> assigns a
  \<open>std::thread\<close> to a member, \<open>Stop\<close> clears the running flag, closes the socket and joins. Assigning to a
  member whose thread was not joined calls \<open>std::terminate\<close>; such a \<open>Start\<close> is \<open>None\<close>.
\<close>

section \<open>The contract of Start and Stop\<close>

locale worker =
  fixes start :: "'s \<Rightarrow> (bool \<times> 's) option"
    and stop :: "'s \<Rightarrow> 's"
    and running :: "'s \<Rightarrow> bool"
    and joinable :: "'s \<Rightarrow> bool"
    and ready :: "'s \<Rightarrow> bool"
  assumes start_running: "ready s \<Longrightarrow> running s \<Longrightarrow> start s = Some (True, s)"
    and start_idle: "ready s \<Longrightarrow> \<not> running s \<Longrightarrow> \<not> joinable s \<Longrightarrow>
      \<exists>t. start s = Some (True, t) \<and> running t \<and> joinable t"
    and start_joinable: "ready s \<Longrightarrow> \<not> running s \<Longrightarrow> joinable s \<Longrightarrow> start s = None"
    and stop_running: "running s \<Longrightarrow> \<not> running (stop s) \<and> \<not> joinable (stop s)"
    and stop_ready: "ready (stop s) = ready s"
begin

lemma restart:
  assumes "ready s" and "running s"
  shows "\<exists>t. start (stop s) = Some (True, t) \<and> running t \<and> joinable t"
  using start_idle [of "stop s"] stop_running [OF assms(2)] assms(1) stop_ready by blast

lemma start_terminates_iff: "ready s \<Longrightarrow> start s = None \<longleftrightarrow> \<not> running s \<and> joinable s"
  by (cases "running s"; cases "joinable s") (use start_running start_idle start_joinable in fastforce)+

end

text \<open>A \<open>Stop\<close> that returns at once when the thread is not running leaves a thread that ended by itself unjoined.\<close>

locale lazy_worker = worker +
  assumes stop_idle: "\<not> running s \<Longrightarrow> stop s = s"
begin

lemma natural_end_blocks_restart:
  assumes "ready s" and "\<not> running s" and "joinable s"
  shows "start (stop s) = None"
  using assms by (simp add: stop_idle start_joinable)

end

text \<open>A \<open>Stop\<close> that always joins makes every restart safe.\<close>

locale joining_worker = worker +
  assumes stop_joins: "\<not> running (stop s) \<and> \<not> joinable (stop s)"
begin

lemma always_restartable: "ready s \<Longrightarrow> \<exists>t. start (stop s) = Some (True, t) \<and> running t"
  using start_idle [of "stop s"] stop_joins [of s] stop_ready by blast

end

end
