(* ===== verification/UnlockClients.thy ===== *)
theory UnlockClients
  imports BaseUnlockConnection Workers
begin

text \<open>
  \<open>common/src/connection/unlock/clients\<close>: the connections on which the PC calls the phone, over TCP
  (\<open>TCPUnlockClient.cpp\<close>), over Bluetooth (\<open>BTUnlockClient.cpp\<close>, Windows and Linux) and through the cloud relay
  (\<open>CloudUnlockClient.cpp\<close>). Each runs in a thread. What the system calls of one connection attempt answer
  is an \<open>attempt\<close>; a thread whose script of attempts is exhausted has not returned (\<open>None\<close>).
\<close>

section \<open>State\<close>

record unlock_client =
  ck_conn :: unlock_conn
  ck_socket :: int                     \<comment> \<open>\<open>m_ClientSocket\<close>, -1 for \<open>SOCKET_INVALID\<close>\<close>
  ck_joinable :: bool                  \<comment> \<open>\<open>m_AcceptThread.joinable()\<close>\<close>
  ck_opened :: "int list"              \<comment> \<open>results of \<open>socket\<close>, in order\<close>
  ck_closed :: "int list"              \<comment> \<open>arguments of \<open>close\<close>, in order\<close>
  ck_notes :: "(int \<times> string) list"    \<comment> \<open>the messages \<open>Stop\<close> writes\<close>

definition new_client :: "string \<Rightarrow> PairedDevice \<Rightarrow> unlock_client" where
  "new_client token device = \<lparr>ck_conn = new_unlock_conn token device, ck_socket = - 1, ck_joinable = False,
     ck_opened = [], ck_closed = [], ck_notes = []\<rparr>"

definition ck_set_state :: "UnlockState \<Rightarrow> unlock_client \<Rightarrow> unlock_client" where
  "ck_set_state s c = c\<lparr>ck_conn := set_state s (ck_conn c)\<rparr>"

definition ck_set_running :: "bool \<Rightarrow> unlock_client \<Rightarrow> unlock_client" where
  "ck_set_running b c = c\<lparr>ck_conn := (ck_conn c)\<lparr>uc_IsRunning := b\<rparr>\<rparr>"

definition ck_set_connection :: "bool \<Rightarrow> unlock_client \<Rightarrow> unlock_client" where
  "ck_set_connection b c = c\<lparr>ck_conn := (ck_conn c)\<lparr>uc_HasConnection := b\<rparr>\<rparr>"

text \<open>\<open>SOCKET_CLOSE(m_ClientSocket)\<close>.\<close>

definition close_socket :: "unlock_client \<Rightarrow> unlock_client" where
  "close_socket c =
     (if ck_socket c \<noteq> - 1 then c\<lparr>ck_closed := ck_closed c @ [ck_socket c], ck_socket := - 1\<rparr> else c)"

lemmas client_updates = ck_set_state_def ck_set_running_def ck_set_connection_def close_socket_def

section \<open>Start and Stop\<close>

text \<open>\<open>wsa\<close>: \<open>WSAStartup\<close> succeeds. \<open>Stop\<close> joins the thread, which ends because its socket is closed.\<close>

definition client_Start :: "platform \<Rightarrow> bool \<Rightarrow> unlock_client \<Rightarrow> (bool \<times> unlock_client) option" where
  "client_Start pf wsa c =
     (if uc_IsRunning (ck_conn c) then Some (True, c)
      else if pf = Windows \<and> \<not> wsa then Some (False, c)
      else if ck_joinable c then None
      else Some (True, (ck_set_running True c)\<lparr>ck_joinable := True\<rparr>))"

definition client_Stop :: "unlock_client \<Rightarrow> unlock_client" where
  "client_Stop c =
     (if \<not> uc_IsRunning (ck_conn c) then c
      else let c = (if ck_socket c \<noteq> - 1 \<and> uc_HasConnection (ck_conn c)
                    then c\<lparr>ck_notes := ck_notes c @ [(ck_socket c, ''CLOSE'')]\<rparr> else c)
        in (close_socket (ck_set_connection False (ck_set_running False c)))\<lparr>ck_joinable := False\<rparr>)"

text \<open>\<open>BTUnlockClient::Start\<close> and \<open>Stop\<close> are the same code.\<close>

definition BT_Start :: "platform \<Rightarrow> bool \<Rightarrow> unlock_client \<Rightarrow> (bool \<times> unlock_client) option" where
  "BT_Start = client_Start"

definition BT_Stop :: "unlock_client \<Rightarrow> unlock_client" where
  "BT_Stop = client_Stop"

interpretation client_worker: lazy_worker "client_Start pf wsa" client_Stop
  "\<lambda>c. uc_IsRunning (ck_conn c)" ck_joinable "\<lambda>_. pf = Windows \<longrightarrow> wsa"
  by unfold_locales (auto simp: client_Start_def client_Stop_def client_updates Let_def)

section \<open>Connecting\<close>

record attempt =
  at_socket :: int                     \<comment> \<open>\<open>socket\<close>\<close>
  at_timeout_ok :: bool                \<comment> \<open>\<open>SetSocketRWTimeout\<close>\<close>
  at_nonblock_ok :: bool               \<comment> \<open>\<open>SetSocketBlocking\<close>\<close>
  at_nodelay_ok :: bool                \<comment> \<open>\<open>setsockopt(TCP_NODELAY)\<close>\<close>
  at_connect :: "sock_errno option"    \<comment> \<open>the error of \<open>connect\<close>, if it fails\<close>
  at_select :: int                     \<comment> \<open>the result of \<open>select\<close>\<close>
  at_getsockopt_ok :: bool
  at_so_error :: int                   \<comment> \<open>\<open>SO_ERROR\<close>\<close>
  at_running :: bool                   \<comment> \<open>\<open>m_IsRunning\<close> when a retry is decided\<close>

datatype connect_exit = CX_Return | CX_ThreadEnd | CX_Connected

text \<open>From \<open>socketStart\<close> to the connection, a jump to \<open>threadEnd\<close> or a plain return; \<open>tcp\<close> tells the two clients apart.\<close>

fun connect_loop :: "bool \<Rightarrow> u32 \<Rightarrow> u32 \<Rightarrow> attempt list \<Rightarrow> unlock_client \<Rightarrow> (connect_exit \<times> unlock_client) option" where
  "connect_loop tcp retries numRetries [] c = None"
| "connect_loop tcp retries numRetries (a # as) c =
     (let c = c\<lparr>ck_socket := at_socket a\<rparr> in
      if at_socket a = - 1 then Some (CX_Return, ck_set_state US_UNK_ERROR (ck_set_running False c))
      else let c = c\<lparr>ck_opened := ck_opened c @ [at_socket a]\<rparr> in
      if \<not> at_timeout_ok a then Some (CX_ThreadEnd, ck_set_state US_UNK_ERROR c)
      else if \<not> at_nonblock_ok a then Some (CX_ThreadEnd, ck_set_state US_UNK_ERROR c)
      else if tcp \<and> \<not> at_nodelay_ok a then Some (CX_ThreadEnd, ck_set_state US_UNK_ERROR c)
      else if at_connect a \<notin> {None, Some EInProgress, Some EWouldBlock} then
        Some (CX_ThreadEnd, ck_set_state US_CONNECT_ERROR c)
      else if at_select a \<le> 0 then
        (if numRetries < retries \<and> at_running a then connect_loop tcp retries (numRetries + 1) as (close_socket c)
         else Some (CX_ThreadEnd, ck_set_state US_CONNECT_ERROR c))
      else if \<not> at_getsockopt_ok a then Some (CX_ThreadEnd, ck_set_state US_UNK_ERROR c)
      else if at_so_error a \<noteq> 0 then
        (if numRetries < retries \<and> at_running a then connect_loop tcp retries (numRetries + 1) as (close_socket c)
         else Some (CX_ThreadEnd, ck_set_state US_CONNECT_ERROR c))
      else Some (CX_Connected, ck_set_connection True c))"

text \<open>The code at \<open>threadEnd\<close>.\<close>

definition thread_end :: "unlock_client \<Rightarrow> unlock_client" where
  "thread_end c = close_socket (ck_set_connection False (ck_set_running False c))"

definition connect_and_talk :: "'j libs \<Rightarrow> (nat \<Rightarrow> crypt_env) \<Rightarrow> (string \<Rightarrow> PairedDevice option) \<Rightarrow> bool \<Rightarrow> u32 \<Rightarrow>
    attempt list \<Rightarrow> unlock_client \<Rightarrow> sock \<Rightarrow> (unlock_client \<times> sock) option" where
  "connect_and_talk lib envs lookup tcp retries attempts c s = do {
     (x, c) \<leftarrow> connect_loop tcp retries 0 attempts c;
     case x of
       CX_Return \<Rightarrow> Some (c, s)
     | CX_ThreadEnd \<Rightarrow> Some (thread_end c, s)
     | CX_Connected \<Rightarrow> do {
         (conn, s) \<leftarrow> PerformAuthFlow lib envs lookup (ck_socket c) False (ck_conn c) s;
         Some (thread_end (c\<lparr>ck_conn := conn\<rparr>), s) }
   }"

text \<open>\<open>pton\<close> is the result of \<open>inet_pton\<close>, \<open>retries\<close> the setting \<open>clientConnectRetries\<close>.\<close>

definition TCP_ConnectThread :: "'j libs \<Rightarrow> (nat \<Rightarrow> crypt_env) \<Rightarrow> (string \<Rightarrow> PairedDevice option) \<Rightarrow> u32 \<Rightarrow> int \<Rightarrow>
    attempt list \<Rightarrow> unlock_client \<Rightarrow> sock \<Rightarrow> (unlock_client \<times> sock) option" where
  "TCP_ConnectThread lib envs lookup retries pton attempts c s =
     (if pton \<le> 0 then Some (ck_set_state US_UNK_ERROR (ck_set_running False c), s)
      else connect_and_talk lib envs lookup True retries attempts c s)"

text \<open>\<open>channel\<close> is the answer of \<open>FindSDPChannel\<close>, which only Linux asks for.\<close>

definition BT_ConnectThread :: "'j libs \<Rightarrow> (nat \<Rightarrow> crypt_env) \<Rightarrow> (string \<Rightarrow> PairedDevice option) \<Rightarrow> u32 \<Rightarrow> int \<Rightarrow>
    attempt list \<Rightarrow> unlock_client \<Rightarrow> sock \<Rightarrow> (unlock_client \<times> sock) option" where
  "BT_ConnectThread lib envs lookup retries channel attempts c s =
     (if lb_platform lib = Linux \<and> channel = - 1 then
        Some (ck_set_state US_CONNECT_ERROR (ck_set_running False c), s)
      else connect_and_talk lib envs lookup False retries attempts c s)"

section \<open>What an attempt leaves behind\<close>

definition idle :: "unlock_client \<Rightarrow> bool" where
  "idle c \<longleftrightarrow> ck_socket c = - 1 \<and> ck_opened c = ck_closed c"

text \<open>The thread is over: nothing runs, nothing is open, the attempt is decided.\<close>

definition ended :: "unlock_client \<Rightarrow> bool" where
  "ended c \<longleftrightarrow> idle c \<and> \<not> uc_IsRunning (ck_conn c) \<and> uc_UnlockState (ck_conn c) \<noteq> US_UNKNOWN"

definition one_open :: "unlock_client \<Rightarrow> bool" where
  "one_open c \<longleftrightarrow> ck_socket c \<noteq> - 1 \<and> ck_opened c = ck_closed c @ [ck_socket c]"

text \<open>The conversation \<open>c\<close> before and after connecting: only flags and the state differ.\<close>

definition same_talk :: "unlock_conn \<Rightarrow> unlock_conn \<Rightarrow> bool" where
  "same_talk c c' \<longleftrightarrow> same_session c c' \<and> uc_ResponseData c' = uc_ResponseData c \<and>
     uc_AuthUser c' = uc_AuthUser c \<and> uc_AuthProgram c' = uc_AuthProgram c"

definition connect_post :: "nat \<Rightarrow> unlock_client \<Rightarrow> connect_exit \<Rightarrow> unlock_client \<Rightarrow> bool" where
  "connect_post budget c x c' \<longleftrightarrow>
     same_talk (ck_conn c) (ck_conn c') \<and>
     length (ck_opened c') \<le> length (ck_opened c) + Suc budget \<and>
     (case x of
        CX_Return \<Rightarrow> ended c' \<and> uc_UnlockState (ck_conn c') = US_UNK_ERROR \<and>
          uc_HasConnection (ck_conn c') = uc_HasConnection (ck_conn c)
      | CX_ThreadEnd \<Rightarrow> one_open c' \<and> uc_UnlockState (ck_conn c') \<in> {US_UNK_ERROR, US_CONNECT_ERROR}
      | CX_Connected \<Rightarrow> one_open c' \<and> uc_HasConnection (ck_conn c') \<and>
          uc_UnlockState (ck_conn c') = uc_UnlockState (ck_conn c))"

lemmas client_post = connect_post_def same_talk_def same_session_def idle_def ended_def one_open_def

lemma retry_count:
  fixes n r :: u32
  assumes "n < r"
  shows "unat (n + 1) = unat n + 1"
proof -
  have "unat n < unat r" using assms by (simp add: word_less_nat_alt)
  moreover have "unat r < 2 ^ 32" using unsigned_less [of r, where 'a = nat] by simp
  ultimately show ?thesis by (simp add: unat_add_lem [THEN iffD1])
qed

lemma retry_budget:
  fixes n r :: u32
  assumes "n < r"
  shows "Suc (unat r - unat (n + 1)) = unat r - unat n"
  using assms retry_count [OF assms] by (simp add: word_less_nat_alt)

lemma connect_post_retry:
  fixes n retries :: u32
  assumes "connect_post (unat retries - unat (n + 1)) (close_socket c1) x c'" and "n < retries"
    and "ck_conn (close_socket c1) = ck_conn c" and "ck_opened (close_socket c1) = ck_opened c @ [k]"
  shows "connect_post (unat retries - unat n) c x c'"
  using assms retry_budget [OF assms(2)] by (auto simp: connect_post_def split: connect_exit.splits)

definition socket_opened :: "int \<Rightarrow> unlock_client \<Rightarrow> unlock_client" where
  "socket_opened k c = c\<lparr>ck_socket := k, ck_opened := ck_opened c @ [k]\<rparr>"

lemma connect_loop_step:
  assumes "connect_loop tcp retries n (a # as) c = Some (x, c')"
  shows "at_socket a = - 1 \<and> x = CX_Return \<and> c' = ck_set_state US_UNK_ERROR (ck_set_running False (c\<lparr>ck_socket := - 1\<rparr>)) \<or>
    at_socket a \<noteq> - 1 \<and>
      (n < retries \<and> at_running a \<and>
         connect_loop tcp retries (n + 1) as (close_socket (socket_opened (at_socket a) c)) = Some (x, c') \<or>
       x = CX_ThreadEnd \<and> (\<exists>e \<in> {US_UNK_ERROR, US_CONNECT_ERROR}. c' = ck_set_state e (socket_opened (at_socket a) c)) \<or>
       x = CX_Connected \<and> c' = ck_set_connection True (socket_opened (at_socket a) c))"
  using assms by (simp add: Let_def socket_opened_def split: if_split_asm)

lemma connect_loop_post:
  assumes "connect_loop tcp retries n as c = Some (x, c')" and "idle c"
  shows "connect_post (unat retries - unat n) c x c'"
  using assms
proof (induction as arbitrary: n c)
  case (Cons a as)
  let ?c1 = "socket_opened (at_socket a) c"
  have c: "idle (close_socket ?c1)" "ck_conn (close_socket ?c1) = ck_conn c"
      "ck_opened (close_socket ?c1) = ck_opened c @ [at_socket a]" if "at_socket a \<noteq> - 1"
    using that Cons.prems(2) by (simp_all add: socket_opened_def idle_def close_socket_def)
  from connect_loop_step [OF Cons.prems(1)] show ?case
  proof (elim disjE conjE bexE)
    assume *: "at_socket a \<noteq> - 1" "n < retries"
      "connect_loop tcp retries (n + 1) as (close_socket ?c1) = Some (x, c')"
    show ?thesis using connect_post_retry [OF Cons.IH [OF *(3) c(1) [OF *(1)]] *(2) c(2,3) [OF *(1)]] .
  next
    fix e
    assume *: "at_socket a \<noteq> - 1" "x = CX_ThreadEnd" "e \<in> {US_UNK_ERROR, US_CONNECT_ERROR}" "c' = ck_set_state e ?c1"
    show ?thesis using *(1,3) Cons.prems(2) unfolding *(2,4)
      by (simp add: client_post ck_set_state_def socket_opened_def)
  qed (use Cons.prems(2) in \<open>simp_all add: client_post ck_set_state_def ck_set_running_def ck_set_connection_def socket_opened_def\<close>)
qed simp

text \<open>After \<open>PerformAuthFlow\<close> the flags of the connection do not matter: \<open>thread_end\<close> sets them.\<close>

lemma thread_end_ended:
  "one_open c \<Longrightarrow> uc_UnlockState (ck_conn c) \<noteq> US_UNKNOWN \<Longrightarrow> ended (thread_end c) \<and> \<not> uc_HasConnection (ck_conn (thread_end c))"
  by (simp add: thread_end_def client_updates client_post)

lemma thread_end_conn [simp]:
  "uc_UnlockState (ck_conn (thread_end c)) = uc_UnlockState (ck_conn c)"
  "uc_PairedDevice (ck_conn (thread_end c)) = uc_PairedDevice (ck_conn c)"
  "uc_ResponseData (ck_conn (thread_end c)) = uc_ResponseData (ck_conn c)"
  "ck_opened (thread_end c) = ck_opened c"
  by (simp_all add: thread_end_def client_updates)

text \<open>How a connected client can end.\<close>

lemma connect_and_talk_cases:
  assumes "crypt_laws (lb_crypt lib)" and "connect_and_talk lib envs lookup tcp retries as c s = Some (c', s')" and "idle c"
  shows "ended c' \<and> length (ck_opened c') \<le> length (ck_opened c) + unat retries + 1 \<and>
    (\<not> uc_HasConnection (ck_conn c) \<longrightarrow> \<not> uc_HasConnection (ck_conn c')) \<and>
    (uc_UnlockState (ck_conn c) \<noteq> US_SUCCESS \<longrightarrow> uc_UnlockState (ck_conn c') = US_SUCCESS \<longrightarrow>
      (\<exists>(n, respStr) \<in> set (responses (lb_platform lib) (sk_rx s)).
         good_response lib (envs n) (uc_PairedDevice (ck_conn c')) (uc_UnlockToken (ck_conn c)) respStr (uc_ResponseData (ck_conn c'))))"
proof -
  obtain x c1 where loop: "connect_loop tcp retries 0 as c = Some (x, c1)"
    using assms(2) by (auto simp: connect_and_talk_def bind_eq_Some_conv)
  have post: "connect_post (unat retries) c x c1"
    using connect_loop_post [OF loop assms(3)] by simp
  show ?thesis
  proof (cases x)
    case CX_Return
    with assms(2) loop post show ?thesis by (auto simp: connect_and_talk_def connect_post_def)
  next
    case CX_ThreadEnd
    with assms(2) loop post thread_end_ended [of c1] show ?thesis
      by (auto simp: connect_and_talk_def connect_post_def)
  next
    case CX_Connected
    then obtain conn where flow: "PerformAuthFlow lib envs lookup (ck_socket c1) False (ck_conn c1) s = Some (conn, s')"
      and c': "c' = thread_end (c1\<lparr>ck_conn := conn\<rparr>)"
      using assms(2) loop by (auto simp: connect_and_talk_def bind_eq_Some_conv)
    have p: "one_open (c1\<lparr>ck_conn := conn\<rparr>)" "uc_UnlockState (ck_conn c1) = uc_UnlockState (ck_conn c)"
      "uc_UnlockToken (ck_conn c1) = uc_UnlockToken (ck_conn c)"
      using post CX_Connected by (simp_all add: client_post)
    have "ended c' \<and> \<not> uc_HasConnection (ck_conn c')"
      unfolding c' by (rule thread_end_ended) (use p PerformAuthFlow_decides [OF flow] in simp_all)
    moreover have "\<exists>(n, respStr) \<in> set (responses (lb_platform lib) (sk_rx s)).
        good_response lib (envs n) (uc_PairedDevice conn) (uc_UnlockToken (ck_conn c)) respStr (uc_ResponseData conn)"
      if "uc_UnlockState (ck_conn c) \<noteq> US_SUCCESS" "uc_UnlockState conn = US_SUCCESS"
      using PerformAuthFlow_authentic [OF assms(1) _ flow that(2)] that(1) p by fastforce
    ultimately show ?thesis using post by (auto simp: c' connect_post_def)
  qed
qed

section \<open>Retries\<close>

text \<open>An attempt that is tried again, and one that connects.\<close>

definition times_out :: "attempt \<Rightarrow> bool" where
  "times_out a \<longleftrightarrow> at_socket a \<noteq> - 1 \<and> at_timeout_ok a \<and> at_nonblock_ok a \<and> at_nodelay_ok a \<and>
     at_connect a \<in> {None, Some EInProgress, Some EWouldBlock} \<and> at_running a \<and>
     (at_select a \<le> 0 \<or> at_getsockopt_ok a \<and> at_so_error a \<noteq> 0)"

definition connects :: "attempt \<Rightarrow> bool" where
  "connects a \<longleftrightarrow> at_socket a \<noteq> - 1 \<and> at_timeout_ok a \<and> at_nonblock_ok a \<and> at_nodelay_ok a \<and>
     at_connect a \<in> {None, Some EInProgress, Some EWouldBlock} \<and> at_select a > 0 \<and>
     at_getsockopt_ok a \<and> at_so_error a = 0"

lemma connect_loop_times_out:
  assumes "times_out a"
  shows "n < retries \<Longrightarrow> connect_loop tcp retries n (a # as) c =
      connect_loop tcp retries (n + 1) as (close_socket (socket_opened (at_socket a) c))"
    and "\<not> n < retries \<Longrightarrow> connect_loop tcp retries n (a # as) c =
      Some (CX_ThreadEnd, ck_set_state US_CONNECT_ERROR (socket_opened (at_socket a) c))"
  using assms by (auto simp: times_out_def socket_opened_def Let_def)

lemma connect_loop_connects:
  "connects a \<Longrightarrow> connect_loop tcp retries n (a # as) c =
     Some (CX_Connected, ck_set_connection True (socket_opened (at_socket a) c))"
  by (auto simp: connects_def socket_opened_def Let_def)

definition tried :: "attempt list \<Rightarrow> unlock_client \<Rightarrow> unlock_client" where
  "tried ts c = c\<lparr>ck_opened := ck_opened c @ map at_socket ts, ck_closed := ck_closed c @ map at_socket ts\<rparr>"

lemma connect_loop_skip:
  assumes "\<forall>a \<in> set ts. times_out a" and "unat n + length ts \<le> unat retries" and "ck_socket c = - 1"
  shows "connect_loop tcp retries n (ts @ as) c =
    connect_loop tcp retries (n + of_nat (length ts)) as (tried ts c)"
  using assms
proof (induction ts arbitrary: n c)
  case (Cons a ts)
  from Cons.prems(2) have n: "n < retries" by (simp add: word_less_nat_alt)
  have n1: "unat (n + 1) + length ts \<le> unat retries"
    using Cons.prems(2) retry_count [OF n] by simp
  have k: "at_socket a \<noteq> - 1" using Cons.prems(1) by (simp add: times_out_def)
  have c: "tried ts (close_socket (socket_opened (at_socket a) c)) = tried (a # ts) c"
    using k Cons.prems(3) by (simp add: tried_def socket_opened_def close_socket_def)
  have s: "ck_socket (close_socket (socket_opened (at_socket a) c)) = - 1"
    using k by (simp add: socket_opened_def close_socket_def)
  show ?case
    using Cons.IH [OF _ n1 s] Cons.prems(1) connect_loop_times_out(1) [OF _ n, of a] c
    by (simp add: add.assoc)
qed (simp add: tried_def)

lemma idle_tried: "idle c \<Longrightarrow> ck_socket (tried ts c) = - 1 \<and> ck_opened (tried ts c) = ck_opened c @ map at_socket ts"
  by (simp add: tried_def idle_def)

lemma connect_loop_returns:
  "unat retries < unat n + length as \<Longrightarrow> unat n \<le> unat retries \<Longrightarrow> connect_loop tcp retries n as c \<noteq> None"
proof (induction as arbitrary: n c)
  case (Cons a as)
  have more: "connect_loop tcp retries (n + 1) as d \<noteq> None" if "n < retries" for d
    using Cons.IH [of "n + 1" d] Cons.prems that retry_count [OF that] by (simp add: word_less_nat_alt)
  show ?case by (simp add: Let_def more del: not_None_eq)
qed simp

text \<open>
  Retries of the TCP and the Bluetooth client: after at most \<open>clientConnectRetries\<close> attempts that time out,
  an attempt that connects is used, on its own socket, and the sockets of the others are closed in order; when
  one more than \<open>clientConnectRetries\<close> attempts time out, the client gives up with \<open>CONNECT_ERROR\<close>; and whatever
  the attempts do, connecting ends within \<open>clientConnectRetries\<close> + 1 of them.
\<close>

theorem client_retries:
  assumes "\<forall>b \<in> set ts. times_out b" and "ck_socket c = - 1" and "length ts \<le> unat retries"
  shows "(connects a \<longrightarrow> connect_loop tcp retries 0 (ts @ a # as) c =
       Some (CX_Connected, ck_set_connection True (socket_opened (at_socket a) (tried ts c)))) \<and>
    (length ts = unat retries \<and> times_out a \<longrightarrow> connect_loop tcp retries 0 (ts @ a # as) c =
       Some (CX_ThreadEnd, ck_set_state US_CONNECT_ERROR (socket_opened (at_socket a) (tried ts c)))) \<and>
    (unat retries < length as \<longrightarrow> connect_loop tcp retries 0 as c \<noteq> None)"
proof (intro conjI impI)
  have skip: "connect_loop tcp retries 0 (ts @ a # as) c = connect_loop tcp retries (of_nat (length ts)) (a # as) (tried ts c)"
    using connect_loop_skip [of ts 0 retries c tcp "a # as"] assms by simp
  show "connect_loop tcp retries 0 (ts @ a # as) c =
      Some (CX_Connected, ck_set_connection True (socket_opened (at_socket a) (tried ts c)))" if "connects a"
    using skip connect_loop_connects [OF that] by simp
  show "connect_loop tcp retries 0 (ts @ a # as) c =
      Some (CX_ThreadEnd, ck_set_state US_CONNECT_ERROR (socket_opened (at_socket a) (tried ts c)))"
    if "length ts = unat retries \<and> times_out a"
    using skip connect_loop_times_out(2) [of a] that by (simp add: word_less_nat_alt)
  show "connect_loop tcp retries 0 as c \<noteq> None" if "unat retries < length as"
    using connect_loop_returns [of retries 0] that by simp
qed

text \<open>
  When the thread of a TCP or Bluetooth client returns, nothing is left behind: every socket it opened has
  been closed exactly once, at most \<open>clientConnectRetries\<close> + 1 were opened, the running and connection flags are
  clear, the attempt is decided, and it is a success only after an authentic response with the client's token, which came over the last socket.
\<close>

theorem client_thread_ends:
  assumes "crypt_laws (lb_crypt lib)" and "idle c" and "\<not> uc_HasConnection (ck_conn c)"
    and "TCP_ConnectThread lib envs lookup retries k as c s = Some (c', s') \<or>
         BT_ConnectThread lib envs lookup retries k as c s = Some (c', s')"
  shows "ended c' \<and> \<not> uc_HasConnection (ck_conn c') \<and>
    length (ck_opened c') \<le> length (ck_opened c) + unat retries + 1 \<and>
    (uc_UnlockState (ck_conn c) \<noteq> US_SUCCESS \<longrightarrow> uc_UnlockState (ck_conn c') = US_SUCCESS \<longrightarrow>
      (\<exists>(n, respStr) \<in> set (responses (lb_platform lib) (sk_rx s)).
         good_response lib (envs n) (uc_PairedDevice (ck_conn c')) (uc_UnlockToken (ck_conn c)) respStr (uc_ResponseData (ck_conn c'))))"
proof -
  have "c' = ck_set_state e (ck_set_running False c) \<and> e \<in> {US_UNK_ERROR, US_CONNECT_ERROR} \<or>
      connect_and_talk lib envs lookup tcp retries as c s = Some (c', s')"
    if "tcp \<and> e = US_UNK_ERROR \<and> TCP_ConnectThread lib envs lookup retries k as c s = Some (c', s') \<or>
      \<not> tcp \<and> e = US_CONNECT_ERROR \<and> BT_ConnectThread lib envs lookup retries k as c s = Some (c', s')" for tcp e
    using that by (auto simp: TCP_ConnectThread_def BT_ConnectThread_def split: if_splits)
  then obtain tcp e where "c' = ck_set_state e (ck_set_running False c) \<and> e \<in> {US_UNK_ERROR, US_CONNECT_ERROR} \<or>
      connect_and_talk lib envs lookup tcp retries as c s = Some (c', s')" using assms(4) by metis
  then show ?thesis
  proof (elim disjE)
    assume "c' = ck_set_state e (ck_set_running False c) \<and> e \<in> {US_UNK_ERROR, US_CONNECT_ERROR}"
    with assms(2,3) show ?thesis by (auto simp: ended_def idle_def ck_set_state_def ck_set_running_def)
  qed (use connect_and_talk_cases [OF assms(1) _ assms(2)] assms(3) in blast)
qed

section \<open>Witnesses\<close>

definition demo_attempt :: "int \<Rightarrow> int \<Rightarrow> attempt" where
  "demo_attempt k sel = \<lparr>at_socket = k, at_timeout_ok = True, at_nonblock_ok = True, at_nodelay_ok = True,
     at_connect = Some EInProgress, at_select = sel, at_getsockopt_ok = True, at_so_error = 0, at_running = True\<rparr>"

definition demo_client :: unlock_client where
  "demo_client = new_client ''tok'' (demo_device ''1'')"

lemma demo_client_conn: "ck_conn demo_client = demo_conn" "idle demo_client" "ck_socket demo_client = - 1"
  by (simp_all add: demo_client_def new_client_def demo_conn_def idle_def)

lemma client_retries_witness:
  "connect_loop True 2 0 ([demo_attempt 5 0] @ demo_attempt 6 1 # []) demo_client =
     Some (CX_Connected, ck_set_connection True (socket_opened 6 (tried [demo_attempt 5 0] demo_client)))"
proof -
  have "times_out (demo_attempt 5 0)" "connects (demo_attempt 6 1)" "at_socket (demo_attempt 6 1) = 6"
    by (simp_all add: times_out_def connects_def demo_attempt_def)
  then show ?thesis
    using client_retries [of "[demo_attempt 5 0]" demo_client 2 "demo_attempt 6 1" True "[]"] demo_client_conn by simp
qed

text \<open>A client that times out once and then reaches a phone that unlocks.\<close>

lemma demo_client_flow:
  "\<exists>c' s'. PerformAuthFlow demo_libs (\<lambda>_. demo_env 0) (\<lambda>_. None) 6 False (demo_conn\<lparr>uc_HasConnection := True\<rparr>) demo_phone_sock =
     Some (c', s') \<and> uc_UnlockState c' = US_SUCCESS \<and> uc_ResponseData c' = demo_data"
  by (rule honest_phone_flow [where rq = "put_val (UnlockRequestData_ToJson toy_json
          \<lparr>ud_user = [], ud_program = [], ud_unlockToken = ''tok''\<rparr>)" and ep = "demo_env 0"
        and dtext = "put_val (phone_response_data_json toy_json demo_data)" and sealed = demo_sealed
        and reply = demo_reply and rx = "[RxData (frame PACKET_ID_UNLOCK_RESPONSE (bytes_of demo_reply))]"])
    (use demo_phone in simp_all)

definition demo_attempts :: "attempt list" where
  "demo_attempts = [demo_attempt 5 0, demo_attempt 6 1]"

lemma demo_connect:
  "connect_loop True 2 0 demo_attempts demo_client =
     Some (CX_Connected, ck_set_connection True (socket_opened 6 (tried [demo_attempt 5 0] demo_client)))"
  by (simp add: demo_attempts_def demo_attempt_def Let_def tried_def socket_opened_def close_socket_def demo_client_def new_client_def)

lemma demo_tcp:
  "\<exists>c' s'. TCP_ConnectThread demo_libs (\<lambda>_. demo_env 0) (\<lambda>_. None) 2 1 demo_attempts demo_client demo_phone_sock = Some (c', s') \<and>
     uc_UnlockState (ck_conn c') = US_SUCCESS \<and> uc_ResponseData (ck_conn c') = demo_data"
proof -
  define c1 where "c1 = ck_set_connection True (socket_opened 6 (tried [demo_attempt 5 0] demo_client))"
  have c1: "ck_conn c1 = demo_conn\<lparr>uc_HasConnection := True\<rparr>" "ck_socket c1 = 6"
    using demo_client_conn by (simp_all add: c1_def ck_set_connection_def socket_opened_def tried_def)
  from demo_client_flow obtain c' s' where flow: "PerformAuthFlow demo_libs (\<lambda>_. demo_env 0) (\<lambda>_. None) 6 False
      (demo_conn\<lparr>uc_HasConnection := True\<rparr>) demo_phone_sock = Some (c', s')"
      "uc_UnlockState c' = US_SUCCESS" "uc_ResponseData c' = demo_data" by blast
  have "TCP_ConnectThread demo_libs (\<lambda>_. demo_env 0) (\<lambda>_. None) 2 1 demo_attempts demo_client demo_phone_sock =
      Some (thread_end (c1\<lparr>ck_conn := c'\<rparr>), s')"
    by (simp add: TCP_ConnectThread_def connect_and_talk_def demo_connect c1_def [symmetric] c1 flow(1) cong: if_cong)
  with flow(2,3) show ?thesis by auto
qed

lemma client_thread_ends_witness:
  "\<exists>c' s'. TCP_ConnectThread demo_libs (\<lambda>_. demo_env 0) (\<lambda>_. None) 2 1 demo_attempts demo_client demo_phone_sock = Some (c', s') \<and>
     ended c' \<and> length (ck_opened c') \<le> 3"
proof -
  obtain c' s' where run: "TCP_ConnectThread demo_libs (\<lambda>_. demo_env 0) (\<lambda>_. None) 2 1 demo_attempts demo_client demo_phone_sock = Some (c', s')"
    using demo_tcp by blast
  have "crypt_laws (lb_crypt demo_libs)" "\<not> uc_HasConnection (ck_conn demo_client)" "ck_opened demo_client = []"
    by (simp_all add: demo_libs_def toy_crypt_laws demo_client_def new_client_def new_unlock_conn_def)
  then show ?thesis
    using client_thread_ends [of demo_libs demo_client "\<lambda>_. demo_env 0" "\<lambda>_. None" 2 1 demo_attempts demo_phone_sock c' s'] run
      demo_client_conn(2) by simp
qed

end
