(* ===== verification/CloudUnlockClient.thy ===== *)
theory CloudUnlockClient
  imports UnlockClients
begin

text \<open>
  \<open>common/src/connection/unlock/clients/CloudUnlockClient.cpp\<close>: the unlock request is posted to the relay and
  the phone's answer is polled for. \<open>post\<close> and \<open>get\<close> are \<open>RestClient::PostJson\<close> and \<open>RestClient::Get\<close>, which answer
  an HTTP status and a body; a \<open>tick\<close> is what the loop condition sees: the running flag and whether the
  deadline has not passed. An exception is caught and is \<open>DATA_ERROR\<close>.
\<close>

section \<open>Start and Stop\<close>

definition Cloud_Start :: "unlock_client \<Rightarrow> (bool \<times> unlock_client) option" where
  "Cloud_Start c =
     (if uc_IsRunning (ck_conn c) then Some (True, c)
      else if pd_cloudToken (uc_PairedDevice (ck_conn c)) = [] then Some (False, ck_set_state US_NOT_PAIRED_ERROR c)
      else if ck_joinable c then None
      else Some (True, (ck_set_running True c)\<lparr>ck_joinable := True\<rparr>))"

definition Cloud_Stop :: "unlock_client \<Rightarrow> unlock_client" where
  "Cloud_Stop c = ck_set_connection False ((ck_set_running False c)\<lparr>ck_joinable := False\<rparr>)"

interpretation cloud_worker: joining_worker Cloud_Start Cloud_Stop "\<lambda>c. uc_IsRunning (ck_conn c)" ck_joinable
  "\<lambda>c. pd_cloudToken (uc_PairedDevice (ck_conn c)) \<noteq> []"
  by unfold_locales (auto simp: Cloud_Start_def Cloud_Stop_def client_updates)

section \<open>The relay thread\<close>

definition relay_done :: "unlock_client \<Rightarrow> unlock_client option" where
  "relay_done c = Some (ck_set_running False c)"

definition relay_failed :: "UnlockState \<Rightarrow> unlock_client \<Rightarrow> unlock_client option" where
  "relay_failed s c = relay_done (ck_set_state s c)"

definition response_path :: "string \<Rightarrow> string" where
  "response_path requestId = ''/v1/relay/requests/'' @ requestId @ ''/response''"

text \<open>\<open>get n\<close> answers the \<open>n\<close>-th poll; a response is processed with \<open>envs n\<close>.\<close>

fun relay_loop :: "'j libs \<Rightarrow> (nat \<Rightarrow> crypt_env) \<Rightarrow> (nat \<Rightarrow> string \<Rightarrow> int \<times> string) \<Rightarrow> string \<Rightarrow> nat \<Rightarrow>
    (bool \<times> bool) list \<Rightarrow> unlock_client \<Rightarrow> unlock_client option" where
  "relay_loop lib envs get path n [] c = None"
| "relay_loop lib envs get path n ((running, early) # ticks) c =
     (if running \<and> early then
        (let (status, body) = get n path in
         if status = 200 then
           (case Option.bind (j_parse (lb_json lib) body) (\<lambda>v. get_string (lb_json lib) v ''payload'') of
              None \<Rightarrow> relay_failed US_DATA_ERROR c
            | Some payload \<Rightarrow> do {
                conn \<leftarrow> ProcessUnlockResponseJson lib (envs n) payload (ck_conn c);
                relay_done (c\<lparr>ck_conn := conn\<rparr>) })
         else if status \<noteq> 204 then relay_failed US_CONNECT_ERROR c
         else relay_loop lib envs get path (Suc n) ticks c)
      else relay_done (if uc_UnlockState (ck_conn c) = US_UNKNOWN then ck_set_state US_TIMEOUT c else c))"

definition RelayThread :: "'j libs \<Rightarrow> crypt_env \<Rightarrow> (nat \<Rightarrow> crypt_env) \<Rightarrow> (string \<Rightarrow> string \<Rightarrow> int \<times> string) \<Rightarrow>
    (nat \<Rightarrow> string \<Rightarrow> int \<times> string) \<Rightarrow> (bool \<times> bool) list \<Rightarrow> unlock_client \<Rightarrow> unlock_client option" where
  "RelayThread lib e envs post get ticks c =
     (case BuildUnlockRequestJson lib e (ck_conn c) of
        None \<Rightarrow> relay_failed US_DATA_ERROR c
      | Some (None, conn) \<Rightarrow> relay_done (c\<lparr>ck_conn := conn\<rparr>)
      | Some (Some request, conn) \<Rightarrow>
          (let J = lb_json lib; c = c\<lparr>ck_conn := conn\<rparr> in
           case j_dump J (j_object J [(''payload'', j_string J request)]) of
             None \<Rightarrow> relay_failed US_DATA_ERROR c
           | Some json \<Rightarrow>
               (let (status, body) = post ''/v1/relay/requests'' json in
                if status \<noteq> 201 then relay_failed US_CONNECT_ERROR c
                else case Option.bind (j_parse J body) (\<lambda>v. get_string J v ''id'') of
                  None \<Rightarrow> relay_failed US_DATA_ERROR c
                | Some requestId \<Rightarrow>
                    relay_loop lib envs get (response_path requestId) 0 ticks (ck_set_connection True c))))"

section \<open>What the relay can do\<close>

lemma relay_done_simps [simp]:
  "relay_done c = Some c' \<longleftrightarrow> c' = ck_set_running False c"
  "relay_failed s c = Some c' \<longleftrightarrow> c' = ck_set_running False (ck_set_state s c)"
  by (auto simp: relay_done_def relay_failed_def)

lemma ck_set_conn [simp]:
  "ck_conn (ck_set_running b c) = (ck_conn c)\<lparr>uc_IsRunning := b\<rparr>"
  "ck_conn (ck_set_connection b c) = (ck_conn c)\<lparr>uc_HasConnection := b\<rparr>"
  "ck_conn (ck_set_state s c) = set_state s (ck_conn c)"
  by (simp_all add: client_updates)

text \<open>What the relay answers: the path for which it accepted the request of this client, and the payload of a poll.\<close>

definition relay_asked :: "'j libs \<Rightarrow> crypt_env \<Rightarrow> (string \<Rightarrow> string \<Rightarrow> int \<times> string) \<Rightarrow> unlock_conn \<Rightarrow> string \<Rightarrow> bool" where
  "relay_asked lib e post c path \<longleftrightarrow>
     (\<exists>request json body requestId. BuildUnlockRequestJson lib e c = Some (Some request, c) \<and>
        j_dump (lb_json lib) (j_object (lb_json lib) [(''payload'', j_string (lb_json lib) request)]) = Some json \<and>
        post ''/v1/relay/requests'' json = (201, body) \<and>
        Option.bind (j_parse (lb_json lib) body) (\<lambda>v. get_string (lb_json lib) v ''id'') = Some requestId \<and>
        path = response_path requestId)"

definition relay_payload :: "'j libs \<Rightarrow> (nat \<Rightarrow> string \<Rightarrow> int \<times> string) \<Rightarrow> string \<Rightarrow> nat \<Rightarrow> string \<Rightarrow> bool" where
  "relay_payload lib get path n payload \<longleftrightarrow>
     (\<exists>body. get n path = (200, body) \<and>
        Option.bind (j_parse (lb_json lib) body) (\<lambda>v. get_string (lb_json lib) v ''payload'') = Some payload)"

text \<open>The result of the loop: decided, or still unsuccessful, or authenticated by one of the payloads.\<close>

definition relay_post :: "'j libs \<Rightarrow> (nat \<Rightarrow> crypt_env) \<Rightarrow> (nat \<times> string) set \<Rightarrow> unlock_client \<Rightarrow> unlock_client \<Rightarrow> bool" where
  "relay_post lib envs H c c' \<longleftrightarrow> \<not> uc_IsRunning (ck_conn c') \<and> uc_UnlockState (ck_conn c') \<noteq> US_UNKNOWN \<and>
     uc_PairedDevice (ck_conn c') = uc_PairedDevice (ck_conn c) \<and>
     (uc_UnlockState (ck_conn c) \<noteq> US_SUCCESS \<longrightarrow> uc_UnlockState (ck_conn c') = US_SUCCESS \<longrightarrow>
        (\<exists>(n, respStr) \<in> H. good_response lib (envs n) (uc_PairedDevice (ck_conn c)) (uc_UnlockToken (ck_conn c)) respStr
           (uc_ResponseData (ck_conn c'))))"

lemma relay_loop_post:
  assumes "crypt_laws (lb_crypt lib)" and "relay_loop lib envs get path n ticks c = Some c'"
  shows "relay_post lib envs {(n, t). relay_payload lib get path n t} c c'"
  using assms(2)
proof (induction ticks arbitrary: n)
  case (Cons t ticks)
  obtain running early where t: "t = (running, early)" by (cases t)
  obtain status body where g: "get n path = (status, body)" by (cases "get n path")
  consider "\<not> (running \<and> early)" | "running" "early" "status = 200" | "running" "early" "status \<noteq> 200" "status \<noteq> 204"
    | "running" "early" "status = 204" by auto
  then show ?case
  proof cases
    case 2
    show ?thesis
    proof (cases "Option.bind (j_parse (lb_json lib) body) (\<lambda>v. get_string (lb_json lib) v ''payload'')")
      case None
      with Cons.prems 2 show ?thesis by (simp add: t g relay_post_def)
    next
      case (Some payload)
      then obtain conn where p: "ProcessUnlockResponseJson lib (envs n) payload (ck_conn c) = Some conn"
        and c': "c' = ck_set_running False (c\<lparr>ck_conn := conn\<rparr>)"
        using Cons.prems 2 by (auto simp: t g bind_eq_Some_conv)
      show ?thesis
        using ProcessUnlockResponseJson_cases [OF assms(1) p] g 2 Some
        by (auto simp: relay_post_def relay_payload_def c' same_session_def)
    qed
  qed (use Cons in \<open>auto simp: t g relay_post_def split: if_splits\<close>)
qed simp

lemma BuildUnlockRequestJson_keeps:
  assumes "BuildUnlockRequestJson lib e c = Some (r, c')"
  shows "(r = None \<and> c' = set_state US_UNK_ERROR c) \<or> (\<exists>t. r = Some t \<and> c' = c)"
  using assms by (auto simp: BuildUnlockRequestJson_def Let_def bind_eq_Some_conv split: if_splits)

lemma RelayThread_post:
  assumes "crypt_laws (lb_crypt lib)" and "RelayThread lib e envs post get ticks c = Some c'"
  shows "relay_post lib envs {(n, t). \<exists>path. relay_asked lib e post (ck_conn c) path \<and> relay_payload lib get path n t} c c'"
proof (cases "BuildUnlockRequestJson lib e (ck_conn c)")
  case None
  with assms(2) show ?thesis by (simp add: RelayThread_def relay_post_def)
next
  case (Some p)
  then obtain r conn where p: "BuildUnlockRequestJson lib e (ck_conn c) = Some (r, conn)" by (cases p) simp
  from BuildUnlockRequestJson_keeps [OF p] show ?thesis
  proof (elim disjE conjE exE)
    assume "r = None" "conn = set_state US_UNK_ERROR (ck_conn c)"
    with assms(2) p show ?thesis by (simp add: RelayThread_def relay_post_def)
  next
    fix t assume "r = Some t" "conn = ck_conn c"
    with assms(2) p have "c' = ck_set_running False (ck_set_state US_DATA_ERROR c) \<or>
        c' = ck_set_running False (ck_set_state US_CONNECT_ERROR c) \<or>
        (\<exists>path. relay_asked lib e post (ck_conn c) path \<and> relay_loop lib envs get path 0 ticks (ck_set_connection True c) = Some c')"
      by (auto simp: RelayThread_def relay_asked_def Let_def split: option.splits if_splits prod.splits)
    then show ?thesis
    proof (elim disjE exE)
      fix path assume p: "relay_asked lib e post (ck_conn c) path \<and> relay_loop lib envs get path 0 ticks (ck_set_connection True c) = Some c'"
      from relay_loop_post [OF assms(1) conjunct2 [OF p]] p show ?thesis by (auto simp: relay_post_def)
    qed (simp_all add: relay_post_def)
  qed
qed

text \<open>
  The relay is not trusted: whatever it answers to the request and to the polls, \<open>RelayThread\<close> stops running
  with a decided state, and with \<open>SUCCESS\<close> only when the payload it got for its own request was an authentic response for this
  device and this attempt's token, fresh when it was processed.
\<close>

theorem relay_untrusted:
  assumes "crypt_laws (lb_crypt lib)" and "uc_UnlockState (ck_conn c) \<noteq> US_SUCCESS"
    and "RelayThread lib e envs post get ticks c = Some c'"
  shows "\<not> uc_IsRunning (ck_conn c') \<and> uc_UnlockState (ck_conn c') \<noteq> US_UNKNOWN \<and>
    (uc_UnlockState (ck_conn c') = US_SUCCESS \<longrightarrow>
      (\<exists>path n respStr. relay_asked lib e post (ck_conn c) path \<and> relay_payload lib get path n respStr \<and>
         good_response lib (envs n) (uc_PairedDevice (ck_conn c')) (uc_UnlockToken (ck_conn c)) respStr (uc_ResponseData (ck_conn c'))))"
  using RelayThread_post [OF assms(1,3)] assms(2) by (fastforce simp: relay_post_def)

text \<open>The loop ends when the deadline passes or \<open>Stop\<close> is called.\<close>

lemma relay_loop_returns:
  assumes "crypt_laws (lb_crypt lib)" and "\<exists>t \<in> set ticks. \<not> (fst t \<and> snd t)"
  shows "relay_loop lib envs get path n ticks c \<noteq> None"
  using assms(2)
proof (induction ticks arbitrary: n)
  case (Cons t ticks)
  have p: "Option.bind (ProcessUnlockResponseJson lib (envs n) payload (ck_conn c)) (\<lambda>conn. relay_done (c\<lparr>ck_conn := conn\<rparr>)) \<noteq> None"
    for payload using ProcessUnlockResponseJson_returns [OF assms(1), of "envs n" payload "ck_conn c"]
    by (auto simp: relay_done_def)
  have r: "relay_done d \<noteq> None" "relay_failed s d \<noteq> None" for d s by (simp_all add: relay_failed_def relay_done_def)
  show ?case
    using Cons.prems Cons.IH by (cases t) (auto simp: p r split: prod.split option.split simp del: not_None_eq)
qed simp

section \<open>Witness\<close>

lemma demo_request: "\<exists>req. BuildUnlockRequestJson demo_libs (demo_env 0) demo_conn = Some (Some req, demo_conn)"
proof -
  obtain s' where "SendUnlockRequest demo_libs (demo_env 0) demo_conn demo_phone_sock = Some (True, demo_conn, s')"
    using SendUnlockRequest_succeeds [OF demo_phone(1) demo_phone(8) demo_phone(5,6,7)] by blast
  then show ?thesis
    using BuildUnlockRequestJson_keeps [of demo_libs "demo_env 0" demo_conn]
    by (fastforce simp: SendUnlockRequest_def bind_eq_Some_conv split: option.splits)
qed

definition demo_body :: "string \<Rightarrow> string \<Rightarrow> string" where
  "demo_body k v = put_val (j_object toy_json [(k, j_string toy_json v)])"

lemma demo_body_field:
  "Option.bind (j_parse (lb_json demo_libs) (demo_body k v)) (\<lambda>x. get_string (lb_json demo_libs) x k) = Some v"
proof -
  have "j_parse toy_json (demo_body k v) = Some (j_object toy_json [(k, j_string toy_json v)])"
    by (rule json_parse_dump [OF toy_json_laws built.intros(6)]) (auto simp: demo_body_def demo_dump)
  then show ?thesis by (simp add: demo_libs_def json_get_object(1) [OF toy_json_laws])
qed

definition demo_relay :: "unlock_client option" where
  "demo_relay = RelayThread demo_libs (demo_env 0) (\<lambda>_. demo_env 0) (\<lambda>_ _. (201, demo_body ''id'' ''r''))
     (\<lambda>n _. if n = 0 then (204, []) else (200, demo_body ''payload'' demo_reply)) [(True, True), (True, True)] demo_client"

lemma demo_relay_unlocks: "\<exists>c'. demo_relay = Some c' \<and> uc_UnlockState (ck_conn c') = US_SUCCESS"
proof -
  obtain req where req: "BuildUnlockRequestJson demo_libs (demo_env 0) demo_conn = Some (Some req, demo_conn)"
    using demo_request by blast
  have reply: "ProcessUnlockResponseJson demo_libs (demo_env 0) demo_reply (demo_conn\<lparr>uc_HasConnection := True\<rparr>) =
      Some (set_state US_SUCCESS (demo_conn\<lparr>uc_HasConnection := True, uc_ResponseData := demo_data\<rparr>))"
    using good_reply_succeeds [OF demo_phone(1,2) demo_phone(8) demo_phone(8) demo_phone(9,10,11) demo_phone(13,14,15),
        of "demo_conn\<lparr>uc_HasConnection := True\<rparr>" demo_sealed demo_reply] demo_phone by simp
  have "j_dump (lb_json demo_libs) v = Some (put_val v)" for v by (simp add: demo_libs_def demo_dump)
  with req reply show ?thesis
    by (simp add: demo_relay_def RelayThread_def demo_client_conn demo_body_field)
qed

lemma relay_untrusted_witness:
  "\<exists>c'. demo_relay = Some c' \<and> (\<exists>n respStr. good_response demo_libs (demo_env 0) (uc_PairedDevice (ck_conn c'))
     (uc_UnlockToken (ck_conn demo_client)) respStr (uc_ResponseData (ck_conn c')))"
proof -
  obtain c' where c': "demo_relay = Some c'" "uc_UnlockState (ck_conn c') = US_SUCCESS"
    using demo_relay_unlocks by blast
  have "crypt_laws (lb_crypt demo_libs)" "uc_UnlockState (ck_conn demo_client) \<noteq> US_SUCCESS"
    by (simp_all add: demo_libs_def toy_crypt_laws demo_client_conn demo_conn_fields)
  from relay_untrusted [OF this c'(1) [unfolded demo_relay_def]] c' show ?thesis by blast
qed

end
