(* ===== verification/NetworkHelper.thy ===== *)
theory NetworkHelper
  imports StringUtils "HOL-Library.Multiset" "HOL-Library.List_Lexorder" "HOL-Library.Char_ord" "HOL-Library.Product_Lexorder"
begin

text \<open>
  \<open>common/src/platform/NetworkHelper.cpp\<close>: the network interfaces of the computer, their order, and the
  targets of a broadcast. What \<open>getifaddrs\<close> and \<open>GetAdaptersAddresses\<close> list are records; \<open>inet_pton\<close> and
  \<open>inet_ntop\<close> are the parameters \<open>pton\<close> and \<open>ntop\<close> on addresses in host order (the operations on them are
  bitwise). The connectivity query of Windows (\<open>HasLANConnection\<close>) is not modelled.
\<close>

record NetworkInterface =
  ni_ifName :: string
  ni_ipAddress :: string
  ni_netmask :: string
  ni_macAddress :: string
  ni_gateway :: string
  ni_isWired :: bool

record BroadcastTarget =
  bt_sourceIP :: string
  bt_broadcastIP :: string

definition new_interface :: NetworkInterface where
  "new_interface = \<lparr>ni_ifName = [], ni_ipAddress = [], ni_netmask = [], ni_macAddress = [], ni_gateway = [],
     ni_isWired = False\<rparr>"

section \<open>Private addresses\<close>

text \<open>
  \<open>g_LocalIPv4Regex\<close>: four parts between dots. \<open>digits13\<close> is \<open>[0-9]{1,3}\<close>; the three alternatives
  for 172 allow one more digit after the two they name.
\<close>

definition ascii_digit :: "char \<Rightarrow> bool" where
  "ascii_digit c \<longleftrightarrow> CHR ''0'' \<le> c \<and> c \<le> CHR ''9''"

definition digits13 :: "string \<Rightarrow> bool" where
  "digits13 s \<longleftrightarrow> s \<noteq> [] \<and> length s \<le> 3 \<and> list_all ascii_digit s"

definition opt_digit :: "string \<Rightarrow> bool" where
  "opt_digit s \<longleftrightarrow> s = [] \<or> length s = 1 \<and> list_all ascii_digit s"

definition second_of_172 :: "string \<Rightarrow> bool" where
  "second_of_172 s \<longleftrightarrow> (case s of
       x # y # r \<Rightarrow> opt_digit r \<and>
         (x = CHR ''1'' \<and> CHR ''6'' \<le> y \<and> y \<le> CHR ''9'' \<or>
          x = CHR ''2'' \<and> ascii_digit y \<or>
          x = CHR ''3'' \<and> CHR ''0'' \<le> y \<and> y \<le> CHR ''1'')
     | _ \<Rightarrow> False)"

definition local_ipv4 :: "string \<Rightarrow> bool" where
  "local_ipv4 s \<longleftrightarrow> (case split_list ''.'' s of
       [a, b, c, d] \<Rightarrow> digits13 c \<and> digits13 d \<and>
         (a = ''10'' \<and> digits13 b \<or> a = ''172'' \<and> second_of_172 b \<or> a = ''192'' \<and> b = ''168'')
     | _ \<Rightarrow> False)"

section \<open>Interfaces on Linux and macOS\<close>

datatype family = INET | PACKET | OTHER_FAMILY

record ifaddr =
  if_name :: string
  if_null_addr :: bool
  if_loopback :: bool
  if_up :: bool
  if_family :: family
  if_host :: "string option"     \<comment> \<open>\<open>getnameinfo\<close> on the address\<close>
  if_mask :: "string option"     \<comment> \<open>\<open>getnameinfo\<close> on the netmask; None also when there is none\<close>
  if_hwaddr :: bytes             \<comment> \<open>six bytes\<close>
  if_wired :: bool               \<comment> \<open>\<open>IsWiredEthernet\<close>\<close>

definition hex_digit :: "nat \<Rightarrow> char" where
  "hex_digit n = (''0123456789ABCDEF'') ! n"

definition hex2 :: "u8 \<Rightarrow> string" where
  "hex2 b = [hex_digit (unat b div 16), hex_digit (unat b mod 16)]"

definition mac_text :: "bytes \<Rightarrow> string" where
  "mac_text bs = intercalate '':'' (map hex2 bs)"

definition update_interface :: "platform \<Rightarrow> ifaddr \<Rightarrow> NetworkInterface \<Rightarrow> NetworkInterface" where
  "update_interface pf a i =
     (let addr = (case if_host a of Some h \<Rightarrow> h | None \<Rightarrow> []) in
      case if_family a of
        INET \<Rightarrow> (case if_mask a of None \<Rightarrow> i\<lparr>ni_ipAddress := addr\<rparr> | Some m \<Rightarrow> i\<lparr>ni_ipAddress := addr, ni_netmask := m\<rparr>)
      | PACKET \<Rightarrow> i\<lparr>ni_macAddress := if pf = Linux then mac_text (if_hwaddr a) else addr\<rparr>
      | OTHER_FAMILY \<Rightarrow> i)"

text \<open>\<open>ifMap\<close>: an association list in key order, as \<open>std::map\<close> iterates.\<close>

fun map_update :: "string \<Rightarrow> (NetworkInterface option \<Rightarrow> NetworkInterface) \<Rightarrow> (string \<times> NetworkInterface) list \<Rightarrow>
    (string \<times> NetworkInterface) list" where
  "map_update k f [] = [(k, f None)]"
| "map_update k f ((j, i) # m) =
     (if k < j then (k, f None) # (j, i) # m
      else if k = j then (j, f (Some i)) # m
      else (j, i) # map_update k f m)"

definition add_ifaddr :: "platform \<Rightarrow> ifaddr \<Rightarrow> (string \<times> NetworkInterface) list \<Rightarrow> (string \<times> NetworkInterface) list" where
  "add_ifaddr pf a m =
     (if if_null_addr a \<or> if_loopback a \<or> \<not> if_up a then m
      else if if_family a = OTHER_FAMILY then m
      else if if_host a = None \<and> if_family a \<noteq> PACKET then m
      else map_update (if_name a)
        (\<lambda>old. update_interface pf a
           (case old of Some i \<Rightarrow> i
            | None \<Rightarrow> new_interface\<lparr>ni_ifName := if_name a, ni_isWired := if_wired a\<rparr>)) m)"

definition unix_interfaces :: "platform \<Rightarrow> ifaddr list \<Rightarrow> NetworkInterface list" where
  "unix_interfaces pf as =
     filter (\<lambda>i. ni_ipAddress i \<noteq> []) (map snd (fold (add_ifaddr pf) as []))"

section \<open>Interfaces on Windows\<close>

record adapter =
  ad_loopback :: bool
  ad_up :: bool
  ad_name :: string
  ad_mac :: bytes
  ad_ethernet :: bool
  ad_unicast :: "(bool \<times> string \<times> string option) list"   \<comment> \<open>IPv4?, address, mask of the prefix length\<close>
  ad_gateway :: "(bool \<times> string) list"

definition add_unicast :: "bool \<times> string \<times> string option \<Rightarrow> NetworkInterface \<Rightarrow> NetworkInterface" where
  "add_unicast u i = (case u of (inet, addr, nm) \<Rightarrow>
     if \<not> inet then i
     else (case nm of None \<Rightarrow> i\<lparr>ni_ipAddress := addr\<rparr> | Some m \<Rightarrow> i\<lparr>ni_ipAddress := addr, ni_netmask := m\<rparr>))"

definition add_gateway :: "bool \<times> string \<Rightarrow> NetworkInterface \<Rightarrow> NetworkInterface" where
  "add_gateway g i = (case g of (inet, addr) \<Rightarrow> if \<not> inet then i else i\<lparr>ni_gateway := addr\<rparr>)"

definition win_interface :: "adapter \<Rightarrow> NetworkInterface" where
  "win_interface a = fold add_gateway (ad_gateway a) (fold add_unicast (ad_unicast a)
     (new_interface\<lparr>ni_ifName := ad_name a, ni_macAddress := mac_text (ad_mac a), ni_isWired := ad_ethernet a\<rparr>))"

definition win_interfaces :: "adapter list \<Rightarrow> NetworkInterface list" where
  "win_interfaces as =
     filter (\<lambda>i. ni_ipAddress i \<noteq> [])
       (map win_interface (filter (\<lambda>a. \<not> (ad_loopback a \<or> \<not> ad_up a)) as))"

section \<open>Order and selection\<close>

definition isVirtual :: "platform \<Rightarrow> NetworkInterface \<Rightarrow> bool" where
  "isVirtual pf i =
     (let n = ni_ifName i in
      if pf = Windows then
        str_contains n ''Bluetooth'' \<or> str_contains n ''vEthernet'' \<or> str_contains n ''VMware'' \<or>
        str_contains n ''VirtualBox'' \<or> str_contains n ''Docker''
      else starts_with n ''vir'' \<or> starts_with n ''docker'' \<or> starts_with n ''ham'' \<or> starts_with n ''bridge'')"

definition rankIp :: "platform \<Rightarrow> NetworkInterface \<Rightarrow> int" where
  "rankIp pf i =
     (if local_ipv4 (ni_ipAddress i) then 1000 else 0) +
     (if ni_gateway i \<noteq> [] then 100 else 0) +
     (if starts_with (ni_ipAddress i) ''192.168.'' \<or> starts_with (ni_ipAddress i) ''10.'' then 50 else 0) -
     (if starts_with (ni_ipAddress i) ''169.254.'' then 10 else 0) -
     (if isVirtual pf i then 100 else 0)"

text \<open>
  The comparator's order as a key. Where \<open>std::sort\<close> leaves the order of equal elements (same rank, same name
  up to case) open, the model keeps them as they came.
\<close>

definition sort_rank :: "platform \<Rightarrow> NetworkInterface \<Rightarrow> int \<times> string" where
  "sort_rank pf i = (- rankIp pf i, ToLower (ni_ifName i))"

definition GetLocalNetInterfaces :: "platform \<Rightarrow> bool \<Rightarrow> NetworkInterface list \<Rightarrow> NetworkInterface list" where
  "GetLocalNetInterfaces pf onlyValid found =
     sort_key (sort_rank pf)
       (if onlyValid then filter (\<lambda>i. \<not> (isVirtual pf i \<or> \<not> local_ipv4 (ni_ipAddress i))) found else found)"

definition GetSavedNetworkInterface :: "string \<Rightarrow> string \<Rightarrow> NetworkInterface list \<Rightarrow> NetworkInterface" where
  "GetSavedNetworkInterface serverIP serverMAC localIfs =
     (if serverIP = ''auto'' then
        (case find (\<lambda>i. ni_macAddress i = serverMAC) localIfs of
           Some i \<Rightarrow> i
         | None \<Rightarrow> if localIfs \<noteq> [] then hd localIfs else new_interface)
      else new_interface\<lparr>ni_ipAddress := serverIP\<rparr>)"

definition GetWakeOnLanInterfaces :: "platform \<Rightarrow> NetworkInterface list \<Rightarrow> NetworkInterface list" where
  "GetWakeOnLanInterfaces pf found =
     filter (\<lambda>i. ni_isWired i \<and> \<not> (ni_macAddress i = [] \<or> ni_macAddress i = ''00:00:00:00:00:00''))
       (GetLocalNetInterfaces pf True found)"

definition broadcast_target :: "(string \<Rightarrow> u32 option) \<Rightarrow> (u32 \<Rightarrow> string option) \<Rightarrow> NetworkInterface \<Rightarrow>
    BroadcastTarget option" where
  "broadcast_target pton ntop i =
     (if ni_ipAddress i = [] then None
      else if \<not> local_ipv4 (ni_ipAddress i) \<and> \<not> starts_with (ni_ipAddress i) ''169.254.'' then None
      else case pton (ni_ipAddress i) of
        None \<Rightarrow> None
      | Some ipAddr \<Rightarrow>
          (let any = ''255.255.255.255'';
               broadcastIP = (if ni_netmask i = [] then any
                 else case pton (ni_netmask i) of
                   None \<Rightarrow> any
                 | Some maskAddr \<Rightarrow>
                     (case ntop (or ipAddr (not maskAddr)) of None \<Rightarrow> any | Some b \<Rightarrow> b))
           in Some \<lparr>bt_sourceIP = ni_ipAddress i, bt_broadcastIP = broadcastIP\<rparr>))"

definition GetBroadcastTargets :: "platform \<Rightarrow> (string \<Rightarrow> u32 option) \<Rightarrow> (u32 \<Rightarrow> string option) \<Rightarrow> NetworkInterface list \<Rightarrow>
    BroadcastTarget list" where
  "GetBroadcastTargets pf pton ntop found =
     List.map_filter (broadcast_target pton ntop) (GetLocalNetInterfaces pf False found)"

text \<open>\<open>IsWiredEthernet\<close>, on Linux: which of the four paths exist, and the number in \<open>type\<close>.\<close>

definition IsWiredEthernet :: "platform \<Rightarrow> bool \<Rightarrow> bool \<Rightarrow> bool \<Rightarrow> int option \<Rightarrow> bool" where
  "IsWiredEthernet pf wireless phy80211 device type =
     (if pf \<noteq> Linux then False
      else if wireless \<or> phy80211 then False
      else if \<not> device then False
      else case type of Some t \<Rightarrow> t = 1 | None \<Rightarrow> False)"

section \<open>Facts\<close>

lemma find_in_char: "c \<notin> set p \<Longrightarrow> find_in [c] (p @ c # r) = Some (length p)"
  by (induction p) auto

lemma find_in_no_char: "c \<notin> set p \<Longrightarrow> find_in [c] p = None"
  by (induction p) auto

lemma split_char: "c \<notin> set p \<Longrightarrow> split_list [c] (p @ c # r) = p # split_list [c] r"
  by (subst split_list.simps) (simp add: str_find_def find_in_char)

lemma split_no_char: "c \<notin> set p \<Longrightarrow> split_list [c] p = [p]"
  by (subst split_list.simps) (simp add: str_find_def find_in_no_char)

text \<open>A dotted quad of octets.\<close>

definition digit :: "nat \<Rightarrow> char" where
  "digit k = (''0123456789'') ! k"

definition dec :: "nat \<Rightarrow> string" where
  "dec n =
     (if n < 10 then [digit n] else if n < 100 then [digit (n div 10), digit (n mod 10)]
      else [digit (n div 100), digit (n div 10 mod 10), digit (n mod 10)])"

definition dotted :: "nat \<Rightarrow> nat \<Rightarrow> nat \<Rightarrow> nat \<Rightarrow> string" where
  "dotted a b c d = dec a @ CHR ''.'' # dec b @ CHR ''.'' # dec c @ CHR ''.'' # dec d"

lemma digit_code:
  assumes "k < 10"
  shows "of_char (digit k) = 48 + k"
proof -
  from assms have "k \<in> {0, 1, 2, 3, 4, 5, 6, 7, 8, 9}" by auto
  then show ?thesis by (elim insertE emptyE) (simp_all add: digit_def)
qed

lemma char_eq_code: "c = d \<longleftrightarrow> (of_char c :: nat) = of_char d"
  by simp

lemma digit_eq: "k < 10 \<Longrightarrow> digit k = c \<longleftrightarrow> 48 + k = of_char c"
  by (simp only: char_eq_code digit_code)

lemma digit_facts:
  assumes "k < 10"
  shows "ascii_digit (digit k)"
    and "CHR ''6'' \<le> digit k \<longleftrightarrow> 6 \<le> k" and "digit k \<le> CHR ''9''" and "CHR ''0'' \<le> digit k"
    and "digit k \<le> CHR ''1'' \<longleftrightarrow> k \<le> 1"
  using assms by (simp_all add: ascii_digit_def less_eq_char_def digit_code)

lemma digit_eqs:
  assumes "k < 10"
  shows "digit k \<noteq> CHR ''.''" and "digit k = CHR ''0'' \<longleftrightarrow> k = 0" and "digit k = CHR ''1'' \<longleftrightarrow> k = 1"
    and "digit k = CHR ''2'' \<longleftrightarrow> k = 2" and "digit k = CHR ''3'' \<longleftrightarrow> k = 3" and "digit k = CHR ''6'' \<longleftrightarrow> k = 6"
    and "digit k = CHR ''7'' \<longleftrightarrow> k = 7" and "digit k = CHR ''8'' \<longleftrightarrow> k = 8" and "digit k = CHR ''9'' \<longleftrightarrow> k = 9"
  unfolding digit_eq [OF assms] using assms by auto

lemmas digits [simp] = digit_facts digit_eqs digit_eqs(1) [symmetric]

lemma dec_facts:
  assumes "n < 256"
  shows "digits13 (dec n)" and "CHR ''.'' \<notin> set (dec n)"
    and "second_of_172 (dec n) \<longleftrightarrow> 16 \<le> n \<and> n \<le> 31 \<or> 160 \<le> n"
    and "dec n = ''10'' \<longleftrightarrow> n = 10" and "dec n = ''172'' \<longleftrightarrow> n = 172" and "dec n = ''192'' \<longleftrightarrow> n = 192"
    and "dec n = ''168'' \<longleftrightarrow> n = 168"
proof -
  have d: "n div 10 < 10" if "n < 100" using that by simp
  have e: "n div 100 < 10" "n div 10 mod 10 < 10" "n mod 10 < 10" using assms by simp_all
  consider "n < 10" "dec n = [digit n]" | "10 \<le> n" "n < 100" "dec n = [digit (n div 10), digit (n mod 10)]"
    | "100 \<le> n" "dec n = [digit (n div 100), digit (n div 10 mod 10), digit (n mod 10)]"
    unfolding dec_def by force
  note split = this
  have sum: "n = 100 * (n div 100) + 10 * (n div 10 mod 10) + n mod 10"
  proof -
    have "n div 10 div 10 = n div 100" by (simp add: div_mult2_eq [symmetric])
    then show ?thesis using div_mult_mod_eq [of n 10] div_mult_mod_eq [of "n div 10" 10] by linarith
  qed
  show "digits13 (dec n)" by (rule split) (use d e in \<open>simp_all add: digits13_def\<close>)
  show "CHR ''.'' \<notin> set (dec n)" by (rule split) (use d e in simp_all)
  show "second_of_172 (dec n) \<longleftrightarrow> 16 \<le> n \<and> n \<le> 31 \<or> 160 \<le> n"
  proof (rule split)
    assume n: "10 \<le> n" "n < 100" "dec n = [digit (n div 10), digit (n mod 10)]"
    have "second_of_172 (dec n) \<longleftrightarrow> n div 10 = 1 \<and> 6 \<le> n mod 10 \<or> n div 10 = 2 \<or> n div 10 = 3 \<and> n mod 10 \<le> 1"
      using d [OF n(2)] e(3) unfolding n(3) by (simp add: second_of_172_def opt_digit_def)
    moreover have "n = 10 * (n div 10) + n mod 10" by simp
    ultimately show ?thesis using n(1,2) e(3) by linarith
  next
    assume n: "100 \<le> n" "dec n = [digit (n div 100), digit (n div 10 mod 10), digit (n mod 10)]"
    have "n div 100 \<noteq> 3" using assms by simp
    then have "second_of_172 (dec n) \<longleftrightarrow> n div 100 = 1 \<and> 6 \<le> n div 10 mod 10 \<or> n div 100 = 2"
      using e unfolding n(2) by (simp add: second_of_172_def opt_digit_def)
    with n(1) assms sum e show ?thesis by linarith
  qed (simp add: second_of_172_def)
  have two: "dec n = [x, y] \<longleftrightarrow> 10 \<le> n \<and> n < 100 \<and> digit (n div 10) = x \<and> digit (n mod 10) = y" for x y
    by (rule split) simp_all
  have three: "dec n = [x, y, z] \<longleftrightarrow> 100 \<le> n \<and> digit (n div 100) = x \<and> digit (n div 10 mod 10) = y \<and> digit (n mod 10) = z" for x y z
    by (rule split) simp_all
  have "10 \<le> n \<and> n < 100 \<and> n div 10 = 1 \<and> n mod 10 = 0 \<longleftrightarrow> n = 10" by presburger
  then show "dec n = ''10'' \<longleftrightarrow> n = 10" unfolding two using digit_eqs(3) [OF d] digit_eqs(2) [OF e(3)] by metis
  have "100 \<le> n \<and> n div 100 = 1 \<and> n div 10 mod 10 = 7 \<and> n mod 10 = 2 \<longleftrightarrow> n = 172"
    "100 \<le> n \<and> n div 100 = 1 \<and> n div 10 mod 10 = 9 \<and> n mod 10 = 2 \<longleftrightarrow> n = 192"
    "100 \<le> n \<and> n div 100 = 1 \<and> n div 10 mod 10 = 6 \<and> n mod 10 = 8 \<longleftrightarrow> n = 168"
    using sum by auto
  then show "dec n = ''172'' \<longleftrightarrow> n = 172" "dec n = ''192'' \<longleftrightarrow> n = 192" "dec n = ''168'' \<longleftrightarrow> n = 168"
    unfolding three digit_eqs [OF e(1)] digit_eqs [OF e(2)] digit_eqs [OF e(3)] by blast+
qed

lemma local_ipv4_dotted:
  assumes "a < 256" and "b < 256" and "c < 256" and "d < 256"
  shows "local_ipv4 (dotted a b c d) \<longleftrightarrow>
    a = 10 \<or> a = 192 \<and> b = 168 \<or> a = 172 \<and> (16 \<le> b \<and> b \<le> 31 \<or> 160 \<le> b)"
proof -
  have "split_list ''.'' (dotted a b c d) = [dec a, dec b, dec c, dec d]"
    using assms by (simp add: dotted_def split_char split_no_char dec_facts(2))
  then have "local_ipv4 (dotted a b c d) \<longleftrightarrow>
      dec a = ''10'' \<or> dec a = ''172'' \<and> second_of_172 (dec b) \<or> dec a = ''192'' \<and> dec b = ''168''"
    using dec_facts(1) assms by (simp add: local_ipv4_def)
  then show ?thesis
    unfolding dec_facts(4-6) [OF assms(1)] dec_facts(3,7) [OF assms(2)] by blast
qed

text \<open>
  C21: The regular expression for private addresses accepts exactly 10.0.0.0/8, 192.168.0.0/16 and, of 172.0.0.0/8,
  the private second octets 16 to 31 and, because of a digit too many, the public ones from 160 on.
\<close>

theorem private_addresses:
  assumes "a < 256" and "b < 256" and "c < 256" and "d < 256"
  shows "local_ipv4 (dotted a b c d) \<longleftrightarrow>
    a = 10 \<or> a = 192 \<and> b = 168 \<or> a = 172 \<and> (16 \<le> b \<and> b \<le> 31 \<or> 160 \<le> b)"
  by (rule local_ipv4_dotted [OF assms])

text \<open>
  The list of interfaces is what was found (without virtual and public ones when only valid ones are asked
  for), ordered by descending rank and by name within a rank.
\<close>

theorem interfaces_ranked:
  "mset (GetLocalNetInterfaces pf onlyValid found) =
     (if onlyValid then filter_mset (\<lambda>i. \<not> isVirtual pf i \<and> local_ipv4 (ni_ipAddress i)) (mset found) else mset found) \<and>
   sorted_wrt (\<lambda>i j. rankIp pf i > rankIp pf j \<or>
       rankIp pf i = rankIp pf j \<and> ToLower (ni_ifName i) \<le> ToLower (ni_ifName j))
     (GetLocalNetInterfaces pf onlyValid found)"
proof -
  have "sorted (map (sort_rank pf) (GetLocalNetInterfaces pf onlyValid found))"
    by (simp add: GetLocalNetInterfaces_def)
  then have "sorted_wrt (\<lambda>i j. sort_rank pf i \<le> sort_rank pf j) (GetLocalNetInterfaces pf onlyValid found)"
    by (simp add: sorted_map)
  then have "sorted_wrt (\<lambda>i j. rankIp pf i > rankIp pf j \<or>
       rankIp pf i = rankIp pf j \<and> ToLower (ni_ifName i) \<le> ToLower (ni_ifName j))
     (GetLocalNetInterfaces pf onlyValid found)"
    by (rule sorted_wrt_mono_rel [rotated]) (auto simp: sort_rank_def less_eq_prod_def)
  then show ?thesis by (auto simp: GetLocalNetInterfaces_def)
qed

text \<open>
  A broadcast goes out from an interface with a private or link-local address, to the address of the same
  subnet in which every host bit is set, when the interface has a readable netmask.
\<close>

theorem broadcast_in_subnet:
  assumes "\<forall>w. \<exists>s. ntop w = Some s \<and> pton s = Some w"
    and "t \<in> set (GetBroadcastTargets pf pton ntop found)"
  shows "\<exists>i \<in> set found. \<exists>ip. bt_sourceIP t = ni_ipAddress i \<and> pton (ni_ipAddress i) = Some ip \<and>
    (local_ipv4 (ni_ipAddress i) \<or> starts_with (ni_ipAddress i) ''169.254.'') \<and>
    (\<forall>m. ni_netmask i \<noteq> [] \<and> pton (ni_netmask i) = Some m \<longrightarrow>
      (\<exists>b. pton (bt_broadcastIP t) = Some b \<and> and b m = and ip m \<and> and b (not m) = not m))"
proof -
  obtain i where i: "i \<in> set (GetLocalNetInterfaces pf False found)" "broadcast_target pton ntop i = Some t"
    using assms(2) by (auto simp: GetBroadcastTargets_def List.map_filter_def)
  obtain ip where ip: "pton (ni_ipAddress i) = Some ip" "bt_sourceIP t = ni_ipAddress i"
    "local_ipv4 (ni_ipAddress i) \<or> starts_with (ni_ipAddress i) ''169.254.''"
    using i(2) by (auto simp: broadcast_target_def Let_def split: if_splits option.splits)
  have "\<exists>b. pton (bt_broadcastIP t) = Some b \<and> and b m = and ip m \<and> and b (not m) = not m"
    if m: "ni_netmask i \<noteq> []" "pton (ni_netmask i) = Some m" for m
  proof -
    let ?b = "or ip (not m)"
    obtain s where s: "ntop ?b = Some s" "pton s = Some ?b" using assms(1) by blast
    have "bt_broadcastIP t = s"
      using i(2) ip(1) m s by (auto simp: broadcast_target_def Let_def split: if_splits)
    moreover have "and ?b m = and ip m" "and ?b (not m) = not m"
      by (rule bit_word_eqI; auto simp: bit_simps)+
    ultimately show ?thesis using s by auto
  qed
  then show ?thesis using i(1) ip by (auto simp: GetLocalNetInterfaces_def intro!: bexI [of _ i])
qed

text \<open>On Linux and macOS there is one entry per name, in name order, and each has an address.\<close>

lemma map_update_set: "set (map fst (map_update k f m)) = insert k (set (map fst m))"
proof (induction m)
  case (Cons a m)
  then show ?case by (cases a) auto
qed simp

lemma map_update_keys: "sorted_wrt (<) (map fst m) \<Longrightarrow> sorted_wrt (<) (map fst (map_update k f m))"
proof (induction m)
  case (Cons a m)
  obtain j i where a: "a = (j, i)" by (cases a)
  have "\<forall>x \<in> set (map fst (map_update k f m)). j < x" if "j < k"
    using Cons.prems that unfolding map_update_set by (auto simp: a)
  moreover have "\<forall>x \<in> set (map fst m). k < x" if "k < j"
    using Cons.prems that by (auto simp: a intro: less_trans)
  ultimately show ?case using Cons by (auto simp: a)
qed simp

lemma ifMap_keys: "sorted_wrt (<) (map fst (fold (add_ifaddr pf) as m))" if "sorted_wrt (<) (map fst m)"
  using that by (induction as arbitrary: m) (auto simp: add_ifaddr_def map_update_keys)

lemma unix_interfaces_addresses: "i \<in> set (unix_interfaces pf as) \<Longrightarrow> ni_ipAddress i \<noteq> []"
  by (simp add: unix_interfaces_def)

lemma saved_interface:
  "GetSavedNetworkInterface ''auto'' mac ifs = i \<Longrightarrow> ifs \<noteq> [] \<Longrightarrow>
     i \<in> set ifs \<and> ((\<exists>j \<in> set ifs. ni_macAddress j = mac) \<longrightarrow> ni_macAddress i = mac)"
  by (auto simp: GetSavedNetworkInterface_def find_None_iff find_Some_iff split: option.splits)

section \<open>Witnesses\<close>

lemma private_addresses_witness:
  "local_ipv4 (dotted 192 168 0 1) \<and> local_ipv4 (dotted 172 200 0 1) \<and> \<not> local_ipv4 (dotted 172 32 0 1)"
  using private_addresses [of 192 168 0 1] private_addresses [of 172 200 0 1] private_addresses [of 172 32 0 1] by simp

text \<open>An address conversion for the witness: two addresses in the usual notation, all others in unary.\<close>

definition toy_ntop :: "u32 \<Rightarrow> string option" where
  "toy_ntop w = Some (CHR ''x'' # replicate (unat w) CHR ''i'')"

definition toy_pton :: "string \<Rightarrow> u32 option" where
  "toy_pton s = (if s = ''10.0.0.5'' then Some 0x0A000005 else if s = ''255.0.0.0'' then Some 0xFF000000
     else Some (of_nat (length s - 1)))"

definition demo_interface :: NetworkInterface where
  "demo_interface = new_interface\<lparr>ni_ifName := ''eth0'', ni_ipAddress := ''10.0.0.5'', ni_netmask := ''255.0.0.0''\<rparr>"

lemma demo_local: "local_ipv4 ''10.0.0.5''"
  using local_ipv4_dotted [of 10 0 0 5] by (simp add: dotted_def dec_def digit_def)

lemma broadcast_in_subnet_witness:
  "\<exists>b. toy_pton (bt_broadcastIP (hd (GetBroadcastTargets Linux toy_pton toy_ntop [demo_interface]))) = Some b \<and>
     and b (not 0xFF000000) = not 0xFF000000"
proof -
  let ?t = "hd (GetBroadcastTargets Linux toy_pton toy_ntop [demo_interface])"
  have laws: "\<forall>w. \<exists>s. toy_ntop w = Some s \<and> toy_pton s = Some w"
    by (simp add: toy_ntop_def toy_pton_def)
  have "GetBroadcastTargets Linux toy_pton toy_ntop [demo_interface] \<noteq> []"
    by (simp add: GetBroadcastTargets_def GetLocalNetInterfaces_def List.map_filter_def broadcast_target_def
        demo_interface_def demo_local toy_pton_def toy_ntop_def Let_def)
  then have "?t \<in> set (GetBroadcastTargets Linux toy_pton toy_ntop [demo_interface])" by (rule hd_in_set)
  moreover have "ni_netmask demo_interface \<noteq> []" "toy_pton (ni_netmask demo_interface) = Some 0xFF000000"
    by (simp_all add: demo_interface_def toy_pton_def)
  ultimately show ?thesis using broadcast_in_subnet [OF laws] by fastforce
qed

end
