(* ===== verification/UDPBroadcaster.thy ===== *)
theory UDPBroadcaster
  imports NetworkHelper CryptUtils Packets WitnessLibs Workers
begin

text \<open>
  \<open>common/src/connection/UDPBroadcaster.cpp\<close> and its two users, \<open>unlock/UDPUnlockBroadcaster.cpp\<close> and
  \<open>pairing/UDPPairingBroadcaster.cpp\<close>: a thread that sends a datagram to every broadcast target at a fixed
  interval. \<open>Start\<close> and \<open>Stop\<close> may be called from several threads; their single accesses to the atomic flag and
  to the \<open>std::thread\<close> member are the steps of a relation.
\<close>

section \<open>One caller\<close>

record broadcaster =
  ub_running :: bool
  ub_joinable :: bool

text \<open>\<open>m_IsRunning.exchange(true)\<close>, then the assignment to \<open>m_Thread\<close>, which terminates when that is joinable.\<close>

definition Broadcaster_Start :: "broadcaster \<Rightarrow> (bool \<times> broadcaster) option" where
  "Broadcaster_Start b =
     (if ub_running b then Some (True, b)
      else if ub_joinable b then None
      else Some (True, b\<lparr>ub_running := True, ub_joinable := True\<rparr>))"

definition Broadcaster_Stop :: "broadcaster \<Rightarrow> broadcaster" where
  "Broadcaster_Stop b =
     (if \<not> ub_running b then b else b\<lparr>ub_running := False, ub_joinable := False\<rparr>)"

interpretation broadcast_worker: lazy_worker Broadcaster_Start Broadcaster_Stop ub_running ub_joinable "\<lambda>_. True"
  by unfold_locales (auto simp: Broadcaster_Start_def Broadcaster_Stop_def)

text \<open>One caller alone keeps flag and thread together, so that no \<open>Start\<close> ever meets a joinable thread.\<close>

datatype call = Start | Stop

fun serial_calls :: "call list \<Rightarrow> broadcaster \<Rightarrow> broadcaster option" where
  "serial_calls [] b = Some b"
| "serial_calls (Start # cs) b = (case Broadcaster_Start b of None \<Rightarrow> None | Some (_, b) \<Rightarrow> serial_calls cs b)"
| "serial_calls (Stop # cs) b = serial_calls cs (Broadcaster_Stop b)"

lemma serial_calls_safe:
  "ub_running b = ub_joinable b \<Longrightarrow> \<exists>b'. serial_calls cs b = Some b' \<and> ub_running b' = ub_joinable b'"
proof (induction cs arbitrary: b)
  case (Cons c cs)
  have stop: "ub_running (Broadcaster_Stop b) = ub_joinable (Broadcaster_Stop b)"
    using Cons.prems by (simp add: Broadcaster_Stop_def)
  obtain t where start: "Broadcaster_Start b = Some (True, t)" "ub_running t = ub_joinable t"
    using Cons.prems by (cases "ub_running b") (auto simp: Broadcaster_Start_def)
  show ?case using Cons.IH [OF stop] Cons.IH [OF start(2)] start(1) by (cases c) simp_all
qed simp

section \<open>Several callers\<close>

datatype bpc = Outside | Starting | Stopping

record bsys =
  bs_running :: bool
  bs_joinable :: bool
  bs_pc :: "nat \<Rightarrow> bpc"
  bs_terminated :: bool

definition init_bsys :: bsys where
  "init_bsys = \<lparr>bs_running = False, bs_joinable = False, bs_pc = (\<lambda>_. Outside), bs_terminated = False\<rparr>"

text \<open>\<open>join\<close> returns only when the broadcast loop has seen the cleared flag.\<close>

inductive bstep :: "bsys \<Rightarrow> bsys \<Rightarrow> bool" where
  start_again: "bs_pc s i = Outside \<Longrightarrow> bs_running s \<Longrightarrow> bstep s s"
| start_flag: "bs_pc s i = Outside \<Longrightarrow> \<not> bs_running s \<Longrightarrow>
     bstep s (s\<lparr>bs_running := True, bs_pc := (bs_pc s)(i := Starting)\<rparr>)"
| start_thread: "bs_pc s i = Starting \<Longrightarrow> \<not> bs_joinable s \<Longrightarrow>
     bstep s (s\<lparr>bs_joinable := True, bs_pc := (bs_pc s)(i := Outside)\<rparr>)"
| start_terminate: "bs_pc s i = Starting \<Longrightarrow> bs_joinable s \<Longrightarrow> bstep s (s\<lparr>bs_terminated := True\<rparr>)"
| stop_again: "bs_pc s i = Outside \<Longrightarrow> \<not> bs_running s \<Longrightarrow> bstep s s"
| stop_flag: "bs_pc s i = Outside \<Longrightarrow> bs_running s \<Longrightarrow>
     bstep s (s\<lparr>bs_running := False, bs_pc := (bs_pc s)(i := Stopping)\<rparr>)"
| stop_join: "bs_pc s i = Stopping \<Longrightarrow> bs_joinable s \<Longrightarrow> \<not> bs_running s \<Longrightarrow>
     bstep s (s\<lparr>bs_joinable := False, bs_pc := (bs_pc s)(i := Outside)\<rparr>)"
| stop_unjoinable: "bs_pc s i = Stopping \<Longrightarrow> \<not> bs_joinable s \<Longrightarrow>
     bstep s (s\<lparr>bs_pc := (bs_pc s)(i := Outside)\<rparr>)"

inductive breach :: "nat set \<Rightarrow> bsys \<Rightarrow> bool" for callers where
  breach_init: "breach callers init_bsys"
| breach_step: "breach callers s \<Longrightarrow> bstep s t \<Longrightarrow> (\<forall>i. i \<notin> callers \<longrightarrow> bs_pc t i = Outside) \<Longrightarrow> breach callers t"

text \<open>With one calling thread the three cases of its program counter fix flag and member.\<close>

definition one_caller :: "nat \<Rightarrow> bsys \<Rightarrow> bool" where
  "one_caller k s \<longleftrightarrow> \<not> bs_terminated s \<and> (\<forall>i. i \<noteq> k \<longrightarrow> bs_pc s i = Outside) \<and>
     (case bs_pc s k of
        Outside \<Rightarrow> bs_running s = bs_joinable s
      | Starting \<Rightarrow> bs_running s \<and> \<not> bs_joinable s
      | Stopping \<Rightarrow> \<not> bs_running s \<and> bs_joinable s)"

lemma one_caller_step:
  assumes "bstep s t" and "one_caller k s" and "\<forall>i. i \<notin> {k} \<longrightarrow> bs_pc t i = Outside"
  shows "one_caller k t"
  using assms
proof (induction rule: bstep.induct)
  case (start_flag s i)
  then show ?case by (cases "i = k") (auto simp: one_caller_def split: if_splits)
next
  case (start_thread s i)
  then show ?case by (cases "i = k") (auto simp: one_caller_def)
next
  case (start_terminate s i)
  then show ?case by (cases "i = k") (auto simp: one_caller_def)
next
  case (stop_flag s i)
  then show ?case by (cases "i = k") (auto simp: one_caller_def split: if_splits)
next
  case (stop_join s i)
  then show ?case by (cases "i = k") (auto simp: one_caller_def)
next
  case (stop_unjoinable s i)
  then show ?case by (cases "i = k") (auto simp: one_caller_def)
qed simp_all

lemma one_caller_reach: "breach {k} s \<Longrightarrow> one_caller k s"
proof (induction rule: breach.induct)
  case breach_init
  show ?case by (simp add: one_caller_def init_bsys_def)
next
  case (breach_step s t)
  then show ?case using one_caller_step by blast
qed

text \<open>
  \<open>Start\<close> and \<open>Stop\<close> of the broadcaster are safe from one thread, in any order; from two threads they are
  not: a \<open>Start\<close> that comes between the cleared flag and the join of a \<open>Stop\<close> assigns to a joinable thread, which
  terminates the program.
\<close>

theorem broadcaster_callers:
  "(breach {k} s \<longrightarrow> \<not> bs_terminated s) \<and> (\<exists>t. breach {0, 1} t \<and> bs_terminated t)"
proof (intro conjI impI)
  show "\<not> bs_terminated s" if "breach {k} s" using one_caller_reach [OF that] by (simp add: one_caller_def)
  define s1 where "s1 = init_bsys\<lparr>bs_running := True, bs_pc := (bs_pc init_bsys)(0 := Starting)\<rparr>"
  define s2 where "s2 = s1\<lparr>bs_joinable := True, bs_pc := (bs_pc s1)(0 := Outside)\<rparr>"
  define s3 where "s3 = s2\<lparr>bs_running := False, bs_pc := (bs_pc s2)(1 := Stopping)\<rparr>"
  define s4 where "s4 = s3\<lparr>bs_running := True, bs_pc := (bs_pc s3)(0 := Starting)\<rparr>"
  note defs = s1_def s2_def s3_def s4_def init_bsys_def
  have "bstep init_bsys s1" unfolding s1_def by (rule start_flag) (simp_all add: init_bsys_def)
  then have "breach {0, 1} s1" by (rule breach_step [OF breach_init]) (simp add: defs)
  moreover have "bstep s1 s2" unfolding s2_def by (rule start_thread) (simp_all add: defs)
  ultimately have "breach {0, 1} s2" by (rule breach_step) (simp add: defs)
  moreover have "bstep s2 s3" unfolding s3_def by (rule stop_flag) (simp_all add: defs)
  ultimately have "breach {0, 1} s3" by (rule breach_step) (simp add: defs)
  moreover have "bstep s3 s4" unfolding s4_def by (rule start_flag) (simp_all add: defs)
  ultimately have "breach {0, 1} s4" by (rule breach_step) (simp add: defs)
  moreover have "bstep s4 (s4\<lparr>bs_terminated := True\<rparr>)" by (rule start_terminate [of _ 0]) (simp_all add: defs)
  ultimately have "breach {0, 1} (s4\<lparr>bs_terminated := True\<rparr>)" by (rule breach_step) (simp add: defs)
  then show "\<exists>t. breach {0, 1} t \<and> bs_terminated t" by (intro exI [of _ "s4\<lparr>bs_terminated := True\<rparr>"]) simp
qed

section \<open>The broadcast loop\<close>

text \<open>Times are nanoseconds of the steady clock, the interval milliseconds. The result is the times of the rounds.\<close>

fun run_loop :: "int \<Rightarrow> int \<Rightarrow> (bool \<times> int) list \<Rightarrow> int list" where
  "run_loop interval lastSend [] = []"
| "run_loop interval lastSend ((running, now) # ticks) =
     (if \<not> running then []
      else if (now - lastSend) div 1000000 < interval then run_loop interval lastSend ticks
      else now # run_loop interval now ticks)"

definition Broadcaster_Run :: "int \<Rightarrow> int \<Rightarrow> (bool \<times> int) list \<Rightarrow> int list" where
  "Broadcaster_Run interval start ticks = run_loop interval (start - interval * 1000000) ticks"

text \<open>A round: the targets in order, until a send throws.\<close>

fun broadcast_round :: "(BroadcastTarget \<Rightarrow> 'd list \<times> bool) \<Rightarrow> BroadcastTarget list \<Rightarrow> 'd list" where
  "broadcast_round send [] = []"
| "broadcast_round send (t # ts) = (let (ds, ok) = send t in ds @ (if ok then broadcast_round send ts else []))"

record datagram =
  dg_src :: string
  dg_dst :: string
  dg_port :: u16
  dg_data :: bytes

text \<open>Which calls on the socket succeed. A failing socket option is only reported.\<close>

record udp_env =
  ue_open :: bool
  ue_options :: bool
  ue_source :: bool
  ue_bind :: bool
  ue_target :: bool
  ue_send :: bool

definition SendBroadcast :: "udp_env \<Rightarrow> BroadcastTarget \<Rightarrow> bytes \<Rightarrow> u16 \<Rightarrow> datagram list" where
  "SendBroadcast env target payload destPort =
     (if \<not> ue_open env then []
      else if \<not> ue_source env then []
      else if \<not> ue_bind env then []
      else if \<not> ue_target env then []
      else if \<not> ue_send env then []
      else [\<lparr>dg_src = bt_sourceIP target, dg_dst = bt_broadcastIP target, dg_port = destPort, dg_data = payload\<rparr>])"

section \<open>Unlock broadcasts\<close>

record UDPBroadcastDevice =
  bd_deviceID :: string
  bd_devicePort :: u16
  bd_isManual :: bool

record unlock_broadcaster =
  bu_UnlockPort :: u16
  bu_Devices :: "UDPBroadcastDevice list"

definition Unlock_AddDevice :: "string \<Rightarrow> u16 \<Rightarrow> bool \<Rightarrow> unlock_broadcaster \<Rightarrow> unlock_broadcaster" where
  "Unlock_AddDevice deviceID devicePort isManual b =
     b\<lparr>bu_Devices := bu_Devices b @ [\<lparr>bd_deviceID = deviceID, bd_devicePort = devicePort, bd_isManual = isManual\<rparr>]\<rparr>"

fun send_devices :: "'j json_lib \<Rightarrow> udp_env \<Rightarrow> u16 \<Rightarrow> BroadcastTarget \<Rightarrow> UDPBroadcastDevice list \<Rightarrow> datagram list \<times> bool" where
  "send_devices J env unlockPort target [] = ([], True)"
| "send_devices J env unlockPort target (d # ds) =
     (case j_dump J (UDPBroadcast_ToJson J
         \<lparr>ub_deviceId = bd_deviceID d, ub_pcbuIP = bt_sourceIP target, ub_pcbuPort = unlockPort, ub_isManual = bd_isManual d\<rparr>) of
        None \<Rightarrow> ([], False)
      | Some payload \<Rightarrow>
          (let (sent, ok) = send_devices J env unlockPort target ds
           in (SendBroadcast env target (bytes_of payload) (bd_devicePort d) @ sent, ok)))"

definition Unlock_SendToTarget :: "'j json_lib \<Rightarrow> udp_env \<Rightarrow> unlock_broadcaster \<Rightarrow> BroadcastTarget \<Rightarrow> datagram list \<times> bool" where
  "Unlock_SendToTarget J env b target = send_devices J env (bu_UnlockPort b) target (bu_Devices b)"

section \<open>Pairing beacons\<close>

record pairing_broadcaster =
  bp_ServerId :: string
  bp_EncKey :: string
  bp_PairingPort :: u16
  bp_DiscoveryPort :: u16

definition Pairing_SendToTarget :: "'j json_lib \<Rightarrow> crypt_lib \<Rightarrow> crypt_env \<Rightarrow> udp_env \<Rightarrow> pairing_broadcaster \<Rightarrow>
    BroadcastTarget \<Rightarrow> (datagram list \<times> bool) option" where
  "Pairing_SendToTarget J L e env b target =
     (case j_dump J (UDPPairBeacon_ToJson J
         \<lparr>bc_serverId = bp_ServerId b, bc_ip = bt_sourceIP target, bc_port = bp_PairingPort b\<rparr>) of
        None \<Rightarrow> Some ([], False)
      | Some plain \<Rightarrow> do {
          enc \<leftarrow> EncryptAESPacket L e (bytes_of plain) (bp_EncKey b);
          if cp_result enc \<noteq> OK then Some ([], True)
          else Some (SendBroadcast env target (cp_data enc) (bp_DiscoveryPort b), True) })"

section \<open>Properties\<close>

lemma run_loop_spaced:
  "0 \<le> interval \<Longrightarrow> successively (\<lambda>a b. interval * 1000000 \<le> b - a) (run_loop interval lastSend ticks) \<and>
     (run_loop interval lastSend ticks = [] \<or> interval * 1000000 \<le> hd (run_loop interval lastSend ticks) - lastSend)"
proof (induction interval lastSend ticks rule: run_loop.induct)
  case (2 interval lastSend running now ticks)
  show ?case
  proof (cases "running \<and> \<not> (now - lastSend) div 1000000 < interval")
    case True
    then have "interval * 1000000 \<le> now - lastSend" by linarith
    with True 2 show ?thesis
      by (cases "run_loop interval now ticks") (auto simp: successively_Cons)
  qed (use 2 in auto)
qed simp

text \<open>
  Rounds are at least one interval apart, whatever the scheduler does, the first tick after the start
  sends at once, and a cleared flag ends the loop.
\<close>

theorem broadcast_rate:
  assumes "0 \<le> interval"
  shows "successively (\<lambda>a b. interval * 1000000 \<le> b - a) (Broadcaster_Run interval start ticks) \<and>
    (start \<le> now \<longrightarrow> hd (Broadcaster_Run interval start ((True, now) # ticks)) = now) \<and>
    Broadcaster_Run interval start (ticks @ (False, now) # rest) = Broadcaster_Run interval start ticks"
proof (intro conjI impI)
  show "successively (\<lambda>a b. interval * 1000000 \<le> b - a) (Broadcaster_Run interval start ticks)"
    using run_loop_spaced [OF assms] by (simp add: Broadcaster_Run_def)
  show "hd (Broadcaster_Run interval start ((True, now) # ticks)) = now" if "start \<le> now"
  proof -
    have "interval \<le> (now - (start - interval * 1000000)) div 1000000" using that by linarith
    then show ?thesis by (simp add: Broadcaster_Run_def)
  qed
  have "run_loop interval l (ticks @ (False, now) # rest) = run_loop interval l ticks" for l
    by (induction interval l ticks rule: run_loop.induct) simp_all
  then show "Broadcaster_Run interval start (ticks @ (False, now) # rest) = Broadcaster_Run interval start ticks"
    by (simp add: Broadcaster_Run_def)
qed

text \<open>
  A pairing beacon goes to the discovery port of the broadcast address, and a phone that knows the key from
  the QR code and reads it within the two-minute window learns the server's id, address and port from it.
\<close>

theorem pairing_beacon_opens:
  assumes "crypt_laws L" and "json_laws J" and "all_succeed e" and "all_succeed e2"
    and "int64_time (ce_now e)" and "int64_time (ce_now e2)" and "\<bar>ce_now e2 - ce_now e\<bar> \<le> CRYPT_PACKET_TIMEOUT"
    and "ue_open env" and "ue_source env" and "ue_bind env" and "ue_target env" and "ue_send env"
    and "j_dump J (UDPPairBeacon_ToJson J
      \<lparr>bc_serverId = bp_ServerId b, bc_ip = bt_sourceIP t, bc_port = bp_PairingPort b\<rparr>) = Some plain"
    and "plain \<noteq> []" and "length plain \<le> 1992"
  shows "\<exists>d v. Pairing_SendToTarget J L e env b t = Some ([d], True) \<and>
    dg_src d = bt_sourceIP t \<and> dg_dst d = bt_broadcastIP t \<and> dg_port d = bp_DiscoveryPort b \<and>
    DecryptAESPacket L e2 (dg_data d) (bp_EncKey b) = Some \<lparr>cp_result = OK, cp_data = bytes_of plain\<rparr> \<and>
    j_parse J plain = Some v \<and> get_string J v ''serverId'' = Some (bp_ServerId b) \<and>
    get_string J v ''ip'' = Some (bt_sourceIP t) \<and> get_u16 J v ''port'' = Some (bp_PairingPort b)"
proof -
  let ?p = "\<lparr>bc_serverId = bp_ServerId b, bc_ip = bt_sourceIP t, bc_port = bp_PairingPort b\<rparr>"
  obtain enc where enc: "EncryptAESPacket L e (bytes_of plain) (bp_EncKey b) = Some \<lparr>cp_result = OK, cp_data = enc\<rparr>"
    "DecryptAESPacket L e2 enc (bp_EncKey b) = Some (open_stamped (ce_now e2) (be64 (word_of_int (ce_now e)) @ bytes_of plain))"
    using decrypt_of_encrypt [OF assms(1,3,4) refl, of "bytes_of plain" "bp_EncKey b"] assms(15) by auto
  have "open_stamped (ce_now e2) (be64 (word_of_int (ce_now e)) @ bytes_of plain) = \<lparr>cp_result = OK, cp_data = bytes_of plain\<rparr>"
    using open_stamped_sealed [OF assms(5,6), of "bytes_of plain"] assms(7,14) by simp
  moreover have "j_parse J plain = Some (UDPPairBeacon_ToJson J ?p)"
    by (rule json_parse_dump [OF assms(2) _ assms(13)]) simp
  moreover have "get_string J (UDPPairBeacon_ToJson J ?p) ''serverId'' = Some (bp_ServerId b)"
    "get_string J (UDPPairBeacon_ToJson J ?p) ''ip'' = Some (bt_sourceIP t)"
    "get_u16 J (UDPPairBeacon_ToJson J ?p) ''port'' = Some (bp_PairingPort b)"
    unfolding UDPPairBeacon_ToJson_def by (simp_all add: json_get_object [OF assms(2)])
  ultimately show ?thesis
    using enc assms(8-13) by (simp add: Pairing_SendToTarget_def SendBroadcast_def)
qed

text \<open>An unlock broadcast tells each device, on its own port, where to connect.\<close>

lemma send_devices_all:
  assumes "\<And>v. built J v \<Longrightarrow> j_dump J v \<noteq> None" and "ue_open env" "ue_source env" "ue_bind env" "ue_target env" "ue_send env"
  shows "snd (send_devices J env port t ds) \<and> map dg_port (fst (send_devices J env port t ds)) = map bd_devicePort ds"
proof (induction ds)
  case (Cons d ds)
  have "j_dump J (UDPBroadcast_ToJson J p) \<noteq> None" for p by (rule assms(1)) simp
  with Cons assms(2-) show ?case by (auto simp: SendBroadcast_def split: option.split prod.split)
qed simp

section \<open>Witnesses\<close>

lemma broadcaster_callers_witness: "\<not> bs_terminated init_bsys \<and> (\<exists>t. breach {0, 1} t \<and> bs_terminated t)"
  using broadcaster_callers [of 0 init_bsys] breach_init [of "{0}"] by simp

lemma broadcast_rate_witness:
  "Broadcaster_Run 2000 0 [(True, 0), (True, 1999000000), (True, 2000000000), (False, 5000000000), (True, 6000000000)] = [0, 2000000000] \<and>
   successively (\<lambda>a b. 2000 * 1000000 \<le> b - a) (Broadcaster_Run 2000 0 [(True, 0), (True, 1999000000), (True, 2000000000)])"
  using broadcast_rate [of 2000 0 "[(True, 0), (True, 1999000000), (True, 2000000000)]"]
  by (simp add: Broadcaster_Run_def)

definition demo_pairing_broadcaster :: pairing_broadcaster where
  "demo_pairing_broadcaster = \<lparr>bp_ServerId = ''s'', bp_EncKey = ''k'', bp_PairingPort = 43, bp_DiscoveryPort = 43297\<rparr>"

definition demo_target :: BroadcastTarget where
  "demo_target = \<lparr>bt_sourceIP = ''10.0.0.5'', bt_broadcastIP = ''10.255.255.255''\<rparr>"

definition demo_udp :: udp_env where
  "demo_udp = \<lparr>ue_open = True, ue_options = False, ue_source = True, ue_bind = True, ue_target = True, ue_send = True\<rparr>"

lemma pairing_beacon_opens_witness:
  "\<exists>d v. Pairing_SendToTarget toy_json toy_crypt (demo_env 0) demo_udp demo_pairing_broadcaster demo_target = Some ([d], True) \<and>
    dg_dst d = ''10.255.255.255'' \<and> get_string toy_json v ''serverId'' = Some ''s''"
proof -
  let ?v = "UDPPairBeacon_ToJson toy_json \<lparr>bc_serverId = bp_ServerId demo_pairing_broadcaster,
    bc_ip = bt_sourceIP demo_target, bc_port = bp_PairingPort demo_pairing_broadcaster\<rparr>"
  have "length (put_val ?v) \<le> 1992" "put_val ?v \<noteq> []" "j_dump toy_json ?v = Some (put_val ?v)"
    by (simp_all add: UDPPairBeacon_ToJson_def toy_json_def demo_pairing_broadcaster_def demo_target_def length_put_str)
  then have "\<exists>d v. Pairing_SendToTarget toy_json toy_crypt (demo_env 0) demo_udp demo_pairing_broadcaster demo_target = Some ([d], True) \<and>
    dg_dst d = bt_broadcastIP demo_target \<and> get_string toy_json v ''serverId'' = Some (bp_ServerId demo_pairing_broadcaster)"
    using pairing_beacon_opens [OF toy_crypt_laws toy_json_laws demo_env_ok(1) demo_env_ok(1), of 0 0 demo_udp
        demo_pairing_broadcaster demo_target "put_val ?v"]
    by (auto simp: demo_udp_def int64_time_def CRYPT_PACKET_TIMEOUT_def)
  then show ?thesis by (simp add: demo_pairing_broadcaster_def demo_target_def)
qed

end
