(* ===== verification/UnlockServers.thy ===== *)
theory UnlockServers
  imports BaseUnlockConnection Workers
begin

text \<open>
  \<open>common/src/connection/unlock/servers\<close>: the connections on which the phone calls the PC, over TCP
  (\<open>TCPUnlockServer.cpp\<close>) and Bluetooth (\<open>BTUnlockServer.cpp\<close>, Windows and Linux). What the system calls answer
  is a record for the set-up and one record for each turn of the accept loop; the loop's own part of the state is
  modelled step by step, the threads of the clients are \<open>ClientThread\<close>.
\<close>

section \<open>State\<close>

record unlock_server =
  us_conn :: unlock_conn
  us_ServerSocket :: int         \<comment> \<open>-1 for \<open>SOCKET_INVALID\<close>\<close>
  us_joinable :: bool
  us_num :: int                  \<comment> \<open>\<open>m_NumConnections\<close>\<close>
  us_closed :: "int list"        \<comment> \<open>sockets closed, in order\<close>
  us_sdp :: bool                 \<comment> \<open>an SDP service is registered\<close>

definition us_set_state :: "UnlockState \<Rightarrow> unlock_server \<Rightarrow> unlock_server" where
  "us_set_state s v = v\<lparr>us_conn := set_state s (us_conn v)\<rparr>"

definition us_set_running :: "bool \<Rightarrow> unlock_server \<Rightarrow> unlock_server" where
  "us_set_running b v = v\<lparr>us_conn := (us_conn v)\<lparr>uc_IsRunning := b\<rparr>\<rparr>"

definition us_set_connection :: "bool \<Rightarrow> unlock_server \<Rightarrow> unlock_server" where
  "us_set_connection b v = v\<lparr>us_conn := (us_conn v)\<lparr>uc_HasConnection := b\<rparr>\<rparr>"

definition close_server :: "unlock_server \<Rightarrow> unlock_server" where
  "close_server v =
     (if us_ServerSocket v \<noteq> - 1 then v\<lparr>us_closed := us_closed v @ [us_ServerSocket v], us_ServerSocket := - 1\<rparr> else v)"

lemmas server_updates = us_set_state_def us_set_running_def us_set_connection_def close_server_def

section \<open>Start and Stop\<close>

definition Server_Start :: "platform \<Rightarrow> bool \<Rightarrow> unlock_server \<Rightarrow> (bool \<times> unlock_server) option" where
  "Server_Start pf wsa v =
     (if uc_IsRunning (us_conn v) then Some (True, v)
      else if pf = Windows \<and> \<not> wsa then Some (False, v)
      else if us_joinable v then None
      else Some (True, (us_set_running True v)\<lparr>us_joinable := True\<rparr>))"

text \<open>The TCP server joins before it clears the flag; the closed socket makes \<open>accept\<close> fail.\<close>

definition TCPServer_Stop :: "unlock_server \<Rightarrow> unlock_server" where
  "TCPServer_Stop v = us_set_connection False (us_set_running False ((close_server v)\<lparr>us_joinable := False\<rparr>))"

definition BTServer_Stop :: "unlock_server \<Rightarrow> unlock_server" where
  "BTServer_Stop v =
     (if \<not> uc_IsRunning (us_conn v) then v
      else (close_server (us_set_connection False (us_set_running False v)))\<lparr>us_joinable := False\<rparr>)"

interpretation tcp_server: joining_worker "Server_Start pf wsa" TCPServer_Stop "\<lambda>v. uc_IsRunning (us_conn v)"
  us_joinable "\<lambda>_. pf = Windows \<longrightarrow> wsa"
  by unfold_locales (auto simp: Server_Start_def TCPServer_Stop_def server_updates)

text \<open>\<open>BTUnlockServer::Start\<close> is the same code as \<open>TCPUnlockServer::Start\<close>.\<close>

definition BTServer_Start :: "platform \<Rightarrow> bool \<Rightarrow> unlock_server \<Rightarrow> (bool \<times> unlock_server) option" where
  "BTServer_Start = Server_Start"

interpretation bt_server: lazy_worker "BTServer_Start pf wsa" BTServer_Stop "\<lambda>v. uc_IsRunning (us_conn v)"
  us_joinable "\<lambda>_. pf = Windows \<longrightarrow> wsa"
  by unfold_locales (auto simp: BTServer_Start_def Server_Start_def BTServer_Stop_def server_updates)

section \<open>The TCP server\<close>

definition MAX_CLIENTS :: int where "MAX_CLIENTS = 10"

record listen_obs =
  lo_socket :: int
  lo_reuse :: bool
  lo_nodelay :: bool
  lo_bind :: bool
  lo_listen :: bool
  lo_nonblock :: bool

text \<open>The checks before the loop: the state of the first one that fails.\<close>

definition tcp_setup :: "listen_obs \<Rightarrow> UnlockState option" where
  "tcp_setup lo =
     (if \<not> lo_reuse lo then Some US_UNK_ERROR
      else if \<not> lo_nodelay lo then Some US_UNK_ERROR
      else if \<not> lo_bind lo then Some US_PORT_ERROR
      else if \<not> lo_listen lo then Some US_UNK_ERROR
      else if \<not> lo_nonblock lo then Some US_UNK_ERROR
      else None)"

text \<open>One turn of the accept loop: the flag and the counter as read, the answer of \<open>accept\<close>.\<close>

record accept_obs =
  ao_running :: bool
  ao_num :: int
  ao_accept :: "sock_errno + int"
  ao_nonblock :: bool

datatype accept_exit = AX_Stopped | AX_AcceptFailed | AX_ClientFailed

text \<open>\<open>clients\<close> are \<open>clientSockets\<close>, each served by a thread.\<close>

fun accept_loop :: "accept_obs list \<Rightarrow> int list \<Rightarrow> (accept_exit \<times> int list) option" where
  "accept_loop [] clients = None"
| "accept_loop (a # as) clients =
     (if \<not> ao_running a then Some (AX_Stopped, clients)
      else if ao_num a \<ge> MAX_CLIENTS then accept_loop as clients
      else case ao_accept a of
        Inl err \<Rightarrow> if err = ETryAgain \<or> err = EWouldBlock then accept_loop as clients
                    else Some (AX_AcceptFailed, clients)
      | Inr k \<Rightarrow> if \<not> ao_nonblock a then Some (AX_ClientFailed, clients)
                  else accept_loop as (clients @ [k]))"

text \<open>The code at \<open>threadEnd\<close>.\<close>

definition tcp_thread_end :: "int list \<Rightarrow> unlock_server \<Rightarrow> unlock_server" where
  "tcp_thread_end clients v =
     us_set_running False (us_set_connection False (close_server (v\<lparr>us_closed := us_closed v @ clients\<rparr>)))"

definition TCPServer_AcceptThread :: "listen_obs \<Rightarrow> accept_obs list \<Rightarrow> unlock_server \<Rightarrow> unlock_server option" where
  "TCPServer_AcceptThread lo as v =
     (let v = v\<lparr>us_ServerSocket := lo_socket lo\<rparr> in
      if lo_socket lo = - 1 then Some (us_set_state US_UNK_ERROR (us_set_running False v))
      else case tcp_setup lo of
        Some e \<Rightarrow> Some (tcp_thread_end [] (us_set_state e v))
      | None \<Rightarrow> do {
          (x, clients) \<leftarrow> accept_loop as [];
          Some (tcp_thread_end clients (if x = AX_ClientFailed then us_set_state US_UNK_ERROR v else v)) })"

text \<open>A client's thread; a failing \<open>TCP_NODELAY\<close> is only reported.\<close>

definition TCPServer_ClientThread :: "'j libs \<Rightarrow> (nat \<Rightarrow> crypt_env) \<Rightarrow> (string \<Rightarrow> PairedDevice option) \<Rightarrow> int \<Rightarrow>
    unlock_server \<Rightarrow> sock \<Rightarrow> (unlock_server \<times> sock) option" where
  "TCPServer_ClientThread lib envs lookup k v s = do {
     let v = us_set_connection True v;
     let v = v\<lparr>us_num := us_num v + 1\<rparr>;
     (conn, s) \<leftarrow> PerformAuthFlow lib envs lookup k True (us_conn v) s;
     let v = v\<lparr>us_conn := conn, us_num := us_num v - 1\<rparr>;
     let v = us_set_connection (us_num v > 0) v;
     Some (v\<lparr>us_closed := us_closed v @ [k]\<rparr>, s)
   }"

section \<open>The Bluetooth server\<close>

record bt_listen_obs =
  bo_socket :: int
  bo_reuse :: bool
  bo_bind :: bool
  bo_getsockname :: bool       \<comment> \<open>Windows only\<close>
  bo_register :: bool          \<comment> \<open>\<open>RegisterSDPService\<close>\<close>
  bo_listen :: bool

text \<open>The blocking \<open>accept\<close> and what follows it; every failure ends the loop.\<close>

fun bt_accept_loop :: "accept_obs list \<Rightarrow> int list \<Rightarrow> (accept_exit \<times> int list) option" where
  "bt_accept_loop [] clients = None"
| "bt_accept_loop (a # as) clients =
     (if \<not> ao_running a then Some (AX_Stopped, clients)
      else case ao_accept a of
        Inl err \<Rightarrow> Some (AX_AcceptFailed, clients)
      | Inr k \<Rightarrow> if \<not> ao_nonblock a then Some (AX_ClientFailed, clients)
                  else bt_accept_loop as (clients @ [k]))"

definition bt_thread_end :: "unlock_server \<Rightarrow> unlock_server" where
  "bt_thread_end v = close_server ((us_set_connection False (us_set_running False v))\<lparr>us_sdp := False\<rparr>)"

definition BTServer_AcceptThread :: "platform \<Rightarrow> bt_listen_obs \<Rightarrow> accept_obs list \<Rightarrow> unlock_server \<Rightarrow> unlock_server option" where
  "BTServer_AcceptThread pf lo as v =
     (let v = v\<lparr>us_ServerSocket := bo_socket lo\<rparr>; failed = (\<lambda>v. Some (bt_thread_end (us_set_state US_UNK_ERROR v))) in
      if bo_socket lo = - 1 then Some (us_set_state US_UNK_ERROR (us_set_running False v))
      else if \<not> bo_reuse lo then failed v
      else if \<not> bo_bind lo then failed v
      else if pf = Windows \<and> \<not> bo_getsockname lo then failed v
      else if \<not> bo_register lo then failed v
      else let v = v\<lparr>us_sdp := True\<rparr> in
      if \<not> bo_listen lo then failed v
      else do {
        (x, clients) \<leftarrow> bt_accept_loop as [];
        Some (bt_thread_end (if x = AX_ClientFailed then us_set_state US_UNK_ERROR v else v)) })"

definition BTServer_ClientThread :: "'j libs \<Rightarrow> (nat \<Rightarrow> crypt_env) \<Rightarrow> (string \<Rightarrow> PairedDevice option) \<Rightarrow> int \<Rightarrow>
    unlock_server \<Rightarrow> sock \<Rightarrow> (unlock_server \<times> sock) option" where
  "BTServer_ClientThread lib envs lookup k v s = do {
     let v = us_set_connection True v;
     (conn, s) \<leftarrow> PerformAuthFlow lib envs lookup k True (us_conn v) s;
     let v = us_set_connection False (v\<lparr>us_conn := conn\<rparr>);
     Some (v\<lparr>us_closed := us_closed v @ [k]\<rparr>, s)
   }"

section \<open>What the threads leave behind\<close>

text \<open>The sockets the loop hands to client threads: those accepted while there is room, in order.\<close>

fun served :: "accept_obs list \<Rightarrow> int list" where
  "served [] = []"
| "served (a # as) =
     (if \<not> ao_running a then []
      else if ao_num a \<ge> MAX_CLIENTS then served as
      else case ao_accept a of
        Inl err \<Rightarrow> if err = ETryAgain \<or> err = EWouldBlock then served as else []
      | Inr k \<Rightarrow> if \<not> ao_nonblock a then [] else k # served as)"

lemma accept_loop_served: "accept_loop as clients = Some (x, cs) \<Longrightarrow> cs = clients @ served as"
  by (induction as clients rule: accept_loop.induct) (auto split: if_splits sum.splits)

lemma accept_loop_ends:
  "\<exists>a \<in> set as. \<not> ao_running a \<Longrightarrow> accept_loop as clients \<noteq> None"
  by (induction as clients rule: accept_loop.induct) (auto split: sum.splits)

lemma served_room: "k \<in> set (served as) \<Longrightarrow> \<exists>a \<in> set as. ao_accept a = Inr k \<and> ao_num a < MAX_CLIENTS"
  by (induction as rule: served.induct) (auto split: if_splits sum.splits)

text \<open>
  When the accept thread of the TCP server returns, the running and connection flags are clear, the server
  socket and the socket of every client that was given a thread are closed, no client was accepted while
  \<open>MAX_CLIENTS\<close> were connected, and the port being taken is reported as \<open>PORT_ERROR\<close>.
\<close>

theorem tcp_server_ends:
  assumes "TCPServer_AcceptThread lo as v = Some v'" and "lo_socket lo \<noteq> - 1"
  shows "\<not> uc_IsRunning (us_conn v') \<and> \<not> uc_HasConnection (us_conn v') \<and> us_ServerSocket v' = - 1 \<and>
    (if tcp_setup lo = None
     then us_closed v' = us_closed v @ served as @ [lo_socket lo] \<and>
       (\<forall>k \<in> set (served as). \<exists>a \<in> set as. ao_accept a = Inr k \<and> ao_num a < MAX_CLIENTS)
     else us_closed v' = us_closed v @ [lo_socket lo] \<and>
       (lo_reuse lo \<and> lo_nodelay lo \<and> \<not> lo_bind lo \<longrightarrow> uc_UnlockState (us_conn v') = US_PORT_ERROR))"
proof (cases "tcp_setup lo")
  case None
  then obtain x cs where "accept_loop as [] = Some (x, cs)"
    "v' = tcp_thread_end cs (if x = AX_ClientFailed then us_set_state US_UNK_ERROR (v\<lparr>us_ServerSocket := lo_socket lo\<rparr>)
       else v\<lparr>us_ServerSocket := lo_socket lo\<rparr>)"
    using assms by (auto simp: TCPServer_AcceptThread_def Let_def bind_eq_Some_conv)
  then show ?thesis
    using accept_loop_served [of as "[]" x cs] served_room [of _ as] None assms(2)
    by (auto simp: tcp_thread_end_def server_updates)
next
  case (Some e)
  then show ?thesis
    using assms by (auto simp: TCPServer_AcceptThread_def tcp_thread_end_def server_updates tcp_setup_def split: if_splits)
qed

text \<open>The Bluetooth server always withdraws its SDP record.\<close>

lemma bt_server_ends:
  assumes "BTServer_AcceptThread pf lo as v = Some v'" and "\<not> us_sdp v" and "\<not> uc_HasConnection (us_conn v)"
  shows "\<not> uc_IsRunning (us_conn v') \<and> \<not> uc_HasConnection (us_conn v') \<and> us_ServerSocket v' = - 1 \<and> \<not> us_sdp v'"
  using assms
  by (auto simp: BTServer_AcceptThread_def Let_def bt_thread_end_def server_updates bind_eq_Some_conv split: if_splits)

section \<open>Witness\<close>

definition demo_listen :: listen_obs where
  "demo_listen = \<lparr>lo_socket = 3, lo_reuse = True, lo_nodelay = True, lo_bind = True, lo_listen = True, lo_nonblock = True\<rparr>"

definition demo_accepts :: "accept_obs list" where
  "demo_accepts = [\<lparr>ao_running = True, ao_num = 0, ao_accept = Inl EWouldBlock, ao_nonblock = True\<rparr>,
     \<lparr>ao_running = True, ao_num = 0, ao_accept = Inr 7, ao_nonblock = True\<rparr>,
     \<lparr>ao_running = True, ao_num = 10, ao_accept = Inr 8, ao_nonblock = True\<rparr>,
     \<lparr>ao_running = False, ao_num = 1, ao_accept = Inr 9, ao_nonblock = True\<rparr>]"

definition demo_server :: unlock_server where
  "demo_server = \<lparr>us_conn = new_unlock_conn ''tok'' empty_device, us_ServerSocket = - 1, us_joinable = True, us_num = 0,
     us_closed = [], us_sdp = False\<rparr>"

lemma tcp_server_ends_witness:
  "\<exists>v'. TCPServer_AcceptThread demo_listen demo_accepts demo_server = Some v' \<and> us_closed v' = [7, 3]"
proof -
  have "\<exists>v'. TCPServer_AcceptThread demo_listen demo_accepts demo_server = Some v'"
    by (simp add: TCPServer_AcceptThread_def demo_listen_def demo_accepts_def tcp_setup_def MAX_CLIENTS_def)
  then obtain v' where v': "TCPServer_AcceptThread demo_listen demo_accepts demo_server = Some v'" by blast
  have "served demo_accepts = [7]" by (simp add: demo_accepts_def MAX_CLIENTS_def)
  then show ?thesis using tcp_server_ends [OF v'] v' by (simp add: demo_listen_def demo_server_def tcp_setup_def)
qed

end
