(* ===== verification/PairingServer.thy ===== *)
theory PairingServer
  imports UnlockServers AppInfo
begin

text \<open>
  \<open>common/src/connection/pairing/PairingServer.cpp\<close>: the server a phone pairs with. It reads one sealed message
  (the key was shown as a QR code), answers with the device's id and the key of the encrypted password, and
  stores the device. The accept loop is that of the TCP unlock server; what its callback reports is a list.
\<close>

section \<open>State\<close>

record pairing_server =
  ps_UIData :: PairingUIData
  ps_running :: bool
  ps_joinable :: bool
  ps_ServerSocket :: int
  ps_num :: int                    \<comment> \<open>\<open>m_NumConnections\<close>\<close>
  ps_errors :: "string list"       \<comment> \<open>calls of \<open>m_ErrorCallback\<close>\<close>
  ps_closed :: "int list"
  ps_fs :: fs
  ps_cred_prov :: "string list"    \<comment> \<open>users given the default credential provider (Windows)\<close>

text \<open>What one client's thread draws from its environment.\<close>

record pair_env =
  pv_dec :: crypt_env              \<comment> \<open>opening the request\<close>
  pv_pw :: crypt_env               \<comment> \<open>encrypting the password\<close>
  pv_enc :: crypt_env              \<comment> \<open>sealing the response\<close>
  pv_err :: crypt_env              \<comment> \<open>sealing an error response\<close>
  pv_uuid :: string                \<comment> \<open>\<open>RandomString(32)\<close>\<close>
  pv_passwordKey :: string         \<comment> \<open>\<open>RandomString(64)\<close>\<close>
  pv_machineID :: string
  pv_hostName :: string
  pv_unlockServerPort :: u16
  pv_macs :: "string list"         \<comment> \<open>of \<open>GetWakeOnLanInterfaces\<close>\<close>
  pv_sha :: "bool \<times> int \<times> int \<times> int"
  pv_prot :: prot_env
  pv_dir :: string
  pv_text :: "string \<Rightarrow> string"     \<comment> \<open>\<open>I18n::Get\<close>\<close>
  pv_json_error :: string          \<comment> \<open>\<open>what()\<close> of an exception of \<open>dump\<close>\<close>

section \<open>Start, Stop and the accept thread\<close>

definition Pairing_Start :: "platform \<Rightarrow> bool \<Rightarrow> PairingUIData \<Rightarrow> pairing_server \<Rightarrow> (bool \<times> pairing_server) option" where
  "Pairing_Start pf wsa uiData v =
     (let v = v\<lparr>ps_UIData := uiData\<rparr> in
      if ps_running v then Some (True, v)
      else if pf = Windows \<and> \<not> wsa then Some (False, v)
      else if ps_joinable v then None
      else Some (True, v\<lparr>ps_running := True, ps_joinable := True\<rparr>))"

definition Pairing_Stop :: "pairing_server \<Rightarrow> pairing_server" where
  "Pairing_Stop v =
     (let v = (if ps_ServerSocket v \<noteq> - 1 then v\<lparr>ps_closed := ps_closed v @ [ps_ServerSocket v], ps_ServerSocket := - 1\<rparr> else v)
      in v\<lparr>ps_joinable := False, ps_running := False\<rparr>)"

interpretation pairing_worker: joining_worker "Pairing_Start pf wsa ui" Pairing_Stop ps_running ps_joinable
  "\<lambda>v. ps_UIData v = ui \<and> (pf = Windows \<longrightarrow> wsa)"
  by unfold_locales (auto simp: Pairing_Start_def Pairing_Stop_def Let_def)

text \<open>The keys of the messages for the set-up errors; \<open>SO_REUSEADDR\<close> is set on Linux only.\<close>

definition pairing_setup :: "platform \<Rightarrow> listen_obs \<Rightarrow> string option" where
  "pairing_setup pf lo =
     (if pf = Linux \<and> \<not> lo_reuse lo then Some ''error_pairing_server_init_unk''
      else if \<not> lo_nodelay lo then Some ''error_pairing_server_init_unk''
      else if \<not> lo_bind lo then Some ''error_pairing_server_init''
      else if \<not> lo_listen lo then Some ''error_pairing_server_init_unk''
      else if \<not> lo_nonblock lo then Some ''error_pairing_server_init_unk''
      else None)"

definition report :: "string \<Rightarrow> pairing_server \<Rightarrow> pairing_server" where
  "report msg v = v\<lparr>ps_errors := ps_errors v @ [msg]\<rparr>"

definition pairing_thread_end :: "int list \<Rightarrow> pairing_server \<Rightarrow> pairing_server" where
  "pairing_thread_end clients v =
     v\<lparr>ps_closed := ps_closed v @ clients @ (if ps_ServerSocket v \<noteq> - 1 then [ps_ServerSocket v] else []),
       ps_ServerSocket := - 1, ps_running := False\<rparr>"

definition Pairing_AcceptThread :: "platform \<Rightarrow> (string \<Rightarrow> string) \<Rightarrow> listen_obs \<Rightarrow> accept_obs list \<Rightarrow> pairing_server \<Rightarrow>
    pairing_server option" where
  "Pairing_AcceptThread pf tr lo as v =
     (let v = v\<lparr>ps_ServerSocket := lo_socket lo\<rparr> in
      if lo_socket lo = - 1 then Some ((report (tr ''error_pairing_server_init_unk'') v)\<lparr>ps_running := False\<rparr>)
      else case pairing_setup pf lo of
        Some key \<Rightarrow> Some (pairing_thread_end [] (report (tr key) v))
      | None \<Rightarrow> do {
          (x, clients) \<leftarrow> accept_loop as [];
          Some (pairing_thread_end clients
            (if x = AX_ClientFailed then report (tr ''error_pairing_server_init_unk'') v else v)) })"

section \<open>Sealed packets on the connection\<close>

text \<open>A read error is \<open>CryptPacket{}\<close>, whose result is \<open>OK\<close>; the caller looks at the data only.\<close>

definition ReadEncryptedPacket :: "'j libs \<Rightarrow> crypt_env \<Rightarrow> string \<Rightarrow> sock \<Rightarrow> (CryptPacket \<times> sock) option" where
  "ReadEncryptedPacket lib e encKey s = do {
     (packet, s) \<leftarrow> ReadPacket (lb_platform lib) s;
     if pk_error packet \<noteq> PE_NONE then Some (\<lparr>cp_result = OK, cp_data = []\<rparr>, s)
     else do {
       decRes \<leftarrow> DecryptAESPacket (lb_crypt lib) e (pk_data packet) encKey;
       Some (decRes, s) } }"

definition WriteEncryptedPacket :: "'j libs \<Rightarrow> crypt_env \<Rightarrow> string \<Rightarrow> u8 \<Rightarrow> string \<Rightarrow> sock \<Rightarrow> (bool \<times> sock) option" where
  "WriteEncryptedPacket lib e encKey packetId data s = do {
     encRes \<leftarrow> EncryptAESPacket (lb_crypt lib) e (bytes_of data) encKey;
     if cp_result encRes \<noteq> OK then Some (False, s)
     else do {
       (writeRes, s) \<leftarrow> WritePacket (lb_platform lib) (ucast packetId) (cp_data encRes) s;
       Some (writeRes = PE_NONE, s) } }"

definition PAIR_RESPONSE8 :: u8 where "PAIR_RESPONSE8 = ucast PACKET_ID_PAIR_RESPONSE"

lemma PAIR_RESPONSE8_id: "ucast PAIR_RESPONSE8 = PACKET_ID_PAIR_RESPONSE"
  by (simp add: PAIR_RESPONSE8_def packet_ids)

section \<open>A client\<close>

definition new_device :: "'j libs \<Rightarrow> pair_env \<Rightarrow> PairingUIData \<Rightarrow> PacketPairInit \<Rightarrow> string \<Rightarrow> PairedDevice" where
  "new_device lib e ui initPacket pwEnc =
     (let (context, init, update, final) = pv_sha e in
      \<lparr>pd_id = Sha256 (lb_crypt lib) context init update final (pv_machineID e @ pi_deviceUUID initPacket @ ui_userName ui),
       pd_pairingMethod = ui_method ui, pd_deviceName = pi_deviceName initPacket, pd_userName = ui_userName ui,
       pd_passwordEnc = pwEnc, pd_encryptionKey = ui_encKey ui, pd_ipAddress = pi_ipAddress initPacket,
       pd_tcpPort = pi_tcpPort initPacket, pd_udpPort = pi_udpPort initPacket,
       pd_udpManualPort = pi_udpManualPort initPacket, pd_bluetoothAddress = ui_btAddress ui,
       pd_cloudToken = pi_cloudToken initPacket\<rparr>)"

definition pair_response :: "'j libs \<Rightarrow> pair_env \<Rightarrow> PairingUIData \<Rightarrow> PairedDevice \<Rightarrow> PacketPairResponse" where
  "pair_response lib e ui device = \<lparr>pr_errMsg = [], pr_data =
     \<lparr>pr_pairingMethod = pd_pairingMethod device, pr_deviceId = pd_id device, pr_deviceName = pv_hostName e,
      pr_deviceOS = GetOperatingSystem (lb_platform lib), pr_unlockServerPort = pv_unlockServerPort e,
      pr_macAddresses = pv_macs e, pr_userName = ui_userName ui, pr_passwordKey = pv_passwordKey e\<rparr>\<rparr>"

text \<open>The \<open>try\<close> block up to the response: the message of the exception, or the device and the response.\<close>

definition handle_init :: "'j libs \<Rightarrow> pair_env \<Rightarrow> PairingUIData \<Rightarrow> bytes \<Rightarrow> (string + PairedDevice \<times> PacketPairResponse) option" where
  "handle_init lib e ui data =
     (case PairInit_FromJson (lb_json lib) (string_of data) of
        None \<Rightarrow> Some (Inl (pv_text e ''error_pairing_packet_parse''))
      | Some initPacket \<Rightarrow>
          if CompareVersion GetPairingProtocolVersion (pi_protoVersion initPacket) \<noteq> 0 then
            Some (Inl (pv_text e ''error_protocol_mismatch''))
          else do {
            let initPacket = (if pi_deviceUUID initPacket = [] then initPacket\<lparr>pi_deviceUUID := pv_uuid e\<rparr> else initPacket);
            pwEnc \<leftarrow> EncryptAES (lb_crypt lib) (pv_pw e) (ui_password ui) (pv_passwordKey e);
            case pwEnc of
              None \<Rightarrow> Some (Inl (pv_text e ''error_password_encrypt''))
            | Some pw \<Rightarrow> (let device = new_device lib e ui initPacket pw in
                Some (Inr (device, pair_response lib e ui device))) })"

definition send_response :: "'j libs \<Rightarrow> pair_env \<Rightarrow> PairedDevice \<Rightarrow> string \<Rightarrow> pairing_server \<Rightarrow> sock \<Rightarrow> (pairing_server \<times> sock) option" where
  "send_response lib e device text v s = do {
     (ok, s) \<leftarrow> WriteEncryptedPacket lib (pv_enc e) (ui_encKey (ps_UIData v)) PAIR_RESPONSE8 text s;
     Some (if ok then v\<lparr>ps_fs := AddDevice (lb_json lib) (lb_platform lib) (pv_prot e) (pv_dir e) device (ps_fs v),
             ps_cred_prov := (if lb_platform lib = Windows then ps_cred_prov v @ [ui_userName (ps_UIData v)] else ps_cred_prov v)\<rparr>
           else v, s) }"

text \<open>The handler of the exception; an exception in it ends the program (\<open>None\<close>).\<close>

definition send_error :: "'j libs \<Rightarrow> pair_env \<Rightarrow> string \<Rightarrow> pairing_server \<Rightarrow> sock \<Rightarrow> (pairing_server \<times> sock) option" where
  "send_error lib e msg v s = do {
     text \<leftarrow> j_dump (lb_json lib) (PairResponse_ToJson (lb_json lib) \<lparr>pr_errMsg = msg, pr_data = empty_PairResponseData\<rparr>);
     (ok, s) \<leftarrow> WriteEncryptedPacket lib (pv_err e) (ui_encKey (ps_UIData v)) PAIR_RESPONSE8 text s;
     Some (if ok then v else report msg v, s) }"

definition answer_client :: "'j libs \<Rightarrow> pair_env \<Rightarrow> bytes \<Rightarrow> pairing_server \<Rightarrow> sock \<Rightarrow> (pairing_server \<times> sock) option" where
  "answer_client lib e data v s = do {
     r \<leftarrow> handle_init lib e (ps_UIData v) data;
     case r of
       Inl msg \<Rightarrow> send_error lib e msg v s
     | Inr (device, respPacket) \<Rightarrow>
         (case j_dump (lb_json lib) (PairResponse_ToJson (lb_json lib) respPacket) of
            None \<Rightarrow> send_error lib e (pv_json_error e) v s
          | Some text \<Rightarrow> send_response lib e device text v s) }"

definition Pairing_ClientThread :: "'j libs \<Rightarrow> pair_env \<Rightarrow> int \<Rightarrow> pairing_server \<Rightarrow> sock \<Rightarrow> (pairing_server \<times> sock) option" where
  "Pairing_ClientThread lib e k v s = do {
     let v = v\<lparr>ps_num := ps_num v + 1\<rparr>;
     (packetRes, s) \<leftarrow> ReadEncryptedPacket lib (pv_dec e) (ui_encKey (ps_UIData v)) s;
     if cp_data packetRes = [] then
       (let v = v\<lparr>ps_closed := ps_closed v @ [k]\<rparr> in
        Some (if cp_result packetRes = INVALID_TIMESTAMP then report (pv_text e ''error_aes_time_mismatch'') v else v, s))
     else do {
       (v, s) \<leftarrow> answer_client lib e (cp_data packetRes) v s;
       Some (v\<lparr>ps_num := ps_num v - 1, ps_closed := ps_closed v @ [k]\<rparr>, s) }
   }"

section \<open>Who can pair\<close>

lemma ReadEncryptedPacket_cases:
  assumes "crypt_laws (lb_crypt lib)" and "ReadEncryptedPacket lib e encKey s = Some (r, s')" and "cp_data r \<noteq> []"
  shows "sk_out s' = sk_out s \<and> sk_tx s' = sk_tx s \<and>
    (\<exists>packet p. ReadPacket (lb_platform lib) s = Some (packet, s') \<and> pk_error packet = PE_NONE \<and>
       sublist (pk_data packet) (rx_bytes (sk_rx s)) \<and>
       unseal (lb_crypt lib) (c_str encKey) (pk_data packet) = Some p \<and> 8 < length p \<and> cp_data r = drop 8 p \<and>
       in_window (ce_now e) (sint (un_be64 (take 8 p))))"
proof -
  obtain packet s1 where p: "ReadPacket (lb_platform lib) s = Some (packet, s1)"
    using assms(2) by (auto simp: ReadEncryptedPacket_def bind_eq_Some_conv)
  have s1: "sk_out s1 = sk_out s" "sk_tx s1 = sk_tx s"
    using p by (auto simp: ReadPacket_def split: option.splits)
  have err: "pk_error packet = PE_NONE" using assms(2,3) p by (auto simp: ReadEncryptedPacket_def split: if_splits)
  then have dec: "DecryptAESPacket (lb_crypt lib) e (pk_data packet) encKey = Some r" "s' = s1"
    using assms(2) p by (auto simp: ReadEncryptedPacket_def bind_eq_Some_conv)
  obtain r' where r': "DecryptAESPacket (lb_crypt lib) e (pk_data packet) encKey = Some r'"
    "r' = crypt_error OTHER_ERROR \<or> (\<exists>p. unseal (lb_crypt lib) (c_str encKey) (pk_data packet) = Some p \<and> r' = open_stamped (ce_now e) p)"
    using DecryptAESPacket_result [OF assms(1), of e "pk_data packet" encKey] by metis
  have "cp_result r = OK"
    using r' dec(1) assms(3) by (auto simp: crypt_error_def open_stamped_def split: if_splits)
  moreover have "sublist (pk_data packet) (rx_bytes (sk_rx s))"
    using packet_arrived [of packet "lb_platform lib" "sk_rx s"] packets_of_step [OF p err] by simp
  ultimately show ?thesis using DecryptAESPacket_OK [OF assms(1) dec(1)] s1 dec(2) p err by blast
qed

lemma WriteEncryptedPacket_sent:
  assumes "WriteEncryptedPacket lib e encKey PAIR_RESPONSE8 body s = Some (True, s')"
  shows "\<exists>sealed. EncryptAESPacket (lb_crypt lib) e (bytes_of body) encKey = Some \<lparr>cp_result = OK, cp_data = sealed\<rparr> \<and>
    sk_out s' = sk_out s @ frame PACKET_ID_PAIR_RESPONSE sealed"
proof -
  obtain r where r: "EncryptAESPacket (lb_crypt lib) e (bytes_of body) encKey = Some r" "cp_result r = OK"
    using assms by (auto simp: WriteEncryptedPacket_def bind_eq_Some_conv split: if_splits)
  then have "WritePacket (lb_platform lib) PACKET_ID_PAIR_RESPONSE (cp_data r) s = Some (PE_NONE, s')"
    using assms by (auto simp: WriteEncryptedPacket_def PAIR_RESPONSE8_id bind_eq_Some_conv)
  from WritePacket_prefix' [OF this] r show ?thesis
    by (intro exI [of _ "cp_data r"]) simp
qed

lemma send_error_fs: "send_error lib e msg v s = Some (v', s') \<Longrightarrow> ps_fs v' = ps_fs v"
  by (auto simp: send_error_def bind_eq_Some_conv report_def split: if_splits)

lemma new_device_simps [simp]:
  "pd_encryptionKey (new_device lib e ui ini pw) = ui_encKey ui" "pd_userName (new_device lib e ui ini pw) = ui_userName ui"
  "pd_passwordEnc (new_device lib e ui ini pw) = pw" "pd_pairingMethod (new_device lib e ui ini pw) = ui_method ui"
  by (simp_all add: new_device_def split: prod.split)

lemma pair_response_password:
  "pair_response lib e ui (new_device lib e ui ini pw) = pair_response lib e ui (new_device lib e ui ini pw')"
  by (simp add: pair_response_def new_device_def split: prod.split)

lemma handle_init_device:
  assumes "handle_init lib e ui data = Some (Inr (device, resp))"
  shows "\<exists>ini pw. PairInit_FromJson (lb_json lib) (string_of data) = Some ini \<and>
    CompareVersion GetPairingProtocolVersion (pi_protoVersion ini) = 0 \<and>
    EncryptAES (lb_crypt lib) (pv_pw e) (ui_password ui) (pv_passwordKey e) = Some (Some pw) \<and>
    device = new_device lib e ui (if pi_deviceUUID ini = [] then ini\<lparr>pi_deviceUUID := pv_uuid e\<rparr> else ini) pw \<and>
    resp = pair_response lib e ui device"
  using assms
  by (auto simp: handle_init_def Let_def bind_eq_Some_conv split: option.splits if_splits)

lemma answer_client_cases:
  assumes "answer_client lib e data v s = Some (v', s')"
  shows "(\<exists>msg. send_error lib e msg v s = Some (v', s')) \<or>
    (\<exists>device resp body. handle_init lib e (ps_UIData v) data = Some (Inr (device, resp)) \<and>
      j_dump (lb_json lib) (PairResponse_ToJson (lb_json lib) resp) = Some body \<and>
      send_response lib e device body v s = Some (v', s'))"
proof -
  obtain r where r: "handle_init lib e (ps_UIData v) data = Some r"
    using assms by (auto simp: answer_client_def bind_eq_Some_conv)
  show ?thesis
  proof (cases r)
    case (Inl msg)
    with assms r show ?thesis by (auto simp: answer_client_def)
  next
    case (Inr p)
    then obtain device resp where "r = Inr (device, resp)" by (cases p) simp
    with r assms show ?thesis by (auto simp: answer_client_def split: option.splits)
  qed
qed

lemma answer_client_fs:
  assumes "answer_client lib e data v s = Some (v', s')" and "ps_fs v' \<noteq> ps_fs v"
  shows "\<exists>device resp body. handle_init lib e (ps_UIData v) data = Some (Inr (device, resp)) \<and>
    j_dump (lb_json lib) (PairResponse_ToJson (lb_json lib) resp) = Some body \<and>
    WriteEncryptedPacket lib (pv_enc e) (ui_encKey (ps_UIData v)) PAIR_RESPONSE8 body s = Some (True, s') \<and>
    ps_fs v' = AddDevice (lb_json lib) (lb_platform lib) (pv_prot e) (pv_dir e) device (ps_fs v)"
proof -
  obtain device resp body where p: "handle_init lib e (ps_UIData v) data = Some (Inr (device, resp))"
    "j_dump (lb_json lib) (PairResponse_ToJson (lb_json lib) resp) = Some body"
    "send_response lib e device body v s = Some (v', s')"
    using answer_client_cases [OF assms(1)] send_error_fs assms(2) by metis
  then show ?thesis using assms(2)
    by (auto simp: send_response_def bind_eq_Some_conv split: if_splits)
qed

text \<open>
  C15: The device store changes only for a phone that knows the key of the QR code: the packet that this thread read
  from the client's connection, whose bytes arrived there, is a request sealed under that key inside the two-minute
  window with the server's protocol version. What is stored is the device that this request describes (with a fresh id if
  it carries none) with the key, method and user of the pairing and the encrypted password; and the client was sent the
  whole response for this device, sealed under the same key.
\<close>

theorem pairing_needs_key:
  assumes "crypt_laws (lb_crypt lib)" and "Pairing_ClientThread lib e k v s = Some (v', s')" and "ps_fs v' \<noteq> ps_fs v"
  shows "\<exists>packet s1 p ini pw device body sealed.
    ReadPacket (lb_platform lib) s = Some (packet, s1) \<and> pk_error packet = PE_NONE \<and>
    sublist (pk_data packet) (rx_bytes (sk_rx s)) \<and>
    unseal (lb_crypt lib) (c_str (ui_encKey (ps_UIData v))) (pk_data packet) = Some p \<and> 8 < length p \<and>
    in_window (ce_now (pv_dec e)) (sint (un_be64 (take 8 p))) \<and>
    PairInit_FromJson (lb_json lib) (string_of (drop 8 p)) = Some ini \<and>
    CompareVersion GetPairingProtocolVersion (pi_protoVersion ini) = 0 \<and>
    EncryptAES (lb_crypt lib) (pv_pw e) (ui_password (ps_UIData v)) (pv_passwordKey e) = Some (Some pw) \<and>
    device = new_device lib e (ps_UIData v)
      (if pi_deviceUUID ini = [] then ini\<lparr>pi_deviceUUID := pv_uuid e\<rparr> else ini) pw \<and>
    pd_encryptionKey device = ui_encKey (ps_UIData v) \<and> pd_userName device = ui_userName (ps_UIData v) \<and>
    ps_fs v' = AddDevice (lb_json lib) (lb_platform lib) (pv_prot e) (pv_dir e) device (ps_fs v) \<and>
    j_dump (lb_json lib) (PairResponse_ToJson (lb_json lib) (pair_response lib e (ps_UIData v) device)) = Some body \<and>
    EncryptAESPacket (lb_crypt lib) (pv_enc e) (bytes_of body) (ui_encKey (ps_UIData v)) =
      Some \<lparr>cp_result = OK, cp_data = sealed\<rparr> \<and>
    sk_out s' = sk_out s @ frame PACKET_ID_PAIR_RESPONSE sealed"
proof -
  let ?v = "v\<lparr>ps_num := ps_num v + 1\<rparr>"
  obtain r s1 where r: "ReadEncryptedPacket lib (pv_dec e) (ui_encKey (ps_UIData v)) s = Some (r, s1)"
    using assms(2) by (auto simp: Pairing_ClientThread_def Let_def bind_eq_Some_conv)
  have d: "cp_data r \<noteq> []"
    using assms(2,3) r by (auto simp: Pairing_ClientThread_def Let_def report_def split: if_splits)
  obtain v1 where a: "answer_client lib e (cp_data r) ?v s1 = Some (v1, s')" "ps_fs v1 = ps_fs v'"
    using assms(2) r d by (auto simp: Pairing_ClientThread_def Let_def bind_eq_Some_conv)
  then have "ps_fs v1 \<noteq> ps_fs ?v" using assms(3) by simp
  from answer_client_fs [OF a(1) this] obtain device resp body where
    h: "handle_init lib e (ps_UIData v) (cp_data r) = Some (Inr (device, resp))"
      "j_dump (lb_json lib) (PairResponse_ToJson (lb_json lib) resp) = Some body"
      "WriteEncryptedPacket lib (pv_enc e) (ui_encKey (ps_UIData v)) PAIR_RESPONSE8 body s1 = Some (True, s')"
      "ps_fs v1 = AddDevice (lb_json lib) (lb_platform lib) (pv_prot e) (pv_dir e) device (ps_fs v)" by auto
  obtain packet p where c: "sk_out s1 = sk_out s" "ReadPacket (lb_platform lib) s = Some (packet, s1)" "pk_error packet = PE_NONE"
    "sublist (pk_data packet) (rx_bytes (sk_rx s))"
    "unseal (lb_crypt lib) (c_str (ui_encKey (ps_UIData v))) (pk_data packet) = Some p" "8 < length p" "cp_data r = drop 8 p"
    "in_window (ce_now (pv_dec e)) (sint (un_be64 (take 8 p)))"
    using ReadEncryptedPacket_cases [OF assms(1) r d] by blast
  obtain ini pw where i: "PairInit_FromJson (lb_json lib) (string_of (cp_data r)) = Some ini"
    "CompareVersion GetPairingProtocolVersion (pi_protoVersion ini) = 0"
    "EncryptAES (lb_crypt lib) (pv_pw e) (ui_password (ps_UIData v)) (pv_passwordKey e) = Some (Some pw)"
    "device = new_device lib e (ps_UIData v) (if pi_deviceUUID ini = [] then ini\<lparr>pi_deviceUUID := pv_uuid e\<rparr> else ini) pw"
    "resp = pair_response lib e (ps_UIData v) device"
    using handle_init_device [OF h(1)] by blast
  obtain sealed where w: "EncryptAESPacket (lb_crypt lib) (pv_enc e) (bytes_of body) (ui_encKey (ps_UIData v)) =
      Some \<lparr>cp_result = OK, cp_data = sealed\<rparr>" "sk_out s' = sk_out s1 @ frame PACKET_ID_PAIR_RESPONSE sealed"
    using WriteEncryptedPacket_sent [OF h(3)] by blast
  show ?thesis
    by (rule exI [of _ packet], rule exI [of _ s1], rule exI [of _ p], rule exI [of _ ini], rule exI [of _ pw],
        rule exI [of _ device], rule exI [of _ body], rule exI [of _ sealed])
      (use c i h w a(2) in auto)
qed

section \<open>An honest phone\<close>

lemma honest_request:
  assumes "crypt_laws (lb_crypt lib)" and "all_succeed ep" and "all_succeed e"
    and "int64_time (ce_now ep)" and "int64_time (ce_now e)" and "\<bar>ce_now e - ce_now ep\<bar> \<le> CRYPT_PACKET_TIMEOUT"
    and "EncryptAESPacket (lb_crypt lib) ep data encKey = Some \<lparr>cp_result = OK, cp_data = sealed\<rparr>"
    and "data \<noteq> []" and "length data \<le> 1992"
    and "quiet (sk_rx s)" and "rx_bytes (sk_rx s) = frame pid sealed @ rest"
  shows "\<exists>rx. ReadEncryptedPacket lib e encKey s = Some (\<lparr>cp_result = OK, cp_data = data\<rparr>, s\<lparr>sk_rx := rx\<rparr>)"
proof -
  have s: "sealed = seal (lb_crypt lib) (ce_iv ep) (ce_salt ep) (c_str encKey) (be64 (word_of_int (ce_now ep)) @ data)"
    using EncryptAESPacket_result [OF assms(1), of ep data encKey] all_succeed_codes [OF assms(2)] assms(2,7,9)
    by (simp add: all_succeed_def)
  then have "length sealed = 56 + length data"
    using length_seal [OF assms(1), of "ce_iv ep" "ce_salt ep"] assms(2) by (simp add: all_succeed_def env_ok_def crypt_sizes)
  then have "sealed \<noteq> []" "length sealed < 65536" using assms(9) by auto
  from ReadPacket_frame' [OF assms(10,11) this, of "lb_platform lib"] obtain rx where
    rx: "ReadPacket_rx (lb_platform lib) (sk_rx s) = Some (\<lparr>pk_error = PE_NONE, pk_id = pid, pk_data = sealed\<rparr>, rx)" by blast
  have "DecryptAESPacket (lb_crypt lib) e sealed encKey = Some \<lparr>cp_result = OK, cp_data = data\<rparr>"
    using decrypt_of_encrypt [OF assms(1,2,3) refl assms(9), of encKey] assms(6,7) open_stamped_sealed [OF assms(4,5,8)] by simp
  with rx show ?thesis
    by (intro exI [of _ rx]) (simp add: ReadEncryptedPacket_def ReadPacket_def)
qed

lemma honest_response:
  assumes "crypt_laws (lb_crypt lib)" and "all_succeed e" and "length body \<le> 1992" and "rooms (sk_tx s) \<ge> 2060"
  shows "\<exists>s' sealed. WriteEncryptedPacket lib e encKey PAIR_RESPONSE8 body s = Some (True, s') \<and>
    EncryptAESPacket (lb_crypt lib) e (bytes_of body) encKey = Some \<lparr>cp_result = OK, cp_data = sealed\<rparr> \<and>
    sk_out s' = sk_out s @ frame PACKET_ID_PAIR_RESPONSE sealed"
proof -
  have r: "EncryptAESPacket (lb_crypt lib) e (bytes_of body) encKey = Some \<lparr>cp_result = OK, cp_data =
      seal (lb_crypt lib) (ce_iv e) (ce_salt e) (c_str encKey) (be64 (word_of_int (ce_now e)) @ bytes_of body)\<rparr>" (is "_ = Some \<lparr>cp_result = OK, cp_data = ?sealed\<rparr>")
    using EncryptAESPacket_result [OF assms(1), of e "bytes_of body" encKey] all_succeed_codes [OF assms(2)] assms(2,3)
    by (simp add: all_succeed_def)
  have "length ?sealed = 56 + length body"
    using length_seal [OF assms(1), of "ce_iv e" "ce_salt e"] assms(2) by (simp add: all_succeed_def env_ok_def crypt_sizes)
  then have "12 + length ?sealed \<le> rooms (sk_tx s)" using assms(3,4) by simp
  from WritePacket_live [OF this, of "lb_platform lib" PACKET_ID_PAIR_RESPONSE] obtain s' where
    "WritePacket (lb_platform lib) PACKET_ID_PAIR_RESPONSE ?sealed s = Some (PE_NONE, s')"
    "sk_out s' = sk_out s @ frame PACKET_ID_PAIR_RESPONSE ?sealed" by blast
  with r show ?thesis
    by (intro exI [of _ s'] exI [of _ ?sealed]) (simp add: WriteEncryptedPacket_def PAIR_RESPONSE8_id)
qed

lemma AddDevice_found:
  assumes "json_laws J" and "prot_ok pf env" and "stored J dir f ds" and "room J dir (add_device d ds) f"
  shows "fst (GetDeviceByID J pf env dir (pd_id d) (AddDevice J pf env dir d f)) = Some d"
proof -
  have "AddDevice J pf env dir d f = SaveDevices J pf env dir (add_device d ds) f"
    using GetDevices_stored [OF assms(1-3)] by (simp add: AddDevice_def add_device_def)
  then have "stored J dir (AddDevice J pf env dir d f) (add_device d ds)"
    using SaveDevices_stored [OF assms(1,2,4)] by simp
  from GetDevices_stored [OF assms(1,2) this] show ?thesis
    by (simp add: GetDeviceByID_def add_device_def find_append find_filter)
qed

text \<open>
  What the phone takes from the text of the answer: the error message, its device id, the user and the key of the
  password. The phone's parser is not in the repository; this is the reading of the fields that \<open>ToJson\<close> names.
\<close>

definition phone_reads_pairing :: "'j json_lib \<Rightarrow> string \<Rightarrow> (string \<times> string \<times> string \<times> string) option" where
  "phone_reads_pairing J t = do {
     v \<leftarrow> j_parse J t;
     msg \<leftarrow> get_string J v ''errMsg'';
     d \<leftarrow> j_field J v ''data'';
     i \<leftarrow> get_string J d ''deviceId'';
     u \<leftarrow> get_string J d ''userName'';
     k \<leftarrow> get_string J d ''passwordKey'';
     Some (msg, i, u, k) }"

lemma phone_reads_response:
  assumes "json_laws J" and "j_dump J (PairResponse_ToJson J r) = Some t"
  shows "phone_reads_pairing J t = Some (pr_errMsg r, pr_deviceId (pr_data r), pr_userName (pr_data r), pr_passwordKey (pr_data r))"
  using json_parse_dump [OF assms(1) built_packets(2) assms(2)]
  by (simp add: phone_reads_pairing_def PairResponse_ToJson_def PairResponseData_ToJson_def json_get_object(1) json_lawsD(1) assms(1))

lemma pairing_run:
  assumes "crypt_laws (lb_crypt lib)" and "json_laws (lb_json lib)"
    and "all_succeed (pv_dec e)" and "all_succeed (pv_pw e)" and "all_succeed (pv_enc e)" and "all_succeed ep" and "all_succeed eu"
    and "int64_time (ce_now ep)" and "int64_time (ce_now (pv_dec e))" and "int64_time (ce_now (pv_enc e))"
    and "\<bar>ce_now (pv_dec e) - ce_now ep\<bar> \<le> CRYPT_PACKET_TIMEOUT" and "\<bar>ce_now ep - ce_now (pv_enc e)\<bar> \<le> CRYPT_PACKET_TIMEOUT"
    \<comment> \<open>the phone's message\<close>
    and "j_dump (lb_json lib) (phone_pair_init_json (lb_json lib) ini) = Some itext" and "itext \<noteq> []" and "length itext \<le> 1992"
    and "CompareVersion GetPairingProtocolVersion (pi_protoVersion ini) = 0" and "pi_deviceUUID ini \<noteq> []"
    and "EncryptAESPacket (lb_crypt lib) ep (bytes_of itext) (ui_encKey (ps_UIData v)) = Some \<lparr>cp_result = OK, cp_data = sealed\<rparr>"
    and "quiet (sk_rx s)" and "rx_bytes (sk_rx s) = frame pid sealed @ rest" and "rooms (sk_tx s) \<ge> 2060"
    \<comment> \<open>the PC's data\<close>
    and "1 \<le> length (ui_password (ps_UIData v))" and "length (ui_password (ps_UIData v)) \<le> 976"
    and "j_dump (lb_json lib) (PairResponse_ToJson (lb_json lib)
          (pair_response lib e (ps_UIData v) (new_device lib e (ps_UIData v) ini []))) = Some rtext"
    and "rtext \<noteq> []" and "length rtext \<le> 1992"
    and "prot_ok (lb_platform lib) (pv_prot e)" and "stored (lb_json lib) (pv_dir e) (ps_fs v) ds"
    and "\<And>pw. length pw \<le> 2048 \<Longrightarrow> room (lb_json lib) (pv_dir e) (add_device (new_device lib e (ps_UIData v) ini pw) ds) (ps_fs v)"
  shows "\<exists>v' s' device answer key. Pairing_ClientThread lib e k v s = Some (v', s') \<and> ps_num v' = ps_num v \<and>
    fst (GetDeviceByID (lb_json lib) (lb_platform lib) (pv_prot e) (pv_dir e) (pd_id device) (ps_fs v')) = Some device \<and>
    sk_out s' = sk_out s @ frame PACKET_ID_PAIR_RESPONSE answer \<and>
    DecryptAESPacket (lb_crypt lib) ep answer (ui_encKey (ps_UIData v)) = Some \<lparr>cp_result = OK, cp_data = bytes_of rtext\<rparr> \<and>
    phone_reads_pairing (lb_json lib) rtext = Some ([], pd_id device, ui_userName (ps_UIData v), key) \<and>
    DecryptAES (lb_crypt lib) eu (pd_passwordEnc device) key = Some (Some (ui_password (ps_UIData v)))"
proof -
  let ?ui = "ps_UIData v" and ?key = "ui_encKey (ps_UIData v)"
  let ?v = "v\<lparr>ps_num := ps_num v + 1\<rparr>"
  obtain rx where req: "ReadEncryptedPacket lib (pv_dec e) ?key s = Some (\<lparr>cp_result = OK, cp_data = bytes_of itext\<rparr>, s\<lparr>sk_rx := rx\<rparr>)"
    using honest_request [OF assms(1,6,3,8,9,11,18), of s pid rest] assms(14,15,19,20) by auto
  obtain pw where pw: "EncryptAES (lb_crypt lib) (pv_pw e) (ui_password ?ui) (pv_passwordKey e) = Some (Some pw)"
    "length pw = 2 * length (ui_password ?ui) + 96"
    "DecryptAES (lb_crypt lib) eu pw (pv_passwordKey e) = Some (Some (ui_password ?ui))"
    using password_back [OF assms(1,4,7) refl, of "ui_password ?ui" "pv_passwordKey e"] assms(22,23) by auto
  define device where "device = new_device lib e ?ui ini pw"
  have init: "handle_init lib e ?ui (bytes_of itext) = Some (Inr (device, pair_response lib e ?ui device))"
    using PairInit_parse [OF assms(2,13)] assms(16,17) pw(1) by (simp add: handle_init_def device_def Let_def)
  have dump: "j_dump (lb_json lib) (PairResponse_ToJson (lb_json lib) (pair_response lib e ?ui device)) = Some rtext"
    using assms(24) pair_response_password [of lib e ?ui ini pw "[]"] by (simp add: device_def)
  obtain s' answer where w: "WriteEncryptedPacket lib (pv_enc e) ?key PAIR_RESPONSE8 rtext (s\<lparr>sk_rx := rx\<rparr>) = Some (True, s')"
    "EncryptAESPacket (lb_crypt lib) (pv_enc e) (bytes_of rtext) ?key = Some \<lparr>cp_result = OK, cp_data = answer\<rparr>"
    "sk_out s' = sk_out s @ frame PACKET_ID_PAIR_RESPONSE answer"
    using honest_response [OF assms(1,5,26), of "s\<lparr>sk_rx := rx\<rparr>" ?key] assms(21) by auto
  let ?fs = "AddDevice (lb_json lib) (lb_platform lib) (pv_prot e) (pv_dir e) device (ps_fs v)"
  have "\<exists>v'. Pairing_ClientThread lib e k v s = Some (v', s') \<and> ps_num v' = ps_num v \<and> ps_fs v' = ?fs"
    using req init dump w(1) assms(14)
    by (simp add: Pairing_ClientThread_def answer_client_def send_response_def Let_def)
  moreover have "fst (GetDeviceByID (lb_json lib) (lb_platform lib) (pv_prot e) (pv_dir e) (pd_id device) ?fs) = Some device"
    using AddDevice_found [OF assms(2,27,28)] assms(29) [of pw] pw(2) assms(23) by (simp add: device_def)
  moreover have "DecryptAESPacket (lb_crypt lib) ep answer ?key = Some \<lparr>cp_result = OK, cp_data = bytes_of rtext\<rparr>"
    using decrypt_of_encrypt [OF assms(1,5,6) refl, of "bytes_of rtext" ?key] w(2) assms(12,25,26)
      open_stamped_sealed [OF assms(10,8), of "bytes_of rtext"] by simp
  moreover have "phone_reads_pairing (lb_json lib) rtext = Some ([], pd_id device, ui_userName ?ui, pv_passwordKey e)"
    using phone_reads_response [OF assms(2) dump] by (simp add: pair_response_def)
  ultimately show ?thesis using w(3) pw(3) by (metis device_def new_device_simps(3))
qed

text \<open>
  C16: Pairing and unlocking fit together: when a phone with the right key sends its data in time and the password
  has 1 to 976 characters, the connection counter is back, the phone can open the answer, and the text in it reports no
  error, names an id under which the device is stored and found again, the user, and a key under which the stored password
  decrypts.
\<close>

theorem pairing_then_unlock:
  assumes "crypt_laws (lb_crypt lib)" and "json_laws (lb_json lib)"
    and "all_succeed (pv_dec e)" and "all_succeed (pv_pw e)" and "all_succeed (pv_enc e)" and "all_succeed ep" and "all_succeed eu"
    and "int64_time (ce_now ep)" and "int64_time (ce_now (pv_dec e))" and "int64_time (ce_now (pv_enc e))"
    and "\<bar>ce_now (pv_dec e) - ce_now ep\<bar> \<le> CRYPT_PACKET_TIMEOUT" and "\<bar>ce_now ep - ce_now (pv_enc e)\<bar> \<le> CRYPT_PACKET_TIMEOUT"
    \<comment> \<open>the phone's message\<close>
    and "j_dump (lb_json lib) (phone_pair_init_json (lb_json lib) ini) = Some itext" and "itext \<noteq> []" and "length itext \<le> 1992"
    and "CompareVersion GetPairingProtocolVersion (pi_protoVersion ini) = 0" and "pi_deviceUUID ini \<noteq> []"
    and "EncryptAESPacket (lb_crypt lib) ep (bytes_of itext) (ui_encKey (ps_UIData v)) = Some \<lparr>cp_result = OK, cp_data = sealed\<rparr>"
    and "quiet (sk_rx s)" and "rx_bytes (sk_rx s) = frame pid sealed @ rest" and "rooms (sk_tx s) \<ge> 2060"
    \<comment> \<open>the PC's data\<close>
    and "1 \<le> length (ui_password (ps_UIData v))" and "length (ui_password (ps_UIData v)) \<le> 976"
    and "j_dump (lb_json lib) (PairResponse_ToJson (lb_json lib)
          (pair_response lib e (ps_UIData v) (new_device lib e (ps_UIData v) ini []))) = Some rtext"
    and "rtext \<noteq> []" and "length rtext \<le> 1992"
    and "prot_ok (lb_platform lib) (pv_prot e)" and "stored (lb_json lib) (pv_dir e) (ps_fs v) ds"
    and "\<And>pw. length pw \<le> 2048 \<Longrightarrow> room (lb_json lib) (pv_dir e) (add_device (new_device lib e (ps_UIData v) ini pw) ds) (ps_fs v)"
  shows "\<exists>v' s' device answer key. Pairing_ClientThread lib e k v s = Some (v', s') \<and> ps_num v' = ps_num v \<and>
    fst (GetDeviceByID (lb_json lib) (lb_platform lib) (pv_prot e) (pv_dir e) (pd_id device) (ps_fs v')) = Some device \<and>
    sk_out s' = sk_out s @ frame PACKET_ID_PAIR_RESPONSE answer \<and>
    DecryptAESPacket (lb_crypt lib) ep answer (ui_encKey (ps_UIData v)) = Some \<lparr>cp_result = OK, cp_data = bytes_of rtext\<rparr> \<and>
    phone_reads_pairing (lb_json lib) rtext = Some ([], pd_id device, ui_userName (ps_UIData v), key) \<and>
    DecryptAES (lb_crypt lib) eu (pd_passwordEnc device) key = Some (Some (ui_password (ps_UIData v)))"
  by (rule pairing_run [OF assms])

section \<open>Connection slots\<close>

text \<open>
  The counter \<open>m_NumConnections\<close> when clients come one after the other: each is taken by a turn of the accept loop,
  which looks at the counter as the threads left it, and its thread runs to its end. The result is the sockets
  that were given a thread, and the server. \<open>asked\<close>: the thread got a request out of the connection.
\<close>

definition asked :: "'j libs \<Rightarrow> string \<Rightarrow> int \<times> pair_env \<times> sock \<Rightarrow> bool" where
  "asked lib key c = (case c of (k, e, s) \<Rightarrow>
     (case ReadEncryptedPacket lib (pv_dec e) key s of None \<Rightarrow> False | Some (r, _) \<Rightarrow> cp_data r \<noteq> []))"

definition one_turn :: "int \<Rightarrow> int \<Rightarrow> accept_obs list" where
  "one_turn num k = [\<lparr>ao_running = True, ao_num = num, ao_accept = Inr k, ao_nonblock = True\<rparr>,
     \<lparr>ao_running = False, ao_num = num, ao_accept = Inr k, ao_nonblock = True\<rparr>]"

fun pairing_visits :: "'j libs \<Rightarrow> (int \<times> pair_env \<times> sock) list \<Rightarrow> pairing_server \<Rightarrow> (int list \<times> pairing_server) option" where
  "pairing_visits lib [] v = Some ([], v)"
| "pairing_visits lib ((k, e, s) # cs) v = do {
     (x, clients) \<leftarrow> accept_loop (one_turn (ps_num v) k) [];
     if clients = [] then pairing_visits lib cs v
     else do {
       (v, _) \<leftarrow> Pairing_ClientThread lib e k v s;
       (ks, v) \<leftarrow> pairing_visits lib cs v;
       Some (clients @ ks, v) } }"

text \<open>The counter after one client's thread: it is back only after an answer.\<close>

lemma answer_client_num:
  assumes "answer_client lib e data v s = Some (v', s')"
  shows "ps_num v' = ps_num v"
proof -
  have "send_error lib e msg v s = Some (v', s') \<Longrightarrow> ?thesis" for msg
    by (auto simp: send_error_def report_def bind_eq_Some_conv split: if_splits)
  moreover have "send_response lib e device body v s = Some (v', s') \<Longrightarrow> ?thesis" for device body
    by (auto simp: send_response_def bind_eq_Some_conv split: if_splits)
  ultimately show ?thesis using answer_client_cases [OF assms] by blast
qed

lemma Pairing_ClientThread_num:
  assumes "Pairing_ClientThread lib e k v s = Some (v', s')"
    and "ReadEncryptedPacket lib (pv_dec e) (ui_encKey (ps_UIData v)) s = Some (r, s1)"
  shows "ps_num v' = (if cp_data r = [] then ps_num v + 1 else ps_num v)"
  using assms
  by (auto simp: Pairing_ClientThread_def Let_def report_def bind_eq_Some_conv dest!: answer_client_num split: if_splits)

lemma Pairing_ClientThread_ui:
  assumes "Pairing_ClientThread lib e k v s = Some (v', s')"
  shows "ps_UIData v' = ps_UIData v"
proof -
  have "ps_UIData w' = ps_UIData w" if "answer_client lib e data w t = Some (w', t')" for data w w' t t'
  proof -
    have "send_error lib e msg w t = Some (w', t') \<Longrightarrow> ?thesis" for msg
      by (auto simp: send_error_def report_def bind_eq_Some_conv split: if_splits)
    moreover have "send_response lib e device body w t = Some (w', t') \<Longrightarrow> ?thesis" for device body
      by (auto simp: send_response_def bind_eq_Some_conv split: if_splits)
    ultimately show ?thesis using answer_client_cases [OF that] by blast
  qed
  with assms show ?thesis
    by (auto simp: Pairing_ClientThread_def Let_def report_def bind_eq_Some_conv split: if_splits)
qed

lemma Pairing_ClientThread_asked:
  assumes "Pairing_ClientThread lib e k v s = Some (v', s')"
  shows "ps_num v' = (if asked lib (ui_encKey (ps_UIData v)) (k, e, s) then ps_num v else ps_num v + 1)"
proof -
  obtain r s1 where r: "ReadEncryptedPacket lib (pv_dec e) (ui_encKey (ps_UIData v)) s = Some (r, s1)"
    using assms by (auto simp: Pairing_ClientThread_def Let_def bind_eq_Some_conv)
  with Pairing_ClientThread_num [OF assms r] show ?thesis by (simp add: asked_def)
qed

lemma one_turn_served: "accept_loop (one_turn num k) [] = Some (AX_Stopped, if num < MAX_CLIENTS then [k] else [])"
  by (simp add: one_turn_def)

lemma visits_full: "MAX_CLIENTS \<le> ps_num v \<Longrightarrow> pairing_visits lib cs v = Some ([], v)"
  by (induction lib cs v rule: pairing_visits.induct) (auto simp: one_turn_served)

lemma visits_append:
  "pairing_visits lib (cs @ ds) v =
     do { (ks, v) \<leftarrow> pairing_visits lib cs v; (ls, v) \<leftarrow> pairing_visits lib ds v; Some (ks @ ls, v) }"
proof (induction cs arbitrary: v)
  case Nil
  then show ?case by (cases "pairing_visits lib ds v") auto
next
  case (Cons c cs)
  obtain k e s where "c = (k, e, s)" by (cases c) auto
  then show ?case
    by (cases "Pairing_ClientThread lib e k v s") (auto simp: one_turn_served Cons.IH bind_assoc split_beta)
qed

lemma visits_num:
  assumes "pairing_visits lib cs v = Some (ks, v')" and "ps_num v \<le> MAX_CLIENTS"
  shows "ps_num v' = min MAX_CLIENTS (ps_num v + int (length (filter (\<lambda>c. \<not> asked lib (ui_encKey (ps_UIData v)) c) cs)))"
  using assms
proof (induction lib cs v arbitrary: ks rule: pairing_visits.induct)
  case (1 lib v)
  then show ?case by simp
next
  case (2 lib k e s cs v)
  show ?case
  proof (cases "ps_num v < MAX_CLIENTS")
    case False
    with "2.prems" visits_full [of v lib cs] show ?thesis by (auto simp: one_turn_served)
  next
    case True
    then obtain w t ls where w: "Pairing_ClientThread lib e k v s = Some (w, t)" "pairing_visits lib cs w = Some (ls, v')"
      using "2.prems"(1) by (auto simp: one_turn_served bind_eq_Some_conv)
    have "ps_num w \<le> MAX_CLIENTS" using Pairing_ClientThread_asked [OF w(1)] True by auto
    then have "ps_num v' = min MAX_CLIENTS (ps_num w + int (length (filter (\<lambda>c. \<not> asked lib (ui_encKey (ps_UIData w)) c) cs)))"
      using "2.IH"(2) [OF one_turn_served refl _ w(1) refl w(2)] True by simp
    then show ?thesis using Pairing_ClientThread_ui [OF w(1)] Pairing_ClientThread_asked [OF w(1)] by auto
  qed
qed

text \<open>
  C17: The slots of the pairing server leak. When clients come one after the other, so that nobody is connected
  between them, each one whose thread gets no request (closed, unreadable, not sealed under the key or outside the window) leaves
  the counter one higher and each answered one leaves it as it was, up to ten; and once ten have been lost, no later
  client is served, whatever it sends, and the server stays as it is.
\<close>

theorem pairing_slots_leak:
  assumes "pairing_visits lib (cs @ ds) v = Some (ks, v')" and "ps_num v = 0"
  shows "\<exists>ks1 v1. pairing_visits lib cs v = Some (ks1, v1) \<and>
    ps_num v1 = min 10 (int (length (filter (\<lambda>c. \<not> asked lib (ui_encKey (ps_UIData v)) c) cs))) \<and>
    (10 \<le> length (filter (\<lambda>c. \<not> asked lib (ui_encKey (ps_UIData v)) c) cs) \<longrightarrow> ks = ks1 \<and> v' = v1)"
proof -
  obtain ks1 v1 ks2 where v: "pairing_visits lib cs v = Some (ks1, v1)" "pairing_visits lib ds v1 = Some (ks2, v')" "ks = ks1 @ ks2"
    using assms(1) by (auto simp: visits_append bind_eq_Some_conv)
  have n: "ps_num v1 = min 10 (int (length (filter (\<lambda>c. \<not> asked lib (ui_encKey (ps_UIData v)) c) cs)))"
    using visits_num [OF v(1)] assms(2) by (simp add: MAX_CLIENTS_def)
  moreover have "ks2 = [] \<and> v' = v1" if "10 \<le> ps_num v1"
    using visits_full [of v1 lib ds] v(2) that by (simp add: MAX_CLIENTS_def)
  ultimately show ?thesis using v(1,3) by auto
qed

section \<open>Witnesses\<close>

definition demo_ui :: PairingUIData where
  "demo_ui = \<lparr>ui_userName = ''u'', ui_password = ''pw'', ui_encKey = [], ui_method = TCP, ui_macAddress = [],
     ui_btAddress = [], ui_useLegacy = False\<rparr>"

definition demo_pairing :: pairing_server where
  "demo_pairing = \<lparr>ps_UIData = demo_ui, ps_running = True, ps_joinable = True, ps_ServerSocket = 3, ps_num = 0,
     ps_errors = [], ps_closed = [], ps_fs = null_store\<lparr>fs_capacity := (\<lambda>_. Some 100000)\<rparr>, ps_cred_prov = []\<rparr>"

definition demo_pair_env :: pair_env where
  "demo_pair_env = \<lparr>pv_dec = demo_env 0, pv_pw = demo_env 0, pv_enc = demo_env 0, pv_err = demo_env 0, pv_uuid = ''i'',
     pv_passwordKey = ''k'', pv_machineID = ''m'', pv_hostName = ''h'', pv_unlockServerPort = 80, pv_macs = [],
     pv_sha = (True, 1, 1, 1), pv_prot = demo_prot, pv_dir = ''d'', pv_text = (\<lambda>k. k), pv_json_error = []\<rparr>"

definition demo_init :: PacketPairInit where
  "demo_init = empty_PairInit\<lparr>pi_protoVersion := ''4.0.0'', pi_deviceUUID := ''x''\<rparr>"

definition demo_init_text :: string where
  "demo_init_text = put_val (phone_pair_init_json toy_json demo_init)"

definition demo_init_sealed :: bytes where
  "demo_init_sealed = seal toy_crypt (replicate 16 7) (replicate 16 9) [] (be64 0 @ bytes_of demo_init_text)"

definition demo_pair_sock :: sock where
  "demo_pair_sock = \<lparr>sk_rx = [RxData (frame PACKET_ID_PAIR_INIT demo_init_sealed)], sk_tx = replicate 3000 (TxRoom 1), sk_out = []\<rparr>"

definition demo_pair_text :: string where
  "demo_pair_text = put_val (PairResponse_ToJson toy_json (pair_response demo_libs demo_pair_env demo_ui
     (new_device demo_libs demo_pair_env demo_ui demo_init [])))"

lemma demo_init_text: "demo_init_text \<noteq> []" "length demo_init_text \<le> 1992"
  using put_nonempty(1)
  by (fastforce simp: demo_init_text_def)
    (simp add: demo_init_text_def phone_pair_init_json_def toy_json_def demo_init_def empty_PairInit_def length_put_str)

lemma CompareVersion_refl: "CompareVersion v v = 0"
  by (simp add: CompareVersion_def compare_loop_0 split: option.split)

lemma demo_pair_text: "demo_pair_text \<noteq> []" "length demo_pair_text \<le> 1992"
  using put_nonempty(1)
  by (fastforce simp: demo_pair_text_def)
    (simp add: demo_pair_text_def PairResponse_ToJson_def PairResponseData_ToJson_def pair_response_def new_device_def
      toy_json_def demo_init_def empty_PairInit_def length_put_str demo_pair_env_def demo_ui_def demo_libs_def Sha256_def
      ToHexString_def length_toy_hex toy_crypt_def)

lemma demo_pair_room:
  assumes "length pw \<le> 2048"
  shows "room toy_json ''d'' (add_device (new_device demo_libs demo_pair_env demo_ui demo_init pw) []) (ps_fs demo_pairing)"
  using assms
  by (simp add: room_def add_device_def demo_pairing_def null_store_def demo_fs_def toy_json_def devices_json_def
      device_json_def jv_push_def length_put_str new_device_def demo_pair_env_def demo_init_def empty_PairInit_def demo_ui_def
      demo_libs_def Sha256_def ToHexString_def length_toy_hex toy_crypt_def)

lemma demo_pairing_laws:
  shows "crypt_laws (lb_crypt demo_libs)"
    and "json_laws (lb_json demo_libs)"
    and "all_succeed (pv_dec demo_pair_env)"
    and "all_succeed (pv_pw demo_pair_env)"
    and "all_succeed (pv_enc demo_pair_env)"
    and "all_succeed (demo_env 0)"
    and "all_succeed (demo_env 0)"
    and "int64_time (ce_now (demo_env 0))"
    and "int64_time (ce_now (pv_dec demo_pair_env))"
    and "int64_time (ce_now (pv_enc demo_pair_env))"
    and "\<bar>ce_now (pv_dec demo_pair_env) - ce_now (demo_env 0)\<bar> \<le> CRYPT_PACKET_TIMEOUT"
    and "\<bar>ce_now (demo_env 0) - ce_now (pv_enc demo_pair_env)\<bar> \<le> CRYPT_PACKET_TIMEOUT"
    and "j_dump (lb_json demo_libs) (phone_pair_init_json (lb_json demo_libs) demo_init) = Some demo_init_text"
    and "demo_init_text \<noteq> []"
    and "length demo_init_text \<le> 1992"
    and "CompareVersion GetPairingProtocolVersion (pi_protoVersion demo_init) = 0"
    and "pi_deviceUUID demo_init \<noteq> []"
    and "EncryptAESPacket (lb_crypt demo_libs) (demo_env 0) (bytes_of demo_init_text) (ui_encKey (ps_UIData demo_pairing)) = Some \<lparr>cp_result = OK, cp_data = demo_init_sealed\<rparr>"
    and "quiet (sk_rx demo_pair_sock)"
    and "rx_bytes (sk_rx demo_pair_sock) = frame PACKET_ID_PAIR_INIT demo_init_sealed @ []"
    and "rooms (sk_tx demo_pair_sock) \<ge> 2060"
    and "1 \<le> length (ui_password (ps_UIData demo_pairing))"
    and "length (ui_password (ps_UIData demo_pairing)) \<le> 976"
    and "j_dump (lb_json demo_libs) (PairResponse_ToJson (lb_json demo_libs)
          (pair_response demo_libs demo_pair_env (ps_UIData demo_pairing) (new_device demo_libs demo_pair_env (ps_UIData demo_pairing) demo_init []))) = Some demo_pair_text"
    and "demo_pair_text \<noteq> []"
    and "length demo_pair_text \<le> 1992"
    and "prot_ok (lb_platform demo_libs) (pv_prot demo_pair_env)"
    and "stored (lb_json demo_libs) (pv_dir demo_pair_env) (ps_fs demo_pairing) []"
    and "\<And>pw. length pw \<le> 2048 \<Longrightarrow> room (lb_json demo_libs) (pv_dir demo_pair_env) (add_device (new_device demo_libs demo_pair_env (ps_UIData demo_pairing) demo_init pw) []) (ps_fs demo_pairing)"
proof -
  show "EncryptAESPacket (lb_crypt demo_libs) (demo_env 0) (bytes_of demo_init_text) (ui_encKey (ps_UIData demo_pairing)) =
      Some \<lparr>cp_result = OK, cp_data = demo_init_sealed\<rparr>"
    using EncryptAESPacket_result [OF toy_crypt_laws, of "demo_env 0" "bytes_of demo_init_text" "[]"] demo_init_text(2)
      all_succeed_codes [of "demo_env 0"]
    by (simp add: demo_init_sealed_def c_str_def demo_libs_def demo_pairing_def demo_ui_def)
  show "stored (lb_json demo_libs) (pv_dir demo_pair_env) (ps_fs demo_pairing) []"
    using null_store_text unfolding stored_def
    by (simp add: demo_libs_def demo_pair_env_def demo_pairing_def ReadBytes_def toy_json_def jv_items_def null_store_def demo_fs_def)
  show "room (lb_json demo_libs) (pv_dir demo_pair_env)
      (add_device (new_device demo_libs demo_pair_env (ps_UIData demo_pairing) demo_init pw) []) (ps_fs demo_pairing)"
    if "length pw \<le> 2048" for pw
    using demo_pair_room [OF that] by (simp add: demo_libs_def demo_pair_env_def demo_pairing_def)
  show "j_dump (lb_json demo_libs) (PairResponse_ToJson (lb_json demo_libs) (pair_response demo_libs demo_pair_env
      (ps_UIData demo_pairing) (new_device demo_libs demo_pair_env (ps_UIData demo_pairing) demo_init []))) = Some demo_pair_text"
    by (simp add: demo_pair_text_def demo_pairing_def demo_libs_def demo_dump)
  show "j_dump (lb_json demo_libs) (phone_pair_init_json (lb_json demo_libs) demo_init) = Some demo_init_text"
    by (simp add: demo_init_text_def demo_libs_def demo_dump)
  show "CompareVersion GetPairingProtocolVersion (pi_protoVersion demo_init) = 0"
    by (simp add: demo_init_def GetPairingProtocolVersion_def CompareVersion_refl)
qed (simp_all add: demo_libs_def toy_crypt_laws toy_json_laws demo_pair_env_def demo_pairing_def demo_ui_def demo_dump
    demo_init_text demo_pair_text demo_pair_sock_def rooms_replicate demo_init_def demo_prot_def prot_ok_def int64_time_def
    CRYPT_PACKET_TIMEOUT_def)

lemma pairing_then_unlock_witness:
  "\<exists>v' s' device answer key. Pairing_ClientThread demo_libs demo_pair_env 5 demo_pairing demo_pair_sock = Some (v', s') \<and>
    ps_num v' = ps_num demo_pairing \<and>
    fst (GetDeviceByID (lb_json demo_libs) (lb_platform demo_libs) (pv_prot demo_pair_env) (pv_dir demo_pair_env) (pd_id device)
      (ps_fs v')) = Some device \<and>
    sk_out s' = sk_out demo_pair_sock @ frame PACKET_ID_PAIR_RESPONSE answer \<and>
    DecryptAESPacket (lb_crypt demo_libs) (demo_env 0) answer (ui_encKey (ps_UIData demo_pairing)) =
      Some \<lparr>cp_result = OK, cp_data = bytes_of demo_pair_text\<rparr> \<and>
    phone_reads_pairing (lb_json demo_libs) demo_pair_text = Some ([], pd_id device, ui_userName (ps_UIData demo_pairing), key) \<and>
    DecryptAES (lb_crypt demo_libs) (demo_env 0) (pd_passwordEnc device) key =
      Some (Some (ui_password (ps_UIData demo_pairing)))"
  by (rule pairing_then_unlock [OF demo_pairing_laws])

text \<open>The same run changes the store, which held no device.\<close>

lemma demo_pairing_changes:
  assumes "fst (GetDeviceByID toy_json Linux demo_prot ''d'' i f) = Some d"
  shows "f \<noteq> ps_fs demo_pairing"
proof
  assume "f = ps_fs demo_pairing"
  moreover have "stored toy_json ''d'' (ps_fs demo_pairing) []"
    using null_store_text unfolding stored_def
    by (simp add: demo_pairing_def ReadBytes_def toy_json_def jv_items_def null_store_def demo_fs_def)
  ultimately show False
    using assms GetDevices_stored [of toy_json Linux demo_prot "''d''" f "[]"] toy_json_laws
    by (simp add: GetDeviceByID_def prot_ok_def demo_prot_def)
qed

lemma pairing_needs_key_witness:
  "\<exists>v' s' packet s1 p pw ini. Pairing_ClientThread demo_libs demo_pair_env 5 demo_pairing demo_pair_sock = Some (v', s') \<and>
     ReadPacket Linux demo_pair_sock = Some (packet, s1) \<and> unseal toy_crypt (c_str []) (pk_data packet) = Some p \<and>
     PairInit_FromJson toy_json (string_of (drop 8 p)) = Some ini \<and>
     ps_fs v' = AddDevice toy_json Linux demo_prot ''d'' (new_device demo_libs demo_pair_env demo_ui
       (if pi_deviceUUID ini = [] then ini\<lparr>pi_deviceUUID := ''i''\<rparr> else ini) pw) (ps_fs demo_pairing)"
proof -
  obtain v' s' device where run: "Pairing_ClientThread demo_libs demo_pair_env 5 demo_pairing demo_pair_sock = Some (v', s')"
    "fst (GetDeviceByID toy_json Linux demo_prot ''d'' (pd_id device) (ps_fs v')) = Some device"
    using pairing_run [OF demo_pairing_laws, of 5] by (auto simp: demo_libs_def demo_pair_env_def)
  have laws: "crypt_laws (lb_crypt demo_libs)" by (simp add: demo_libs_def toy_crypt_laws)
  have sel: "lb_json demo_libs = toy_json" "lb_crypt demo_libs = toy_crypt" "lb_platform demo_libs = Linux"
    "ps_UIData demo_pairing = demo_ui" "ui_encKey demo_ui = []" "pv_uuid demo_pair_env = ''i''" "pv_prot demo_pair_env = demo_prot"
    "pv_dir demo_pair_env = ''d''"
    by (simp_all add: demo_libs_def demo_pairing_def demo_ui_def demo_pair_env_def)
  show ?thesis
    using pairing_needs_key [OF laws run(1) demo_pairing_changes [OF run(2)]] run(1) unfolding sel by blast
qed

text \<open>Ten clients that close at once, then the phone with the key of the runs above.\<close>

definition closed_sock :: sock where "closed_sock = \<lparr>sk_rx = [RxEof], sk_tx = [], sk_out = []\<rparr>"

lemma closed_read: "ReadEncryptedPacket lib e key closed_sock = Some (\<lparr>cp_result = OK, cp_data = []\<rparr>, closed_sock\<lparr>sk_rx := []\<rparr>)"
  by (simp add: closed_sock_def ReadEncryptedPacket_def ReadPacket_def ReadPacket_rx_def header_loop.simps
      GetPacketError_def packet_error_def)

lemma closed_visits:
  "ps_num v + int n \<le> MAX_CLIENTS \<Longrightarrow> pairing_visits lib (replicate n (k, e, closed_sock)) v =
     Some (replicate n k, v\<lparr>ps_num := ps_num v + int n, ps_closed := ps_closed v @ replicate n k\<rparr>)"
proof (induction n arbitrary: v)
  case (Suc n)
  let ?w = "v\<lparr>ps_num := ps_num v + 1, ps_closed := ps_closed v @ [k]\<rparr>"
  have "Pairing_ClientThread lib e k v closed_sock = Some (?w, closed_sock\<lparr>sk_rx := []\<rparr>)"
    by (simp add: Pairing_ClientThread_def closed_read Let_def)
  with Suc.IH [of ?w] Suc.prems show ?case by (simp add: one_turn_served algebra_simps)
qed simp

lemma pairing_slots_leak_witness:
  "\<exists>v1. pairing_visits demo_libs (replicate 10 (7, demo_pair_env, closed_sock) @ [(8, demo_pair_env, demo_pair_sock)])
     demo_pairing = Some (replicate 10 7, v1) \<and> ps_num v1 = 10 \<and> ps_fs v1 = ps_fs demo_pairing"
proof -
  let ?cs = "replicate 10 (7, demo_pair_env, closed_sock)" and ?ds = "[(8, demo_pair_env, demo_pair_sock)]"
  have num: "ps_num demo_pairing = 0" by (simp add: demo_pairing_def)
  obtain v1 where v1: "pairing_visits demo_libs ?cs demo_pairing = Some (replicate 10 7, v1)" "ps_num v1 = 10"
    "ps_fs v1 = ps_fs demo_pairing"
    using closed_visits [of demo_pairing 10 demo_libs 7 demo_pair_env] num by (simp add: MAX_CLIENTS_def)
  then have run: "pairing_visits demo_libs (?cs @ ?ds) demo_pairing = Some (replicate 10 7, v1)"
    using visits_full [of v1 demo_libs ?ds] by (simp add: visits_append MAX_CLIENTS_def del: pairing_visits.simps)
  have "length (filter (\<lambda>c. \<not> asked demo_libs (ui_encKey (ps_UIData demo_pairing)) c) ?cs) = 10"
    by (simp add: asked_def closed_read filter_replicate)
  from pairing_slots_leak [OF run num] this v1 run show ?thesis by auto
qed

end
