(* ===== verification/UnlockHandler.thy ===== *)
theory UnlockHandler
  imports UDPBroadcaster UnlockClients
begin

text \<open>
  \<open>common/src/handler/UnlockHandler.cpp\<close>: one unlock attempt over all paired devices of a user. Every device gets
  a connection with a thread that polls it (\<open>RunServer\<close>); the threads store their result in a shared cell, and
  \<open>GetResult\<close> waits on a condition variable until all have counted themselves.
\<close>

section \<open>Connections\<close>

record UnlockResult =
  re_state :: UnlockState
  re_device :: PairedDevice
  re_password :: string

definition empty_result :: UnlockResult where
  "empty_result = \<lparr>re_state = US_UNKNOWN, re_device = empty_device, re_password = []\<rparr>"

definition result_of_state :: "UnlockState \<Rightarrow> UnlockResult" where
  "result_of_state s = empty_result\<lparr>re_state := s\<rparr>"

datatype conn_kind = TcpClient string u16 | BtClient string | CloudClient

record handler_conn =
  hc_kind :: conn_kind
  hc_client :: unlock_client

definition open_conn :: "string \<Rightarrow> string \<Rightarrow> string \<Rightarrow> PairedDevice \<Rightarrow> conn_kind \<Rightarrow> handler_conn" where
  "open_conn authUser authProgram token device kind =
     (let c = new_client token device
      in \<lparr>hc_kind = kind, hc_client = c\<lparr>ck_conn := SetUnlockInfo authUser authProgram (ck_conn c)\<rparr>\<rparr>)"

text \<open>
  One turn of the loop over the devices: the broadcaster and the connections so far. The UDP methods have no
  \<open>break\<close>; they go on with the code of \<open>CLOUD_TCP\<close>. The token is drawn by the constructor.
\<close>

definition add_device_conn :: "u16 \<Rightarrow> string \<Rightarrow> string \<Rightarrow> unlock_broadcaster option \<times> handler_conn list \<Rightarrow>
    string \<times> PairedDevice \<Rightarrow> unlock_broadcaster option \<times> handler_conn list" where
  "add_device_conn unlockPort authUser authProgram acc td =
     (let (bc, conns) = acc; (token, device) = td; new = open_conn authUser authProgram token device
      in case pd_pairingMethod device of
        TCP \<Rightarrow> (bc, conns @ [new (TcpClient (pd_ipAddress device) (pd_tcpPort device))])
      | BLUETOOTH \<Rightarrow> (bc, conns @ [new (BtClient (pd_bluetoothAddress device))])
      | CLOUD_TCP \<Rightarrow> (bc, conns @ [new CloudClient])
      | CLOUD_BT \<Rightarrow> (bc, conns)
      | m \<Rightarrow>
          (let b = (case bc of None \<Rightarrow> \<lparr>bu_UnlockPort = unlockPort, bu_Devices = []\<rparr> | Some b \<Rightarrow> b);
               port = (if m = UDP then pd_udpPort device else pd_udpManualPort device)
           in (Some (Unlock_AddDevice (pd_id device) port (m = MANUAL_UDP) b), conns @ [new CloudClient])))"

text \<open>\<open>tokens\<close> are the random strings, one for each device in order.\<close>

definition handler_connections :: "u16 \<Rightarrow> string \<Rightarrow> string \<Rightarrow> string list \<Rightarrow> PairedDevice list \<Rightarrow>
    unlock_broadcaster option \<times> handler_conn list" where
  "handler_connections unlockPort authUser authProgram tokens devices =
     foldl (add_device_conn unlockPort authUser authProgram) (None, []) (zip tokens devices)"

text \<open>The part of \<open>GetResult\<close> before the threads: a result at once, or what the threads work on.\<close>

definition GetResult_start :: "(string \<Rightarrow> string) \<Rightarrow> (string \<Rightarrow> string \<Rightarrow> string) \<Rightarrow> u16 \<Rightarrow> string \<Rightarrow> string \<Rightarrow> string list \<Rightarrow>
    PairedDevice list \<Rightarrow> (UnlockResult + unlock_broadcaster option \<times> handler_conn list) \<times> string list" where
  "GetResult_start tr trf unlockPort authUser authProgram tokens devices =
     (let (bc, conns) = handler_connections unlockPort authUser authProgram tokens devices
      in if conns = [] then (Inl (result_of_state US_NOT_PAIRED_ERROR), [trf ''error_not_paired'' authUser])
         else (Inr (bc, conns), []))"

section \<open>RunServer\<close>

text \<open>One turn of the polling loop: what it reads of the other threads, the clock and the keyboard.\<close>

record turn =
  tn_success :: bool     \<comment> \<open>another connection has succeeded\<close>
  tn_stopped :: bool     \<comment> \<open>the caller's \<open>isRunning\<close> is cleared\<close>
  tn_client :: bool      \<comment> \<open>\<open>HasClient\<close> before the poll\<close>
  tn_poll :: UnlockState
  tn_client2 :: bool     \<comment> \<open>at the time-out\<close>
  tn_now :: int
  tn_keys :: bool        \<comment> \<open>Ctrl and Alt are down\<close>
  tn_client3 :: bool     \<comment> \<open>at the end of the turn\<close>

text \<open>What the loop says and asks of the broadcaster.\<close>

type_synonym outputs = "string list \<times> call list"

definition say :: "string \<Rightarrow> outputs \<Rightarrow> outputs" where
  "say m out = (fst out @ [m], snd out)"

definition ask :: "bool \<Rightarrow> call \<Rightarrow> outputs \<Rightarrow> outputs" where
  "ask hasBc c out = (if hasBc then (fst out, snd out @ [c]) else out)"

text \<open>The result is the state and \<open>isFutureCancel\<close>; \<open>None\<close> when the turns do not end the loop.\<close>

fun poll_loop :: "(string \<Rightarrow> string) \<Rightarrow> bool \<Rightarrow> string \<Rightarrow> int \<Rightarrow> turn list \<Rightarrow> bool \<Rightarrow> outputs \<Rightarrow>
    (UnlockState \<times> bool \<times> outputs) option" where
  "poll_loop tr hasBc connectMessage startTime [] isWaiting out = None"
| "poll_loop tr hasBc connectMessage startTime (t # ts) isWaiting out =
     (if tn_success t \<or> tn_stopped t then Some (US_CANCELED, True, out)
      else
        let (isWaiting, out) = (if tn_client t \<and> isWaiting
              then (False, ask hasBc Stop (say (tr ''wait_phone_unlock'') out)) else (isWaiting, out))
        in if tn_poll t \<noteq> US_UNKNOWN then Some (tn_poll t, False, out)
           else if \<not> tn_client2 t \<and> tn_now t - startTime > CRYPT_PACKET_TIMEOUT then Some (US_TIMEOUT, False, out)
           else if tn_keys t then Some (US_CANCELED, False, out)
           else if \<not> tn_client3 t \<and> \<not> isWaiting
             then poll_loop tr hasBc connectMessage startTime ts True (ask hasBc Start (say connectMessage out))
             else poll_loop tr hasBc connectMessage startTime ts isWaiting out)"

text \<open>
  \<open>started\<close> is the answer of \<open>Start\<close>, \<open>conn\<close> the connection after \<open>Stop\<close>, \<open>e\<close> the environment in which the
  password is decrypted.
\<close>

definition finish_server :: "'j libs \<Rightarrow> crypt_env \<Rightarrow> (string \<Rightarrow> string) \<Rightarrow> UnlockState \<Rightarrow> unlock_conn \<Rightarrow> outputs \<Rightarrow>
    (UnlockResult \<times> outputs) option" where
  "finish_server lib e tr state conn out = do {
     pwDec \<leftarrow> DecryptAES (lb_crypt lib) e (pd_passwordEnc (uc_PairedDevice conn)) (rd_passwordKey (uc_ResponseData conn));
     if pwDec = None \<and> state = US_SUCCESS
     then Some (result_of_state US_DATA_ERROR, say (tr ''error_password_decrypt'') out)
     else Some (\<lparr>re_state = state, re_device = uc_PairedDevice conn,
       re_password = (case pwDec of Some pw \<Rightarrow> pw | None \<Rightarrow> [])\<rparr>, out) }"

definition RunServer :: "'j libs \<Rightarrow> crypt_env \<Rightarrow> (string \<Rightarrow> string) \<Rightarrow> bool \<Rightarrow> bool \<Rightarrow> bool \<Rightarrow> int \<Rightarrow> turn list \<Rightarrow> unlock_conn \<Rightarrow>
    (UnlockResult \<times> outputs) option" where
  "RunServer lib e tr isServer hasBc started startTime turns conn =
     (if \<not> started then Some (result_of_state US_START_ERROR, say (tr ''error_start_handler'') ([], []))
      else do {
        let connectMessage = tr (if isServer then ''wait_server_phone_connect'' else ''wait_client_phone_connect'');
        (state, isFutureCancel, out) \<leftarrow> poll_loop tr hasBc connectMessage startTime turns True (say connectMessage ([], []));
        finish_server lib e tr state conn (if isFutureCancel then out else say (state_ToString tr state) out)
      })"

section \<open>What RunServer returns\<close>

definition ends_polling :: "int \<Rightarrow> turn \<Rightarrow> bool" where
  "ends_polling startTime t \<longleftrightarrow> tn_success t \<or> tn_stopped t \<or> tn_poll t \<noteq> US_UNKNOWN \<or> tn_keys t \<or>
     \<not> tn_client2 t \<and> tn_now t - startTime > CRYPT_PACKET_TIMEOUT"

text \<open>One turn: it ends the loop, or the loop goes on with another waiting flag and more outputs.\<close>

definition turn_out1 :: "(string \<Rightarrow> string) \<Rightarrow> bool \<Rightarrow> turn \<Rightarrow> bool \<Rightarrow> outputs \<Rightarrow> outputs" where
  "turn_out1 tr hasBc t w out = (if tn_client t \<and> w then ask hasBc Stop (say (tr ''wait_phone_unlock'') out) else out)"

definition turn_wait :: "turn \<Rightarrow> bool \<Rightarrow> bool" where
  "turn_wait t w \<longleftrightarrow> w \<and> \<not> tn_client t \<or> \<not> tn_client3 t"

definition turn_out :: "(string \<Rightarrow> string) \<Rightarrow> bool \<Rightarrow> string \<Rightarrow> turn \<Rightarrow> bool \<Rightarrow> outputs \<Rightarrow> outputs" where
  "turn_out tr hasBc msg t w out = (if \<not> tn_client3 t \<and> (tn_client t \<or> \<not> w)
     then ask hasBc Start (say msg (turn_out1 tr hasBc t w out)) else turn_out1 tr hasBc t w out)"

lemma poll_loop_continue:
  "\<not> ends_polling startTime t \<Longrightarrow> poll_loop tr hasBc msg startTime (t # ts) w out =
     poll_loop tr hasBc msg startTime ts (turn_wait t w) (turn_out tr hasBc msg t w out)"
  by (cases w; cases "tn_client t"; cases "tn_client3 t")
    (auto simp: ends_polling_def turn_wait_def turn_out_def turn_out1_def)

lemma poll_loop_end:
  assumes "ends_polling startTime t"
  shows "\<exists>state future out1. poll_loop tr hasBc msg startTime (t # ts) w out = Some (state, future, out1) \<and>
    state \<noteq> US_UNKNOWN \<and> (out1 = out \<or> out1 = turn_out1 tr hasBc t w out) \<and>
    (state = US_SUCCESS \<longrightarrow> \<not> future \<and> tn_poll t = US_SUCCESS \<and> \<not> tn_success t \<and> \<not> tn_stopped t)"
proof (cases "tn_success t \<or> tn_stopped t")
  case True
  then show ?thesis by auto
next
  case False
  have "poll_loop tr hasBc msg startTime (t # ts) w out = Some
      (if tn_poll t \<noteq> US_UNKNOWN then tn_poll t
       else if \<not> tn_client2 t \<and> tn_now t - startTime > CRYPT_PACKET_TIMEOUT then US_TIMEOUT else US_CANCELED,
       False, turn_out1 tr hasBc t w out)"
    using assms False
    by (cases "tn_poll t = US_UNKNOWN"; cases "\<not> tn_client2 t \<and> tn_now t - startTime > CRYPT_PACKET_TIMEOUT")
      (auto simp: ends_polling_def turn_out1_def)
  then show ?thesis using False by (auto simp del: poll_loop.simps)
qed

lemma poll_loop_returns: "poll_loop tr hasBc msg startTime ts w out \<noteq> None \<longleftrightarrow> (\<exists>t \<in> set ts. ends_polling startTime t)"
proof (induction ts arbitrary: w out)
  case (Cons t ts)
  show ?case
  proof (cases "ends_polling startTime t")
    case True
    with poll_loop_end [OF True, of tr hasBc msg ts w out] show ?thesis by (auto simp del: poll_loop.simps)
  next
    case False
    with Cons show ?thesis by (simp add: poll_loop_continue del: poll_loop.simps)
  qed
qed simp

lemma poll_loop_state:
  "poll_loop tr hasBc msg startTime ts w out = Some (state, future, out') \<Longrightarrow>
   state \<noteq> US_UNKNOWN \<and>
   (state = US_SUCCESS \<longrightarrow> \<not> future \<and> (\<exists>t \<in> set ts. tn_poll t = US_SUCCESS \<and> \<not> tn_success t \<and> \<not> tn_stopped t))"
proof (induction ts arbitrary: w out)
  case (Cons t ts)
  show ?case
  proof (cases "ends_polling startTime t")
    case True
    with poll_loop_end [OF True, of tr hasBc msg ts w out] Cons.prems show ?thesis by (auto simp del: poll_loop.simps)
  next
    case False
    with Cons.prems have "poll_loop tr hasBc msg startTime ts (turn_wait t w) (turn_out tr hasBc msg t w out) = Some (state, future, out')"
      by (simp add: poll_loop_continue del: poll_loop.simps)
    from Cons.IH [OF this] show ?thesis by auto
  qed
qed simp

text \<open>The calls of the broadcaster alternate, beginning with the one that is not in force.\<close>

fun alternating :: "call \<Rightarrow> call list \<Rightarrow> bool" where
  "alternating c [] \<longleftrightarrow> True"
| "alternating c (d # ds) \<longleftrightarrow> d = c \<and> alternating (if c = Start then Stop else Start) ds"

abbreviation next_call :: "bool \<Rightarrow> call" where
  "next_call w \<equiv> if w then Stop else Start"

lemma turn_calls:
  "\<exists>cs. snd (turn_out1 tr hasBc t w out) = snd out @ cs \<and> alternating (next_call w) cs"
  "\<exists>cs. snd (turn_out tr hasBc msg t w out) = snd out @ cs \<and>
     (\<forall>ds. alternating (next_call (turn_wait t w)) ds \<and> (\<not> hasBc \<longrightarrow> ds = []) \<longrightarrow> alternating (next_call w) (cs @ ds) \<and> (\<not> hasBc \<longrightarrow> cs @ ds = []))"
  by (cases hasBc; cases w; cases "tn_client t"; simp add: turn_out1_def ask_def say_def)
    (cases hasBc; cases w; cases "tn_client t"; cases "tn_client3 t";
      simp add: turn_out_def turn_out1_def turn_wait_def ask_def say_def)

lemma poll_loop_calls:
  "poll_loop tr hasBc msg startTime ts w out = Some (state, future, out') \<Longrightarrow>
   \<exists>cs. snd out' = snd out @ cs \<and> alternating (next_call w) cs \<and> (\<not> hasBc \<longrightarrow> cs = [])"
proof (induction ts arbitrary: w out)
  case (Cons t ts)
  show ?case
  proof (cases "ends_polling startTime t")
    case True
    from poll_loop_end [OF True, of tr hasBc msg ts w out] Cons.prems
    have "out' = out \<or> out' = turn_out1 tr hasBc t w out" by (auto simp del: poll_loop.simps)
    moreover have "\<not> hasBc \<Longrightarrow> snd (turn_out1 tr hasBc t w out) = snd out" by (simp add: turn_out1_def ask_def say_def)
    ultimately show ?thesis using turn_calls(1) [of tr hasBc t w out] by auto
  next
    case False
    with Cons.prems have "poll_loop tr hasBc msg startTime ts (turn_wait t w) (turn_out tr hasBc msg t w out) = Some (state, future, out')"
      by (simp add: poll_loop_continue del: poll_loop.simps)
    from Cons.IH [OF this] obtain ds where
      "snd out' = snd (turn_out tr hasBc msg t w out) @ ds" "alternating (next_call (turn_wait t w)) ds" "\<not> hasBc \<longrightarrow> ds = []" by blast
    with turn_calls(2) [of tr hasBc msg t w out] show ?thesis by (metis append.assoc)
  qed
qed simp

lemma finish_server_cases:
  assumes "finish_server lib e tr state conn out = Some (r, out')"
  shows "snd out' = snd out" and "re_state r = state \<or> re_state r = US_DATA_ERROR"
    and "re_state r = US_SUCCESS \<Longrightarrow> state = US_SUCCESS \<and> re_device r = uc_PairedDevice conn \<and>
      DecryptAES (lb_crypt lib) e (pd_passwordEnc (uc_PairedDevice conn)) (rd_passwordKey (uc_ResponseData conn)) =
        Some (Some (re_password r))"
  using assms
  by (auto simp: finish_server_def bind_eq_Some_conv result_of_state_def empty_result_def say_def split: if_splits option.splits)

lemma RunServer_decides:
  assumes "RunServer lib e tr isServer hasBc started startTime turns conn = Some (r, out)"
  shows "re_state r \<noteq> US_UNKNOWN \<and> alternating Stop (snd out) \<and>
    (re_state r = US_SUCCESS \<longrightarrow>
      (\<exists>t \<in> set turns. tn_poll t = US_SUCCESS \<and> \<not> tn_success t \<and> \<not> tn_stopped t) \<and> re_device r = uc_PairedDevice conn \<and>
      DecryptAES (lb_crypt lib) e (pd_passwordEnc (uc_PairedDevice conn)) (rd_passwordKey (uc_ResponseData conn)) =
        Some (Some (re_password r)))"
proof (cases started)
  case False
  with assms show ?thesis by (auto simp: RunServer_def result_of_state_def say_def)
next
  case True
  let ?msg = "tr (if isServer then ''wait_server_phone_connect'' else ''wait_client_phone_connect'')"
  obtain state future out1 where loop: "poll_loop tr hasBc ?msg startTime turns True (say ?msg ([], [])) = Some (state, future, out1)"
    and fin: "finish_server lib e tr state conn (if future then out1 else say (state_ToString tr state) out1) = Some (r, out)"
    using assms True by (auto simp: RunServer_def Let_def bind_eq_Some_conv)
  have "alternating Stop (snd out1)" using poll_loop_calls [OF loop] by (auto simp: say_def)
  moreover have "snd out = snd out1" using finish_server_cases(1) [OF fin] by (simp add: say_def split: if_splits)
  ultimately show ?thesis using poll_loop_state [OF loop] finish_server_cases(2,3) [OF fin] by auto
qed

lemma RunServer_returns:
  assumes "crypt_laws (lb_crypt lib)"
  shows "RunServer lib e tr isServer hasBc started startTime turns conn \<noteq> None \<longleftrightarrow>
    (started \<longrightarrow> (\<exists>t \<in> set turns. ends_polling startTime t))"
proof -
  obtain pw where pw: "DecryptAES (lb_crypt lib) e (pd_passwordEnc (uc_PairedDevice conn)) (rd_passwordKey (uc_ResponseData conn)) = Some pw"
    using DecryptAES_total [OF assms] by blast
  let ?msg = "tr (if isServer then ''wait_server_phone_connect'' else ''wait_client_phone_connect'')"
  have fin: "\<exists>x. finish_server lib e tr state conn out = Some x" for state out by (simp add: finish_server_def pw)
  have "RunServer lib e tr isServer hasBc started startTime turns conn \<noteq> None \<longleftrightarrow>
      (started \<longrightarrow> poll_loop tr hasBc ?msg startTime turns True (say ?msg ([], [])) \<noteq> None)"
  proof (cases "poll_loop tr hasBc ?msg startTime turns True (say ?msg ([], []))")
    case (Some x)
    then show ?thesis
      using fin [of "fst x" "if fst (snd x) then snd (snd x) else say (state_ToString tr (fst x)) (snd (snd x))"]
      by (cases x) (auto simp: RunServer_def Let_def)
  qed (simp add: RunServer_def Let_def)
  then show ?thesis by (simp only: poll_loop_returns)
qed

text \<open>
  C22: \<open>RunServer\<close> returns exactly when one of the turns ends the polling, and then it decides: its result is never the unknown
  state, it is \<open>SUCCESS\<close> only when a poll of this connection said so while nobody else had succeeded and the caller still wanted
  it, and then the password is the stored one decrypted with the key of the response; the broadcaster is stopped and started in
  turn, stop first.
\<close>

theorem run_server_decides:
  assumes "crypt_laws (lb_crypt lib)"
  shows "(RunServer lib e tr isServer hasBc started startTime turns conn \<noteq> None \<longleftrightarrow>
      (started \<longrightarrow> (\<exists>t \<in> set turns. ends_polling startTime t))) \<and>
    (\<forall>r out. RunServer lib e tr isServer hasBc started startTime turns conn = Some (r, out) \<longrightarrow>
      re_state r \<noteq> US_UNKNOWN \<and> alternating Stop (snd out) \<and>
      (re_state r = US_SUCCESS \<longrightarrow>
        (\<exists>t \<in> set turns. tn_poll t = US_SUCCESS \<and> \<not> tn_success t \<and> \<not> tn_stopped t) \<and> re_device r = uc_PairedDevice conn \<and>
        DecryptAES (lb_crypt lib) e (pd_passwordEnc (uc_PairedDevice conn)) (rd_passwordKey (uc_ResponseData conn)) =
          Some (Some (re_password r))))"
  using RunServer_returns [OF assms] RunServer_decides by blast

section \<open>Collecting the results\<close>

text \<open>
  The threads of one attempt and the waiting \<open>GetResult\<close>, one step for each access to the shared state:
  \<open>completed\<close>, \<open>currentResult\<close> and the mutex of the condition variable. A thread is after \<open>fetch_add\<close>
  (\<open>Counted\<close>), after the first \<open>store\<close> (\<open>Stored\<close>), inside the branch of the last one (\<open>Last\<close>), before the second
  \<open>store\<close> (\<open>Overwrite\<close>), before \<open>lock_guard\<close> (\<open>Notifying\<close>). \<open>GetResult\<close> holds the mutex from the end of
  \<open>wait\<close> (\<open>Joining\<close>) to its return.
\<close>

datatype thread_pc = Polling | Counted UnlockResult | Stored UnlockResult | Last UnlockResult
  | Overwrite UnlockResult | Notifying UnlockResult | Finished UnlockResult

datatype main_pc = Awake | Asleep | Joining UnlockResult | Returned UnlockResult

record attempt_state =
  as_pc :: "nat \<Rightarrow> thread_pc"
  as_completed :: nat
  as_current :: UnlockResult
  as_main :: main_pc

definition attempt_init :: attempt_state where
  "attempt_init = \<lparr>as_pc = (\<lambda>_. Polling), as_completed = 0, as_current = empty_result, as_main = Awake\<rparr>"

abbreviation set_pc :: "nat \<Rightarrow> thread_pc \<Rightarrow> attempt_state \<Rightarrow> attempt_state" where
  "set_pc i p s \<equiv> s\<lparr>as_pc := (as_pc s)(i := p)\<rparr>"

definition holds_mutex :: "main_pc \<Rightarrow> bool" where
  "holds_mutex m \<longleftrightarrow> (case m of Joining _ \<Rightarrow> True | _ \<Rightarrow> False)"

text \<open>\<open>wait\<close> may also wake without a notification.\<close>

inductive hstep :: "nat \<Rightarrow> attempt_state \<Rightarrow> attempt_state \<Rightarrow> bool" for n where
  count: "i < n \<Longrightarrow> as_pc s i = Polling \<Longrightarrow> hstep n s (set_pc i (Counted r) (s\<lparr>as_completed := as_completed s + 1\<rparr>))"
| store_success: "i < n \<Longrightarrow> as_pc s i = Counted r \<Longrightarrow> re_state r = US_SUCCESS \<Longrightarrow>
    hstep n s (set_pc i (Stored r) (s\<lparr>as_current := r\<rparr>))"
| store_nothing: "i < n \<Longrightarrow> as_pc s i = Counted r \<Longrightarrow> re_state r \<noteq> US_SUCCESS \<Longrightarrow> hstep n s (set_pc i (Stored r) s)"
| is_last: "i < n \<Longrightarrow> as_pc s i = Stored r \<Longrightarrow> as_completed s = n \<Longrightarrow> hstep n s (set_pc i (Last r) s)"
| not_last: "i < n \<Longrightarrow> as_pc s i = Stored r \<Longrightarrow> as_completed s \<noteq> n \<Longrightarrow> hstep n s (set_pc i (Finished r) s)"
| see_success: "i < n \<Longrightarrow> as_pc s i = Last r \<Longrightarrow> re_state (as_current s) = US_SUCCESS \<Longrightarrow> hstep n s (set_pc i (Notifying r) s)"
| see_failure: "i < n \<Longrightarrow> as_pc s i = Last r \<Longrightarrow> re_state (as_current s) \<noteq> US_SUCCESS \<Longrightarrow> hstep n s (set_pc i (Overwrite r) s)"
| overwrite: "i < n \<Longrightarrow> as_pc s i = Overwrite r \<Longrightarrow> hstep n s (set_pc i (Notifying r) (s\<lparr>as_current := r\<rparr>))"
| notify: "i < n \<Longrightarrow> as_pc s i = Notifying r \<Longrightarrow> \<not> holds_mutex (as_main s) \<Longrightarrow>
    hstep n s (set_pc i (Finished r) (s\<lparr>as_main := (if as_main s = Asleep then Awake else as_main s)\<rparr>))"
| main_sleeps: "as_main s = Awake \<Longrightarrow> as_completed s \<noteq> n \<Longrightarrow> hstep n s (s\<lparr>as_main := Asleep\<rparr>)"
| main_wakes: "as_main s = Asleep \<Longrightarrow> hstep n s (s\<lparr>as_main := Awake\<rparr>)"
| main_reads: "as_main s = Awake \<Longrightarrow> as_completed s = n \<Longrightarrow> hstep n s (s\<lparr>as_main := Joining (as_current s)\<rparr>)"
| main_returns: "as_main s = Joining r \<Longrightarrow> \<forall>i < n. \<exists>q. as_pc s i = Finished q \<Longrightarrow> hstep n s (s\<lparr>as_main := Returned r\<rparr>)"

abbreviation attempt_reaches :: "nat \<Rightarrow> attempt_state \<Rightarrow> bool" where
  "attempt_reaches n s \<equiv> (hstep n)\<^sup>*\<^sup>* attempt_init s"

text \<open>The result a thread has got from \<open>RunServer\<close>.\<close>

definition got :: "thread_pc \<Rightarrow> UnlockResult option" where
  "got p = (case p of Polling \<Rightarrow> None | Counted r \<Rightarrow> Some r | Stored r \<Rightarrow> Some r | Last r \<Rightarrow> Some r | Overwrite r \<Rightarrow> Some r
     | Notifying r \<Rightarrow> Some r | Finished r \<Rightarrow> Some r)"

lemma got_simps [simp]:
  "got Polling = None" "got (Counted r) = Some r" "got (Stored r) = Some r" "got (Last r) = Some r"
  "got (Overwrite r) = Some r" "got (Notifying r) = Some r" "got (Finished r) = Some r"
  by (simp_all add: got_def)

text \<open>A result is the initial one or was obtained by a thread, and threads keep theirs.\<close>

definition genuine :: "nat \<Rightarrow> attempt_state \<Rightarrow> UnlockResult \<Rightarrow> bool" where
  "genuine n s r \<longleftrightarrow> r = empty_result \<or> (\<exists>i < n. got (as_pc s i) = Some r)"

definition main_result :: "main_pc \<Rightarrow> UnlockResult option" where
  "main_result m = (case m of Joining r \<Rightarrow> Some r | Returned r \<Rightarrow> Some r | _ \<Rightarrow> None)"

lemma main_result_simps [simp]:
  "main_result Awake = None" "main_result Asleep = None" "main_result (Joining r) = Some r" "main_result (Returned r) = Some r"
  by (simp_all add: main_result_def)

definition attempt_inv :: "nat \<Rightarrow> attempt_state \<Rightarrow> bool" where
  "attempt_inv n s \<longleftrightarrow> genuine n s (as_current s) \<and> (\<forall>r. main_result (as_main s) = Some r \<longrightarrow> genuine n s r)"

lemma hstep_got: "hstep n s t \<Longrightarrow> got (as_pc s i) = Some r \<Longrightarrow> got (as_pc t i) = Some r"
  by (induction rule: hstep.induct) (auto simp: fun_upd_def split: if_splits)

lemma genuine_step: "hstep n s t \<Longrightarrow> genuine n s r \<Longrightarrow> genuine n t r"
  using hstep_got by (fastforce simp: genuine_def)

lemma hstep_current: "hstep n s t \<Longrightarrow> as_current t = as_current s \<or> genuine n s (as_current t)"
  by (induction rule: hstep.induct) (auto simp: genuine_def intro: exI [of _ "_ :: nat"])

lemma hstep_main: "hstep n s t \<Longrightarrow> main_result (as_main t) = main_result (as_main s) \<or> main_result (as_main t) = Some (as_current s)"
  by (induction rule: hstep.induct) auto

lemma attempt_inv_step: "hstep n s t \<Longrightarrow> attempt_inv n s \<Longrightarrow> attempt_inv n t"
  unfolding attempt_inv_def
  using hstep_current [of n s t] hstep_main [of n s t] genuine_step [of n s t] by (metis option.inject)

lemma attempt_inv_reach: "attempt_reaches n s \<Longrightarrow> attempt_inv n s"
proof (induction rule: rtranclp_induct)
  case base
  show ?case by (simp add: attempt_inv_def genuine_def attempt_init_def)
next
  case (step s t)
  then show ?case using attempt_inv_step by blast
qed

text \<open>
  C23: Under every interleaving of the threads, \<open>GetResult\<close> answers \<open>SUCCESS\<close> only with a result that one of the
  connections returned; any other answer is the initial result or one of a connection as well.
\<close>

theorem handler_result_genuine:
  assumes "attempt_reaches n s" and "as_main s = Returned r"
  shows "(r = empty_result \<or> (\<exists>i < n. got (as_pc s i) = Some r)) \<and>
    (re_state r = US_SUCCESS \<longrightarrow> (\<exists>i < n. got (as_pc s i) = Some r))"
  using attempt_inv_reach [OF assms(1)] assms(2)
  by (auto simp: attempt_inv_def genuine_def empty_result_def)

text \<open>No wake-up is lost: while \<open>GetResult\<close> sleeps and all have counted themselves, somebody is going to notify.\<close>

definition to_notify :: "thread_pc \<Rightarrow> bool" where
  "to_notify p \<longleftrightarrow> p \<noteq> Polling \<and> (\<forall>r. p \<noteq> Finished r)"

definition counted_inv :: "nat \<Rightarrow> attempt_state \<Rightarrow> bool" where
  "counted_inv n s \<longleftrightarrow> as_completed s = card {i. i < n \<and> as_pc s i \<noteq> Polling} \<and>
     (as_main s = Asleep \<and> as_completed s = n \<longrightarrow> (\<exists>i < n. to_notify (as_pc s i)))"

lemma to_notify_simps [simp]:
  "\<not> to_notify Polling" "to_notify (Counted r)" "to_notify (Stored r)" "to_notify (Last r)" "to_notify (Overwrite r)"
  "to_notify (Notifying r)" "\<not> to_notify (Finished r)"
  by (simp_all add: to_notify_def)

lemma to_notify_move: "i < n \<Longrightarrow> to_notify p \<Longrightarrow> \<exists>j < n. to_notify (((as_pc s)(i := p)) j)"
  by (rule exI [of _ i]) simp

lemma counted_move:
  assumes "as_pc s i \<noteq> Polling" and "p \<noteq> Polling"
  shows "{j. j < n \<and> ((as_pc s)(i := p)) j \<noteq> Polling} = {j. j < n \<and> as_pc s j \<noteq> Polling}"
  using assms by auto

lemma counted_new:
  assumes "i < n" and "as_pc s i = Polling" and "p \<noteq> Polling"
  shows "card {j. j < n \<and> ((as_pc s)(i := p)) j \<noteq> Polling} = card {j. j < n \<and> as_pc s j \<noteq> Polling} + 1"
proof -
  have "{j. j < n \<and> ((as_pc s)(i := p)) j \<noteq> Polling} = insert i {j. j < n \<and> as_pc s j \<noteq> Polling}"
    using assms by auto
  then show ?thesis using assms by simp
qed

lemma counted_inv_step: "hstep n s t \<Longrightarrow> counted_inv n s \<Longrightarrow> counted_inv n t"
proof (induction rule: hstep.induct)
  case (count i s r)
  then show ?case using counted_new [of i n s "Counted r"] to_notify_move [of i n "Counted r" s]
    by (auto simp: counted_inv_def simp del: fun_upd_apply)
qed (auto simp: counted_inv_def counted_move to_notify_move simp del: fun_upd_apply)

lemma counted_inv_reach: "attempt_reaches n s \<Longrightarrow> counted_inv n s"
proof (induction rule: rtranclp_induct)
  case base
  show ?case by (simp add: counted_inv_def attempt_init_def)
next
  case (step s t)
  then show ?case using counted_inv_step by blast
qed

lemma all_finished_completed:
  assumes "attempt_reaches n s" and "\<forall>i < n. \<exists>r. as_pc s i = Finished r"
  shows "as_completed s = n \<and> as_main s \<noteq> Asleep"
proof -
  have "{i. i < n \<and> as_pc s i \<noteq> Polling} = {..<n}" using assms(2) by auto
  then have "as_completed s = n" using counted_inv_reach [OF assms(1)] by (simp add: counted_inv_def)
  moreover have "\<not> to_notify (as_pc s i)" if "i < n" for i using assms(2) that by (auto simp: to_notify_def)
  ultimately show ?thesis using counted_inv_reach [OF assms(1)] by (auto simp: counted_inv_def)
qed

text \<open>
  C24: No wake-up is lost: when the threads of all connections have ended, \<open>GetResult\<close> is not left sleeping on the
  condition variable, and it can return.
\<close>

theorem handler_wakes:
  assumes "attempt_reaches n s" and "\<forall>i < n. \<exists>r. as_pc s i = Finished r"
  shows "as_main s \<noteq> Asleep \<and> (\<exists>t r. (hstep n)\<^sup>*\<^sup>* s t \<and> as_main t = Returned r)"
proof -
  note fin = all_finished_completed [OF assms]
  have join: "\<exists>t r. (hstep n)\<^sup>*\<^sup>* u t \<and> as_main t = Returned r" if "as_main u = Joining q" "as_pc u = as_pc s" for u q
    using hstep.main_returns [of u q n] that assms(2) by (intro exI [of _ "u\<lparr>as_main := Returned q\<rparr>"]) auto
  show ?thesis
  proof (cases "as_main s")
    case Awake
    then have "hstep n s (s\<lparr>as_main := Joining (as_current s)\<rparr>)" using fin by (simp add: hstep.main_reads)
    then show ?thesis using join [of "s\<lparr>as_main := Joining (as_current s)\<rparr>"] fin
      by (auto intro: converse_rtranclp_into_rtranclp)
  next
    case (Joining q)
    then show ?thesis using join [of s q] by simp
  next
    case (Returned q)
    then show ?thesis by auto
  qed (use fin in simp)
qed

text \<open>
  C25: The results race with the counter. With one connection \<open>GetResult\<close> can read the initial result although the
  connection succeeded, and as it holds the mutex while it joins, the attempt then hangs; with two, a connection
  that failed can overwrite the result of the one that succeeded.
\<close>

theorem handler_races:
  assumes "re_state ok = US_SUCCESS" and "re_state bad \<noteq> US_SUCCESS"
  shows "(\<exists>s. attempt_reaches 1 s \<and> as_main s = Joining empty_result \<and> got (as_pc s 0) = Some ok \<and> (\<forall>t. \<not> hstep 1 s t)) \<and>
    (\<exists>s. attempt_reaches 2 s \<and> as_main s = Returned bad \<and> got (as_pc s 0) = Some ok)"
proof
  let ?a = "set_pc 0 (Counted ok) (attempt_init\<lparr>as_completed := 1\<rparr>)"
  let ?b = "?a\<lparr>as_main := Joining empty_result\<rparr>"
  let ?c = "set_pc 0 (Stored ok) (?b\<lparr>as_current := ok\<rparr>)"
  let ?d = "set_pc 0 (Last ok) ?c" and ?e = "set_pc 0 (Notifying ok) ?c"
  have "attempt_reaches 1 ?a" using hstep.count [of 0 1 attempt_init ok] by (intro r_into_rtranclp) (simp add: attempt_init_def)
  also have "hstep 1 ?a ?b" using hstep.main_reads [of ?a 1] by (simp add: attempt_init_def)
  also have "hstep 1 ?b ?c" using hstep.store_success [of 0 1 ?b ok] assms by simp
  also have "hstep 1 ?c ?d" using hstep.is_last [of 0 1 ?c ok] by simp
  also have "hstep 1 ?d ?e" using hstep.see_success [of 0 1 ?d ok] assms by simp
  finally have "attempt_reaches 1 ?e" .
  moreover have "\<not> hstep 1 ?e t" for t
    by (auto elim!: hstep.cases simp: holds_mutex_def)
  ultimately show "\<exists>s. attempt_reaches 1 s \<and> as_main s = Joining empty_result \<and> got (as_pc s 0) = Some ok \<and> (\<forall>t. \<not> hstep 1 s t)"
    by (intro exI [of _ ?e]) simp
next
  let ?z = "\<lambda>p q k c m. \<lparr>as_pc = (\<lambda>_. Polling)(0 := p, 1 := q), as_completed = k, as_current = c, as_main = m\<rparr>"
  have "attempt_reaches 2 (?z (Counted ok) Polling 1 empty_result Awake)"
    using hstep.count [of 0 2 attempt_init ok] by (intro r_into_rtranclp) (simp add: attempt_init_def fun_upd_idem)
  also have "hstep 2 \<dots> (?z (Counted ok) (Counted bad) 2 empty_result Awake)"
    using hstep.count [of 1 2 "?z (Counted ok) Polling 1 empty_result Awake" bad] by (simp add: numeral_2_eq_2)
  also have "hstep 2 \<dots> (?z (Counted ok) (Stored bad) 2 empty_result Awake)"
    using hstep.store_nothing [of 1 2 "?z (Counted ok) (Counted bad) 2 empty_result Awake" bad] assms by simp
  also have "hstep 2 \<dots> (?z (Counted ok) (Last bad) 2 empty_result Awake)"
    using hstep.is_last [of 1 2 "?z (Counted ok) (Stored bad) 2 empty_result Awake" bad] by simp
  also have "hstep 2 \<dots> (?z (Counted ok) (Overwrite bad) 2 empty_result Awake)"
    using hstep.see_failure [of 1 2 "?z (Counted ok) (Last bad) 2 empty_result Awake" bad] by (simp add: empty_result_def)
  also have "hstep 2 \<dots> (?z (Stored ok) (Overwrite bad) 2 ok Awake)"
    using hstep.store_success [of 0 2 "?z (Counted ok) (Overwrite bad) 2 empty_result Awake" ok] assms by (simp add: fun_upd_twist)
  also have "hstep 2 \<dots> (?z (Last ok) (Overwrite bad) 2 ok Awake)"
    using hstep.is_last [of 0 2 "?z (Stored ok) (Overwrite bad) 2 ok Awake" ok] by (simp add: fun_upd_twist)
  also have "hstep 2 \<dots> (?z (Notifying ok) (Overwrite bad) 2 ok Awake)"
    using hstep.see_success [of 0 2 "?z (Last ok) (Overwrite bad) 2 ok Awake" ok] assms by (simp add: fun_upd_twist)
  also have "hstep 2 \<dots> (?z (Notifying ok) (Notifying bad) 2 bad Awake)"
    using hstep.overwrite [of 1 2 "?z (Notifying ok) (Overwrite bad) 2 ok Awake" bad] by simp
  also have "hstep 2 \<dots> (?z (Finished ok) (Notifying bad) 2 bad Awake)"
    using hstep.notify [of 0 2 "?z (Notifying ok) (Notifying bad) 2 bad Awake" ok] by (simp add: holds_mutex_def fun_upd_twist)
  also have "hstep 2 \<dots> (?z (Finished ok) (Finished bad) 2 bad Awake)"
    using hstep.notify [of 1 2 "?z (Finished ok) (Notifying bad) 2 bad Awake" bad] by (simp add: holds_mutex_def)
  also have "hstep 2 \<dots> (?z (Finished ok) (Finished bad) 2 bad (Joining bad))"
    using hstep.main_reads [of "?z (Finished ok) (Finished bad) 2 bad Awake" 2] by simp
  also have "hstep 2 \<dots> (?z (Finished ok) (Finished bad) 2 bad (Returned bad))"
    using hstep.main_returns [of "?z (Finished ok) (Finished bad) 2 bad (Joining bad)" bad 2] by (auto simp: less_2_cases_iff)
  finally show "\<exists>s. attempt_reaches 2 s \<and> as_main s = Returned bad \<and> got (as_pc s 0) = Some ok"
    by (intro exI [of _ "?z (Finished ok) (Finished bad) 2 bad (Returned bad)"]) simp
qed

section \<open>Which devices get a connection\<close>

definition device_kind :: "PairedDevice \<Rightarrow> conn_kind option" where
  "device_kind d = (case pd_pairingMethod d of TCP \<Rightarrow> Some (TcpClient (pd_ipAddress d) (pd_tcpPort d))
     | BLUETOOTH \<Rightarrow> Some (BtClient (pd_bluetoothAddress d)) | CLOUD_BT \<Rightarrow> None | _ \<Rightarrow> Some CloudClient)"

definition udp_entry :: "PairedDevice \<Rightarrow> UDPBroadcastDevice option" where
  "udp_entry d = (case pd_pairingMethod d of
     UDP \<Rightarrow> Some \<lparr>bd_deviceID = pd_id d, bd_devicePort = pd_udpPort d, bd_isManual = False\<rparr>
     | MANUAL_UDP \<Rightarrow> Some \<lparr>bd_deviceID = pd_id d, bd_devicePort = pd_udpManualPort d, bd_isManual = True\<rparr> | _ \<Rightarrow> None)"

lemma add_device_conn_parts:
  "snd (add_device_conn port user prog acc (token, d)) = snd acc @
     (case device_kind d of None \<Rightarrow> [] | Some k \<Rightarrow> [open_conn user prog token d k])"
  "fst (add_device_conn port user prog acc (token, d)) = (case udp_entry d of None \<Rightarrow> fst acc | Some x \<Rightarrow>
     Some \<lparr>bu_UnlockPort = (case fst acc of None \<Rightarrow> port | Some b \<Rightarrow> bu_UnlockPort b),
       bu_Devices = (case fst acc of None \<Rightarrow> [] | Some b \<Rightarrow> bu_Devices b) @ [x]\<rparr>)"
  by (auto simp: add_device_conn_def device_kind_def udp_entry_def Unlock_AddDevice_def
      split: prod.split PairingMethod.split option.split)

text \<open>
  Every device but one of the method \<open>CLOUD_BT\<close> gets one connection, in order; those reached over UDP are announced
  by the broadcaster, but their connection is the cloud client, as for \<open>CLOUD_TCP\<close>.
\<close>

lemma handler_connections_kinds:
  assumes "length tokens = length devices"
  shows "snd (handler_connections port user prog tokens devices) =
    List.map_filter (\<lambda>(t, d). map_option (open_conn user prog t d) (device_kind d)) (zip tokens devices)"
proof -
  have "snd (foldl (add_device_conn port user prog) acc tds) = snd acc @
      List.map_filter (\<lambda>(t, d). map_option (open_conn user prog t d) (device_kind d)) tds" for acc tds
    by (induction tds arbitrary: acc) (auto simp: add_device_conn_parts List.map_filter_simps split: option.split)
  then show ?thesis by (simp add: handler_connections_def)
qed

lemma handler_connections_broadcaster:
  assumes "length tokens = length devices"
  shows "fst (handler_connections port user prog tokens devices) =
    (let ds = List.map_filter udp_entry devices in if ds = [] then None else Some \<lparr>bu_UnlockPort = port, bu_Devices = ds\<rparr>)"
proof -
  have "fst (foldl (add_device_conn port user prog) (Some b, cs) tds) =
      Some (b\<lparr>bu_Devices := bu_Devices b @ List.map_filter (udp_entry \<circ> snd) tds\<rparr>)" for b cs tds
  proof (induction tds arbitrary: b cs)
    case (Cons td tds)
    obtain acc where acc: "add_device_conn port user prog (Some b, cs) td = acc" by simp
    with Cons.IH [of _ "snd acc"] show ?case
      by (cases td; cases acc) (use add_device_conn_parts(2) [of port user prog "(Some b, cs)" "fst td" "snd td"] in
        \<open>auto simp: List.map_filter_simps split: option.splits\<close>)
  qed (simp add: List.map_filter_simps)
  note some = this
  have "fst (foldl (add_device_conn port user prog) (None, cs) tds) =
      (let ds = List.map_filter (udp_entry \<circ> snd) tds in if ds = [] then None else Some \<lparr>bu_UnlockPort = port, bu_Devices = ds\<rparr>)" for cs tds
  proof (induction tds arbitrary: cs)
    case (Cons td tds)
    obtain acc where acc: "add_device_conn port user prog (None, cs) td = acc" by simp
    with Cons.IH [of "snd acc"] some [of _ "snd acc" tds] show ?case
      by (cases td; cases acc) (use add_device_conn_parts(2) [of port user prog "(None, cs)" "fst td" "snd td"] in
        \<open>auto simp: List.map_filter_simps Let_def comp_def split: option.splits\<close>)
  qed (simp add: List.map_filter_simps)
  moreover have "List.map_filter (udp_entry \<circ> snd) (zip tokens devices) = List.map_filter udp_entry devices"
    using assms by (induction tokens devices rule: list_induct2) (auto simp: List.map_filter_simps split: option.split)
  ultimately show ?thesis by (simp add: handler_connections_def)
qed

section \<open>Witnesses\<close>

definition demo_turn :: "UnlockState \<Rightarrow> turn" where
  "demo_turn s = \<lparr>tn_success = False, tn_stopped = False, tn_client = True, tn_poll = s, tn_client2 = True, tn_now = 0,
     tn_keys = False, tn_client3 = False\<rparr>"

lemma run_server_decides_witness:
  "\<exists>r out. RunServer demo_libs (demo_env 0) (\<lambda>k. k) False True True 0 [demo_turn US_UNKNOWN, demo_turn US_CANCELED] demo_conn =
     Some (r, out) \<and> re_state r \<noteq> US_UNKNOWN \<and> alternating Stop (snd out)"
proof -
  have "crypt_laws (lb_crypt demo_libs)" by (simp add: demo_libs_def toy_crypt_laws)
  note rs = run_server_decides [OF this, of "demo_env 0" "\<lambda>k. k" False True True 0 "[demo_turn US_UNKNOWN, demo_turn US_CANCELED]" demo_conn]
  have "\<exists>t \<in> set [demo_turn US_UNKNOWN, demo_turn US_CANCELED]. ends_polling 0 t" by (simp add: ends_polling_def demo_turn_def)
  with rs obtain r out where "RunServer demo_libs (demo_env 0) (\<lambda>k. k) False True True 0
      [demo_turn US_UNKNOWN, demo_turn US_CANCELED] demo_conn = Some (r, out)" by fastforce
  with rs show ?thesis by blast
qed

lemma handler_run:
  assumes "re_state r \<noteq> US_SUCCESS"
  shows "attempt_reaches 1 (set_pc 0 (Finished r) (attempt_init\<lparr>as_completed := 1, as_current := r\<rparr>))"
proof -
  let ?a = "set_pc 0 (Counted r) (attempt_init\<lparr>as_completed := 1\<rparr>)"
  have "attempt_reaches 1 ?a" using hstep.count [of 0 1 attempt_init r] by (intro r_into_rtranclp) (simp add: attempt_init_def)
  also have "hstep 1 ?a (set_pc 0 (Stored r) ?a)" using hstep.store_nothing [of 0 1 ?a r] assms by simp
  also have "hstep 1 \<dots> (set_pc 0 (Last r) ?a)" using hstep.is_last [of 0 1 "set_pc 0 (Stored r) ?a" r] by simp
  also have "hstep 1 \<dots> (set_pc 0 (Overwrite r) ?a)"
    using hstep.see_failure [of 0 1 "set_pc 0 (Last r) ?a" r] by (simp add: attempt_init_def empty_result_def)
  also have "hstep 1 \<dots> (set_pc 0 (Notifying r) (?a\<lparr>as_current := r\<rparr>))"
    using hstep.overwrite [of 0 1 "set_pc 0 (Overwrite r) ?a" r] by simp
  also have "hstep 1 \<dots> (set_pc 0 (Finished r) (?a\<lparr>as_current := r\<rparr>))"
    using hstep.notify [of 0 1 "set_pc 0 (Notifying r) (?a\<lparr>as_current := r\<rparr>)" r] by (simp add: attempt_init_def holds_mutex_def)
  finally show ?thesis by simp
qed

lemma handler_wakes_witness:
  "\<exists>t r. (hstep 1)\<^sup>*\<^sup>* (set_pc 0 (Finished empty_result) (attempt_init\<lparr>as_completed := 1, as_current := empty_result\<rparr>)) t \<and>
     as_main t = Returned r"
  using handler_wakes [OF handler_run [of empty_result]] by (simp add: empty_result_def)

lemma handler_result_genuine_witness:
  "\<exists>s. attempt_reaches 1 s \<and> as_main s = Returned (result_of_state US_TIMEOUT) \<and>
     got (as_pc s 0) = Some (result_of_state US_TIMEOUT)"
proof -
  let ?r = "result_of_state US_TIMEOUT"
  let ?s = "set_pc 0 (Finished ?r) (attempt_init\<lparr>as_completed := 1, as_current := ?r\<rparr>)"
  have "attempt_reaches 1 ?s" by (rule handler_run) (simp add: result_of_state_def)
  also have "hstep 1 ?s (?s\<lparr>as_main := Joining ?r\<rparr>)" using hstep.main_reads [of ?s 1] by (simp add: attempt_init_def)
  also have "hstep 1 \<dots> (?s\<lparr>as_main := Returned ?r\<rparr>)" using hstep.main_returns [of "?s\<lparr>as_main := Joining ?r\<rparr>" ?r 1] by simp
  finally have run: "attempt_reaches 1 (?s\<lparr>as_main := Returned ?r\<rparr>)" .
  from handler_result_genuine [OF run] have "got (as_pc (?s\<lparr>as_main := Returned ?r\<rparr>) 0) = Some ?r"
    by (simp add: result_of_state_def empty_result_def)
  with run show ?thesis by (intro exI [of _ "?s\<lparr>as_main := Returned ?r\<rparr>"]) simp
qed

lemma handler_races_witness:
  "\<exists>s. attempt_reaches 2 s \<and> as_main s = Returned (result_of_state US_TIMEOUT) \<and>
     got (as_pc s 0) = Some (result_of_state US_SUCCESS)"
  using handler_races [of "result_of_state US_SUCCESS" "result_of_state US_TIMEOUT"] by (simp add: result_of_state_def)

end
