(* ===== verification/PlatformHelper.thy ===== *)
theory PlatformHelper
  imports AppInfo Shell
begin

text \<open>
  \<open>common/src/platform/PlatformHelper.Linux.cpp\<close>: the users of the machine, the user behind \<open>sudo\<close> or \<open>pkexec\<close>,
  and the check of a password. The user and shadow databases and \<open>crypt\<close> are parameters.
\<close>

section \<open>Users\<close>

text \<open>Up to the first NUL, as \<open>c_str()\<close> hands it over.\<close>

definition c_text :: "string \<Rightarrow> string" where
  "c_text s = takeWhile (\<lambda>c. c \<noteq> CHR 0x00) s"

lemma c_text_id: "CHR 0x00 \<notin> set s \<Longrightarrow> c_text s = s"
  by (auto simp: c_text_def takeWhile_eq_all_conv)

text \<open>\<open>std::strtol\<close> in base 10, \<open>None\<close> when no digit was read; \<open>long\<close> has 64 bits.\<close>

definition strtol :: "string \<Rightarrow> int option" where
  "strtol s =
     (let t = dropWhile isspace s;
          neg = (t \<noteq> [] \<and> hd t = CHR ''-'');
          u = (if t \<noteq> [] \<and> (hd t = CHR ''-'' \<or> hd t = CHR ''+'') then tl t else t);
          ds = takeWhile is_digit u;
          v = (if neg then - digits_val ds else digits_val ds)
      in if ds = [] then None else Some (max (- (2 ^ 63)) (min (2 ^ 63 - 1) v)))"

definition passwd_user :: "string \<Rightarrow> string option" where
  "passwd_user entry =
     (let split = splitBy '':'' entry in
      if length split < 3 then None
      else case strtol (c_text (split ! 2)) of
        None \<Rightarrow> None
      | Some uid \<Rightarrow> if uid \<noteq> 0 \<and> (uid < 1000 \<or> uid > 60000) then None else Some (split ! 0))"

definition GetAllUsers :: "fs \<Rightarrow> string list" where
  "GetAllUsers f = List.map_filter passwd_user (splitBy [CHR 0x0A] (string_of (ReadBytes f ''/etc/passwd'')))"

text \<open>The variables \<open>SUDO_UID\<close> and \<open>PKEXEC_UID\<close>, \<open>getuid()\<close> and \<open>getpwuid\<close>; the number is stored in a \<open>uid_t\<close>.\<close>

definition GetCurrentUser :: "string option \<Rightarrow> string option \<Rightarrow> u32 \<Rightarrow> (u32 \<Rightarrow> string option) \<Rightarrow> string" where
  "GetCurrentUser sudoUid pkExecUid getuid getpwuid =
     (let uid = (case sudoUid of None \<Rightarrow> None | Some t \<Rightarrow> map_option word_of_int (strtol t));
          uid = (case pkExecUid of None \<Rightarrow> uid | Some t \<Rightarrow> (case strtol t of None \<Rightarrow> uid | Some n \<Rightarrow> Some (word_of_int n)));
          uid = (case uid of None \<Rightarrow> getuid | Some n \<Rightarrow> n)
      in case getpwuid uid of None \<Rightarrow> [] | Some name \<Rightarrow> name)"

section \<open>Passwords\<close>

datatype PlatformLoginResult = PL_SUCCESS | PL_INVALID_USER | PL_INVALID_PASSWORD | PL_ACCOUNT_LOCKED
  | PL_ACCOUNT_RESTRICTED | PL_PW_EXPIRED | PL_ACCOUNT_DISABLED | PL_LOGON_TYPE_DENIED | PL_UNKNOWN_ERROR

text \<open>
  \<open>getpwnam\<close> and \<open>getspnam\<close> answer the password field of the entry. \<open>crypt\<close> may answer NULL, on which \<open>strcmp\<close> is
  undefined: \<open>None\<close>.
\<close>

definition CheckLogin :: "(string \<Rightarrow> string option) \<Rightarrow> (string \<Rightarrow> string option) \<Rightarrow> (string \<Rightarrow> string \<Rightarrow> string option) \<Rightarrow>
    string \<Rightarrow> string \<Rightarrow> PlatformLoginResult option" where
  "CheckLogin getpwnam getspnam crypt userName password =
     (case getpwnam (c_text userName) of
        None \<Rightarrow> Some PL_INVALID_USER
      | Some pw_passwd \<Rightarrow>
          if pw_passwd \<noteq> ''x'' then do {
            h \<leftarrow> crypt (c_text password) pw_passwd;
            if pw_passwd = h then Some PL_SUCCESS else Some PL_INVALID_PASSWORD }
          else case getspnam (c_text userName) of
            None \<Rightarrow> Some PL_INVALID_USER
          | Some sp_pwdp \<Rightarrow> do {
              h \<leftarrow> crypt (c_text password) sp_pwdp;
              if sp_pwdp = h then Some PL_SUCCESS else Some PL_INVALID_PASSWORD })"

definition HasNativeLibrary :: "fs \<Rightarrow> string \<Rightarrow> bool" where
  "HasNativeLibrary f libName \<longleftrightarrow> exists_path f (path_join ''/lib64'' libName) \<or> exists_path f (path_join ''/lib'' libName) \<or>
     exists_path f (path_join ''/usr/lib/x86_64-linux-gnu'' libName) \<or> exists_path f (path_join ''/usr/lib/aarch64-linux-gnu'' libName)"

section \<open>Facts\<close>

text \<open>The hash a login is checked against.\<close>

definition login_hash :: "(string \<Rightarrow> string option) \<Rightarrow> (string \<Rightarrow> string option) \<Rightarrow> string \<Rightarrow> string option" where
  "login_hash getpwnam getspnam userName =
     do { p \<leftarrow> getpwnam (c_text userName); if p \<noteq> ''x'' then Some p else getspnam (c_text userName) }"

lemma CheckLogin_success:
  "CheckLogin getpwnam getspnam crypt userName password = Some PL_SUCCESS \<longleftrightarrow>
   (\<exists>h. login_hash getpwnam getspnam userName = Some h \<and> crypt (c_text password) h = Some h)"
  by (auto simp: CheckLogin_def login_hash_def bind_eq_Some_conv split: option.splits if_splits)

lemma CheckLogin_returns:
  assumes "\<And>p h. crypt p h \<noteq> None"
  shows "CheckLogin getpwnam getspnam crypt userName password \<noteq> None"
proof -
  have "crypt = (\<lambda>p h. Some (the (crypt p h)))" using assms by (intro ext) simp
  then obtain g where "crypt = (\<lambda>p h. Some (g p h))" by (rule that)
  then show ?thesis by (simp add: CheckLogin_def split: option.split)
qed

lemma GetCurrentUser_elevated:
  "strtol t = Some n \<Longrightarrow> GetCurrentUser sudoUid (Some t) me db = (case db (word_of_int n) of None \<Rightarrow> [] | Some u \<Rightarrow> u)"
  "strtol t = Some n \<Longrightarrow> GetCurrentUser (Some t) None me db = (case db (word_of_int n) of None \<Rightarrow> [] | Some u \<Rightarrow> u)"
  "GetCurrentUser None None me db = (case db me of None \<Rightarrow> [] | Some u \<Rightarrow> u)"
  by (simp_all add: GetCurrentUser_def)

lemma in_map_filter: "u \<in> set (List.map_filter f xs) \<longleftrightarrow> (\<exists>x \<in> set xs. f x = Some u)"
  by (induction xs) (auto simp: List.map_filter_simps split: option.split)

text \<open>The users listed are those of the entries whose id is 0 or of a person.\<close>

lemma GetAllUsers_iff:
  "u \<in> set (GetAllUsers f) \<longleftrightarrow>
   (\<exists>entry \<in> set (splitBy [CHR 0x0A] (string_of (ReadBytes f ''/etc/passwd''))). \<exists>uid.
      3 \<le> length (splitBy '':'' entry) \<and> strtol (c_text (splitBy '':'' entry ! 2)) = Some uid \<and>
      (uid = 0 \<or> 1000 \<le> uid \<and> uid \<le> 60000) \<and> u = splitBy '':'' entry ! 0)"
proof -
  have "passwd_user e = Some u \<longleftrightarrow> (\<exists>uid. 3 \<le> length (splitBy '':'' e) \<and> strtol (c_text (splitBy '':'' e ! 2)) = Some uid \<and>
      (uid = 0 \<or> 1000 \<le> uid \<and> uid \<le> 60000) \<and> u = splitBy '':'' e ! 0)" for e
    by (auto simp: passwd_user_def Let_def split: option.splits if_splits)
  then show ?thesis by (simp add: GetAllUsers_def in_map_filter)
qed

end
