(* ===== verification/PamModule.thy ===== *)
theory PamModule
  imports UnlockHandler PlatformHelper Streams
begin

text \<open>
  The login on Linux and macOS: \<open>natives/pcbu-auth/src/main.cpp\<close>, the set-uid program that runs the unlock attempt
  and checks the password, and \<open>natives/pam-pcbiounlock/src/pam_auth.cpp\<close>, the PAM module that starts it, shows its
  output and turns its exit code into the answer of PAM. They are connected by the standard output, a pipe for the
  password and the exit code.
\<close>

section \<open>The name of the calling service\<close>

text \<open>
  The strings of a command line, each ended by a NUL; \<open>None\<close> when the last one is not, because the
  \<open>string_view\<close> then reads beyond the buffer.
\<close>

function cmdline_strings :: "string \<Rightarrow> string list option" where
  "cmdline_strings s =
     (if s = [] then Some []
      else if CHR 0x00 \<notin> set s then None
      else map_option ((#) (takeWhile (\<lambda>c. c \<noteq> CHR 0x00) s)) (cmdline_strings (drop 1 (dropWhile (\<lambda>c. c \<noteq> CHR 0x00) s))))"
  by pat_completeness auto
termination
proof (relation "measure length", simp)
  fix s :: string
  assume "s \<noteq> []" "\<not> CHR 0x00 \<notin> set s"
  then show "(drop 1 (dropWhile (\<lambda>c. c \<noteq> CHR 0x00) s), s) \<in> measure length"
    using length_dropWhile_le [of "\<lambda>c. c \<noteq> CHR 0x00" s] by (cases s) (auto simp: less_Suc_eq_le)
qed

declare cmdline_strings.simps [simp del]

text \<open>The loop over them; \<open>i\<close> counts those that are not empty.\<close>

fun service_loop :: "int \<Rightarrow> int \<Rightarrow> string list \<Rightarrow> string" where
  "service_loop skipNum i [] = []"
| "service_loop skipNum i (str # strs) =
     (if str \<noteq> [] then (if i > skipNum then '' '' else []) @ (if i > skipNum - 1 then str else []) @ service_loop skipNum (i + 1) strs
      else service_loop skipNum i strs)"

definition GetServiceName :: "platform \<Rightarrow> string \<Rightarrow> string option \<Rightarrow> string option" where
  "GetServiceName pf ppid cmdline =
     (let fallback = ''PID '' @ ppid in
      if pf = Windows then Some fallback
      else case cmdline of
        None \<Rightarrow> Some fallback
      | Some text \<Rightarrow>
          if text = [] then Some fallback
          else do {
            strs \<leftarrow> cmdline_strings text;
            let resultStr = service_loop (if pf = Apple then 2 else 0) 0 strs;
            Some (if resultStr = [] then fallback else Truncate resultStr 256 ''...'') })"

section \<open>The authentication program\<close>

text \<open>The loop that writes the password; the first argument is what the calls of \<open>write\<close> answer.\<close>

fun write_password :: "int list \<Rightarrow> string \<Rightarrow> string \<Rightarrow> string option" where
  "write_password ws out [] = Some out"
| "write_password [] out (c # cs) = None"
| "write_password (w # ws) out (c # cs) =
     (if w = - 1 then Some out else write_password ws (out @ take (nat w) (c # cs)) (drop (nat w) (c # cs)))"

text \<open>
  \<open>handler\<close> is \<open>UnlockHandler::GetResult\<close> with the messages it prints. The outcome is the result of \<open>runMain\<close>, the
  lines printed and what was written to the password pipe.
\<close>

definition runMain :: "(string \<Rightarrow> string) \<Rightarrow> (string \<Rightarrow> (UnlockResult \<times> string list) option) \<Rightarrow>
    (string \<Rightarrow> string \<Rightarrow> PlatformLoginResult option) \<Rightarrow> bool \<Rightarrow> int list \<Rightarrow> string list \<Rightarrow> (int \<times> string list \<times> string) option" where
  "runMain tr handler checkLogin setPassword writes args =
     (case args of
        [userName] \<Rightarrow> do {
          (result, msgs) \<leftarrow> handler userName;
          if re_state result = US_SUCCESS then do {
            valid \<leftarrow> (if userName = pd_userName (re_device result)
              then map_option (\<lambda>r. r = PL_SUCCESS) (checkLogin userName (re_password result)) else Some False);
            if valid then do {
              piped \<leftarrow> (if setPassword then write_password writes [] (re_password result) else Some []);
              Some (0, msgs, piped) }
            else Some (1, msgs @ [tr ''error_password''], []) }
          else if re_state result = US_CANCELED then Some (1, msgs, [])
          else Some (- 1, msgs, []) }
      | _ \<Rightarrow> Some (- 1, [''Invalid parameters.''], []))"

definition auth_main :: "bool \<Rightarrow> (string \<Rightarrow> string) \<Rightarrow> (string \<Rightarrow> (UnlockResult \<times> string list) option) \<Rightarrow>
    (string \<Rightarrow> string \<Rightarrow> PlatformLoginResult option) \<Rightarrow> bool \<Rightarrow> int list \<Rightarrow> string list \<Rightarrow> (int \<times> string list \<times> string) option" where
  "auth_main setuidOk tr handler checkLogin setPassword writes args =
     (if \<not> setuidOk then Some (- 1, [''setuid(0) failed.''], [])
      else runMain tr handler checkLogin setPassword writes args)"

section \<open>The PAM module\<close>

text \<open>\<open>PAM_SUCCESS\<close> is 0; of the other codes only these are used.\<close>

datatype pam_result = PAM_SUCCESS | PAM_AUTH_ERR | PAM_IGNORE

text \<open>
  The loop over the complete lines of the buffer: the lines shown and the rest of the buffer. An empty line ends
  it.
\<close>

function drain :: "string \<Rightarrow> string list \<times> string" where
  "drain lineBuffer =
     (if CHR 0x0A \<notin> set lineBuffer then ([], lineBuffer)
      else
        let line = takeWhile (\<lambda>c. c \<noteq> CHR 0x0A) lineBuffer;
            rest = drop 1 (dropWhile (\<lambda>c. c \<noteq> CHR 0x0A) lineBuffer);
            line = (if line \<noteq> [] \<and> last line = CHR 0x0D then butlast line else line)
        in if line \<noteq> [] then (let (ls, r) = drain rest in (line # ls, r)) else ([], rest))"
  by pat_completeness auto
termination
proof (relation "measure length", simp)
  fix s line rest :: string
  assume "\<not> CHR 0x0A \<notin> set s" "rest = drop 1 (dropWhile (\<lambda>c. c \<noteq> CHR 0x0A) s)"
  then show "(rest, s) \<in> measure length"
    using length_dropWhile_le [of "\<lambda>c. c \<noteq> CHR 0x0A" s] by (cases s) (auto simp: less_Suc_eq_le)
qed

declare drain.simps [simp del]

text \<open>The chunks that \<open>read_some\<close> delivers until the end of the stream.\<close>

fun pam_read :: "string list \<Rightarrow> string \<Rightarrow> string list" where
  "pam_read [] lineBuffer = []"
| "pam_read (chunk # rest_chunks) lineBuffer =
     (let (shown, rest) = drain (lineBuffer @ chunk) in shown @ pam_read rest_chunks rest)"

definition print_pam :: "bool \<Rightarrow> string \<Rightarrow> string list" where
  "print_pam conv message = (if conv then [c_text message] else [])"

text \<open>
  The codes of \<open>pam_get_item\<close> and \<open>pam_get_user\<close> (0 is \<open>PAM_SUCCESS\<close>), and the process: for the user name the chunks
  of its output, those of the pipe, and its exit code; \<open>None\<close> when starting it or waiting for it throws.
\<close>

record pam_env =
  pam_service_rc :: int
  pam_user_rc :: int
  pam_conv_rc :: int
  pam_user :: string
  pam_conv :: bool
  pam_pipe :: bool
  pam_child :: "string \<Rightarrow> (string list \<times> string list \<times> int) option"

definition pam_sm_authenticate :: "pam_env \<Rightarrow> pam_result \<times> string list \<times> string option" where
  "pam_sm_authenticate env =
     (let statusCode = (if pam_service_rc env = 0 then
            (if pam_user_rc env = 0 then pam_conv_rc env else pam_user_rc env) else pam_service_rc env)
      in if statusCode \<noteq> 0 then (PAM_IGNORE, [], None)
         else case pam_child env (pam_user env) of
           None \<Rightarrow> (PAM_IGNORE, [], None)
         | Some (out_chunks, piped, result) \<Rightarrow>
             let shown = concat (map (print_pam (pam_conv env)) (pam_read out_chunks []));
                 password = (if pam_pipe env then concat piped else [])
             in if result = 0 then
                  (if password \<noteq> [] \<and> password ! 0 \<noteq> CHR 0x00 then (PAM_IGNORE, shown, Some (c_text password))
                   else (PAM_SUCCESS, shown, None))
                else if result = 1 then (PAM_AUTH_ERR, shown, None)
                else (PAM_IGNORE, shown, None))"

text \<open>\<open>pam_sm_setcred\<close>, and the session, password and account functions of the module.\<close>

definition pam_sm_setcred :: pam_result where "pam_sm_setcred = PAM_SUCCESS"

definition pam_sm_open_session :: pam_result where "pam_sm_open_session = PAM_IGNORE"

definition pam_sm_close_session :: pam_result where "pam_sm_close_session = PAM_IGNORE"

definition pam_sm_chauthtok :: pam_result where "pam_sm_chauthtok = PAM_IGNORE"

definition pam_sm_acct_mgmt :: pam_result where "pam_sm_acct_mgmt = PAM_IGNORE"

section \<open>What the user sees\<close>

text \<open>A line of output that the module shows as it is.\<close>

definition plain_line :: "string \<Rightarrow> bool" where
  "plain_line l \<longleftrightarrow> l \<noteq> [] \<and> no_newline l \<and> last l \<noteq> CHR 0x0D"

lemma drain_rest: "no_newline r \<Longrightarrow> drain r = ([], r)"
  by (simp add: drain.simps [of r] no_newline_def)

lemma drain_plain: "plain_line l \<Longrightarrow> drain (l @ CHR 0x0A # r) = (l # fst (drain r), snd (drain r))"
  by (simp add: drain.simps [of "l @ _"] plain_line_def no_newline_def takeWhile_stop dropWhile_stop split: prod.split)

lemma drain_plains: "\<forall>l \<in> set ls. plain_line l \<Longrightarrow> no_newline r \<Longrightarrow> drain (unlines ls @ r) = (ls, r)"
  by (induction ls) (simp_all add: drain_rest drain_plain)

text \<open>A prefix of the output ends inside a line.\<close>

lemma unlines_prefix:
  assumes "\<forall>l \<in> set ls. plain_line l" and "s @ t = unlines ls"
  shows "\<exists>ms ns r. s = unlines ms @ r \<and> no_newline r \<and> ls = ms @ ns \<and> r @ t = unlines ns"
  using assms
proof (induction ls arbitrary: s)
  case Nil
  then show ?case by (intro exI [of _ "[]"]) (simp add: no_newline_def)
next
  case (Cons l ls)
  show ?case
  proof (cases "length s \<le> length l")
    case True
    then have "s = take (length s) l" using Cons.prems(2) by (metis append_eq_append_conv_if append_take_drop_id take_append take_all_iff append_eq_conv_conj unlines_simps(2) diff_is_0_eq take_0 append_Nil2)
    then have "no_newline s" using Cons.prems(1) by (metis list.set_intros(1) no_newline_def plain_line_def in_set_takeD)
    then show ?thesis using Cons.prems(2) by (intro exI [of _ "[]"] exI [of _ "l # ls"] exI [of _ s]) simp
  next
    case False
    have "take (length l + 1) (s @ t) = l @ [CHR 0x0A]" using Cons.prems(2) by simp
    then have "take (length l + 1) s = l @ [CHR 0x0A]" using False by simp
    then obtain s' where s': "s = l @ CHR 0x0A # s'" by (metis append_take_drop_id append.assoc append_Cons append_Nil)
    then have "s' @ t = unlines ls" using Cons.prems(2) by simp
    from Cons.IH [OF _ this] Cons.prems(1) obtain ms ns r where
      "s' = unlines ms @ r" "no_newline r" "ls = ms @ ns" "r @ t = unlines ns" by auto
    then show ?thesis using s' by (intro exI [of _ "l # ms"] exI [of _ ns] exI [of _ r]) simp
  qed
qed

lemma pam_read_plain:
  "\<forall>l \<in> set ls. plain_line l \<Longrightarrow> buf @ concat cs = unlines ls \<Longrightarrow> no_newline buf \<Longrightarrow> pam_read cs buf = ls"
proof (induction cs arbitrary: buf ls)
  case Nil
  then show ?case by (cases ls) (auto simp: no_newline_def)
next
  case (Cons c cs)
  obtain ms ns r where d: "buf @ c = unlines ms @ r" "no_newline r" "ls = ms @ ns" "r @ concat cs = unlines ns"
    using unlines_prefix [OF Cons.prems(1), of "buf @ c" "concat cs"] Cons.prems(2) by auto
  then have "drain (buf @ c) = (ms, r)" using drain_plains [of ms r] Cons.prems(1) by simp
  moreover have "pam_read cs r = ns" using Cons.IH [OF _ d(4,2)] Cons.prems(1) d(3) by simp
  ultimately show ?case using d(3) by simp
qed

text \<open>An empty line hides what follows it in the same chunk, until more output comes.\<close>

lemma empty_line_hides: "pam_read [CHR 0x0A # unlines ls] [] = []"
  by (simp add: drain.simps [of "CHR 0x0A # _"])

text \<open>
  The PAM module shows the output of the program line by line, however the pipe cuts it into pieces, when no
  line is empty or ends with a carriage return.
\<close>

theorem pam_shows_lines:
  assumes "\<forall>l \<in> set ls. plain_line l" and "concat cs = unlines ls"
  shows "pam_read cs [] = ls"
  by (rule pam_read_plain [OF assms(1)]) (simp_all add: assms(2) no_newline_def)

section \<open>Who gets in\<close>

lemma write_password_prefix: "write_password ws out pw = Some r \<Longrightarrow> \<exists>k. r = out @ take k pw"
proof (induction ws out pw rule: write_password.induct)
  case (3 w ws out c cs)
  show ?case
  proof (cases "w = - 1")
    case True
    with "3.prems" show ?thesis by (intro exI [of _ 0]) simp
  next
    case False
    with "3.prems" "3.IH" obtain k where "r = (out @ take (nat w) (c # cs)) @ take k (drop (nat w) (c # cs))" by auto
    then show ?thesis by (intro exI [of _ "nat w + k"]) (simp only: append.assoc take_add)
  qed
qed (auto intro: exI [of _ 0])

text \<open>What \<open>runMain\<close> answers: 0 only after a success of the handler for this user with a valid password.\<close>

lemma runMain_codes:
  assumes "runMain tr handler checkLogin setPassword writes [user] = Some (code, lines, piped)"
  shows "\<exists>result msgs. handler user = Some (result, msgs) \<and> code \<in> {0, 1, - 1} \<and>
    (code = 0 \<longrightarrow> re_state result = US_SUCCESS \<and> pd_userName (re_device result) = user \<and>
       checkLogin user (re_password result) = Some PL_SUCCESS \<and>
       (if setPassword then \<exists>k. piped = take k (re_password result) else piped = [])) \<and>
    (code = 1 \<longrightarrow> piped = [] \<and> (re_state result = US_CANCELED \<or> re_state result = US_SUCCESS)) \<and>
    (code = - 1 \<longrightarrow> piped = [] \<and> re_state result \<noteq> US_SUCCESS \<and> re_state result \<noteq> US_CANCELED)"
proof -
  obtain result msgs where h: "handler user = Some (result, msgs)"
    using assms by (auto simp: runMain_def bind_eq_Some_conv)
  have pw: "write_password writes [] (re_password result) = Some piped \<Longrightarrow> \<exists>k. piped = take k (re_password result)"
    using write_password_prefix [of writes "[]"] by fastforce
  show ?thesis
    using assms h pw by (auto simp: runMain_def bind_eq_Some_conv split: if_splits)
qed

text \<open>
  The parts together: the module starts the program for the user it was asked for; \<open>deliver\<close> is how the pipes deliver
  what was written. The exit code is the low byte of what \<open>main\<close> returns.
\<close>

definition login_child :: "(string \<Rightarrow> string list) \<Rightarrow> (string \<Rightarrow> (int \<times> string list \<times> string) option) \<Rightarrow> string \<Rightarrow>
    (string list \<times> string list \<times> int) option" where
  "login_child deliver program user = do {
     (code, lines, piped) \<leftarrow> program user;
     Some (deliver (unlines (map c_text lines)), deliver piped, code mod 256) }"

lemma pam_cases:
  assumes "pam_sm_authenticate env = (res, shown, tok)"
  shows "(res = PAM_SUCCESS \<or> tok \<noteq> None \<longrightarrow> (\<exists>cs piped. pam_child env (pam_user env) = Some (cs, piped, 0) \<and>
      (\<forall>t. tok = Some t \<longrightarrow> t = c_text (concat piped)))) \<and>
    (res = PAM_SUCCESS \<longrightarrow> tok = None)"
  using assms by (auto simp: pam_sm_authenticate_def Let_def split: if_splits option.splits)

lemma prefix_c_text: "prefix (c_text s) s"
  unfolding c_text_def by (metis prefixI takeWhile_dropWhile_id)

text \<open>
  Nobody gets in without the phone: the module answers success, or hands a password to the modules after it,
  only when the unlock attempt for this very user succeeded and its password passed the check of the system, and a
  password handed over is a prefix of that one.
\<close>

theorem pam_needs_unlock:
  assumes "pam_child env = login_child deliver (\<lambda>user. auth_main setuidOk tr handler checkLogin setPassword writes [user])"
    and "\<forall>s. concat (deliver s) = s" and "pam_sm_authenticate env = (res, shown, tok)" and "res = PAM_SUCCESS \<or> tok \<noteq> None"
  shows "setuidOk \<and> (\<exists>result msgs. handler (pam_user env) = Some (result, msgs) \<and> re_state result = US_SUCCESS \<and>
    pd_userName (re_device result) = pam_user env \<and>
    checkLogin (pam_user env) (re_password result) = Some PL_SUCCESS \<and>
    (\<forall>t. tok = Some t \<longrightarrow> setPassword \<and> prefix t (re_password result)))"
proof -
  obtain cs piped where c: "pam_child env (pam_user env) = Some (cs, piped, 0)" "\<forall>t. tok = Some t \<longrightarrow> t = c_text (concat piped)"
    using pam_cases [OF assms(3)] assms(4) by blast
  obtain code ls out where m: "auth_main setuidOk tr handler checkLogin setPassword writes [pam_user env] = Some (code, ls, out)"
    "code mod 256 = 0" "piped = deliver out"
    using c(1) unfolding assms(1) by (auto simp: login_child_def bind_eq_Some_conv)
  have ok: "setuidOk" using m(1,2) by (auto simp: auth_main_def split: if_splits)
  with m(1) have run: "runMain tr handler checkLogin setPassword writes [pam_user env] = Some (code, ls, out)"
    by (simp add: auth_main_def)
  obtain result msgs where r: "handler (pam_user env) = Some (result, msgs)" "code \<in> {0, 1, - 1}"
    "code = 0 \<longrightarrow> re_state result = US_SUCCESS \<and> pd_userName (re_device result) = pam_user env \<and>
       checkLogin (pam_user env) (re_password result) = Some PL_SUCCESS \<and>
       (if setPassword then \<exists>k. out = take k (re_password result) else out = [])"
    using runMain_codes [OF run] by blast
  have "code = 0" using r(2) m(2) by auto
  moreover have "prefix t (re_password result) \<and> setPassword" if t: "tok = Some t" for t
  proof -
    have t': "t = c_text out" using c(2) t m(3) assms(2) by simp
    have "out \<noteq> []" using assms(3) t c(1) m(3) assms(2) by (auto simp: pam_sm_authenticate_def Let_def split: if_splits)
    with r(3) \<open>code = 0\<close> have "setPassword" "prefix out (re_password result)"
      by (auto simp: take_is_prefix split: if_splits)
    then show ?thesis using t' prefix_c_text prefix_order.trans by blast
  qed
  ultimately show ?thesis using ok r by blast
qed

section \<open>Witnesses\<close>

lemma pam_shows_lines_witness: "pam_read [''a'', ''b'' @ [CHR 0x0A] @ ''c'', [CHR 0x0A]] [] = [''ab'', ''c'']"
  by (rule pam_shows_lines) (simp_all add: plain_line_def no_newline_def)

definition demo_unlock_result :: UnlockResult where
  "demo_unlock_result = \<lparr>re_state = US_SUCCESS, re_device = (demo_device ''1'')\<lparr>pd_userName := ''u''\<rparr>, re_password = ''pw''\<rparr>"

definition demo_pam :: pam_env where
  "demo_pam = \<lparr>pam_service_rc = 0, pam_user_rc = 0, pam_conv_rc = 0, pam_user = ''u'', pam_conv = True, pam_pipe = True,
     pam_child = login_child (\<lambda>s. [s]) (\<lambda>user. auth_main True (\<lambda>k. k) (\<lambda>_. Some (demo_unlock_result, []))
       (\<lambda>u p. Some (if u = ''u'' \<and> p = ''pw'' then PL_SUCCESS else PL_INVALID_PASSWORD)) True [1, 1] [user])\<rparr>"

lemma pam_needs_unlock_witness:
  "pam_sm_authenticate demo_pam = (PAM_IGNORE, [], Some ''pw'') \<and> prefix ''pw'' (re_password demo_unlock_result)"
proof -
  have run: "pam_sm_authenticate demo_pam = (PAM_IGNORE, [], Some ''pw'')"
    by (simp add: pam_sm_authenticate_def demo_pam_def login_child_def auth_main_def runMain_def demo_unlock_result_def c_text_def
        drain.simps Let_def)
  have "pam_child demo_pam = login_child (\<lambda>s. [s]) (\<lambda>user. auth_main True (\<lambda>k. k) (\<lambda>_. Some (demo_unlock_result, []))
       (\<lambda>u p. Some (if u = ''u'' \<and> p = ''pw'' then PL_SUCCESS else PL_INVALID_PASSWORD)) True [1, 1] [user])"
    by (simp add: demo_pam_def)
  from pam_needs_unlock [OF this _ run] run show ?thesis by simp
qed

end
