(* ===== verification/PAMHelper.thy ===== *)
theory PAMHelper
  imports Streams AppSettings
begin

text \<open>
  \<open>desktop/src/installer/PAMHelper.cpp\<close>: the entries of the PAM module in the files of \<open>/etc/pam.d\<close> and the
  restrictions of the polkit helper. An operation of the installer is a function of the installer's state that
  answers a value or the text of an exception; changes made before an exception stay.
\<close>

section \<open>Operations of the installer\<close>

record install_state =
  is_fs :: fs
  is_log :: "string list"
  is_cmds :: "string list"      \<comment> \<open>commands run so far\<close>
  is_settings :: PCBUAppStorage \<comment> \<open>what \<open>AppSettings::Get\<close> hands out\<close>
  is_stored :: PCBUAppStorage   \<comment> \<open>what the settings file holds\<close>
  is_writable :: bool           \<comment> \<open>whether the settings file can be written\<close>

type_synonym 'a install = "install_state \<Rightarrow> (string + 'a) \<times> install_state"

definition return :: "'a \<Rightarrow> 'a install" where
  "return a s = (Inr a, s)"

definition throw :: "string \<Rightarrow> 'a install" where
  "throw msg s = (Inl msg, s)"

definition and_then :: "'a install \<Rightarrow> ('a \<Rightarrow> 'b install) \<Rightarrow> 'b install" where
  "and_then f g s = (case f s of (Inl e, t) \<Rightarrow> (Inl e, t) | (Inr a, t) \<Rightarrow> g a t)"

definition on_fs :: "(fs \<Rightarrow> 'a \<times> fs) \<Rightarrow> 'a install" where
  "on_fs f s = (let (a, g) = f (is_fs s) in (Inr a, s\<lparr>is_fs := g\<rparr>))"

definition get_fs :: "(fs \<Rightarrow> 'a) \<Rightarrow> 'a install" where
  "get_fs f s = (Inr (f (is_fs s)), s)"

definition logging :: "string \<Rightarrow> unit install" where
  "logging m s = (Inr (), s\<lparr>is_log := is_log s @ [m]\<rparr>)"

text \<open>
  \<open>AppSettings::Save\<close>, which does not notice a failed write and fills the cache all the same, and
  \<open>AppSettings::InvalidateCache\<close>, after which the file counts; \<open>settings_view\<close> below relates them to the model of the store.
\<close>

definition save_settings :: "PCBUAppStorage \<Rightarrow> install_state \<Rightarrow> install_state" where
  "save_settings x s = s\<lparr>is_settings := x, is_stored := if is_writable s then x else is_stored s\<rparr>"

definition invalidate_cache :: "install_state \<Rightarrow> install_state" where
  "invalidate_cache s = s\<lparr>is_settings := is_stored s\<rparr>"

definition check :: "bool \<Rightarrow> string \<Rightarrow> unit install" where
  "check b msg = (if b then return () else throw msg)"

abbreviation seq_install :: "unit install \<Rightarrow> 'b install \<Rightarrow> 'b install" where
  "seq_install f g \<equiv> and_then f (\<lambda>_. g)"

fun each :: "('a \<Rightarrow> unit install) \<Rightarrow> 'a list \<Rightarrow> unit install" where
  "each f [] = return ()"
| "each f (x # xs) = seq_install (f x) (each f xs)"

lemma install_simps [simp]:
  "and_then (return a) g = g a" "and_then (throw msg) g = throw msg" "and_then (get_fs f) g s = g (f (is_fs s)) s"
  "and_then (logging m) g s = g () (s\<lparr>is_log := is_log s @ [m]\<rparr>)" "check True msg = return ()" "check False msg = throw msg"
  by (auto simp: and_then_def return_def throw_def get_fs_def logging_def check_def fun_eq_iff)

section \<open>The settings\<close>

lemma save_settings_simps [simp]:
  "is_settings (save_settings x s) = x" "is_fs (save_settings x s) = is_fs s" "is_log (save_settings x s) = is_log s"
  "is_cmds (save_settings x s) = is_cmds s" "is_writable (save_settings x s) = is_writable s"
  "is_stored (save_settings x s) = (if is_writable s then x else is_stored s)"
  by (simp_all add: save_settings_def)

text \<open>
  The store of the settings, seen from the installer: \<open>Get\<close> hands out \<open>is_settings\<close>, from the file when the cache is empty,
  and \<open>is_stored\<close> once the cache has been emptied.
\<close>

definition settings_view :: "'j json_lib \<Rightarrow> string \<Rightarrow> app_state \<Rightarrow> install_state \<Rightarrow> bool" where
  "settings_view J dir st s \<longleftrightarrow> json_laws J \<and> \<not> st_locked st \<and>
     j_parse J (string_of (ReadBytes (st_fs st) (settings_path dir))) = Some (settings_json J (is_stored s)) \<and>
     is_settings s = (if as_machineID (st_cache st) \<noteq> [] then st_cache st else is_stored s)"

lemma settings_view_get:
  assumes "settings_view J dir st s"
  shows "\<exists>st'. Get J dir r1 r2 st = Some (is_settings s, st')"
proof (cases "as_machineID (st_cache st) = []")
  case True
  with assms Get_parsed [of J st dir "is_stored s"] show ?thesis by (auto simp: settings_view_def)
next
  case False
  with assms show ?thesis by (simp add: settings_view_def Get_def lock_mutex_def unlock_mutex_def)
qed

lemma settings_view_save:
  assumes "settings_view J dir st s" and "as_machineID x \<noteq> []"
    and "if is_writable s then settings_storable J dir x st
      else fs_capacity (st_fs st) (settings_path dir) = None \<and> j_dump J (settings_json J x) \<noteq> None"
  shows "\<exists>st'. Save J dir x st = Some st' \<and> settings_view J dir st' (save_settings x s)"
proof (cases "is_writable s")
  case True
  with assms Save_storable [of J dir x st] show ?thesis by (auto simp: settings_view_def)
next
  case False
  then obtain t where "j_dump J (settings_json J x) = Some t" "fs_capacity (st_fs st) (settings_path dir) = None"
    using assms(3) by auto
  with False assms(1,2) show ?thesis
    by (auto simp: settings_view_def Save_def lock_mutex_def unlock_mutex_def Let_def WriteBytes_def ReadBytes_def)
qed

lemma settings_view_invalidate:
  assumes "settings_view J dir st s"
  shows "\<exists>st'. InvalidateCache st = Some st' \<and> settings_view J dir st' (invalidate_cache s)"
  using assms by (auto simp: settings_view_def InvalidateCache_def lock_mutex_def unlock_mutex_def invalidate_cache_def empty_storage_def)

section \<open>Entries\<close>

definition NL :: string where "NL = [CHR 0x0A]"

definition PAM_CONFIG_GEN_ENTRY :: string where
  "PAM_CONFIG_GEN_ENTRY = ''## Generated by PC Bio Unlock''"

definition PAM_HEADER :: string where "PAM_HEADER = ''#%PAM-1.0''"

definition gen_common :: "string \<Rightarrow> string" where
  "gen_common entry = unlines [[], PAM_HEADER, entry, PAM_CONFIG_GEN_ENTRY, [], ''auth include common-auth'',
     ''account include common-account'', ''password include common-password'', ''session include common-session'']"

definition gen_system :: "string \<Rightarrow> string" where
  "gen_system entry = unlines [[], PAM_HEADER, entry, PAM_CONFIG_GEN_ENTRY, [], ''auth include system-auth'',
     ''account include system-auth'', ''password include system-auth'', ''session include system-auth'']"

definition pam_path :: "string \<Rightarrow> string" where
  "pam_path configName = ''/etc/pam.d/'' @ configName"

definition HasConfigEntry :: "fs \<Rightarrow> string \<Rightarrow> string \<Rightarrow> bool" where
  "HasConfigEntry f configName entry \<longleftrightarrow>
     exists_path f (pam_path configName) \<and> str_contains (string_of (ReadBytes f (pam_path configName))) entry"

definition IsConfigGenerated :: "fs \<Rightarrow> string \<Rightarrow> bool" where
  "IsConfigGenerated f filePath \<longleftrightarrow> str_contains (string_of (ReadBytes f filePath)) PAM_CONFIG_GEN_ENTRY"

text \<open>The new text of a file: the loops of \<open>AddEntryToFile\<close> and \<open>RemoveEntryFromFile\<close> over its lines.\<close>

fun add_lines :: "string \<Rightarrow> bool \<Rightarrow> string list \<Rightarrow> string" where
  "add_lines entry hasBegin [] = []"
| "add_lines entry hasBegin (line # rest) =
     (if line = PAM_HEADER \<and> hasBegin then line @ NL @ entry @ NL else line @ NL) @ add_lines entry hasBegin rest"

definition added_text :: "string \<Rightarrow> string \<Rightarrow> string" where
  "added_text entry fileStr =
     (let hasBegin = str_contains fileStr (PAM_HEADER @ NL)
      in (if \<not> hasBegin then PAM_HEADER @ NL @ entry @ NL else []) @ add_lines entry hasBegin (splitBy NL fileStr))"

fun remove_lines :: "string list \<Rightarrow> string list \<Rightarrow> string" where
  "remove_lines entries [] = []"
| "remove_lines entries (line # rest) = (if list_ex (\<lambda>e. line = e) entries then [] else line @ NL) @ remove_lines entries rest"

definition removed_text :: "string \<Rightarrow> string \<Rightarrow> string" where
  "removed_text entry fileStr = remove_lines (splitBy NL entry) (splitBy NL fileStr)"

definition AddEntryToFile :: "(string \<Rightarrow> string \<Rightarrow> string) \<Rightarrow> string \<Rightarrow> string \<Rightarrow> unit install" where
  "AddEntryToFile tr filePath entry =
     and_then (get_fs (\<lambda>f. string_of (ReadBytes f filePath))) (\<lambda>fileStr.
     seq_install (logging (''Adding PAM entry to '' @ filePath @ ''...'')) (
     and_then (on_fs (\<lambda>f. WriteBytes f filePath (bytes_of (added_text entry fileStr)))) (\<lambda>ok.
     check ok (tr ''error_file_write'' filePath))))"

definition RemoveEntryFromFile :: "(string \<Rightarrow> string \<Rightarrow> string) \<Rightarrow> string \<Rightarrow> string \<Rightarrow> unit install" where
  "RemoveEntryFromFile tr filePath entry =
     and_then (get_fs (\<lambda>f. string_of (ReadBytes f filePath))) (\<lambda>fileStr.
     seq_install (logging (''Removing PAM entry from '' @ filePath @ ''...'')) (
     and_then (on_fs (\<lambda>f. WriteBytes f filePath (bytes_of (removed_text entry fileStr)))) (\<lambda>ok.
     check ok (tr ''error_file_write'' filePath))))"

definition AddToConfig :: "(string \<Rightarrow> string \<Rightarrow> string) \<Rightarrow> string \<Rightarrow> string \<Rightarrow> unit install" where
  "AddToConfig tr configName entry =
     and_then (get_fs (\<lambda>f. (exists_path f (pam_path configName), exists_path f (pam_path ''common-auth''),
         exists_path f (pam_path ''system-auth'')))) (\<lambda>(present, hasCommonAuth, hasSystemAuth).
     if \<not> present then
       seq_install (logging (''Generating configuration '' @ configName @ ''...'')) (
       and_then (on_fs (\<lambda>f. WriteBytes f (pam_path configName)
         (bytes_of (if hasSystemAuth then gen_system entry else gen_common entry)))) (\<lambda>ok.
       seq_install (check ok (tr ''error_file_write'' (pam_path configName))) (
       if \<not> hasCommonAuth \<and> \<not> hasSystemAuth then logging ''Unknown PAM configuration. Please report on GitHub.''
       else return ())))
     else AddEntryToFile tr (pam_path configName) entry)"

definition RemoveFromConfig :: "(string \<Rightarrow> string \<Rightarrow> string) \<Rightarrow> string \<Rightarrow> string \<Rightarrow> unit install" where
  "RemoveFromConfig tr configName entry =
     and_then (get_fs (\<lambda>f. (exists_path f (pam_path configName), IsConfigGenerated f (pam_path configName)))) (\<lambda>(present, generated).
     if \<not> present then return ()
     else if generated then
       seq_install (logging (''Removing generated configuration '' @ configName @ ''...'')) (
       and_then (on_fs (\<lambda>f. RemoveFile f (pam_path configName))) (\<lambda>ok.
       check ok (tr ''error_file_remove'' (pam_path configName))))
     else RemoveEntryFromFile tr (pam_path configName) entry)"

section \<open>Polkit\<close>

definition polkit_paths :: "string list" where
  "polkit_paths = concat (map (\<lambda>dir. map (\<lambda>name. dir @ name) [''polkit-agent-helper@.service'', ''polkit-agent-helper.service''])
     [''/lib64/systemd/system/'', ''/lib/systemd/system/'', ''/usr/lib64/systemd/system/'', ''/usr/lib/systemd/system/'',
      ''/etc/systemd/system/''])"

fun replace_all :: "(string \<times> string) list \<Rightarrow> string \<Rightarrow> string" where
  "replace_all [] s = s"
| "replace_all ((frm, to) # rs) s = replace_all rs (Replace s frm to)"

definition polkit_text :: "bool \<Rightarrow> string \<Rightarrow> string" where
  "polkit_text enabled fileStr =
     (if enabled then
        replace_all [(''NoNewPrivileges=no'', ''NoNewPrivileges=yes''), (''PrivateDevices=no'', ''PrivateDevices=yes''),
          (''PrivateNetwork=no'', ''PrivateNetwork=yes''), (''#RestrictAddressFamilies=AF_UNIX'', ''RestrictAddressFamilies=AF_UNIX''),
          (''RestrictSUIDSGID=no'', ''RestrictSUIDSGID=yes''), (''#DeviceAllow='', ''DeviceAllow=''),
          (''#DevicePolicy=strict'', ''DevicePolicy=strict'')] fileStr
      else
        replace_all [(''NoNewPrivileges=yes'', ''NoNewPrivileges=no''), (''PrivateDevices=yes'', ''PrivateDevices=no''),
          (''PrivateNetwork=yes'', ''PrivateNetwork=no''), (''RestrictAddressFamilies=AF_UNIX'', ''#RestrictAddressFamilies=AF_UNIX''),
          (''RestrictSUIDSGID=yes'', ''RestrictSUIDSGID=no''), (''DeviceAllow='', ''#DeviceAllow=''),
          (''DevicePolicy=strict'', ''#DevicePolicy=strict'')] fileStr)"

definition SetPolkitRestrictions :: "(string \<Rightarrow> string \<Rightarrow> string) \<Rightarrow> bool \<Rightarrow> bool install" where
  "SetPolkitRestrictions tr enabled =
     and_then (get_fs (\<lambda>f. find (exists_path f) polkit_paths)) (\<lambda>servicePath.
     case servicePath of
       None \<Rightarrow> seq_install (logging ''Failed to find polkit-agent-helper service path.'') (return False)
     | Some path \<Rightarrow>
         and_then (get_fs (\<lambda>f. polkit_text enabled (string_of (ReadBytes f path)))) (\<lambda>fileStr.
         and_then (on_fs (\<lambda>f. WriteBytes f path (bytes_of fileStr))) (\<lambda>ok.
         if ok then return True else seq_install (logging (tr ''error_file_write'' path)) (return False))))"

definition SetConfigEntry :: "(string \<Rightarrow> string \<Rightarrow> string) \<Rightarrow> string \<Rightarrow> string \<Rightarrow> bool \<Rightarrow> unit install" where
  "SetConfigEntry tr configName entry enabled =
     and_then (get_fs (\<lambda>f. HasConfigEntry f configName entry)) (\<lambda>hasEntry.
     if enabled \<and> \<not> hasEntry then
       if configName = ''polkit-1'' then
         seq_install (logging ''Disabling polkit-agent-helper restrictions...'') (
         and_then (SetPolkitRestrictions tr False) (\<lambda>_. AddToConfig tr configName entry))
       else AddToConfig tr configName entry
     else if \<not> enabled \<and> hasEntry then
       seq_install (RemoveFromConfig tr configName entry) (
       if configName = ''polkit-1'' then
         seq_install (logging ''Enabling polkit-agent-helper restrictions...'') (
         and_then (SetPolkitRestrictions tr True) (\<lambda>_. return ()))
       else return ())
     else return ())"

section \<open>Lines\<close>

lemma NL_contains: "str_contains l NL \<longleftrightarrow> \<not> no_newline l"
  unfolding str_contains_infix no_newline_def NL_def by (auto simp: in_set_conv_decomp)

lemma split_NL_lines: "\<forall>l \<in> set (split_list NL s). no_newline l"
  using split_list_parts [of NL s] by (simp add: NL_contains) (simp add: NL_def)

lemma unlines_intercalate: "ls \<noteq> [] \<Longrightarrow> unlines ls = intercalate NL ls @ NL"
proof (induction ls)
  case (Cons l ls)
  then show ?case by (cases ls) (simp_all add: NL_def)
qed simp

lemma unlines_split: "unlines (split_list NL s) = s @ NL"
  by (simp add: unlines_intercalate intercalate_split_list)

lemma find_NL_line: "no_newline l \<Longrightarrow> find_in NL (l @ CHR 0x0A # r) = Some (length l)"
  by (induction l) (auto simp: NL_def no_newline_def)

lemma split_unlines: "\<forall>l \<in> set ls. no_newline l \<Longrightarrow> split_list NL (unlines ls) = ls @ [[]]"
proof (induction ls)
  case Nil
  have "find_in NL [] = None" by (simp add: NL_def)
  then show ?case by (simp add: split_list.simps [of NL "[]"])
next
  case (Cons l ls)
  then show ?case by (simp add: split_list.simps [of NL "l @ _"] find_NL_line) (simp add: NL_def)
qed

lemma splitBy_NL: "splitBy NL s = split_list NL s"
  by (rule splitBy_eq) (simp add: NL_def)

lemma NL_NL: "x @ NL = unlines [x]"
  by (simp add: NL_def)

lemma add_lines_unlines:
  "add_lines entry True ls = unlines (concat (map (\<lambda>l. if l = PAM_HEADER then l # split_list NL entry else [l]) ls))"
  "add_lines entry False ls = unlines ls"
  by (induction ls) (simp_all add: NL_def unlines_split [unfolded NL_def])

lemma remove_lines_unlines: "remove_lines es ls = unlines (filter (\<lambda>l. l \<notin> set es) ls)"
  by (induction ls) (auto simp: NL_def list_ex_iff)

lemma removed_unlines:
  "\<forall>l \<in> set ls. no_newline l \<Longrightarrow> removed_text entry (unlines ls) = unlines (filter (\<lambda>l. l \<notin> set (split_list NL entry)) (ls @ [[]]))"
  by (simp add: removed_text_def splitBy_NL split_unlines remove_lines_unlines)

text \<open>After the removal no line of the entry is left.\<close>

lemma removed_no_entry:
  assumes "[] \<notin> set (split_list NL entry)"
  shows "set (split_list NL (removed_text entry f)) \<inter> set (split_list NL entry) = {}"
proof -
  have "\<forall>l \<in> set (filter (\<lambda>l. l \<notin> set (split_list NL entry)) (split_list NL f)). no_newline l"
    using split_NL_lines [of f] by simp
  then show ?thesis using assms
    by (simp add: removed_text_def splitBy_NL remove_lines_unlines split_unlines) blast
qed

text \<open>Where an entry is put: after a line that is the header, or after the header that is put in front.\<close>

lemma added_lines:
  assumes "PAM_HEADER \<in> set (split_list NL f) \<or> \<not> str_contains f (PAM_HEADER @ NL)"
  shows "\<exists>a b. split_list NL (added_text entry f) = a @ PAM_HEADER # split_list NL entry @ b"
proof (cases "str_contains f (PAM_HEADER @ NL)")
  case True
  let ?h = "\<lambda>l. if l = PAM_HEADER then l # split_list NL entry else [l]"
  obtain xs ys where f: "split_list NL f = xs @ PAM_HEADER # ys" using assms True by (auto simp: in_set_conv_decomp)
  have "added_text entry f = unlines (concat (map ?h (split_list NL f)))"
    using True by (simp add: added_text_def splitBy_NL add_lines_unlines)
  moreover have "\<forall>l \<in> set (concat (map ?h (split_list NL f))). no_newline l" using split_NL_lines by auto
  ultimately have "split_list NL (added_text entry f) = concat (map ?h (split_list NL f)) @ [[]]" by (simp add: split_unlines)
  then show ?thesis unfolding f
    by (intro exI [of _ "concat (map ?h xs)"] exI [of _ "concat (map ?h ys) @ [[]]"]) simp
next
  case False
  have "added_text entry f = unlines (PAM_HEADER # split_list NL entry @ split_list NL f)"
    using False by (simp add: added_text_def splitBy_NL add_lines_unlines unlines_split) (simp add: NL_def)
  moreover have "\<forall>l \<in> set (PAM_HEADER # split_list NL entry @ split_list NL f). no_newline l"
    using split_NL_lines by (auto simp: no_newline_def PAM_HEADER_def)
  ultimately have "split_list NL (added_text entry f) = (PAM_HEADER # split_list NL entry @ split_list NL f) @ [[]]"
    by (simp only: split_unlines)
  then show ?thesis by (intro exI [of _ "[]"] exI [of _ "split_list NL f @ [[]]"]) simp
qed

lemma nothing_added:
  assumes "PAM_HEADER \<notin> set (split_list NL f)" and "str_contains f (PAM_HEADER @ NL)"
  shows "added_text entry f = f @ NL"
proof -
  have "concat (map (\<lambda>l. if l = PAM_HEADER then l # split_list NL entry else [l]) ls) = ls" if "PAM_HEADER \<notin> set ls" for ls
    using that by (induction ls) auto
  with assms show ?thesis by (simp add: added_text_def splitBy_NL add_lines_unlines unlines_split)
qed

text \<open>
  C30: Adding an entry to a PAM file puts all its lines right after a header line, which is put in front of a file that
  does not contain the header; but a file that contains it only inside longer lines gets no entry. Removing the entry
  again, when no line of the file is one of its lines, takes it out: what is left is the file with two more line feeds at its
  end, behind the header when that was put in front, and no line of the entry.
\<close>

theorem pam_entry_roundtrip:
  assumes "set (split_list NL f) \<inter> set (split_list NL entry) = {}" and "[] \<notin> set (split_list NL entry)"
    and "PAM_HEADER \<notin> set (split_list NL entry)"
  shows "(if PAM_HEADER \<in> set (split_list NL f) \<or> \<not> str_contains f (PAM_HEADER @ NL)
      then \<exists>a b. split_list NL (added_text entry f) = a @ PAM_HEADER # split_list NL entry @ b
      else added_text entry f = f @ NL) \<and>
    removed_text entry (added_text entry f) =
      (if str_contains f (PAM_HEADER @ NL) then [] else PAM_HEADER @ NL) @ f @ NL @ NL \<and>
    set (split_list NL (removed_text entry (added_text entry f))) \<inter> set (split_list NL entry) = {}"
proof (intro conjI)
  let ?es = "split_list NL entry" and ?ls = "split_list NL f"
  show "if PAM_HEADER \<in> set ?ls \<or> \<not> str_contains f (PAM_HEADER @ NL)
      then \<exists>a b. split_list NL (added_text entry f) = a @ PAM_HEADER # ?es @ b else added_text entry f = f @ NL"
    using added_lines [of f entry] nothing_added [of f entry] by auto
  have es: "filter (\<lambda>l. l \<notin> set ?es) ?es = []" by (simp add: filter_empty_conv)
  have fs: "filter (\<lambda>l. l \<notin> set ?es) ?ls = ?ls" using assms(1) by (auto simp: filter_id_conv)
  have nl: "no_newline PAM_HEADER" by (simp add: no_newline_def PAM_HEADER_def)
  show "removed_text entry (added_text entry f) = (if str_contains f (PAM_HEADER @ NL) then [] else PAM_HEADER @ NL) @ f @ NL @ NL"
  proof (cases "str_contains f (PAM_HEADER @ NL)")
    case True
    let ?as = "concat (map (\<lambda>l. if l = PAM_HEADER then l # ?es else [l]) ?ls)"
    have "added_text entry f = unlines ?as"
      using True by (simp add: added_text_def splitBy_NL add_lines_unlines)
    moreover have "\<forall>l \<in> set ?as. no_newline l" using split_NL_lines by auto
    moreover have "filter (\<lambda>l. l \<notin> set ?es) (concat (map (\<lambda>l. if l = PAM_HEADER then l # ?es else [l]) ks)) = ks"
      if "set ks \<inter> set ?es = {}" for ks
      using that by (induction ks) (auto simp: es)
    ultimately show ?thesis using True assms(1,2) unlines_split [of f] by (simp add: removed_unlines) (simp add: NL_def)
  next
    case False
    let ?as = "PAM_HEADER # ?es @ ?ls"
    have "added_text entry f = unlines ?as"
      using False by (simp add: added_text_def splitBy_NL add_lines_unlines unlines_split) (simp add: NL_def)
    moreover have "\<forall>l \<in> set ?as. no_newline l" using split_NL_lines nl by auto
    ultimately have "removed_text entry (added_text entry f) = unlines (PAM_HEADER # ?ls @ [[]])"
      using assms(2,3) es fs by (simp only: removed_unlines) simp
    then show ?thesis using False unlines_split [of f] by (simp add: NL_def)
  qed
  show "set (split_list NL (removed_text entry (added_text entry f))) \<inter> set ?es = {}"
    by (rule removed_no_entry [OF assms(2)])
qed

text \<open>Setting an entry to what it is changes nothing; a commented entry counts as present.\<close>

lemma SetConfigEntry_same: "SetConfigEntry tr configName entry (HasConfigEntry (is_fs s) configName entry) s = (Inr (), s)"
  by (cases "HasConfigEntry (is_fs s) configName entry"; cases "configName = ''polkit-1''")
    (simp_all add: SetConfigEntry_def and_then_def get_fs_def return_def)

lemma commented_entry_present:
  "fs_readable f (pam_path n) \<Longrightarrow> fs_files f (pam_path n) = Some (bytes_of (a @ ''#'' @ entry @ b)) \<Longrightarrow> HasConfigEntry f n entry"
  by (auto simp: HasConfigEntry_def exists_path_def ReadBytes_def str_contains_infix intro: exI [of _ "a @ ''#''"])

section \<open>Witnesses\<close>

lemma pam_entry_roundtrip_witness:
  "(\<exists>a b. split_list NL (added_text ''auth p'' (unlines [PAM_HEADER, ''auth q''])) = a @ PAM_HEADER # ''auth p'' # b) \<and>
   removed_text ''auth p'' (added_text ''auth p'' (unlines [PAM_HEADER, ''auth q''])) = unlines [PAM_HEADER, ''auth q''] @ NL @ NL"
proof -
  have f: "split_list NL (unlines [PAM_HEADER, ''auth q'']) = [PAM_HEADER, ''auth q'', []]"
    using split_unlines [of "[PAM_HEADER, ''auth q'']"] by (simp add: no_newline_def PAM_HEADER_def)
  have e: "split_list NL ''auth p'' = [''auth p'']"
    by (rule split_list_single) (simp_all add: NL_contains no_newline_def, simp add: NL_def)
  have "str_contains (unlines [PAM_HEADER, ''auth q'']) (PAM_HEADER @ NL)"
    unfolding str_contains_infix by (rule exI [of _ "[]"]) (simp add: NL_def)
  moreover have "set (split_list NL (unlines [PAM_HEADER, ''auth q''])) \<inter> set (split_list NL ''auth p'') = {}"
    "[] \<notin> set (split_list NL ''auth p'')" "PAM_HEADER \<notin> set (split_list NL ''auth p'')"
    unfolding f e by (simp_all add: PAM_HEADER_def)
  note pam_entry_roundtrip [OF this]
  ultimately show ?thesis unfolding f e by simp
qed

end
