(* ===== verification/ServiceInstaller.thy ===== *)
theory ServiceInstaller
  imports PAMHelper
begin

text \<open>
  \<open>desktop/src/installer/ServiceInstaller.h\<close> with its Linux and macOS implementations: installing the authentication
  program and the PAM module, and the settings shown to the user. A command is run by its exit code, which may
  depend on the commands run before it.
\<close>

section \<open>Settings\<close>

record ServiceSettingOption =
  so_value :: string
  so_name :: string

record ServiceSetting =
  ss_type :: string
  ss_id :: string
  ss_name :: string
  ss_enabled :: bool
  ss_defaultVal :: bool
  ss_options :: "ServiceSettingOption list"
  ss_selectedValue :: string
  ss_defaultValue :: string

text \<open>The two constructors.\<close>

definition toggle :: "string \<Rightarrow> string \<Rightarrow> bool \<Rightarrow> bool \<Rightarrow> ServiceSetting" where
  "toggle i name enabled defaultVal =
     \<lparr>ss_type = ''toggle'', ss_id = i, ss_name = name, ss_enabled = enabled, ss_defaultVal = defaultVal,
      ss_options = [], ss_selectedValue = [], ss_defaultValue = []\<rparr>"

definition choice :: "string \<Rightarrow> string \<Rightarrow> (string \<times> string) list \<Rightarrow> string \<Rightarrow> string \<Rightarrow> ServiceSetting" where
  "choice i name options selectedValue defaultValue =
     \<lparr>ss_type = ''choice'', ss_id = i, ss_name = name, ss_enabled = False, ss_defaultVal = False,
      ss_options = map (\<lambda>(v, n). \<lparr>so_value = v, so_name = n\<rparr>) options, ss_selectedValue = selectedValue,
      ss_defaultValue = defaultValue\<rparr>"

text \<open>The environment: the outcome of a command, given those before it, texts (with an argument) and resources.\<close>

record install_env =
  ie_run :: "string list \<Rightarrow> string \<Rightarrow> process"
  ie_tr :: "string \<Rightarrow> string"
  ie_trf :: "string \<Rightarrow> string \<Rightarrow> string"
  ie_resource :: "string \<Rightarrow> bytes"

text \<open>\<open>Shell::RunCommand(...).exitCode == 0\<close>.\<close>

definition run_ok :: "platform \<Rightarrow> install_env \<Rightarrow> string \<Rightarrow> bool install" where
  "run_ok pf e cmd s = (Inr (sr_exitCode (RunCommand pf (ie_run e (is_cmds s) cmd)) = 0), s\<lparr>is_cmds := is_cmds s @ [cmd]\<rparr>)"

text \<open>A chain of commands with \<open>&&\<close>.\<close>

fun run_chain :: "platform \<Rightarrow> install_env \<Rightarrow> string list \<Rightarrow> bool install" where
  "run_chain pf e [] = return True"
| "run_chain pf e (c # cs) = and_then (run_ok pf e c) (\<lambda>ok. if ok then run_chain pf e cs else return False)"

fun nat_str :: "nat \<Rightarrow> string" where
  "nat_str n = (if n < 10 then [char_of (48 + n)] else nat_str (n div 10) @ [char_of (48 + n mod 10)])"

declare nat_str.simps [simp del]

definition port_str :: "u16 \<Rightarrow> string" where
  "port_str p = nat_str (unat p)"

definition EXE_PATH :: string where "EXE_PATH = ''/usr/local/sbin/pcbu_auth''"

section \<open>Linux: settings\<close>

definition LINUX_ENTRY :: string where "LINUX_ENTRY = ''auth sufficient pam_pcbiounlock.so''"

definition SDDM_ENTRY :: string where
  "SDDM_ENTRY = ''auth [success=1 new_authtok_reqd=1 default=ignore] pam_unix.so try_first_pass likeauth nullok'' @ NL @ LINUX_ENTRY"

definition IsProgramInstalled :: "install_env \<Rightarrow> string \<Rightarrow> bool install" where
  "IsProgramInstalled e pathName =
     and_then (run_ok Linux e (''which '' @ pathName)) (\<lambda>ok.
     if ok then return True else run_ok Linux e (''systemctl cat '' @ pathName))"

fun any_installed :: "install_env \<Rightarrow> string list \<Rightarrow> bool install" where
  "any_installed e [] = return False"
| "any_installed e (p # ps) = and_then (IsProgramInstalled e p) (\<lambda>ok. if ok then return True else any_installed e ps)"

text \<open>The login managers: program, PAM file and entry.\<close>

definition login_managers :: "(string \<times> string \<times> string) list" where
  "login_managers = [(''gdm'', ''gdm-password'', LINUX_ENTRY), (''sddm'', ''sddm'', SDDM_ENTRY), (''kde-open'', ''kde'', LINUX_ENTRY),
     (''lightdm'', ''lightdm'', LINUX_ENTRY), (''cinnamon'', ''cinnamon-screensaver'', LINUX_ENTRY),
     (''hyprlock'', ''hyprlock'', LINUX_ENTRY)]"

definition Linux_GetSettings :: "install_env \<Rightarrow> ServiceSetting list install" where
  "Linux_GetSettings e =
     and_then (get_fs (\<lambda>f. list_ex (\<lambda>(p, config, entry). HasConfigEntry f config entry) login_managers)) (\<lambda>isLoginEnabled.
     and_then (any_installed e (map fst login_managers)) (\<lambda>hasLoginManager.
     and_then (get_fs (\<lambda>f. HasConfigEntry f ''sudo'' LINUX_ENTRY)) (\<lambda>sudo.
     and_then (IsProgramInstalled e ''sudo'') (\<lambda>hasSudo.
     and_then (get_fs (\<lambda>f. HasConfigEntry f ''polkit-1'' LINUX_ENTRY)) (\<lambda>polkit.
     and_then (IsProgramInstalled e ''pkexec'') (\<lambda>hasPolkit.
     and_then (\<lambda>s. (Inr (as_unixSetPasswordPAM (is_settings s)), s)) (\<lambda>setPw.
     return [toggle ''sudo'' (ie_tr e ''service_setting_sudo'') sudo hasSudo,
       toggle ''polkit'' (ie_tr e ''service_setting_polkit'') polkit hasPolkit,
       toggle ''login'' (ie_tr e ''service_setting_login_manager'') isLoginEnabled hasLoginManager,
       toggle ''pamSetPassword'' (ie_tr e ''service_setting_pam_set_pw'') setPw False])))))))"

definition Linux_ApplySetting :: "install_env \<Rightarrow> bool \<Rightarrow> ServiceSetting \<Rightarrow> unit install" where
  "Linux_ApplySetting e useDefault setting =
     (let isEnabled = (if useDefault then ss_defaultVal setting else ss_enabled setting) in
      if ss_id setting = ''sudo'' then SetConfigEntry (ie_trf e) ''sudo'' LINUX_ENTRY isEnabled
      else if ss_id setting = ''polkit'' then SetConfigEntry (ie_trf e) ''polkit-1'' LINUX_ENTRY isEnabled
      else if ss_id setting = ''login'' then
        each (\<lambda>(program, config, entry). and_then (IsProgramInstalled e program) (\<lambda>ok.
          if ok then SetConfigEntry (ie_trf e) config entry isEnabled else return ())) login_managers
      else if ss_id setting = ''pamSetPassword'' then
        (\<lambda>s. (Inr (), save_settings ((is_settings s)\<lparr>as_unixSetPasswordPAM := isEnabled\<rparr>) s))
      else return ())"

definition Linux_ApplySettings :: "install_env \<Rightarrow> ServiceSetting list \<Rightarrow> bool \<Rightarrow> unit install" where
  "Linux_ApplySettings e settings useDefault = each (Linux_ApplySetting e useDefault) settings"

text \<open>\<open>for(auto setting : settings)\<close> clears the flag of a copy; the list stays as it is.\<close>

fun clear_copies :: "ServiceSetting list \<Rightarrow> ServiceSetting list" where
  "clear_copies [] = []"
| "clear_copies (setting # rest) = (let copy = setting\<lparr>ss_enabled := False\<rparr> in setting # clear_copies rest)"

definition ClearSettings :: "ServiceSetting list install \<Rightarrow> (ServiceSetting list \<Rightarrow> bool \<Rightarrow> unit install) \<Rightarrow> unit install" where
  "ClearSettings getSettings applySettings =
     and_then getSettings (\<lambda>settings. applySettings (clear_copies settings) False)"

section \<open>Linux: installation\<close>

definition PAM_MODULE_FILE :: string where "PAM_MODULE_FILE = ''pam_pcbiounlock.so''"

definition PAM_MODULE_DIRS :: "string list" where "PAM_MODULE_DIRS = [''/lib/security'', ''/lib64/security'']"

fun Linux_IsInstalled :: "fs \<Rightarrow> string list \<Rightarrow> bool" where
  "Linux_IsInstalled f [] = False"
| "Linux_IsInstalled f (pamDir # dirs) =
     (if exists_path f (path_join pamDir PAM_MODULE_FILE) then exists_path f EXE_PATH else Linux_IsInstalled f dirs)"

text \<open>Writing the program and making it set-uid, as on macOS.\<close>

definition install_exe :: "platform \<Rightarrow> install_env \<Rightarrow> unit install" where
  "install_exe pf e =
     seq_install (logging ''Copying binary module...'') (
     and_then (on_fs (\<lambda>f. WriteBytes f EXE_PATH (ie_resource e ''pcbu_auth''))) (\<lambda>ok.
     seq_install (check ok (ie_trf e ''error_file_write'' EXE_PATH)) (
     and_then (run_ok pf e (''chmod +x '' @ EXE_PATH @ '' && chmod u+s '' @ EXE_PATH)) (\<lambda>ok.
     check ok (ie_trf e ''error_exec_setuid'' EXE_PATH)))))"

definition install_module :: "install_env \<Rightarrow> string \<Rightarrow> unit install" where
  "install_module e pamDir =
     and_then (get_fs (\<lambda>f. exists_path f pamDir)) (\<lambda>present.
     if \<not> present then return ()
     else and_then (on_fs (\<lambda>f. WriteBytes f (path_join pamDir PAM_MODULE_FILE) (ie_resource e PAM_MODULE_FILE))) (\<lambda>ok.
       check ok (ie_trf e ''error_file_write'' (path_join pamDir PAM_MODULE_FILE))))"

text \<open>The firewall rules; a failing command is only reported.\<close>

definition ufw_commands :: "string \<Rightarrow> PCBUAppStorage \<Rightarrow> string list" where
  "ufw_commands verb st = [''ufw '' @ verb @ '' '' @ port_str (as_pairingDiscoveryPort st) @ ''/udp'',
     ''ufw '' @ verb @ '' '' @ port_str (as_pairingServerPort st) @ ''/tcp'',
     ''ufw '' @ verb @ '' '' @ port_str (as_unlockServerPort st) @ ''/tcp'']"

definition firewalld_commands :: "string \<Rightarrow> PCBUAppStorage \<Rightarrow> string list" where
  "firewalld_commands verb st = (let c = (\<lambda>p proto. ''firewall-cmd --zone=public --'' @ verb @ ''-port='' @ port_str p @ ''/'' @ proto @ '' --permanent'') in
     [c (as_pairingDiscoveryPort st) ''udp'', c (as_pairingServerPort st) ''tcp'', c (as_unlockServerPort st) ''tcp'',
      ''firewall-cmd --reload''])"

definition firewall :: "install_env \<Rightarrow> string \<Rightarrow> string \<Rightarrow> string \<Rightarrow> string \<Rightarrow> string list \<Rightarrow> unit install" where
  "firewall e program msg errKey errName cmds =
     and_then (IsProgramInstalled e program) (\<lambda>ok.
     if \<not> ok then return ()
     else seq_install (logging msg) (
       and_then (run_chain Linux e cmds) (\<lambda>ok.
       if ok then return () else logging (ie_trf e errKey errName))))"

definition SELINUX_TMP :: string where "SELINUX_TMP = ''/tmp/pcbu_auth_policy.pp''"

definition selinux_install :: "install_env \<Rightarrow> unit install" where
  "selinux_install e =
     and_then (IsProgramInstalled e ''semodule'') (\<lambda>ok.
     if \<not> ok then return ()
     else seq_install (logging ''Installing SELinux policy...'') (
       and_then (on_fs (\<lambda>f. WriteBytes f SELINUX_TMP (ie_resource e ''pcbu_auth_policy.pp''))) (\<lambda>_.
       and_then (run_ok Linux e (''semodule -i '' @ [CHR 0x22] @ SELINUX_TMP @ [CHR 0x22])) (\<lambda>ok.
       seq_install (check ok (ie_tr e ''error_selinux_policy_install'')) (
       and_then (on_fs (\<lambda>f. RemoveFile f SELINUX_TMP)) (\<lambda>_. return ()))))))"

definition with_settings :: "(PCBUAppStorage \<Rightarrow> 'a install) \<Rightarrow> 'a install" where
  "with_settings f s = f (is_settings s) s"

definition install_system :: "install_env \<Rightarrow> unit install" where
  "install_system e = with_settings (\<lambda>settings.
     seq_install (firewall e ''ufw'' ''Adding firewall rules (ufw)...'' ''error_firewall_rule_add'' ''ufw'' (ufw_commands ''allow'' settings)) (
     seq_install (firewall e ''firewall-cmd'' ''Adding firewall rules (firewalld)...'' ''error_firewall_rule_add'' ''firewalld''
       (firewalld_commands ''add'' settings)) (
     seq_install (selinux_install e) (
     logging ''Done.''))))"

definition Linux_Install :: "install_env \<Rightarrow> unit install" where
  "Linux_Install e =
     seq_install (install_exe Linux e) (
     seq_install (logging ''Copying PAM module...'') (
     and_then (on_fs (\<lambda>f. CreateDir f ''/lib/security'')) (\<lambda>_.
     seq_install (each (install_module e) PAM_MODULE_DIRS) (
     install_system e))))"

definition uninstall_module :: "install_env \<Rightarrow> string \<Rightarrow> unit install" where
  "uninstall_module e pamDir =
     and_then (get_fs (\<lambda>f. exists_path f (path_join pamDir PAM_MODULE_FILE))) (\<lambda>present.
     if \<not> present then return ()
     else and_then (on_fs (\<lambda>f. RemoveFile f (path_join pamDir PAM_MODULE_FILE))) (\<lambda>ok.
       check ok (ie_trf e ''error_file_remove'' (path_join pamDir PAM_MODULE_FILE))))"

definition uninstall_exe :: "install_env \<Rightarrow> unit install" where
  "uninstall_exe e =
     seq_install (logging ''Removing binary module...'') (
     and_then (on_fs (\<lambda>f. RemoveFile f EXE_PATH)) (\<lambda>ok.
     check ok (ie_trf e ''error_file_remove'' EXE_PATH)))"

definition selinux_uninstall :: "install_env \<Rightarrow> unit install" where
  "selinux_uninstall e =
     and_then (IsProgramInstalled e ''semodule'') (\<lambda>ok.
     if \<not> ok then return ()
     else seq_install (logging ''Removing SELinux policy...'') (
       and_then (run_ok Linux e ''semodule -r pcbu_auth_policy'') (\<lambda>ok.
       check ok (ie_tr e ''error_selinux_policy_uninstall''))))"

definition uninstall_system :: "install_env \<Rightarrow> unit install" where
  "uninstall_system e = with_settings (\<lambda>settings.
     seq_install (firewall e ''ufw'' ''Removing firewall rules (ufw)...'' ''error_firewall_rule_remove'' ''ufw''
       (ufw_commands ''delete allow'' settings)) (
     seq_install (firewall e ''firewall-cmd'' ''Removing firewall rules (firewalld)...'' ''error_firewall_rule_remove'' ''firewalld''
       (firewalld_commands ''remove'' settings)) (
     seq_install (selinux_uninstall e) (
     logging ''Done.''))))"

definition Linux_Uninstall :: "install_env \<Rightarrow> unit install" where
  "Linux_Uninstall e =
     seq_install (uninstall_exe e) (
     seq_install (logging ''Removing PAM module...'') (
     seq_install (each (uninstall_module e) PAM_MODULE_DIRS) (
     uninstall_system e)))"

section \<open>macOS\<close>

definition MAC_MODULE_DIR :: string where "MAC_MODULE_DIR = ''/usr/local/lib/pam''"

definition MAC_MODULE_FILE :: string where "MAC_MODULE_FILE = ''pam_pcbiounlock.dylib''"

definition MAC_ENTRY :: string where "MAC_ENTRY = ''auth sufficient /usr/local/lib/pam/pam_pcbiounlock.dylib''"

definition Mac_GetSettings :: "install_env \<Rightarrow> ServiceSetting list install" where
  "Mac_GetSettings e =
     and_then (get_fs (\<lambda>f. HasConfigEntry f ''sudo'' MAC_ENTRY)) (\<lambda>sudo.
     and_then (get_fs (\<lambda>f. HasConfigEntry f ''authorization'' MAC_ENTRY)) (\<lambda>auth.
     return [toggle ''sudo'' (ie_tr e ''service_setting_sudo'') sudo True,
       toggle ''macOS'' (ie_tr e ''service_setting_macos'') auth False]))"

definition Mac_ApplySetting :: "install_env \<Rightarrow> bool \<Rightarrow> ServiceSetting \<Rightarrow> unit install" where
  "Mac_ApplySetting e useDefault setting =
     (let isEnabled = (if useDefault then ss_defaultVal setting else ss_enabled setting) in
      if ss_id setting = ''sudo'' then SetConfigEntry (ie_trf e) ''sudo'' MAC_ENTRY isEnabled
      else if ss_id setting = ''macOS'' then SetConfigEntry (ie_trf e) ''authorization'' MAC_ENTRY isEnabled
      else return ())"

definition Mac_ApplySettings :: "install_env \<Rightarrow> ServiceSetting list \<Rightarrow> bool \<Rightarrow> unit install" where
  "Mac_ApplySettings e settings useDefault = each (Mac_ApplySetting e useDefault) settings"

definition Mac_IsInstalled :: "fs \<Rightarrow> bool" where
  "Mac_IsInstalled f \<longleftrightarrow> exists_path f EXE_PATH \<and> exists_path f (path_join MAC_MODULE_DIR MAC_MODULE_FILE)"

definition Mac_Install :: "install_env \<Rightarrow> unit install" where
  "Mac_Install e =
     seq_install (install_exe Apple e) (
     seq_install (logging ''Copying PAM module...'') (
     and_then (on_fs (\<lambda>f. CreateDir f MAC_MODULE_DIR)) (\<lambda>_.
     and_then (on_fs (\<lambda>f. WriteBytes f (path_join MAC_MODULE_DIR MAC_MODULE_FILE) (ie_resource e MAC_MODULE_FILE))) (\<lambda>ok.
     seq_install (check ok (ie_trf e ''error_file_write'' (path_join MAC_MODULE_DIR MAC_MODULE_FILE))) (
     logging ''Done.'')))))"

definition Mac_Uninstall :: "install_env \<Rightarrow> unit install" where
  "Mac_Uninstall e =
     seq_install (uninstall_exe e) (
     seq_install (logging ''Removing PAM module...'') (
     and_then (on_fs (\<lambda>f. RemoveFile f (path_join MAC_MODULE_DIR MAC_MODULE_FILE))) (\<lambda>ok.
     seq_install (check ok (ie_trf e ''error_file_remove'' (path_join MAC_MODULE_DIR MAC_MODULE_FILE))) (
     logging ''Done.''))))"

section \<open>Clearing the settings\<close>

lemma clear_copies_id: "clear_copies settings = settings"
  by (induction settings) simp_all

lemma seq_same: "f s = (Inr (), s) \<Longrightarrow> seq_install f g s = g s"
  by (simp add: and_then_def)

lemma return_apply: "return a s = (Inr a, s)"
  by (simp add: return_def)

text \<open>Nothing but the list of commands changes.\<close>

definition only_commands :: "'a install \<Rightarrow> install_state \<Rightarrow> bool" where
  "only_commands f s \<longleftrightarrow> (\<exists>a cs. f s = (Inr a, s\<lparr>is_cmds := is_cmds s @ cs\<rparr>))"

lemma only_commandsI: "f s = (Inr a, s\<lparr>is_cmds := is_cmds s @ cs\<rparr>) \<Longrightarrow> only_commands f s"
  unfolding only_commands_def by blast

lemma only_commands_return [intro]: "only_commands (return a) s"
  by (rule only_commandsI [where cs = "[]"]) (simp add: return_def)

lemma only_commands_run [intro]: "only_commands (run_ok pf e c) s"
  by (rule only_commandsI) (simp add: run_ok_def)

lemma only_commands_get [intro]: "only_commands (get_fs g) s"
  by (rule only_commandsI [where cs = "[]"]) (simp add: get_fs_def)

lemma only_commands_seq:
  assumes "only_commands f s" and "\<And>a cs. only_commands (g a) (s\<lparr>is_cmds := is_cmds s @ cs\<rparr>)"
  shows "only_commands (and_then f g) s"
proof -
  obtain a cs where f: "f s = (Inr a, s\<lparr>is_cmds := is_cmds s @ cs\<rparr>)" using assms(1) by (auto simp: only_commands_def)
  obtain b ds where "g a (s\<lparr>is_cmds := is_cmds s @ cs\<rparr>) = (Inr b, s\<lparr>is_cmds := is_cmds s @ cs @ ds\<rparr>)"
    using assms(2) [of a cs] by (auto simp: only_commands_def)
  with f show ?thesis by (intro only_commandsI [where cs = "cs @ ds"]) (simp add: and_then_def)
qed

lemma only_commands_installed [intro]: "only_commands (IsProgramInstalled e p) s"
  unfolding IsProgramInstalled_def by (rule only_commands_seq) auto

lemma only_commands_any [intro]: "only_commands (any_installed e ps) s"
proof (induction ps arbitrary: s)
  case (Cons p ps)
  then show ?case unfolding any_installed.simps by (intro only_commands_seq) auto
qed auto

lemma only_commands_if: "only_commands f s \<Longrightarrow> only_commands g s \<Longrightarrow> only_commands (if b then f else g) s"
  by simp

text \<open>The flags that \<open>GetSettings\<close> reports.\<close>

lemma Linux_GetSettings_flags:
  "\<exists>cs d1 d2 d3. Linux_GetSettings e s = (Inr [
     toggle ''sudo'' (ie_tr e ''service_setting_sudo'') (HasConfigEntry (is_fs s) ''sudo'' LINUX_ENTRY) d1,
     toggle ''polkit'' (ie_tr e ''service_setting_polkit'') (HasConfigEntry (is_fs s) ''polkit-1'' LINUX_ENTRY) d2,
     toggle ''login'' (ie_tr e ''service_setting_login_manager'')
       (list_ex (\<lambda>(p, config, entry). HasConfigEntry (is_fs s) config entry) login_managers) d3,
     toggle ''pamSetPassword'' (ie_tr e ''service_setting_pam_set_pw'') (as_unixSetPasswordPAM (is_settings s)) False],
     s\<lparr>is_cmds := is_cmds s @ cs\<rparr>)"
proof -
  obtain d3 cs1 where 1: "any_installed e (map fst login_managers) s = (Inr d3, s\<lparr>is_cmds := is_cmds s @ cs1\<rparr>)"
    using only_commands_any [of e _ s] unfolding only_commands_def by blast
  let ?s1 = "s\<lparr>is_cmds := is_cmds s @ cs1\<rparr>"
  obtain d1 cs2 where 2: "IsProgramInstalled e ''sudo'' ?s1 = (Inr d1, ?s1\<lparr>is_cmds := is_cmds ?s1 @ cs2\<rparr>)"
    using only_commands_installed [of e _ ?s1] unfolding only_commands_def by blast
  let ?s2 = "?s1\<lparr>is_cmds := is_cmds ?s1 @ cs2\<rparr>"
  obtain d2 cs3 where 3: "IsProgramInstalled e ''pkexec'' ?s2 = (Inr d2, ?s2\<lparr>is_cmds := is_cmds ?s2 @ cs3\<rparr>)"
    using only_commands_installed [of e _ ?s2] unfolding only_commands_def by blast
  show ?thesis using 1 2 3
    by (intro exI [of _ "cs1 @ cs2 @ cs3"] exI [of _ d1] exI [of _ d2] exI [of _ d3])
      (simp add: Linux_GetSettings_def and_then_def get_fs_def return_def)
qed

lemma login_same:
  assumes "\<forall>(p, config, entry) \<in> set ms. HasConfigEntry (is_fs s) config entry = b"
  shows "only_commands (each (\<lambda>(program, config, entry). and_then (IsProgramInstalled e program) (\<lambda>ok.
    if ok then SetConfigEntry tr config entry b else return ())) ms) s"
  using assms
proof (induction ms arbitrary: s)
  case (Cons m ms)
  obtain p config entry where m: "m = (p, config, entry)" by (cases m)
  have "only_commands (SetConfigEntry tr config entry b) t" if "is_fs t = is_fs s" for t
    using SetConfigEntry_same [of tr config entry t] Cons.prems m that
    by (intro only_commandsI [where cs = "[]"]) simp
  then have "only_commands (and_then (IsProgramInstalled e p) (\<lambda>ok. if ok then SetConfigEntry tr config entry b else return ())) s"
    by (intro only_commands_seq) auto
  moreover have "only_commands (each (\<lambda>(program, config, entry). and_then (IsProgramInstalled e program) (\<lambda>ok.
      if ok then SetConfigEntry tr config entry b else return ())) ms) (s\<lparr>is_cmds := is_cmds s @ cs\<rparr>)" for cs
    using Cons by simp
  ultimately show ?case unfolding m each.simps prod.case by (rule only_commands_seq)
qed auto

lemma Linux_clear:
  assumes "\<forall>(p, config, entry) \<in> set login_managers. HasConfigEntry (is_fs s) config entry = b"
    and "is_stored s = is_settings s"
  shows "only_commands (ClearSettings (Linux_GetSettings e) (Linux_ApplySettings e)) s"
proof -
  obtain cs d1 d2 d3 where g: "Linux_GetSettings e s = (Inr [
     toggle ''sudo'' (ie_tr e ''service_setting_sudo'') (HasConfigEntry (is_fs s) ''sudo'' LINUX_ENTRY) d1,
     toggle ''polkit'' (ie_tr e ''service_setting_polkit'') (HasConfigEntry (is_fs s) ''polkit-1'' LINUX_ENTRY) d2,
     toggle ''login'' (ie_tr e ''service_setting_login_manager'')
       (list_ex (\<lambda>(p, config, entry). HasConfigEntry (is_fs s) config entry) login_managers) d3,
     toggle ''pamSetPassword'' (ie_tr e ''service_setting_pam_set_pw'') (as_unixSetPasswordPAM (is_settings s)) False],
     s\<lparr>is_cmds := is_cmds s @ cs\<rparr>)" (is "_ = (Inr ?ss, ?s1)")
    using Linux_GetSettings_flags by blast
  have b: "list_ex (\<lambda>(p, config, entry). HasConfigEntry (is_fs s) config entry) login_managers = b"
    using assms by (simp add: login_managers_def)
  have keep: "SetConfigEntry tr n entry (HasConfigEntry (is_fs s) n entry) ?s1 = (Inr (), ?s1)" for tr n entry
    using SetConfigEntry_same [of tr n entry ?s1] by simp
  obtain r ds where l: "each (\<lambda>(program, config, entry). and_then (IsProgramInstalled e program) (\<lambda>ok.
      if ok then SetConfigEntry (ie_trf e) config entry b else return ())) login_managers ?s1 =
      (Inr r, ?s1\<lparr>is_cmds := is_cmds ?s1 @ ds\<rparr>)"
    using login_same [of login_managers ?s1 b e "ie_trf e"] assms by (auto simp: only_commands_def)
  have "save_settings (is_settings t) t = t" if "is_stored t = is_settings t" for t
    using that by (simp add: save_settings_def)
  then have "Linux_ApplySettings e ?ss False ?s1 = (Inr (), ?s1\<lparr>is_cmds := is_cmds ?s1 @ ds\<rparr>)"
    unfolding b using l keep assms(2)
    by (simp add: Linux_ApplySettings_def Linux_ApplySetting_def toggle_def and_then_def return_def)
  with g show ?thesis
    by (intro only_commandsI [where cs = "cs @ ds"]) (simp add: ClearSettings_def and_then_def clear_copies_id)
qed

text \<open>
  \<open>ClearSettings\<close>, which runs after the program was uninstalled, clears nothing: it turns off copies of the
  settings and applies the settings as they are, so the PAM files and the settings stay as they were (those handed
  out were those of the file), on macOS always and on Linux when the login files agree with each other.
\<close>

theorem clear_settings_noop:
  assumes "\<forall>(p, config, entry) \<in> set login_managers. HasConfigEntry (is_fs s) config entry = b"
    and "is_stored s = is_settings s"
  shows "ClearSettings (Mac_GetSettings e) (Mac_ApplySettings e) s = (Inr (), s) \<and>
    (\<exists>cs. ClearSettings (Linux_GetSettings e) (Linux_ApplySettings e) s = (Inr (), s\<lparr>is_cmds := is_cmds s @ cs\<rparr>))"
proof
  show "ClearSettings (Mac_GetSettings e) (Mac_ApplySettings e) s = (Inr (), s)"
    by (simp add: ClearSettings_def Mac_GetSettings_def and_then_def get_fs_def return_def clear_copies_id Mac_ApplySettings_def
        Mac_ApplySetting_def toggle_def SetConfigEntry_same)
  show "\<exists>cs. ClearSettings (Linux_GetSettings e) (Linux_ApplySettings e) s = (Inr (), s\<lparr>is_cmds := is_cmds s @ cs\<rparr>)"
    using Linux_clear [OF assms, of e] by (auto simp: only_commands_def)
qed

section \<open>Installing\<close>

lemma and_then_Inr: "and_then f g s = (Inr b, t) \<longleftrightarrow> (\<exists>a u. f s = (Inr a, u) \<and> g a u = (Inr b, t))"
  by (auto simp: and_then_def split: prod.split sum.split)

text \<open>Operations that leave the files they do not name alone.\<close>

definition keeps :: "(string \<Rightarrow> bool) \<Rightarrow> 'a install \<Rightarrow> bool" where
  "keeps P f \<longleftrightarrow> (\<forall>s a t p. f s = (a, t) \<longrightarrow> P p \<longrightarrow>
     fs_files (is_fs t) p = fs_files (is_fs s) p \<and> fs_dirs (is_fs t) p = fs_dirs (is_fs s) p)"

lemma keeps_seq: "keeps P f \<Longrightarrow> (\<And>a. keeps P (g a)) \<Longrightarrow> keeps P (and_then f g)"
  unfolding keeps_def and_then_def by (auto split: prod.splits sum.splits)

lemma keeps_basic [intro]:
  "keeps P (return a)" "keeps P (throw m)" "keeps P (logging m)" "keeps P (check b m)" "keeps P (get_fs h)"
  "keeps P (run_ok pf e c)" "(\<And>st. keeps P (k st)) \<Longrightarrow> keeps P (with_settings k)"
  by (simp_all add: keeps_def return_def throw_def logging_def check_def get_fs_def run_ok_def with_settings_def)

lemma keeps_write: "\<not> P q \<Longrightarrow> keeps P (on_fs (\<lambda>f. WriteBytes f q d))"
  by (auto simp: keeps_def on_fs_def WriteBytes_def split: option.splits)

lemma keeps_remove: "\<not> P q \<Longrightarrow> keeps P (on_fs (\<lambda>f. RemoveFile f q))"
  by (auto simp: keeps_def on_fs_def RemoveFile_def)

lemma keeps_mkdir: "\<not> P q \<Longrightarrow> keeps P (on_fs (\<lambda>f. CreateDir f q))"
  by (auto simp: keeps_def on_fs_def CreateDir_def)

lemma keeps_if: "keeps P f \<Longrightarrow> keeps P g \<Longrightarrow> keeps P (if b then f else g)"
  by simp

lemmas keeps_intros = keeps_seq keeps_basic keeps_write keeps_remove keeps_mkdir keeps_if

lemma keeps_installed: "keeps P (IsProgramInstalled e p)"
  unfolding IsProgramInstalled_def by (intro keeps_intros)

lemma keeps_chain: "keeps P (run_chain pf e cs)"
proof (induction cs)
  case (Cons c cs)
  then show ?case unfolding run_chain.simps by (intro keeps_intros)
qed auto

lemma keeps_firewall: "keeps P (firewall e program msg k n cmds)"
  unfolding firewall_def by (intro keeps_intros keeps_installed keeps_chain)

lemma keeps_selinux:
  "\<not> P SELINUX_TMP \<Longrightarrow> keeps P (selinux_install e)"
  "keeps P (selinux_uninstall e)"
  unfolding selinux_install_def selinux_uninstall_def by (intro keeps_intros keeps_installed; assumption)+

lemma keeps_module:
  "\<not> P (path_join d PAM_MODULE_FILE) \<Longrightarrow> keeps P (install_module e d)"
  "\<not> P (path_join d PAM_MODULE_FILE) \<Longrightarrow> keeps P (uninstall_module e d)"
  unfolding install_module_def uninstall_module_def by (intro keeps_intros; assumption)+

lemma keeps_exists:
  assumes "keeps P f" and "f s = (a, t)" and "P p"
  shows "exists_path (is_fs t) p = exists_path (is_fs s) p"
  using assms unfolding keeps_def exists_path_def by metis

lemmas module_paths = EXE_PATH_def SELINUX_TMP_def PAM_MODULE_FILE_def path_join_def

lemma keeps_modules:
  "\<not> P (path_join ''/lib/security'' PAM_MODULE_FILE) \<Longrightarrow> \<not> P (path_join ''/lib64/security'' PAM_MODULE_FILE) \<Longrightarrow>
   keeps P (each (install_module e) PAM_MODULE_DIRS) \<and> keeps P (each (uninstall_module e) PAM_MODULE_DIRS)"
  unfolding PAM_MODULE_DIRS_def each.simps by (intro conjI keeps_intros keeps_module; assumption)

lemma install_exe_done: "install_exe pf e s = (Inr (), t) \<Longrightarrow> exists_path (is_fs t) EXE_PATH"
  by (auto simp: install_exe_def and_then_Inr logging_def on_fs_def WriteBytes_def check_def throw_def return_def run_ok_def
      exists_path_def Let_def split: if_splits option.splits)

lemma install_module_done:
  "install_module e d s = (Inr (), t) \<Longrightarrow> exists_path (is_fs s) d \<Longrightarrow> exists_path (is_fs t) (path_join d PAM_MODULE_FILE)"
  by (auto simp: install_module_def and_then_Inr get_fs_def on_fs_def WriteBytes_def check_def throw_def return_def
      exists_path_def Let_def split: if_splits option.splits)

lemma install_modules_done:
  assumes "each (install_module e) PAM_MODULE_DIRS s = (Inr (), t)" and "\<exists>d \<in> set PAM_MODULE_DIRS. exists_path (is_fs s) d"
  shows "\<exists>d \<in> set PAM_MODULE_DIRS. exists_path (is_fs t) (path_join d PAM_MODULE_FILE)"
proof -
  let ?d1 = "''/lib/security''" and ?d2 = "''/lib64/security''"
  obtain u where u: "install_module e ?d1 s = (Inr (), u)" "install_module e ?d2 u = (Inr (), t)"
    using assms(1) by (auto simp: PAM_MODULE_DIRS_def and_then_Inr return_def)
  have k1: "keeps (\<lambda>p. p = ?d2) (install_module e ?d1)" by (rule keeps_module) (simp add: module_paths)
  have k2: "keeps (\<lambda>p. p = path_join ?d1 PAM_MODULE_FILE) (install_module e ?d2)" by (rule keeps_module) (simp add: module_paths)
  from assms(2) consider "exists_path (is_fs s) ?d1" | "exists_path (is_fs s) ?d2" by (auto simp: PAM_MODULE_DIRS_def)
  then show ?thesis
  proof cases
    case 1
    then show ?thesis using install_module_done [OF u(1)] keeps_exists [OF k2 u(2) refl] by (auto simp: PAM_MODULE_DIRS_def)
  next
    case 2
    then show ?thesis using install_module_done [OF u(2)] keeps_exists [OF k1 u(1) refl] by (auto simp: PAM_MODULE_DIRS_def)
  qed
qed

lemma IsInstalled_iff:
  "Linux_IsInstalled f PAM_MODULE_DIRS \<longleftrightarrow> exists_path f EXE_PATH \<and> (\<exists>d \<in> set PAM_MODULE_DIRS. exists_path f (path_join d PAM_MODULE_FILE))"
  by (auto simp: PAM_MODULE_DIRS_def)

lemma keeps_system:
  "\<not> P SELINUX_TMP \<Longrightarrow> keeps P (install_system e)"
  "keeps P (uninstall_system e)"
  unfolding install_system_def uninstall_system_def by (intro keeps_intros keeps_firewall keeps_selinux; assumption)+

lemma on_fs_fs: "is_fs (snd (on_fs f s)) = snd (f (is_fs s))"
  by (simp add: on_fs_def Let_def split: prod.split)

lemma Linux_Install_parts:
  assumes "Linux_Install e s = (Inr (), s')"
  shows "\<exists>s1 s2 s3. install_exe Linux e s = (Inr (), s1) \<and> is_fs s2 = snd (CreateDir (is_fs s1) ''/lib/security'') \<and>
    each (install_module e) PAM_MODULE_DIRS s2 = (Inr (), s3) \<and> install_system e s3 = (Inr (), s')"
proof -
  obtain s1 u s3 where "install_exe Linux e s = (Inr (), s1)"
    "on_fs (\<lambda>f. CreateDir f ''/lib/security'') (s1\<lparr>is_log := is_log s1 @ [''Copying PAM module...'']\<rparr>) = (Inr (fst u), snd u)"
    "each (install_module e) PAM_MODULE_DIRS (snd u) = (Inr (), s3)" "install_system e s3 = (Inr (), s')"
    using assms unfolding Linux_Install_def and_then_Inr logging_def by auto
  moreover from this(2) have "is_fs (snd u) = snd (CreateDir (is_fs s1) ''/lib/security'')"
    using on_fs_fs [of "\<lambda>f. CreateDir f ''/lib/security''" "s1\<lparr>is_log := is_log s1 @ [''Copying PAM module...'']\<rparr>"] by simp
  ultimately show ?thesis by blast
qed

lemma install_exe_fs:
  assumes "install_exe pf e s = (Inr (), t)"
  shows "fs_mkdir (is_fs t) = fs_mkdir (is_fs s) \<and> (\<forall>d \<in> set PAM_MODULE_DIRS. exists_path (is_fs t) d = exists_path (is_fs s) d)"
  using assms
  by (auto simp: install_exe_def and_then_Inr logging_def on_fs_def WriteBytes_def check_def throw_def return_def run_ok_def
      exists_path_def Let_def module_paths PAM_MODULE_DIRS_def split: if_splits option.splits)

lemma Linux_Install_installs:
  assumes "Linux_Install e s = (Inr (), s')"
    and "fs_mkdir (is_fs s) \<or> (\<exists>d \<in> set PAM_MODULE_DIRS. exists_path (is_fs s) d)"
  shows "Linux_IsInstalled (is_fs s') PAM_MODULE_DIRS"
proof -
  obtain s1 s2 s3 where p: "install_exe Linux e s = (Inr (), s1)" "is_fs s2 = snd (CreateDir (is_fs s1) ''/lib/security'')"
    "each (install_module e) PAM_MODULE_DIRS s2 = (Inr (), s3)" "install_system e s3 = (Inr (), s')"
    using Linux_Install_parts [OF assms(1)] by blast
  let ?M = "\<lambda>p. p \<noteq> SELINUX_TMP"
  have sys: "exists_path (is_fs s') q = exists_path (is_fs s3) q" if "q \<noteq> SELINUX_TMP" for q
    using keeps_exists [OF keeps_system(1) p(4), of ?M q] that by simp
  have exe: "exists_path (is_fs s2) EXE_PATH"
    using install_exe_done [OF p(1)] p(2) by (auto simp: CreateDir_def exists_path_def)
  have "exists_path (is_fs s3) EXE_PATH"
    using keeps_exists [OF conjunct1 [OF keeps_modules] p(3), of "\<lambda>p. p = EXE_PATH" EXE_PATH] exe by (simp add: module_paths)
  moreover have "\<exists>d \<in> set PAM_MODULE_DIRS. exists_path (is_fs s2) d"
    using install_exe_fs [OF p(1)] assms(2) p(2) by (auto simp: CreateDir_def exists_path_def PAM_MODULE_DIRS_def)
  ultimately show ?thesis
    using install_modules_done [OF p(3)] sys unfolding IsInstalled_iff by (auto simp: module_paths PAM_MODULE_DIRS_def)
qed

lemma Linux_Uninstall_removes:
  assumes "Linux_Uninstall e s = (Inr (), s')" and "\<not> fs_dirs (is_fs s) EXE_PATH"
  shows "\<not> Linux_IsInstalled (is_fs s') PAM_MODULE_DIRS"
proof -
  obtain s1 s2 s3 where p: "uninstall_exe e s = (Inr (), s1)" "is_fs s2 = is_fs s1"
    "each (uninstall_module e) PAM_MODULE_DIRS s2 = (Inr (), s3)" "uninstall_system e s3 = (Inr (), s')"
  proof -
    obtain t s3 where t: "uninstall_exe e s = (Inr (), t)"
      "each (uninstall_module e) PAM_MODULE_DIRS (t\<lparr>is_log := is_log t @ [''Removing PAM module...'']\<rparr>) = (Inr (), s3)"
      "uninstall_system e s3 = (Inr (), s')"
      using assms(1) unfolding Linux_Uninstall_def and_then_Inr logging_def by auto
    then show thesis by (intro that [OF t(1) _ t(2,3)]) simp
  qed
  have "\<not> exists_path (is_fs s1) EXE_PATH" using p(1) assms(2)
    by (auto simp: uninstall_exe_def and_then_Inr logging_def on_fs_def RemoveFile_def check_def throw_def return_def exists_path_def
        Let_def split: if_splits)
  then have "\<not> exists_path (is_fs s3) EXE_PATH"
    using keeps_exists [OF conjunct2 [OF keeps_modules] p(3), of "\<lambda>p. p = EXE_PATH" EXE_PATH] p(2) by (simp add: module_paths)
  then show ?thesis
    using keeps_exists [OF keeps_system(2) p(4), of "\<lambda>_. True" EXE_PATH] unfolding IsInstalled_iff by simp
qed

text \<open>
  Installation on Linux: when \<open>Install\<close> ends without an exception and one of the two module directories is there
  or can be made, the program is installed; when \<open>Uninstall\<close> does, it is not.
\<close>

theorem linux_install_uninstall:
  assumes "fs_mkdir (is_fs s) \<or> (\<exists>d \<in> set PAM_MODULE_DIRS. exists_path (is_fs s) d)" and "\<not> fs_dirs (is_fs s) EXE_PATH"
  shows "(Linux_Install e s = (Inr (), s') \<longrightarrow> Linux_IsInstalled (is_fs s') PAM_MODULE_DIRS) \<and>
    (Linux_Uninstall e s = (Inr (), s') \<longrightarrow> \<not> Linux_IsInstalled (is_fs s') PAM_MODULE_DIRS)"
  using Linux_Install_installs [OF _ assms(1)] Linux_Uninstall_removes [OF _ assms(2)] by blast

section \<open>Witnesses\<close>

definition demo_install :: install_state where
  "demo_install = \<lparr>is_fs = demo_fs\<lparr>fs_mkdir := True\<rparr>, is_log = [], is_cmds = [], is_settings = empty_storage,
     is_stored = empty_storage, is_writable = True\<rparr>"

definition demo_installer :: install_env where
  "demo_installer = \<lparr>ie_run = (\<lambda>_ _. \<lparr>pr_exit = 0, pr_stdout = [], pr_stderr = [], pr_output = []\<rparr>), ie_tr = (\<lambda>k. k),
     ie_trf = (\<lambda>k _. k), ie_resource = (\<lambda>_. [])\<rparr>"

lemma clear_settings_noop_witness:
  "ClearSettings (Mac_GetSettings demo_installer) (Mac_ApplySettings demo_installer) demo_install = (Inr (), demo_install)"
proof -
  have "\<forall>(p, config, entry) \<in> set login_managers. HasConfigEntry (is_fs demo_install) config entry = False"
    and "is_stored demo_install = is_settings demo_install"
    by (simp_all add: login_managers_def HasConfigEntry_def demo_install_def demo_fs_def exists_path_def)
  from clear_settings_noop [OF this] show ?thesis by blast
qed

lemma linux_install_uninstall_witness:
  "\<exists>s'. Linux_Install demo_installer demo_install = (Inr (), s') \<and> Linux_IsInstalled (is_fs s') PAM_MODULE_DIRS"
proof -
  obtain s' where run: "Linux_Install demo_installer demo_install = (Inr (), s')"
    by (simp add: Linux_Install_def install_exe_def install_module_def install_system_def firewall_def selinux_install_def
        with_settings_def and_then_def logging_def on_fs_def check_def return_def get_fs_def run_ok_def IsProgramInstalled_def
        ufw_commands_def firewalld_commands_def demo_installer_def demo_install_def demo_fs_def WriteBytes_def CreateDir_def RemoveFile_def
        RunCommand_def RunUserCommand_def exists_path_def module_paths PAM_MODULE_DIRS_def Let_def del: install_simps)
  have "fs_mkdir (is_fs demo_install)" "\<not> fs_dirs (is_fs demo_install) EXE_PATH"
    by (simp_all add: demo_install_def demo_fs_def)
  with linux_install_uninstall [of demo_install demo_installer s'] run show ?thesis by blast
qed

end
