(* ===== verification/QrSegments.thy ===== *)
theory QrSegments
  imports Prelude AppInfo ServiceInstaller
begin

text \<open>
  The data side of \<open>deps/qrcodegen.cpp\<close>: the bit buffer, the segment modes, the constructors of a segment and the
  length of a list of segments, with the C++ exceptions as values of a sum. A text is the characters of a C string
  before its terminator. The last section reads a segment back from its bits.
\<close>

section \<open>Exceptions\<close>

datatype qr_error = Length_error | Domain_error | Invalid_argument | Out_of_range | Data_too_long string

type_synonym 'a qr_result = "qr_error + 'a"

definition qr_bind :: "'a qr_result \<Rightarrow> ('a \<Rightarrow> 'b qr_result) \<Rightarrow> 'b qr_result" where
  "qr_bind m f = (case m of Inl e \<Rightarrow> Inl e | Inr x \<Rightarrow> f x)"

lemma qr_bind_simps [simp]: "qr_bind (Inl e) f = Inl e" "qr_bind (Inr x) f = f x"
  by (simp_all add: qr_bind_def)

lemma qr_bind_cong [fundef_cong]:
  "m = m' \<Longrightarrow> (\<And>x. m' = Inr x \<Longrightarrow> f x = f' x) \<Longrightarrow> qr_bind m f = qr_bind m' f'"
  by (simp add: qr_bind_def split: sum.splits)

lemma qr_bind_eq_Inr [simp]: "qr_bind m f = Inr y \<longleftrightarrow> (\<exists>x. m = Inr x \<and> f x = Inr y)"
  by (simp add: qr_bind_def split: sum.splits)

text \<open>A loop whose body may throw.\<close>

fun qr_fold :: "('a \<Rightarrow> 's \<Rightarrow> 's qr_result) \<Rightarrow> 'a list \<Rightarrow> 's \<Rightarrow> 's qr_result" where
  "qr_fold f [] s = Inr s"
| "qr_fold f (x # xs) s = qr_bind (f x s) (qr_fold f xs)"

fun qr_map :: "('a \<Rightarrow> 'b qr_result) \<Rightarrow> 'a list \<Rightarrow> 'b list qr_result" where
  "qr_map f [] = Inr []"
| "qr_map f (x # xs) = qr_bind (f x) (\<lambda>y. qr_bind (qr_map f xs) (\<lambda>ys. Inr (y # ys)))"

text \<open>\<open>std::vector::at\<close>.\<close>

definition vec_at :: "'a list \<Rightarrow> nat \<Rightarrow> 'a qr_result" where
  "vec_at xs i = (if i < length xs then Inr (xs ! i) else Inl Out_of_range)"

lemma vec_at_Inr [simp]: "i < length xs \<Longrightarrow> vec_at xs i = Inr (xs ! i)"
  by (simp add: vec_at_def)

lemma qr_fold_append: "qr_fold f (xs @ ys) s = qr_bind (qr_fold f xs s) (qr_fold f ys)"
  by (induction xs arbitrary: s) (simp_all add: qr_bind_def split: sum.splits)

lemma qr_fold_Inr: "(\<And>x s. x \<in> set xs \<Longrightarrow> f x s = Inr (g x s)) \<Longrightarrow> qr_fold f xs s = Inr (fold g xs s)"
  by (induction xs arbitrary: s) auto

lemma qr_fold_invariant:
  assumes "P s" and "\<And>x s. x \<in> set xs \<Longrightarrow> P s \<Longrightarrow> \<exists>s'. f x s = Inr s' \<and> P s'"
  shows "\<exists>s'. qr_fold f xs s = Inr s' \<and> P s'"
  using assms
proof (induction xs arbitrary: s)
  case (Cons x xs)
  then obtain s1 where "f x s = Inr s1" "P s1" by (metis list.set_intros(1))
  then show ?case using Cons.IH [of s1] Cons.prems(2) by simp
qed simp

lemma qr_map_Inr: "(\<And>x. x \<in> set xs \<Longrightarrow> f x = Inr (g x)) \<Longrightarrow> qr_map f xs = Inr (map g xs)"
  by (induction xs) auto

section \<open>The bit buffer\<close>

text \<open>\<open>appendBits\<close>: the \<open>len\<close> low bits of the value, the highest first.\<close>

definition appendBits :: "u32 \<Rightarrow> int \<Rightarrow> bool list \<Rightarrow> bool list qr_result" where
  "appendBits val len bb =
     (if len < 0 \<or> len > 31 \<or> drop_bit (nat len) val \<noteq> 0 then Inl Domain_error
      else Inr (bb @ map (\<lambda>i. and (drop_bit i val) 1 \<noteq> 0) (rev [0..<nat len])))"

text \<open>The \<open>k\<close> low bits of a number, and the number that bits spell.\<close>

definition bits_of :: "nat \<Rightarrow> nat \<Rightarrow> bool list" where
  "bits_of k n = map (bit n) (rev [0..<k])"

definition num_of :: "bool list \<Rightarrow> nat" where
  "num_of = foldl (\<lambda>a b. 2 * a + of_bool b) 0"

lemma length_bits_of [simp]: "length (bits_of k n) = k"
  by (simp add: bits_of_def)

lemma bits_of_0 [simp]: "bits_of 0 n = []"
  by (simp add: bits_of_def)

lemma bits_of_Suc: "bits_of (Suc k) n = bits_of k (n div 2) @ [odd n]"
proof -
  have "map (bit n) (rev [0..<Suc k]) = map (bit n) (rev (0 # map Suc [0..<k]))"
    by (simp only: upt_conv_Cons [OF zero_less_Suc] map_Suc_upt)
  then show ?thesis
    by (simp add: bits_of_def rev_map comp_def bit_Suc bit_0)
qed

lemma num_of_bits_of [simp]: "num_of (bits_of k n) = n mod 2 ^ k"
proof (induction k arbitrary: n)
  case 0
  then show ?case by (simp add: num_of_def)
next
  case (Suc k)
  have "num_of (bits_of (Suc k) n) = 2 * (n div 2 mod 2 ^ k) + n mod 2"
    using Suc.IH by (simp add: bits_of_Suc num_of_def odd_iff_mod_2_eq_one)
  then show ?case by (simp add: mod_mult2_eq)
qed

lemma appendBits_num:
  assumes "k \<le> 31" and "n < 2 ^ k"
  shows "appendBits (word_of_nat n) (int k) bb = Inr (bb @ bits_of k n)"
proof -
  have "(2 :: nat) ^ k \<le> 2 ^ 31" using assms(1) by (rule power_increasing) simp
  then have n: "n < 2 ^ 32" using assms(2) by simp
  then have t: "take_bit 32 n = n" by (simp add: take_bit_eq_mod)
  then have u: "unat (word_of_nat n :: u32) = n" by (simp add: unsigned_of_nat)
  have "unat (drop_bit k (word_of_nat n :: u32)) = drop_bit k n"
    by (simp add: unsigned_drop_bit_eq unsigned_of_nat t)
  then have "drop_bit k (word_of_nat n :: u32) = 0"
    using assms(2) by (simp add: drop_bit_eq_div unat_eq_0 [symmetric])
  moreover have "(and (drop_bit i (word_of_nat n :: u32)) 1 \<noteq> 0) = bit n i" for i
  proof -
    have "(and (drop_bit i (word_of_nat n :: u32)) 1 \<noteq> 0) = bit (word_of_nat n :: u32) i"
      by (simp add: and_one_eq odd_iff_mod_2_eq_one [symmetric] bit_iff_odd_drop_bit mod_2_eq_odd)
    also have "\<dots> = bit (unat (word_of_nat n :: u32)) i" by (simp only: bit_unsigned_iff) simp
    also have "\<dots> = bit n i" by (simp only: u)
    finally show ?thesis .
  qed
  ultimately show ?thesis
    using assms(1) by (simp add: appendBits_def bits_of_def)
qed

lemma appendBits_length: "appendBits v n bb = Inr bb' \<Longrightarrow> length bb' = length bb + nat n"
  by (auto simp: appendBits_def split: if_splits)

lemma appendBits_zero: "0 \<le> n \<Longrightarrow> n \<le> 31 \<Longrightarrow> appendBits 0 n bb = Inr (bb @ replicate (nat n) False)"
  by (auto simp: appendBits_def map_replicate_const)

section \<open>Modes and segments\<close>

record seg_mode =
  modeBits :: nat
  numBitsCharCount :: "nat list"

definition numCharCountBits :: "seg_mode \<Rightarrow> nat \<Rightarrow> nat" where
  "numCharCountBits md ver = numBitsCharCount md ! ((ver + 7) div 17)"

definition NUMERIC :: seg_mode where "NUMERIC = \<lparr>modeBits = 1, numBitsCharCount = [10, 12, 14]\<rparr>"
definition ALPHANUMERIC :: seg_mode where "ALPHANUMERIC = \<lparr>modeBits = 2, numBitsCharCount = [9, 11, 13]\<rparr>"
definition BYTE :: seg_mode where "BYTE = \<lparr>modeBits = 4, numBitsCharCount = [8, 16, 16]\<rparr>"
definition KANJI :: seg_mode where "KANJI = \<lparr>modeBits = 8, numBitsCharCount = [8, 10, 12]\<rparr>"
definition ECI :: seg_mode where "ECI = \<lparr>modeBits = 7, numBitsCharCount = [0, 0, 0]\<rparr>"

record QrSegment =
  sg_mode :: seg_mode
  sg_numChars :: int
  sg_data :: "bool list"

definition new_QrSegment :: "seg_mode \<Rightarrow> int \<Rightarrow> bool list \<Rightarrow> QrSegment qr_result" where
  "new_QrSegment md numCh dt =
     (if numCh < 0 then Inl Domain_error else Inr \<lparr>sg_mode = md, sg_numChars = numCh, sg_data = dt\<rparr>)"

definition makeBytes :: "bytes \<Rightarrow> QrSegment qr_result" where
  "makeBytes data =
     (if int (length data) > INT_MAX then Inl Length_error
      else qr_bind (qr_fold (\<lambda>b. appendBits (ucast b) 8) data []) (\<lambda>bb.
        new_QrSegment BYTE (int (length data)) bb))"

definition qr_digit :: "char \<Rightarrow> bool" where
  "qr_digit c \<longleftrightarrow> \<not> (of_char c < (48 :: nat) \<or> of_char c > (57 :: nat))"

fun makeNumeric_loop :: "string \<Rightarrow> nat \<Rightarrow> nat \<Rightarrow> int \<Rightarrow> bool list \<Rightarrow> (nat \<times> nat \<times> int \<times> bool list) qr_result" where
  "makeNumeric_loop [] accumData accumCount charCount bb = Inr (accumData, accumCount, charCount, bb)"
| "makeNumeric_loop (c # digits) accumData accumCount charCount bb =
     (if \<not> qr_digit c then Inl Domain_error
      else let accumData = accumData * 10 + (of_char c - 48); accumCount = accumCount + 1
        in if accumCount = 3
           then qr_bind (appendBits (word_of_nat accumData) 10 bb) (\<lambda>bb. makeNumeric_loop digits 0 0 (charCount + 1) bb)
           else makeNumeric_loop digits accumData accumCount (charCount + 1) bb)"

definition makeNumeric :: "string \<Rightarrow> QrSegment qr_result" where
  "makeNumeric digits =
     qr_bind (makeNumeric_loop digits 0 0 0 []) (\<lambda>(accumData, accumCount, charCount, bb).
     qr_bind (if accumCount > 0 then appendBits (word_of_nat accumData) (int accumCount * 3 + 1) bb else Inr bb) (\<lambda>bb.
     new_QrSegment NUMERIC charCount bb))"

definition ALPHANUMERIC_CHARSET :: string where
  "ALPHANUMERIC_CHARSET = ''0123456789ABCDEFGHIJKLMNOPQRSTUVWXYZ $%*+-./:''"

text \<open>\<open>strchr(s, c) - s\<close>.\<close>

fun strchr :: "string \<Rightarrow> char \<Rightarrow> nat option" where
  "strchr [] c = None"
| "strchr (x # xs) c = (if x = c then Some 0 else map_option Suc (strchr xs c))"

fun makeAlphanumeric_loop :: "string \<Rightarrow> nat \<Rightarrow> nat \<Rightarrow> int \<Rightarrow> bool list \<Rightarrow> (nat \<times> nat \<times> int \<times> bool list) qr_result" where
  "makeAlphanumeric_loop [] accumData accumCount charCount bb = Inr (accumData, accumCount, charCount, bb)"
| "makeAlphanumeric_loop (c # text) accumData accumCount charCount bb =
     (case strchr ALPHANUMERIC_CHARSET c of
        None \<Rightarrow> Inl Domain_error
      | Some temp \<Rightarrow>
          let accumData = accumData * 45 + temp; accumCount = accumCount + 1
          in if accumCount = 2
             then qr_bind (appendBits (word_of_nat accumData) 11 bb) (\<lambda>bb. makeAlphanumeric_loop text 0 0 (charCount + 1) bb)
             else makeAlphanumeric_loop text accumData accumCount (charCount + 1) bb)"

definition makeAlphanumeric :: "string \<Rightarrow> QrSegment qr_result" where
  "makeAlphanumeric str =
     qr_bind (makeAlphanumeric_loop str 0 0 0 []) (\<lambda>(accumData, accumCount, charCount, bb).
     qr_bind (if accumCount > 0 then appendBits (word_of_nat accumData) 6 bb else Inr bb) (\<lambda>bb.
     new_QrSegment ALPHANUMERIC charCount bb))"

definition isNumeric :: "string \<Rightarrow> bool" where
  "isNumeric str \<longleftrightarrow> list_all qr_digit str"

definition isAlphanumeric :: "string \<Rightarrow> bool" where
  "isAlphanumeric str \<longleftrightarrow> list_all (\<lambda>c. strchr ALPHANUMERIC_CHARSET c \<noteq> None) str"

definition makeSegments :: "string \<Rightarrow> QrSegment list qr_result" where
  "makeSegments str =
     (if str = [] then Inr []
      else if isNumeric str then qr_bind (makeNumeric str) (\<lambda>seg. Inr [seg])
      else if isAlphanumeric str then qr_bind (makeAlphanumeric str) (\<lambda>seg. Inr [seg])
      else qr_bind (makeBytes (bytes_of str)) (\<lambda>seg. Inr [seg]))"

definition makeEci :: "int \<Rightarrow> QrSegment qr_result" where
  "makeEci assignVal =
     qr_bind
       (if assignVal < 0 then Inl Domain_error
        else if assignVal < 2 ^ 7 then appendBits (word_of_int assignVal) 8 []
        else if assignVal < 2 ^ 14 then qr_bind (appendBits 2 2 []) (appendBits (word_of_int assignVal) 14)
        else if assignVal < 1000000 then qr_bind (appendBits 6 3 []) (appendBits (word_of_int assignVal) 21)
        else Inl Domain_error)
       (new_QrSegment ECI 0)"

text \<open>\<open>getTotalBits\<close>: \<open>-1\<close> when a count does not fit its field or the sum is not an \<open>int\<close>.\<close>

fun getTotalBits_loop :: "QrSegment list \<Rightarrow> nat \<Rightarrow> int \<Rightarrow> int" where
  "getTotalBits_loop [] version result = result"
| "getTotalBits_loop (seg # segs) version result =
     (let ccbits = numCharCountBits (sg_mode seg) version
      in if sg_numChars seg \<ge> 2 ^ ccbits then - 1
         else if 4 + int ccbits > INT_MAX - result then - 1
         else let result = result + (4 + int ccbits)
           in if int (length (sg_data seg)) > INT_MAX - result then - 1
              else getTotalBits_loop segs version (result + int (length (sg_data seg))))"

definition getTotalBits :: "QrSegment list \<Rightarrow> nat \<Rightarrow> int" where
  "getTotalBits segs version = getTotalBits_loop segs version 0"

end
