(* ===== verification/QrTables.thy ===== *)
theory QrTables
  imports QrSegments
begin

text \<open>
  The capacity of a QR code in \<open>deps/qrcodegen.cpp\<close>: its tables of constants, the number of modules and of codewords
  that hold data, and the facts about them the layout relies on, each for every version and every error correction
  level.
\<close>

section \<open>Levels and tables\<close>

datatype Ecc = LOW | MEDIUM | QUARTILE | HIGH

fun ecc_index :: "Ecc \<Rightarrow> nat" where
  "ecc_index LOW = 0"
| "ecc_index MEDIUM = 1"
| "ecc_index QUARTILE = 2"
| "ecc_index HIGH = 3"

fun getFormatBits :: "Ecc \<Rightarrow> int" where
  "getFormatBits LOW = 1"
| "getFormatBits MEDIUM = 0"
| "getFormatBits QUARTILE = 3"
| "getFormatBits HIGH = 2"

definition MIN_VERSION :: nat where "MIN_VERSION = 1"
definition MAX_VERSION :: nat where "MAX_VERSION = 40"

definition ECC_CODEWORDS_PER_BLOCK :: "int list list" where
  "ECC_CODEWORDS_PER_BLOCK =
    [[- 1, 7, 10, 15, 20, 26, 18, 20, 24, 30, 18, 20, 24, 26, 30, 22, 24, 28, 30, 28, 28, 28, 28, 30, 30, 26, 28, 30, 30, 30, 30, 30, 30, 30, 30, 30, 30, 30, 30, 30, 30],
     [- 1, 10, 16, 26, 18, 24, 16, 18, 22, 22, 26, 30, 22, 22, 24, 24, 28, 28, 26, 26, 26, 26, 28, 28, 28, 28, 28, 28, 28, 28, 28, 28, 28, 28, 28, 28, 28, 28, 28, 28, 28],
     [- 1, 13, 22, 18, 26, 18, 24, 18, 22, 20, 24, 28, 26, 24, 20, 30, 24, 28, 28, 26, 30, 28, 30, 30, 30, 30, 28, 30, 30, 30, 30, 30, 30, 30, 30, 30, 30, 30, 30, 30, 30],
     [- 1, 17, 28, 22, 16, 22, 28, 26, 26, 24, 28, 24, 28, 22, 24, 24, 30, 28, 28, 26, 28, 30, 24, 30, 30, 30, 30, 30, 30, 30, 30, 30, 30, 30, 30, 30, 30, 30, 30, 30, 30]]"

definition NUM_ERROR_CORRECTION_BLOCKS :: "int list list" where
  "NUM_ERROR_CORRECTION_BLOCKS =
    [[- 1, 1, 1, 1, 1, 1, 2, 2, 2, 2, 4, 4, 4, 4, 4, 6, 6, 6, 6, 7, 8, 8, 9, 9, 10, 12, 12, 12, 13, 14, 15, 16, 17, 18, 19, 19, 20, 21, 22, 24, 25],
     [- 1, 1, 1, 1, 2, 2, 4, 4, 4, 5, 5, 5, 8, 9, 9, 10, 10, 11, 13, 14, 16, 17, 17, 18, 20, 21, 23, 25, 26, 28, 29, 31, 33, 35, 37, 38, 40, 43, 45, 47, 49],
     [- 1, 1, 1, 2, 2, 4, 4, 6, 6, 8, 8, 8, 10, 12, 16, 12, 17, 16, 18, 21, 20, 23, 23, 25, 27, 29, 34, 34, 35, 38, 40, 43, 45, 48, 51, 53, 56, 59, 62, 65, 68],
     [- 1, 1, 1, 2, 4, 4, 4, 5, 6, 8, 8, 11, 11, 16, 16, 18, 16, 19, 21, 25, 25, 25, 34, 30, 32, 35, 37, 40, 42, 45, 48, 51, 54, 57, 60, 63, 66, 70, 74, 77, 81]]"

section \<open>Capacity\<close>

definition getNumRawDataModules :: "nat \<Rightarrow> nat qr_result" where
  "getNumRawDataModules ver =
     (if ver < MIN_VERSION \<or> ver > MAX_VERSION then Inl Domain_error
      else let result = (16 * ver + 128) * ver + 64
        in if ver \<ge> 2
           then let numAlign = ver div 7 + 2; result = result - ((25 * numAlign - 10) * numAlign - 55)
             in Inr (if ver \<ge> 7 then result - 36 else result)
           else Inr result)"

definition getNumDataCodewords :: "nat \<Rightarrow> Ecc \<Rightarrow> int qr_result" where
  "getNumDataCodewords ver ecl =
     qr_bind (getNumRawDataModules ver) (\<lambda>raw.
       Inr (int (raw div 8) - ECC_CODEWORDS_PER_BLOCK ! ecc_index ecl ! ver * NUM_ERROR_CORRECTION_BLOCKS ! ecc_index ecl ! ver))"

text \<open>The quantities of a version and a level.\<close>

definition raw_modules :: "nat \<Rightarrow> nat" where
  "raw_modules v = (16 * v + 128) * v + 64
     - (if v \<ge> 2 then (25 * (v div 7 + 2) - 10) * (v div 7 + 2) - 55 else 0) - (if v \<ge> 7 then 36 else 0)"

definition num_blocks :: "nat \<Rightarrow> Ecc \<Rightarrow> nat" where
  "num_blocks v ecl = nat (NUM_ERROR_CORRECTION_BLOCKS ! ecc_index ecl ! v)"

definition ecc_len :: "nat \<Rightarrow> Ecc \<Rightarrow> nat" where
  "ecc_len v ecl = nat (ECC_CODEWORDS_PER_BLOCK ! ecc_index ecl ! v)"

definition short_data :: "nat \<Rightarrow> Ecc \<Rightarrow> nat" where
  "short_data v ecl = raw_modules v div 8 div num_blocks v ecl - ecc_len v ecl"

definition num_short :: "nat \<Rightarrow> Ecc \<Rightarrow> nat" where
  "num_short v ecl = num_blocks v ecl - raw_modules v div 8 mod num_blocks v ecl"

definition data_codewords :: "nat \<Rightarrow> Ecc \<Rightarrow> nat" where
  "data_codewords v ecl = num_short v ecl * short_data v ecl + (num_blocks v ecl - num_short v ecl) * (short_data v ecl + 1)"

lemma version_cases:
  assumes "1 \<le> v" and "v \<le> 40"
  shows "v \<in> {1, 2, 3, 4, 5, 6, 7, 8, 9, 10, 11, 12, 13, 14, 15, 16, 17, 18, 19, 20,
    21, 22, 23, 24, 25, 26, 27, 28, 29, 30, 31, 32, 33, 34, 35, 36, 37, 38, 39, 40 :: nat}"
  using assms unfolding insert_iff empty_iff by presburger

lemma raw_modules_eq: "1 \<le> v \<Longrightarrow> v \<le> 40 \<Longrightarrow> getNumRawDataModules v = Inr (raw_modules v)"
  by (auto simp: getNumRawDataModules_def raw_modules_def MIN_VERSION_def MAX_VERSION_def Let_def)

lemma getNumRawDataModules_range: "getNumRawDataModules v = Inr n \<Longrightarrow> 1 \<le> v \<and> v \<le> 40 \<and> n = raw_modules v"
  by (cases "1 \<le> v \<and> v \<le> 40") (auto simp: raw_modules_eq, auto simp: getNumRawDataModules_def MIN_VERSION_def MAX_VERSION_def)

text \<open>
  What the layout needs of the number of blocks \<open>nb\<close> and the codewords \<open>el\<close> for error correction of a block, checked along
  the rows of the tables.
\<close>

definition layout_ok :: "nat \<Rightarrow> int \<Rightarrow> int \<Rightarrow> bool" where
  "layout_ok raw nb el \<longleftrightarrow> 0 < nb \<and> 7 \<le> el \<and> el \<le> 30 \<and> nat el < raw div 8 div nat nb"

fun row_ok :: "nat \<Rightarrow> int list \<Rightarrow> int list \<Rightarrow> bool" where
  "row_ok v (nb # nbs) (el # els) \<longleftrightarrow> layout_ok (raw_modules v) nb el \<and> row_ok (v + 1) nbs els"
| "row_ok v _ _ \<longleftrightarrow> True"

lemma row_okD: "row_ok v nbs els \<Longrightarrow> k < length nbs \<Longrightarrow> k < length els \<Longrightarrow> layout_ok (raw_modules (v + k)) (nbs ! k) (els ! k)"
proof (induction v nbs els arbitrary: k rule: row_ok.induct)
  case (1 v nb nbs el els)
  then show ?case by (cases k) auto
qed auto

lemma rows_ok: "row_ok 1 (tl (NUM_ERROR_CORRECTION_BLOCKS ! ecc_index ecl)) (tl (ECC_CODEWORDS_PER_BLOCK ! ecc_index ecl))"
  by (cases ecl) (simp_all add: ECC_CODEWORDS_PER_BLOCK_def NUM_ERROR_CORRECTION_BLOCKS_def layout_ok_def raw_modules_def)

lemma rows_length:
  "length (NUM_ERROR_CORRECTION_BLOCKS ! ecc_index ecl) = 41" "length (ECC_CODEWORDS_PER_BLOCK ! ecc_index ecl) = 41"
  by (cases ecl; simp add: ECC_CODEWORDS_PER_BLOCK_def NUM_ERROR_CORRECTION_BLOCKS_def)+

lemma layout_at:
  assumes "1 \<le> v" and "v \<le> 40"
  shows "layout_ok (raw_modules v) (NUM_ERROR_CORRECTION_BLOCKS ! ecc_index ecl ! v) (ECC_CODEWORDS_PER_BLOCK ! ecc_index ecl ! v)"
proof -
  have "tl xs ! (v - 1) = xs ! v" if "length xs = 41" for xs :: "int list"
    using that assms by (simp add: nth_tl)
  then show ?thesis
    using row_okD [OF rows_ok, of "v - 1" ecl] assms by (simp add: rows_length)
qed

lemma table_facts:
  assumes "1 \<le> v" and "v \<le> 40"
  shows "NUM_ERROR_CORRECTION_BLOCKS ! ecc_index ecl ! v = int (num_blocks v ecl)" "ECC_CODEWORDS_PER_BLOCK ! ecc_index ecl ! v = int (ecc_len v ecl)"
    and "0 < num_blocks v ecl" "7 \<le> ecc_len v ecl" "ecc_len v ecl \<le> 30" "ecc_len v ecl < raw_modules v div 8 div num_blocks v ecl"
  using layout_at [OF assms, of ecl] by (simp_all add: layout_ok_def num_blocks_def ecc_len_def nat_le_iff le_nat_iff)

lemma codewords_split:
  assumes "1 \<le> v" and "v \<le> 40"
  shows "raw_modules v div 8 = data_codewords v ecl + num_blocks v ecl * ecc_len v ecl"
    and "num_short v ecl \<le> num_blocks v ecl" "0 < num_short v ecl"
    and "short_data v ecl + ecc_len v ecl = raw_modules v div 8 div num_blocks v ecl"
proof -
  note t = table_facts [OF assms, of ecl]
  let ?n = "num_blocks v ecl" and ?raw = "raw_modules v div 8" and ?e = "ecc_len v ecl"
  show "num_short v ecl \<le> ?n" "0 < num_short v ecl" using t by (simp_all add: num_short_def)
  show s: "short_data v ecl + ?e = ?raw div ?n" using t by (simp add: short_data_def)
  have m: "?raw mod ?n < ?n" using t by simp
  then have "?raw = ?n * (short_data v ecl + ?e) + ?raw mod ?n" by (simp add: s)
  moreover have "data_codewords v ecl = ?n * short_data v ecl + ?raw mod ?n"
    using m by (simp add: data_codewords_def num_short_def algebra_simps diff_mult_distrib)
  ultimately show "?raw = data_codewords v ecl + ?n * ?e" by (simp add: algebra_simps)
qed

lemma raw_modules_range: "1 \<le> v \<Longrightarrow> v \<le> 40 \<Longrightarrow> 208 \<le> raw_modules v \<and> raw_modules v \<le> 29648"
  using version_cases [of v] by (auto simp: raw_modules_def)

lemma data_codewords_eq:
  assumes "1 \<le> v" and "v \<le> 40"
  shows "getNumDataCodewords v ecl = Inr (int (data_codewords v ecl))"
  using table_facts [OF assms, of ecl] codewords_split [OF assms, of ecl] assms
  by (simp add: getNumDataCodewords_def raw_modules_eq mult.commute)

end
