(* ===== verification/QrField.thy ===== *)
theory QrField
  imports QrSegments
begin

text \<open>
  The error correction of \<open>deps/qrcodegen.cpp\<close>: the product of two bytes in the field GF(256) of the polynomial
  0x11D, the generator polynomial, and the remainder that is appended to a block. The product is the carry-less product
  of the bytes reduced by the polynomial; the bytes with it and exclusive or are a commutative ring; and a block with
  its remainder vanishes at every root of the generator, which is what a decoder relies on.
\<close>

section \<open>The code\<close>

text \<open>\<open>reedSolomonMultiply\<close>: \<open>z\<close> is an \<open>int\<close> of the source.\<close>

definition rs_multiply_step :: "u8 \<Rightarrow> u8 \<Rightarrow> nat \<Rightarrow> int \<Rightarrow> int" where
  "rs_multiply_step x y i z =
     (let z = xor (push_bit 1 z) (drop_bit 7 z * 0x11D)
      in xor z (and (drop_bit i (uint y)) 1 * uint x))"

definition reedSolomonMultiply :: "u8 \<Rightarrow> u8 \<Rightarrow> u8" where
  "reedSolomonMultiply x y = word_of_int (fold (rs_multiply_step x y) (rev [0..<8]) 0)"

text \<open>One factor \<open>x - root\<close> is multiplied into the coefficients, in place and from the highest power on.\<close>

definition rs_divisor_step :: "u8 \<Rightarrow> nat \<Rightarrow> bytes \<Rightarrow> bytes" where
  "rs_divisor_step root j result =
     (let result = result[j := reedSolomonMultiply (result ! j) root]
      in if j + 1 < length result then result[j := xor (result ! j) (result ! (j + 1))] else result)"

definition reedSolomonComputeDivisor :: "int \<Rightarrow> bytes qr_result" where
  "reedSolomonComputeDivisor degree =
     (if degree < 1 \<or> degree > 255 then Inl Domain_error
      else let result = (replicate (nat degree) 0)[nat degree - 1 := 1]
        in Inr (fst (fold (\<lambda>_ (result, root). (fold (rs_divisor_step root) [0..<length result] result, reedSolomonMultiply root 2))
             [0..<nat degree] (result, 1))))"

text \<open>Long division, one byte of the data at a time.\<close>

definition rs_remainder_step :: "bytes \<Rightarrow> u8 \<Rightarrow> bytes \<Rightarrow> bytes qr_result" where
  "rs_remainder_step divisor b result =
     qr_bind (vec_at result 0) (\<lambda>r0.
       let factor = xor b r0; result = tl result @ [0]
       in qr_map (\<lambda>i. qr_bind (vec_at divisor i) (\<lambda>d. Inr (xor (result ! i) (reedSolomonMultiply d factor)))) [0..<length result])"

definition reedSolomonComputeRemainder :: "bytes \<Rightarrow> bytes \<Rightarrow> bytes qr_result" where
  "reedSolomonComputeRemainder data divisor =
     qr_fold (rs_remainder_step divisor) data (replicate (length divisor) 0)"

section \<open>The product on bytes\<close>

definition xt :: "u8 \<Rightarrow> u8" where
  "xt z = xor (push_bit 1 z) (if bit z 7 then 0x1D else 0)"

definition rs_step :: "u8 \<Rightarrow> u8 \<Rightarrow> nat \<Rightarrow> u8 \<Rightarrow> u8" where
  "rs_step x y i z = xor (xt z) (if bit y i then x else 0)"

lemma every_byte:
  assumes "list_all (\<lambda>n. P (word_of_nat n :: u8)) [0..<256]"
  shows "P w"
proof -
  have "unat w < 256" using unsigned_less [of w] by simp
  then have "P (word_of_nat (unat w))" using assms unfolding list_all_iff by (metis atLeast0LessThan lessThan_iff set_upt)
  then show ?thesis by simp
qed

lemma xt_int: "xor (push_bit 1 (uint w)) (drop_bit 7 (uint w) * 0x11D) = uint (xt w)"
  by (rule every_byte [where P = "\<lambda>w. xor (push_bit 1 (uint w)) (drop_bit 7 (uint w) * 0x11D) = uint (xt w)"]) code_simp

lemma rs_multiply_step_int: "rs_multiply_step x y i (uint z) = uint (rs_step x y i z)"
proof -
  have "and (drop_bit i (uint y)) 1 = (of_bool (bit y i) :: int)"
    by (simp add: and_one_eq mod_2_eq_odd bit_iff_odd_drop_bit [symmetric] bit_uint_iff) (auto dest: bit_imp_le_length)
  then show ?thesis by (simp add: rs_multiply_step_def rs_step_def xt_int [simplified] unsigned_xor_eq)
qed

lemma rs_multiply_fold: "fold (rs_multiply_step x y) is (uint z) = uint (fold (rs_step x y) is z)"
  by (induction "is" arbitrary: z) (simp_all add: rs_multiply_step_int)

lemma reedSolomonMultiply_eq: "reedSolomonMultiply x y = fold (rs_step x y) (rev [0..<8]) 0"
  using rs_multiply_fold [of x y "rev [0..<8]" 0] by (simp add: reedSolomonMultiply_def del: upt_rec_numeral)

text \<open>The assertion at the end of the loop: the product fits a byte.\<close>

lemma rs_multiply_fits: "drop_bit 8 (fold (rs_multiply_step x y) (rev [0..<8]) 0) = 0"
proof -
  have "fold (rs_multiply_step x y) (rev [0..<8]) 0 = uint (reedSolomonMultiply x y)"
    using rs_multiply_fold [of x y "rev [0..<8]" 0] by (simp add: reedSolomonMultiply_eq del: upt_rec_numeral)
  then show ?thesis
    using uint_bounded [of "reedSolomonMultiply x y"] by (simp add: drop_bit_eq_div)
qed

section \<open>The ring of bytes\<close>

definition additive :: "(u8 \<Rightarrow> 'a::semiring_bit_operations) \<Rightarrow> bool" where
  "additive f \<longleftrightarrow> (\<forall>a b. f (xor a b) = xor (f a) (f b))"

lemma additiveD: "additive f \<Longrightarrow> f (xor a b) = xor (f a) (f b)"
  by (simp add: additive_def)

lemma additive_0: "additive f \<Longrightarrow> f 0 = (0 :: 'a::semiring_bit_operations)"
proof -
  assume "additive f"
  then have "f 0 = xor (f 0) (f 0)" using additiveD [of f 0 0] by simp
  then show ?thesis by (simp add: bit_eq_iff bit_simps)
qed

lemma xor_cancel [simp]: "xor x (xor x y) = (y :: u8)"
  by (simp flip: xor.assoc)

lemma xor_eq_0: "xor x y = 0 \<Longrightarrow> y = (x :: u8)"
  by (metis xor_cancel xor.right_neutral)

lemma xt_0 [simp]: "xt 0 = 0"
  by (simp add: xt_def)

lemma additive_xt: "additive xt"
proof -
  have "xt (xor a b) = xor (xt a) (xt b)" for a b
    by (cases "bit a 7"; cases "bit b 7")
      (simp_all add: xt_def push_bit_xor bit_xor_iff ac_simps del: push_bit_Suc One_nat_def)
  then show ?thesis by (simp add: additive_def)
qed

lemma additive_funpow: "additive (f :: u8 \<Rightarrow> u8) \<Longrightarrow> additive (f ^^ n)"
  by (induction n) (simp_all add: additive_def)

text \<open>The powers of the generator up to the seventh are a basis.\<close>

definition gen_pow :: "nat \<Rightarrow> u8" where
  "gen_pow i = (xt ^^ i) 1"

lemma gen_pow_values:
  "gen_pow 0 = 1" "gen_pow (Suc 0) = 2" "gen_pow 2 = 4" "gen_pow 3 = 8" "gen_pow 4 = 16"
  "gen_pow 5 = 32" "gen_pow 6 = 64" "gen_pow 7 = 128" "gen_pow 8 = 29" "gen_pow 9 = 58"
  "gen_pow 10 = 116" "gen_pow 11 = 232" "gen_pow 12 = 205" "gen_pow 13 = 135" "gen_pow 14 = 19"
proof -
  have table: "map gen_pow [0..<15] = [1, 2, 4, 8, 16, 32, 64, 128, 29, 58, 116, 232, 205, 135, 19]" by code_simp
  have at: "gen_pow k = [1, 2, 4, 8, 16, 32, 64, 128, 29, 58, 116, 232, 205, 135, 19] ! k" if "k < 15" for k
    using that unfolding table [symmetric] by (simp del: upt_rec_numeral)
  show "gen_pow 0 = 1" "gen_pow (Suc 0) = 2" "gen_pow 2 = 4" "gen_pow 3 = 8" "gen_pow 4 = 16"
    "gen_pow 5 = 32" "gen_pow 6 = 64" "gen_pow 7 = 128" "gen_pow 8 = 29" "gen_pow 9 = 58"
    "gen_pow 10 = 116" "gen_pow 11 = 232" "gen_pow 12 = 205" "gen_pow 13 = 135" "gen_pow 14 = 19"
    using at by simp_all
qed

lemma gen_pow_small: "i < 8 \<Longrightarrow> gen_pow i = 2 ^ i"
proof -
  assume "i < 8"
  then have "i = 0 \<or> i = 1 \<or> i = 2 \<or> i = 3 \<or> i = 4 \<or> i = 5 \<or> i = 6 \<or> i = 7" by presburger
  then show ?thesis by (elim disjE) (simp_all add: gen_pow_values)
qed

lemma byte_basis: "(y :: u8) = fold (\<lambda>i z. xor z (if bit y i then gen_pow i else 0)) [0..<8] 0"
proof -
  have "fold (\<lambda>i z. xor z (if bit y i then push_bit i 1 else 0)) [0..<k] 0 = take_bit k y" for k
  proof (induction k)
    case (Suc k)
    have "take_bit (Suc k) y = xor (take_bit k y) (if bit y k then push_bit k 1 else 0)"
      by (rule bit_word_eqI) (auto simp: bit_simps less_Suc_eq)
    then show ?case using Suc by simp
  qed simp
  moreover have take_bit_8: "take_bit 8 y = y"
    by (rule bit_word_eqI) (auto simp: bit_simps)
  ultimately have "y = fold (\<lambda>i z. xor z (if bit y i then push_bit i 1 else 0)) [0..<8] 0"
    by (simp only: take_bit_8)
  also have "\<dots> = fold (\<lambda>i z. xor z (if bit y i then gen_pow i else 0)) [0..<8] 0"
    by (rule fold_cong) (auto simp: gen_pow_small)
  finally show ?thesis .
qed

lemma additive_basis:
  assumes "additive f"
  shows "f y = fold (\<lambda>i z. xor z (if bit y i then f (gen_pow i) else 0)) [0..<8] 0"
proof -
  have "f (fold (\<lambda>i z. xor z (if bit y i then gen_pow i else 0)) is z)
      = fold (\<lambda>i z. xor z (if bit y i then f (gen_pow i) else 0)) is (f z)" for "is" z
    by (induction "is" arbitrary: z) (simp_all add: additiveD [OF assms] additive_0 [OF assms])
  from this [of "[0..<8]" 0] show ?thesis
    by (simp only: byte_basis [symmetric] additive_0 [OF assms])
qed

lemma additive_eqI:
  assumes "additive f" and "additive g" and "\<And>i. i < 8 \<Longrightarrow> f (gen_pow i) = g (gen_pow i)"
  shows "f y = g y"
proof -
  have "fold (\<lambda>i z. xor z (if bit y i then f (gen_pow i) else 0)) [0..<8] 0
      = fold (\<lambda>i z. xor z (if bit y i then g (gen_pow i) else 0)) [0..<8] 0"
    by (rule fold_cong) (use assms(3) in auto)
  then show ?thesis using additive_basis [OF assms(1), of y] additive_basis [OF assms(2), of y] by metis
qed

lemma rs_step_additive:
  "rs_step x (xor y y') i (xor z z') = xor (rs_step x y i z) (rs_step x y' i z')"
  "rs_step (xor x x') y i (xor z z') = xor (rs_step x y i z) (rs_step x' y i z')"
  "rs_step (xt x) y i (xt z) = xt (rs_step x y i z)"
proof -
  note xt_add = additiveD [OF additive_xt]
  show "rs_step x (xor y y') i (xor z z') = xor (rs_step x y i z) (rs_step x y' i z')"
    by (cases "bit y i"; cases "bit y' i") (simp_all add: rs_step_def xt_add bit_xor_iff ac_simps)
  show "rs_step (xor x x') y i (xor z z') = xor (rs_step x y i z) (rs_step x' y i z')"
    by (simp add: rs_step_def xt_add ac_simps)
  show "rs_step (xt x) y i (xt z) = xt (rs_step x y i z)"
    by (simp add: rs_step_def xt_add)
qed

lemma mult_additive_right: "additive (reedSolomonMultiply x)"
proof -
  have "fold (rs_step x (xor y y')) is (xor z z') = xor (fold (rs_step x y) is z) (fold (rs_step x y') is z')" for "is" y y' z z'
    by (induction "is" arbitrary: z z') (simp_all add: rs_step_additive)
  from this [of _ _ "rev [0..<8]" 0 0] show ?thesis
    by (simp add: additive_def reedSolomonMultiply_eq del: upt_rec_numeral)
qed

lemma mult_additive_left: "additive (\<lambda>x. reedSolomonMultiply x y)"
proof -
  have "fold (rs_step (xor x x') y) is (xor z z') = xor (fold (rs_step x y) is z) (fold (rs_step x' y) is z')" for "is" x x' z z'
    by (induction "is" arbitrary: z z') (simp_all add: rs_step_additive)
  from this [of _ _ "rev [0..<8]" 0 0] show ?thesis
    by (simp add: additive_def reedSolomonMultiply_eq del: upt_rec_numeral)
qed

lemma mult_xt_left: "reedSolomonMultiply (xt x) y = xt (reedSolomonMultiply x y)"
proof -
  have "fold (rs_step (xt x) y) is (xt z) = xt (fold (rs_step x y) is z)" for "is" z
    by (induction "is" arbitrary: z) (simp_all add: rs_step_additive)
  from this [of "rev [0..<8]" 0] show ?thesis
    by (simp add: reedSolomonMultiply_eq del: upt_rec_numeral)
qed

lemma mult_1_right [simp]: "reedSolomonMultiply x 1 = x"
proof -
  have "rev [0..<8] = [7, 6, 5, 4, 3, 2, 1, 0 :: nat]" by code_simp
  then show ?thesis by (simp add: reedSolomonMultiply_eq rs_step_def bit_1_iff del: upt_rec_numeral)
qed

lemma mult_funpow_left: "reedSolomonMultiply ((xt ^^ i) x) y = (xt ^^ i) (reedSolomonMultiply x y)"
  by (induction i) (simp_all add: mult_xt_left)

lemma mult_gen_pow_left: "reedSolomonMultiply (gen_pow i) y = (xt ^^ i) (reedSolomonMultiply 1 y)"
  by (simp add: gen_pow_def mult_funpow_left)

lemma xt_gen_pow: "(xt ^^ j) (gen_pow i) = (xt ^^ i) (gen_pow j)"
proof -
  have "(xt ^^ (j + i)) 1 = (xt ^^ (i + j)) 1" by (simp only: add.commute)
  then show ?thesis by (simp only: funpow_add comp_apply gen_pow_def)
qed

lemma mult_basis: "i < 8 \<Longrightarrow> reedSolomonMultiply x (gen_pow i) = (xt ^^ i) x"
proof -
  have list: "rev [0..<8] = [7, 6, 5, 4, 3, 2, 1, 0 :: nat]" by code_simp
  assume "i < 8"
  then have "i = 0 \<or> i = 1 \<or> i = 2 \<or> i = 3 \<or> i = 4 \<or> i = 5 \<or> i = 6 \<or> i = 7" by presburger
  then have one: "reedSolomonMultiply 1 (gen_pow i) = gen_pow i"
    by (elim disjE) (simp_all add: gen_pow_values reedSolomonMultiply_eq list rs_step_def xt_def bit_0 del: upt_rec_numeral)
  have "reedSolomonMultiply (gen_pow j) (gen_pow i) = (xt ^^ i) (gen_pow j)" for j
    unfolding mult_gen_pow_left one by (rule xt_gen_pow)
  then show ?thesis
    by (rule additive_eqI [OF mult_additive_left additive_funpow [OF additive_xt]])
qed

lemma mult_comm: "reedSolomonMultiply x y = reedSolomonMultiply y x"
proof (rule additive_eqI [where f = "reedSolomonMultiply x" and g = "\<lambda>y. reedSolomonMultiply y x"])
  show "reedSolomonMultiply x (gen_pow i) = reedSolomonMultiply (gen_pow i) x" if "i < 8" for i
    by (rule additive_eqI [where f = "\<lambda>x. reedSolomonMultiply x (gen_pow i)" and g = "reedSolomonMultiply (gen_pow i)"])
      (use that in \<open>simp_all add: mult_additive_left mult_additive_right additive_funpow additive_xt mult_basis xt_gen_pow [of _ i]\<close>)
qed (simp_all add: mult_additive_left mult_additive_right)

lemma mult_1_left [simp]: "reedSolomonMultiply 1 x = x"
  using mult_comm [of 1 x] by simp

lemma mult_0 [simp]: "reedSolomonMultiply x 0 = 0" "reedSolomonMultiply 0 x = 0"
  using additive_0 [OF mult_additive_right] additive_0 [OF mult_additive_left] by auto

lemma mult_distrib:
  "reedSolomonMultiply x (xor y z) = xor (reedSolomonMultiply x y) (reedSolomonMultiply x z)"
  "reedSolomonMultiply (xor x y) z = xor (reedSolomonMultiply x z) (reedSolomonMultiply y z)"
  using additiveD [OF mult_additive_right] additiveD [OF mult_additive_left] by auto

lemma mult_assoc: "reedSolomonMultiply (reedSolomonMultiply x y) z = reedSolomonMultiply x (reedSolomonMultiply y z)"
proof (rule additive_eqI [where f = "reedSolomonMultiply (reedSolomonMultiply x y)" and g = "\<lambda>z. reedSolomonMultiply x (reedSolomonMultiply y z)"])
  show "additive (\<lambda>z. reedSolomonMultiply x (reedSolomonMultiply y z))"
    by (simp add: additive_def mult_distrib)
  have right: "reedSolomonMultiply a ((xt ^^ i) b) = (xt ^^ i) (reedSolomonMultiply a b)" for a b i
    using mult_funpow_left [of i b a] by (simp only: mult_comm [of a])
  show "reedSolomonMultiply (reedSolomonMultiply x y) (gen_pow i) = reedSolomonMultiply x (reedSolomonMultiply y (gen_pow i))" if "i < 8" for i
    using that by (simp add: mult_basis right)
qed (rule mult_additive_right)

section \<open>Carry-less multiplication\<close>

text \<open>
  The reference: numbers as polynomials over GF(2), their product, and the remainder of a product of two bytes by the
  polynomial 0x11D.
\<close>

fun clmul :: "nat \<Rightarrow> nat \<Rightarrow> nat" where
  "clmul a b = (if b = 0 then 0 else xor (if odd b then a else 0) (push_bit 1 (clmul a (b div 2))))"

declare clmul.simps [simp del]

definition poly_mod_step :: "nat \<Rightarrow> nat \<Rightarrow> nat" where
  "poly_mod_step i n = (if bit n i then xor n (push_bit (i - 8) 0x11D) else n)"

definition poly_mod :: "nat \<Rightarrow> nat" where
  "poly_mod n = fold poly_mod_step (rev [8..<15]) n"

lemma xor_nat_cancel [simp]: "xor x (xor x y) = (y :: nat)"
  by (simp flip: xor.assoc)

lemma poly_mod_step_xor: "poly_mod_step i (xor a b) = xor (poly_mod_step i a) (poly_mod_step i b)"
  by (cases "bit a i"; cases "bit b i") (simp_all add: poly_mod_step_def bit_xor_iff ac_simps)

lemma poly_mod_xor: "poly_mod (xor a b) = xor (poly_mod a) (poly_mod b)"
proof -
  have "fold poly_mod_step is (xor a b) = xor (fold poly_mod_step is a) (fold poly_mod_step is b)" for "is"
    by (induction "is" arbitrary: a b) (simp_all add: poly_mod_step_xor)
  then show ?thesis by (simp add: poly_mod_def del: upt_rec_numeral)
qed

lemma xor_div_2: "xor a b div 2 = xor (a div 2) (b div (2 :: nat))"
  using drop_bit_xor [of 1 a b] by (simp add: drop_bit_eq_div)

lemma clmul_0 [simp]: "clmul a 0 = 0" "clmul 0 b = 0"
proof -
  show "clmul a 0 = 0" by (simp add: clmul.simps)
  show "clmul 0 b = 0" by (induction "0 :: nat" b rule: clmul.induct) (simp add: clmul.simps [of 0])
qed

lemma clmul_unfold: "clmul a b = xor (if odd b then a else 0) (push_bit 1 (clmul a (b div 2)))"
  by (cases "b = 0") (simp_all add: clmul.simps [of a b])

lemma clmul_xor_right: "clmul a (xor b c) = xor (clmul a b) (clmul a c)"
proof (induction b arbitrary: c rule: less_induct)
  case (less b)
  show ?case
  proof (cases "b = 0")
    case False
    then have "clmul a (xor (b div 2) (c div 2)) = xor (clmul a (b div 2)) (clmul a (c div 2))"
      using less.IH [of "b div 2"] by simp
    then show ?thesis
      by (cases "odd b"; cases "odd c")
        (simp_all add: clmul_unfold [of a b] clmul_unfold [of a c] clmul_unfold [of a "xor b c"] xor_div_2 even_xor_iff
          ac_simps del: push_bit_Suc One_nat_def)
  qed simp
qed

lemma clmul_xor_left: "clmul (xor a b) c = xor (clmul a c) (clmul b c)"
proof (induction c rule: less_induct)
  case (less c)
  show ?case
  proof (cases "c = 0")
    case False
    then have "clmul (xor a b) (c div 2) = xor (clmul a (c div 2)) (clmul b (c div 2))"
      using less.IH [of "c div 2"] by simp
    then show ?thesis
      by (simp add: clmul_unfold [of _ c] ac_simps del: push_bit_Suc One_nat_def)
  qed simp
qed

lemma unat_xor: "unat (xor a b) = xor (unat a) (unat (b :: u8))"
  by (rule unsigned_xor_eq)

lemma unat_pow_small: "i < 8 \<Longrightarrow> unat (2 ^ i :: u8) = 2 ^ i"
proof -
  assume "i < 8"
  then have "(2 :: nat) ^ i < 2 ^ 8" by (intro power_strict_increasing) auto
  then show ?thesis using unat_of_nat [where ?'a = 8, of "2 ^ i"] by (simp add: take_bit_eq_mod)
qed

lemma clmul_power: "clmul a (2 ^ i) = a * 2 ^ i"
proof (induction i)
  case 0
  then show ?case using clmul_unfold [of a 1] by simp
next
  case (Suc i)
  then show ?case using clmul_unfold [of a "2 ^ Suc i"] by (simp add: push_bit_eq_mult)
qed

lemma gen_pow_mod: "k < 15 \<Longrightarrow> unat (gen_pow k) = poly_mod (2 ^ k)"
proof -
  have steps: "rev [8..<15] = [14, 13, 12, 11, 10, 9, 8 :: nat]" by code_simp
  assume "k < 15"
  then have k: "k = 0 \<or> k = 1 \<or> k = 2 \<or> k = 3 \<or> k = 4 \<or> k = 5 \<or> k = 6 \<or> k = 7 \<or> k = 8 \<or> k = 9 \<or> k = 10 \<or> k = 11 \<or> k = 12 \<or> k = 13 \<or> k = 14"
    by presburger
  show ?thesis
    using k by (elim disjE) (simp_all add: gen_pow_values poly_mod_def steps poly_mod_step_def bit_0)
qed

lemma mult_is_polynomial_product:
  "unat (reedSolomonMultiply x y) = poly_mod (clmul (unat x) (unat y))"
proof (rule additive_eqI [where f = "\<lambda>y. unat (reedSolomonMultiply x y)"])
  show "unat (reedSolomonMultiply x (gen_pow i)) = poly_mod (clmul (unat x) (unat (gen_pow i)))" if i: "i < 8" for i
  proof (rule additive_eqI [where f = "\<lambda>x. unat (reedSolomonMultiply x (gen_pow i))"])
    fix j :: nat assume j: "j < 8"
    have "reedSolomonMultiply (gen_pow j) (gen_pow i) = gen_pow (i + j)"
      using i by (simp add: mult_basis) (simp add: gen_pow_def funpow_add)
    moreover have "clmul (unat (gen_pow j)) (unat (gen_pow i)) = 2 ^ (i + j)"
      using i j by (simp add: gen_pow_small unat_pow_small clmul_power power_add mult.commute)
    ultimately show "unat (reedSolomonMultiply (gen_pow j) (gen_pow i)) = poly_mod (clmul (unat (gen_pow j)) (unat (gen_pow i)))"
      using i j gen_pow_mod [of "i + j"] by simp
  qed (simp_all add: additive_def mult_distrib unat_xor clmul_xor_left poly_mod_xor)
qed (simp_all add: additive_def mult_distrib unat_xor clmul_xor_right poly_mod_xor)

section \<open>Polynomials over the field\<close>

text \<open>The value of a polynomial, given by its coefficients from the highest power on.\<close>

definition poly_at :: "u8 \<Rightarrow> bytes \<Rightarrow> u8" where
  "poly_at r p = foldl (\<lambda>a c. xor (reedSolomonMultiply a r) c) 0 p"

definition field_power :: "u8 \<Rightarrow> nat \<Rightarrow> u8" where
  "field_power r n = ((\<lambda>z. reedSolomonMultiply z r) ^^ n) 1"

lemma field_power_simps [simp]: "field_power r 0 = 1" "field_power r (Suc n) = reedSolomonMultiply (field_power r n) r"
  by (simp_all add: field_power_def)

lemma poly_at_snoc [simp]: "poly_at r [] = 0" "poly_at r (p @ [c]) = xor (reedSolomonMultiply (poly_at r p) r) c"
  by (simp_all add: poly_at_def)

lemma mult_left_comm: "reedSolomonMultiply x (reedSolomonMultiply y z) = reedSolomonMultiply y (reedSolomonMultiply x z)"
  by (metis mult_assoc mult_comm)

lemmas field_simps_rs = mult_distrib mult_assoc mult_comm mult_left_comm

lemma poly_at_Cons: "poly_at r (c # p) = xor (reedSolomonMultiply c (field_power r (length p))) (poly_at r p)"
proof (induction p rule: rev_induct)
  case Nil
  show ?case using poly_at_snoc(2) [of r "[]" c] by simp
next
  case (snoc x p)
  have "poly_at r (c # p @ [x]) = xor (reedSolomonMultiply (poly_at r (c # p)) r) x"
    using poly_at_snoc(2) [of r "c # p" x] by simp
  then show ?case by (simp add: snoc mult_distrib mult_assoc xor.assoc)
qed

lemma poly_at_append: "poly_at r (p @ q) = xor (reedSolomonMultiply (poly_at r p) (field_power r (length q))) (poly_at r q)"
proof (induction q rule: rev_induct)
  case (snoc x q)
  have "poly_at r (p @ q @ [x]) = xor (reedSolomonMultiply (poly_at r (p @ q)) r) x"
    using poly_at_snoc(2) [of r "p @ q" x] by simp
  then show ?case by (simp add: snoc mult_distrib mult_assoc xor.assoc)
qed simp

lemma poly_at_xor:
  "length p = length q \<Longrightarrow> poly_at r (map2 xor p q) = xor (poly_at r p) (poly_at r q)"
  by (induction p q rule: list_induct2) (simp_all add: poly_at_Cons mult_distrib ac_simps)

lemma poly_at_scale: "poly_at r (map (reedSolomonMultiply c) p) = reedSolomonMultiply c (poly_at r p)"
  by (induction p) (simp_all add: poly_at_Cons mult_distrib mult_assoc)

lemma poly_at_zeros [simp]: "poly_at r (replicate n 0) = 0"
  by (induction n) (simp_all add: poly_at_Cons)

subsection \<open>The generator polynomial\<close>

text \<open>One pass over the coefficients multiplies by \<open>x - root\<close>; the highest power is dropped.\<close>

definition divisor_coeff :: "u8 \<Rightarrow> bytes \<Rightarrow> nat \<Rightarrow> u8" where
  "divisor_coeff root r j = xor (reedSolomonMultiply (r ! j) root) (if j + 1 < length r then r ! (j + 1) else 0)"

lemma rs_divisor_step_eq:
  assumes "j < length r"
  shows "rs_divisor_step root j r = r[j := divisor_coeff root r j]"
  using assms by (simp add: rs_divisor_step_def divisor_coeff_def Let_def)

lemma divisor_pass:
  assumes "k \<le> length r"
  shows "fold (rs_divisor_step root) [0..<k] r = map (divisor_coeff root r) [0..<k] @ drop k r"
  using assms
proof (induction k)
  case (Suc k)
  let ?R = "map (divisor_coeff root r) [0..<k] @ drop k r"
  have k: "k < length r" using Suc.prems by simp
  have "?R ! k = r ! k" "k + 1 < length r \<Longrightarrow> ?R ! (k + 1) = r ! (k + 1)" "length ?R = length r"
    using k by (simp_all add: nth_append)
  then have c: "divisor_coeff root ?R k = divisor_coeff root r k" by (simp add: divisor_coeff_def)
  have "fold (rs_divisor_step root) [0..<Suc k] r = rs_divisor_step root k ?R"
    using Suc.IH k by simp
  also have "\<dots> = ?R[k := divisor_coeff root r k]"
    using rs_divisor_step_eq [of k ?R root] k c by simp
  also have "\<dots> = map (divisor_coeff root r) [0..<Suc k] @ drop (Suc k) r"
    using k by (simp add: list_update_append Cons_nth_drop_Suc [symmetric])
  finally show ?case .
qed simp

lemma divisor_pass_all:
  assumes "r \<noteq> []"
  shows "fold (rs_divisor_step root) [0..<length r] r = map2 xor (map (reedSolomonMultiply root) r) (tl r @ [0])"
proof -
  have "(tl r @ [0]) ! j = (if j + 1 < length r then r ! (j + 1) else 0)" if "j < length r" for j
  proof -
    have "j + 1 < length r \<or> j = length r - 1" using that by linarith
    then show ?thesis using that by (auto simp: nth_append nth_tl)
  qed
  then show ?thesis
    using assms by (simp add: divisor_pass) (rule nth_equalityI, simp_all add: divisor_coeff_def mult_comm)
qed

lemma map2_append_zeros: "map2 xor (replicate n (0 :: u8) @ p) (replicate n 0 @ q) = replicate n 0 @ map2 xor p q"
  by (induction n) simp_all

text \<open>The coefficients after \<open>i\<close> factors, from the leading one on.\<close>

fun generator :: "nat \<Rightarrow> bytes" where
  "generator 0 = [1]"
| "generator (Suc i) = map2 xor (map (reedSolomonMultiply (field_power 2 i)) (0 # generator i)) (generator i @ [0])"

lemma length_generator [simp]: "length (generator i) = Suc i"
  by (induction i) simp_all

lemma generator_monic: "hd (generator i) = 1"
proof (induction i)
  case (Suc i)
  then show ?case using length_generator [of i] by (cases "generator i") auto
qed simp

text \<open>It vanishes at its roots, the powers of two.\<close>

lemma generator_value: "poly_at r (generator (Suc i)) = reedSolomonMultiply (xor r (field_power 2 i)) (poly_at r (generator i))"
proof -
  have "poly_at r (generator (Suc i)) = xor (poly_at r (map (reedSolomonMultiply (field_power 2 i)) (0 # generator i))) (poly_at r (generator i @ [0]))"
    unfolding generator.simps by (rule poly_at_xor) simp
  also have "\<dots> = xor (reedSolomonMultiply (field_power 2 i) (poly_at r (generator i))) (reedSolomonMultiply (poly_at r (generator i)) r)"
    by (simp only: poly_at_scale poly_at_Cons poly_at_snoc mult_0 xor.left_neutral xor.right_neutral)
  finally show ?thesis by (simp add: mult_distrib mult_comm xor.commute)
qed

lemma generator_root: "i < n \<Longrightarrow> poly_at (field_power 2 i) (generator n) = 0"
proof (induction n)
  case (Suc n)
  then show ?case by (cases "i = n") (simp_all add: generator_value del: generator.simps)
qed simp

lemma divisor_run:
  assumes "0 < n" and "i < n"
  shows "fold (\<lambda>_ (result, root). (fold (rs_divisor_step root) [0..<length result] result, reedSolomonMultiply root 2))
      [0..<i] ((replicate n 0)[n - 1 := 1], 1) = (replicate (n - 1 - i) 0 @ generator i, field_power 2 i)"
  using assms(2)
proof (induction i)
  case 0
  have "(replicate n 0)[n - 1 := 1] = replicate (n - 1) 0 @ [1 :: u8]"
    using assms(1) by (intro nth_equalityI) (auto simp: nth_append nth_list_update)
  then show ?case by simp
next
  case (Suc i)
  let ?z = "replicate (n - 1 - Suc i) 0 :: bytes"
  let ?r = "?z @ 0 # generator i"
  have "n - 1 - i = Suc (n - 1 - Suc i)" using Suc.prems by simp
  then have z: "replicate (n - 1 - i) 0 @ generator i = ?r"
    by (simp only: replicate_Suc replicate_app_Cons_same append_Cons)
  have "tl ?r @ [0] = ?z @ generator i @ [0]"
    by (cases "n - 1 - Suc i") (simp_all add: replicate_app_Cons_same)
  then have "fold (rs_divisor_step (field_power 2 i)) [0..<length ?r] ?r = ?z @ generator (Suc i)"
    using divisor_pass_all [of ?r "field_power 2 i"] by (simp add: map2_append_zeros)
  then show ?case using Suc z by simp
qed

lemma divisor_is_generator:
  assumes "1 \<le> degree" and "degree \<le> 255"
  shows "reedSolomonComputeDivisor degree = Inr (tl (generator (nat degree)))"
proof -
  obtain i where n: "nat degree = Suc i" using assms(1) by (cases "nat degree") auto
  let ?g = "generator i"
  have "map2 xor (map (reedSolomonMultiply (field_power 2 i)) ?g) (tl ?g @ [0]) = tl (generator (Suc i))"
    using length_generator [of i] by (cases ?g) simp_all
  moreover have "?g \<noteq> []" by (metis length_generator list.size(3) nat.distinct(1))
  ultimately have "fold (rs_divisor_step (field_power 2 i)) [0..<length ?g] ?g = tl (generator (Suc i))"
    by (metis divisor_pass_all)
  then show ?thesis
    using assms divisor_run [of "Suc i" i]
    by (simp add: reedSolomonComputeDivisor_def n Let_def)
qed

lemma generator_split: "generator n = 1 # tl (generator n)"
  using generator_monic [of n] length_generator [of n] by (cases "generator n") simp_all

subsection \<open>The remainder\<close>

lemma rs_remainder_step_eq:
  assumes "length result = length divisor" and "divisor \<noteq> []"
  shows "rs_remainder_step divisor b result
    = Inr (map2 xor (tl result @ [0]) (map (reedSolomonMultiply (xor b (hd result))) divisor))"
proof -
  have r: "vec_at result 0 = Inr (hd result)" using assms by (cases result) auto
  have len: "length (tl result @ [0]) = length divisor" using assms by (cases result) auto
  have "qr_map (\<lambda>i. qr_bind (vec_at divisor i) (\<lambda>d. Inr (xor ((tl result @ [0]) ! i) (reedSolomonMultiply d f)))) [0..<length divisor]
      = Inr (map (\<lambda>i. xor ((tl result @ [0]) ! i) (reedSolomonMultiply (divisor ! i) f)) [0..<length divisor])" for f
    by (rule qr_map_Inr) simp
  moreover have "map (\<lambda>i. xor ((tl result @ [0]) ! i) (reedSolomonMultiply (divisor ! i) f)) [0..<length divisor]
      = map2 xor (tl result @ [0]) (map (reedSolomonMultiply f) divisor)" for f
    by (rule nth_equalityI) (use len in \<open>simp_all add: mult_comm\<close>)
  ultimately show ?thesis by (simp add: rs_remainder_step_def r Let_def len del: length_append)
qed

lemma remainder_total:
  assumes "divisor \<noteq> []"
  obtains ecc where "reedSolomonComputeRemainder data divisor = Inr ecc" and "length ecc = length divisor"
proof -
  have "\<exists>s. qr_fold (rs_remainder_step divisor) data (replicate (length divisor) 0) = Inr s \<and> length s = length divisor"
    by (rule qr_fold_invariant) (use assms in \<open>auto simp: rs_remainder_step_eq\<close>)
  then show thesis using that by (auto simp: reedSolomonComputeRemainder_def)
qed

lemma remainder_value:
  assumes "divisor \<noteq> []" and root: "poly_at r divisor = field_power r (length divisor)"
    and "qr_fold (rs_remainder_step divisor) data (replicate (length divisor) 0) = Inr ecc"
  shows "length ecc = length divisor \<and> poly_at r ecc = reedSolomonMultiply (poly_at r data) (field_power r (length divisor))"
  using assms(3)
proof (induction data arbitrary: ecc rule: rev_induct)
  case (snoc b data)
  then obtain res where run: "qr_fold (rs_remainder_step divisor) data (replicate (length divisor) 0) = Inr res"
    and "rs_remainder_step divisor b res = Inr ecc"
    by (auto simp: qr_fold_append)
  with snoc.IH have len: "length res = length divisor"
    and val: "poly_at r res = reedSolomonMultiply (poly_at r data) (field_power r (length divisor))"
    by auto
  let ?f = "xor b (hd res)" and ?p = "field_power r (length divisor)"
  have ecc: "ecc = map2 xor (tl res @ [0]) (map (reedSolomonMultiply ?f) divisor)"
    using \<open>rs_remainder_step divisor b res = Inr ecc\<close> rs_remainder_step_eq [OF len assms(1)] by simp
  obtain h t where res: "res = h # t" using len assms(1) by (cases res) auto
  have p: "?p = reedSolomonMultiply (field_power r (length t)) r"
    using len res by (metis field_power_simps(2) length_Cons)
  have "poly_at r ecc = xor (reedSolomonMultiply (poly_at r t) r) (reedSolomonMultiply ?f ?p)"
    using len res root unfolding ecc by (subst poly_at_xor) (simp_all add: poly_at_scale)
  also have "\<dots> = xor (reedSolomonMultiply (xor (reedSolomonMultiply h (field_power r (length t))) (poly_at r t)) r) (reedSolomonMultiply b ?p)"
    by (simp add: res p mult_distrib mult_assoc ac_simps)
  also have "\<dots> = reedSolomonMultiply (poly_at r (data @ [b])) ?p"
    using val by (simp add: res poly_at_Cons mult_distrib mult_assoc mult_comm [of r])
  finally show ?case using len ecc by simp
qed simp

text \<open>A block with its remainder is a codeword: it vanishes at every root of the generator.\<close>

lemma block_is_codeword:
  assumes "1 \<le> degree" and "degree \<le> 255" and "i < nat degree"
  shows "\<exists>divisor ecc. reedSolomonComputeDivisor degree = Inr divisor \<and> reedSolomonComputeRemainder data divisor = Inr ecc \<and>
    length ecc = nat degree \<and> poly_at (field_power 2 i) (data @ ecc) = 0"
proof -
  let ?d = "tl (generator (nat degree))" and ?r = "field_power 2 i"
  have d: "?d \<noteq> []" "length ?d = nat degree" using assms(1) length_generator [of "nat degree"] by (cases "generator (nat degree)"; auto)+
  have "poly_at ?r (1 # ?d) = 0"
    using generator_root [OF assms(3)] by (simp flip: generator_split)
  then have root: "poly_at ?r ?d = field_power ?r (length ?d)"
    by (simp add: poly_at_Cons xor_eq_0)
  obtain ecc where e: "reedSolomonComputeRemainder data ?d = Inr ecc" "length ecc = length ?d"
    using remainder_total [OF d(1)] .
  then have "poly_at ?r ecc = reedSolomonMultiply (poly_at ?r data) (field_power ?r (length ?d))"
    using remainder_value [OF d(1) root, of data ecc] by (simp add: reedSolomonComputeRemainder_def)
  then show ?thesis
    using e d(2) divisor_is_generator [OF assms(1,2)] by (simp add: poly_at_append)
qed

end
