(* ===== verification/QrCode.thy ===== *)
theory QrCode
  imports QrTables QrField
begin

text \<open>
  The class \<open>QrCode\<close> of \<open>deps/qrcodegen.cpp\<close>: the choice of the version and the level, the codewords with their error
  correction, the drawing of the function patterns and of the codewords, the masks with their penalties, and the
  constructor that puts them together. \<open>.at()\<close> out of range is an exception. The assertions are absent from a release
  build and from this text; the theories that follow prove the ones the result depends on.
\<close>

section \<open>Codewords\<close>

text \<open>The blocks of \<open>addEccAndInterleave\<close>; \<open>k\<close> is where the next block starts.\<close>

fun ecc_blocks :: "bytes \<Rightarrow> bytes \<Rightarrow> nat \<Rightarrow> nat \<Rightarrow> nat list \<Rightarrow> nat \<Rightarrow> bytes list qr_result" where
  "ecc_blocks data rsDiv dataLen numShortBlocks [] k = Inr []"
| "ecc_blocks data rsDiv dataLen numShortBlocks (i # is) k =
     (let dat = take (dataLen + (if i < numShortBlocks then 0 else 1)) (drop k data)
      in qr_bind (reedSolomonComputeRemainder dat rsDiv) (\<lambda>ecc.
         qr_bind (ecc_blocks data rsDiv dataLen numShortBlocks is (k + length dat)) (\<lambda>blocks.
         Inr ((dat @ (if i < numShortBlocks then [0] else []) @ ecc) # blocks))))"

definition interleave :: "nat \<Rightarrow> nat \<Rightarrow> bytes list \<Rightarrow> bytes qr_result" where
  "interleave dataLen numShortBlocks blocks =
     qr_bind (vec_at blocks 0) (\<lambda>b0.
     qr_map (\<lambda>(i, j). qr_bind (vec_at blocks j) (\<lambda>b. vec_at b i))
       (filter (\<lambda>(i, j). i \<noteq> dataLen \<or> j \<ge> numShortBlocks) (List.product [0..<length b0] [0..<length blocks])))"

definition addEccAndInterleave :: "nat \<Rightarrow> Ecc \<Rightarrow> bytes \<Rightarrow> bytes qr_result" where
  "addEccAndInterleave version ecl data =
     qr_bind (getNumDataCodewords version ecl) (\<lambda>numData.
     if int (length data) \<noteq> numData then Inl Invalid_argument
     else qr_bind (getNumRawDataModules version) (\<lambda>raw.
       let numBlocks = nat (NUM_ERROR_CORRECTION_BLOCKS ! ecc_index ecl ! version);
           blockEccLen = ECC_CODEWORDS_PER_BLOCK ! ecc_index ecl ! version;
           rawCodewords = raw div 8;
           numShortBlocks = numBlocks - rawCodewords mod numBlocks;
           shortBlockLen = rawCodewords div numBlocks;
           dataLen = shortBlockLen - nat blockEccLen
       in qr_bind (reedSolomonComputeDivisor blockEccLen) (\<lambda>rsDiv.
          qr_bind (ecc_blocks data rsDiv dataLen numShortBlocks [0..<numBlocks] 0) (\<lambda>blocks.
          interleave dataLen numShortBlocks blocks))))"

section \<open>The grid\<close>

record qr_code =
  qc_version :: nat
  qc_size :: nat
  qc_ecl :: Ecc
  qc_mask :: int
  qc_modules :: "bool list list"
  qc_isFunction :: "bool list list"

definition get_at :: "'a list list \<Rightarrow> nat \<Rightarrow> nat \<Rightarrow> 'a qr_result" where
  "get_at grid x y = qr_bind (vec_at grid y) (\<lambda>row. vec_at row x)"

definition set_at :: "nat \<Rightarrow> nat \<Rightarrow> 'a \<Rightarrow> 'a list list \<Rightarrow> 'a list list qr_result" where
  "set_at x y v grid = qr_bind (get_at grid x y) (\<lambda>_. Inr (grid[y := (grid ! y)[x := v]]))"

definition qr_module :: "qr_code \<Rightarrow> nat \<Rightarrow> nat \<Rightarrow> bool qr_result" where
  "qr_module q x y = get_at (qc_modules q) x y"

text \<open>A negative coordinate becomes a huge \<open>size_t\<close>, which \<open>.at()\<close> refuses.\<close>

definition setFunctionModule :: "int \<Rightarrow> int \<Rightarrow> bool \<Rightarrow> qr_code \<Rightarrow> qr_code qr_result" where
  "setFunctionModule x y isDark q =
     (if x < 0 \<or> y < 0 then Inl Out_of_range
      else qr_bind (set_at (nat x) (nat y) isDark (qc_modules q)) (\<lambda>m.
           qr_bind (set_at (nat x) (nat y) True (qc_isFunction q)) (\<lambda>f.
           Inr (q\<lparr>qc_modules := m, qc_isFunction := f\<rparr>))))"

definition draw_modules :: "(int \<times> int \<times> bool) list \<Rightarrow> qr_code \<Rightarrow> qr_code qr_result" where
  "draw_modules = qr_fold (\<lambda>(x, y, isDark). setFunctionModule x y isDark)"

section \<open>Function patterns\<close>

definition getBit :: "int \<Rightarrow> nat \<Rightarrow> bool" where
  "getBit x i = (and (drop_bit i x) 1 \<noteq> 0)"

definition timing_pattern :: "nat \<Rightarrow> (int \<times> int \<times> bool) list" where
  "timing_pattern sz = concat (map (\<lambda>i. [(6, int i, i mod 2 = 0), (int i, 6, i mod 2 = 0)]) [0..<sz])"

definition finder_pattern :: "nat \<Rightarrow> int \<Rightarrow> int \<Rightarrow> (int \<times> int \<times> bool) list" where
  "finder_pattern sz x y =
     concat (map (\<lambda>dy. concat (map (\<lambda>dx.
       let dist = max \<bar>dx\<bar> \<bar>dy\<bar>; xx = x + dx; yy = y + dy
       in if 0 \<le> xx \<and> xx < int sz \<and> 0 \<le> yy \<and> yy < int sz then [(xx, yy, dist \<noteq> 2 \<and> dist \<noteq> 4)] else [])
       [-4..4])) [-4..4])"

definition drawFinderPattern :: "int \<Rightarrow> int \<Rightarrow> qr_code \<Rightarrow> qr_code qr_result" where
  "drawFinderPattern x y q = draw_modules (finder_pattern (qc_size q) x y) q"

definition alignment_pattern :: "int \<Rightarrow> int \<Rightarrow> (int \<times> int \<times> bool) list" where
  "alignment_pattern x y =
     concat (map (\<lambda>dy. map (\<lambda>dx. (x + dx, y + dy, max \<bar>dx\<bar> \<bar>dy\<bar> \<noteq> 1)) [-2..2]) [-2..2])"

definition drawAlignmentPattern :: "int \<Rightarrow> int \<Rightarrow> qr_code \<Rightarrow> qr_code qr_result" where
  "drawAlignmentPattern x y = draw_modules (alignment_pattern x y)"

text \<open>The positions are inserted in front, from the last one down, and six comes first.\<close>

definition getAlignmentPatternPositions :: "nat \<Rightarrow> nat \<Rightarrow> int list" where
  "getAlignmentPatternPositions version sz =
     (if version = 1 then []
      else let numAlign = version div 7 + 2;
               step = (version * 8 + numAlign * 3 + 5) div (numAlign * 4 - 4) * 2
        in 6 # rev (map (\<lambda>i. int sz - 7 - int i * int step) [0..<numAlign - 1]))"

definition format_bits :: "Ecc \<Rightarrow> int \<Rightarrow> int" where
  "format_bits ecl msk =
     (let data = or (push_bit 3 (getFormatBits ecl)) msk;
          rem = ((\<lambda>rem. xor (push_bit 1 rem) (drop_bit 9 rem * 0x537)) ^^ 10) data
      in xor (or (push_bit 10 data) rem) 0x5412)"

definition format_pattern :: "nat \<Rightarrow> int \<Rightarrow> (int \<times> int \<times> bool) list" where
  "format_pattern sz bits =
     map (\<lambda>i. (8, int i, getBit bits i)) [0..<6] @
     [(8, 7, getBit bits 6), (8, 8, getBit bits 7), (7, 8, getBit bits 8)] @
     map (\<lambda>i. (14 - int i, 8, getBit bits i)) [9..<15] @
     map (\<lambda>i. (int sz - 1 - int i, 8, getBit bits i)) [0..<8] @
     map (\<lambda>i. (8, int sz - 15 + int i, getBit bits i)) [8..<15] @
     [(8, int sz - 8, True)]"

definition drawFormatBits :: "int \<Rightarrow> qr_code \<Rightarrow> qr_code qr_result" where
  "drawFormatBits msk q = draw_modules (format_pattern (qc_size q) (format_bits (qc_ecl q) msk)) q"

definition version_bits :: "nat \<Rightarrow> int" where
  "version_bits version =
     (let rem = ((\<lambda>rem. xor (push_bit 1 rem) (drop_bit 11 rem * 0x1F25)) ^^ 12) (int version)
      in or (push_bit 12 (int version)) rem)"

definition version_pattern :: "nat \<Rightarrow> int \<Rightarrow> (int \<times> int \<times> bool) list" where
  "version_pattern sz bits =
     concat (map (\<lambda>i. let a = int sz - 11 + int (i mod 3); b = int (i div 3)
       in [(a, b, getBit bits i), (b, a, getBit bits i)]) [0..<18])"

definition drawVersion :: "qr_code \<Rightarrow> qr_code qr_result" where
  "drawVersion q =
     (if qc_version q < 7 then Inr q else draw_modules (version_pattern (qc_size q) (version_bits (qc_version q))) q)"

text \<open>The three finder corners hold no alignment pattern.\<close>

definition drawAlignments :: "int list \<Rightarrow> qr_code \<Rightarrow> qr_code qr_result" where
  "drawAlignments alignPatPos =
     (let numAlign = length alignPatPos
      in qr_fold (\<lambda>(i, j) q.
           if \<not> (i = 0 \<and> j = 0 \<or> i = 0 \<and> j = numAlign - 1 \<or> i = numAlign - 1 \<and> j = 0)
           then drawAlignmentPattern (alignPatPos ! i) (alignPatPos ! j) q else Inr q)
         (List.product [0..<numAlign] [0..<numAlign]))"

definition drawFunctionPatterns :: "qr_code \<Rightarrow> qr_code qr_result" where
  "drawFunctionPatterns q =
     qr_bind (draw_modules (timing_pattern (qc_size q)) q) (\<lambda>q.
     qr_bind (drawFinderPattern 3 3 q) (\<lambda>q.
     qr_bind (drawFinderPattern (int (qc_size q) - 4) 3 q) (\<lambda>q.
     qr_bind (drawFinderPattern 3 (int (qc_size q) - 4) q) (\<lambda>q.
     qr_bind (drawAlignments (getAlignmentPatternPositions (qc_version q) (qc_size q)) q) (\<lambda>q.
     qr_bind (drawFormatBits 0 q) drawVersion)))))"

section \<open>Drawing the codewords\<close>

text \<open>
  The right columns of the column pairs, from the right edge on; the vertical timing pattern is skipped. At the left
  edge \<open>right\<close> is 1 and the loop ends.
\<close>

function zigzag_columns :: "nat \<Rightarrow> nat list" where
  "zigzag_columns right =
     (if right \<ge> 1
      then let right = (if right = 6 then 5 else right) in right # zigzag_columns (right - 2)
      else [])"
  by auto
termination by (relation "measure id") auto

declare zigzag_columns.simps [simp del]

definition zigzag :: "nat \<Rightarrow> (nat \<times> nat) list" where
  "zigzag sz =
     concat (map (\<lambda>right. concat (map (\<lambda>vert. map (\<lambda>j.
       let x = right - j;
           upward = (and (right + 1) 2 = 0);
           y = (if upward then sz - 1 - vert else vert)
       in (x, y)) [0, 1]) [0..<sz])) (zigzag_columns (sz - 1)))"

definition draw_codeword_bit :: "bytes \<Rightarrow> nat \<times> nat \<Rightarrow> nat \<times> qr_code \<Rightarrow> (nat \<times> qr_code) qr_result" where
  "draw_codeword_bit data = (\<lambda>(x, y) (i, q).
     qr_bind (get_at (qc_isFunction q) x y) (\<lambda>f.
     if \<not> f \<and> i < length data * 8
     then qr_bind (vec_at data (i div 8)) (\<lambda>b.
          qr_bind (set_at x y (getBit (uint b) (7 - i mod 8)) (qc_modules q)) (\<lambda>m.
          Inr (i + 1, q\<lparr>qc_modules := m\<rparr>)))
     else Inr (i, q)))"

definition drawCodewords :: "bytes \<Rightarrow> qr_code \<Rightarrow> qr_code qr_result" where
  "drawCodewords data q =
     qr_bind (getNumRawDataModules (qc_version q)) (\<lambda>raw.
     if length data \<noteq> raw div 8 then Inl Invalid_argument
     else qr_bind (qr_fold (draw_codeword_bit data) (zigzag (qc_size q)) (0, q)) (\<lambda>(i, q). Inr q))"

section \<open>Masks\<close>

definition mask_inverts :: "int \<Rightarrow> nat \<Rightarrow> nat \<Rightarrow> bool" where
  "mask_inverts msk x y =
     (if msk = 0 then (x + y) mod 2 = 0
      else if msk = 1 then y mod 2 = 0
      else if msk = 2 then x mod 3 = 0
      else if msk = 3 then (x + y) mod 3 = 0
      else if msk = 4 then (x div 3 + y div 2) mod 2 = 0
      else if msk = 5 then x * y mod 2 + x * y mod 3 = 0
      else if msk = 6 then (x * y mod 2 + x * y mod 3) mod 2 = 0
      else ((x + y) mod 2 + x * y mod 3) mod 2 = 0)"

definition grid_points :: "nat \<Rightarrow> (nat \<times> nat) list" where
  "grid_points n = concat (map (\<lambda>y. map (\<lambda>x. (x, y)) [0..<n]) [0..<n])"

definition mask_module :: "int \<Rightarrow> nat \<times> nat \<Rightarrow> qr_code \<Rightarrow> qr_code qr_result" where
  "mask_module msk = (\<lambda>(x, y) q.
     qr_bind (qr_module q x y) (\<lambda>b.
     qr_bind (get_at (qc_isFunction q) x y) (\<lambda>f.
     qr_bind (set_at x y (b \<noteq> (mask_inverts msk x y \<and> \<not> f)) (qc_modules q)) (\<lambda>m.
     Inr (q\<lparr>qc_modules := m\<rparr>)))))"

definition applyMask :: "int \<Rightarrow> qr_code \<Rightarrow> qr_code qr_result" where
  "applyMask msk q =
     (if msk < 0 \<or> msk > 7 then Inl Domain_error else qr_fold (mask_module msk) (grid_points (qc_size q)) q)"

section \<open>Penalties\<close>

definition PENALTY_N1 :: int where "PENALTY_N1 = 3"
definition PENALTY_N2 :: int where "PENALTY_N2 = 3"
definition PENALTY_N3 :: int where "PENALTY_N3 = 40"
definition PENALTY_N4 :: int where "PENALTY_N4 = 10"

text \<open>The last seven runs of a line, the latest first.\<close>

definition finderPenaltyAddHistory :: "nat \<Rightarrow> int \<Rightarrow> int list \<Rightarrow> int list" where
  "finderPenaltyAddHistory sz currentRunLength runHistory =
     (if runHistory ! 0 = 0 then currentRunLength + int sz else currentRunLength) # butlast runHistory"

definition finderPenaltyCountPatterns :: "int list \<Rightarrow> int" where
  "finderPenaltyCountPatterns runHistory =
     (let n = runHistory ! 1;
          core = (n > 0 \<and> runHistory ! 2 = n \<and> runHistory ! 3 = n * 3 \<and> runHistory ! 4 = n \<and> runHistory ! 5 = n)
      in (if core \<and> runHistory ! 0 \<ge> n * 4 \<and> runHistory ! 6 \<ge> n then 1 else 0)
       + (if core \<and> runHistory ! 6 \<ge> n * 4 \<and> runHistory ! 0 \<ge> n then 1 else 0))"

definition finderPenaltyTerminateAndCount :: "nat \<Rightarrow> bool \<Rightarrow> int \<Rightarrow> int list \<Rightarrow> int" where
  "finderPenaltyTerminateAndCount sz currentRunColor currentRunLength runHistory =
     (let (currentRunLength, runHistory) =
        (if currentRunColor then (0, finderPenaltyAddHistory sz currentRunLength runHistory) else (currentRunLength, runHistory))
      in finderPenaltyCountPatterns (finderPenaltyAddHistory sz (currentRunLength + int sz) runHistory))"

definition run_step :: "nat \<Rightarrow> bool \<Rightarrow> int \<times> bool \<times> int \<times> int list \<Rightarrow> int \<times> bool \<times> int \<times> int list" where
  "run_step sz color = (\<lambda>(result, runColor, run, runHistory).
     if color = runColor
     then let run = run + 1
       in (if run = 5 then result + PENALTY_N1 else if run > 5 then result + 1 else result, runColor, run, runHistory)
     else let runHistory = finderPenaltyAddHistory sz run runHistory;
              result = (if \<not> runColor then result + finderPenaltyCountPatterns runHistory * PENALTY_N3 else result)
       in (result, color, 1, runHistory))"

definition line_penalty :: "nat \<Rightarrow> bool list \<Rightarrow> int \<Rightarrow> int" where
  "line_penalty sz colors result =
     (let (result, runColor, run, runHistory) = fold (run_step sz) colors (result, False, 0, replicate 7 0)
      in result + finderPenaltyTerminateAndCount sz runColor run runHistory * PENALTY_N3)"

definition block_penalty :: "qr_code \<Rightarrow> nat \<times> nat \<Rightarrow> int \<Rightarrow> int qr_result" where
  "block_penalty q = (\<lambda>(x, y) result.
     qr_bind (qr_module q x y) (\<lambda>color. qr_bind (qr_module q (x + 1) y) (\<lambda>right.
     qr_bind (qr_module q x (y + 1)) (\<lambda>below. qr_bind (qr_module q (x + 1) (y + 1)) (\<lambda>diag.
     Inr (if color = right \<and> color = below \<and> color = diag then result + PENALTY_N2 else result))))))"

definition getPenaltyScore :: "qr_code \<Rightarrow> int qr_result" where
  "getPenaltyScore q =
     (let sz = qc_size q
      in qr_bind (qr_fold (\<lambda>y result. qr_bind (qr_map (\<lambda>x. qr_module q x y) [0..<sz]) (\<lambda>colors. Inr (line_penalty sz colors result))) [0..<sz] 0) (\<lambda>result.
         qr_bind (qr_fold (\<lambda>x result. qr_bind (qr_map (\<lambda>y. qr_module q x y) [0..<sz]) (\<lambda>colors. Inr (line_penalty sz colors result))) [0..<sz] result) (\<lambda>result.
         qr_bind (qr_fold (block_penalty q) (grid_points (sz - 1)) result) (\<lambda>result.
         let dark = int (length (filter id (concat (qc_modules q))));
             total = int sz * int sz;
             k = (\<bar>dark * 20 - total * 10\<bar> + total - 1) div total - 1
         in Inr (result + k * PENALTY_N4)))))"

section \<open>The constructor\<close>

text \<open>A \<open>long\<close> has 32 bits on Windows and 64 elsewhere.\<close>

definition LONG_MAX :: "platform \<Rightarrow> int" where
  "LONG_MAX pf = (if pf = Windows then 2 ^ 31 - 1 else 2 ^ 63 - 1)"

definition try_mask :: "nat \<Rightarrow> qr_code \<times> int \<times> int \<Rightarrow> (qr_code \<times> int \<times> int) qr_result" where
  "try_mask i = (\<lambda>(q, msk, minPenalty).
     qr_bind (applyMask (int i) q) (\<lambda>q.
     qr_bind (drawFormatBits (int i) q) (\<lambda>q.
     qr_bind (getPenaltyScore q) (\<lambda>penalty.
     qr_bind (applyMask (int i) q) (\<lambda>q'.
     Inr (if penalty < minPenalty then (q', int i, penalty) else (q', msk, minPenalty)))))))"

definition choose_mask :: "platform \<Rightarrow> int \<Rightarrow> qr_code \<Rightarrow> (qr_code \<times> int) qr_result" where
  "choose_mask pf msk q =
     (if msk = - 1
      then qr_bind (qr_fold try_mask [0..<8] (q, msk, LONG_MAX pf)) (\<lambda>(q, msk, minPenalty). Inr (q, msk))
      else Inr (q, msk))"

definition blank_code :: "nat \<Rightarrow> Ecc \<Rightarrow> qr_code" where
  "blank_code ver ecl =
     (let sz = ver * 4 + 17; grid = replicate sz (replicate sz False)
      in \<lparr>qc_version = ver, qc_size = sz, qc_ecl = ecl, qc_mask = 0, qc_modules = grid, qc_isFunction = grid\<rparr>)"

definition new_QrCode :: "platform \<Rightarrow> nat \<Rightarrow> Ecc \<Rightarrow> bytes \<Rightarrow> int \<Rightarrow> qr_code qr_result" where
  "new_QrCode pf ver ecl dataCodewords msk =
     (if ver < MIN_VERSION \<or> ver > MAX_VERSION then Inl Domain_error
      else if msk < - 1 \<or> msk > 7 then Inl Domain_error
      else qr_bind (drawFunctionPatterns (blank_code ver ecl)) (\<lambda>q.
           qr_bind (addEccAndInterleave ver ecl dataCodewords) (\<lambda>allCodewords.
           qr_bind (drawCodewords allCodewords q) (\<lambda>q.
           qr_bind (choose_mask pf msk q) (\<lambda>(q, msk).
           let q = q\<lparr>qc_mask := msk\<rparr>
           in qr_bind (applyMask msk q) (\<lambda>q.
              qr_bind (drawFormatBits msk q) (\<lambda>q.
              Inr (q\<lparr>qc_isFunction := []\<rparr>))))))))"

definition getVersion :: "qr_code \<Rightarrow> nat" where "getVersion q = qc_version q"
definition getSize :: "qr_code \<Rightarrow> nat" where "getSize q = qc_size q"
definition getErrorCorrectionLevel :: "qr_code \<Rightarrow> Ecc" where "getErrorCorrectionLevel q = qc_ecl q"
definition getMask :: "qr_code \<Rightarrow> int" where "getMask q = qc_mask q"

definition getModule :: "qr_code \<Rightarrow> int \<Rightarrow> int \<Rightarrow> bool" where
  "getModule q x y \<longleftrightarrow> 0 \<le> x \<and> x < int (qc_size q) \<and> 0 \<le> y \<and> y < int (qc_size q) \<and> qr_module q (nat x) (nat y) = Inr True"

section \<open>Encoding\<close>

function find_version :: "QrSegment list \<Rightarrow> Ecc \<Rightarrow> nat \<Rightarrow> nat \<Rightarrow> (nat \<times> int) qr_result" where
  "find_version segs ecl maxVersion version =
     qr_bind (getNumDataCodewords version ecl) (\<lambda>numData.
       let dataCapacityBits = numData * 8;
           dataUsedBits = getTotalBits segs version
       in if dataUsedBits \<noteq> - 1 \<and> dataUsedBits \<le> dataCapacityBits then Inr (version, dataUsedBits)
          else if version \<ge> maxVersion
          then Inl (Data_too_long
            (if dataUsedBits = - 1 then ''Segment too long''
             else ''Data length = '' @ nat_str (nat dataUsedBits) @ '' bits, '' @
                  ''Max capacity = '' @ nat_str (nat dataCapacityBits) @ '' bits''))
          else find_version segs ecl maxVersion (version + 1))"
  by auto
termination by (relation "measure (\<lambda>(segs, ecl, maxVersion, version). maxVersion - version)") auto

declare find_version.simps [simp del]

definition boost_level :: "bool \<Rightarrow> nat \<Rightarrow> int \<Rightarrow> Ecc \<Rightarrow> Ecc qr_result" where
  "boost_level boostEcl version dataUsedBits =
     qr_fold (\<lambda>newEcl ecl. qr_bind (getNumDataCodewords version newEcl) (\<lambda>numData.
       Inr (if boostEcl \<and> dataUsedBits \<le> numData * 8 then newEcl else ecl))) [MEDIUM, QUARTILE, HIGH]"

definition concat_segments :: "nat \<Rightarrow> QrSegment list \<Rightarrow> bool list qr_result" where
  "concat_segments version segs =
     qr_fold (\<lambda>seg bb.
       qr_bind (appendBits (word_of_nat (modeBits (sg_mode seg))) 4 bb) (\<lambda>bb.
       qr_bind (appendBits (word_of_int (sg_numChars seg)) (int (numCharCountBits (sg_mode seg) version)) bb) (\<lambda>bb.
       Inr (bb @ sg_data seg)))) segs []"

function pad_bytes :: "u8 \<Rightarrow> nat \<Rightarrow> bool list \<Rightarrow> bool list qr_result" where
  "pad_bytes padByte dataCapacityBits bb =
     (if length bb < dataCapacityBits
      then qr_bind (appendBits (ucast padByte) 8 bb) (pad_bytes (xor padByte (xor 0xEC 0x11)) dataCapacityBits)
      else Inr bb)"
  by auto
termination by (relation "measure (\<lambda>(padByte, cap, bb). cap - length bb)") (auto dest: appendBits_length)

declare pad_bytes.simps [simp del]

definition pad_bits :: "nat \<Rightarrow> bool list \<Rightarrow> bool list qr_result" where
  "pad_bits dataCapacityBits bb =
     qr_bind (appendBits 0 (min 4 (int (dataCapacityBits - length bb))) bb) (\<lambda>bb.
     qr_bind (appendBits 0 ((8 - int (length bb mod 8)) mod 8) bb) (\<lambda>bb.
     pad_bytes 0xEC dataCapacityBits bb))"

definition pack_bits :: "bool list \<Rightarrow> bytes qr_result" where
  "pack_bits bb =
     qr_fold (\<lambda>i dataCodewords. qr_bind (vec_at dataCodewords (i div 8)) (\<lambda>b. qr_bind (vec_at bb i) (\<lambda>bit.
       Inr (dataCodewords[i div 8 := or b (push_bit (7 - i mod 8) (if bit then 1 else 0))]))))
     [0..<length bb] (replicate (length bb div 8) 0)"

definition encodeSegments :: "platform \<Rightarrow> QrSegment list \<Rightarrow> Ecc \<Rightarrow> int \<Rightarrow> int \<Rightarrow> int \<Rightarrow> bool \<Rightarrow> qr_code qr_result" where
  "encodeSegments pf segs ecl minVersion maxVersion msk boostEcl =
     (if \<not> (int MIN_VERSION \<le> minVersion \<and> minVersion \<le> maxVersion \<and> maxVersion \<le> int MAX_VERSION) \<or> msk < - 1 \<or> msk > 7
      then Inl Invalid_argument
      else qr_bind (find_version segs ecl (nat maxVersion) (nat minVersion)) (\<lambda>(version, dataUsedBits).
           qr_bind (boost_level boostEcl version dataUsedBits ecl) (\<lambda>ecl.
           qr_bind (concat_segments version segs) (\<lambda>bb.
           qr_bind (getNumDataCodewords version ecl) (\<lambda>numData.
           qr_bind (pad_bits (nat numData * 8) bb) (\<lambda>bb.
           qr_bind (pack_bits bb) (\<lambda>dataCodewords.
           new_QrCode pf version ecl dataCodewords msk)))))))"

definition encodeText :: "platform \<Rightarrow> string \<Rightarrow> Ecc \<Rightarrow> qr_code qr_result" where
  "encodeText pf str ecl = qr_bind (makeSegments str) (\<lambda>segs. encodeSegments pf segs ecl 1 40 (- 1) True)"

definition encodeBinary :: "platform \<Rightarrow> bytes \<Rightarrow> Ecc \<Rightarrow> qr_code qr_result" where
  "encodeBinary pf data ecl = qr_bind (makeBytes data) (\<lambda>seg. encodeSegments pf [seg] ecl 1 40 (- 1) True)"

end
