(* ===== verification/PairingForm.thy ===== *)
theory PairingForm
  imports PairingServer UDPBroadcaster NetworkHelper PlatformHelper Base32 ServiceInstaller QrCode
begin

text \<open>
  \<open>desktop/src/ui/PairingForm.cpp\<close> and \<open>desktop/src/utils/QRUtils.cpp\<close>: the assistant that pairs a phone. It checks
  the password, asks for the method, pairs over Bluetooth where needed and shows the code with which the phone finds
  the pairing server. Texts of the user interface are byte strings; calls on its objects are recorded.
\<close>

section \<open>State\<close>

datatype PairingStep = USER_PASSWORD_SELECT | METHOD_TYPE_SELECT | METHOD_SELECT | BLUETOOTH_DEVICE_SELECT
  | BLUETOOTH_PAIRING | QR_SCAN | STEP_NONE

record PairingAssistantModel =
  pm_userName :: string
  pm_password :: string
  pm_isManualUserName :: bool
  pm_pairingMethodType :: string
  pm_pairingMethod :: string
  pm_bluetoothAddress :: string
  pm_useLegacyPairing :: bool

text \<open>What the form asks the window to show.\<close>

datatype window_call = ShowError string | ShowSkipPasswordCheck string

text \<open>The members of the form, the page that the view loader shows and the calls on the window.\<close>

record wizard =
  wz_CurrentStep :: PairingStep
  wz_StepStack :: "PairingStep list"
  wz_EncKey :: string
  wz_ServerId :: string
  wz_PairingData :: PairingAssistantModel
  wz_SkipPasswordCheck :: bool
  wz_BtScan :: bool                 \<comment> \<open>\<open>m_IsBluetoothScanRunning\<close>\<close>
  wz_ScanThread :: bool             \<comment> \<open>joinable\<close>
  wz_PairThread :: bool
  wz_PairingServer :: "pairing_server option"
  wz_DiscoveryBeacon :: "(pairing_broadcaster \<times> broadcaster) option"
  wz_view :: string
  wz_calls :: "window_call list"

text \<open>What one operation draws from the rest of the program and the system.\<close>

record form_env =
  fe_platform :: platform
  fe_installed :: bool              \<comment> \<open>\<open>ServiceInstaller::IsInstalled\<close>\<close>
  fe_wsa :: bool                    \<comment> \<open>\<open>WSAStartup\<close> succeeds\<close>
  fe_serves :: bool                 \<comment> \<open>the server's socket can be set up and goes on accepting\<close>
  fe_rand_id :: "int \<times> bytes"       \<comment> \<open>\<open>RAND_bytes\<close> in \<open>RandomString(8)\<close>\<close>
  fe_rand_key :: "int \<times> bytes"      \<comment> \<open>\<open>RAND_bytes\<close> in \<open>RandomString(64)\<close>\<close>
  fe_saved_if :: NetworkInterface   \<comment> \<open>\<open>GetSavedNetworkInterface\<close>\<close>
  fe_pairingServerPort :: u16
  fe_discoveryPort :: u16
  fe_fs :: fs
  fe_hasPassword :: "string \<Rightarrow> bool"
  fe_checkLogin :: "string \<Rightarrow> string \<Rightarrow> (PlatformLoginResult \<times> u32) option"
  fe_tr :: "string \<Rightarrow> string"                         \<comment> \<open>\<open>I18n::Get\<close>\<close>
  fe_with_code :: "string \<Rightarrow> u32 \<Rightarrow> string"

definition show_error :: "string \<Rightarrow> wizard \<Rightarrow> wizard" where
  "show_error msg w = w\<lparr>wz_calls := wz_calls w @ [ShowError msg]\<rparr>"

definition MAIN_FORM :: string where "MAIN_FORM = ''qrc:/ui/forms/MainForm.qml''"

section \<open>The code the phone reads\<close>

definition BuildPairingPayload :: "'j json_lib \<Rightarrow> form_env \<Rightarrow> wizard \<Rightarrow> string option" where
  "BuildPairingPayload J e w =
     (let method = method_FromString (pm_pairingMethod (wz_PairingData w))
      in if pm_useLegacyPairing (wz_PairingData w) then
           j_dump J (LegacyPairingQRData_ToJson J
             (new_LegacyPairingQRData (ni_ipAddress (fe_saved_if e)) (fe_pairingServerPort e) method (wz_EncKey w)))
         else j_dump J (PairingQRData_ToJson J
             (new_PairingQRData (wz_ServerId w) (fe_discoveryPort e) method (wz_EncKey w))))"

definition GetPairingCode :: "'j json_lib \<Rightarrow> (string list \<Rightarrow> string \<Rightarrow> string) \<Rightarrow> form_env \<Rightarrow> wizard \<Rightarrow> string option" where
  "GetPairingCode J join e w = do {
     payload \<leftarrow> BuildPairingPayload J e w;
     Some (WithSeperators join (ToBase32String payload) ''-'' 5) }"

text \<open>
  \<open>GenerateSVG\<close>: the rows are drawn from top to bottom; a space is put in front of every path but one that starts at
  the corner. A text too long for a QR code is an exception.
\<close>

definition module_path :: "nat \<Rightarrow> nat \<Rightarrow> nat \<Rightarrow> string" where
  "module_path border x y =
     (if x \<noteq> 0 \<or> y \<noteq> 0 then '' '' else []) @ ''M'' @ nat_str (x + border) @ '','' @ nat_str (y + border) @ ''h1v1h-1z''"

definition svg_path :: "nat \<Rightarrow> nat \<Rightarrow> (nat \<Rightarrow> nat \<Rightarrow> bool) \<Rightarrow> string" where
  "svg_path border qrSize dark =
     concat (map (\<lambda>y. concat (map (\<lambda>x. if dark x y then module_path border x y else []) [0..<qrSize])) [0..<qrSize])"

definition QT :: string where "QT = [CHR 0x22]"

definition GenerateSVG :: "platform \<Rightarrow> string \<Rightarrow> string option" where
  "GenerateSVG pf text = do {
     qr \<leftarrow> (case encodeText pf (c_text text) MEDIUM of Inr qr \<Rightarrow> Some qr | Inl _ \<Rightarrow> None);
     let qrSize = getSize qr;
     let border = 2;
     let n = nat_str (qrSize + border * 2);
     Some (''<?xml version='' @ QT @ ''1.0'' @ QT @ '' encoding='' @ QT @ ''UTF-8'' @ QT @ ''?>'' @ NL @
       ''<!DOCTYPE svg PUBLIC '' @ QT @ ''-//W3C//DTD SVG 1.1//EN'' @ QT @ '' '' @ QT @
       ''http://www.w3.org/Graphics/SVG/1.1/DTD/svg11.dtd'' @ QT @ ''>'' @ NL @
       ''<svg xmlns='' @ QT @ ''http://www.w3.org/2000/svg'' @ QT @ '' version='' @ QT @ ''1.1'' @ QT @ '' viewBox='' @ QT @ ''0 0 '' @
       n @ '' '' @ n @ QT @ '' stroke='' @ QT @ ''none'' @ QT @ ''>'' @ NL @
       [CHR 0x09] @ ''<rect width='' @ QT @ ''100%'' @ QT @ '' height='' @ QT @ ''100%'' @ QT @ '' fill='' @ QT @ ''#FFFFFF'' @ QT @ ''/>'' @ NL @
       [CHR 0x09] @ ''<path d='' @ QT @ svg_path border qrSize (\<lambda>x y. getModule qr (int x) (int y)) @ QT @ '' fill='' @ QT @ ''#000000'' @ QT @ ''/>'' @ NL @
       ''</svg>'' @ NL) }"

definition GetQRImage :: "'j json_lib \<Rightarrow> form_env \<Rightarrow> wizard \<Rightarrow> string option" where
  "GetQRImage J e w = do {
     payload \<leftarrow> BuildPairingPayload J e w;
     qrSvg \<leftarrow> GenerateSVG (fe_platform e) payload;
     Some (''data:image/svg+xml;utf8,'' @ qrSvg) }"

section \<open>Steps\<close>

definition SetData :: "PairingAssistantModel \<Rightarrow> wizard \<Rightarrow> wizard" where
  "SetData d w = w\<lparr>wz_PairingData := d\<rparr>"

definition SetSkipPasswordCheck :: "bool \<Rightarrow> wizard \<Rightarrow> wizard" where
  "SetSkipPasswordCheck skip w = w\<lparr>wz_SkipPasswordCheck := skip\<rparr>"

definition GetNextStep :: "wizard \<Rightarrow> PairingStep" where
  "GetNextStep w = (case wz_CurrentStep w of
       USER_PASSWORD_SELECT \<Rightarrow> METHOD_TYPE_SELECT
     | METHOD_TYPE_SELECT \<Rightarrow> METHOD_SELECT
     | METHOD_SELECT \<Rightarrow>
         (if method_FromString (pm_pairingMethod (wz_PairingData w)) = BLUETOOTH then BLUETOOTH_DEVICE_SELECT else QR_SCAN)
     | BLUETOOTH_DEVICE_SELECT \<Rightarrow> BLUETOOTH_PAIRING
     | BLUETOOTH_PAIRING \<Rightarrow> QR_SCAN
     | QR_SCAN \<Rightarrow> STEP_NONE
     | STEP_NONE \<Rightarrow> USER_PASSWORD_SELECT)"

definition fresh_server :: "fs \<Rightarrow> pairing_server" where
  "fresh_server f = \<lparr>ps_UIData = \<lparr>ui_userName = [], ui_password = [], ui_encKey = [], ui_method = TCP, ui_macAddress = [],
       ui_btAddress = [], ui_useLegacy = False\<rparr>,
     ps_running = False, ps_joinable = False, ps_ServerSocket = - 1, ps_num = 0, ps_errors = [], ps_closed = [],
     ps_fs = f, ps_cred_prov = []\<rparr>"

text \<open>What the server is started with.\<close>

definition ui_data :: "form_env \<Rightarrow> string \<Rightarrow> PairingAssistantModel \<Rightarrow> PairingUIData" where
  "ui_data e encKey d =
     \<lparr>ui_userName = pm_userName d, ui_password = pm_password d, ui_encKey = encKey,
      ui_method = method_FromString (pm_pairingMethod d), ui_macAddress = ni_macAddress (fe_saved_if e),
      ui_btAddress = pm_bluetoothAddress d, ui_useLegacy = pm_useLegacyPairing d\<rparr>"

text \<open>The four parts of \<open>UpdateStepForm\<close>; \<open>None\<close> when the program ends or a join does not return.\<close>

definition update_server :: "form_env \<Rightarrow> wizard \<Rightarrow> wizard option" where
  "update_server e w =
     (if wz_CurrentStep w = QR_SCAN then do {
        let serverId = RandomString (fst (fe_rand_id e)) (snd (fe_rand_id e));
        let encKey = RandomString (fst (fe_rand_key e)) (snd (fe_rand_key e));
        (_, server) \<leftarrow> Pairing_Start (fe_platform e) (fe_wsa e) (ui_data e encKey (wz_PairingData w)) (fresh_server (fe_fs e));
        beacon \<leftarrow> (if pm_useLegacyPairing (wz_PairingData w) then Some None
          else do {
            (_, b) \<leftarrow> Broadcaster_Start \<lparr>ub_running = False, ub_joinable = False\<rparr>;
            Some (Some (\<lparr>bp_ServerId = serverId, bp_EncKey = encKey, bp_PairingPort = fe_pairingServerPort e,
              bp_DiscoveryPort = fe_discoveryPort e\<rparr>, b)) });
        Some (w\<lparr>wz_ServerId := serverId, wz_EncKey := encKey, wz_PairingServer := Some server, wz_DiscoveryBeacon := beacon\<rparr>) }
      else Some (w\<lparr>wz_ServerId := [], wz_EncKey := [], wz_PairingServer := map_option Pairing_Stop (wz_PairingServer w),
             wz_DiscoveryBeacon := None\<rparr>))"

definition update_method :: "wizard \<Rightarrow> wizard" where
  "update_method w =
     (if wz_CurrentStep w = METHOD_SELECT then
        (let defaultMethod = (if pm_pairingMethodType (wz_PairingData w) = ''AUTO'' then UDP else MANUAL_UDP)
         in w\<lparr>wz_PairingData := (wz_PairingData w)\<lparr>pm_pairingMethod := method_ToString defaultMethod\<rparr>\<rparr>)
      else w)"

text \<open>The scan thread ends only after the flag is cleared.\<close>

definition update_bluetooth :: "wizard \<Rightarrow> wizard option" where
  "update_bluetooth w = do {
     w \<leftarrow> (if wz_CurrentStep w = BLUETOOTH_DEVICE_SELECT then
             (if wz_ScanThread w \<and> wz_BtScan w then None else Some (w\<lparr>wz_BtScan := True, wz_ScanThread := True\<rparr>))
           else Some (w\<lparr>wz_BtScan := False\<rparr>));
     Some (if wz_CurrentStep w = BLUETOOTH_PAIRING then w\<lparr>wz_PairThread := True\<rparr> else w) }"

fun step_view :: "PairingStep \<Rightarrow> string" where
  "step_view USER_PASSWORD_SELECT = ''qrc:/ui/pairing/PairingPasswordForm.qml''"
| "step_view METHOD_TYPE_SELECT = ''qrc:/ui/pairing/PairingMethodTypeForm.qml''"
| "step_view METHOD_SELECT = ''qrc:/ui/pairing/PairingMethodForm.qml''"
| "step_view BLUETOOTH_DEVICE_SELECT = ''qrc:/ui/pairing/PairingBTSelectForm.qml''"
| "step_view BLUETOOTH_PAIRING = ''qrc:/ui/pairing/PairingBTPairForm.qml''"
| "step_view QR_SCAN = ''qrc:/ui/pairing/PairingQRForm.qml''"
| "step_view STEP_NONE = MAIN_FORM"

definition UpdateStepForm :: "form_env \<Rightarrow> wizard \<Rightarrow> wizard option" where
  "UpdateStepForm e w = do {
     w \<leftarrow> update_server e w;
     w \<leftarrow> update_bluetooth (update_method w);
     Some (w\<lparr>wz_view := step_view (wz_CurrentStep w)\<rparr>) }"

section \<open>The slots\<close>

definition Show :: "form_env \<Rightarrow> wizard \<Rightarrow> wizard" where
  "Show e w =
     (if \<not> fe_installed e then show_error (fe_tr e ''error_pairing_not_installed'') w
      else w\<lparr>wz_PairingData := (wz_PairingData w)\<lparr>pm_pairingMethodType := ''AUTO'', pm_pairingMethod := method_ToString UDP,
               pm_useLegacyPairing := False\<rparr>,
             wz_CurrentStep := USER_PASSWORD_SELECT, wz_StepStack := [], wz_SkipPasswordCheck := False,
             wz_view := step_view USER_PASSWORD_SELECT\<rparr>)"

definition OnBackClicked :: "form_env \<Rightarrow> wizard \<Rightarrow> wizard option" where
  "OnBackClicked e w = (case wz_StepStack w of
       [] \<Rightarrow> Some (w\<lparr>wz_view := MAIN_FORM\<rparr>)
     | step # rest \<Rightarrow> UpdateStepForm e (w\<lparr>wz_CurrentStep := step, wz_StepStack := rest\<rparr>))"

text \<open>The text for a result of \<open>CheckLogin\<close>, empty for a success, and \<open>canSkipCheck\<close>.\<close>

definition login_error :: "form_env \<Rightarrow> bool \<Rightarrow> PlatformLoginResult \<Rightarrow> u32 \<Rightarrow> string \<times> bool" where
  "login_error e isManual result errorCode = (case result of
       PL_INVALID_USER \<Rightarrow> (fe_tr e ''error_invalid_user_input'', False)
     | PL_INVALID_PASSWORD \<Rightarrow>
         (fe_tr e (if isManual then ''error_invalid_user_or_incorrect_password'' else ''error_incorrect_password''), True)
     | PL_ACCOUNT_LOCKED \<Rightarrow> (fe_tr e ''error_win_account_locked'', False)
     | PL_ACCOUNT_RESTRICTED \<Rightarrow> (fe_tr e ''error_win_account_restricted'', False)
     | PL_PW_EXPIRED \<Rightarrow> (fe_tr e ''error_win_password_expired'', False)
     | PL_ACCOUNT_DISABLED \<Rightarrow> (fe_tr e ''error_account_disabled'', False)
     | PL_LOGON_TYPE_DENIED \<Rightarrow> (fe_tr e ''error_win_logon_type_denied'', False)
     | PL_UNKNOWN_ERROR \<Rightarrow>
         (let errorStr = fe_tr e ''error_login_unknown''
          in if errorCode \<noteq> 0 then fe_with_code e errorStr errorCode else errorStr, False)
     | PL_SUCCESS \<Rightarrow> ([], False))"

text \<open>The checks of the first page: whether to go on, and the form afterwards.\<close>

definition check_password :: "form_env \<Rightarrow> wizard \<Rightarrow> (bool \<times> wizard) option" where
  "check_password e w =
     (let d = wz_PairingData w in
      if fe_platform e = Windows \<and> length (splitBy [CHR 0x5C] (pm_userName d)) \<noteq> 2 \<and> CHR ''@'' \<notin> set (pm_userName d) then
        Some (False, show_error (fe_tr e ''error_win_invalid_user'') w)
      else let skip = wz_SkipPasswordCheck w; w = w\<lparr>wz_SkipPasswordCheck := False\<rparr> in
      if skip then Some (True, w)
      else if \<not> fe_hasPassword e (pm_userName d) then
        Some (False, show_error (fe_tr e (if pm_isManualUserName d then ''error_invalid_user_or_no_password'' else ''error_user_no_password'')) w)
      else do {
        (result, errorCode) \<leftarrow> fe_checkLogin e (pm_userName d) (pm_password d);
        let (errorStr, canSkipCheck) = login_error e (pm_isManualUserName d) result errorCode;
        Some (if errorStr \<noteq> [] then
                (False, if canSkipCheck then w\<lparr>wz_calls := wz_calls w @ [ShowSkipPasswordCheck errorStr]\<rparr> else show_error errorStr w)
              else (True, w)) })"

definition OnNextClicked :: "form_env \<Rightarrow> wizard \<Rightarrow> wizard option" where
  "OnNextClicked e w = do {
     (ok, w) \<leftarrow> (if wz_CurrentStep w = USER_PASSWORD_SELECT then check_password e w else Some (True, w));
     if \<not> ok then Some w
     else let nextStep = GetNextStep w;
              w = (if wz_CurrentStep w \<noteq> STEP_NONE \<and> wz_CurrentStep w \<noteq> BLUETOOTH_PAIRING
                   then w\<lparr>wz_StepStack := wz_CurrentStep w # wz_StepStack w\<rparr> else w)
          in UpdateStepForm e (w\<lparr>wz_CurrentStep := nextStep\<rparr>) }"

section \<open>What the user interface offers\<close>

text \<open>
  The pages under \<open>desktop/qml\<close> offer these operations: the main page the assistant, the pages of the assistant
  back, next and their own fields, the Bluetooth page nothing until pairing has ended. The dialog for a wrong password
  is modal; with its box checked it sets the skip flag and goes on.
\<close>

record form_ui =
  fu_wizard :: wizard
  fu_dialog :: bool                          \<comment> \<open>the dialog is open\<close>
  fu_skipped :: "(string \<times> string) set"       \<comment> \<open>the credentials for which its box was checked\<close>

fun may_edit :: "PairingStep \<Rightarrow> PairingAssistantModel \<Rightarrow> PairingAssistantModel \<Rightarrow> bool" where
  "may_edit USER_PASSWORD_SELECT d d' \<longleftrightarrow> (\<exists>u p m. d' = d\<lparr>pm_userName := u, pm_password := p, pm_isManualUserName := m\<rparr>)"
| "may_edit METHOD_TYPE_SELECT d d' \<longleftrightarrow> (\<exists>t l. d' = d\<lparr>pm_pairingMethodType := t, pm_useLegacyPairing := l\<rparr>)"
| "may_edit METHOD_SELECT d d' \<longleftrightarrow> (\<exists>m. d' = d\<lparr>pm_pairingMethod := m\<rparr>)"
| "may_edit BLUETOOTH_DEVICE_SELECT d d' \<longleftrightarrow> (\<exists>a. d' = d\<lparr>pm_bluetoothAddress := a\<rparr>)"
| "may_edit _ d d' \<longleftrightarrow> False"

definition credentials :: "wizard \<Rightarrow> string \<times> string" where
  "credentials w = (pm_userName (wz_PairingData w), pm_password (wz_PairingData w))"

definition page_open :: "form_ui \<Rightarrow> PairingStep \<Rightarrow> bool" where
  "page_open s step \<longleftrightarrow> wz_view (fu_wizard s) = step_view step \<and> step \<noteq> STEP_NONE \<and> \<not> fu_dialog s"

definition opens_dialog :: "wizard \<Rightarrow> wizard \<Rightarrow> bool" where
  "opens_dialog w w' \<longleftrightarrow> (\<exists>m. wz_calls w' = wz_calls w @ [ShowSkipPasswordCheck m])"

text \<open>
  \<open>world\<close> tells what the operations may find. The threads of the server change it without touching \<open>m_UIData\<close> or joining
  its thread, and its accept thread clears \<open>m_IsRunning\<close> only when its socket fails.
\<close>

inductive form_step :: "(form_env \<Rightarrow> bool) \<Rightarrow> form_ui \<Rightarrow> form_ui \<Rightarrow> bool" for world where
  opened: "world e \<Longrightarrow> wz_view (fu_wizard s) = MAIN_FORM \<Longrightarrow> form_step world s (s\<lparr>fu_wizard := Show e (fu_wizard s), fu_skipped := {}\<rparr>)"
| edit: "page_open s step \<Longrightarrow> may_edit step (wz_PairingData (fu_wizard s)) d \<Longrightarrow>
    form_step world s (s\<lparr>fu_wizard := SetData d (fu_wizard s)\<rparr>)"
| go_on: "world e \<Longrightarrow> page_open s step \<Longrightarrow> OnNextClicked e (fu_wizard s) = Some w \<Longrightarrow>
    form_step world s (s\<lparr>fu_wizard := w, fu_dialog := opens_dialog (fu_wizard s) w\<rparr>)"
| go_back: "world e \<Longrightarrow> page_open s step \<Longrightarrow> step \<noteq> BLUETOOTH_PAIRING \<Longrightarrow> OnBackClicked e (fu_wizard s) = Some w \<Longrightarrow>
    form_step world s (s\<lparr>fu_wizard := w\<rparr>)"
| pairing_failed: "world e \<Longrightarrow> page_open s BLUETOOTH_PAIRING \<Longrightarrow> OnBackClicked e (show_error m (fu_wizard s)) = Some w \<Longrightarrow>
    form_step world s (s\<lparr>fu_wizard := w\<rparr>)"
| skip_check: "world e \<Longrightarrow> fu_dialog s \<Longrightarrow> OnNextClicked e (SetSkipPasswordCheck True (fu_wizard s)) = Some w \<Longrightarrow>
    form_step world s (s\<lparr>fu_wizard := w, fu_dialog := False, fu_skipped := insert (credentials (fu_wizard s)) (fu_skipped s)\<rparr>)"
| dismiss: "form_step world s (s\<lparr>fu_dialog := False\<rparr>)"
| server_runs: "wz_PairingServer (fu_wizard s) = Some v \<Longrightarrow> ps_UIData v' = ps_UIData v \<Longrightarrow> ps_joinable v' = ps_joinable v \<Longrightarrow>
    ps_running v' = ps_running v \<Longrightarrow> form_step world s (s\<lparr>fu_wizard := (fu_wizard s)\<lparr>wz_PairingServer := Some v'\<rparr>\<rparr>)"
| server_ends: "world e \<Longrightarrow> \<not> fe_serves e \<Longrightarrow> wz_PairingServer (fu_wizard s) = Some v \<Longrightarrow> ps_UIData v' = ps_UIData v \<Longrightarrow>
    ps_joinable v' = ps_joinable v \<Longrightarrow> \<not> ps_running v' \<Longrightarrow>
    form_step world s (s\<lparr>fu_wizard := (fu_wizard s)\<lparr>wz_PairingServer := Some v'\<rparr>\<rparr>)"

definition no_data :: PairingAssistantModel where
  "no_data = \<lparr>pm_userName = [], pm_password = [], pm_isManualUserName = False, pm_pairingMethodType = [],
     pm_pairingMethod = [], pm_bluetoothAddress = [], pm_useLegacyPairing = False\<rparr>"

definition new_wizard :: wizard where
  "new_wizard = \<lparr>wz_CurrentStep = USER_PASSWORD_SELECT, wz_StepStack = [], wz_EncKey = [], wz_ServerId = [], wz_PairingData = no_data,
     wz_SkipPasswordCheck = False, wz_BtScan = False, wz_ScanThread = False, wz_PairThread = False, wz_PairingServer = None,
     wz_DiscoveryBeacon = None, wz_view = MAIN_FORM, wz_calls = []\<rparr>"

definition form_init :: form_ui where
  "form_init = \<lparr>fu_wizard = new_wizard, fu_dialog = False, fu_skipped = {}\<rparr>"

abbreviation form_reaches :: "(form_env \<Rightarrow> bool) \<Rightarrow> form_ui \<Rightarrow> bool" where
  "form_reaches world s \<equiv> (form_step world)\<^sup>*\<^sup>* form_init s"

section \<open>The steps and their threads\<close>

text \<open>The steps before a step, the last first; a Bluetooth phone takes the longer way.\<close>

inductive path_to :: "PairingStep \<Rightarrow> PairingStep list \<Rightarrow> bool" where
  "path_to USER_PASSWORD_SELECT []"
| "path_to USER_PASSWORD_SELECT p \<Longrightarrow> path_to METHOD_TYPE_SELECT (USER_PASSWORD_SELECT # p)"
| "path_to METHOD_TYPE_SELECT p \<Longrightarrow> path_to METHOD_SELECT (METHOD_TYPE_SELECT # p)"
| "path_to METHOD_SELECT p \<Longrightarrow> path_to BLUETOOTH_DEVICE_SELECT (METHOD_SELECT # p)"
| "path_to BLUETOOTH_DEVICE_SELECT p \<Longrightarrow> path_to BLUETOOTH_PAIRING (BLUETOOTH_DEVICE_SELECT # p)"
| "path_to BLUETOOTH_DEVICE_SELECT p \<Longrightarrow> path_to QR_SCAN (BLUETOOTH_DEVICE_SELECT # p)"
| "path_to METHOD_SELECT p \<Longrightarrow> path_to QR_SCAN (METHOD_SELECT # p)"
| "path_to QR_SCAN p \<Longrightarrow> path_to STEP_NONE (QR_SCAN # p)"

inductive_simps path_to_simps: "path_to s []" "path_to s (t # p)"
  and path_to_step: "path_to USER_PASSWORD_SELECT p" "path_to BLUETOOTH_PAIRING p"

text \<open>What runs in a step: the server with the data of the form, or nothing; the beacon unless legacy pairing was chosen.\<close>

definition runs_in_step :: "wizard \<Rightarrow> bool" where
  "runs_in_step w \<longleftrightarrow>
     (if wz_CurrentStep w = QR_SCAN then
        (\<exists>v. wz_PairingServer w = Some v \<and> ui_encKey (ps_UIData v) = wz_EncKey w \<and>
           ui_userName (ps_UIData v) = pm_userName (wz_PairingData w) \<and> ui_password (ps_UIData v) = pm_password (wz_PairingData w) \<and>
           ui_method (ps_UIData v) = method_FromString (pm_pairingMethod (wz_PairingData w))) \<and>
        (if pm_useLegacyPairing (wz_PairingData w) then wz_DiscoveryBeacon w = None
         else \<exists>b t. wz_DiscoveryBeacon w = Some (b, t) \<and> ub_running t \<and> bp_ServerId b = wz_ServerId w \<and> bp_EncKey b = wz_EncKey w)
      else wz_EncKey w = [] \<and> wz_ServerId w = [] \<and> wz_DiscoveryBeacon w = None \<and>
        (\<forall>v. wz_PairingServer w = Some v \<longrightarrow> \<not> ps_running v))"

definition wizard_ok :: "wizard \<Rightarrow> bool" where
  "wizard_ok w \<longleftrightarrow> path_to (wz_CurrentStep w) (wz_StepStack w) \<and> runs_in_step w \<and>
     (wz_BtScan w \<longleftrightarrow> wz_CurrentStep w = BLUETOOTH_DEVICE_SELECT) \<and>
     (wz_view w = step_view (wz_CurrentStep w) \<or> wz_view w = MAIN_FORM \<and> wz_CurrentStep w = USER_PASSWORD_SELECT)"

lemma step_view_inject: "step_view a = step_view b \<longleftrightarrow> a = b"
  by (cases a; cases b) (simp_all add: MAIN_FORM_def)

lemma path_to_pop: "path_to s (t # p) \<Longrightarrow> path_to t p \<and> t \<noteq> s \<and> t \<noteq> BLUETOOTH_PAIRING \<and> t \<noteq> STEP_NONE"
  by (auto simp: path_to_simps)

lemma path_to_push:
  assumes "path_to (wz_CurrentStep w) (wz_StepStack w)" and "wz_CurrentStep w \<noteq> STEP_NONE"
  shows "path_to (GetNextStep w)
     (if wz_CurrentStep w \<noteq> BLUETOOTH_PAIRING then wz_CurrentStep w # wz_StepStack w else wz_StepStack w)"
  using assms by (cases "wz_CurrentStep w") (auto simp: GetNextStep_def path_to_step intro: path_to.intros)

lemma next_step_moves: "GetNextStep w \<noteq> wz_CurrentStep w"
  by (simp add: GetNextStep_def split: PairingStep.split)

lemma update_server_Some:
  "\<exists>w'. update_server e w = Some w' \<and> runs_in_step w' \<and>
     w' = w\<lparr>wz_ServerId := wz_ServerId w', wz_EncKey := wz_EncKey w', wz_PairingServer := wz_PairingServer w',
            wz_DiscoveryBeacon := wz_DiscoveryBeacon w'\<rparr>"
proof (cases "wz_CurrentStep w = QR_SCAN")
  case True
  then show ?thesis
    by (auto simp: update_server_def Pairing_Start_def fresh_server_def Broadcaster_Start_def runs_in_step_def ui_data_def Let_def)
next
  case False
  then show ?thesis by (auto simp: update_server_def runs_in_step_def Pairing_Stop_def Let_def)
qed

lemma UpdateStepForm_Some:
  assumes "wz_CurrentStep w = BLUETOOTH_DEVICE_SELECT \<Longrightarrow> \<not> wz_BtScan w"
    and "path_to (wz_CurrentStep w) (wz_StepStack w)"
  shows "\<exists>w'. UpdateStepForm e w = Some w' \<and> wizard_ok w' \<and> wz_CurrentStep w' = wz_CurrentStep w \<and>
    credentials w' = credentials w \<and> wz_calls w' = wz_calls w \<and> wz_SkipPasswordCheck w' = wz_SkipPasswordCheck w"
proof -
  obtain w1 where w1: "update_server e w = Some w1" "runs_in_step w1"
    "w1 = w\<lparr>wz_ServerId := wz_ServerId w1, wz_EncKey := wz_EncKey w1, wz_PairingServer := wz_PairingServer w1,
            wz_DiscoveryBeacon := wz_DiscoveryBeacon w1\<rparr>" (is "_ = ?w")
    using update_server_Some [of e w] by blast
  have f: "wz_CurrentStep w1 = wz_CurrentStep w" "wz_StepStack w1 = wz_StepStack w" "wz_BtScan w1 = wz_BtScan w"
    "wz_PairingData w1 = wz_PairingData w" "wz_calls w1 = wz_calls w" "wz_SkipPasswordCheck w1 = wz_SkipPasswordCheck w"
    "wz_ScanThread w1 = wz_ScanThread w" "wz_view w1 = wz_view w"
    by (subst w1(3), simp)+
  show ?thesis
    using w1(1,2) f assms
    by (cases "wz_CurrentStep w = BLUETOOTH_DEVICE_SELECT"; cases "wz_CurrentStep w = METHOD_SELECT")
       (auto simp: UpdateStepForm_def update_bluetooth_def update_method_def wizard_ok_def runs_in_step_def credentials_def Let_def)
qed

lemma check_password_calls:
  assumes "check_password e w = Some (ok, w1)"
  shows "\<exists>b cs. w1 = w\<lparr>wz_SkipPasswordCheck := b, wz_calls := wz_calls w @ cs\<rparr> \<and> (ok \<longrightarrow> cs = [] \<and> \<not> b) \<and> (b \<longrightarrow> wz_SkipPasswordCheck w)"
proof -
  consider (name) "fe_platform e = Windows \<and> length (splitBy [CHR 0x5C] (pm_userName (wz_PairingData w))) \<noteq> 2 \<and>
      CHR ''@'' \<notin> set (pm_userName (wz_PairingData w))"
    | (skip) "\<not> (fe_platform e = Windows \<and> length (splitBy [CHR 0x5C] (pm_userName (wz_PairingData w))) \<noteq> 2 \<and>
      CHR ''@'' \<notin> set (pm_userName (wz_PairingData w)))"
    by blast
  then show ?thesis
  proof cases
    case name
    then have "ok = False" "w1 = show_error (fe_tr e ''error_win_invalid_user'') w"
      using assms by (simp_all add: check_password_def Let_def)
    then show ?thesis
      by (intro exI [of _ "wz_SkipPasswordCheck w"] exI [of _ "[ShowError (fe_tr e ''error_win_invalid_user'')]"])
         (simp add: show_error_def)
  next
    case skip
    let ?w = "w\<lparr>wz_SkipPasswordCheck := False\<rparr>"
    have "\<exists>cs. w1 = ?w\<lparr>wz_calls := wz_calls w @ cs\<rparr> \<and> (ok \<longrightarrow> cs = [])"
    proof (cases "wz_SkipPasswordCheck w")
      case True
      then have "w1 = ?w" using assms skip by (simp add: check_password_def Let_def)
      then show ?thesis by (intro exI [of _ "[]"]) simp
    next
      case False
      show ?thesis
      proof (cases "fe_hasPassword e (pm_userName (wz_PairingData w))")
        case True
        then obtain r code where r: "fe_checkLogin e (pm_userName (wz_PairingData w)) (pm_password (wz_PairingData w)) = Some (r, code)"
          using assms skip False by (auto simp: check_password_def Let_def bind_eq_Some_conv)
        obtain errorStr can where "login_error e (pm_isManualUserName (wz_PairingData w)) r code = (errorStr, can)"
          by (cases "login_error e (pm_isManualUserName (wz_PairingData w)) r code")
        with r have "w1 = ?w\<lparr>wz_calls := wz_calls w @ (if errorStr = [] then [] else if can then [ShowSkipPasswordCheck errorStr] else [ShowError errorStr])\<rparr> \<and>
            (ok \<longrightarrow> errorStr = [])"
          using assms skip False True by (auto simp: check_password_def Let_def show_error_def split: if_splits)
        then show ?thesis
          by (intro exI [of _ "if errorStr = [] then [] else if can then [ShowSkipPasswordCheck errorStr] else [ShowError errorStr]"])
             simp
      next
        case no: False
        then have "\<not> ok \<and> (\<exists>m. w1 = ?w\<lparr>wz_calls := wz_calls w @ [ShowError m]\<rparr>)"
          using assms skip False by (auto simp: check_password_def Let_def show_error_def)
        then show ?thesis by auto
      qed
    qed
    then show ?thesis by auto
  qed
qed

lemma check_password_frame:
  assumes "check_password e w = Some (ok, w1)"
  shows "w1 = w\<lparr>wz_SkipPasswordCheck := wz_SkipPasswordCheck w1, wz_calls := wz_calls w1\<rparr>"
    and "ok \<longrightarrow> wz_calls w1 = wz_calls w \<and> \<not> wz_SkipPasswordCheck w1" and "wz_SkipPasswordCheck w1 \<longrightarrow> wz_SkipPasswordCheck w"
  using check_password_calls [OF assms] by auto

lemma wizard_ok_calls [simp]: "wizard_ok (w\<lparr>wz_calls := cs\<rparr>) = wizard_ok w" "wizard_ok (w\<lparr>wz_SkipPasswordCheck := b\<rparr>) = wizard_ok w"
  by (simp_all add: wizard_ok_def runs_in_step_def)

text \<open>The step after the checks of \<open>Next\<close>.\<close>

definition advance :: "wizard \<Rightarrow> wizard" where
  "advance w = (if wz_CurrentStep w \<noteq> STEP_NONE \<and> wz_CurrentStep w \<noteq> BLUETOOTH_PAIRING
     then w\<lparr>wz_StepStack := wz_CurrentStep w # wz_StepStack w\<rparr> else w)\<lparr>wz_CurrentStep := GetNextStep w\<rparr>"

lemma advance_update:
  assumes "wizard_ok w" and "wz_CurrentStep w \<noteq> STEP_NONE"
  shows "\<exists>w'. UpdateStepForm e (advance w) = Some w' \<and> wizard_ok w' \<and> wz_CurrentStep w' = GetNextStep w \<and>
    credentials w' = credentials w \<and> wz_calls w' = wz_calls w \<and> wz_SkipPasswordCheck w' = wz_SkipPasswordCheck w"
proof -
  have "path_to (wz_CurrentStep (advance w)) (wz_StepStack (advance w))"
    using path_to_push [of w] assms by (auto simp: wizard_ok_def advance_def split: if_splits)
  moreover have "\<not> wz_BtScan (advance w)" if "wz_CurrentStep (advance w) = BLUETOOTH_DEVICE_SELECT"
    using that assms(1) next_step_moves [of w] by (auto simp: wizard_ok_def advance_def split: if_splits)
  ultimately obtain w' where "UpdateStepForm e (advance w) = Some w'" "wizard_ok w'" "wz_CurrentStep w' = wz_CurrentStep (advance w)"
    "credentials w' = credentials (advance w)" "wz_calls w' = wz_calls (advance w)"
    "wz_SkipPasswordCheck w' = wz_SkipPasswordCheck (advance w)"
    using UpdateStepForm_Some [of "advance w" e] by blast
  then show ?thesis by (auto simp: advance_def credentials_def split: if_splits)
qed

lemma OnNext_advance:
  "OnNextClicked e w = do {
     (ok, w) \<leftarrow> (if wz_CurrentStep w = USER_PASSWORD_SELECT then check_password e w else Some (True, w));
     if ok then UpdateStepForm e (advance w) else Some w }"
  by (cases "wz_CurrentStep w = USER_PASSWORD_SELECT"; cases "check_password e w")
     (auto simp: OnNextClicked_def advance_def Let_def)

lemma check_password_wizard_ok:
  "check_password e w = Some (ok, w1) \<Longrightarrow> wizard_ok w1 = wizard_ok w \<and> wz_CurrentStep w1 = wz_CurrentStep w \<and>
    wz_view w1 = wz_view w \<and> wz_PairingData w1 = wz_PairingData w"
  by (drule check_password_calls) auto

text \<open>\<open>Next\<close> either stays on the first page or shows the next one.\<close>

lemma OnNext_cases:
  assumes "wizard_ok w" and "wz_CurrentStep w \<noteq> STEP_NONE" and "OnNextClicked e w = Some w'"
  obtains (stay) "wz_CurrentStep w = USER_PASSWORD_SELECT" and "check_password e w = Some (False, w')" and "wizard_ok w'"
  | (move) w1 where "wz_CurrentStep w = USER_PASSWORD_SELECT \<longrightarrow> check_password e w = Some (True, w1)"
      and "wz_CurrentStep w \<noteq> USER_PASSWORD_SELECT \<longrightarrow> w1 = w"
      and "wizard_ok w'" and "wz_CurrentStep w' = GetNextStep w" and "credentials w' = credentials w"
      and "wz_calls w' = wz_calls w1" and "wz_SkipPasswordCheck w' = wz_SkipPasswordCheck w1"
proof (cases "wz_CurrentStep w = USER_PASSWORD_SELECT")
  case True
  then obtain ok w1 where c: "check_password e w = Some (ok, w1)"
    using assms(3) by (auto simp: OnNext_advance bind_eq_Some_conv)
  note f = check_password_wizard_ok [OF c]
  show ?thesis
  proof (cases ok)
    case False
    then show ?thesis using True c assms f stay by (simp add: OnNext_advance)
  next
    case ok: True
    have "UpdateStepForm e (advance w1) = Some w'" using True c ok assms(3) by (simp add: OnNext_advance)
    then show ?thesis using advance_update [of w1 e] True c ok assms f
      by (intro move [of w1]) (auto simp: GetNextStep_def credentials_def)
  qed
next
  case False
  then show ?thesis using assms advance_update [of w e] by (intro move [of w]) (auto simp: OnNext_advance)
qed

lemma OnNext_returns:
  assumes "wizard_ok w" and "wz_CurrentStep w \<noteq> STEP_NONE" and "\<forall>u p. fe_checkLogin e u p \<noteq> None"
  shows "OnNextClicked e w \<noteq> None"
proof (cases "wz_CurrentStep w = USER_PASSWORD_SELECT")
  case True
  obtain r where "fe_checkLogin e (pm_userName (wz_PairingData w)) (pm_password (wz_PairingData w)) = Some r"
    using assms(3) by blast
  then have "check_password e w \<noteq> None" by (auto simp: check_password_def Let_def split: prod.split)
  then obtain ok w1 where c: "check_password e w = Some (ok, w1)" by auto
  then show ?thesis using True assms check_password_wizard_ok [OF c] advance_update [of w1 e]
    by (auto simp: OnNext_advance)
next
  case False
  then show ?thesis using assms advance_update [of w e] by (auto simp: OnNext_advance)
qed

lemma OnBack_cases:
  assumes "wizard_ok w" and "wz_view w = step_view (wz_CurrentStep w)"
  shows "\<exists>w'. OnBackClicked e w = Some w' \<and> wizard_ok w' \<and> credentials w' = credentials w \<and>
    wz_SkipPasswordCheck w' = wz_SkipPasswordCheck w \<and> (wz_CurrentStep w' \<notin> {USER_PASSWORD_SELECT, STEP_NONE} \<longrightarrow> wz_CurrentStep w \<noteq> USER_PASSWORD_SELECT)"
proof (cases "wz_StepStack w")
  case Nil
  then have "wz_CurrentStep w = USER_PASSWORD_SELECT"
    using assms(1) by (auto simp: wizard_ok_def path_to_simps)
  then show ?thesis using Nil assms(1)
    by (auto simp: OnBackClicked_def wizard_ok_def runs_in_step_def credentials_def)
next
  case (Cons step rest)
  then have p: "path_to step rest" "step \<noteq> wz_CurrentStep w" "path_to (wz_CurrentStep w) (step # rest)"
    using assms(1) path_to_pop by (auto simp: wizard_ok_def)
  let ?w = "w\<lparr>wz_CurrentStep := step, wz_StepStack := rest\<rparr>"
  have "wz_CurrentStep ?w = BLUETOOTH_DEVICE_SELECT \<Longrightarrow> \<not> wz_BtScan ?w"
    using p(2) assms(1) by (auto simp: wizard_ok_def)
  then obtain w' where "UpdateStepForm e ?w = Some w'" "wizard_ok w'" "wz_CurrentStep w' = wz_CurrentStep ?w"
    "credentials w' = credentials ?w" "wz_SkipPasswordCheck w' = wz_SkipPasswordCheck ?w"
    using UpdateStepForm_Some [of ?w e] p(1) by auto
  moreover have "wz_CurrentStep w \<noteq> USER_PASSWORD_SELECT"
    using p(3) by (auto simp: path_to_step)
  ultimately show ?thesis using Cons by (auto simp: OnBackClicked_def credentials_def)
qed

section \<open>The first page\<close>

definition name_ok :: "platform \<Rightarrow> wizard \<Rightarrow> bool" where
  "name_ok pf w \<longleftrightarrow> pf = Windows \<longrightarrow>
     length (splitBy [CHR 0x5C] (pm_userName (wz_PairingData w))) = 2 \<or> CHR ''@'' \<in> set (pm_userName (wz_PairingData w))"

text \<open>What the system can answer for credentials.\<close>

definition answered :: "(form_env \<Rightarrow> bool) \<Rightarrow> string \<times> string \<Rightarrow> PlatformLoginResult \<Rightarrow> bool" where
  "answered world c r \<longleftrightarrow> (\<exists>e code. world e \<and> fe_hasPassword e (fst c) \<and> fe_checkLogin e (fst c) (snd c) = Some (r, code))"

text \<open>No text of the program is empty; all operations run on one platform.\<close>

definition sound_world :: "platform \<Rightarrow> (form_env \<Rightarrow> bool) \<Rightarrow> bool" where
  "sound_world pf world \<longleftrightarrow>
     (\<forall>e. world e \<longrightarrow> fe_platform e = pf \<and> (\<forall>k. fe_tr e k \<noteq> []) \<and> (\<forall>t c. fe_with_code e t c \<noteq> []))"

lemma login_error_empty:
  "\<forall>k. fe_tr e k \<noteq> [] \<Longrightarrow> \<forall>t c. fe_with_code e t c \<noteq> [] \<Longrightarrow> fst (login_error e m r code) = [] \<longleftrightarrow> r = PL_SUCCESS"
  by (cases r) (simp_all add: login_error_def Let_def)

lemma login_error_skip: "snd (login_error e m r code) \<longleftrightarrow> r = PL_INVALID_PASSWORD"
  by (cases r) (simp_all add: login_error_def Let_def)

lemma check_password_ok:
  assumes "sound_world pf world" and "world e" and "check_password e w = Some (True, w1)" and "\<not> wz_SkipPasswordCheck w"
  shows "answered world (credentials w) PL_SUCCESS"
proof -
  have t: "\<forall>k. fe_tr e k \<noteq> []" "\<forall>t c. fe_with_code e t c \<noteq> []"
    using assms(1,2) by (auto simp: sound_world_def)
  have "fe_hasPassword e (pm_userName (wz_PairingData w))"
    using assms(3,4) by (auto simp: check_password_def Let_def split: if_splits)
  moreover from this obtain r code where r: "fe_checkLogin e (pm_userName (wz_PairingData w)) (pm_password (wz_PairingData w)) = Some (r, code)"
    using assms(3,4) by (auto simp: check_password_def Let_def bind_eq_Some_conv split: if_splits)
  moreover have "fst (login_error e (pm_isManualUserName (wz_PairingData w)) r code) = []"
    using assms(3,4) calculation by (auto simp: check_password_def Let_def split: if_splits prod.splits)
  ultimately show ?thesis
    using login_error_empty [OF t, of "pm_isManualUserName (wz_PairingData w)" r code] assms(2)
    by (auto simp: answered_def credentials_def)
qed

lemma check_password_dialog:
  assumes "sound_world pf world" and "world e" and "check_password e w = Some (ok, w1)" and "opens_dialog w w1"
  shows "name_ok pf w \<and> answered world (credentials w) PL_INVALID_PASSWORD \<and> \<not> wz_SkipPasswordCheck w1"
proof -
  have n: "name_ok pf w"
    using assms by (auto simp: name_ok_def sound_world_def check_password_def opens_dialog_def show_error_def Let_def split: if_splits)
  moreover have "\<not> wz_SkipPasswordCheck w"
    using assms(3,4) by (auto simp: check_password_def opens_dialog_def show_error_def Let_def split: if_splits)
  moreover have "fe_hasPassword e (pm_userName (wz_PairingData w))"
    using assms(3,4) calculation by (auto simp: check_password_def opens_dialog_def show_error_def Let_def split: if_splits)
  moreover from calculation obtain r code where r: "fe_checkLogin e (pm_userName (wz_PairingData w)) (pm_password (wz_PairingData w)) = Some (r, code)"
    using assms(3,4) by (auto simp: check_password_def opens_dialog_def show_error_def Let_def bind_eq_Some_conv split: if_splits)
  moreover have "snd (login_error e (pm_isManualUserName (wz_PairingData w)) r code)"
    using assms(3,4) calculation by (auto simp: check_password_def opens_dialog_def show_error_def Let_def split: if_splits prod.splits)
  moreover have "\<not> wz_SkipPasswordCheck w1" using check_password_frame(3) [OF assms(3)] calculation by blast
  ultimately show ?thesis
    using login_error_skip [of e "pm_isManualUserName (wz_PairingData w)" r code] assms(2)
    by (auto simp: answered_def credentials_def)
qed

section \<open>Invariants of the assistant\<close>

definition steps_ok :: "form_ui \<Rightarrow> bool" where
  "steps_ok s \<longleftrightarrow> wizard_ok (fu_wizard s) \<and>
     (fu_dialog s \<longrightarrow> wz_CurrentStep (fu_wizard s) = USER_PASSWORD_SELECT \<and> wz_view (fu_wizard s) = step_view USER_PASSWORD_SELECT)"

lemma page_open_step:
  assumes "steps_ok s" and "page_open s step"
  shows "step = wz_CurrentStep (fu_wizard s) \<and> step \<noteq> STEP_NONE \<and> \<not> fu_dialog s \<and>
    wz_view (fu_wizard s) = step_view (wz_CurrentStep (fu_wizard s))"
proof -
  have p: "wz_view (fu_wizard s) = step_view step" "step \<noteq> STEP_NONE" "\<not> fu_dialog s"
    using assms(2) by (simp_all add: page_open_def)
  have "wz_view (fu_wizard s) = step_view (wz_CurrentStep (fu_wizard s)) \<or> wz_view (fu_wizard s) = step_view STEP_NONE"
    using assms(1) by (auto simp: steps_ok_def wizard_ok_def)
  then show ?thesis using p step_view_inject by metis
qed

lemma main_form_step: "wizard_ok w \<Longrightarrow> wz_view w = MAIN_FORM \<Longrightarrow> wz_CurrentStep w = USER_PASSWORD_SELECT \<or> wz_CurrentStep w = STEP_NONE"
  by (cases "wz_CurrentStep w") (auto simp: wizard_ok_def MAIN_FORM_def)

lemma wizard_ok_Show:
  assumes "wizard_ok w" and "wz_view w = MAIN_FORM"
  shows "wizard_ok (Show e w)"
proof -
  have "wz_CurrentStep w \<noteq> QR_SCAN \<and> wz_CurrentStep w \<noteq> BLUETOOTH_DEVICE_SELECT"
    using main_form_step [OF assms] by auto
  then show ?thesis using assms(1)
    by (cases "fe_installed e") (simp_all add: Show_def show_error_def wizard_ok_def runs_in_step_def path_to.intros)
qed

lemma wizard_ok_edit:
  "wizard_ok w \<Longrightarrow> may_edit (wz_CurrentStep w) (wz_PairingData w) d \<Longrightarrow> wizard_ok (SetData d w)"
  by (cases "wz_CurrentStep w") (auto simp: SetData_def wizard_ok_def runs_in_step_def)

lemma wizard_ok_server:
  "wizard_ok w \<Longrightarrow> wz_PairingServer w = Some v \<Longrightarrow> ps_UIData v' = ps_UIData v \<Longrightarrow> (ps_running v' \<longrightarrow> ps_running v) \<Longrightarrow>
    wizard_ok (w\<lparr>wz_PairingServer := Some v'\<rparr>)"
  by (auto simp: wizard_ok_def runs_in_step_def)

lemma steps_ok_next:
  assumes "steps_ok s" and "page_open s step" and "OnNextClicked e (fu_wizard s) = Some w"
  shows "steps_ok (s\<lparr>fu_wizard := w, fu_dialog := opens_dialog (fu_wizard s) w\<rparr>)"
proof -
  note p = page_open_step [OF assms(1,2)]
  have ok: "wizard_ok (fu_wizard s)" and ne: "wz_CurrentStep (fu_wizard s) \<noteq> STEP_NONE"
    using assms(1) p by (auto simp: steps_ok_def)
  from ok ne assms(3) show ?thesis
  proof (cases rule: OnNext_cases)
    case stay
    then show ?thesis using p check_password_wizard_ok [OF stay(2)] by (simp add: steps_ok_def)
  next
    case (move w1)
    have "wz_calls w1 = wz_calls (fu_wizard s)"
      using move(1,2) check_password_frame(2) by (cases "wz_CurrentStep (fu_wizard s) = USER_PASSWORD_SELECT") auto
    then show ?thesis using move by (simp add: steps_ok_def opens_dialog_def)
  qed
qed

lemma steps_ok_skip:
  assumes "steps_ok s" and "fu_dialog s" and "OnNextClicked e (SetSkipPasswordCheck True (fu_wizard s)) = Some w"
  shows "wizard_ok w"
proof -
  have "wizard_ok (SetSkipPasswordCheck True (fu_wizard s))" "wz_CurrentStep (SetSkipPasswordCheck True (fu_wizard s)) \<noteq> STEP_NONE"
    using assms(1,2) by (auto simp: steps_ok_def SetSkipPasswordCheck_def)
  then show ?thesis using assms(3) by (cases rule: OnNext_cases) auto
qed

lemma OnBack_ok: "wizard_ok w \<Longrightarrow> wz_view w = step_view (wz_CurrentStep w) \<Longrightarrow> OnBackClicked e w = Some w' \<Longrightarrow> wizard_ok w'"
  using OnBack_cases [of w e] by auto

lemma steps_ok_step:
  assumes "form_step world s t" and "steps_ok s"
  shows "steps_ok t"
  using assms
proof (cases rule: form_step.cases)
  case (opened e)
  then have "\<not> fu_dialog s" using assms(2) by (auto simp: steps_ok_def MAIN_FORM_def)
  with opened assms(2) wizard_ok_Show show ?thesis by (simp add: steps_ok_def)
next
  case (edit step d)
  then show ?thesis using assms(2) page_open_step [OF assms(2)] wizard_ok_edit by (auto simp: steps_ok_def)
next
  case (go_on e step w)
  then show ?thesis using steps_ok_next assms(2) by blast
next
  case (go_back e step w)
  then show ?thesis using assms(2) page_open_step [OF assms(2)] OnBack_ok by (auto simp: steps_ok_def)
next
  case (pairing_failed e m w)
  then show ?thesis using assms(2) page_open_step [OF assms(2)] OnBack_ok [of "show_error m (fu_wizard s)" e w]
    by (auto simp: steps_ok_def show_error_def)
next
  case (skip_check e w)
  then show ?thesis using steps_ok_skip assms(2) by (simp add: steps_ok_def)
next
  case dismiss
  then show ?thesis using assms(2) by (simp add: steps_ok_def)
next
  case (server_runs v v')
  then show ?thesis using assms(2) wizard_ok_server by (auto simp: steps_ok_def)
next
  case (server_ends e v v')
  then show ?thesis using assms(2) wizard_ok_server by (auto simp: steps_ok_def)
qed

lemma form_init_ok: "steps_ok form_init"
  by (auto simp: steps_ok_def form_init_def new_wizard_def wizard_ok_def runs_in_step_def intro: path_to.intros)

lemma form_reaches_ok: "form_reaches world s \<Longrightarrow> steps_ok s"
  by (induction rule: rtranclp_induct) (use form_init_ok steps_ok_step in blast)+

definition vetted_inv :: "platform \<Rightarrow> (form_env \<Rightarrow> bool) \<Rightarrow> form_ui \<Rightarrow> bool" where
  "vetted_inv pf world s \<longleftrightarrow> \<not> wz_SkipPasswordCheck (fu_wizard s) \<and>
     (\<forall>c \<in> fu_skipped s. answered world c PL_INVALID_PASSWORD) \<and>
     (fu_dialog s \<longrightarrow> name_ok pf (fu_wizard s) \<and> answered world (credentials (fu_wizard s)) PL_INVALID_PASSWORD) \<and>
     (wz_CurrentStep (fu_wizard s) \<notin> {USER_PASSWORD_SELECT, STEP_NONE} \<longrightarrow>
        answered world (credentials (fu_wizard s)) PL_SUCCESS \<or> credentials (fu_wizard s) \<in> fu_skipped s)"

lemma check_password_skips:
  "name_ok (fe_platform e) w \<Longrightarrow> wz_SkipPasswordCheck w \<Longrightarrow> check_password e w = Some (True, w\<lparr>wz_SkipPasswordCheck := False\<rparr>)"
  by (auto simp: name_ok_def check_password_def Let_def)

lemma vetted_next:
  assumes "sound_world pf world" and "world e" and "steps_ok s" and "vetted_inv pf world s" and "page_open s step"
    and "OnNextClicked e (fu_wizard s) = Some w"
  shows "vetted_inv pf world (s\<lparr>fu_wizard := w, fu_dialog := opens_dialog (fu_wizard s) w\<rparr>)"
proof -
  let ?w = "fu_wizard s"
  note p = page_open_step [OF assms(3,5)]
  have ok: "wizard_ok ?w" "wz_CurrentStep ?w \<noteq> STEP_NONE" using assms(3) p by (auto simp: steps_ok_def)
  have v: "\<not> wz_SkipPasswordCheck ?w" "\<forall>c \<in> fu_skipped s. answered world c PL_INVALID_PASSWORD"
    "wz_CurrentStep ?w \<notin> {USER_PASSWORD_SELECT, STEP_NONE} \<Longrightarrow> answered world (credentials ?w) PL_SUCCESS \<or> credentials ?w \<in> fu_skipped s"
    using assms(4) by (auto simp: vetted_inv_def)
  from ok assms(6) show ?thesis
  proof (cases rule: OnNext_cases)
    case stay
    have "name_ok pf w \<and> answered world (credentials w) PL_INVALID_PASSWORD" if "opens_dialog ?w w"
      using check_password_dialog [OF assms(1,2) stay(2) that] check_password_wizard_ok [OF stay(2)]
      by (simp add: name_ok_def credentials_def)
    then show ?thesis using v(1,2) stay(1) check_password_frame(3) [OF stay(2)] check_password_wizard_ok [OF stay(2)]
      by (auto simp: vetted_inv_def)
  next
    case (move w1)
    have "wz_calls w1 = wz_calls ?w" "\<not> wz_SkipPasswordCheck w1"
      using move(1,2) v(1) check_password_frame(2) by (cases "wz_CurrentStep ?w = USER_PASSWORD_SELECT"; auto)+
    moreover have "answered world (credentials ?w) PL_SUCCESS \<or> credentials ?w \<in> fu_skipped s"
      using v(3) ok(2) check_password_ok [OF assms(1,2) _ v(1)] move(1)
      by (cases "wz_CurrentStep ?w = USER_PASSWORD_SELECT") auto
    ultimately show ?thesis using v(2) move by (simp add: vetted_inv_def opens_dialog_def)
  qed
qed

lemma vetted_skip:
  assumes "sound_world pf world" and "world e" and "steps_ok s" and "vetted_inv pf world s" and "fu_dialog s"
    and "OnNextClicked e (SetSkipPasswordCheck True (fu_wizard s)) = Some w"
  shows "vetted_inv pf world (s\<lparr>fu_wizard := w, fu_dialog := False, fu_skipped := insert (credentials (fu_wizard s)) (fu_skipped s)\<rparr>)"
proof -
  let ?w = "SetSkipPasswordCheck True (fu_wizard s)"
  have ok: "wizard_ok ?w" "wz_CurrentStep ?w \<noteq> STEP_NONE" "wz_CurrentStep ?w = USER_PASSWORD_SELECT" "credentials ?w = credentials (fu_wizard s)"
    using assms(3,5) by (auto simp: steps_ok_def SetSkipPasswordCheck_def credentials_def)
  have "name_ok (fe_platform e) ?w"
    using assms(1,2,4,5) by (simp add: vetted_inv_def sound_world_def SetSkipPasswordCheck_def name_ok_def)
  then have c: "check_password e ?w = Some (True, ?w\<lparr>wz_SkipPasswordCheck := False\<rparr>)"
    by (rule check_password_skips) (simp add: SetSkipPasswordCheck_def)
  from ok(1,2) assms(6) show ?thesis
  proof (cases rule: OnNext_cases)
    case stay
    then show ?thesis using c by simp
  next
    case (move w1)
    then have "w1 = ?w\<lparr>wz_SkipPasswordCheck := False\<rparr>" using c ok(3) by simp
    then have "\<not> wz_SkipPasswordCheck w" using move by simp
    then show ?thesis using move ok(4) assms(4,5) by (simp add: vetted_inv_def)
  qed
qed

lemma vetted_back:
  assumes "vetted_inv pf world s" and "wizard_ok w" and "wz_view w = step_view (wz_CurrentStep w)" and "\<not> fu_dialog s"
    and "w = fu_wizard s\<lparr>wz_calls := cs\<rparr>" and "OnBackClicked e w = Some w'" and "wz_CurrentStep w \<noteq> STEP_NONE"
  shows "vetted_inv pf world (s\<lparr>fu_wizard := w'\<rparr>)"
  using OnBack_cases [OF assms(2,3), of e] assms(1,4-7) by (auto simp: vetted_inv_def credentials_def)

lemma vetted_step:
  assumes "form_step world s t" and "sound_world pf world" and "steps_ok s" and "vetted_inv pf world s"
  shows "vetted_inv pf world t"
  using assms(1)
proof (cases rule: form_step.cases)
  case (opened e)
  then have "\<not> fu_dialog s" "wz_CurrentStep (fu_wizard s) \<in> {USER_PASSWORD_SELECT, STEP_NONE}"
    using assms(3) main_form_step [of "fu_wizard s"] by (auto simp: steps_ok_def MAIN_FORM_def)
  with opened assms(4) show ?thesis by (auto simp: vetted_inv_def Show_def show_error_def)
next
  case (edit step d)
  then show ?thesis using assms(4) page_open_step [OF assms(3) edit(2)]
    by (cases step) (auto simp: vetted_inv_def SetData_def credentials_def)
next
  case (go_on e step w)
  then show ?thesis using vetted_next assms(2-4) by blast
next
  case (go_back e step w)
  then show ?thesis using page_open_step [OF assms(3) go_back(3)] assms(3)
    vetted_back [OF assms(4), of "fu_wizard s" "wz_calls (fu_wizard s)" e w] by (auto simp: steps_ok_def)
next
  case (pairing_failed e m w)
  then show ?thesis using page_open_step [OF assms(3) pairing_failed(3)] assms(3)
    vetted_back [OF assms(4), of "show_error m (fu_wizard s)" "wz_calls (fu_wizard s) @ [ShowError m]" e w]
    by (auto simp: steps_ok_def show_error_def)
next
  case (skip_check e w)
  then show ?thesis using vetted_skip assms(2-4) by blast
next
  case dismiss
  then show ?thesis using assms(4) by (simp add: vetted_inv_def)
next
  case (server_runs v v')
  then show ?thesis using assms(4) by (simp add: vetted_inv_def credentials_def name_ok_def)
next
  case (server_ends e v v')
  then show ?thesis using assms(4) by (simp add: vetted_inv_def credentials_def name_ok_def)
qed

lemma form_reaches_vetted:
  assumes "sound_world pf world" and "form_reaches world s"
  shows "vetted_inv pf world s"
  using assms(2)
proof (induction rule: rtranclp_induct)
  case base
  show ?case by (simp add: vetted_inv_def form_init_def new_wizard_def)
next
  case (step s t)
  then show ?case using vetted_step [OF step.hyps(2) assms(1)] form_reaches_ok [OF step.hyps(1)] by blast
qed

section \<open>Properties\<close>

lemma runs_in_step_server:
  "runs_in_step w \<Longrightarrow> wz_CurrentStep w = QR_SCAN \<Longrightarrow> wz_PairingServer w = Some v \<Longrightarrow>
    ui_encKey (ps_UIData v) = wz_EncKey w \<and> credentials w = (ui_userName (ps_UIData v), ui_password (ps_UIData v))"
  by (auto simp: runs_in_step_def credentials_def)

text \<open>In the last step the server has been started, and runs until its thread is joined.\<close>

definition sockets_work :: "(form_env \<Rightarrow> bool) \<Rightarrow> bool" where
  "sockets_work world \<longleftrightarrow> (\<forall>e. world e \<longrightarrow> fe_serves e \<and> (fe_platform e = Windows \<longrightarrow> fe_wsa e))"

definition server_up :: "wizard \<Rightarrow> bool" where
  "server_up w \<longleftrightarrow> (wz_CurrentStep w = QR_SCAN \<longrightarrow> (\<exists>v. wz_PairingServer w = Some v \<and> ps_running v \<and> ps_joinable v))"

lemma update_server_up:
  assumes "fe_platform e = Windows \<longrightarrow> fe_wsa e" and "update_server e w = Some w1"
  shows "server_up w1"
  using assms
  by (cases "wz_CurrentStep w = QR_SCAN"; cases "pm_useLegacyPairing (wz_PairingData w)")
     (auto simp: update_server_def Pairing_Start_def fresh_server_def Broadcaster_Start_def server_up_def Let_def)

lemma UpdateStepForm_up:
  assumes "fe_platform e = Windows \<longrightarrow> fe_wsa e" and "UpdateStepForm e w = Some w'"
  shows "server_up w'"
proof -
  obtain w1 where w1: "update_server e w = Some w1" "update_bluetooth (update_method w1) \<noteq> None"
    "w' = (the (update_bluetooth (update_method w1)))\<lparr>wz_view := step_view (wz_CurrentStep (the (update_bluetooth (update_method w1))))\<rparr>"
    using assms(2) by (auto simp: UpdateStepForm_def bind_eq_Some_conv)
  have "wz_CurrentStep w' = wz_CurrentStep w1 \<and> wz_PairingServer w' = wz_PairingServer w1"
    using w1(2,3) by (auto simp: update_bluetooth_def update_method_def Let_def bind_eq_Some_conv split: if_splits)
  with update_server_up [OF assms(1) w1(1)] show ?thesis by (simp add: server_up_def)
qed

lemma OnNext_up:
  assumes "fe_platform e = Windows \<longrightarrow> fe_wsa e" and "OnNextClicked e w = Some w'" and "server_up w"
  shows "server_up w'"
proof -
  obtain ok w1 where c: "(if wz_CurrentStep w = USER_PASSWORD_SELECT then check_password e w else Some (True, w)) = Some (ok, w1)"
    "(if ok then UpdateStepForm e (advance w1) else Some w1) = Some w'"
    using assms(2) by (auto simp: OnNext_advance bind_eq_Some_conv)
  show ?thesis
  proof (cases ok)
    case True
    then show ?thesis using UpdateStepForm_up [OF assms(1)] c(2) by simp
  next
    case False
    then have "wz_CurrentStep w = USER_PASSWORD_SELECT" "check_password e w = Some (False, w')"
      using c by (auto split: if_splits)
    then show ?thesis using check_password_wizard_ok [of e w False w'] by (simp add: server_up_def)
  qed
qed

lemma OnBack_up:
  assumes "fe_platform e = Windows \<longrightarrow> fe_wsa e" and "OnBackClicked e w = Some w'" and "server_up w"
  shows "server_up w'"
  using assms UpdateStepForm_up [OF assms(1)]
  by (cases "wz_StepStack w") (auto simp: OnBackClicked_def server_up_def)

lemma server_up_step:
  assumes "form_step world s t" and "sockets_work world" and "server_up (fu_wizard s)"
  shows "server_up (fu_wizard t)"
proof -
  have wsa: "fe_platform e = Windows \<longrightarrow> fe_wsa e" if "world e" for e using assms(2) that by (simp add: sockets_work_def)
  show ?thesis
    using assms(1)
  proof (cases rule: form_step.cases)
    case (opened e)
    then show ?thesis using assms(3) by (simp add: server_up_def Show_def show_error_def)
  next
    case (go_on e step w)
    then show ?thesis using OnNext_up [OF wsa] assms(3) by simp
  next
    case (go_back e step w)
    then show ?thesis using OnBack_up [OF wsa] assms(3) by simp
  next
    case (pairing_failed e m w)
    then show ?thesis using OnBack_up [OF wsa, of e "show_error m (fu_wizard s)" w] assms(3)
      by (simp add: server_up_def show_error_def)
  next
    case (skip_check e w)
    then show ?thesis using OnNext_up [OF wsa, of e "SetSkipPasswordCheck True (fu_wizard s)" w] assms(3)
      by (simp add: server_up_def SetSkipPasswordCheck_def)
  next
    case (server_ends e v v')
    then show ?thesis using assms(2) by (simp add: sockets_work_def)
  qed (use assms(3) in \<open>auto simp: server_up_def SetData_def\<close>)
qed

lemma form_reaches_up:
  assumes "form_reaches world s" and "sockets_work world"
  shows "server_up (fu_wizard s)"
  using assms(1)
proof (induction rule: rtranclp_induct)
  case base
  show ?case by (simp add: server_up_def form_init_def new_wizard_def)
next
  case (step s t)
  then show ?case using server_up_step assms(2) by blast
qed


text \<open>
  The pairing server runs only with credentials that the system accepted in \<open>CheckLogin\<close>, or that it refused as
  a wrong password while the user insisted; an unknown user or a locked account cannot be paired.
\<close>

theorem wizard_checks_password:
  assumes "sound_world pf world" and "form_reaches world s" and "wz_CurrentStep (fu_wizard s) = QR_SCAN"
  shows "\<exists>v c. wz_PairingServer (fu_wizard s) = Some v \<and> c = (ui_userName (ps_UIData v), ui_password (ps_UIData v)) \<and>
    (answered world c PL_SUCCESS \<or> c \<in> fu_skipped s \<and> answered world c PL_INVALID_PASSWORD)"
proof -
  have r: "runs_in_step (fu_wizard s)" using form_reaches_ok [OF assms(2)] by (simp add: steps_ok_def wizard_ok_def)
  then obtain v where v: "wz_PairingServer (fu_wizard s) = Some v" using assms(3) by (auto simp: runs_in_step_def)
  from runs_in_step_server [OF r assms(3) v] form_reaches_vetted [OF assms(1,2)] assms(3) v
  show ?thesis by (intro exI [of _ v]) (auto simp: vetted_inv_def)
qed

lemma b32_no_dash: "CHR ''-'' \<notin> set (ToBase32String s)"
proof -
  have d: "CHR ''-'' \<noteq> base32_alphabet ! bits_val g" if "g \<in> set (group5 bs)" for g bs
  proof -
    have "bits_val g < length base32_alphabet"
      using bits_val_less [of g] group5_lengths [OF that] by (simp add: base32_alphabet_def)
    then have "base32_alphabet ! bits_val g \<in> set base32_alphabet" by simp
    then show ?thesis by (auto simp: base32_alphabet_def)
  qed
  show ?thesis using d [of _ "concat (map byte_bits (bytes_of s))"] by (auto simp: ToBase32String_spec base32_spec_def)
qed

lemma filter_intercalate: "(\<forall>c \<in> set sep. \<not> P c) \<Longrightarrow> filter P (intercalate sep xs) = concat (map (filter P) xs)"
  by (induction sep xs rule: intercalate.induct) auto

lemma dashes_removed: "filter (\<lambda>c. c \<noteq> CHR ''-'') (intercalate ''-'' (chunks 5 (ToBase32String s))) = ToBase32String s"
proof -
  have "filter (\<lambda>c. c \<noteq> CHR ''-'') (intercalate ''-'' (chunks 5 (ToBase32String s))) =
      filter (\<lambda>c. c \<noteq> CHR ''-'') (concat (chunks 5 (ToBase32String s)))"
    by (simp add: filter_intercalate filter_concat)
  also have "\<dots> = ToBase32String s"
    using b32_no_dash [of s] by (auto simp: concat_chunks filter_id_conv)
  finally show ?thesis .
qed

text \<open>
  C35: From the pairing code a phone reads what the running server was started with: dropping the dashes and decoding
  Base32 gives a JSON object with the key and the method of the server and, unless legacy pairing was chosen, the id
  its beacon announces.
\<close>

theorem pairing_code_decodes:
  assumes "json_laws J" and "\<And>xs sep. join xs sep = intercalate sep xs" and "form_reaches world s"
    and "wz_PairingServer (fu_wizard s) = Some v" and "wz_CurrentStep (fu_wizard s) = QR_SCAN"
    and "GetPairingCode J join e (fu_wizard s) = Some code"
  shows "\<exists>j. j_parse J (FromBase32_spec (filter (\<lambda>c. c \<noteq> CHR ''-'') code)) = Some j \<and>
    get_string J j ''encKey'' = Some (ui_encKey (ps_UIData v)) \<and>
    get_string J j ''method'' = Some (method_ToString (ui_method (ps_UIData v))) \<and>
    (if pm_useLegacyPairing (wz_PairingData (fu_wizard s))
     then get_string J j ''ip'' = Some (ni_ipAddress (fe_saved_if e)) \<and> get_u16 J j ''port'' = Some (fe_pairingServerPort e)
     else \<exists>b t. wz_DiscoveryBeacon (fu_wizard s) = Some (b, t) \<and> get_string J j ''serverId'' = Some (bp_ServerId b) \<and>
       bp_EncKey b = ui_encKey (ps_UIData v))"
proof -
  let ?w = "fu_wizard s"
  let ?m = "method_FromString (pm_pairingMethod (wz_PairingData ?w))"
  have r: "runs_in_step ?w" using form_reaches_ok [OF assms(3)] by (simp add: steps_ok_def wizard_ok_def)
  then have v: "ui_encKey (ps_UIData v) = wz_EncKey ?w" "ui_method (ps_UIData v) = ?m"
    using assms(4,5) by (auto simp: runs_in_step_def)
  obtain payload where p: "BuildPairingPayload J e ?w = Some payload"
    "code = join (chunks 5 (ToBase32String payload)) ''-''"
    using assms(6) by (auto simp: GetPairingCode_def WithSeperators_def bind_eq_Some_conv)
  then have d: "FromBase32_spec (filter (\<lambda>c. c \<noteq> CHR ''-'') code) = payload"
    by (simp add: assms(2) dashes_removed FromBase32_ToBase32)
  show ?thesis
  proof (cases "pm_useLegacyPairing (wz_PairingData ?w)")
    case True
    let ?q = "new_LegacyPairingQRData (ni_ipAddress (fe_saved_if e)) (fe_pairingServerPort e) ?m (wz_EncKey ?w)"
    have "j_parse J payload = Some (LegacyPairingQRData_ToJson J ?q)"
      using p(1) True by (intro json_parse_dump [OF assms(1)]) (simp_all add: BuildPairingPayload_def Let_def)
    then show ?thesis using d v True
      by (simp add: LegacyPairingQRData_ToJson_def new_LegacyPairingQRData_def json_get_object [OF assms(1)])
  next
    case False
    let ?q = "new_PairingQRData (wz_ServerId ?w) (fe_discoveryPort e) ?m (wz_EncKey ?w)"
    have "j_parse J payload = Some (PairingQRData_ToJson J ?q)"
      using p(1) False by (intro json_parse_dump [OF assms(1)]) (simp_all add: BuildPairingPayload_def Let_def)
    then show ?thesis using d v False r assms(5)
      by (auto simp: runs_in_step_def PairingQRData_ToJson_def new_PairingQRData_def json_get_object [OF assms(1)])
  qed
qed

section \<open>Witnesses\<close>

definition demo_form :: form_env where
  "demo_form = \<lparr>fe_platform = Linux, fe_installed = True, fe_wsa = True, fe_serves = True, fe_rand_id = (1, [0]), fe_rand_key = (1, [0, 0]),
     fe_saved_if = new_interface, fe_pairingServerPort = 43298, fe_discoveryPort = 43297, fe_fs = demo_fs,
     fe_hasPassword = (\<lambda>u. u \<noteq> []),
     fe_checkLogin = (\<lambda>u p. Some (if c_text p = ''pw'' then PL_SUCCESS else PL_INVALID_PASSWORD, 0)),
     fe_tr = (\<lambda>k. ''text''), fe_with_code = (\<lambda>t c. ''text'')\<rparr>"

definition demo_filled :: wizard where
  "demo_filled = SetData \<lparr>pm_userName = ''u'', pm_password = ''pw'', pm_isManualUserName = False, pm_pairingMethodType = ''AUTO'',
     pm_pairingMethod = method_ToString UDP, pm_bluetoothAddress = [], pm_useLegacyPairing = False\<rparr> (Show demo_form new_wizard)"

text \<open>The user fills in the first page and clicks \<open>Next\<close> three times.\<close>

definition demo_scan :: form_ui where
  "demo_scan = \<lparr>fu_wizard = the (do {
     w \<leftarrow> OnNextClicked demo_form demo_filled;
     w \<leftarrow> OnNextClicked demo_form w;
     OnNextClicked demo_form w }), fu_dialog = False, fu_skipped = {}\<rparr>"

lemma demo_world: "sound_world Linux (\<lambda>e. e = demo_form)"
  by (simp add: sound_world_def demo_form_def)

lemmas demo_form_simps = c_text_def demo_form_def demo_filled_def new_wizard_def no_data_def SetData_def Show_def OnNextClicked_def check_password_def
  login_error_def GetNextStep_def UpdateStepForm_def update_server_def update_method_def update_bluetooth_def
  Pairing_Start_def fresh_server_def Broadcaster_Start_def ui_data_def method_FromString_def Let_def

lemma demo_steps:
  obtains w1 w2 w3 where "OnNextClicked demo_form demo_filled = Some w1" and "OnNextClicked demo_form w1 = Some w2"
    and "OnNextClicked demo_form w2 = Some w3" and "wz_view demo_filled = step_view USER_PASSWORD_SELECT"
    and "wz_view w1 = step_view METHOD_TYPE_SELECT" and "wz_view w2 = step_view METHOD_SELECT"
    and "wz_calls demo_filled = []" "wz_calls w1 = []" "wz_calls w2 = []" "wz_calls w3 = []"
    and "wz_CurrentStep w3 = QR_SCAN" and "credentials w3 = (''u'', ''pw'')" and "wz_EncKey w3 = RandomString 1 [0, 0]"
    and "pm_useLegacyPairing (wz_PairingData w3) = False" and "wz_ServerId w3 = RandomString 1 [0]"
    and "pm_pairingMethod (wz_PairingData w3) = ''UDP''"
proof (rule that)
  let ?w1 = "demo_filled\<lparr>wz_CurrentStep := METHOD_TYPE_SELECT, wz_StepStack := [USER_PASSWORD_SELECT],
    wz_view := step_view METHOD_TYPE_SELECT\<rparr>"
  show "OnNextClicked demo_form demo_filled = Some ?w1" by (simp add: demo_form_simps)
  let ?w2 = "?w1\<lparr>wz_CurrentStep := METHOD_SELECT, wz_StepStack := [METHOD_TYPE_SELECT, USER_PASSWORD_SELECT],
    wz_view := step_view METHOD_SELECT\<rparr>"
  show "OnNextClicked demo_form ?w1 = Some ?w2" by (simp add: demo_form_simps)
  show "OnNextClicked demo_form ?w2 = Some (the (OnNextClicked demo_form ?w2))" by (simp add: demo_form_simps)
qed (simp_all add: demo_form_simps credentials_def)

lemma demo_reaches: "form_reaches (\<lambda>e. e = demo_form) demo_scan \<and> wz_CurrentStep (fu_wizard demo_scan) = QR_SCAN"
proof -
  obtain w1 w2 w3 where w: "OnNextClicked demo_form demo_filled = Some w1" "OnNextClicked demo_form w1 = Some w2"
    "OnNextClicked demo_form w2 = Some w3" "wz_view demo_filled = step_view USER_PASSWORD_SELECT"
    "wz_view w1 = step_view METHOD_TYPE_SELECT" "wz_view w2 = step_view METHOD_SELECT"
    "wz_calls demo_filled = []" "wz_calls w1 = []" "wz_calls w2 = []" "wz_calls w3 = []" "wz_CurrentStep w3 = QR_SCAN"
    by (rule demo_steps)
  let ?s = "\<lambda>w. \<lparr>fu_wizard = w, fu_dialog = False, fu_skipped = {}\<rparr>"
  let ?R = "form_step (\<lambda>e. e = demo_form)"
  have n: "?R (?s w) (?s w')" if "OnNextClicked demo_form w = Some w'" "wz_view w = step_view step" "step \<noteq> STEP_NONE"
    "wz_calls w = []" "wz_calls w' = []" for w w' step
    using form_step.go_on [of "\<lambda>e. e = demo_form" demo_form "?s w" step w'] that by (simp add: page_open_def opens_dialog_def)
  have "?R form_init (?s (Show demo_form new_wizard))"
    using form_step.opened [of "\<lambda>e. e = demo_form" demo_form form_init] by (simp add: form_init_def new_wizard_def)
  moreover have "?R (?s (Show demo_form new_wizard)) (?s demo_filled)"
    using form_step.edit [of "?s (Show demo_form new_wizard)" USER_PASSWORD_SELECT "wz_PairingData demo_filled" "\<lambda>e. e = demo_form"]
    by (auto simp: page_open_def demo_filled_def SetData_def Show_def demo_form_def new_wizard_def no_data_def)
  ultimately have "form_reaches (\<lambda>e. e = demo_form) (?s w3)"
    using n [OF w(1,4)] n [OF w(2,5)] n [OF w(3,6)] w(7-10) by (auto intro: rtranclp.rtrancl_into_rtrancl)
  then show ?thesis using w by (simp add: demo_scan_def)
qed


lemma wizard_checks_password_witness:
  "\<exists>v. wz_PairingServer (fu_wizard demo_scan) = Some v \<and> ui_userName (ps_UIData v) = ''u'' \<and>
    answered (\<lambda>e. e = demo_form) (''u'', ui_password (ps_UIData v)) PL_SUCCESS"
proof -
  obtain w1 w2 w3 where w: "OnNextClicked demo_form demo_filled = Some w1" "OnNextClicked demo_form w1 = Some w2"
    "OnNextClicked demo_form w2 = Some w3" "wz_CurrentStep w3 = QR_SCAN" "credentials w3 = (''u'', ''pw'')"
    by (rule demo_steps)
  then have d: "demo_scan = \<lparr>fu_wizard = w3, fu_dialog = False, fu_skipped = {}\<rparr>" by (simp add: demo_scan_def)
  obtain v where v: "wz_PairingServer (fu_wizard demo_scan) = Some v"
    "answered (\<lambda>e. e = demo_form) (ui_userName (ps_UIData v), ui_password (ps_UIData v)) PL_SUCCESS"
    using wizard_checks_password [OF demo_world conjunct1 [OF demo_reaches] conjunct2 [OF demo_reaches]] by (auto simp: d)
  have "runs_in_step w3" using form_reaches_ok [OF conjunct1 [OF demo_reaches]] by (simp add: steps_ok_def wizard_ok_def d)
  from runs_in_step_server [OF this w(4)] v w(5) show ?thesis by (auto simp: d)
qed

lemma pairing_code_decodes_witness:
  "\<exists>code j. GetPairingCode toy_json (\<lambda>xs sep. intercalate sep xs) demo_form (fu_wizard demo_scan) = Some code \<and>
    j_parse toy_json (FromBase32_spec (filter (\<lambda>c. c \<noteq> CHR ''-'') code)) = Some j \<and>
    get_string toy_json j ''encKey'' = Some (RandomString 1 [0, 0])"
proof -
  obtain w1 w2 w3 where w: "OnNextClicked demo_form demo_filled = Some w1" "OnNextClicked demo_form w1 = Some w2"
    "OnNextClicked demo_form w2 = Some w3" "wz_CurrentStep w3 = QR_SCAN" "wz_EncKey w3 = RandomString 1 [0, 0]"
    "pm_useLegacyPairing (wz_PairingData w3) = False"
    by (rule demo_steps)
  then have d: "fu_wizard demo_scan = w3" by (simp add: demo_scan_def)
  have r: "runs_in_step w3" using form_reaches_ok [OF conjunct1 [OF demo_reaches]] by (simp add: steps_ok_def wizard_ok_def d)
  then obtain v where v: "wz_PairingServer w3 = Some v" using w(4) by (auto simp: runs_in_step_def)
  obtain code where code: "GetPairingCode toy_json (\<lambda>xs sep. intercalate sep xs) demo_form w3 = Some code"
    using w(6) by (simp add: GetPairingCode_def BuildPairingPayload_def Let_def toy_json_def)
  show ?thesis
    using pairing_code_decodes [OF toy_json_laws refl conjunct1 [OF demo_reaches], unfolded d, OF v w(4) code]
      runs_in_step_server [OF r w(4) v] w(5) code d by auto
qed

end
