(* ===== verification/WinPlatform.thy ===== *)
theory WinPlatform
  imports ServiceInstaller PlatformHelper PairedDevicesStorage
begin

text \<open>
  The Windows side of the platform layer: \<open>common/src/utils/RegistryUtils.cpp\<close>,
  \<open>common/src/platform/PlatformHelper.Win.cpp\<close> and \<open>desktop/src/installer/ServiceInstaller.Win.cpp\<close>. Wide strings
  are the strings they are converted from; what the Windows functions answer are arguments.
\<close>

section \<open>The registry\<close>

text \<open>The values of the keys that exist, as raw bytes, and whether keys can be opened and created.\<close>

record registry =
  rg_values :: "string \<Rightarrow> (string \<rightharpoonup> string) option"
  rg_may_read :: "string \<Rightarrow> bool"
  rg_may_write :: "string \<Rightarrow> bool"
  rg_may_create :: "string \<Rightarrow> bool"

definition GetStringValue :: "registry \<Rightarrow> string \<Rightarrow> string \<Rightarrow> string option" where
  "GetStringValue r subKey valueName =
     (case rg_values r subKey of
        None \<Rightarrow> None
      | Some vals \<Rightarrow>
          if \<not> rg_may_read r subKey then None
          else case vals valueName of
            None \<Rightarrow> None
          | Some data \<Rightarrow> Some (if data \<noteq> [] \<and> last data = CHR 0x00 then butlast data else data))"

definition SetStringValue :: "string \<Rightarrow> string \<Rightarrow> string \<Rightarrow> registry \<Rightarrow> bool \<times> registry" where
  "SetStringValue subKey valueName newValue r =
     (case rg_values r subKey of
        None \<Rightarrow> (False, r)
      | Some vals \<Rightarrow>
          if \<not> rg_may_write r subKey then (False, r)
          else (True, r\<lparr>rg_values := (rg_values r)(subKey := Some (vals(valueName \<mapsto> newValue @ [CHR 0x00])))\<rparr>))"

text \<open>Creating a key that exists opens it.\<close>

definition CreateKey :: "string \<Rightarrow> registry \<Rightarrow> bool \<times> registry" where
  "CreateKey subKey r =
     (if \<not> rg_may_create r subKey then (False, r)
      else (True, if rg_values r subKey = None then r\<lparr>rg_values := (rg_values r)(subKey := Some Map.empty)\<rparr> else r))"

definition SetStringValueOrCreate :: "string \<Rightarrow> string \<Rightarrow> string \<Rightarrow> registry \<Rightarrow> bool \<times> registry" where
  "SetStringValueOrCreate subKey valueName newValue r =
     (let (ok, r1) = SetStringValue subKey valueName newValue r in
      if ok then (True, r1)
      else let (ok, r2) = CreateKey subKey r1 in
      if \<not> ok then (False, r2)
      else SetStringValue subKey valueName newValue r2)"

lemma SetStringValueOrCreate_result:
  assumes "rg_may_write r subKey" and "rg_values r subKey \<noteq> None \<or> rg_may_create r subKey" and "rg_may_read r subKey"
  shows "\<exists>r'. SetStringValueOrCreate subKey valueName v r = (True, r') \<and> GetStringValue r' subKey valueName = Some v \<and>
    (\<forall>k n. (k, n) \<noteq> (subKey, valueName) \<longrightarrow> GetStringValue r' k n = GetStringValue r k n)"
  using assms
  by (cases "rg_values r subKey")
     (auto simp: SetStringValueOrCreate_def SetStringValue_def CreateKey_def GetStringValue_def split: option.splits)

section \<open>Users\<close>

text \<open>An entry of \<open>NetUserEnum\<close>; \<open>None\<close> for the list is a failed call.\<close>

record win_user =
  wu_name :: string
  wu_disabled :: bool
  wu_lockout :: bool
  wu_normal :: bool

text \<open>\<open>netInfo\<close>: provider and principal of the internet identity in \<open>NetUserGetInfo\<close>, if the account has one.\<close>

definition ResolveMSAccount :: "(string \<Rightarrow> (string \<times> string) option) \<Rightarrow> string \<Rightarrow> string \<Rightarrow> string" where
  "ResolveMSAccount netInfo domainStr userNameStr =
     (case netInfo userNameStr of
        Some (provider, name) \<Rightarrow>
          if provider \<noteq> [] \<and> name \<noteq> [] then provider @ [CHR 0x5C] @ name
          else domainStr @ [CHR 0x5C] @ userNameStr
      | None \<Rightarrow> domainStr @ [CHR 0x5C] @ userNameStr)"

definition usable :: "win_user \<Rightarrow> bool" where
  "usable u \<longleftrightarrow> \<not> (wu_disabled u \<or> wu_lockout u \<or> \<not> wu_normal u)"

definition Win_GetAllUsers :: "win_user list option \<Rightarrow> string \<Rightarrow> (string \<Rightarrow> (string \<times> string) option) \<Rightarrow> string list" where
  "Win_GetAllUsers users computerName netInfo =
     (case users of
        None \<Rightarrow> []
      | Some us \<Rightarrow> map (\<lambda>u. ResolveMSAccount netInfo computerName (wu_name u)) (filter usable us))"

text \<open>The user and the domain of the console session, where there is one.\<close>

definition Win_GetCurrentUser :: "bool \<Rightarrow> string option \<Rightarrow> string option \<Rightarrow> (string \<Rightarrow> (string \<times> string) option) \<Rightarrow> string" where
  "Win_GetCurrentUser hasSession userName domainName netInfo =
     (if \<not> hasSession then []
      else case userName of
        None \<Rightarrow> []
      | Some u \<Rightarrow> (case domainName of None \<Rightarrow> [] | Some d \<Rightarrow> ResolveMSAccount netInfo d u))"

text \<open>The loop that maps the name of a Microsoft account to a local one; it stops at the first match.\<close>

fun local_account :: "string \<Rightarrow> bool \<Rightarrow> string \<Rightarrow> (string \<Rightarrow> (string \<times> string) option) \<Rightarrow> win_user list \<Rightarrow> string" where
  "local_account accountUserName isPrincipalName computerName netInfo [] = accountUserName"
| "local_account accountUserName isPrincipalName computerName netInfo (u # us) =
     (if \<not> usable u then local_account accountUserName isPrincipalName computerName netInfo us
      else
        let resolvedName = ResolveMSAccount netInfo computerName (wu_name u);
            principalName = (if CHR 0x5C \<in> set resolvedName
              then drop 1 (dropWhile (\<lambda>c. c \<noteq> CHR 0x5C) resolvedName) else resolvedName)
        in if resolvedName = accountUserName \<or> isPrincipalName \<and> ToLower principalName = ToLower accountUserName
           then computerName @ [CHR 0x5C] @ wu_name u
           else local_account accountUserName isPrincipalName computerName netInfo us)"

text \<open>\<open>sidOf\<close>: the SID of an account as a string, if it can be looked up and converted.\<close>

definition GetSidFromUserName :: "win_user list option \<Rightarrow> string \<Rightarrow> (string \<Rightarrow> (string \<times> string) option) \<Rightarrow> (string \<Rightarrow> string option) \<Rightarrow>
    string \<Rightarrow> string" where
  "GetSidFromUserName users computerName netInfo sidOf userName =
     (let isPrincipalName = CHR 0x5C \<notin> set userName \<and> CHR ''@'' \<in> set userName;
          lookup = (\<lambda>name. case sidOf name of None \<Rightarrow> [] | Some sid \<Rightarrow> sid)
      in if starts_with userName (''MicrosoftAccount'' @ [CHR 0x5C]) \<or> isPrincipalName then
           (case users of
              None \<Rightarrow> []
            | Some us \<Rightarrow> lookup (local_account userName isPrincipalName computerName netInfo us))
         else lookup userName)"

text \<open>Domain and user; the domain is empty for a principal name.\<close>

definition SplitUserName :: "string \<Rightarrow> (string \<times> string) option" where
  "SplitUserName userName =
     (let parts = splitBy [CHR 0x5C] userName in
      if length parts = 2 then Some (parts ! 0, parts ! 1)
      else if length parts = 1 \<and> CHR ''@'' \<in> set userName then Some ([], parts ! 0)
      else None)"

text \<open>
  \<open>logon user domain password\<close>: whether \<open>LogonUserW\<close> succeeds, and what \<open>GetLastError\<close> answers after it. An empty
  domain is passed as a null pointer.
\<close>

definition win_domain :: "string \<Rightarrow> string option" where
  "win_domain d = (if d = [] then None else Some d)"

definition Win_HasUserPassword :: "(string \<Rightarrow> string option \<Rightarrow> string \<Rightarrow> bool \<times> u32) \<Rightarrow> string \<Rightarrow> bool" where
  "Win_HasUserPassword logon userName =
     (case SplitUserName userName of
        None \<Rightarrow> False
      | Some (domain, user) \<Rightarrow> snd (logon user (win_domain domain) []) \<noteq> 1327)"

definition Win_CheckLogin :: "(string \<Rightarrow> string option \<Rightarrow> string \<Rightarrow> bool \<times> u32) \<Rightarrow> string \<Rightarrow> string \<Rightarrow> PlatformLoginResult \<times> u32" where
  "Win_CheckLogin logon userName password =
     (case SplitUserName userName of
        None \<Rightarrow> (PL_INVALID_USER, 0)
      | Some (domain, user) \<Rightarrow>
          (let (result, err) = logon user (win_domain domain) password in
           if result then (PL_SUCCESS, 0)
           else if err = 1317 then (PL_INVALID_USER, err)
           else if err = 1326 then (PL_INVALID_PASSWORD, err)
           else if err = 1909 then (PL_ACCOUNT_LOCKED, err)
           else if err = 1327 then (PL_ACCOUNT_RESTRICTED, err)
           else if err = 1330 \<or> err = 1907 then (PL_PW_EXPIRED, err)
           else if err = 1331 then (PL_ACCOUNT_DISABLED, err)
           else if err = 1385 then (PL_LOGON_TYPE_DENIED, err)
           else (PL_UNKNOWN_ERROR, err)))"

definition USER_TILE :: string where
  "USER_TILE = ''SOFTWARE'' @ [CHR 0x5C] @ ''Microsoft'' @ [CHR 0x5C] @ ''Windows'' @ [CHR 0x5C] @ ''CurrentVersion'' @ [CHR 0x5C] @
     ''Authentication'' @ [CHR 0x5C] @ ''LogonUI'' @ [CHR 0x5C] @ ''UserTile''"

definition SetDefaultCredProv :: "(string \<Rightarrow> string) \<Rightarrow> string \<Rightarrow> string \<Rightarrow> registry \<Rightarrow> bool \<times> registry" where
  "SetDefaultCredProv sid userName provId r =
     (if sid userName = [] then (False, r) else SetStringValueOrCreate USER_TILE (sid userName) provId r)"

lemma Win_CheckLogin_success:
  "fst (Win_CheckLogin logon userName password) = PL_SUCCESS \<longleftrightarrow>
   (\<exists>domain user. SplitUserName userName = Some (domain, user) \<and> fst (logon user (win_domain domain) password))"
  by (auto simp: Win_CheckLogin_def Let_def split: option.splits prod.splits)

text \<open>The name without a domain is looked up as it is, unless it is a Microsoft account.\<close>

lemma local_account_plain:
  "(\<forall>u \<in> set us. usable u \<longrightarrow> ResolveMSAccount netInfo c (wu_name u) \<noteq> name) \<Longrightarrow> local_account name False c netInfo us = name"
  by (induction us) (auto simp: Let_def)

lemma local_account_found:
  assumes "u \<in> set us" and "usable u" and "netInfo (wu_name u) = Some (p, q)" and "p \<noteq> []" and "q \<noteq> []"
    and "\<forall>u' \<in> set us. usable u' \<longrightarrow> ResolveMSAccount netInfo c (wu_name u') = p @ [CHR 0x5C] @ q \<longrightarrow> u' = u"
  shows "local_account (p @ [CHR 0x5C] @ q) False c netInfo us = c @ [CHR 0x5C] @ wu_name u"
  using assms
proof (induction us)
  case (Cons u' us)
  show ?case
  proof (cases "u' = u")
    case True
    then show ?thesis using Cons.prems(2-5) by (simp add: ResolveMSAccount_def Let_def)
  next
    case False
    have us: "u \<in> set us" "\<forall>v \<in> set us. usable v \<longrightarrow> ResolveMSAccount netInfo c (wu_name v) = p @ [CHR 0x5C] @ q \<longrightarrow> v = u"
      using False Cons.prems(1,6) by (auto simp del: append_Cons append.simps)
    have "local_account (p @ [CHR 0x5C] @ q) False c netInfo us = c @ [CHR 0x5C] @ wu_name u"
      by (rule Cons.IH [OF us(1) Cons.prems(2-5) us(2)])
    moreover have "usable u' \<Longrightarrow> ResolveMSAccount netInfo c (wu_name u') \<noteq> p @ [CHR 0x5C] @ q"
      using False Cons.prems(6) by (meson list.set_intros(1))
    ultimately show ?thesis by (simp add: Let_def)
  qed
qed simp

section \<open>Installation on Windows\<close>

definition LIB_MODULE_FILE :: string where "LIB_MODULE_FILE = ''win-pcbiounlock.dll''"

definition CRED_PROVIDER_NAME :: string where "CRED_PROVIDER_NAME = ''win-pcbiounlock''"

definition CRED_PROVIDER_GUID :: string where "CRED_PROVIDER_GUID = ''{74A23DE2-B81D-46EC-E129-CD32507ED716}''"

definition APP_FIREWALL_RULE_NAME :: string where "APP_FIREWALL_RULE_NAME = ''PC Bio Unlock''"

definition LOGONUI_FIREWALL_RULE_NAME :: string where "LOGONUI_FIREWALL_RULE_NAME = ''LogonUI (PC Bio Unlock)''"

text \<open>
  What the installer finds: the answer of \<open>GetSystemDirectoryW\<close>, the path of the program (if it is known and exists)
  and for which users the default provider can be set. Removing the firewall rules of a program is an external
  action, recorded like a command.
\<close>

record win_env =
  we_sysDir :: "string option"
  we_exePath :: "string option"
  we_credProv :: "string \<Rightarrow> bool"

definition win_path :: "string \<Rightarrow> string \<Rightarrow> string" where
  "win_path dir file = dir @ [CHR 0x5C] @ file"

definition GetSysDir :: "win_env \<Rightarrow> string" where
  "GetSysDir we = (case we_sysDir we of Some d \<Rightarrow> d
     | None \<Rightarrow> ''C:'' @ [CHR 0x5C] @ ''Windows'' @ [CHR 0x5C] @ ''System32'')"

definition Win_GetSettings :: "install_env \<Rightarrow> ServiceSetting list install" where
  "Win_GetSettings e = with_settings (\<lambda>settings. return
     [choice ''unlockBehavior'' (ie_tr e ''service_setting_unlock_behavior'')
        [(''foreground_lock_only'', ie_tr e ''unlock_behavior_foreground_lock_only''),
         (''foreground_always'', ie_tr e ''unlock_behavior_foreground_always''),
         (''key_press_lock_only'', ie_tr e ''unlock_behavior_key_press_lock_only''),
         (''key_press'', ie_tr e ''unlock_behavior_key_press''),
         (''none'', ie_tr e ''unlock_behavior_none'')]
        (as_winUnlockBehavior settings) ''key_press_lock_only'',
      toggle ''hidePasswordField'' (ie_tr e ''service_setting_hide_pw_field'') (as_winHidePasswordField settings) False,
      toggle ''forceCredProv'' (ie_tr e ''service_setting_force_cred_prov'') (as_winForceDefaultCredProv settings) True])"

definition Win_ApplySetting :: "bool \<Rightarrow> ServiceSetting \<Rightarrow> unit install" where
  "Win_ApplySetting useDefault setting s =
     (let isEnabled = (if useDefault then ss_defaultVal setting else ss_enabled setting) in
      (Inr (),
       if ss_id setting = ''unlockBehavior'' then save_settings ((is_settings s)\<lparr>as_winUnlockBehavior :=
         (if useDefault then ss_defaultValue setting else ss_selectedValue setting)\<rparr>) s
       else if ss_id setting = ''hidePasswordField'' then save_settings ((is_settings s)\<lparr>as_winHidePasswordField := isEnabled\<rparr>) s
       else if ss_id setting = ''forceCredProv'' then save_settings ((is_settings s)\<lparr>as_winForceDefaultCredProv := isEnabled\<rparr>) s
       else s))"

definition Win_ApplySettings :: "ServiceSetting list \<Rightarrow> bool \<Rightarrow> unit install" where
  "Win_ApplySettings settings useDefault = each (Win_ApplySetting useDefault) settings"

definition Win_IsInstalled :: "win_env \<Rightarrow> fs \<Rightarrow> bool" where
  "Win_IsInstalled we f \<longleftrightarrow> exists_path f (win_path (GetSysDir we) LIB_MODULE_FILE)"

definition QUOT :: "string \<Rightarrow> string" where "QUOT x = [CHR 0x22] @ x @ [CHR 0x22]"

definition PROVIDERS_KEY :: string where
  "PROVIDERS_KEY = ''HKEY_LOCAL_MACHINE'' @ [CHR 0x5C] @ ''SOFTWARE'' @ [CHR 0x5C] @ ''Microsoft'' @ [CHR 0x5C] @ ''Windows'' @ [CHR 0x5C] @
     ''CurrentVersion'' @ [CHR 0x5C] @ ''Authentication'' @ [CHR 0x5C] @ ''Credential Providers'' @ [CHR 0x5C] @ CRED_PROVIDER_GUID"

definition CLSID_KEY :: string where
  "CLSID_KEY = ''HKEY_CLASSES_ROOT'' @ [CHR 0x5C] @ ''CLSID'' @ [CHR 0x5C] @ CRED_PROVIDER_GUID"

definition reg_add_commands :: "string list" where
  "reg_add_commands =
     [''reg add '' @ QUOT PROVIDERS_KEY @ '' /t REG_SZ /d '' @ CRED_PROVIDER_NAME @ '' /f'',
      ''reg add '' @ QUOT CLSID_KEY @ '' /t REG_SZ /d '' @ CRED_PROVIDER_NAME @ '' /f'',
      ''reg add '' @ QUOT (CLSID_KEY @ [CHR 0x5C] @ ''InprocServer32'') @ '' /t REG_SZ /d '' @ CRED_PROVIDER_NAME @ '' /f'',
      ''reg add '' @ QUOT (CLSID_KEY @ [CHR 0x5C] @ ''InprocServer32'') @ '' /t REG_SZ /v ThreadingModel /d Apartment /f'']"

definition reg_delete_commands :: "string list" where
  "reg_delete_commands = [''reg delete '' @ QUOT PROVIDERS_KEY @ '' /f'', ''reg delete '' @ QUOT CLSID_KEY @ '' /f'']"

definition netsh_add :: "string \<Rightarrow> string \<Rightarrow> string" where
  "netsh_add rule program = ''netsh advfirewall firewall add rule name='' @ QUOT rule @ '' dir=in program='' @ QUOT program @
     '' profile=any action=allow''"

definition netsh_delete :: "string \<Rightarrow> string" where
  "netsh_delete rule = ''netsh advfirewall firewall delete rule name='' @ QUOT rule"

definition remove_program_rules :: "string \<Rightarrow> unit install" where
  "remove_program_rules program s = (Inr (), s\<lparr>is_cmds := is_cmds s @ [''RemoveAllRulesForProgram '' @ program]\<rparr>)"

text \<open>A command whose failure is only reported.\<close>

definition try_run :: "install_env \<Rightarrow> string \<Rightarrow> string \<Rightarrow> unit install" where
  "try_run e cmd msg = and_then (run_ok Windows e cmd) (\<lambda>ok. if ok then return () else logging msg)"

definition write_provider :: "install_env \<Rightarrow> win_env \<Rightarrow> unit install" where
  "write_provider e we =
     (let libPath = win_path (GetSysDir we) LIB_MODULE_FILE in
      seq_install (logging ''Copying credential provider...'') (
      and_then (on_fs (\<lambda>f. WriteBytes f libPath (ie_resource e LIB_MODULE_FILE))) (\<lambda>ok.
      check ok (ie_trf e ''error_file_write'' libPath))))"

definition add_registry :: "install_env \<Rightarrow> unit install" where
  "add_registry e =
     seq_install (logging ''Creating registry entries...'') (
     and_then (run_chain Windows e reg_add_commands) (\<lambda>ok. check ok (ie_tr e ''error_registry_add'')))"

definition install_firewall :: "install_env \<Rightarrow> win_env \<Rightarrow> unit install" where
  "install_firewall e we =
     seq_install (case we_exePath we of
        Some exePath \<Rightarrow>
          seq_install (logging ''Removing old firewall rules for PC Bio Unlock...'') (
          seq_install (remove_program_rules exePath) (
          seq_install (logging ''Adding Windows firewall rule for PC Bio Unlock...'') (
          try_run e (netsh_add APP_FIREWALL_RULE_NAME exePath)
            (ie_trf e ''error_firewall_rule_add'' ''Windows Firewall (PC Bio Unlock)''))))
      | None \<Rightarrow> logging ''Warning: App path not found. Skipped adding firewall rule.'') (
     let logonUiPath = win_path (GetSysDir we) ''LogonUI.exe'' in
     seq_install (logging ''Removing old firewall rules for LogonUI...'') (
     seq_install (remove_program_rules logonUiPath) (
     seq_install (logging ''Adding Windows firewall rule for LogonUI...'') (
     try_run e (netsh_add LOGONUI_FIREWALL_RULE_NAME logonUiPath)
       (ie_trf e ''error_firewall_rule_add'' ''Windows Firewall (LogonUI)'')))))"

definition Win_Install :: "'j json_lib \<Rightarrow> prot_env \<Rightarrow> string \<Rightarrow> install_env \<Rightarrow> win_env \<Rightarrow> unit install" where
  "Win_Install J env dir e we =
     seq_install (write_provider e we) (
     seq_install (add_registry e) (
     seq_install (install_firewall e we) (
     seq_install (logging ''Setting default credential provider...'') (
     and_then (on_fs (GetDevices J Windows env dir)) (\<lambda>devices.
     seq_install (each (\<lambda>device. if we_credProv we (pd_userName device) then return ()
        else logging (''Failed setting default credential provider for user '' @ [CHR 0x27] @ pd_userName device @ [CHR 0x27] @ ''.'')) devices) (
     logging ''Done.''))))))"

definition remove_provider :: "install_env \<Rightarrow> win_env \<Rightarrow> unit install" where
  "remove_provider e we =
     (let libPath = win_path (GetSysDir we) LIB_MODULE_FILE in
      seq_install (logging ''Removing credential provider...'') (
      and_then (on_fs (\<lambda>f. RemoveFile f libPath)) (\<lambda>ok.
      check ok (ie_trf e ''error_file_remove'' libPath))))"

definition remove_registry :: "install_env \<Rightarrow> unit install" where
  "remove_registry e =
     seq_install (logging ''Removing registry entries...'') (
     and_then (run_chain Windows e reg_delete_commands) (\<lambda>ok. check ok (ie_tr e ''error_registry_remove'')))"

definition Win_Uninstall :: "install_env \<Rightarrow> win_env \<Rightarrow> unit install" where
  "Win_Uninstall e we =
     seq_install (remove_provider e we) (
     seq_install (remove_registry e) (
     seq_install (logging ''Removing Windows firewall rules...'') (
     seq_install (try_run e (netsh_delete APP_FIREWALL_RULE_NAME) (ie_trf e ''error_firewall_rule_remove'' ''Windows Firewall (PC Bio Unlock)'')) (
     seq_install (try_run e (netsh_delete LOGONUI_FIREWALL_RULE_NAME) (ie_trf e ''error_firewall_rule_remove'' ''Windows Firewall (LogonUI)'')) (
     logging ''Done.'')))))"

subsection \<open>What Install and Uninstall leave\<close>

lemma SaveDevices_exists: "exists_path f p \<Longrightarrow> exists_path (SaveDevices J pf env dir ds f) p"
  by (auto simp: SaveDevices_def exists_path_def WriteBytes_def CreateDir_def Let_def split: option.splits)

lemma GetDevices_exists: "GetDevices J pf env dir f = (ds, f') \<Longrightarrow> exists_path f p \<Longrightarrow> exists_path f' p"
  by (auto simp: GetDevices_def Let_def SaveDevices_exists split: if_splits option.splits prod.splits)

lemma keeps_win:
  "keeps P (remove_program_rules x)" "keeps P (try_run e c m)" "keeps P (install_firewall e we)"
  "keeps P (add_registry e)" "keeps P (remove_registry e)"
proof -
  show r: "keeps P (remove_program_rules x)" for x by (simp add: keeps_def remove_program_rules_def)
  show t: "keeps P (try_run e c m)" for c m unfolding try_run_def by (intro keeps_intros)
  show "keeps P (install_firewall e we)"
    unfolding install_firewall_def Let_def by (cases "we_exePath we") (simp_all only: option.case, (intro keeps_intros r t)+)
qed (unfold add_registry_def remove_registry_def, (intro keeps_intros keeps_chain)+)

lemma keeps_each: "(\<And>x. keeps P (f x)) \<Longrightarrow> keeps P (each f xs)"
proof (induction xs)
  case (Cons x xs)
  then show ?case unfolding each.simps by (intro keeps_seq) blast+
qed auto

lemma write_provider_done: "write_provider e we s = (Inr (), t) \<Longrightarrow> Win_IsInstalled we (is_fs t)"
  by (auto simp: write_provider_def Win_IsInstalled_def and_then_Inr logging_def on_fs_def WriteBytes_def check_def throw_def
      return_def exists_path_def Let_def split: if_splits option.splits)

lemma remove_provider_done:
  "remove_provider e we s = (Inr (), t) \<Longrightarrow> \<not> fs_dirs (is_fs s) (win_path (GetSysDir we) LIB_MODULE_FILE) \<Longrightarrow>
    \<not> Win_IsInstalled we (is_fs t)"
  by (auto simp: remove_provider_def Win_IsInstalled_def and_then_Inr logging_def on_fs_def RemoveFile_def check_def throw_def
      return_def exists_path_def Let_def split: if_splits)

lemma keeps_Win_IsInstalled:
  "keeps (\<lambda>_. True) f \<Longrightarrow> f s = (a, t) \<Longrightarrow> Win_IsInstalled we (is_fs t) = Win_IsInstalled we (is_fs s)"
  unfolding Win_IsInstalled_def using keeps_exists [of "\<lambda>_. True" f s a t] by simp

lemma Win_Install_installs:
  assumes "Win_Install J env dir e we s = (Inr (), s')"
  shows "Win_IsInstalled we (is_fs s')"
proof -
  define step :: "PairedDevice \<Rightarrow> unit install" where "step = (\<lambda>device. if we_credProv we (pd_userName device) then return ()
    else logging (''Failed setting default credential provider for user '' @ [CHR 0x27] @ pd_userName device @ [CHR 0x27] @ ''.''))"
  obtain s1 s2 s3 ds s4 s5 where p: "write_provider e we s = (Inr (), s1)" "add_registry e s1 = (Inr (), s2)"
    "install_firewall e we s2 = (Inr (), s3)"
    "on_fs (GetDevices J Windows env dir) (s3\<lparr>is_log := is_log s3 @ [''Setting default credential provider...'']\<rparr>) = (Inr ds, s4)"
    "each step ds s4 = (Inr (), s5)" "is_fs s' = is_fs s5"
    using assms unfolding Win_Install_def and_then_Inr logging_def step_def by (auto simp: Let_def)
  have "Win_IsInstalled we (is_fs s3)"
    using write_provider_done [OF p(1)] keeps_Win_IsInstalled [OF keeps_win(4) p(2)] keeps_Win_IsInstalled [OF keeps_win(3) p(3)] by simp
  moreover have "GetDevices J Windows env dir (is_fs s3) = (ds, is_fs s4)"
    using p(4) by (auto simp: on_fs_def Let_def split: prod.splits)
  ultimately have "Win_IsInstalled we (is_fs s4)" using GetDevices_exists by (simp add: Win_IsInstalled_def)
  moreover have k: "keeps (\<lambda>_. True) (each step ds)" unfolding step_def by (intro keeps_each keeps_intros)
  ultimately show ?thesis using keeps_Win_IsInstalled [of "each step ds", OF k p(5)] p(6) by simp
qed

lemma Win_Uninstall_removes:
  assumes "Win_Uninstall e we s = (Inr (), s')" and "\<not> fs_dirs (is_fs s) (win_path (GetSysDir we) LIB_MODULE_FILE)"
  shows "\<not> Win_IsInstalled we (is_fs s')"
proof -
  obtain s1 where 1: "remove_provider e we s = (Inr (), s1)"
    "seq_install (remove_registry e) (
     seq_install (logging ''Removing Windows firewall rules...'') (
     seq_install (try_run e (netsh_delete APP_FIREWALL_RULE_NAME) (ie_trf e ''error_firewall_rule_remove'' ''Windows Firewall (PC Bio Unlock)'')) (
     seq_install (try_run e (netsh_delete LOGONUI_FIREWALL_RULE_NAME) (ie_trf e ''error_firewall_rule_remove'' ''Windows Firewall (LogonUI)'')) (
     logging ''Done.'')))) s1 = (Inr (), s')"
    using assms(1) unfolding Win_Uninstall_def and_then_Inr [of "remove_provider e we"] by auto
  have k: "keeps (\<lambda>_. True) (seq_install (remove_registry e) (seq_install (logging m) (seq_install (try_run e c n) (seq_install (try_run e c' n') (logging m')))))"
    for m m' n n' c c' by (intro keeps_intros keeps_win)
  from keeps_Win_IsInstalled [of "seq_install (remove_registry e) _", OF k 1(2)] remove_provider_done [OF 1(1) assms(2)] show ?thesis by simp
qed

end
