(* ===== verification/Installers.thy ===== *)
theory Installers
  imports ServiceInstaller WinPlatform
begin

text \<open>
  What the windows of the desktop program rely on of \<open>ServiceInstaller\<close>: the interface as a locale, and the
  installers of Linux, macOS and Windows as its instances.
\<close>

section \<open>The interface\<close>

text \<open>The settings that every platform has; the others are those of the service settings.\<close>

definition same_app_settings :: "PCBUAppStorage \<Rightarrow> PCBUAppStorage \<Rightarrow> bool" where
  "same_app_settings a b \<longleftrightarrow>
     as_machineID b = as_machineID a \<and>
     as_installedVersion b = as_installedVersion a \<and>
     as_language b = as_language a \<and>
     as_serverIP b = as_serverIP a \<and>
     as_serverMAC b = as_serverMAC a \<and>
     as_pairingDiscoveryPort b = as_pairingDiscoveryPort a \<and>
     as_pairingServerPort b = as_pairingServerPort a \<and>
     as_unlockServerPort b = as_unlockServerPort a \<and>
     as_clientSocketTimeout b = as_clientSocketTimeout a \<and>
     as_clientConnectTimeout b = as_clientConnectTimeout a \<and>
     as_clientConnectRetries b = as_clientConnectRetries a \<and>
     as_cloudRelayUrl b = as_cloudRelayUrl a"

lemma same_app_settings_refl [simp]: "same_app_settings a a"
  by (simp add: same_app_settings_def)

lemma same_app_settings_trans: "same_app_settings a b \<Longrightarrow> same_app_settings b c \<Longrightarrow> same_app_settings a c"
  by (simp add: same_app_settings_def)

text \<open>
  The settings file: whether it can be written does not change; if it can, it goes on holding what is handed out,
  and if not, it stays as it is.
\<close>

definition store_kept :: "install_state \<Rightarrow> install_state \<Rightarrow> bool" where
  "store_kept s t \<longleftrightarrow> is_writable t = is_writable s \<and>
     (is_writable s \<longrightarrow> is_stored s = is_settings s \<longrightarrow> is_stored t = is_settings t) \<and>
     (\<not> is_writable s \<longrightarrow> is_stored t = is_stored s)"

lemma store_kept_refl [simp]: "store_kept s s"
  by (simp add: store_kept_def)

lemma store_kept_trans: "store_kept s t \<Longrightarrow> store_kept t u \<Longrightarrow> store_kept s u"
  by (auto simp: store_kept_def)

lemma store_kept_simps [simp]:
  "store_kept s (s\<lparr>is_fs := f\<rparr>)" "store_kept s (s\<lparr>is_log := l\<rparr>)" "store_kept s (s\<lparr>is_cmds := c\<rparr>)"
  "store_kept s (save_settings x s)"
  by (auto simp: store_kept_def)

locale installer =
  fixes getSettings :: "ServiceSetting list install"
    and applySettings :: "ServiceSetting list \<Rightarrow> bool \<Rightarrow> unit install"
    and doInstall :: "unit install"
    and doUninstall :: "unit install"
    and isInstalled :: "fs \<Rightarrow> bool"
    and ready :: "fs \<Rightarrow> bool"
  assumes get_keeps: "getSettings s = (q, t) \<Longrightarrow>
      is_settings t = is_settings s \<and> store_kept s t \<and> isInstalled (is_fs t) = isInstalled (is_fs s)"
    and apply_keeps: "applySettings ss useDefault s = (r, t) \<Longrightarrow>
      same_app_settings (is_settings s) (is_settings t) \<and> store_kept s t \<and> isInstalled (is_fs t) = isInstalled (is_fs s)"
    and install_keeps: "doInstall s = (r, t) \<Longrightarrow> is_settings t = is_settings s \<and> store_kept s t"
    and uninstall_keeps: "doUninstall s = (r, t) \<Longrightarrow> is_settings t = is_settings s \<and> store_kept s t"
    and install_ready: "ready (is_fs s) \<Longrightarrow> doInstall s = (r, t) \<Longrightarrow> ready (is_fs t)"
    and uninstall_ready: "ready (is_fs s) \<Longrightarrow> doUninstall s = (r, t) \<Longrightarrow> ready (is_fs t)"
    and install_done: "ready (is_fs s) \<Longrightarrow> doInstall s = (Inr (), t) \<Longrightarrow> isInstalled (is_fs t)"
    and uninstall_done: "ready (is_fs s) \<Longrightarrow> doUninstall s = (Inr (), t) \<Longrightarrow> \<not> isInstalled (is_fs t)"

section \<open>What operations leave alone\<close>

text \<open>Settings change along \<open>R\<close> only; whether directories can be made, and whether \<open>d\<close> is one, does not change.\<close>

definition steady :: "string \<Rightarrow> (PCBUAppStorage \<Rightarrow> PCBUAppStorage \<Rightarrow> bool) \<Rightarrow> 'a install \<Rightarrow> bool" where
  "steady d R f \<longleftrightarrow> (\<forall>s a t. f s = (a, t) \<longrightarrow> R (is_settings s) (is_settings t) \<and> store_kept s t \<and>
     fs_mkdir (is_fs t) = fs_mkdir (is_fs s) \<and> fs_dirs (is_fs t) d = fs_dirs (is_fs s) d)"

definition preorder_on_settings :: "(PCBUAppStorage \<Rightarrow> PCBUAppStorage \<Rightarrow> bool) \<Rightarrow> bool" where
  "preorder_on_settings R \<longleftrightarrow> reflp R \<and> transp R"

lemma steady_seq: "preorder_on_settings R \<Longrightarrow> steady d R f \<Longrightarrow> (\<And>a. steady d R (g a)) \<Longrightarrow> steady d R (and_then f g)"
  unfolding steady_def and_then_def preorder_on_settings_def
  by (fastforce split: prod.splits sum.splits dest: transpD intro: store_kept_trans)

lemma steady_basic:
  assumes "preorder_on_settings R"
  shows "steady d R (return a)" "steady d R (throw m)" "steady d R (logging m)" "steady d R (check b m)" "steady d R (get_fs h)"
    "steady d R (run_ok pf e c)" "(\<And>st. steady d R (k st)) \<Longrightarrow> steady d R (with_settings k)"
    "steady d R (on_fs (\<lambda>f. WriteBytes f q b2))" "steady d R (on_fs (\<lambda>f. RemoveFile f q))"
    "q \<noteq> d \<Longrightarrow> steady d R (on_fs (\<lambda>f. CreateDir f q))"
  using assms
  by (auto simp: steady_def preorder_on_settings_def return_def throw_def logging_def check_def get_fs_def run_ok_def with_settings_def
      on_fs_def WriteBytes_def RemoveFile_def CreateDir_def reflp_def Let_def split: option.splits prod.splits)

lemma steady_if: "steady d R f \<Longrightarrow> steady d R g \<Longrightarrow> steady d R (if b then f else g)"
  by simp

lemma steady_option: "steady d R f \<Longrightarrow> (\<And>x. steady d R (g x)) \<Longrightarrow> steady d R (case opt of None \<Rightarrow> f | Some x \<Rightarrow> g x)"
  by (cases opt) simp_all

lemma steady_prod: "(\<And>x y. steady d R (g x y)) \<Longrightarrow> steady d R (case p of (x, y) \<Rightarrow> g x y)"
  by (cases p) simp

lemmas steady_intros = steady_seq steady_basic steady_if steady_option steady_prod

lemma steady_each: "preorder_on_settings R \<Longrightarrow> (\<And>x. steady d R (f x)) \<Longrightarrow> steady d R (each f xs)"
proof (induction xs)
  case Nil
  then show ?case by (simp add: steady_basic)
next
  case (Cons x xs)
  then show ?case unfolding each.simps by (intro steady_seq) blast+
qed

lemma steady_chain: "preorder_on_settings R \<Longrightarrow> steady d R (run_chain pf e cs)"
proof (induction cs)
  case Nil
  then show ?case by (simp add: steady_basic)
next
  case (Cons c cs)
  then show ?case unfolding run_chain.simps by (intro steady_intros) blast+
qed

lemma preorder_settings: "preorder_on_settings (=)" "preorder_on_settings same_app_settings"
  unfolding preorder_on_settings_def
  by (auto intro!: reflpI transpI intro: same_app_settings_trans)

lemma steadyD: "steady d R f \<Longrightarrow> f s = (a, t) \<Longrightarrow> R (is_settings s) (is_settings t) \<and> store_kept s t \<and>
    fs_mkdir (is_fs t) = fs_mkdir (is_fs s) \<and> fs_dirs (is_fs t) d = fs_dirs (is_fs s) d"
  unfolding steady_def by blast

lemma steady_installed: "preorder_on_settings R \<Longrightarrow> steady d R (IsProgramInstalled e p)"
  unfolding IsProgramInstalled_def by (intro steady_intros)

lemma steady_any: "preorder_on_settings R \<Longrightarrow> steady d R (any_installed e ps)"
proof (induction ps)
  case Nil
  then show ?case by (simp add: steady_basic)
next
  case (Cons p ps)
  then show ?case unfolding any_installed.simps by (intro steady_intros steady_installed) blast+
qed

lemma steady_config: "preorder_on_settings R \<Longrightarrow> steady d R (SetConfigEntry tr configName entry enabled)"
  unfolding SetConfigEntry_def AddToConfig_def RemoveFromConfig_def AddEntryToFile_def RemoveEntryFromFile_def SetPolkitRestrictions_def
  by (intro steady_intros; assumption)

lemma steady_set: "(\<And>x. R x (f x)) \<Longrightarrow> steady d R (\<lambda>s. (Inr y, save_settings (f (is_settings s)) s))"
  by (auto simp: steady_def)

section \<open>Files that the settings do not touch\<close>

lemma keeps_get: "(\<And>f. keeps P (g (h f))) \<Longrightarrow> keeps P (and_then (get_fs h) g)"
  unfolding keeps_def and_then_def get_fs_def by simp

lemma keeps_prod: "(\<And>x y. keeps P (g x y)) \<Longrightarrow> keeps P (case p of (x, y) \<Rightarrow> g x y)"
  by (cases p) simp

lemma keeps_polkit:
  assumes "\<forall>q \<in> set polkit_paths. \<not> P q"
  shows "keeps P (SetPolkitRestrictions tr enabled)"
  unfolding SetPolkitRestrictions_def
proof (rule keeps_get)
  fix f
  show "keeps P (case find (exists_path f) polkit_paths of
       None \<Rightarrow> seq_install (logging ''Failed to find polkit-agent-helper service path.'') (return False)
     | Some path \<Rightarrow>
         and_then (get_fs (\<lambda>f. polkit_text enabled (string_of (ReadBytes f path)))) (\<lambda>fileStr.
         and_then (on_fs (\<lambda>f. WriteBytes f path (bytes_of fileStr))) (\<lambda>ok.
         if ok then return True else seq_install (logging (tr ''error_file_write'' path)) (return False))))"
  proof (cases "find (exists_path f) polkit_paths")
    case None
    show ?thesis unfolding None option.case by (intro keeps_intros)
  next
    case (Some path)
    then have "\<not> P path" using assms by (metis find_Some_iff nth_mem)
    then show ?thesis unfolding Some option.case by (intro keeps_intros; assumption)
  qed
qed

lemma keeps_config:
  assumes "\<forall>q \<in> set polkit_paths. \<not> P q" and "\<not> P (pam_path configName)"
  shows "keeps P (SetConfigEntry tr configName entry enabled)"
  unfolding SetConfigEntry_def AddToConfig_def RemoveFromConfig_def AddEntryToFile_def RemoveEntryFromFile_def
  by (intro keeps_intros keeps_prod keeps_polkit assms)

lemma keeps_any: "keeps P (any_installed e ps)"
proof (induction ps)
  case (Cons p ps)
  then show ?case unfolding any_installed.simps by (intro keeps_intros keeps_installed) blast+
qed auto

lemma keeps_set: "keeps P (\<lambda>s. (Inr x, save_settings (f (is_settings s)) s))" "keeps P (\<lambda>s. (Inr (h (is_settings s)), s))"
  by (simp_all add: keeps_def)

section \<open>Linux\<close>

lemma keeps_Linux_settings:
  assumes "\<forall>q \<in> set polkit_paths. \<not> P q" and "\<And>c. \<not> P (pam_path c)"
  shows "keeps P (Linux_ApplySettings e ss useDefault)" and "keeps P (Linux_GetSettings e)"
proof -
  have "keeps P (Linux_ApplySetting e useDefault setting)" for setting
    unfolding Linux_ApplySetting_def Let_def
    by (intro keeps_intros keeps_each keeps_prod keeps_installed keeps_config keeps_set assms)
  then show "keeps P (Linux_ApplySettings e ss useDefault)"
    unfolding Linux_ApplySettings_def by (rule keeps_each)
  show "keeps P (Linux_GetSettings e)"
    unfolding Linux_GetSettings_def by (intro keeps_intros keeps_any keeps_installed keeps_set)
qed

lemma uninstall_exe_done:
  "uninstall_exe e s = (Inr (), t) \<Longrightarrow> \<not> fs_dirs (is_fs s) EXE_PATH \<Longrightarrow> \<not> exists_path (is_fs t) EXE_PATH"
  by (auto simp: uninstall_exe_def and_then_Inr logging_def on_fs_def RemoveFile_def check_def throw_def return_def exists_path_def
      Let_def split: if_splits)

lemma steady_Linux_settings:
  "steady d same_app_settings (Linux_ApplySettings e ss useDefault)" "steady d (=) (Linux_GetSettings e)"
proof -
  have "steady d same_app_settings (Linux_ApplySetting e useDefault setting)" for setting
    unfolding Linux_ApplySetting_def Let_def
    by (intro steady_intros steady_each steady_prod steady_installed steady_config steady_set preorder_settings)
       (simp add: same_app_settings_def)
  then show "steady d same_app_settings (Linux_ApplySettings e ss useDefault)"
    unfolding Linux_ApplySettings_def by (intro steady_each preorder_settings)
  show "steady d (=) (Linux_GetSettings e)"
    unfolding Linux_GetSettings_def
    by (intro steady_intros steady_any steady_installed preorder_settings) (simp add: steady_def)
qed

text \<open>Copying and removing the files.\<close>

lemma steady_exe: "steady d (=) (install_exe pf e)" "steady d (=) (uninstall_exe e)"
  unfolding install_exe_def uninstall_exe_def by (intro steady_intros preorder_settings)+

lemma steady_module: "steady d (=) (install_module e q)" "steady d (=) (uninstall_module e q)"
  unfolding install_module_def uninstall_module_def by (intro steady_intros preorder_settings)+

lemma steady_firewall: "steady d (=) (firewall e program msg k n cmds)"
  unfolding firewall_def by (intro steady_intros steady_installed steady_chain preorder_settings)

lemma steady_system: "steady d (=) (install_system e)" "steady d (=) (uninstall_system e)"
  unfolding install_system_def uninstall_system_def selinux_install_def selinux_uninstall_def
  by (intro steady_intros steady_firewall steady_installed preorder_settings)+

lemma steady_Linux:
  "''/lib/security'' \<noteq> d \<Longrightarrow> steady d (=) (Linux_Install e)" "steady d (=) (Linux_Uninstall e)"
  unfolding Linux_Install_def Linux_Uninstall_def
  by (intro steady_intros steady_exe steady_module steady_each steady_system preorder_settings; assumption)+

definition unix_files :: "string \<Rightarrow> bool" where
  "unix_files p \<longleftrightarrow> p \<in> {EXE_PATH, path_join ''/lib/security'' PAM_MODULE_FILE, path_join ''/lib64/security'' PAM_MODULE_FILE,
     path_join MAC_MODULE_DIR MAC_MODULE_FILE}"

lemma unix_files_other: "\<forall>q \<in> set polkit_paths. \<not> unix_files q" "\<not> unix_files (pam_path c)"
  by (simp_all add: polkit_paths_def unix_files_def module_paths pam_path_def MAC_MODULE_DIR_def MAC_MODULE_FILE_def)

lemma unix_files_same:
  assumes "keeps unix_files f" and "f s = (a, t)"
  shows "Linux_IsInstalled (is_fs t) PAM_MODULE_DIRS = Linux_IsInstalled (is_fs s) PAM_MODULE_DIRS"
    and "Mac_IsInstalled (is_fs t) = Mac_IsInstalled (is_fs s)"
  using keeps_exists [OF assms, of EXE_PATH] keeps_exists [OF assms, of "path_join ''/lib/security'' PAM_MODULE_FILE"]
    keeps_exists [OF assms, of "path_join ''/lib64/security'' PAM_MODULE_FILE"]
    keeps_exists [OF assms, of "path_join MAC_MODULE_DIR MAC_MODULE_FILE"]
  by (simp_all add: PAM_MODULE_DIRS_def Mac_IsInstalled_def unix_files_def)

definition unix_ready :: "fs \<Rightarrow> bool" where
  "unix_ready f \<longleftrightarrow> fs_mkdir f \<and> \<not> fs_dirs f EXE_PATH"

lemma unix_ready_same: "steady EXE_PATH R f \<Longrightarrow> f s = (a, t) \<Longrightarrow> unix_ready (is_fs t) = unix_ready (is_fs s)"
  using steadyD [of EXE_PATH R f s a t] by (simp add: unix_ready_def)

interpretation linux_installer: installer "Linux_GetSettings e" "Linux_ApplySettings e" "Linux_Install e" "Linux_Uninstall e"
  "\<lambda>f. Linux_IsInstalled f PAM_MODULE_DIRS" unix_ready for e
proof
  fix s t q r ss useDefault
  show "Linux_GetSettings e s = (q, t) \<Longrightarrow> is_settings t = is_settings s \<and> store_kept s t \<and>
      Linux_IsInstalled (is_fs t) PAM_MODULE_DIRS = Linux_IsInstalled (is_fs s) PAM_MODULE_DIRS"
    using steadyD [OF steady_Linux_settings(2)] unix_files_same(1) [OF keeps_Linux_settings(2) [OF unix_files_other]] by metis
  show "Linux_ApplySettings e ss useDefault s = (r, t) \<Longrightarrow> same_app_settings (is_settings s) (is_settings t) \<and> store_kept s t \<and>
      Linux_IsInstalled (is_fs t) PAM_MODULE_DIRS = Linux_IsInstalled (is_fs s) PAM_MODULE_DIRS"
    using steadyD [OF steady_Linux_settings(1)] unix_files_same(1) [OF keeps_Linux_settings(1) [OF unix_files_other]] by metis
  show "Linux_Install e s = (r, t) \<Longrightarrow> is_settings t = is_settings s \<and> store_kept s t"
    using steadyD [OF steady_Linux(1), of "[]"] by auto
  show "Linux_Uninstall e s = (r, t) \<Longrightarrow> is_settings t = is_settings s \<and> store_kept s t"
    using steadyD [OF steady_Linux(2)] by metis
  show "unix_ready (is_fs s) \<Longrightarrow> Linux_Uninstall e s = (r, t) \<Longrightarrow> unix_ready (is_fs t)"
    using unix_ready_same [OF steady_Linux(2)] by blast
  show "unix_ready (is_fs s) \<Longrightarrow> Linux_Install e s = (Inr (), t) \<Longrightarrow> Linux_IsInstalled (is_fs t) PAM_MODULE_DIRS"
    using Linux_Install_installs unfolding unix_ready_def by blast
  show "unix_ready (is_fs s) \<Longrightarrow> Linux_Uninstall e s = (Inr (), t) \<Longrightarrow> \<not> Linux_IsInstalled (is_fs t) PAM_MODULE_DIRS"
    using Linux_Uninstall_removes unfolding unix_ready_def by blast
next
  fix s t r
  have d: "''/lib/security'' \<noteq> EXE_PATH" by (simp add: module_paths)
  show "unix_ready (is_fs s) \<Longrightarrow> Linux_Install e s = (r, t) \<Longrightarrow> unix_ready (is_fs t)"
    using unix_ready_same [OF steady_Linux(1) [OF d]] by blast
qed

section \<open>macOS\<close>

lemma keeps_Mac_settings: "keeps unix_files (Mac_ApplySettings e ss useDefault)" "keeps unix_files (Mac_GetSettings e)"
  unfolding Mac_ApplySettings_def Mac_ApplySetting_def Mac_GetSettings_def Let_def
  by (intro keeps_intros keeps_each keeps_config unix_files_other)+

lemma steady_Mac_settings:
  "steady d same_app_settings (Mac_ApplySettings e ss useDefault)" "steady d (=) (Mac_GetSettings e)"
  unfolding Mac_ApplySettings_def Mac_ApplySetting_def Mac_GetSettings_def Let_def
  by (intro steady_intros steady_each steady_config preorder_settings)+

lemma steady_Mac: "MAC_MODULE_DIR \<noteq> d \<Longrightarrow> steady d (=) (Mac_Install e)" "steady d (=) (Mac_Uninstall e)"
  unfolding Mac_Install_def Mac_Uninstall_def by (intro steady_intros steady_exe preorder_settings; assumption)+

lemma Mac_Install_installs:
  assumes "Mac_Install e s = (Inr (), s')"
  shows "Mac_IsInstalled (is_fs s')"
proof -
  obtain s1 where 1: "install_exe Apple e s = (Inr (), s1)"
    and "seq_install (logging ''Copying PAM module...'') (
     and_then (on_fs (\<lambda>f. CreateDir f MAC_MODULE_DIR)) (\<lambda>_.
     and_then (on_fs (\<lambda>f. WriteBytes f (path_join MAC_MODULE_DIR MAC_MODULE_FILE) (ie_resource e MAC_MODULE_FILE))) (\<lambda>ok.
     seq_install (check ok (ie_trf e ''error_file_write'' (path_join MAC_MODULE_DIR MAC_MODULE_FILE))) (
     logging ''Done.'')))) s1 = (Inr (), s')"
    using assms unfolding Mac_Install_def and_then_Inr [of "install_exe Apple e"] by auto
  moreover have "exists_path (is_fs s1) EXE_PATH" by (rule install_exe_done [OF 1])
  ultimately show ?thesis
    by (auto simp: and_then_Inr logging_def on_fs_def CreateDir_def WriteBytes_def check_def throw_def return_def exists_path_def
        Mac_IsInstalled_def Let_def split: if_splits option.splits)
qed

lemma Mac_Uninstall_removes:
  assumes "Mac_Uninstall e s = (Inr (), s')" and "\<not> fs_dirs (is_fs s) EXE_PATH"
  shows "\<not> Mac_IsInstalled (is_fs s')"
proof -
  obtain s1 where 1: "uninstall_exe e s = (Inr (), s1)"
    and "seq_install (logging ''Removing PAM module...'') (
     and_then (on_fs (\<lambda>f. RemoveFile f (path_join MAC_MODULE_DIR MAC_MODULE_FILE))) (\<lambda>ok.
     seq_install (check ok (ie_trf e ''error_file_remove'' (path_join MAC_MODULE_DIR MAC_MODULE_FILE))) (
     logging ''Done.''))) s1 = (Inr (), s')"
    using assms unfolding Mac_Uninstall_def and_then_Inr [of "uninstall_exe e"] by auto
  moreover have "\<not> exists_path (is_fs s1) EXE_PATH" using 1 assms(2) by (rule uninstall_exe_done)
  ultimately show ?thesis
    by (auto simp: and_then_Inr logging_def on_fs_def RemoveFile_def check_def throw_def return_def exists_path_def
        Mac_IsInstalled_def Let_def split: if_splits)
qed

interpretation mac_installer: installer "Mac_GetSettings e" "Mac_ApplySettings e" "Mac_Install e" "Mac_Uninstall e"
  Mac_IsInstalled unix_ready for e
proof
  fix s t q r ss useDefault
  have d: "MAC_MODULE_DIR \<noteq> EXE_PATH" by (simp add: MAC_MODULE_DIR_def module_paths)
  show "Mac_GetSettings e s = (q, t) \<Longrightarrow> is_settings t = is_settings s \<and> store_kept s t \<and> Mac_IsInstalled (is_fs t) = Mac_IsInstalled (is_fs s)"
    using steadyD [OF steady_Mac_settings(2)] unix_files_same(2) [OF keeps_Mac_settings(2)] by metis
  show "Mac_ApplySettings e ss useDefault s = (r, t) \<Longrightarrow>
      same_app_settings (is_settings s) (is_settings t) \<and> store_kept s t \<and> Mac_IsInstalled (is_fs t) = Mac_IsInstalled (is_fs s)"
    using steadyD [OF steady_Mac_settings(1)] unix_files_same(2) [OF keeps_Mac_settings(1)] by metis
  show "Mac_Install e s = (r, t) \<Longrightarrow> is_settings t = is_settings s \<and> store_kept s t"
    using steadyD [OF steady_Mac(1) [OF d]] by auto
  show "Mac_Uninstall e s = (r, t) \<Longrightarrow> is_settings t = is_settings s \<and> store_kept s t"
    using steadyD [OF steady_Mac(2)] by metis
  show "unix_ready (is_fs s) \<Longrightarrow> Mac_Uninstall e s = (r, t) \<Longrightarrow> unix_ready (is_fs t)"
    using unix_ready_same [OF steady_Mac(2)] by blast
next
  fix s t r
  have d: "MAC_MODULE_DIR \<noteq> EXE_PATH" by (simp add: MAC_MODULE_DIR_def module_paths)
  show "unix_ready (is_fs s) \<Longrightarrow> Mac_Install e s = (r, t) \<Longrightarrow> unix_ready (is_fs t)"
    using unix_ready_same [OF steady_Mac(1) [OF d]] by blast
  show "unix_ready (is_fs s) \<Longrightarrow> Mac_Install e s = (Inr (), t) \<Longrightarrow> Mac_IsInstalled (is_fs t)"
    using Mac_Install_installs by blast
  show "unix_ready (is_fs s) \<Longrightarrow> Mac_Uninstall e s = (Inr (), t) \<Longrightarrow> \<not> Mac_IsInstalled (is_fs t)"
    using Mac_Uninstall_removes unfolding unix_ready_def by blast
qed

section \<open>Windows\<close>

lemma keeps_Win_settings: "keeps P (Win_ApplySettings ss useDefault)" "keeps P (Win_GetSettings e)"
proof -
  have "keeps P (Win_ApplySetting useDefault setting)" for setting
    by (auto simp: keeps_def Win_ApplySetting_def Let_def)
  then show "keeps P (Win_ApplySettings ss useDefault)" unfolding Win_ApplySettings_def by (rule keeps_each)
  show "keeps P (Win_GetSettings e)" unfolding Win_GetSettings_def by (intro keeps_intros)
qed

lemma steady_Win_settings:
  "steady d same_app_settings (Win_ApplySettings ss useDefault)" "steady d (=) (Win_GetSettings e)"
proof -
  have "steady d same_app_settings (Win_ApplySetting useDefault setting)" for setting
    by (auto simp: steady_def Win_ApplySetting_def same_app_settings_def Let_def)
  then show "steady d same_app_settings (Win_ApplySettings ss useDefault)"
    unfolding Win_ApplySettings_def by (intro steady_each preorder_settings)
  show "steady d (=) (Win_GetSettings e)" unfolding Win_GetSettings_def by (intro steady_intros preorder_settings)
qed

lemma steady_win:
  "steady d (=) (remove_program_rules x)" "steady d (=) (try_run e c m)" "steady d (=) (install_firewall e we)"
  "steady d (=) (add_registry e)" "steady d (=) (remove_registry e)"
proof -
  show r: "steady d (=) (remove_program_rules x)" for x by (simp add: steady_def remove_program_rules_def)
  show t: "steady d (=) (try_run e c m)" for c m unfolding try_run_def by (intro steady_intros preorder_settings)
  show "steady d (=) (install_firewall e we)"
    unfolding install_firewall_def Let_def by (intro steady_intros preorder_settings r t)
qed (unfold add_registry_def remove_registry_def, (intro steady_intros steady_chain preorder_settings)+)

text \<open>Reading the devices can make the directory of their file, and nothing else.\<close>

lemma SaveDevices_steady:
  "fs_mkdir (SaveDevices J pf env dir ds f) = fs_mkdir f \<and>
   (dir \<noteq> d \<longrightarrow> fs_dirs (SaveDevices J pf env dir ds f) d = fs_dirs f d)"
proof -
  have "fs_dirs (snd (CreateDir f dir)) d = fs_dirs f d" if "dir \<noteq> d" using that by (simp add: CreateDir_def)
  then show ?thesis by (simp add: SaveDevices_def Let_def split: option.split)
qed

lemma GetDevices_steady:
  assumes "GetDevices J pf env dir f = (ds, f')" and "dir \<noteq> d"
  shows "fs_mkdir f' = fs_mkdir f \<and> fs_dirs f' d = fs_dirs f d"
proof -
  have "f' = f \<or> f' = SaveDevices J pf env dir [] f"
    using assms(1) by (auto simp: GetDevices_def Let_def split: if_splits option.splits prod.splits)
  then show ?thesis using SaveDevices_steady assms(2) by blast
qed

lemma steady_GetDevices: "dir \<noteq> d \<Longrightarrow> steady d (=) (on_fs (GetDevices J pf env dir))"
  unfolding steady_def on_fs_def using GetDevices_steady [of J pf env dir _ _ _ d] by (fastforce simp: Let_def split: prod.splits)

lemma steady_Win: "dir \<noteq> d \<Longrightarrow> steady d (=) (Win_Install J env dir e we)" "steady d (=) (Win_Uninstall e we)"
  unfolding Win_Install_def Win_Uninstall_def write_provider_def remove_provider_def Let_def
  by (intro steady_intros steady_win steady_GetDevices steady_each preorder_settings; assumption)+

definition win_ready :: "string \<Rightarrow> win_env \<Rightarrow> fs \<Rightarrow> bool" where
  "win_ready dir we f \<longleftrightarrow> dir \<noteq> win_path (GetSysDir we) LIB_MODULE_FILE \<and> \<not> fs_dirs f (win_path (GetSysDir we) LIB_MODULE_FILE)"

interpretation win_installer: installer "Win_GetSettings e" Win_ApplySettings "Win_Install J env dir e we" "Win_Uninstall e we"
  "Win_IsInstalled we" "win_ready dir we" for J env dir e we
proof
  fix s t q r ss useDefault
  show "Win_GetSettings e s = (q, t) \<Longrightarrow> is_settings t = is_settings s \<and> store_kept s t \<and> Win_IsInstalled we (is_fs t) = Win_IsInstalled we (is_fs s)"
    using steadyD [OF steady_Win_settings(2)] keeps_Win_IsInstalled [OF keeps_Win_settings(2)] by metis
  show "Win_ApplySettings ss useDefault s = (r, t) \<Longrightarrow>
      same_app_settings (is_settings s) (is_settings t) \<and> store_kept s t \<and> Win_IsInstalled we (is_fs t) = Win_IsInstalled we (is_fs s)"
    using steadyD [OF steady_Win_settings(1)] keeps_Win_IsInstalled [OF keeps_Win_settings(1)] by metis
  show "Win_Install J env dir e we s = (r, t) \<Longrightarrow> is_settings t = is_settings s \<and> store_kept s t"
    using steadyD [OF steady_Win(1) [of dir "dir @ ''x''"]] by fastforce
  show "Win_Uninstall e we s = (r, t) \<Longrightarrow> is_settings t = is_settings s \<and> store_kept s t"
    using steadyD [OF steady_Win(2)] by metis
  show "win_ready dir we (is_fs s) \<Longrightarrow> Win_Install J env dir e we s = (r, t) \<Longrightarrow> win_ready dir we (is_fs t)"
    using steadyD [OF steady_Win(1)] unfolding win_ready_def by metis
  show "win_ready dir we (is_fs s) \<Longrightarrow> Win_Uninstall e we s = (r, t) \<Longrightarrow> win_ready dir we (is_fs t)"
    using steadyD [OF steady_Win(2)] unfolding win_ready_def by metis
  show "win_ready dir we (is_fs s) \<Longrightarrow> Win_Install J env dir e we s = (Inr (), t) \<Longrightarrow> Win_IsInstalled we (is_fs t)"
    using Win_Install_installs by blast
  show "win_ready dir we (is_fs s) \<Longrightarrow> Win_Uninstall e we s = (Inr (), t) \<Longrightarrow> \<not> Win_IsInstalled we (is_fs t)"
    using Win_Uninstall_removes unfolding win_ready_def by blast
qed

section \<open>The settings page\<close>

text \<open>
  What applying the settings just read restores: \<open>kept a b\<close> is \<open>b\<close> with the service settings of \<open>a\<close> that the page of the
  platform shows.
\<close>

locale settings_page = installer +
  fixes kept :: "PCBUAppStorage \<Rightarrow> PCBUAppStorage \<Rightarrow> PCBUAppStorage"
  assumes apply_restores:
    "getSettings s = (Inr ss, t) \<Longrightarrow> applySettings ss False u = (Inr (), w) \<Longrightarrow> is_settings w = kept (is_settings s) (is_settings u)"

definition linux_kept :: "PCBUAppStorage \<Rightarrow> PCBUAppStorage \<Rightarrow> PCBUAppStorage" where
  "linux_kept a b = b\<lparr>as_unixSetPasswordPAM := as_unixSetPasswordPAM a\<rparr>"

definition mac_kept :: "PCBUAppStorage \<Rightarrow> PCBUAppStorage \<Rightarrow> PCBUAppStorage" where
  "mac_kept a b = b"

definition win_kept :: "PCBUAppStorage \<Rightarrow> PCBUAppStorage \<Rightarrow> PCBUAppStorage" where
  "win_kept a b = b\<lparr>as_winUnlockBehavior := as_winUnlockBehavior a, as_winHidePasswordField := as_winHidePasswordField a,
     as_winForceDefaultCredProv := as_winForceDefaultCredProv a\<rparr>"

lemma steady_entries:
  assumes "i = ''sudo'' \<or> i = ''polkit'' \<or> i = ''login''"
  shows "steady d (=) (Linux_ApplySetting e False (toggle i n b v))"
proof -
  have "''sudo'' \<noteq> ''pamSetPassword''" "''polkit'' \<noteq> ''pamSetPassword''" "''login'' \<noteq> ''pamSetPassword''" by simp_all
  with assms have "i \<noteq> ''pamSetPassword''" by metis
  then have "Linux_ApplySetting e False (toggle i n b v) =
     (if i = ''sudo'' then SetConfigEntry (ie_trf e) ''sudo'' LINUX_ENTRY b
      else if i = ''polkit'' then SetConfigEntry (ie_trf e) ''polkit-1'' LINUX_ENTRY b
      else if i = ''login'' then
        each (\<lambda>(program, config, entry). and_then (IsProgramInstalled e program) (\<lambda>ok.
          if ok then SetConfigEntry (ie_trf e) config entry b else return ())) login_managers
      else return ())"
    by (simp only: Linux_ApplySetting_def toggle_def ServiceSetting.simps Let_def if_False)
  then show ?thesis
    by (simp only:) (intro steady_intros steady_each steady_prod steady_installed steady_config preorder_settings)
qed

lemma Linux_restores:
  assumes "Linux_GetSettings e s = (Inr ss, t)" and "Linux_ApplySettings e ss False u = (Inr (), w)"
  shows "is_settings w = linux_kept (is_settings s) (is_settings u)"
proof -
  obtain n1 b1 d1 n2 b2 d2 n3 b3 d3 n4 where ss: "ss = [toggle ''sudo'' n1 b1 d1, toggle ''polkit'' n2 b2 d2, toggle ''login'' n3 b3 d3,
     toggle ''pamSetPassword'' n4 (as_unixSetPasswordPAM (is_settings s)) False]"
    using Linux_GetSettings_flags [of e s] assms(1) by auto
  let ?f = "Linux_ApplySetting e False"
  obtain u1 u2 u3 where u: "?f (toggle ''sudo'' n1 b1 d1) u = (Inr (), u1)" "?f (toggle ''polkit'' n2 b2 d2) u1 = (Inr (), u2)"
    "?f (toggle ''login'' n3 b3 d3) u2 = (Inr (), u3)"
    "seq_install (?f (toggle ''pamSetPassword'' n4 (as_unixSetPasswordPAM (is_settings s)) False)) (return ()) u3 = (Inr (), w)"
    using assms(2) unfolding ss Linux_ApplySettings_def each.simps and_then_Inr by auto
  have "is_settings u1 = is_settings u" using steadyD [OF steady_entries u(1)] by simp
  moreover have "is_settings u2 = is_settings u1" using steadyD [OF steady_entries u(2)] by simp
  moreover have "is_settings u3 = is_settings u2" using steadyD [OF steady_entries u(3)] by simp
  ultimately have "is_settings u3 = is_settings u" by simp
  with u(4) show ?thesis
    by (auto simp: Linux_ApplySetting_def toggle_def and_then_Inr return_def linux_kept_def)
qed

lemma Mac_restores:
  assumes "Mac_ApplySettings e ss b u = (Inr (), w)"
  shows "is_settings w = is_settings u"
proof -
  have "steady [] (=) (Mac_ApplySettings e ss b)"
    unfolding Mac_ApplySettings_def Mac_ApplySetting_def Let_def by (intro steady_intros steady_each steady_config preorder_settings)
  from steadyD [OF this assms] show ?thesis by simp
qed

lemma Win_restores:
  assumes "Win_GetSettings e s = (Inr ss, t)" and "Win_ApplySettings ss False u = (Inr (), w)"
  shows "is_settings w = win_kept (is_settings s) (is_settings u)"
  using assms
  by (auto simp: Win_GetSettings_def with_settings_def return_def Win_ApplySettings_def and_then_def Win_ApplySetting_def toggle_def
      choice_def win_kept_def)

interpretation linux_page: settings_page "Linux_GetSettings e" "Linux_ApplySettings e" "Linux_Install e" "Linux_Uninstall e"
  "\<lambda>f. Linux_IsInstalled f PAM_MODULE_DIRS" unix_ready linux_kept for e
  by unfold_locales (rule Linux_restores)

interpretation mac_page: settings_page "Mac_GetSettings e" "Mac_ApplySettings e" "Mac_Install e" "Mac_Uninstall e"
  Mac_IsInstalled unix_ready mac_kept for e
  by unfold_locales (simp add: mac_kept_def Mac_restores)

interpretation win_page: settings_page "Win_GetSettings e" Win_ApplySettings "Win_Install J env dir e we" "Win_Uninstall e we"
  "Win_IsInstalled we" "win_ready dir we" win_kept for J env dir e we
  by unfold_locales (rule Win_restores)

end
