(* ===== verification/SettingsForm.thy ===== *)
theory SettingsForm
  imports Installers
begin

text \<open>
  \<open>desktop/src/ui/SettingsForm.h\<close> and \<open>SettingsForm.cpp\<close>: the page that edits the application's settings and those
  of the service. Texts are the UTF-8 bytes of the page's texts; \<open>u8\<close> is the effect of reading stored bytes as UTF-8
  (\<open>QString::fromUtf8\<close>, which replaces what is not).
\<close>

section \<open>Models of the page\<close>

record AppSettingsModel =
  am_machineID :: string
  am_installedVersion :: string
  am_language :: string
  am_serverIP :: string
  am_serverMAC :: string
  am_pairingDiscoveryPort :: u16
  am_pairingServerPort :: u16
  am_unlockServerPort :: u16
  am_clientSocketTimeout :: u32
  am_clientConnectTimeout :: u32
  am_clientConnectRetries :: u32

definition settings_model :: "(string \<Rightarrow> string) \<Rightarrow> PCBUAppStorage \<Rightarrow> AppSettingsModel" where
  "settings_model u8 settings =
     \<lparr>am_machineID = u8 (as_machineID settings), am_installedVersion = u8 (as_installedVersion settings),
      am_language = u8 (as_language settings), am_serverIP = u8 (as_serverIP settings), am_serverMAC = u8 (as_serverMAC settings),
      am_pairingDiscoveryPort = as_pairingDiscoveryPort settings, am_pairingServerPort = as_pairingServerPort settings,
      am_unlockServerPort = as_unlockServerPort settings, am_clientSocketTimeout = as_clientSocketTimeout settings,
      am_clientConnectTimeout = as_clientConnectTimeout settings, am_clientConnectRetries = as_clientConnectRetries settings\<rparr>"

text \<open>\<open>ToStorage\<close> starts from \<open>PCBUAppStorage()\<close>.\<close>

definition ToStorage :: "AppSettingsModel \<Rightarrow> PCBUAppStorage" where
  "ToStorage m = empty_storage\<lparr>as_machineID := am_machineID m, as_installedVersion := am_installedVersion m,
     as_language := am_language m, as_serverIP := am_serverIP m, as_serverMAC := am_serverMAC m,
     as_pairingDiscoveryPort := am_pairingDiscoveryPort m, as_pairingServerPort := am_pairingServerPort m,
     as_unlockServerPort := am_unlockServerPort m, as_clientSocketTimeout := am_clientSocketTimeout m,
     as_clientConnectTimeout := am_clientConnectTimeout m, as_clientConnectRetries := am_clientConnectRetries m\<rparr>"

record ServiceSettingModel =
  sm_type :: string
  sm_id :: string
  sm_name :: string
  sm_enabled :: bool
  sm_optionNames :: "string list"
  sm_optionValues :: "string list"
  sm_selectedValue :: string

record settings_form =
  sf_EditSettings :: AppSettingsModel
  sf_EditServiceSettings :: "ServiceSetting list"
  sf_view :: string           \<comment> \<open>the page of the view loader\<close>
  sf_errors :: "string list"  \<comment> \<open>messages shown by the window\<close>

section \<open>Operations\<close>

definition SetSettings :: "AppSettingsModel \<Rightarrow> settings_form \<Rightarrow> settings_form" where
  "SetSettings m form = form\<lparr>sf_EditSettings := m\<rparr>"

definition GetServiceSettings :: "(string \<Rightarrow> string) \<Rightarrow> settings_form \<Rightarrow> ServiceSettingModel list" where
  "GetServiceSettings u8 form = map (\<lambda>setting.
     \<lparr>sm_type = u8 (ss_type setting), sm_id = u8 (ss_id setting), sm_name = u8 (ss_name setting), sm_enabled = ss_enabled setting,
      sm_optionNames = map (\<lambda>option. u8 (so_name option)) (ss_options setting),
      sm_optionValues = map (\<lambda>option. u8 (so_value option)) (ss_options setting),
      sm_selectedValue = u8 (ss_selectedValue setting)\<rparr>) (sf_EditServiceSettings form)"

text \<open>The first setting with the id of the model is changed; the inner loop breaks there.\<close>

fun set_first :: "ServiceSettingModel \<Rightarrow> ServiceSetting list \<Rightarrow> ServiceSetting list" where
  "set_first m [] = []"
| "set_first m (setting # rest) =
     (if ss_id setting \<noteq> sm_id m then setting # set_first m rest
      else setting\<lparr>ss_enabled := sm_enabled m, ss_selectedValue := sm_selectedValue m\<rparr> # rest)"

definition SetServiceSettings :: "ServiceSettingModel list \<Rightarrow> settings_form \<Rightarrow> settings_form" where
  "SetServiceSettings ms form = form\<lparr>sf_EditServiceSettings := foldl (\<lambda>ss m. set_first m ss) (sf_EditServiceSettings form) ms\<rparr>"

definition debug_file :: "string \<Rightarrow> string" where
  "debug_file dir = path_join dir ''LOG_DEBUG''"

definition IsDebugLoggingEnabled :: "string \<Rightarrow> fs \<Rightarrow> bool" where
  "IsDebugLoggingEnabled dir f = exists_path f (debug_file dir)"

text \<open>The new files and what is logged.\<close>

definition SetDebugLoggingEnabled :: "string \<Rightarrow> bool \<Rightarrow> fs \<Rightarrow> fs \<times> string list" where
  "SetDebugLoggingEnabled dir enabled f =
     (if enabled then
        (let (ok, f) = CreateFile f (debug_file dir) in (f, if ok then [] else [''Failed to create debug log file.'']))
      else
        (let (ok, f) = RemoveFile f (debug_file dir) in (f, if ok then [] else [''Failed to remove debug log file.''])))"

definition IsUDPMethod :: "PairingMethod \<Rightarrow> bool" where
  "IsUDPMethod m \<longleftrightarrow> m = UDP \<or> m = MANUAL_UDP"

definition HasUDPDevices :: "'j json_lib \<Rightarrow> platform \<Rightarrow> prot_env \<Rightarrow> string \<Rightarrow> fs \<Rightarrow> bool \<times> fs" where
  "HasUDPDevices J pf env dir f =
     (let (ds, f) = GetDevices J pf env dir f in (list_ex (\<lambda>d. IsUDPMethod (pd_pairingMethod d)) ds, f))"

definition RemoveUDPDevices :: "'j json_lib \<Rightarrow> platform \<Rightarrow> prot_env \<Rightarrow> string \<Rightarrow> fs \<Rightarrow> fs" where
  "RemoveUDPDevices J pf env dir f =
     (let (ds, f) = GetDevices J pf env dir f in
      SaveDevices J pf env dir (filter (\<lambda>d. \<not> IsUDPMethod (pd_pairingMethod d)) ds) f)"

text \<open>\<open>Show\<close>; an exception of \<open>GetSettings\<close> is not caught (\<open>None\<close>).\<close>

definition Show_settings :: "(string \<Rightarrow> string) \<Rightarrow> ServiceSetting list install \<Rightarrow> settings_form \<Rightarrow> install_state \<Rightarrow>
    (settings_form \<times> install_state) option" where
  "Show_settings u8 getSettings form s =
     (let form = form\<lparr>sf_EditSettings := settings_model u8 (is_settings s)\<rparr> in
      case getSettings s of
        (Inl e, s) \<Rightarrow> None
      | (Inr ss, s) \<Rightarrow> Some (form\<lparr>sf_EditServiceSettings := ss, sf_view := ''qrc:/ui/forms/SettingsForm.qml''\<rparr>, s))"

text \<open>The settings are saved, the service settings applied on top of them, and the cache is emptied.\<close>

definition OnSaveSettingsClicked :: "(ServiceSetting list \<Rightarrow> bool \<Rightarrow> unit install) \<Rightarrow> settings_form \<Rightarrow> install_state \<Rightarrow>
    settings_form \<times> install_state" where
  "OnSaveSettingsClicked applySettings form s =
     (let s = save_settings (ToStorage (sf_EditSettings form)) s;
          (form, s) = (case applySettings (sf_EditServiceSettings form) False s of
              (Inl e, s) \<Rightarrow> (form\<lparr>sf_errors := sf_errors form @ [''Failed to write service settings.'']\<rparr>, s\<lparr>is_log := is_log s @ [e]\<rparr>)
            | (Inr _, s) \<Rightarrow> (form, s));
          s = invalidate_cache s
      in (form\<lparr>sf_view := ''qrc:/ui/forms/MainForm.qml''\<rparr>, s))"

section \<open>What the page keeps\<close>

lemma settings_model_storage: "(\<And>x. u8 x = x) \<Longrightarrow> settings_model u8 (ToStorage m) = m"
  by (simp add: settings_model_def ToStorage_def)

text \<open>Passing the models back unchanged changes nothing, and only flags and choices can change.\<close>

lemma set_first_distinct:
  assumes "sm_id m = ss_id s" and "sm_enabled m = ss_enabled s" and "sm_selectedValue m = ss_selectedValue s"
    and "s \<in> set ss" and "distinct (map ss_id ss)"
  shows "set_first m ss = ss"
  using assms by (induction ss) auto

lemma set_first_ids: "map ss_id (set_first m ss) = map ss_id ss"
  by (induction ss) auto

lemma service_settings_roundtrip:
  assumes "\<And>x. u8 x = x" and "distinct (map ss_id (sf_EditServiceSettings form))"
  shows "SetServiceSettings (GetServiceSettings u8 form) form = form"
proof -
  let ?ss = "sf_EditServiceSettings form"
  have "foldl (\<lambda>ss m. set_first m ss) ?ss (map f xs) = ?ss"
    if "\<And>s. sm_id (f s) = ss_id s \<and> sm_enabled (f s) = ss_enabled s \<and> sm_selectedValue (f s) = ss_selectedValue s"
      and "set xs \<subseteq> set ?ss" for f xs
    using that(2) by (induction xs) (simp_all add: that(1) set_first_distinct assms(2))
  from this [of _ ?ss] show ?thesis
    unfolding SetServiceSettings_def GetServiceSettings_def by (simp add: assms(1))
qed

context settings_page
begin

text \<open>Opening and saving the page: what counts afterwards is the file.\<close>

lemma show_save_settings:
  assumes "Show_settings u8 getSettings form s = Some (form1, s1)" and "\<And>x. u8 x = x"
    and "OnSaveSettingsClicked applySettings form1 s1 = (form2, s2)"
  shows "(if is_writable s
      then same_app_settings ((is_settings s)\<lparr>as_cloudRelayUrl := []\<rparr>) (is_settings s2) \<and>
        (sf_errors form2 = sf_errors form1 \<longrightarrow>
          is_settings s2 = kept (is_settings s) (ToStorage (settings_model (\<lambda>x. x) (is_settings s))))
      else is_settings s2 = is_stored s) \<and>
    is_stored s2 = is_settings s2 \<and> isInstalled (is_fs s2) = isInstalled (is_fs s)"
proof -
  obtain ss where g: "getSettings s = (Inr ss, s1)" and f: "sf_EditSettings form1 = settings_model u8 (is_settings s)"
    "sf_EditServiceSettings form1 = ss"
    using assms(1) by (auto simp: Show_settings_def Let_def split: prod.splits sum.splits)
  have u8: "u8 = (\<lambda>x. x)" using assms(2) by auto
  let ?x = "ToStorage (settings_model (\<lambda>x. x) (is_settings s))" and ?u = "save_settings (ToStorage (sf_EditSettings form1)) s1"
  obtain r t where a: "applySettings ss False ?u = (r, t)" by (cases "applySettings ss False ?u") blast
  have s2: "is_settings s2 = is_stored t" "is_stored s2 = is_stored t" "is_fs s2 = is_fs t"
    and ok: "sf_errors form2 = sf_errors form1 \<Longrightarrow> r = Inr ()"
    using assms(3) a f(2) by (auto simp: OnSaveSettingsClicked_def Let_def invalidate_cache_def split: sum.splits)
  have u: "is_settings ?u = ?x" "store_kept s1 ?u" using f(1) u8 by simp_all
  have k: "store_kept s s1" "store_kept ?u t" "same_app_settings ?x (is_settings t)" "isInstalled (is_fs t) = isInstalled (is_fs s)"
    using get_keeps [OF g] apply_keeps [OF a] u by simp_all
  have x: "same_app_settings ((is_settings s)\<lparr>as_cloudRelayUrl := []\<rparr>) ?x"
    by (simp add: same_app_settings_def ToStorage_def settings_model_def empty_storage_def)
  have "is_stored t = is_settings t" if "is_writable s"
    using that k(1,2) by (auto simp: store_kept_def)
  moreover have "is_stored t = is_stored s" if "\<not> is_writable s"
    using that k(1,2) by (auto simp: store_kept_def)
  moreover have "is_settings t = kept (is_settings s) ?x" if "r = Inr ()"
    using apply_restores [OF g] a that u(1) by simp
  ultimately show ?thesis using s2 ok k(3,4) same_app_settings_trans [OF x k(3)] by auto
qed

end


section \<open>Devices paired over UDP\<close>

lemma RemoveUDPDevices_removes:
  assumes "json_laws J" and "prot_ok pf env" and "stored J dir f ds"
    and "room J dir (filter (\<lambda>d. \<not> IsUDPMethod (pd_pairingMethod d)) ds) f"
  shows "\<not> fst (HasUDPDevices J pf env dir (RemoveUDPDevices J pf env dir f))"
proof -
  let ?ds = "filter (\<lambda>d. \<not> IsUDPMethod (pd_pairingMethod d)) ds"
  have "stored J dir (SaveDevices J pf env dir ?ds f) ?ds" by (rule SaveDevices_stored [OF assms(1,2,4)])
  from GetDevices_stored [OF assms(1,2) this] GetDevices_stored [OF assms(1-3)] show ?thesis
    by (auto simp: HasUDPDevices_def RemoveUDPDevices_def list_ex_iff)
qed

section \<open>Witnesses\<close>

definition demo_settings_form :: settings_form where
  "demo_settings_form = \<lparr>sf_EditSettings = settings_model (\<lambda>x. x) empty_storage, sf_EditServiceSettings = [], sf_view = [], sf_errors = []\<rparr>"


end
