(* ===== verification/MainWindow.thy ===== *)
theory MainWindow
  imports Installers PlatformHelper
begin

text \<open>
  \<open>desktop/src/ui/MainWindow.cpp\<close>: the checks at the start, and installing, reinstalling and removing the program. The
  thread that installs runs one operation of the installer; its exceptions become a line of the log.
\<close>

section \<open>Operations\<close>

definition IsPaired :: "'j json_lib \<Rightarrow> platform \<Rightarrow> prot_env \<Rightarrow> string \<Rightarrow> fs \<Rightarrow> bool \<times> fs" where
  "IsPaired J pf env dir f = (let (ds, f) = GetDevices J pf env dir f in (ds \<noteq> [], f))"

definition GetInstalledVersion :: "(string \<Rightarrow> string) \<Rightarrow> PCBUAppStorage \<Rightarrow> string" where
  "GetInstalledVersion tr settings =
     (if as_installedVersion settings = [] then tr ''installed_version_none'' else as_installedVersion settings)"

text \<open>What the loading screen is asked to show.\<close>

datatype loading = Loading string | Finished string

text \<open>\<open>AppSettings::SetInstalledVersion\<close>: it saves and empties the cache.\<close>

definition set_installed :: "string \<Rightarrow> bool \<Rightarrow> unit install" where
  "set_installed version b s =
     (Inr (), invalidate_cache (save_settings ((is_settings s)\<lparr>as_installedVersion := if b then version else []\<rparr>) s))"

definition install_toggle :: "ServiceSetting list install \<Rightarrow> (ServiceSetting list \<Rightarrow> bool \<Rightarrow> unit install) \<Rightarrow> unit install \<Rightarrow>
    unit install \<Rightarrow> (fs \<Rightarrow> bool) \<Rightarrow> string \<Rightarrow> unit install" where
  "install_toggle getSettings applySettings doInstall doUninstall isInstalled version =
     and_then (get_fs isInstalled) (\<lambda>installed.
     seq_install (if installed then seq_install doUninstall (ClearSettings getSettings applySettings)
       else seq_install doInstall (and_then getSettings (\<lambda>ss. applySettings ss True))) (
     and_then (get_fs isInstalled) (set_installed version)))"

definition install_again :: "ServiceSetting list install \<Rightarrow> (ServiceSetting list \<Rightarrow> bool \<Rightarrow> unit install) \<Rightarrow> unit install \<Rightarrow>
    unit install \<Rightarrow> (fs \<Rightarrow> bool) \<Rightarrow> string \<Rightarrow> unit install" where
  "install_again getSettings applySettings doInstall doUninstall isInstalled version =
     and_then (get_fs isInstalled) (\<lambda>installed.
     seq_install (if installed then doUninstall else return ()) (
     seq_install doInstall (
     seq_install (and_then getSettings (\<lambda>ss. applySettings ss False)) (
     set_installed version True))))"

text \<open>The thread of \<open>OnInstallClicked\<close> and \<open>OnReinstallClicked\<close>: the calls on the window and the state afterwards.\<close>

definition loading_thread :: "(string \<Rightarrow> string) \<Rightarrow> unit install \<Rightarrow> install_state \<Rightarrow> loading list \<times> install_state" where
  "loading_thread tr body s =
     (case body s of
        (Inr _, t) \<Rightarrow> ([Loading (tr ''please_wait''), Finished (tr ''success'')], t)
      | (Inl e, t) \<Rightarrow> ([Loading (tr ''please_wait''), Finished (tr ''error'')], t\<lparr>is_log := is_log t @ [e]\<rparr>))"

text \<open>
  The checks: the first message that ends the program, or whether a reinstallation is started. \<open>native\<close> answers
  whether a library is there, \<open>user_cmd\<close> whether a command of the user succeeds.
\<close>

record startup_env =
  su_admin :: bool
  su_user_cmd :: "string \<Rightarrow> bool"
  su_native :: "string \<Rightarrow> bool"
  su_tr :: "string \<Rightarrow> string"
  su_missing :: "string \<Rightarrow> string"   \<comment> \<open>\<open>I18n::Get("error_unix_missing_dep", \<dots>)\<close>\<close>

definition linux_checks :: "startup_env \<Rightarrow> string option" where
  "linux_checks e =
     (if \<not> su_user_cmd e ''test -f /etc/shadow'' then Some (su_missing e ''Shadow file'')
      else if \<not> su_native e ''libcrypt.so.1'' then Some (su_missing e ''libcrypt.so.1 (libxcrypt-compat)'')
      else if \<not> su_native e ''libcrypto.so.3'' \<or> \<not> su_native e ''libssl.so.3'' then Some (su_missing e ''OpenSSL 3'')
      else if \<not> su_native e ''libbluetooth.so'' \<and> \<not> su_native e ''libbluetooth.so.3'' then Some (su_missing e ''libbluetooth'')
      else None)"

definition PerformStartupChecks :: "platform \<Rightarrow> startup_env \<Rightarrow> (fs \<Rightarrow> bool) \<Rightarrow> string \<Rightarrow> install_state \<Rightarrow> string + bool" where
  "PerformStartupChecks pf e isInstalled version s =
     (if \<not> su_admin e then Inl (su_tr e ''error_not_admin'')
      else if pf \<noteq> Windows \<and> \<not> su_user_cmd e ''which bash'' then Inl (su_missing e ''bash'')
      else case (if pf = Linux then linux_checks e else None) of
        Some msg \<Rightarrow> Inl msg
      | None \<Rightarrow> (let installedVersion = as_installedVersion (is_settings s) in
          Inr (isInstalled (is_fs s) \<and> (CompareVersion installedVersion version = 1 \<or> installedVersion = []))))"

definition OnRemoveDeviceClicked :: "'j json_lib \<Rightarrow> platform \<Rightarrow> prot_env \<Rightarrow> string \<Rightarrow> string \<Rightarrow> fs \<Rightarrow> string \<times> fs" where
  "OnRemoveDeviceClicked J pf env dir pairingId f =
     (let f = RemoveDevice J pf env dir pairingId f in (''qrc:/ui/forms/MainForm.qml'', f))"

section \<open>What the buttons do\<close>

lemma and_then_get: "and_then (get_fs h) g s = g (h (is_fs s)) s"
  by (simp add: and_then_def get_fs_def)

lemma and_then_cases:
  assumes "and_then f g s = (r, t)"
  obtains e where "r = Inl e" "f s = (Inl e, t)" | a u where "f s = (Inr a, u)" "g a u = (r, t)"
  using assms by (auto simp: and_then_def split: prod.splits sum.splits)

lemma set_installed_writable:
  "is_writable s \<Longrightarrow> set_installed version b s = (r, t) \<Longrightarrow> r = Inr () \<and> is_fs t = is_fs s \<and>
    as_installedVersion (is_settings t) = (if b then version else [])"
  by (auto simp: set_installed_def invalidate_cache_def)

lemma same_version_setting: "same_app_settings a b \<Longrightarrow> as_installedVersion b = as_installedVersion a"
  by (simp add: same_app_settings_def)

context installer
begin

lemma apply_got:
  assumes "and_then getSettings (\<lambda>ss. applySettings (h ss) b) s = (r, t)"
  shows "same_app_settings (is_settings s) (is_settings t) \<and> store_kept s t \<and> isInstalled (is_fs t) = isInstalled (is_fs s)"
  using assms
proof (cases rule: and_then_cases)
  case (1 e)
  then show ?thesis using get_keeps by fastforce
next
  case (2 ss u)
  then show ?thesis using get_keeps [OF 2(1)] apply_keeps [OF 2(2)] store_kept_trans [of s u t] by simp
qed

text \<open>The two halves of a click on the install button.\<close>

lemma uninstall_half:
  assumes "seq_install doUninstall (ClearSettings getSettings applySettings) s = (r, t)"
  shows "as_installedVersion (is_settings t) = as_installedVersion (is_settings s)"
    and "ready (is_fs s) \<Longrightarrow> r = Inr () \<Longrightarrow> \<not> isInstalled (is_fs t)" and "is_writable t = is_writable s"
proof -
  have "as_installedVersion (is_settings t) = as_installedVersion (is_settings s) \<and> is_writable t = is_writable s \<and>
      (ready (is_fs s) \<longrightarrow> r = Inr () \<longrightarrow> \<not> isInstalled (is_fs t))"
    using assms
  proof (cases rule: and_then_cases)
    case (1 e)
    then show ?thesis using uninstall_keeps by (auto simp: store_kept_def)
  next
    case (2 a u)
    then have "doUninstall s = (Inr (), u)" by simp
    with 2 apply_got [of clear_copies False u r t] show ?thesis
      using uninstall_done uninstall_keeps by (simp add: ClearSettings_def same_app_settings_def store_kept_def)
  qed
  then show "as_installedVersion (is_settings t) = as_installedVersion (is_settings s)"
    "ready (is_fs s) \<Longrightarrow> r = Inr () \<Longrightarrow> \<not> isInstalled (is_fs t)" "is_writable t = is_writable s" by blast+
qed

lemma install_half:
  assumes "seq_install doInstall (and_then getSettings (\<lambda>ss. applySettings ss b)) s = (r, t)"
  shows "as_installedVersion (is_settings t) = as_installedVersion (is_settings s)"
    and "ready (is_fs s) \<Longrightarrow> r = Inr () \<Longrightarrow> isInstalled (is_fs t)" and "is_writable t = is_writable s"
proof -
  have "as_installedVersion (is_settings t) = as_installedVersion (is_settings s) \<and> is_writable t = is_writable s \<and>
      (ready (is_fs s) \<longrightarrow> r = Inr () \<longrightarrow> isInstalled (is_fs t))"
    using assms
  proof (cases rule: and_then_cases)
    case (1 e)
    then show ?thesis using install_keeps by (auto simp: store_kept_def)
  next
    case (2 a u)
    then have "doInstall s = (Inr (), u)" by simp
    with 2 apply_got [of "\<lambda>ss. ss" b u r t] show ?thesis
      using install_done install_keeps by (simp add: same_app_settings_def store_kept_def)
  qed
  then show "as_installedVersion (is_settings t) = as_installedVersion (is_settings s)"
    "ready (is_fs s) \<Longrightarrow> r = Inr () \<Longrightarrow> isInstalled (is_fs t)" "is_writable t = is_writable s" by blast+
qed

lemma toggle_result:
  assumes "install_toggle getSettings applySettings doInstall doUninstall isInstalled version s = (r, t)"
    and "is_writable s"
  shows "case r of Inl e \<Rightarrow> as_installedVersion (is_settings t) = as_installedVersion (is_settings s)
    | Inr _ \<Rightarrow> as_installedVersion (is_settings t) = (if isInstalled (is_fs t) then version else []) \<and>
        (ready (is_fs s) \<longrightarrow> isInstalled (is_fs t) = (\<not> isInstalled (is_fs s)))"
proof -
  let ?half = "if isInstalled (is_fs s) then seq_install doUninstall (ClearSettings getSettings applySettings)
    else seq_install doInstall (and_then getSettings (\<lambda>ss. applySettings ss True))"
  have "seq_install ?half (and_then (get_fs isInstalled) (set_installed version)) s = (r, t)"
    using assms(1) by (simp only: install_toggle_def and_then_get)
  then show ?thesis
  proof (cases rule: and_then_cases)
    case (1 e)
    then show ?thesis using uninstall_half(1) install_half(1) by (auto split: if_splits)
  next
    case (2 a u)
    have "is_writable u" using 2(1) uninstall_half(3) install_half(3) assms(2) by (auto split: if_splits)
    with 2(2) have t: "r = Inr ()" "is_fs t = is_fs u"
      "as_installedVersion (is_settings t) = (if isInstalled (is_fs u) then version else [])"
      using set_installed_writable [of u version "isInstalled (is_fs u)" r t] by (simp_all add: and_then_get)
    have "ready (is_fs s) \<longrightarrow> isInstalled (is_fs u) = (\<not> isInstalled (is_fs s))"
      using 2(1) uninstall_half(2) [of s "Inr ()" u] install_half(2) [of True s "Inr ()" u] by (auto split: if_splits)
    with t show ?thesis by simp
  qed
qed

lemma again_done:
  assumes "ready (is_fs s)" and "is_writable s"
    and "install_again getSettings applySettings doInstall doUninstall isInstalled version s = (Inr (), t)"
  shows "isInstalled (is_fs t) \<and> as_installedVersion (is_settings t) = version"
proof -
  obtain u v where u: "(if isInstalled (is_fs s) then doUninstall else return ()) s = (Inr (), u)"
    and v: "seq_install doInstall (seq_install (and_then getSettings (\<lambda>ss. applySettings ss False)) (set_installed version True)) u = (Inr (), t)"
    using assms(3) unfolding install_again_def and_then_get and_then_Inr [of "if _ then _ else _"] by auto
  have "ready (is_fs u)" using u assms(1) uninstall_ready by (auto simp: return_def split: if_splits)
  moreover obtain w z where w: "doInstall u = (Inr (), w)"
    "and_then getSettings (\<lambda>ss. applySettings ss False) w = (Inr (), z)" "set_installed version True z = (Inr (), t)"
    using v unfolding and_then_Inr [of doInstall] and_then_Inr [of "and_then getSettings _"] by auto
  ultimately have "isInstalled (is_fs z)"
    using install_done apply_got [of "\<lambda>ss. ss" False w "Inr ()" z] by simp
  moreover have "is_writable u" using u assms(2) uninstall_keeps by (auto simp: return_def store_kept_def split: if_splits)
  then have "is_writable z"
    using w(2) install_keeps [OF w(1)] apply_got [of "\<lambda>ss. ss" False w "Inr ()" z] by (simp add: store_kept_def)
  ultimately show ?thesis using set_installed_writable [OF _ w(3)] by simp
qed

lemma toggle_thread:
  assumes "loading_thread tr (install_toggle getSettings applySettings doInstall doUninstall isInstalled version) s = (calls, t)"
    and "ready (is_fs s)" and "tr ''success'' \<noteq> tr ''error''" and "is_writable s"
  shows "if last calls = Finished (tr ''success'')
    then isInstalled (is_fs t) = (\<not> isInstalled (is_fs s)) \<and>
      as_installedVersion (is_settings t) = (if isInstalled (is_fs t) then version else [])
    else as_installedVersion (is_settings t) = as_installedVersion (is_settings s)"
proof -
  obtain r u where u: "install_toggle getSettings applySettings doInstall doUninstall isInstalled version s = (r, u)"
    by (cases "install_toggle getSettings applySettings doInstall doUninstall isInstalled version s") blast
  show ?thesis
    using assms toggle_result [OF u assms(4)] u by (auto simp: loading_thread_def split: sum.splits)
qed

lemma again_thread:
  assumes "loading_thread tr (install_again getSettings applySettings doInstall doUninstall isInstalled version) s = (calls, t)"
    and "ready (is_fs s)" and "last calls = Finished (tr ''success'')" and "tr ''success'' \<noteq> tr ''error''"
    and "is_writable s"
  shows "isInstalled (is_fs t) \<and> as_installedVersion (is_settings t) = version"
proof -
  have "install_again getSettings applySettings doInstall doUninstall isInstalled version s = (Inr (), t)"
    using assms(1,3,4) by (auto simp: loading_thread_def split: prod.splits sum.splits)
  from again_done [OF assms(2,5) this] show ?thesis .
qed

end

text \<open>The installers that the program is built with.\<close>

definition built_installers :: "'j json_lib \<Rightarrow> prot_env \<Rightarrow> string \<Rightarrow> install_env \<Rightarrow> win_env \<Rightarrow>
    (ServiceSetting list install \<times> (ServiceSetting list \<Rightarrow> bool \<Rightarrow> unit install) \<times> unit install \<times> unit install \<times>
     (fs \<Rightarrow> bool) \<times> (fs \<Rightarrow> bool)) set" where
  "built_installers J env dir e we =
     {(Linux_GetSettings e, Linux_ApplySettings e, Linux_Install e, Linux_Uninstall e,
         \<lambda>f. Linux_IsInstalled f PAM_MODULE_DIRS, unix_ready),
      (Mac_GetSettings e, Mac_ApplySettings e, Mac_Install e, Mac_Uninstall e, Mac_IsInstalled, unix_ready),
      (Win_GetSettings e, Win_ApplySettings, Win_Install J env dir e we, Win_Uninstall e we, Win_IsInstalled we, win_ready dir we)}"

lemma built_installer:
  "(get, app, inst, unst, isInst, ready) \<in> built_installers J env dir e we \<Longrightarrow> installer get app inst unst isInst ready"
  unfolding built_installers_def
  using linux_installer.installer_axioms mac_installer.installer_axioms win_installer.installer_axioms by blast

text \<open>
  The install button on Linux, macOS and Windows: when the loading screen ends with success, the program is installed
  exactly if it was not, and the version that is stored is that of the program, or empty after an uninstallation; when
  it ends with an error, the stored version is what it was (the settings file can be written).
\<close>

theorem install_button:
  assumes "(get, app, inst, unst, isInst, ready) \<in> built_installers J env dir e we"
    and "ready (is_fs s)" and "tr ''success'' \<noteq> tr ''error''" and "is_writable s"
    and "loading_thread tr (install_toggle get app inst unst isInst version) s = (calls, t)"
  shows "if last calls = Finished (tr ''success'')
    then isInst (is_fs t) = (\<not> isInst (is_fs s)) \<and>
      as_installedVersion (is_settings t) = (if isInst (is_fs t) then version else [])
    else as_installedVersion (is_settings t) = as_installedVersion (is_settings s)"
  using installer.toggle_thread [OF built_installer [OF assms(1)] assms(5,2,3,4)] .

section \<open>Reinstalling at the start\<close>

lemma parse_version_Nil: "parse_version [] = None"
  by code_simp

lemma startup_again:
  assumes "PerformStartupChecks pf e isInst version s = Inr again"
  shows "again \<longleftrightarrow> isInst (is_fs s) \<and>
    (CompareVersion (as_installedVersion (is_settings s)) version = 1 \<or> as_installedVersion (is_settings s) = [])"
  using assms by (auto simp: PerformStartupChecks_def Let_def split: if_splits option.splits)

lemma CompareVersion_self: "CompareVersion v v \<noteq> 1"
proof (cases "parse_version v")
  case None
  then show ?thesis by (simp add: CompareVersion_def)
next
  case (Some xs)
  from CompareVersion_parsed [OF Some Some] show ?thesis using older_irrefl by auto
qed

text \<open>
  At the start the program installs itself again exactly when it is installed and the version stored is older, by its
  first component that differs; and once a reinstallation has ended with success, starting the same
  version again does not lead to another one.
\<close>

theorem startup_reinstall:
  assumes "(get, app, inst, unst, isInst, ready) \<in> built_installers J env dir e we"
    and "ready (is_fs s)" and "tr ''success'' \<noteq> tr ''error''"
    and "parse_version (as_installedVersion (is_settings s)) = Some xs" and "parse_version version = Some ys"
    and "PerformStartupChecks pf su isInst version s = Inr again"
    and "loading_thread tr (install_again get app inst unst isInst version) s = (calls, t)" and "is_writable s"
  shows "(again \<longleftrightarrow> isInst (is_fs s) \<and> older xs ys) \<and>
    (last calls = Finished (tr ''success'') \<longrightarrow> PerformStartupChecks pf su isInst version t \<noteq> Inr True)"
proof (intro conjI impI)
  have "as_installedVersion (is_settings s) \<noteq> []" using assms(4) by (auto simp: parse_version_Nil)
  then show "again \<longleftrightarrow> isInst (is_fs s) \<and> older xs ys"
    using startup_again [OF assms(6)] CompareVersion_parsed [OF assms(4,5)] older_irrefl [of xs ys] same_not_older [of xs ys] by auto
next
  assume "last calls = Finished (tr ''success'')"
  then have "as_installedVersion (is_settings t) = version"
    using installer.again_thread [OF built_installer [OF assms(1)] assms(7,2) _ assms(3,8)] by blast
  moreover have "version \<noteq> []" using assms(5) by (auto simp: parse_version_Nil)
  ultimately show "PerformStartupChecks pf su isInst version t \<noteq> Inr True"
    using startup_again [of pf su isInst version t True] CompareVersion_self [of version] by auto
qed

section \<open>Witnesses\<close>

lemma demo_install_button:
  "\<exists>t. loading_thread (\<lambda>k. k) (install_toggle (Mac_GetSettings demo_installer) (Mac_ApplySettings demo_installer)
     (Mac_Install demo_installer) (Mac_Uninstall demo_installer) Mac_IsInstalled ''4.0.0'') demo_install =
     ([Loading ''please_wait'', Finished ''success''], t)"
  by (simp add: loading_thread_def install_toggle_def Mac_Install_def install_exe_def and_then_def logging_def on_fs_def check_def
      return_def get_fs_def run_ok_def demo_installer_def demo_install_def demo_fs_def WriteBytes_def CreateDir_def RunCommand_def
      RunUserCommand_def Mac_IsInstalled_def exists_path_def module_paths MAC_MODULE_DIR_def MAC_MODULE_FILE_def Mac_GetSettings_def
      Mac_ApplySettings_def Mac_ApplySetting_def toggle_def HasConfigEntry_def SetConfigEntry_def AddToConfig_def gen_common_def
      PAM_HEADER_def PAM_CONFIG_GEN_ENTRY_def MAC_ENTRY_def pam_path_def set_installed_def invalidate_cache_def save_settings_def NL_def Let_def del: install_simps)

lemma install_button_witness:
  "\<exists>calls t. loading_thread (\<lambda>k. k) (install_toggle (Mac_GetSettings demo_installer) (Mac_ApplySettings demo_installer)
     (Mac_Install demo_installer) (Mac_Uninstall demo_installer) Mac_IsInstalled ''4.0.0'') demo_install = (calls, t) \<and>
     Mac_IsInstalled (is_fs t) \<and> as_installedVersion (is_settings t) = ''4.0.0''"
proof -
  obtain t where run: "loading_thread (\<lambda>k. k) (install_toggle (Mac_GetSettings demo_installer) (Mac_ApplySettings demo_installer)
     (Mac_Install demo_installer) (Mac_Uninstall demo_installer) Mac_IsInstalled ''4.0.0'') demo_install =
     ([Loading ''please_wait'', Finished ''success''], t)" using demo_install_button by blast
  have m: "(Mac_GetSettings demo_installer, Mac_ApplySettings demo_installer, Mac_Install demo_installer,
      Mac_Uninstall demo_installer, Mac_IsInstalled, unix_ready) \<in> built_installers toy_json demo_prot ''d'' demo_installer undefined"
    by (simp add: built_installers_def)
  have r: "unix_ready (is_fs demo_install)" and n: "\<not> Mac_IsInstalled (is_fs demo_install)" and w: "is_writable demo_install"
    by (simp_all add: demo_install_def demo_fs_def unix_ready_def Mac_IsInstalled_def exists_path_def)
  from install_button [OF m r _ _ run] n w show ?thesis
    by (intro exI [of _ "[Loading ''please_wait'', Finished ''success'']"] exI [of _ t]) (simp add: run)
qed

lemma startup_reinstall_witness:
  "PerformStartupChecks Apple \<lparr>su_admin = True, su_user_cmd = (\<lambda>_. True), su_native = (\<lambda>_. True), su_tr = id, su_missing = id\<rparr>
     Mac_IsInstalled ''4.0.0'' (demo_install\<lparr>is_fs := demo_fs\<lparr>fs_files := \<lambda>_. Some []\<rparr>,
       is_settings := tiny_settings ''m''\<lparr>as_installedVersion := ''3.9''\<rparr>\<rparr>) = Inr True"
proof -
  let ?e = "\<lparr>su_admin = True, su_user_cmd = (\<lambda>_. True), su_native = (\<lambda>_. True), su_tr = id, su_missing = id\<rparr> :: startup_env"
  let ?s = "demo_install\<lparr>is_fs := demo_fs\<lparr>fs_files := \<lambda>_. Some []\<rparr>, is_settings := tiny_settings ''m''\<lparr>as_installedVersion := ''3.9''\<rparr>\<rparr>"
  let ?b = "install_again (Mac_GetSettings demo_installer) (Mac_ApplySettings demo_installer)
     (Mac_Install demo_installer) (Mac_Uninstall demo_installer) Mac_IsInstalled ''4.0.0''"
  obtain calls t where run: "loading_thread (\<lambda>k. k) ?b ?s = (calls, t)" by (cases "loading_thread (\<lambda>k. k) ?b ?s") blast
  obtain again where a: "PerformStartupChecks Apple ?e Mac_IsInstalled ''4.0.0'' ?s = Inr again"
    by (simp add: PerformStartupChecks_def)
  have m: "(Mac_GetSettings demo_installer, Mac_ApplySettings demo_installer, Mac_Install demo_installer,
      Mac_Uninstall demo_installer, Mac_IsInstalled, unix_ready) \<in> built_installers toy_json demo_prot ''d'' demo_installer undefined"
    by (simp add: built_installers_def)
  have r: "unix_ready (is_fs ?s)" and i: "Mac_IsInstalled (is_fs ?s)" and w: "is_writable ?s"
    by (simp_all add: demo_install_def demo_fs_def unix_ready_def Mac_IsInstalled_def exists_path_def)
  have p: "parse_version (as_installedVersion (is_settings ?s)) = Some [3, 9]" by (simp add: tiny_settings_def) code_simp
  have q: "parse_version ''4.0.0'' = Some [4, 0, 0]" by code_simp
  have "older [3, 9] [4, 0, 0]" unfolding older_def by (rule exI [of _ 0]) (simp add: part_at_def)
  then have "again" using startup_reinstall [OF m r _ p q a run] i w by simp
  then show ?thesis using a by simp
qed

end
