(* ===== verification/CloudCommandListener.thy ===== *)
theory CloudCommandListener
  imports BaseUnlockConnection
begin

text \<open>
  \<open>desktop/src/CloudCommandListener.cpp\<close>: the thread that polls the relay for commands of the paired phones. What one
  poll draws from outside is a \<open>poll_turn\<close>; a round of the loop is the devices and settings that it reads.
\<close>

section \<open>Polling\<close>

record poll_turn =
  pt_running :: bool                       \<comment> \<open>\<open>m_Running\<close> at the device\<close>
  pt_env :: crypt_env
  pt_get :: "string \<Rightarrow> string \<Rightarrow> string \<Rightarrow> (int \<times> string) option"  \<comment> \<open>\<open>RestClient::Get\<close>; \<open>None\<close> when it throws\<close>
  pt_lock_ok :: bool                       \<comment> \<open>the answer of \<open>LockWorkStation\<close>\<close>

datatype poll_result = PollNone | PollFailed | PollLock

datatype listener_event = LockStation string | LogError string | LogDebug string

text \<open>The command in a decrypted packet; \<open>None\<close> is an exception.\<close>

definition is_lock_command :: "'j json_lib \<Rightarrow> PairedDevice \<Rightarrow> bytes \<Rightarrow> bool option" where
  "is_lock_command J device data = do {
     command \<leftarrow> j_parse J (string_of data);
     action \<leftarrow> value_or J (j_get_string J) command ''action'' [];
     if action = ''LOCK'' then do {
       i \<leftarrow> value_or J (j_get_string J) command ''deviceId'' [];
       Some (i = pd_id device) }
     else Some False
   }"

definition command_payload :: "'j json_lib \<Rightarrow> string \<Rightarrow> ('j \<times> string) option" where
  "command_payload J body = do {
     wrapper \<leftarrow> j_parse J body;
     str \<leftarrow> get_string J wrapper ''payload'';
     payload \<leftarrow> j_parse J str;
     i \<leftarrow> value_or J (j_get_string J) payload ''deviceId'' [];
     Some (payload, i)
   }"

text \<open>The body of the loop for one device, up to the command. The outer \<open>None\<close> is a write outside a buffer.\<close>

definition poll_command :: "'j libs \<Rightarrow> crypt_env \<Rightarrow> (int \<times> string) option \<Rightarrow> PairedDevice \<Rightarrow> poll_result option" where
  "poll_command lib e response device =
     (case response of
        None \<Rightarrow> Some PollFailed
      | Some (status, body) \<Rightarrow>
          if status \<noteq> 200 then Some PollNone
          else case command_payload (lb_json lib) body of
            None \<Rightarrow> Some PollFailed
          | Some (payload, i) \<Rightarrow>
              if i \<noteq> pd_id device then Some PollNone
              else case get_string (lb_json lib) payload ''encData'' of
                None \<Rightarrow> Some PollFailed
              | Some encData \<Rightarrow> do {
                  decrypted \<leftarrow> DecryptAESPacket (lb_crypt lib) e (FromHexString (cl_unhex (lb_crypt lib)) encData)
                    (pd_encryptionKey device);
                  Some (if cp_result decrypted \<noteq> OK then PollNone
                    else case is_lock_command (lb_json lib) device (cp_data decrypted) of
                      None \<Rightarrow> PollFailed | Some b \<Rightarrow> if b then PollLock else PollNone) })"

definition act_on :: "platform \<Rightarrow> bool \<Rightarrow> PairedDevice \<Rightarrow> poll_result \<Rightarrow> listener_event list" where
  "act_on pf lock_ok device r =
     (case r of
        PollNone \<Rightarrow> []
      | PollFailed \<Rightarrow> [LogDebug ''Cloud command poll failed'']
      | PollLock \<Rightarrow>
          if pf = Windows then LockStation (pd_id device) # (if lock_ok then [] else [LogError ''Remote LockWorkStation failed.''])
          else [])"

definition polled :: "poll_turn \<Rightarrow> PairedDevice \<Rightarrow> bool" where
  "polled t device \<longleftrightarrow> pt_running t \<and> pd_pairingMethod device = CLOUD_TCP \<and> pd_cloudToken device \<noteq> []"

definition device_turn :: "'j libs \<Rightarrow> string \<Rightarrow> poll_turn \<Rightarrow> PairedDevice \<Rightarrow> listener_event list option" where
  "device_turn lib relay t device =
     (if \<not> polled t device then Some []
      else do {
        r \<leftarrow> poll_command lib (pt_env t) (pt_get t relay ''/v1/relay/commands'' (pd_cloudToken device)) device;
        Some (act_on (lb_platform lib) (pt_lock_ok t) device r) })"

fun poll_devices :: "'j libs \<Rightarrow> string \<Rightarrow> (nat \<Rightarrow> poll_turn) \<Rightarrow> nat \<Rightarrow> PairedDevice list \<Rightarrow> listener_event list option" where
  "poll_devices lib relay turns n [] = Some []"
| "poll_devices lib relay turns n (device # devices) = do {
     evs \<leftarrow> device_turn lib relay (turns n) device;
     rest \<leftarrow> poll_devices lib relay turns (Suc n) devices;
     Some (evs @ rest) }"

text \<open>\<open>Run\<close>: whether the thread has ended, and what it did, in the rounds so far. The pause has no effect.\<close>

record poll_round =
  pr_running :: bool
  pr_devices :: "PairedDevice list"        \<comment> \<open>\<open>PairedDevicesStorage::GetDevices()\<close>\<close>
  pr_relay :: string                       \<comment> \<open>\<open>cloudRelayUrl\<close>\<close>
  pr_turns :: "nat \<Rightarrow> poll_turn"

fun Run_listener :: "'j libs \<Rightarrow> poll_round list \<Rightarrow> (bool \<times> listener_event list) option" where
  "Run_listener lib [] = Some (False, [])"
| "Run_listener lib (r # rs) =
     (if \<not> pr_running r then Some (True, [])
      else do {
        evs \<leftarrow> poll_devices lib (pr_relay r) (pr_turns r) 0 (pr_devices r);
        (ended, rest) \<leftarrow> Run_listener lib rs;
        Some (ended, evs @ rest) })"

section \<open>Only authentic commands\<close>

text \<open>What the relay answered holds a lock command that the phone with the device's key sealed within the window.\<close>

definition genuine_lock :: "'j libs \<Rightarrow> crypt_env \<Rightarrow> PairedDevice \<Rightarrow> string \<Rightarrow> bool" where
  "genuine_lock lib e device body \<longleftrightarrow>
     (\<exists>payload encData plain. command_payload (lb_json lib) body = Some (payload, pd_id device) \<and>
        get_string (lb_json lib) payload ''encData'' = Some encData \<and>
        unseal (lb_crypt lib) (c_str (pd_encryptionKey device)) (FromHexString (cl_unhex (lb_crypt lib)) encData) = Some plain \<and>
        8 < length plain \<and> in_window (ce_now e) (sint (un_be64 (take 8 plain))) \<and>
        is_lock_command (lb_json lib) device (drop 8 plain) = Some True)"

lemma poll_command_returns:
  assumes "crypt_laws (lb_crypt lib)"
  shows "\<exists>r. poll_command lib e response device = Some r"
proof -
  have "\<forall>d. \<exists>r. DecryptAESPacket (lb_crypt lib) e d (pd_encryptionKey device) = Some r"
    using DecryptAESPacket_result [OF assms] by blast
  then obtain R where "\<And>d. DecryptAESPacket (lb_crypt lib) e d (pd_encryptionKey device) = Some (R d)" by metis
  then show ?thesis by (simp add: poll_command_def split: option.split prod.split)
qed

lemma poll_command_lock:
  assumes "crypt_laws (lb_crypt lib)" and "poll_command lib e response device = Some PollLock"
  shows "\<exists>body. response = Some (200, body) \<and> genuine_lock lib e device body"
proof -
  obtain body payload encData r where r: "response = Some (200, body)"
    "command_payload (lb_json lib) body = Some (payload, pd_id device)"
    "get_string (lb_json lib) payload ''encData'' = Some encData"
    "DecryptAESPacket (lb_crypt lib) e (FromHexString (cl_unhex (lb_crypt lib)) encData) (pd_encryptionKey device) = Some r"
    "cp_result r = OK" "is_lock_command (lb_json lib) device (cp_data r) = Some True"
    using assms(2) by (auto simp: poll_command_def bind_eq_Some_conv split: option.splits if_splits prod.splits)
  from DecryptAESPacket_OK [OF assms(1) r(4,5)] r show ?thesis by (auto simp: genuine_lock_def)
qed

lemma device_turn_returns:
  assumes "crypt_laws (lb_crypt lib)"
  shows "\<exists>evs. device_turn lib relay t device = Some evs"
proof -
  obtain r where "poll_command lib (pt_env t) (pt_get t relay ''/v1/relay/commands'' (pd_cloudToken device)) device = Some r"
    using poll_command_returns [OF assms] by blast
  then show ?thesis by (simp add: device_turn_def)
qed

lemma device_turn_lock:
  assumes "crypt_laws (lb_crypt lib)" and "device_turn lib relay t device = Some evs" and "LockStation i \<in> set evs"
  shows "lb_platform lib = Windows \<and> i = pd_id device \<and> polled t device \<and>
    (\<exists>body. pt_get t relay ''/v1/relay/commands'' (pd_cloudToken device) = Some (200, body) \<and>
       genuine_lock lib (pt_env t) device body)"
proof -
  obtain r where p: "polled t device"
    and r: "poll_command lib (pt_env t) (pt_get t relay ''/v1/relay/commands'' (pd_cloudToken device)) device = Some r"
    and e: "evs = act_on (lb_platform lib) (pt_lock_ok t) device r"
    using assms(2,3) by (auto simp: device_turn_def bind_eq_Some_conv split: if_splits)
  have "r = PollLock \<and> lb_platform lib = Windows \<and> i = pd_id device"
    using assms(3) e by (auto simp: act_on_def split: poll_result.splits if_splits)
  with p poll_command_lock [OF assms(1)] r show ?thesis by blast
qed

lemma poll_devices_returns: "crypt_laws (lb_crypt lib) \<Longrightarrow> \<exists>evs. poll_devices lib relay turns n ds = Some evs"
proof (induction ds arbitrary: n)
  case (Cons d ds)
  from Cons.IH [OF Cons.prems, of "Suc n"] device_turn_returns [OF Cons.prems, of relay "turns n" d]
  show ?case by fastforce
qed simp

lemma poll_devices_event:
  "poll_devices lib relay turns n ds = Some evs \<Longrightarrow> ev \<in> set evs \<Longrightarrow>
   \<exists>k device es. device \<in> set ds \<and> device_turn lib relay (turns k) device = Some es \<and> ev \<in> set es"
proof (induction ds arbitrary: n evs)
  case (Cons d ds)
  then obtain e1 e2 where e: "device_turn lib relay (turns n) d = Some e1" "poll_devices lib relay turns (Suc n) ds = Some e2"
    "evs = e1 @ e2" by (auto simp: bind_eq_Some_conv)
  show ?case
  proof (cases "ev \<in> set e1")
    case True
    with e(1) show ?thesis by auto
  next
    case False
    then have "ev \<in> set e2" using Cons.prems(2) e(3) by simp
    from Cons.IH [OF e(2) this] show ?thesis by (meson list.set_intros(2))
  qed
qed simp

lemma Run_event:
  "Run_listener lib rs = Some (ended, evs) \<Longrightarrow> ev \<in> set evs \<Longrightarrow>
   \<exists>r \<in> set rs. \<exists>k. \<exists>device \<in> set (pr_devices r). \<exists>es.
     device_turn lib (pr_relay r) (pr_turns r k) device = Some es \<and> ev \<in> set es"
proof (induction rs arbitrary: ended evs)
  case (Cons r rs)
  then obtain e1 e2 where e: "poll_devices lib (pr_relay r) (pr_turns r) 0 (pr_devices r) = Some e1"
    "Run_listener lib rs = Some (ended, e2)" "evs = e1 @ e2"
    by (auto simp: bind_eq_Some_conv split: if_splits)
  show ?case
  proof (cases "ev \<in> set e1")
    case True
    from poll_devices_event [OF e(1) this] show ?thesis by (meson list.set_intros(1))
  next
    case False
    then have "ev \<in> set e2" using Cons.prems(2) e(3) by simp
    from Cons.IH [OF e(2) this] show ?thesis by (meson list.set_intros(2))
  qed
qed simp

lemma Run_listener_returns: "crypt_laws (lb_crypt lib) \<Longrightarrow> \<exists>ended evs. Run_listener lib rs = Some (ended, evs)"
proof (induction rs)
  case (Cons r rs)
  from Cons.IH [OF Cons.prems] poll_devices_returns [OF Cons.prems, of "pr_relay r" "pr_turns r" 0 "pr_devices r"]
  show ?case by auto
qed auto

text \<open>
  C18: Whatever the relay answers, the listener stays in its buffers and locks the station only on Windows, for a device paired
  over the cloud that has a token, when the answer to that device's poll holds a packet that is authentic under the
  key of the device, has a stamp within two minutes of the computer's clock and carries a \<open>LOCK\<close> command for the device.
\<close>

theorem lock_command_authentic:
  assumes "crypt_laws (lb_crypt lib)"
  shows "\<exists>ended evs. Run_listener lib rs = Some (ended, evs) \<and>
    (\<forall>i. LockStation i \<in> set evs \<longrightarrow> lb_platform lib = Windows \<and>
      (\<exists>r \<in> set rs. \<exists>k. \<exists>device \<in> set (pr_devices r). \<exists>body. i = pd_id device \<and> polled (pr_turns r k) device \<and>
         pt_get (pr_turns r k) (pr_relay r) ''/v1/relay/commands'' (pd_cloudToken device) = Some (200, body) \<and>
         genuine_lock lib (pt_env (pr_turns r k)) device body))"
proof -
  obtain ended evs where run: "Run_listener lib rs = Some (ended, evs)" using Run_listener_returns [OF assms] by blast
  have "lb_platform lib = Windows \<and>
      (\<exists>r \<in> set rs. \<exists>k. \<exists>device \<in> set (pr_devices r). \<exists>body. i = pd_id device \<and> polled (pr_turns r k) device \<and>
         pt_get (pr_turns r k) (pr_relay r) ''/v1/relay/commands'' (pd_cloudToken device) = Some (200, body) \<and>
         genuine_lock lib (pt_env (pr_turns r k)) device body)" if "LockStation i \<in> set evs" for i
    using Run_event [OF run that] device_turn_lock [OF assms, where i = i] by metis
  with run show ?thesis by blast
qed

section \<open>A command is obeyed, and again\<close>

text \<open>What a phone puts into the relay.\<close>

definition lock_command_json :: "'j json_lib \<Rightarrow> string \<Rightarrow> 'j" where
  "lock_command_json J i = j_object J [(''action'', j_string J ''LOCK''), (''deviceId'', j_string J i)]"

definition relay_payload_json :: "'j json_lib \<Rightarrow> string \<Rightarrow> string \<Rightarrow> 'j" where
  "relay_payload_json J i encData = j_object J [(''deviceId'', j_string J i), (''encData'', j_string J encData)]"

definition relay_answer_json :: "'j json_lib \<Rightarrow> string \<Rightarrow> 'j" where
  "relay_answer_json J payload = j_object J [(''payload'', j_string J payload)]"

text \<open>The relay's answer to a poll: the command, sealed at the time of \<open>e\<close> under the device's key.\<close>

definition relays_lock :: "'j libs \<Rightarrow> crypt_env \<Rightarrow> PairedDevice \<Rightarrow> string \<Rightarrow> bool" where
  "relays_lock lib e device body \<longleftrightarrow>
     (\<exists>command sealed payload. j_dump (lb_json lib) (lock_command_json (lb_json lib) (pd_id device)) = Some command \<and>
        command \<noteq> [] \<and> length command \<le> 1992 \<and>
        EncryptAESPacket (lb_crypt lib) e (bytes_of command) (pd_encryptionKey device) = Some \<lparr>cp_result = OK, cp_data = sealed\<rparr> \<and>
        j_dump (lb_json lib) (relay_payload_json (lb_json lib) (pd_id device) (cl_hex (lb_crypt lib) sealed)) = Some payload \<and>
        j_dump (lb_json lib) (relay_answer_json (lb_json lib) payload) = Some body)"

lemma built_relay: "built J (lock_command_json J i)" "built J (relay_payload_json J i e)" "built J (relay_answer_json J p)"
  unfolding lock_command_json_def relay_payload_json_def relay_answer_json_def by (rule built.intros(6); auto)+

lemma relayed_command:
  assumes "crypt_laws (lb_crypt lib)" and "json_laws (lb_json lib)" and "relays_lock lib e device body"
    and "all_succeed e" and "all_succeed en" and "int64_time (ce_now e)" and "int64_time (ce_now en)"
    and "\<bar>ce_now en - ce_now e\<bar> \<le> CRYPT_PACKET_TIMEOUT"
  shows "poll_command lib en (Some (200, body)) device = Some PollLock"
proof -
  let ?J = "lb_json lib"
  obtain command sealed payload where c: "j_dump ?J (lock_command_json ?J (pd_id device)) = Some command" "command \<noteq> []"
    "length command \<le> 1992"
    and seal: "EncryptAESPacket (lb_crypt lib) e (bytes_of command) (pd_encryptionKey device) = Some \<lparr>cp_result = OK, cp_data = sealed\<rparr>"
    and p: "j_dump ?J (relay_payload_json ?J (pd_id device) (cl_hex (lb_crypt lib) sealed)) = Some payload"
    and b: "j_dump ?J (relay_answer_json ?J payload) = Some body"
    using assms(3) by (auto simp: relays_lock_def)
  note parse = json_parse_dump [OF assms(2) built_relay(1) c(1)] json_parse_dump [OF assms(2) built_relay(2) p]
    json_parse_dump [OF assms(2) built_relay(3) b]
  note obj = json_get_object [OF assms(2)] json_lawsD(4) [OF assms(2)]
  have "bytes_of command \<noteq> []" "length (bytes_of command) \<le> 1992" using c(2,3) by simp_all
  then have dec: "DecryptAESPacket (lb_crypt lib) en sealed (pd_encryptionKey device) = Some \<lparr>cp_result = OK, cp_data = bytes_of command\<rparr>"
    using decrypt_of_encrypt [OF assms(1,4,5) refl, of "bytes_of command" "pd_encryptionKey device"] seal assms(8)
      open_stamped_sealed [OF assms(6,7), of "bytes_of command"] by simp
  have hex: "FromHexString (cl_unhex (lb_crypt lib)) (cl_hex (lb_crypt lib) sealed) = sealed"
    by (simp add: FromHexString_def crypt_lawsD [OF assms(1)])
  have "command_payload ?J body = Some (relay_payload_json ?J (pd_id device) (cl_hex (lb_crypt lib) sealed), pd_id device)"
    unfolding command_payload_def using parse(2,3) by (simp add: relay_answer_json_def relay_payload_json_def obj)
  moreover have "get_string ?J (relay_payload_json ?J (pd_id device) (cl_hex (lb_crypt lib) sealed)) ''encData'' = Some (cl_hex (lb_crypt lib) sealed)"
    unfolding relay_payload_json_def by (simp add: obj)
  moreover have "is_lock_command ?J device (bytes_of command) = Some True"
    unfolding is_lock_command_def using parse(1) by (simp add: lock_command_json_def obj)
  ultimately show ?thesis by (simp add: poll_command_def hex dec)
qed

definition one_device_round :: "string \<Rightarrow> PairedDevice \<Rightarrow> poll_turn \<Rightarrow> poll_round" where
  "one_device_round relay device t = \<lparr>pr_running = True, pr_devices = [device], pr_relay = relay, pr_turns = (\<lambda>_. t)\<rparr>"

lemma repeated_lock:
  assumes "crypt_laws (lb_crypt lib)" and "json_laws (lb_json lib)" and "lb_platform lib = Windows"
    and "relays_lock lib e device body" and "all_succeed e" and "int64_time (ce_now e)"
    and "\<forall>t \<in> set ts. polled t device \<and> pt_lock_ok t \<and> all_succeed (pt_env t) \<and> int64_time (ce_now (pt_env t)) \<and>
      \<bar>ce_now (pt_env t) - ce_now e\<bar> \<le> CRYPT_PACKET_TIMEOUT \<and>
      pt_get t relay ''/v1/relay/commands'' (pd_cloudToken device) = Some (200, body)"
  shows "Run_listener lib (map (one_device_round relay device) ts) = Some (False, replicate (length ts) (LockStation (pd_id device)))"
  using assms(7)
proof (induction ts)
  case (Cons t ts)
  then have "poll_command lib (pt_env t) (Some (200, body)) device = Some PollLock"
    by (intro relayed_command [OF assms(1,2,4,5)]) (simp_all add: assms(6))
  with Cons show ?case by (simp add: one_device_round_def device_turn_def act_on_def assms(3))
qed simp

text \<open>
  On Windows a lock command that a phone sealed is obeyed at every poll to which the relay gives it out within two minutes of
  the sealing, once each: the listener remembers no command, so a relay that repeats one locks the station again.
\<close>

theorem lock_command_repeated:
  assumes "crypt_laws (lb_crypt lib)" and "json_laws (lb_json lib)" and "lb_platform lib = Windows"
    and "relays_lock lib e device body" and "all_succeed e" and "int64_time (ce_now e)"
    and "\<forall>t \<in> set ts. polled t device \<and> pt_lock_ok t \<and> all_succeed (pt_env t) \<and> int64_time (ce_now (pt_env t)) \<and>
      \<bar>ce_now (pt_env t) - ce_now e\<bar> \<le> CRYPT_PACKET_TIMEOUT \<and>
      pt_get t relay ''/v1/relay/commands'' (pd_cloudToken device) = Some (200, body)"
  shows "Run_listener lib (map (one_device_round relay device) ts) = Some (False, replicate (length ts) (LockStation (pd_id device)))"
  by (rule repeated_lock [OF assms])

section \<open>Witnesses\<close>

definition cloud_device :: PairedDevice where
  "cloud_device = (demo_device ''1'')\<lparr>pd_pairingMethod := CLOUD_TCP, pd_cloudToken := ''t''\<rparr>"

definition win_libs :: "jval libs" where
  "win_libs = \<lparr>lb_json = toy_json, lb_crypt = toy_crypt, lb_platform = Windows\<rparr>"

lemma demo_relayed: "\<exists>body. relays_lock win_libs (demo_env 0) cloud_device body"
proof -
  let ?c = "put_val (lock_command_json toy_json ''1'')"
  have c: "?c \<noteq> []" "length ?c \<le> 1992" by (simp_all add: lock_command_json_def toy_json_def length_put_str)
  then obtain sealed where "EncryptAESPacket toy_crypt (demo_env 0) (bytes_of ?c) (pd_encryptionKey cloud_device) = Some \<lparr>cp_result = OK, cp_data = sealed\<rparr>"
    using decrypt_of_encrypt [OF toy_crypt_laws demo_env_ok(1) demo_env_ok(1) refl, of "bytes_of ?c"] by force
  with c show ?thesis
    unfolding relays_lock_def
    by (intro exI [of _ "put_val (relay_answer_json toy_json (put_val (relay_payload_json toy_json ''1'' (toy_hex sealed))))"]
        exI [of _ ?c] exI [of _ sealed] exI [of _ "put_val (relay_payload_json toy_json ''1'' (toy_hex sealed))"])
      (simp add: win_libs_def toy_json_def toy_crypt_def cloud_device_def demo_device_def)
qed

definition demo_poll :: "string \<Rightarrow> poll_turn" where
  "demo_poll body = \<lparr>pt_running = True, pt_env = demo_env 1000, pt_get = (\<lambda>_ _ _. Some (200, body)), pt_lock_ok = True\<rparr>"

lemma lock_command_repeated_witness:
  "\<exists>body. Run_listener win_libs (map (one_device_round ''r'' cloud_device) [demo_poll body, demo_poll body]) =
     Some (False, [LockStation ''1'', LockStation ''1''])"
proof -
  obtain body where b: "relays_lock win_libs (demo_env 0) cloud_device body" using demo_relayed by blast
  have "Run_listener win_libs (map (one_device_round ''r'' cloud_device) [demo_poll body, demo_poll body]) =
      Some (False, replicate (length [demo_poll body, demo_poll body]) (LockStation (pd_id cloud_device)))"
    by (rule lock_command_repeated [OF _ _ _ b])
      (simp_all add: win_libs_def toy_crypt_laws toy_json_laws int64_time_def demo_poll_def polled_def cloud_device_def
        CRYPT_PACKET_TIMEOUT_def)
  then show ?thesis by (intro exI [of _ body]) (simp add: cloud_device_def demo_device_def numeral_2_eq_2)
qed

lemma lock_command_authentic_witness:
  "\<exists>ended evs. Run_listener win_libs [one_device_round ''r'' cloud_device (demo_poll ''x'')] = Some (ended, evs) \<and>
     (LockStation ''2'' \<notin> set evs)"
proof -
  have "crypt_laws (lb_crypt win_libs)" by (simp add: win_libs_def toy_crypt_laws)
  from lock_command_authentic [OF this, of "[one_device_round ''r'' cloud_device (demo_poll ''x'')]"] show ?thesis
    by (auto simp: one_device_round_def cloud_device_def demo_device_def)
qed

end
