(* ===== verification/KerbHelpers.thy ===== *)
theory KerbHelpers
  imports Prelude
begin

text \<open>
  \<open>natives/win-pcbiounlock/src/helpers.cpp\<close>: packing a user's credentials for \<open>LogonUI\<close>, splitting user names and
  looking for the sessions of a user. A wide string is the list of its 16-bit units up to the terminating zero; a
  pointer that may be null is an option. Whether an allocation succeeds is an argument, as are the answers of the
  functions of Windows.
\<close>

section \<open>Results\<close>

type_synonym wide = "u16 list"
type_synonym HRESULT = u32

definition S_OK :: HRESULT where "S_OK = 0"
definition E_INVALIDARG :: HRESULT where "E_INVALIDARG = 0x80070057"
definition E_OUTOFMEMORY :: HRESULT where "E_OUTOFMEMORY = 0x8007000E"
definition E_UNEXPECTED :: HRESULT where "E_UNEXPECTED = 0x8000FFFF"
definition E_FAIL :: HRESULT where "E_FAIL = 0x80004005"
definition E_ABORT :: HRESULT where "E_ABORT = 0x80004004"
definition E_NOTIMPL :: HRESULT where "E_NOTIMPL = 0x80004001"
definition E_OVERFLOW :: HRESULT where "E_OVERFLOW = 0x80070216"

lemmas hresults = S_OK_def E_INVALIDARG_def E_OUTOFMEMORY_def E_UNEXPECTED_def E_FAIL_def E_ABORT_def E_NOTIMPL_def E_OVERFLOW_def

definition SUCCEEDED :: "HRESULT \<Rightarrow> bool" where
  "SUCCEEDED hr \<longleftrightarrow> \<not> bit hr 31"

text \<open>The macros; \<open>ERROR_SUCCESS\<close> becomes \<open>S_OK\<close>.\<close>

unbundle bit_operations_syntax

definition HRESULT_FROM_WIN32 :: "u32 \<Rightarrow> HRESULT" where
  "HRESULT_FROM_WIN32 x = (if x = 0 \<or> bit x 31 then x else (x AND 0xFFFF) OR 0x80070000)"

definition HRESULT_FROM_NT :: "u32 \<Rightarrow> HRESULT" where
  "HRESULT_FROM_NT x = x OR 0x10000000"

lemma SUCCEEDED_simps [simp]:
  "SUCCEEDED S_OK" "\<not> SUCCEEDED E_INVALIDARG" "\<not> SUCCEEDED E_OUTOFMEMORY" "\<not> SUCCEEDED E_UNEXPECTED" "\<not> SUCCEEDED E_FAIL"
  "\<not> SUCCEEDED E_ABORT" "\<not> SUCCEEDED E_NOTIMPL" "\<not> SUCCEEDED E_OVERFLOW"
  by (simp_all add: SUCCEEDED_def hresults)

lemma SUCCEEDED_NT: "SUCCEEDED (HRESULT_FROM_NT x) \<longleftrightarrow> \<not> bit x 31"
  by (simp add: SUCCEEDED_def HRESULT_FROM_NT_def bit_simps)

text \<open>What \<open>c_str()\<close> of a wide string is to a function that takes a pointer.\<close>

definition w_str :: "wide \<Rightarrow> wide" where
  "w_str s = takeWhile (\<lambda>c. c \<noteq> 0) s"

definition SHStrDupW :: "bool \<Rightarrow> wide \<Rightarrow> HRESULT \<times> wide option" where
  "SHStrDupW alloc s = (if alloc then (S_OK, Some s) else (E_OUTOFMEMORY, None))"

section \<open>Field descriptors\<close>

datatype field_type = CPFT_TILE_IMAGE | CPFT_SMALL_TEXT | CPFT_PASSWORD_TEXT | CPFT_SUBMIT_BUTTON | CPFT_COMMAND_LINK | CPFT_EDIT_TEXT

record FIELD_DESCRIPTOR =
  fd_FieldID :: u32
  fd_cpft :: field_type
  fd_pszLabel :: "wide option"
  fd_guidFieldType :: string

definition copy_label :: "bool \<Rightarrow> wide option \<Rightarrow> HRESULT \<times> wide option" where
  "copy_label alloc label = (case label of Some l \<Rightarrow> SHStrDupW alloc l | None \<Rightarrow> (S_OK, None))"

definition FieldDescriptorCoAllocCopy :: "bool \<Rightarrow> bool \<Rightarrow> FIELD_DESCRIPTOR \<Rightarrow> HRESULT \<times> FIELD_DESCRIPTOR option" where
  "FieldDescriptorCoAllocCopy allocStruct allocLabel d =
     (if \<not> allocStruct then (E_OUTOFMEMORY, None)
      else let (hr, label) = copy_label allocLabel (fd_pszLabel d) in
        (hr, if SUCCEEDED hr then Some (d\<lparr>fd_pszLabel := label\<rparr>) else None))"

definition FieldDescriptorCopy :: "bool \<Rightarrow> FIELD_DESCRIPTOR \<Rightarrow> FIELD_DESCRIPTOR \<Rightarrow> HRESULT \<times> FIELD_DESCRIPTOR" where
  "FieldDescriptorCopy allocLabel d dest =
     (let (hr, label) = copy_label allocLabel (fd_pszLabel d) in
      (hr, if SUCCEEDED hr then d\<lparr>fd_pszLabel := label\<rparr> else dest))"

lemma FieldDescriptorCopy_ok: "FieldDescriptorCopy True d dest = (S_OK, d)"
  by (cases "fd_pszLabel d") (simp_all add: FieldDescriptorCopy_def copy_label_def SHStrDupW_def Let_def)

section \<open>Counted strings\<close>

definition SizeTToUShort :: "nat \<Rightarrow> HRESULT \<times> u16" where
  "SizeTToUShort n = (if n \<le> 0xFFFF then (S_OK, of_nat n) else (E_OVERFLOW, 0))"

definition UShortMult :: "u16 \<Rightarrow> u16 \<Rightarrow> HRESULT \<times> u16" where
  "UShortMult a b = (if unat a * unat b \<le> 0xFFFF then (S_OK, a * b) else (E_OVERFLOW, 0))"

text \<open>The buffer is a pointer to a string in the process, and an offset in a packed structure.\<close>

record 'b UNICODE_STRING =
  us_Length :: u16
  us_MaximumLength :: u16
  us_Buffer :: 'b

definition SIZEOF_WCHAR :: nat where "SIZEOF_WCHAR = 2"

definition UnicodeStringInitWithString :: "wide option \<Rightarrow> HRESULT \<times> wide UNICODE_STRING option" where
  "UnicodeStringInitWithString pwz =
     (case pwz of
        None \<Rightarrow> (E_INVALIDARG, None)
      | Some s \<Rightarrow>
          (let (hr, usCharCount) = SizeTToUShort (length s) in
           if \<not> SUCCEEDED hr then (hr, None)
           else let (hr, usSize) = SizeTToUShort SIZEOF_WCHAR in
           if \<not> SUCCEEDED hr then (hr, None)
           else let (hr, len) = UShortMult usCharCount usSize in
           if SUCCEEDED hr then (S_OK, Some \<lparr>us_Length = len, us_MaximumLength = len, us_Buffer = s\<rparr>)
           else (E_OVERFLOW, None)))"

lemma UnicodeStringInit_result:
  "UnicodeStringInitWithString (Some s) =
     (if 2 * length s \<le> 0xFFFF
      then (S_OK, Some \<lparr>us_Length = of_nat (2 * length s), us_MaximumLength = of_nat (2 * length s), us_Buffer = s\<rparr>)
      else (E_OVERFLOW, None))"
proof (cases "length s \<le> 0xFFFF")
  case True
  then have l: "unat (of_nat (length s) :: u16) = length s" by (simp add: unat_of_nat)
  have "(of_nat (length s) * of_nat 2 :: u16) = of_nat (2 * length s)" by simp
  then show ?thesis using True l
    by (simp add: UnicodeStringInitWithString_def SizeTToUShort_def UShortMult_def SIZEOF_WCHAR_def Let_def)
next
  case False
  then show ?thesis by (simp add: UnicodeStringInitWithString_def SizeTToUShort_def Let_def)
qed

section \<open>The packed logon structure\<close>

datatype scenario = CPUS_INVALID | CPUS_LOGON | CPUS_UNLOCK_WORKSTATION | CPUS_CHANGE_PASSWORD | CPUS_CREDUI | CPUS_PLAP

datatype kerb_message = KerbInteractiveLogon | KerbWorkstationUnlockLogon

record 'b KERB_LOGON =
  kl_MessageType :: kerb_message
  kl_LogonDomainName :: "'b UNICODE_STRING"
  kl_UserName :: "'b UNICODE_STRING"
  kl_Password :: "'b UNICODE_STRING"
  kl_LogonId :: u64

definition message_type :: "scenario \<Rightarrow> kerb_message option" where
  "message_type cpus =
     (case cpus of CPUS_UNLOCK_WORKSTATION \<Rightarrow> Some KerbWorkstationUnlockLogon
        | CPUS_LOGON \<Rightarrow> Some KerbInteractiveLogon | CPUS_CREDUI \<Rightarrow> Some KerbInteractiveLogon | _ \<Rightarrow> None)"

definition KerbInteractiveUnlockLogonInit :: "wide option \<Rightarrow> wide option \<Rightarrow> wide option \<Rightarrow> scenario \<Rightarrow>
    HRESULT \<times> wide KERB_LOGON option" where
  "KerbInteractiveUnlockLogonInit pwzDomain pwzUsername pwzPassword cpus =
     (case UnicodeStringInitWithString pwzDomain of
        (hr, None) \<Rightarrow> (hr, None)
      | (hr, Some d) \<Rightarrow> (case UnicodeStringInitWithString pwzUsername of
        (hr, None) \<Rightarrow> (hr, None)
      | (hr, Some u) \<Rightarrow> (case UnicodeStringInitWithString pwzPassword of
        (hr, None) \<Rightarrow> (hr, None)
      | (hr, Some p) \<Rightarrow> (case message_type cpus of
        None \<Rightarrow> (E_FAIL, None)
      | Some m \<Rightarrow> (S_OK, Some \<lparr>kl_MessageType = m, kl_LogonDomainName = d, kl_UserName = u, kl_Password = p, kl_LogonId = 0\<rparr>)))))"

definition wide_bytes :: "wide \<Rightarrow> bytes" where
  "wide_bytes s = concat (map (\<lambda>c. [ucast c, ucast (drop_bit 8 c)]) s)"

text \<open>
  A packed structure: the structure itself, of \<open>sz\<close> bytes, with offsets for buffers, and the bytes that follow it. The
  buffer passed on is \<open>pk_cb\<close> bytes long; a copy past its end would be \<open>None\<close>.
\<close>

record packed_logon =
  pk_struct :: "u64 KERB_LOGON"
  pk_extra :: bytes
  pk_cb :: u32

definition pack_string :: "nat \<Rightarrow> bytes \<Rightarrow> nat \<Rightarrow> wide UNICODE_STRING \<Rightarrow> (u64 UNICODE_STRING \<times> bytes) option" where
  "pack_string sz extra pos rus = do {
     extra \<leftarrow> mem_write extra pos (take (unat (us_Length rus)) (wide_bytes (us_Buffer rus)));
     Some (\<lparr>us_Length = us_Length rus, us_MaximumLength = us_Length rus, us_Buffer = of_nat (sz + pos)\<rparr>, extra)
   }"

definition KerbInteractiveUnlockLogonPack :: "nat \<Rightarrow> u8 option \<Rightarrow> wide KERB_LOGON \<Rightarrow> (HRESULT \<times> packed_logon option) option" where
  "KerbInteractiveUnlockLogonPack sz heap kiul =
     (let d = kl_LogonDomainName kiul; u = kl_UserName kiul; p = kl_Password kiul;
          cb = (of_nat sz + ucast (us_Length d) + ucast (us_Length u) + ucast (us_Length p) :: u32)
      in case heap of
           None \<Rightarrow> Some (E_OUTOFMEMORY, None)
         | Some fresh \<Rightarrow> do {
             let extra = replicate (unat cb - sz) fresh;
             (od, extra) \<leftarrow> pack_string sz extra 0 d;
             let pos = unat (us_Length od);
             (ou, extra) \<leftarrow> pack_string sz extra pos u;
             let pos = pos + unat (us_Length ou);
             (op, extra) \<leftarrow> pack_string sz extra pos p;
             Some (S_OK, Some \<lparr>pk_struct = \<lparr>kl_MessageType = kl_MessageType kiul, kl_LogonDomainName = od, kl_UserName = ou,
               kl_Password = op, kl_LogonId = 0\<rparr>, pk_extra = extra, pk_cb = cb\<rparr>)
           })"

text \<open>The check of \<open>KerbInteractiveUnlockLogonUnpackInPlace\<close>, and the string that a field then points to.\<close>

definition unpack_ok :: "nat \<Rightarrow> packed_logon \<Rightarrow> bool" where
  "unpack_ok sz pk \<longleftrightarrow> sz \<le> unat (pk_cb pk) \<and>
     (\<forall>us \<in> {kl_LogonDomainName (pk_struct pk), kl_UserName (pk_struct pk), kl_Password (pk_struct pk)}.
        us_Buffer us + ucast (us_MaximumLength us) \<le> ucast (pk_cb pk))"

definition packed_bytes :: "nat \<Rightarrow> packed_logon \<Rightarrow> u64 UNICODE_STRING \<Rightarrow> bytes" where
  "packed_bytes sz pk us = take (unat (us_Length us)) (drop (unat (us_Buffer us) - sz) (pk_extra pk))"

section \<open>Packing and unpacking\<close>

fun wide_of :: "bytes \<Rightarrow> wide" where
  "wide_of (a # b # r) = (ucast a OR push_bit 8 (ucast b)) # wide_of r"
| "wide_of _ = []"

lemma wide_of_bytes [simp]: "wide_of (wide_bytes s) = s"
proof (induction s)
  case (Cons c s)
  have "ucast (ucast c :: u8) OR push_bit 8 (ucast (ucast (drop_bit 8 c) :: u8)) = c"
    by (rule bit_word_eqI) (auto simp: bit_simps dest: bit_imp_le_length)
  with Cons show ?case by (simp add: wide_bytes_def)
qed (simp add: wide_bytes_def)

lemma length_wide_bytes [simp]: "length (wide_bytes s) = 2 * length s"
  by (induction s) (simp_all add: wide_bytes_def)

lemma mem_write_fill: "mem_write (pre @ replicate (length src + n) b) (length pre) src = Some (pre @ src @ replicate n b)"
  by (simp add: mem_write_def)

lemma Init_cases:
  assumes "KerbInteractiveUnlockLogonInit (Some d) (Some u) (Some p) cpus = (hr, Some kiul)"
  shows "\<exists>m. message_type cpus = Some m \<and> 2 * length d \<le> 0xFFFF \<and> 2 * length u \<le> 0xFFFF \<and> 2 * length p \<le> 0xFFFF \<and>
    kiul = \<lparr>kl_MessageType = m,
      kl_LogonDomainName = \<lparr>us_Length = of_nat (2 * length d), us_MaximumLength = of_nat (2 * length d), us_Buffer = d\<rparr>,
      kl_UserName = \<lparr>us_Length = of_nat (2 * length u), us_MaximumLength = of_nat (2 * length u), us_Buffer = u\<rparr>,
      kl_Password = \<lparr>us_Length = of_nat (2 * length p), us_MaximumLength = of_nat (2 * length p), us_Buffer = p\<rparr>, kl_LogonId = 0\<rparr>"
  using assms
  by (auto simp: KerbInteractiveUnlockLogonInit_def UnicodeStringInit_result split: if_splits option.splits)

lemma unat_u16: "n \<le> 0xFFFF \<Longrightarrow> unat (of_nat n :: u16) = n"
  by (simp add: unat_of_nat)

lemma ucast_u16:
  assumes "n \<le> 0xFFFF"
  shows "(ucast (of_nat n :: u16) :: 'a::len word) = of_nat n"
proof -
  have "of_nat (unat (of_nat n :: u16)) = (ucast (of_nat n :: u16) :: 'a word)" by simp
  then show ?thesis by (simp only: unat_u16 [OF assms])
qed

lemma unat_sum4:
  fixes a b c :: u16
  assumes "sz \<le> 4096"
  shows "unat (of_nat sz + ucast a + ucast b + ucast c :: u32) = sz + unat a + unat b + unat c"
proof -
  have "(of_nat sz + ucast a + ucast b + ucast c :: u32) = of_nat (sz + unat a + unat b + unat c)" by simp
  moreover have "sz + unat a + unat b + unat c < 2 ^ 32"
    using assms unsigned_less [of a, where 'a = nat] unsigned_less [of b, where 'a = nat] unsigned_less [of c, where 'a = nat] by simp
  ultimately show ?thesis by (simp only: unat_of_nat) simp
qed

lemma Pack_layout:
  fixes d u p :: wide
  defines "B \<equiv> wide_bytes"
  assumes "2 * length d \<le> 0xFFFF" and "2 * length u \<le> 0xFFFF" and "2 * length p \<le> 0xFFFF" and "sz \<le> 4096"
    and "kiul = \<lparr>kl_MessageType = m,
      kl_LogonDomainName = \<lparr>us_Length = of_nat (2 * length d), us_MaximumLength = of_nat (2 * length d), us_Buffer = d\<rparr>,
      kl_UserName = \<lparr>us_Length = of_nat (2 * length u), us_MaximumLength = of_nat (2 * length u), us_Buffer = u\<rparr>,
      kl_Password = \<lparr>us_Length = of_nat (2 * length p), us_MaximumLength = of_nat (2 * length p), us_Buffer = p\<rparr>, kl_LogonId = 0\<rparr>"
  shows "KerbInteractiveUnlockLogonPack sz (Some b) kiul = Some (S_OK, Some
    \<lparr>pk_struct = \<lparr>kl_MessageType = m,
       kl_LogonDomainName = \<lparr>us_Length = of_nat (2 * length d), us_MaximumLength = of_nat (2 * length d), us_Buffer = of_nat sz\<rparr>,
       kl_UserName = \<lparr>us_Length = of_nat (2 * length u), us_MaximumLength = of_nat (2 * length u), us_Buffer = of_nat (sz + 2 * length d)\<rparr>,
       kl_Password = \<lparr>us_Length = of_nat (2 * length p), us_MaximumLength = of_nat (2 * length p),
         us_Buffer = of_nat (sz + (2 * length d + 2 * length u))\<rparr>, kl_LogonId = 0\<rparr>,
     pk_extra = B d @ B u @ B p, pk_cb = of_nat (sz + 2 * length d + 2 * length u + 2 * length p)\<rparr>)"
proof -
  note l = unat_u16 [OF assms(2)] unat_u16 [OF assms(3)] unat_u16 [OF assms(4)]
  let ?cb = "of_nat sz + ucast (of_nat (2 * length d) :: u16) + ucast (of_nat (2 * length u) :: u16) + ucast (of_nat (2 * length p) :: u16) :: u32"
  have cb: "unat ?cb - sz = length (B d) + (length (B u) + length (B p))"
    using unat_sum4 [OF assms(5)] l by (simp add: B_def)
  have w1: "mem_write (replicate (unat ?cb - sz) b) 0 (B d) = Some (B d @ replicate (length (B u) + length (B p)) b)"
    using mem_write_fill [of "[]" "B d" "length (B u) + length (B p)" b] unfolding cb by simp
  have w2: "mem_write (B d @ replicate (length (B u) + length (B p)) b) (2 * length d) (B u) =
      Some (B d @ B u @ replicate (length (B p)) b)"
    using mem_write_fill [of "B d" "B u" "length (B p)" b] by (simp add: B_def)
  have w3: "mem_write (B d @ B u @ replicate (length (B p)) b) (2 * length d + 2 * length u) (B p) = Some (B d @ B u @ B p)"
    using mem_write_fill [of "B d @ B u" "B p" 0 b] by (simp add: B_def)
  have c: "?cb = of_nat (sz + 2 * length d + 2 * length u + 2 * length p)"
  proof -
    have "of_nat (unat w) = w" for w :: u32 by (metis of_int_of_nat_eq of_nat_unat word_of_int_uint)
    then have "?cb = of_nat (unat ?cb)" by (rule sym)
    also have "unat ?cb = sz + 2 * length d + 2 * length u + 2 * length p" using unat_sum4 [OF assms(5)] l by simp
    finally show ?thesis .
  qed
  show ?thesis
    unfolding assms(6) KerbInteractiveUnlockLogonPack_def pack_string_def Let_def
    using w1 w2 w3 c l ucast_u16 [OF assms(2), where 'a = 64] ucast_u16 [OF assms(3), where 'a = 64] by (simp add: B_def)
qed

lemma packed_back:
  assumes "sz \<le> 4096" and "length B \<le> 0xFFFF" and "length pre \<le> 0x20000"
    and "us_Length us = of_nat (length B)" and "us_Buffer us = of_nat (sz + length pre)" and "pk_extra pk = pre @ B @ post"
  shows "packed_bytes sz pk us = B"
proof -
  have "unat (of_nat (sz + length pre) :: u64) = sz + length pre"
    using assms(1,3) by (simp only: unat_of_nat) simp
  then show ?thesis using assms(2,4,5,6) unat_u16 [OF assms(2)] by (simp add: packed_bytes_def)
qed

lemma buffer_in_range:
  fixes n :: nat
  assumes "sz + k + n \<le> cb" and "cb < 2 ^ 32" and "n \<le> 0xFFFF"
  shows "(of_nat (sz + k) + ucast (of_nat n :: u16) :: u64) \<le> ucast (of_nat cb :: u32)"
proof -
  have "(of_nat (sz + k) + ucast (of_nat n :: u16) :: u64) = of_nat (sz + k + n)"
    unfolding ucast_u16 [OF assms(3)] by simp
  moreover have "(ucast (of_nat cb :: u32) :: u64) = of_nat cb"
  proof -
    have "unat (of_nat cb :: u32) = cb" using assms(2) by (simp only: unat_of_nat) simp
    moreover have "of_nat (unat (of_nat cb :: u32)) = (ucast (of_nat cb :: u32) :: u64)" by simp
    ultimately show ?thesis by simp
  qed
  moreover have "(of_nat (sz + k + n) :: u64) \<le> of_nat cb"
    using assms by (simp only: word_le_nat_alt unat_of_nat) simp
  ultimately show ?thesis by simp
qed

lemma kerb_pack_back:
  assumes "KerbInteractiveUnlockLogonInit (Some d) (Some u) (Some p) cpus = (hr, Some kiul)" and "sz \<le> 4096"
  shows "\<exists>pk. KerbInteractiveUnlockLogonPack sz (Some b) kiul = Some (S_OK, Some pk) \<and>
    unat (pk_cb pk) = sz + length (pk_extra pk) \<and> unpack_ok sz pk \<and>
    message_type cpus = Some (kl_MessageType (pk_struct pk)) \<and>
    wide_of (packed_bytes sz pk (kl_LogonDomainName (pk_struct pk))) = d \<and>
    wide_of (packed_bytes sz pk (kl_UserName (pk_struct pk))) = u \<and>
    wide_of (packed_bytes sz pk (kl_Password (pk_struct pk))) = p"
proof -
  obtain m where m: "message_type cpus = Some m"
    and l: "2 * length d \<le> 0xFFFF" "2 * length u \<le> 0xFFFF" "2 * length p \<le> 0xFFFF"
    and k: "kiul = \<lparr>kl_MessageType = m,
      kl_LogonDomainName = \<lparr>us_Length = of_nat (2 * length d), us_MaximumLength = of_nat (2 * length d), us_Buffer = d\<rparr>,
      kl_UserName = \<lparr>us_Length = of_nat (2 * length u), us_MaximumLength = of_nat (2 * length u), us_Buffer = u\<rparr>,
      kl_Password = \<lparr>us_Length = of_nat (2 * length p), us_MaximumLength = of_nat (2 * length p), us_Buffer = p\<rparr>, kl_LogonId = 0\<rparr>"
    using Init_cases [OF assms(1)] by blast
  let ?cb = "sz + 2 * length d + 2 * length u + 2 * length p"
  define pk where "pk = \<lparr>pk_struct = \<lparr>kl_MessageType = m,
       kl_LogonDomainName = \<lparr>us_Length = of_nat (2 * length d), us_MaximumLength = of_nat (2 * length d), us_Buffer = of_nat sz\<rparr>,
       kl_UserName = \<lparr>us_Length = of_nat (2 * length u), us_MaximumLength = of_nat (2 * length u), us_Buffer = of_nat (sz + 2 * length d)\<rparr>,
       kl_Password = \<lparr>us_Length = of_nat (2 * length p), us_MaximumLength = of_nat (2 * length p),
         us_Buffer = of_nat (sz + (2 * length d + 2 * length u))\<rparr>, kl_LogonId = 0\<rparr>,
     pk_extra = wide_bytes d @ wide_bytes u @ wide_bytes p, pk_cb = of_nat ?cb\<rparr>"
  have run: "KerbInteractiveUnlockLogonPack sz (Some b) kiul = Some (S_OK, Some pk)"
    unfolding pk_def by (rule Pack_layout [OF l assms(2) k])
  have cb: "?cb < 2 ^ 32" using l assms(2) by simp
  then have size: "unat (pk_cb pk) = ?cb" unfolding pk_def by (simp only: packed_logon.simps unat_of_nat) simp
  have "packed_bytes sz pk (kl_LogonDomainName (pk_struct pk)) = wide_bytes d"
    by (rule packed_back [of _ _ "[]" _ _ "wide_bytes u @ wide_bytes p"]) (use l assms(2) in \<open>simp_all add: pk_def\<close>)
  moreover have "packed_bytes sz pk (kl_UserName (pk_struct pk)) = wide_bytes u"
    by (rule packed_back [of _ _ "wide_bytes d" _ _ "wide_bytes p"]) (use l assms(2) in \<open>simp_all add: pk_def\<close>)
  moreover have "packed_bytes sz pk (kl_Password (pk_struct pk)) = wide_bytes p"
    by (rule packed_back [of _ _ "wide_bytes d @ wide_bytes u" _ _ "[]"]) (use l assms(2) in \<open>simp_all add: pk_def\<close>)
  moreover have "unpack_ok sz pk"
    using buffer_in_range [of sz 0 "2 * length d" ?cb, OF _ cb l(1)] buffer_in_range [of sz "2 * length d" "2 * length u" ?cb, OF _ cb l(2)]
      buffer_in_range [of sz "2 * length d + 2 * length u" "2 * length p" ?cb, OF _ cb l(3)] size
    by (simp add: unpack_ok_def pk_def)
  ultimately show ?thesis using run size m by (intro exI [of _ pk]) (simp add: pk_def)
qed

text \<open>
  C29: The credentials that the provider packs for the logon process are those that were put in: when the structure can be made (no
  string is longer than 32767 units), packing it stays in its buffer of exactly the size reported, the check of
  the unpacking routine accepts it, and domain, user name and password are read back whole at their offsets.
\<close>

theorem kerb_pack_roundtrip:
  assumes "KerbInteractiveUnlockLogonInit (Some d) (Some u) (Some p) cpus = (hr, Some kiul)" and "sz \<le> 4096"
  shows "\<exists>pk. KerbInteractiveUnlockLogonPack sz (Some b) kiul = Some (S_OK, Some pk) \<and>
    unat (pk_cb pk) = sz + length (pk_extra pk) \<and> unpack_ok sz pk \<and>
    message_type cpus = Some (kl_MessageType (pk_struct pk)) \<and>
    wide_of (packed_bytes sz pk (kl_LogonDomainName (pk_struct pk))) = d \<and>
    wide_of (packed_bytes sz pk (kl_UserName (pk_struct pk))) = u \<and>
    wide_of (packed_bytes sz pk (kl_Password (pk_struct pk))) = p"
  by (rule kerb_pack_back [OF assms])

text \<open>A string of more than 32767 units is refused, and never cut.\<close>

lemma Init_too_long:
  "0xFFFF < 2 * length s \<Longrightarrow> KerbInteractiveUnlockLogonInit (Some s) u p cpus = (E_OVERFLOW, None) \<and>
    (2 * length d \<le> 0xFFFF \<longrightarrow> 2 * length n \<le> 0xFFFF \<longrightarrow>
      KerbInteractiveUnlockLogonInit (Some d) (Some n) (Some s) cpus = (E_OVERFLOW, None))"
  by (simp add: KerbInteractiveUnlockLogonInit_def UnicodeStringInit_result)

section \<open>Protecting the password\<close>

text \<open>
  \<open>CredProtectW\<close> is called twice: \<open>size\<close> is the answer to the first call, whether it succeeded, the last error and the
  size; \<open>protect\<close> the answer to the second, the text or the last error.
\<close>

record cred_env =
  cr_dup1 :: bool
  cr_dup2 :: bool
  cr_alloc :: bool
  cr_size :: "bool \<times> u32 \<times> u32"
  cr_protect :: "wide \<Rightarrow> u32 + wide"
  cr_is_protected :: "wide \<Rightarrow> bool option"  \<comment> \<open>\<open>CredIsProtectedW\<close>: \<open>None\<close> when it fails\<close>

definition ERROR_INSUFFICIENT_BUFFER :: u32 where "ERROR_INSUFFICIENT_BUFFER = 122"

definition ProtectAndCopyString :: "cred_env \<Rightarrow> wide \<Rightarrow> HRESULT \<times> wide option" where
  "ProtectAndCopyString e s =
     (let (hr, copy) = SHStrDupW (cr_dup2 e) s in
      if \<not> SUCCEEDED hr then (hr, None)
      else let (ok, err, cchProtected) = cr_size e in
      if ok then (E_UNEXPECTED, None)
      else if err = ERROR_INSUFFICIENT_BUFFER \<and> 0 < cchProtected then
        (if \<not> cr_alloc e then (E_OUTOFMEMORY, None)
         else case cr_protect e s of Inr t \<Rightarrow> (S_OK, Some t) | Inl err \<Rightarrow> (HRESULT_FROM_WIN32 err, None))
      else (HRESULT_FROM_WIN32 err, None))"

definition ProtectIfNecessaryAndCopyPassword :: "cred_env \<Rightarrow> wide \<Rightarrow> scenario \<Rightarrow> HRESULT \<times> wide option" where
  "ProtectIfNecessaryAndCopyPassword e pwzPassword cpus =
     (if pwzPassword \<noteq> [] then
        (let (hr, copy) = SHStrDupW (cr_dup1 e) pwzPassword in
         if \<not> SUCCEEDED hr then (hr, None)
         else let bCredAlreadyEncrypted = (cr_is_protected e pwzPassword = Some True) in
         if cpus = CPUS_CREDUI \<or> bCredAlreadyEncrypted then SHStrDupW (cr_dup2 e) pwzPassword
         else ProtectAndCopyString e pwzPassword)
      else SHStrDupW (cr_dup1 e) [])"

text \<open>Without a credential dialog a password that is not yet protected never leaves in the clear.\<close>

lemma Protect_protects:
  assumes "ProtectIfNecessaryAndCopyPassword e pwd cpus = (hr, Some t)" and "pwd \<noteq> []" and "cpus \<noteq> CPUS_CREDUI"
    and "cr_is_protected e pwd \<noteq> Some True"
  shows "cr_protect e pwd = Inr t"
  using assms
  by (auto simp: ProtectIfNecessaryAndCopyPassword_def ProtectAndCopyString_def SHStrDupW_def Let_def split: if_splits sum.splits prod.splits)

text \<open>\<open>RetrieveNegotiateAuthPackage\<close>: the status of the connection to the LSA, and of the lookup with its answer.\<close>

definition RetrieveNegotiateAuthPackage :: "u32 \<Rightarrow> u32 \<times> u32 \<Rightarrow> HRESULT \<times> u32 option" where
  "RetrieveNegotiateAuthPackage connect lookup =
     (if SUCCEEDED (HRESULT_FROM_NT connect) then
        (let (status, ulAuthPackage) = lookup in
         if SUCCEEDED (HRESULT_FROM_NT status) then (S_OK, Some ulAuthPackage) else (HRESULT_FROM_NT status, None))
      else (HRESULT_FROM_NT connect, None))"

section \<open>Qualified user names\<close>

definition BACKSLASH :: u16 where "BACKSLASH = 0x5C"

definition STRSAFE_MAX :: nat where "STRSAFE_MAX = 2147483647"

text \<open>\<open>StringCchCopyNW\<close> into a buffer of one unit more than is copied.\<close>

definition copy_n :: "wide \<Rightarrow> nat \<Rightarrow> HRESULT \<times> wide option" where
  "copy_n src n = (if STRSAFE_MAX < n + 1 then (E_INVALIDARG, None) else (S_OK, Some (take n src)))"

definition DomainUsernameStringAlloc :: "bool \<Rightarrow> wide \<Rightarrow> wide \<Rightarrow> HRESULT \<times> wide option" where
  "DomainUsernameStringAlloc alloc domain user =
     (if \<not> alloc then (E_OUTOFMEMORY, None)
      else if STRSAFE_MAX < length domain + 1 + length user + 1 then (E_INVALIDARG, None)
      else (S_OK, Some (domain @ [BACKSLASH] @ user)))"

definition SplitDomainAndUsername :: "bool \<Rightarrow> bool \<Rightarrow> wide \<Rightarrow> HRESULT \<times> (wide \<times> wide) option" where
  "SplitDomainAndUsername alloc1 alloc2 name =
     (if BACKSLASH \<notin> set name then (E_UNEXPECTED, None)
      else let pchWhack = length (takeWhile (\<lambda>c. c \<noteq> BACKSLASH) name);
               lenDomain = pchWhack; pchUsernameBegin = pchWhack + 1;
               lenUsername = length name - pchUsernameBegin
      in if \<not> alloc1 then (E_OUTOFMEMORY, None)
         else (case copy_n name lenDomain of
             (hr, None) \<Rightarrow> (hr, None)
           | (hr, Some domain) \<Rightarrow>
               if \<not> alloc2 then (E_OUTOFMEMORY, None)
               else (case copy_n (drop pchUsernameBegin name) lenUsername of
                   (hr, None) \<Rightarrow> (hr, None) | (hr, Some user) \<Rightarrow> (hr, Some (domain, user)))))"

text \<open>The name is split at its first backslash.\<close>

lemma Split_of_qualified:
  assumes "BACKSLASH \<notin> set d" and "length d + 1 + length u + 1 \<le> STRSAFE_MAX"
  shows "\<exists>q. DomainUsernameStringAlloc True d u = (S_OK, Some q) \<and> SplitDomainAndUsername True True q = (S_OK, Some (d, u))"
proof -
  have t: "takeWhile (\<lambda>c. c \<noteq> BACKSLASH) (d @ BACKSLASH # u) = d" using assms(1) by (induction d) auto
  show ?thesis using assms
    by (intro exI [of _ "d @ [BACKSLASH] @ u"])
      (simp add: DomainUsernameStringAlloc_def SplitDomainAndUsername_def t copy_n_def Let_def)
qed

lemma Split_parts:
  assumes "SplitDomainAndUsername a1 a2 name = (hr, Some (d, u))"
  shows "name = d @ [BACKSLASH] @ u \<and> BACKSLASH \<notin> set d"
proof -
  let ?t = "takeWhile (\<lambda>c. c \<noteq> BACKSLASH) name"
  have du: "d = take (length ?t) name" "u = drop (length ?t + 1) name" "BACKSLASH \<in> set name"
    using assms by (auto simp: SplitDomainAndUsername_def copy_n_def Let_def split: if_splits)
  obtain x y where n: "name = x @ BACKSLASH # y" and x: "BACKSLASH \<notin> set x"
    using split_list_first [OF du(3)] by blast
  have "?t = x" unfolding n using x by (induction x) auto
  then show ?thesis using du(1,2) x by (simp add: n)
qed

section \<open>Sessions\<close>

definition wide_lit :: "string \<Rightarrow> wide" where
  "wide_lit s = map (\<lambda>c. of_nat (of_char c)) s"

text \<open>What \<open>WTSQuerySessionInformationW\<close> answers of a session; times are in units of 100 ns.\<close>

record wts_session =
  ws_user :: "wide option"
  ws_domain :: "wide option"
  ws_logonTime :: "int option"

text \<open>\<open>info\<close>: the answer of \<open>NetUserGetInfo\<close>, whether the account is an internet identity, and its principal name.\<close>

definition GetMicrosoftAccountEmail :: "(wide \<Rightarrow> (bool \<times> wide option) option) \<Rightarrow> wide \<Rightarrow> wide" where
  "GetMicrosoftAccountEmail info userName =
     (case info userName of Some (True, Some name) \<Rightarrow> name | _ \<Rightarrow> [])"

definition SessionMatchesUser :: "(wide \<Rightarrow> wide \<Rightarrow> bool) \<Rightarrow> (wide \<Rightarrow> (bool \<times> wide option) option) \<Rightarrow> wts_session \<Rightarrow> wide \<Rightarrow> wide \<Rightarrow> bool" where
  "SessionMatchesUser eq info session domain user =
     (case ws_user session of
        None \<Rightarrow> False
      | Some pUser \<Rightarrow>
          pUser \<noteq> [] \<and>
          (if eq domain (wide_lit ''MicrosoftAccount'')
           then (let email = GetMicrosoftAccountEmail info pUser in email \<noteq> [] \<and> eq email user)
           else eq pUser user \<and> (case ws_domain session of Some pDomain \<Rightarrow> eq pDomain domain | None \<Rightarrow> True)))"

definition GetSessionLogonTimeSeconds :: "int \<Rightarrow> wts_session \<Rightarrow> int" where
  "GetSessionLogonTimeSeconds now session =
     (case ws_logonTime session of
        None \<Rightarrow> 0
      | Some logon \<Rightarrow> if 0 < logon \<and> logon \<le> now then (now - logon) div 10000000 else 0)"

fun any_session :: "(wts_session \<Rightarrow> bool) \<Rightarrow> wts_session list \<Rightarrow> bool" where
  "any_session P [] = False"
| "any_session P (s # ss) = (if P s then True else any_session P ss)"

definition IsUserLoggedOn :: "(wide \<Rightarrow> wide \<Rightarrow> bool) \<Rightarrow> (wide \<Rightarrow> (bool \<times> wide option) option) \<Rightarrow> int \<Rightarrow> wts_session list option \<Rightarrow>
    wide \<Rightarrow> int \<Rightarrow> bool" where
  "IsUserLoggedOn eq info now sessions userDomain minLogonTimeSecs =
     (if BACKSLASH \<notin> set userDomain then False
      else let sep = length (takeWhile (\<lambda>c. c \<noteq> BACKSLASH) userDomain);
               domain = take sep userDomain; user = drop (sep + 1) userDomain
      in case sessions of
           None \<Rightarrow> False
         | Some ss \<Rightarrow> any_session (\<lambda>s. SessionMatchesUser eq info s domain user \<and>
             minLogonTimeSecs \<le> GetSessionLogonTimeSeconds now s) ss)"

lemma any_session_iff: "any_session P ss \<longleftrightarrow> (\<exists>s \<in> set ss. P s)"
  by (induction ss) auto

text \<open>A user counts as logged on only with a session that began at least so long ago.\<close>

lemma IsUserLoggedOn_since:
  assumes "IsUserLoggedOn eq info now (Some ss) userDomain secs" and "0 < secs"
  shows "\<exists>s \<in> set ss. \<exists>t. ws_user s \<noteq> None \<and> ws_logonTime s = Some t \<and> 0 < t \<and> t + 10000000 * secs \<le> now"
proof -
  obtain s domain user where s: "s \<in> set ss" "SessionMatchesUser eq info s domain user" "secs \<le> GetSessionLogonTimeSeconds now s"
    using assms(1) by (auto simp: IsUserLoggedOn_def any_session_iff Let_def split: if_splits)
  then obtain t where t: "ws_logonTime s = Some t" "0 < t" "t \<le> now" "secs \<le> (now - t) div 10000000"
    using assms(2) by (auto simp: GetSessionLogonTimeSeconds_def split: option.splits if_splits)
  then have "t + 10000000 * secs \<le> now" by linarith
  moreover have "ws_user s \<noteq> None" using s(2) by (auto simp: SessionMatchesUser_def split: option.splits)
  ultimately show ?thesis using s(1) t by blast
qed

section \<open>Witnesses\<close>

lemma kerb_pack_roundtrip_witness:
  "\<exists>kiul pk. KerbInteractiveUnlockLogonInit (Some (wide_lit ''PC'')) (Some (wide_lit ''ann'')) (Some (wide_lit ''secret'')) CPUS_LOGON =
     (S_OK, Some kiul) \<and> KerbInteractiveUnlockLogonPack 64 (Some 0) kiul = Some (S_OK, Some pk) \<and>
     wide_of (packed_bytes 64 pk (kl_Password (pk_struct pk))) = wide_lit ''secret''"
proof -
  obtain kiul where i: "KerbInteractiveUnlockLogonInit (Some (wide_lit ''PC'')) (Some (wide_lit ''ann'')) (Some (wide_lit ''secret''))
      CPUS_LOGON = (S_OK, Some kiul)"
    by (simp add: KerbInteractiveUnlockLogonInit_def UnicodeStringInit_result wide_lit_def message_type_def)
  have "(64::nat) \<le> 4096" by simp
  from kerb_pack_roundtrip [OF i this, of 0] i show ?thesis by blast
qed

end
