(* ===== verification/UnlockCredential.thy ===== *)
theory UnlockCredential
  imports KerbHelpers UnlockHandler Workers "HOL-Library.Multiset"
begin

text \<open>
  \<open>natives/win-pcbiounlock/src/CUnlockListener.cpp\<close> and \<open>CUnlockCredential.cpp\<close>: a user's tile on the Windows logon
  screen and the thread that waits for the user's phone. Calls on the objects of \<open>LogonUI\<close> are recorded; \<open>tw\<close> is
  \<open>StringUtils::ToWideString\<close>, \<open>tr\<close> is \<open>I18n::Get\<close>. The reference counts of the COM objects are left out.
\<close>

section \<open>State\<close>

definition SFI_TILEIMAGE :: nat where "SFI_TILEIMAGE = 0"
definition SFI_USERNAME :: nat where "SFI_USERNAME = 1"
definition SFI_MESSAGE :: nat where "SFI_MESSAGE = 2"
definition SFI_PASSWORD :: nat where "SFI_PASSWORD = 3"
definition SFI_SUBMIT_BUTTON :: nat where "SFI_SUBMIT_BUTTON = 4"
definition SFI_RETRY_BUTTON :: nat where "SFI_RETRY_BUTTON = 5"
definition SFI_NUM_FIELDS :: nat where "SFI_NUM_FIELDS = 6"

lemmas fields = SFI_TILEIMAGE_def SFI_USERNAME_def SFI_MESSAGE_def SFI_PASSWORD_def SFI_SUBMIT_BUTTON_def SFI_RETRY_BUTTON_def
  SFI_NUM_FIELDS_def

datatype field_state = CPFS_HIDDEN | CPFS_DISPLAY_IN_SELECTED_TILE | CPFS_DISPLAY_IN_BOTH

datatype interactive_state = CPFIS_NONE | CPFIS_FOCUSED

definition rgFieldStatePairs :: "(field_state \<times> interactive_state) list" where
  "rgFieldStatePairs = [(CPFS_DISPLAY_IN_BOTH, CPFIS_NONE), (CPFS_DISPLAY_IN_BOTH, CPFIS_NONE), (CPFS_DISPLAY_IN_BOTH, CPFIS_NONE),
     (CPFS_DISPLAY_IN_SELECTED_TILE, CPFIS_FOCUSED), (CPFS_DISPLAY_IN_SELECTED_TILE, CPFIS_NONE),
     (CPFS_DISPLAY_IN_SELECTED_TILE, CPFIS_NONE)]"

text \<open>The thread member: not joinable, running, or ended and still to be joined.\<close>

datatype listen_thread = NoThread | Active | Ended

record unlock_listener =
  ul_thread :: listen_thread
  ul_IsRunning :: bool
  ul_HasResponse :: bool
  ul_IgnoreWaitKeyPress :: bool
  ul_ProviderUsage :: scenario
  ul_UserDomain :: wide

text \<open>Calls on the callback of the tile and on the provider.\<close>

datatype ui_call = SetFieldString nat "wide option" | UpdateCreds

record credential =
  cd_cpus :: scenario
  cd_descriptors :: "FIELD_DESCRIPTOR list"
  cd_statePairs :: "(field_state \<times> interactive_state) list"
  cd_strings :: "wide option list"
  cd_userSid :: "wide option"
  cd_qualifiedUserName :: wide
  cd_isLocalUser :: bool
  cd_listener :: "unlock_listener option"
  cd_unlockResult :: UnlockResult
  cd_isSelected :: bool
  cd_events :: bool               \<comment> \<open>the callback of the tile is there\<close>
  cd_calls :: "ui_call list"

definition call_ui :: "ui_call \<Rightarrow> credential \<Rightarrow> credential" where
  "call_ui k c = c\<lparr>cd_calls := cd_calls c @ [k]\<rparr>"

section \<open>The listener\<close>

definition new_listener :: "scenario \<Rightarrow> wide \<Rightarrow> unlock_listener" where
  "new_listener cpus userDomain = \<lparr>ul_thread = NoThread, ul_IsRunning = False, ul_HasResponse = False,
     ul_IgnoreWaitKeyPress = False, ul_ProviderUsage = cpus, ul_UserDomain = userDomain\<rparr>"

text \<open>What one run of \<open>ListenThread\<close> reads; each waiting loop is given the turns that it takes.\<close>

record listen_env =
  le_tr :: "string \<Rightarrow> string"
  le_userDomain :: string                   \<comment> \<open>\<open>FromWideString(m_UserDomain)\<close>\<close>
  le_devices :: "PairedDevice list"
  le_behavior :: string                     \<comment> \<open>\<open>winUnlockBehavior\<close>\<close>
  le_loggedOn :: bool                       \<comment> \<open>\<open>IsUserLoggedOn(m_UserDomain, 15)\<close>\<close>
  le_ignore :: bool                         \<comment> \<open>\<open>m_IgnoreWaitKeyPress\<close> when it is read\<close>
  le_net :: "(bool \<times> bool \<times> bool) list"     \<comment> \<open>running, Ctrl and Alt are down, a LAN connection\<close>
  le_firstKeys :: "bool list"
  le_keys :: "(bool \<times> bool list) list"      \<comment> \<open>running, the keys that are down\<close>
  le_foreground :: "(bool \<times> bool) list"     \<comment> \<open>running, the own process is in the foreground\<close>
  le_handler :: "string list \<times> UnlockResult" \<comment> \<open>messages and result of \<open>UnlockHandler::GetResult\<close>\<close>

definition needs_network :: "PairedDevice \<Rightarrow> bool" where
  "needs_network d \<longleftrightarrow> pd_pairingMethod d = TCP \<or> pd_pairingMethod d = UDP \<or> pd_pairingMethod d = MANUAL_UDP"

fun wait_network :: "(bool \<times> bool \<times> bool) list \<Rightarrow> bool option" where
  "wait_network [] = None"
| "wait_network ((running, isAbort, hasLAN) # turns) =
     (if running then (if hasLAN \<or> isAbort then Some isAbort else wait_network turns) else Some False)"

fun wait_keys :: "bool list \<Rightarrow> (bool \<times> bool list) list \<Rightarrow> unit option" where
  "wait_keys lastKeys [] = None"
| "wait_keys lastKeys ((running, keys) # turns) =
     (if running then (if keys \<noteq> lastKeys then Some () else wait_keys lastKeys turns) else Some ())"

fun wait_foreground :: "(bool \<times> bool) list \<Rightarrow> unit option" where
  "wait_foreground [] = None"
| "wait_foreground ((running, isOwn) # turns) =
     (if running then (if isOwn then Some () else wait_foreground turns) else Some ())"

definition GetAllKeyState :: "(nat \<Rightarrow> bool) \<Rightarrow> nat \<Rightarrow> bool list" where
  "GetAllKeyState pressed len = map pressed [0..<len]"

text \<open>How the thread ends: without setting \<open>m_HasResponse\<close>, after the abort keys, or with a result for the tile.\<close>

datatype listen_outcome = NoResponse | Aborted | Answered UnlockResult

definition listen_unlock :: "listen_env \<Rightarrow> string list \<Rightarrow> string list \<times> listen_outcome" where
  "listen_unlock e msgs = (msgs @ fst (le_handler e), Answered (snd (le_handler e)))"

definition listen_behavior :: "scenario \<Rightarrow> listen_env \<Rightarrow> string list \<Rightarrow> (string list \<times> listen_outcome) option" where
  "listen_behavior cpus e msgs =
     (let isUnlock = (cpus = CPUS_UNLOCK_WORKSTATION \<or> cpus = CPUS_LOGON \<and> le_loggedOn e) in
      if le_ignore e then Some (listen_unlock e msgs)
      else if le_behavior e = ''key_press'' \<or> le_behavior e = ''key_press_lock_only'' \<and> isUnlock then
        do { _ \<leftarrow> wait_keys (le_firstKeys e) (le_keys e); Some (listen_unlock e (msgs @ [le_tr e ''wait_key_press''])) }
      else if le_behavior e = ''foreground_always'' \<or> le_behavior e = ''foreground_lock_only'' \<and> isUnlock then
        do { _ \<leftarrow> wait_foreground (le_foreground e); Some (listen_unlock e msgs) }
      else Some (listen_unlock e msgs))"

definition ListenThread :: "scenario \<Rightarrow> listen_env \<Rightarrow> (string list \<times> listen_outcome) option" where
  "ListenThread cpus e =
     (let msgs = [le_tr e ''initializing'']; userSplit = splitBy [CHR 0x5C] (le_userDomain e) in
      if length userSplit \<noteq> 2 then Some (msgs @ [le_tr e ''error_invalid_user''], NoResponse)
      else if cpus = CPUS_LOGON \<or> cpus = CPUS_UNLOCK_WORKSTATION then
        (if list_ex needs_network (le_devices e) then do {
           let msgs = msgs @ [le_tr e ''wait_network''];
           isAbort \<leftarrow> wait_network (le_net e);
           if isAbort then Some (msgs @ [le_tr e ''unlock_canceled''], Aborted) else listen_behavior cpus e msgs }
         else listen_behavior cpus e msgs)
      else Some (listen_unlock e msgs))"

section \<open>The credential\<close>

definition IsUnlockSuccess :: "credential \<Rightarrow> bool" where
  "IsUnlockSuccess c \<longleftrightarrow> re_state (cd_unlockResult c) = US_SUCCESS"

definition UpdateMessage :: "(string \<Rightarrow> wide) \<Rightarrow> bool \<Rightarrow> bool \<Rightarrow> string \<Rightarrow> credential \<Rightarrow> credential" where
  "UpdateMessage tw alloc1 alloc2 message c =
     (let stored = snd (SHStrDupW alloc1 (w_str (tw message)));
          c = c\<lparr>cd_strings := (cd_strings c)[SFI_MESSAGE := stored]\<rparr>
      in if cd_events c
         then call_ui (SetFieldString SFI_MESSAGE (snd (SHStrDupW alloc2 (case stored of Some s \<Rightarrow> s | None \<Rightarrow> [])))) c
         else c)"

definition SetUnlockData :: "(string \<Rightarrow> wide) \<Rightarrow> (string \<Rightarrow> string) \<Rightarrow> bool \<Rightarrow> bool \<Rightarrow> UnlockResult \<Rightarrow> credential \<Rightarrow> credential" where
  "SetUnlockData tw tr a1 a2 result c =
     UpdateMessage tw a1 a2 (state_ToString tr (re_state result)) (c\<lparr>cd_unlockResult := result\<rparr>)"

definition on_listener :: "(unlock_listener \<Rightarrow> unlock_listener) \<Rightarrow> credential \<Rightarrow> credential" where
  "on_listener f c = c\<lparr>cd_listener := map_option f (cd_listener c)\<rparr>"

text \<open>The end of the thread, as \<open>ListenThread\<close> answered it.\<close>

definition thread_ends :: "(string \<Rightarrow> wide) \<Rightarrow> (string \<Rightarrow> string) \<Rightarrow> bool \<Rightarrow> bool \<Rightarrow> listen_outcome \<Rightarrow> credential \<Rightarrow> credential" where
  "thread_ends tw tr a1 a2 outcome c =
     on_listener (\<lambda>l. l\<lparr>ul_thread := Ended\<rparr>)
       (case outcome of
          NoResponse \<Rightarrow> c
        | Aborted \<Rightarrow> on_listener (\<lambda>l. l\<lparr>ul_HasResponse := True\<rparr>) c
        | Answered r \<Rightarrow> call_ui UpdateCreds (SetUnlockData tw tr a1 a2 r (on_listener (\<lambda>l. l\<lparr>ul_HasResponse := True\<rparr>) c)))"

text \<open>\<open>Stop\<close>: a thread that is still active ends with \<open>finish\<close> while it is joined.\<close>

definition Stop_listener :: "(credential \<Rightarrow> credential) \<Rightarrow> credential \<Rightarrow> credential" where
  "Stop_listener finish c =
     (case cd_listener c of
        None \<Rightarrow> c
      | Some l \<Rightarrow>
          if \<not> ul_IsRunning l then c
          else let c = on_listener (\<lambda>l. l\<lparr>ul_IsRunning := False, ul_IgnoreWaitKeyPress := False\<rparr>) c;
                   c = (if ul_thread l = Active then finish c else c)
               in on_listener (\<lambda>l. l\<lparr>ul_thread := NoThread\<rparr>) c)"

text \<open>\<open>Start\<close>; assigning to a thread that was not joined ends the process (\<open>None\<close>).\<close>

definition Start_listener :: "bool \<Rightarrow> credential \<Rightarrow> credential option" where
  "Start_listener ignore c =
     (case cd_listener c of
        None \<Rightarrow> Some c
      | Some l \<Rightarrow>
          if ul_IsRunning l then Some c
          else if ul_thread l \<noteq> NoThread then None
          else Some (on_listener (\<lambda>l. l\<lparr>ul_IsRunning := True, ul_IgnoreWaitKeyPress := ignore, ul_thread := Active\<rparr>) c))"

definition Advise_credential :: "bool \<Rightarrow> bool \<Rightarrow> credential \<Rightarrow> credential" where
  "Advise_credential hasEvents2 alloc c =
     (let c = c\<lparr>cd_events := hasEvents2\<rparr> in
      if hasEvents2
      then call_ui (SetFieldString SFI_MESSAGE (snd (SHStrDupW alloc (case cd_strings c ! SFI_MESSAGE of Some s \<Rightarrow> s | None \<Rightarrow> [])))) c
      else c)"

definition UnAdvise_credential :: "credential \<Rightarrow> credential" where
  "UnAdvise_credential c = c\<lparr>cd_events := False\<rparr>"

definition SetSelected :: "credential \<Rightarrow> (bool \<times> credential) option" where
  "SetSelected c = do {
     c \<leftarrow> Start_listener False (c\<lparr>cd_isSelected := True\<rparr>);
     Some (IsUnlockSuccess c, c)
   }"

definition SetDeselected :: "(credential \<Rightarrow> credential) \<Rightarrow> bool \<Rightarrow> credential \<Rightarrow> HRESULT \<times> credential" where
  "SetDeselected finish alloc c =
     (let c = Stop_listener finish (c\<lparr>cd_isSelected := False\<rparr>) in
      case cd_strings c ! SFI_PASSWORD of
        None \<Rightarrow> (S_OK, c)
      | Some _ \<Rightarrow>
          (let (hr, empty) = SHStrDupW alloc [];
               c = c\<lparr>cd_strings := (cd_strings c)[SFI_PASSWORD := empty]\<rparr>
           in (hr, if SUCCEEDED hr \<and> cd_events c then call_ui (SetFieldString SFI_PASSWORD empty) c else c)))"

definition GetFieldState :: "bool \<Rightarrow> nat \<Rightarrow> credential \<Rightarrow> HRESULT \<times> (field_state \<times> interactive_state) option" where
  "GetFieldState winHidePasswordField dwFieldID c =
     (if dwFieldID < length (cd_statePairs c) then
        (let unlockState = re_state (cd_unlockResult c);
             hideUsername = (dwFieldID = SFI_USERNAME \<and> cd_cpus c \<noteq> CPUS_CREDUI);
             hidePasswordField = (dwFieldID = SFI_PASSWORD \<and> winHidePasswordField);
             hideRetryButton = (dwFieldID = SFI_RETRY_BUTTON \<and> (unlockState = US_UNKNOWN \<or> unlockState = US_SUCCESS))
         in (S_OK, Some (if hideUsername \<or> hidePasswordField \<or> hideRetryButton then (CPFS_HIDDEN, CPFIS_NONE)
              else cd_statePairs c ! dwFieldID)))
      else (E_INVALIDARG, None))"

text \<open>\<open>SHStrDupW\<close> of a null pointer fails with \<open>E_INVALIDARG\<close>.\<close>

definition GetStringValue :: "bool \<Rightarrow> nat \<Rightarrow> credential \<Rightarrow> HRESULT \<times> wide option" where
  "GetStringValue alloc dwFieldID c =
     (if dwFieldID < length (cd_descriptors c) then
        (case cd_strings c ! dwFieldID of Some s \<Rightarrow> SHStrDupW alloc s | None \<Rightarrow> (E_INVALIDARG, None))
      else (E_INVALIDARG, None))"

definition GetSubmitButtonValue :: "nat \<Rightarrow> HRESULT \<times> nat option" where
  "GetSubmitButtonValue dwFieldID = (if dwFieldID = SFI_SUBMIT_BUTTON then (S_OK, Some SFI_PASSWORD) else (E_INVALIDARG, None))"

definition SetStringValue :: "bool \<Rightarrow> nat \<Rightarrow> wide \<Rightarrow> credential \<Rightarrow> HRESULT \<times> credential" where
  "SetStringValue alloc dwFieldID pwz c =
     (if dwFieldID < length (cd_descriptors c) \<and> fd_cpft (cd_descriptors c ! dwFieldID) \<in> {CPFT_EDIT_TEXT, CPFT_PASSWORD_TEXT} then
        (let (hr, s) = SHStrDupW alloc pwz in (hr, c\<lparr>cd_strings := (cd_strings c)[dwFieldID := s]\<rparr>))
      else (E_INVALIDARG, c))"

definition CommandLinkClicked :: "(credential \<Rightarrow> credential) \<Rightarrow> nat \<Rightarrow> credential \<Rightarrow> (HRESULT \<times> credential) option" where
  "CommandLinkClicked finish dwFieldID c =
     (if dwFieldID = SFI_RETRY_BUTTON then do {
        let c = c\<lparr>cd_unlockResult := empty_result\<rparr>;
        c \<leftarrow> Start_listener True (Stop_listener finish c);
        Some (S_OK, call_ui UpdateCreds c) }
      else Some (E_INVALIDARG, c))"

definition GetUserSid :: "bool \<Rightarrow> credential \<Rightarrow> HRESULT \<times> wide option" where
  "GetUserSid alloc c = (case cd_userSid c of None \<Rightarrow> (E_UNEXPECTED, None) | Some s \<Rightarrow> SHStrDupW alloc s)"

datatype field_options = CPCFO_NONE | CPCFO_ENABLE_PASSWORD_REVEAL | CPCFO_ENABLE_TOUCH_KEYBOARD_AUTO_INVOKE

definition GetFieldOptions :: "nat \<Rightarrow> field_options" where
  "GetFieldOptions dwFieldID = (if dwFieldID = SFI_PASSWORD then CPCFO_ENABLE_PASSWORD_REVEAL
     else if dwFieldID = SFI_TILEIMAGE then CPCFO_ENABLE_TOUCH_KEYBOARD_AUTO_INVOKE else CPCFO_NONE)"

text \<open>
  The image of the tile: the resource, or the picture of the user below the folder of the common application data. \<open>folder\<close> is the answer of
  \<open>SHGetFolderPathW\<close>, \<open>pathAppend\<close> of \<open>PathAppendW\<close>, \<open>load\<close> the image of a file or the last error.
\<close>

definition USER_PICTURE :: string where "USER_PICTURE = ''Microsoft'' @ [CHR 0x5C] @ ''User Account Pictures'' @ [CHR 0x5C] @ ''user.bmp''"

definition GetBitmapValue :: "'b option \<Rightarrow> HRESULT \<times> wide \<Rightarrow> (wide \<Rightarrow> string \<Rightarrow> wide option) \<Rightarrow> (wide \<Rightarrow> u32 + 'b) \<Rightarrow> nat \<Rightarrow>
    HRESULT \<times> 'b option" where
  "GetBitmapValue resource folder pathAppend load dwFieldID =
     (if dwFieldID = SFI_TILEIMAGE then
        (case resource of
           Some hbmp \<Rightarrow> (S_OK, Some hbmp)
         | None \<Rightarrow> (case folder of (hr, szPath) \<Rightarrow>
             if hr = S_OK then
               (case pathAppend szPath USER_PICTURE of
                  Some path \<Rightarrow> (case load path of Inr hbmp \<Rightarrow> (S_OK, Some hbmp) | Inl err \<Rightarrow> (HRESULT_FROM_WIN32 err, None))
                | None \<Rightarrow> (E_INVALIDARG, None))
             else (hr, None)))
      else (E_INVALIDARG, None))"

text \<open>The tile has no check boxes and no combo boxes.\<close>

definition GetCheckboxValue :: "nat \<Rightarrow> HRESULT" where "GetCheckboxValue dwFieldID = E_NOTIMPL"
definition SetCheckboxValue :: "nat \<Rightarrow> bool \<Rightarrow> HRESULT" where "SetCheckboxValue dwFieldID bChecked = E_NOTIMPL"
definition GetComboBoxValueCount :: "nat \<Rightarrow> HRESULT" where "GetComboBoxValueCount dwFieldID = E_NOTIMPL"
definition GetComboBoxValueAt :: "nat \<Rightarrow> nat \<Rightarrow> HRESULT" where "GetComboBoxValueAt dwFieldID dwItem = E_NOTIMPL"
definition SetComboBoxSelectedValue :: "nat \<Rightarrow> nat \<Rightarrow> HRESULT" where "SetComboBoxSelectedValue dwFieldId dwSelectedItem = E_NOTIMPL"

section \<open>Handing out the credentials\<close>

text \<open>
  What packing the credentials meets: the helpers' allocations and answers, and the two calls of
  \<open>CredPackAuthenticationBufferW\<close> (whether the first succeeds and the last error; the last error or the buffer of the second).
\<close>

record ser_env =
  se_cred :: cred_env
  se_split :: "bool \<times> bool"
  se_sizeof :: nat            \<comment> \<open>\<open>sizeof(KERB_INTERACTIVE_UNLOCK_LOGON)\<close>\<close>
  se_heap :: "u8 option"      \<comment> \<open>what the new buffer holds, if it can be allocated\<close>
  se_lsa :: "u32 \<times> u32 \<times> u32"  \<comment> \<open>status of the connection, status and answer of the lookup\<close>
  se_size :: "bool \<times> u32"
  se_pack :: "wide \<Rightarrow> wide \<Rightarrow> u32 + bytes"

datatype serialization = PackedLogon packed_logon u32 | PackedBuffer bytes u32

definition auth_package :: "ser_env \<Rightarrow> HRESULT \<times> u32 option" where
  "auth_package e = (case se_lsa e of (connect, status, package) \<Rightarrow> RetrieveNegotiateAuthPackage connect (status, package))"

text \<open>A local user: the outer \<open>None\<close> is a copy past the end of the buffer.\<close>

definition serialize_local :: "ser_env \<Rightarrow> scenario \<Rightarrow> wide \<Rightarrow> wide \<Rightarrow> (HRESULT \<times> serialization option) option" where
  "serialize_local e cpus qualifiedUserName pwd =
     (case ProtectIfNecessaryAndCopyPassword (se_cred e) pwd cpus of
        (hr, None) \<Rightarrow> Some (hr, None)
      | (hr, Some protectedPassword) \<Rightarrow>
     (case SplitDomainAndUsername (fst (se_split e)) (snd (se_split e)) qualifiedUserName of
        (hr, None) \<Rightarrow> Some (hr, None)
      | (hr, Some (domain, user)) \<Rightarrow>
     (case KerbInteractiveUnlockLogonInit (Some domain) (Some user) (Some protectedPassword) cpus of
        (hr, None) \<Rightarrow> Some (hr, None)
      | (hr, Some kiul) \<Rightarrow>
     (case KerbInteractiveUnlockLogonPack (se_sizeof e) (se_heap e) kiul of
        None \<Rightarrow> None
      | Some (hr, None) \<Rightarrow> Some (hr, None)
      | Some (hr, Some packed) \<Rightarrow>
     (case auth_package e of
        (hr, None) \<Rightarrow> Some (hr, None)
      | (hr, Some package) \<Rightarrow> Some (hr, Some (PackedLogon packed package)))))))"

definition serialize_other :: "ser_env \<Rightarrow> wide \<Rightarrow> wide \<Rightarrow> HRESULT \<times> serialization option" where
  "serialize_other e qualifiedUserName pwd =
     (let (ok, err) = se_size e in
      if \<not> ok \<and> err = ERROR_INSUFFICIENT_BUFFER then
        (if se_heap e = None then (E_OUTOFMEMORY, None)
         else case se_pack e qualifiedUserName pwd of
           Inr buffer \<Rightarrow>
             (case auth_package e of
                (hr, None) \<Rightarrow> (hr, None)
              | (hr, Some package) \<Rightarrow> (hr, Some (PackedBuffer buffer package)))
         | Inl err \<Rightarrow> (let hr = HRESULT_FROM_WIN32 err in (if SUCCEEDED hr then E_FAIL else hr, None)))
      else (E_UNEXPECTED, None))"

text \<open>The password: that of the phone, which is then used up, or the typed one.\<close>

definition take_password :: "(string \<Rightarrow> wide) \<Rightarrow> credential \<Rightarrow> (wide \<times> credential) option" where
  "take_password tw c =
     (if IsUnlockSuccess c then
        Some (w_str (tw (re_password (cd_unlockResult c))), c\<lparr>cd_unlockResult := (cd_unlockResult c)\<lparr>re_state := US_UNKNOWN\<rparr>\<rparr>)
      else case cd_strings c ! SFI_PASSWORD of
        Some s \<Rightarrow> if s \<noteq> [] then Some (s, c) else None
      | None \<Rightarrow> None)"

definition GetSerialization :: "(string \<Rightarrow> wide) \<Rightarrow> ser_env \<Rightarrow> credential \<Rightarrow> (HRESULT \<times> serialization option \<times> credential) option" where
  "GetSerialization tw e c =
     (case take_password tw c of
        None \<Rightarrow> Some (E_ABORT, None, c)
      | Some (pwd, c) \<Rightarrow>
          if cd_isLocalUser c then do {
            (hr, ser) \<leftarrow> serialize_local e (cd_cpus c) (cd_qualifiedUserName c) pwd;
            Some (hr, ser, c) }
          else (let (hr, ser) = serialize_other e (cd_qualifiedUserName c) pwd in Some (hr, ser, c)))"

datatype status_icon = CPSI_NONE | CPSI_ERROR | CPSI_WARNING

definition STATUS_LOGON_FAILURE :: u32 where "STATUS_LOGON_FAILURE = 0xC000006D"
definition STATUS_ACCOUNT_RESTRICTION :: u32 where "STATUS_ACCOUNT_RESTRICTION = 0xC000006E"
definition STATUS_ACCOUNT_DISABLED :: u32 where "STATUS_ACCOUNT_DISABLED = 0xC0000072"

definition logon_status :: "(string \<Rightarrow> string) \<Rightarrow> u32 \<Rightarrow> u32 \<Rightarrow> (string \<times> status_icon) option" where
  "logon_status tr status substatus =
     (if status = STATUS_LOGON_FAILURE \<and> substatus = 0 then Some (tr ''error_password'', CPSI_ERROR)
      else if status = STATUS_ACCOUNT_RESTRICTION \<and> substatus = STATUS_ACCOUNT_DISABLED
        then Some (tr ''error_account_disabled'', CPSI_WARNING)
      else None)"

definition ReportResult :: "(string \<Rightarrow> wide) \<Rightarrow> (string \<Rightarrow> string) \<Rightarrow> bool \<Rightarrow> u32 \<Rightarrow> u32 \<Rightarrow> credential \<Rightarrow>
    wide option \<times> status_icon \<times> credential" where
  "ReportResult tw tr alloc status substatus c =
     (let c = c\<lparr>cd_unlockResult := result_of_state US_UNKNOWN\<rparr>;
          (shown, icon) = (case logon_status tr status substatus of
             None \<Rightarrow> (None, CPSI_NONE)
           | Some (m, i) \<Rightarrow> (case SHStrDupW alloc (w_str (tw m)) of (hr, s) \<Rightarrow> if SUCCEEDED hr then (s, i) else (s, CPSI_NONE)));
          c = (if \<not> SUCCEEDED (HRESULT_FROM_NT status) \<and> cd_events c then call_ui (SetFieldString SFI_PASSWORD (Some [])) c else c)
      in (shown, icon, c))"

section \<open>Making and destroying a credential\<close>

definition zero_descriptor :: FIELD_DESCRIPTOR where
  "zero_descriptor = \<lparr>fd_FieldID = 0, fd_cpft = CPFT_TILE_IMAGE, fd_pszLabel = None, fd_guidFieldType = []\<rparr>"

definition new_credential :: credential where
  "new_credential = \<lparr>cd_cpus = CPUS_INVALID, cd_descriptors = replicate SFI_NUM_FIELDS zero_descriptor,
     cd_statePairs = replicate SFI_NUM_FIELDS (CPFS_HIDDEN, CPFIS_NONE), cd_strings = replicate SFI_NUM_FIELDS None,
     cd_userSid = None, cd_qualifiedUserName = [], cd_isLocalUser = False, cd_listener = None,
     cd_unlockResult = result_of_state US_UNKNOWN, cd_isSelected = False, cd_events = False, cd_calls = []\<rparr>"

text \<open>A user of the logon screen: each property as it is asked for.\<close>

record cred_user =
  cu_isLocal :: bool
  cu_qualified :: "HRESULT \<times> wide"
  cu_sid :: "HRESULT \<times> wide option"
  cu_userName :: "HRESULT \<times> wide option"

definition hr_then :: "HRESULT \<times> 'a \<Rightarrow> ('a \<Rightarrow> HRESULT \<times> 'a) \<Rightarrow> HRESULT \<times> 'a" where
  "hr_then r f = (if SUCCEEDED (fst r) then f (snd r) else r)"

definition copy_field :: "(nat \<Rightarrow> bool) \<Rightarrow> FIELD_DESCRIPTOR list \<Rightarrow> (field_state \<times> interactive_state) list \<Rightarrow> nat \<Rightarrow> credential \<Rightarrow>
    HRESULT \<times> credential" where
  "copy_field alloc rgcpfd rgfsp i c =
     (let (hr, d) = FieldDescriptorCopy (alloc i) (rgcpfd ! i) (cd_descriptors c ! i)
      in (hr, c\<lparr>cd_statePairs := (cd_statePairs c)[i := rgfsp ! i], cd_descriptors := (cd_descriptors c)[i := d]\<rparr>))"

definition dup_field :: "bool \<Rightarrow> nat \<Rightarrow> wide \<Rightarrow> credential \<Rightarrow> HRESULT \<times> credential" where
  "dup_field alloc i s c = (let (hr, t) = SHStrDupW alloc s in (hr, c\<lparr>cd_strings := (cd_strings c)[i := t]\<rparr>))"

definition Initialize_credential :: "(string \<Rightarrow> wide) \<Rightarrow> (string \<Rightarrow> string) \<Rightarrow> (nat \<Rightarrow> bool) \<Rightarrow> scenario \<Rightarrow> FIELD_DESCRIPTOR list \<Rightarrow>
    (field_state \<times> interactive_state) list \<Rightarrow> cred_user \<Rightarrow> wide \<Rightarrow> credential \<Rightarrow> HRESULT \<times> credential" where
  "Initialize_credential tw tr alloc cpus rgcpfd rgfsp user userDomain c =
     foldl hr_then (S_OK, c\<lparr>cd_cpus := cpus, cd_isLocalUser := cu_isLocal user\<rparr>)
       (map (copy_field alloc rgcpfd rgfsp) [0..<SFI_NUM_FIELDS] @
        [\<lambda>c. (fst (cu_qualified user), c\<lparr>cd_qualifiedUserName := snd (cu_qualified user)\<rparr>),
         \<lambda>c. (fst (cu_sid user), c\<lparr>cd_userSid := snd (cu_sid user)\<rparr>),
         \<lambda>c. (fst (cu_userName user), c\<lparr>cd_strings := (cd_strings c)[SFI_USERNAME := snd (cu_userName user)]\<rparr>),
         dup_field (alloc 6) SFI_MESSAGE (w_str (tw (tr ''initializing''))),
         dup_field (alloc 7) SFI_PASSWORD [],
         dup_field (alloc 8) SFI_SUBMIT_BUTTON (wide_lit ''Submit''),
         dup_field (alloc 9) SFI_RETRY_BUTTON (w_str (tw (tr ''retry''))),
         \<lambda>c. if alloc 10 then (S_OK, c\<lparr>cd_listener := Some (new_listener cpus userDomain)\<rparr>) else (E_OUTOFMEMORY, c)])"

text \<open>The destructor stops the listener; the strings are freed.\<close>

definition Destroy_credential :: "(credential \<Rightarrow> credential) \<Rightarrow> credential \<Rightarrow> credential" where
  "Destroy_credential finish c = Stop_listener finish c"

section \<open>The tile as a system\<close>

text \<open>
  The calls of \<open>LogonUI\<close> and the steps of the listening thread, in any order. What the thread still does while \<open>Stop\<close>
  joins it is a list of messages and an outcome. The results with which the thread has answered a success, and those
  whose password was taken, are kept beside.
\<close>

record tile =
  tl_cred :: credential
  tl_answers :: "UnlockResult list"
  tl_used :: "UnlockResult list"

definition finish_thread :: "(string \<Rightarrow> wide) \<Rightarrow> (string \<Rightarrow> string) \<Rightarrow> (string \<times> bool \<times> bool) list \<Rightarrow> bool \<Rightarrow> bool \<Rightarrow> listen_outcome \<Rightarrow>
    credential \<Rightarrow> credential" where
  "finish_thread tw tr msgs a1 a2 outcome c =
     thread_ends tw tr a1 a2 outcome (fold (\<lambda>(m, b1, b2). UpdateMessage tw b1 b2 m) msgs c)"

definition thread_active :: "credential \<Rightarrow> bool" where
  "thread_active c \<longleftrightarrow> (\<exists>l. cd_listener c = Some l \<and> ul_thread l = Active)"

definition success_of :: "listen_outcome \<Rightarrow> UnlockResult list" where
  "success_of outcome = (case outcome of Answered r \<Rightarrow> if re_state r = US_SUCCESS then [r] else [] | _ \<Rightarrow> [])"

definition joined :: "credential \<Rightarrow> listen_outcome \<Rightarrow> UnlockResult list" where
  "joined c outcome = (if thread_active c then success_of outcome else [])"

inductive tile_step :: "(string \<Rightarrow> wide) \<Rightarrow> (string \<Rightarrow> string) \<Rightarrow> tile \<Rightarrow> tile \<Rightarrow> bool" for tw tr where
  select: "SetSelected (tl_cred s) = Some (auto, c) \<Longrightarrow> tile_step tw tr s (s\<lparr>tl_cred := c\<rparr>)"
| deselect: "SetDeselected (finish_thread tw tr msgs a1 a2 outcome) alloc (tl_cred s) = (hr, c) \<Longrightarrow>
    tile_step tw tr s (s\<lparr>tl_cred := c, tl_answers := tl_answers s @ joined (tl_cred s) outcome\<rparr>)"
| retry: "CommandLinkClicked (finish_thread tw tr msgs a1 a2 outcome) SFI_RETRY_BUTTON (tl_cred s) = Some (hr, c) \<Longrightarrow>
    tile_step tw tr s (s\<lparr>tl_cred := c, tl_answers := tl_answers s @ joined (tl_cred s) outcome\<rparr>)"
| typing: "SetStringValue alloc i pwz (tl_cred s) = (hr, c) \<Longrightarrow> tile_step tw tr s (s\<lparr>tl_cred := c\<rparr>)"
| advise: "tile_step tw tr s (s\<lparr>tl_cred := Advise_credential q alloc (tl_cred s)\<rparr>)"
| unadvise: "tile_step tw tr s (s\<lparr>tl_cred := UnAdvise_credential (tl_cred s)\<rparr>)"
| serialize: "GetSerialization tw e (tl_cred s) = Some (hr, ser, c) \<Longrightarrow>
    tile_step tw tr s (s\<lparr>tl_cred := c,
      tl_used := tl_used s @ (if IsUnlockSuccess (tl_cred s) then [cd_unlockResult (tl_cred s)] else [])\<rparr>)"
| report: "ReportResult tw tr alloc status substatus (tl_cred s) = (m, icon, c) \<Longrightarrow> tile_step tw tr s (s\<lparr>tl_cred := c\<rparr>)"
| message: "thread_active (tl_cred s) \<Longrightarrow> tile_step tw tr s (s\<lparr>tl_cred := UpdateMessage tw a1 a2 m (tl_cred s)\<rparr>)"
| thread_end: "thread_active (tl_cred s) \<Longrightarrow>
    tile_step tw tr s (s\<lparr>tl_cred := thread_ends tw tr a1 a2 outcome (tl_cred s), tl_answers := tl_answers s @ success_of outcome\<rparr>)"

section \<open>What the tile keeps\<close>

text \<open>The thread can be joined exactly while \<open>m_IsRunning\<close> is set.\<close>

definition listener_ok :: "credential \<Rightarrow> bool" where
  "listener_ok c \<longleftrightarrow> (\<forall>l. cd_listener c = Some l \<longrightarrow> (ul_thread l \<noteq> NoThread \<longleftrightarrow> ul_IsRunning l))"

definition pending :: "credential \<Rightarrow> UnlockResult multiset" where
  "pending c = (if IsUnlockSuccess c then {#cd_unlockResult c#} else {#})"

definition tile_inv :: "tile \<Rightarrow> bool" where
  "tile_inv s \<longleftrightarrow> listener_ok (tl_cred s) \<and> mset (tl_used s) + pending (tl_cred s) \<subseteq># mset (tl_answers s)"

text \<open>What changes neither the listener nor the result.\<close>

definition same_core :: "credential \<Rightarrow> credential \<Rightarrow> bool" where
  "same_core c d \<longleftrightarrow> cd_listener d = cd_listener c \<and> cd_unlockResult d = cd_unlockResult c"

lemma same_core_refl [simp]: "same_core c c"
  by (simp add: same_core_def)

lemma same_core_trans: "same_core a b \<Longrightarrow> same_core b c \<Longrightarrow> same_core a c"
  by (simp add: same_core_def)

lemma same_core_ops:
  "same_core c (UpdateMessage tw a1 a2 m c)" "same_core c (Advise_credential q alloc c)" "same_core c (UnAdvise_credential c)"
  "SetStringValue alloc i pwz c = (hr, d) \<Longrightarrow> same_core c d"
  by (auto simp: same_core_def UpdateMessage_def Advise_credential_def UnAdvise_credential_def SetStringValue_def call_ui_def Let_def
      split: if_splits prod.splits)

lemma same_core_messages: "same_core c (fold (\<lambda>(m, b1, b2). UpdateMessage tw b1 b2 m) msgs c)"
proof (induction msgs arbitrary: c)
  case (Cons x msgs)
  obtain m b1 b2 where "x = (m, b1, b2)" by (cases x) auto
  with Cons show ?case using same_core_ops(1) same_core_trans by (auto; blast)
qed simp

lemma same_core_keeps: "same_core c d \<Longrightarrow> listener_ok d = listener_ok c \<and> pending d = pending c \<and> thread_active d = thread_active c"
  by (simp add: same_core_def listener_ok_def pending_def IsUnlockSuccess_def thread_active_def)

text \<open>The end of the thread: the listener waits to be joined, and a success that was answered is pending.\<close>

lemma thread_ends_core:
  "cd_listener (thread_ends tw tr a1 a2 outcome c) =
     map_option (\<lambda>l. l\<lparr>ul_thread := Ended, ul_HasResponse := (outcome \<noteq> NoResponse \<or> ul_HasResponse l)\<rparr>) (cd_listener c)"
  "cd_unlockResult (thread_ends tw tr a1 a2 outcome c) = (case outcome of Answered r \<Rightarrow> r | _ \<Rightarrow> cd_unlockResult c)"
  by (cases outcome; cases "cd_listener c";
      simp add: thread_ends_def on_listener_def call_ui_def SetUnlockData_def UpdateMessage_def Let_def)+

lemma finish_thread_core:
  "cd_listener (finish_thread tw tr msgs a1 a2 outcome c) =
     map_option (\<lambda>l. l\<lparr>ul_thread := Ended, ul_HasResponse := (outcome \<noteq> NoResponse \<or> ul_HasResponse l)\<rparr>) (cd_listener c)"
  "cd_unlockResult (finish_thread tw tr msgs a1 a2 outcome c) = (case outcome of Answered r \<Rightarrow> r | _ \<Rightarrow> cd_unlockResult c)"
  using same_core_messages [of c tw msgs]
  by (simp_all add: finish_thread_def thread_ends_core same_core_def split: listen_outcome.split)

lemma pending_after: "pending c \<subseteq># X \<Longrightarrow> cd_unlockResult d = (case outcome of Answered r \<Rightarrow> r | _ \<Rightarrow> cd_unlockResult c) \<Longrightarrow>
    pending d \<subseteq># X + mset (success_of outcome)"
  by (cases outcome) (auto simp: pending_def IsUnlockSuccess_def success_of_def split: if_splits)

lemma Stop_core:
  fixes tw tr msgs a1 a2 outcome and c :: credential
  assumes "listener_ok c"
  defines "d \<equiv> Stop_listener (finish_thread tw tr msgs a1 a2 outcome) c"
  shows "listener_ok d" and "\<forall>l. cd_listener d = Some l \<longrightarrow> ul_thread l = NoThread \<and> \<not> ul_IsRunning l"
    and "cd_unlockResult d = (if thread_active c then (case outcome of Answered r \<Rightarrow> r | _ \<Rightarrow> cd_unlockResult c) else cd_unlockResult c)"
proof -
  have *: "listener_ok d \<and> (\<forall>l. cd_listener d = Some l \<longrightarrow> ul_thread l = NoThread \<and> \<not> ul_IsRunning l) \<and>
    cd_unlockResult d = (if thread_active c then (case outcome of Answered r \<Rightarrow> r | _ \<Rightarrow> cd_unlockResult c) else cd_unlockResult c)"
  proof (cases "cd_listener c")
    case None
    then show ?thesis by (simp add: d_def Stop_listener_def listener_ok_def thread_active_def)
  next
    case (Some l)
    show ?thesis
    proof (cases "ul_IsRunning l")
      case False
      then show ?thesis using assms(1) Some by (auto simp: d_def Stop_listener_def listener_ok_def thread_active_def)
    next
      case True
      then show ?thesis using Some
        by (cases "ul_thread l") (auto simp: d_def Stop_listener_def listener_ok_def thread_active_def on_listener_def finish_thread_core Let_def
            split: listen_outcome.split)
    qed
  qed
  then show "listener_ok d" "\<forall>l. cd_listener d = Some l \<longrightarrow> ul_thread l = NoThread \<and> \<not> ul_IsRunning l"
    "cd_unlockResult d = (if thread_active c then (case outcome of Answered r \<Rightarrow> r | _ \<Rightarrow> cd_unlockResult c) else cd_unlockResult c)"
    by blast+
qed

lemma Start_core:
  assumes "Start_listener ignore c = Some d" and "listener_ok c"
  shows "listener_ok d \<and> cd_unlockResult d = cd_unlockResult c"
  using assms by (auto simp: Start_listener_def listener_ok_def on_listener_def split: option.splits if_splits)

lemma Start_never_terminates: "listener_ok c \<Longrightarrow> Start_listener ignore c \<noteq> None"
  by (auto simp: Start_listener_def listener_ok_def split: option.split)

lemma pending_mono: "cd_unlockResult d = cd_unlockResult c \<Longrightarrow> pending d = pending c"
  by (simp add: pending_def IsUnlockSuccess_def)

lemma Stop_pending:
  assumes "listener_ok c" and "pending c \<subseteq># X"
  shows "pending (Stop_listener (finish_thread tw tr msgs a1 a2 outcome) c) \<subseteq># X + mset (joined c outcome)"
proof -
  let ?d = "Stop_listener (finish_thread tw tr msgs a1 a2 outcome) c"
  note r = Stop_core(3) [OF assms(1), of tw tr msgs a1 a2 outcome]
  show ?thesis
  proof (cases "thread_active c")
    case True
    with r have "cd_unlockResult ?d = (case outcome of Answered r \<Rightarrow> r | _ \<Rightarrow> cd_unlockResult c)" by simp
    from pending_after [OF assms(2) this] True show ?thesis by (simp add: joined_def)
  next
    case False
    with r have "pending ?d = pending c" by (intro pending_mono) simp
    with assms(2) False show ?thesis by (simp add: joined_def)
  qed
qed

lemma SetDeselected_core:
  "same_core (Stop_listener finish (c\<lparr>cd_isSelected := False\<rparr>)) (snd (SetDeselected finish alloc c))"
  by (auto simp: SetDeselected_def same_core_def call_ui_def Let_def split: option.split prod.split)

lemma Serialization_core:
  assumes "GetSerialization tw e c = Some (hr, ser, d)"
  shows "cd_listener d = cd_listener c \<and> pending d = {#} \<and> (\<not> IsUnlockSuccess c \<longrightarrow> d = c)"
  using assms
  by (auto simp: GetSerialization_def take_password_def pending_def IsUnlockSuccess_def bind_eq_Some_conv split: if_splits option.splits prod.splits)

lemma ReportResult_core:
  assumes "ReportResult tw tr alloc st sub c = (m, icon, d)"
  shows "cd_listener d = cd_listener c \<and> pending d = {#}"
  using assms
  by (auto simp: ReportResult_def pending_def IsUnlockSuccess_def result_of_state_def call_ui_def Let_def split: option.splits prod.splits if_splits)

lemma listener_okI: "cd_listener d = cd_listener c \<Longrightarrow> listener_ok d = listener_ok c"
  by (simp add: listener_ok_def)

lemma Retry_core:
  assumes "CommandLinkClicked (finish_thread tw tr msgs a1 a2 outcome) SFI_RETRY_BUTTON c = Some (hr, d)" and "listener_ok c"
  shows "listener_ok d \<and> pending d \<subseteq># mset (joined c outcome)"
proof -
  let ?c = "c\<lparr>cd_unlockResult := empty_result\<rparr>"
  let ?s = "Stop_listener (finish_thread tw tr msgs a1 a2 outcome) ?c"
  have ok: "listener_ok ?c" using assms(2) by (simp add: listener_ok_def)
  obtain t where t: "Start_listener True ?s = Some t" "d = call_ui UpdateCreds t"
    using assms(1) by (auto simp: CommandLinkClicked_def bind_eq_Some_conv Let_def)
  note s = Start_core [OF t(1) Stop_core(1) [OF ok]]
  have j: "joined ?c outcome = joined c outcome" by (simp add: joined_def thread_active_def)
  have "pending ?c \<subseteq># {#}" by (simp add: pending_def IsUnlockSuccess_def empty_result_def)
  from Stop_pending [OF ok this, of tw tr msgs a1 a2 outcome] s pending_mono [of t ?s] t(2) show ?thesis
    unfolding j by (auto simp: listener_ok_def call_ui_def pending_def IsUnlockSuccess_def)
qed

lemma tile_inv_step:
  assumes "tile_step tw tr s t" and "tile_inv s"
  shows "tile_inv t"
proof -
  have ok: "listener_ok (tl_cred s)" and m: "mset (tl_used s) + pending (tl_cred s) \<subseteq># mset (tl_answers s)"
    using assms(2) by (simp_all add: tile_inv_def)
  have same: "tile_inv (s\<lparr>tl_cred := c\<rparr>)" if "same_core (tl_cred s) c" for c
    using same_core_keeps [OF that] ok m by (simp add: tile_inv_def)
  obtain X where X: "mset (tl_answers s) = mset (tl_used s) + X" "pending (tl_cred s) \<subseteq># X"
    using m unfolding mset_subset_eq_exists_conv by (metis add.assoc)
  show ?thesis
    using assms(1)
  proof cases
    case (select auto c)
    then obtain d where d: "Start_listener False ((tl_cred s)\<lparr>cd_isSelected := True\<rparr>) = Some d" "c = d"
      by (auto simp: SetSelected_def bind_eq_Some_conv)
    have "listener_ok ((tl_cred s)\<lparr>cd_isSelected := True\<rparr>)" using ok by (simp add: listener_ok_def)
    from Start_core [OF d(1) this] have l: "listener_ok d" "cd_unlockResult d = cd_unlockResult (tl_cred s)" by simp_all
    from l(1) pending_mono [OF l(2)] d(2) select(1) m show ?thesis by (simp add: tile_inv_def)
  next
    case (deselect msgs a1 a2 outcome alloc hr c)
    let ?c = "(tl_cred s)\<lparr>cd_isSelected := False\<rparr>"
    have k: "listener_ok ?c" "pending ?c \<subseteq># X" "joined ?c outcome = joined (tl_cred s) outcome"
      using ok X(2) pending_mono [of ?c "tl_cred s"] by (simp_all add: listener_ok_def joined_def thread_active_def)
    have c: "same_core (Stop_listener (finish_thread tw tr msgs a1 a2 outcome) ?c) c"
      using SetDeselected_core [of "finish_thread tw tr msgs a1 a2 outcome" "tl_cred s" alloc] deselect(2) by simp
    from same_core_keeps [OF c] Stop_core(1) [OF k(1)] Stop_pending [OF k(1,2), of tw tr msgs a1 a2 outcome] deselect(1) X(1)
    show ?thesis by (simp add: tile_inv_def k(3) add.assoc)
  next
    case (retry msgs a1 a2 outcome hr c)
    from Retry_core [OF retry(2) ok] have "listener_ok c" "pending c \<subseteq># X + mset (joined (tl_cred s) outcome)"
      by (auto intro: subset_mset.order_trans)
    with retry(1) X(1) show ?thesis by (simp add: tile_inv_def add.assoc)
  next
    case (typing alloc i pwz hr c)
    with same same_core_ops(4) show ?thesis by simp
  next
    case (advise q alloc)
    with same same_core_ops(2) show ?thesis by simp
  next
    case unadvise
    with same same_core_ops(3) show ?thesis by simp
  next
    case (serialize e hr ser c)
    note s = Serialization_core [OF serialize(2)]
    have "listener_ok c" using s ok listener_okI by blast
    moreover have "mset (tl_used s @ (if IsUnlockSuccess (tl_cred s) then [cd_unlockResult (tl_cred s)] else [])) \<subseteq># mset (tl_answers s)"
      using m by (auto simp: pending_def split: if_splits)
    ultimately show ?thesis using serialize(1) s by (simp add: tile_inv_def)
  next
    case (report alloc status substatus m icon c)
    note r = ReportResult_core [OF report(2)]
    have "listener_ok c" using r ok listener_okI by blast
    with report(1) r m X show ?thesis by (simp add: tile_inv_def)
  next
    case (message a1 a2 m)
    with same same_core_ops(1) show ?thesis by simp
  next
    case (thread_end outcome a1 a2)
    let ?d = "thread_ends tw tr a1 a2 outcome (tl_cred s)"
    have "listener_ok ?d" using ok thread_end(2) by (auto simp: listener_ok_def thread_ends_core thread_active_def)
    with pending_after [OF X(2) thread_ends_core(2)] thread_end(1) X(1) show ?thesis by (simp add: tile_inv_def add.assoc)
  qed
qed

text \<open>The listener is a worker whose \<open>Stop\<close> returns at once when it is not running.\<close>

definition listener_running :: "credential \<Rightarrow> bool" where
  "listener_running c \<longleftrightarrow> (\<exists>l. cd_listener c = Some l \<and> ul_IsRunning l)"

definition listener_joinable :: "credential \<Rightarrow> bool" where
  "listener_joinable c \<longleftrightarrow> (\<exists>l. cd_listener c = Some l \<and> ul_thread l \<noteq> NoThread)"

interpretation tile_listener: lazy_worker "\<lambda>c. map_option (Pair True) (Start_listener ignore c)"
  "Stop_listener (finish_thread tw tr msgs a1 a2 outcome)" listener_running listener_joinable "\<lambda>c. cd_listener c \<noteq> None"
  for ignore tw tr msgs a1 a2 outcome
  by unfold_locales
    (auto simp: Start_listener_def Stop_listener_def listener_running_def listener_joinable_def on_listener_def finish_thread_core Let_def
      split: option.splits)

text \<open>A credential as \<open>Initialize\<close> leaves it.\<close>

definition fresh_credential :: "credential \<Rightarrow> bool" where
  "fresh_credential c \<longleftrightarrow> re_state (cd_unlockResult c) \<noteq> US_SUCCESS \<and>
     (\<forall>l. cd_listener c = Some l \<longrightarrow> ul_thread l = NoThread \<and> \<not> ul_IsRunning l)"

abbreviation reachable_tile :: "(string \<Rightarrow> wide) \<Rightarrow> (string \<Rightarrow> string) \<Rightarrow> credential \<Rightarrow> tile \<Rightarrow> bool" where
  "reachable_tile tw tr c \<equiv> (tile_step tw tr)\<^sup>*\<^sup>* \<lparr>tl_cred = c, tl_answers = [], tl_used = []\<rparr>"

lemma tile_inv_reachable:
  assumes "fresh_credential c" and "reachable_tile tw tr c s"
  shows "tile_inv s"
  using assms(2)
proof (induction rule: rtranclp_induct)
  case base
  show ?case using assms(1)
    by (simp add: tile_inv_def fresh_credential_def listener_ok_def pending_def IsUnlockSuccess_def)
next
  case (step s t)
  then show ?case using tile_inv_step by blast
qed

lemma fold_keeps_fresh:
  assumes "\<And>f c. f \<in> set fs \<Longrightarrow> fresh_credential c \<Longrightarrow> fresh_credential (snd (f c))" and "fresh_credential (snd r)"
  shows "fresh_credential (snd (foldl hr_then r fs))"
  using assms
proof (induction fs arbitrary: r)
  case (Cons f fs)
  have "fresh_credential (snd (hr_then r f))" using Cons.prems by (simp add: hr_then_def)
  with Cons show ?case by simp
qed simp

lemma Initialize_fresh:
  assumes "Initialize_credential tw tr alloc cpus ds ps user userDomain new_credential = (hr, c)"
  shows "fresh_credential c"
proof -
  have "fresh_credential (snd (Initialize_credential tw tr alloc cpus ds ps user userDomain new_credential))"
    unfolding Initialize_credential_def
    by (rule fold_keeps_fresh)
       (auto simp: fresh_credential_def copy_field_def dup_field_def new_credential_def result_of_state_def new_listener_def Let_def
         split: prod.splits if_splits)
  then show ?thesis using assms by simp
qed

text \<open>Only successes are answers; so a success in the tile is one of them.\<close>

lemma tile_answers_success:
  assumes "tile_step tw tr s t" and "\<forall>r \<in> set (tl_answers s). re_state r = US_SUCCESS"
  shows "\<forall>r \<in> set (tl_answers t). re_state r = US_SUCCESS"
proof -
  have ok: "r \<in> set (success_of outcome) \<Longrightarrow> re_state r = US_SUCCESS" for r outcome
    by (simp add: success_of_def split: listen_outcome.splits if_splits)
  from assms(1) show ?thesis using assms(2) ok by cases (auto simp: joined_def split: if_splits)
qed

lemma tile_success_answered:
  assumes "Initialize_credential tw tr alloc cpus ds ps user userDomain new_credential = (hr, c)" and "reachable_tile tw tr c s"
    and "IsUnlockSuccess (tl_cred s)"
  shows "cd_unlockResult (tl_cred s) \<in> set (tl_answers s)"
  using tile_inv_reachable [OF Initialize_fresh [OF assms(1)] assms(2)] assms(3)
  by (auto simp: tile_inv_def pending_def dest!: mset_subset_eqD)

text \<open>
  C27: The tile of a user on the Windows logon screen, under any order of the calls of the logon screen and the steps of the listening
  thread: every password of a phone that is handed out belongs to a success that the thread answered, and each success is
  handed out at most once; starting the listener never overwrites a thread that is not joined; and destroying the
  credential leaves no thread behind.
\<close>

theorem tile_uses_success_once:
  assumes "Initialize_credential tw tr alloc cpus ds ps user userDomain new_credential = (hr, c)"
    and "reachable_tile tw tr c s"
  shows "mset (tl_used s) \<subseteq># mset (tl_answers s) \<and> Start_listener ignore (tl_cred s) \<noteq> None \<and>
    (\<forall>l. cd_listener (Destroy_credential (finish_thread tw tr msgs a1 a2 outcome) (tl_cred s)) = Some l \<longrightarrow> ul_thread l = NoThread)"
proof -
  have i: "listener_ok (tl_cred s)" "mset (tl_used s) + pending (tl_cred s) \<subseteq># mset (tl_answers s)"
    using tile_inv_reachable [OF Initialize_fresh [OF assms(1)] assms(2)] by (simp_all add: tile_inv_def)
  from i(2) have "mset (tl_used s) \<subseteq># mset (tl_answers s)"
    by (meson mset_subset_eq_add_left subset_mset.order_trans)
  with Start_never_terminates [OF i(1)] Stop_core(2) [OF i(1), of tw tr msgs a1 a2 outcome] show ?thesis
    by (simp add: Destroy_credential_def)
qed

section \<open>The credentials of an unlock\<close>

lemma serialize_local_cases:
  assumes "serialize_local e cpus name pwd = Some (hr, Some ser)"
  shows "\<exists>prot h1 domain user h2 kiul packed package. ProtectIfNecessaryAndCopyPassword (se_cred e) pwd cpus = (h1, Some prot) \<and>
    SplitDomainAndUsername (fst (se_split e)) (snd (se_split e)) name = (h2, Some (domain, user)) \<and>
    (\<exists>h3. KerbInteractiveUnlockLogonInit (Some domain) (Some user) (Some prot) cpus = (h3, Some kiul)) \<and>
    (\<exists>h4. KerbInteractiveUnlockLogonPack (se_sizeof e) (se_heap e) kiul = Some (h4, Some packed)) \<and> ser = PackedLogon packed package"
  using assms by (auto simp: serialize_local_def split: prod.splits option.splits)

lemma serialize_local_back:
  assumes "serialize_local e cpus name pwd = Some (hr, Some ser)" and "se_sizeof e \<le> 4096"
  shows "\<exists>packed package prot h domain user. ser = PackedLogon packed package \<and> name = domain @ [BACKSLASH] @ user \<and> BACKSLASH \<notin> set domain \<and>
    ProtectIfNecessaryAndCopyPassword (se_cred e) pwd cpus = (h, Some prot) \<and>
    wide_of (packed_bytes (se_sizeof e) packed (kl_LogonDomainName (pk_struct packed))) = domain \<and>
    wide_of (packed_bytes (se_sizeof e) packed (kl_UserName (pk_struct packed))) = user \<and>
    wide_of (packed_bytes (se_sizeof e) packed (kl_Password (pk_struct packed))) = prot"
proof -
  obtain prot h1 domain user h2 h3 h4 kiul packed package where c:
    "ProtectIfNecessaryAndCopyPassword (se_cred e) pwd cpus = (h1, Some prot)"
    "SplitDomainAndUsername (fst (se_split e)) (snd (se_split e)) name = (h2, Some (domain, user))"
    "KerbInteractiveUnlockLogonInit (Some domain) (Some user) (Some prot) cpus = (h3, Some kiul)"
    "KerbInteractiveUnlockLogonPack (se_sizeof e) (se_heap e) kiul = Some (h4, Some packed)" "ser = PackedLogon packed package"
    using serialize_local_cases [OF assms(1)] by blast
  then obtain b where b: "se_heap e = Some b" by (cases "se_heap e") (simp_all add: KerbInteractiveUnlockLogonPack_def Let_def)
  from kerb_pack_back [OF c(3) assms(2), of b] c(4) b Split_parts [OF c(2)] c(1,5) show ?thesis by auto
qed

text \<open>The packing stays within its buffer.\<close>

lemma serialize_local_returns:
  assumes "se_sizeof e \<le> 4096"
  shows "serialize_local e cpus name pwd \<noteq> None"
proof -
  have "KerbInteractiveUnlockLogonPack (se_sizeof e) (se_heap e) kiul \<noteq> None"
    if "KerbInteractiveUnlockLogonInit (Some d) (Some u) (Some p) cpus = (hr, Some kiul)" for d u p hr kiul
  proof (cases "se_heap e")
    case None
    then show ?thesis by (simp add: KerbInteractiveUnlockLogonPack_def Let_def)
  next
    case (Some b)
    then show ?thesis using kerb_pack_back [OF that assms, of b] by auto
  qed
  then show ?thesis
    by (fastforce simp: serialize_local_def split: prod.splits option.splits)
qed

lemma serialize_other_buffer:
  "serialize_other e name pwd = (hr, Some ser) \<Longrightarrow> \<exists>buffer package. ser = PackedBuffer buffer package \<and> se_pack e name pwd = Inr buffer"
  by (auto simp: serialize_other_def Let_def split: prod.splits if_splits sum.splits option.splits)


text \<open>
  After the abort keys, or for a user name that has not two parts, the retry button stays hidden and selecting the tile again does
  not start the listener: only deselecting the tile first does.
\<close>

lemma aborted_no_retry:
  assumes "cd_listener c = Some l" and "ul_IsRunning l" and "re_state (cd_unlockResult c) = US_UNKNOWN"
    and "outcome \<in> {Aborted, NoResponse}" and "SFI_RETRY_BUTTON < length (cd_statePairs c)"
    and "d = thread_ends tw tr a1 a2 outcome c"
  shows "snd (GetFieldState hide SFI_RETRY_BUTTON d) = Some (CPFS_HIDDEN, CPFIS_NONE) \<and>
    SetSelected d = Some (False, d\<lparr>cd_isSelected := True\<rparr>)"
  using assms
  by (auto simp: GetFieldState_def SetSelected_def Start_listener_def thread_ends_def on_listener_def IsUnlockSuccess_def Let_def)

text \<open>A failed logon clears the field that is shown, and not the password that the tile keeps.\<close>

lemma failed_logon_keeps_password:
  assumes "cd_strings c ! SFI_PASSWORD = Some s" and "s \<noteq> []"
    and "ReportResult tw tr alloc STATUS_LOGON_FAILURE 0 c = (m, icon, d)"
  shows "take_password tw d = Some (s, d)"
  using assms
  by (auto simp: ReportResult_def take_password_def IsUnlockSuccess_def result_of_state_def call_ui_def Let_def
      split: option.splits prod.splits if_splits)

section \<open>Witnesses\<close>

definition demo_wide :: "string \<Rightarrow> wide" where "demo_wide s = wide_lit s"

definition demo_user :: "bool \<Rightarrow> cred_user" where
  "demo_user isLocal = \<lparr>cu_isLocal = isLocal, cu_qualified = (S_OK, wide_lit ''PC'' @ [BACKSLASH] @ wide_lit ''ann''), cu_sid = (S_OK, Some []),
     cu_userName = (S_OK, Some (wide_lit ''ann''))\<rparr>"

definition demo_ser :: ser_env where
  "demo_ser = \<lparr>se_cred = \<lparr>cr_dup1 = True, cr_dup2 = True, cr_alloc = True, cr_size = (False, ERROR_INSUFFICIENT_BUFFER, 10),
       cr_protect = (\<lambda>s. Inr (0x40 # s)), cr_is_protected = (\<lambda>_. Some False)\<rparr>,
     se_split = (True, True), se_sizeof = 64, se_heap = Some 0, se_lsa = (0, 0, 9), se_size = (False, ERROR_INSUFFICIENT_BUFFER),
     se_pack = (\<lambda>n s. Inr [])\<rparr>"

definition demo_success :: UnlockResult where
  "demo_success = (result_of_state US_SUCCESS)\<lparr>re_password := ''pw''\<rparr>"

lemma six: "[0..<6] = [0, 1, 2, 3, 4, 5 :: nat]"
  by code_simp

lemma demo_initialized:
  "\<exists>c. Initialize_credential wide_lit (\<lambda>k. k) (\<lambda>_. True) CPUS_LOGON (replicate 6 zero_descriptor) rgFieldStatePairs (demo_user False) []
      new_credential = (S_OK, c) \<and> cd_listener c = Some (new_listener CPUS_LOGON []) \<and>
    cd_unlockResult c = result_of_state US_UNKNOWN \<and> \<not> cd_isLocalUser c"
  unfolding Initialize_credential_def SFI_NUM_FIELDS_def six
  by (simp add: hr_then_def copy_field_def FieldDescriptorCopy_ok dup_field_def SHStrDupW_def demo_user_def Let_def)
     (simp add: new_credential_def)

text \<open>A tile that is selected, and whose thread then answers a success.\<close>

lemma demo_unlocked_tile:
  assumes "re_state result = US_SUCCESS"
  shows "\<exists>c s. Initialize_credential wide_lit (\<lambda>k. k) (\<lambda>_. True) CPUS_LOGON (replicate 6 zero_descriptor) rgFieldStatePairs
      (demo_user False) [] new_credential = (S_OK, c) \<and> reachable_tile wide_lit (\<lambda>k. k) c s \<and> tl_answers s = [result] \<and> tl_used s = [] \<and>
    cd_unlockResult (tl_cred s) = result \<and> \<not> cd_isLocalUser (tl_cred s)"
proof -
  obtain c where c: "Initialize_credential wide_lit (\<lambda>k. k) (\<lambda>_. True) CPUS_LOGON (replicate 6 zero_descriptor) rgFieldStatePairs
      (demo_user False) [] new_credential = (S_OK, c)" "cd_listener c = Some (new_listener CPUS_LOGON [])"
    "cd_unlockResult c = result_of_state US_UNKNOWN" "\<not> cd_isLocalUser c"
    using demo_initialized by blast
  let ?s0 = "\<lparr>tl_cred = c, tl_answers = [], tl_used = []\<rparr>"
  obtain auto c1 where 1: "SetSelected c = Some (auto, c1)" "thread_active c1" "\<not> cd_isLocalUser c1"
    using c(2-4) by (simp add: SetSelected_def Start_listener_def new_listener_def on_listener_def thread_active_def)
  let ?s1 = "?s0\<lparr>tl_cred := c1\<rparr>"
  have s1: "tile_step wide_lit (\<lambda>k. k) ?s0 ?s1" by (rule tile_step.select) (use 1 in simp)
  define c2 where "c2 = thread_ends wide_lit (\<lambda>k. k) True True (Answered result) c1"
  let ?s2 = "?s1\<lparr>tl_cred := c2, tl_answers := tl_answers ?s1 @ success_of (Answered result)\<rparr>"
  have s2: "tile_step wide_lit (\<lambda>k. k) ?s1 ?s2"
    unfolding c2_def using tile_step.thread_end [of ?s1] 1(2) by simp
  have u: "cd_unlockResult c2 = result" "\<not> cd_isLocalUser c2"
    using 1(3) by (simp_all add: c2_def thread_ends_core)
      (simp add: thread_ends_def on_listener_def call_ui_def SetUnlockData_def UpdateMessage_def Let_def)
  have "reachable_tile wide_lit (\<lambda>k. k) c ?s2" using s1 s2 by (meson rtranclp.rtrancl_refl rtranclp.rtrancl_into_rtrancl)
  with c(1) u assms show ?thesis by (intro exI [of _ c] exI [of _ ?s2]) (simp add: success_of_def)
qed

lemma tile_uses_success_once_witness:
  "\<exists>c s. reachable_tile wide_lit (\<lambda>k. k) c s \<and> tl_used s = [demo_success] \<and> mset (tl_used s) \<subseteq># mset (tl_answers s)"
proof -
  have ok: "re_state demo_success = US_SUCCESS" by (simp add: demo_success_def result_of_state_def)
  from demo_unlocked_tile [OF ok] obtain c s where c: "Initialize_credential wide_lit (\<lambda>k. k) (\<lambda>_. True) CPUS_LOGON (replicate 6 zero_descriptor)
      rgFieldStatePairs (demo_user False) [] new_credential = (S_OK, c)" "reachable_tile wide_lit (\<lambda>k. k) c s" "tl_used s = []"
    "cd_unlockResult (tl_cred s) = demo_success" "\<not> cd_isLocalUser (tl_cred s)" by blast
  obtain hr ser d where 3: "GetSerialization wide_lit demo_ser (tl_cred s) = Some (hr, ser, d)"
    using c(4,5) ok by (cases "serialize_other demo_ser (cd_qualifiedUserName (tl_cred s)) (w_str (wide_lit (re_password demo_success)))")
      (simp add: GetSerialization_def take_password_def IsUnlockSuccess_def)
  let ?t = "s\<lparr>tl_cred := d, tl_used := tl_used s @ (if IsUnlockSuccess (tl_cred s) then [cd_unlockResult (tl_cred s)] else [])\<rparr>"
  have "tile_step wide_lit (\<lambda>k. k) s ?t" by (rule tile_step.serialize) (use 3 in simp)
  with c(2) have r: "reachable_tile wide_lit (\<lambda>k. k) c ?t" by (rule rtranclp.rtrancl_into_rtrancl)
  from tile_uses_success_once [OF c(1) r] r c(3,4) ok show ?thesis
    by (intro exI [of _ c] exI [of _ ?t]) (simp add: IsUnlockSuccess_def)
qed


end
