(* ===== verification/CredentialProvider.thy ===== *)
theory CredentialProvider
  imports UnlockCredential
begin

text \<open>
  \<open>natives/win-pcbiounlock/src/CSampleProvider.cpp\<close>: the credential provider, which makes a tile for each user of the logon screen
  who has a paired device and tells the screen when one of them can be logged on.
\<close>

section \<open>State\<close>

text \<open>A user as the array of the logon screen yields it: \<open>None\<close> when \<open>GetAt\<close> fails.\<close>

type_synonym user_array = "cred_user option list"

record provider =
  pv_cpus :: scenario
  pv_recreate :: bool                     \<comment> \<open>\<open>_fRecreateEnumeratedCredentials\<close>\<close>
  pv_descriptors :: "FIELD_DESCRIPTOR list"
  pv_credentials :: "credential list"
  pv_users :: "(HRESULT \<times> user_array) option"  \<comment> \<open>answer of \<open>GetCount\<close> and the users\<close>
  pv_events :: bool                       \<comment> \<open>the callback of the provider is there\<close>
  pv_changed :: nat                       \<comment> \<open>calls of \<open>CredentialsChanged\<close>\<close>
  pv_log :: "string list"

definition plog :: "string \<Rightarrow> provider \<Rightarrow> provider" where
  "plog m p = p\<lparr>pv_log := pv_log p @ [m]\<rparr>"

definition AddFieldDescriptor :: "(string \<Rightarrow> wide) \<Rightarrow> bool \<Rightarrow> nat \<Rightarrow> field_type \<Rightarrow> string \<Rightarrow> string \<Rightarrow> provider \<Rightarrow> provider" where
  "AddFieldDescriptor tw alloc i type label guid p =
     p\<lparr>pv_descriptors := pv_descriptors p @ [\<lparr>fd_FieldID = of_nat i, fd_cpft = type,
       fd_pszLabel = snd (SHStrDupW alloc (w_str (tw label))), fd_guidFieldType = guid\<rparr>]\<rparr>"

definition empty_provider :: provider where
  "empty_provider = \<lparr>pv_cpus = CPUS_INVALID, pv_recreate = True, pv_descriptors = [], pv_credentials = [], pv_users = None,
     pv_events = False, pv_changed = 0, pv_log = []\<rparr>"

text \<open>The constructor.\<close>

definition new_provider :: "(string \<Rightarrow> wide) \<Rightarrow> (string \<Rightarrow> string) \<Rightarrow> (nat \<Rightarrow> bool) \<Rightarrow> provider" where
  "new_provider tw tr alloc =
     (let add = AddFieldDescriptor tw in
      add (alloc 5) SFI_RETRY_BUTTON CPFT_COMMAND_LINK (tr ''retry'') ''CPFG_STYLE_LINK_AS_BUTTON'' (
      add (alloc 4) SFI_SUBMIT_BUTTON CPFT_SUBMIT_BUTTON ''Submit'' [] (
      add (alloc 3) SFI_PASSWORD CPFT_PASSWORD_TEXT (tr ''password'') [] (
      add (alloc 2) SFI_MESSAGE CPFT_SMALL_TEXT ''Message'' [] (
      add (alloc 1) SFI_USERNAME CPFT_SMALL_TEXT ''Username'' [] (
      add (alloc 0) SFI_TILEIMAGE CPFT_TILE_IMAGE ''Image'' ''CPFG_CREDENTIAL_PROVIDER_LOGO'' empty_provider))))))"

section \<open>Operations\<close>

definition SetUsageScenario :: "scenario \<Rightarrow> provider \<Rightarrow> HRESULT \<times> provider" where
  "SetUsageScenario cpus p =
     (if cpus = CPUS_LOGON \<or> cpus = CPUS_UNLOCK_WORKSTATION \<or> cpus = CPUS_CREDUI
      then (S_OK, p\<lparr>pv_cpus := cpus, pv_recreate := True\<rparr>)
      else if cpus = CPUS_CHANGE_PASSWORD then (E_NOTIMPL, p)
      else (E_INVALIDARG, p))"

definition SetSerialization :: HRESULT where "SetSerialization = E_NOTIMPL"

definition Advise_provider :: "provider \<Rightarrow> provider" where
  "Advise_provider p = p\<lparr>pv_events := True\<rparr>"

definition UnAdvise_provider :: "provider \<Rightarrow> provider" where
  "UnAdvise_provider p = p\<lparr>pv_events := False\<rparr>"

definition GetFieldDescriptorCount :: nat where
  "GetFieldDescriptorCount = SFI_NUM_FIELDS"

definition GetFieldDescriptorAt :: "bool \<Rightarrow> bool \<Rightarrow> nat \<Rightarrow> provider \<Rightarrow> HRESULT \<times> FIELD_DESCRIPTOR option" where
  "GetFieldDescriptorAt allocStruct allocLabel i p =
     (if i < length (pv_descriptors p) then FieldDescriptorCoAllocCopy allocStruct allocLabel (pv_descriptors p ! i)
      else (E_INVALIDARG, None))"

definition SetUserArray :: "HRESULT \<times> user_array \<Rightarrow> provider \<Rightarrow> provider" where
  "SetUserArray users p = p\<lparr>pv_users := Some users\<rparr>"

text \<open>Releasing the credentials destroys them (\<open>Destroy_credential\<close>); the provider keeps none.\<close>

definition ReleaseEnumeratedCredentials :: "provider \<Rightarrow> provider" where
  "ReleaseEnumeratedCredentials p = p\<lparr>pv_credentials := []\<rparr>"

text \<open>
  What enumerating draws on: the conversions, the devices of a user, and for the credential of a user whether the object and
  each of its parts can be allocated.
\<close>

record enum_env =
  ee_tw :: "string \<Rightarrow> wide"
  ee_tr :: "string \<Rightarrow> string"
  ee_fromWide :: "wide \<Rightarrow> string"
  ee_devices :: "string \<Rightarrow> PairedDevice list"  \<comment> \<open>\<open>GetDevicesForUser\<close>\<close>
  ee_new :: "nat \<Rightarrow> bool"
  ee_alloc :: "nat \<Rightarrow> nat \<Rightarrow> bool"

definition add_credential :: "enum_env \<Rightarrow> nat \<Rightarrow> cred_user \<Rightarrow> provider \<Rightarrow> HRESULT \<times> provider" where
  "add_credential e i user p =
     (let userDomain = snd (cu_qualified user) in
      if ee_devices e (ee_fromWide e userDomain) = [] then (S_OK, p)
      else if \<not> ee_new e i then (E_OUTOFMEMORY, plog ''Failed to allocate credential.'' p)
      else let (hr, cred) = Initialize_credential (ee_tw e) (ee_tr e) (ee_alloc e i) (pv_cpus p) (pv_descriptors p) rgFieldStatePairs
             user userDomain new_credential
      in if \<not> SUCCEEDED hr then (hr, plog ''Failed to initialize credential.'' p)
         else (hr, p\<lparr>pv_credentials := pv_credentials p @ [cred]\<rparr>))"

definition enum_user :: "enum_env \<Rightarrow> nat \<Rightarrow> cred_user option \<Rightarrow> provider \<Rightarrow> HRESULT \<times> provider" where
  "enum_user e i user p =
     (case user of
        None \<Rightarrow> (E_OUTOFMEMORY, plog ''Failed to get user in credProviderUserArray.'' p)
      | Some u \<Rightarrow>
          if SUCCEEDED (fst (cu_qualified u)) then add_credential e i u p
          else (fst (cu_qualified u), plog ''Failed to get QualifiedUserName.'' p))"

fun enum_users :: "enum_env \<Rightarrow> nat \<Rightarrow> user_array \<Rightarrow> HRESULT \<times> provider \<Rightarrow> HRESULT \<times> provider" where
  "enum_users e i [] r = r"
| "enum_users e i (user # users) (hr, p) = enum_users e (Suc i) users (enum_user e i user p)"

definition EnumerateCredentials :: "enum_env \<Rightarrow> provider \<Rightarrow> HRESULT \<times> provider" where
  "EnumerateCredentials e p =
     (case pv_users p of
        None \<Rightarrow> (E_ABORT, plog ''No users found (array=nullptr).'' p)
      | Some (hr, users) \<Rightarrow>
          if SUCCEEDED hr \<and> users \<noteq> [] then
            (let (hr, p) = enum_users e 0 users (hr, p) in
             if pv_credentials p = [] then (E_ABORT, plog ''Could not find any paired user.'' p) else (hr, p))
          else (E_ABORT, plog ''No users found (count=0).'' p))"

definition CreateEnumeratedCredentials :: "enum_env \<Rightarrow> provider \<Rightarrow> provider" where
  "CreateEnumeratedCredentials e p =
     (if pv_cpus p = CPUS_LOGON \<or> pv_cpus p = CPUS_UNLOCK_WORKSTATION \<or> pv_cpus p = CPUS_CREDUI
      then snd (EnumerateCredentials e p) else p)"

text \<open>The loop over the credentials: \<open>None\<close> is \<open>CREDENTIAL_PROVIDER_NO_DEFAULT\<close>.\<close>

fun pick_default :: "bool \<Rightarrow> nat \<Rightarrow> credential list \<Rightarrow> nat option \<Rightarrow> nat option \<times> bool" where
  "pick_default force idx [] d = (d, False)"
| "pick_default force idx (c # cs) d =
     (if IsUnlockSuccess c then (Some idx, True)
      else pick_default force (Suc idx) cs (if force \<and> d = None then Some idx else d))"

definition GetCredentialCount :: "enum_env \<Rightarrow> bool \<Rightarrow> provider \<Rightarrow> (nat \<times> nat option \<times> bool) \<times> provider" where
  "GetCredentialCount e forceDefaultProv p =
     (let recreated = pv_recreate p;
          p = (if recreated then CreateEnumeratedCredentials e (ReleaseEnumeratedCredentials (p\<lparr>pv_recreate := False\<rparr>)) else p);
          (dflt, autoLogon) = pick_default (recreated \<and> forceDefaultProv) 0 (pv_credentials p) None
      in ((length (pv_credentials p), dflt, autoLogon), p))"

definition GetCredentialAt :: "nat \<Rightarrow> provider \<Rightarrow> HRESULT \<times> credential option" where
  "GetCredentialAt i p = (if i < length (pv_credentials p) then (S_OK, Some (pv_credentials p ! i)) else (E_INVALIDARG, None))"

definition UpdateCredsStatus :: "provider \<Rightarrow> provider" where
  "UpdateCredsStatus p = (if pv_events p then p\<lparr>pv_changed := Suc (pv_changed p)\<rparr> else plog ''Failed to update credential provider.'' p)"

section \<open>Which tiles there are\<close>

text \<open>The specification: the users who have a name and a paired device.\<close>

definition has_tile :: "enum_env \<Rightarrow> cred_user option \<Rightarrow> bool" where
  "has_tile e user \<longleftrightarrow> (\<exists>u. user = Some u \<and> SUCCEEDED (fst (cu_qualified u)) \<and> ee_devices e (ee_fromWide e (snd (cu_qualified u))) \<noteq> [])"

text \<open>Nothing that \<open>Initialize\<close> needs of the system fails.\<close>

definition init_works :: "enum_env \<Rightarrow> cred_user option \<Rightarrow> bool" where
  "init_works e user \<longleftrightarrow> (\<forall>i. ee_new e i) \<and> (\<forall>i j. ee_alloc e i j) \<and>
     (\<forall>u. user = Some u \<longrightarrow> SUCCEEDED (fst (cu_sid u)) \<and> SUCCEEDED (fst (cu_userName u)))"

lemma foldl_hr_succeeded: "SUCCEEDED (fst (foldl hr_then r fs)) \<Longrightarrow> SUCCEEDED (fst r)"
proof (induction fs arbitrary: r)
  case (Cons f fs)
  then have "SUCCEEDED (fst (hr_then r f))" by simp
  then show ?case by (simp add: hr_then_def split: if_splits)
qed simp

lemma foldl_hr_keeps:
  "(\<And>f c. f \<in> set fs \<Longrightarrow> g (snd (f c)) = g c) \<Longrightarrow> g (snd (foldl hr_then r fs)) = g (snd r)"
proof (induction fs arbitrary: r)
  case (Cons f fs)
  have "g (snd (hr_then r f)) = g (snd r)" using Cons.prems by (simp add: hr_then_def)
  with Cons show ?case by simp
qed simp

lemma foldl_hr_works:
  "(\<And>f c. f \<in> set fs \<Longrightarrow> SUCCEEDED (fst (f c))) \<Longrightarrow> SUCCEEDED (fst r) \<Longrightarrow> SUCCEEDED (fst (foldl hr_then r fs))"
proof (induction fs arbitrary: r)
  case (Cons f fs)
  have "SUCCEEDED (fst (hr_then r f))" using Cons.prems by (simp add: hr_then_def)
  with Cons show ?case by simp
qed simp

lemma Initialize_name:
  assumes "Initialize_credential tw tr alloc cpus ds ps user userDomain c = (hr, d)" and "SUCCEEDED hr"
  shows "cd_qualifiedUserName d = snd (cu_qualified user)"
proof -
  let ?q = "\<lambda>c. (fst (cu_qualified user), c\<lparr>cd_qualifiedUserName := snd (cu_qualified user)\<rparr>)"
  obtain r0 pre post where split: "Initialize_credential tw tr alloc cpus ds ps user userDomain c = foldl hr_then r0 (pre @ [?q] @ post)"
    and post: "\<And>f c. f \<in> set post \<Longrightarrow> cd_qualifiedUserName (snd (f c)) = cd_qualifiedUserName c"
  proof -
    show thesis
      by (rule that [OF _ _, of _ "map (copy_field alloc ds ps) [0..<SFI_NUM_FIELDS]"
            "[\<lambda>c. (fst (cu_sid user), c\<lparr>cd_userSid := snd (cu_sid user)\<rparr>),
              \<lambda>c. (fst (cu_userName user), c\<lparr>cd_strings := (cd_strings c)[SFI_USERNAME := snd (cu_userName user)]\<rparr>),
              dup_field (alloc 6) SFI_MESSAGE (w_str (tw (tr ''initializing''))), dup_field (alloc 7) SFI_PASSWORD [],
              dup_field (alloc 8) SFI_SUBMIT_BUTTON (wide_lit ''Submit''), dup_field (alloc 9) SFI_RETRY_BUTTON (w_str (tw (tr ''retry''))),
              \<lambda>c. if alloc 10 then (S_OK, c\<lparr>cd_listener := Some (new_listener cpus userDomain)\<rparr>) else (E_OUTOFMEMORY, c)]"])
        (auto simp: Initialize_credential_def dup_field_def split: prod.split)
  qed
  let ?r1 = "foldl hr_then r0 pre"
  have run: "foldl hr_then (hr_then ?r1 ?q) post = (hr, d)" using assms(1) unfolding split by simp
  have "SUCCEEDED (fst (hr_then ?r1 ?q))" by (rule foldl_hr_succeeded [of _ post]) (simp add: run assms(2))
  then have "hr_then ?r1 ?q = ?q (snd ?r1)" by (simp add: hr_then_def split: if_splits)
  moreover have "cd_qualifiedUserName d = cd_qualifiedUserName (snd (hr_then ?r1 ?q))"
    using foldl_hr_keeps [of post cd_qualifiedUserName "hr_then ?r1 ?q"] post run by simp
  ultimately show ?thesis by simp
qed

lemma Initialize_works:
  assumes "\<forall>j. alloc j" and "SUCCEEDED (fst (cu_qualified user))" and "SUCCEEDED (fst (cu_sid user))" and "SUCCEEDED (fst (cu_userName user))"
  shows "SUCCEEDED (fst (Initialize_credential tw tr alloc cpus ds ps user userDomain c))"
  unfolding Initialize_credential_def
  by (rule foldl_hr_works)
     (use assms in \<open>auto simp: copy_field_def FieldDescriptorCopy_ok dup_field_def SHStrDupW_def Let_def split: prod.splits\<close>)

text \<open>What one user adds to the credentials.\<close>

lemma enum_user_adds:
  assumes "enum_user e i user p = (hr, p')"
  shows "\<exists>cs. pv_credentials p' = pv_credentials p @ cs \<and> (\<forall>c \<in> set cs. fresh_credential c) \<and>
    subseq (map cd_qualifiedUserName cs) (if has_tile e user then [snd (cu_qualified (the user))] else []) \<and>
    (init_works e user \<longrightarrow> map cd_qualifiedUserName cs = (if has_tile e user then [snd (cu_qualified (the user))] else []))"
proof (cases "has_tile e user")
  case False
  then have "pv_credentials p' = pv_credentials p"
    using assms by (auto simp: has_tile_def enum_user_def add_credential_def plog_def Let_def split: option.splits if_splits)
  with False show ?thesis by simp
next
  case True
  then obtain u where u: "user = Some u" "SUCCEEDED (fst (cu_qualified u))" "ee_devices e (ee_fromWide e (snd (cu_qualified u))) \<noteq> []"
    by (auto simp: has_tile_def)
  let ?init = "Initialize_credential (ee_tw e) (ee_tr e) (ee_alloc e i) (pv_cpus p) (pv_descriptors p) rgFieldStatePairs
    u (snd (cu_qualified u)) new_credential"
  obtain h c where c: "?init = (h, c)" by (cases ?init)
  have run: "(hr, p') = (if \<not> ee_new e i then (E_OUTOFMEMORY, plog ''Failed to allocate credential.'' p)
      else if \<not> SUCCEEDED h then (h, plog ''Failed to initialize credential.'' p) else (h, p\<lparr>pv_credentials := pv_credentials p @ [c]\<rparr>))"
    using assms u c by (auto simp: enum_user_def add_credential_def Let_def split: if_splits)
  have works: "init_works e user \<Longrightarrow> ee_new e i \<and> SUCCEEDED h"
    using Initialize_works [of "ee_alloc e i" u "ee_tw e" "ee_tr e" "pv_cpus p" "pv_descriptors p" rgFieldStatePairs "snd (cu_qualified u)" new_credential]
      u c by (auto simp: init_works_def)
  show ?thesis
  proof (cases "ee_new e i \<and> SUCCEEDED h")
    case True
    then show ?thesis using run u(1) \<open>has_tile e user\<close> Initialize_name [OF c] Initialize_fresh [OF c]
      by (intro exI [of _ "[c]"]) simp
  next
    case False
    then have "pv_credentials p' = pv_credentials p" using run by (auto simp: plog_def split: if_splits)
    moreover have "\<not> init_works e user" using works False by blast
    ultimately show ?thesis by simp
  qed
qed

definition tile_names :: "enum_env \<Rightarrow> user_array \<Rightarrow> wide list" where
  "tile_names e users = map (\<lambda>user. snd (cu_qualified (the user))) (filter (has_tile e) users)"

lemma enum_users_adds:
  assumes "enum_users e i users (h, p) = (hr, p')"
  shows "\<exists>cs. pv_credentials p' = pv_credentials p @ cs \<and> (\<forall>c \<in> set cs. fresh_credential c) \<and>
    subseq (map cd_qualifiedUserName cs) (tile_names e users) \<and>
    ((\<forall>user \<in> set users. init_works e user) \<longrightarrow> map cd_qualifiedUserName cs = tile_names e users)"
  using assms
proof (induction users arbitrary: i h p)
  case Nil
  then show ?case by (simp add: tile_names_def)
next
  case (Cons user users)
  obtain h1 p1 where 1: "enum_user e i user p = (h1, p1)" by (cases "enum_user e i user p")
  have single: "tile_names e [user] = (if has_tile e user then [snd (cu_qualified (the user))] else [])"
    by (simp add: tile_names_def)
  obtain cs where cs: "pv_credentials p1 = pv_credentials p @ cs" "\<forall>c \<in> set cs. fresh_credential c"
    "subseq (map cd_qualifiedUserName cs) (tile_names e [user])"
    "init_works e user \<longrightarrow> map cd_qualifiedUserName cs = tile_names e [user]"
    using enum_user_adds [OF 1] unfolding single by blast
  have "enum_users e (Suc i) users (h1, p1) = (hr, p')" using Cons.prems 1 by simp
  from Cons.IH [OF this] obtain ds where ds: "pv_credentials p' = pv_credentials p1 @ ds" "\<forall>c \<in> set ds. fresh_credential c"
    "subseq (map cd_qualifiedUserName ds) (tile_names e users)"
    "(\<forall>user \<in> set users. init_works e user) \<longrightarrow> map cd_qualifiedUserName ds = tile_names e users" by blast
  have "tile_names e (user # users) = tile_names e [user] @ tile_names e users" by (simp add: tile_names_def)
  with cs ds show ?case by (intro exI [of _ "cs @ ds"]) (auto intro: list_emb_append_mono)
qed

text \<open>
  The logon screen gets a tile for a user only if the user's name can be read and a device is paired with it, in the order of the users,
  and, when nothing fails, for each such user; a new tile is not unlocked and its listener does not run.
\<close>

theorem tiles_of_paired_users:
  assumes "pv_users p = Some (S_OK, users)" and "users \<noteq> []" and "pv_credentials p = []"
    and "EnumerateCredentials e p = (hr, p')"
  shows "subseq (map cd_qualifiedUserName (pv_credentials p')) (tile_names e users) \<and>
    ((\<forall>user \<in> set users. init_works e user) \<longrightarrow> map cd_qualifiedUserName (pv_credentials p') = tile_names e users) \<and>
    (\<forall>c \<in> set (pv_credentials p'). fresh_credential c)"
proof -
  obtain h q where q: "enum_users e 0 users (S_OK, p) = (h, q)" by (cases "enum_users e 0 users (S_OK, p)")
  then have "pv_credentials p' = pv_credentials q"
    using assms by (auto simp: EnumerateCredentials_def plog_def Let_def split: if_splits)
  with enum_users_adds [OF q] assms(3) show ?thesis by auto
qed

section \<open>Which tile is the default\<close>

lemma pick_default_result:
  "pick_default force n cs d = (r, auto) \<Longrightarrow>
   (auto \<longleftrightarrow> (\<exists>c \<in> set cs. IsUnlockSuccess c)) \<and>
   (auto \<longrightarrow> (\<exists>k < length cs. r = Some (n + k) \<and> IsUnlockSuccess (cs ! k) \<and> (\<forall>j < k. \<not> IsUnlockSuccess (cs ! j)))) \<and>
   (\<not> auto \<longrightarrow> r = (if d \<noteq> None then d else if force \<and> cs \<noteq> [] then Some n else None))"
proof (induction force n cs d arbitrary: r auto rule: pick_default.induct)
  case (2 force idx c cs d)
  show ?case
  proof (cases "IsUnlockSuccess c")
    case True
    with 2 show ?thesis by auto
  next
    case False
    with "2.prems" have "pick_default force (Suc idx) cs (if force \<and> d = None then Some idx else d) = (r, auto)" by simp
    note ih = "2.IH" [OF False this]
    show ?thesis
    proof (cases auto)
      case True
      with ih obtain k where k: "k < length cs" "r = Some (Suc idx + k)" "IsUnlockSuccess (cs ! k)" "\<forall>j < k. \<not> IsUnlockSuccess (cs ! j)" by blast
      then have "\<forall>j < Suc k. \<not> IsUnlockSuccess ((c # cs) ! j)" using False by (simp add: nth_Cons split: nat.split)
      with k True ih show ?thesis by (auto intro!: exI [of _ "Suc k"])
    next
      case False
      with ih \<open>\<not> IsUnlockSuccess c\<close> show ?thesis by (auto split: if_splits)
    qed
  qed
qed auto

lemma GetCredentialCount_run:
  assumes "GetCredentialCount e force p = ((n, d, auto), p')"
  shows "n = length (pv_credentials p') \<and> pick_default (pv_recreate p \<and> force) 0 (pv_credentials p') None = (d, auto)"
  using assms by (auto simp: GetCredentialCount_def Let_def split: prod.splits)

text \<open>
  C28: The provider asks for a logon without further input exactly when a tile has been unlocked by a phone, and then the default is the first
  such tile; otherwise, the first tile is the default right after the tiles were made, if the setting asks for it, and no tile is
  the default later on.
\<close>

theorem auto_logon_iff_unlocked:
  assumes "GetCredentialCount e force p = ((n, d, auto), p')"
  shows "n = length (pv_credentials p') \<and> (auto \<longleftrightarrow> (\<exists>c \<in> set (pv_credentials p'). IsUnlockSuccess c)) \<and>
    (auto \<longrightarrow> (\<exists>k < n. d = Some k \<and> IsUnlockSuccess (pv_credentials p' ! k) \<and> (\<forall>j < k. \<not> IsUnlockSuccess (pv_credentials p' ! j)))) \<and>
    (\<not> auto \<longrightarrow> d = (if pv_recreate p \<and> force \<and> n \<noteq> 0 then Some 0 else None))"
  using pick_default_result [OF conjunct2 [OF GetCredentialCount_run [OF assms]]] conjunct1 [OF GetCredentialCount_run [OF assms]]
  by auto

text \<open>Once the success of a tile is used up, the next count asks for no logon and has no default.\<close>

lemma used_up_no_auto_logon:
  assumes "\<forall>c \<in> set (pv_credentials p). \<not> IsUnlockSuccess c" and "\<not> pv_recreate p"
  shows "GetCredentialCount e force p = ((length (pv_credentials p), None, False), p)"
proof -
  have "pick_default False n cs None = (None, False)" if "\<forall>c \<in> set cs. \<not> IsUnlockSuccess c" for n cs
    using that by (induction cs arbitrary: n) simp_all
  then show ?thesis using assms by (simp add: GetCredentialCount_def Let_def)
qed

section \<open>Witnesses\<close>

definition demo_enum :: enum_env where
  "demo_enum = \<lparr>ee_tw = wide_lit, ee_tr = (\<lambda>k. k), ee_fromWide = (\<lambda>_. ''PC''), ee_devices = (\<lambda>_. [empty_device]),
     ee_new = (\<lambda>_. True), ee_alloc = (\<lambda>_ _. True)\<rparr>"

lemma tiles_of_paired_users_witness:
  "\<exists>hr p'. EnumerateCredentials demo_enum (SetUserArray (S_OK, [Some (demo_user True), None]) empty_provider) = (hr, p') \<and>
     subseq (map cd_qualifiedUserName (pv_credentials p')) [snd (cu_qualified (demo_user True))]"
proof -
  let ?p = "SetUserArray (S_OK, [Some (demo_user True), None]) empty_provider"
  obtain hr p' where run: "EnumerateCredentials demo_enum ?p = (hr, p')" by (cases "EnumerateCredentials demo_enum ?p")
  have a: "pv_users ?p = Some (S_OK, [Some (demo_user True), None])" "[Some (demo_user True), None] \<noteq> []" "pv_credentials ?p = []"
    by (simp_all add: SetUserArray_def empty_provider_def)
  have "tile_names demo_enum [Some (demo_user True), None] = [snd (cu_qualified (demo_user True))]"
    by (simp add: tile_names_def has_tile_def demo_enum_def demo_user_def)
  with tiles_of_paired_users [OF a run] run show ?thesis by auto
qed

lemma auto_logon_iff_unlocked_witness:
  "\<exists>p'. GetCredentialCount demo_enum True (empty_provider\<lparr>pv_recreate := False,
      pv_credentials := [new_credential, new_credential\<lparr>cd_unlockResult := demo_success\<rparr>]\<rparr>) = ((2, Some 1, True), p')"
proof -
  let ?p = "empty_provider\<lparr>pv_recreate := False, pv_credentials := [new_credential, new_credential\<lparr>cd_unlockResult := demo_success\<rparr>]\<rparr>"
  obtain n d auto p' where run: "GetCredentialCount demo_enum True ?p = ((n, d, auto), p')"
    by (cases "GetCredentialCount demo_enum True ?p") auto
  have p': "pv_credentials p' = [new_credential, new_credential\<lparr>cd_unlockResult := demo_success\<rparr>]"
    using run by (auto simp: GetCredentialCount_def Let_def split: prod.splits)
  have s: "\<not> IsUnlockSuccess new_credential" "IsUnlockSuccess (new_credential\<lparr>cd_unlockResult := demo_success\<rparr>)"
    by (simp_all add: IsUnlockSuccess_def new_credential_def result_of_state_def demo_success_def)
  from auto_logon_iff_unlocked [OF run] have "n = 2" "auto" "\<exists>k < n. d = Some k \<and> IsUnlockSuccess (pv_credentials p' ! k)"
    unfolding p' using s by auto
  then have "d = Some 1" using s(1) unfolding p' by (auto simp: less_Suc_eq numeral_2_eq_2)
  with run \<open>n = 2\<close> \<open>auto\<close> show ?thesis by (intro exI [of _ p']) simp
qed

end
