(* ===== verification/UnlockSystem.thy ===== *)
theory UnlockSystem
  imports UnlockHandler CloudUnlockClient
begin

text \<open>
  A whole unlock attempt: the connections that \<open>UnlockHandler::GetResult\<close> opens for the devices of a user, the thread of each
  connection with the phone or the relay, the thread of the handler that polls it, and the result that \<open>GetResult\<close> returns
  under some order of all of them. What the attempt lets through is data that a phone sealed.
\<close>

section \<open>What a poll can see\<close>

text \<open>
  While \<open>PerformAuthFlow\<close> reads packets, other threads see the connection as it is after each of them, and not only as it
  is at the end.
\<close>

inductive auth_sees :: "'j libs \<Rightarrow> (nat \<Rightarrow> crypt_env) \<Rightarrow> (string \<Rightarrow> PairedDevice option) \<Rightarrow> int \<Rightarrow> nat \<Rightarrow> unlock_conn \<Rightarrow> sock \<Rightarrow>
    unlock_conn \<Rightarrow> bool" for lib envs lookup k where
  now: "auth_sees lib envs lookup k n c s c"
| later: "ReadPacket (lb_platform lib) s = Some (p, s1) \<Longrightarrow> pk_error p = PE_NONE \<Longrightarrow>
    OnPacketReceived lib (envs n) lookup k p c s1 = Some (c2, s2) \<Longrightarrow> auth_sees lib envs lookup k (Suc n) c2 s2 d \<Longrightarrow>
    auth_sees lib envs lookup k n c s d"

text \<open>A client, which sends its request first.\<close>

definition flow_succeeds :: "'j libs \<Rightarrow> (nat \<Rightarrow> crypt_env) \<Rightarrow> (string \<Rightarrow> PairedDevice option) \<Rightarrow> int \<Rightarrow> unlock_conn \<Rightarrow> sock \<Rightarrow> bool" where
  "flow_succeeds lib envs lookup k c s \<longleftrightarrow>
     (\<exists>c0 s0 d. SendUnlockRequest lib (envs 0) (set_conn_state k CS_HAS_DEVICE_ID c) s = Some (True, c0, s0) \<and>
        auth_sees lib envs lookup k 1 (set_conn_state k CS_HAS_UNLOCK_REQUEST c0) s0 d \<and> uc_UnlockState d = US_SUCCESS)"

section \<open>One connection\<close>

text \<open>All that the two threads of one connection meet; what another kind of connection would meet is not used.\<close>

record conn_world =
  cw_wsa :: bool
  cw_envs :: "nat \<Rightarrow> crypt_env"
  cw_request :: crypt_env                        \<comment> \<open>for the request to the relay\<close>
  cw_retries :: u32
  cw_target :: int                               \<comment> \<open>\<open>inet_pton\<close>, or the channel of the service\<close>
  cw_attempts :: "attempt list"
  cw_sock :: sock
  cw_post :: "string \<Rightarrow> string \<Rightarrow> int \<times> string"
  cw_get :: "nat \<Rightarrow> string \<Rightarrow> int \<times> string"
  cw_ticks :: "(bool \<times> bool) list"
  cw_startTime :: int
  cw_turns :: "turn list"
  cw_dec :: crypt_env                            \<comment> \<open>for the stored password\<close>

definition conn_Start :: "platform \<Rightarrow> conn_world \<Rightarrow> handler_conn \<Rightarrow> (bool \<times> unlock_client) option" where
  "conn_Start pf w h = (case hc_kind h of
     TcpClient ip port \<Rightarrow> client_Start pf (cw_wsa w) (hc_client h)
   | BtClient address \<Rightarrow> BT_Start pf (cw_wsa w) (hc_client h)
   | CloudClient \<Rightarrow> Cloud_Start (hc_client h))"

definition conn_Stop :: "handler_conn \<Rightarrow> unlock_client \<Rightarrow> unlock_client" where
  "conn_Stop h c = (case hc_kind h of
     TcpClient ip port \<Rightarrow> client_Stop c | BtClient address \<Rightarrow> BT_Stop c | CloudClient \<Rightarrow> Cloud_Stop c)"

definition conn_thread :: "'j libs \<Rightarrow> (string \<Rightarrow> PairedDevice option) \<Rightarrow> conn_world \<Rightarrow> handler_conn \<Rightarrow> unlock_client \<Rightarrow>
    unlock_client option" where
  "conn_thread lib lookup w h c = (case hc_kind h of
     TcpClient ip port \<Rightarrow>
       map_option fst (TCP_ConnectThread lib (cw_envs w) lookup (cw_retries w) (cw_target w) (cw_attempts w) c (cw_sock w))
   | BtClient address \<Rightarrow>
       map_option fst (BT_ConnectThread lib (cw_envs w) lookup (cw_retries w) (cw_target w) (cw_attempts w) c (cw_sock w))
   | CloudClient \<Rightarrow> RelayThread lib (cw_request w) (cw_envs w) (cw_post w) (cw_get w) (cw_ticks w) c)"

text \<open>
  The thread of \<open>GetResult\<close> for a connection, with the connection's own thread, which has ended when \<open>Stop\<close> returns.
\<close>

definition handler_thread :: "'j libs \<Rightarrow> (string \<Rightarrow> string) \<Rightarrow> (string \<Rightarrow> PairedDevice option) \<Rightarrow> bool \<Rightarrow> conn_world \<Rightarrow> handler_conn \<Rightarrow>
    (UnlockResult \<times> outputs) option" where
  "handler_thread lib tr lookup hasBc w h = do {
     (started, c) \<leftarrow> conn_Start (lb_platform lib) w h;
     c \<leftarrow> (if started then map_option (conn_Stop h) (conn_thread lib lookup w h c) else Some c);
     RunServer lib (cw_dec w) tr False hasBc started (cw_startTime w) (cw_turns w) (ck_conn c) }"

text \<open>Some time during its thread the connection is in the state \<open>SUCCESS\<close>. The relay's thread sets the state once.\<close>

definition thread_succeeds :: "'j libs \<Rightarrow> (string \<Rightarrow> PairedDevice option) \<Rightarrow> conn_world \<Rightarrow> handler_conn \<Rightarrow> unlock_client \<Rightarrow> bool" where
  "thread_succeeds lib lookup w h c = (case hc_kind h of
     TcpClient ip port \<Rightarrow> cw_target w > 0 \<and> (\<exists>d. connect_loop True (cw_retries w) 0 (cw_attempts w) c = Some (CX_Connected, d) \<and>
       flow_succeeds lib (cw_envs w) lookup (ck_socket d) (ck_conn d) (cw_sock w))
   | BtClient address \<Rightarrow> \<not> (lb_platform lib = Linux \<and> cw_target w = - 1) \<and> (\<exists>d. connect_loop False (cw_retries w) 0 (cw_attempts w) c = Some (CX_Connected, d) \<and>
       flow_succeeds lib (cw_envs w) lookup (ck_socket d) (ck_conn d) (cw_sock w))
   | CloudClient \<Rightarrow> \<exists>d. conn_thread lib lookup w h c = Some d \<and> uc_UnlockState (ck_conn d) = US_SUCCESS)"

text \<open>Polls read the connection: who reads \<open>SUCCESS\<close> reads it from a connection that is in that state.\<close>

definition polls_true :: "'j libs \<Rightarrow> (string \<Rightarrow> PairedDevice option) \<Rightarrow> conn_world \<Rightarrow> handler_conn \<Rightarrow> bool" where
  "polls_true lib lookup w h \<longleftrightarrow> (\<forall>t \<in> set (cw_turns w). tn_poll t = US_SUCCESS \<longrightarrow>
     (\<exists>c. conn_Start (lb_platform lib) w h = Some (True, c) \<and> thread_succeeds lib lookup w h c))"

section \<open>The attempt\<close>

text \<open>
  \<open>GetResult\<close> returns \<open>r\<close>: at once, or after the threads of the connections, in some order of all accesses to the
  shared state. \<open>tokens\<close> are the random strings drawn, \<open>ws i\<close> what the \<open>i\<close>-th connection meets.
\<close>

definition attempt_returns :: "'j libs \<Rightarrow> (string \<Rightarrow> string) \<Rightarrow> (string \<Rightarrow> string \<Rightarrow> string) \<Rightarrow> (string \<Rightarrow> PairedDevice option) \<Rightarrow> u16 \<Rightarrow>
    string list \<Rightarrow> (nat \<Rightarrow> conn_world) \<Rightarrow> PairedDevice list \<Rightarrow> string \<Rightarrow> string \<Rightarrow> UnlockResult \<Rightarrow> bool" where
  "attempt_returns lib tr trf lookup port tokens ws devices user prog r \<longleftrightarrow> length tokens = length devices \<and>
     (case fst (GetResult_start tr trf port user prog tokens devices) of
        Inl q \<Rightarrow> r = q
      | Inr (bc, conns) \<Rightarrow> \<exists>s. attempt_reaches (length conns) s \<and> as_main s = Returned r \<and>
          (\<forall>i < length conns. polls_true lib lookup (ws i) (conns ! i) \<and>
             (\<forall>q. got (as_pc s i) = Some q \<longrightarrow>
                (\<exists>out. handler_thread lib tr lookup (bc \<noteq> None) (ws i) (conns ! i) = Some (q, out)))))"

section \<open>Data of a phone\<close>

definition phone_data :: "'j libs \<Rightarrow> crypt_env \<Rightarrow> PairedDevice \<Rightarrow> string \<Rightarrow> PacketUnlockResponseData \<Rightarrow> bool" where
  "phone_data lib e device respStr d \<longleftrightarrow>
     (\<exists>r plain. UnlockResponse_FromJson (lb_json lib) respStr = Some r \<and> ur_error r = [] \<and>
        unseal (lb_crypt lib) (c_str (pd_encryptionKey device))
          (FromHexString (cl_unhex (lb_crypt lib)) (ur_encData r)) = Some plain \<and>
        8 < length plain \<and> in_window (ce_now e) (sint (un_be64 (take 8 plain))) \<and>
        UnlockResponseData_FromJson (lb_json lib) (string_of (drop 8 plain)) = Some d)"

lemma good_response_data:
  "good_response lib e device token respStr d \<longleftrightarrow> phone_data lib e device respStr d \<and> rd_unlockToken d = token"
  by (auto simp: good_response_def phone_data_def)

text \<open>
  What a connection is told, with the number under which its thread handles it: the response packets read from its socket, or
  the payloads with which the relay answers the polls for the request of this connection.
\<close>

definition hears :: "'j libs \<Rightarrow> conn_world \<Rightarrow> handler_conn \<Rightarrow> nat \<Rightarrow> string \<Rightarrow> bool" where
  "hears lib w h n t = (case hc_kind h of
     CloudClient \<Rightarrow> \<exists>c path. conn_Start (lb_platform lib) w h = Some (True, c) \<and>
       relay_asked lib (cw_request w) (cw_post w) (ck_conn c) path \<and> relay_payload lib (cw_get w) path n t
   | _ \<Rightarrow> (n, t) \<in> set (responses (lb_platform lib) (sk_rx (cw_sock w))))"

definition conn_of :: "handler_conn \<Rightarrow> unlock_conn" where
  "conn_of h = ck_conn (hc_client h)"

text \<open>
  The phone of \<open>device\<close> unlocked: one of the connections belongs to the device; it heard a response that is good for the
  device and the token of this connection, and it heard the key of the stored password \<open>pw\<close>.
\<close>

definition phone_unlocked :: "'j libs \<Rightarrow> (nat \<Rightarrow> conn_world) \<Rightarrow> string list \<Rightarrow> handler_conn list \<Rightarrow> PairedDevice \<Rightarrow> string \<Rightarrow> bool" where
  "phone_unlocked lib ws tokens conns device pw \<longleftrightarrow>
     (\<exists>i < length conns. uc_PairedDevice (conn_of (conns ! i)) = device \<and> uc_UnlockToken (conn_of (conns ! i)) \<in> set tokens \<and>
        (\<exists>n t d. hears lib (ws i) (conns ! i) n t \<and>
           good_response lib (cw_envs (ws i) n) device (uc_UnlockToken (conn_of (conns ! i))) t d) \<and>
        (\<exists>n t d. hears lib (ws i) (conns ! i) n t \<and> phone_data lib (cw_envs (ws i) n) device t d \<and>
           DecryptAES (lb_crypt lib) (cw_dec (ws i)) (pd_passwordEnc device) (rd_passwordKey d) = Some (Some pw)))"

text \<open>The response data of a connection are the ones before, or were sealed by the phone in one of the responses \<open>H\<close>.\<close>

definition from_phone :: "'j libs \<Rightarrow> (nat \<Rightarrow> crypt_env) \<Rightarrow> (nat \<times> string) set \<Rightarrow> unlock_conn \<Rightarrow> unlock_conn \<Rightarrow> bool" where
  "from_phone lib envs H c c' \<longleftrightarrow> uc_PairedDevice c' = uc_PairedDevice c \<and> uc_UnlockToken c' = uc_UnlockToken c \<and>
     (uc_ResponseData c' = uc_ResponseData c \<or> (\<exists>(n, t) \<in> H. phone_data lib (envs n) (uc_PairedDevice c) t (uc_ResponseData c')))"

lemma from_phone_refl: "from_phone lib envs H c c"
  by (simp add: from_phone_def)

lemma from_phone_trans: "from_phone lib envs H a b \<Longrightarrow> from_phone lib envs H b c \<Longrightarrow> from_phone lib envs H a c"
  by (auto simp: from_phone_def)

lemma from_phone_flags [simp]:
  "from_phone lib envs H c (set_state st d) = from_phone lib envs H c d" "from_phone lib envs H (set_conn_state k x c) d = from_phone lib envs H c d"
  "from_phone lib envs H c (set_conn_state k x d) = from_phone lib envs H c d"
  by (simp_all add: from_phone_def set_conn_state_def)

lemma ProcessUnlockResponseJson_from:
  assumes "crypt_laws (lb_crypt lib)" and "ProcessUnlockResponseJson lib (envs n) respStr c = Some c'" and "(n, respStr) \<in> H"
  shows "from_phone lib envs H c c'"
proof (cases "UnlockResponse_FromJson (lb_json lib) respStr")
  case None
  with assms(2) show ?thesis by (auto simp: ProcessUnlockResponseJson_def from_phone_refl)
next
  case (Some r)
  show ?thesis
  proof (cases "ur_error r = []")
    case False
    with assms(2) Some show ?thesis by (auto simp: ProcessUnlockResponseJson_def from_phone_refl)
  next
    case True
    let ?data = "FromHexString (cl_unhex (lb_crypt lib)) (ur_encData r)"
    obtain cr where cr: "DecryptAESPacket (lb_crypt lib) (envs n) ?data (pd_encryptionKey (uc_PairedDevice c)) = Some cr"
      using assms(2) Some True by (auto simp: ProcessUnlockResponseJson_def Let_def bind_eq_Some_conv)
    show ?thesis
    proof (cases "cp_result cr = OK")
      case False
      with assms(2) Some True cr show ?thesis by (auto simp: ProcessUnlockResponseJson_def from_phone_refl split: if_splits)
    next
      case ok: True
      from DecryptAESPacket_OK [OF assms(1) cr ok] obtain plain where p:
        "unseal (lb_crypt lib) (c_str (pd_encryptionKey (uc_PairedDevice c))) ?data = Some plain" "8 < length plain"
        "cp_data cr = drop 8 plain" "in_window (ce_now (envs n)) (sint (un_be64 (take 8 plain)))" by blast
      show ?thesis
      proof (cases "UnlockResponseData_FromJson (lb_json lib) (string_of (drop 8 plain))")
        case None
        with assms(2) Some True cr ok p(3) show ?thesis by (auto simp: ProcessUnlockResponseJson_def from_phone_refl)
      next
        case d: (Some d)
        have "phone_data lib (envs n) (uc_PairedDevice c) respStr d"
          using Some True p d unfolding phone_data_def by blast
        moreover have "\<exists>st. c' = set_state st (c\<lparr>uc_ResponseData := d\<rparr>)"
          using assms(2) Some True cr ok p(3) d by (auto simp: ProcessUnlockResponseJson_def Let_def split: if_splits)
        ultimately show ?thesis using assms(3) by (auto simp: from_phone_def)
      qed
    qed
  qed
qed

section \<open>Along the conversation of a client\<close>

text \<open>After its request a client takes no device ids; only responses change it.\<close>

lemma client_packet:
  assumes "crypt_laws (lb_crypt lib)" and "uc_ConnectionStates c k = CS_HAS_UNLOCK_REQUEST"
    and "OnPacketReceived lib (envs n) lookup k p c s = Some (c', s')"
    and "pk_id p = PACKET_ID_UNLOCK_RESPONSE \<longrightarrow> (n, string_of (pk_data p)) \<in> H"
  shows "uc_ConnectionStates c' k = CS_HAS_UNLOCK_REQUEST \<and> from_phone lib envs H c c' \<and>
    (uc_UnlockState c' = US_SUCCESS \<longrightarrow> uc_UnlockState c = US_SUCCESS \<and> c' = c \<or>
       (\<exists>(m, t) \<in> H. good_response lib (envs m) (uc_PairedDevice c) (uc_UnlockToken c) t (uc_ResponseData c')))"
proof (cases "pk_id p = PACKET_ID_UNLOCK_RESPONSE")
  case False
  with assms(2,3) have "c' = c" by (auto simp: OnPacketReceived_def Let_def split: if_splits)
  with assms(2) show ?thesis by (simp add: from_phone_refl)
next
  case True
  then have r: "ProcessUnlockResponseJson lib (envs n) (string_of (pk_data p)) c = Some c'"
    using assms(2,3) by (auto simp: OnPacketReceived_def OnResponseReceived_def Let_def packet_ids bind_eq_Some_conv)
  have h: "(n, string_of (pk_data p)) \<in> H" using assms(4) True by simp
  from ProcessUnlockResponseJson_cases [OF assms(1) r] ProcessUnlockResponseJson_from [where envs = envs and n = n, OF assms(1) r h] assms(2) h
  show ?thesis by (auto simp: same_session_def)
qed

lemma auth_sees_client:
  assumes "crypt_laws (lb_crypt lib)" and "auth_sees lib envs lookup k n c s d" and "uc_ConnectionStates c k = CS_HAS_UNLOCK_REQUEST"
    and "set (responses_from n (packets_of (lb_platform lib) (sk_rx s))) \<subseteq> H"
  shows "uc_ConnectionStates d k = CS_HAS_UNLOCK_REQUEST \<and> from_phone lib envs H c d \<and>
    (\<exists>m s'. auth_loop lib envs lookup k n c s = auth_loop lib envs lookup k m d s' \<and>
       set (responses_from m (packets_of (lb_platform lib) (sk_rx s'))) \<subseteq> H) \<and>
    (uc_UnlockState d = US_SUCCESS \<longrightarrow> uc_UnlockState c = US_SUCCESS \<and> uc_ResponseData d = uc_ResponseData c \<or>
       (\<exists>(m, t) \<in> H. good_response lib (envs m) (uc_PairedDevice c) (uc_UnlockToken c) t (uc_ResponseData d)))"
  using assms(2-)
proof (induction rule: auth_sees.induct)
  case (now n c s)
  then show ?case by (auto simp: from_phone_refl)
next
  case (later s p s1 n c c2 s2 d)
  have heard: "(pk_id p = PACKET_ID_UNLOCK_RESPONSE \<longrightarrow> (n, string_of (pk_data p)) \<in> H) \<and>
      set (responses_from (Suc n) (packets_of (lb_platform lib) (sk_rx s2))) \<subseteq> H"
    using later.prems(2) packets_of_step [OF later.hyps(1,2)] OnPacketReceived_rx [OF later.hyps(3)] by auto
  note st = client_packet [where envs = envs and n = n, OF assms(1) later.prems(1) later.hyps(3) conjunct1 [OF heard]]
  have "auth_loop lib envs lookup k n c s = auth_loop lib envs lookup k (Suc n) c2 s2"
    using later.hyps(1-3) by (simp add: auth_loop.simps [of lib envs lookup k n c s])
  with later.IH heard st from_phone_trans [of lib envs H c c2 d] show ?case by (auto simp: from_phone_def)
qed

lemma auth_loop_client:
  "crypt_laws (lb_crypt lib) \<Longrightarrow> auth_loop lib envs lookup k n c s = Some (e, c', s') \<Longrightarrow>
    uc_ConnectionStates c k = CS_HAS_UNLOCK_REQUEST \<Longrightarrow> set (responses_from n (packets_of (lb_platform lib) (sk_rx s))) \<subseteq> H \<Longrightarrow>
    from_phone lib envs H c c'"
proof (induction lib envs lookup k n c s rule: auth_loop.induct)
  case (1 lib envs lookup k n c s)
  note unf = auth_loop.simps [of lib envs lookup k n c s]
  obtain p s1 where r: "ReadPacket (lb_platform lib) s = Some (p, s1)"
    using "1.prems"(2) by (auto simp: unf split: option.splits)
  show ?case
  proof (cases "pk_error p = PE_NONE")
    case False
    with "1.prems"(2) r show ?thesis by (simp add: unf from_phone_refl)
  next
    case True
    then obtain c2 s2 where o: "OnPacketReceived lib (envs n) lookup k p c s1 = Some (c2, s2)"
      using "1.prems"(2) r by (auto simp: unf split: option.splits)
    have heard: "(pk_id p = PACKET_ID_UNLOCK_RESPONSE \<longrightarrow> (n, string_of (pk_data p)) \<in> H) \<and>
        set (responses_from (Suc n) (packets_of (lb_platform lib) (sk_rx s2))) \<subseteq> H"
      using "1.prems"(4) packets_of_step [OF r True] OnPacketReceived_rx [OF o] by auto
    note st = client_packet [where envs = envs and n = n, OF "1.prems"(1,3) o conjunct1 [OF heard]]
    have "auth_loop lib envs lookup k (Suc n) c2 s2 = Some (e, c', s')"
      using "1.prems"(2) r True o by (simp add: unf)
    with "1.IH" [OF r refl _ o refl "1.prems"(1)] True st heard have "from_phone lib envs H c2 c'" by simp
    with st from_phone_trans show ?thesis by blast
  qed
qed

text \<open>What is behind a success that a poll has seen, when the conversation is over.\<close>

definition phone_behind :: "'j libs \<Rightarrow> (nat \<Rightarrow> crypt_env) \<Rightarrow> (nat \<times> string) set \<Rightarrow> unlock_conn \<Rightarrow> unlock_conn \<Rightarrow> bool" where
  "phone_behind lib envs H c c' \<longleftrightarrow> uc_PairedDevice c' = uc_PairedDevice c \<and>
     (\<exists>(n, t) \<in> H. \<exists>d. good_response lib (envs n) (uc_PairedDevice c) (uc_UnlockToken c) t d) \<and>
     (\<exists>(n, t) \<in> H. phone_data lib (envs n) (uc_PairedDevice c) t (uc_ResponseData c'))"

lemma flow_succeeds_phone:
  assumes "crypt_laws (lb_crypt lib)" and "uc_UnlockState c \<noteq> US_SUCCESS"
    and "flow_succeeds lib envs lookup k c s" and "PerformAuthFlow lib envs lookup k False c s = Some (c', s')"
  shows "phone_behind lib envs (set (responses (lb_platform lib) (sk_rx s))) c c'"
proof -
  let ?H = "set (responses (lb_platform lib) (sk_rx s))"
  obtain c0 s0 d where f: "SendUnlockRequest lib (envs 0) (set_conn_state k CS_HAS_DEVICE_ID c) s = Some (True, c0, s0)"
    "auth_sees lib envs lookup k 1 (set_conn_state k CS_HAS_UNLOCK_REQUEST c0) s0 d" "uc_UnlockState d = US_SUCCESS"
    using assms(3) by (auto simp: flow_succeeds_def)
  let ?c = "set_conn_state k CS_HAS_UNLOCK_REQUEST c0"
  have c0: "c0 = set_conn_state k CS_HAS_DEVICE_ID c" "sk_rx s0 = sk_rx s" using SendUnlockRequest_cases [OF f(1)] by auto
  have st: "uc_ConnectionStates ?c k = CS_HAS_UNLOCK_REQUEST" "uc_UnlockState ?c \<noteq> US_SUCCESS"
    "uc_PairedDevice ?c = uc_PairedDevice c" "uc_UnlockToken ?c = uc_UnlockToken c"
    using assms(2) by (simp_all add: c0)
  have H: "set (responses_from 1 (packets_of (lb_platform lib) (sk_rx s0))) \<subseteq> ?H" by (simp add: responses_def c0(2))
  note see = auth_sees_client [OF assms(1) f(2) st(1) H]
  then obtain n t where g: "(n, t) \<in> ?H" "good_response lib (envs n) (uc_PairedDevice c) (uc_UnlockToken c) t (uc_ResponseData d)"
    using f(3) st by auto
  obtain e c2 where l: "auth_loop lib envs lookup k 1 ?c s0 = Some (e, c2, s')"
    "c' = (if uc_UnlockState c2 = US_UNKNOWN then set_state (read_error_state e) c2 else c2)"
    using assms(4) f(1) by (auto simp: PerformAuthFlow_def Let_def bind_eq_Some_conv)
  then obtain m s1 where m: "auth_loop lib envs lookup k m d s1 = Some (e, c2, s')"
    "set (responses_from m (packets_of (lb_platform lib) (sk_rx s1))) \<subseteq> ?H" using see by auto
  from auth_loop_client [OF assms(1) m(1) _ m(2)] see have fp: "from_phone lib envs ?H d c2" "from_phone lib envs ?H ?c d" by auto
  have "uc_PairedDevice c2 = uc_PairedDevice c" using fp st by (simp add: from_phone_def)
  moreover have "\<exists>(n, t) \<in> ?H. phone_data lib (envs n) (uc_PairedDevice c) t (uc_ResponseData c2)"
  proof -
    have "phone_data lib (envs n) (uc_PairedDevice c) t (uc_ResponseData d)" using g(2) by (simp add: good_response_data)
    moreover have "uc_PairedDevice d = uc_PairedDevice c" using fp st by (simp add: from_phone_def)
    ultimately show ?thesis using fp(1) g(1) by (fastforce simp: from_phone_def)
  qed
  ultimately show ?thesis using g l(2) by (auto simp: phone_behind_def)
qed

section \<open>One thread of the handler\<close>

lemma conn_Start_conn:
  assumes "conn_Start pf w h = Some (True, c)"
  shows "same_talk (conn_of h) (ck_conn c) \<and> uc_UnlockState (ck_conn c) = uc_UnlockState (conn_of h)"
  using assms
  by (auto simp: conn_Start_def client_Start_def BT_Start_def Cloud_Start_def client_updates same_talk_def same_session_def conn_of_def
      split: conn_kind.splits if_splits)

lemma conn_Start_idle: "conn_Start pf w h = Some (True, c) \<Longrightarrow> idle (hc_client h) \<Longrightarrow> idle c"
  by (auto simp: conn_Start_def client_Start_def BT_Start_def Cloud_Start_def client_updates idle_def split: conn_kind.splits if_splits)

lemma conn_Stop_conn [simp]:
  "uc_PairedDevice (ck_conn (conn_Stop h c)) = uc_PairedDevice (ck_conn c)"
  "uc_ResponseData (ck_conn (conn_Stop h c)) = uc_ResponseData (ck_conn c)"
  by (auto simp: conn_Stop_def client_Stop_def BT_Stop_def Cloud_Stop_def client_updates Let_def split: conn_kind.splits)

lemma connected_phone:
  assumes "crypt_laws (lb_crypt lib)" and "uc_UnlockState (ck_conn c) \<noteq> US_SUCCESS" and "idle c"
    and "connect_loop tcp retries 0 as c = Some (CX_Connected, d)"
    and "flow_succeeds lib envs lookup (ck_socket d) (ck_conn d) s" and "connect_and_talk lib envs lookup tcp retries as c s = Some (c', s')"
  shows "phone_behind lib envs (set (responses (lb_platform lib) (sk_rx s))) (ck_conn c) (ck_conn c')"
proof -
  obtain conn where conn: "PerformAuthFlow lib envs lookup (ck_socket d) False (ck_conn d) s = Some (conn, s')"
    "c' = thread_end (d\<lparr>ck_conn := conn\<rparr>)"
    using assms(4,6) by (auto simp: connect_and_talk_def bind_eq_Some_conv)
  have post: "connect_post (unat retries) c CX_Connected d" using connect_loop_post [OF assms(4,3)] by simp
  then have "uc_UnlockState (ck_conn d) \<noteq> US_SUCCESS" "uc_PairedDevice (ck_conn d) = uc_PairedDevice (ck_conn c)"
    "uc_UnlockToken (ck_conn d) = uc_UnlockToken (ck_conn c)"
    using assms(2) by (auto simp: client_post)
  with flow_succeeds_phone [OF assms(1) _ assms(5) conn(1)] show ?thesis by (simp add: phone_behind_def conn(2))
qed

text \<open>The relay's thread ends with \<open>SUCCESS\<close> only after a good response, which it keeps.\<close>

lemma relay_phone:
  assumes "crypt_laws (lb_crypt lib)" and "uc_UnlockState (ck_conn c) \<noteq> US_SUCCESS"
    and "RelayThread lib e envs post get ticks c = Some c'" and "uc_UnlockState (ck_conn c') = US_SUCCESS"
  shows "phone_behind lib envs {(n, t). \<exists>path. relay_asked lib e post (ck_conn c) path \<and> relay_payload lib get path n t} (ck_conn c) (ck_conn c')"
  using RelayThread_post [OF assms(1,3)] assms(2,4) unfolding relay_post_def phone_behind_def good_response_data by blast

lemma thread_succeeds_phone:
  assumes "crypt_laws (lb_crypt lib)" and "uc_UnlockState (ck_conn c) \<noteq> US_SUCCESS" and "idle c"
    and "thread_succeeds lib lookup w h c" and "conn_thread lib lookup w h c = Some c'" and "conn_Start (lb_platform lib) w h = Some (True, c)"
  shows "phone_behind lib (cw_envs w) {(n, t). hears lib w h n t} (ck_conn c) (ck_conn c')"
proof (cases "hc_kind h")
  case CloudClient
  with assms have "phone_behind lib (cw_envs w) {(n, t). \<exists>path. relay_asked lib (cw_request w) (cw_post w) (ck_conn c) path \<and>
      relay_payload lib (cw_get w) path n t} (ck_conn c) (ck_conn c')"
    by (intro relay_phone) (auto simp: conn_thread_def thread_succeeds_def)
  with CloudClient assms(6) show ?thesis by (fastforce simp: phone_behind_def hears_def)
next
  case (TcpClient ip port)
  then have "{(n, t). hears lib w h n t} = set (responses (lb_platform lib) (sk_rx (cw_sock w)))" by (auto simp: hears_def)
  with TcpClient assms(4,5) connected_phone [OF assms(1-3)] show ?thesis
    by (auto simp: conn_thread_def thread_succeeds_def TCP_ConnectThread_def)
next
  case (BtClient address)
  then have "{(n, t). hears lib w h n t} = set (responses (lb_platform lib) (sk_rx (cw_sock w)))" by (auto simp: hears_def)
  with BtClient assms(4,5) connected_phone [OF assms(1-3)] show ?thesis
    by (auto simp: conn_thread_def thread_succeeds_def BT_ConnectThread_def)
qed

text \<open>A success of the handler's thread comes from the phone of its device.\<close>

lemma handler_thread_phone:
  assumes "crypt_laws (lb_crypt lib)" and "uc_UnlockState (conn_of h) \<noteq> US_SUCCESS" and "idle (hc_client h)"
    and "polls_true lib lookup w h" and "handler_thread lib tr lookup hasBc w h = Some (r, out)" and "re_state r = US_SUCCESS"
  shows "re_device r = uc_PairedDevice (conn_of h) \<and>
    (\<exists>n t d. hears lib w h n t \<and> good_response lib (cw_envs w n) (re_device r) (uc_UnlockToken (conn_of h)) t d) \<and>
    (\<exists>n t d. hears lib w h n t \<and> phone_data lib (cw_envs w n) (re_device r) t d \<and>
       DecryptAES (lb_crypt lib) (cw_dec w) (pd_passwordEnc (re_device r)) (rd_passwordKey d) = Some (Some (re_password r)))"
proof -
  obtain started c1 c2 where run: "conn_Start (lb_platform lib) w h = Some (started, c1)"
    "(if started then map_option (conn_Stop h) (conn_thread lib lookup w h c1) else Some c1) = Some c2"
    "RunServer lib (cw_dec w) tr False hasBc started (cw_startTime w) (cw_turns w) (ck_conn c2) = Some (r, out)"
    using assms(5) by (auto simp: handler_thread_def bind_eq_Some_conv)
  note res = RunServer_decides [OF run(3), THEN conjunct2, THEN conjunct2, THEN mp, OF assms(6)]
  then obtain t where t: "t \<in> set (cw_turns w)" "tn_poll t = US_SUCCESS" by blast
  with assms(4) obtain c where "conn_Start (lb_platform lib) w h = Some (True, c)" "thread_succeeds lib lookup w h c"
    unfolding polls_true_def by blast
  with run(1) have s: "started" "thread_succeeds lib lookup w h c1" by simp_all
  then obtain c' where c': "conn_thread lib lookup w h c1 = Some c'" "c2 = conn_Stop h c'" using run(2) by auto
  have start: "same_talk (conn_of h) (ck_conn c1)" "uc_UnlockState (ck_conn c1) \<noteq> US_SUCCESS"
    using conn_Start_conn [of "lb_platform lib" w h c1] run(1) s(1) assms(2) by auto
  have idle: "idle c1" using conn_Start_idle [of "lb_platform lib" w h c1] run(1) s(1) assms(3) by simp
  have "conn_Start (lb_platform lib) w h = Some (True, c1)" using run(1) s(1) by simp
  from thread_succeeds_phone [OF assms(1) start(2) idle s(2) c'(1) this]
  have "phone_behind lib (cw_envs w) {(n, t). hears lib w h n t} (ck_conn c1) (ck_conn c')" .
  with res start(1) c'(2) show ?thesis by (fastforce simp: phone_behind_def same_talk_def same_session_def)
qed

section \<open>The whole attempt\<close>

lemma handler_connections_member:
  assumes "length tokens = length devices" and "h \<in> set (snd (handler_connections port user prog tokens devices))"
  shows "\<exists>token d. token \<in> set tokens \<and> d \<in> set devices \<and> uc_PairedDevice (conn_of h) = d \<and> uc_UnlockToken (conn_of h) = token \<and>
    uc_UnlockState (conn_of h) = US_UNKNOWN \<and> idle (hc_client h)"
proof -
  obtain t d k where td: "(t, d) \<in> set (zip tokens devices)" and h: "h = open_conn user prog t d k"
    using assms(2) unfolding handler_connections_kinds [OF assms(1)]
    by (auto simp: List.map_filter_def split: option.splits)
  have "t \<in> set tokens" "d \<in> set devices" using td by (auto dest: set_zip_leftD set_zip_rightD)
  then show ?thesis
    by (simp add: h open_conn_def conn_of_def new_client_def new_unlock_conn_def SetUnlockInfo_def idle_def Let_def)
qed

lemma attempt_from_phone:
  assumes "crypt_laws (lb_crypt lib)" and "attempt_returns lib tr trf lookup port tokens ws devices user prog r"
    and "re_state r = US_SUCCESS"
  shows "re_device r \<in> set devices \<and>
    phone_unlocked lib ws tokens (snd (handler_connections port user prog tokens devices)) (re_device r) (re_password r)"
proof -
  note len = assms(2) [unfolded attempt_returns_def, THEN conjunct1]
  obtain bc conns where hc: "handler_connections port user prog tokens devices = (bc, conns)" by fastforce
  have "conns \<noteq> []"
    using assms(2,3) hc by (auto simp: attempt_returns_def GetResult_start_def result_of_state_def)
  then obtain s where s: "attempt_reaches (length conns) s" "as_main s = Returned r"
    and th: "\<And>i. i < length conns \<Longrightarrow> polls_true lib lookup (ws i) (conns ! i)"
      "\<And>i q. i < length conns \<Longrightarrow> got (as_pc s i) = Some q \<Longrightarrow>
        \<exists>out. handler_thread lib tr lookup (bc \<noteq> None) (ws i) (conns ! i) = Some (q, out)"
    using assms(2) hc by (auto simp: attempt_returns_def GetResult_start_def)
  obtain i where i: "i < length conns" "got (as_pc s i) = Some r"
    using attempt_inv_reach [OF s(1)] s(2) assms(3) by (auto simp: attempt_inv_def genuine_def empty_result_def)
  then have "conns ! i \<in> set (snd (handler_connections port user prog tokens devices))" using hc by simp
  from handler_connections_member [OF len this] obtain token d where m: "token \<in> set tokens" "d \<in> set devices"
    "uc_PairedDevice (conn_of (conns ! i)) = d" "uc_UnlockToken (conn_of (conns ! i)) = token"
    "uc_UnlockState (conn_of (conns ! i)) = US_UNKNOWN" "idle (hc_client (conns ! i))" by blast
  from th(2) [OF i] obtain out where "handler_thread lib tr lookup (bc \<noteq> None) (ws i) (conns ! i) = Some (r, out)" by blast
  moreover have "uc_UnlockState (conn_of (conns ! i)) \<noteq> US_SUCCESS" using m(5) by simp
  ultimately have p: "re_device r = uc_PairedDevice (conn_of (conns ! i)) \<and>
    (\<exists>n t d. hears lib (ws i) (conns ! i) n t \<and> good_response lib (cw_envs (ws i) n) (re_device r) (uc_UnlockToken (conn_of (conns ! i))) t d) \<and>
    (\<exists>n t d. hears lib (ws i) (conns ! i) n t \<and> phone_data lib (cw_envs (ws i) n) (re_device r) t d \<and>
       DecryptAES (lb_crypt lib) (cw_dec (ws i)) (pd_passwordEnc (re_device r)) (rd_passwordKey d) = Some (Some (re_password r)))"
    using handler_thread_phone [OF assms(1) _ m(6) th(1) [OF i(1)] _ assms(3)] by blast
  have "phone_unlocked lib ws tokens conns (re_device r) (re_password r)"
    unfolding phone_unlocked_def
    by (rule exI [of _ i], intro conjI, rule i(1), simp add: p, use m(1,4) in simp,
        rule conjunct1 [OF conjunct2 [OF p]], rule conjunct2 [OF conjunct2 [OF p]])
  then show ?thesis using m(2,3) p hc by simp
qed

text \<open>The attempt for a user: the devices are read from the store when it starts.\<close>

definition user_attempt :: "'j libs \<Rightarrow> (string \<Rightarrow> string) \<Rightarrow> (string \<Rightarrow> string \<Rightarrow> string) \<Rightarrow> (string \<Rightarrow> PairedDevice option) \<Rightarrow> prot_env \<Rightarrow>
    string \<Rightarrow> fs \<Rightarrow> string \<Rightarrow> string \<Rightarrow> string list \<Rightarrow> (nat \<Rightarrow> conn_world) \<Rightarrow> UnlockResult \<Rightarrow> bool" where
  "user_attempt lib tr trf lookup prot dir f user prog tokens ws r \<longleftrightarrow>
     (\<exists>port. attempt_returns lib tr trf lookup port tokens ws
        (fst (GetDevicesForUser (lb_json lib) (lb_platform lib) prot dir user f)) user prog r)"

text \<open>The phone of a device of this user unlocked; the port is the one the broadcaster announces.\<close>

definition user_phone_unlocked :: "'j libs \<Rightarrow> (nat \<Rightarrow> conn_world) \<Rightarrow> string list \<Rightarrow> string \<Rightarrow> string \<Rightarrow> PairedDevice list \<Rightarrow>
    PairedDevice \<Rightarrow> string \<Rightarrow> bool" where
  "user_phone_unlocked lib ws tokens user prog devices device pw \<longleftrightarrow>
     (\<exists>port. phone_unlocked lib ws tokens (snd (handler_connections port user prog tokens devices)) device pw)"

lemma user_attempt_phone:
  assumes "crypt_laws (lb_crypt lib)" and "user_attempt lib tr trf lookup prot dir f user prog tokens ws r" and "re_state r = US_SUCCESS"
  shows "re_device r \<in> set (fst (GetDevices (lb_json lib) (lb_platform lib) prot dir f)) \<and> for_user (lb_platform lib) user (re_device r) \<and>
    user_phone_unlocked lib ws tokens user prog (fst (GetDevicesForUser (lb_json lib) (lb_platform lib) prot dir user f))
      (re_device r) (re_password r)"
proof -
  let ?ds = "fst (GetDevicesForUser (lb_json lib) (lb_platform lib) prot dir user f)"
  obtain port where "attempt_returns lib tr trf lookup port tokens ws ?ds user prog r" using assms(2) by (auto simp: user_attempt_def)
  from attempt_from_phone [OF assms(1) this assms(3)] have "re_device r \<in> set ?ds"
    "user_phone_unlocked lib ws tokens user prog ?ds (re_device r) (re_password r)" by (auto simp: user_phone_unlocked_def)
  then show ?thesis by (auto simp: GetDevicesForUser_def split: prod.splits)
qed

text \<open>
  C3: A whole unlock attempt is safe under every order of its threads: \<open>GetResult\<close> returns \<open>SUCCESS\<close> only for one of the devices it was
  started for, after one of the attempt's own connections, the one to this device, received (as a packet on its socket, or as the
  relay's answer for its own request) an authentic and fresh response that carries the token drawn for this connection; and the
  password in the result is the stored one, decrypted with a key that the same connection received from the phone.
\<close>

theorem attempt_needs_phone:
  assumes "crypt_laws (lb_crypt lib)" and "attempt_returns lib tr trf lookup port tokens ws devices user prog r"
    and "re_state r = US_SUCCESS"
  shows "re_device r \<in> set devices \<and>
    phone_unlocked lib ws tokens (snd (handler_connections port user prog tokens devices)) (re_device r) (re_password r)"
  by (rule attempt_from_phone [OF assms])

section \<open>An attempt that succeeds\<close>

text \<open>A device reached through the relay, and the relay with an honest phone.\<close>

definition sys_device :: PairedDevice where
  "sys_device = (demo_device ''1'')\<lparr>pd_pairingMethod := CLOUD_TCP, pd_userName := ''ann'', pd_cloudToken := ''c'',
     pd_passwordEnc := (case EncryptAES toy_crypt (demo_env 0) ''secret'' ''k'' of Some (Some h) \<Rightarrow> h | _ \<Rightarrow> [])\<rparr>"

definition sys_world :: conn_world where
  "sys_world = \<lparr>cw_wsa = True, cw_envs = (\<lambda>_. demo_env 0), cw_request = demo_env 0, cw_retries = 0, cw_target = 1, cw_attempts = [],
     cw_sock = demo_phone_sock, cw_post = (\<lambda>_ _. (201, demo_body ''id'' ''r'')),
     cw_get = (\<lambda>n _. if n = 0 then (204, []) else (200, demo_body ''payload'' demo_reply)),
     cw_ticks = [(True, True), (True, True)], cw_startTime = 0, cw_turns = [demo_turn US_UNKNOWN, demo_turn US_SUCCESS],
     cw_dec = demo_env 7\<rparr>"

definition sys_conn :: handler_conn where
  "sys_conn = open_conn ''ann'' ''login'' ''tok'' sys_device CloudClient"

definition sys_result :: UnlockResult where
  "sys_result = \<lparr>re_state = US_SUCCESS, re_device = sys_device, re_password = ''secret''\<rparr>"

lemma sys_password: "DecryptAES toy_crypt (demo_env 7) (pd_passwordEnc sys_device) ''k'' = Some (Some ''secret'')"
  using password_back [OF toy_crypt_laws demo_env_ok(1) [of 0] demo_env_ok(1) [of 7] refl, of "''secret''" "''k''"]
  by (auto simp: sys_device_def)

lemma sys_conn_fields:
  "hc_kind sys_conn = CloudClient" "uc_PairedDevice (conn_of sys_conn) = sys_device" "uc_UnlockToken (conn_of sys_conn) = ''tok''"
  "uc_AuthUser (conn_of sys_conn) = ''ann''" "uc_AuthProgram (conn_of sys_conn) = ''login''" "\<not> uc_IsRunning (conn_of sys_conn)"
  "ck_joinable (hc_client sys_conn) = False" "pd_cloudToken sys_device = ''c''" "pd_id sys_device = ''1''" "pd_encryptionKey sys_device = []"
  "pd_pairingMethod sys_device = CLOUD_TCP" "pd_userName sys_device = ''ann''"
  by (simp_all add: sys_conn_def open_conn_def conn_of_def new_client_def new_unlock_conn_def SetUnlockInfo_def sys_device_def
      demo_device_def empty_device_def Let_def)

definition sys_client :: unlock_client where
  "sys_client = (ck_set_running True (hc_client sys_conn))\<lparr>ck_joinable := True\<rparr>"

lemma sys_client_conn: "ck_conn sys_client = (conn_of sys_conn)\<lparr>uc_IsRunning := True\<rparr>"
  by (simp add: sys_client_def conn_of_def)

lemma sys_start: "conn_Start pf sys_world sys_conn = Some (True, sys_client)"
  using sys_conn_fields by (simp add: conn_Start_def Cloud_Start_def sys_client_def conn_of_def)

lemma sys_request: "\<exists>req. BuildUnlockRequestJson demo_libs (demo_env 0) (ck_conn sys_client) = Some (Some req, ck_conn sys_client)"
proof -
  let ?c = "ck_conn sys_client"
  let ?ud = "\<lparr>ud_user = uc_AuthUser ?c, ud_program = uc_AuthProgram ?c, ud_unlockToken = uc_UnlockToken ?c\<rparr>"
  have "j_dump (lb_json demo_libs) (UnlockRequestData_ToJson (lb_json demo_libs) ?ud) = Some (put_val (UnlockRequestData_ToJson toy_json ?ud))"
    by (simp add: demo_libs_def demo_dump)
  moreover have "length (put_val (UnlockRequestData_ToJson toy_json ?ud)) \<le> 1992"
    by (simp add: UnlockRequestData_ToJson_def toy_json_def sys_client_conn sys_conn_fields)
  moreover have "\<forall>h. length h \<le> 4096 \<longrightarrow> (\<exists>req. j_dump (lb_json demo_libs) (UnlockRequest_ToJson (lb_json demo_libs)
      \<lparr>uq_protoVersion = GetUnlockProtocolVersion, uq_deviceId = pd_id (uc_PairedDevice ?c), uq_encData = h\<rparr>) = Some req \<and>
      12 + length req \<le> rooms (sk_tx demo_phone_sock))"
    by (simp add: demo_libs_def toy_json_def UnlockRequest_ToJson_def sys_client_conn sys_conn_fields length_put_str
        GetUnlockProtocolVersion_def demo_phone_sock_def rooms_replicate)
  ultimately obtain s' where "SendUnlockRequest demo_libs (demo_env 0) ?c demo_phone_sock = Some (True, ?c, s')"
    using SendUnlockRequest_succeeds [OF demo_phone(1) demo_phone(8)] by blast
  then show ?thesis
    using BuildUnlockRequestJson_keeps [of demo_libs "demo_env 0" ?c] by (fastforce simp: SendUnlockRequest_def bind_eq_Some_conv split: option.splits)
qed

lemma sys_thread:
  "\<exists>c. conn_thread demo_libs lookup sys_world sys_conn sys_client = Some c \<and> uc_UnlockState (ck_conn c) = US_SUCCESS \<and>
     uc_PairedDevice (ck_conn c) = sys_device \<and> uc_ResponseData (ck_conn c) = demo_data"
proof -
  let ?c = "(ck_conn sys_client)\<lparr>uc_HasConnection := True\<rparr>"
  obtain req where req: "BuildUnlockRequestJson demo_libs (demo_env 0) (ck_conn sys_client) = Some (Some req, ck_conn sys_client)"
    using sys_request by blast
  have reply: "ProcessUnlockResponseJson demo_libs (demo_env 0) demo_reply ?c = Some (set_state US_SUCCESS (?c\<lparr>uc_ResponseData := demo_data\<rparr>))"
    using good_reply_succeeds [OF demo_phone(1,2) demo_phone(8) demo_phone(8) demo_phone(9,10,11) demo_phone(13,14,15),
        of ?c demo_sealed demo_reply] demo_phone by (simp add: sys_client_conn sys_conn_fields demo_conn_fields)
  have "j_dump (lb_json demo_libs) v = Some (put_val v)" for v by (simp add: demo_libs_def demo_dump)
  with req reply show ?thesis
    by (simp add: conn_thread_def sys_conn_fields(1) RelayThread_def sys_world_def demo_body_field) (simp add: sys_client_conn sys_conn_fields)
qed

lemma sys_polling:
  "\<exists>out'. poll_loop tr hasBc msg startTime [demo_turn US_UNKNOWN, demo_turn US_SUCCESS] True out = Some (US_SUCCESS, False, out')"
  by (simp add: demo_turn_def)

lemma sys_handler_thread: "\<exists>out. handler_thread demo_libs (\<lambda>k. k) lookup hasBc sys_world sys_conn = Some (sys_result, out)"
proof -
  obtain c where c: "conn_thread demo_libs lookup sys_world sys_conn sys_client = Some c" "uc_PairedDevice (ck_conn c) = sys_device"
    "uc_ResponseData (ck_conn c) = demo_data" using sys_thread by blast
  let ?conn = "ck_conn (conn_Stop sys_conn c)" and ?msg = "''wait_client_phone_connect''"
  have "DecryptAES (lb_crypt demo_libs) (cw_dec sys_world) (pd_passwordEnc sys_device) (rd_passwordKey demo_data) = Some (Some ''secret'')"
    using sys_password by (simp add: demo_libs_def sys_world_def demo_data_def)
  then have fin: "finish_server demo_libs (cw_dec sys_world) (\<lambda>k. k) US_SUCCESS ?conn out = Some (sys_result, out)" for out
    by (simp add: finish_server_def c(2,3) sys_result_def)
  have turns: "cw_turns sys_world = [demo_turn US_UNKNOWN, demo_turn US_SUCCESS]" by (simp add: sys_world_def)
  obtain out where "poll_loop (\<lambda>k. k) hasBc ?msg (cw_startTime sys_world) (cw_turns sys_world) True (say ?msg ([], [])) =
      Some (US_SUCCESS, False, out)" using sys_polling unfolding turns by blast
  then have "RunServer demo_libs (cw_dec sys_world) (\<lambda>k. k) False hasBc True (cw_startTime sys_world) (cw_turns sys_world) ?conn =
      Some (sys_result, say (state_ToString (\<lambda>k. k) US_SUCCESS) out)"
    by (simp add: RunServer_def Let_def fin del: poll_loop.simps)
  then show ?thesis by (simp add: handler_thread_def sys_start c(1))
qed

lemma sys_polls: "polls_true demo_libs lookup sys_world sys_conn"
  using sys_thread [of lookup] sys_start sys_conn_fields(1) by (auto simp: polls_true_def thread_succeeds_def)

lemma success_run:
  assumes "re_state r = US_SUCCESS"
  shows "\<exists>s. attempt_reaches 1 s \<and> as_main s = Returned r \<and> as_pc s 0 = Finished r"
proof -
  let ?z = "\<lambda>p c m. \<lparr>as_pc = (\<lambda>_. Polling)(0 := p), as_completed = 1, as_current = c, as_main = m\<rparr>"
  have "attempt_reaches 1 (?z (Counted r) empty_result Awake)"
    using hstep.count [of 0 1 attempt_init r] by (intro r_into_rtranclp) (simp add: attempt_init_def)
  also have "hstep 1 \<dots> (?z (Stored r) r Awake)"
    using hstep.store_success [of 0 1 "?z (Counted r) empty_result Awake" r] assms by simp
  also have "hstep 1 \<dots> (?z (Last r) r Awake)" using hstep.is_last [of 0 1 "?z (Stored r) r Awake" r] by simp
  also have "hstep 1 \<dots> (?z (Notifying r) r Awake)" using hstep.see_success [of 0 1 "?z (Last r) r Awake" r] assms by simp
  also have "hstep 1 \<dots> (?z (Finished r) r Awake)"
    using hstep.notify [of 0 1 "?z (Notifying r) r Awake" r] by (simp add: holds_mutex_def)
  also have "hstep 1 \<dots> (?z (Finished r) r (Joining r))" using hstep.main_reads [of "?z (Finished r) r Awake" 1] by simp
  also have "hstep 1 \<dots> (?z (Finished r) r (Returned r))" using hstep.main_returns [of "?z (Finished r) r (Joining r)" r 1] by simp
  finally show ?thesis by (intro exI [of _ "?z (Finished r) r (Returned r)"]) simp
qed

lemma sys_attempt:
  "attempt_returns demo_libs (\<lambda>k. k) trf lookup port [''tok''] (\<lambda>_. sys_world) [sys_device] ''ann'' ''login'' sys_result"
proof -
  obtain s where s: "attempt_reaches 1 s" "as_main s = Returned sys_result" "as_pc s 0 = Finished sys_result"
    using success_run [of sys_result] by (auto simp: sys_result_def)
  have "GetResult_start (\<lambda>k. k) trf port ''ann'' ''login'' [''tok''] [sys_device] = (Inr (None, [sys_conn]), [])"
    by (simp add: GetResult_start_def handler_connections_def add_device_conn_def sys_conn_fields sys_conn_def)
  with s sys_polls sys_handler_thread show ?thesis by (auto simp: attempt_returns_def)
qed

lemma attempt_needs_phone_witness:
  "phone_unlocked demo_libs (\<lambda>_. sys_world) [''tok''] (snd (handler_connections 80 ''ann'' ''login'' [''tok''] [sys_device])) sys_device ''secret''"
proof -
  have "crypt_laws (lb_crypt demo_libs)" "re_state sys_result = US_SUCCESS" by (simp_all add: demo_libs_def toy_crypt_laws sys_result_def)
  from attempt_needs_phone [OF this(1) sys_attempt [where port = 80] this(2)] show ?thesis by (simp add: sys_result_def)
qed

text \<open>The device in the file.\<close>

definition sys_store :: fs where
  "sys_store = demo_fs\<lparr>fs_files := [devices_path ''d'' \<mapsto> bytes_of (put_val (devices_json toy_json [sys_device]))]\<rparr>"

lemma sys_devices: "GetDevices toy_json Linux demo_prot ''d'' sys_store = ([sys_device], sys_store)"
proof (rule GetDevices_stored [OF toy_json_laws])
  have "j_parse toy_json (put_val (devices_json toy_json [sys_device])) = Some (devices_json toy_json [sys_device])"
    by (rule json_parse_dump [OF toy_json_laws built_devices]) (rule demo_dump)
  moreover have "string_of (ReadBytes sys_store (devices_path ''d'')) = put_val (devices_json toy_json [sys_device])"
    by (simp add: ReadBytes_def sys_store_def demo_fs_def del: put_val.simps)
  moreover have "j_items toy_json (devices_json toy_json [sys_device]) = map (device_json toy_json) [sys_device]"
    using json_lawsD(3) [OF toy_json_laws, of "map (device_json toy_json) [sys_device]"] by (simp only: devices_json_def)
  ultimately show "stored toy_json ''d'' sys_store [sys_device]" unfolding stored_def by metis
qed (simp add: prot_ok_def demo_prot_def)

lemma sys_user_devices: "fst (GetDevicesForUser toy_json Linux demo_prot ''d'' ''ann'' sys_store) = [sys_device]"
  by (simp add: GetDevicesForUser_def sys_devices for_user_def sys_conn_fields)

lemma sys_user_attempt:
  "user_attempt demo_libs (\<lambda>k. k) trf lookup demo_prot ''d'' sys_store ''ann'' ''login'' [''tok''] (\<lambda>_. sys_world) sys_result"
  using sys_attempt sys_user_devices by (simp add: user_attempt_def demo_libs_def)

end
