(* ===== verification/KeyScanner.thy ===== *)
theory KeyScanner
  imports StringUtils
begin

text \<open>
  \<open>common/src/handler/KeyScanner.cpp\<close>: the keys that are held down, with which a user cancels an unlock attempt. On
  Linux one thread per keyboard reads its events; Windows and macOS are asked for the state of a key. The devices are
  parameters: what opening one answers, and the events that are read.
\<close>

section \<open>Keyboards\<close>

definition ends_with :: "string \<Rightarrow> string \<Rightarrow> bool" where
  "ends_with s p \<longleftrightarrow> length p \<le> length s \<and> drop (length s - length p) s = p"

definition INPUT_DIR :: string where "INPUT_DIR = ''/dev/input/by-path/''"

text \<open>The names in the directory; \<open>None\<close> if it cannot be listed, which the iterator reports by an exception.\<close>

definition GetKeyboards :: "string list option \<Rightarrow> string list option" where
  "GetKeyboards entries = map_option (\<lambda>es. map (\<lambda>e. INPUT_DIR @ e) (filter (\<lambda>e. ends_with e ''-event-kbd'') es)) entries"

text \<open>What \<open>open\<close> and the two calls of \<open>fcntl\<close> answer for a device.\<close>

record keyboard_open =
  ko_fd :: "nat option"
  ko_getfl :: bool
  ko_setfl :: bool

record key_scanner =
  ks_fds :: "nat list"
  ks_threads :: "nat list"          \<comment> \<open>the keyboards that a thread reads\<close>
  ks_running :: bool
  ks_maps :: "(int \<rightharpoonup> bool) list"
  ks_open :: "nat list"             \<comment> \<open>descriptors that the process has open for the scanner\<close>

definition new_scanner :: key_scanner where
  "new_scanner = \<lparr>ks_fds = [], ks_threads = [], ks_running = False, ks_maps = [], ks_open = []\<rparr>"

section \<open>Operations\<close>

fun open_keyboards :: "(string \<Rightarrow> keyboard_open) \<Rightarrow> string list \<Rightarrow> key_scanner \<Rightarrow> key_scanner" where
  "open_keyboards dev [] s = s"
| "open_keyboards dev (keyboard # keyboards) s =
     open_keyboards dev keyboards
       (case ko_fd (dev keyboard) of
          None \<Rightarrow> s
        | Some kbd \<Rightarrow>
            let s = s\<lparr>ks_open := ks_open s @ [kbd]\<rparr>
            in if \<not> ko_getfl (dev keyboard) \<or> \<not> ko_setfl (dev keyboard) then s else s\<lparr>ks_fds := ks_fds s @ [kbd]\<rparr>)"

definition Start_scanner :: "string list option \<Rightarrow> (string \<Rightarrow> keyboard_open) \<Rightarrow> key_scanner \<Rightarrow> key_scanner option" where
  "Start_scanner entries dev s =
     (if ks_running s then Some s
      else do {
        keyboards \<leftarrow> GetKeyboards entries;
        let s = open_keyboards dev keyboards (s\<lparr>ks_running := True\<rparr>);
        Some (if ks_fds s = [] then s
          else s\<lparr>ks_maps := replicate (length (ks_fds s)) Map.empty, ks_threads := ks_threads s @ [0..<length (ks_fds s)]\<rparr>)
      })"

definition Stop_scanner :: "key_scanner \<Rightarrow> key_scanner" where
  "Stop_scanner s =
     (if \<not> ks_running s then s
      else s\<lparr>ks_running := False, ks_open := filter (\<lambda>fd. fd \<notin> set (ks_fds s)) (ks_open s), ks_fds := [], ks_threads := []\<rparr>)"

text \<open>The body of the loop of \<open>ScanThread\<close> for the keyboard \<open>idx\<close>: the event that is read, if a whole one is.\<close>

definition scan_turn :: "nat \<Rightarrow> (int \<times> int) option \<Rightarrow> key_scanner \<Rightarrow> key_scanner" where
  "scan_turn idx ie s =
     (case ie of
        None \<Rightarrow> s
      | Some (code, val) \<Rightarrow>
          s\<lparr>ks_maps := (ks_maps s)[idx := (ks_maps s ! idx)(code \<mapsto> (val \<noteq> 0))]\<rparr>)"

definition Linux_GetKeyState :: "key_scanner \<Rightarrow> int \<Rightarrow> bool" where
  "Linux_GetKeyState s key \<longleftrightarrow> list_ex (\<lambda>keyMap. keyMap key = Some True) (ks_maps s)"

definition Linux_GetAllKeys :: "key_scanner \<Rightarrow> (int \<rightharpoonup> bool)" where
  "Linux_GetAllKeys s = (if ks_maps s = [] then Map.empty else ks_maps s ! 0)"

text \<open>Windows: the sign of \<open>GetAsyncKeyState\<close>. macOS: a bit of the sixteen bytes that \<open>GetKeys\<close> fills.\<close>

definition Windows_GetKeyState :: "(int \<Rightarrow> 16 word) \<Rightarrow> int \<Rightarrow> bool" where
  "Windows_GetKeyState async key \<longleftrightarrow> sint (async key) < 0"

definition Mac_GetKeyState :: "u8 list \<Rightarrow> nat \<Rightarrow> bool" where
  "Mac_GetKeyState keyMap key \<longleftrightarrow> bit (keyMap ! (key div 8)) (key mod 8)"

definition table_keys :: "(nat \<Rightarrow> bool) \<Rightarrow> nat \<Rightarrow> (nat \<rightharpoonup> bool)" where
  "table_keys down n = (\<lambda>i. if i < n then Some (down i) else None)"

definition Windows_GetAllKeys :: "(int \<Rightarrow> 16 word) \<Rightarrow> (nat \<rightharpoonup> bool)" where
  "Windows_GetAllKeys async = table_keys (\<lambda>i. Windows_GetKeyState async (int i)) 0xA6"

definition Mac_GetAllKeys :: "u8 list \<Rightarrow> (nat \<rightharpoonup> bool)" where
  "Mac_GetAllKeys keyMap = table_keys (Mac_GetKeyState keyMap) 0x7E"

text \<open>The keys of \<open>UnlockHandler::RunServer\<close>: left control and left alt, by their Linux codes.\<close>

definition KEY_LEFTCTRL :: int where "KEY_LEFTCTRL = 29"
definition KEY_LEFTALT :: int where "KEY_LEFTALT = 56"

definition cancel_keys :: "key_scanner \<Rightarrow> bool" where
  "cancel_keys s \<longleftrightarrow> Linux_GetKeyState s KEY_LEFTCTRL \<and> Linux_GetKeyState s KEY_LEFTALT"

section \<open>The keys that are held\<close>

text \<open>The events that the threads read, in the order in which they store them: keyboard, key, value.\<close>

definition store_events :: "(nat \<times> int \<times> int) list \<Rightarrow> key_scanner \<Rightarrow> key_scanner" where
  "store_events evs s = fold (\<lambda>(idx, ie). scan_turn idx (Some ie)) evs s"

definition held :: "(nat \<times> int \<times> int) list \<Rightarrow> nat \<Rightarrow> int \<Rightarrow> bool" where
  "held evs idx key = (let es = filter (\<lambda>(i, k, v). i = idx \<and> k = key) evs in es \<noteq> [] \<and> snd (snd (last es)) \<noteq> 0)"

lemma held_snoc: "held (evs @ [(i, k, v)]) idx key = (if i = idx \<and> k = key then v \<noteq> 0 else held evs idx key)"
  by (simp add: held_def Let_def)

lemma store_events_snoc: "store_events (evs @ [(i, k, v)]) s = scan_turn i (Some (k, v)) (store_events evs s)"
  by (simp add: store_events_def)

lemma store_events_maps:
  assumes "\<forall>e \<in> set evs. fst e < length (ks_maps s)" and "\<forall>m \<in> set (ks_maps s). m = Map.empty"
  shows "length (ks_maps (store_events evs s)) = length (ks_maps s) \<and>
    (\<forall>idx < length (ks_maps s). \<forall>key. (ks_maps (store_events evs s) ! idx) key = Some True \<longleftrightarrow> held evs idx key)"
  using assms(1)
proof (induction evs rule: rev_induct)
  case Nil
  have "ks_maps s ! idx = Map.empty" if "idx < length (ks_maps s)" for idx using assms(2) nth_mem [OF that] by blast
  then show ?case by (simp add: store_events_def held_def)
next
  case (snoc e evs)
  obtain i k v where e: "e = (i, k, v)" by (cases e)
  from snoc show ?case by (auto simp: e store_events_snoc held_snoc scan_turn_def nth_list_update)
qed

lemma open_keyboards_frame:
  "ks_running (open_keyboards dev ks s) = ks_running s \<and> ks_maps (open_keyboards dev ks s) = ks_maps s \<and>
   ks_threads (open_keyboards dev ks s) = ks_threads s"
  by (induction ks arbitrary: s) (simp_all add: Let_def split: option.splits)

definition opened :: "(string \<Rightarrow> keyboard_open) \<Rightarrow> string list \<Rightarrow> nat list" where
  "opened dev ks = List.map_filter (\<lambda>k. ko_fd (dev k)) ks"

definition usable :: "(string \<Rightarrow> keyboard_open) \<Rightarrow> string list \<Rightarrow> nat list" where
  "usable dev ks = List.map_filter (\<lambda>k. if ko_getfl (dev k) \<and> ko_setfl (dev k) then ko_fd (dev k) else None) ks"

lemma open_keyboards_fds:
  "ks_fds (open_keyboards dev ks s) = ks_fds s @ usable dev ks \<and> ks_open (open_keyboards dev ks s) = ks_open s @ opened dev ks"
  by (induction ks arbitrary: s) (simp_all add: opened_def usable_def map_filter_simps Let_def split: option.splits)

lemma Start_new:
  assumes "Start_scanner entries dev new_scanner = Some s"
  shows "\<exists>ks. GetKeyboards entries = Some ks \<and> ks_running s \<and> ks_fds s = usable dev ks \<and> ks_open s = opened dev ks \<and>
    ks_maps s = replicate (length (usable dev ks)) Map.empty \<and> ks_threads s = [0..<length (usable dev ks)]"
  using assms by (auto simp: Start_scanner_def new_scanner_def Let_def bind_eq_Some_conv open_keyboards_frame open_keyboards_fds)

lemma GetKeyState_held:
  assumes "Start_scanner entries dev new_scanner = Some s" and "\<forall>e \<in> set evs. fst e < length (ks_fds s)"
  shows "Linux_GetKeyState (store_events evs s) key \<longleftrightarrow> (\<exists>idx < length (ks_fds s). held evs idx key)"
proof -
  have len: "length (ks_maps s) = length (ks_fds s)" "\<forall>m \<in> set (ks_maps s). m = Map.empty"
    using Start_new [OF assms(1)] by auto
  show ?thesis using store_events_maps [OF assms(2) [folded len(1)] len(2)] len(1)
    by (auto simp: Linux_GetKeyState_def list_ex_length)
qed

text \<open>
  On Linux the keys that cancel an unlock attempt are those held down: while the scanner runs, the attempt is cancelled
  exactly when the last event for left control, and the last event for left alt, on some keyboard that could
  be opened was a press. Without such a keyboard they never cancel, and without the directory of the
  keyboards the scanner raises.
\<close>

theorem cancel_keys_held:
  shows "Start_scanner None dev new_scanner = None"
    and "Start_scanner entries dev new_scanner = Some s \<Longrightarrow> \<forall>e \<in> set evs. fst e < length (ks_fds s) \<Longrightarrow>
      cancel_keys (store_events evs s) \<longleftrightarrow>
        (\<exists>i < length (ks_fds s). held evs i KEY_LEFTCTRL) \<and> (\<exists>i < length (ks_fds s). held evs i KEY_LEFTALT)"
    and "Start_scanner entries dev new_scanner = Some s \<Longrightarrow> ks_fds s = [] \<Longrightarrow> \<not> cancel_keys (store_events [] s)"
  using GetKeyState_held [of entries dev s evs] GetKeyState_held [of entries dev s "[]"]
  by (auto simp: Start_scanner_def new_scanner_def GetKeyboards_def cancel_keys_def)

text \<open>Stopping closes what the threads read, and leaks every device that was opened but could not be made non-blocking.\<close>

lemma Stop_leaks:
  assumes "Start_scanner entries dev new_scanner = Some s" and "GetKeyboards entries = Some ks"
  shows "ks_open (Stop_scanner s) = filter (\<lambda>fd. fd \<notin> set (usable dev ks)) (opened dev ks)"
  using Start_new [OF assms(1)] assms(2) by (auto simp: Stop_scanner_def)

text \<open>The keys that were down when the scanner stopped stay down until a start that finds a keyboard.\<close>

lemma stale_keys:
  assumes "Start_scanner entries dev (Stop_scanner s) = Some t" and "ks_running s" and "ks_fds t = []"
  shows "Linux_GetKeyState t key = Linux_GetKeyState s key"
  using assms
  by (auto simp: Start_scanner_def Stop_scanner_def Let_def bind_eq_Some_conv open_keyboards_frame Linux_GetKeyState_def split: if_splits)

section \<open>Starting the threads\<close>

text \<open>
  \<open>Start\<close> appends the map of a keyboard and starts its thread, keyboard by keyboard, without the mutex; appending to a
  full vector moves the maps to a new buffer. A thread looks up its map and stores into it under the mutex.
\<close>

record scan_state =
  sc_size :: nat
  sc_cap :: nat
  sc_buffer :: nat                      \<comment> \<open>which buffer the vector has\<close>
  sc_spawned :: nat
  sc_ref :: "(nat \<times> nat) option"        \<comment> \<open>the thread inside the mutex, and the buffer in which it found its map\<close>
  sc_bad :: bool                        \<comment> \<open>a store into a buffer that was freed\<close>

definition scan_start :: scan_state where
  "scan_start = \<lparr>sc_size = 0, sc_cap = 0, sc_buffer = 0, sc_spawned = 0, sc_ref = None, sc_bad = False\<rparr>"

inductive scan_step :: "(nat \<Rightarrow> nat) \<Rightarrow> nat \<Rightarrow> scan_state \<Rightarrow> scan_state \<Rightarrow> bool" for grow n where
  append_room: "sc_spawned s = sc_size s \<Longrightarrow> sc_size s < n \<Longrightarrow> sc_size s < sc_cap s \<Longrightarrow>
    scan_step grow n s (s\<lparr>sc_size := Suc (sc_size s)\<rparr>)"
| append_full: "sc_spawned s = sc_size s \<Longrightarrow> sc_size s < n \<Longrightarrow> sc_size s = sc_cap s \<Longrightarrow>
    scan_step grow n s (s\<lparr>sc_size := Suc (sc_size s), sc_cap := grow (sc_size s), sc_buffer := Suc (sc_buffer s)\<rparr>)"
| spawn: "sc_spawned s < sc_size s \<Longrightarrow> scan_step grow n s (s\<lparr>sc_spawned := Suc (sc_spawned s)\<rparr>)"
| look_up: "i < sc_spawned s \<Longrightarrow> sc_ref s = None \<Longrightarrow> scan_step grow n s (s\<lparr>sc_ref := Some (i, sc_buffer s)\<rparr>)"
| store: "sc_ref s = Some (i, b) \<Longrightarrow> scan_step grow n s (s\<lparr>sc_ref := None, sc_bad := sc_bad s \<or> b \<noteq> sc_buffer s\<rparr>)"

definition small_inv :: "(nat \<Rightarrow> nat) \<Rightarrow> scan_state \<Rightarrow> bool" where
  "small_inv grow s \<longleftrightarrow> \<not> sc_bad s \<and> sc_spawned s \<le> sc_size s \<and>
     (sc_size s = 0 \<and> sc_cap s = 0 \<and> sc_ref s = None \<or> 0 < sc_size s \<and> sc_cap s = grow 0) \<and>
     (\<forall>i b. sc_ref s = Some (i, b) \<longrightarrow> b = sc_buffer s)"

lemma small_inv_step: "scan_step grow n s t \<Longrightarrow> n \<le> grow 0 \<Longrightarrow> small_inv grow s \<Longrightarrow> small_inv grow t"
  by (induction rule: scan_step.induct) (auto simp: small_inv_def)

lemma small_no_race: "(scan_step grow n)\<^sup>*\<^sup>* scan_start s \<Longrightarrow> n \<le> grow 0 \<Longrightarrow> \<not> sc_bad s"
proof -
  assume "n \<le> grow 0"
  have "small_inv grow s" if "(scan_step grow n)\<^sup>*\<^sup>* scan_start s"
    using that by induction (use \<open>n \<le> grow 0\<close> small_inv_step in \<open>auto simp: scan_start_def small_inv_def\<close>)
  then show "(scan_step grow n)\<^sup>*\<^sup>* scan_start s \<Longrightarrow> \<not> sc_bad s" by (simp add: small_inv_def)
qed

definition filled :: "(nat \<Rightarrow> nat) \<Rightarrow> nat \<Rightarrow> scan_state" where
  "filled grow k = \<lparr>sc_size = k, sc_cap = grow 0, sc_buffer = 1, sc_spawned = k, sc_ref = None, sc_bad = False\<rparr>"

lemma reach_filled:
  assumes "0 < grow 0" and "grow 0 < n"
  shows "0 < k \<Longrightarrow> k \<le> grow 0 \<Longrightarrow> (scan_step grow n)\<^sup>*\<^sup>* scan_start (filled grow k)"
proof (induction k)
  case (Suc k)
  let ?mid = "(filled grow (Suc k))\<lparr>sc_spawned := k\<rparr>"
  have mid: "(scan_step grow n)\<^sup>*\<^sup>* scan_start ?mid"
  proof (cases "k = 0")
    case True
    have "scan_step grow n scan_start (scan_start\<lparr>sc_size := Suc (sc_size scan_start), sc_cap := grow (sc_size scan_start),
        sc_buffer := Suc (sc_buffer scan_start)\<rparr>)"
      by (rule scan_step.append_full) (use assms in \<open>simp_all add: scan_start_def\<close>)
    then show ?thesis by (simp add: True scan_start_def filled_def)
  next
    case False
    have "scan_step grow n (filled grow k) ((filled grow k)\<lparr>sc_size := Suc (sc_size (filled grow k))\<rparr>)"
      by (rule scan_step.append_room) (use assms Suc.prems in \<open>simp_all add: filled_def\<close>)
    then show ?thesis using Suc False by (simp add: filled_def rtranclp.rtrancl_into_rtrancl)
  qed
  have "scan_step grow n ?mid (?mid\<lparr>sc_spawned := Suc (sc_spawned ?mid)\<rparr>)"
    by (rule scan_step.spawn) (simp add: filled_def)
  with mid show ?case by (simp add: filled_def rtranclp.rtrancl_into_rtrancl)
qed simp

lemma large_race:
  assumes "0 < grow 0" and "grow 0 < n"
  shows "\<exists>s. (scan_step grow n)\<^sup>*\<^sup>* scan_start s \<and> sc_bad s"
proof -
  let ?a = "filled grow (grow 0)"
  let ?b = "?a\<lparr>sc_ref := Some (0, sc_buffer ?a)\<rparr>"
  let ?c = "?b\<lparr>sc_size := Suc (sc_size ?b), sc_cap := grow (sc_size ?b), sc_buffer := Suc (sc_buffer ?b)\<rparr>"
  let ?d = "?c\<lparr>sc_ref := None, sc_bad := sc_bad ?c \<or> sc_buffer ?a \<noteq> sc_buffer ?c\<rparr>"
  have "(scan_step grow n)\<^sup>*\<^sup>* scan_start ?a" using reach_filled [of grow n "grow 0"] assms by simp
  moreover have "scan_step grow n ?a ?b" by (rule scan_step.look_up) (use assms in \<open>simp_all add: filled_def\<close>)
  moreover have "scan_step grow n ?b ?c" by (rule scan_step.append_full) (use assms in \<open>simp_all add: filled_def\<close>)
  moreover have "scan_step grow n ?c ?d" by (rule scan_step.store) (simp add: filled_def)
  ultimately have "(scan_step grow n)\<^sup>*\<^sup>* scan_start ?d" by (meson rtranclp.rtrancl_into_rtrancl)
  moreover have "sc_bad ?d" by (simp add: filled_def)
  ultimately show ?thesis by blast
qed

text \<open>
  Starting the scanner races with its own threads: a thread can store a key into memory that was already freed exactly
  when there are more keyboards than the vector of the maps has room for after its first growth (two keyboards, with
  the usual growth from one element).
\<close>

theorem scanner_race:
  assumes "0 < grow 0"
  shows "(\<exists>s. (scan_step grow n)\<^sup>*\<^sup>* scan_start s \<and> sc_bad s) \<longleftrightarrow> grow 0 < n"
  using large_race [of grow n] assms small_no_race [of grow n] by (meson not_less)

section \<open>Witnesses\<close>

definition demo_keyboard :: "string \<Rightarrow> keyboard_open" where
  "demo_keyboard k = \<lparr>ko_fd = Some 3, ko_getfl = True, ko_setfl = True\<rparr>"

lemma scanner_race_witness: "\<exists>s. (scan_step Suc 2)\<^sup>*\<^sup>* scan_start s \<and> sc_bad s"
  using scanner_race [of Suc 2] by simp

lemma cancel_keys_held_witness:
  "\<exists>s. Start_scanner (Some [''x-event-kbd'', ''x-event-mouse'']) demo_keyboard new_scanner = Some s \<and>
    cancel_keys (store_events [(0, 29, 1), (0, 56, 1)] s) \<and> \<not> cancel_keys (store_events [(0, 29, 1), (0, 56, 1), (0, 29, 0)] s)"
proof -
  let ?s = "\<lparr>ks_fds = [3], ks_threads = [0], ks_running = True, ks_maps = [Map.empty], ks_open = [3]\<rparr> :: key_scanner"
  have run: "Start_scanner (Some [''x-event-kbd'', ''x-event-mouse'']) demo_keyboard new_scanner = Some ?s"
    by (simp add: Start_scanner_def new_scanner_def GetKeyboards_def ends_with_def demo_keyboard_def Let_def)
  show ?thesis using cancel_keys_held(2) [OF run, of "[(0, 29, 1), (0, 56, 1)]"]
      cancel_keys_held(2) [OF run, of "[(0, 29, 1), (0, 56, 1), (0, 29, 0)]"] run
    by (simp add: held_def KEY_LEFTCTRL_def KEY_LEFTALT_def)
qed

end
