(* ===== verification/Bluetooth.thy ===== *)
theory Bluetooth
  imports StringUtils
begin

unbundle bit_operations_syntax

text \<open>
  \<open>common/src/platform/BluetoothHelper.Linux.cpp\<close> and \<open>BluetoothHelper.Win.cpp\<close>: finding and pairing Bluetooth devices,
  the service records of an RFCOMM channel, and the texts of addresses. BlueZ and the Windows functions are parameters.
\<close>

section \<open>Devices (Linux)\<close>

record BluetoothDevice =
  bd_name :: string
  bd_address :: string

text \<open>The answers of the host controller: the route and the socket, the inquiry, and the name of a device.\<close>

record hci =
  hc_dev :: int
  hc_sock :: int
  hc_inquiry :: "(string list) option"        \<comment> \<open>the addresses found, as \<open>ba2str\<close> writes them\<close>
  hc_name :: "string \<Rightarrow> string option"

definition Linux_IsAvailable :: "hci \<Rightarrow> bool" where
  "Linux_IsAvailable h \<longleftrightarrow> \<not> (hc_dev h < 0 \<or> hc_sock h < 0)"

definition Linux_ScanDevices :: "hci \<Rightarrow> BluetoothDevice list" where
  "Linux_ScanDevices h =
     (if hc_dev h < 0 \<or> hc_sock h < 0 then []
      else case hc_inquiry h of
        None \<Rightarrow> []
      | Some ii \<Rightarrow> map (\<lambda>addr. \<lparr>bd_name = (case hc_name h addr of None \<Rightarrow> ''Unknown device'' | Some n \<Rightarrow> n), bd_address = addr\<rparr>) ii)"

text \<open>Pairing is left to the system on Linux.\<close>

definition Linux_PairDevice :: "BluetoothDevice \<Rightarrow> bool" where
  "Linux_PairDevice device = True"

section \<open>Service records (Linux)\<close>

text \<open>
  A data element of a record: an identifier, of any of the three widths, a byte, or something else. The access protocols of
  a record are lists of protocols, a protocol is a list of descriptors, a descriptor is a chain of elements.
\<close>

datatype 'u sdp_data = SDP_UUID 'u | SDP_UINT8 u8 | SDP_OTHER

type_synonym 'u access_protos = "'u sdp_data list list list"

definition L2CAP_UUID :: int where "L2CAP_UUID = 0x0100"
definition RFCOMM_UUID :: int where "RFCOMM_UUID = 0x0003"

text \<open>What \<open>FindSDPChannel\<close> is answered: \<open>sdp_uuid_to_proto\<close>, the steps that can fail, and the records found.\<close>

record 'u sdp =
  sd_proto :: "'u \<Rightarrow> int"
  sd_address_ok :: bool
  sd_session :: bool
  sd_search :: bool
  sd_records :: "'u access_protos option list"   \<comment> \<open>\<open>None\<close>: the access protocols cannot be read\<close>

fun scan_data :: "('u \<Rightarrow> int) \<Rightarrow> 'u sdp_data list \<Rightarrow> int \<times> int \<Rightarrow> int \<times> int" where
  "scan_data proto [] st = st"
| "scan_data proto (d # ds) (protocolCount, channel) =
     scan_data proto ds
       (case d of
          SDP_UUID u \<Rightarrow> (proto u, channel)
        | SDP_UINT8 v \<Rightarrow> (protocolCount, if protocolCount = RFCOMM_UUID then uint v else channel)
        | SDP_OTHER \<Rightarrow> (protocolCount, channel))"

definition scan_protocol :: "('u \<Rightarrow> int) \<Rightarrow> 'u sdp_data list list \<Rightarrow> int \<Rightarrow> int" where
  "scan_protocol proto pds channel = snd (fold (scan_data proto) pds (0, channel))"

fun scan_records :: "('u \<Rightarrow> int) \<Rightarrow> 'u access_protos option list \<Rightarrow> int \<Rightarrow> int option" where
  "scan_records proto [] channel = Some channel"
| "scan_records proto (r # rs) channel =
     (case r of None \<Rightarrow> None | Some protocols \<Rightarrow> scan_records proto rs (fold (scan_protocol proto) protocols channel))"

definition FindSDPChannel :: "'u sdp \<Rightarrow> int" where
  "FindSDPChannel e =
     (if \<not> sd_address_ok e then - 1
      else if \<not> sd_session e then - 1
      else if \<not> sd_search e then - 1
      else if sd_records e = [] then - 1
      else case scan_records (sd_proto e) (sd_records e) 0 of
        None \<Rightarrow> - 1
      | Some channel \<Rightarrow> if channel \<le> 0 \<or> channel > 30 then - 1 else channel)"

text \<open>
  The access protocols that \<open>RegisterSDPService\<close> puts into its record, with identifiers of 16 bits; its result is the session,
  if there is one, whether or not the record could be registered.
\<close>

definition service_protos :: "(int \<Rightarrow> 'u) \<Rightarrow> u8 \<Rightarrow> 'u access_protos" where
  "service_protos uuid16 channel = [[[SDP_UUID (uuid16 L2CAP_UUID)], [SDP_UUID (uuid16 RFCOMM_UUID), SDP_UINT8 channel]]]"

definition Linux_RegisterSDPService :: "(int \<Rightarrow> 'u) \<Rightarrow> nat option \<Rightarrow> ('u access_protos \<Rightarrow> int) \<Rightarrow> u8 \<Rightarrow> string list \<times> nat option" where
  "Linux_RegisterSDPService uuid16 session register channel =
     (if register (service_protos uuid16 channel) < 0 then [''sdp_record_register() failed.''] else [], session)"

text \<open>A service is its handle; closing it clears the handle.\<close>

definition CloseSDPService :: "(nat \<Rightarrow> bool) \<Rightarrow> nat option \<Rightarrow> bool \<times> nat option" where
  "CloseSDPService close service =
     (case service of None \<Rightarrow> (False, service) | Some h \<Rightarrow> if \<not> close h then (False, service) else (True, None))"

section \<open>Addresses (Windows)\<close>

definition hex_digit :: "nat \<Rightarrow> char" where
  "hex_digit n = char_of (if n < 10 then 48 + n else 55 + n)"

text \<open>\<open>%02X\<close> of a byte.\<close>

definition hex2 :: "u8 \<Rightarrow> string" where
  "hex2 b = [hex_digit (unat b div 16), hex_digit (unat b mod 16)]"

definition addr_bytes :: "u64 \<Rightarrow> u8 list" where
  "addr_bytes btaddr = map (\<lambda>i. ucast (drop_bit (i * 8) btaddr AND 0xFF)) [5, 4, 3, 2, 1, 0]"

definition ba2str :: "u64 \<Rightarrow> string" where
  "ba2str btaddr = intercalate '':'' (map hex2 (addr_bytes btaddr))"

text \<open>
  The conversions \<open>%x\<close> of \<open>sscanf\<close> with a width: white space, a sign, a prefix and digits, as many as the width
  admits; the value is limited to 64 bits.
\<close>

definition is_space :: "char \<Rightarrow> bool" where
  "is_space c \<longleftrightarrow> c \<in> {CHR '' '', CHR 0x09, CHR 0x0A, CHR 0x0B, CHR 0x0C, CHR 0x0D}"

definition hexval :: "char \<Rightarrow> nat option" where
  "hexval c = (let n = of_char c in
     if 48 \<le> n \<and> n \<le> 57 then Some (n - 48)
     else if 65 \<le> n \<and> n \<le> 70 then Some (n - 55)
     else if 97 \<le> n \<and> n \<le> 102 then Some (n - 87)
     else None)"

definition scan_hex :: "nat \<Rightarrow> string \<Rightarrow> (int \<times> string) option" where
  "scan_hex w s =
     (let s = dropWhile is_space s;
          (neg, s, w) = (if w \<noteq> 0 \<and> s \<noteq> [] \<and> (hd s = CHR ''-'' \<or> hd s = CHR ''+'') then (hd s = CHR ''-'', tl s, w - 1) else (False, s, w));
          (s, w) = (if 2 \<le> w \<and> (take 2 s = ''0x'' \<or> take 2 s = ''0X'') then (drop 2 s, w - 2) else (s, w));
          ds = takeWhile (\<lambda>c. hexval c \<noteq> None) (take w s);
          n = foldl (\<lambda>n c. 16 * n + int (the (hexval c))) 0 ds
      in if ds = [] then None
         else Some (if 2 ^ 64 \<le> n then 2 ^ 64 - 1 else if neg then - n else n, drop (length ds) s))"

text \<open>The fields before the first that does not match, separated by colons.\<close>

fun scan_fields :: "(string \<Rightarrow> nat) \<Rightarrow> nat \<Rightarrow> string \<Rightarrow> int list" where
  "scan_fields width 0 s = []"
| "scan_fields width (Suc n) s =
     (case scan_hex (width s) s of
        None \<Rightarrow> []
      | Some (v, r) \<Rightarrow> v # (case r of [] \<Rightarrow> [] | c # r' \<Rightarrow> if c = CHR '':'' then scan_fields width n r' else []))"

definition add_byte :: "u64 \<Rightarrow> int \<Rightarrow> u64" where
  "add_byte btaddr i = push_bit 8 btaddr + ucast (word_of_int i :: u8)"

definition str2ba :: "string \<Rightarrow> u64 option" where
  "str2ba straddr =
     (let aaddr = scan_fields (\<lambda>_. 2) 6 straddr in
      if length aaddr \<noteq> 6 then None else Some (foldl add_byte 0 aaddr))"

section \<open>Devices (Windows)\<close>

text \<open>The devices that the search finds, with \<open>FromWideString\<close> of their names; its last error; and the answer of pairing.\<close>

record win_bt =
  wb_devices :: "(u64 \<times> string) list"
  wb_error :: u32
  wb_auth :: "u64 \<Rightarrow> u32"

definition ERROR_NO_MORE_ITEMS :: u32 where "ERROR_NO_MORE_ITEMS = 259"

definition Win_ScanDevices :: "win_bt \<Rightarrow> string list \<times> BluetoothDevice list" where
  "Win_ScanDevices e =
     (if wb_devices e = [] then
        (if wb_error e \<noteq> ERROR_NO_MORE_ITEMS then [''Error getting bluetooth search handle.''] else [], [])
      else ([], map (\<lambda>(a, name). \<lparr>bd_name = (if name = [] then ''Unknown device'' else name), bd_address = ba2str a\<rparr>) (wb_devices e)))"

text \<open>The fields of the address that could be read are its first bytes; the others stay zero.\<close>

definition target_address :: "string \<Rightarrow> u64" where
  "target_address s = (let bs = scan_fields length 6 s in foldl add_byte 0 (bs @ replicate (6 - length bs) 0))"

definition Win_PairDevice :: "win_bt \<Rightarrow> BluetoothDevice \<Rightarrow> bool" where
  "Win_PairDevice e device =
     (case find (\<lambda>(a, name). ba2str a = ba2str (target_address (bd_address device))) (wb_devices e) of
        None \<Rightarrow> False
      | Some (a, name) \<Rightarrow> wb_auth e a = 0 \<or> wb_auth e a = ERROR_NO_MORE_ITEMS)"

section \<open>Texts of addresses\<close>

lemma hexval_digit: "n < 16 \<Longrightarrow> hexval (hex_digit n) = Some n"
  by (auto simp: hexval_def hex_digit_def Let_def)

lemma hexval_plain:
  assumes "hexval c = Some v"
  shows "\<not> is_space c" and "c \<notin> {CHR ''-'', CHR ''+'', CHR ''x'', CHR ''X''}"
proof -
  have "hexval CHR ''-'' = None" "hexval CHR ''+'' = None" "hexval CHR ''x'' = None" "hexval CHR ''X'' = None" by code_simp+
  then show "c \<notin> {CHR ''-'', CHR ''+'', CHR ''x'', CHR ''X''}" using assms by auto
  have "hexval CHR '' '' = None" "hexval CHR 0x09 = None" "hexval CHR 0x0A = None" "hexval CHR 0x0B = None"
      "hexval CHR 0x0C = None" "hexval CHR 0x0D = None" by code_simp+
  then show "\<not> is_space c" using assms by (auto simp: is_space_def)
qed

lemma scan_hex_two:
  assumes h: "hexval h = Some a" and l: "hexval l = Some b" and r: "takeWhile (\<lambda>c. hexval c \<noteq> None) (take k r) = []"
    and small: "\<not> 2 ^ 64 \<le> 16 * int a + int b"
  shows "scan_hex (Suc (Suc k)) (h # l # r) = Some (16 * int a + int b, r)"
proof -
  have "dropWhile is_space (h # l # r) = h # l # r" using hexval_plain(1) [OF h] by simp
  moreover have "\<not> (h = CHR ''-'' \<or> h = CHR ''+'')" using hexval_plain(2) [OF h] by auto
  moreover have "\<not> ([h, l] = ''0x'' \<or> [h, l] = ''0X'')" using hexval_plain(2) [OF l] by auto
  moreover have "takeWhile (\<lambda>c. hexval c \<noteq> None) (take (Suc (Suc k)) (h # l # r)) = [h, l]" using h l r by simp
  ultimately show ?thesis using small by (simp only: scan_hex_def Let_def list.sel prod.case) (simp add: h l)
qed

lemma scan_hex2:
  assumes "w = 2 \<or> 2 \<le> w \<and> (r = [] \<or> hexval (hd r) = None)"
  shows "scan_hex w (hex2 b @ r) = Some (uint b, r)"
proof -
  let ?h = "unat b div 16" and ?l = "unat b mod 16"
  have b: "unat b < 256" using unsigned_less [of b] by simp
  then have h: "?h < 16" "?l < 16" by simp_all
  obtain k where w: "w = Suc (Suc k)" using assms by (metis add_2_eq_Suc le_Suc_ex numeral_2_eq_2)
  have "takeWhile (\<lambda>c. hexval c \<noteq> None) (take k r) = []"
    using assms w by (cases r; cases k) auto
  note two = scan_hex_two [OF hexval_digit [OF h(1)] hexval_digit [OF h(2)] this]
  have "16 * int (m div 16) + int (m mod 16) = int m" for m :: nat by presburger
  then have "16 * int ?h + int ?l = uint b" by (simp only: of_nat_unat)
  moreover have "\<not> 2 ^ 64 \<le> uint b" using uint_bounded [of b] by simp
  ultimately show ?thesis using two by (simp only: hex2_def w append.simps not_False_eq_True simp_thms)
qed

lemma scan_fields_hex2:
  assumes "\<And>s. width s = 2 \<or> width s = length s"
  shows "bs \<noteq> [] \<Longrightarrow> scan_fields width (length bs) (intercalate '':'' (map hex2 bs)) = map uint bs"
proof (induction bs rule: induct_list012)
  case (2 b)
  have "scan_hex (width (hex2 b)) (hex2 b @ []) = Some (uint b, [])"
    by (rule scan_hex2) (use assms [of "hex2 b"] in \<open>auto simp: hex2_def\<close>)
  then show ?case by simp
next
  case (3 b c bs)
  let ?r = "CHR '':'' # intercalate '':'' (map hex2 (c # bs))"
  have "hexval CHR '':'' = None" by code_simp
  then have "scan_hex (width (hex2 b @ ?r)) (hex2 b @ ?r) = Some (uint b, ?r)"
    by (intro scan_hex2) (use assms [of "hex2 b @ ?r"] in \<open>auto simp: hex2_def\<close>)
  then show ?case using 3 by simp
qed simp

definition low48 :: "u64 \<Rightarrow> u64" where
  "low48 w = take_bit 48 w"

lemma add_byte_or: "add_byte b (uint (x :: u8)) = push_bit 8 b OR ucast x"
proof -
  have "push_bit 8 b + ucast x = push_bit 8 b OR (ucast x :: u64)"
    by (rule disjunctive_add) (auto simp: bit_simps dest: bit_imp_le_length)
  then show ?thesis by (simp add: add_byte_def)
qed

lemma add_next_byte:
  "push_bit 8 (take_bit n (drop_bit (m + 8) w)) OR ucast (ucast (drop_bit m w AND 0xFF :: u64) :: u8) = take_bit (n + 8) (drop_bit m w)"
proof -
  have m: "v AND 0xFF = take_bit 8 v" for v :: u64 by (simp add: take_bit_eq_mask mask_eq_exp_minus_1)
  show ?thesis unfolding m by (rule bit_word_eqI) (auto simp: bit_simps)
qed

lemma addr_bytes_back: "foldl add_byte 0 (map uint (addr_bytes w)) = low48 w"
  using add_next_byte [of 0 40 w] add_next_byte [of 8 32 w] add_next_byte [of 16 24 w] add_next_byte [of 24 16 w]
    add_next_byte [of 32 8 w] add_next_byte [of 40 0 w]
  by (simp add: addr_bytes_def add_byte_or low48_def)

lemma addr_bytes_low48: "addr_bytes (low48 w) = addr_bytes w"
  by (auto simp: addr_bytes_def low48_def intro!: bit_word_eqI simp: bit_simps)

lemma ba2str_low48: "ba2str (low48 w) = ba2str w"
  by (simp add: ba2str_def addr_bytes_low48)

lemma length_addr_bytes: "length (addr_bytes w) = 6"
  by (simp add: addr_bytes_def)

lemma scan_ba2str:
  assumes "\<And>s. width s = 2 \<or> width s = length s"
  shows "scan_fields width 6 (ba2str w) = map uint (addr_bytes w)"
proof -
  have "addr_bytes w \<noteq> []" by (simp add: addr_bytes_def)
  from scan_fields_hex2 [OF assms this] show ?thesis by (simp only: ba2str_def length_addr_bytes)
qed

lemma str2ba_ba2str: "str2ba (ba2str w) = Some (low48 w)"
  by (simp add: str2ba_def scan_ba2str length_addr_bytes addr_bytes_back)

lemma target_ba2str: "target_address (ba2str w) = low48 w"
  by (simp add: target_address_def scan_ba2str length_addr_bytes addr_bytes_back)

lemma ba2str_inject: "ba2str v = ba2str w \<longleftrightarrow> low48 v = low48 w"
  by (metis ba2str_low48 option.inject str2ba_ba2str)

text \<open>
  C20: On Windows the text of a Bluetooth address keeps the address: it is read back to the 48 bits it was written from, by the
  connection that stores it, and pairing a device that the scan listed asks the system to pair a device of the
  search with that very address.
\<close>

theorem scanned_device_paired:
  "str2ba (ba2str w) = Some (low48 w) \<and>
    (device \<in> set (snd (Win_ScanDevices e)) \<longrightarrow>
      (\<exists>a name. (a, name) \<in> set (wb_devices e) \<and> str2ba (bd_address device) = Some (low48 a) \<and>
        (Win_PairDevice e device \<longleftrightarrow> wb_auth e a \<in> {0, ERROR_NO_MORE_ITEMS})))"
proof (intro conjI impI)
  show "str2ba (ba2str w) = Some (low48 w)" by (rule str2ba_ba2str)
  assume "device \<in> set (snd (Win_ScanDevices e))"
  then obtain b n where b: "(b, n) \<in> set (wb_devices e)" "bd_address device = ba2str b"
    by (auto simp: Win_ScanDevices_def split: if_splits)
  have eq: "(\<lambda>(a, name). ba2str a = ba2str (target_address (bd_address device))) = (\<lambda>(a, name :: string). low48 a = low48 b)"
    by (auto simp: b target_ba2str ba2str_low48 ba2str_inject)
  obtain a name where f: "find (\<lambda>(a, name). low48 a = low48 b) (wb_devices e) = Some (a, name)"
    using b(1) by (cases "find (\<lambda>(a, name). low48 a = low48 b) (wb_devices e)") (auto simp: find_None_iff)
  then have "(a, name) \<in> set (wb_devices e)" "low48 a = low48 b" by (auto simp: find_Some_iff) (metis nth_mem)
  then show "\<exists>a name. (a, name) \<in> set (wb_devices e) \<and> str2ba (bd_address device) = Some (low48 a) \<and>
        (Win_PairDevice e device \<longleftrightarrow> wb_auth e a \<in> {0, ERROR_NO_MORE_ITEMS})"
    using f by (intro exI [of _ a] exI [of _ name]) (simp add: Win_PairDevice_def eq str2ba_ba2str, simp add: b(2) str2ba_ba2str)
qed

section \<open>The channel of a service\<close>

lemma FindSDPChannel_range: "FindSDPChannel e = - 1 \<or> 1 \<le> FindSDPChannel e \<and> FindSDPChannel e \<le> 30"
  by (auto simp: FindSDPChannel_def split: option.splits)

lemma scan_service:
  assumes "proto (uuid16 RFCOMM_UUID) = RFCOMM_UUID"
  shows "fold (scan_protocol proto) (service_protos uuid16 channel) c = uint channel"
  using assms by (simp add: service_protos_def scan_protocol_def)

lemma scan_records_append:
  "scan_records proto (rs @ ss) c = (case scan_records proto rs c of None \<Rightarrow> None | Some d \<Rightarrow> scan_records proto ss d)"
  by (induction rs arbitrary: c) (auto split: option.splits)

text \<open>
  A phone's service is found again: when a record like the one that the program registers itself is the last answer to the
  search, and the records before it can be read, the search yields exactly its channel if that is a channel of RFCOMM,
  between 1 and 30; and whatever is answered, the result is such a channel or -1.
\<close>

theorem service_channel_found:
  shows "FindSDPChannel e = - 1 \<or> 1 \<le> FindSDPChannel e \<and> FindSDPChannel e \<le> 30"
    and "sd_address_ok e \<Longrightarrow> sd_session e \<Longrightarrow> sd_search e \<Longrightarrow> sd_proto e (uuid16 RFCOMM_UUID) = RFCOMM_UUID \<Longrightarrow>
      sd_records e = rs @ [Some (service_protos uuid16 channel)] \<Longrightarrow> \<forall>r \<in> set rs. r \<noteq> None \<Longrightarrow>
      FindSDPChannel e = (if 1 \<le> channel \<and> channel \<le> 30 then uint channel else - 1)"
proof -
  show "FindSDPChannel e = - 1 \<or> 1 \<le> FindSDPChannel e \<and> FindSDPChannel e \<le> 30" by (rule FindSDPChannel_range)
  assume e: "sd_address_ok e" "sd_session e" "sd_search e" "sd_proto e (uuid16 RFCOMM_UUID) = RFCOMM_UUID"
    "sd_records e = rs @ [Some (service_protos uuid16 channel)]" "\<forall>r \<in> set rs. r \<noteq> None"
  have "\<exists>d. scan_records (sd_proto e) rs c = Some d" for c
    using e(6) by (induction rs arbitrary: c) auto
  then obtain d where "scan_records (sd_proto e) rs 0 = Some d" by blast
  moreover have "fold (scan_protocol (sd_proto e)) (service_protos uuid16 channel) d = uint channel"
    by (rule scan_service) (rule e(4))
  ultimately have s: "scan_records (sd_proto e) (sd_records e) 0 = Some (uint channel)"
    by (simp add: e(5) scan_records_append)
  have nonneg: "0 \<le> uint channel" by simp
  have "uint channel \<le> 0 \<or> uint channel > 30 \<longleftrightarrow> \<not> (1 \<le> channel \<and> channel \<le> 30)"
    by (simp add: word_le_def) (use nonneg in presburger)
  with s e(1-3,5) show "FindSDPChannel e = (if 1 \<le> channel \<and> channel \<le> 30 then uint channel else - 1)"
    by (simp add: FindSDPChannel_def)
qed

section \<open>Witnesses\<close>

definition demo_bt :: win_bt where
  "demo_bt = \<lparr>wb_devices = [(0x112233445566, ''Phone'')], wb_error = 0, wb_auth = (\<lambda>_. 0)\<rparr>"

lemma scanned_device_paired_witness:
  "Win_PairDevice demo_bt \<lparr>bd_name = ''Phone'', bd_address = ''11:22:33:44:55:66''\<rparr>"
proof -
  have "ba2str 0x112233445566 = ''11:22:33:44:55:66''" by code_simp
  then have "\<lparr>bd_name = ''Phone'', bd_address = ''11:22:33:44:55:66''\<rparr> \<in> set (snd (Win_ScanDevices demo_bt))"
    by (simp add: Win_ScanDevices_def demo_bt_def)
  from scanned_device_paired [of 0, THEN conjunct2, THEN mp, OF this] show ?thesis by (auto simp: demo_bt_def)
qed

definition demo_sdp :: "int sdp" where
  "demo_sdp = \<lparr>sd_proto = (\<lambda>u. u), sd_address_ok = True, sd_session = True, sd_search = True,
     sd_records = [Some (service_protos (\<lambda>u. u) 4)]\<rparr>"

lemma service_channel_found_witness: "FindSDPChannel demo_sdp = 4"
  using service_channel_found(2) [of demo_sdp "\<lambda>u. u" "[]" 4] by (simp add: demo_sdp_def)

end
