(* ===== verification/Updater.thy ===== *)
theory Updater
  imports AppInfo ExternalLibs Shell
begin

text \<open>
  \<open>desktop/src/ui/UpdaterWindow.cpp\<close> and the request of \<open>common/src/utils/RestClient.cpp\<close> behind it: asking for a newer
  version, downloading it and starting it. The answers of the server and the results of commands are parameters.
\<close>

section \<open>Asking for a version\<close>

text \<open>\<open>RestClient::CheckForUpdates\<close>: the answer of the server, or no answer; \<open>None\<close> is an exception.\<close>

definition check_path :: "string \<Rightarrow> string \<Rightarrow> string \<Rightarrow> string" where
  "check_path product pf version =
     ''/rest/checkUpdates?product='' @ product @ ''&platform='' @ pf @ ''&currVersion='' @ version"

definition RestCheckForUpdates :: "'j json_lib \<Rightarrow> (string \<Rightarrow> string option) \<Rightarrow> string \<Rightarrow> string \<Rightarrow> string \<Rightarrow> string option" where
  "RestCheckForUpdates J request version product pf = do {
     body \<leftarrow> request (check_path product pf version);
     resultJson \<leftarrow> j_parse J body;
     get_string J resultJson ''version''
   }"

text \<open>The latest version that the window keeps, and whether it is shown.\<close>

definition CheckForUpdates :: "'j json_lib \<Rightarrow> (string \<Rightarrow> string option) \<Rightarrow> string \<Rightarrow> string \<times> bool" where
  "CheckForUpdates J request version =
     (case RestCheckForUpdates J request version ''PCBioUnlock'' ''Desktop'' of
        None \<Rightarrow> ([], False)
      | Some latestVersion \<Rightarrow> (latestVersion, CompareVersion version latestVersion = 1))"

definition GetDownloadURL :: "platform \<Rightarrow> string \<Rightarrow> string" where
  "GetDownloadURL pf arch =
     (let os = GetOperatingSystem pf;
          os = (if os = ''Windows'' then ''win'' else os);
          os = (if os = ''Linux'' then ''linux'' else os);
          os = (if os = ''macOS'' then ''mac'' else os)
      in ''/download?product=PCBioUnlock&platform='' @ os @ ''_'' @ arch)"

section \<open>The name of the download\<close>

text \<open>
  The search for \<open>.*filename="(.*)"\<close>: dots do not match the end of a line and repetitions are greedy, so the name
  begins after the last \<open>filename="\<close> of the first line that matches, and ends before the last quote of the line.
\<close>

definition QUOTE :: char where "QUOTE = CHR 0x22"

definition FILENAME :: string where "FILENAME = ''filename='' @ [QUOTE]"

fun header_lines :: "string \<Rightarrow> string list" where
  "header_lines [] = [[]]"
| "header_lines (c # s) =
     (if c = CHR 0x0A \<or> c = CHR 0x0D then [] # header_lines s else (c # hd (header_lines s)) # tl (header_lines s))"

definition name_starts :: "string \<Rightarrow> nat list" where
  "name_starts line = filter (\<lambda>p. starts_with (drop p line) FILENAME \<and> QUOTE \<in> set (drop (p + length FILENAME) line)) [0..<length line]"

definition upto_last_quote :: "string \<Rightarrow> string" where
  "upto_last_quote s = rev (tl (dropWhile (\<lambda>c. c \<noteq> QUOTE) (rev s)))"

definition line_name :: "string \<Rightarrow> string option" where
  "line_name line = (if name_starts line = [] then None
     else Some (upto_last_quote (drop (last (name_starts line) + length FILENAME) line)))"

fun first_name :: "string list \<Rightarrow> string option" where
  "first_name [] = None"
| "first_name (l # ls) = (case line_name l of None \<Rightarrow> first_name ls | Some n \<Rightarrow> Some n)"

definition default_name :: "platform \<Rightarrow> string" where
  "default_name pf = (case pf of Windows \<Rightarrow> ''Update-PCBioUnlock.exe'' | Linux \<Rightarrow> ''Update-PCBioUnlock.AppImage'' | Apple \<Rightarrow> ''Update-PCBioUnlock.dmg'')"

definition download_name :: "platform \<Rightarrow> string \<Rightarrow> string" where
  "download_name pf contentHeader =
     (case first_name (header_lines contentHeader) of None \<Rightarrow> default_name pf | Some n \<Rightarrow> ''Update-'' @ n)"

section \<open>Downloading\<close>

text \<open>
  One download: the pieces of the body and whether there was a result, its header, the \<open>APPIMAGE\<close> of the environment and the
  directory of a path, the temporary directory of Windows, the directory of the bundle on macOS, the process, and commands.
\<close>

record download =
  dl_chunks :: "bytes list"
  dl_result :: bool
  dl_header :: string
  dl_appimage :: "string option"
  dl_parent :: "string \<Rightarrow> string"
  dl_temp :: string
  dl_exe :: "string list option"            \<comment> \<open>the components of the canonical path of the program (macOS)\<close>
  dl_pid :: string
  dl_run :: "string \<Rightarrow> process"

datatype update_event = CloseUpdater string | RunCmd string | SpawnCmd string | QuitApp

text \<open>On macOS the folder that holds the application: what is in front of the first component with \<open>.app\<close> in its name.\<close>

fun bundle_parent :: "string list \<Rightarrow> string list option" where
  "bundle_parent [] = None"
| "bundle_parent (p # ps) = (if str_contains p ''.app'' then Some [] else map_option ((#) p) (bundle_parent ps))"

definition root_path :: "string list \<Rightarrow> string" where
  "root_path ps = (if ps = [] then ''/'' else concat (map (\<lambda>p. ''/'' @ p) ps))"

definition GetDownloadDirectory :: "platform \<Rightarrow> download \<Rightarrow> string" where
  "GetDownloadDirectory pf d =
     (case pf of
        Windows \<Rightarrow> dl_temp d
      | Linux \<Rightarrow> (case dl_appimage d of Some p \<Rightarrow> dl_parent d p | None \<Rightarrow> ''.'')
      | Apple \<Rightarrow> (case Option.bind (dl_exe d) bundle_parent of Some ps \<Rightarrow> root_path ps | None \<Rightarrow> ''.''))"

text \<open>The progress that is shown, in per cent of 64-bit counters; a total of 0 would divide by zero.\<close>

definition progress_percent :: "u64 \<Rightarrow> u64 \<Rightarrow> int option" where
  "progress_percent len all = (if all = 0 then None else Some (sint (ucast (len * 100 div all) :: u32)))"

definition swap_command :: "string \<Rightarrow> string \<Rightarrow> string \<Rightarrow> string" where
  "swap_command pid dlPath dstPath =
     ''while ps -p '' @ pid @ '' > /dev/null 2>&1; do sleep 1; done && mv '' @ dlPath @ '' '' @ dstPath @ '' && '' @ dstPath"

definition OnDownloadClicked :: "platform \<Rightarrow> (string \<Rightarrow> string \<Rightarrow> string) \<Rightarrow> download \<Rightarrow> fs \<Rightarrow> update_event list \<times> fs" where
  "OnDownloadClicked pf join d f =
     (let fileData = concat (dl_chunks d) in
      if \<not> dl_result d \<or> fileData = [] then ([CloseUpdater ''Error downloading update.''], f)
      else let dlPath = join (GetDownloadDirectory pf d) (download_name pf (dl_header d));
               (ok, f) = WriteBytes f dlPath fileData
      in if \<not> ok then ([CloseUpdater ''Error saving update.''], f)
         else if pf = Linux then
           (let chmod = ''chmod +x '' @ dlPath in
            if sr_exitCode (RunCommand pf (dl_run d chmod)) \<noteq> 0 then ([RunCmd chmod, CloseUpdater ''Error making AppImage executable.''], f)
            else let dstPath = (case dl_appimage d of Some p \<Rightarrow> p | None \<Rightarrow> dlPath)
                 in ([RunCmd chmod, SpawnCmd (swap_command (dl_pid d) dlPath dstPath), QuitApp], f))
         else ([SpawnCmd dlPath, QuitApp], f))"

section \<open>What is shown and run\<close>

lemma last_filter_upt:
  assumes "P k" and "k < n" and "\<And>p. k < p \<Longrightarrow> p < n \<Longrightarrow> \<not> P p"
  shows "filter P [0..<n] \<noteq> [] \<and> last (filter P [0..<n]) = k"
proof -
  obtain m where n: "n = k + m" "0 < m" using assms(2) by (metis less_imp_add_positive)
  then have "[0..<n] = [0..<k] @ k # [Suc k..<n]" using upt_add_eq_append [of 0 k m] by (simp add: upt_conv_Cons)
  moreover have "filter P [Suc k..<n] = []" using assms(3) by (auto simp: filter_empty_conv)
  ultimately show ?thesis using assms(1) by simp
qed

lemma header_lines_single: "CHR 0x0A \<notin> set s \<Longrightarrow> CHR 0x0D \<notin> set s \<Longrightarrow> header_lines s = [s]"
  by (induction s) auto

lemma upto_last_quote_back: "QUOTE \<notin> set post \<Longrightarrow> upto_last_quote (n @ QUOTE # post) = n"
proof -
  assume "QUOTE \<notin> set post"
  then have "dropWhile (\<lambda>c. c \<noteq> QUOTE) (rev post @ QUOTE # rev n) = QUOTE # rev n" by (subst dropWhile_append2) auto
  then show ?thesis by (simp add: upto_last_quote_def)
qed

lemma filter_drop_le: "length (filter P (drop k xs)) \<le> length (filter P xs)"
  by (metis append_take_drop_id filter_append le_add2 length_append)

lemma starts_then:
  assumes "starts_with (drop p l) f" and "x \<in> set (drop (p + length f) l)"
  shows "\<exists>r. drop p l = f @ r \<and> x \<in> set r"
proof -
  obtain r where r: "drop p l = f @ r" using assms(1) by (auto simp: starts_with_prefix prefix_def)
  have "drop (p + length f) l = drop (length f) (drop p l)" by (simp add: add.commute)
  then show ?thesis using assms(2) r by simp
qed

lemma drop_first: "drop j xs = f @ r \<Longrightarrow> f \<noteq> [] \<Longrightarrow> j < length xs \<Longrightarrow> xs ! j = hd f"
  by (metis hd_append2 hd_drop_conv_nth)

lemma line_name_quoted:
  assumes "QUOTE \<notin> set n" and "QUOTE \<notin> set post"
  shows "line_name (pre @ FILENAME @ n @ QUOTE # post) = Some n"
proof -
  let ?line = "pre @ FILENAME @ n @ QUOTE # post"
  let ?P = "\<lambda>p. starts_with (drop p ?line) FILENAME \<and> QUOTE \<in> set (drop (p + length FILENAME) ?line)"
  have later: "\<not> ?P p" if gt: "length pre < p" for p
  proof
    assume p: "?P p"
    then obtain r where r: "drop p ?line = FILENAME @ r" "QUOTE \<in> set r" using starts_then [OF conjunct1 [OF p] conjunct2 [OF p]] by blast
    obtain j where j: "p = length pre + j" "0 < j" using less_imp_add_positive [OF gt] by blast
    have d: "drop j (FILENAME @ n @ QUOTE # post) = FILENAME @ r" using r(1) by (simp add: j)
    have two: "2 \<le> length (filter (\<lambda>c. c = QUOTE) (FILENAME @ r))"
      using r(2) by (auto simp: FILENAME_def filter_empty_conv Suc_le_eq)
    show False
    proof (cases "j < length FILENAME")
      case True
      have "(FILENAME @ n @ QUOTE # post) ! j = hd FILENAME"
        by (rule drop_first [OF d]) (use True in \<open>simp_all add: FILENAME_def\<close>)
      then have "FILENAME ! j = CHR ''f''" using True by (simp add: nth_append) (simp add: FILENAME_def)
      moreover have "list_all (\<lambda>j. FILENAME ! j \<noteq> CHR ''f'') [1..<length FILENAME]" by code_simp
      ultimately show False using True j(2) by (auto simp: list_all_iff)
    next
      case False
      then have "FILENAME @ r = drop (j - length FILENAME) (n @ QUOTE # post)" using d by simp
      moreover have "filter (\<lambda>c. c = QUOTE) (n @ QUOTE # post) = [QUOTE]"
      proof -
        have "filter (\<lambda>c. c = QUOTE) n = []" "filter (\<lambda>c. c = QUOTE) post = []" using assms by (auto simp: filter_empty_conv)
        then show ?thesis by simp
      qed
      ultimately show False
        using two filter_drop_le [of "\<lambda>c. c = QUOTE" "j - length FILENAME" "n @ QUOTE # post"] by simp
    qed
  qed
  have "?P (length pre)" by (simp add: starts_with_prefix)
  moreover have "length pre < length ?line" by simp
  ultimately have "name_starts ?line \<noteq> [] \<and> last (name_starts ?line) = length pre"
    unfolding name_starts_def using later by (intro last_filter_upt) blast+
  then show ?thesis by (simp add: line_name_def upto_last_quote_back [OF assms(2)])
qed

lemma download_name_quoted:
  assumes "\<forall>c \<in> set (pre @ FILENAME @ n @ QUOTE # post). c \<noteq> CHR 0x0A \<and> c \<noteq> CHR 0x0D" and "QUOTE \<notin> set n" and "QUOTE \<notin> set post"
  shows "download_name pf (pre @ FILENAME @ n @ QUOTE # post) = ''Update-'' @ n"
proof -
  have "header_lines (pre @ FILENAME @ n @ QUOTE # post) = [pre @ FILENAME @ n @ QUOTE # post]"
    by (rule header_lines_single) (use assms(1) in blast)+
  then show ?thesis using line_name_quoted [OF assms(2,3)] by (simp add: download_name_def)
qed

lemma WriteBytes_whole: "WriteBytes f p data = (True, g) \<Longrightarrow> fs_files g p = Some data"
  by (auto simp: WriteBytes_def split: option.splits)

text \<open>
  C19: The updater runs nothing but what it has downloaded and saved whole: when a command is started, the body arrived and
  was not empty, the file that the command names holds exactly that body, on Linux it was made executable, and the
  program quits; otherwise the window is closed with an error. But the name of that file is whatever text the server
  puts between the quotes of its header, and on Linux it goes into the commands of a shell as it is.
\<close>

theorem update_runs_download:
  assumes "OnDownloadClicked pf join d f = (evs, g)"
  defines "dlPath \<equiv> join (GetDownloadDirectory pf d) (download_name pf (dl_header d))"
  shows "(\<forall>c. SpawnCmd c \<in> set evs \<longrightarrow> last evs = QuitApp \<and> dl_result d \<and> concat (dl_chunks d) \<noteq> [] \<and>
      fs_files g dlPath = Some (concat (dl_chunks d)) \<and> (pf \<noteq> Linux \<longrightarrow> c = dlPath) \<and>
      (pf = Linux \<longrightarrow> pr_exit (dl_run d (''chmod +x '' @ dlPath)) = 0 \<and>
        (\<exists>dst. c = swap_command (dl_pid d) dlPath dst \<and> dst \<in> {dlPath} \<union> set_option (dl_appimage d)))) \<and>
    ((\<forall>c. SpawnCmd c \<notin> set evs) \<longrightarrow> (\<exists>m. last evs = CloseUpdater m)) \<and>
    (\<forall>pre n post. dl_header d = pre @ FILENAME @ n @ QUOTE # post \<longrightarrow> QUOTE \<notin> set n \<longrightarrow> QUOTE \<notin> set post \<longrightarrow>
      (\<forall>c \<in> set (dl_header d). c \<noteq> CHR 0x0A \<and> c \<noteq> CHR 0x0D) \<longrightarrow>
      dlPath = join (GetDownloadDirectory pf d) (''Update-'' @ n))"
  using assms(1) download_name_quoted
  by (auto simp: OnDownloadClicked_def dlPath_def Let_def RunCommand_def RunUserCommand_def
      split: if_splits prod.splits option.splits dest: WriteBytes_whole)

text \<open>The window offers an update exactly when the version of the server is newer, and never for a version that is none.\<close>

lemma update_iff_newer:
  assumes "RestCheckForUpdates J request version ''PCBioUnlock'' ''Desktop'' = Some latest"
    and "parse_version version = Some xs" and "parse_version latest = Some ys"
  shows "CheckForUpdates J request version = (latest, older xs ys)"
  using CompareVersion_parsed [OF assms(2,3)] older_irrefl [of xs ys] same_not_older [of xs ys] assms(1)
  by (auto simp: CheckForUpdates_def)

lemma no_update_unparsed:
  "RestCheckForUpdates J request version ''PCBioUnlock'' ''Desktop'' = Some latest \<Longrightarrow> parse_version latest = None \<Longrightarrow>
    CheckForUpdates J request version = (latest, False)"
  by (auto simp: CheckForUpdates_def CompareVersion_def split: option.splits)

section \<open>Witnesses\<close>

definition demo_download :: download where
  "demo_download = \<lparr>dl_chunks = [[1], [2]], dl_result = True, dl_header = ''attachment; '' @ FILENAME @ ''x; reboot'' @ QUOTE # [],
     dl_appimage = None, dl_parent = (\<lambda>p. p), dl_temp = ''t'', dl_exe = None, dl_pid = ''1'',
     dl_run = (\<lambda>_. \<lparr>pr_exit = 0, pr_stdout = [], pr_stderr = [], pr_output = []\<rparr>)\<rparr>"

lemma update_runs_download_witness:
  "\<exists>evs g. OnDownloadClicked Linux path_join demo_download \<lparr>fs_files = (\<lambda>_. None), fs_dirs = (\<lambda>_. True), fs_readable = (\<lambda>_. True),
     fs_capacity = (\<lambda>_. Some 9), fs_mkdir = True, fs_remove = (\<lambda>_. True)\<rparr> = (evs, g) \<and>
   RunCmd (''chmod +x ./Update-x; reboot'') \<in> set evs \<and> fs_files g ''./Update-x; reboot'' = Some [1, 2]"
proof -
  let ?f = "\<lparr>fs_files = (\<lambda>_. None), fs_dirs = (\<lambda>_. True), fs_readable = (\<lambda>_. True),
     fs_capacity = (\<lambda>_. Some 9), fs_mkdir = True, fs_remove = (\<lambda>_. True)\<rparr> :: fs"
  obtain evs g where run: "OnDownloadClicked Linux path_join demo_download ?f = (evs, g)"
    by (cases "OnDownloadClicked Linux path_join demo_download ?f")
  have name: "download_name Linux (dl_header demo_download) = ''Update-x; reboot''"
    using download_name_quoted [of "''attachment; ''" "''x; reboot''" "[]" Linux] by (simp add: demo_download_def FILENAME_def QUOTE_def)
  have "RunCmd (''chmod +x ./Update-x; reboot'') \<in> set evs" "\<exists>c. SpawnCmd c \<in> set evs"
    using run name by (auto simp: OnDownloadClicked_def Let_def RunCommand_def RunUserCommand_def demo_download_def WriteBytes_def
        GetDownloadDirectory_def path_join_def)
  moreover have "fs_files g ''./Update-x; reboot'' = Some [1, 2]"
    using update_runs_download [OF run] calculation(2) name
    by (auto simp: demo_download_def GetDownloadDirectory_def path_join_def)
  ultimately show ?thesis using run by blast
qed

end
