(* ===== verification/LoginCheck.thy ===== *)
theory LoginCheck
  imports PairingForm WinPlatform PamModule
begin

text \<open>
  \<open>common/src/platform/PlatformHelper.Mac.cpp\<close>, and the check of a login as an interface: the pairing assistant and the
  PAM program rely on a check that succeeds exactly for the valid passwords of the system; the three implementations
  of \<open>PlatformHelper::CheckLogin\<close> provide it, each with what its system takes for valid.
\<close>

section \<open>macOS\<close>

definition Mac_GetAllUsers :: "ShellCmdResult \<Rightarrow> string list" where
  "Mac_GetAllUsers cmdResult =
     filter (\<lambda>userLine. \<not> (userLine = [] \<or> starts_with userLine ''_'' \<or> userLine = ''daemon'' \<or> userLine = ''nobody''))
       (splitBy [CHR 0x0A] (sr_output cmdResult))"

text \<open>The user of the console; the name is copied up to its first NUL.\<close>

definition Mac_GetCurrentUser :: "string option \<Rightarrow> bool \<Rightarrow> string" where
  "Mac_GetCurrentUser consoleUser copied = (case consoleUser of None \<Rightarrow> [] | Some u \<Rightarrow> if copied then c_text u else [])"

definition Mac_HasUserPassword :: "string \<Rightarrow> bool" where
  "Mac_HasUserPassword userName = True"

text \<open>The number of identities with the name, and whether the one identity accepts the password.\<close>

definition Mac_CheckLogin :: "(string \<Rightarrow> nat) \<Rightarrow> (string \<Rightarrow> string \<Rightarrow> bool) \<Rightarrow> string \<Rightarrow> string \<Rightarrow> PlatformLoginResult" where
  "Mac_CheckLogin identities authenticate userName password =
     (let hasUser = (identities (c_text userName) = 1);
          isValid = (hasUser \<and> authenticate (c_text userName) (c_text password))
      in if \<not> hasUser then PL_INVALID_USER else if \<not> isValid then PL_INVALID_PASSWORD else PL_SUCCESS)"

definition Mac_HasNativeLibrary :: "string \<Rightarrow> bool" where
  "Mac_HasNativeLibrary libName = False"

text \<open>Service accounts are never offered.\<close>

lemma Mac_GetAllUsers_plain:
  "u \<in> set (Mac_GetAllUsers r) \<Longrightarrow> u \<noteq> [] \<and> hd u \<noteq> CHR ''_'' \<and> u \<noteq> ''daemon'' \<and> u \<noteq> ''nobody''"
  by (cases u) (auto simp: Mac_GetAllUsers_def starts_with_def)

section \<open>The interface\<close>

locale login_check =
  fixes chk :: "string \<Rightarrow> string \<Rightarrow> (PlatformLoginResult \<times> u32) option"
    and valid :: "string \<Rightarrow> string \<Rightarrow> bool"
  assumes check_sound: "chk user password = Some (PL_SUCCESS, code) \<Longrightarrow> valid user password"
    and check_complete: "valid user password \<Longrightarrow> \<exists>code. chk user password = Some (PL_SUCCESS, code)"
begin

lemma check_iff: "(\<exists>code. chk user password = Some (PL_SUCCESS, code)) \<longleftrightarrow> valid user password"
  using check_sound check_complete by blast

lemma refused_not_valid: "chk user password = Some (r, code) \<Longrightarrow> r \<noteq> PL_SUCCESS \<Longrightarrow> \<not> valid user password"
  using check_complete by fastforce

text \<open>The pairing assistant: what the server stores, unless the user insisted, is valid.\<close>

lemma assistant_valid:
  assumes "sound_world pf world" and "form_reaches world s" and "wz_CurrentStep (fu_wizard s) = QR_SCAN"
    and "\<And>e. world e \<Longrightarrow> fe_checkLogin e = chk"
  shows "\<exists>v. wz_PairingServer (fu_wizard s) = Some v \<and>
    (valid (ui_userName (ps_UIData v)) (ui_password (ps_UIData v)) \<or>
     (ui_userName (ps_UIData v), ui_password (ps_UIData v)) \<in> fu_skipped s \<and>
     (\<exists>code. chk (ui_userName (ps_UIData v)) (ui_password (ps_UIData v)) = Some (PL_INVALID_PASSWORD, code)))"
proof -
  have r: "runs_in_step (fu_wizard s)" using form_reaches_ok [OF assms(2)] by (simp add: steps_ok_def wizard_ok_def)
  then obtain v where v: "wz_PairingServer (fu_wizard s) = Some v" using assms(3) by (auto simp: runs_in_step_def)
  have "answered world c x \<Longrightarrow> \<exists>code. chk (fst c) (snd c) = Some (x, code)" for c x
    using assms(4) by (auto simp: answered_def)
  with runs_in_step_server [OF r assms(3) v] form_reaches_vetted [OF assms(1,2)] assms(3) v show ?thesis
    by (intro exI [of _ v]) (fastforce simp: vetted_inv_def check_iff [symmetric])
qed

text \<open>The PAM program: what lets a user in is valid.\<close>

lemma program_valid:
  assumes "runMain tr handler (\<lambda>u p. map_option fst (chk u p)) setPassword writes [user] = Some (0, ls, piped)"
  shows "\<exists>result msgs. handler user = Some (result, msgs) \<and> re_state result = US_SUCCESS \<and> valid user (re_password result)"
  using runMain_codes [OF assms] check_sound by fastforce

end

definition linux_check :: "(string \<Rightarrow> string option) \<Rightarrow> (string \<Rightarrow> string option) \<Rightarrow> (string \<Rightarrow> string \<Rightarrow> string option) \<Rightarrow> string \<Rightarrow> string \<Rightarrow>
    (PlatformLoginResult \<times> u32) option" where
  "linux_check getpwnam getspnam crypt user password = map_option (\<lambda>r. (r, 0)) (CheckLogin getpwnam getspnam crypt user password)"

definition linux_valid :: "(string \<Rightarrow> string option) \<Rightarrow> (string \<Rightarrow> string option) \<Rightarrow> (string \<Rightarrow> string \<Rightarrow> string option) \<Rightarrow> string \<Rightarrow> string \<Rightarrow> bool" where
  "linux_valid getpwnam getspnam crypt user password \<longleftrightarrow>
     (\<exists>h. login_hash getpwnam getspnam user = Some h \<and> crypt (c_text password) h = Some h)"

definition win_valid :: "(string \<Rightarrow> string option \<Rightarrow> string \<Rightarrow> bool \<times> u32) \<Rightarrow> string \<Rightarrow> string \<Rightarrow> bool" where
  "win_valid logon name password \<longleftrightarrow>
     (\<exists>domain user. SplitUserName name = Some (domain, user) \<and> fst (logon user (win_domain domain) password))"

definition mac_valid :: "(string \<Rightarrow> nat) \<Rightarrow> (string \<Rightarrow> string \<Rightarrow> bool) \<Rightarrow> string \<Rightarrow> string \<Rightarrow> bool" where
  "mac_valid identities authenticate user password \<longleftrightarrow>
     identities (c_text user) = 1 \<and> authenticate (c_text user) (c_text password)"

interpretation linux_login: login_check "linux_check getpwnam getspnam crypt" "linux_valid getpwnam getspnam crypt"
  by unfold_locales (auto simp: linux_check_def linux_valid_def CheckLogin_success [symmetric])

interpretation win_login: login_check "\<lambda>u p. Some (Win_CheckLogin logon u p)" "win_valid logon"
proof unfold_locales
  show "Some (Win_CheckLogin logon u p) = Some (PL_SUCCESS, code) \<Longrightarrow> win_valid logon u p" for u p code
    using Win_CheckLogin_success [of logon u p] by (simp add: win_valid_def)
  show "win_valid logon u p \<Longrightarrow> \<exists>code. Some (Win_CheckLogin logon u p) = Some (PL_SUCCESS, code)" for u p
    using Win_CheckLogin_success [of logon u p] by (cases "Win_CheckLogin logon u p") (simp add: win_valid_def)
qed

interpretation mac_login: login_check "\<lambda>u p. Some (Mac_CheckLogin identities authenticate u p, 0)" "mac_valid identities authenticate"
  by unfold_locales (auto simp: Mac_CheckLogin_def mac_valid_def Let_def split: if_splits)

definition built_logins :: "(string \<Rightarrow> string option) \<Rightarrow> (string \<Rightarrow> string option) \<Rightarrow> (string \<Rightarrow> string \<Rightarrow> string option) \<Rightarrow>
    (string \<Rightarrow> string option \<Rightarrow> string \<Rightarrow> bool \<times> u32) \<Rightarrow> (string \<Rightarrow> nat) \<Rightarrow> (string \<Rightarrow> string \<Rightarrow> bool) \<Rightarrow>
    ((string \<Rightarrow> string \<Rightarrow> (PlatformLoginResult \<times> u32) option) \<times> (string \<Rightarrow> string \<Rightarrow> bool)) set" where
  "built_logins getpwnam getspnam crypt logon identities authenticate =
     {(linux_check getpwnam getspnam crypt, linux_valid getpwnam getspnam crypt),
      (\<lambda>u p. Some (Win_CheckLogin logon u p), win_valid logon),
      (\<lambda>u p. Some (Mac_CheckLogin identities authenticate u p, 0), mac_valid identities authenticate)}"

lemma built_login:
  "(chk, valid) \<in> built_logins getpwnam getspnam crypt logon identities authenticate \<Longrightarrow> login_check chk valid"
  using linux_login.login_check_axioms win_login.login_check_axioms mac_login.login_check_axioms
  by (auto simp: built_logins_def)

section \<open>Properties\<close>

text \<open>
  C34: Nobody is paired with a password that is not his: on Linux, Windows and macOS, whatever was entered, checked and repeated
  before, the pairing server runs only with a user name and a password that are valid in the system (the hash of the
  shadow file, the logon, the identity), or that the system refused as a wrong password while the user insisted.
\<close>

theorem paired_password_valid:
  assumes "(chk, valid) \<in> built_logins getpwnam getspnam crypt logon identities authenticate"
    and "sound_world pf world" and "\<forall>e. world e \<longrightarrow> fe_checkLogin e = chk"
    and "form_reaches world s" and "wz_CurrentStep (fu_wizard s) = QR_SCAN"
  shows "\<exists>v. wz_PairingServer (fu_wizard s) = Some v \<and>
    (valid (ui_userName (ps_UIData v)) (ui_password (ps_UIData v)) \<or>
     (ui_userName (ps_UIData v), ui_password (ps_UIData v)) \<in> fu_skipped s \<and>
     (\<exists>code. chk (ui_userName (ps_UIData v)) (ui_password (ps_UIData v)) = Some (PL_INVALID_PASSWORD, code)))"
  using login_check.assistant_valid [OF built_login [OF assms(1)] assms(2,4,5)] assms(3) by blast

lemma paired_password_valid_witness:
  "\<exists>v. wz_PairingServer (fu_wizard demo_scan) = Some v \<and> c_text (ui_password (ps_UIData v)) = ''pw''"
proof -
  let ?chk = "\<lambda>u p. Some (Mac_CheckLogin (\<lambda>_. 1) (\<lambda>u p. p = ''pw'') u p, 0 :: u32)"
  have "(?chk, mac_valid (\<lambda>_. 1) (\<lambda>u p. p = ''pw'')) \<in> built_logins g s c l (\<lambda>_. 1) (\<lambda>u p. p = ''pw'')" for g s c l
    by (simp add: built_logins_def)
  moreover have "\<forall>e. e = demo_form \<longrightarrow> fe_checkLogin e = ?chk" by (auto simp: demo_form_def Mac_CheckLogin_def Let_def fun_eq_iff)
  moreover have "fu_skipped demo_scan = {}" by (simp add: demo_scan_def)
  ultimately show ?thesis
    using paired_password_valid [OF _ demo_world _ conjunct1 [OF demo_reaches] conjunct2 [OF demo_reaches]]
    by (fastforce simp: mac_valid_def)
qed

end
