(* ===== verification/ListModels.thy ===== *)
theory ListModels
  imports MainWindow NetworkHelper
begin

text \<open>
  \<open>desktop/src/ui/models/\<close>: the table of the paired devices, the list of the network interfaces and the list of the users, as
  the pages read them; and the removal of the device that is selected in \<open>qml/forms/MainForm.qml\<close>. \<open>None\<close> is an
  access outside a list of Qt, which is undefined; \<open>u8\<close> is \<open>QString::fromUtf8\<close>.
\<close>

section \<open>Devices\<close>

definition DevicesTableModel :: "(string \<Rightarrow> string) \<Rightarrow> PairedDevice list \<Rightarrow> string list list" where
  "DevicesTableModel u8 devices =
     map (\<lambda>d. [u8 (pd_id d), u8 (pd_deviceName d), u8 (pd_userName d), u8 (method_ToString (pd_pairingMethod d))]) devices"

definition q_at :: "'a list \<Rightarrow> int \<Rightarrow> 'a option" where
  "q_at xs i = (if 0 \<le> i \<and> i < int (length xs) then Some (xs ! nat i) else None)"

definition devices_get :: "string list list \<Rightarrow> int \<Rightarrow> string list option" where
  "devices_get rows rowIdx = do {
     first \<leftarrow> q_at rows 0;
     if rowIdx \<ge> int (length first) then Some [] else q_at rows rowIdx }"

definition devices_rowCount :: "string list list \<Rightarrow> int" where
  "devices_rowCount rows = int (length rows)"

definition devices_columnCount :: "string list list \<Rightarrow> int" where
  "devices_columnCount rows = (if rows \<noteq> [] then int (length (rows ! 0)) - 1 else 0)"

datatype table_role = TableDataRole | PairingIdRole | OtherRole

text \<open>The outer \<open>None\<close> is an access outside, the inner one an empty value.\<close>

definition devices_data :: "string list list \<Rightarrow> int \<Rightarrow> int \<Rightarrow> table_role \<Rightarrow> string option option" where
  "devices_data rows row column role =
     (case role of
        TableDataRole \<Rightarrow> do { r \<leftarrow> q_at rows row; v \<leftarrow> q_at r (column + 1); Some (Some v) }
      | PairingIdRole \<Rightarrow> do { r \<leftarrow> q_at rows row; v \<leftarrow> q_at r 0; Some (Some v) }
      | OtherRole \<Rightarrow> Some None)"

text \<open>The button \<open>deviceRemoveBtn\<close>: \<open>selDevice[0]\<close> of an empty list is undefined, which the slot receives as the text \<open>undef\<close>.\<close>

definition remove_selected :: "'j json_lib \<Rightarrow> platform \<Rightarrow> prot_env \<Rightarrow> string \<Rightarrow> string \<Rightarrow> string list list \<Rightarrow> int \<Rightarrow> fs \<Rightarrow> fs option" where
  "remove_selected J pf env dir undef rows row f = do {
     selDevice \<leftarrow> devices_get rows row;
     Some (snd (OnRemoveDeviceClicked J pf env dir (case selDevice of [] \<Rightarrow> undef | x # _ \<Rightarrow> x) f)) }"

section \<open>Interfaces and users\<close>

record NetworkListItem =
  nl_ifName :: string
  nl_ipAddress :: string
  nl_macAddress :: string

definition no_network_item :: NetworkListItem where
  "no_network_item = \<lparr>nl_ifName = [], nl_ipAddress = [], nl_macAddress = []\<rparr>"

definition NetworkListModel :: "(string \<Rightarrow> string) \<Rightarrow> NetworkInterface list \<Rightarrow> NetworkListItem list" where
  "NetworkListModel u8 ifs =
     map (\<lambda>i. \<lparr>nl_ifName = u8 (ni_ifName i), nl_ipAddress = u8 (ni_ipAddress i), nl_macAddress = u8 (ni_macAddress i)\<rparr>) ifs"

definition list_get :: "'a \<Rightarrow> 'a list \<Rightarrow> int \<Rightarrow> 'a option" where
  "list_get dflt items index = (if index \<ge> int (length items) then Some dflt else q_at items index)"

datatype network_role = InterfaceNameRole | IPAddressRole | MACAddressRole | IfWithIPRole | OtherNetworkRole

definition list_rowCount :: "bool \<Rightarrow> 'a list \<Rightarrow> int" where
  "list_rowCount parentValid items = (if parentValid then 0 else int (length items))"

text \<open>\<open>hasIndex\<close> of a list: a row of it, in the only column.\<close>

definition has_index :: "'a list \<Rightarrow> int \<Rightarrow> int \<Rightarrow> bool" where
  "has_index items row column \<longleftrightarrow> 0 \<le> row \<and> row < int (length items) \<and> column = 0"

definition network_data :: "NetworkListItem list \<Rightarrow> int \<Rightarrow> int \<Rightarrow> network_role \<Rightarrow> string option" where
  "network_data items row column role =
     (if \<not> has_index items row column then None
      else let item = items ! nat row in
        case role of
          InterfaceNameRole \<Rightarrow> Some (nl_ifName item)
        | IPAddressRole \<Rightarrow> Some (nl_ipAddress item)
        | MACAddressRole \<Rightarrow> Some (nl_macAddress item)
        | IfWithIPRole \<Rightarrow> Some (nl_ipAddress item @ '' ('' @ nl_ifName item @ '')'')
        | OtherNetworkRole \<Rightarrow> None)"

record UserListItem =
  ul_userName :: string
  ul_isCurrentUser :: bool
  ul_isMicrosoftAccount :: bool

definition UserListModel :: "(string \<Rightarrow> string) \<Rightarrow> string list \<Rightarrow> string \<Rightarrow> UserListItem list" where
  "UserListModel u8 users currUser =
     map (\<lambda>u. \<lparr>ul_userName = u8 u, ul_isCurrentUser = (u = currUser), ul_isMicrosoftAccount = starts_with u ''MicrosoftAccount''\<rparr>) users"

datatype user_value = NameValue string | FlagValue bool
datatype user_role = UserNameRole | CurrentUserRole | MicrosoftRole | OtherUserRole

definition user_data :: "UserListItem list \<Rightarrow> int \<Rightarrow> int \<Rightarrow> user_role \<Rightarrow> user_value option" where
  "user_data items row column role =
     (if \<not> has_index items row column then None
      else let item = items ! nat row in
        case role of
          UserNameRole \<Rightarrow> Some (NameValue (ul_userName item))
        | CurrentUserRole \<Rightarrow> Some (FlagValue (ul_isCurrentUser item))
        | MicrosoftRole \<Rightarrow> Some (FlagValue (ul_isMicrosoftAccount item))
        | OtherUserRole \<Rightarrow> None)"

section \<open>What the pages read\<close>

lemma q_at_nth: "i < length xs \<Longrightarrow> q_at xs (int i) = Some (xs ! i)"
  by (simp add: q_at_def)

lemma devices_get_row:
  "i < length ds \<Longrightarrow> devices_get (DevicesTableModel u8 ds) (int i) =
     Some (if i < 4 then [u8 (pd_id (ds ! i)), u8 (pd_deviceName (ds ! i)), u8 (pd_userName (ds ! i)), u8 (method_ToString (pd_pairingMethod (ds ! i)))]
       else [])"
  by (cases ds) (auto simp: devices_get_def DevicesTableModel_def q_at_def nth_Cons')

text \<open>The view itself asks for every cell of the table, and gets it.\<close>

lemma devices_cells:
  assumes "row < length ds" and "column < nat (devices_columnCount (DevicesTableModel u8 ds))"
  shows "devices_data (DevicesTableModel u8 ds) (int row) (int column) TableDataRole = Some (Some
    ([u8 (pd_deviceName (ds ! row)), u8 (pd_userName (ds ! row)), u8 (method_ToString (pd_pairingMethod (ds ! row)))] ! column))"
proof -
  have r: "DevicesTableModel u8 ds ! row = [u8 (pd_id (ds ! row)), u8 (pd_deviceName (ds ! row)), u8 (pd_userName (ds ! row)),
      u8 (method_ToString (pd_pairingMethod (ds ! row)))]"
    using assms(1) by (simp add: DevicesTableModel_def)
  have "column < 3" using assms by (cases ds) (simp_all add: devices_columnCount_def DevicesTableModel_def)
  then show ?thesis using assms(1)
    by (simp add: devices_data_def q_at_nth DevicesTableModel_def [of u8 ds, THEN arg_cong [of _ _ length]] r q_at_def nat_add_distrib)
qed

lemma UserListModel_current:
  "item \<in> set (UserListModel u8 users cur) \<Longrightarrow> ul_isCurrentUser item \<Longrightarrow> ul_userName item = u8 cur"
  by (auto simp: UserListModel_def)

lemma list_get_inside: "i < length xs \<Longrightarrow> list_get d xs (int i) = Some (xs ! i)"
  by (simp add: list_get_def q_at_nth)

lemma filter_ids:
  assumes "distinct (map pd_id ds)" and "i < length ds"
  shows "filter (\<lambda>d. pd_id d \<noteq> pd_id (ds ! i)) ds = take i ds @ drop (Suc i) ds"
  using assms
proof (induction ds arbitrary: i)
  case (Cons d ds)
  show ?case
  proof (cases i)
    case 0
    then show ?thesis using Cons.prems(1) by (auto simp: filter_id_conv image_iff)
  next
    case (Suc j)
    then have "pd_id d \<noteq> pd_id (ds ! j)" using Cons.prems by (metis Suc_less_eq distinct.simps(2) length_Cons length_map list.simps(9) nth_map nth_mem)
    then show ?thesis using Cons Suc by simp
  qed
qed simp

text \<open>
  C31: The button that removes the selected device works for the first four devices only: it removes exactly the device of the
  row that is selected, but from the fifth row on the table answers an empty row (it compares the row with the number of columns)
  and every device stays paired.
\<close>

theorem selected_device_removed:
  assumes "store_holds J pf env dir f ds" and "\<And>x. u8 x = x" and "distinct (map pd_id ds)" and "i < length ds"
    and "undef \<notin> pd_id ` set ds" and "room J dir (take i ds @ drop (Suc i) ds) f" and "room J dir ds f"
  shows "\<exists>g. remove_selected J pf env dir undef (DevicesTableModel u8 (fst (GetDevices J pf env dir f))) (int i) f = Some g \<and>
    fst (GetDevices J pf env dir g) = (if i < 4 then take i ds @ drop (Suc i) ds else ds)"
proof -
  let ?x = "if i < 4 then pd_id (ds ! i) else undef"
  have gd: "GetDevices J pf env dir f = (ds, f)"
    using assms(1) GetDevices_stored [of J pf env dir f ds] by (simp add: store_holds_def)
  have rest: "remove_device ?x ds = (if i < 4 then take i ds @ drop (Suc i) ds else ds)"
    using filter_ids [OF assms(3,4)] assms(5) by (auto simp: remove_device_def filter_id_conv)
  have "store_holds J pf env dir (RemoveDevice J pf env dir ?x f) (remove_device ?x ds)"
    using ds.perform_holds [OF assms(1), of "Remove ?x"] rest assms(6,7) by simp
  then have "fst (GetDevices J pf env dir (RemoveDevice J pf env dir ?x f)) = remove_device ?x ds"
    using GetDevices_stored [of J pf env dir "RemoveDevice J pf env dir ?x f" "remove_device ?x ds"] by (simp only: store_holds_def fst_conv)
  then show ?thesis
    unfolding rest using gd by (cases "i < 4") (simp_all add: remove_selected_def devices_get_row [OF assms(4)] OnRemoveDeviceClicked_def assms(2))
qed

section \<open>Witness\<close>

lemma selected_device_removed_witness:
  "\<exists>f g. remove_selected toy_json Linux demo_prot ''d'' ''undefined'' [[''1'', [], [], method_ToString TCP]] 0 f = Some g \<and>
    fst (GetDevices toy_json Linux demo_prot ''d'' g) = []"
proof -
  let ?f = "AddDevice toy_json Linux demo_prot ''d'' (demo_device ''1'') null_store"
  have "store_holds toy_json Linux demo_prot ''d'' null_store []"
    using toy_json_laws unfolding store_holds_def stored_def null_store_text by (simp add: toy_json_def jv_items_def prot_ok_def demo_prot_def)
  from ds.perform_holds [OF this, of "Add (demo_device ''1'')"] demo_room
  have h: "store_holds toy_json Linux demo_prot ''d'' ?f [demo_device ''1'']" by (simp add: add_device_def)
  have r: "room toy_json ''d'' es ?f = room toy_json ''d'' es null_store" for es
    by (simp add: AddDevice_def split_def Let_def GetDevices_capacity)
  have "fst (GetDevices toy_json Linux demo_prot ''d'' ?f) = [demo_device ''1'']"
    using h GetDevices_stored [of toy_json Linux demo_prot "''d''" ?f "[demo_device ''1'']"] by (simp only: store_holds_def fst_conv)
  moreover have "\<exists>g. remove_selected toy_json Linux demo_prot ''d'' ''undefined''
      (DevicesTableModel (\<lambda>x. x) (fst (GetDevices toy_json Linux demo_prot ''d'' ?f))) (int 0) ?f = Some g \<and>
    fst (GetDevices toy_json Linux demo_prot ''d'' g) = (if 0 < (4 :: nat) then take 0 [demo_device ''1''] @ drop (Suc 0) [demo_device ''1''] else [demo_device ''1''])"
    by (rule selected_device_removed [OF h]) (simp_all add: r demo_room, simp add: demo_device_def)
  ultimately show ?thesis
    by - (rule exI [of _ ?f], simp add: DevicesTableModel_def, simp add: demo_device_def empty_device_def)
qed

end
