(* ===== verification/UnlockTestWindow.thy ===== *)
theory UnlockTestWindow
  imports UnlockHandler AppSettings
begin

text \<open>
  \<open>desktop/src/ui/UnlockTestWindow.cpp\<close>: the window that tries to unlock with a device, the thread behind it, and
  \<open>LogsWindow.cpp\<close>. Calls on the QML window are recorded.
\<close>

section \<open>The window\<close>

datatype window_event = CloseWindow | SetMessage string | SetButton string | SetLogs bytes bytes

datatype test_thread = NoTest | TestRuns string | TestEnded

record test_window =
  tw_running :: bool
  tw_thread :: test_thread         \<comment> \<open>with the user for whom \<open>GetResult\<close> runs\<close>
  tw_events :: "window_event list"

definition new_test_window :: test_window where
  "new_test_window = \<lparr>tw_running = False, tw_thread = NoTest, tw_events = []\<rparr>"

definition tell :: "window_event \<Rightarrow> test_window \<Rightarrow> test_window" where
  "tell ev w = w\<lparr>tw_events := tw_events w @ [ev]\<rparr>"

text \<open>
  The thread: it runs \<open>GetResult\<close> for the user of the device; \<open>messages\<close> are what the handler prints. The result is
  not used.
\<close>

definition test_begins :: "(string \<Rightarrow> string) \<Rightarrow> test_window \<Rightarrow> test_window" where
  "test_begins tr w = tell (SetButton (tr ''cancel'')) w"

definition test_ends :: "(string \<Rightarrow> string) \<Rightarrow> string list \<Rightarrow> test_window \<Rightarrow> test_window" where
  "test_ends tr messages w =
     (let w = tell (SetButton (tr ''retry'')) (fold (\<lambda>m. tell (SetMessage m)) messages w)
      in w\<lparr>tw_running := False, tw_thread := TestEnded\<rparr>)"

text \<open>Joining waits until a thread that runs has ended, as \<open>finish\<close> says.\<close>

definition join_test :: "(test_window \<Rightarrow> test_window) \<Rightarrow> test_window \<Rightarrow> test_window" where
  "join_test finish w =
     (case tw_thread w of
        NoTest \<Rightarrow> w
      | TestRuns u \<Rightarrow> (finish w)\<lparr>tw_thread := NoTest\<rparr>
      | TestEnded \<Rightarrow> w\<lparr>tw_thread := NoTest\<rparr>)"

definition StartUnlock :: "(test_window \<Rightarrow> test_window) \<Rightarrow> PairedDevice option \<Rightarrow> test_window \<Rightarrow> test_window" where
  "StartUnlock finish device w =
     (case device of
        None \<Rightarrow> tell CloseWindow w
      | Some d \<Rightarrow> (join_test finish w)\<lparr>tw_running := True, tw_thread := TestRuns (pd_userName d)\<rparr>)"

definition StopUnlock :: "(string \<Rightarrow> string) \<Rightarrow> (test_window \<Rightarrow> test_window) \<Rightarrow> test_window \<Rightarrow> test_window" where
  "StopUnlock tr finish w = tell (SetMessage (tr ''unlock_canceled'')) (join_test finish (w\<lparr>tw_running := False\<rparr>))"

definition Destroy_test :: "(test_window \<Rightarrow> test_window) \<Rightarrow> test_window \<Rightarrow> test_window" where
  "Destroy_test finish w = join_test finish (w\<lparr>tw_running := False\<rparr>)"

text \<open>\<open>LogsWindow::LoadLogs\<close>: the thread shows both log files.\<close>

definition LoadLogs :: "string \<Rightarrow> fs \<Rightarrow> window_event" where
  "LoadLogs dir f = SetLogs (ReadBytes f (path_join dir ''desktop.log'')) (ReadBytes f (path_join dir ''module.log''))"

section \<open>The clicks of the page\<close>

text \<open>The page starts a test when it opens, and its button stops the test that runs or starts another one.\<close>

definition clicked :: "(string \<Rightarrow> string) \<Rightarrow> (test_window \<Rightarrow> test_window) \<Rightarrow> PairedDevice option \<Rightarrow> test_window \<Rightarrow> test_window" where
  "clicked tr finish device w = (if tw_running w then StopUnlock tr finish w else StartUnlock finish device w)"

definition finishes :: "(test_window \<Rightarrow> test_window) \<Rightarrow> bool" where
  "finishes finish \<longleftrightarrow> (\<forall>w. \<not> tw_running (finish w))"

lemma test_ends_finishes: "finishes (test_ends tr ms)"
  by (simp add: finishes_def test_ends_def Let_def)

text \<open>A test that is stopped or destroyed has no thread left, and can be started again.\<close>

lemma stopped_test:
  assumes "finishes finish"
  shows "tw_thread (StopUnlock tr finish w) = NoTest \<and> \<not> tw_running (StopUnlock tr finish w) \<and>
    tw_thread (Destroy_test finish w) = NoTest"
  using assms by (auto simp: StopUnlock_def Destroy_test_def join_test_def tell_def finishes_def split: test_thread.split)

definition test_ok :: "test_window \<Rightarrow> bool" where
  "test_ok w \<longleftrightarrow> (tw_running w \<longleftrightarrow> (\<exists>u. tw_thread w = TestRuns u))"

lemma test_ok_ops:
  assumes "finishes finish"
  shows "test_ok new_test_window" and "test_ok (StopUnlock tr finish w)" and "test_ok w \<Longrightarrow> test_ok (StartUnlock finish device w)"
    and "test_ok w \<Longrightarrow> test_ok (clicked tr finish device w)"
    and "test_ok (test_begins tr w) = test_ok w" and "test_ok (test_ends tr ms w)"
  using stopped_test [OF assms, of tr w]
  by (auto simp: test_ok_def new_test_window_def StartUnlock_def clicked_def tell_def test_begins_def test_ends_def Let_def split: option.split)

text \<open>The device that is tested does not matter beyond its user: two devices of a user start the same test.\<close>

lemma test_of_user: "pd_userName d = pd_userName e \<Longrightarrow> StartUnlock finish (Some d) w = StartUnlock finish (Some e) w"
  by (simp add: StartUnlock_def)

end
