(* ===== verification/WinFirewall.thy ===== *)
theory WinFirewall
  imports KerbHelpers
begin

text \<open>
  \<open>desktop/src/installer/WinFirewallHelper.cpp\<close>: removing the rules of the Windows firewall that name a program. The COM
  objects are parameters: whether each call succeeds, the rules that the enumerator yields, and the removal of a rule by its name.
\<close>

section \<open>Removing rules\<close>

text \<open>A rule, as its queries answer; \<open>NET_FW_RULE_DIR_IN\<close> is 1, \<open>NET_FW_RULE_DIR_OUT\<close> is 2.\<close>

record fw_rule =
  fr_query :: bool
  fr_name :: "wide option"
  fr_direction :: "int option"
  fr_program :: "wide option option"      \<comment> \<open>the call, and the pointer it yields\<close>

record fw_env =
  fw_init :: bool
  fw_policy :: bool
  fw_rules :: bool
  fw_count :: bool
  fw_enum :: bool
  fw_variant :: bool
  fw_equivalent :: "wide \<Rightarrow> string \<Rightarrow> bool option"   \<comment> \<open>\<open>equivalent\<close> of two paths; \<open>None\<close> when it throws\<close>
  fw_remove :: "wide \<Rightarrow> bool"
  fw_fromWide :: "wide \<Rightarrow> string"

datatype fw_event = Removed wide | RemoveFailed wide

definition names_program :: "fw_env \<Rightarrow> string \<Rightarrow> fw_rule \<Rightarrow> bool option" where
  "names_program e exePath r =
     (case fr_program r of Some (Some program) \<Rightarrow> fw_equivalent e program exePath | _ \<Rightarrow> Some False)"

text \<open>The loop over the rules: the removals that were tried, in order.\<close>

fun remove_rules :: "fw_env \<Rightarrow> string \<Rightarrow> fw_rule list \<Rightarrow> fw_event list option" where
  "remove_rules e exePath [] = Some []"
| "remove_rules e exePath (r # rs) =
     (if \<not> fr_query r then remove_rules e exePath rs
      else case fr_name r of
        None \<Rightarrow> remove_rules e exePath rs
      | Some fwRuleName \<Rightarrow>
     (case fr_direction r of
        None \<Rightarrow> remove_rules e exePath rs
      | Some direction \<Rightarrow>
          if direction = 1 \<or> direction = 2 then do {
            named \<leftarrow> names_program e exePath r;
            evs \<leftarrow> remove_rules e exePath rs;
            Some ((if named then [if fw_remove e fwRuleName then Removed fwRuleName else RemoveFailed fwRuleName] else []) @ evs) }
          else remove_rules e exePath rs))"

text \<open>The result, the removals and the error that was logged; \<open>None\<close> is an exception.\<close>

definition RemoveAllRulesForProgram :: "fw_env \<Rightarrow> string \<Rightarrow> fw_rule list \<Rightarrow> (bool \<times> fw_event list \<times> string list) option" where
  "RemoveAllRulesForProgram e exePath rules =
     (if \<not> fw_init e then Some (False, [], [''Failed to initialize com.''])
      else if \<not> fw_policy e then Some (False, [], [''Failed to initialize firewall policy.''])
      else if \<not> fw_rules e then Some (False, [], [''Failed to get firewall rules.''])
      else if \<not> fw_count e then Some (False, [], [''Failed to get firewall rule count.''])
      else if \<not> fw_enum e then Some (False, [], [''Failed to get rules enumerator.''])
      else if \<not> fw_variant e then Some (False, [], [''Failed to get IEnumVARIANT interface.''])
      else map_option (\<lambda>evs. (True, evs, [])) (remove_rules e exePath rules))"

section \<open>What is removed\<close>

definition readable_rule :: "fw_rule \<Rightarrow> bool" where
  "readable_rule r \<longleftrightarrow> fr_query r \<and> fr_name r \<noteq> None \<and> (fr_direction r = Some 1 \<or> fr_direction r = Some 2)"

definition event_name :: "fw_event \<Rightarrow> wide" where
  "event_name ev = (case ev of Removed n \<Rightarrow> n | RemoveFailed n \<Rightarrow> n)"

lemma remove_rules_names:
  assumes "remove_rules e exePath rules = Some evs"
  shows "map event_name evs =
    map (\<lambda>r. the (fr_name r)) (filter (\<lambda>r. readable_rule r \<and> names_program e exePath r = Some True) rules)"
  using assms
proof (induction rules arbitrary: evs)
  case (Cons r rs)
  then show ?case
    by (auto simp: readable_rule_def event_name_def bind_eq_Some_conv split: if_splits option.splits)
qed simp

text \<open>
  When it answers success, it has tried to remove exactly the rules of the program, each by its name, and nothing else; a
  rule that could not be removed does not change the answer.
\<close>

lemma rules_of_program:
  assumes "RemoveAllRulesForProgram e exePath rules = Some (True, evs, log)"
  shows "map event_name evs =
      map (\<lambda>r. the (fr_name r)) (filter (\<lambda>r. readable_rule r \<and> names_program e exePath r = Some True) rules) \<and>
    (\<forall>n. RemoveFailed n \<in> set evs \<longrightarrow> \<not> fw_remove e n)"
proof -
  have run: "remove_rules e exePath rules = Some evs"
    using assms by (auto simp: RemoveAllRulesForProgram_def split: if_splits)
  have "RemoveFailed n \<in> set evs \<Longrightarrow> \<not> fw_remove e n" for n
    using run by (induction rules arbitrary: evs) (auto simp: bind_eq_Some_conv split: if_splits option.splits, blast+)
  with remove_rules_names [OF run] show ?thesis by blast
qed

lemma no_program_no_removal:
  assumes "RemoveAllRulesForProgram e exePath rules = Some (ok, evs, log)" and "\<forall>r \<in> set rules. names_program e exePath r = Some False"
  shows "evs = []"
proof (cases ok)
  case True
  have "filter (\<lambda>r. readable_rule r \<and> names_program e exePath r = Some True) rules = []"
    using assms(2) by (auto simp: filter_empty_conv)
  with rules_of_program [of e exePath rules evs log] assms(1) True show ?thesis by simp
next
  case False
  then show ?thesis using assms(1) by (auto simp: RemoveAllRulesForProgram_def split: if_splits)
qed

end
