(* ===== verification/ComServer.thy ===== *)
theory ComServer
  imports KerbHelpers
begin

text \<open>
  \<open>natives/win-pcbiounlock/src/Dll.cpp\<close>: the class factory of the credential provider and the count that keeps its library
  loaded. Every provider and credential counts while it exists (the constructors and destructors of
  \<open>CSampleProvider.cpp\<close> and \<open>CUnlockCredential.cpp\<close>), and so does every lock of the server.
\<close>

section \<open>Operations\<close>

definition CLASS_E_NOAGGREGATION :: HRESULT where "CLASS_E_NOAGGREGATION = 0x80040110"
definition CLASS_E_CLASSNOTAVAILABLE :: HRESULT where "CLASS_E_CLASSNOTAVAILABLE = 0x80040111"
definition S_FALSE :: HRESULT where "S_FALSE = 1"

record com_server =
  cs_cRef :: u32               \<comment> \<open>\<open>g_cRef\<close>, a \<open>long\<close>\<close>
  cs_factories :: "u32 list"   \<comment> \<open>the counts of the class factories that exist\<close>
  cs_objects :: nat            \<comment> \<open>providers and credentials that exist\<close>
  cs_locks :: nat

definition DllAddRef :: "com_server \<Rightarrow> com_server" where
  "DllAddRef s = s\<lparr>cs_cRef := cs_cRef s + 1\<rparr>"

definition DllRelease :: "com_server \<Rightarrow> com_server" where
  "DllRelease s = s\<lparr>cs_cRef := cs_cRef s - 1\<rparr>"

definition DllCanUnloadNow :: "com_server \<Rightarrow> HRESULT" where
  "DllCanUnloadNow s = (if 0 < sint (cs_cRef s) then S_FALSE else S_OK)"

definition LockServer :: "bool \<Rightarrow> com_server \<Rightarrow> com_server" where
  "LockServer bLock s = (if bLock then (DllAddRef s)\<lparr>cs_locks := cs_locks s + 1\<rparr> else (DllRelease s)\<lparr>cs_locks := cs_locks s - 1\<rparr>)"

text \<open>The constructors and destructors of providers and credentials.\<close>

definition construct :: "com_server \<Rightarrow> com_server" where
  "construct s = (DllAddRef s)\<lparr>cs_objects := cs_objects s + 1\<rparr>"

definition destruct :: "com_server \<Rightarrow> com_server" where
  "destruct s = (DllRelease s)\<lparr>cs_objects := cs_objects s - 1\<rparr>"

text \<open>A class factory has a count of its own: it is made with 1, and deleted when the count falls to 0.\<close>

definition Factory_AddRef :: "nat \<Rightarrow> com_server \<Rightarrow> com_server" where
  "Factory_AddRef i s = s\<lparr>cs_factories := (cs_factories s)[i := cs_factories s ! i + 1]\<rparr>"

definition Factory_Release :: "nat \<Rightarrow> com_server \<Rightarrow> com_server" where
  "Factory_Release i s =
     (let c = cs_factories s ! i - 1 in
      s\<lparr>cs_factories := (if c = 0 then take i (cs_factories s) @ drop (Suc i) (cs_factories s) else (cs_factories s)[i := c])\<rparr>)"

definition Factory_CreateInstance :: "bool \<Rightarrow> (com_server \<Rightarrow> HRESULT \<times> com_server) \<Rightarrow> com_server \<Rightarrow> HRESULT \<times> com_server" where
  "Factory_CreateInstance hasOuter CSample_CreateInstance s =
     (if hasOuter then (CLASS_E_NOAGGREGATION, s) else CSample_CreateInstance s)"

text \<open>\<open>CSample_CreateInstance\<close>: the new provider survives when it has the interface that was asked for.\<close>

definition CSample_CreateInstance :: "bool \<Rightarrow> HRESULT \<Rightarrow> com_server \<Rightarrow> HRESULT \<times> com_server" where
  "CSample_CreateInstance allocated query s =
     (if \<not> allocated then (E_OUTOFMEMORY, s)
      else (query, if SUCCEEDED query then construct s else destruct (construct s)))"

text \<open>\<open>DllGetClassObject\<close>: the factory is made, asked for the interface, which counts, and released.\<close>

definition DllGetClassObject :: "bool \<Rightarrow> HRESULT \<Rightarrow> com_server \<Rightarrow> HRESULT \<times> com_server" where
  "DllGetClassObject isOurs query s =
     (if isOurs then
        (let i = length (cs_factories s); s = s\<lparr>cs_factories := cs_factories s @ [1]\<rparr>
         in (query, Factory_Release i (if SUCCEEDED query then Factory_AddRef i s else s)))
      else (CLASS_E_CLASSNOTAVAILABLE, s))"

section \<open>When the library stays loaded\<close>

definition counted_ok :: "com_server \<Rightarrow> bool" where
  "counted_ok s \<longleftrightarrow> cs_cRef s = of_nat (cs_objects s + cs_locks s)"

lemma counted_ok_ops:
  assumes "counted_ok s"
  shows "counted_ok (construct s)" and "0 < cs_objects s \<Longrightarrow> counted_ok (destruct s)"
    and "counted_ok (LockServer True s)" and "0 < cs_locks s \<Longrightarrow> counted_ok (LockServer False s)"
    and "counted_ok (snd (CSample_CreateInstance a q s))" and "counted_ok (snd (DllGetClassObject b q s))"
    and "counted_ok (Factory_AddRef i s)" and "counted_ok (Factory_Release i s)"
  using assms
  by (auto simp: counted_ok_def construct_def destruct_def LockServer_def DllAddRef_def DllRelease_def CSample_CreateInstance_def
      DllGetClassObject_def Factory_AddRef_def Factory_Release_def Let_def of_nat_diff)

lemma unload_iff_unused:
  assumes "counted_ok s" and "cs_objects s + cs_locks s < 2 ^ 31"
  shows "DllCanUnloadNow s = S_OK \<longleftrightarrow> cs_objects s = 0 \<and> cs_locks s = 0"
proof -
  have "sint (of_nat (cs_objects s + cs_locks s) :: u32) = int (cs_objects s + cs_locks s)"
    using assms(2) by (simp only: signed_of_nat) (simp add: signed_take_bit_int_eq_self)
  then show ?thesis using assms(1) by (auto simp: DllCanUnloadNow_def counted_ok_def S_OK_def S_FALSE_def)
qed

text \<open>A class object that was handed out is not counted: the library may be unloaded while a client holds it.\<close>

lemma factory_not_counted:
  assumes "counted_ok s" and "cs_objects s = 0" and "cs_locks s = 0" and "SUCCEEDED q"
  shows "cs_factories (snd (DllGetClassObject True q s)) = cs_factories s @ [1] \<and>
    DllCanUnloadNow (snd (DllGetClassObject True q s)) = S_OK"
  using assms
  by (simp add: DllGetClassObject_def Factory_AddRef_def Factory_Release_def Let_def DllCanUnloadNow_def counted_ok_def nth_append)

end
