(* ===== verification/Logging.thy ===== *)
theory Logging
  imports SettingsForm
begin

text \<open>
  \<open>common/src/storage/LoggingSystem.cpp\<close>: which file the messages go to, at which level, and when an old file is thrown
  away. \<open>spdlog\<close> is a parameter: whether its file sink can be made.
\<close>

datatype log_level = LevelDebug | LevelInfo

datatype log_sink = FileSink string log_level | ConsoleSink log_level

record logging_state =
  ls_LogName :: string
  ls_sinks :: "log_sink list option"     \<comment> \<open>the default logger, once it is set\<close>

definition log_path :: "string \<Rightarrow> string \<Rightarrow> string" where
  "log_path dir logName = path_join dir (logName @ ''.log'')"

text \<open>\<open>tellg\<close> at the end of a file that can be opened is its size.\<close>

definition rotate_log :: "string \<Rightarrow> fs \<Rightarrow> fs" where
  "rotate_log logPath f =
     (case fs_files f logPath of
        Some b \<Rightarrow> if fs_readable f logPath \<and> length b div 1000 > 5000 then snd (RemoveFile f logPath) else f
      | None \<Rightarrow> f)"

definition Logging_Init :: "string \<Rightarrow> string \<Rightarrow> bool \<Rightarrow> bool \<Rightarrow> fs \<Rightarrow> logging_state \<Rightarrow> logging_state \<times> fs" where
  "Logging_Init dir logName printToConsole sinkOk f s =
     (let logPath = log_path dir logName;
          f = rotate_log logPath f;
          level = (if exists_path f (debug_file dir) then LevelDebug else LevelInfo);
          s = s\<lparr>ls_LogName := logName\<rparr>
      in if sinkOk then (s\<lparr>ls_sinks := Some ((if printToConsole then [ConsoleSink level] else []) @ [FileSink logPath level])\<rparr>, f)
         else (s, f))"

definition Logging_Destroy :: "logging_state \<Rightarrow> logging_state" where
  "Logging_Destroy s = s\<lparr>ls_LogName := [], ls_sinks := None\<rparr>"

text \<open>A file is thrown away from 5001000 bytes on, and no other file is touched.\<close>

lemma rotate_log_size:
  assumes "fs_readable f p" and "fs_remove f p"
  shows "fs_files (rotate_log p f) q = (if q = p \<and> (\<exists>b. fs_files f p = Some b \<and> 5001000 \<le> length b) then None else fs_files f q)"
proof -
  have "n div 1000 > 5000 \<longleftrightarrow> 5001000 \<le> n" for n :: nat
    using less_eq_div_iff_mult_less_eq [of 1000 5001 n] by (simp add: less_eq_Suc_le)
  then show ?thesis using assms by (auto simp: rotate_log_def RemoveFile_def split: option.split)
qed

text \<open>The setting of the settings page decides the level of the next start, whatever the file of messages is.\<close>

lemma debug_setting_level:
  assumes "SetDebugLoggingEnabled dir b f = (g, [])" and "fs_dirs f (debug_file dir) = False" and "log_path dir logName \<noteq> debug_file dir"
  shows "\<exists>pre. ls_sinks (fst (Logging_Init dir logName console True g s)) =
    Some (pre @ [FileSink (log_path dir logName) (if b then LevelDebug else LevelInfo)])"
proof -
  have "exists_path g (debug_file dir) = b"
    using assms(1,2) by (auto simp: SetDebugLoggingEnabled_def CreateFile_def RemoveFile_def exists_path_def split: if_splits option.splits)
  then have "exists_path (rotate_log (log_path dir logName) g) (debug_file dir) = b"
    using assms(3) by (auto simp: rotate_log_def RemoveFile_def exists_path_def split: option.split)
  then show ?thesis by (simp add: Logging_Init_def Let_def)
qed

end
