(* ===== verification/SystemCalls.thy ===== *)
theory SystemCalls
  imports NetworkHelper CloudUnlockClient UnlockCredential Bluetooth Localization
begin

text \<open>
  The operations that wrap calls of the system, with the decisions they take: socket options of \<open>BaseConnection.cpp\<close>, the name of the
  computer and the state of its network (\<open>NetworkHelper.cpp\<close>), requests to the relay (\<open>RestClient.cpp\<close>), wide strings
  (\<open>StringUtils.cpp\<close>), privileges and detached commands (\<open>Shell.cpp\<close>), the Bluetooth service of Windows
  (\<open>BluetoothHelper.Win.cpp\<close>). What the system answers are arguments.
\<close>

section \<open>Socket options\<close>

text \<open>
  Outside Windows the flags are read (\<open>None\<close> when that fails) and written back with one bit changed; the result is whether both
  worked, and the flags after it.
\<close>

definition Unix_SetSocketBlocking :: "u32 \<Rightarrow> u32 option \<Rightarrow> (u32 \<Rightarrow> bool) \<Rightarrow> bool \<Rightarrow> bool \<times> u32 option" where
  "Unix_SetSocketBlocking O_NONBLOCK getfl setfl isBlocking =
     (case getfl of
        None \<Rightarrow> (False, None)
      | Some oldFlags \<Rightarrow>
          (let flags = (if isBlocking then and oldFlags (not O_NONBLOCK) else or oldFlags O_NONBLOCK)
           in if setfl flags then (True, Some flags) else (False, Some oldFlags)))"

definition Win_SetSocketBlocking :: "(u32 \<Rightarrow> int) \<Rightarrow> bool \<Rightarrow> bool" where
  "Win_SetSocketBlocking ioctlsocket isBlocking = (ioctlsocket (if isBlocking then 0 else 1) = 0)"

datatype sock_timeout = Millis u32 | Seconds u32
datatype timeout_option = SO_RCVTIMEO | SO_SNDTIMEO

text \<open>On Windows the seconds are multiplied in 32 bits.\<close>

definition timeout_value :: "platform \<Rightarrow> u32 \<Rightarrow> sock_timeout" where
  "timeout_value pf secs = (if pf = Windows then Millis (secs * 1000) else Seconds secs)"

definition SetSocketRWTimeout :: "platform \<Rightarrow> (timeout_option \<Rightarrow> sock_timeout \<Rightarrow> int) \<Rightarrow> u32 \<Rightarrow> bool" where
  "SetSocketRWTimeout pf setsockopt secs =
     (let timeoutVal = timeout_value pf secs in
      if setsockopt SO_RCVTIMEO timeoutVal < 0 \<or> setsockopt SO_SNDTIMEO timeoutVal < 0 then False else True)"

text \<open>Making a socket blocking again restores its flags.\<close>

lemma blocking_restored:
  assumes "Unix_SetSocketBlocking nb (Some flags) setfl False = (True, Some flags1)" and "and flags nb = 0"
    and "Unix_SetSocketBlocking nb (Some flags1) setfl True = (True, Some flags2)"
  shows "and flags1 nb = nb \<and> flags2 = flags"
proof
  have f: "flags1 = or flags nb" "flags2 = and flags1 (not nb)"
    using assms(1,3) by (auto simp: Unix_SetSocketBlocking_def Let_def split: if_splits)
  then show "and flags1 nb = nb" by (simp add: bit_eq_iff bit_simps) blast
  have "bit flags n \<longrightarrow> \<not> bit nb n" for n using assms(2) by (metis bit_and_iff bit_0_eq bot_apply bot_bool_def)
  then show "flags2 = flags" unfolding f by (auto simp: bit_eq_iff bit_simps)
qed

text \<open>
  The timeout that Windows is given is the one of the settings up to 4294967 seconds; larger ones wrap, and \<open>2\<^sup>2\<^sup>9\<close> seconds become 0,
  which Windows takes for no timeout at all.
\<close>

lemma win_timeout_wraps:
  "unat (secs * 1000) = unat secs * 1000 \<longleftrightarrow> unat secs \<le> 4294967" for secs :: u32
proof -
  have "unat secs * 1000 < 2 ^ 32 \<longleftrightarrow> unat secs \<le> 4294967" by auto
  moreover have "unat (secs * 1000) = unat secs * 1000 mod 2 ^ 32" by (simp add: unat_word_ariths)
  ultimately show ?thesis by (metis mod_less mod_less_divisor zero_less_numeral zero_less_power)
qed

lemma win_timeout_none: "timeout_value Windows 536870912 = Millis 0"
  by (simp add: timeout_value_def)

section \<open>The computer in its network\<close>

text \<open>
  \<open>GetComputerNameW\<close> answers a wide string, \<open>gethostname\<close> fills the buffer; \<open>None\<close> is a failure. \<open>fw\<close> is \<open>FromWideString\<close>.
\<close>

definition GetHostName :: "platform \<Rightarrow> (wide \<Rightarrow> string) \<Rightarrow> wide option \<Rightarrow> string option \<Rightarrow> string" where
  "GetHostName pf fw computerName hostname =
     (if pf = Windows then (case computerName of Some n \<Rightarrow> fw n | None \<Rightarrow> [])
      else (case hostname of Some h \<Rightarrow> c_str h | None \<Rightarrow> []))"

record lan_env =
  ln_alive :: bool                       \<comment> \<open>\<open>IsNetworkAlive\<close>, its flags and the last error after it\<close>
  ln_flags :: u32
  ln_error :: u32
  ln_cominit :: HRESULT
  ln_create :: HRESULT                   \<comment> \<open>creating the \<open>INetworkListManager\<close>\<close>
  ln_connectivity :: "HRESULT \<times> u32"

definition NETWORK_ALIVE_LAN :: u32 where "NETWORK_ALIVE_LAN = 1"
definition NLM_CONNECTIVITY_IPV4_SUBNET :: u32 where "NLM_CONNECTIVITY_IPV4_SUBNET = 0x10"
definition NLM_CONNECTIVITY_IPV4_LOCALNETWORK :: u32 where "NLM_CONNECTIVITY_IPV4_LOCALNETWORK = 0x20"
definition NLM_CONNECTIVITY_IPV4_INTERNET :: u32 where "NLM_CONNECTIVITY_IPV4_INTERNET = 0x40"

text \<open>The answer of COM replaces that of \<open>IsNetworkAlive\<close> when there is one.\<close>

definition HasLANConnection :: "platform \<Rightarrow> lan_env \<Rightarrow> bool" where
  "HasLANConnection pf e =
     (if pf \<noteq> Windows then False
      else let hasLAN = (ln_alive e \<and> ln_error e = 0 \<and> and (ln_flags e) NETWORK_ALIVE_LAN = NETWORK_ALIVE_LAN) in
      if \<not> SUCCEEDED (ln_cominit e) then hasLAN
      else if \<not> SUCCEEDED (ln_create e) then hasLAN
      else case ln_connectivity e of (hr, nlm) \<Rightarrow>
        if \<not> SUCCEEDED hr then hasLAN
        else and nlm NLM_CONNECTIVITY_IPV4_SUBNET \<noteq> 0 \<or> and nlm NLM_CONNECTIVITY_IPV4_LOCALNETWORK \<noteq> 0 \<or>
          and nlm NLM_CONNECTIVITY_IPV4_INTERNET \<noteq> 0)"

text \<open>A network without IPv4 is none, whatever \<open>IsNetworkAlive\<close> says.\<close>

lemma lan_needs_ipv4:
  assumes "SUCCEEDED (ln_cominit e)" and "SUCCEEDED (ln_create e)" and "ln_connectivity e = (S_OK, nlm)" and "and nlm 0x70 = 0"
  shows "\<not> HasLANConnection Windows e"
proof -
  have z: "and nlm m = 0" if "and m 0x70 = m" for m
  proof -
    have "and nlm m = and (and nlm 0x70) m" unfolding and.assoc by (simp only: and.commute [of "0x70"] that)
    then show ?thesis using assms(4) by simp
  qed
  have "and nlm 0x10 = 0" "and nlm 0x20 = 0" "and nlm 0x40 = 0" by (rule z, simp)+
  with assms(1-3) show ?thesis
    by (simp add: HasLANConnection_def Let_def NLM_CONNECTIVITY_IPV4_SUBNET_def NLM_CONNECTIVITY_IPV4_LOCALNETWORK_def NLM_CONNECTIVITY_IPV4_INTERNET_def)
qed

text \<open>The listening thread of the logon screen waits for as long as there is no such network.\<close>

lemma listener_waits_for_ipv4:
  "\<forall>e \<in> set es. \<not> HasLANConnection Windows e \<Longrightarrow> wait_network (map (\<lambda>e. (True, False, HasLANConnection Windows e)) es) = None"
  by (induction es) simp_all

section \<open>Requests to the relay\<close>

record http_request =
  hq_base :: string
  hq_path :: string
  hq_headers :: "(string \<times> string) list"
  hq_body :: "(string \<times> string) option"    \<comment> \<open>of a POST: the body and its type\<close>

type_synonym http_client = "http_request \<Rightarrow> string + int \<times> string"   \<comment> \<open>the error, or the status and the body\<close>

definition AuthHeaders :: "string \<Rightarrow> (string \<times> string) list" where
  "AuthHeaders token = [(''Authorization'', ''Bearer '' @ token), (''Accept'', ''application/json'')]"

definition rest_answer :: "string + int \<times> string \<Rightarrow> int \<times> string" where
  "rest_answer result = (case result of Inl err \<Rightarrow> (0, err) | Inr (status, body) \<Rightarrow> (status, body))"

definition RestClient_Get :: "http_client \<Rightarrow> string \<Rightarrow> string \<Rightarrow> string \<Rightarrow> int \<times> string" where
  "RestClient_Get http baseUrl path bearerToken =
     rest_answer (http \<lparr>hq_base = baseUrl, hq_path = path, hq_headers = AuthHeaders bearerToken, hq_body = None\<rparr>)"

definition RestClient_PostJson :: "http_client \<Rightarrow> string \<Rightarrow> string \<Rightarrow> string \<Rightarrow> string \<Rightarrow> int \<times> string" where
  "RestClient_PostJson http baseUrl path bearerToken body =
     rest_answer (http \<lparr>hq_base = baseUrl, hq_path = path, hq_headers = AuthHeaders bearerToken,
       hq_body = Some (body, ''application/json'')\<rparr>)"

text \<open>A relay that cannot be reached ends an unlock with an error at once: the status is 0.\<close>

lemma relay_unreachable:
  assumes "\<And>q. \<exists>err. http q = Inl err"
    and "RelayThread lib e envs (\<lambda>path body. RestClient_PostJson http baseUrl path token body) get ticks c = Some c'"
  shows "uc_UnlockState (ck_conn c') \<in> {US_CONNECT_ERROR, US_DATA_ERROR, US_UNK_ERROR}"
proof -
  have "RestClient_PostJson http baseUrl path token body \<noteq> (201, r)" for path body r
    using assms(1) [of "\<lparr>hq_base = baseUrl, hq_path = path, hq_headers = AuthHeaders token, hq_body = Some (body, ''application/json'')\<rparr>"]
    by (auto simp: RestClient_PostJson_def rest_answer_def)
  then show ?thesis
    using assms(2) by (auto simp: RelayThread_def Let_def split: option.splits prod.splits if_splits dest!: BuildUnlockRequestJson_keeps)
qed

section \<open>Wide strings\<close>

text \<open>\<open>mb\<close> and \<open>wc\<close> are the conversions of Windows; \<open>None\<close> when they answer no positive size.\<close>

definition ToWideString :: "(string \<Rightarrow> wide option) \<Rightarrow> string \<Rightarrow> wide" where
  "ToWideString mb s = (if s = [] then [] else case mb s of None \<Rightarrow> [] | Some w \<Rightarrow> w)"

definition FromWideString :: "(wide \<Rightarrow> string option) \<Rightarrow> wide \<Rightarrow> string" where
  "FromWideString wc w = (if w = [] then [] else case wc w of None \<Rightarrow> [] | Some s \<Rightarrow> s)"

lemma wide_roundtrip:
  assumes "s \<noteq> [] \<Longrightarrow> \<exists>w. w \<noteq> [] \<and> mb s = Some w \<and> wc w = Some s"
  shows "FromWideString wc (ToWideString mb s) = s"
  using assms by (cases "s = []") (auto simp: ToWideString_def FromWideString_def)

section \<open>Privileges and detached commands\<close>

text \<open>\<open>sidOk\<close>: the administrators' identifier could be made; \<open>member\<close>: the answer of \<open>CheckTokenMembership\<close>.\<close>

definition IsRunningAsAdmin :: "platform \<Rightarrow> bool \<Rightarrow> bool option \<Rightarrow> nat \<Rightarrow> bool" where
  "IsRunningAsAdmin pf sidOk member euid =
     (if pf = Windows then (if \<not> sidOk then False else case member of None \<Rightarrow> False | Some isAdmin \<Rightarrow> isAdmin)
      else euid = 0)"

definition SHELL_NAME :: "platform \<Rightarrow> string" where
  "SHELL_NAME pf = (case pf of Windows \<Rightarrow> ''cmd.exe'' | Linux \<Rightarrow> ''bash'' | Apple \<Rightarrow> ''zsh'')"

definition SHELL_CMD_ARG :: "platform \<Rightarrow> string" where
  "SHELL_CMD_ARG pf = (if pf = Windows then ''/c'' else ''-c'')"

text \<open>A process is started with a command line on Windows, and with an argument list elsewhere.\<close>

datatype spawned = CommandLine string | Arguments string "string list"

definition SpawnCommand :: "platform \<Rightarrow> string \<Rightarrow> spawned" where
  "SpawnCommand pf cmd =
     (if pf = Windows then CommandLine (SHELL_NAME pf @ '' '' @ SHELL_CMD_ARG pf @ '' '' @ [CHR 0x22] @ cmd @ [CHR 0x22])
      else Arguments (SHELL_NAME pf) [SHELL_CMD_ARG pf, cmd])"

section \<open>The Bluetooth service of Windows\<close>

text \<open>
  The query that registers the service. It points to the identifier and the address, which are local variables of
  \<open>RegisterSDPService\<close>: after it has returned, \<open>wq_pointers\<close> is false.
\<close>

record wsa_query =
  wq_name :: string
  wq_address :: string
  wq_pointers :: bool

definition Win_RegisterSDPService :: "(wsa_query \<Rightarrow> int) \<Rightarrow> string \<Rightarrow> wsa_query option" where
  "Win_RegisterSDPService WSASetServiceW address =
     (let service = \<lparr>wq_name = ''PC Bio Unlock BT'', wq_address = address, wq_pointers = True\<rparr> in
      if WSASetServiceW service \<noteq> 0 then None else Some (service\<lparr>wq_pointers := False\<rparr>))"

text \<open>The outer \<open>None\<close>: the system reads what the pointers point to.\<close>

definition Win_CloseSDPService :: "(wsa_query \<Rightarrow> int) \<Rightarrow> wsa_query option \<Rightarrow> (bool \<times> wsa_query option) option" where
  "Win_CloseSDPService WSASetServiceW service =
     (case service of
        None \<Rightarrow> Some (False, None)
      | Some q \<Rightarrow> if \<not> wq_pointers q then None
          else if WSASetServiceW q \<noteq> 0 then Some (False, service) else Some (True, None))"

lemma registered_service_dangles:
  "Win_RegisterSDPService wsa address = Some q \<Longrightarrow> Win_CloseSDPService wsa2 (Some q) = None"
  by (auto simp: Win_RegisterSDPService_def Win_CloseSDPService_def Let_def split: if_splits)

end
