(* ===== verification/QrText.thy ===== *)
theory QrText
  imports QrSegments
begin

text \<open>
  The bits of a text, as a reader of QR codes takes them apart: three digits in ten bits, two characters of the
  alphanumeric set in eleven, a byte in eight. The segments \<open>makeSegments\<close> builds read back as the text they were
  built from.
\<close>

section \<open>Reference encodings\<close>

definition digit_val :: "char \<Rightarrow> nat" where "digit_val c = of_char c - 48"

fun numeric_bits :: "string \<Rightarrow> bool list" where
  "numeric_bits [] = []"
| "numeric_bits [a] = bits_of 4 (digit_val a)"
| "numeric_bits [a, b] = bits_of 7 (digit_val a * 10 + digit_val b)"
| "numeric_bits (a # b # c # r) = bits_of 10 ((digit_val a * 10 + digit_val b) * 10 + digit_val c) @ numeric_bits r"

definition alnum_val :: "char \<Rightarrow> nat" where "alnum_val c = the (strchr ALPHANUMERIC_CHARSET c)"

fun alnum_bits :: "string \<Rightarrow> bool list" where
  "alnum_bits [] = []"
| "alnum_bits [a] = bits_of 6 (alnum_val a)"
| "alnum_bits (a # b # r) = bits_of 11 (alnum_val a * 45 + alnum_val b) @ alnum_bits r"

definition byte_data_bits :: "string \<Rightarrow> bool list" where
  "byte_data_bits t = concat (map (\<lambda>c. bits_of 8 (of_char c)) t)"

section \<open>The reader\<close>

fun dec_digits :: "nat \<Rightarrow> nat \<Rightarrow> string" where
  "dec_digits 0 n = []"
| "dec_digits (Suc k) n = dec_digits k (n div 10) @ [char_of (48 + n mod 10)]"

fun read_numeric :: "nat \<Rightarrow> bool list \<Rightarrow> string \<times> bool list" where
  "read_numeric 0 bs = ([], bs)"
| "read_numeric (Suc 0) bs = (dec_digits 1 (num_of (take 4 bs)), drop 4 bs)"
| "read_numeric (Suc (Suc 0)) bs = (dec_digits 2 (num_of (take 7 bs)), drop 7 bs)"
| "read_numeric (Suc (Suc (Suc n))) bs =
     (let (t, rest) = read_numeric n (drop 10 bs) in (dec_digits 3 (num_of (take 10 bs)) @ t, rest))"

fun read_alnum :: "nat \<Rightarrow> bool list \<Rightarrow> string \<times> bool list" where
  "read_alnum 0 bs = ([], bs)"
| "read_alnum (Suc 0) bs = ([ALPHANUMERIC_CHARSET ! num_of (take 6 bs)], drop 6 bs)"
| "read_alnum (Suc (Suc n)) bs =
     (let v = num_of (take 11 bs); (t, rest) = read_alnum n (drop 11 bs)
      in (ALPHANUMERIC_CHARSET ! (v div 45) # ALPHANUMERIC_CHARSET ! (v mod 45) # t, rest))"

fun read_bytes :: "nat \<Rightarrow> bool list \<Rightarrow> string \<times> bool list" where
  "read_bytes 0 bs = ([], bs)"
| "read_bytes (Suc n) bs = (let (t, rest) = read_bytes n (drop 8 bs) in (char_of (num_of (take 8 bs)) # t, rest))"

text \<open>The widths of the character counts, by the three ranges of versions.\<close>

definition by_version :: "nat \<Rightarrow> nat \<Rightarrow> nat \<Rightarrow> nat \<Rightarrow> nat" where
  "by_version v a b c = (if v \<le> 9 then a else if v \<le> 26 then b else c)"

text \<open>A segment is read until four zero bits, or fewer than four bits, are left. The first argument bounds the segments.\<close>

fun read_segments :: "nat \<Rightarrow> nat \<Rightarrow> bool list \<Rightarrow> string option" where
  "read_segments 0 v bs = None"
| "read_segments (Suc n) v bs =
     (let m = num_of (take 4 bs); bs = drop 4 bs;
          seg = (\<lambda>width read. let (t, rest) = read (num_of (take width bs)) (drop width bs)
                  in map_option ((@) t) (read_segments n v rest))
      in if length bs = 0 \<or> m = 0 then Some []
         else if m = 1 then seg (by_version v 10 12 14) read_numeric
         else if m = 2 then seg (by_version v 9 11 13) read_alnum
         else if m = 4 then seg (by_version v 8 16 16) read_bytes
         else None)"

section \<open>The constructors build the reference encodings\<close>

lemma digit_val_less: "qr_digit c \<Longrightarrow> digit_val c < 10"
  by (auto simp: qr_digit_def digit_val_def)

lemma digit_of_val: "qr_digit c \<Longrightarrow> char_of (48 + digit_val c) = c"
  by (simp add: qr_digit_def digit_val_def)

lemma makeNumeric_loop_run:
  "list_all qr_digit t \<Longrightarrow> \<exists>a k. k < 3 \<and> (k = 0 \<longrightarrow> a = 0) \<and> a < 10 ^ k \<and>
     makeNumeric_loop t 0 0 n bb = Inr (a, k, n + int (length t), bb @ take (10 * (length t div 3)) (numeric_bits t)) \<and>
     numeric_bits t = take (10 * (length t div 3)) (numeric_bits t) @ (if k = 0 then [] else bits_of (k * 3 + 1) a)"
proof (induction t arbitrary: n bb rule: numeric_bits.induct)
  case (2 a)
  then show ?case by (intro exI [of _ "digit_val a"] exI [of _ 1]) (use digit_val_less in \<open>auto simp: digit_val_def\<close>)
next
  case (3 a b)
  have "digit_val a * 10 + digit_val b < 100" using 3 digit_val_less [of a] digit_val_less [of b] by simp
  then show ?case using 3
    by (intro exI [of _ "digit_val a * 10 + digit_val b"] exI [of _ 2]) (auto simp: digit_val_def)
next
  case (4 a b c r)
  let ?v = "(digit_val a * 10 + digit_val b) * 10 + digit_val c"
  have v: "?v < 2 ^ 10" using 4 digit_val_less [of a] digit_val_less [of b] digit_val_less [of c] by simp
  obtain x k where ih: "k < 3" "k = 0 \<longrightarrow> x = 0" "x < 10 ^ k"
    "makeNumeric_loop r 0 0 (3 + n) (bb @ bits_of 10 ?v) = Inr (x, k, 3 + n + int (length r), (bb @ bits_of 10 ?v) @ take (10 * (length r div 3)) (numeric_bits r))"
    "numeric_bits r = take (10 * (length r div 3)) (numeric_bits r) @ (if k = 0 then [] else bits_of (k * 3 + 1) x)"
    using "4.IH" [of "3 + n" "bb @ bits_of 10 ?v"] "4.prems" by auto
  have step: "makeNumeric_loop (a # b # c # r) 0 0 n bb = makeNumeric_loop r 0 0 (3 + n) (bb @ bits_of 10 ?v)"
    using "4.prems" appendBits_num [OF _ v, of bb] by (simp add: digit_val_def del: of_nat_add of_nat_mult)
  have len: "(3 + length r) div 3 = Suc (length r div 3)"
    using div_add_self1 [of 3 "length r"] by simp
  show ?case
    using ih by - (rule exI [of _ x], rule exI [of _ k], simp add: step len del: makeNumeric_loop.simps)
qed (auto intro: exI [of _ 0])

lemma makeNumeric_eq:
  assumes "isNumeric t"
  shows "makeNumeric t = Inr \<lparr>sg_mode = NUMERIC, sg_numChars = int (length t), sg_data = numeric_bits t\<rparr>"
proof -
  obtain a k where r: "k < 3" "a < 10 ^ k"
    "makeNumeric_loop t 0 0 0 [] = Inr (a, k, int (length t), take (10 * (length t div 3)) (numeric_bits t))"
    "numeric_bits t = take (10 * (length t div 3)) (numeric_bits t) @ (if k = 0 then [] else bits_of (k * 3 + 1) a)"
    using makeNumeric_loop_run [of t 0 "[]"] assms by (auto simp: isNumeric_def)
  have "(if k > 0 then appendBits (word_of_nat a) (int k * 3 + 1) bb else Inr bb)
      = Inr (bb @ (if k = 0 then [] else bits_of (k * 3 + 1) a))" for bb
  proof (cases "k = 0")
    case False
    then have "k = 1 \<or> k = 2" using r(1) by linarith
    then have "a < 2 ^ (k * 3 + 1)" "k * 3 + 1 \<le> 31" using r(2) by auto
    from appendBits_num [OF this(2,1), of bb] False show ?thesis by (simp add: algebra_simps)
  qed simp
  then show ?thesis
    using r(3,4) by (simp add: makeNumeric_def new_QrSegment_def)
qed

lemma strchr_Some: "strchr s c = Some i \<Longrightarrow> i < length s \<and> s ! i = c"
  by (induction s c arbitrary: i rule: strchr.induct) (auto split: if_splits)

lemma length_CHARSET: "length ALPHANUMERIC_CHARSET = 45"
  by (simp add: ALPHANUMERIC_CHARSET_def)

definition alnum_char :: "char \<Rightarrow> bool" where
  "alnum_char c \<longleftrightarrow> strchr ALPHANUMERIC_CHARSET c \<noteq> None"

lemma alnum_valD: "alnum_char c \<Longrightarrow> strchr ALPHANUMERIC_CHARSET c = Some (alnum_val c) \<and> alnum_val c < 45
    \<and> ALPHANUMERIC_CHARSET ! alnum_val c = c"
  using strchr_Some [of ALPHANUMERIC_CHARSET c] by (auto simp: alnum_char_def alnum_val_def length_CHARSET)

lemma makeAlphanumeric_loop_run:
  "list_all alnum_char t \<Longrightarrow> \<exists>a k. k < 2 \<and> (k = 0 \<longrightarrow> a = 0) \<and> a < 45 \<and>
     makeAlphanumeric_loop t 0 0 n bb = Inr (a, k, n + int (length t), bb @ take (11 * (length t div 2)) (alnum_bits t)) \<and>
     alnum_bits t = take (11 * (length t div 2)) (alnum_bits t) @ (if k = 0 then [] else bits_of 6 a)"
proof (induction t arbitrary: n bb rule: alnum_bits.induct)
  case (2 a)
  then show ?case by (intro exI [of _ "alnum_val a"] exI [of _ 1]) (use alnum_valD [of a] in auto)
next
  case (3 a b r)
  let ?v = "alnum_val a * 45 + alnum_val b"
  have v: "?v < 2 ^ 11" using 3 alnum_valD [of a] alnum_valD [of b] by simp
  obtain x k where ih: "k < 2" "k = 0 \<longrightarrow> x = 0" "x < 45"
    "makeAlphanumeric_loop r 0 0 (2 + n) (bb @ bits_of 11 ?v) = Inr (x, k, 2 + n + int (length r), (bb @ bits_of 11 ?v) @ take (11 * (length r div 2)) (alnum_bits r))"
    "alnum_bits r = take (11 * (length r div 2)) (alnum_bits r) @ (if k = 0 then [] else bits_of 6 x)"
    using "3.IH" [of "2 + n" "bb @ bits_of 11 ?v"] "3.prems" by auto
  have step: "makeAlphanumeric_loop (a # b # r) 0 0 n bb = makeAlphanumeric_loop r 0 0 (2 + n) (bb @ bits_of 11 ?v)"
    using "3.prems" alnum_valD [of a] alnum_valD [of b] appendBits_num [OF _ v, of bb] by (simp del: of_nat_add of_nat_mult)
  show ?case
    using ih by - (rule exI [of _ x], rule exI [of _ k], simp add: step del: makeAlphanumeric_loop.simps)
qed (auto intro: exI [of _ 0])

lemma makeAlphanumeric_eq:
  assumes "isAlphanumeric t"
  shows "makeAlphanumeric t = Inr \<lparr>sg_mode = ALPHANUMERIC, sg_numChars = int (length t), sg_data = alnum_bits t\<rparr>"
proof -
  have alnum: "list_all alnum_char t"
    using assms by (simp add: isAlphanumeric_def alnum_char_def list_all_iff)
  obtain a k where r: "k < 2" "a < 45"
    "makeAlphanumeric_loop t 0 0 0 [] = Inr (a, k, int (length t), take (11 * (length t div 2)) (alnum_bits t))"
    "alnum_bits t = take (11 * (length t div 2)) (alnum_bits t) @ (if k = 0 then [] else bits_of 6 a)"
    using makeAlphanumeric_loop_run [of t 0 "[]"] alnum by auto
  have "(if k > 0 then appendBits (word_of_nat a) 6 bb else Inr bb)
      = Inr (bb @ (if k = 0 then [] else bits_of 6 a))" for bb
    using appendBits_num [of 6 a bb] r(2) by simp
  then show ?thesis
    using r(3,4) by (simp add: makeAlphanumeric_def new_QrSegment_def)
qed

lemma makeBytes_eq:
  assumes "length t < 2 ^ 31"
  shows "makeBytes (bytes_of t) = Inr \<lparr>sg_mode = BYTE, sg_numChars = int (length t), sg_data = byte_data_bits t\<rparr>"
proof -
  have one: "appendBits (ucast (u8_of_char c)) 8 bb = Inr (bb @ bits_of 8 (of_char c))" for c bb
  proof -
    have "of_char c < (2 ^ 8 :: nat)" using nat_of_char_less_256 [of c] by simp
    moreover have "(ucast (u8_of_char c) :: u32) = word_of_nat (of_char c)"
      using calculation by (simp add: u8_of_char_def unsigned_of_nat take_bit_eq_mod)
    ultimately show ?thesis using appendBits_num [of 8 "of_char c" bb] by simp
  qed
  have "qr_fold (\<lambda>b. appendBits (ucast b) 8) (bytes_of t) bb = Inr (bb @ byte_data_bits t)" for bb
    by (induction t arbitrary: bb) (simp_all add: bytes_of_def byte_data_bits_def one)
  then show ?thesis using assms by (simp add: makeBytes_def new_QrSegment_def INT_MAX_def)
qed

text \<open>What \<open>makeSegments\<close> builds: the first encoding the characters allow.\<close>

definition text_segment :: "string \<Rightarrow> QrSegment" where
  "text_segment t =
     (if isNumeric t then \<lparr>sg_mode = NUMERIC, sg_numChars = int (length t), sg_data = numeric_bits t\<rparr>
      else if isAlphanumeric t then \<lparr>sg_mode = ALPHANUMERIC, sg_numChars = int (length t), sg_data = alnum_bits t\<rparr>
      else \<lparr>sg_mode = BYTE, sg_numChars = int (length t), sg_data = byte_data_bits t\<rparr>)"

lemma makeSegments_eq:
  "length t < 2 ^ 31 \<Longrightarrow> makeSegments t = Inr (if t = [] then [] else [text_segment t])"
  by (auto simp: makeSegments_def text_segment_def makeNumeric_eq makeAlphanumeric_eq makeBytes_eq)

section \<open>The reader gets the text back\<close>

lemma dec_digits_simps:
  "dec_digits (Suc 0) n = [char_of (48 + n mod 10)]"
  "dec_digits 2 n = [char_of (48 + n div 10 mod 10), char_of (48 + n mod 10)]"
  "dec_digits 3 n = [char_of (48 + n div 10 div 10 mod 10), char_of (48 + n div 10 mod 10), char_of (48 + n mod 10)]"
  by (simp_all add: numeral_2_eq_2 numeral_3_eq_3)

lemma read_numeric_bits: "list_all qr_digit t \<Longrightarrow> read_numeric (length t) (numeric_bits t @ rest) = (t, rest)"
proof (induction t rule: numeric_bits.induct)
  case (2 a)
  then show ?case using digit_val_less [of a] by (simp add: digit_of_val)
next
  case (3 a b)
  then show ?case using digit_val_less [of a] digit_val_less [of b] by (simp add: dec_digits_simps digit_of_val)
next
  case (4 a b c r)
  have v: "(digit_val a * 10 + digit_val b) * 10 + digit_val c < 1024"
    using 4 digit_val_less [of a] digit_val_less [of b] digit_val_less [of c] by simp
  have e: "(x * 10 + y) div 10 = x" "(x * 10 + y) mod 10 = y" if "y < 10" for x y :: nat
    using that by simp_all
  have d: "((digit_val a * 10 + digit_val b) * 10 + digit_val c) div 10 div 10 = digit_val a"
    "((digit_val a * 10 + digit_val b) * 10 + digit_val c) div 10 mod 10 = digit_val b"
    "((digit_val a * 10 + digit_val b) * 10 + digit_val c) mod 10 = digit_val c"
    using e [of "digit_val c" "digit_val a * 10 + digit_val b"] e [of "digit_val b" "digit_val a"] 4
      digit_val_less [of b] digit_val_less [of c] by simp_all
  show ?case
    using 4 v d digit_val_less [of a] by (simp add: dec_digits_simps digit_of_val)
qed simp

lemma read_alnum_bits: "list_all alnum_char t \<Longrightarrow> read_alnum (length t) (alnum_bits t @ rest) = (t, rest)"
proof (induction t rule: alnum_bits.induct)
  case (2 a)
  then show ?case using alnum_valD [of a] by simp
next
  case (3 a b r)
  have "alnum_val a * 45 + alnum_val b < 2048" using 3 alnum_valD [of a] alnum_valD [of b] by simp
  then show ?case using 3 alnum_valD [of a] alnum_valD [of b] by simp
qed simp

lemma read_byte_bits: "read_bytes (length t) (byte_data_bits t @ rest) = (t, rest)"
proof (induction t)
  case (Cons c t)
  then show ?case using nat_of_char_less_256 [of c] by (simp add: byte_data_bits_def)
qed (simp add: byte_data_bits_def)

text \<open>The bits of a segment in a code of version \<open>v\<close>: mode, count, data.\<close>

definition segment_bits :: "nat \<Rightarrow> QrSegment \<Rightarrow> bool list" where
  "segment_bits v seg = bits_of 4 (modeBits (sg_mode seg))
     @ bits_of (numCharCountBits (sg_mode seg) v) (nat (sg_numChars seg)) @ sg_data seg"

definition no_more_segments :: "bool list \<Rightarrow> bool" where
  "no_more_segments pad \<longleftrightarrow> num_of (take 4 pad) = 0"

lemma count_widths:
  assumes "1 \<le> v" and "v \<le> 40"
  shows "numCharCountBits NUMERIC v = by_version v 10 12 14"
    and "numCharCountBits ALPHANUMERIC v = by_version v 9 11 13"
    and "numCharCountBits BYTE v = by_version v 8 16 16"
proof -
  have "(v + 7) div 17 = (if v \<le> 9 then 0 else if v \<le> 26 then 1 else 2)"
    using assms by (auto intro!: div_nat_eqI)
  then show "numCharCountBits NUMERIC v = by_version v 10 12 14"
    "numCharCountBits ALPHANUMERIC v = by_version v 9 11 13" "numCharCountBits BYTE v = by_version v 8 16 16"
    by (simp_all add: numCharCountBits_def NUMERIC_def ALPHANUMERIC_def BYTE_def by_version_def numeral_2_eq_2)
qed

lemma read_no_more: "no_more_segments pad \<Longrightarrow> read_segments (Suc n) v pad = Some []"
  by (simp add: no_more_segments_def)

lemma read_segments_step:
  assumes "k < 2 ^ w" and "rd k ds = (t, pad)" and "no_more_segments pad"
    and "m = 1 \<and> w = by_version v 10 12 14 \<and> rd = read_numeric \<or> m = 2 \<and> w = by_version v 9 11 13 \<and> rd = read_alnum
       \<or> m = 4 \<and> w = by_version v 8 16 16 \<and> rd = read_bytes"
  shows "read_segments (Suc (Suc n)) v (bits_of 4 m @ bits_of w k @ ds) = Some t"
proof -
  have "bits_of w k \<noteq> []"
    using assms(4) by (auto simp: by_version_def simp flip: length_0_conv)
  then have "read_segments (Suc (Suc n)) v (bits_of 4 m @ bits_of w k @ ds) = map_option ((@) t) (read_segments (Suc n) v pad)"
    using assms(4,1,2) by (elim disjE conjE) (simp_all add: read_segments.simps(2) [of "Suc n"] Let_def
      del: read_segments.simps)
  then show ?thesis using read_no_more [OF assms(3)] by simp
qed

lemma read_text_segment:
  assumes "1 \<le> v" and "v \<le> 40" and "int (length t) < 2 ^ numCharCountBits (sg_mode (text_segment t)) v"
    and "no_more_segments pad"
  shows "read_segments (Suc (Suc n)) v (segment_bits v (text_segment t) @ pad) = Some t"
proof -
  have nat: "length t < 2 ^ k" if "int (length t) < 2 ^ k" for k
    using that by (metis of_nat_less_imp_less of_nat_numeral of_nat_power)
  note w = count_widths [OF assms(1,2)]
  consider (num) "isNumeric t" | (alnum) "\<not> isNumeric t" "isAlphanumeric t" | (byte) "\<not> isNumeric t" "\<not> isAlphanumeric t"
    by blast
  then show ?thesis
  proof cases
    case num
    then have "text_segment t = \<lparr>sg_mode = NUMERIC, sg_numChars = int (length t), sg_data = numeric_bits t\<rparr>"
      by (simp add: text_segment_def)
    moreover have "read_numeric (length t) (numeric_bits t @ pad) = (t, pad)"
      using num by (simp add: read_numeric_bits isNumeric_def)
    moreover have "modeBits NUMERIC = 1" by (simp add: NUMERIC_def)
    ultimately show ?thesis
      using assms(3,4) nat [of "by_version v 10 12 14"] read_segments_step [of "length t" "by_version v 10 12 14" read_numeric _ t pad]
      by (simp add: segment_bits_def w del: read_segments.simps)
  next
    case alnum
    then have "text_segment t = \<lparr>sg_mode = ALPHANUMERIC, sg_numChars = int (length t), sg_data = alnum_bits t\<rparr>"
      by (simp add: text_segment_def)
    moreover have "read_alnum (length t) (alnum_bits t @ pad) = (t, pad)"
      using alnum by (simp add: read_alnum_bits isAlphanumeric_def alnum_char_def list_all_iff)
    moreover have "modeBits ALPHANUMERIC = 2" by (simp add: ALPHANUMERIC_def)
    ultimately show ?thesis
      using assms(3,4) nat [of "by_version v 9 11 13"] read_segments_step [of "length t" "by_version v 9 11 13" read_alnum _ t pad]
      by (simp add: segment_bits_def w del: read_segments.simps)
  next
    case byte
    then have "text_segment t = \<lparr>sg_mode = BYTE, sg_numChars = int (length t), sg_data = byte_data_bits t\<rparr>"
      by (simp add: text_segment_def)
    moreover have "modeBits BYTE = 4" by (simp add: BYTE_def)
    ultimately show ?thesis
      using assms(3,4) nat [of "by_version v 8 16 16"] read_segments_step [of "length t" "by_version v 8 16 16" read_bytes _ t pad]
      by (simp add: segment_bits_def w read_byte_bits del: read_segments.simps)
  qed
qed

text \<open>The length \<open>getTotalBits\<close> finds is the length of the segments' bits, when every count fits its field.\<close>

lemma getTotalBits_single:
  assumes "0 \<le> sg_numChars seg" and "numCharCountBits (sg_mode seg) v \<le> 16"
  shows "getTotalBits [seg] v =
    (if sg_numChars seg < 2 ^ numCharCountBits (sg_mode seg) v \<and> int (length (segment_bits v seg)) \<le> INT_MAX
     then int (length (segment_bits v seg)) else - 1)"
  using assms by (auto simp: getTotalBits_def segment_bits_def INT_MAX_def Let_def)

end
