(* ===== verification/QrCodewords.thy ===== *)
theory QrCodewords
  imports QrCode QrText
begin

text \<open>
  The codewords of a QR code: the data codewords have the capacity of the version and the level, start with the bits of
  the segments and end in padding a reader ignores; the blocks with their error correction are codewords; and the
  interleaved sequence gives the data back.
\<close>

section \<open>Concatenation, padding and packing\<close>

lemma bits_of_word: "k \<le> 31 \<Longrightarrow> 0 \<le> n \<Longrightarrow> n < 2 ^ k \<Longrightarrow> appendBits (word_of_int n) (int k) bb = Inr (bb @ bits_of k (nat n))"
proof -
  assume "k \<le> 31" "0 \<le> n" "n < 2 ^ k"
  then have "nat n < 2 ^ k" by (simp add: nat_less_iff)
  moreover have "(word_of_int n :: u32) = word_of_nat (nat n)" using \<open>0 \<le> n\<close> by simp
  ultimately show ?thesis using appendBits_num [OF \<open>k \<le> 31\<close>] by metis
qed

lemma num_of_zeros: "num_of (replicate n False) = 0"
  by (induction n) (simp_all add: num_of_def)

lemma text_segment_mode: "sg_mode (text_segment t) \<in> {NUMERIC, ALPHANUMERIC, BYTE}" "sg_numChars (text_segment t) = int (length t)"
  by (auto simp: text_segment_def)

lemma mode_simps: "modeBits NUMERIC = 1" "modeBits ALPHANUMERIC = 2" "modeBits BYTE = 4"
  by (simp_all add: NUMERIC_def ALPHANUMERIC_def BYTE_def)

lemma concat_text_segment:
  assumes "1 \<le> v" and "v \<le> 40" and "int (length t) < 2 ^ numCharCountBits (sg_mode (text_segment t)) v"
  shows "concat_segments v [text_segment t] = Inr (segment_bits v (text_segment t))"
proof -
  let ?m = "sg_mode (text_segment t)"
  have "modeBits ?m < 2 ^ 4" "numCharCountBits ?m v \<le> 31"
    using text_segment_mode(1) [of t] count_widths [OF assms(1,2)] by (auto simp: mode_simps by_version_def)
  then show ?thesis
    using appendBits_num [of 4 "modeBits ?m"] bits_of_word [of "numCharCountBits ?m v" "int (length t)"] assms(3)
    by (simp add: concat_segments_def segment_bits_def text_segment_mode)
qed

text \<open>The padding: at most four zeros, zeros up to a byte, and the two bytes in turn up to the capacity.\<close>

lemma pad_bytes_run:
  assumes "length bb mod 8 = 0" and "cap mod 8 = 0" and "length bb \<le> cap"
  shows "\<exists>pad. pad_bytes b cap bb = Inr (bb @ pad) \<and> length (bb @ pad) = cap"
  using assms
proof (induction b cap bb rule: pad_bytes.induct)
  case (1 b cap bb)
  show ?case
  proof (cases "length bb < cap")
    case True
    have "(ucast b :: u32) = word_of_nat (unat b)" by simp
    moreover have "unat b < 2 ^ 8" using unsigned_less [of b] by simp
    ultimately have a: "appendBits (ucast b) 8 bb = Inr (bb @ bits_of 8 (unat b))"
      using appendBits_num [of 8 "unat b" bb] by simp
    have "length bb + 8 \<le> cap" using True 1 by presburger
    then obtain pad where "pad_bytes (xor b (xor 0xEC 0x11)) cap (bb @ bits_of 8 (unat b)) = Inr ((bb @ bits_of 8 (unat b)) @ pad)"
      "length ((bb @ bits_of 8 (unat b)) @ pad) = cap"
      using "1.IH" [OF True a] 1 by auto
    then show ?thesis using True a by (intro exI [of _ "bits_of 8 (unat b) @ pad"]) (simp add: pad_bytes.simps [of b cap bb])
  qed (use 1 in \<open>simp add: pad_bytes.simps [of b cap bb]\<close>)
qed

lemma round_up_le:
  fixes n cap :: nat
  assumes "n \<le> cap" and "cap mod 8 = 0"
  shows "n + (8 - n mod 8) mod 8 \<le> cap" and "(n + (8 - n mod 8) mod 8) mod 8 = 0"
proof -
  obtain c where c: "cap = 8 * c" using assms(2) by auto
  define a r where "a = n div 8" and "r = n mod 8"
  have n: "n = 8 * a + r" "r < 8" by (simp_all add: a_def r_def)
  have "n + (8 - n mod 8) mod 8 = (if r = 0 then 8 * a else 8 * Suc a)"
    using n(2) by (auto simp: n(1))
  moreover have "r = 0 \<or> Suc a \<le> c" using assms(1) n c by linarith
  ultimately show "n + (8 - n mod 8) mod 8 \<le> cap" "(n + (8 - n mod 8) mod 8) mod 8 = 0"
    using assms(1) n c by auto
qed

lemma pad_bits_run:
  assumes "length bb \<le> cap" and "cap mod 8 = 0"
  shows "\<exists>pad. pad_bits cap bb = Inr (bb @ pad) \<and> length (bb @ pad) = cap \<and> no_more_segments pad"
proof -
  define k where "k = min 4 (cap - length bb)"
  define m where "m = (8 - (length bb + k) mod 8) mod 8"
  let ?z = "replicate (k + m) False"
  have "min 4 (int (cap - length bb)) = int k" by (simp add: k_def)
  then have one: "appendBits 0 (min 4 (int (cap - length bb))) bb = Inr (bb @ replicate k False)"
    using appendBits_zero [of "int k" bb] by (simp add: k_def)
  have "(8 - int ((length bb + k) mod 8)) mod 8 = int m"
    by (simp add: m_def of_nat_mod of_nat_diff)
  then have two: "appendBits 0 ((8 - int (length (bb @ replicate k False) mod 8)) mod 8) (bb @ replicate k False) = Inr (bb @ ?z)"
    using appendBits_zero [of "int m" "bb @ replicate k False"] by (simp add: m_def replicate_add)
  have "length bb + k \<le> cap" using assms(1) by (simp add: k_def)
  then have z: "length (bb @ ?z) mod 8 = 0" and le: "length (bb @ ?z) \<le> cap"
    using round_up_le [of "length bb + k" cap] assms(2) by (simp_all add: m_def add.assoc)
  obtain pad where pad: "pad_bytes 0xEC cap (bb @ ?z) = Inr ((bb @ ?z) @ pad)" "length ((bb @ ?z) @ pad) = cap"
    using pad_bytes_run [OF z assms(2) le] by blast
  have "no_more_segments (?z @ pad)"
  proof (cases "cap - length bb \<ge> 4")
    case True
    then have "take 4 (?z @ pad) = replicate 4 False" by (simp add: k_def)
    then show ?thesis by (simp add: no_more_segments_def num_of_def numeral_eq_Suc)
  next
    case False
    then have "k = cap - length bb" by (simp add: k_def)
    then have "pad = []" "length ?z \<le> 4" using pad(2) False assms by auto
    then show ?thesis by (simp add: no_more_segments_def num_of_zeros)
  qed
  then show ?thesis
    using pad one two by (intro exI [of _ "?z @ pad"]) (simp add: pad_bits_def)
qed

text \<open>Lists of rows of one width.\<close>

lemma nth_concat_uniform:
  assumes "\<And>xs. xs \<in> set xss \<Longrightarrow> length xs = w" and "j < w * length xss"
  shows "concat xss ! j = xss ! (j div w) ! (j mod w)"
  using assms
proof (induction xss arbitrary: j)
  case (Cons x xss)
  have w: "length x = w" "0 < w" using Cons.prems by (auto intro: gr0I)
  show ?case
  proof (cases "j < w")
    case False
    then have "concat xss ! (j - w) = xss ! ((j - w) div w) ! ((j - w) mod w)"
      using Cons.prems by (intro Cons.IH) auto
    moreover have "j div w = Suc ((j - w) div w)" "j mod w = (j - w) mod w"
      using False w by (simp_all add: le_div_geq le_mod_geq)
    ultimately show ?thesis using False w by (simp add: nth_append)
  qed (use w in \<open>simp add: nth_append\<close>)
qed simp

lemma length_concat_uniform: "(\<And>xs. xs \<in> set xss \<Longrightarrow> length xs = w) \<Longrightarrow> length (concat xss) = w * length xss"
  by (induction xss) auto

text \<open>The bits of a list of codewords, the highest bit of a codeword first.\<close>

definition byte_stream :: "bytes \<Rightarrow> bool list" where
  "byte_stream ds = concat (map (\<lambda>b. bits_of 8 (unat b)) ds)"

lemma length_byte_stream [simp]: "length (byte_stream ds) = 8 * length ds"
  unfolding byte_stream_def by (subst length_concat_uniform [where w = 8]) auto

lemma nth_bits_of: "i < k \<Longrightarrow> bits_of k n ! i = bit n (k - 1 - i)"
  by (simp add: bits_of_def rev_nth)

lemma nth_byte_stream:
  assumes "j < 8 * length ds"
  shows "byte_stream ds ! j = bit (ds ! (j div 8)) (7 - j mod 8)"
proof -
  have "byte_stream ds ! j = map (\<lambda>b. bits_of 8 (unat b)) ds ! (j div 8) ! (j mod 8)"
    unfolding byte_stream_def by (rule nth_concat_uniform) (use assms in auto)
  also have "\<dots> = bit (unat (ds ! (j div 8))) (7 - j mod 8)"
    using assms nth_bits_of [of "j mod 8" 8 "unat (ds ! (j div 8))"] by (simp add: less_mult_imp_div_less mult.commute)
  finally show ?thesis by (simp add: bit_unsigned_iff)
qed

lemma getBit_byte: "getBit (uint (b :: u8)) i = bit b i"
  by (simp add: getBit_def and_one_eq mod_2_eq_odd bit_iff_odd_drop_bit [symmetric] bit_uint_iff) (auto dest: bit_imp_le_length)

definition packed_upto :: "bool list \<Rightarrow> nat \<Rightarrow> bytes \<Rightarrow> bool" where
  "packed_upto bb k ds \<longleftrightarrow> length ds = length bb div 8 \<and>
     (\<forall>i < length ds. \<forall>n. bit (ds ! i) n \<longleftrightarrow> n < 8 \<and> 8 * i + (7 - n) < k \<and> bb ! (8 * i + (7 - n)))"

lemma pack_bits_run:
  assumes "length bb mod 8 = 0"
  shows "\<exists>ds. pack_bits bb = Inr ds \<and> length ds = length bb div 8 \<and> byte_stream ds = bb"
proof -
  let ?f = "\<lambda>i ds. qr_bind (vec_at ds (i div 8)) (\<lambda>b. qr_bind (vec_at bb i) (\<lambda>bit.
      Inr (ds[i div 8 := or b (push_bit (7 - i mod 8) (if bit then 1 else 0))])))"
  have "k \<le> length bb \<Longrightarrow> \<exists>ds. qr_fold ?f [0..<k] (replicate (length bb div 8) 0) = Inr ds \<and> packed_upto bb k ds" for k
  proof (induction k)
    case (Suc k)
    then obtain ds where ds: "qr_fold ?f [0..<k] (replicate (length bb div 8) 0) = Inr ds" "packed_upto bb k ds" by auto
    have k: "k div 8 < length ds" "k < length bb" using Suc.prems ds(2) assms by (auto simp: packed_upto_def)
    let ?w = "or (ds ! (k div 8)) (push_bit (7 - k mod 8) (if bb ! k then 1 else 0))"
    have k8: "k = 8 * (k div 8) + k mod 8" "k mod 8 < 8" by simp_all
    have "packed_upto bb (Suc k) (ds[k div 8 := ?w])"
      unfolding packed_upto_def length_list_update
    proof (intro conjI allI impI)
      fix i n assume i: "i < length ds"
      have old: "bit (ds ! i) n \<longleftrightarrow> n < 8 \<and> 8 * i + (7 - n) < k \<and> bb ! (8 * i + (7 - n))"
        using ds(2) i by (simp add: packed_upto_def)
      have same: "8 * i + (7 - n) = k \<longleftrightarrow> i = k div 8 \<and> n = 7 - k mod 8" if "n < 8"
      proof -
        have dm: "(8 * i + m) mod 8 = m \<and> (8 * i + m) div 8 = i" if "m < 8" for m using that by simp
        have "8 * i + (7 - n) = k \<longleftrightarrow> i = k div 8 \<and> 7 - n = k mod 8"
          using dm [of "7 - n"] k8 by auto
        moreover have "7 - n = k mod 8 \<longleftrightarrow> n = 7 - k mod 8" using that k8(2) by linarith
        ultimately show ?thesis by simp
      qed
      have new: "bit ?w n \<longleftrightarrow> bit (ds ! (k div 8)) n \<or> (n = 7 - k mod 8 \<and> bb ! k)"
        by (auto simp: bit_or_iff bit_push_bit_iff bit_1_iff)
      show "bit (ds[k div 8 := ?w] ! i) n \<longleftrightarrow> n < 8 \<and> 8 * i + (7 - n) < Suc k \<and> bb ! (8 * i + (7 - n))"
      proof (cases "i = k div 8")
        case True
        then show ?thesis using i old new same k8 by (auto simp: less_Suc_eq)
      next
        case False
        then show ?thesis using i old same by (auto simp: less_Suc_eq)
      qed
    qed (use ds(2) in \<open>simp add: packed_upto_def\<close>)
    then show ?case using ds(1) k by (simp add: qr_fold_append)
  qed (auto simp: packed_upto_def)
  from this [of "length bb"] obtain ds where "pack_bits bb = Inr ds" and p: "packed_upto bb (length bb) ds"
    by (auto simp: pack_bits_def)
  moreover have "byte_stream ds = bb"
  proof (rule nth_equalityI)
    show "length (byte_stream ds) = length bb" using p assms by (auto simp: packed_upto_def)
    fix j assume j: "j < length (byte_stream ds)"
    then have "j div 8 < length ds" by auto
    moreover have "8 * (j div 8) + (7 - (7 - j mod 8)) = j" by simp
    ultimately show "byte_stream ds ! j = bb ! j"
      using p j nth_byte_stream [of j ds] by (auto simp: packed_upto_def)
  qed
  ultimately show ?thesis by (auto simp: packed_upto_def)
qed

section \<open>Blocks\<close>

definition block_len :: "nat \<Rightarrow> nat \<Rightarrow> nat \<Rightarrow> nat" where
  "block_len dataLen numShort j = dataLen + (if j < numShort then 0 else 1)"

text \<open>A block is its data, the unused byte of a short block, and the remainder of the data.\<close>

definition ecc_block :: "bytes \<Rightarrow> nat \<Rightarrow> nat \<Rightarrow> nat \<Rightarrow> bytes \<Rightarrow> bool" where
  "ecc_block rsDiv dataLen numShort j b \<longleftrightarrow>
     (\<exists>dat ecc. b = dat @ (if j < numShort then [0] else []) @ ecc \<and> length dat = block_len dataLen numShort j
        \<and> reedSolomonComputeRemainder dat rsDiv = Inr ecc \<and> length ecc = length rsDiv)"

lemma ecc_blocks_run:
  assumes "rsDiv \<noteq> []" and "k + sum_list (map (block_len dataLen numShort) is) \<le> length data"
  shows "\<exists>bs. ecc_blocks data rsDiv dataLen numShort is k = Inr bs \<and> list_all2 (ecc_block rsDiv dataLen numShort) is bs
    \<and> concat (map2 (\<lambda>j. take (block_len dataLen numShort j)) is bs)
      = take (sum_list (map (block_len dataLen numShort) is)) (drop k data)"
  using assms(2)
proof (induction "is" arbitrary: k)
  case (Cons j js)
  let ?n = "block_len dataLen numShort j"
  let ?dat = "take ?n (drop k data)"
  have len: "length ?dat = ?n" using Cons.prems by simp
  obtain ecc where ecc: "reedSolomonComputeRemainder ?dat rsDiv = Inr ecc" "length ecc = length rsDiv"
    using remainder_total [OF assms(1)] .
  obtain bs where bs: "ecc_blocks data rsDiv dataLen numShort js (k + ?n) = Inr bs"
    "list_all2 (ecc_block rsDiv dataLen numShort) js bs"
    "concat (map2 (\<lambda>j. take (block_len dataLen numShort j)) js bs)
      = take (sum_list (map (block_len dataLen numShort) js)) (drop (k + ?n) data)"
    using Cons.IH [of "k + ?n"] Cons.prems by auto
  let ?b = "?dat @ (if j < numShort then [0] else []) @ ecc"
  have "ecc_block rsDiv dataLen numShort j ?b"
    unfolding ecc_block_def using len ecc by blast
  moreover have "take ?n ?b = ?dat" using len by simp
  moreover have "ecc_blocks data rsDiv dataLen numShort (j # js) k = Inr (?b # bs)"
    using ecc(1) bs(1) len by (simp add: block_len_def [symmetric] Let_def)
  moreover have "take (?n + m) (drop k data) = ?dat @ take m (drop (k + ?n) data)" for m
    using take_add [of ?n m "drop k data"] by (simp add: add.commute [of k])
  ultimately show ?case using bs(2,3) by simp
qed simp

lemma sum_block_len: "ns \<le> n \<Longrightarrow> sum_list (map (block_len l ns) [0..<n]) = ns * l + (n - ns) * (l + 1)"
proof (induction n)
  case (Suc n)
  show ?case
  proof (cases "ns \<le> n")
    case True
    then show ?thesis using Suc.IH by (simp add: block_len_def Suc_diff_le)
  next
    case False
    then have ns: "ns = Suc n" using Suc.prems by simp
    have "map (block_len l (Suc n)) [0..<Suc n] = map (\<lambda>_. l) [0..<Suc n]"
      by (rule map_cong) (auto simp: block_len_def)
    then show ?thesis unfolding ns by (simp add: map_replicate_const sum_list_replicate del: upt_Suc)
  qed
qed simp

section \<open>Interleaving\<close>

lemma product_upt: "List.product is js = concat (map (\<lambda>i. map (Pair i) js) is)"
  by (induction "is") simp_all

lemma interleaved_order:
  assumes "l < w" and "ns \<le> n"
  shows "filter (\<lambda>(i, j). i \<noteq> l \<or> j \<ge> ns) (List.product [0..<w] [0..<n])
    = List.product [0..<l] [0..<n] @ map (Pair l) [ns..<n] @ List.product [Suc l..<w] [0..<n]"
proof -
  have keep: "filter (\<lambda>(i, j). i \<noteq> l \<or> j \<ge> ns) (List.product is [0..<n]) = List.product is [0..<n]" if "l \<notin> set is" for "is"
    using that by (auto simp: filter_id_conv)
  have mid: "filter (\<lambda>j. j \<ge> ns) [0..<n] = [ns..<n]"
  proof -
    have "[0..<n] = [0..<ns] @ [ns..<n]" using assms(2) by (metis le0 upt_add_eq_append le_add_diff_inverse)
    then show ?thesis by simp
  qed
  have "[0..<w] = [0..<l] @ l # [Suc l..<w]"
    using assms(1) by (metis le0 less_imp_le_nat upt_add_eq_append le_add_diff_inverse upt_conv_Cons)
  then have "List.product [0..<w] [0..<n] = List.product [0..<l] [0..<n] @ map (Pair l) [0..<n] @ List.product [Suc l..<w] [0..<n]"
    by (simp add: product_upt)
  then show ?thesis
    using keep [of "[0..<l]"] keep [of "[Suc l..<w]"] mid by (simp add: filter_map comp_def)
qed

lemma row_index_less: "i < m \<Longrightarrow> j < n \<Longrightarrow> i * n + j < m * (n :: nat)"
proof -
  assume "i < m" "j < n"
  then have "i * n + j < Suc i * n" "Suc i * n \<le> m * n" by (simp, intro mult_le_mono1) simp
  then show ?thesis by (rule less_le_trans)
qed

text \<open>A reader takes the blocks apart again: the codewords of column \<open>i\<close> follow each other.\<close>

definition block_data :: "nat \<Rightarrow> nat \<Rightarrow> nat \<Rightarrow> bytes \<Rightarrow> nat \<Rightarrow> bytes" where
  "block_data dataLen numShort n raw j =
     map (\<lambda>i. raw ! (i * n + j)) [0..<dataLen] @ (if j < numShort then [] else [raw ! (dataLen * n + (j - numShort))])"

definition block_ecc :: "nat \<Rightarrow> nat \<Rightarrow> nat \<Rightarrow> nat \<Rightarrow> bytes \<Rightarrow> nat \<Rightarrow> bytes" where
  "block_ecc dataLen numShort n eccLen raw j =
     map (\<lambda>k. raw ! (dataLen * n + (n - numShort) + (k * n + j))) [0..<eccLen]"

definition deinterleave :: "nat \<Rightarrow> nat \<Rightarrow> nat \<Rightarrow> bytes \<Rightarrow> bytes" where
  "deinterleave dataLen numShort n raw = concat (map (block_data dataLen numShort n raw) [0..<n])"

lemma nth_product_upt: "i < m \<Longrightarrow> j < n \<Longrightarrow> List.product [0..<m] [0..<n] ! (i * n + j) = (i, j)"
proof -
  assume ij: "i < m" "j < n"
  then have "i * n + j < n * m" using row_index_less by (simp add: mult.commute)
  then show ?thesis
    using ij unfolding product_upt by (subst nth_concat_uniform [where w = n]) auto
qed

lemma nth_product_upt_from: "k < e \<Longrightarrow> j < n \<Longrightarrow> List.product [a..<a + e] [0..<n] ! (k * n + j) = (a + k, j)"
proof -
  assume kj: "k < e" "j < n"
  then have "k * n + j < n * e" using row_index_less by (simp add: mult.commute)
  then show ?thesis
    using kj unfolding product_upt by (subst nth_concat_uniform [where w = n]) auto
qed

lemma interleave_run:
  assumes "0 < n" and "length bs = n" and "ns \<le> n" and "\<And>b. b \<in> set bs \<Longrightarrow> length b = dataLen + 1 + e"
  shows "\<exists>raw. interleave dataLen ns bs = Inr raw \<and> length raw = dataLen * n + (n - ns) + e * n
    \<and> (\<forall>j < n. block_data dataLen ns n raw j = take (block_len dataLen ns j) (bs ! j)
          \<and> block_ecc dataLen ns n e raw j = drop (dataLen + 1) (bs ! j))"
proof -
  let ?w = "dataLen + 1 + e"
  let ?a = "List.product [0..<dataLen] [0..<n]" and ?b = "map (Pair dataLen) [ns..<n]"
    and ?c = "List.product [Suc dataLen..<?w] [0..<n]"
  let ?p = "?a @ ?b @ ?c"
  let ?g = "\<lambda>(i, j). bs ! j ! i"
  let ?raw = "map ?g ?p"
  have b0: "length (bs ! 0) = ?w" "vec_at bs 0 = Inr (bs ! 0)" using assms by auto
  have "qr_map (\<lambda>(i, j). qr_bind (vec_at bs j) (\<lambda>b. vec_at b i)) ?p = Inr ?raw"
    by (rule qr_map_Inr) (use assms(2,4) in auto)
  then have run: "interleave dataLen ns bs = Inr ?raw"
    using interleaved_order [of dataLen ?w ns n] assms(2,3) b0 by (simp add: interleave_def)
  have len: "length ?a = dataLen * n" "length ?b = n - ns" "length ?c = e * n" by simp_all
  have at: "k < length ?p \<Longrightarrow> ?raw ! k = ?g (?p ! k)" for k
    by (rule nth_map)
  have first: "?raw ! (i * n + j) = bs ! j ! i" if "i < dataLen" "j < n" for i j
  proof -
    have k: "i * n + j < length ?a" using row_index_less [OF that] by (simp only: len)
    then have "?p ! (i * n + j) = (i, j)" using nth_product_upt [OF that] by (simp only: nth_append if_True)
    then show ?thesis using at [of "i * n + j"] k by simp
  qed
  have mid: "?raw ! (dataLen * n + (j - ns)) = bs ! j ! dataLen" if "ns \<le> j" "j < n" for j
  proof -
    have "?p ! (dataLen * n + (j - ns)) = (?b @ ?c) ! (j - ns)" using nth_append_length_plus [of ?a] by (simp only: len)
    also have "\<dots> = ?b ! (j - ns)" using diff_less_mono [OF that(2,1)] by (simp add: nth_append)
    finally have "?p ! (dataLen * n + (j - ns)) = (dataLen, j)" using that by simp
    then show ?thesis using at [of "dataLen * n + (j - ns)"] that by simp
  qed
  have last: "?raw ! (dataLen * n + (n - ns) + (k * n + j)) = bs ! j ! (Suc dataLen + k)" if "k < e" "j < n" for k j
  proof -
    have "?p ! (dataLen * n + (n - ns) + (k * n + j)) = ((?a @ ?b) @ ?c) ! (length (?a @ ?b) + (k * n + j))"
      by (simp only: append_assoc length_append len)
    also have "\<dots> = ?c ! (k * n + j)" by (rule nth_append_length_plus)
    also have "\<dots> = (Suc dataLen + k, j)" using nth_product_upt_from [OF that, of "Suc dataLen"] by simp
    finally have p: "?p ! (dataLen * n + (n - ns) + (k * n + j)) = (Suc dataLen + k, j)" .
    have "dataLen * n + (n - ns) + (k * n + j) < length ?p"
      unfolding length_append len using row_index_less [OF that] by linarith
    then show ?thesis by (simp only: at p prod.case)
  qed
  have "block_data dataLen ns n ?raw j = take (block_len dataLen ns j) (bs ! j)
      \<and> block_ecc dataLen ns n e ?raw j = drop (dataLen + 1) (bs ! j)" if j: "j < n" for j
  proof
    have wj: "length (bs ! j) = ?w" using assms(2,4) j by simp
    have "map (\<lambda>i. ?raw ! (i * n + j)) [0..<dataLen] = take dataLen (bs ! j)"
      by (rule nth_equalityI) (use first j wj in \<open>auto simp del: map_append\<close>)
    then show "block_data dataLen ns n ?raw j = take (block_len dataLen ns j) (bs ! j)"
      using mid j wj by (auto simp: block_data_def block_len_def take_Suc_conv_app_nth simp del: map_append)
    show "block_ecc dataLen ns n e ?raw j = drop (dataLen + 1) (bs ! j)"
      unfolding block_ecc_def by (rule nth_equalityI) (use last j wj in \<open>auto simp del: map_append\<close>)
  qed
  moreover have "length ?raw = dataLen * n + (n - ns) + e * n" using len by simp
  ultimately show ?thesis using run by blast
qed

section \<open>The whole sequence\<close>

definition symbol_data :: "nat \<Rightarrow> Ecc \<Rightarrow> bytes \<Rightarrow> bytes" where
  "symbol_data v ecl raw = deinterleave (short_data v ecl) (num_short v ecl) (num_blocks v ecl) raw"

definition symbol_block :: "nat \<Rightarrow> Ecc \<Rightarrow> bytes \<Rightarrow> nat \<Rightarrow> bytes" where
  "symbol_block v ecl raw j =
     block_data (short_data v ecl) (num_short v ecl) (num_blocks v ecl) raw j
     @ block_ecc (short_data v ecl) (num_short v ecl) (num_blocks v ecl) (ecc_len v ecl) raw j"

lemma addEccAndInterleave_run:
  assumes "1 \<le> v" and "v \<le> 40" and "length data = data_codewords v ecl"
  shows "\<exists>raw. addEccAndInterleave v ecl data = Inr raw \<and> length raw = raw_modules v div 8 \<and> symbol_data v ecl raw = data
    \<and> (\<forall>j < num_blocks v ecl. \<forall>i < ecc_len v ecl. poly_at (field_power 2 i) (symbol_block v ecl raw j) = 0)"
proof -
  note t = table_facts [OF assms(1,2), of ecl] and c = codewords_split [OF assms(1,2), of ecl]
  let ?n = "num_blocks v ecl" and ?e = "ecc_len v ecl" and ?l = "short_data v ecl" and ?ns = "num_short v ecl"
  have deg: "1 \<le> int ?e" "int ?e \<le> 255" using t by simp_all
  let ?d = "tl (generator ?e)"
  have d: "reedSolomonComputeDivisor (int ?e) = Inr ?d" "length ?d = ?e" "?d \<noteq> []"
    using divisor_is_generator [OF deg] t(4) length_generator [of ?e] by (auto simp flip: length_0_conv)
  have "sum_list (map (block_len ?l ?ns) [0..<?n]) = data_codewords v ecl"
    using sum_block_len [OF c(2)] by (simp add: data_codewords_def)
  then obtain bs where bs: "ecc_blocks data ?d ?l ?ns [0..<?n] 0 = Inr bs" "list_all2 (ecc_block ?d ?l ?ns) [0..<?n] bs"
    "concat (map2 (\<lambda>j. take (block_len ?l ?ns j)) [0..<?n] bs) = data"
    using ecc_blocks_run [OF d(3), of 0 ?l ?ns "[0..<?n]" data] assms(3) by auto
  have len: "length bs = ?n" using bs(2) by (auto dest: list_all2_lengthD)
  have blk: "ecc_block ?d ?l ?ns j (bs ! j)" if "j < ?n" for j
    using list_all2_nthD [OF bs(2), of j] that by simp
  have width: "length b = ?l + 1 + ?e" if b: "b \<in> set bs" for b
  proof -
    obtain j where "j < ?n" "b = bs ! j" using b len by (metis in_set_conv_nth)
    then show ?thesis using blk [of j] d(2) by (auto simp: ecc_block_def block_len_def)
  qed
  obtain raw where raw: "interleave ?l ?ns bs = Inr raw" "length raw = ?l * ?n + (?n - ?ns) + ?e * ?n"
    "\<And>j. j < ?n \<Longrightarrow> block_data ?l ?ns ?n raw j = take (block_len ?l ?ns j) (bs ! j)"
    "\<And>j. j < ?n \<Longrightarrow> block_ecc ?l ?ns ?n ?e raw j = drop (?l + 1) (bs ! j)"
    using interleave_run [OF t(3) len c(2), of ?l ?e] width by blast
  obtain m where "?n = ?ns + m" using c(2) le_Suc_ex by blast
  then have "data_codewords v ecl = ?l * ?n + (?n - ?ns)"
    by (simp add: data_codewords_def algebra_simps)
  then have "length raw = raw_modules v div 8" using raw(2) c(1) by (simp add: mult.commute)
  moreover have "symbol_data v ecl raw = data"
  proof -
    have "map (block_data ?l ?ns ?n raw) [0..<?n] = map2 (\<lambda>j. take (block_len ?l ?ns j)) [0..<?n] bs"
      by (rule nth_equalityI) (use raw(3) len in auto)
    then show ?thesis using bs(3) by (simp add: symbol_data_def deinterleave_def)
  qed
  moreover have "poly_at (field_power 2 i) (symbol_block v ecl raw j) = 0" if j: "j < ?n" and i: "i < ?e" for i j
  proof -
    obtain dat ecc where b: "bs ! j = dat @ (if j < ?ns then [0] else []) @ ecc" "length dat = block_len ?l ?ns j"
      "reedSolomonComputeRemainder dat ?d = Inr ecc" "length ecc = length ?d"
      using blk [OF j] by (auto simp: ecc_block_def)
    then have "symbol_block v ecl raw j = dat @ ecc"
      using raw(3,4) [OF j] by (auto simp: symbol_block_def block_len_def)
    then show ?thesis
      using block_is_codeword [OF deg, of i dat] i d(1) b(3) by auto
  qed
  moreover have "addEccAndInterleave v ecl data = Inr raw"
    using assms t d(1) bs(1) raw(1)
    by (simp add: addEccAndInterleave_def data_codewords_eq raw_modules_eq Let_def flip: num_short_def short_data_def)
  ultimately show ?thesis by blast
qed

text \<open>
  C37: For exactly the data the version and level can carry, \<open>addEccAndInterleave\<close> succeeds, its codewords give the data
  back in order, and every block, read as a polynomial over the field of 256 elements, vanishes at all the powers of two
  the error correction counts on.
\<close>

theorem codewords_recoverable:
  assumes "getNumDataCodewords v ecl = Inr (int (length data))"
  shows "\<exists>raw. addEccAndInterleave v ecl data = Inr raw \<and> length raw = raw_modules v div 8 \<and> symbol_data v ecl raw = data \<and>
    (\<forall>j < num_blocks v ecl. \<forall>i < ecc_len v ecl. poly_at (field_power 2 i) (symbol_block v ecl raw j) = 0)"
proof -
  have v: "1 \<le> v" "v \<le> 40"
    using assms by (auto simp: getNumDataCodewords_def getNumRawDataModules_def MIN_VERSION_def MAX_VERSION_def split: if_splits)
  then show ?thesis using addEccAndInterleave_run [OF v] data_codewords_eq [OF v, of ecl] assms by simp
qed

text \<open>One block of 19 codewords in the first version, and blocks of 15 and of 16 in version 5.\<close>

theorem codewords_recoverable_witness:
  "(\<exists>raw. addEccAndInterleave 1 LOW (map word_of_nat [1..<20]) = Inr raw \<and> symbol_data 1 LOW raw = map word_of_nat [1..<20]) \<and>
   (\<exists>raw. addEccAndInterleave 5 QUARTILE (map word_of_nat [1..<63]) = Inr raw \<and> symbol_data 5 QUARTILE raw = map word_of_nat [1..<63])"
proof -
  have "getNumDataCodewords 1 LOW = Inr 19" "getNumDataCodewords 5 QUARTILE = Inr 62"
    by (code_simp)+
  then show ?thesis
    using codewords_recoverable [of 1 LOW "map word_of_nat [1..<20]"] codewords_recoverable [of 5 QUARTILE "map word_of_nat [1..<63]"]
    by (auto simp del: upt_rec_numeral)
qed

end
