(* ===== verification/QrLayout.thy ===== *)
theory QrLayout
  imports QrCode
begin

text \<open>
  The layout of a QR code: where the function patterns are, as a predicate on coordinates; the drawing operations mark
  exactly those modules and never leave the grid; and the modules that are left are as many as
  \<open>getNumRawDataModules\<close> says.
\<close>

section \<open>The reference\<close>

text \<open>The centres of the alignment patterns, version by version, as the standard lists them.\<close>

definition ALIGNMENT_TABLE :: "nat list list" where
  "ALIGNMENT_TABLE =
    [[], [6, 18], [6, 22], [6, 26], [6, 30], [6, 34],
     [6, 22, 38], [6, 24, 42], [6, 26, 46], [6, 28, 50], [6, 30, 54], [6, 32, 58], [6, 34, 62],
     [6, 26, 46, 66], [6, 26, 48, 70], [6, 26, 50, 74], [6, 30, 54, 78], [6, 30, 56, 82], [6, 30, 58, 86], [6, 34, 62, 90],
     [6, 28, 50, 72, 94], [6, 26, 50, 74, 98], [6, 30, 54, 78, 102], [6, 28, 54, 80, 106], [6, 32, 58, 84, 110],
     [6, 30, 58, 86, 114], [6, 34, 62, 90, 118],
     [6, 26, 50, 74, 98, 122], [6, 30, 54, 78, 102, 126], [6, 26, 52, 78, 104, 130], [6, 30, 56, 82, 108, 134],
     [6, 34, 60, 86, 112, 138], [6, 30, 58, 86, 114, 142], [6, 34, 62, 90, 118, 146],
     [6, 30, 54, 78, 102, 126, 150], [6, 24, 50, 76, 102, 128, 154], [6, 28, 54, 80, 106, 132, 158],
     [6, 32, 58, 84, 110, 136, 162], [6, 26, 54, 82, 110, 138, 166], [6, 30, 58, 86, 114, 142, 170]]"

definition alignment_centres :: "nat \<Rightarrow> nat list" where
  "alignment_centres v = ALIGNMENT_TABLE ! (v - 1)"

definition near_centre :: "nat list \<Rightarrow> nat \<Rightarrow> bool" where
  "near_centre ps x \<longleftrightarrow> list_ex (\<lambda>p. p \<le> x + 2 \<and> x \<le> p + 2) ps"

text \<open>
  The timing lines, the three corners with finder, separator and format bits, the alignment patterns but those in the
  corners, and the two version areas.
\<close>

definition fn_region :: "nat \<Rightarrow> nat \<Rightarrow> nat \<Rightarrow> bool" where
  "fn_region v x y \<longleftrightarrow>
     (let s = 4 * v + 17; inner = tl (alignment_centres v); mid = butlast inner
      in x = 6 \<or> y = 6
       \<or> x \<le> 8 \<and> y \<le> 8 \<or> s \<le> x + 8 \<and> y \<le> 8 \<or> x \<le> 8 \<and> s \<le> y + 8
       \<or> near_centre inner x \<and> near_centre inner y \<or> 4 \<le> x \<and> x \<le> 8 \<and> near_centre mid y \<or> near_centre mid x \<and> 4 \<le> y \<and> y \<le> 8
       \<or> 7 \<le> v \<and> (s \<le> x + 11 \<and> x + 9 \<le> s \<and> y \<le> 5 \<or> s \<le> y + 11 \<and> y + 9 \<le> s \<and> x \<le> 5))"

section \<open>The alignment positions\<close>

fun table_ok :: "nat \<Rightarrow> nat list list \<Rightarrow> bool" where
  "table_ok v [] \<longleftrightarrow> True"
| "table_ok v (ps # rows) \<longleftrightarrow> getAlignmentPatternPositions v (4 * v + 17) = map int ps \<and> table_ok (v + 1) rows"

lemma table_okD: "table_ok v rows \<Longrightarrow> k < length rows \<Longrightarrow>
  getAlignmentPatternPositions (v + k) (4 * (v + k) + 17) = map int (rows ! k)"
proof (induction v rows arbitrary: k rule: table_ok.induct)
  case (2 v ps rows)
  then show ?case by (cases k) auto
qed simp

lemma length_table: "length ALIGNMENT_TABLE = 40"
  by (simp add: ALIGNMENT_TABLE_def)

lemma upt_literals: "[0..<Suc 0] = [0]" "[0..<2] = [0, 1]" "[0..<3] = [0, 1, 2]" "[0..<4] = [0, 1, 2, 3]" "[0..<5] = [0, 1, 2, 3, 4]" "[0..<6] = [0, 1, 2, 3, 4, 5]"
  by (simp_all add: upt_rec)

lemma table_is_positions:
  assumes "1 \<le> v" and "v \<le> 40"
  shows "getAlignmentPatternPositions v (4 * v + 17) = map int (alignment_centres v)"
proof -
  have "table_ok 1 ALIGNMENT_TABLE"
    unfolding ALIGNMENT_TABLE_def by (simp add: getAlignmentPatternPositions_def upt_literals)
  from table_okD [OF this, of "v - 1"] assms show ?thesis
    by (simp add: length_table alignment_centres_def)
qed

text \<open>What the geometry needs of the centres of a version of two or more.\<close>

definition centres_ok :: "nat \<Rightarrow> nat list \<Rightarrow> bool" where
  "centres_ok v ps \<longleftrightarrow> length ps = v div 7 + 2 \<and> hd ps = 6 \<and> last ps + 7 = 4 * v + 17
     \<and> sorted_wrt (\<lambda>a b. a + 10 \<le> b) ps \<and> list_all (\<lambda>p. 18 \<le> p) (tl ps)"

fun centres_from :: "nat \<Rightarrow> nat list list \<Rightarrow> bool" where
  "centres_from v [] \<longleftrightarrow> True"
| "centres_from v (ps # rows) \<longleftrightarrow> centres_ok v ps \<and> centres_from (v + 1) rows"

lemma centres_fromD: "centres_from v rows \<Longrightarrow> k < length rows \<Longrightarrow> centres_ok (v + k) (rows ! k)"
proof (induction v rows arbitrary: k rule: centres_from.induct)
  case (2 v ps rows)
  then show ?case by (cases k) auto
qed simp

lemma centres:
  assumes "2 \<le> v" and "v \<le> 40"
  shows "centres_ok v (alignment_centres v)"
proof -
  have "centres_from 2 (tl ALIGNMENT_TABLE)"
    unfolding ALIGNMENT_TABLE_def by (simp add: centres_ok_def)
  from centres_fromD [OF this, of "v - 2"] assms show ?thesis
    by (simp add: length_table alignment_centres_def nth_tl Suc_diff_Suc numeral_2_eq_2)
qed

lemma centres_1: "alignment_centres (Suc 0) = []"
  by (simp add: alignment_centres_def ALIGNMENT_TABLE_def)

section \<open>Drawing stays on the grid\<close>

definition square_grid :: "nat \<Rightarrow> 'a list list \<Rightarrow> bool" where
  "square_grid n grid \<longleftrightarrow> length grid = n \<and> (\<forall>row \<in> set grid. length row = n)"

lemma squareD: "square_grid n grid \<Longrightarrow> y < n \<Longrightarrow> length (grid ! y) = n" "square_grid n grid \<Longrightarrow> length grid = n"
  by (auto simp: square_grid_def)

lemma get_at_square: "square_grid n grid \<Longrightarrow> x < n \<Longrightarrow> y < n \<Longrightarrow> get_at grid x y = Inr (grid ! y ! x)"
  by (simp add: get_at_def squareD)

lemma square_update:
  assumes "square_grid n grid" and "x < n" and "y < n"
  shows "square_grid n (grid[y := (grid ! y)[x := v]])"
    and "(grid[y := (grid ! y)[x := v]]) ! y' ! x' = (if x' = x \<and> y' = y then v else grid ! y' ! x')"
  using assms by (auto simp: square_grid_def nth_list_update dest!: set_update_subset_insert [THEN subsetD])

lemma set_at_square:
  assumes "square_grid n grid" and "x < n" and "y < n"
  shows "set_at x y v grid = Inr (grid[y := (grid ! y)[x := v]])"
  using assms by (simp add: set_at_def get_at_square)

definition code_wf :: "qr_code \<Rightarrow> bool" where
  "code_wf q \<longleftrightarrow> square_grid (qc_size q) (qc_modules q) \<and> square_grid (qc_size q) (qc_isFunction q)"

definition dark_at :: "qr_code \<Rightarrow> nat \<Rightarrow> nat \<Rightarrow> bool" where
  "dark_at q x y = qc_modules q ! y ! x"

definition fn_at :: "qr_code \<Rightarrow> nat \<Rightarrow> nat \<Rightarrow> bool" where
  "fn_at q x y = qc_isFunction q ! y ! x"

definition same_code :: "qr_code \<Rightarrow> qr_code \<Rightarrow> bool" where
  "same_code q q' \<longleftrightarrow> code_wf q' \<and> qc_version q' = qc_version q \<and> qc_size q' = qc_size q \<and> qc_ecl q' = qc_ecl q"

definition on_grid :: "nat \<Rightarrow> (int \<times> int \<times> bool) list \<Rightarrow> bool" where
  "on_grid n ps \<longleftrightarrow> (\<forall>(x, y, d) \<in> set ps. 0 \<le> x \<and> x < int n \<and> 0 \<le> y \<and> y < int n)"

definition drawn_at :: "(int \<times> int \<times> bool) list \<Rightarrow> nat \<Rightarrow> nat \<Rightarrow> bool" where
  "drawn_at ps x y \<longleftrightarrow> (\<exists>d. (int x, int y, d) \<in> set ps)"

text \<open>The effect of drawing a list of modules, whatever it overwrites.\<close>

definition drawn_by :: "(int \<times> int \<times> bool) list \<Rightarrow> qr_code \<Rightarrow> qr_code \<Rightarrow> bool" where
  "drawn_by ps q q' \<longleftrightarrow> same_code q q'
     \<and> (\<forall>x y. x < qc_size q \<longrightarrow> y < qc_size q \<longrightarrow> (fn_at q' x y \<longleftrightarrow> fn_at q x y \<or> drawn_at ps x y)
          \<and> (if drawn_at ps x y then (int x, int y, dark_at q' x y) \<in> set ps else dark_at q' x y = dark_at q x y))"

lemma setFunctionModule_run:
  assumes "code_wf q" and "0 \<le> x" "x < int (qc_size q)" "0 \<le> y" "y < int (qc_size q)"
  shows "\<exists>q'. setFunctionModule x y d q = Inr q' \<and> drawn_by [(x, y, d)] q q'"
proof -
  let ?n = "qc_size q"
  have sq: "square_grid ?n (qc_modules q)" "square_grid ?n (qc_isFunction q)" using assms(1) by (simp_all add: code_wf_def)
  have b: "nat x < ?n" "nat y < ?n" using assms by linarith+
  let ?m = "(qc_modules q)[nat y := (qc_modules q ! nat y)[nat x := d]]"
    and ?f = "(qc_isFunction q)[nat y := (qc_isFunction q ! nat y)[nat x := True]]"
  have "setFunctionModule x y d q = Inr (q\<lparr>qc_modules := ?m, qc_isFunction := ?f\<rparr>)"
    using assms set_at_square [OF sq(1) b] set_at_square [OF sq(2) b] by (simp add: setFunctionModule_def)
  moreover have "drawn_by [(x, y, d)] q (q\<lparr>qc_modules := ?m, qc_isFunction := ?f\<rparr>)"
    using square_update [OF sq(1) b] square_update [OF sq(2) b] assms
    by (auto simp: drawn_by_def same_code_def code_wf_def drawn_at_def fn_at_def dark_at_def)
  ultimately show ?thesis by blast
qed

lemma drawn_at_append: "drawn_at (ps @ ps') x y \<longleftrightarrow> drawn_at ps x y \<or> drawn_at ps' x y"
  by (auto simp: drawn_at_def)

lemma drawn_append: "drawn_by ps q q1 \<Longrightarrow> drawn_by ps' q1 q2 \<Longrightarrow> drawn_by (ps @ ps') q q2"
proof -
  assume a: "drawn_by ps q q1" and b: "drawn_by ps' q1 q2"
  have "(fn_at q2 x y \<longleftrightarrow> fn_at q x y \<or> drawn_at (ps @ ps') x y)
      \<and> (if drawn_at (ps @ ps') x y then (int x, int y, dark_at q2 x y) \<in> set (ps @ ps') else dark_at q2 x y = dark_at q x y)"
    if "x < qc_size q" "y < qc_size q" for x y
  proof -
    have "(fn_at q1 x y \<longleftrightarrow> fn_at q x y \<or> drawn_at ps x y)
        \<and> (if drawn_at ps x y then (int x, int y, dark_at q1 x y) \<in> set ps else dark_at q1 x y = dark_at q x y)"
      using a that by (simp add: drawn_by_def)
    moreover have "(fn_at q2 x y \<longleftrightarrow> fn_at q1 x y \<or> drawn_at ps' x y)
        \<and> (if drawn_at ps' x y then (int x, int y, dark_at q2 x y) \<in> set ps' else dark_at q2 x y = dark_at q1 x y)"
      using b that a by (simp add: drawn_by_def same_code_def)
    ultimately show ?thesis by (cases "drawn_at ps x y"; cases "drawn_at ps' x y") (simp_all add: drawn_at_append)
  qed
  moreover have "same_code q q2" using a b by (simp add: drawn_by_def same_code_def)
  ultimately show ?thesis unfolding drawn_by_def by blast
qed

lemma drawn_refl: "code_wf q \<Longrightarrow> drawn_by [] q q"
  by (simp add: drawn_by_def same_code_def drawn_at_def)

lemma draw_run:
  "code_wf q \<Longrightarrow> on_grid (qc_size q) ps \<Longrightarrow> \<exists>q'. draw_modules ps q = Inr q' \<and> drawn_by ps q q'"
proof (induction ps arbitrary: q)
  case Nil
  then show ?case by (auto simp: draw_modules_def drawn_refl)
next
  case (Cons a ps)
  obtain x y d where a: "a = (x, y, d)" by (cases a) auto
  obtain q1 where q1: "setFunctionModule x y d q = Inr q1" "drawn_by [(x, y, d)] q q1"
    using setFunctionModule_run [of q x y d] Cons.prems by (auto simp: a on_grid_def)
  then have "code_wf q1" "qc_size q1 = qc_size q" by (auto simp: drawn_by_def same_code_def)
  then obtain q2 where "draw_modules ps q1 = Inr q2" "drawn_by ps q1 q2"
    using Cons.IH [of q1] Cons.prems by (auto simp: on_grid_def)
  then show ?case using q1 drawn_append [OF q1(2)] by (auto simp: a draw_modules_def)
qed

lemma drawnD: "drawn_by ps q q' \<Longrightarrow> code_wf q' \<and> qc_version q' = qc_version q \<and> qc_size q' = qc_size q \<and> qc_ecl q' = qc_ecl q"
  by (simp add: drawn_by_def same_code_def)

section \<open>The function patterns mark the region\<close>

lemma drawn_atI: "(int x, int y, d) \<in> set ps \<Longrightarrow> drawn_at ps x y"
  by (auto simp: drawn_at_def)

lemma drawn_at_map: "drawn_at (map (\<lambda>i. (g i, h i, k i)) is) x y \<longleftrightarrow> (\<exists>i \<in> set is. int x = g i \<and> int y = h i)"
  by (auto simp: drawn_at_def)

lemma drawn_at_Cons: "drawn_at [] x y \<longleftrightarrow> False" "drawn_at ((a, b, d) # ps) x y \<longleftrightarrow> int x = a \<and> int y = b \<or> drawn_at ps x y"
  by (auto simp: drawn_at_def)

lemma timing_at: "x < n \<Longrightarrow> y < n \<Longrightarrow> drawn_at (timing_pattern n) x y \<longleftrightarrow> x = 6 \<or> y = 6"
proof
  assume b: "x < n" "y < n"
  have "set (timing_pattern n) = (\<Union>i\<in>{0..<n}. {(6, int i, i mod 2 = 0), (int i, 6, i mod 2 = 0)})"
    by (simp add: timing_pattern_def)
  then have "(6, int i, i mod 2 = 0) \<in> set (timing_pattern n)" "(int i, 6, i mod 2 = 0) \<in> set (timing_pattern n)" if "i < n" for i
    using that by auto
  then show "x = 6 \<or> y = 6 \<Longrightarrow> drawn_at (timing_pattern n) x y"
    unfolding drawn_at_def using b by (elim disjE) (metis of_nat_numeral)+
qed (auto simp: drawn_at_def timing_pattern_def)

lemma shift_ex:
  fixes a b cx cy :: int
  shows "(\<exists>dy dx. a = cx + dx \<and> b = cy + dy \<and> Q dy dx) \<longleftrightarrow> Q (b - cy) (a - cx)"
proof -
  have "a = cx + dx \<longleftrightarrow> dx = a - cx" "b = cy + dy \<longleftrightarrow> dy = b - cy" for dx dy by auto
  then show ?thesis by simp
qed

lemma set_finder: "(a, b, d) \<in> set (finder_pattern n cx cy) \<longleftrightarrow> \<bar>b - cy\<bar> \<le> 4 \<and> \<bar>a - cx\<bar> \<le> 4
    \<and> 0 \<le> a \<and> a < int n \<and> 0 \<le> b \<and> b < int n \<and> d = (max \<bar>a - cx\<bar> \<bar>b - cy\<bar> \<noteq> 2 \<and> max \<bar>a - cx\<bar> \<bar>b - cy\<bar> \<noteq> 4)"
proof -
  have "set (finder_pattern n cx cy) = (\<Union>dy\<in>{-4..4}. \<Union>dx\<in>{-4..4}.
      if 0 \<le> cx + dx \<and> cx + dx < int n \<and> 0 \<le> cy + dy \<and> cy + dy < int n
      then {(cx + dx, cy + dy, max \<bar>dx\<bar> \<bar>dy\<bar> \<noteq> 2 \<and> max \<bar>dx\<bar> \<bar>dy\<bar> \<noteq> 4)} else {})"
    unfolding finder_pattern_def set_concat set_map image_image set_upto Let_def by (simp add: if_distrib cong: if_cong)
  then have "(a, b, d) \<in> set (finder_pattern n cx cy) \<longleftrightarrow> (\<exists>dy dx. a = cx + dx \<and> b = cy + dy \<and> \<bar>dy\<bar> \<le> 4 \<and> \<bar>dx\<bar> \<le> 4
      \<and> 0 \<le> a \<and> a < int n \<and> 0 \<le> b \<and> b < int n \<and> d = (max \<bar>dx\<bar> \<bar>dy\<bar> \<noteq> 2 \<and> max \<bar>dx\<bar> \<bar>dy\<bar> \<noteq> 4))"
    by (auto split: if_splits)
  then show ?thesis by (simp only: shift_ex)
qed

lemma finder_at: "x < n \<Longrightarrow> y < n \<Longrightarrow> drawn_at (finder_pattern n cx cy) x y \<longleftrightarrow> \<bar>int x - cx\<bar> \<le> 4 \<and> \<bar>int y - cy\<bar> \<le> 4"
  unfolding drawn_at_def set_finder by auto

lemma set_alignment: "(a, b, d) \<in> set (alignment_pattern cx cy) \<longleftrightarrow> \<bar>b - cy\<bar> \<le> 2 \<and> \<bar>a - cx\<bar> \<le> 2 \<and> d = (max \<bar>a - cx\<bar> \<bar>b - cy\<bar> \<noteq> 1)"
proof -
  have "set (alignment_pattern cx cy) = (\<Union>dy\<in>{-2..2}. \<Union>dx\<in>{-2..2}. {(cx + dx, cy + dy, max \<bar>dx\<bar> \<bar>dy\<bar> \<noteq> 1)})"
    unfolding alignment_pattern_def set_concat set_map image_image set_upto by auto
  then have "(a, b, d) \<in> set (alignment_pattern cx cy) \<longleftrightarrow> (\<exists>dy dx. a = cx + dx \<and> b = cy + dy \<and> \<bar>dy\<bar> \<le> 2 \<and> \<bar>dx\<bar> \<le> 2
      \<and> d = (max \<bar>dx\<bar> \<bar>dy\<bar> \<noteq> 1))"
    by auto
  then show ?thesis by (simp only: shift_ex)
qed

lemma set_format: "(a, b, d) \<in> set (format_pattern n bits) \<longleftrightarrow>
    (\<exists>i < 6. a = 8 \<and> b = int i \<and> d = getBit bits i) \<or> (a, b, d) \<in> {(8, 7, getBit bits 6), (8, 8, getBit bits 7), (7, 8, getBit bits 8)}
    \<or> (\<exists>i. 9 \<le> i \<and> i < 15 \<and> a = 14 - int i \<and> b = 8 \<and> d = getBit bits i)
    \<or> (\<exists>i < 8. a = int n - 1 - int i \<and> b = 8 \<and> d = getBit bits i)
    \<or> (\<exists>i. 8 \<le> i \<and> i < 15 \<and> a = 8 \<and> b = int n - 15 + int i \<and> d = getBit bits i)
    \<or> (a, b, d) = (8, int n - 8, True)"
  unfolding format_pattern_def set_append set_map set_upt Un_iff image_iff by (auto simp: Bex_def)

lemma set_version: "(a, b, d) \<in> set (version_pattern n bits) \<longleftrightarrow>
    (\<exists>i < 18. d = getBit bits i \<and> (a = int n - 11 + int (i mod 3) \<and> b = int (i div 3) \<or> b = int n - 11 + int (i mod 3) \<and> a = int (i div 3)))"
  unfolding version_pattern_def set_concat set_map set_upt by (auto simp: Let_def)

lemma format_at:
  assumes "21 \<le> n" and "x < n" and "y < n"
  shows "drawn_at (format_pattern n bits) x y \<longleftrightarrow>
    x = 8 \<and> (y \<le> 5 \<or> y = 7 \<or> y = 8 \<or> n \<le> y + 8) \<or> y = 8 \<and> (x \<le> 5 \<or> x = 7 \<or> n \<le> x + 8)"
proof -
  have "drawn_at (format_pattern n bits) x y \<longleftrightarrow>
      (\<exists>i < 6. int x = 8 \<and> int y = int i) \<or> (x = 8 \<and> y = 7 \<or> x = 8 \<and> y = 8 \<or> x = 7 \<and> y = 8)
    \<or> (\<exists>i. 9 \<le> i \<and> i < 15 \<and> int x = 14 - int i \<and> int y = 8)
    \<or> (\<exists>i < 8. int x = int n - 1 - int i \<and> int y = 8)
    \<or> (\<exists>i. 8 \<le> i \<and> i < 15 \<and> int x = 8 \<and> int y = int n - 15 + int i)
    \<or> int x = 8 \<and> int y = int n - 8"
    unfolding format_pattern_def drawn_at_append drawn_at_map set_upt drawn_at_Cons by (auto simp: Bex_def)
  moreover have "(\<exists>i < 6. int x = 8 \<and> int y = int i) \<longleftrightarrow> x = 8 \<and> y \<le> 5" by auto
  moreover have "(\<exists>i. 9 \<le> i \<and> i < 15 \<and> int x = 14 - int i \<and> int y = 8) \<longleftrightarrow> y = 8 \<and> x \<le> 5"
    by (auto intro!: exI [of _ "14 - x"])
  moreover have "(\<exists>i < 8. int x = int n - 1 - int i \<and> int y = 8) \<longleftrightarrow> y = 8 \<and> n \<le> x + 8"
    using assms by (auto intro!: exI [of _ "n - 1 - x"])
  moreover have "(\<exists>i. 8 \<le> i \<and> i < 15 \<and> int x = 8 \<and> int y = int n - 15 + int i) \<longleftrightarrow> x = 8 \<and> n \<le> y + 7"
    using assms by (auto intro!: exI [of _ "y + 15 - n"])
  moreover have "int x = 8 \<and> int y = int n - 8 \<longleftrightarrow> x = 8 \<and> n = y + 8"
    using assms by auto
  ultimately have "drawn_at (format_pattern n bits) x y \<longleftrightarrow>
      x = 8 \<and> y \<le> 5 \<or> (x = 8 \<and> y = 7 \<or> x = 8 \<and> y = 8 \<or> x = 7 \<and> y = 8) \<or> y = 8 \<and> x \<le> 5
      \<or> y = 8 \<and> n \<le> x + 8 \<or> x = 8 \<and> n \<le> y + 7 \<or> x = 8 \<and> n = y + 8"
    by (simp only:)
  then show ?thesis by auto
qed

lemma version_at:
  assumes "21 \<le> n" and "x < n" and "y < n"
  shows "drawn_at (version_pattern n bits) x y \<longleftrightarrow> n \<le> x + 11 \<and> x + 9 \<le> n \<and> y \<le> 5 \<or> n \<le> y + 11 \<and> y + 9 \<le> n \<and> x \<le> 5"
proof -
  have one: "(\<exists>i < 18. int u = int n - 11 + int (i mod 3) \<and> int w = int (i div 3)) \<longleftrightarrow> n \<le> u + 11 \<and> u + 9 \<le> n \<and> w \<le> 5" for u w
  proof
    assume r: "n \<le> u + 11 \<and> u + 9 \<le> n \<and> w \<le> 5"
    then obtain t where t: "u + 11 = n + t" using le_Suc_ex by blast
    then have "t < 3" using r by linarith
    have "(3 * w + t) mod 3 = t" "(3 * w + t) div 3 = w" using \<open>t < 3\<close> by simp_all
    then show "\<exists>i < 18. int u = int n - 11 + int (i mod 3) \<and> int w = int (i div 3)"
      using r t \<open>t < 3\<close> by (intro exI [of _ "3 * w + t"]) auto
  next
    assume "\<exists>i < 18. int u = int n - 11 + int (i mod 3) \<and> int w = int (i div 3)"
    then obtain i where i: "i < 18" "int u = int n - 11 + int (i mod 3)" "w = i div 3" by auto
    moreover have "i mod 3 < 3" "i div 3 < 6" using i(1) by auto
    ultimately show "n \<le> u + 11 \<and> u + 9 \<le> n \<and> w \<le> 5" by linarith
  qed
  have "drawn_at (version_pattern n bits) x y \<longleftrightarrow>
      (\<exists>i < 18. int x = int n - 11 + int (i mod 3) \<and> int y = int (i div 3)) \<or> (\<exists>i < 18. int y = int n - 11 + int (i mod 3) \<and> int x = int (i div 3))"
    unfolding drawn_at_def set_version by auto
  then show ?thesis by (simp only: one)
qed

text \<open>The alignment patterns, all at once.\<close>

definition alignment_patterns :: "int list \<Rightarrow> (int \<times> int \<times> bool) list" where
  "alignment_patterns ps =
     (let n = length ps
      in concat (map (\<lambda>(i, j). if \<not> (i = 0 \<and> j = 0 \<or> i = 0 \<and> j = n - 1 \<or> i = n - 1 \<and> j = 0)
           then alignment_pattern (ps ! i) (ps ! j) else []) (List.product [0..<n] [0..<n])))"

lemma draw_append: "draw_modules (ps @ ps') q = qr_bind (draw_modules ps q) (draw_modules ps')"
  by (simp add: draw_modules_def qr_fold_append)

lemma draw_concat: "qr_fold (\<lambda>i. draw_modules (f i)) is q = draw_modules (concat (map f is)) q"
proof (induction "is" arbitrary: q)
  case (Cons a "is")
  have "qr_fold (\<lambda>i. draw_modules (f i)) is = draw_modules (concat (map f is))" using Cons.IH by (rule ext)
  then show ?case by (simp add: draw_append)
qed (simp add: draw_modules_def)

lemma drawAlignments_eq: "drawAlignments ps q = draw_modules (alignment_patterns ps) q"
proof -
  have "(\<lambda>(i, j) q. if \<not> (i = 0 \<and> j = 0 \<or> i = 0 \<and> j = length ps - 1 \<or> i = length ps - 1 \<and> j = 0)
        then drawAlignmentPattern (ps ! i) (ps ! j) q else Inr q)
      = (\<lambda>a. draw_modules (case a of (i, j) \<Rightarrow> if \<not> (i = 0 \<and> j = 0 \<or> i = 0 \<and> j = length ps - 1 \<or> i = length ps - 1 \<and> j = 0)
        then alignment_pattern (ps ! i) (ps ! j) else []))"
    by (auto simp: fun_eq_iff drawAlignmentPattern_def draw_modules_def)
  then show ?thesis by (simp only: drawAlignments_def alignment_patterns_def Let_def draw_concat)
qed

lemma near_nth: "near_centre ps x \<longleftrightarrow> (\<exists>k < length ps. ps ! k \<le> x + 2 \<and> x \<le> ps ! k + 2)"
  by (simp only: near_centre_def list_ex_length)

lemma drawn_at_alignments:
  "drawn_at (alignment_patterns (map int cs)) x y \<longleftrightarrow>
     (\<exists>i < length cs. \<exists>j < length cs. \<not> (i = 0 \<and> j = 0 \<or> i = 0 \<and> j = length cs - 1 \<or> i = length cs - 1 \<and> j = 0)
        \<and> (cs ! i \<le> x + 2 \<and> x \<le> cs ! i + 2) \<and> (cs ! j \<le> y + 2 \<and> y \<le> cs ! j + 2))"
proof -
  have pat: "drawn_at (alignment_pattern (int a) (int b)) x y \<longleftrightarrow> (a \<le> x + 2 \<and> x \<le> a + 2) \<and> (b \<le> y + 2 \<and> y \<le> b + 2)" for a b
    unfolding drawn_at_def set_alignment by auto
  have "drawn_at (concat (map f ps)) x y \<longleftrightarrow> (\<exists>p \<in> set ps. drawn_at (f p) x y)" for f :: "nat \<times> nat \<Rightarrow> _" and ps
    by (auto simp: drawn_at_def)
  then have "drawn_at (alignment_patterns (map int cs)) x y \<longleftrightarrow>
      (\<exists>i < length cs. \<exists>j < length cs. \<not> (i = 0 \<and> j = 0 \<or> i = 0 \<and> j = length cs - 1 \<or> i = length cs - 1 \<and> j = 0)
        \<and> drawn_at (alignment_pattern (int (cs ! i)) (int (cs ! j))) x y)"
    unfolding alignment_patterns_def Let_def by (auto simp: drawn_at_Cons(1) split: if_splits) fastforce+
  then show ?thesis by (simp only: pat)
qed

lemma alignments_region:
  assumes "inner \<noteq> []"
  shows "drawn_at (alignment_patterns (map int (6 # inner))) x y \<longleftrightarrow>
    near_centre inner x \<and> near_centre inner y \<or> 4 \<le> x \<and> x \<le> 8 \<and> near_centre (butlast inner) y \<or> near_centre (butlast inner) x \<and> 4 \<le> y \<and> y \<le> 8"
proof -
  let ?cs = "6 # inner"
  define close where "close c u \<longleftrightarrow> c \<le> u + 2 \<and> u \<le> c + 2" for c u :: nat
  have n: "0 < length inner" using assms by simp
  have split: "(\<exists>i < length ?cs. P i) \<longleftrightarrow> P 0 \<or> (\<exists>k < length inner. P (Suc k))" for P
    by (simp add: Ex_less_Suc2)
  have mid: "near_centre (butlast inner) u \<longleftrightarrow> (\<exists>k < length inner. Suc k \<noteq> length inner \<and> close (inner ! k) u)" for u
  proof -
    have "k < length (butlast inner) \<longleftrightarrow> k < length inner \<and> Suc k \<noteq> length inner" for k using n by auto
    then show ?thesis unfolding near_nth close_def by (metis nth_butlast)
  qed
  have all: "near_centre inner u \<longleftrightarrow> (\<exists>k < length inner. close (inner ! k) u)" for u
    by (simp add: near_nth close_def)
  have six: "close 6 u \<longleftrightarrow> 4 \<le> u \<and> u \<le> 8" for u by (auto simp: close_def)
  have "drawn_at (alignment_patterns (map int ?cs)) x y \<longleftrightarrow>
     (\<exists>i < length ?cs. \<exists>j < length ?cs. \<not> (i = 0 \<and> j = 0 \<or> i = 0 \<and> j = length ?cs - 1 \<or> i = length ?cs - 1 \<and> j = 0)
        \<and> close (?cs ! i) x \<and> close (?cs ! j) y)"
    unfolding drawn_at_alignments close_def by simp
  also have "\<dots> \<longleftrightarrow> (\<exists>k < length inner. Suc k \<noteq> length inner \<and> close 6 x \<and> close (inner ! k) y)
      \<or> (\<exists>k < length inner. (Suc k \<noteq> length inner \<and> close (inner ! k) x \<and> close 6 y) \<or> (\<exists>l < length inner. close (inner ! k) x \<and> close (inner ! l) y))"
    unfolding split by simp
  finally show ?thesis unfolding mid all six by blast
qed

text \<open>All function patterns of a code, in the order they are drawn.\<close>

definition function_patterns :: "nat \<Rightarrow> Ecc \<Rightarrow> (int \<times> int \<times> bool) list" where
  "function_patterns v ecl =
     (let n = 4 * v + 17
      in timing_pattern n @ finder_pattern n 3 3 @ finder_pattern n (int n - 4) 3 @ finder_pattern n 3 (int n - 4)
         @ alignment_patterns (map int (alignment_centres v)) @ format_pattern n (format_bits ecl 0)
         @ (if v < 7 then [] else version_pattern n (version_bits v)))"

lemma on_gridI: "(\<And>x y d. (x, y, d) \<in> set ps \<Longrightarrow> 0 \<le> x \<and> x < int n \<and> 0 \<le> y \<and> y < int n) \<Longrightarrow> on_grid n ps"
  by (auto simp: on_grid_def)

lemma on_grid_append: "on_grid n (ps @ ps') \<longleftrightarrow> on_grid n ps \<and> on_grid n ps'"
  by (simp add: on_grid_def ball_Un)

lemma format_on_grid: "21 \<le> n \<Longrightarrow> on_grid n (format_pattern n bits)"
  by (rule on_gridI) (auto simp: set_format)

lemma version_on_grid: "21 \<le> n \<Longrightarrow> on_grid n (version_pattern n bits)"
proof (rule on_gridI)
  fix x y d assume n: "21 \<le> n" and "(x, y, d) \<in> set (version_pattern n bits)"
  then obtain i where i: "i < 18" "x = int n - 11 + int (i mod 3) \<and> y = int (i div 3) \<or> y = int n - 11 + int (i mod 3) \<and> x = int (i div 3)"
    by (auto simp: set_version)
  have "i mod 3 < 3" "i div 3 < 6" using i(1) by auto
  then show "0 \<le> x \<and> x < int n \<and> 0 \<le> y \<and> y < int n" using i(2) n by linarith
qed

lemma alignments_on_grid:
  assumes "1 \<le> v" and "v \<le> 40"
  shows "on_grid (4 * v + 17) (alignment_patterns (map int (alignment_centres v)))"
proof (cases "v = 1")
  case False
  let ?cs = "alignment_centres v"
  have ok: "centres_ok v ?cs" using centres assms False by simp
  have b: "6 \<le> ?cs ! i \<and> ?cs ! i + 7 \<le> 4 * v + 17" if "i < length ?cs" for i
  proof -
    have ne: "?cs \<noteq> []" using that by auto
    have s: "sorted ?cs" using ok by (auto simp: centres_ok_def intro: sorted_wrt_mono_rel [rotated])
    have "?cs ! 0 \<le> ?cs ! i" "?cs ! i \<le> ?cs ! (length ?cs - 1)"
      using sorted_nth_mono [OF s] that by auto
    then show ?thesis using ok ne by (auto simp: centres_ok_def hd_conv_nth last_conv_nth)
  qed
  show ?thesis
  proof (rule on_gridI)
    fix x y d assume "(x, y, d) \<in> set (alignment_patterns (map int ?cs))"
    then obtain i j where "i < length ?cs" "j < length ?cs" "(x, y, d) \<in> set (alignment_pattern (int (?cs ! i)) (int (?cs ! j)))"
      by (auto simp: alignment_patterns_def Let_def split: if_splits)
    then show "0 \<le> x \<and> x < int (4 * v + 17) \<and> 0 \<le> y \<and> y < int (4 * v + 17)"
      using b [of i] b [of j] by (auto simp: set_alignment)
  qed
qed (simp add: centres_1 alignment_patterns_def on_grid_def)

lemma patterns_on_grid:
  assumes "1 \<le> v" and "v \<le> 40"
  shows "on_grid (4 * v + 17) (function_patterns v ecl)"
proof -
  have "on_grid n (timing_pattern n)" if "21 \<le> n" for n
    by (rule on_gridI) (use that in \<open>auto simp: timing_pattern_def\<close>)
  moreover have "on_grid n (finder_pattern n cx cy)" for n cx cy
    by (rule on_gridI) (simp add: set_finder)
  ultimately show ?thesis
    using alignments_on_grid [OF assms] format_on_grid version_on_grid assms
    by (simp add: function_patterns_def Let_def on_grid_append) (simp add: on_grid_def)
qed

lemma patterns_region:
  assumes "1 \<le> v" and "v \<le> 40" and "x < 4 * v + 17" and "y < 4 * v + 17"
  shows "drawn_at (function_patterns v ecl) x y \<longleftrightarrow> fn_region v x y"
proof -
  let ?n = "4 * v + 17" and ?cs = "alignment_centres v"
  have n: "21 \<le> ?n" using assms(1) by simp
  define A where "A \<longleftrightarrow> near_centre (tl ?cs) x \<and> near_centre (tl ?cs) y \<or> 4 \<le> x \<and> x \<le> 8 \<and> near_centre (butlast (tl ?cs)) y
      \<or> near_centre (butlast (tl ?cs)) x \<and> 4 \<le> y \<and> y \<le> 8"
  have al: "drawn_at (alignment_patterns (map int ?cs)) x y \<longleftrightarrow> A"
  proof (cases "v = 1")
    case True
    then show ?thesis by (simp add: A_def centres_1 alignment_patterns_def drawn_at_def near_centre_def)
  next
    case False
    then have ok: "centres_ok v ?cs" using centres assms by simp
    then have "?cs = 6 # tl ?cs" "tl ?cs \<noteq> []" by (cases ?cs; auto simp: centres_ok_def)+
    then show ?thesis unfolding A_def using alignments_region [of "tl ?cs" x y] by metis
  qed
  have ve: "drawn_at (if v < 7 then [] else version_pattern ?n (version_bits v)) x y
      \<longleftrightarrow> 7 \<le> v \<and> (?n \<le> x + 11 \<and> x + 9 \<le> ?n \<and> y \<le> 5 \<or> ?n \<le> y + 11 \<and> y + 9 \<le> ?n \<and> x \<le> 5)"
    using version_at [OF n assms(3,4)] by (simp add: drawn_at_def)
  have fi: "\<bar>int x - 3\<bar> \<le> 4 \<longleftrightarrow> x \<le> 7" "\<bar>int y - 3\<bar> \<le> 4 \<longleftrightarrow> y \<le> 7"
    "\<bar>int x - (int ?n - 4)\<bar> \<le> 4 \<longleftrightarrow> ?n \<le> x + 8" "\<bar>int y - (int ?n - 4)\<bar> \<le> 4 \<longleftrightarrow> ?n \<le> y + 8"
    using assms by auto
  have "drawn_at (function_patterns v ecl) x y \<longleftrightarrow>
      (x = 6 \<or> y = 6) \<or> x \<le> 7 \<and> y \<le> 7 \<or> ?n \<le> x + 8 \<and> y \<le> 7 \<or> x \<le> 7 \<and> ?n \<le> y + 8 \<or> A
      \<or> (x = 8 \<and> (y \<le> 5 \<or> y = 7 \<or> y = 8 \<or> ?n \<le> y + 8) \<or> y = 8 \<and> (x \<le> 5 \<or> x = 7 \<or> ?n \<le> x + 8))
      \<or> 7 \<le> v \<and> (?n \<le> x + 11 \<and> x + 9 \<le> ?n \<and> y \<le> 5 \<or> ?n \<le> y + 11 \<and> y + 9 \<le> ?n \<and> x \<le> 5)"
    unfolding function_patterns_def Let_def drawn_at_append al ve timing_at [OF assms(3,4)] finder_at [OF assms(3,4)] format_at [OF n assms(3,4)] fi
    by blast
  moreover have "fn_region v x y \<longleftrightarrow> (x = 6 \<or> y = 6) \<or> (x \<le> 8 \<and> y \<le> 8 \<or> ?n \<le> x + 8 \<and> y \<le> 8 \<or> x \<le> 8 \<and> ?n \<le> y + 8)
      \<or> A \<or> 7 \<le> v \<and> (?n \<le> x + 11 \<and> x + 9 \<le> ?n \<and> y \<le> 5 \<or> ?n \<le> y + 11 \<and> y + 9 \<le> ?n \<and> x \<le> 5)"
    unfolding fn_region_def Let_def A_def by blast
  moreover have "(x = 6 \<or> y = 6) \<or> (x \<le> 8 \<and> y \<le> 8 \<or> ?n \<le> x + 8 \<and> y \<le> 8 \<or> x \<le> 8 \<and> ?n \<le> y + 8)
     \<longleftrightarrow> (x = 6 \<or> y = 6) \<or> x \<le> 7 \<and> y \<le> 7 \<or> ?n \<le> x + 8 \<and> y \<le> 7 \<or> x \<le> 7 \<and> ?n \<le> y + 8
      \<or> (x = 8 \<and> (y \<le> 5 \<or> y = 7 \<or> y = 8 \<or> ?n \<le> y + 8) \<or> y = 8 \<and> (x \<le> 5 \<or> x = 7 \<or> ?n \<le> x + 8))"
    by linarith
  ultimately show ?thesis by blast
qed

lemma drawFunctionPatterns_run:
  assumes "1 \<le> v" and "v \<le> 40"
  shows "\<exists>q. drawFunctionPatterns (blank_code v ecl) = Inr q \<and> drawn_by (function_patterns v ecl) (blank_code v ecl) q"
proof -
  let ?b = "blank_code v ecl" and ?n = "4 * v + 17"
  have b: "code_wf ?b" "qc_size ?b = ?n" "qc_version ?b = v" "qc_ecl ?b = ecl"
    by (auto simp: blank_code_def code_wf_def square_grid_def Let_def)
  have grid: "on_grid ?n (timing_pattern ?n)" "on_grid ?n (finder_pattern ?n 3 3)" "on_grid ?n (finder_pattern ?n (int ?n - 4) 3)"
    "on_grid ?n (finder_pattern ?n 3 (int ?n - 4))" "on_grid ?n (alignment_patterns (map int (alignment_centres v)))"
    "on_grid ?n (format_pattern ?n (format_bits ecl 0))" "on_grid ?n (if v < 7 then [] else version_pattern ?n (version_bits v))"
    using patterns_on_grid [OF assms, of ecl] by (simp_all only: function_patterns_def Let_def on_grid_append)
  obtain q1 where q1: "draw_modules (timing_pattern ?n) ?b = Inr q1" "drawn_by (timing_pattern ?n) ?b q1"
    using draw_run [of ?b] b grid(1) by auto
  obtain q2 where q2: "draw_modules (finder_pattern ?n 3 3) q1 = Inr q2" "drawn_by (finder_pattern ?n 3 3) q1 q2"
    using draw_run [of q1] drawnD [OF q1(2)] b grid(2) by auto
  obtain q3 where q3: "draw_modules (finder_pattern ?n (int ?n - 4) 3) q2 = Inr q3" "drawn_by (finder_pattern ?n (int ?n - 4) 3) q2 q3"
    using draw_run [of q2] drawnD [OF q1(2)] drawnD [OF q2(2)] b grid(3) by auto
  obtain q4 where q4: "draw_modules (finder_pattern ?n 3 (int ?n - 4)) q3 = Inr q4" "drawn_by (finder_pattern ?n 3 (int ?n - 4)) q3 q4"
    using draw_run [of q3] drawnD [OF q1(2)] drawnD [OF q2(2)] drawnD [OF q3(2)] b grid(4) by auto
  note d4 = drawnD [OF q1(2)] drawnD [OF q2(2)] drawnD [OF q3(2)] drawnD [OF q4(2)]
  obtain q5 where q5: "draw_modules (alignment_patterns (map int (alignment_centres v))) q4 = Inr q5"
    "drawn_by (alignment_patterns (map int (alignment_centres v))) q4 q5"
    using draw_run [of q4] d4 b grid(5) by auto
  obtain q6 where q6: "draw_modules (format_pattern ?n (format_bits ecl 0)) q5 = Inr q6" "drawn_by (format_pattern ?n (format_bits ecl 0)) q5 q6"
    using draw_run [of q5] d4 drawnD [OF q5(2)] b grid(6) by auto
  let ?v = "if v < 7 then [] else version_pattern ?n (version_bits v)"
  obtain q7 where q7: "draw_modules ?v q6 = Inr q7" "drawn_by ?v q6 q7"
    using draw_run [of q6 ?v] d4 drawnD [OF q5(2)] drawnD [OF q6(2)] b grid(7) by auto
  have "drawn_by (function_patterns v ecl) ?b q7"
    unfolding function_patterns_def Let_def
    by (rule drawn_append [OF q1(2) drawn_append [OF q2(2) drawn_append [OF q3(2) drawn_append [OF q4(2)
      drawn_append [OF q5(2) drawn_append [OF q6(2) q7(2)]]]]]])
  moreover have "drawFunctionPatterns ?b = Inr q7"
    using q1(1) q2(1) q3(1) q4(1) q5(1) q6(1) q7(1) d4 drawnD [OF q5(2)] drawnD [OF q6(2)] b table_is_positions [OF assms]
    by (auto simp: drawFunctionPatterns_def drawFinderPattern_def drawAlignments_eq drawFormatBits_def drawVersion_def draw_modules_def)
  ultimately show ?thesis by blast
qed

end
