(* ===== verification/QrCapacity.thy ===== *)
theory QrCapacity
  imports QrLayout
begin

text \<open>
  The modules outside the function patterns, counted: they are as many as \<open>getNumRawDataModules\<close> computes, for every
  version. The region is cut into disjoint rectangles.
\<close>

section \<open>Cutting the region\<close>

lemma card_disjoint_list:
  assumes "sorted_wrt (\<lambda>A B. A \<inter> B = {}) As" and "\<And>A. A \<in> set As \<Longrightarrow> finite A"
  shows "finite (\<Union> (set As)) \<and> card (\<Union> (set As)) = sum_list (map card As)"
  using assms
proof (induction As)
  case (Cons A As)
  have "A \<inter> \<Union> (set As) = {}" using Cons.prems(1) by auto
  moreover have "finite A" "finite (\<Union> (set As))" "card (\<Union> (set As)) = sum_list (map card As)"
    using Cons by auto
  ultimately show ?case by (simp add: card_Un_disjoint)
qed simp

lemma near_range: "near_centre ps x \<Longrightarrow> list_all (\<lambda>p. a \<le> p \<and> p \<le> b) ps \<Longrightarrow> a - 2 \<le> x \<and> x \<le> b + 2"
  by (induction ps) (auto simp: near_centre_def)

text \<open>Centres that are apart cover five coordinates each.\<close>

lemma near_count: "sorted_wrt (\<lambda>a b. a + 10 \<le> b) ps \<Longrightarrow> list_all (\<lambda>p. 2 \<le> p) ps \<Longrightarrow> finite {x. near_centre ps x} \<and> card {x. near_centre ps x} = 5 * length ps"
proof (induction ps)
  case (Cons p ps)
  have split: "{x. near_centre (p # ps) x} = {p - 2..p + 2} \<union> {x. near_centre ps x}"
    using Cons.prems(2) by (auto simp: near_centre_def)
  have "x \<notin> {p - 2..p + 2}" if "near_centre ps x" for x
    using that Cons.prems(1) by (fastforce simp: near_centre_def list_ex_iff)
  then have "{p - 2..p + 2} \<inter> {x. near_centre ps x} = {}" by auto
  moreover have "card {p - 2..p + 2} = 5" using Cons.prems(2) by simp
  ultimately show ?case using Cons split by (simp add: card_Un_disjoint)
qed (simp add: near_centre_def [abs_def])

definition region_pieces :: "nat \<Rightarrow> (nat \<times> nat) set list" where
  "region_pieces v =
     (let s = 4 * v + 17; I = {x. near_centre (tl (alignment_centres v)) x}; M = {x. near_centre (butlast (tl (alignment_centres v))) x}
      in [{0..8} \<times> {0..8}, {s - 8..s - 1} \<times> {0..8}, {0..8} \<times> {s - 8..s - 1},
          {6} \<times> {9..s - 9}, {9..s - 9} \<times> {6},
          I \<times> I, {4, 5, 7, 8} \<times> M, M \<times> {4, 5, 7, 8}]
         @ (if v < 7 then [] else [{s - 11..s - 9} \<times> {0..5}, {0..5} \<times> {s - 11..s - 9}]))"

lemma centre_sets:
  assumes "1 \<le> v" and "v \<le> 40"
  defines "I \<equiv> {x. near_centre (tl (alignment_centres v)) x}" and "M \<equiv> {x. near_centre (butlast (tl (alignment_centres v))) x}"
    and "k \<equiv> (if v = 1 then 0 else v div 7 + 1)"
  shows "finite I" "card I = 5 * k" "finite M" "card M = 5 * (k - 1)"
    and "\<And>x. x \<in> I \<Longrightarrow> 16 \<le> x \<and> x + 5 \<le> 4 * v + 17" and "\<And>x. x \<in> M \<Longrightarrow> 16 \<le> x \<and> x + 15 \<le> 4 * v + 17"
proof -
  let ?in = "tl (alignment_centres v)"
  have "finite I \<and> card I = 5 * k \<and> finite M \<and> card M = 5 * (k - 1) \<and> (\<forall>x \<in> I. 16 \<le> x \<and> x + 5 \<le> 4 * v + 17)
      \<and> (\<forall>x \<in> M. 16 \<le> x \<and> x + 15 \<le> 4 * v + 17)"
  proof (cases "v = 1")
    case True
    then show ?thesis by (simp add: I_def M_def k_def centres_1 near_centre_def)
  next
    case False
    then have ok: "centres_ok v (alignment_centres v)" using centres assms by simp
    then obtain inner where cs: "alignment_centres v = 6 # inner" "inner \<noteq> []" "length inner = k" "last inner + 7 = 4 * v + 17"
      "sorted_wrt (\<lambda>a b. a + 10 \<le> b) inner" "list_all (\<lambda>p. 18 \<le> p) inner"
      using False by (cases "alignment_centres v") (auto simp: centres_ok_def k_def split: if_splits)
    define mid l where "mid = butlast inner" and "l = last inner"
    have inner: "inner = mid @ [l]" using cs(2) by (simp add: mid_def l_def)
    have m: "sorted_wrt (\<lambda>a b. a + 10 \<le> b) mid" "\<forall>p \<in> set mid. p + 10 \<le> l" "list_all (\<lambda>p. 18 \<le> p) mid" "18 \<le> l"
      using cs(5,6) unfolding inner by (auto simp: sorted_wrt_append)
    have two: "list_all (\<lambda>p. 2 \<le> p) inner" "list_all (\<lambda>p. 2 \<le> p) mid"
      using cs(6) m(3) by (auto simp: list_all_iff)
    have "16 \<le> x \<and> x + 5 \<le> 4 * v + 17" if "x \<in> I" for x
    proof -
      have "list_all (\<lambda>p. 18 \<le> p \<and> p \<le> l) inner" using m unfolding inner by (auto simp: list_all_iff)
      then show ?thesis using near_range [of inner x 18 l] that cs(1,4) by (simp add: I_def l_def)
    qed
    moreover have "16 \<le> x \<and> x + 15 \<le> 4 * v + 17" if "x \<in> M" for x
    proof -
      have "list_all (\<lambda>p. 18 \<le> p \<and> p \<le> l - 10) mid" using m by (auto simp: list_all_iff)
      then show ?thesis using near_range [of mid x 18 "l - 10"] that cs(1,4) m(4) by (simp add: M_def mid_def l_def)
    qed
    ultimately show ?thesis
      using near_count [OF cs(5) two(1)] near_count [OF m(1) two(2)] cs(1,3) by (simp add: I_def M_def mid_def)
  qed
  then show "finite I" "card I = 5 * k" "finite M" "card M = 5 * (k - 1)"
    "\<And>x. x \<in> I \<Longrightarrow> 16 \<le> x \<and> x + 5 \<le> 4 * v + 17" "\<And>x. x \<in> M \<Longrightarrow> 16 \<le> x \<and> x + 15 \<le> 4 * v + 17"
    by auto
qed

lemma region_pieces_union:
  assumes "1 \<le> v" and "v \<le> 40"
  shows "{(x, y). x < 4 * v + 17 \<and> y < 4 * v + 17 \<and> fn_region v x y} = \<Union> (set (region_pieces v))"
proof -
  define s where "s = 4 * v + 17"
  define I where "I = {x. near_centre (tl (alignment_centres v)) x}"
  define M where "M = {x. near_centre (butlast (tl (alignment_centres v))) x}"
  have b: "21 \<le> s" "\<And>x. x \<in> I \<Longrightarrow> 16 \<le> x \<and> x + 5 \<le> s" "\<And>x. x \<in> M \<Longrightarrow> 16 \<le> x \<and> x + 15 \<le> s"
    using centre_sets(5,6) [OF assms] assms by (simp_all add: s_def I_def M_def)
  have pt: "fn_region v x y \<longleftrightarrow> (x, y) \<in> \<Union> (set (region_pieces v))" if xy: "x < s" "y < s" for x y
  proof -
    have low: "u - 8 \<le> w \<longleftrightarrow> u \<le> w + 8" "u - 11 \<le> w \<longleftrightarrow> u \<le> w + 11" for u w :: nat by auto
    have high: "w \<le> s - Suc 0 \<longleftrightarrow> w < s" "w \<le> s - 9 \<longleftrightarrow> \<not> s \<le> w + 8" "w + 9 \<le> s \<longleftrightarrow> \<not> s \<le> w + 8" "9 \<le> w \<longleftrightarrow> \<not> w \<le> 8" for w
      using b(1) by auto
    have mid: "4 \<le> w \<and> w \<le> 8 \<longleftrightarrow> w = 4 \<or> w = 5 \<or> w = 6 \<or> w = 7 \<or> w = 8" for w :: nat by linarith
    have apart: "x = 6 \<Longrightarrow> x \<le> 8" "y = 6 \<Longrightarrow> y \<le> 8" by simp_all
    have "fn_region v x y \<longleftrightarrow> x = 6 \<or> y = 6
       \<or> x \<le> 8 \<and> y \<le> 8 \<or> s \<le> x + 8 \<and> y \<le> 8 \<or> x \<le> 8 \<and> s \<le> y + 8
       \<or> x \<in> I \<and> y \<in> I \<or> (4 \<le> x \<and> x \<le> 8) \<and> y \<in> M \<or> x \<in> M \<and> (4 \<le> y \<and> y \<le> 8)
       \<or> 7 \<le> v \<and> (s \<le> x + 11 \<and> \<not> s \<le> x + 8 \<and> y \<le> 5 \<or> s \<le> y + 11 \<and> \<not> s \<le> y + 8 \<and> x \<le> 5)"
      unfolding fn_region_def Let_def I_def M_def s_def [symmetric] high by simp
    moreover have "(x, y) \<in> \<Union> (set (region_pieces v)) \<longleftrightarrow>
        x \<le> 8 \<and> y \<le> 8 \<or> s \<le> x + 8 \<and> y \<le> 8 \<or> x \<le> 8 \<and> s \<le> y + 8
        \<or> x = 6 \<and> (\<not> y \<le> 8 \<and> \<not> s \<le> y + 8) \<or> (\<not> x \<le> 8 \<and> \<not> s \<le> x + 8) \<and> y = 6
        \<or> x \<in> I \<and> y \<in> I \<or> (x = 4 \<or> x = 5 \<or> x = 7 \<or> x = 8) \<and> y \<in> M \<or> x \<in> M \<and> (y = 4 \<or> y = 5 \<or> y = 7 \<or> y = 8)
        \<or> 7 \<le> v \<and> (s \<le> x + 11 \<and> \<not> s \<le> x + 8 \<and> y \<le> 5 \<or> x \<le> 5 \<and> s \<le> y + 11 \<and> \<not> s \<le> y + 8)"
      unfolding region_pieces_def Let_def I_def [symmetric] M_def [symmetric] s_def [symmetric]
      using xy by (cases "v < 7") (simp_all add: low high)
    ultimately show ?thesis unfolding mid using apart by argo
  qed
  have sub: "x < s \<and> y < s" if "(x, y) \<in> \<Union> (set (region_pieces v))" for x y
    using that b unfolding region_pieces_def Let_def I_def [symmetric] M_def [symmetric] s_def [symmetric]
    by (cases "v < 7") (auto, fastforce+)
  show ?thesis unfolding s_def [symmetric] using pt sub by blast
qed

lemma region_pieces_disjoint:
  assumes "1 \<le> v" and "v \<le> 40"
  shows "sorted_wrt (\<lambda>A B. A \<inter> B = {}) (region_pieces v)"
proof -
  define s where "s = 4 * v + 17"
  define I where "I = {x. near_centre (tl (alignment_centres v)) x}"
  define M where "M = {x. near_centre (butlast (tl (alignment_centres v))) x}"
  have n: "21 \<le> s" "7 \<le> v \<Longrightarrow> 45 \<le> s" using assms by (simp_all add: s_def)
  have sub: "I \<subseteq> {16..s - 5}" "M \<subseteq> {16..s - 15}"
    using centre_sets(5,6) [OF assms] by (fastforce simp: s_def I_def M_def)+
  have iv: "{a..b} \<inter> {c..d} = {} \<longleftrightarrow> b < a \<or> d < c \<or> b < c \<or> d < a" for a b c d :: nat by auto
  have out: "J \<inter> X = {} \<and> X \<inter> J = {}" if "J \<subseteq> {16..b}" "X \<inter> {16..b} = {}" for J X :: "nat set" and b
    using that by blast
  have few: "{4, 5, 7, 8} \<inter> {a..b} = {} \<and> {a..b} \<inter> {4, 5, 7, 8} = {}" if "9 \<le> a" for a b :: nat
    using that by auto
  have one: "{6} \<inter> {a..b} = {} \<and> {a..b} \<inter> {6} = {}" if "9 \<le> a \<or> b < 6" for a b :: nat
    using that by auto
  have pair: "{6} \<inter> {4, 5, 7, 8 :: nat} = {}" "{4, 5, 7, 8} \<inter> {6 :: nat} = {}" by auto
  have six: "{6} \<inter> I = {}" "I \<inter> {6} = {}" "{6} \<inter> M = {}" "M \<inter> {6} = {}"
    "{4, 5, 7, 8} \<inter> I = {}" "I \<inter> {4, 5, 7, 8} = {}" "{4, 5, 7, 8} \<inter> M = {}" "M \<inter> {4, 5, 7, 8} = {}"
    using sub by auto
  have corner: "{0..8} \<inter> I = {}" "I \<inter> {0..8} = {}" "{0..8} \<inter> M = {}" "M \<inter> {0..8} = {}"
    "{0..5} \<inter> I = {}" "I \<inter> {0..5} = {}" "{0..5} \<inter> M = {}" "M \<inter> {0..5} = {}"
    "{s - 8..s - Suc 0} \<inter> M = {}" "M \<inter> {s - 8..s - Suc 0} = {}" "{s - 11..s - 9} \<inter> M = {}" "M \<inter> {s - 11..s - 9} = {}"
    using n by (auto dest!: subsetD [OF sub(1)] subsetD [OF sub(2)])
  show ?thesis
    unfolding region_pieces_def Let_def I_def [symmetric] M_def [symmetric] s_def [symmetric]
    using n assms by (cases "v < 7") (simp_all add: Times_Int_Times iv few one pair six corner)
qed

lemma region_count:
  assumes "1 \<le> v" and "v \<le> 40"
  shows "card {(x, y). x < 4 * v + 17 \<and> y < 4 * v + 17 \<and> fn_region v x y} + raw_modules v = (4 * v + 17) * (4 * v + 17)"
proof -
  define s where "s = 4 * v + 17"
  define I where "I = {x. near_centre (tl (alignment_centres v)) x}"
  define M where "M = {x. near_centre (butlast (tl (alignment_centres v))) x}"
  define k where "k = (if v = 1 then 0 else v div 7 + 1)"
  have c: "finite I" "card I = 5 * k" "finite M" "card M = 5 * (k - 1)"
    using centre_sets(1-4) [OF assms] by (simp_all add: I_def M_def k_def)
  have fin: "finite A" if "A \<in> set (region_pieces v)" for A
    using that c unfolding region_pieces_def Let_def I_def [symmetric] M_def [symmetric] by (auto split: if_splits)
  have n: "21 \<le> s" using assms by (simp add: s_def)
  have "card {(x, y). x < 4 * v + 17 \<and> y < 4 * v + 17 \<and> fn_region v x y} = sum_list (map card (region_pieces v))"
    using card_disjoint_list [OF region_pieces_disjoint [OF assms] fin] region_pieces_union [OF assms] by simp
  also have "\<dots> = 225 + 2 * (s - 17) + 5 * k * (5 * k) + 2 * (4 * (5 * (k - 1))) + (if v < 7 then 0 else 36)"
    using n c unfolding region_pieces_def Let_def I_def [symmetric] M_def [symmetric] s_def [symmetric]
    by (simp add: card_cartesian_product)
  finally have "card {(x, y). x < 4 * v + 17 \<and> y < 4 * v + 17 \<and> fn_region v x y}
      = 225 + 2 * (s - 17) + 5 * k * (5 * k) + 2 * (4 * (5 * (k - 1))) + (if v < 7 then 0 else 36)" .
  then show ?thesis
    using version_cases [OF assms] by (auto simp: s_def k_def raw_modules_def)
qed

lemma get_at_bounds: "square_grid n g \<Longrightarrow> get_at g x y = Inr b \<longleftrightarrow> x < n \<and> y < n \<and> g ! y ! x = b"
  using get_at_square [of n g x y] by (cases "x < n"; cases "y < n") (auto simp: get_at_def vec_at_def square_grid_def)

text \<open>
  C38: The formula for the number of data modules agrees with the drawing: in every version the function patterns leave
  exactly \<open>getNumRawDataModules\<close> modules free.
\<close>

theorem patterns_leave_data_modules:
  assumes "getNumRawDataModules v = Inr n"
  shows "\<exists>q. drawFunctionPatterns (blank_code v ecl) = Inr q \<and> card {(x, y). get_at (qc_isFunction q) x y = Inr False} = n"
proof -
  have v: "1 \<le> v" "v \<le> 40" "raw_modules v = n" using getNumRawDataModules_range [OF assms] by simp_all
  let ?s = "4 * v + 17"
  obtain q where q: "drawFunctionPatterns (blank_code v ecl) = Inr q" "drawn_by (function_patterns v ecl) (blank_code v ecl) q"
    using drawFunctionPatterns_run [OF v(1,2)] by blast
  have s: "qc_size q = ?s" "square_grid ?s (qc_isFunction q)"
    using drawnD [OF q(2)] by (auto simp: blank_code_def code_wf_def Let_def mult.commute)
  have f: "qc_isFunction q ! y ! x \<longleftrightarrow> fn_region v x y" if "x < ?s" "y < ?s" for x y
    using q(2) patterns_region [OF v(1,2) that, of ecl] that by (simp add: drawn_by_def blank_code_def fn_at_def Let_def)
  let ?grid = "{..<?s} \<times> {..<?s}" and ?fn = "{(x, y). x < ?s \<and> y < ?s \<and> fn_region v x y}"
  have free: "{(x, y). get_at (qc_isFunction q) x y = Inr False} = ?grid - ?fn"
    using f by (auto simp: get_at_bounds [OF s(2)])
  have "?fn \<subseteq> ?grid" by auto
  then have "card (?grid - ?fn) = ?s * ?s - card ?fn"
    by (subst card_Diff_subset) (auto intro: finite_subset [of _ ?grid])
  then have "card (?grid - ?fn) = n" using region_count [OF v(1,2)] v(3) by simp
  then show ?thesis using q(1) free by auto
qed

theorem patterns_leave_data_modules_witness:
  "\<exists>q. drawFunctionPatterns (blank_code 7 HIGH) = Inr q \<and> card {(x, y). get_at (qc_isFunction q) x y = Inr False} = 1568"
  by (rule patterns_leave_data_modules) code_simp

end
