(* ===== verification/QrDrawing.thy ===== *)
theory QrDrawing
  imports QrCodewords QrCapacity
begin

text \<open>
  Drawing the codewords and the masks: the bits of the codewords end up in the modules a reader visits, in that order
  and one each; applying a mask inverts exactly the modules outside the function patterns its condition names, so that a
  second application undoes it; and the penalty of a code is defined and fits a \<open>long\<close>.
\<close>

section \<open>The order of the reader\<close>

text \<open>
  Column pairs from the right, without the timing column, upwards first and in turn; in a row the right module first.
\<close>

definition scan_columns :: "nat \<Rightarrow> nat list" where
  "scan_columns n = map (\<lambda>k. n - 1 - 2 * k) [0..<(n - 7) div 2] @ [5, 3, 1]"

definition scan_order :: "nat \<Rightarrow> (nat \<times> nat) list" where
  "scan_order n =
     concat (map (\<lambda>(k, right). concat (map (\<lambda>vert.
       let y = (if even k then n - 1 - vert else vert) in [(right, y), (right - 1, y)]) [0..<n]))
       (enumerate 0 (scan_columns n)))"

definition data_positions :: "nat \<Rightarrow> (nat \<times> nat) list" where
  "data_positions v = filter (\<lambda>(x, y). \<not> fn_region v x y) (scan_order (4 * v + 17))"

lemma zigzag_columns_eq: "zigzag_columns (6 + 2 * m) = map (\<lambda>k. 6 + 2 * m - 2 * k) [0..<m] @ [5, 3, 1]"
proof (induction m)
  case 0
  show ?case by (simp add: zigzag_columns.simps)
next
  case (Suc m)
  have "zigzag_columns (6 + 2 * Suc m) = (6 + 2 * Suc m) # zigzag_columns (6 + 2 * m)"
    by (subst zigzag_columns.simps) simp
  moreover have "[0..<Suc m] = 0 # map Suc [0..<m]" by (simp only: upt_conv_Cons [OF zero_less_Suc] map_Suc_upt)
  ultimately show ?case using Suc.IH by (simp del: upt_Suc add: comp_def)
qed

lemma code_columns:
  assumes "n = 4 * v + 17"
  shows "zigzag_columns (n - 1) = scan_columns n" and "length (scan_columns n) = 2 * v + 8"
proof -
  have "n - 1 = 6 + 2 * (2 * v + 5)" "(n - 7) div 2 = 2 * v + 5" using assms by simp_all
  then show "zigzag_columns (n - 1) = scan_columns n" "length (scan_columns n) = 2 * v + 8"
    using zigzag_columns_eq [of "2 * v + 5"] by (simp_all add: scan_columns_def)
qed

lemma and_2_eq_0: "and n 2 = 0 \<longleftrightarrow> even (n div 2)" for n :: nat
proof -
  have "and n 2 = (if bit n 1 then 2 else 0)"
    by (rule bit_eqI) (auto simp: bit_and_iff bit_simps simp flip: numeral_2_eq_2)
  then show ?thesis by (simp add: bit_iff_odd)
qed

lemma column_direction:
  assumes "n = 4 * v + 17" and "k < length (scan_columns n)"
  shows "and (scan_columns n ! k + 1) 2 = 0 \<longleftrightarrow> even k"
proof (cases "k < 2 * v + 5")
  case True
  have "scan_columns n ! k = n - 1 - 2 * k" using True assms(1) by (simp add: scan_columns_def nth_append)
  then have "(scan_columns n ! k + 1) div 2 = 2 * v + 8 - k" using True assms(1) by simp
  then show ?thesis unfolding and_2_eq_0 using True by simp
next
  case False
  then have "k = 2 * v + 5 \<or> k = 2 * v + 6 \<or> k = 2 * v + 7" using assms code_columns(2) [OF assms(1)] by linarith
  then show ?thesis unfolding and_2_eq_0 using assms(1) by (auto simp: scan_columns_def nth_append)
qed

lemma zigzag_is_scan_order:
  assumes "n = 4 * v + 17"
  shows "zigzag n = scan_order n"
proof -
  let ?f = "\<lambda>right. concat (map (\<lambda>vert. map (\<lambda>j. let x = right - j; upward = (and (right + 1) 2 = 0);
      y = (if upward then n - 1 - vert else vert) in (x, y)) [0, 1]) [0..<n])"
  let ?g = "\<lambda>(k, right). concat (map (\<lambda>vert. let y = (if even k then n - 1 - vert else vert) in [(right, y), (right - 1, y)]) [0..<n])"
  have "map ?f (scan_columns n) = map ?g (enumerate 0 (scan_columns n))"
  proof (rule nth_equalityI)
    fix k assume "k < length (map ?f (scan_columns n))"
    then have k: "k < length (scan_columns n)" by simp
    then show "map ?f (scan_columns n) ! k = map ?g (enumerate 0 (scan_columns n)) ! k"
      using column_direction [OF assms k] by (simp add: nth_enumerate_eq Let_def)
  qed simp
  then show ?thesis unfolding zigzag_def scan_order_def code_columns(1) [OF assms] by simp
qed

text \<open>Every module but those of the timing column is visited once.\<close>

lemma scan_columns_set:
  assumes "n = 4 * v + 17"
  shows "(\<exists>r \<in> set (scan_columns n). x = r \<or> x = r - 1) \<longleftrightarrow> x < n \<and> x \<noteq> 6"
proof
  assume "\<exists>r \<in> set (scan_columns n). x = r \<or> x = r - 1"
  then show "x < n \<and> x \<noteq> 6" using assms by (auto simp: scan_columns_def)
next
  assume x: "x < n \<and> x \<noteq> 6"
  show "\<exists>r \<in> set (scan_columns n). x = r \<or> x = r - 1"
  proof (cases "x < 6")
    case True
    then have "x = 0 \<or> x = 1 \<or> x = 2 \<or> x = 3 \<or> x = 4 \<or> x = 5" by linarith
    then show ?thesis by (auto simp: scan_columns_def)
  next
    case False
    define r where "r = (if even x then x else x + 1)"
    have "even r" "8 \<le> r" "r \<le> n - 1" "x = r \<or> x = r - 1" using x False assms by (auto simp: r_def) presburger+
    moreover obtain m where "r = 2 * m" using \<open>even r\<close> by (auto elim: evenE)
    ultimately have "r = n - 1 - 2 * (2 * v + 8 - m)" "2 * v + 8 - m < (n - 7) div 2" using assms by auto
    then have "r \<in> set (scan_columns n)" unfolding scan_columns_def by auto
    then show ?thesis using \<open>x = r \<or> x = r - 1\<close> by blast
  qed
qed

lemma scan_order_set:
  assumes "n = 4 * v + 17"
  shows "set (scan_order n) = {(x, y). x < n \<and> y < n \<and> x \<noteq> 6}"
proof -
  have rows: "(\<exists>vert < n. y = (if even k then n - 1 - vert else vert)) \<longleftrightarrow> y < n" for k :: nat and y
    by (cases "even k") (auto intro: exI [of _ "n - 1 - y"])
  have "(x, y) \<in> set (scan_order n) \<longleftrightarrow> (\<exists>k < length (scan_columns n). (x = scan_columns n ! k \<or> x = scan_columns n ! k - 1)
      \<and> (\<exists>vert < n. y = (if even k then n - 1 - vert else vert)))" for x y
  proof -
    have "(x, y) \<in> set (scan_order n) \<longleftrightarrow> (\<exists>p \<in> set (enumerate 0 (scan_columns n)). (x = snd p \<or> x = snd p - 1)
        \<and> (\<exists>vert < n. y = (if even (fst p) then n - 1 - vert else vert)))"
      unfolding scan_order_def set_concat set_map image_image set_upt by (auto simp: Let_def split_beta Bex_def)
    then show ?thesis by (auto simp: Bex_def in_set_enumerate_eq)
  qed
  then have "(x, y) \<in> set (scan_order n) \<longleftrightarrow> (\<exists>r \<in> set (scan_columns n). x = r \<or> x = r - 1) \<and> y < n" for x y
    unfolding rows by (metis in_set_conv_nth)
  then show ?thesis using scan_columns_set [OF assms] by auto
qed

lemma scan_order_length:
  assumes "n = 4 * v + 17"
  shows "length (scan_order n) = n * (n - 1)"
proof -
  have "length (concat (map (\<lambda>(k, right). concat (map (\<lambda>vert.
      let y = (if even k then n - 1 - vert else vert) in [(right, y), (right - 1, y)]) [0..<n])) ps)) = 2 * n * length ps" for ps :: "(nat \<times> nat) list"
    by (induction ps) (auto simp: length_concat comp_def Let_def sum_list_replicate map_replicate_const algebra_simps)
  then have "length (scan_order n) = 2 * n * (2 * v + 8)"
    by (simp add: scan_order_def code_columns(2) [OF assms])
  moreover have "n - 1 = 2 * (2 * v + 8)" using assms by simp
  ultimately show ?thesis by (simp add: algebra_simps)
qed

lemma scan_order_distinct:
  assumes "n = 4 * v + 17"
  shows "distinct (scan_order n)"
proof (rule card_distinct)
  have "{(x, y). x < n \<and> y < n \<and> x \<noteq> 6} = ({0..<n} - {6}) \<times> {0..<n}" by auto
  moreover have "card ({0..<n} - {6}) = n - 1" using assms by simp
  ultimately have "card {(x, y). x < n \<and> y < n \<and> x \<noteq> 6} = (n - 1) * n" by (simp add: card_cartesian_product)
  then show "card (set (scan_order n)) = length (scan_order n)"
    unfolding scan_order_set [OF assms] scan_order_length [OF assms] by (simp add: mult.commute)
qed

lemma data_positions_facts:
  assumes "1 \<le> v" and "v \<le> 40"
  shows "distinct (data_positions v)"
    and "set (data_positions v) = {(x, y). x < 4 * v + 17 \<and> y < 4 * v + 17 \<and> \<not> fn_region v x y}"
    and "length (data_positions v) = raw_modules v"
proof -
  let ?n = "4 * v + 17"
  have timing: "fn_region v 6 y" for y by (simp add: fn_region_def Let_def)
  show d: "distinct (data_positions v)" using scan_order_distinct [OF refl] by (simp add: data_positions_def)
  show s: "set (data_positions v) = {(x, y). x < ?n \<and> y < ?n \<and> \<not> fn_region v x y}"
    using scan_order_set [OF refl, of v] timing by (auto simp: data_positions_def)
  let ?F = "{(x, y). x < ?n \<and> y < ?n \<and> fn_region v x y}"
  have cut: "{0..<?n} \<times> {0..<?n} = set (data_positions v) \<union> ?F" "set (data_positions v) \<inter> ?F = {}" unfolding s by auto
  have "finite ?F" by (rule finite_subset [of _ "{0..<?n} \<times> {0..<?n}"]) auto
  then have "card ({0..<?n} \<times> {0..<?n}) = card (set (data_positions v)) + card ?F"
    unfolding cut(1) by (intro card_Un_disjoint cut(2)) simp_all
  then have "?n * ?n = card (set (data_positions v)) + card ?F" by (simp only: card_cartesian_product card_atLeastLessThan diff_zero)
  then show "length (data_positions v) = raw_modules v"
    using region_count [OF assms] distinct_card [OF d] by simp
qed

section \<open>Drawing the codewords\<close>

definition keeps_functions :: "qr_code \<Rightarrow> qr_code \<Rightarrow> bool" where
  "keeps_functions q q' \<longleftrightarrow> same_code q q' \<and> qc_isFunction q' = qc_isFunction q"

lemma keeps_functionsD: "keeps_functions q q' \<Longrightarrow> code_wf q' \<and> qc_version q' = qc_version q \<and> qc_size q' = qc_size q \<and> qc_ecl q' = qc_ecl q
    \<and> fn_at q' x y = fn_at q x y"
  by (simp add: keeps_functions_def same_code_def fn_at_def)

lemma keeps_refl: "code_wf q \<Longrightarrow> keeps_functions q q"
  by (simp add: keeps_functions_def same_code_def)

lemma keeps_trans: "keeps_functions q q1 \<Longrightarrow> keeps_functions q1 q2 \<Longrightarrow> keeps_functions q q2"
  by (simp add: keeps_functions_def same_code_def)

text \<open>One module is set.\<close>

lemma set_module:
  assumes "code_wf q" and "x < qc_size q" and "y < qc_size q"
  obtains m where "set_at x y b (qc_modules q) = Inr m" and "keeps_functions q (q\<lparr>qc_modules := m\<rparr>)"
    and "\<And>x' y'. dark_at (q\<lparr>qc_modules := m\<rparr>) x' y' = (if x' = x \<and> y' = y then b else dark_at q x' y')"
proof
  have sq: "square_grid (qc_size q) (qc_modules q)" using assms(1) by (simp add: code_wf_def)
  let ?m = "(qc_modules q)[y := (qc_modules q ! y)[x := b]]"
  show "set_at x y b (qc_modules q) = Inr ?m" by (rule set_at_square [OF sq assms(2,3)])
  show "keeps_functions q (q\<lparr>qc_modules := ?m\<rparr>)"
    using assms(1) square_update(1) [OF sq assms(2,3)] by (simp add: keeps_functions_def same_code_def code_wf_def)
  show "dark_at (q\<lparr>qc_modules := ?m\<rparr>) x' y' = (if x' = x \<and> y' = y then b else dark_at q x' y')" for x' y'
    using square_update(2) [OF sq assms(2,3)] by (simp add: dark_at_def)
qed

text \<open>The modules of a list that hold no function pattern, and the effect of drawing bits from the \<open>i\<close>-th on into them.\<close>

definition free_modules :: "qr_code \<Rightarrow> (nat \<times> nat) list \<Rightarrow> (nat \<times> nat) list" where
  "free_modules q zs = filter (\<lambda>(x, y). \<not> fn_at q x y) zs"

definition bits_drawn :: "bytes \<Rightarrow> (nat \<times> nat) list \<Rightarrow> nat \<Rightarrow> qr_code \<Rightarrow> nat \<Rightarrow> qr_code \<Rightarrow> bool" where
  "bits_drawn data zs i q i' q' \<longleftrightarrow> keeps_functions q q' \<and> i' = min (8 * length data) (i + length (free_modules q zs))
    \<and> (\<forall>k x y. k < length (free_modules q zs) \<longrightarrow> i + k < 8 * length data \<longrightarrow> free_modules q zs ! k = (x, y) \<longrightarrow>
         dark_at q' x y = byte_stream data ! (i + k))
    \<and> (\<forall>x y. (x, y) \<notin> set zs \<longrightarrow> dark_at q' x y = dark_at q x y)"

lemma bits_drawn_skip:
  assumes "bits_drawn data zs i q i' q'" and "fn_at q x y \<or> i = 8 * length data"
  shows "bits_drawn data ((x, y) # zs) i q i' q'"
  using assms by (cases "fn_at q x y") (auto simp: bits_drawn_def free_modules_def)

lemma bits_drawn_put:
  assumes "bits_drawn data zs (i + 1) q1 i' q'" and "keeps_functions q q1" and "\<not> fn_at q x y" and "i < 8 * length data"
    and "(x, y) \<notin> set zs" and "\<And>x' y'. dark_at q1 x' y' = (if x' = x \<and> y' = y then byte_stream data ! i else dark_at q x' y')"
  shows "bits_drawn data ((x, y) # zs) i q i' q'"
proof -
  have same: "free_modules q1 zs = free_modules q zs" using assms(2) by (simp add: free_modules_def keeps_functionsD)
  have P: "free_modules q ((x, y) # zs) = (x, y) # free_modules q zs" using assms(3) by (simp add: free_modules_def)
  note b = assms(1) [unfolded bits_drawn_def same]
  have "dark_at q' x' y' = byte_stream data ! (i + k)"
    if "k < length (free_modules q ((x, y) # zs))" "i + k < 8 * length data" "free_modules q ((x, y) # zs) ! k = (x', y')" for k x' y'
  proof (cases k)
    case 0
    then show ?thesis using that b assms(5,6) by (auto simp: P)
  next
    case (Suc j)
    then show ?thesis using that b by (auto simp: P)
  qed
  moreover have "keeps_functions q q'" using b assms(2) keeps_trans by blast
  moreover have "dark_at q' x' y' = dark_at q x' y'" if "(x', y') \<notin> set ((x, y) # zs)" for x' y'
    using that b assms(6) [of x' y'] by auto
  ultimately show ?thesis using b unfolding bits_drawn_def by (simp add: P)
qed

lemma draw_bits_run:
  assumes "code_wf q" and "distinct zs" and "\<forall>(x, y) \<in> set zs. x < qc_size q \<and> y < qc_size q" and "i \<le> 8 * length data"
  shows "\<exists>i' q'. qr_fold (draw_codeword_bit data) zs (i, q) = Inr (i', q') \<and> bits_drawn data zs i q i' q'"
  using assms
proof (induction zs arbitrary: i q)
  case Nil
  then show ?case by (auto simp: keeps_refl bits_drawn_def free_modules_def)
next
  case (Cons z zs)
  obtain x y where z: "z = (x, y)" by (cases z)
  have xy: "x < qc_size q" "y < qc_size q" using Cons.prems(3) z by auto
  have f: "get_at (qc_isFunction q) x y = Inr (fn_at q x y)"
    using Cons.prems(1) xy get_at_square [of "qc_size q" "qc_isFunction q" x y] by (simp add: code_wf_def fn_at_def)
  have zs: "distinct zs" "\<forall>(x, y) \<in> set zs. x < qc_size q \<and> y < qc_size q" "(x, y) \<notin> set zs"
    using Cons.prems(2,3) z by auto
  show ?case
  proof (cases "fn_at q x y \<or> i = 8 * length data")
    case True
    then have "draw_codeword_bit data z (i, q) = Inr (i, q)"
      using f by (auto simp: draw_codeword_bit_def z)
    moreover obtain i' q' where "qr_fold (draw_codeword_bit data) zs (i, q) = Inr (i', q')" "bits_drawn data zs i q i' q'"
      using Cons.IH [OF Cons.prems(1) zs(1,2) Cons.prems(4)] by blast
    ultimately show ?thesis using bits_drawn_skip [OF _ True] by (auto simp: z)
  next
    case False
    then have i: "i < 8 * length data" "\<not> fn_at q x y" using Cons.prems(4) by auto
    obtain m where m: "set_at x y (byte_stream data ! i) (qc_modules q) = Inr m" "keeps_functions q (q\<lparr>qc_modules := m\<rparr>)"
      "\<And>x' y'. dark_at (q\<lparr>qc_modules := m\<rparr>) x' y' = (if x' = x \<and> y' = y then byte_stream data ! i else dark_at q x' y')"
      using set_module [OF Cons.prems(1) xy, of "byte_stream data ! i"] by metis
    have "i div 8 < length data" using i(1) by auto
    then have "draw_codeword_bit data z (i, q) = Inr (i + 1, q\<lparr>qc_modules := m\<rparr>)"
      using f i m(1) nth_byte_stream [OF i(1)] by (simp add: draw_codeword_bit_def z getBit_byte mult.commute)
    moreover obtain i' q' where "qr_fold (draw_codeword_bit data) zs (i + 1, q\<lparr>qc_modules := m\<rparr>) = Inr (i', q')"
      "bits_drawn data zs (i + 1) (q\<lparr>qc_modules := m\<rparr>) i' q'"
      using Cons.IH [of "q\<lparr>qc_modules := m\<rparr>" "i + 1"] zs(1,2) i(1) keeps_functionsD [OF m(2)] by auto
    ultimately show ?thesis
      using bits_drawn_put [OF _ m(2) i(2,1) zs(3) m(3)] by (auto simp: z)
  qed
qed

text \<open>
  A code carries codewords under an inversion: its data modules, in the reader's order, are the bits of the codewords,
  inverted where the inversion says so, and its function modules are those of its version.
\<close>

definition holds_bits :: "nat \<Rightarrow> Ecc \<Rightarrow> bytes \<Rightarrow> (nat \<Rightarrow> nat \<Rightarrow> bool) \<Rightarrow> qr_code \<Rightarrow> bool" where
  "holds_bits v ecl raw flip q \<longleftrightarrow> code_wf q \<and> qc_size q = 4 * v + 17 \<and> qc_version q = v \<and> qc_ecl q = ecl
     \<and> (\<forall>x y. x < 4 * v + 17 \<longrightarrow> y < 4 * v + 17 \<longrightarrow> fn_at q x y = fn_region v x y)
     \<and> (\<forall>k x y. k < 8 * length raw \<longrightarrow> data_positions v ! k = (x, y) \<longrightarrow> dark_at q x y = (byte_stream raw ! k \<noteq> flip x y))"

definition no_inversion :: "nat \<Rightarrow> nat \<Rightarrow> bool" where
  "no_inversion x y = False"

lemma carriesD:
  assumes "holds_bits v ecl raw flip q"
  shows "code_wf q" "qc_size q = 4 * v + 17" "qc_version q = v" "qc_ecl q = ecl"
    "x < 4 * v + 17 \<Longrightarrow> y < 4 * v + 17 \<Longrightarrow> fn_at q x y = fn_region v x y"
    "k < 8 * length raw \<Longrightarrow> data_positions v ! k = (x, y) \<Longrightarrow> dark_at q x y = (byte_stream raw ! k \<noteq> flip x y)"
  using assms by (auto simp: holds_bits_def)

lemma drawCodewords_run:
  assumes "1 \<le> v" and "v \<le> 40" and "code_wf q" and "qc_size q = 4 * v + 17" "qc_version q = v" "qc_ecl q = ecl"
    and "\<And>x y. x < 4 * v + 17 \<Longrightarrow> y < 4 * v + 17 \<Longrightarrow> fn_at q x y = fn_region v x y" and "length raw = raw_modules v div 8"
  shows "\<exists>q'. drawCodewords raw q = Inr q' \<and> holds_bits v ecl raw no_inversion q'"
proof -
  let ?n = "4 * v + 17" and ?zs = "scan_order (4 * v + 17)"
  have zs: "distinct ?zs" "\<forall>(x, y) \<in> set ?zs. x < qc_size q \<and> y < qc_size q"
    using scan_order_distinct [OF refl] scan_order_set [OF refl, of v] assms(4) by auto
  then obtain i' q' where run: "qr_fold (draw_codeword_bit raw) ?zs (0, q) = Inr (i', q')" "bits_drawn raw ?zs 0 q i' q'"
    using draw_bits_run [OF assms(3), of ?zs 0 raw] by auto
  have free: "free_modules q ?zs = data_positions v"
    unfolding free_modules_def data_positions_def
    by (rule filter_cong) (use assms(4,7) scan_order_set [OF refl, of v] in auto)
  have k: "k < length (data_positions v)" if "k < 8 * length raw" for k
    using that assms(8) data_positions_facts(3) [OF assms(1,2)] by simp
  have d: "keeps_functions q q'" "\<And>k x y. k < 8 * length raw \<Longrightarrow> data_positions v ! k = (x, y) \<Longrightarrow> dark_at q' x y = byte_stream raw ! k"
    using run(2) k unfolding bits_drawn_def free by auto
  have "drawCodewords raw q = Inr q'"
    using run(1) assms by (simp add: drawCodewords_def raw_modules_eq zigzag_is_scan_order)
  then show ?thesis
    using d assms keeps_functionsD [OF d(1)] by (simp add: holds_bits_def no_inversion_def)
qed

text \<open>The assertion at the end of the drawing: every bit has found its module.\<close>

lemma all_bits_drawn:
  assumes "1 \<le> v" and "v \<le> 40" and "bits_drawn raw (scan_order (4 * v + 17)) 0 q i' q'" and "length raw = raw_modules v div 8"
    and "qc_size q = 4 * v + 17" and "\<And>x y. x < 4 * v + 17 \<Longrightarrow> y < 4 * v + 17 \<Longrightarrow> fn_at q x y = fn_region v x y"
  shows "i' = length raw * 8"
proof -
  have "free_modules q (scan_order (4 * v + 17)) = data_positions v"
    unfolding free_modules_def data_positions_def
    by (rule filter_cong) (use assms(5,6) scan_order_set [OF refl, of v] in auto)
  then show ?thesis
    using assms(3,4) data_positions_facts(3) [OF assms(1,2)] by (simp add: bits_drawn_def)
qed

section \<open>Masks\<close>

lemma grid_points_set: "set (grid_points n) = {(x, y). x < n \<and> y < n}"
  by (auto simp: grid_points_def)

lemma grid_points_distinct: "distinct (grid_points n)"
proof -
  have "grid_points n = map (\<lambda>(y, x). (x, y)) (List.product [0..<n] [0..<n])"
    by (simp add: grid_points_def product_upt map_concat comp_def)
  then show ?thesis by (simp add: distinct_map distinct_product inj_on_def split_beta prod_eq_iff)
qed

lemma mask_fold_run:
  assumes "code_wf q" and "distinct zs" and "\<forall>(x, y) \<in> set zs. x < qc_size q \<and> y < qc_size q"
  shows "\<exists>q'. qr_fold (mask_module msk) zs q = Inr q' \<and> keeps_functions q q'
    \<and> (\<forall>x y. dark_at q' x y = (dark_at q x y \<noteq> ((x, y) \<in> set zs \<and> mask_inverts msk x y \<and> \<not> fn_at q x y)))"
  using assms
proof (induction zs arbitrary: q)
  case Nil
  then show ?case by (auto simp: keeps_refl)
next
  case (Cons z zs)
  obtain x y where z: "z = (x, y)" by (cases z)
  have xy: "x < qc_size q" "y < qc_size q" using Cons.prems(3) z by auto
  let ?b = "dark_at q x y \<noteq> (mask_inverts msk x y \<and> \<not> fn_at q x y)"
  have reads: "get_at (qc_isFunction q) x y = Inr (fn_at q x y)" "qr_module q x y = Inr (dark_at q x y)"
    using Cons.prems(1) xy get_at_square [of "qc_size q" "qc_isFunction q" x y] get_at_square [of "qc_size q" "qc_modules q" x y]
    by (simp_all add: code_wf_def fn_at_def qr_module_def dark_at_def)
  obtain m where m: "set_at x y ?b (qc_modules q) = Inr m" "keeps_functions q (q\<lparr>qc_modules := m\<rparr>)"
    "\<And>x' y'. dark_at (q\<lparr>qc_modules := m\<rparr>) x' y' = (if x' = x \<and> y' = y then ?b else dark_at q x' y')"
    using set_module [OF Cons.prems(1) xy, of ?b] by metis
  let ?q1 = "q\<lparr>qc_modules := m\<rparr>"
  have "mask_module msk z q = Inr ?q1" using reads m(1) by (simp add: mask_module_def z)
  moreover obtain q' where q': "qr_fold (mask_module msk) zs ?q1 = Inr q'" "keeps_functions ?q1 q'"
    "\<And>x y. dark_at q' x y = (dark_at ?q1 x y \<noteq> ((x, y) \<in> set zs \<and> mask_inverts msk x y \<and> \<not> fn_at ?q1 x y))"
    using Cons.IH [of ?q1] Cons.prems(2,3) keeps_functionsD [OF m(2)] by auto
  moreover have "dark_at q' x' y' = (dark_at q x' y' \<noteq> ((x', y') \<in> set (z # zs) \<and> mask_inverts msk x' y' \<and> \<not> fn_at q x' y'))" for x' y'
    using q'(3) [of x' y'] m(3) [of x' y'] keeps_functionsD [OF m(2), of x' y'] Cons.prems(2) by (auto simp: z)
  ultimately show ?case using keeps_trans [OF m(2) q'(2)] by auto
qed

lemma applyMask_run:
  assumes "code_wf q" and "0 \<le> msk" and "msk \<le> 7"
  shows "\<exists>q'. applyMask msk q = Inr q' \<and> keeps_functions q q'
    \<and> (\<forall>x y. x < qc_size q \<longrightarrow> y < qc_size q \<longrightarrow> dark_at q' x y = (dark_at q x y \<noteq> (mask_inverts msk x y \<and> \<not> fn_at q x y)))"
  using mask_fold_run [OF assms(1) grid_points_distinct, of "qc_size q" msk] assms(2,3)
  by (auto simp: applyMask_def grid_points_set)

text \<open>A mask on top of an inversion.\<close>

definition plus_mask :: "(nat \<Rightarrow> nat \<Rightarrow> bool) \<Rightarrow> int \<Rightarrow> nat \<Rightarrow> nat \<Rightarrow> bool" where
  "plus_mask flip msk x y \<longleftrightarrow> flip x y \<noteq> mask_inverts msk x y"

lemma plus_mask_twice: "plus_mask (plus_mask flip msk) msk = flip"
  by (auto simp: plus_mask_def fun_eq_iff)

lemma data_position_range:
  assumes "1 \<le> v" and "v \<le> 40" and "length raw = raw_modules v div 8" and "k < 8 * length raw" and "data_positions v ! k = (x, y)"
  shows "x < 4 * v + 17" "y < 4 * v + 17" "\<not> fn_region v x y"
proof -
  have "k < length (data_positions v)" using assms(3,4) data_positions_facts(3) [OF assms(1,2)] by simp
  then have "(x, y) \<in> set (data_positions v)" using assms(5) nth_mem by metis
  then show "x < 4 * v + 17" "y < 4 * v + 17" "\<not> fn_region v x y"
    unfolding data_positions_facts(2) [OF assms(1,2)] by auto
qed

lemma mask_carries:
  assumes "1 \<le> v" "v \<le> 40" "length raw = raw_modules v div 8" and "holds_bits v ecl raw flip q" and "0 \<le> msk" "msk \<le> 7"
  shows "\<exists>q'. applyMask msk q = Inr q' \<and> holds_bits v ecl raw (plus_mask flip msk) q'"
proof -
  note c = carriesD [OF assms(4)]
  obtain q' where q': "applyMask msk q = Inr q'" "keeps_functions q q'"
    "\<And>x y. x < qc_size q \<Longrightarrow> y < qc_size q \<Longrightarrow> dark_at q' x y = (dark_at q x y \<noteq> (mask_inverts msk x y \<and> \<not> fn_at q x y))"
    using applyMask_run [OF c(1) assms(5,6)] by auto
  have "dark_at q' x y = (byte_stream raw ! k \<noteq> plus_mask flip msk x y)" if "k < 8 * length raw" "data_positions v ! k = (x, y)" for k x y
    using data_position_range [OF assms(1-3) that] c(2,5,6) q'(3) that by (auto simp: plus_mask_def)
  then show ?thesis
    using q'(1) c(2-5) keeps_functionsD [OF q'(2)] by (auto simp: holds_bits_def)
qed

lemma format_carries:
  assumes "1 \<le> v" "v \<le> 40" "length raw = raw_modules v div 8" and "holds_bits v ecl raw flip q"
  shows "\<exists>q'. drawFormatBits msk q = Inr q' \<and> holds_bits v ecl raw flip q' \<and> drawn_by (format_pattern (4 * v + 17) (format_bits ecl msk)) q q'"
proof -
  note c = carriesD [OF assms(4)]
  let ?ps = "format_pattern (4 * v + 17) (format_bits ecl msk)"
  have n: "21 \<le> 4 * v + 17" using assms(1) by simp
  obtain q' where q': "drawFormatBits msk q = Inr q'" "drawn_by ?ps q q'"
    using draw_run [OF c(1), of ?ps] format_on_grid [OF n] c(2,4) by (auto simp: drawFormatBits_def)
  have inside: "fn_region v x y" if "drawn_at ?ps x y" "x < 4 * v + 17" "y < 4 * v + 17" for x y
  proof -
    have "x \<le> 8 \<and> y \<le> 8 \<or> 4 * v + 17 \<le> x + 8 \<and> y \<le> 8 \<or> x \<le> 8 \<and> 4 * v + 17 \<le> y + 8"
      using that(1) unfolding format_at [OF n that(2,3)] by auto
    then show ?thesis unfolding fn_region_def Let_def by blast
  qed
  have fn: "fn_at q' x y = fn_region v x y" if "x < 4 * v + 17" "y < 4 * v + 17" for x y
    using q'(2) that inside [of x y] c(2,5) unfolding drawn_by_def by auto
  have dark: "dark_at q' x y = (byte_stream raw ! k \<noteq> flip x y)" if "k < 8 * length raw" "data_positions v ! k = (x, y)" for k x y
  proof -
    note r = data_position_range [OF assms(1-3) that]
    have "\<not> drawn_at ?ps x y" using inside r by blast
    then have "dark_at q' x y = dark_at q x y" using q'(2) r c(2) unfolding drawn_by_def by auto
    then show ?thesis using c(6) that by simp
  qed
  have "holds_bits v ecl raw flip q'"
    unfolding holds_bits_def using drawnD [OF q'(2)] c(2-4) fn dark by simp
  then show ?thesis using q' by blast
qed

section \<open>Penalties\<close>

lemma count_range: "0 \<le> finderPenaltyCountPatterns h" "finderPenaltyCountPatterns h \<le> 2"
  by (simp_all add: finderPenaltyCountPatterns_def Let_def)

lemma run_step_bound:
  assumes "run_step sz c (r, col, n, h) = (r', col', n', h')"
  shows "r' \<le> r + 80"
  using assms count_range [of "finderPenaltyAddHistory sz n h"]
  by (auto simp: run_step_def PENALTY_N1_def PENALTY_N3_def Let_def split: if_splits)

lemma line_penalty_bound: "line_penalty sz colors r \<le> r + 80 * int (length colors) + 80"
proof -
  have "fst (fold (run_step sz) colors (r, col, n, h)) \<le> r + 80 * int (length colors)" for col n h
  proof (induction colors arbitrary: r col n h)
    case (Cons c cs)
    obtain r' col' n' h' where s: "run_step sz c (r, col, n, h) = (r', col', n', h')" by (cases "run_step sz c (r, col, n, h)")
    show ?case using Cons.IH [of r' col' n' h'] run_step_bound [OF s] by (simp add: s)
  qed simp
  moreover obtain r' col' n' h' where f: "fold (run_step sz) colors (r, False, 0, replicate 7 0) = (r', col', n', h')"
    by (cases "fold (run_step sz) colors (r, False, 0, replicate 7 0)")
  ultimately have "r' \<le> r + 80 * int (length colors)" by (metis fst_conv)
  moreover have "finderPenaltyTerminateAndCount sz col' n' h' \<le> 2"
    unfolding finderPenaltyTerminateAndCount_def Let_def by (simp add: split_beta count_range)
  ultimately show ?thesis unfolding line_penalty_def f Let_def PENALTY_N3_def by simp
qed

lemma line_fold_bound:
  assumes "\<And>i. i \<in> set is \<Longrightarrow> \<exists>colors. line i = Inr colors \<and> length colors = n"
  shows "\<exists>r'. qr_fold (\<lambda>i result. qr_bind (line i) (\<lambda>colors. Inr (line_penalty n colors result))) is r = Inr r'
    \<and> r' \<le> r + int (length is) * (80 * int n + 80)"
  using assms
proof (induction "is" arbitrary: r)
  case (Cons i "is")
  obtain colors where c: "line i = Inr colors" "length colors = n" using Cons.prems by auto
  obtain r' where "qr_fold (\<lambda>i result. qr_bind (line i) (\<lambda>colors. Inr (line_penalty n colors result))) is (line_penalty n colors r) = Inr r'"
    "r' \<le> line_penalty n colors r + int (length is) * (80 * int n + 80)"
    using Cons.IH [of "line_penalty n colors r"] Cons.prems by auto
  then show ?case
    using c line_penalty_bound [of n colors r] by (auto simp: algebra_simps)
qed simp

lemma block_fold_bound:
  assumes "code_wf q" and "\<forall>(x, y) \<in> set zs. x + 1 < qc_size q \<and> y + 1 < qc_size q"
  shows "\<exists>r'. qr_fold (block_penalty q) zs r = Inr r' \<and> r' \<le> r + 3 * int (length zs)"
  using assms(2)
proof (induction zs arbitrary: r)
  case (Cons z zs)
  obtain x y where z: "z = (x, y)" by (cases z)
  have at: "qr_module q a b = Inr (dark_at q a b)" if "a < qc_size q" "b < qc_size q" for a b
    using assms(1) that get_at_square [of "qc_size q" "qc_modules q" a b] by (simp add: code_wf_def qr_module_def dark_at_def)
  obtain r1 where r1: "block_penalty q z r = Inr r1" "r1 \<le> r + 3"
    using Cons.prems by (auto simp: block_penalty_def z at PENALTY_N2_def)
  obtain r' where "qr_fold (block_penalty q) zs r1 = Inr r'" "r' \<le> r1 + 3 * int (length zs)"
    using Cons.IH [of r1] Cons.prems by auto
  then show ?case using r1 by auto
qed simp

lemma dark_count:
  assumes "square_grid n grid"
  shows "length (filter id (concat grid)) \<le> n * n"
proof -
  have "length (filter id (concat grid)) \<le> length (concat grid)" by (rule length_filter_le)
  also have "\<dots> = n * n" using length_concat_uniform [of grid n] assms by (simp add: square_grid_def)
  finally show ?thesis .
qed

lemma getPenaltyScore_run:
  assumes "code_wf q" and "21 \<le> qc_size q" and "qc_size q \<le> 177"
  shows "\<exists>p. getPenaltyScore q = Inr p \<and> p < 2 ^ 31 - 1"
proof -
  let ?n = "qc_size q"
  have at: "qr_module q a b = Inr (dark_at q a b)" if "a < ?n" "b < ?n" for a b
    using assms(1) that get_at_square [of ?n "qc_modules q" a b] by (simp add: code_wf_def qr_module_def dark_at_def)
  have row: "\<exists>colors. qr_map (\<lambda>x. qr_module q x y) [0..<?n] = Inr colors \<and> length colors = ?n" if "y \<in> set [0..<?n]" for y
    using qr_map_Inr [of "[0..<?n]" "\<lambda>x. qr_module q x y" "\<lambda>x. dark_at q x y"] at that by auto
  have col: "\<exists>colors. qr_map (\<lambda>y. qr_module q x y) [0..<?n] = Inr colors \<and> length colors = ?n" if "x \<in> set [0..<?n]" for x
    using qr_map_Inr [of "[0..<?n]" "\<lambda>y. qr_module q x y" "\<lambda>y. dark_at q x y"] at that by auto
  let ?line = "80 * int ?n + 80"
  obtain r1 where r1: "qr_fold (\<lambda>y result. qr_bind (qr_map (\<lambda>x. qr_module q x y) [0..<?n]) (\<lambda>colors. Inr (line_penalty ?n colors result))) [0..<?n] 0 = Inr r1"
    "r1 \<le> int ?n * ?line"
    using line_fold_bound [of "[0..<?n]" "\<lambda>y. qr_map (\<lambda>x. qr_module q x y) [0..<?n]" ?n 0] row by auto
  obtain r2 where r2: "qr_fold (\<lambda>x result. qr_bind (qr_map (\<lambda>y. qr_module q x y) [0..<?n]) (\<lambda>colors. Inr (line_penalty ?n colors result))) [0..<?n] r1 = Inr r2"
    "r2 \<le> r1 + int ?n * ?line"
    using line_fold_bound [of "[0..<?n]" "\<lambda>x. qr_map (\<lambda>y. qr_module q x y) [0..<?n]" ?n r1] col by auto
  have len: "length (grid_points (?n - 1)) \<le> ?n * ?n"
  proof -
    have "length (grid_points m) = m * m" for m
      unfolding grid_points_def by (subst length_concat_uniform [where w = m]) auto
    then show ?thesis by (simp add: mult_le_mono)
  qed
  obtain r3 where r3: "qr_fold (block_penalty q) (grid_points (?n - 1)) r2 = Inr r3" "r3 \<le> r2 + 3 * (int ?n * int ?n)"
  proof -
    have inside: "\<forall>(x, y) \<in> set (grid_points (?n - 1)). x + 1 < ?n \<and> y + 1 < ?n"
      unfolding grid_points_set by auto
    obtain r3 where "qr_fold (block_penalty q) (grid_points (?n - 1)) r2 = Inr r3" "r3 \<le> r2 + 3 * int (length (grid_points (?n - 1)))"
      using block_fold_bound [OF assms(1) inside, of r2] by blast
    moreover have "int (length (grid_points (?n - 1))) \<le> int ?n * int ?n" using len by (metis of_nat_le_iff of_nat_mult)
    ultimately show thesis using that by force
  qed
  let ?dark = "int (length (filter id (concat (qc_modules q))))" and ?total = "int ?n * int ?n"
  let ?k = "(\<bar>?dark * 20 - ?total * 10\<bar> + ?total - 1) div ?total - 1"
  have total: "0 < ?total" using assms(2) by simp
  have "?dark \<le> ?total"
    using dark_count [of ?n "qc_modules q"] assms(1) by (metis code_wf_def of_nat_le_iff of_nat_mult)
  then have "\<bar>?dark * 20 - ?total * 10\<bar> + ?total - 1 \<le> 11 * ?total" by linarith
  then have "(\<bar>?dark * 20 - ?total * 10\<bar> + ?total - 1) div ?total \<le> 11"
    using total by (metis zdiv_mono1 nonzero_mult_div_cancel_right less_irrefl)
  then have k: "?k * PENALTY_N4 \<le> 100" by (simp add: PENALTY_N4_def)
  have "int ?n * ?line \<le> 177 * (80 * 177 + 80)" "?total \<le> 177 * 177"
    using assms(3) by (intro mult_mono; simp)+
  then have "r3 + ?k * PENALTY_N4 < 2 ^ 31 - 1" using r1(2) r2(2) r3(2) k by simp
  moreover have "getPenaltyScore q = Inr (r3 + ?k * PENALTY_N4)"
    using r1(1) r2(1) r3(1) by (simp add: getPenaltyScore_def Let_def)
  ultimately show ?thesis by blast
qed

end
