(* ===== verification/QrMask.thy ===== *)
theory QrMask
  imports QrDrawing
begin

text \<open>
  The choice of the mask: trying the eight masks leaves the codewords in place, always settles on one of the eight, and
  the code built with it is the code the constructor would have built with that mask, whose penalty no other mask beats.
\<close>

section \<open>Codes that agree but for some modules\<close>

definition agree_but :: "(nat \<Rightarrow> nat \<Rightarrow> bool) \<Rightarrow> qr_code \<Rightarrow> qr_code \<Rightarrow> bool" where
  "agree_but but q1 q2 \<longleftrightarrow> code_wf q1 \<and> code_wf q2 \<and> qc_size q2 = qc_size q1 \<and> qc_version q2 = qc_version q1 \<and> qc_ecl q2 = qc_ecl q1
     \<and> qc_isFunction q2 = qc_isFunction q1
     \<and> (\<forall>x y. x < qc_size q1 \<longrightarrow> y < qc_size q1 \<longrightarrow> \<not> but x y \<longrightarrow> dark_at q2 x y = dark_at q1 x y)"

definition no_module :: "nat \<Rightarrow> nat \<Rightarrow> bool" where "no_module x y = False"

definition on_format :: "nat \<Rightarrow> nat \<Rightarrow> nat \<Rightarrow> bool" where
  "on_format n x y \<longleftrightarrow> x = 8 \<and> (y \<le> 5 \<or> y = 7 \<or> y = 8 \<or> n \<le> y + 8) \<or> y = 8 \<and> (x \<le> 5 \<or> x = 7 \<or> n \<le> x + 8)"

lemma agree_refl: "code_wf q \<Longrightarrow> agree_but but q q"
  by (simp add: agree_but_def)

lemma agree_trans: "agree_but but q1 q2 \<Longrightarrow> agree_but but q2 q3 \<Longrightarrow> agree_but but q1 q3"
  by (simp add: agree_but_def)

lemma agree_sym: "agree_but but q1 q2 \<Longrightarrow> agree_but but q2 q1"
  by (auto simp: agree_but_def)

lemma square_eqI:
  assumes "square_grid n g" and "square_grid n h" and "\<And>x y. x < n \<Longrightarrow> y < n \<Longrightarrow> g ! y ! x = h ! y ! x"
  shows "g = h"
proof (rule nth_equalityI)
  show "length g = length h" using assms(1,2) by (simp add: square_grid_def)
  fix y assume "y < length g"
  then have y: "y < n" using assms(1) by (simp add: square_grid_def)
  show "g ! y = h ! y"
    by (rule nth_equalityI) (use squareD(1) [OF assms(1) y] squareD(1) [OF assms(2) y] assms(3) y in auto)
qed

lemma agree_modules: "agree_but no_module q1 q2 \<Longrightarrow> qc_modules q1 = qc_modules q2"
  by (rule square_eqI [of "qc_size q1"]) (auto simp: agree_but_def no_module_def code_wf_def dark_at_def)

lemma agree_penalty: "agree_but no_module q1 q2 \<Longrightarrow> getPenaltyScore q2 = getPenaltyScore q1"
proof -
  assume a: "agree_but no_module q1 q2"
  then have m: "qc_modules q2 = qc_modules q1" "qc_size q2 = qc_size q1" using agree_modules [OF a] by (simp_all add: agree_but_def)
  then have "qr_module q2 = qr_module q1" "block_penalty q2 = block_penalty q1"
    by (simp_all add: qr_module_def fun_eq_iff block_penalty_def)
  then show ?thesis unfolding getPenaltyScore_def m by simp
qed

section \<open>Finishing a code with a mask\<close>

definition finish_with :: "int \<Rightarrow> qr_code \<Rightarrow> qr_code qr_result" where
  "finish_with msk q = qr_bind (applyMask msk q) (drawFormatBits msk)"

lemma set_function_agree:
  assumes "agree_but but q1 q2" and "0 \<le> x" "x < int (qc_size q1)" "0 \<le> y" "y < int (qc_size q1)"
    and "setFunctionModule x y d q1 = Inr q1'" and "setFunctionModule x y d q2 = Inr q2'"
  shows "agree_but (\<lambda>u w. but u w \<and> \<not> (int u = x \<and> int w = y)) q1' q2'"
proof -
  have b: "nat x < qc_size q1" "nat y < qc_size q1" using assms by linarith+
  have sq: "square_grid (qc_size q1) (qc_modules q1)" "square_grid (qc_size q1) (qc_isFunction q1)" "square_grid (qc_size q1) (qc_modules q2)"
    "qc_isFunction q2 = qc_isFunction q1"
    using assms(1) by (auto simp: agree_but_def code_wf_def)
  have q: "q1' = q1\<lparr>qc_modules := (qc_modules q1)[nat y := (qc_modules q1 ! nat y)[nat x := d]],
      qc_isFunction := (qc_isFunction q1)[nat y := (qc_isFunction q1 ! nat y)[nat x := True]]\<rparr>"
    "q2' = q2\<lparr>qc_modules := (qc_modules q2)[nat y := (qc_modules q2 ! nat y)[nat x := d]],
      qc_isFunction := (qc_isFunction q1)[nat y := (qc_isFunction q1 ! nat y)[nat x := True]]\<rparr>"
    using assms(2-7) sq set_at_square [OF sq(1) b] set_at_square [OF sq(2) b] set_at_square [OF sq(3) b]
    by (auto simp: setFunctionModule_def)
  show ?thesis
    unfolding q using assms(1,2,4) sq square_update [OF sq(1) b] square_update [OF sq(2) b] square_update [OF sq(3) b]
    by (auto simp: agree_but_def code_wf_def dark_at_def)
qed

lemma draw_agree:
  assumes "agree_but but q1 q2" and "on_grid (qc_size q1) ps" and "draw_modules ps q1 = Inr q1'" and "draw_modules ps q2 = Inr q2'"
  shows "agree_but (\<lambda>x y. but x y \<and> \<not> drawn_at ps x y) q1' q2'"
  using assms
proof (induction ps arbitrary: q1 q2 but)
  case Nil
  then show ?case by (simp add: draw_modules_def drawn_at_def agree_but_def)
next
  case (Cons p ps)
  obtain x y d where p: "p = (x, y, d)" by (cases p) auto
  obtain a1 a2 where a: "setFunctionModule x y d q1 = Inr a1" "setFunctionModule x y d q2 = Inr a2"
    "draw_modules ps a1 = Inr q1'" "draw_modules ps a2 = Inr q2'"
    using Cons.prems(3,4) by (auto simp: draw_modules_def p)
  have b: "0 \<le> x" "x < int (qc_size q1)" "0 \<le> y" "y < int (qc_size q1)" "on_grid (qc_size q1) ps"
    using Cons.prems(2) by (auto simp: on_grid_def p)
  have s: "agree_but (\<lambda>u w. but u w \<and> \<not> (int u = x \<and> int w = y)) a1 a2"
    by (rule set_function_agree [OF Cons.prems(1) b(1-4) a(1,2)])
  have "code_wf q1" using Cons.prems(1) by (simp add: agree_but_def)
  then have "qc_size a1 = qc_size q1"
    using setFunctionModule_run [OF _ b(1-4), of d] a(1) drawnD by fastforce
  then have "agree_but (\<lambda>u w. (but u w \<and> \<not> (int u = x \<and> int w = y)) \<and> \<not> drawn_at ps u w) q1' q2'"
    using Cons.IH [OF s _ a(3,4)] b(5) by simp
  moreover have "(but u w \<and> \<not> (int u = x \<and> int w = y)) \<and> \<not> drawn_at ps u w \<longleftrightarrow> but u w \<and> \<not> drawn_at (p # ps) u w" for u w
    by (auto simp: drawn_at_Cons p)
  ultimately show ?case by simp
qed

lemma mask_agree:
  assumes "agree_but but q1 q2" and "0 \<le> msk" "msk \<le> 7" and "applyMask msk q1 = Inr q1'" and "applyMask msk q2 = Inr q2'"
  shows "agree_but but q1' q2'"
proof -
  have wf: "code_wf q1" "code_wf q2" using assms(1) by (simp_all add: agree_but_def)
  have fn: "fn_at q2 x y = fn_at q1 x y" for x y using assms(1) by (simp add: agree_but_def fn_at_def)
  have r: "keeps_functions q1 q1'" "keeps_functions q2 q2'"
    "\<And>x y. x < qc_size q1 \<Longrightarrow> y < qc_size q1 \<Longrightarrow> dark_at q1' x y = (dark_at q1 x y \<noteq> (mask_inverts msk x y \<and> \<not> fn_at q1 x y))"
    "\<And>x y. x < qc_size q2 \<Longrightarrow> y < qc_size q2 \<Longrightarrow> dark_at q2' x y = (dark_at q2 x y \<noteq> (mask_inverts msk x y \<and> \<not> fn_at q2 x y))"
    using applyMask_run [OF wf(1) assms(2,3)] applyMask_run [OF wf(2) assms(2,3)] assms(4,5) by auto
  show ?thesis
    using assms(1) r fn by (auto simp: agree_but_def keeps_functions_def same_code_def)
qed

lemma finish_agree:
  assumes "agree_but (on_format (qc_size q1)) q1 q2" and "21 \<le> qc_size q1" and "0 \<le> msk" "msk \<le> 7"
    and "finish_with msk q1 = Inr q1'" and "finish_with msk q2 = Inr q2'"
  shows "agree_but no_module q1' q2'"
proof -
  obtain a1 a2 where a: "applyMask msk q1 = Inr a1" "applyMask msk q2 = Inr a2"
    "drawFormatBits msk a1 = Inr q1'" "drawFormatBits msk a2 = Inr q2'"
    using assms(5,6) by (auto simp: finish_with_def)
  have s: "agree_but (on_format (qc_size q1)) a1 a2" by (rule mask_agree [OF assms(1,3,4) a(1,2)])
  have "code_wf q1" using assms(1) by (simp add: agree_but_def)
  then have n: "qc_size a1 = qc_size q1"
    using applyMask_run [OF _ assms(3,4), of q1] a(1) keeps_functionsD by fastforce
  let ?ps = "format_pattern (qc_size a1) (format_bits (qc_ecl a1) msk)"
  have "qc_size a2 = qc_size a1" "qc_ecl a2 = qc_ecl a1" using s by (simp_all add: agree_but_def)
  then have "draw_modules ?ps a1 = Inr q1'" "draw_modules ?ps a2 = Inr q2'" using a(3,4) by (simp_all add: drawFormatBits_def)
  from draw_agree [OF s _ this] have r: "agree_but (\<lambda>x y. on_format (qc_size q1) x y \<and> \<not> drawn_at ?ps x y) q1' q2'"
    using format_on_grid assms(2) n by simp
  have "drawn_by ?ps a1 q1'"
    using draw_run [of a1 ?ps] s format_on_grid assms(2) n \<open>draw_modules ?ps a1 = Inr q1'\<close> by (auto simp: agree_but_def)
  then have n': "qc_size q1' = qc_size q1" using drawnD n by metis
  have "on_format (qc_size q1) x y \<longleftrightarrow> drawn_at ?ps x y" if "x < qc_size q1" "y < qc_size q1" for x y
    using format_at [of "qc_size a1" x y] that assms(2) n by (simp add: on_format_def)
  then show ?thesis using r n' unfolding agree_but_def no_module_def by auto
qed

section \<open>Trying the masks\<close>

lemma finish_carries:
  assumes "1 \<le> v" "v \<le> 40" "length raw = raw_modules v div 8" and "holds_bits v ecl raw no_inversion q" and "0 \<le> msk" "msk \<le> 7"
  shows "\<exists>q'. finish_with msk q = Inr q' \<and> holds_bits v ecl raw (mask_inverts msk) q'
    \<and> (\<exists>q1. drawn_by (format_pattern (4 * v + 17) (format_bits ecl msk)) q1 q' \<and> qc_size q1 = 4 * v + 17)"
proof -
  obtain q1 where q1: "applyMask msk q = Inr q1" "holds_bits v ecl raw (plus_mask no_inversion msk) q1"
    using mask_carries [OF assms] by blast
  have "plus_mask no_inversion msk = mask_inverts msk" by (simp add: plus_mask_def no_inversion_def fun_eq_iff)
  then show ?thesis
    using format_carries [OF assms(1-3) q1(2), of msk] q1 carriesD(2) [OF q1(2)] by (auto simp: finish_with_def)
qed

text \<open>The penalty of a code finished with a mask.\<close>

definition mask_penalty :: "qr_code \<Rightarrow> int \<Rightarrow> int qr_result" where
  "mask_penalty q msk = qr_bind (finish_with msk q) getPenaltyScore"

lemma mask_penalty_run:
  assumes "1 \<le> v" "v \<le> 40" "length raw = raw_modules v div 8" and "holds_bits v ecl raw no_inversion q" and "0 \<le> msk" "msk \<le> 7"
  shows "\<exists>p. mask_penalty q msk = Inr p \<and> p < 2 ^ 31 - 1"
proof -
  obtain q' where q': "finish_with msk q = Inr q'" "holds_bits v ecl raw (mask_inverts msk) q'" using finish_carries [OF assms] by blast
  have "21 \<le> qc_size q'" "qc_size q' \<le> 177" "code_wf q'" using carriesD [OF q'(2)] assms(1,2) by simp_all
  then show ?thesis using getPenaltyScore_run q'(1) by (simp add: mask_penalty_def)
qed

text \<open>One turn: the code carries the same codewords as before and differs in the format bits only.\<close>

lemma try_mask_run:
  assumes "1 \<le> v" "v \<le> 40" "length raw = raw_modules v div 8" and "holds_bits v ecl raw no_inversion q" and "i < 8"
    and "mask_penalty q (int i) = Inr p"
  shows "\<exists>q'. try_mask i (q, msk, best) = Inr (if p < best then (q', int i, p) else (q', msk, best))
    \<and> holds_bits v ecl raw no_inversion q' \<and> agree_but (on_format (4 * v + 17)) q q'"
proof -
  have i: "0 \<le> int i" "int i \<le> 7" using assms(5) by simp_all
  note c = carriesD [OF assms(4)]
  obtain q1 where q1: "applyMask (int i) q = Inr q1" "holds_bits v ecl raw (plus_mask no_inversion (int i)) q1"
    using mask_carries [OF assms(1-4) i] by blast
  obtain q2 where q2: "drawFormatBits (int i) q1 = Inr q2" "holds_bits v ecl raw (plus_mask no_inversion (int i)) q2"
    "drawn_by (format_pattern (4 * v + 17) (format_bits ecl (int i))) q1 q2"
    using format_carries [OF assms(1-3) q1(2)] by blast
  obtain q3 where q3: "applyMask (int i) q2 = Inr q3" "holds_bits v ecl raw (plus_mask (plus_mask no_inversion (int i)) (int i)) q3"
    using mask_carries [OF assms(1-3) q2(2) i] by blast
  have c3: "holds_bits v ecl raw no_inversion q3" using q3(2) by (simp add: plus_mask_twice)
  have "getPenaltyScore q2 = Inr p"
    using assms(6) q1(1) q2(1) by (simp add: mask_penalty_def finish_with_def)
  then have run: "try_mask i (q, msk, best) = Inr (if p < best then (q3, int i, p) else (q3, msk, best))"
    using q1(1) q2(1) q3(1) by (simp add: try_mask_def)
  have m1: "keeps_functions q q1" "\<And>x y. x < qc_size q \<Longrightarrow> y < qc_size q \<Longrightarrow> dark_at q1 x y = (dark_at q x y \<noteq> (mask_inverts (int i) x y \<and> \<not> fn_at q x y))"
    using applyMask_run [OF c(1) i] q1(1) by auto
  have m3: "keeps_functions q2 q3" "\<And>x y. x < qc_size q2 \<Longrightarrow> y < qc_size q2 \<Longrightarrow> dark_at q3 x y = (dark_at q2 x y \<noteq> (mask_inverts (int i) x y \<and> \<not> fn_at q2 x y))"
    using applyMask_run [OF carriesD(1) [OF q2(2)] i] q3(1) by auto
  have n: "21 \<le> 4 * v + 17" using assms(1) by simp
  note sizes = carriesD(2) [OF q1(2)] carriesD(2) [OF q2(2)] carriesD(2) [OF c3]
  have d: "dark_at q3 x y = dark_at q x y" if xy: "x < 4 * v + 17" "y < 4 * v + 17" "\<not> on_format (4 * v + 17) x y" for x y
  proof -
    have "\<not> drawn_at (format_pattern (4 * v + 17) (format_bits ecl (int i))) x y"
      using format_at [OF n xy(1,2)] xy(3) by (simp add: on_format_def)
    then have "dark_at q2 x y = dark_at q1 x y" using q2(3) xy(1,2) sizes(1) by (simp add: drawn_by_def)
    moreover have "fn_at q2 x y = fn_at q x y" using carriesD(5) [OF q2(2) xy(1,2)] c(5) [OF xy(1,2)] by simp
    ultimately show ?thesis using m1(2) m3(2) xy c(2) sizes by auto
  qed
  have "qc_isFunction q3 = qc_isFunction q"
    by (rule square_eqI [of "4 * v + 17"])
      (use carriesD [OF c3] c in \<open>auto simp: code_wf_def fn_at_def\<close>)
  then have "agree_but (on_format (4 * v + 17)) q q3"
    using d c carriesD [OF c3] by (simp add: agree_but_def)
  then show ?thesis using run c3 by blast
qed

text \<open>The penalties do not depend on the format bits that are overwritten.\<close>

lemma mask_penalty_agree:
  assumes "1 \<le> v" "v \<le> 40" "length raw = raw_modules v div 8" and "holds_bits v ecl raw no_inversion q" "holds_bits v ecl raw no_inversion q'"
    and "agree_but (on_format (4 * v + 17)) q q'" and "0 \<le> msk" "msk \<le> 7"
  shows "mask_penalty q' msk = mask_penalty q msk"
proof -
  obtain a b where ab: "finish_with msk q = Inr a" "finish_with msk q' = Inr b"
    using finish_carries [OF assms(1-4,7,8)] finish_carries [OF assms(1-3,5,7,8)] by blast
  have "agree_but no_module a b"
    by (rule finish_agree [of q q' msk]) (use assms carriesD(2) [OF assms(4)] ab in auto)
  then show ?thesis using ab agree_penalty by (simp add: mask_penalty_def)
qed

definition best_so_far :: "qr_code \<Rightarrow> nat \<Rightarrow> int \<Rightarrow> int \<Rightarrow> bool" where
  "best_so_far q k msk best \<longleftrightarrow> 0 \<le> msk \<and> msk < int k \<and> mask_penalty q msk = Inr best
     \<and> (\<forall>j < k. \<forall>p. mask_penalty q (int j) = Inr p \<longrightarrow> best \<le> p)"

lemma choose_mask_run:
  assumes "1 \<le> v" "v \<le> 40" "length raw = raw_modules v div 8" and "holds_bits v ecl raw no_inversion q"
  shows "\<exists>q' msk best. choose_mask pf (- 1) q = Inr (q', msk) \<and> best_so_far q 8 msk best
    \<and> holds_bits v ecl raw no_inversion q' \<and> agree_but (on_format (4 * v + 17)) q q'"
proof -
  have "k \<le> 8 \<Longrightarrow> \<exists>q' msk best. qr_fold try_mask [0..<k] (q, - 1, LONG_MAX pf) = Inr (q', msk, best)
      \<and> holds_bits v ecl raw no_inversion q' \<and> agree_but (on_format (4 * v + 17)) q q'
      \<and> (if k = 0 then best = LONG_MAX pf else best_so_far q k msk best)" for k
  proof (induction k)
    case 0
    then show ?case using assms(4) agree_refl carriesD(1) [OF assms(4)] by auto
  next
    case (Suc k)
    then obtain q1 msk best where ih: "qr_fold try_mask [0..<k] (q, - 1, LONG_MAX pf) = Inr (q1, msk, best)"
      "holds_bits v ecl raw no_inversion q1" "agree_but (on_format (4 * v + 17)) q q1"
      "if k = 0 then best = LONG_MAX pf else best_so_far q k msk best"
      by auto
    have k: "k < 8" "0 \<le> int k" "int k \<le> 7" using Suc.prems by auto
    obtain p where p: "mask_penalty q (int k) = Inr p" "p < 2 ^ 31 - 1" using mask_penalty_run [OF assms k(2,3)] by blast
    have "mask_penalty q1 (int k) = Inr p" using mask_penalty_agree [OF assms ih(2,3) k(2,3)] p(1) by simp
    then obtain q2 where q2: "try_mask k (q1, msk, best) = Inr (if p < best then (q2, int k, p) else (q2, msk, best))"
      "holds_bits v ecl raw no_inversion q2" "agree_but (on_format (4 * v + 17)) q1 q2"
      using try_mask_run [OF assms(1-3) ih(2) k(1)] by blast
    have "k = 0 \<Longrightarrow> p < best" using ih(4) p(2) by (simp add: LONG_MAX_def split: if_splits)
    then have "if p < best then best_so_far q (Suc k) (int k) p else best_so_far q (Suc k) msk best"
      using ih(4) p(1) by (cases "k = 0") (auto simp: best_so_far_def less_Suc_eq)
    moreover have "qr_fold try_mask [0..<Suc k] (q, - 1, LONG_MAX pf) = Inr (if p < best then (q2, int k, p) else (q2, msk, best))"
      using ih(1) q2(1) by (simp add: qr_fold_append)
    ultimately show ?case
      using q2(2) agree_trans [OF ih(3) q2(3)] by (cases "p < best") auto
  qed
  from this [of 8] show ?thesis by (auto simp: choose_mask_def)
qed

end
