(* ===== verification/QrScan.thy ===== *)
theory QrScan
  imports QrMask
begin

text \<open>
  A reader of QR codes and the round trip: what \<open>encodeText\<close> draws is read back as the text. The reader takes the level
  and the mask from the format bits, the codewords from the modules outside the function patterns, the data from the
  interleaved blocks and the text from the segments.
\<close>

section \<open>The reader\<close>

fun mask_condition :: "nat \<Rightarrow> nat \<Rightarrow> nat \<Rightarrow> bool" where
  "mask_condition msk i j =
     (if msk = 0 then even (i + j)
      else if msk = 1 then even j
      else if msk = 2 then 3 dvd i
      else if msk = 3 then 3 dvd (i + j)
      else if msk = 4 then even (j div 2 + i div 3)
      else if msk = 5 then i * j mod 2 + i * j mod 3 = 0
      else if msk = 6 then even (i * j mod 2 + i * j mod 3)
      else even ((i + j) mod 2 + i * j mod 3))"

declare mask_condition.simps [simp del]

definition format_positions :: "(nat \<times> nat) list" where
  "format_positions = [(8, 0), (8, 1), (8, 2), (8, 3), (8, 4), (8, 5), (8, 7), (8, 8), (7, 8), (5, 8), (4, 8), (3, 8), (2, 8), (1, 8), (0, 8)]"

definition level_of :: "nat \<Rightarrow> Ecc" where
  "level_of n = (if n = 0 then MEDIUM else if n = 1 then LOW else if n = 2 then HIGH else QUARTILE)"

definition read_format :: "(nat \<Rightarrow> nat \<Rightarrow> bool) \<Rightarrow> Ecc \<times> nat" where
  "read_format m =
     (let code = xor (num_of (rev (map (\<lambda>(x, y). m x y) format_positions))) 0x5412 div 1024
      in (level_of (code div 8), code mod 8))"

definition read_codewords :: "nat \<Rightarrow> nat \<Rightarrow> (nat \<Rightarrow> nat \<Rightarrow> bool) \<Rightarrow> bytes" where
  "read_codewords v msk m =
     (let bits = map (\<lambda>(x, y). m x y \<noteq> mask_condition msk x y) (data_positions v)
      in map (\<lambda>k. word_of_nat (num_of (take 8 (drop (8 * k) bits)))) [0..<length bits div 8])"

definition scan_codewords :: "nat \<Rightarrow> (nat \<Rightarrow> nat \<Rightarrow> bool) \<Rightarrow> bytes" where
  "scan_codewords n m =
     (let v = (n - 17) div 4; (ecl, msk) = read_format m in symbol_data v ecl (read_codewords v msk m))"

definition scan_text :: "nat \<Rightarrow> (nat \<Rightarrow> nat \<Rightarrow> bool) \<Rightarrow> string option" where
  "scan_text n m = (let bs = byte_stream (scan_codewords n m) in read_segments (Suc (length bs)) ((n - 17) div 4) bs)"

section \<open>The format bits\<close>

lemma format_values:
  "format_bits LOW 0 = 30660" "format_bits LOW 1 = 29427" "format_bits LOW 2 = 32170" "format_bits LOW 3 = 30877"
  "format_bits LOW 4 = 26159" "format_bits LOW 5 = 25368" "format_bits LOW 6 = 27713" "format_bits LOW 7 = 26998"
  "format_bits MEDIUM 0 = 21522" "format_bits MEDIUM 1 = 20773" "format_bits MEDIUM 2 = 24188" "format_bits MEDIUM 3 = 23371"
  "format_bits MEDIUM 4 = 17913" "format_bits MEDIUM 5 = 16590" "format_bits MEDIUM 6 = 20375" "format_bits MEDIUM 7 = 19104"
  "format_bits QUARTILE 0 = 13663" "format_bits QUARTILE 1 = 12392" "format_bits QUARTILE 2 = 16177" "format_bits QUARTILE 3 = 14854"
  "format_bits QUARTILE 4 = 9396" "format_bits QUARTILE 5 = 8579" "format_bits QUARTILE 6 = 11994" "format_bits QUARTILE 7 = 11245"
  "format_bits HIGH 0 = 5769" "format_bits HIGH 1 = 5054" "format_bits HIGH 2 = 7399" "format_bits HIGH 3 = 6608"
  "format_bits HIGH 4 = 1890" "format_bits HIGH 5 = 597" "format_bits HIGH 6 = 3340" "format_bits HIGH 7 = 2107"
  by code_simp+

definition decode_format :: "nat \<Rightarrow> Ecc \<times> nat" where
  "decode_format n = (let code = xor n 0x5412 div 1024 in (level_of (code div 8), code mod 8))"

lemma decode_format_bits:
  assumes "0 \<le> msk" and "msk \<le> 7"
  shows "decode_format (nat (format_bits ecl msk)) = (ecl, nat msk)" and "0 \<le> format_bits ecl msk" "format_bits ecl msk < 2 ^ 15"
proof -
  have m: "msk = 0 \<or> msk = 1 \<or> msk = 2 \<or> msk = 3 \<or> msk = 4 \<or> msk = 5 \<or> msk = 6 \<or> msk = 7" using assms by linarith
  show "decode_format (nat (format_bits ecl msk)) = (ecl, nat msk)"
    using m by (cases ecl; elim disjE; simp add: format_values decode_format_def level_of_def Let_def)
  show "0 \<le> format_bits ecl msk" "format_bits ecl msk < 2 ^ 15"
    using m by (cases ecl; elim disjE; simp add: format_values)+
qed

lemma getBit_nat: "0 \<le> b \<Longrightarrow> getBit b i = bit (nat b) i"
proof -
  assume "0 \<le> b"
  then have "bit b i = bit (nat b) i" by (metis bit_of_nat_iff_bit int_nat_eq)
  then show ?thesis by (simp add: getBit_def and_one_eq mod_2_eq_odd bit_iff_odd_drop_bit)
qed

lemma num_of_format:
  assumes "0 \<le> b" and "b < 2 ^ 15"
  shows "num_of (rev (map (getBit b) [0..<15])) = nat b"
proof -
  have "rev (map (getBit b) [0..<15]) = bits_of 15 (nat b)"
    using getBit_nat [OF assms(1)] by (simp add: bits_of_def rev_map del: upt_rec_numeral)
  moreover have "nat b < 2 ^ 15" using assms by (simp add: nat_less_iff)
  ultimately show ?thesis by simp
qed

text \<open>The modules of the first copy are drawn once, with the bits in order.\<close>

lemma format_read:
  assumes "21 \<le> n" and "\<And>x y. x < n \<Longrightarrow> y < n \<Longrightarrow> drawn_at (format_pattern n bits) x y \<Longrightarrow> (int x, int y, m x y) \<in> set (format_pattern n bits)"
  shows "map (\<lambda>(x, y). m x y) format_positions = map (getBit bits) [0..<15]"
proof -
  have at: "(int x, int y, m x y) \<in> set (format_pattern n bits)" if "x \<le> 8" "y \<le> 8" "x = 8 \<and> y \<noteq> 6 \<or> y = 8 \<and> x \<noteq> 6" for x y
    by (rule assms(2)) (use that assms(1) format_at [OF assms(1), of x y bits] in auto)
  have up: "m 8 y = getBit bits y" if "y \<le> 5" for y
    using at [of 8 y] that assms(1) by (auto simp: set_format)
  have left: "m x 8 = getBit bits (14 - x)" if x5: "x \<le> 5" for x
  proof -
    have "(int x, 8, m x 8) \<in> set (format_pattern n bits)" using at [of x 8] x5 by simp
    then obtain i where "9 \<le> i" "i < 15" "int x = 14 - int i" "m x 8 = getBit bits i"
      using x5 assms(1) by (auto simp: set_format)
    moreover from this have "i = 14 - x" by linarith
    ultimately show ?thesis by simp
  qed
  have corner: "m 8 7 = getBit bits 6" "m 8 8 = getBit bits 7" "m 7 8 = getBit bits 8"
    using at [of 8 7] at [of 8 8] at [of 7 8] assms(1) by (auto simp: set_format)
  have "[0..<15] = [0, 1, 2, 3, 4, 5, 6, 7, 8, 9, 10, 11, 12, 13, 14]" by (simp add: upt_rec)
  then show ?thesis
    using up [of 0] up [of 1] up [of 2] up [of 3] up [of 4] up [of 5] left [of 0] left [of 1] left [of 2] left [of 3] left [of 4] left [of 5] corner
    by (simp add: format_positions_def)
qed

section \<open>The code the constructor builds\<close>

lemma mask_condition_eq: "0 \<le> msk \<Longrightarrow> msk \<le> 7 \<Longrightarrow> mask_condition (nat msk) x y = mask_inverts msk x y"
proof -
  assume "0 \<le> msk" "msk \<le> 7"
  then have "msk = 0 \<or> msk = 1 \<or> msk = 2 \<or> msk = 3 \<or> msk = 4 \<or> msk = 5 \<or> msk = 6 \<or> msk = 7" by linarith
  then show ?thesis
    by (elim disjE)
      (simp_all only: mask_condition.simps mask_inverts_def even_iff_mod_2_eq_zero dvd_eq_mod_eq_0 add.commute [of "y div 2"], simp_all)
qed

definition code_holds :: "nat \<Rightarrow> Ecc \<Rightarrow> bytes \<Rightarrow> int \<Rightarrow> qr_code \<Rightarrow> bool" where
  "code_holds v ecl raw msk q \<longleftrightarrow> (\<exists>q0 q1. holds_bits v ecl raw (mask_inverts msk) q1
     \<and> drawn_by (format_pattern (4 * v + 17) (format_bits ecl msk)) q0 q1 \<and> qc_size q0 = 4 * v + 17 \<and> q = q1\<lparr>qc_isFunction := []\<rparr>)"

lemma carries_mask: "holds_bits v ecl raw flip (q\<lparr>qc_mask := m\<rparr>) = holds_bits v ecl raw flip q"
  by (simp add: holds_bits_def code_wf_def fn_at_def dark_at_def)

lemma draw_mask: "draw_modules ps q = Inr q' \<Longrightarrow> qc_mask q' = qc_mask q"
  by (induction ps arbitrary: q) (auto simp: draw_modules_def setFunctionModule_def split: if_splits)

lemma mask_mask: "qr_fold (mask_module m) zs q = Inr q' \<Longrightarrow> qc_mask q' = qc_mask q"
  by (induction zs arbitrary: q) (auto simp: mask_module_def)

lemma finish_mask: "finish_with m q = Inr q' \<Longrightarrow> qc_mask q' = qc_mask q"
  by (auto simp: finish_with_def applyMask_def drawFormatBits_def dest!: draw_mask mask_mask split: if_splits)

text \<open>The state before the mask is chosen.\<close>

definition laid_out :: "nat \<Rightarrow> Ecc \<Rightarrow> bytes \<Rightarrow> qr_code qr_result" where
  "laid_out v ecl data =
     qr_bind (drawFunctionPatterns (blank_code v ecl)) (\<lambda>q. qr_bind (addEccAndInterleave v ecl data) (\<lambda>all. drawCodewords all q))"

lemma laid_out_run:
  assumes "1 \<le> v" "v \<le> 40" and "length data = data_codewords v ecl"
  obtains q raw where "laid_out v ecl data = Inr q" and "holds_bits v ecl raw no_inversion q" and "length raw = raw_modules v div 8"
    and "symbol_data v ecl raw = data"
    and "\<And>i j. j < num_blocks v ecl \<Longrightarrow> i < ecc_len v ecl \<Longrightarrow> poly_at (field_power 2 i) (symbol_block v ecl raw j) = 0"
proof -
  obtain q0 where q0: "drawFunctionPatterns (blank_code v ecl) = Inr q0" "drawn_by (function_patterns v ecl) (blank_code v ecl) q0"
    using drawFunctionPatterns_run [OF assms(1,2)] by blast
  have b: "qc_size (blank_code v ecl) = 4 * v + 17" "qc_version (blank_code v ecl) = v" "qc_ecl (blank_code v ecl) = ecl"
    "x < 4 * v + 17 \<Longrightarrow> y < 4 * v + 17 \<Longrightarrow> \<not> fn_at (blank_code v ecl) x y" for x y
    by (simp_all add: blank_code_def Let_def fn_at_def)
  have fn: "fn_at q0 x y = fn_region v x y" if "x < 4 * v + 17" "y < 4 * v + 17" for x y
    using q0(2) that b(1) b(4) [OF that] patterns_region [OF assms(1,2) that] by (auto simp: drawn_by_def)
  obtain raw where raw: "addEccAndInterleave v ecl data = Inr raw" "length raw = raw_modules v div 8" "symbol_data v ecl raw = data"
    "\<And>i j. j < num_blocks v ecl \<Longrightarrow> i < ecc_len v ecl \<Longrightarrow> poly_at (field_power 2 i) (symbol_block v ecl raw j) = 0"
    using addEccAndInterleave_run [OF assms] by blast
  obtain q where "drawCodewords raw q0 = Inr q" "holds_bits v ecl raw no_inversion q"
    using drawCodewords_run [OF assms(1,2) _ _ _ _ fn raw(2), where ecl = ecl] drawnD [OF q0(2)] b by auto
  then show thesis using raw q0(1) that [of q raw] by (simp add: laid_out_def)
qed

lemma new_QrCode_eq:
  assumes "1 \<le> v" "v \<le> 40" "- 1 \<le> msk" "msk \<le> 7"
  shows "new_QrCode pf v ecl data msk =
    qr_bind (laid_out v ecl data) (\<lambda>q. qr_bind (choose_mask pf msk q) (\<lambda>(q, msk).
      qr_bind (finish_with msk (q\<lparr>qc_mask := msk\<rparr>)) (\<lambda>q. Inr (q\<lparr>qc_isFunction := []\<rparr>))))"
  using assms by (auto simp: new_QrCode_def laid_out_def finish_with_def MIN_VERSION_def MAX_VERSION_def Let_def qr_bind_def split: sum.splits)

lemma finish_holds:
  assumes "1 \<le> v" "v \<le> 40" "length raw = raw_modules v div 8" "holds_bits v ecl raw no_inversion q" "0 \<le> msk" "msk \<le> 7"
  shows "\<exists>q'. finish_with msk (q\<lparr>qc_mask := msk\<rparr>) = Inr q' \<and> code_holds v ecl raw msk (q'\<lparr>qc_isFunction := []\<rparr>) \<and> qc_mask q' = msk"
proof -
  have "holds_bits v ecl raw no_inversion (q\<lparr>qc_mask := msk\<rparr>)" using assms(4) by (simp add: carries_mask)
  from finish_carries [OF assms(1-3) this assms(5,6)] obtain q' q1 where
    "finish_with msk (q\<lparr>qc_mask := msk\<rparr>) = Inr q'" "holds_bits v ecl raw (mask_inverts msk) q'"
    "drawn_by (format_pattern (4 * v + 17) (format_bits ecl msk)) q1 q'" "qc_size q1 = 4 * v + 17"
    by blast
  then show ?thesis using finish_mask by (fastforce simp: code_holds_def)
qed

lemma new_QrCode_run:
  assumes "1 \<le> v" "v \<le> 40" and "length data = data_codewords v ecl" and "- 1 \<le> msk" "msk \<le> 7"
  obtains q raw where "new_QrCode pf v ecl data msk = Inr q" and "code_holds v ecl raw (qc_mask q) q" and "0 \<le> qc_mask q" "qc_mask q \<le> 7"
    and "length raw = raw_modules v div 8" and "symbol_data v ecl raw = data"
    and "\<And>i j. j < num_blocks v ecl \<Longrightarrow> i < ecc_len v ecl \<Longrightarrow> poly_at (field_power 2 i) (symbol_block v ecl raw j) = 0"
proof -
  obtain q raw where q: "laid_out v ecl data = Inr q" "holds_bits v ecl raw no_inversion q" "length raw = raw_modules v div 8"
    "symbol_data v ecl raw = data"
    "\<And>i j. j < num_blocks v ecl \<Longrightarrow> i < ecc_len v ecl \<Longrightarrow> poly_at (field_power 2 i) (symbol_block v ecl raw j) = 0"
    using laid_out_run [OF assms(1-3)] by blast
  obtain q1 m where c: "choose_mask pf msk q = Inr (q1, m)" "holds_bits v ecl raw no_inversion q1" "0 \<le> m" "m \<le> 7"
  proof (cases "msk = - 1")
    case True
    then show thesis using choose_mask_run [OF assms(1,2) q(3,2), of pf] that by (auto simp: best_so_far_def)
  next
    case False
    then show thesis using that [of q msk] q(2) assms(4,5) by (simp add: choose_mask_def)
  qed
  obtain q2 where f: "finish_with m (q1\<lparr>qc_mask := m\<rparr>) = Inr q2" "code_holds v ecl raw m (q2\<lparr>qc_isFunction := []\<rparr>)" "qc_mask q2 = m"
    using finish_holds [OF assms(1,2) q(3) c(2-4)] by blast
  show thesis
    by (rule that [of "q2\<lparr>qc_isFunction := []\<rparr>" raw])
      (use new_QrCode_eq [OF assms(1,2,4,5), of pf ecl data] q c f in simp_all)
qed

section \<open>Reading it\<close>

lemma bytes_of_stream:
  assumes "k < length raw"
  shows "word_of_nat (num_of (take 8 (drop (8 * k) (byte_stream raw)))) = raw ! k"
proof -
  have "take 8 (drop (8 * k) (byte_stream raw)) = bits_of 8 (unat (raw ! k))"
  proof (rule nth_equalityI)
    show "length (take 8 (drop (8 * k) (byte_stream raw))) = length (bits_of 8 (unat (raw ! k)))" using assms by simp
    fix i assume "i < length (take 8 (drop (8 * k) (byte_stream raw)))"
    then have i: "i < 8" by simp
    then have "8 * k + i < 8 * length raw" using assms by linarith
    then have "byte_stream raw ! (8 * k + i) = bit (raw ! k) (7 - i)" using nth_byte_stream [of "8 * k + i" raw] i by simp
    then show "take 8 (drop (8 * k) (byte_stream raw)) ! i = bits_of 8 (unat (raw ! k)) ! i"
      using i assms nth_bits_of [of i 8 "unat (raw ! k)"] by (simp add: bit_unsigned_iff)
  qed
  moreover have "unat (raw ! k) < 2 ^ 8" using unsigned_less [of "raw ! k"] by simp
  ultimately show ?thesis by simp
qed

lemma code_holds_scan:
  assumes "1 \<le> v" "v \<le> 40" and "code_holds v ecl raw msk q" and "0 \<le> msk" "msk \<le> 7" and "length raw = raw_modules v div 8"
  shows "getSize q = 4 * v + 17 \<and> scan_codewords (getSize q) (\<lambda>x y. getModule q (int x) (int y)) = symbol_data v ecl raw"
proof -
  obtain q0 q1 where q1: "holds_bits v ecl raw (mask_inverts msk) q1"
    "drawn_by (format_pattern (4 * v + 17) (format_bits ecl msk)) q0 q1" "qc_size q0 = 4 * v + 17" and q: "q = q1\<lparr>qc_isFunction := []\<rparr>"
    using assms(3) by (auto simp: code_holds_def)
  note c = carriesD [OF q1(1)]
  let ?n = "4 * v + 17" and ?m = "\<lambda>x y. getModule q (int x) (int y)"
  have m: "?m x y = dark_at q1 x y" if "x < ?n" "y < ?n" for x y
    using that c(1,2) get_at_square [of ?n "qc_modules q1" x y] by (simp add: getModule_def q qr_module_def dark_at_def code_wf_def)
  have n: "21 \<le> ?n" using assms(1) by simp
  have "map (\<lambda>(x, y). ?m x y) format_positions = map (getBit (format_bits ecl msk)) [0..<15]"
    by (rule format_read [OF n]) (use q1(2,3) m in \<open>auto simp: drawn_by_def\<close>)
  then have fmt: "read_format ?m = (ecl, nat msk)"
    using decode_format_bits [OF assms(4,5), of ecl] num_of_format [of "format_bits ecl msk"]
    by (simp only: read_format_def decode_format_def)
  have bits: "map (\<lambda>(x, y). ?m x y \<noteq> mask_condition (nat msk) x y) (data_positions v) ! k = byte_stream raw ! k"
    if k: "k < 8 * length raw" for k
  proof -
    obtain x y where xy: "data_positions v ! k = (x, y)" by fastforce
    have "k < length (data_positions v)" using k assms(6) data_positions_facts(3) [OF assms(1,2)] by simp
    moreover note data_position_range [OF assms(1,2,6) k xy]
    ultimately show ?thesis
      using xy m [of x y] c(6) [OF k xy] mask_condition_eq [OF assms(4,5)] by auto
  qed
  let ?bits = "map (\<lambda>(x, y). ?m x y \<noteq> mask_condition (nat msk) x y) (data_positions v)"
  have len: "length ?bits = raw_modules v" using data_positions_facts(3) [OF assms(1,2)] by simp
  then have "take (8 * length raw) ?bits = byte_stream raw"
    using assms(6) bits by (intro nth_equalityI) auto
  moreover have "take 8 (drop (8 * k) ?bits) = take 8 (drop (8 * k) (take (8 * length raw) ?bits))" if "k < length raw" for k
    using that by (simp add: drop_take)
  ultimately have "read_codewords v (nat msk) ?m = map (\<lambda>k. raw ! k) [0..<length raw]"
    using bytes_of_stream len assms(6) by (simp add: read_codewords_def Let_def)
  then have "read_codewords v (nat msk) ?m = raw" by (simp add: map_nth)
  moreover have "getSize q = ?n" using c(2) by (simp add: getSize_def q)
  ultimately show ?thesis by (simp add: scan_codewords_def fmt Let_def)
qed

section \<open>Texts\<close>

text \<open>A text fits a version and a level: its length fits the count field and its bits the capacity.\<close>

definition text_fits :: "nat \<Rightarrow> Ecc \<Rightarrow> string \<Rightarrow> bool" where
  "text_fits v ecl t \<longleftrightarrow> t = [] \<or>
     length t < 2 ^ numCharCountBits (sg_mode (text_segment t)) v \<and> length (segment_bits v (text_segment t)) \<le> 8 * data_codewords v ecl"

definition text_segments :: "string \<Rightarrow> QrSegment list" where
  "text_segments t = (if t = [] then [] else [text_segment t])"

definition text_bits :: "nat \<Rightarrow> string \<Rightarrow> bool list" where
  "text_bits v t = (if t = [] then [] else segment_bits v (text_segment t))"

lemma data_codewords_bound:
  assumes "1 \<le> v" "v \<le> 40"
  shows "8 * data_codewords v ecl \<le> 29648" "0 < data_codewords v ecl"
proof -
  have "data_codewords v ecl \<le> raw_modules v div 8" using codewords_split(1) [OF assms, of ecl] by simp
  then show "8 * data_codewords v ecl \<le> 29648" using raw_modules_range [OF assms] by linarith
  have "0 < short_data v ecl" "0 < num_short v ecl"
    using table_facts(6) [OF assms, of ecl] codewords_split(3) [OF assms, of ecl] by (simp_all add: short_data_def)
  then show "0 < data_codewords v ecl" by (simp add: data_codewords_def)
qed

lemma total_bits_fit:
  assumes "1 \<le> v" "v \<le> 40"
  shows "getTotalBits (text_segments t) v \<noteq> - 1 \<and> getTotalBits (text_segments t) v \<le> int (8 * data_codewords v ecl) \<longleftrightarrow> text_fits v ecl t"
    and "text_fits v ecl t \<Longrightarrow> getTotalBits (text_segments t) v = int (length (text_bits v t))"
proof -
  let ?s = "text_segment t"
  have small: "numCharCountBits (sg_mode ?s) v \<le> 16"
    using text_segment_mode(1) [of t] count_widths [OF assms] by (auto simp: by_version_def)
  have total: "getTotalBits [?s] v = (if int (length t) < 2 ^ numCharCountBits (sg_mode ?s) v \<and> int (length (segment_bits v ?s)) \<le> INT_MAX
      then int (length (segment_bits v ?s)) else - 1)"
    using getTotalBits_single [OF _ small] by (simp add: text_segment_mode)
  have len: "int (length t) < 2 ^ k \<longleftrightarrow> length t < 2 ^ k" for k by (metis of_nat_less_iff of_nat_numeral of_nat_power)
  show "getTotalBits (text_segments t) v \<noteq> - 1 \<and> getTotalBits (text_segments t) v \<le> int (8 * data_codewords v ecl) \<longleftrightarrow> text_fits v ecl t"
    using data_codewords_bound(1) [OF assms, of ecl] total
    by (auto simp: text_segments_def text_fits_def len INT_MAX_def getTotalBits_def simp del: getTotalBits_loop.simps(2))
  show "text_fits v ecl t \<Longrightarrow> getTotalBits (text_segments t) v = int (length (text_bits v t))"
    using data_codewords_bound(1) [OF assms, of ecl] total
    by (auto simp: text_segments_def text_bits_def text_fits_def len INT_MAX_def getTotalBits_def simp del: getTotalBits_loop.simps(2))
qed

text \<open>The search finds the smallest version the text fits.\<close>

lemma find_version_run:
  assumes "1 \<le> v" "v \<le> 40"
  shows "case find_version (text_segments t) ecl 40 v of
      Inr (w, used) \<Rightarrow> v \<le> w \<and> w \<le> 40 \<and> text_fits w ecl t \<and> used = int (length (text_bits w t)) \<and> (\<forall>u. v \<le> u \<longrightarrow> u < w \<longrightarrow> \<not> text_fits u ecl t)
    | Inl e \<Rightarrow> (\<exists>m. e = Data_too_long m) \<and> (\<forall>u. v \<le> u \<longrightarrow> u \<le> 40 \<longrightarrow> \<not> text_fits u ecl t)"
  using assms
proof (induction "40 - v" arbitrary: v)
  case 0
  then have v: "v = 40" by simp
  show ?case
    using total_bits_fit(1) [OF 0(2,3), of t ecl] total_bits_fit(2) [OF 0(2,3), of ecl t] unfolding v
    by (subst find_version.simps) (auto simp: data_codewords_eq Let_def mult.commute)
next
  case (Suc k)
  then have v: "v < 40" "1 \<le> v" by simp_all
  show ?case
  proof (cases "text_fits v ecl t")
    case True
    then show ?thesis
      using total_bits_fit(1) [of v t ecl] total_bits_fit(2) [of v ecl t] v
      by (subst find_version.simps) (auto simp: data_codewords_eq Let_def mult.commute)
  next
    case False
    then have "find_version (text_segments t) ecl 40 v = find_version (text_segments t) ecl 40 (v + 1)"
      using total_bits_fit(1) [of v t ecl] v
      by (subst find_version.simps) (auto simp: data_codewords_eq Let_def mult.commute)
    moreover have "k = 40 - (v + 1)" using Suc.hyps(2) by simp
    note Suc.hyps(1) [OF this]
    moreover have "\<not> text_fits u ecl t" if "\<not> (v + 1 \<le> u)" "v \<le> u" for u using that False by (simp add: not_less_eq_eq)
    ultimately show ?thesis
      using v by (auto split: sum.splits)
  qed
qed

lemma boost_run:
  assumes "1 \<le> v" "v \<le> 40" and "used \<le> int (8 * data_codewords v ecl)"
  shows "\<exists>e. boost_level b v used ecl = Inr e \<and> used \<le> int (8 * data_codewords v e)"
  using assms by (auto simp: boost_level_def data_codewords_eq mult.commute)

lemma concat_text:
  assumes "1 \<le> v" "v \<le> 40" and "text_fits v ecl t"
  shows "concat_segments v (text_segments t) = Inr (text_bits v t)"
proof (cases "t = []")
  case False
  then have "length t < 2 ^ numCharCountBits (sg_mode (text_segment t)) v" using assms(3) by (simp add: text_fits_def)
  then have "int (length t) < 2 ^ numCharCountBits (sg_mode (text_segment t)) v"
    by (metis of_nat_less_iff of_nat_numeral of_nat_power)
  then show ?thesis using concat_text_segment [OF assms(1,2)] False by (simp add: text_segments_def text_bits_def)
qed (simp add: concat_segments_def text_segments_def text_bits_def)

lemma read_text:
  assumes "1 \<le> v" "v \<le> 40" and "text_fits v ecl t" and "no_more_segments pad"
  shows "read_segments (Suc (Suc n)) v (text_bits v t @ pad) = Some t"
proof (cases "t = []")
  case True
  then show ?thesis using read_no_more [OF assms(4)] by (simp add: text_bits_def del: read_segments.simps)
next
  case False
  then have "length t < 2 ^ numCharCountBits (sg_mode (text_segment t)) v" using assms(3) by (simp add: text_fits_def)
  then have "int (length t) < 2 ^ numCharCountBits (sg_mode (text_segment t)) v"
    by (metis of_nat_less_iff of_nat_numeral of_nat_power)
  then show ?thesis using read_text_segment [OF assms(1,2) _ assms(4)] False by (simp add: text_bits_def del: read_segments.simps)
qed

text \<open>The data codewords of a text and what the constructor gets.\<close>

lemma encode_text_run:
  assumes "length t < 2 ^ 31"
  shows "case encodeText pf t ecl of
      Inr q \<Rightarrow> (\<exists>v e raw. 1 \<le> v \<and> v \<le> 40 \<and> text_fits v ecl t \<and> (\<forall>u. 1 \<le> u \<longrightarrow> u < v \<longrightarrow> \<not> text_fits u ecl t)
        \<and> code_holds v e raw (qc_mask q) q \<and> 0 \<le> qc_mask q \<and> qc_mask q \<le> 7 \<and> length raw = raw_modules v div 8
        \<and> (\<exists>pad. byte_stream (symbol_data v e raw) = text_bits v t @ pad \<and> no_more_segments pad)
        \<and> (\<forall>i j. j < num_blocks v e \<longrightarrow> i < ecc_len v e \<longrightarrow> poly_at (field_power 2 i) (symbol_block v e raw j) = 0))
    | Inl e \<Rightarrow> (\<exists>m. e = Data_too_long m) \<and> (\<forall>v. 1 \<le> v \<longrightarrow> v \<le> 40 \<longrightarrow> \<not> text_fits v ecl t)"
proof -
  have segs: "makeSegments t = Inr (text_segments t)" using makeSegments_eq [OF assms] by (simp add: text_segments_def)
  show ?thesis
  proof (cases "find_version (text_segments t) ecl 40 1")
    case (Inl e)
    then have "encodeText pf t ecl = Inl e"
      by (simp add: encodeText_def segs encodeSegments_def MIN_VERSION_def MAX_VERSION_def)
    then show ?thesis using find_version_run [where v = 1 and t = t and ecl = ecl] Inl by simp
  next
    case (Inr r)
    then obtain v used where fv: "find_version (text_segments t) ecl 40 1 = Inr (v, used)" by (cases r) auto
    then have v: "1 \<le> v" "v \<le> 40" "text_fits v ecl t" "used = int (length (text_bits v t))"
      "\<And>u. 1 \<le> u \<Longrightarrow> u < v \<Longrightarrow> \<not> text_fits u ecl t"
      using find_version_run [where v = 1 and t = t and ecl = ecl] by auto
    have "used \<le> int (8 * data_codewords v ecl)"
      using v(3,4) by (auto simp: text_fits_def text_bits_def)
    then obtain e where e: "boost_level True v used ecl = Inr e" "used \<le> int (8 * data_codewords v e)"
      using boost_run [OF v(1,2)] by blast
    have fit: "length (text_bits v t) \<le> 8 * data_codewords v e" using e(2) v(4) by linarith
    obtain pad where pad: "pad_bits (8 * data_codewords v e) (text_bits v t) = Inr (text_bits v t @ pad)"
      "length (text_bits v t @ pad) = 8 * data_codewords v e" "no_more_segments pad"
      using pad_bits_run [OF fit] by auto
    obtain ds where ds: "pack_bits (text_bits v t @ pad) = Inr ds" "length ds = data_codewords v e" "byte_stream ds = text_bits v t @ pad"
      using pack_bits_run [of "text_bits v t @ pad"] pad(2) by auto
    obtain q raw where q: "new_QrCode pf v e ds (- 1) = Inr q" "code_holds v e raw (qc_mask q) q" "0 \<le> qc_mask q" "qc_mask q \<le> 7"
      "length raw = raw_modules v div 8" "symbol_data v e raw = ds"
      "\<And>i j. j < num_blocks v e \<Longrightarrow> i < ecc_len v e \<Longrightarrow> poly_at (field_power 2 i) (symbol_block v e raw j) = 0"
      using new_QrCode_run [OF v(1,2) ds(2), of "- 1" pf] by auto
    have "encodeText pf t ecl = Inr q"
      using fv e(1) concat_text [OF v(1-3)] data_codewords_eq [OF v(1,2), of e] pad(1) ds(1) q(1)
      by (simp add: encodeText_def segs encodeSegments_def MIN_VERSION_def MAX_VERSION_def mult.commute)
    moreover have "byte_stream (symbol_data v e raw) = text_bits v t @ pad" using ds(3) q(6) by simp
    ultimately show ?thesis using v q(2-5,7) pad(3)
      by - (simp only: sum.case, rule exI [of _ v], rule exI [of _ e], rule exI [of _ raw], blast)
  qed
qed

lemma encode_text_scans:
  assumes "length t < 2 ^ 31"
  shows "case encodeText pf t ecl of
      Inr q \<Rightarrow> scan_text (getSize q) (\<lambda>x y. getModule q (int x) (int y)) = Some t \<and> (\<exists>v. 1 \<le> v \<and> v \<le> 40 \<and> text_fits v ecl t)
    | Inl e \<Rightarrow> (\<exists>m. e = Data_too_long m) \<and> (\<forall>v. 1 \<le> v \<longrightarrow> v \<le> 40 \<longrightarrow> \<not> text_fits v ecl t)"
proof (cases "encodeText pf t ecl")
  case (Inl e)
  then show ?thesis using encode_text_run [OF assms, where pf = pf and ecl = ecl] by simp
next
  case (Inr q)
  with encode_text_run [OF assms, where pf = pf and ecl = ecl] obtain v e raw pad where
    r: "1 \<le> v" "v \<le> 40" "text_fits v ecl t" "code_holds v e raw (qc_mask q) q" "0 \<le> qc_mask q" "qc_mask q \<le> 7" "length raw = raw_modules v div 8"
    "byte_stream (symbol_data v e raw) = text_bits v t @ pad" "no_more_segments pad"
    by auto
  note s = code_holds_scan [OF r(1,2,4-7)]
  let ?bs = "byte_stream (symbol_data v e raw)"
  have "read_segments (Suc (length ?bs)) v ?bs = Some t"
  proof (cases "t = []")
    case True
    then show ?thesis using read_no_more [OF r(9)] by (simp add: r(8) text_bits_def del: read_segments.simps)
  next
    case False
    then obtain n where "length ?bs = Suc n" by (cases ?bs) (auto simp: r(8) text_bits_def segment_bits_def bits_of_def)
    then show ?thesis using read_text [OF r(1-3,9), of n] by (simp only: r(8))
  qed
  moreover have "(4 * v + 17 - 17) div 4 = v" by simp
  ultimately show ?thesis using s r(1-3) Inr by (auto simp: scan_text_def Let_def simp del: read_segments.simps)
qed

text \<open>The penalty of a finished code is that of the code before the function map is dropped.\<close>

lemma penalty_of_modules: "qc_modules a = qc_modules b \<Longrightarrow> qc_size a = qc_size b \<Longrightarrow> getPenaltyScore a = getPenaltyScore b"
proof -
  assume a: "qc_modules a = qc_modules b" "qc_size a = qc_size b"
  then have "qr_module a = qr_module b" "block_penalty a = block_penalty b"
    by (simp_all add: qr_module_def fun_eq_iff block_penalty_def)
  then show ?thesis unfolding getPenaltyScore_def a by simp
qed

lemma new_QrCode_laid_out:
  assumes "new_QrCode pf v ecl data msk = Inr q"
  obtains q0 raw where "1 \<le> v" "v \<le> 40" "- 1 \<le> msk" "msk \<le> 7" and "laid_out v ecl data = Inr q0"
    and "holds_bits v ecl raw no_inversion q0" and "length raw = raw_modules v div 8"
proof -
  have v: "1 \<le> v" "v \<le> 40" "- 1 \<le> msk" "msk \<le> 7" using assms by (auto simp: new_QrCode_def MIN_VERSION_def MAX_VERSION_def split: if_splits)
  then obtain q0 where q0: "laid_out v ecl data = Inr q0"
    using assms by (cases "laid_out v ecl data") (auto simp: new_QrCode_eq)
  then obtain all where "addEccAndInterleave v ecl data = Inr all"
    by (cases "addEccAndInterleave v ecl data"; cases "drawFunctionPatterns (blank_code v ecl)") (auto simp: laid_out_def)
  then have "length data = data_codewords v ecl"
    using data_codewords_eq [OF v(1,2), of ecl] by (auto simp: addEccAndInterleave_def split: if_splits)
  with laid_out_run [OF v(1,2), of data ecl] q0 obtain raw where "holds_bits v ecl raw no_inversion q0" "length raw = raw_modules v div 8"
    by auto
  then show thesis using that v q0 by blast
qed

lemma finish_same:
  assumes "1 \<le> v" "v \<le> 40" "length raw = raw_modules v div 8" and "holds_bits v ecl raw no_inversion q" "holds_bits v ecl raw no_inversion q'"
    and "agree_but (on_format (4 * v + 17)) q q'" and "0 \<le> m" "m \<le> 7"
    and "finish_with m (q\<lparr>qc_mask := k\<rparr>) = Inr a" "finish_with m (q'\<lparr>qc_mask := k'\<rparr>) = Inr b"
  shows "qc_modules b = qc_modules a \<and> qc_version b = qc_version a \<and> qc_size b = qc_size a \<and> qc_ecl b = qc_ecl a \<and> qc_mask a = k \<and> qc_mask b = k'"
proof -
  have "agree_but (on_format (4 * v + 17)) (q\<lparr>qc_mask := k\<rparr>) (q'\<lparr>qc_mask := k'\<rparr>)"
    using assms(6) by (auto simp: agree_but_def code_wf_def dark_at_def)
  then have "agree_but no_module a b"
    by - (rule finish_agree [OF _ _ assms(7-10)], use assms(1) carriesD(2) [OF assms(4)] in auto)
  then show ?thesis
    using agree_modules finish_mask [OF assms(9)] finish_mask [OF assms(10)] by (auto simp: agree_but_def)
qed

text \<open>Any choice of the mask ends with the mask finished on a code that differs from the laid out one in the format bits.\<close>

lemma choose_mask_keeps:
  assumes "1 \<le> v" "v \<le> 40" "length raw = raw_modules v div 8" and "holds_bits v ecl raw no_inversion q" and "- 1 \<le> msk" "msk \<le> 7"
  obtains q1 m best where "choose_mask pf msk q = Inr (q1, m)" and "0 \<le> m" "m \<le> 7" and "holds_bits v ecl raw no_inversion q1"
    and "agree_but (on_format (4 * v + 17)) q q1" and "msk = - 1 \<Longrightarrow> best_so_far q 8 m best" and "msk \<noteq> - 1 \<Longrightarrow> m = msk"
proof (cases "msk = - 1")
  case True
  then obtain q1 m best where "choose_mask pf msk q = Inr (q1, m)" "best_so_far q 8 m best"
    "holds_bits v ecl raw no_inversion q1" "agree_but (on_format (4 * v + 17)) q q1"
    using choose_mask_run [OF assms(1-4), of pf] by blast
  then show thesis using that [of q1 m best] True by (simp add: best_so_far_def)
next
  case False
  then show thesis
    using that [of q msk] assms(4-6) agree_refl [of q] carriesD(1) [OF assms(4)] by (simp add: choose_mask_def)
qed

lemma new_QrCode_penalty:
  assumes "1 \<le> v" "v \<le> 40" "length raw = raw_modules v div 8" and "holds_bits v ecl raw no_inversion q0"
    and "laid_out v ecl data = Inr q0" and "- 1 \<le> msk" "msk \<le> 7"
  shows "\<exists>q1 m best a. new_QrCode pf v ecl data msk = Inr (a\<lparr>qc_isFunction := []\<rparr>) \<and> 0 \<le> m \<and> m \<le> 7
    \<and> holds_bits v ecl raw no_inversion q1 \<and> agree_but (on_format (4 * v + 17)) q0 q1
    \<and> finish_with m (q1\<lparr>qc_mask := m\<rparr>) = Inr a \<and> qc_mask a = m \<and> mask_penalty q0 m = getPenaltyScore a
    \<and> (if msk = - 1 then best_so_far q0 8 m best else m = msk)"
proof -
  obtain q1 m best where c: "choose_mask pf msk q0 = Inr (q1, m)" "0 \<le> m" "m \<le> 7" "holds_bits v ecl raw no_inversion q1"
    "agree_but (on_format (4 * v + 17)) q0 q1" "msk = - 1 \<Longrightarrow> best_so_far q0 8 m best" "msk \<noteq> - 1 \<Longrightarrow> m = msk"
    using choose_mask_keeps [OF assms(1-4,6,7), where pf = pf] by metis
  obtain a where a: "finish_with m (q1\<lparr>qc_mask := m\<rparr>) = Inr a" "qc_mask a = m"
    using finish_holds [OF assms(1-3) c(4,2,3)] by blast
  obtain b where b: "finish_with m q0 = Inr b" using finish_carries [OF assms(1-4) c(2,3)] by blast
  have "qc_modules a = qc_modules b \<and> qc_size a = qc_size b"
    using finish_same [OF assms(1-4) c(4,5,2,3), where k = "qc_mask q0" and a = b] b a(1) by simp
  then have "mask_penalty q0 m = getPenaltyScore a"
    using b penalty_of_modules [of a b] by (simp add: mask_penalty_def)
  moreover have "new_QrCode pf v ecl data msk = Inr (a\<lparr>qc_isFunction := []\<rparr>)"
    using new_QrCode_eq [OF assms(1,2,6,7), of pf ecl data] assms(5) c(1) a(1) by simp
  ultimately show ?thesis using c a by (cases "msk = - 1") auto
qed

text \<open>
  C39: The mask the constructor chooses by itself is the best one: the code is the one built with that mask given, and no
  mask gives a code with a lower penalty.
\<close>

theorem automatic_mask_is_best:
  assumes "new_QrCode pf v ecl data (- 1) = Inr q" and "0 \<le> m" "m \<le> 7" and "new_QrCode pf v ecl data m = Inr q'"
  shows "new_QrCode pf v ecl data (getMask q) = Inr q \<and>
    (\<exists>p p'. getPenaltyScore q = Inr p \<and> getPenaltyScore q' = Inr p' \<and> p \<le> p')"
proof -
  obtain q0 raw where l: "1 \<le> v" "v \<le> 40" "laid_out v ecl data = Inr q0" "holds_bits v ecl raw no_inversion q0" "length raw = raw_modules v div 8"
    using new_QrCode_laid_out [OF assms(1)] by metis
  obtain q1 k best a where a: "new_QrCode pf v ecl data (- 1) = Inr (a\<lparr>qc_isFunction := []\<rparr>)" "0 \<le> k" "k \<le> 7"
    "holds_bits v ecl raw no_inversion q1" "agree_but (on_format (4 * v + 17)) q0 q1" "finish_with k (q1\<lparr>qc_mask := k\<rparr>) = Inr a"
    "qc_mask a = k" "mask_penalty q0 k = getPenaltyScore a" "best_so_far q0 8 k best"
    using new_QrCode_penalty [OF l(1,2,5,4,3), of "- 1" pf] by auto
  have q: "q = a\<lparr>qc_isFunction := []\<rparr>" using a(1) assms(1) by simp
  obtain b where b: "finish_with k (q0\<lparr>qc_mask := k\<rparr>) = Inr b" using finish_holds [OF l(1,2,5,4) a(2,3)] by blast
  have "new_QrCode pf v ecl data k = Inr (b\<lparr>qc_isFunction := []\<rparr>)"
    using new_QrCode_eq [OF l(1,2), of k pf ecl data] a(2,3) l(3) b by (simp add: choose_mask_def)
  moreover have "b\<lparr>qc_isFunction := []\<rparr> = a\<lparr>qc_isFunction := []\<rparr>"
    using finish_same [OF l(1,2,5,4) a(4,5,2,3) b a(6)] by (simp add: qr_code.equality)
  ultimately have same: "new_QrCode pf v ecl data (getMask q) = Inr q" using q a(7) by (simp add: getMask_def)
  obtain c where c: "new_QrCode pf v ecl data m = Inr (c\<lparr>qc_isFunction := []\<rparr>)" "mask_penalty q0 m = getPenaltyScore c"
    using new_QrCode_penalty [OF l(1,2,5,4,3), of m pf] assms(2,3) by auto
  have p: "getPenaltyScore q = getPenaltyScore a" "getPenaltyScore q' = getPenaltyScore c"
    using c(1) assms(4) by (auto simp: q intro: penalty_of_modules)
  obtain p' where p': "mask_penalty q0 m = Inr p'" using mask_penalty_run [OF l(1,2,5,4) assms(2,3)] by blast
  have "mask_penalty q0 (int (nat m)) = Inr p'" "nat m < 8" using p' assms(2,3) by simp_all
  then have "best \<le> p'" "mask_penalty q0 k = Inr best" using a(9) unfolding best_so_far_def by blast+
  then show ?thesis using same p p' a(8) c(2) by simp
qed

theorem automatic_mask_is_best_witness:
  "\<exists>q q'. new_QrCode Linux 1 LOW (replicate 19 0) (- 1) = Inr q \<and> new_QrCode Linux 1 LOW (replicate 19 0) 3 = Inr q' \<and>
    new_QrCode Linux 1 LOW (replicate 19 0) (getMask q) = Inr q"
proof -
  have n: "length (replicate 19 (0 :: u8)) = data_codewords 1 LOW" by code_simp
  obtain q where q: "new_QrCode Linux 1 LOW (replicate 19 0) (- 1) = Inr q"
    by (rule new_QrCode_run [OF _ _ n, of "- 1" Linux]) auto
  obtain q' where q': "new_QrCode Linux 1 LOW (replicate 19 0) 3 = Inr q'"
    by (rule new_QrCode_run [OF _ _ n, of 3 Linux]) auto
  show ?thesis using automatic_mask_is_best [OF q _ _ q'] q q' by auto
qed

text \<open>A text takes no more bits than its bytes, and twenty for the header.\<close>

lemma short_text_fits:
  assumes "1 \<le> v" "v \<le> 40" and "length t < 2 ^ 8" and "20 + 8 * length t \<le> 8 * data_codewords v ecl"
  shows "text_fits v ecl t"
proof -
  have "length (numeric_bits t) \<le> 8 * length t" by (induction t rule: numeric_bits.induct) simp_all
  moreover have "length (alnum_bits t) \<le> 8 * length t" by (induction t rule: alnum_bits.induct) simp_all
  moreover have "length (byte_data_bits t) = 8 * length t" by (induction t) (simp_all add: byte_data_bits_def)
  ultimately have "length (sg_data (text_segment t)) \<le> 8 * length t" by (simp add: text_segment_def)
  moreover have "8 \<le> numCharCountBits (sg_mode (text_segment t)) v" "numCharCountBits (sg_mode (text_segment t)) v \<le> 16"
    using count_widths [OF assms(1,2)] by (simp_all add: text_segment_def by_version_def)
  moreover have "(2 :: nat) ^ 8 \<le> 2 ^ numCharCountBits (sg_mode (text_segment t)) v" by (rule power_increasing) (use calculation in simp_all)
  ultimately show ?thesis using assms(3,4) by (simp add: text_fits_def segment_bits_def)
qed

text \<open>
  C36: Every text of less than two billion characters that fits some version is encoded, and the reader gets it back from the modules of
  the code; the others are refused with \<open>data_too_long\<close>.
\<close>

theorem text_code_scans:
  assumes "length t < 2 ^ 31"
  shows "case encodeText pf t ecl of
      Inr q \<Rightarrow> scan_text (getSize q) (\<lambda>x y. getModule q (int x) (int y)) = Some t \<and> (\<exists>v. 1 \<le> v \<and> v \<le> 40 \<and> text_fits v ecl t)
    | Inl e \<Rightarrow> (\<exists>m. e = Data_too_long m) \<and> (\<forall>v. 1 \<le> v \<longrightarrow> v \<le> 40 \<longrightarrow> \<not> text_fits v ecl t)"
  by (rule encode_text_scans [OF assms])

theorem text_code_scans_witness:
  "\<exists>q. encodeText Windows ''HELLO QR'' MEDIUM = Inr q \<and> scan_text (getSize q) (\<lambda>x y. getModule q (int x) (int y)) = Some ''HELLO QR''"
proof -
  have "data_codewords 1 MEDIUM = 16" by code_simp
  then have "text_fits 1 MEDIUM ''HELLO QR''" by (intro short_text_fits) simp_all
  moreover have "length ''HELLO QR'' < 2 ^ 31" by simp
  note text_code_scans [OF this, where pf = Windows and ecl = MEDIUM]
  ultimately show ?thesis by (cases "encodeText Windows ''HELLO QR'' MEDIUM") (auto dest: spec [of _ 1])
qed

end
