(* ===== verification/PairingImage.thy ===== *)
theory PairingImage
  imports PairingForm QrScan
begin

text \<open>
  The picture the form shows: a reader of the picture takes the size from its view box and the dark modules from its
  path, and the reader of QR codes finds in them the payload of the form.
\<close>

section \<open>A reader of the picture\<close>

text \<open>What follows the first \<open>p\<close>.\<close>

fun after :: "string \<Rightarrow> string \<Rightarrow> string" where
  "after p [] = []"
| "after p (c # s) = (if prefix p (c # s) then drop (length p) (c # s) else after p s)"

definition read_number :: "string \<Rightarrow> nat" where
  "read_number s = nat (digits_val (takeWhile qr_digit s))"

text \<open>The points at which the paths begin.\<close>

function read_path :: "string \<Rightarrow> (nat \<times> nat) list" where
  "read_path s =
     (case dropWhile (\<lambda>c. c \<noteq> CHR ''M'') s of
        [] \<Rightarrow> []
      | _ # r \<Rightarrow> (read_number r, read_number (tl (dropWhile qr_digit r))) # read_path r)"
  by auto
termination
proof (relation "measure length")
  fix s :: string and c r
  assume "dropWhile (\<lambda>c. c \<noteq> CHR ''M'') s = c # r"
  then show "(r, s) \<in> measure length" using length_dropWhile_le [of "\<lambda>c. c \<noteq> CHR ''M''" s] by simp
qed simp

declare read_path.simps [simp del]

text \<open>Every picture has a border of two modules.\<close>

definition picture_size :: "string \<Rightarrow> nat" where
  "picture_size img = read_number (after (''viewBox='' @ QT @ ''0 0 '') img) - 4"

definition picture_module :: "string \<Rightarrow> nat \<Rightarrow> nat \<Rightarrow> bool" where
  "picture_module img x y \<longleftrightarrow>
     (x + 2, y + 2) \<in> set (read_path (takeWhile (\<lambda>c. c \<noteq> CHR 0x22) (after (''<path d='' @ QT) img)))"

section \<open>Numbers\<close>

lemma nat_str_digits: "c \<in> set (nat_str n) \<Longrightarrow> qr_digit c"
proof (induction n rule: nat_str.induct)
  case (1 n)
  then show ?case by (subst (asm) (2) nat_str.simps) (auto simp: qr_digit_def split: if_splits)
qed

lemma digits_val_snoc: "digits_val (ds @ [c]) = 10 * digits_val ds + (int (of_char c) - 48)"
  by (simp add: digits_val_def)

lemma nat_str_value: "digits_val (nat_str n) = int n"
proof (induction n rule: nat_str.induct)
  case (1 n)
  show ?case
  proof (cases "n < 10")
    case True
    then show ?thesis by (simp add: nat_str.simps [of n] digits_val_def)
  next
    case False
    then have "digits_val (nat_str n) = 10 * int (n div 10) + int (n mod 10)"
      using 1 by (simp add: nat_str.simps [of n] digits_val_snoc)
    then show ?thesis by (metis mult_div_mod_eq of_nat_add of_nat_mult of_nat_numeral)
  qed
qed

lemma takeWhile_digits:
  assumes "rest = [] \<or> \<not> qr_digit (hd rest)"
  shows "takeWhile qr_digit (nat_str n @ rest) = nat_str n" and "dropWhile qr_digit (nat_str n @ rest) = rest"
proof -
  have d: "\<And>c. c \<in> set (nat_str n) \<Longrightarrow> qr_digit c" by (rule nat_str_digits)
  have "takeWhile qr_digit rest = []" "dropWhile qr_digit rest = rest" using assms by (cases rest; simp)+
  then show "takeWhile qr_digit (nat_str n @ rest) = nat_str n" "dropWhile qr_digit (nat_str n @ rest) = rest"
    using d by (simp_all add: takeWhile_append2 dropWhile_append2)
qed

lemma read_number_nat_str:
  assumes "rest = [] \<or> \<not> qr_digit (hd rest)"
  shows "read_number (nat_str n @ rest) = n"
  using takeWhile_digits [OF assms, of n] by (simp add: read_number_def nat_str_value)

section \<open>The path\<close>

lemma read_path_skip: "CHR ''M'' \<notin> set p \<Longrightarrow> read_path (p @ s) = read_path s"
  by (subst (1 2) read_path.simps, subst dropWhile_append2) auto

lemma nat_str_no: "\<not> qr_digit c \<Longrightarrow> c \<notin> set (nat_str n)"
  using nat_str_digits by blast

lemma read_module_path: "read_path (module_path b x y @ s) = (x + b, y + b) # read_path s"
proof -
  let ?tail = "''h1v1h-1z'' @ s"
  let ?rest = "nat_str (x + b) @ CHR '','' # nat_str (y + b) @ ?tail"
  have comma: "\<not> qr_digit (CHR '','')" and h: "\<not> qr_digit (CHR ''h'')" and m: "\<not> qr_digit (CHR ''M'')"
    by (code_simp)+
  have num: "read_number ?rest = x + b" by (rule read_number_nat_str) (simp add: comma)
  have "dropWhile qr_digit ?rest = CHR '','' # nat_str (y + b) @ ?tail"
    by (rule takeWhile_digits(2)) (simp add: comma)
  then have num2: "read_number (tl (dropWhile qr_digit ?rest)) = y + b"
    using read_number_nat_str [of ?tail "y + b"] h by simp
  have "read_path (CHR ''M'' # ?rest) = (x + b, y + b) # read_path ?rest"
    using num num2 by (subst read_path.simps) simp
  moreover have "read_path ?rest = read_path s"
    using read_path_skip [of "nat_str (x + b) @ CHR '','' # nat_str (y + b) @ ''h1v1h-1z''" s] nat_str_no [OF m]
    by simp
  moreover have "read_path (module_path b x y @ s) = read_path (CHR ''M'' # ?rest)"
    using read_path_skip [of "'' ''" "CHR ''M'' # ?rest"] by (auto simp: module_path_def)
  ultimately show ?thesis by simp
qed

lemma read_row: "read_path (concat (map (\<lambda>x. if d x then module_path b x y else []) xs) @ s) =
    map (\<lambda>x. (x + b, y + b)) (filter d xs) @ read_path s"
  by (induction xs) (simp_all add: read_module_path)

lemma read_rows: "read_path (concat (map (\<lambda>y. concat (map (\<lambda>x. if d x y then module_path b x y else []) xs)) ys) @ s) =
    concat (map (\<lambda>y. map (\<lambda>x. (x + b, y + b)) (filter (\<lambda>x. d x y) xs)) ys) @ read_path s"
  by (induction ys) (simp_all add: read_row)

lemma read_svg_path: "set (read_path (svg_path b n d)) = {(x + b, y + b) |x y. x < n \<and> y < n \<and> d x y}"
proof -
  have "read_path [] = []" by (subst read_path.simps) simp
  then show ?thesis
    using read_rows [where s = "[]" and xs = "[0..<n]" and ys = "[0..<n]" and d = d and b = b]
    by (auto simp: svg_path_def)
qed

lemma module_path_plain: "CHR 0x22 \<notin> set (module_path b x y)"
proof -
  have "\<not> qr_digit (CHR 0x22)" by code_simp
  then show ?thesis using nat_str_no by (auto simp: module_path_def)
qed

lemma svg_path_plain: "c \<in> set (svg_path b n d) \<Longrightarrow> c \<noteq> CHR 0x22"
  using module_path_plain by (auto simp: svg_path_def split: if_splits)

section \<open>The picture\<close>

lemma after_skip: "c \<notin> set ds \<Longrightarrow> after (c # p) (ds @ s) = after (c # p) s"
  by (induction ds) auto

lemma svg_read:
  assumes "encodeText pf (c_text t) MEDIUM = Inr q" and "GenerateSVG pf t = Some svg"
  shows "picture_size (''data:image/svg+xml;utf8,'' @ svg) = getSize q"
    and "picture_module (''data:image/svg+xml;utf8,'' @ svg) x y = getModule q (int x) (int y)"
proof -
  let ?n = "nat_str (getSize q + 4)" and ?p = "svg_path 2 (getSize q) (\<lambda>x y. getModule q (int x) (int y))"
  let ?img = "''data:image/svg+xml;utf8,'' @ svg"
  have lt: "\<not> qr_digit (CHR ''<'')" and sp: "\<not> qr_digit (CHR '' '')" and qt: "\<not> qr_digit (CHR 0x22)" by (code_simp)+
  have "\<exists>r. after (''viewBox='' @ QT @ ''0 0 '') ?img = ?n @ CHR '' '' # r"
    using assms(2) unfolding GenerateSVG_def assms(1) by (clarsimp simp: QT_def NL_def Let_def)
  then obtain r where r: "after (''viewBox='' @ QT @ ''0 0 '') ?img = ?n @ CHR '' '' # r" by blast
  then show "picture_size ?img = getSize q"
    using read_number_nat_str [of "CHR '' '' # r" "getSize q + 4"] sp by (simp add: picture_size_def)
  have "\<exists>r. after (''<path d='' @ QT) ?img = ?p @ CHR 0x22 # r"
    using assms(2) unfolding GenerateSVG_def assms(1) by (clarsimp simp: QT_def NL_def Let_def after_skip nat_str_no [OF lt])
  then obtain r' where r': "after (''<path d='' @ QT) ?img = ?p @ CHR 0x22 # r'" by blast
  have "takeWhile (\<lambda>c. c \<noteq> CHR 0x22) (?p @ CHR 0x22 # r') = ?p"
    using svg_path_plain by (subst takeWhile_append2) auto
  then have "picture_module ?img x y \<longleftrightarrow> x < getSize q \<and> y < getSize q \<and> getModule q (int x) (int y)"
    unfolding picture_module_def r' by (simp add: read_svg_path)
  then show "picture_module ?img x y = getModule q (int x) (int y)" by (auto simp: getModule_def getSize_def)
qed

text \<open>
  C40: The picture the pairing form shows is right: whoever reads the size and the dark modules from it and scans them gets
  the payload the form made; and there is a picture exactly when the payload fits a QR code.
\<close>

theorem pairing_image_scans:
  assumes "BuildPairingPayload J e w = Some payload" and "length payload < 2 ^ 31"
  shows "case GetQRImage J e w of
      Some img \<Rightarrow> scan_text (picture_size img) (picture_module img) = Some (c_text payload)
    | None \<Rightarrow> \<forall>v. 1 \<le> v \<longrightarrow> v \<le> 40 \<longrightarrow> \<not> text_fits v MEDIUM (c_text payload)"
proof -
  have "length (c_text payload) < 2 ^ 31"
    using assms(2) length_takeWhile_le [of "\<lambda>c. c \<noteq> CHR 0x00" payload] by (simp add: c_text_def)
  note s = encode_text_scans [OF this, where pf = "fe_platform e" and ecl = MEDIUM]
  show ?thesis
  proof (cases "encodeText (fe_platform e) (c_text payload) MEDIUM")
    case (Inl err)
    then show ?thesis using s assms(1) by (simp add: GetQRImage_def GenerateSVG_def)
  next
    case (Inr q)
    then obtain svg where svg: "GenerateSVG (fe_platform e) payload = Some svg" by (simp add: GenerateSVG_def Let_def)
    have "picture_module (''data:image/svg+xml;utf8,'' @ svg) = (\<lambda>x y. getModule q (int x) (int y))"
      by (intro ext svg_read(2) [OF Inr svg])
    then show ?thesis using s assms(1) Inr svg svg_read(1) [OF Inr svg] by (simp add: GetQRImage_def)
  qed
qed

text \<open>The payload of a first pairing, with the JSON writer of the witnesses, which writes numbers in unary.\<close>

theorem pairing_image_scans_witness:
  "\<exists>img payload. GetQRImage toy_json (demo_form\<lparr>fe_discoveryPort := 1\<rparr>) demo_filled = Some img \<and>
     BuildPairingPayload toy_json (demo_form\<lparr>fe_discoveryPort := 1\<rparr>) demo_filled = Some payload \<and>
     scan_text (picture_size img) (picture_module img) = Some (c_text payload)"
proof -
  let ?e = "demo_form\<lparr>fe_discoveryPort := 1\<rparr>"
  have "map_option length (BuildPairingPayload toy_json ?e demo_filled) = Some 74"
    by (simp add: demo_form_simps BuildPairingPayload_def demo_dump PairingQRData_ToJson_def new_PairingQRData_def toy_json_def)
  then obtain p where p: "BuildPairingPayload toy_json ?e demo_filled = Some p" "length p = 74" by auto
  have "length (c_text p) \<le> 74"
    using p(2) length_takeWhile_le [of "\<lambda>c. c \<noteq> CHR 0x00" p] by (simp add: c_text_def)
  moreover have "data_codewords 6 MEDIUM = 108" by code_simp
  ultimately have "text_fits 6 MEDIUM (c_text p)" by (intro short_text_fits) simp_all
  then have "\<not> (\<forall>v. 1 \<le> v \<longrightarrow> v \<le> 40 \<longrightarrow> \<not> text_fits v MEDIUM (c_text p))" by (auto intro!: exI [of _ 6])
  moreover have "length p < 2 ^ 31" using p(2) by simp
  note pairing_image_scans [OF p(1) this]
  ultimately show ?thesis using p(1) by (cases "GetQRImage toy_json ?e demo_filled") auto
qed

end
