(* ===== verification/Spec2Isabelle.thy ===== *)
theory Spec2Isabelle
  imports Prelude StringUtils Base32 AppInfo ExternalLibs WitnessLibs CryptUtils Sockets BaseConnection
    PairingMethods Packets Shell AppSettings PairedDevicesStorage UnlockStates BaseUnlockConnection
    Streams Localization Workers UnlockClients CloudUnlockClient NetworkHelper UDPBroadcaster UnlockServers PairingServer
    UnlockHandler PlatformHelper PamModule PAMHelper ServiceInstaller PairingForm WinPlatform Installers SettingsForm MainWindow
    CloudCommandListener KerbHelpers UnlockCredential CredentialProvider
    UnlockSystem KeyScanner Bluetooth Updater LoginCheck ListModels UnlockTestWindow WinFirewall ComServer Logging SystemCalls
    QrSegments QrText QrField QrTables QrCode QrCodewords QrLayout QrCapacity QrDrawing QrMask QrScan PairingImage
begin

text \<open>
  Verification of the desktop program of PC Bio Unlock: a computer is unlocked with the finger print reader of a paired phone.

  \<^bold>\<open>The program.\<close> A desktop application (\<open>desktop/\<close>) pairs phones, edits the settings, installs the login
  modules and looks for updates. The login modules (\<open>natives/\<close>) are a PAM module with a set-uid helper on Linux and macOS, and a
  credential provider on Windows. Both stand on a common library (\<open>common/\<close>). A pairing gives the phone an id and a
  key, and the computer stores the password of the user encrypted under a second key that only the phone keeps. To unlock,
  the login module starts an unlock handler; the handler reaches the paired phones over TCP, Bluetooth or a relay (the computer
  calls, or waits for a call and announces itself by UDP), sends a request sealed under the key of the pairing with a fresh token, and
  accepts an answer that is sealed under the same key and returns the token and the password key. The decrypted password
  goes to the login system.

  \<^bold>\<open>The theories\<close>, from the bottom up; paths are below \<open>common/src\<close>, \<open>desktop/src\<close>, \<open>natives\<close>
  or, for the QR codes, \<open>deps\<close>.

  \<^item> \<open>Prelude\<close> (bytes, words, bounded copies, results), \<open>Streams\<close> (\<open>std::getline\<close>), \<open>ExternalLibs\<close> (OpenSSL and
    \<open>nlohmann::json\<close> as records of functions, with their laws), \<open>WitnessLibs\<close> (instances of both that satisfy the laws).
  \<^item> \<open>StringUtils\<close>, \<open>Base32\<close> (\<open>utils/StringUtils.cpp\<close>), \<open>AppInfo\<close> (versions), \<open>Localization\<close> (\<open>utils/I18n.cpp\<close>,
    \<open>LocaleHelper.cpp\<close>), \<open>CryptUtils\<close> (\<open>utils/CryptUtils.cpp\<close>: sealed packets and stored passwords), \<open>Logging\<close>.
  \<^item> \<open>Sockets\<close>, \<open>BaseConnection\<close> (framed packets over a stream), \<open>Packets\<close> with \<open>PairingMethods\<close> (their contents).
  \<^item> \<open>Shell\<close> (files and commands), \<open>AppSettings\<close>, \<open>PairedDevicesStorage\<close> (the two files of the program, with their mutex and
    access rights).
  \<^item> \<open>UnlockStates\<close>, \<open>BaseUnlockConnection\<close> (the dialogue with a phone), \<open>Workers\<close> (the contract of the threads),
    \<open>UnlockClients\<close>, \<open>CloudUnlockClient\<close>, \<open>UnlockServers\<close> (the five connections), \<open>NetworkHelper\<close>, \<open>UDPBroadcaster\<close>,
    \<open>Bluetooth\<close>, \<open>KeyScanner\<close> (the keys that cancel an attempt), \<open>UnlockHandler\<close> (the attempt over all devices of a user),
    \<open>UnlockSystem\<close> (a whole attempt: the handler, its connections and their threads together).
  \<^item> \<open>PairingServer\<close> (the server a new phone talks to), \<open>PairingForm\<close> (the assistant that starts it, and the picture of
    its QR code), \<open>PairingImage\<close> (a reader of that picture).
  \<^item> The QR codes of \<open>qrcodegen.cpp\<close>: \<open>QrSegments\<close> (class \<open>QrSegment\<close>, and the results of all operations), \<open>QrField\<close> (products and
    Reed-Solomon remainders), \<open>QrTables\<close> (constants and capacities), \<open>QrCode\<close> (class \<open>QrCode\<close>); and what holds of them:
    \<open>QrText\<close> (segments), \<open>QrCodewords\<close> (padding, blocks, interleaving), \<open>QrLayout\<close>, \<open>QrCapacity\<close> (function patterns and the
    modules they leave), \<open>QrDrawing\<close> (the scan, masks, penalties), \<open>QrMask\<close> (the choice of the mask), \<open>QrScan\<close> (a reader of codes).
  \<^item> \<open>PlatformHelper\<close>, \<open>WinPlatform\<close>, \<open>LoginCheck\<close> (users and the check of a password on the three systems).
  \<^item> \<open>PamModule\<close> (\<open>pcbu-auth\<close> and \<open>pam-pcbiounlock\<close>); \<open>KerbHelpers\<close>, \<open>UnlockCredential\<close>, \<open>CredentialProvider\<close>,
    \<open>ComServer\<close> (\<open>win-pcbiounlock\<close>: the packed credentials, the tile and its listening thread, the provider, the library).
  \<^item> \<open>PAMHelper\<close>, \<open>ServiceInstaller\<close>, \<open>Installers\<close>, \<open>WinFirewall\<close> (\<open>installer/\<close>: installing the modules on the three systems).
  \<^item> \<open>SettingsForm\<close>, \<open>MainWindow\<close>, \<open>ListModels\<close>, \<open>UnlockTestWindow\<close>, \<open>Updater\<close>, \<open>CloudCommandListener\<close> (the
    windows of the desktop application, \<open>ui/\<close>, and the thread that obeys the lock command of a phone).

  \<^item> \<open>SystemCalls\<close>: the operations of several files that wrap calls of the system (socket options, host name, privileges, requests to the relay).
  \<^item> This theory: who gets in, for the whole program on Linux, macOS and Windows.

  \<^bold>\<open>State and operations.\<close> A class is a record of its members and an operation a function from the record to the record, with
  an option or a sum where it can fail; the names are those of the code. Where C++ leaves the behaviour undefined or throws
  without a handler, the function answers \<open>None\<close>. Machine integers are words where their width matters (lengths, ports,
  time stamps, \<open>HRESULT\<close>s). A thread is a function of the list of what it observes (the answers of \<open>recv\<close> and \<open>send\<close>, the turns of a
  polling loop, the rounds of a relay), so that every schedule is some list. Where the order of threads matters, the
  threads are an inductive step relation: \<open>hstep\<close> (the connections of an attempt, its mutex and condition variable),
  \<open>bstep\<close> (callers of the broadcaster), \<open>form_step\<close> (clicks in the assistant), \<open>tile_step\<close> (calls of \<open>LogonUI\<close> and the
  listening thread), \<open>scan_step\<close> (threads of the key scanner). What a thread received is stated of its script: \<open>packets_of\<close> and
  \<open>responses\<close> are the packets and answers that its stream holds, \<open>relay_asked\<close> the turns of the relay, \<open>hears\<close> either of them.

  \<^bold>\<open>Interfaces.\<close> \<open>packet_channel\<close> (framed packets), \<open>persistent_store\<close> and \<open>device_store\<close> (the files), \<open>worker\<close> with
  \<open>lazy_worker\<close> and \<open>joining_worker\<close> (starting and stopping threads; the lazy ones cannot be started again after their
  thread has ended by itself, since \<open>Stop\<close> does not join it), \<open>installer\<close> (what the windows rely on of \<open>ServiceInstaller\<close>) and
  \<open>login_check\<close> (what the assistant relies on of \<open>PlatformHelper\<close>) are locales. Each is interpreted on the definitions of the
  code, \<open>installer\<close> and \<open>login_check\<close> once for each of the three systems, and the properties rest on the interpretations.
  The locale \<open>settings_page\<close> extends \<open>installer\<close> by what the settings page needs. The windows see the installer through the
  record \<open>install_state\<close>, in which the settings are those that \<open>AppSettings::Get\<close> hands out and those in the file, which may not be
  writable; \<open>settings_view\<close> relates them to the model of \<open>AppSettings\<close>, for settings that name a machine.

  \<^bold>\<open>What is shown.\<close> Round trips: packets through a stream under any chunking, sealed packets within the clock window, stored
  passwords, settings, the pairing code, Base32, PAM files, the packed credentials of Windows, addresses of
  Bluetooth, and QR codes: the reader of \<open>QrScan\<close> follows the standard (format bits, the order of the modules, blocks,
  segments) and not the code, and gets every text back from the modules that are drawn, also from the picture of the pairing form.
  The product of the error correction is that of the field, whose laws make every block a codeword; the mask chosen is the best. Safety: an unlock, a pairing, a login with PAM, a lock command and a valid stored password each need what the program
  promises (an authentic and fresh packet under the right key, the token of this very attempt, the check of the
  system); \<open>attempt_needs_phone\<close>, \<open>login_needs_phone\<close> and \<open>windows_needs_phone\<close> put the parts together, from the data of the phone to the
  module that lets the user in, for every order of the threads. Refinement: the device file is a finite map. Invariants: the steps of the assistant, the results of an attempt, the single
  use of a success on the Windows tile. Liveness and termination: an honest phone unlocks, attempts are decided, no wake-up is
  lost. Several properties state behaviour that is not what the program means to do, as the code has it; the
  list of findings of the manifest names them.

  \<^bold>\<open>Bounds and fuel.\<close> Loops over streams recurse on the remaining script of the socket, and end by a measure on it. The turns of
  polling loops are lists, \<open>None\<close> when the list ends first; the properties say which turn ends the loop, so that a list which
  contains it is enough, or take a script that ends with the close of the connection. \<open>ReadPacket\<close> keeps the 16-bit length of the code, and the packet
  buffers their 2048 bytes, which bounds sealed data by 1992 and passwords by 976. The structure of Kerberos has 64 bytes
  on a 64-bit system; \<open>kerb_pack_roundtrip\<close> allows up to 4096 before the strings, whose lengths are 16-bit words.
  The reader of segments has one step of fuel more than there are bits, and each segment takes four. The texts of QR codes are below
  \<open>2 ^ 31\<close> characters, the range of \<open>int\<close>; \<open>LONG_MAX\<close> is that of the platform, above every penalty.

  \<^bold>\<open>Parameters.\<close> What is not in the repository is an argument: OpenSSL and the JSON library with their laws (a tag authenticates, a
  parsed dump has the fields that were written), the results of sockets, BlueZ and WinSock calls, the registry, the user
  databases and \<open>crypt\<close>, libpam, COM objects, Qt's conversions and dialogs, the relay, the download server, clocks and random bytes.
  Where \<open>std::sort\<close> leaves the order of equal elements open, the model takes the stable one.

  \<^bold>\<open>Not modelled.\<close> Of \<open>deps/qrcodegen.cpp\<close> only the assertions, which a release build does not have: those on the field product
  (\<open>rs_multiply_fits\<close>), the bits drawn (\<open>all_bits_drawn\<close>) and the mask follow from what is shown. \<open>android-app/\<close> and \<open>cloud/\<close> are programs of their own in
  other languages, and parameters here. The Objective-C++ files (\<open>*.Mac.mm\<close>) only drive IOBluetooth. The start of the program
  (\<open>main.cpp\<close>, \<open>elevator/\<close>), \<open>I18nWrapper\<close>, \<open>ResourceHelper\<close> and \<open>guid.cpp\<close> are glue. Of modelled files the
  following is left out: the layout of pages, \<open>KerbInteractiveUnlockLogonRepackNative\<close>, which the program does not use, and the reference
  counts of COM objects other than the library's own.
\<close>


section \<open>Logging in with PAM\<close>

text \<open>
  C1: On Linux and macOS nobody gets in without the phone: the PAM module answers success, or hands a password to the modules after it,
  only when a connection of the attempt to a phone that is paired for this very user received an authentic and fresh response that
  carries the token of this connection; the password decrypted with the key of that phone passed the check of the system, and a password handed
  over is a prefix of it. This holds for every order of the threads of the attempt and for whatever the network, the relay and
  the other devices answer.
\<close>

theorem login_needs_phone:
  assumes "crypt_laws (lb_crypt lib)" and "lb_platform lib \<noteq> Windows" and "\<forall>s. concat (deliver s) = s"
    and "pam_child env = login_child deliver (\<lambda>user. auth_main setuidOk tr handler checkLogin setPassword writes [user])"
    and "\<forall>user r msgs. handler user = Some (r, msgs) \<longrightarrow> user_attempt lib tr trf lookup prot dir f user prog tokens ws r"
    and "pam_sm_authenticate env = (res, shown, tok)" and "res = PAM_SUCCESS \<or> tok \<noteq> None"
  shows "\<exists>device pw. device \<in> set (fst (GetDevices (lb_json lib) (lb_platform lib) prot dir f)) \<and>
    pd_userName device = pam_user env \<and>
    user_phone_unlocked lib ws tokens (pam_user env) prog
      (fst (GetDevicesForUser (lb_json lib) (lb_platform lib) prot dir (pam_user env) f)) device pw \<and>
    checkLogin (pam_user env) pw = Some PL_SUCCESS \<and> (\<forall>t. tok = Some t \<longrightarrow> setPassword \<and> prefix t pw)"
proof -
  obtain r msgs where r: "handler (pam_user env) = Some (r, msgs)" "re_state r = US_SUCCESS" "pd_userName (re_device r) = pam_user env"
    "checkLogin (pam_user env) (re_password r) = Some PL_SUCCESS" "\<forall>t. tok = Some t \<longrightarrow> setPassword \<and> prefix t (re_password r)"
    using pam_needs_unlock [OF assms(4,3,6,7)] by blast
  with assms(5) have "user_attempt lib tr trf lookup prot dir f (pam_user env) prog tokens ws r" by blast
  from user_attempt_phone [OF assms(1) this r(2)] r(3-5) show ?thesis by blast
qed

section \<open>Logging in on Windows\<close>

text \<open>
  C2: On Windows the tile of a user hands out a password only if it stands in its password field, or if a phone that is paired for this user
  answered one of the attempts of the listening thread (\<open>attempts\<close>: the files, tokens and connections that they met): the thread
  reported the result of this attempt, a connection of it to the phone received an authentic and fresh response that carries the
  token of this connection, and the password is the one decrypted with the key received from that phone. This holds for every
  order of the calls of the logon screen and the steps of the threads.
\<close>

theorem windows_needs_phone:
  assumes "crypt_laws (lb_crypt lib)"
    and "Initialize_credential tw tr alloc cpus ds ps user userDomain new_credential = (hr, c)" and "reachable_tile tw tr c s"
    and "\<forall>r \<in> set (tl_answers s). \<exists>(f, tokens, ws) \<in> attempts. user_attempt lib tr trf lookup prot dir f name prog tokens ws r"
    and "take_password tw (tl_cred s) = Some (pwd, d)"
  shows "cd_strings (tl_cred s) ! SFI_PASSWORD = Some pwd \<or>
    (\<exists>(f, tokens, ws) \<in> attempts. \<exists>r \<in> set (tl_answers s).
       user_attempt lib tr trf lookup prot dir f name prog tokens ws r \<and> pwd = w_str (tw (re_password r)) \<and>
       re_device r \<in> set (fst (GetDevices (lb_json lib) (lb_platform lib) prot dir f)) \<and> for_user (lb_platform lib) name (re_device r) \<and>
       user_phone_unlocked lib ws tokens name prog (fst (GetDevicesForUser (lb_json lib) (lb_platform lib) prot dir name f))
         (re_device r) (re_password r))"
proof (cases "IsUnlockSuccess (tl_cred s)")
  case False
  with assms(5) show ?thesis by (auto simp: take_password_def split: option.splits if_splits)
next
  case True
  let ?r = "cd_unlockResult (tl_cred s)"
  have r: "?r \<in> set (tl_answers s)" by (rule tile_success_answered [OF assms(2,3) True])
  then obtain f tokens ws where a: "user_attempt lib tr trf lookup prot dir f name prog tokens ws ?r" and w: "(f, tokens, ws) \<in> attempts"
    using assms(4) by fastforce
  from user_attempt_phone [OF assms(1) a] True have "re_device ?r \<in> set (fst (GetDevices (lb_json lib) (lb_platform lib) prot dir f)) \<and>
      for_user (lb_platform lib) name (re_device ?r) \<and>
      user_phone_unlocked lib ws tokens name prog (fst (GetDevicesForUser (lb_json lib) (lb_platform lib) prot dir name f))
        (re_device ?r) (re_password ?r)"
    by (simp add: IsUnlockSuccess_def)
  moreover have "pwd = w_str (tw (re_password ?r))" using assms(5) True by (simp add: take_password_def)
  ultimately have "user_attempt lib tr trf lookup prot dir f name prog tokens ws ?r \<and> pwd = w_str (tw (re_password ?r)) \<and>
      re_device ?r \<in> set (fst (GetDevices (lb_json lib) (lb_platform lib) prot dir f)) \<and> for_user (lb_platform lib) name (re_device ?r) \<and>
      user_phone_unlocked lib ws tokens name prog (fst (GetDevicesForUser (lb_json lib) (lb_platform lib) prot dir name f))
        (re_device ?r) (re_password ?r)"
    using a by blast
  with r w show ?thesis by (intro disjI2 bexI [of _ "(f, tokens, ws)"]) auto
qed

section \<open>Witnesses\<close>

text \<open>Ann's phone answers through the relay; the relay, the store and the computer's user are concrete.\<close>

definition ann_handler :: "string \<Rightarrow> (UnlockResult \<times> string list) option" where
  "ann_handler user = (if user = ''ann'' then Some (sys_result, []) else None)"

definition ann_check :: "string \<Rightarrow> string \<Rightarrow> PlatformLoginResult option" where
  "ann_check user pw = Some (if user = ''ann'' \<and> pw = ''secret'' then PL_SUCCESS else PL_INVALID_PASSWORD)"

definition ann_pam :: pam_env where
  "ann_pam = \<lparr>pam_service_rc = 0, pam_user_rc = 0, pam_conv_rc = 0, pam_user = ''ann'', pam_conv = True, pam_pipe = True,
     pam_child = login_child (\<lambda>s. [s]) (\<lambda>user. auth_main True (\<lambda>k. k) ann_handler ann_check True [6] [user])\<rparr>"

lemma login_needs_phone_witness:
  "pam_sm_authenticate ann_pam = (PAM_IGNORE, [], Some ''secret'') \<and>
   (\<exists>device pw. pd_userName device = ''ann'' \<and>
      user_phone_unlocked demo_libs (\<lambda>_. sys_world) [''tok''] ''ann'' ''login'' [sys_device] device pw \<and> prefix ''secret'' pw)"
proof -
  have run: "pam_sm_authenticate ann_pam = (PAM_IGNORE, [], Some ''secret'')"
    by (simp add: pam_sm_authenticate_def ann_pam_def login_child_def auth_main_def runMain_def ann_handler_def sys_result_def
        sys_conn_fields ann_check_def c_text_def drain.simps Let_def)
  have child: "pam_child ann_pam = login_child (\<lambda>s. [s]) (\<lambda>user. auth_main True (\<lambda>k. k) ann_handler ann_check True [6] [user])"
    by (simp add: ann_pam_def)
  have laws: "crypt_laws (lb_crypt demo_libs)" "lb_platform demo_libs \<noteq> Windows" by (simp_all add: demo_libs_def toy_crypt_laws)
  have h: "\<forall>user r msgs. ann_handler user = Some (r, msgs) \<longrightarrow>
      user_attempt demo_libs (\<lambda>k. k) (\<lambda>k _. k) (\<lambda>_. None) demo_prot ''d'' sys_store user ''login'' [''tok''] (\<lambda>_. sys_world) r"
    using sys_user_attempt by (simp add: ann_handler_def)
  have user: "pam_user ann_pam = ''ann''" by (simp add: ann_pam_def)
  have devices: "fst (GetDevicesForUser (lb_json demo_libs) (lb_platform demo_libs) demo_prot ''d'' ''ann'' sys_store) = [sys_device]"
    by (simp add: demo_libs_def sys_user_devices)
  from login_needs_phone [OF laws _ child h run] run show ?thesis unfolding user devices by auto
qed

lemma windows_needs_phone_witness:
  "\<exists>c s pwd d. reachable_tile wide_lit (\<lambda>k. k) c s \<and> take_password wide_lit (tl_cred s) = Some (pwd, d) \<and>
     (cd_strings (tl_cred s) ! SFI_PASSWORD = Some pwd \<or>
        pwd = w_str (wide_lit ''secret'') \<and>
        user_phone_unlocked demo_libs (\<lambda>_. sys_world) [''tok''] ''ann'' ''login'' [sys_device] sys_device ''secret'')"
proof -
  have "re_state sys_result = US_SUCCESS" by (simp add: sys_result_def)
  from demo_unlocked_tile [OF this] obtain c s where c: "Initialize_credential wide_lit (\<lambda>k. k) (\<lambda>_. True) CPUS_LOGON (replicate 6 zero_descriptor)
      rgFieldStatePairs (demo_user False) [] new_credential = (S_OK, c)" "reachable_tile wide_lit (\<lambda>k. k) c s"
    "tl_answers s = [sys_result]" "cd_unlockResult (tl_cred s) = sys_result" by blast
  have laws: "crypt_laws (lb_crypt demo_libs)" by (simp add: demo_libs_def toy_crypt_laws)
  have a: "\<forall>r \<in> set (tl_answers s). \<exists>(f, tokens, ws) \<in> {(sys_store, [''tok''], \<lambda>_. sys_world)}.
      user_attempt demo_libs (\<lambda>k. k) (\<lambda>k _. k) (\<lambda>_. None) demo_prot ''d'' f ''ann'' ''login'' tokens ws r"
    using c(3) sys_user_attempt by simp
  have devices: "fst (GetDevicesForUser (lb_json demo_libs) (lb_platform demo_libs) demo_prot ''d'' ''ann'' sys_store) = [sys_device]"
    by (simp add: demo_libs_def sys_user_devices)
  obtain pwd d where t: "take_password wide_lit (tl_cred s) = Some (pwd, d)"
    using c(4) by (simp add: take_password_def IsUnlockSuccess_def sys_result_def)
  have "re_device sys_result = sys_device" "re_password sys_result = ''secret''" by (simp_all add: sys_result_def)
  with windows_needs_phone [OF laws c(1,2) a t] c(2,3) t show ?thesis by (auto simp: devices)
qed

end
